(* ===== verification/Go_Prelude.thy ===== *)
theory Go_Prelude
  imports Main "HOL-Library.Word" "HOL-Library.Char_ord" "HOL-Library.List_Lexorder"
    "HOL-Library.Sublist"
begin

text \<open>
  What every component shares: Go's byte strings, its 64-bit unsigned integers, the result of
  a call that can return an error or panic, and general lemmas on lists and results.

  A Go \<open>string\<close> and a Go \<open>[]byte\<close> are both a list of bytes, and the source converts between
  the two without changing a byte. Both are HOL's \<open>string\<close> here, a byte being a \<open>char\<close>; the
  library's orders make \<open><\<close> on strings the bytewise lexicographic order of
  \<open>bytes.Compare\<close> and of Go's \<open><\<close> on strings.
\<close>

unbundle bit_operations_syntax

named_theorems wf_intros \<open>introduction rules for the invariants of the components\<close>
named_theorems key_simps \<open>equations that compute identity keys\<close>
named_theorems shape_simps \<open>lengths and depths of derived values\<close>

type_synonym bytes = string
type_synonym uint64 = "64 word"

abbreviation ord :: "char \<Rightarrow> nat" where
  "ord \<equiv> of_char"

section \<open>Results of Go calls\<close>

text \<open>
  A call of type \<open>(T, error)\<close> returns a value or an error; an out-of-range slice or a nil
  dereference panics. \<open>Panic\<close> is kept apart from \<open>Err\<close>, so that absence of panics is a
  statement of its own.
\<close>

datatype ('e, 'a) go = Ok 'a | Err 'e | Panic

fun go_bind :: "('e, 'a) go \<Rightarrow> ('a \<Rightarrow> ('e, 'b) go) \<Rightarrow> ('e, 'b) go" where
  "go_bind (Ok x) f = f x"
| "go_bind (Err e) f = Err e"
| "go_bind Panic f = Panic"

text \<open>Wrapping an error with \<open>fmt.Errorf\<close>.\<close>

fun go_wrap :: "('e \<Rightarrow> 'f) \<Rightarrow> ('e, 'a) go \<Rightarrow> ('f, 'a) go" where
  "go_wrap w (Ok x) = Ok x"
| "go_wrap w (Err e) = Err (w e)"
| "go_wrap w Panic = Panic"

text \<open>An operation that panics where the option is \<open>None\<close>.\<close>

fun go_of_option :: "'a option \<Rightarrow> ('e, 'a) go" where
  "go_of_option None = Panic"
| "go_of_option (Some x) = Ok x"

text \<open>\<open>xs[i]\<close> and \<open>xs[a:b]\<close>, which panic out of range.\<close>

definition go_index :: "nat \<Rightarrow> 'a list \<Rightarrow> ('e, 'a) go" where
  "go_index i xs = (if i < length xs then Ok (xs ! i) else Panic)"

definition go_slice :: "nat \<Rightarrow> nat \<Rightarrow> 'a list \<Rightarrow> 'a list option" where
  "go_slice a b xs = (if a \<le> b \<and> b \<le> length xs then Some (take (b - a) (drop a xs)) else None)"

text \<open>\<open>a && b\<close>: the second operand is evaluated, and may panic, only if the first one is true.\<close>

definition go_and :: "bool \<Rightarrow> ('e, bool) go \<Rightarrow> ('e, bool) go" where
  "go_and a b = (if a then b else Ok False)"

lemma go_index_inside [simp]: "i < length xs \<Longrightarrow> go_index i xs = Ok (xs ! i)"
  by (simp add: go_index_def)

lemma go_index_eq_Ok: "go_index i xs = Ok x \<longleftrightarrow> i < length xs \<and> xs ! i = x"
  by (simp add: go_index_def)

lemma go_index_neq_Err [simp]: "go_index i xs \<noteq> Err e"
  by (simp add: go_index_def)

lemma go_and_simps [simp]: "go_and True b = b" "go_and False b = Ok False"
  by (simp_all add: go_and_def)

text \<open>The error part of a result: \<open>None\<close> when the call succeeds.\<close>

fun go_error :: "('e, 'a) go \<Rightarrow> ('e, unit) go" where
  "go_error (Ok x) = Ok ()"
| "go_error (Err e) = Err e"
| "go_error Panic = Panic"

lemma go_bind_eq_Ok [simp]:
  "go_bind m f = Ok y \<longleftrightarrow> (\<exists>x. m = Ok x \<and> f x = Ok y)"
  by (cases m) auto

lemma go_bind_eq_Panic [simp]:
  "go_bind m f = Panic \<longleftrightarrow> m = Panic \<or> (\<exists>x. m = Ok x \<and> f x = Panic)"
  by (cases m) auto

lemma go_wrap_eq_Ok [simp]: "go_wrap w m = Ok x \<longleftrightarrow> m = Ok x"
  by (cases m) auto

lemma go_wrap_eq_Panic [simp]: "go_wrap w m = Panic \<longleftrightarrow> m = Panic"
  by (cases m) auto

lemma go_of_option_eq_Ok [simp]: "go_of_option m = Ok x \<longleftrightarrow> m = Some x"
  by (cases m) auto

lemma go_of_option_eq_Panic [simp]: "go_of_option m = Panic \<longleftrightarrow> m = None"
  by (cases m) auto

lemma go_of_option_neq_Err [simp]: "go_of_option m \<noteq> Err e"
  by (cases m) auto

lemma go_bind_assoc: "go_bind (go_bind m f) g = go_bind m (\<lambda>x. go_bind (f x) g)"
  by (cases m) auto

lemma go_error_bind_Ok [simp]:
  "(\<And>x. \<exists>y. f x = Ok y) \<Longrightarrow> go_error (go_bind m f) = go_error m"
  by (cases m) (auto, metis go_error.simps(1))

section \<open>Loops over lists with early exit\<close>

text \<open>A Go loop that appends one result per element and returns at the first error.\<close>

fun go_map :: "('a \<Rightarrow> ('e, 'b) go) \<Rightarrow> 'a list \<Rightarrow> ('e, 'b list) go" where
  "go_map f [] = Ok []"
| "go_map f (x # xs) = go_bind (f x) (\<lambda>y. go_bind (go_map f xs) (\<lambda>ys. Ok (y # ys)))"

lemma go_map_length [shape_simps]: "go_map f xs = Ok ys \<Longrightarrow> length ys = length xs"
  by (induction xs arbitrary: ys) auto

lemma go_map_all2: "go_map f xs = Ok ys \<longleftrightarrow> list_all2 (\<lambda>x y. f x = Ok y) xs ys"
  by (induction xs arbitrary: ys) (auto simp: list_all2_Cons1)

lemma go_map_Ok: "(\<And>x. x \<in> set xs \<Longrightarrow> f x = Ok (g x)) \<Longrightarrow> go_map f xs = Ok (map g xs)"
  by (induction xs) auto

lemma go_map_cong [fundef_cong]:
  "xs = ys \<Longrightarrow> (\<And>x. x \<in> set ys \<Longrightarrow> f x = g x) \<Longrightarrow> go_map f xs = go_map g ys"
proof (induction xs arbitrary: ys)
  case (Cons x xs)
  then show ?case by (cases ys) auto
qed auto

section \<open>Lists, bytes and words\<close>

text \<open>\<open>append(xs[:i], xs[i+1:]...)\<close>.\<close>

definition remove_at :: "nat \<Rightarrow> 'a list \<Rightarrow> 'a list" where
  "remove_at i xs = take i xs @ drop (i + 1) xs"

lemma drop_prefix_append: "prefix xs ys \<longleftrightarrow> take (length xs) ys = xs"
  by (metis append_eq_conv_conj append_take_drop_id prefixE prefixI)

lemma suffix_conv_drop:
  "suffix xs ys \<longleftrightarrow> length xs \<le> length ys \<and> drop (length ys - length xs) ys = xs"
proof
  assume "suffix xs ys"
  then show "length xs \<le> length ys \<and> drop (length ys - length xs) ys = xs"
    by (auto simp: suffix_def)
next
  assume "length xs \<le> length ys \<and> drop (length ys - length xs) ys = xs"
  then show "suffix xs ys" by (metis suffix_drop)
qed

lemma unat_of_nat_uint64 [simp]: "n < 2 ^ 64 \<Longrightarrow> unat (of_nat n :: uint64) = n"
  by (simp add: unat_of_nat take_bit_eq_mod)

end
