(* ===== verification/Go_Strings.thy ===== *)
theory Go_Strings
  imports Go_Prelude
begin

text \<open>
  The functions of Go's \<open>strings\<close>, \<open>bytes\<close>, \<open>unicode/utf8\<close> and \<open>strconv\<close> packages
  that the directory code calls, on byte strings. Go strings may hold any bytes; functions that
  work on characters read UTF-8 and see each malformed byte as the replacement character
  U+FFFD.

  Go's case tables beyond ASCII are large generated data. They are the parameter
  \<open>unicode\<close>: \<open>lower_table\<close> is \<open>unicode.ToLower\<close> and \<open>fold_table\<close> a representative of
  the \<open>unicode.SimpleFold\<close> orbit, both consulted for code points from 128 on only. No theorem
  assumes anything about them.
\<close>

record unicode =
  lower_table :: "nat \<Rightarrow> nat"
  fold_table :: "nat \<Rightarrow> nat"

section \<open>UTF-8\<close>

definition RuneError :: nat where
  "RuneError = 65533"

text \<open>The range of the second byte depends on the first (\<open>acceptRanges\<close> of \<open>unicode/utf8\<close>).\<close>

definition second_ok :: "nat \<Rightarrow> nat \<Rightarrow> bool" where
  "second_ok b0 b1 \<longleftrightarrow>
     (if b0 = 224 then 160 \<le> b1 \<and> b1 \<le> 191
      else if b0 = 237 then 128 \<le> b1 \<and> b1 \<le> 159
      else if b0 = 240 then 144 \<le> b1 \<and> b1 \<le> 191
      else if b0 = 244 then 128 \<le> b1 \<and> b1 \<le> 143
      else 128 \<le> b1 \<and> b1 \<le> 191)"

definition continuation :: "char \<Rightarrow> bool" where
  "continuation c \<longleftrightarrow> 128 \<le> ord c \<and> ord c \<le> 191"

definition DecodeRune :: "bytes \<Rightarrow> nat \<times> nat" where
  "DecodeRune s = (case s of [] \<Rightarrow> (RuneError, 0) | c0 # r0 \<Rightarrow>
     if ord c0 < 128 then (ord c0, 1)
     else if ord c0 < 194 \<or> 244 < ord c0 then (RuneError, 1)
     else (case r0 of [] \<Rightarrow> (RuneError, 1) | c1 # r1 \<Rightarrow>
       if \<not> second_ok (ord c0) (ord c1) then (RuneError, 1)
       else if ord c0 < 224 then (ord c0 mod 32 * 64 + ord c1 mod 64, 2)
       else (case r1 of [] \<Rightarrow> (RuneError, 1) | c2 # r2 \<Rightarrow>
         if \<not> continuation c2 then (RuneError, 1)
         else if ord c0 < 240 then
           (ord c0 mod 16 * 4096 + ord c1 mod 64 * 64 + ord c2 mod 64, 3)
         else (case r2 of [] \<Rightarrow> (RuneError, 1) | c3 # r3 \<Rightarrow>
           if \<not> continuation c3 then (RuneError, 1)
           else (ord c0 mod 8 * 262144 + ord c1 mod 64 * 4096 + ord c2 mod 64 * 64
                   + ord c3 mod 64, 4)))))"

lemma DecodeRune_width: "s \<noteq> [] \<Longrightarrow> 0 < snd (DecodeRune s)"
  by (auto simp: DecodeRune_def split: list.split)

text \<open>A string as its characters, each with the bytes it was read from.\<close>

function segments :: "bytes \<Rightarrow> (nat \<times> bytes) list" where
  "segments s = (if s = [] then [] else
     (let (r, w) = DecodeRune s in (r, take w s) # segments (drop w s)))"
  by pat_completeness auto
termination
proof (relation "measure length")
  fix s :: bytes and p r w
  assume "s \<noteq> []" "p = DecodeRune s" "(r, w) = p"
  with DecodeRune_width [of s] show "(drop w s, s) \<in> measure length"
    by (metis diff_less in_measure length_drop length_greater_0_conv snd_conv)
qed simp

declare segments.simps [simp del]

definition runes :: "bytes \<Rightarrow> nat list" where
  "runes s = map fst (segments s)"

text \<open>\<open>utf8.AppendRune\<close>: surrogates and values beyond U+10FFFF become U+FFFD.\<close>

definition EncodeRune :: "nat \<Rightarrow> bytes" where
  "EncodeRune r0 =
     (let r = (if 1114111 < r0 \<or> 55296 \<le> r0 \<and> r0 \<le> 57343 then RuneError else r0) in
      if r < 128 then [char_of r]
      else if r < 2048 then [char_of (192 + r div 64), char_of (128 + r mod 64)]
      else if r < 65536 then
        [char_of (224 + r div 4096), char_of (128 + r div 64 mod 64), char_of (128 + r mod 64)]
      else [char_of (240 + r div 262144), char_of (128 + r div 4096 mod 64),
            char_of (128 + r div 64 mod 64), char_of (128 + r mod 64)])"

section \<open>Case mapping and white space\<close>

definition ascii_lower :: "nat \<Rightarrow> nat" where
  "ascii_lower r = (if 65 \<le> r \<and> r \<le> 90 then r + 32 else r)"

definition lower_rune :: "unicode \<Rightarrow> nat \<Rightarrow> nat" where
  "lower_rune U r = (if r < 128 then ascii_lower r else lower_table U r)"

definition fold_rune :: "unicode \<Rightarrow> nat \<Rightarrow> nat" where
  "fold_rune U r = (if r < 128 then ascii_lower r else fold_table U r)"

definition is_ascii :: "bytes \<Rightarrow> bool" where
  "is_ascii s \<longleftrightarrow> (\<forall>c\<in>set s. ord c < 128)"

definition ToLower :: "unicode \<Rightarrow> bytes \<Rightarrow> bytes" where
  "ToLower U s =
     (if is_ascii s then map (\<lambda>c. char_of (ascii_lower (ord c))) s
      else concat (map (\<lambda>r. EncodeRune (lower_rune U r)) (runes s)))"

definition EqualFold :: "unicode \<Rightarrow> bytes \<Rightarrow> bytes \<Rightarrow> bool" where
  "EqualFold U s t \<longleftrightarrow> map (fold_rune U) (runes s) = map (fold_rune U) (runes t)"

text \<open>\<open>unicode.IsSpace\<close>: the code points with the White\_Space property.\<close>

definition is_space :: "nat \<Rightarrow> bool" where
  "is_space r \<longleftrightarrow> 9 \<le> r \<and> r \<le> 13 \<or> r = 32 \<or> r = 133 \<or> r = 160 \<or> r = 5760
     \<or> 8192 \<le> r \<and> r \<le> 8202 \<or> r = 8232 \<or> r = 8233 \<or> r = 8239 \<or> r = 8287 \<or> r = 12288"

definition TrimSpace :: "bytes \<Rightarrow> bytes" where
  "TrimSpace s = concat (map snd
     (rev (dropWhile (is_space \<circ> fst) (rev (dropWhile (is_space \<circ> fst) (segments s))))))"

fun fields_from :: "(nat \<times> bytes) list \<Rightarrow> bytes \<Rightarrow> bytes list" where
  "fields_from [] cur = (if cur = [] then [] else [cur])"
| "fields_from ((r, b) # ss) cur =
     (if is_space r then (if cur = [] then fields_from ss [] else cur # fields_from ss [])
      else fields_from ss (cur @ b))"

text \<open>\<open>strings.FieldsFunc(s, unicode.IsSpace)\<close>.\<close>

definition FieldsFunc_space :: "bytes \<Rightarrow> bytes list" where
  "FieldsFunc_space s = fields_from (segments s) []"

section \<open>Cutting, joining and searching\<close>

definition Cut :: "char \<Rightarrow> bytes \<Rightarrow> bytes \<times> bytes \<times> bool" where
  "Cut sep s = (let before = takeWhile (\<lambda>c. c \<noteq> sep) s in
     if sep \<in> set s then (before, drop (length before + 1) s, True) else (s, [], False))"

function Split :: "char \<Rightarrow> bytes \<Rightarrow> bytes list" where
  "Split sep s = (case Cut sep s of (before, after, found) \<Rightarrow>
     if found then before # Split sep after else [s])"
  by pat_completeness auto
termination
  by (relation "measure (length \<circ> snd)")
    (auto simp: Cut_def Let_def split: if_splits dest: length_pos_if_in_set)

declare Split.simps [simp del]

fun Join :: "bytes list \<Rightarrow> bytes \<Rightarrow> bytes" where
  "Join [] sep = []"
| "Join [x] sep = x"
| "Join (x # y # ys) sep = x @ sep @ Join (y # ys) sep"

definition HasPrefix :: "bytes \<Rightarrow> bytes \<Rightarrow> bool" where
  "HasPrefix s p \<longleftrightarrow> take (length p) s = p"

definition HasSuffix :: "bytes \<Rightarrow> bytes \<Rightarrow> bool" where
  "HasSuffix s p \<longleftrightarrow> length p \<le> length s \<and> drop (length s - length p) s = p"

text \<open>\<open>bytes.Index\<close>: the first position of the pattern, \<open>None\<close> for -1.\<close>

fun Index :: "bytes \<Rightarrow> bytes \<Rightarrow> nat option" where
  "Index [] p = (if p = [] then Some 0 else None)"
| "Index (c # s) p = (if HasPrefix (c # s) p then Some 0 else map_option Suc (Index s p))"

section \<open>Decimal integers\<close>

definition is_digit :: "char \<Rightarrow> bool" where
  "is_digit c \<longleftrightarrow> 48 \<le> ord c \<and> ord c \<le> 57"

definition dec_value :: "bytes \<Rightarrow> nat" where
  "dec_value s = foldl (\<lambda>n c. n * 10 + (ord c - 48)) 0 s"

text \<open>
  \<open>strconv.ParseInt(s, 10, 64)\<close>: an optional sign and at least one digit, in the range of
  \<open>int64\<close>; \<open>None\<close> stands for either of its errors.
\<close>

definition ParseInt :: "bytes \<Rightarrow> int option" where
  "ParseInt s =
     (let neg = (s \<noteq> [] \<and> hd s = CHR ''-'');
          ds = (if s \<noteq> [] \<and> (hd s = CHR ''-'' \<or> hd s = CHR ''+'') then tl s else s) in
      if ds = [] \<or> \<not> list_all is_digit ds then None
      else let n = int (dec_value ds); v = (if neg then - n else n) in
        if - (2 ^ 63) \<le> v \<and> v < 2 ^ 63 then Some v else None)"

fun dec_digits :: "nat \<Rightarrow> bytes" where
  "dec_digits n = (if n < 10 then [char_of (48 + n)]
     else dec_digits (n div 10) @ [char_of (48 + n mod 10)])"

declare dec_digits.simps [simp del]

definition FormatInt :: "int \<Rightarrow> bytes" where
  "FormatInt v = (if v < 0 then CHR ''-'' # dec_digits (nat (- v)) else dec_digits (nat v))"

section \<open>Lemmas\<close>

lemma segments_Nil [simp]: "segments [] = []"
  by (simp add: segments.simps)

lemma segments_ascii [simp]: "ord c < 128 \<Longrightarrow> segments (c # s) = (ord c, [c]) # segments s"
  by (subst segments.simps) (simp add: DecodeRune_def)

lemma segments_is_ascii: "is_ascii s \<Longrightarrow> segments s = map (\<lambda>c. (ord c, [c])) s"
  by (induction s) (auto simp: is_ascii_def)

lemma runes_is_ascii: "is_ascii s \<Longrightarrow> runes s = map ord s"
  by (simp add: runes_def segments_is_ascii)

lemma concat_segments: "concat (map snd (segments s)) = s"
proof (induction s rule: segments.induct)
  case (1 s)
  show ?case
  proof (cases "s = []")
    case False
    obtain r w where rw: "DecodeRune s = (r, w)" by fastforce
    with False have "segments s = (r, take w s) # segments (drop w s)"
      by (subst segments.simps) simp
    with 1 [OF False rw [symmetric]] show ?thesis by simp
  qed simp
qed

lemma segment_bytes:
  assumes "(r, b) \<in> set (segments s)"
  shows "b \<noteq> [] \<and> (\<forall>c\<in>set (tl b). 128 \<le> ord c) \<and> (tl b \<noteq> [] \<longrightarrow> 128 \<le> ord (hd b))"
  using assms
proof (induction s rule: segments.induct)
  case (1 s)
  then have s: "s \<noteq> []" by auto
  obtain r' w where rw: "DecodeRune s = (r', w)" by fastforce
  have seg: "segments s = (r', take w s) # segments (drop w s)"
    using s rw by (subst segments.simps) simp
  show ?case
  proof (cases "(r, b) \<in> set (segments (drop w s))")
    case True
    with 1 s rw show ?thesis by auto
  next
    case False
    with 1 seg have b: "b = take w s" by simp
    from s rw show ?thesis
      unfolding b DecodeRune_def
      by (auto simp: continuation_def second_ok_def split: list.splits if_splits)
  qed
qed

lemma EqualFold_refl [simp]: "EqualFold U s s"
  and EqualFold_sym: "EqualFold U s t \<Longrightarrow> EqualFold U t s"
  and EqualFold_trans: "EqualFold U s t \<Longrightarrow> EqualFold U t u \<Longrightarrow> EqualFold U s u"
  by (simp_all add: EqualFold_def)

lemma is_ascii_Cons [simp]: "is_ascii (c # s) \<longleftrightarrow> ord c < 128 \<and> is_ascii s"
  and is_ascii_Nil [simp]: "is_ascii []"
  and is_ascii_append [simp]: "is_ascii (s @ t) \<longleftrightarrow> is_ascii s \<and> is_ascii t"
  by (auto simp: is_ascii_def)

lemma Cut_found: "Cut sep s = (b, a, True) \<longleftrightarrow> s = b @ sep # a \<and> sep \<notin> set b"
proof
  assume "Cut sep s = (b, a, True)"
  then have sep: "sep \<in> set s" and b: "b = takeWhile (\<lambda>c. c \<noteq> sep) s"
    and a: "a = drop (length b + 1) s"
    by (auto simp: Cut_def Let_def split: if_splits)
  obtain d where d: "dropWhile (\<lambda>c. c \<noteq> sep) s = sep # d"
    using sep by (metis (mono_tags, lifting) dropWhile_eq_Nil_conv hd_dropWhile list.exhaust_sel)
  have s: "s = b @ sep # d" using takeWhile_dropWhile_id [of "\<lambda>c. c \<noteq> sep" s] b d by simp
  then have "a = d" unfolding a by (metis append_Cons append_Nil append_assoc append_eq_conv_conj
        length_append_singleton Suc_eq_plus1)
  moreover have "sep \<notin> set b" unfolding b by (auto dest: set_takeWhileD)
  ultimately show "s = b @ sep # a \<and> sep \<notin> set b" using s by simp
next
  assume s: "s = b @ sep # a \<and> sep \<notin> set b"
  then have "takeWhile (\<lambda>c. c \<noteq> sep) s = b"
    by (auto simp: takeWhile_append takeWhile_eq_all_conv)
  with s show "Cut sep s = (b, a, True)" by (simp add: Cut_def)
qed

lemma Cut_not_found: "Cut sep s = (b, a, False) \<longleftrightarrow> sep \<notin> set s \<and> b = s \<and> a = []"
  by (auto simp: Cut_def Let_def split: if_splits)

lemma Split_Cut:
  "Cut sep s = (b, a, True) \<Longrightarrow> Split sep s = b # Split sep a"
  "Cut sep s = (b, a, False) \<Longrightarrow> Split sep s = [s]"
  by (simp_all add: Split.simps [of sep s])

lemma Join_Cons: "Join (x # xs) sep = x @ (if xs = [] then [] else sep @ Join xs sep)"
  by (cases xs) auto

lemma Join_append:
  "xs \<noteq> [] \<Longrightarrow> ys \<noteq> [] \<Longrightarrow> Join (xs @ ys) sep = Join xs sep @ sep @ Join ys sep"
  by (induction xs) (auto simp: Join_Cons)

lemma HasPrefix_prefix: "HasPrefix s p \<longleftrightarrow> prefix p s"
  by (simp add: HasPrefix_def drop_prefix_append)

lemma HasPrefix_append [simp]: "HasPrefix (p @ s) p"
  by (simp add: HasPrefix_def)

lemma HasSuffix_suffix: "HasSuffix s p \<longleftrightarrow> suffix p s"
  by (simp add: HasSuffix_def suffix_conv_drop)

lemma Index_Some:
  "Index s p = Some i \<longleftrightarrow>
     i \<le> length s \<and> prefix p (drop i s) \<and> (\<forall>j<i. \<not> prefix p (drop j s))"
proof (induction s arbitrary: i)
  case (Cons c s)
  show ?case
  proof (cases "prefix p (c # s)")
    case True
    then show ?thesis by (cases i) (auto simp: HasPrefix_prefix)
  next
    case False
    then show ?thesis
      by (cases i) (auto simp: HasPrefix_prefix Cons.IH less_Suc_eq_0_disj)
  qed
qed auto

lemma Index_None: "Index s p = None \<longleftrightarrow> (\<forall>i\<le>length s. \<not> prefix p (drop i s))"
proof (induction s)
  case (Cons c s)
  have "(\<forall>i\<le>length (c # s). \<not> prefix p (drop i (c # s))) \<longleftrightarrow>
      \<not> prefix p (c # s) \<and> (\<forall>i\<le>length s. \<not> prefix p (drop i s))"
    by (metis Suc_le_mono drop0 drop_Suc_Cons length_Cons not0_implies_Suc zero_le)
  with Cons show ?case by (simp add: HasPrefix_prefix)
qed auto

lemma ascii_lower_idem [simp]: "ascii_lower (ascii_lower r) = ascii_lower r"
  by (auto simp: ascii_lower_def)

lemma ascii_lower_less [simp]: "ascii_lower r < 128 \<longleftrightarrow> r < 128"
  by (auto simp: ascii_lower_def)

lemma ToLower_is_ascii:
  assumes "is_ascii s"
  shows "is_ascii (ToLower U s)" "ToLower U (ToLower U s) = ToLower U s"
proof -
  have *: "ord (char_of (ascii_lower (ord c))) = ascii_lower (ord c)" for c :: char
    by (auto simp: ascii_lower_def)
  show 1: "is_ascii (ToLower U s)"
    using assms by (auto simp: ToLower_def is_ascii_def * simp del: of_char_of)
  have "map (\<lambda>c. char_of (ascii_lower (ord c))) (ToLower U s) = ToLower U s"
    using assms by (simp add: ToLower_def * del: of_char_of)
  with 1 show "ToLower U (ToLower U s) = ToLower U s" by (simp add: ToLower_def)
qed

end
