(* ===== verification/DN_Syntax.thy ===== *)
theory DN_Syntax
  imports Go_Strings
begin

text \<open>
  The syntax of distinguished names (\<open>internal/directory/dn.go\<close>,
  \<open>dn_simple_rdn_bytes.go\<close>, \<open>dn_identity_scope_bytes.go\<close>, \<open>dn_validate.go\<close>): which attribute
  types are legal, the strict ASCII subset of names that needs no full parser (in its string and
  its byte-slice version), and the escaping of values. The file shows that the byte-slice
  versions agree with the string versions and that escaping loses nothing.
\<close>

section \<open>Attribute types\<close>

definition asciiDNAttributeLetter :: "char \<Rightarrow> bool" where
  "asciiDNAttributeLetter c \<longleftrightarrow> (let v = ord c OR 32 in 97 \<le> v \<and> v \<le> 122)"

text \<open>
  One arc of a numeric object identifier. The loop \<open>for index := range arc\<close> over a string
  visits the first byte of each character.
\<close>

definition valid_arc :: "bytes \<Rightarrow> bool" where
  "valid_arc arc \<longleftrightarrow> \<not> (arc = [] \<or> 1 < length arc \<and> hd arc = CHR ''0'')
     \<and> list_all (\<lambda>(r, b). is_digit (hd b)) (segments arc)"

definition validDNAttributeType :: "bytes \<Rightarrow> bool" where
  "validDNAttributeType value =
     (if value = [] then False
      else if is_digit (hd value) then list_all valid_arc (Split (CHR ''.'') value)
      else if \<not> asciiDNAttributeLetter (hd value) then False
      else list_all (\<lambda>c. asciiDNAttributeLetter c \<or> is_digit c \<or> c = CHR ''-'') (tl value))"

text \<open>The byte-slice version checks every byte of an arc and cuts off one arc at a time.\<close>

function valid_arcs_bytes :: "bytes \<Rightarrow> bool" where
  "valid_arcs_bytes value = (case Cut (CHR ''.'') value of (arc, rest, has_more) \<Rightarrow>
     if arc = [] \<or> 1 < length arc \<and> hd arc = CHR ''0'' then False
     else if \<not> list_all is_digit arc then False
     else if \<not> has_more then True
     else valid_arcs_bytes rest)"
  by pat_completeness auto
termination
  by (relation "measure length")
    (auto simp: Cut_def Let_def split: if_splits dest: length_pos_if_in_set)

declare valid_arcs_bytes.simps [simp del]

definition validDNAttributeTypeBytes :: "bytes \<Rightarrow> bool" where
  "validDNAttributeTypeBytes value =
     (if value = [] then False
      else if is_digit (hd value) then valid_arcs_bytes value
      else if \<not> asciiDNAttributeLetter (hd value) then False
      else list_all (\<lambda>c. asciiDNAttributeLetter c \<or> is_digit c \<or> c = CHR ''-'') (tl value))"

section \<open>The simple subset\<close>

definition simple_value_char :: "char \<Rightarrow> bool" where
  "simple_value_char c \<longleftrightarrow> asciiDNAttributeLetter c \<or> is_digit c
     \<or> c = CHR ''-'' \<or> c = CHR ''_'' \<or> c = CHR ''.''"

lemma Cut_rest_shorter: "Cut sep s = (b, a, True) \<Longrightarrow> length a < length s"
  by (auto simp: Cut_found)

function simpleDNDepth_loop :: "bytes \<Rightarrow> nat \<Rightarrow> nat \<times> bool" where
  "simpleDNDepth_loop value depth =
     (if value = [] then (0, False)
      else case Cut (CHR '','') value of (rdn, rest, has_more) \<Rightarrow>
        (case Cut (CHR ''='') rdn of (attribute, assertion, found) \<Rightarrow>
          if \<not> found \<or> \<not> validDNAttributeType attribute \<or> assertion = [] then (0, False)
          else if \<not> list_all simple_value_char assertion then (0, False)
          else if \<not> has_more then (depth + 1, True)
          else simpleDNDepth_loop rest (depth + 1)))"
  by pat_completeness auto
termination
  by (relation "measure (length \<circ> fst)") (auto dest: Cut_rest_shorter [OF sym])

definition simpleDNDepth :: "bytes \<Rightarrow> nat \<times> bool" where
  "simpleDNDepth value = simpleDNDepth_loop value 0"

function simpleDNDepthBytes_loop :: "bytes \<Rightarrow> nat \<Rightarrow> nat \<times> bool" where
  "simpleDNDepthBytes_loop value depth =
     (if value = [] then (0, False)
      else case Cut (CHR '','') value of (rdn, rest, has_more) \<Rightarrow>
        (case Cut (CHR ''='') rdn of (attribute, assertion, found) \<Rightarrow>
          if \<not> found \<or> \<not> validDNAttributeTypeBytes attribute \<or> assertion = [] then (0, False)
          else if \<not> list_all simple_value_char assertion then (0, False)
          else if \<not> has_more then (depth + 1, True)
          else simpleDNDepthBytes_loop rest (depth + 1)))"
  by pat_completeness auto
termination
  by (relation "measure (length \<circ> fst)") (auto dest: Cut_rest_shorter [OF sym])

declare simpleDNDepth_loop.simps [simp del] simpleDNDepthBytes_loop.simps [simp del]

definition simpleDNDepthBytes :: "bytes \<Rightarrow> nat \<times> bool" where
  "simpleDNDepthBytes value = simpleDNDepthBytes_loop value 0"

definition SimpleDNDepthBytes :: "bytes \<Rightarrow> nat \<times> bool" where
  "SimpleDNDepthBytes value = simpleDNDepthBytes value"

section \<open>One simple RDN\<close>

text \<open>The table of allowed value bytes, built from the alphabet string once.\<close>

definition simpleRDNValueByteClass :: "char \<Rightarrow> bool" where
  "simpleRDNValueByteClass c \<longleftrightarrow> c \<in> set
     ''ABCDEFGHIJKLMNOPQRSTUVWXYZabcdefghijklmnopqrstuvwxyz0123456789-._''"

definition ParseSimpleRDNBytes :: "bytes \<Rightarrow> bytes \<times> bytes \<times> bool" where
  "ParseSimpleRDNBytes value = (case Cut (CHR ''='') value of (attribute, assertion, found) \<Rightarrow>
     if \<not> found \<or> \<not> validDNAttributeTypeBytes attribute \<or> assertion = [] then ([], [], False)
     else if \<not> list_all simpleRDNValueByteClass assertion then ([], [], False)
     else (attribute, assertion, True))"

text \<open>
  The loop keeps validating after a mismatch. Reading past the end of \<open>expected\<close> cannot
  happen, since \<open>matched\<close> starts false unless the lengths agree.
\<close>

fun match_simple_loop :: "bool \<Rightarrow> bytes \<Rightarrow> bytes \<Rightarrow> bool \<Rightarrow> bool \<times> bool" where
  "match_simple_loop folds [] expected matched = (matched, True)"
| "match_simple_loop folds (c # actual) expected matched =
     (if \<not> simpleRDNValueByteClass c then (False, False)
      else if matched then
        (let c' = (if folds \<and> 65 \<le> ord c \<and> ord c \<le> 90 then char_of (ord c + 32) else c)
         in match_simple_loop folds actual (tl expected) (c' = hd expected))
      else match_simple_loop folds actual (tl expected) False)"

definition MatchSimpleRDNValueBytes :: "bytes \<Rightarrow> bytes \<Rightarrow> bool \<Rightarrow> bool \<times> bool" where
  "MatchSimpleRDNValueBytes actual expected folds =
     (if actual = [] then (False, False)
      else match_simple_loop folds actual expected (length actual = length expected))"

section \<open>Escaping of values\<close>

definition special_char :: "char \<Rightarrow> bool" where
  "special_char c \<longleftrightarrow> c \<in> set [CHR 0x22, CHR ''+'', CHR '','', CHR '';'', CHR ''<'', CHR ''>'',
     CHR 0x5C]"

definition hex_char :: "nat \<Rightarrow> char" where
  "hex_char n = (if n < 10 then char_of (48 + n) else char_of (87 + n))"

text \<open>Position \<open>i\<close> of a value of length \<open>len\<close>: does the byte there end the plain prefix?\<close>

definition scan_stops :: "nat \<Rightarrow> nat \<Rightarrow> char \<Rightarrow> bool" where
  "scan_stops len i c \<longleftrightarrow> ord c < 32 \<or> 126 < ord c
     \<or> i = 0 \<and> (c = CHR '' '' \<or> c = CHR ''#'') \<or> i + 1 = len \<and> c = CHR '' ''
     \<or> special_char c"

fun escape_scan :: "nat \<Rightarrow> nat \<Rightarrow> bytes \<Rightarrow> nat" where
  "escape_scan len i [] = i"
| "escape_scan len i (c # cs) = (if scan_stops len i c then i else escape_scan len (i + 1) cs)"

definition escape_byte :: "nat \<Rightarrow> nat \<Rightarrow> char \<Rightarrow> bytes" where
  "escape_byte len i c =
     (if i = 0 \<and> (c = CHR '' '' \<or> c = CHR ''#'') \<or> i + 1 = len \<and> c = CHR '' ''
         \<or> special_char c then [CHR 0x5C, c]
      else if ord c < 32 \<or> 126 < ord c then
        [CHR 0x5C, hex_char (ord c div 16), hex_char (ord c mod 16)]
      else [c])"

fun escape_from :: "nat \<Rightarrow> nat \<Rightarrow> bytes \<Rightarrow> bytes" where
  "escape_from len i [] = []"
| "escape_from len i (c # cs) = escape_byte len i c @ escape_from len (i + 1) cs"

definition escapeDNValue :: "bytes \<Rightarrow> bytes" where
  "escapeDNValue value =
     (let start = escape_scan (length value) 0 value in
      if start = length value then value
      else take start value @ escape_from (length value) start (drop start value))"

text \<open>
  The inverse that RFC 4514 prescribes to a reader of the text: a backslash is followed by a
  special character that stands for itself or by two hexadecimal digits.
\<close>

definition hex_value :: "char \<Rightarrow> nat option" where
  "hex_value c = (if is_digit c then Some (ord c - 48)
     else if 97 \<le> ord c \<and> ord c \<le> 102 then Some (ord c - 87)
     else if 65 \<le> ord c \<and> ord c \<le> 70 then Some (ord c - 55) else None)"

fun rfc4514_unescape :: "bytes \<Rightarrow> bytes option" where
  "rfc4514_unescape [] = Some []"
| "rfc4514_unescape (c # cs) =
     (if c \<noteq> CHR 0x5C then map_option ((#) c) (rfc4514_unescape cs)
      else case cs of [] \<Rightarrow> None
        | d # ds \<Rightarrow>
          (if special_char d \<or> d = CHR '' '' \<or> d = CHR ''#'' \<or> d = CHR ''='' then
             map_option ((#) d) (rfc4514_unescape ds)
           else case ds of [] \<Rightarrow> None
             | e # es \<Rightarrow>
               (case (hex_value d, hex_value e) of
                  (Some h, Some l) \<Rightarrow> map_option ((#) (char_of (16 * h + l))) (rfc4514_unescape es)
                | _ \<Rightarrow> None)))"

section \<open>What the simple subset is\<close>

text \<open>
  The grammar behind the recognisers: a nonempty list of pairs of a legal attribute type and a
  nonempty value of plain characters, written with \<open>=\<close> and joined with commas.
\<close>

definition simple_rdn_ok :: "bytes \<times> bytes \<Rightarrow> bool" where
  "simple_rdn_ok r \<longleftrightarrow> validDNAttributeType (fst r) \<and> snd r \<noteq> [] \<and> list_all simple_value_char (snd r)"

definition simple_rdn_text :: "bytes \<times> bytes \<Rightarrow> bytes" where
  "simple_rdn_text r = fst r @ CHR ''='' # snd r"

definition simple_dn_text :: "(bytes \<times> bytes) list \<Rightarrow> bytes" where
  "simple_dn_text rs = Join (map simple_rdn_text rs) '',''"

definition simple_dn :: "bytes \<Rightarrow> nat \<Rightarrow> bool" where
  "simple_dn v n \<longleftrightarrow> (\<exists>rs. rs \<noteq> [] \<and> n = length rs \<and> v = simple_dn_text rs \<and> list_all simple_rdn_ok rs)"

definition fold_byte :: "bool \<Rightarrow> char \<Rightarrow> char" where
  "fold_byte folds c = (if folds \<and> 65 \<le> ord c \<and> ord c \<le> 90 then char_of (ord c + 32) else c)"

section \<open>Attribute types and the simple subset: lemmas\<close>

lemma nat_or_32: "n OR 32 = n + (if odd (n div 32) then 0 else 32)" for n :: nat
proof -
  have "n OR 32 = set_bit 5 n" by (simp add: set_bit_eq_or push_bit_eq_mult)
  also have "\<dots> = n + (if odd (n div 32) then 0 else 32)"
    by (simp add: set_bit_eq bit_iff_odd)
  finally show ?thesis .
qed

lemma asciiDNAttributeLetter_iff:
  "asciiDNAttributeLetter c \<longleftrightarrow> 65 \<le> ord c \<and> ord c \<le> 90 \<or> 97 \<le> ord c \<and> ord c \<le> 122"
proof -
  define n q r where "n = ord c" and "q = n div 32" and "r = n mod 32"
  have r: "r < 32" and nq: "n = 32 * q + r" by (simp_all add: q_def r_def)
  have "n < 256" by (simp add: n_def)
  then have "q < 8" using nq by simp
  then consider "q = 0" | "q = 1" | "q = 2" | "q = 3" | "q = 4" | "q = 5" | "q = 6" | "q = 7"
    by linarith
  then have "(97 \<le> n OR 32 \<and> n OR 32 \<le> 122) \<longleftrightarrow> 65 \<le> n \<and> n \<le> 90 \<or> 97 \<le> n \<and> n \<le> 122"
    unfolding nat_or_32 q_def [symmetric] by cases (use r nq in auto)
  then show ?thesis by (simp add: asciiDNAttributeLetter_def n_def)
qed

lemma char_eq_ord: "c = d \<longleftrightarrow> ord c = ord d"
  by simp

lemma is_ascii_digits: "list_all is_digit s \<Longrightarrow> is_ascii s"
  by (auto simp: is_ascii_def list_all_iff is_digit_def)

lemma segments_digits: "list_all (\<lambda>(r, b). is_digit (hd b)) (segments s) \<longleftrightarrow> list_all is_digit s"
proof
  assume L: "list_all (\<lambda>(r, b). is_digit (hd b)) (segments s)"
  have "c \<in> set b \<Longrightarrow> is_digit c" if "(r, b) \<in> set (segments s)" for r b c
  proof -
    have "is_digit (hd b)" using L that by (auto simp: list_all_iff)
    with segment_bytes [OF that] have "b = [hd b]" by (cases b) (auto simp: is_digit_def)
    then show "c \<in> set b \<Longrightarrow> is_digit c" using \<open>is_digit (hd b)\<close> by (metis empty_iff list.set_cases set_ConsD empty_set)
  qed
  then have "list_all is_digit (concat (map snd (segments s)))"
    by (auto simp: list_all_iff)
  then show "list_all is_digit s" by (simp add: concat_segments)
next
  assume "list_all is_digit s"
  then show "list_all (\<lambda>(r, b). is_digit (hd b)) (segments s)"
    by (simp add: segments_is_ascii is_ascii_digits list_all_iff)
qed

lemma valid_arc_iff:
  "valid_arc arc \<longleftrightarrow> \<not> (arc = [] \<or> 1 < length arc \<and> hd arc = CHR ''0'') \<and> list_all is_digit arc"
  by (simp add: valid_arc_def segments_digits)

lemma valid_arcs_bytes_eq: "valid_arcs_bytes v = list_all valid_arc (Split (CHR ''.'') v)"
proof (induction v rule: valid_arcs_bytes.induct)
  case (1 v)
  obtain arc rest m where c: "Cut (CHR ''.'') v = (arc, rest, m)" by (cases "Cut (CHR ''.'') v") auto
  then have "m \<Longrightarrow> Split (CHR ''.'') v = arc # Split (CHR ''.'') rest" "\<not> m \<Longrightarrow> Split (CHR ''.'') v = [arc]"
    by (auto simp: Split_Cut Cut_not_found)
  with 1 c show ?case
    by (subst valid_arcs_bytes.simps) (auto simp: valid_arc_iff [of arc] valid_arc_iff [of "[]"])
qed

lemma validDNAttributeTypeBytes_eq: "validDNAttributeTypeBytes v = validDNAttributeType v"
  by (simp add: validDNAttributeTypeBytes_def validDNAttributeType_def valid_arcs_bytes_eq)

lemma simpleDNDepthBytes_loop_eq: "simpleDNDepthBytes_loop v d = simpleDNDepth_loop v d"
proof (induction v d rule: simpleDNDepth_loop.induct)
  case (1 v d)
  then show ?case
    by (subst simpleDNDepthBytes_loop.simps, subst simpleDNDepth_loop.simps)
      (auto simp: validDNAttributeTypeBytes_eq split: prod.splits)
qed

lemma simple_value_char_class: "simpleRDNValueByteClass c \<longleftrightarrow> simple_value_char c"
proof -
  have "simple_value_char c \<longleftrightarrow> 65 \<le> ord c \<and> ord c \<le> 90 \<or> 97 \<le> ord c \<and> ord c \<le> 122
      \<or> 48 \<le> ord c \<and> ord c \<le> 57 \<or> ord c = 45 \<or> ord c = 95 \<or> ord c = 46"
    unfolding simple_value_char_def asciiDNAttributeLetter_iff is_digit_def
      char_eq_ord [of c "CHR ''-''"] char_eq_ord [of c "CHR ''_''"] char_eq_ord [of c "CHR ''.''"]
    by simp
  also have "\<dots> \<longleftrightarrow> ord c \<in> set ([65..<91] @ [97..<123] @ [48..<58] @ [45, 46, 95])"
  proof -
    have *: "n \<le> 90 \<longleftrightarrow> n < 91" "n \<le> 122 \<longleftrightarrow> n < 123" "n \<le> 57 \<longleftrightarrow> n < 58" for n :: nat
      by linarith+
    show ?thesis
      unfolding set_append set_upt list.set * Un_iff atLeastLessThan_iff insert_iff empty_iff by blast
  qed
  also have "[65..<91] @ [97..<123] @ [48..<58] @ [45,46,95] = map ord ''ABCDEFGHIJKLMNOPQRSTUVWXYZabcdefghijklmnopqrstuvwxyz0123456789-._''"
    by code_simp
  finally show ?thesis
    by (simp only: simpleRDNValueByteClass_def set_map inj_image_mem_iff [OF inj_of_char])
qed

lemma set_Split: "set s \<subseteq> (\<Union>x\<in>set (Split sep s). set x) \<union> {sep}"
proof (induction sep s rule: Split.induct)
  case (1 sep s)
  obtain b a f where c: "Cut sep s = (b, a, f)" by (cases "Cut sep s") auto
  show ?case
  proof (cases f)
    case True
    with c have "s = b @ sep # a" "Split sep s = b # Split sep a"
      by (auto simp: Cut_found Split_Cut)
    with 1 c True show ?thesis by auto
  next
    case False
    with c show ?thesis by (auto simp: Split_Cut)
  qed
qed

lemma validDNAttributeType_chars:
  assumes "validDNAttributeType v" "c \<in> set v"
  shows "asciiDNAttributeLetter c \<or> is_digit c \<or> c = CHR ''-'' \<or> c = CHR ''.''"
proof (cases "is_digit (hd v)")
  case True
  with assms(1) have "list_all valid_arc (Split (CHR ''.'') v)"
    by (auto simp: validDNAttributeType_def split: if_splits)
  with set_Split [of v "CHR ''.''"] assms(2) show ?thesis
    by (force simp: list_all_iff valid_arc_iff)
next
  case False
  with assms show ?thesis
    by (cases v) (auto simp: validDNAttributeType_def list_all_iff split: if_splits)
qed

lemma validDNAttributeType_seps:
  assumes "validDNAttributeType v"
  shows "CHR '','' \<notin> set v" "CHR ''='' \<notin> set v"
  using validDNAttributeType_chars [OF assms]
  by (force simp: asciiDNAttributeLetter_iff is_digit_def)+

lemma simple_value_seps:
  assumes "list_all simple_value_char v"
  shows "CHR '','' \<notin> set v" "CHR ''='' \<notin> set v"
  using assms by (auto simp: list_all_iff simple_value_char_def asciiDNAttributeLetter_iff is_digit_def)

lemma simple_rdn_text_seps: "simple_rdn_ok r \<Longrightarrow> CHR '','' \<notin> set (simple_rdn_text r)"
  by (auto simp: simple_rdn_ok_def simple_rdn_text_def dest: validDNAttributeType_seps simple_value_seps)

lemma simple_rdn_recognised:
  "(case Cut (CHR ''='') rdn of (attribute, assertion, found) \<Rightarrow>
      found \<and> validDNAttributeType attribute \<and> assertion \<noteq> [] \<and> list_all simple_value_char assertion)
   \<longleftrightarrow> (\<exists>r. simple_rdn_ok r \<and> rdn = simple_rdn_text r)"
proof
  assume "case Cut (CHR ''='') rdn of (attribute, assertion, found) \<Rightarrow>
      found \<and> validDNAttributeType attribute \<and> assertion \<noteq> [] \<and> list_all simple_value_char assertion"
  then obtain a v where "Cut (CHR ''='') rdn = (a, v, True)" "simple_rdn_ok (a, v)"
    by (auto simp: simple_rdn_ok_def split: prod.splits)
  then show "\<exists>r. simple_rdn_ok r \<and> rdn = simple_rdn_text r"
    by (auto simp: Cut_found simple_rdn_text_def intro!: exI [of _ "(a, v)"])
next
  assume "\<exists>r. simple_rdn_ok r \<and> rdn = simple_rdn_text r"
  then obtain a v where "simple_rdn_ok (a, v)" "rdn = a @ CHR ''='' # v"
    by (auto simp: simple_rdn_text_def)
  then have "Cut (CHR ''='') rdn = (a, v, True)"
    by (auto simp: Cut_found simple_rdn_ok_def dest: validDNAttributeType_seps)
  then show "case Cut (CHR ''='') rdn of (attribute, assertion, found) \<Rightarrow>
      found \<and> validDNAttributeType attribute \<and> assertion \<noteq> [] \<and> list_all simple_value_char assertion"
    using \<open>simple_rdn_ok (a, v)\<close> by (simp add: simple_rdn_ok_def)
qed

lemma simple_dn_single:
  assumes "CHR '','' \<notin> set v"
  shows "simple_dn v n \<longleftrightarrow> n = 1 \<and> (\<exists>r. simple_rdn_ok r \<and> v = simple_rdn_text r)"
proof
  assume "simple_dn v n"
  then obtain r rs where rs: "n = 1 + length rs" "v = simple_dn_text (r # rs)" "simple_rdn_ok r"
    by (auto simp: simple_dn_def neq_Nil_conv)
  then have "rs = []" using assms by (auto simp: simple_dn_text_def Join_Cons split: if_splits)
  with rs show "n = 1 \<and> (\<exists>r. simple_rdn_ok r \<and> v = simple_rdn_text r)"
    by (metis One_nat_def Join.simps(2) add.right_neutral list.simps(8,9) list.size(3) simple_dn_text_def)
next
  assume "n = 1 \<and> (\<exists>r. simple_rdn_ok r \<and> v = simple_rdn_text r)"
  then obtain r where "n = length [r]" "v = simple_dn_text [r]" "list_all simple_rdn_ok [r]"
    by (auto simp: simple_dn_text_def)
  then show "simple_dn v n" unfolding simple_dn_def by blast
qed

lemma simple_dn_Cons:
  assumes v: "v = rdn @ CHR '','' # rest" "CHR '','' \<notin> set rdn"
  shows "simple_dn v n \<longleftrightarrow>
    (\<exists>r. simple_rdn_ok r \<and> rdn = simple_rdn_text r) \<and> (\<exists>m. n = Suc m \<and> simple_dn rest m)"
proof
  assume "simple_dn v n"
  then obtain r rs where rs: "n = Suc (length rs)" "v = simple_dn_text (r # rs)"
    "simple_rdn_ok r" "list_all simple_rdn_ok rs"
    by (auto simp: simple_dn_def neq_Nil_conv)
  have "CHR '','' \<in> set v" using v by simp
  then have ne: "rs \<noteq> []"
    using rs(2) simple_rdn_text_seps [OF rs(3)] by (auto simp: simple_dn_text_def)
  then have "rdn @ CHR '','' # rest = simple_rdn_text r @ CHR '','' # simple_dn_text rs"
    using rs(2) v by (simp add: simple_dn_text_def Join_Cons)
  then have "rdn = simple_rdn_text r \<and> rest = simple_dn_text rs"
    using v(2) simple_rdn_text_seps [OF rs(3)] by (metis Cut_found Pair_inject)
  with rs ne show "(\<exists>r. simple_rdn_ok r \<and> rdn = simple_rdn_text r) \<and> (\<exists>m. n = Suc m \<and> simple_dn rest m)"
    unfolding simple_dn_def by blast
next
  assume "(\<exists>r. simple_rdn_ok r \<and> rdn = simple_rdn_text r) \<and> (\<exists>m. n = Suc m \<and> simple_dn rest m)"
  then obtain r rs where "simple_rdn_ok r" "rdn = simple_rdn_text r" "rs \<noteq> []"
    "n = Suc (length rs)" "rest = simple_dn_text rs" "list_all simple_rdn_ok rs"
    by (auto simp: simple_dn_def)
  then show "simple_dn v n"
    unfolding simple_dn_def using v
    by (intro exI [of _ "r # rs"]) (simp add: simple_dn_text_def Join_Cons)
qed

lemma simple_dn_Nil: "\<not> simple_dn [] n"
  using simple_dn_single [of "[]" n] by (auto simp: simple_rdn_text_def)

lemma simpleDNDepth_loop_iff:
  "simpleDNDepth_loop v k = (d, True) \<longleftrightarrow> (\<exists>n. d = k + n \<and> simple_dn v n)"
proof (induction v k rule: simpleDNDepth_loop.induct)
  case (1 v k)
  let ?ok = "\<lambda>rdn. case Cut (CHR ''='') rdn of (attribute, assertion, found) \<Rightarrow>
      found \<and> validDNAttributeType attribute \<and> assertion \<noteq> [] \<and> list_all simple_value_char assertion"
  show ?case
  proof (cases "v = []")
    case True
    then show ?thesis by (simp add: simpleDNDepth_loop.simps simple_dn_Nil)
  next
    case False
    obtain rdn rest m where c: "Cut (CHR '','') v = (rdn, rest, m)" by (cases "Cut (CHR '','') v") auto
    have unfold: "simpleDNDepth_loop v k =
        (if \<not> ?ok rdn then (0, False) else if m then simpleDNDepth_loop rest (k + 1) else (k + 1, True))"
      using False c by (subst simpleDNDepth_loop.simps) (auto split: prod.split)
    show ?thesis
    proof (cases m)
      case True
      with c have v: "v = rdn @ CHR '','' # rest" "CHR '','' \<notin> set rdn" by (auto simp: Cut_found)
      have "?ok rdn \<Longrightarrow> simpleDNDepth_loop rest (k + 1) = (d, True) \<longleftrightarrow> (\<exists>n. d = k + 1 + n \<and> simple_dn rest n)"
        using 1 False c True by (auto split: prod.splits)
      with True show ?thesis unfolding unfold simple_dn_Cons [OF v] simple_rdn_recognised by auto
    next
      case m: False
      with c have v: "v = rdn" "CHR '','' \<notin> set v" by (auto simp: Cut_not_found)
      with m show ?thesis unfolding unfold simple_dn_single [OF v(2)] simple_rdn_recognised by auto
    qed
  qed
qed

text \<open>
  the recogniser of simple names accepts exactly the texts of the grammar, and the depth it
  reports is the number of RDNs.
\<close>

theorem simpleDNDepth_grammar: "simpleDNDepth v = (d, True) \<longleftrightarrow> simple_dn v d"
  by (simp add: simpleDNDepth_def simpleDNDepth_loop_iff)

text \<open>
  the byte-slice recognisers of attribute types and of simple names return what the string
  versions return, on every input.
\<close>

theorem simple_bytes_agree:
  "validDNAttributeTypeBytes v = validDNAttributeType v \<and> SimpleDNDepthBytes v = simpleDNDepth v"
  by (simp add: SimpleDNDepthBytes_def simpleDNDepthBytes_def simpleDNDepth_def
      validDNAttributeTypeBytes_eq simpleDNDepthBytes_loop_eq)

lemma SimpleDNDepthBytes_iff: "SimpleDNDepthBytes v = (d, True) \<longleftrightarrow> simple_dn v d"
  by (simp add: SimpleDNDepthBytes_def simpleDNDepthBytes_def simpleDNDepthBytes_loop_eq
      simpleDNDepth_loop_iff)

lemma simpleDNDepth_simple_dn: "simpleDNDepth v = (d, True) \<longleftrightarrow> simple_dn v d"
  by (simp add: simpleDNDepth_def simpleDNDepth_loop_iff)

lemma simpleDNDepthBytes_eq: "simpleDNDepthBytes v = simpleDNDepth v"
  by (simp add: simpleDNDepthBytes_def simpleDNDepth_def simpleDNDepthBytes_loop_eq)

lemma simple_dn_one: "simple_dn v 1 \<longleftrightarrow> (\<exists>r. simple_rdn_ok r \<and> v = simple_rdn_text r)"
proof (cases "CHR '','' \<in> set v")
  case True
  then obtain rdn rest where v: "v = rdn @ CHR '','' # rest" "CHR '','' \<notin> set rdn"
    by (meson split_list_first)
  have "\<not> simple_dn rest 0" by (auto simp: simple_dn_def)
  with v True show ?thesis using simple_dn_Cons [OF v] simple_rdn_text_seps by fastforce
next
  case False
  then show ?thesis by (simp add: simple_dn_single)
qed

text \<open>
  parsing one simple RDN succeeds exactly on the simple names of depth one, and it returns
  the attribute before the first \<open>=\<close> and the value after it.
\<close>

theorem ParseSimpleRDNBytes_iff:
  "ParseSimpleRDNBytes v = (a, x, True) \<longleftrightarrow>
     SimpleDNDepthBytes v = (1, True) \<and> v = a @ CHR ''='' # x \<and> CHR ''='' \<notin> set a"
proof -
  have "ParseSimpleRDNBytes v = (a, x, True) \<longleftrightarrow>
      Cut (CHR ''='') v = (a, x, True) \<and> simple_rdn_ok (a, x)"
    by (auto simp: ParseSimpleRDNBytes_def simple_rdn_ok_def validDNAttributeTypeBytes_eq
        simple_value_char_class list_all_iff split: prod.splits if_splits)
  also have "\<dots> \<longleftrightarrow> simple_dn v 1 \<and> v = a @ CHR ''='' # x \<and> CHR ''='' \<notin> set a"
  proof -
    have "r = (a, x)" if r: "simple_rdn_ok r" "a @ CHR ''='' # x = simple_rdn_text r"
      "CHR ''='' \<notin> set a" for r
    proof -
      have "Cut (CHR ''='') (simple_rdn_text r) = (fst r, snd r, True)"
        using r(1) by (simp add: Cut_found simple_rdn_text_def simple_rdn_ok_def
            validDNAttributeType_seps)
      moreover have "Cut (CHR ''='') (simple_rdn_text r) = (a, x, True)"
        using r(2,3) by (simp add: Cut_found)
      ultimately show ?thesis by (simp add: prod_eq_iff)
    qed
    then show ?thesis
      unfolding simple_dn_one Cut_found by (auto simp: simple_rdn_text_def)
  qed
  finally show ?thesis by (simp add: SimpleDNDepthBytes_iff)
qed

lemma match_simple_loop_False:
  "match_simple_loop folds actual expected False = (False, list_all simpleRDNValueByteClass actual)"
  by (induction actual arbitrary: expected) auto

lemma match_simple_loop_True:
  "length actual = length expected \<Longrightarrow> match_simple_loop folds actual expected True =
     (list_all simpleRDNValueByteClass actual \<and> map (fold_byte folds) actual = expected,
      list_all simpleRDNValueByteClass actual)"
proof (induction actual arbitrary: expected)
  case (Cons c actual)
  then obtain e es where e: "expected = e # es" "length actual = length es" by (cases expected) auto
  with Cons.IH [of es] show ?case
    by (cases "fold_byte folds c = e") (auto simp: match_simple_loop_False fold_byte_def Let_def)
qed simp

text \<open>
  the fused comparison of simple RDN values reports the input as simple exactly when it is
  nonempty and made of plain characters, and as equal exactly when it is simple and its
  (case-folded) bytes are the expected ones; a mismatch never hides a byte outside the subset.
\<close>

theorem MatchSimpleRDNValueBytes_spec:
  "MatchSimpleRDNValueBytes actual expected folds =
     (let simple = actual \<noteq> [] \<and> list_all simpleRDNValueByteClass actual
      in (simple \<and> map (fold_byte folds) actual = expected, simple))"
proof (cases "length actual = length expected")
  case True
  then show ?thesis by (auto simp: MatchSimpleRDNValueBytes_def match_simple_loop_True Let_def)
next
  case False
  then have "map (fold_byte folds) actual \<noteq> expected" by auto
  with False show ?thesis by (simp add: MatchSimpleRDNValueBytes_def match_simple_loop_False)
qed

section \<open>Escaping: lemmas\<close>

lemma escape_scan_ge: "i \<le> escape_scan len i cs \<and> escape_scan len i cs \<le> i + length cs"
proof (induction cs arbitrary: i)
  case (Cons c cs)
  from Cons.IH [of "Suc i"] show ?case by auto
qed simp

lemma escape_byte_plain: "\<not> scan_stops len i c \<Longrightarrow> escape_byte len i c = [c]"
  by (auto simp: scan_stops_def escape_byte_def)

lemma escape_from_scan:
  "escape_from len i cs = take (escape_scan len i cs - i) cs
     @ escape_from len (escape_scan len i cs) (drop (escape_scan len i cs - i) cs)"
proof (induction cs arbitrary: i)
  case (Cons c cs)
  show ?case
  proof (cases "scan_stops len i c")
    case False
    then obtain k where k: "escape_scan len (i + 1) cs = Suc (i + k)"
      using escape_scan_ge [of "i + 1" len cs] by (metis Suc_eq_plus1 add_Suc le_Suc_ex)
    with False Cons.IH [of "i + 1"] show ?thesis by (simp add: escape_byte_plain)
  qed simp
qed simp

lemma escapeDNValue_eq: "escapeDNValue v = escape_from (length v) 0 v"
  using escape_from_scan [of "length v" 0 v]
  by (simp add: escapeDNValue_def Let_def)

lemma hex_char_value: "n < 16 \<Longrightarrow> hex_value (hex_char n) = Some n"
  by (auto simp: hex_value_def hex_char_def is_digit_def)

lemma hex_char_not_special:
  "n < 16 \<Longrightarrow> \<not> special_char (hex_char n) \<and> hex_char n \<notin> {CHR '' '', CHR ''#'', CHR ''='', CHR 0x5C}"
proof -
  assume "n < 16"
  then have "hex_value (hex_char n) = Some n" by (rule hex_char_value)
  then show ?thesis by (auto simp: special_char_def hex_value_def is_digit_def)
qed

lemma unescape_escape_byte:
  "rfc4514_unescape (escape_byte len i c @ rest) = map_option ((#) c) (rfc4514_unescape rest)"
proof -
  have "ord c div 16 < 16" "16 * (ord c div 16) + ord c mod 16 = ord c"
    by (simp_all add: less_mult_imp_div_less)
  then show ?thesis
    using hex_char_not_special [of "ord c div 16"] hex_char_value [of "ord c div 16"]
      hex_char_value [of "ord c mod 16"]
    by (auto simp: escape_byte_def special_char_def)
qed

lemma unescape_escape_from: "rfc4514_unescape (escape_from len i cs) = Some cs"
  by (induction cs arbitrary: i) (auto simp: unescape_escape_byte)

text \<open>
  an escaped value read back by the rules of RFC 4514 is the original value, for every byte
  string.
\<close>

theorem escapeDNValue_roundtrip: "rfc4514_unescape (escapeDNValue v) = Some v"
  by (simp add: escapeDNValue_eq unescape_escape_from)

end
