(* ===== verification/Go_Encoding.thy ===== *)
theory Go_Encoding
  imports Go_Prelude
begin

text \<open>
  The two encodings of Go's standard library that identity keys are made of: unsigned varints
  (\<open>encoding/binary\<close>: \<open>AppendUvarint\<close>, \<open>Uvarint\<close>) and unpadded URL-safe base64
  (\<open>encoding/base64\<close>: \<open>RawURLEncoding\<close>, with and without \<open>Strict\<close>). Two locales state
  what a client may rely on: \<open>prefix_code\<close>, a code whose words can be read back from the front
  of a longer text, and \<open>text_codec\<close>, an encoding whose canonical texts are exactly those its
  decoder accepts.
\<close>

section \<open>Interfaces\<close>

locale prefix_code =
  fixes code :: "'a \<Rightarrow> 'b list"
    and valid :: "'a \<Rightarrow> bool"
    and read_code :: "'b list \<Rightarrow> ('a \<times> 'b list) option"
  assumes read_code: "valid x \<Longrightarrow> read_code (code x @ rest) = Some (x, rest)"
    and code_nonempty: "valid x \<Longrightarrow> code x \<noteq> []"
begin

lemma code_append_eq:
  assumes "valid x" "valid y" "code x @ r = code y @ s"
  shows "x = y \<and> r = s"
proof -
  have "Some (x, r) = Some (y, s)"
    by (simp only: read_code [OF assms(1), of r, symmetric] assms(3) read_code [OF assms(2)])
  then show ?thesis by simp
qed

lemma code_inj: "valid x \<Longrightarrow> valid y \<Longrightarrow> code x = code y \<Longrightarrow> x = y"
  using code_append_eq [of x y "[]" "[]"] by simp

text \<open>A sequence of code words is a prefix of another exactly when the words are.\<close>

lemma prefix_concat_iff:
  assumes "\<forall>x\<in>set xs. valid x" "\<forall>y\<in>set ys. valid y"
  shows "prefix (concat (map code xs)) (concat (map code ys)) \<longleftrightarrow> prefix xs ys"
  using assms
proof (induction xs arbitrary: ys)
  case Nil
  then show ?case by simp
next
  case (Cons x xs)
  show ?case
  proof (cases ys)
    case Nil
    with Cons.prems code_nonempty [of x] show ?thesis by simp
  next
    case (Cons y ys')
    have "prefix (concat (map code (x # xs))) (concat (map code ys)) \<longleftrightarrow>
        x = y \<and> prefix (concat (map code xs)) (concat (map code ys'))"
    proof
      assume "prefix (concat (map code (x # xs))) (concat (map code ys))"
      then obtain t where "code x @ (concat (map code xs) @ t) = code y @ concat (map code ys')"
        using Cons by (auto simp: prefix_def)
      then show "x = y \<and> prefix (concat (map code xs)) (concat (map code ys'))"
        using code_append_eq [of x y] Cons.prems Cons by (metis list.set_intros(1) prefixI)
    next
      assume "x = y \<and> prefix (concat (map code xs)) (concat (map code ys'))"
      then show "prefix (concat (map code (x # xs))) (concat (map code ys))"
        using Cons by simp
    qed
    also have "\<dots> \<longleftrightarrow> x = y \<and> prefix xs ys'"
      using Cons.IH [of ys'] Cons.prems Cons by auto
    finally show ?thesis using Cons by simp
  qed
qed

lemma concat_inj:
  assumes "\<forall>x\<in>set xs. valid x" "\<forall>y\<in>set ys. valid y"
    and "concat (map code xs) = concat (map code ys)"
  shows "xs = ys"
  using prefix_concat_iff [OF assms(1,2)] prefix_concat_iff [OF assms(2,1)] assms(3)
  by (simp add: prefix_order.antisym)

end

locale text_codec =
  fixes encode :: "bytes \<Rightarrow> bytes"
    and decode :: "bytes \<Rightarrow> bytes option"
    and canonical :: "bytes \<Rightarrow> bool"
  assumes decode_encode: "decode (encode x) = Some x"
    and canonical_encode: "canonical (encode x)"
    and encode_decode: "decode t = Some x \<Longrightarrow> canonical t \<Longrightarrow> encode x = t"
begin

lemma encode_inj: "encode x = encode y \<longleftrightarrow> x = y"
  by (metis decode_encode option.inject)

text \<open>
  Checking the decoder's verdict and the text's form is the same as re-encoding the result and
  comparing.
\<close>

lemma accepted_iff_reencodes:
  "(\<exists>x. decode t = Some x) \<and> canonical t \<longleftrightarrow> (\<exists>x. decode t = Some x \<and> encode x = t)"
  using canonical_encode encode_decode by blast

lemma accepted_image: "decode t = Some x \<and> canonical t \<longleftrightarrow> t = encode x"
  using canonical_encode decode_encode encode_decode by blast

end

section \<open>Unsigned varints\<close>

function uvarint :: "uint64 \<Rightarrow> bytes" where
  "uvarint x =
     (if 128 \<le> x then char_of ((unat x mod 256) OR 128) # uvarint (drop_bit 7 x)
      else [char_of (unat x)])"
  by pat_completeness auto
termination
proof (relation "measure unat")
  fix x :: uint64
  assume "128 \<le> x"
  then have "128 \<le> unat x" by (simp add: word_le_nat_alt)
  then show "(drop_bit 7 x, x) \<in> measure unat"
    by (simp add: drop_bit_eq_div unat_div)
qed simp

declare uvarint.simps [simp del]

definition AppendUvarint :: "bytes \<Rightarrow> uint64 \<Rightarrow> bytes" where
  "AppendUvarint buf x = buf @ uvarint x"

text \<open>
  \<open>Uvarint\<close> returns the value and the number of bytes read; the number is 0 when the buffer
  ends too early and negative when the value overflows 64 bits.
\<close>

fun uvarint_loop :: "bytes \<Rightarrow> nat \<Rightarrow> uint64 \<Rightarrow> nat \<Rightarrow> uint64 \<times> int" where
  "uvarint_loop [] i x s = (0, 0)"
| "uvarint_loop (b # bs) i x s =
     (if i = 10 then (0, - int (i + 1))
      else if ord b < 128 then
        (if i = 9 \<and> 1 < ord b then (0, - int (i + 1))
         else (x OR push_bit s (of_nat (ord b)), int (i + 1)))
      else uvarint_loop bs (i + 1) (x OR push_bit s (of_nat (ord b AND 127))) (s + 7))"

definition Uvarint :: "bytes \<Rightarrow> uint64 \<times> int" where
  "Uvarint buf = uvarint_loop buf 0 0 0"

text \<open>The number of bytes the encoding of \<open>x\<close> takes, as \<open>dnIdentityPartsSize\<close> computes it.\<close>

fun bit_length :: "nat \<Rightarrow> nat" where
  "bit_length n = (if n = 0 then 0 else Suc (bit_length (n div 2)))"

declare bit_length.simps [simp del]

definition uvarint_size :: "nat \<Rightarrow> nat" where
  "uvarint_size n = (bit_length (n OR 1) + 6) div 7"

section \<open>Unpadded URL-safe base64\<close>

definition b64_char :: "nat \<Rightarrow> char" where
  "b64_char n = (if n < 26 then char_of (65 + n) else if n < 52 then char_of (71 + n)
     else if n < 62 then char_of (n - 4) else if n = 62 then CHR ''-'' else CHR ''_'')"

definition b64_value :: "char \<Rightarrow> nat option" where
  "b64_value c = (let k = ord c in
     if 65 \<le> k \<and> k \<le> 90 then Some (k - 65)
     else if 97 \<le> k \<and> k \<le> 122 then Some (k - 71)
     else if 48 \<le> k \<and> k \<le> 57 then Some (k + 4)
     else if k = 45 then Some 62 else if k = 95 then Some 63 else None)"

fun b64_sextets :: "bytes \<Rightarrow> nat list" where
  "b64_sextets [] = []"
| "b64_sextets [a] = [ord a div 4, (ord a mod 4) * 16]"
| "b64_sextets [a, b] =
     [ord a div 4, (ord a mod 4) * 16 + ord b div 16, (ord b mod 16) * 4]"
| "b64_sextets (a # b # c # rest) =
     ord a div 4 # ((ord a mod 4) * 16 + ord b div 16)
       # ((ord b mod 16) * 4 + ord c div 64) # (ord c mod 64) # b64_sextets rest"

definition RawURL_EncodeToString :: "bytes \<Rightarrow> bytes" where
  "RawURL_EncodeToString src = map b64_char (b64_sextets src)"

text \<open>
  Decoding reads four digits at a time. A single digit left over is an error; two or three give
  one or two bytes, and a strict decoder refuses nonzero bits that no byte uses.
\<close>

fun b64_bytes :: "bool \<Rightarrow> nat list \<Rightarrow> bytes option" where
  "b64_bytes strict [] = Some []"
| "b64_bytes strict [p] = None"
| "b64_bytes strict [p, q] =
     (if strict \<and> q mod 16 \<noteq> 0 then None else Some [char_of (p * 4 + q div 16)])"
| "b64_bytes strict [p, q, r] =
     (if strict \<and> r mod 4 \<noteq> 0 then None
      else Some [char_of (p * 4 + q div 16), char_of ((q mod 16) * 16 + r div 4)])"
| "b64_bytes strict (p # q # r # s # rest) =
     map_option (\<lambda>t. char_of (p * 4 + q div 16) # char_of ((q mod 16) * 16 + r div 4)
         # char_of ((r mod 4) * 64 + s) # t) (b64_bytes strict rest)"

text \<open>Carriage returns and line feeds are skipped, by the strict decoder too.\<close>

definition line_break :: "char \<Rightarrow> bool" where
  "line_break c \<longleftrightarrow> c = CHR 0x0D \<or> c = CHR 0x0A"

definition RawURL_Decode :: "bool \<Rightarrow> bytes \<Rightarrow> bytes option" where
  "RawURL_Decode strict src =
     Option.bind (those (map b64_value (filter (\<lambda>c. \<not> line_break c) src))) (b64_bytes strict)"

section \<open>Varints: what is written is read back\<close>

lemma nat_or_exp:
  assumes "n < (2::nat) ^ Suc k"
  shows "n OR 2 ^ k = 2 ^ k + n mod 2 ^ k"
proof -
  have n: "i < Suc k" if "bit n i" for i
  proof -
    have "take_bit (Suc k) n = n" using assms by (simp add: take_bit_eq_mod)
    with that show ?thesis by (metis bit_take_bit_iff)
  qed
  have "2 ^ k + n mod 2 ^ k = 2 ^ k + take_bit k n"
    by (simp add: take_bit_eq_mod)
  also have "\<dots> = 2 ^ k OR take_bit k n"
    by (rule disjunctive_add) (auto simp: bit_simps)
  also have "\<dots> = n OR 2 ^ k"
    by (rule bit_eqI) (auto simp: bit_simps less_Suc_eq dest: n)
  finally show ?thesis by simp
qed

lemmas nat_or_128 = nat_or_exp [where k = 7, simplified]

lemma byte_or_128:
  assumes "n < (256::nat)"
  shows "n OR 128 < 256" "128 \<le> n OR 128" "(n OR 128) AND 127 = n mod 128"
proof -
  show "n OR 128 < 256" "128 \<le> n OR 128" using nat_or_128 [OF assms] by simp_all
  have "(n OR 128) AND 127 = take_bit 7 (n OR 128)"
    by (simp add: take_bit_eq_mask mask_eq_exp_minus_1)
  also have "\<dots> = n mod 128"
    using nat_or_128 [OF assms] by (simp add: take_bit_eq_mod)
  finally show "(n OR 128) AND 127 = n mod 128" .
qed

lemma push_bit_take_drop:
  "push_bit s (take_bit k y) OR push_bit (s + k) (drop_bit k y) = push_bit s (y :: 'a::len word)"
proof (rule bit_word_eqI)
  fix n
  show "bit (push_bit s (take_bit k y) OR push_bit (s + k) (drop_bit k y)) n = bit (push_bit s y) n"
    if "n < LENGTH('a)"
    using that by (cases "s + k \<le> n") (auto simp: bit_simps)
qed

lemma of_nat_mod_128: "of_nat (unat y mod 128) = take_bit 7 (y :: uint64)"
proof -
  have "unat (take_bit 7 y) = unat y mod 128"
    by (simp add: take_bit_eq_mod unat_mod)
  moreover have "of_nat (unat (take_bit 7 y)) = take_bit 7 y"
    by (simp only: of_nat_unat ucast_id)
  ultimately show ?thesis by simp
qed

lemma uvarint_last: "y < 128 \<Longrightarrow> uvarint y = [char_of (unat y)]"
  by (subst uvarint.simps) (simp add: linorder_not_le[symmetric])
lemma uvarint_step: "128 \<le> y \<Longrightarrow> uvarint y = char_of ((unat y mod 256) OR 128) # uvarint (drop_bit 7 y)"
  by (subst uvarint.simps) simp

lemma uvarint_loop_uvarint:
  assumes "unat y * 2 ^ (7 * i) < 2 ^ 64" "i < 10"
  shows "uvarint_loop (uvarint y @ rest) i x (7 * i)
           = (x OR push_bit (7 * i) y, int (i + length (uvarint y)))"
  using assms
proof (induction y arbitrary: i x rule: uvarint.induct)
  case (1 y)
  show ?case
  proof (cases "128 \<le> y")
    case False
    then have y: "unat y < 128" by (simp add: word_le_nat_alt)
    have "\<not> (i = 9 \<and> 1 < unat y)"
      using "1.prems" by auto
    then show ?thesis using y False "1.prems"(2) by (auto simp: uvarint_last)
  next
    case True
    have *: "unat (drop_bit 7 y) = unat y div 128"
      by (simp add: drop_bit_eq_div unat_div)
    have ge: "1 \<le> unat y div 128"
      using True by (simp add: word_le_nat_alt Suc_le_eq div_greater_zero_iff)
    have "unat (drop_bit 7 y) * 2 ^ (7 * (i + 1)) = unat y div 128 * 128 * 2 ^ (7 * i)"
      by (simp add: * power_add)
    also have "\<dots> \<le> unat y * 2 ^ (7 * i)"
      by (rule mult_right_mono) simp_all
    finally have bound: "unat (drop_bit 7 y) * 2 ^ (7 * (i + 1)) < 2 ^ 64"
      using "1.prems"(1) by (rule le_less_trans)
    have "2 ^ (7 * (i + 1)) \<le> unat (drop_bit 7 y) * 2 ^ (7 * (i + 1))"
      using mult_le_mono1 [OF ge, of "2 ^ (7 * (i + 1))"] * by simp
    then have "2 ^ (7 * (i + 1)) < (2 ^ 64 :: nat)"
      using bound by (rule le_less_trans)
    then have i: "i + 1 < 10"
      by (simp add: power_strict_increasing_iff del: power_numeral)
    let ?b = "unat y mod 256 OR 128"
    have b: "?b < 256" "\<not> ?b < 128" "?b AND 127 = unat y mod 128"
      using byte_or_128 [of "unat y mod 256"] by (auto simp: mod_mod_cancel)
    have x: "x OR push_bit (7 * i) (take_bit 7 y) OR push_bit (7 * (i + 1)) (drop_bit 7 y)
        = x OR push_bit (7 * i) y"
      using push_bit_take_drop [of "7 * i" 7 y] by (simp add: or.assoc add.commute)
    show ?thesis
      using "1.IH" [OF True bound i, of "x OR push_bit (7 * i) (take_bit 7 y)"] i True b x
      by (simp add: uvarint_step of_nat_mod_128 add.commute or.assoc)
  qed
qed

lemma Uvarint_uvarint: "Uvarint (uvarint y @ rest) = (y, int (length (uvarint y)))"
  using uvarint_loop_uvarint [of y 0 rest 0] unsigned_less [of y] by (simp add: Uvarint_def)

lemma uvarint_nonempty [simp]: "uvarint y \<noteq> []"
  by (subst uvarint.simps) simp

lemma uvarint_loop_count:
  "uvarint_loop bs i x s = (v, n) \<Longrightarrow> n \<le> int (i + length bs) \<and> (0 < n \<longrightarrow> int i < n)"
  by (induction bs i x s rule: uvarint_loop.induct) (auto split: if_splits)

lemma Uvarint_count: "Uvarint bs = (v, n) \<Longrightarrow> n \<le> int (length bs)"
  using uvarint_loop_count [of bs 0 0 0 v n] by (simp add: Uvarint_def)

lemma uvarint_loop_append:
  "uvarint_loop bs i x s = (v, n) \<Longrightarrow> 0 < n \<Longrightarrow> uvarint_loop (bs @ cs) i x s = (v, n)"
  by (induction bs i x s rule: uvarint_loop.induct) (auto split: if_splits)

lemma bit_length_Suc: "0 < n \<Longrightarrow> bit_length n = Suc (bit_length (n div 2))"
  by (subst bit_length.simps) simp

lemma bit_length_div_exp: "2 ^ k \<le> n \<Longrightarrow> bit_length n = k + bit_length (n div 2 ^ k)"
proof (induction k arbitrary: n)
  case (Suc k)
  then have "2 ^ k \<le> n div 2"
    by (simp add: less_eq_div_iff_mult_less_eq mult.commute)
  moreover from this have "0 < n"
    by (cases n) auto
  ultimately have "2 ^ k \<le> n div 2" and "0 < n" by auto
  with Suc.IH [of "n div 2"] bit_length_Suc [of n] show ?case
    by (simp add: div_mult2_eq)
qed simp

lemma bit_length_le: "n < 2 ^ k \<Longrightarrow> bit_length n \<le> k"
proof (induction k arbitrary: n)
  case 0
  then show ?case by (simp add: bit_length.simps)
next
  case (Suc k)
  then show ?case by (cases "n = 0") (auto simp: bit_length.simps [of n] bit_length.simps [of 0])
qed

lemma bit_length_pos: "0 < n \<Longrightarrow> 0 < bit_length n"
  by (simp add: bit_length_Suc)

lemma bit_length_or_1: "bit_length (n OR Suc 0) = max 1 (bit_length n)"
proof (cases "n = 0")
  case True
  then show ?thesis by (simp add: bit_length.simps)
next
  case False
  have "(n OR Suc 0) div 2 = n div 2" "0 < n OR Suc 0"
    using False by (simp_all add: or_Suc_0_eq)
  with False bit_length_Suc [of n] bit_length_Suc [of "n OR Suc 0"] show ?thesis by simp
qed

lemma uvarint_size: "uvarint_size (unat y) = length (uvarint y)"
proof (induction y rule: uvarint.induct)
  case (1 y)
  show ?case
  proof (cases "128 \<le> y")
    case True
    then have le: "2 ^ 7 \<le> unat y" by (simp add: word_le_nat_alt)
    have d: "unat (drop_bit 7 y) = unat y div 2 ^ 7" by (simp add: drop_bit_eq_div unat_div)
    have "0 < unat y div 2 ^ 7" using le by (simp add: div_greater_zero_iff)
    then have "uvarint_size (unat y) = Suc (uvarint_size (unat y div 2 ^ 7))"
      using bit_length_div_exp [OF le] bit_length_pos [of "unat y div 2 ^ 7"]
      by (simp add: uvarint_size_def bit_length_or_1 max_def)
    with "1.IH" [OF True] d show ?thesis by (simp add: uvarint_step [OF True])
  next
    case False
    then have "unat y < 2 ^ 7" by (simp add: word_le_nat_alt)
    then have "bit_length (unat y) \<le> 7" by (rule bit_length_le)
    then have "(max 1 (bit_length (unat y)) + 6) div 7 = 1" by linarith
    with False show ?thesis by (simp add: uvarint_last uvarint_size_def bit_length_or_1)
  qed
qed

section \<open>Base64: strict decoding accepts exactly the canonical texts\<close>

lemma b64_value_char [simp]: "n < 64 \<Longrightarrow> b64_value (b64_char n) = Some n"
  by (auto simp: b64_value_def b64_char_def Let_def)

lemma b64_char_value: "b64_value c = Some n \<Longrightarrow> n < 64 \<and> b64_char n = c"
  by (auto simp: b64_value_def b64_char_def Let_def split: if_splits intro!: of_char_eqI [where 'a = nat])

lemma b64_char_not_line_break [simp]: "n < 64 \<Longrightarrow> \<not> line_break (b64_char n)"
  using b64_value_char [of n] by (auto simp: line_break_def b64_value_def)

lemma byte_div_less:
  "ord c div 4 < 64" "ord c div 16 < 16" "ord c div 64 < 4"
  by (simp_all add: less_mult_imp_div_less)

lemma digit_less: "(x::nat) < m \<Longrightarrow> y < k \<Longrightarrow> x * k + y < m * k"
  by (metis add_less_mono1 add_strict_left_mono less_le_trans linorder_not_le mult_Suc mult_le_mono1 Suc_leI add.commute)

lemma b64_sextets_less: "n \<in> set (b64_sextets bs) \<Longrightarrow> n < 64"
proof (induction bs rule: b64_sextets.induct)
  case (4 a b c rest)
  then show ?case
    using byte_div_less [of a] byte_div_less [of b] byte_div_less [of c]
      digit_less [of "ord a mod 4" 4 "ord b div 16" 16] digit_less [of "ord b mod 16" 16 "ord c div 64" 4]
    by auto
next
  case (3 a b)
  then show ?case
    using byte_div_less [of a] byte_div_less [of b] digit_less [of "ord a mod 4" 4 "ord b div 16" 16]
      digit_less [of "ord b mod 16" 16 0 4]
    by auto
next
  case (2 a)
  then show ?case using byte_div_less [of a] digit_less [of "ord a mod 4" 4 0 16] by auto
qed auto

lemma those_map_Some: "those (map Some xs) = Some xs"
  by (induction xs) auto

lemma those_eq_Some: "those ys = Some xs \<longleftrightarrow> ys = map Some xs"
  by (induction ys arbitrary: xs) (auto split: option.splits)

lemma b64_bytes_sextets: "b64_bytes strict (b64_sextets bs) = Some bs"
proof (induction bs rule: b64_sextets.induct)
  case (4 a b c rest)
  have a: "ord a div 4 * 4 + (ord a mod 4 * 16 + ord b div 16) div 16 = ord a"
    using byte_div_less [of b] by simp
  have b: "(ord a mod 4 * 16 + ord b div 16) mod 16 * 16
      + (ord b mod 16 * 4 + ord c div 64) div 4 = ord b"
    using byte_div_less [of b] byte_div_less [of c] by simp
  have c: "(ord b mod 16 * 4 + ord c div 64) mod 4 * 64 + ord c mod 64 = ord c"
    using byte_div_less [of c] by simp
  show ?case by (simp only: b64_sextets.simps b64_bytes.simps 4 a b c) simp
next
  case (3 a b)
  have a: "ord a div 4 * 4 + (ord a mod 4 * 16 + ord b div 16) div 16 = ord a"
    using byte_div_less [of b] by simp
  have b: "(ord a mod 4 * 16 + ord b div 16) mod 16 * 16 + (ord b mod 16 * 4) div 4 = ord b"
    using byte_div_less [of b] by simp
  show ?case by (simp only: b64_sextets.simps b64_bytes.simps a b) simp
next
  case (2 a)
  have a: "ord a div 4 * 4 + (ord a mod 4 * 16) div 16 = ord a" by simp
  show ?case by (simp only: b64_sextets.simps b64_bytes.simps a) simp
qed simp

lemma b64_tail_less: "p < 64 \<Longrightarrow> q < 64 \<Longrightarrow> p * 4 + q div 16 < (256::nat)"
  "q < 64 \<Longrightarrow> r < 64 \<Longrightarrow> q mod 16 * 16 + r div 4 < (256::nat)"
  "s < 64 \<Longrightarrow> r mod 4 * 64 + s < (256::nat)"
  using digit_less [of p 64 "q div 16" 4] digit_less [of "q mod 16" 16 "r div 4" 16]
    digit_less [of "r mod 4" 4 s 64]
  by (simp_all add: less_mult_imp_div_less)

lemma b64_sextets_bytes:
  assumes "b64_bytes strict ds = Some bs" "\<forall>d\<in>set ds. d < 64" "strict"
  shows "b64_sextets bs = ds"
  using assms
proof (induction strict ds arbitrary: bs rule: b64_bytes.induct)
  case (3 strict p q)
  then have "q mod 16 = 0" "p * 4 + q div 16 < 256" "q div 16 < 4"
    by (auto simp: b64_tail_less less_mult_imp_div_less split: if_splits)
  moreover have "q div 16 * 16 = q" using \<open>q mod 16 = 0\<close> by auto
  ultimately show ?case using 3 by (auto split: if_splits)
next
  case (4 strict p q r)
  then have "r mod 4 = 0" "p * 4 + q div 16 < 256" "q mod 16 * 16 + r div 4 < 256" "q div 16 < 4" "r div 4 < 16"
    by (auto simp: b64_tail_less less_mult_imp_div_less split: if_splits)
  moreover have "r div 4 * 4 = r" using \<open>r mod 4 = 0\<close> by auto
  ultimately show ?case using 4 by (auto split: if_splits)
next
  case (5 strict p q r s rest)
  then have "p * 4 + q div 16 < 256" "q mod 16 * 16 + r div 4 < 256" "r mod 4 * 64 + s < 256"
    "q div 16 < 4" "r div 4 < 16" "s < 64"
    by (auto simp: b64_tail_less less_mult_imp_div_less)
  with 5 show ?case by auto
qed auto

lemma RawURL_Decode_Encode:
  "RawURL_Decode strict (RawURL_EncodeToString bs) = Some bs"
proof -
  have "filter (\<lambda>c. \<not> line_break c) (map b64_char (b64_sextets bs)) = map b64_char (b64_sextets bs)"
    by (rule filter_True) (auto dest: b64_sextets_less)
  moreover have "map b64_value (map b64_char (b64_sextets bs)) = map Some (b64_sextets bs)"
    by (auto dest: b64_sextets_less)
  ultimately show ?thesis
    by (simp only: RawURL_Decode_def RawURL_EncodeToString_def those_map_Some) (simp add: b64_bytes_sextets)
qed

lemma RawURL_Encode_Decode:
  assumes "RawURL_Decode True t = Some bs" "\<forall>c\<in>set t. \<not> line_break c"
  shows "RawURL_EncodeToString bs = t"
proof -
  from assms(2) have "filter (\<lambda>c. \<not> line_break c) t = t" by (auto intro: filter_True)
  with assms(1) obtain ds where ds: "map b64_value t = map Some ds" "b64_bytes True ds = Some bs"
    by (auto simp: RawURL_Decode_def those_eq_Some Option.bind_eq_Some_conv)
  from ds(1) have "list_all2 (\<lambda>c d. b64_value c = Some d) t ds"
    by (simp add: list_all2_conv_all_nth list_eq_iff_nth_eq)
  then have "list_all2 (\<lambda>c d. b64_char d = c \<and> d < 64) t ds"
    by (rule list_all2_mono) (simp add: b64_char_value)
  then have t: "map b64_char ds = t" "\<forall>d\<in>set ds. d < 64"
    by (induction rule: list_all2_induct) auto
  with b64_sextets_bytes [OF ds(2)] show ?thesis by (simp add: RawURL_EncodeToString_def)
qed

lemma RawURL_Encode_no_line_break: "\<forall>c\<in>set (RawURL_EncodeToString bs). \<not> line_break c"
  by (auto simp: RawURL_EncodeToString_def dest: b64_sextets_less)

interpretation raw_url: text_codec RawURL_EncodeToString "RawURL_Decode True"
  "\<lambda>t. \<forall>c\<in>set t. \<not> line_break c"
  by unfold_locales
    (auto simp: RawURL_Decode_Encode RawURL_Encode_Decode RawURL_Encode_no_line_break)

lemma RawURL_Decode_mono: "RawURL_Decode True t = Some bs \<Longrightarrow> RawURL_Decode strict t = Some bs"
proof -
  have "b64_bytes True ds = Some bs \<Longrightarrow> b64_bytes strict ds = Some bs" for ds
    by (induction True ds arbitrary: bs rule: b64_bytes.induct) (auto split: if_splits)
  then show "RawURL_Decode True t = Some bs \<Longrightarrow> ?thesis"
    by (auto simp: RawURL_Decode_def Option.bind_eq_Some_conv)
qed

end
