(* ===== verification/DN_Identity.thy ===== *)
theory DN_Identity
  imports Go_Encoding Go_Strings
begin

text \<open>
  The identity keys of schema-aware names (\<open>internal/directory/dn.go\<close>, \<open>dn_key_ascii.go\<close>,
  \<open>dn_hierarchy.go\<close>): sequences of byte strings framed with varint lengths, nested twice (a name
  is a sequence of RDNs, an RDN a sequence of AVAs, an AVA a type and a value), wrapped in base64
  behind the prefix \<open>dn:v2:\<close>. The file shows that framing and keys can be read back, that keys
  identify the framed RDNs, that reading never panics, and that the hierarchy path of a key turns
  ancestry of names into the prefix order of byte strings.
\<close>

section \<open>Framed sequences\<close>

definition appendDNIdentityParts :: "bytes \<Rightarrow> bytes list \<Rightarrow> bytes" where
  "appendDNIdentityParts result parts =
     foldl (\<lambda>r part. AppendUvarint r (of_nat (length part)) @ part)
       (AppendUvarint result (of_nat (length parts))) parts"

definition encodeDNIdentityParts :: "bytes list \<Rightarrow> bytes" where
  "encodeDNIdentityParts parts = appendDNIdentityParts [] parts"

definition dnIdentityPartsSize :: "bytes list \<Rightarrow> nat" where
  "dnIdentityPartsSize parts =
     foldl (\<lambda>size part. size + (uvarint_size (length part) + length part))
       (uvarint_size (length parts)) parts"

datatype parts_error =
    TruncatedPartCount
  | PartCountOverflow
  | PartCountExceedsPayload
  | TruncatedPartLength nat
  | PartLengthOverflow nat
  | PartLengthExceedsPayload nat
  | TrailingBytes

record dnIdentityParts =
  data :: bytes
  parts_count :: nat

text \<open>
  Taking the next part does not check anything again: a negative count of bytes read or a length
  beyond the data is a slice out of range.
\<close>

definition parts_next :: "dnIdentityParts \<Rightarrow> (bytes \<times> dnIdentityParts) option" where
  "parts_next parts =
     (case Uvarint (data parts) of (len, n) \<Rightarrow>
       if n < 0 then None
       else let rest = drop (nat n) (data parts) in
         if length rest < unat len then None
         else Some (take (unat len) rest, parts\<lparr>data := drop (unat len) rest\<rparr>))"

fun view_lengths :: "nat \<Rightarrow> nat \<Rightarrow> bytes \<Rightarrow> (parts_error, bytes) go" where
  "view_lengths 0 index encoded = Ok encoded"
| "view_lengths (Suc k) index encoded =
     (case Uvarint encoded of (len, n) \<Rightarrow>
       if n = 0 then Err (TruncatedPartLength index)
       else if n < 0 then Err (PartLengthOverflow index)
       else let rest = drop (nat n) encoded in
         if length rest < unat len then Err (PartLengthExceedsPayload index)
         else view_lengths k (index + 1) (drop (unat len) rest))"

definition viewDNIdentityParts :: "bytes \<Rightarrow> (parts_error, dnIdentityParts) go" where
  "viewDNIdentityParts encoded =
     (case Uvarint encoded of (c, n) \<Rightarrow>
       if n = 0 then Err TruncatedPartCount
       else if n < 0 then Err PartCountOverflow
       else let rest = drop (nat n) encoded in
         if length rest + 1 < unat c then Err PartCountExceedsPayload
         else go_bind (view_lengths (unat c) 0 rest) (\<lambda>trailing.
           if trailing \<noteq> [] then Err TrailingBytes
           else Ok \<lparr>data = rest, parts_count = unat c\<rparr>))"

text \<open>\<open>n\<close> calls of \<open>next\<close>.\<close>

fun parts_take :: "nat \<Rightarrow> dnIdentityParts \<Rightarrow> (bytes list \<times> dnIdentityParts) option" where
  "parts_take 0 parts = Some ([], parts)"
| "parts_take (Suc n) parts =
     (case parts_next parts of None \<Rightarrow> None
      | Some (p, parts') \<Rightarrow> map_option (map_prod ((#) p) id) (parts_take n parts'))"

definition decodeDNIdentityParts :: "bytes \<Rightarrow> (parts_error, bytes list) go" where
  "decodeDNIdentityParts encoded =
     go_bind (viewDNIdentityParts encoded) (\<lambda>view.
       go_of_option (map_option fst (parts_take (parts_count view) view)))"

section \<open>Keys\<close>

definition schemaAwareDNKeyPrefix :: bytes where
  "schemaAwareDNKeyPrefix = ''dn:v2:''"

definition encodeDNIdentity :: "bytes list \<Rightarrow> bytes" where
  "encodeDNIdentity rdns =
     schemaAwareDNKeyPrefix @ RawURL_EncodeToString (appendDNIdentityParts [] rdns)"

definition hasDNKeyLineBreak :: "bytes \<Rightarrow> bool" where
  "hasDNKeyLineBreak encoded \<longleftrightarrow> CHR 0x0D \<in> set encoded \<or> CHR 0x0A \<in> set encoded"

text \<open>
  \<open>strings.TrimPrefix\<close>, then strict decoding and the check for line breaks; \<open>None\<close> is the
  error ``not canonically encoded''.
\<close>

definition key_payload :: "bytes \<Rightarrow> bytes option" where
  "key_payload key =
     (let encoded = (if HasPrefix key schemaAwareDNKeyPrefix
        then drop (length schemaAwareDNKeyPrefix) key else key) in
      case RawURL_Decode True encoded of None \<Rightarrow> None
      | Some payload \<Rightarrow> if hasDNKeyLineBreak encoded then None else Some payload)"

section \<open>Hierarchy paths\<close>

datatype hierarchy_error =
    NotSchemaAware
  | NotCanonicallyEncoded
  | HierarchyRDNs parts_error
  | NoncanonicalLengths
  | InvalidRDN
  | InvalidAVA
  | AVAsNotCanonical

text \<open>The checks of one AVA; \<open>prev\<close> is the AVA before it, if there is one.\<close>

definition check_hierarchy_ava :: "bytes option \<Rightarrow> bytes \<Rightarrow> (hierarchy_error, unit) go" where
  "check_hierarchy_ava prev ava =
     (case decodeDNIdentityParts ava of
        Panic \<Rightarrow> Panic
      | Err e \<Rightarrow> Err InvalidAVA
      | Ok parts \<Rightarrow>
          if length parts \<noteq> 2 \<or> parts ! 0 = [] \<or> ava \<noteq> encodeDNIdentityParts parts
          then Err InvalidAVA
          else case prev of None \<Rightarrow> Ok ()
            | Some p \<Rightarrow> if \<not> p < ava then Err AVAsNotCanonical else Ok ())"

fun check_hierarchy_avas :: "bytes option \<Rightarrow> bytes list \<Rightarrow> (hierarchy_error, unit) go" where
  "check_hierarchy_avas prev [] = Ok ()"
| "check_hierarchy_avas prev (ava # avas) =
     go_bind (check_hierarchy_ava prev ava) (\<lambda>_. check_hierarchy_avas (Some ava) avas)"

definition check_hierarchy_rdn :: "bytes \<Rightarrow> (hierarchy_error, unit) go" where
  "check_hierarchy_rdn rdn =
     (case decodeDNIdentityParts rdn of
        Panic \<Rightarrow> Panic
      | Err e \<Rightarrow> Err InvalidRDN
      | Ok avas \<Rightarrow>
          if avas = [] \<or> rdn \<noteq> encodeDNIdentityParts avas then Err InvalidRDN
          else check_hierarchy_avas None avas)"

fun hierarchy_path_of :: "bytes list \<Rightarrow> bytes \<Rightarrow> bytes" where
  "hierarchy_path_of [] path = path"
| "hierarchy_path_of (rdn # rdns) path =
     hierarchy_path_of rdns (AppendUvarint path (of_nat (length rdn)) @ rdn)"

definition DNHierarchyPath :: "bytes \<Rightarrow> (hierarchy_error, bytes) go" where
  "DNHierarchyPath identity =
     (if \<not> HasPrefix identity schemaAwareDNKeyPrefix then Err NotSchemaAware
      else let encoded = drop (length schemaAwareDNKeyPrefix) identity in
        case RawURL_Decode True encoded of
          None \<Rightarrow> Err NotCanonicallyEncoded
        | Some payload \<Rightarrow>
            if RawURL_EncodeToString payload \<noteq> encoded then Err NotCanonicallyEncoded
            else go_bind (go_wrap HierarchyRDNs (decodeDNIdentityParts payload)) (\<lambda>rdns.
              if payload \<noteq> encodeDNIdentityParts rdns then Err NoncanonicalLengths
              else go_bind (go_map check_hierarchy_rdn rdns) (\<lambda>_.
                Ok (hierarchy_path_of (rev rdns) [CHR 0x01]))))"

section \<open>Framing: what is written is read back\<close>

definition frame :: "bytes \<Rightarrow> bytes" where
  "frame part = uvarint (of_nat (length part)) @ part"

text \<open>Go's slices are shorter than \<open>2 ^ 63\<close> bytes; the encodings need \<open>2 ^ 64\<close>.\<close>

definition parts_fit :: "bytes list \<Rightarrow> bool" where
  "parts_fit parts \<longleftrightarrow> length parts < 2 ^ 64 \<and> (\<forall>p\<in>set parts. length p < 2 ^ 64)"

definition read_frame :: "bytes \<Rightarrow> (bytes \<times> bytes) option" where
  "read_frame d = map_option (map_prod id data) (parts_next \<lparr>data = d, parts_count = 0\<rparr>)"

lemma encodeDNIdentityParts_eq:
  "encodeDNIdentityParts parts = uvarint (of_nat (length parts)) @ concat (map frame parts)"
proof -
  have "foldl (\<lambda>r part. AppendUvarint r (of_nat (length part)) @ part) result ps
      = result @ concat (map frame ps)" for result ps
    by (induction ps arbitrary: result) (auto simp: AppendUvarint_def frame_def)
  then show ?thesis
    by (simp add: encodeDNIdentityParts_def appendDNIdentityParts_def AppendUvarint_def)
qed

lemma appendDNIdentityParts_Nil: "appendDNIdentityParts [] parts = encodeDNIdentityParts parts"
  by (simp add: encodeDNIdentityParts_def)

lemma frame_nonempty [simp]: "frame p \<noteq> []"
  by (simp add: frame_def)

lemma Uvarint_frame:
  assumes "length p < 2 ^ 64"
  shows "Uvarint (frame p @ rest) =
    (of_nat (length p), int (length (uvarint (of_nat (length p)))))"
  by (simp add: frame_def Uvarint_uvarint)

lemma parts_next_frame:
  "length p < 2 ^ 64 \<Longrightarrow> parts_next \<lparr>data = frame p @ rest, parts_count = c\<rparr>
     = Some (p, \<lparr>data = rest, parts_count = c\<rparr>)"
  unfolding parts_next_def by (simp add: Uvarint_frame) (simp add: frame_def)

interpretation framed: prefix_code frame "\<lambda>p. length p < 2 ^ 64" read_frame
  by unfold_locales (simp_all add: read_frame_def parts_next_frame)

lemma view_lengths_frames:
  assumes "\<forall>p\<in>set parts. length p < 2 ^ 64"
  shows "view_lengths (length parts) i (concat (map frame parts) @ rest) = Ok rest"
  using assms
proof (induction parts arbitrary: i)
  case (Cons p parts)
  have "0 < length (uvarint (of_nat (length p)))" by simp
  with Cons Uvarint_frame [of p "concat (map frame parts) @ rest"] show ?case
    by (simp add: frame_def [of p])
qed simp

lemma length_concat_frames: "length parts \<le> length (concat (map frame parts))"
proof (induction parts)
  case (Cons p parts)
  have "Suc 0 \<le> length (frame p)" by (simp add: Suc_le_eq)
  with Cons show ?case by (simp only: list.size concat.simps list.map length_append)
qed simp

lemma viewDNIdentityParts_encode:
  assumes "parts_fit parts"
  shows "viewDNIdentityParts (encodeDNIdentityParts parts)
    = Ok \<lparr>data = concat (map frame parts), parts_count = length parts\<rparr>"
proof -
  have "0 < length (uvarint (of_nat (length parts)))" by simp
  with assms length_concat_frames [of parts] view_lengths_frames [of parts 0 "[]"] show ?thesis
    unfolding viewDNIdentityParts_def encodeDNIdentityParts_eq
    by (simp add: Uvarint_uvarint parts_fit_def)
qed

lemma parts_take_frames:
  "\<forall>p\<in>set parts. length p < 2 ^ 64 \<Longrightarrow>
     parts_take (length parts) \<lparr>data = concat (map frame parts) @ rest, parts_count = c\<rparr>
       = Some (parts, \<lparr>data = rest, parts_count = c\<rparr>)"
  by (induction parts) (auto simp: parts_next_frame)

lemma decodeDNIdentityParts_encode:
  "parts_fit parts \<Longrightarrow> decodeDNIdentityParts (encodeDNIdentityParts parts) = Ok parts"
  using parts_take_frames [of parts "[]"]
  by (simp add: decodeDNIdentityParts_def viewDNIdentityParts_encode parts_fit_def)

lemma encodeDNIdentityParts_inj:
  assumes "parts_fit a" "parts_fit b" "encodeDNIdentityParts a = encodeDNIdentityParts b"
  shows "a = b"
  by (metis assms decodeDNIdentityParts_encode go.inject(1))

section \<open>Reading never panics\<close>

lemma parts_next_step:
  assumes "Uvarint enc = (len, n)" "0 < n" "unat len \<le> length (drop (nat n) enc)"
  shows "parts_next \<lparr>data = enc, parts_count = c\<rparr> =
    Some (take (unat len) (drop (nat n) enc), \<lparr>data = drop (unat len) (drop (nat n) enc), parts_count = c\<rparr>)"
  using assms by (simp add: parts_next_def)

lemma view_lengths_parts_take:
  assumes "view_lengths k i enc = Ok rest"
  shows "\<exists>ps. parts_take k \<lparr>data = enc, parts_count = c\<rparr> = Some (ps, \<lparr>data = rest, parts_count = c\<rparr>)
    \<and> length ps = k \<and> (\<forall>p\<in>set ps. length p < 2 ^ 64)"
  using assms
proof (induction k arbitrary: i enc)
  case (Suc k)
  obtain len n where u: "Uvarint enc = (len, n)" by fastforce
  with Suc.prems have n: "0 < n" and len: "unat len \<le> length (drop (nat n) enc)"
    and rest: "view_lengths k (i + 1) (drop (unat len) (drop (nat n) enc)) = Ok rest"
    by (auto simp: Let_def split: if_splits)
  from Suc.IH [OF rest] obtain ps where
    ps: "parts_take k \<lparr>data = drop (unat len) (drop (nat n) enc), parts_count = c\<rparr>
        = Some (ps, \<lparr>data = rest, parts_count = c\<rparr>)" "length ps = k" "\<forall>p\<in>set ps. length p < 2 ^ 64"
    by blast
  have "unat len < 2 ^ 64" using unsigned_less [of len] by simp
  then have "length (take (unat len) (drop (nat n) enc)) < 2 ^ 64"
    by (rule le_less_trans [rotated]) simp
  then show ?case
    using ps parts_next_step [OF u n len, of c] by (auto simp del: take_drop)
qed simp

lemma viewDNIdentityParts_Ok:
  assumes "viewDNIdentityParts enc = Ok v"
  obtains ps where "parts_take (parts_count v) v = Some (ps, v\<lparr>data := []\<rparr>)" "length ps = parts_count v"
    "parts_fit ps"
proof -
  obtain c n where u: "Uvarint enc = (c, n)" by fastforce
  with assms have v: "v = \<lparr>data = drop (nat n) enc, parts_count = unat c\<rparr>"
    and lens: "view_lengths (unat c) 0 (drop (nat n) enc) = Ok []"
    by (auto simp: viewDNIdentityParts_def Let_def split: if_splits)
  have "unat c < 2 ^ 64" using unsigned_less [of c] by simp
  with view_lengths_parts_take [OF lens, of "unat c"] v that show ?thesis
    by (auto simp: parts_fit_def)
qed

lemma decodeDNIdentityParts_view:
  "decodeDNIdentityParts enc = Ok ps \<longleftrightarrow>
     (\<exists>v rest. viewDNIdentityParts enc = Ok v \<and> parts_take (parts_count v) v = Some (ps, rest))"
  by (auto simp: decodeDNIdentityParts_def)

lemma decodeDNIdentityParts_Ok:
  assumes "decodeDNIdentityParts enc = Ok ps"
  shows "parts_fit ps"
proof -
  from assms obtain v rest where v: "viewDNIdentityParts enc = Ok v"
    "parts_take (parts_count v) v = Some (ps, rest)"
    by (auto simp: decodeDNIdentityParts_view)
  from viewDNIdentityParts_Ok [OF v(1)] v(2) show ?thesis by force
qed

lemma view_lengths_no_panic: "view_lengths k i enc \<noteq> Panic"
  by (induction k arbitrary: i enc) (auto simp: Let_def split: prod.split)

lemma viewDNIdentityParts_no_panic: "viewDNIdentityParts enc \<noteq> Panic"
  using view_lengths_no_panic
  by (auto simp: viewDNIdentityParts_def Let_def split: prod.split)

lemma decodeDNIdentityParts_no_panic: "decodeDNIdentityParts enc \<noteq> Panic"
proof (cases "viewDNIdentityParts enc")
  case (Ok v)
  then show ?thesis by (rule viewDNIdentityParts_Ok) (simp add: decodeDNIdentityParts_def Ok)
qed (auto simp: decodeDNIdentityParts_def viewDNIdentityParts_no_panic)

section \<open>Keys identify the RDNs they frame\<close>

lemma key_payload_iff:
  assumes "HasPrefix key schemaAwareDNKeyPrefix"
  shows "key_payload key = Some p \<longleftrightarrow> key = schemaAwareDNKeyPrefix @ RawURL_EncodeToString p"
proof -
  let ?e = "drop (length schemaAwareDNKeyPrefix) key"
  have key: "key = schemaAwareDNKeyPrefix @ ?e"
    using assms by (metis HasPrefix_def append_take_drop_id)
  have "key_payload key = Some p \<longleftrightarrow>
      RawURL_Decode True ?e = Some p \<and> (\<forall>c\<in>set ?e. \<not> line_break c)"
    using assms by (auto simp: key_payload_def Let_def hasDNKeyLineBreak_def line_break_def
        split: option.splits)
  also have "\<dots> \<longleftrightarrow> ?e = RawURL_EncodeToString p" by (rule raw_url.accepted_image)
  also have "\<dots> \<longleftrightarrow> key = schemaAwareDNKeyPrefix @ RawURL_EncodeToString p"
    using key by (metis same_append_eq)
  finally show ?thesis .
qed

lemma encodeDNIdentity_prefix [simp]: "HasPrefix (encodeDNIdentity rdns) schemaAwareDNKeyPrefix"
  by (simp add: encodeDNIdentity_def)

lemma key_payload_encode [simp]:
  "key_payload (encodeDNIdentity rdns) = Some (encodeDNIdentityParts rdns)"
  by (simp add: key_payload_iff) (simp add: encodeDNIdentity_def appendDNIdentityParts_Nil)

lemma encodeDNIdentity_inj:
  assumes "parts_fit a" "parts_fit b"
  shows "encodeDNIdentity a = encodeDNIdentity b \<longleftrightarrow> a = b"
  using assms encodeDNIdentityParts_inj [of a b]
  by (auto simp: encodeDNIdentity_def appendDNIdentityParts_Nil raw_url.encode_inj)

text \<open>The RDNs of a key, for keys whose payload decodes.\<close>

definition key_rdns :: "bytes \<Rightarrow> bytes list" where
  "key_rdns key = (case key_payload key of None \<Rightarrow> []
     | Some p \<Rightarrow> (case decodeDNIdentityParts p of Ok rdns \<Rightarrow> rdns | _ \<Rightarrow> []))"

lemma key_rdns_encode [simp]: "parts_fit rdns \<Longrightarrow> key_rdns (encodeDNIdentity rdns) = rdns"
  by (simp add: key_rdns_def decodeDNIdentityParts_encode)

section \<open>Hierarchy paths: lemmas\<close>

lemma hierarchy_path_of_eq: "hierarchy_path_of rdns path = path @ concat (map frame rdns)"
  by (induction rdns arbitrary: path) (auto simp: AppendUvarint_def frame_def)

lemma DNHierarchyPath_Ok:
  assumes "DNHierarchyPath key = Ok path"
  shows "key = encodeDNIdentity (key_rdns key)" "parts_fit (key_rdns key)"
    "path = CHR 0x01 # concat (map frame (rev (key_rdns key)))"
    "\<forall>rdn\<in>set (key_rdns key). check_hierarchy_rdn rdn = Ok ()"
proof -
  let ?e = "drop (length schemaAwareDNKeyPrefix) key"
  from assms have pre: "HasPrefix key schemaAwareDNKeyPrefix"
    by (auto simp: DNHierarchyPath_def split: if_splits)
  then have key: "key = schemaAwareDNKeyPrefix @ ?e"
    by (metis HasPrefix_def append_take_drop_id)
  from assms pre obtain payload rdns units where
    p: "RawURL_EncodeToString payload = ?e" "decodeDNIdentityParts payload = Ok rdns"
      "payload = encodeDNIdentityParts rdns" "go_map check_hierarchy_rdn rdns = Ok units"
    and path: "path = hierarchy_path_of (rev rdns) [CHR 0x01]"
    by (auto simp: DNHierarchyPath_def Let_def split: if_splits option.splits)
  have fit: "parts_fit rdns" using p(2) by (rule decodeDNIdentityParts_Ok)
  have "key = encodeDNIdentity rdns"
    using key p(1,3) by (simp add: encodeDNIdentity_def appendDNIdentityParts_Nil)
  then have rdns: "key_rdns key = rdns" using fit by simp
  show "key = encodeDNIdentity (key_rdns key)" "parts_fit (key_rdns key)"
    "path = CHR 0x01 # concat (map frame (rev (key_rdns key)))"
    using rdns fit \<open>key = encodeDNIdentity rdns\<close> path by (simp_all add: hierarchy_path_of_eq)
  show "\<forall>rdn\<in>set (key_rdns key). check_hierarchy_rdn rdn = Ok ()"
    using p(4) unfolding rdns go_map_all2
    by (induction rule: list_all2_induct) auto
qed

lemma DNHierarchyPath_encode:
  assumes "parts_fit rdns" "\<forall>rdn\<in>set rdns. check_hierarchy_rdn rdn = Ok ()"
  shows "DNHierarchyPath (encodeDNIdentity rdns) = Ok (CHR 0x01 # concat (map frame (rev rdns)))"
  using assms go_map_Ok [of rdns check_hierarchy_rdn "\<lambda>_. ()"]
  by (simp add: DNHierarchyPath_def encodeDNIdentity_def appendDNIdentityParts_Nil
      raw_url.decode_encode decodeDNIdentityParts_encode hierarchy_path_of_eq)

lemma check_hierarchy_avas_no_panic: "check_hierarchy_avas prev avas \<noteq> Panic"
  by (induction avas arbitrary: prev)
    (auto simp: check_hierarchy_ava_def decodeDNIdentityParts_no_panic split: go.splits
      option.splits if_splits)

lemma check_hierarchy_rdn_no_panic: "check_hierarchy_rdn rdn \<noteq> Panic"
  by (auto simp: check_hierarchy_rdn_def decodeDNIdentityParts_no_panic
      check_hierarchy_avas_no_panic split: go.splits)

lemma go_map_no_panic: "(\<And>x. f x \<noteq> Panic) \<Longrightarrow> go_map f xs \<noteq> Panic"
  by (induction xs) auto

text \<open>RDNs as the normaliser writes them pass the checks of the hierarchy path.\<close>

definition wf_ava :: "bytes \<Rightarrow> bool" where
  "wf_ava a \<longleftrightarrow> (\<exists>t v. a = encodeDNIdentityParts [t, v] \<and> t \<noteq> [] \<and> parts_fit [t, v])"

lemma check_hierarchy_ava_wf:
  "wf_ava a \<Longrightarrow> (\<forall>p. prev = Some p \<longrightarrow> p < a) \<Longrightarrow> check_hierarchy_ava prev a = Ok ()"
  by (auto simp: wf_ava_def check_hierarchy_ava_def decodeDNIdentityParts_encode split: option.split)

lemma check_hierarchy_avas_wf:
  "list_all wf_ava avas \<Longrightarrow> sorted_wrt (<) avas \<Longrightarrow>
     (\<forall>p. prev = Some p \<longrightarrow> (\<forall>a\<in>set avas. p < a)) \<Longrightarrow> check_hierarchy_avas prev avas = Ok ()"
  by (induction avas arbitrary: prev) (auto simp: check_hierarchy_ava_wf)

lemma check_hierarchy_rdn_wf:
  assumes "avas \<noteq> []" "parts_fit avas" "list_all wf_ava avas" "sorted_wrt (<) avas"
  shows "check_hierarchy_rdn (encodeDNIdentityParts avas) = Ok ()"
  using assms
  by (simp add: check_hierarchy_rdn_def decodeDNIdentityParts_encode check_hierarchy_avas_wf)

text \<open>The framed form of an RDN with a single AVA.\<close>

definition single_ava_rdn :: "bytes \<Rightarrow> bytes \<Rightarrow> bytes" where
  "single_ava_rdn t v = encodeDNIdentityParts [encodeDNIdentityParts [t, v]]"

lemma encode_pair_small:
  "length t < 128 \<Longrightarrow> length v < 128 \<Longrightarrow>
     length (encodeDNIdentityParts [t, v]) = 3 + length t + length v"
  by (simp add: encodeDNIdentityParts_eq frame_def uvarint_last word_less_nat_alt)

lemma check_single_ava_rdn:
  assumes "t \<noteq> []" "length t < 128" "length v < 128"
  shows "check_hierarchy_rdn (single_ava_rdn t v) = Ok ()"
proof -
  have "parts_fit [t, v]" using assms by (simp add: parts_fit_def)
  moreover have "parts_fit [encodeDNIdentityParts [t, v]]"
    using assms by (simp add: parts_fit_def encode_pair_small)
  ultimately show ?thesis
    using assms(1) unfolding single_ava_rdn_def
    by (intro check_hierarchy_rdn_wf) (auto simp: wf_ava_def)
qed

section \<open>Properties\<close>

text \<open>
  decoding the framing of a sequence of byte strings gives the sequence back.
\<close>

theorem identity_parts_roundtrip:
  assumes "parts_fit parts"
  shows "decodeDNIdentityParts (encodeDNIdentityParts parts) = Ok parts"
  using assms by (rule decodeDNIdentityParts_encode)

theorem identity_parts_roundtrip_witness:
  "parts_fit [''cn'', []] \<and>
     decodeDNIdentityParts (encodeDNIdentityParts [''cn'', []]) = Ok [''cn'', []]"
proof -
  have fit: "parts_fit [''cn'', []]" by (simp add: parts_fit_def)
  from identity_parts_roundtrip [OF fit] fit show ?thesis by simp
qed

text \<open>
  the buffer size computed before encoding is exactly the length of the encoding, so the
  encoder never reallocates.
\<close>

theorem identity_parts_size_exact:
  assumes "parts_fit parts"
  shows "dnIdentityPartsSize parts = length (encodeDNIdentityParts parts)"
proof -
  have size: "uvarint_size n = length (uvarint (of_nat n))" if "n < 2 ^ 64" for n
    using uvarint_size [of "of_nat n"] that by simp
  have "foldl (\<lambda>size part. size + (uvarint_size (length part) + length part)) k ps
      = k + length (concat (map frame ps))" if "\<forall>p\<in>set ps. length p < 2 ^ 64" for k ps
    using that by (induction ps arbitrary: k) (auto simp: frame_def size)
  then show ?thesis
    using assms by (simp add: dnIdentityPartsSize_def encodeDNIdentityParts_eq parts_fit_def size)
qed

theorem identity_parts_size_exact_witness:
  "dnIdentityPartsSize [''cn'', ''x''] = length (encodeDNIdentityParts [''cn'', ''x''])"
  by (rule identity_parts_size_exact) (simp add: parts_fit_def)

text \<open>
  the decoders of framed sequences and of hierarchy paths never panic, whatever bytes they
  are given; malformed input is reported as an error.
\<close>

theorem identity_decoding_no_panic:
  "decodeDNIdentityParts enc \<noteq> Panic \<and> DNHierarchyPath key \<noteq> Panic"
proof
  show "decodeDNIdentityParts enc \<noteq> Panic" by (rule decodeDNIdentityParts_no_panic)
  show "DNHierarchyPath key \<noteq> Panic"
    using go_map_no_panic [of check_hierarchy_rdn, OF check_hierarchy_rdn_no_panic]
    by (auto simp: DNHierarchyPath_def Let_def decodeDNIdentityParts_no_panic split: option.split)
qed

text \<open>
  C27: two identity keys are equal exactly when they frame the same RDNs, so comparing keys
  compares names.
\<close>

theorem identity_key_injective:
  assumes "parts_fit a" "parts_fit b"
  shows "encodeDNIdentity a = encodeDNIdentity b \<longleftrightarrow> a = b"
  using assms by (rule encodeDNIdentity_inj)

theorem identity_key_injective_witness:
  "encodeDNIdentity [''a'', ''b''] \<noteq> encodeDNIdentity [''ab'']"
  using identity_key_injective [of "[''a'', ''b'']" "[''ab'']"] by (simp add: parts_fit_def)

text \<open>
  C25: the hierarchy path of one key is a byte prefix of the path of another exactly when the
  first name is the second or one of its ancestors, that is, when its RDNs are a suffix of the
  other's.
\<close>

theorem hierarchy_path_prefix_iff:
  assumes "DNHierarchyPath ka = Ok pa" "DNHierarchyPath kb = Ok pb"
  shows "prefix pa pb \<longleftrightarrow> suffix (key_rdns ka) (key_rdns kb)"
proof -
  note a = DNHierarchyPath_Ok [OF assms(1)] and b = DNHierarchyPath_Ok [OF assms(2)]
  have "prefix pa pb \<longleftrightarrow>
      prefix (concat (map frame (rev (key_rdns ka)))) (concat (map frame (rev (key_rdns kb))))"
    using a(3) b(3) by simp
  also have "\<dots> \<longleftrightarrow> prefix (rev (key_rdns ka)) (rev (key_rdns kb))"
    using a(2) b(2) by (intro framed.prefix_concat_iff) (auto simp: parts_fit_def)
  also have "\<dots> \<longleftrightarrow> suffix (key_rdns ka) (key_rdns kb)"
    by (simp add: suffix_to_prefix)
  finally show ?thesis .
qed

theorem hierarchy_path_prefix_iff_witness:
  "\<exists>pa pb. DNHierarchyPath (encodeDNIdentity [single_ava_rdn ''dc'' ''com'']) = Ok pa \<and>
     DNHierarchyPath
       (encodeDNIdentity [single_ava_rdn ''ou'' ''x'', single_ava_rdn ''dc'' ''com'']) = Ok pb \<and>
     prefix pa pb"
proof -
  let ?c = "single_ava_rdn ''dc'' ''com''" and ?o = "single_ava_rdn ''ou'' ''x''"
  have fit: "parts_fit [?c]" "parts_fit [?o, ?c]"
    by (simp_all add: parts_fit_def single_ava_rdn_def encodeDNIdentityParts_eq frame_def
        uvarint_last)
  have rdns: "check_hierarchy_rdn ?c = Ok ()" "check_hierarchy_rdn ?o = Ok ()"
    by (simp_all add: check_single_ava_rdn)
  obtain pa pb where p: "DNHierarchyPath (encodeDNIdentity [?c]) = Ok pa"
    "DNHierarchyPath (encodeDNIdentity [?o, ?c]) = Ok pb"
    using DNHierarchyPath_encode [OF fit(1)] DNHierarchyPath_encode [OF fit(2)] rdns by simp
  from hierarchy_path_prefix_iff [OF p] fit p show ?thesis by (auto simp: suffix_def)
qed

end
