(* ===== verification/Distinguished_Name.thy ===== *)
theory Distinguished_Name
  imports DN_Syntax DN_Identity "HOL-Library.Monad_Syntax" "HOL-Library.Multiset"
begin

text \<open>
  Distinguished names (\<open>internal/directory/dn.go\<close>, \<open>dn_validate.go\<close>, \<open>dn_parent_key.go\<close>,
  \<open>dn_display_relation.go\<close>, \<open>dn_display_compare.go\<close>): the type \<open>DN\<close>, its constructors (parsing,
  normalisation against a schema, reconstruction from an identity key) and its operations.

  The parser, printer and comparisons of names come from the third-party package \<open>go-ldap\<close>.
  They are the parameter \<open>ldap_lib\<close>. The schema enters through the Go interface
  \<open>DNAttributeNormalizer\<close>, the parameter \<open>normalizer\<close>. A nil pointer is \<open>None\<close>; an operation
  that dereferences it or slices out of range has the result \<open>None\<close> (or \<open>Panic\<close>).
\<close>

section \<open>Data\<close>

text \<open>\<open>ldap.AttributeTypeAndValue\<close>, \<open>ldap.RelativeDN\<close> and \<open>ldap.DN\<close>.\<close>

record ava =
  ava_type :: bytes
  ava_value :: bytes

type_synonym rdn = "ava list"
type_synonym ldap_dn = "rdn list"

record ldap_lib =
  lib_ParseDN :: "bytes \<Rightarrow> string + ldap_dn"
  lib_String :: "ldap_dn \<Rightarrow> bytes"
  lib_EqualFold :: "ldap_dn \<Rightarrow> ldap_dn \<Rightarrow> bool"
  lib_Equal :: "ldap_dn \<Rightarrow> ldap_dn \<Rightarrow> bool"
  lib_AncestorOfFold :: "ldap_dn \<Rightarrow> ldap_dn \<Rightarrow> bool"

record DN =
  parsed :: "ldap_dn option"
  canonical :: bytes
  identityRDNs :: "bytes list"
  displayRDNs :: "bytes list"
  normalizedRDNs :: "bytes list"
  attributeTypes :: "bytes list list"
  identityLevel :: nat

definition zero_DN :: DN where
  "zero_DN = \<lparr>parsed = None, canonical = [], identityRDNs = [], displayRDNs = [],
     normalizedRDNs = [], attributeTypes = [], identityLevel = 0\<rparr>"

definition schemaAwareDNIdentityLevel :: nat where
  "schemaAwareDNIdentityLevel = 2"

definition hasSchemaAwareIdentity :: "DN \<Rightarrow> bool" where
  "hasSchemaAwareIdentity dn \<longleftrightarrow> identityLevel dn = schemaAwareDNIdentityLevel"

text \<open>
  The two interfaces of a normaliser: \<open>NormalizeDNAttribute\<close> gives the canonical type and the
  normalised value; \<open>CanonicalDNAttributeName\<close> is optional.
\<close>

record normalizer =
  NormalizeDNAttribute :: "bytes \<Rightarrow> bytes \<Rightarrow> string + (bytes \<times> bytes)"
  CanonicalDNAttributeName :: "(bytes \<Rightarrow> string + bytes) option"

datatype type_error = InvalidAttributeType nat bytes | DuplicateAttributeType nat bytes

datatype dn_error =
    LibraryParseError bytes string
  | AttributeTypeError bytes type_error
  | NormalizerRequired
  | NormalizeAttributeError bytes string
  | CanonicalTypeEmpty bytes
  | CanonicalTypeTwice nat bytes
  | CanonicalNameError bytes string
  | KeyNotCanonical
  | KeyNotBase64
  | KeyRDNsError parts_error
  | KeyRDNCount nat nat
  | KeyRDNError nat parts_error
  | KeyInvalidAVA nat
  | LegacyKeyMismatch bytes
  | KeyAVACount nat nat nat
  | KeyAVAsNotSorted nat
  | KeyAVAError nat nat parts_error
  | KeyAVAShape nat nat
  | NotExactlyOneRDN
  | OutsideOldSubtree

section \<open>Slices\<close>

text \<open>\<open>xs[n:]\<close> and \<open>xs[:n]\<close>; out of range is a panic.\<close>

definition slice_from :: "nat \<Rightarrow> 'a list \<Rightarrow> 'a list option" where
  "slice_from n xs = (if n \<le> length xs then Some (drop n xs) else None)"

definition slice_to :: "int \<Rightarrow> 'a list \<Rightarrow> 'a list option" where
  "slice_to n xs = (if 0 \<le> n \<and> n \<le> int (length xs) then Some (take (nat n) xs) else None)"

section \<open>Parsing\<close>

fun validate_rdn_types :: "unicode \<Rightarrow> nat \<Rightarrow> bytes list \<Rightarrow> rdn \<Rightarrow> (type_error, unit) go" where
  "validate_rdn_types U rdnIndex seen [] = Ok ()"
| "validate_rdn_types U rdnIndex seen (attribute # rest) =
     (let canonicalType = ToLower U (TrimSpace (fst (Cut (CHR '';'') (ava_type attribute)))) in
      if \<not> validDNAttributeType canonicalType then
        Err (InvalidAttributeType rdnIndex (ava_type attribute))
      else if canonicalType \<in> set seen then Err (DuplicateAttributeType rdnIndex canonicalType)
      else validate_rdn_types U rdnIndex (canonicalType # seen) rest)"

definition validateUniqueDNAttributeTypes :: "unicode \<Rightarrow> ldap_dn \<Rightarrow> (type_error, unit) go" where
  "validateUniqueDNAttributeTypes U rdns =
     go_bind (go_map (\<lambda>(i, rdn). validate_rdn_types U i [] rdn) (enumerate 0 rdns)) (\<lambda>_. Ok ())"

definition parseDN :: "ldap_lib \<Rightarrow> unicode \<Rightarrow> bytes \<Rightarrow> (dn_error, ldap_dn) go" where
  "parseDN L U v =
     (case lib_ParseDN L v of Inl e \<Rightarrow> Err (LibraryParseError v e)
      | Inr rdns \<Rightarrow> go_bind (go_wrap (AttributeTypeError v) (validateUniqueDNAttributeTypes U rdns))
          (\<lambda>_. Ok rdns))"

definition format_ava :: "unicode \<Rightarrow> bool \<Rightarrow> ava \<Rightarrow> bytes" where
  "format_ava U preserveAttributeCase attribute =
     (if preserveAttributeCase then ava_type attribute else ToLower U (ava_type attribute))
       @ ''='' @ escapeDNValue (ava_value attribute)"

definition formatDNRDNs :: "unicode \<Rightarrow> ldap_dn \<Rightarrow> bool \<Rightarrow> bytes list" where
  "formatDNRDNs U rdns preserveAttributeCase =
     map (\<lambda>rdn. if length rdn = 1 then format_ava U preserveAttributeCase (rdn ! 0)
        else Join (sort (map (format_ava U preserveAttributeCase) rdn)) ''+'') rdns"

definition ParseDN :: "ldap_lib \<Rightarrow> unicode \<Rightarrow> bytes \<Rightarrow> (dn_error, DN) go" where
  "ParseDN L U v =
     go_bind (parseDN L U v) (\<lambda>p. Ok (zero_DN\<lparr>parsed := Some p,
       canonical := ToLower U (lib_String L p), displayRDNs := formatDNRDNs U p False\<rparr>))"

definition ValidateDN :: "ldap_lib \<Rightarrow> unicode \<Rightarrow> bytes \<Rightarrow> (dn_error, unit) go" where
  "ValidateDN L U v =
     (if snd (simpleDNDepthBytes v) then Ok () else go_error (parseDN L U v))"

section \<open>Normalisation against a schema\<close>

record normalizedAVA =
  n_attributeType :: bytes
  n_display :: bytes
  n_normalized :: bytes
  n_identity :: bytes

definition display_name :: "unicode \<Rightarrow> normalizer \<Rightarrow> bytes \<Rightarrow> (dn_error, bytes) go" where
  "display_name U N attributeType =
     (case CanonicalDNAttributeName N of None \<Rightarrow> Ok (ToLower U attributeType)
      | Some namer \<Rightarrow> (case namer attributeType of
          Inl e \<Rightarrow> Err (CanonicalNameError attributeType e)
        | Inr name \<Rightarrow> Ok name))"

fun normalize_avas ::
  "unicode \<Rightarrow> normalizer \<Rightarrow> nat \<Rightarrow> bytes list \<Rightarrow> rdn \<Rightarrow> (dn_error, normalizedAVA list) go" where
  "normalize_avas U N rdnIndex seen [] = Ok []"
| "normalize_avas U N rdnIndex seen (attribute # rest) =
     (case NormalizeDNAttribute N (ava_type attribute) (ava_value attribute) of
        Inl e \<Rightarrow> Err (NormalizeAttributeError (ava_type attribute) e)
      | Inr (canonicalType0, normalizedValue) \<Rightarrow>
          let canonicalType = ToLower U (TrimSpace canonicalType0) in
          if canonicalType = [] then Err (CanonicalTypeEmpty (ava_type attribute))
          else if canonicalType \<in> set seen then Err (CanonicalTypeTwice rdnIndex canonicalType)
          else go_bind (display_name U N (ava_type attribute)) (\<lambda>displayName.
            go_bind (normalize_avas U N rdnIndex (canonicalType # seen) rest) (\<lambda>avas.
              Ok (\<lparr>n_attributeType = displayName,
                   n_display = displayName @ ''='' @ escapeDNValue (ava_value attribute),
                   n_normalized = displayName @ ''='' @ escapeDNValue normalizedValue,
                   n_identity = encodeDNIdentityParts [canonicalType, normalizedValue]\<rparr> # avas))))"

record normalizedRDN =
  r_identity :: bytes
  r_display :: bytes
  r_normalized :: bytes
  r_types :: "bytes list"

text \<open>
  An RDN with several AVAs is displayed with its AVAs stably sorted by attribute name, and its
  identity frames the sorted identities.
\<close>

definition assemble_rdn :: "normalizedAVA list \<Rightarrow> normalizedRDN" where
  "assemble_rdn avas =
     (if length avas = 1 then
        \<lparr>r_identity = encodeDNIdentityParts [n_identity (avas ! 0)],
         r_display = n_display (avas ! 0), r_normalized = n_normalized (avas ! 0),
         r_types = map n_attributeType avas\<rparr>
      else let sorted_avas = sort_key n_attributeType avas in
        \<lparr>r_identity = encodeDNIdentityParts (sort (map n_identity sorted_avas)),
         r_display = Join (map n_display sorted_avas) ''+'',
         r_normalized = Join (map n_normalized sorted_avas) ''+'',
         r_types = map n_attributeType avas\<rparr>)"

definition normalize_rdns ::
  "unicode \<Rightarrow> normalizer \<Rightarrow> ldap_dn \<Rightarrow> (dn_error, normalizedRDN list) go" where
  "normalize_rdns U N rdns = go_map (\<lambda>(i, rdn).
     go_bind (normalize_avas U N i [] rdn) (\<lambda>avas. Ok (assemble_rdn avas))) (enumerate 0 rdns)"

definition NormalizeWith ::
  "ldap_lib \<Rightarrow> unicode \<Rightarrow> DN \<Rightarrow> normalizer option \<Rightarrow> (dn_error, DN) go" where
  "NormalizeWith L U dn0 N0 =
     (case N0 of None \<Rightarrow> Err NormalizerRequired
      | Some N \<Rightarrow>
          go_bind (if parsed dn0 = None then ParseDN L U [] else Ok dn0) (\<lambda>dn.
          go_bind (go_of_option (parsed dn)) (\<lambda>rdns.
          go_bind (normalize_rdns U N rdns) (\<lambda>rs.
            Ok (dn\<lparr>identityRDNs := map r_identity rs, displayRDNs := map r_display rs,
              normalizedRDNs := map r_normalized rs, attributeTypes := map r_types rs,
              identityLevel := schemaAwareDNIdentityLevel,
              canonical := encodeDNIdentity (map r_identity rs)\<rparr>)))))"

definition ParseDNWithNormalizer ::
  "ldap_lib \<Rightarrow> unicode \<Rightarrow> bytes \<Rightarrow> normalizer option \<Rightarrow> (dn_error, DN) go" where
  "ParseDNWithNormalizer L U v N =
     (if N = None then Err NormalizerRequired
      else go_bind (ParseDN L U v) (\<lambda>dn. NormalizeWith L U dn N))"

section \<open>Simple accessors\<close>

definition LegacyKey :: "ldap_lib \<Rightarrow> unicode \<Rightarrow> DN \<Rightarrow> bytes" where
  "LegacyKey L U dn = (case parsed dn of None \<Rightarrow> [] | Some p \<Rightarrow> ToLower U (lib_String L p))"

definition DN_String :: "DN \<Rightarrow> bytes" where
  "DN_String dn = Join (displayRDNs dn) '',''"

definition Key :: "DN \<Rightarrow> bytes" where
  "Key dn = canonical dn"

definition NormalizedString :: "DN \<Rightarrow> bytes" where
  "NormalizedString dn =
     (if hasSchemaAwareIdentity dn then Join (normalizedRDNs dn) '','' else canonical dn)"

definition Depth :: "DN \<Rightarrow> nat option" where
  "Depth dn = map_option length (parsed dn)"

section \<open>Equality and ancestry\<close>

definition Equal :: "ldap_lib \<Rightarrow> DN \<Rightarrow> DN \<Rightarrow> bool option" where
  "Equal L dn other =
     (if hasSchemaAwareIdentity dn \<and> hasSchemaAwareIdentity other
      then Some (canonical dn = canonical other)
      else do { a \<leftarrow> parsed dn; b \<leftarrow> parsed other; Some (lib_EqualFold L a b) })"

definition EqualExact :: "ldap_lib \<Rightarrow> DN \<Rightarrow> DN \<Rightarrow> bool option" where
  "EqualExact L dn other = do { a \<leftarrow> parsed dn; b \<leftarrow> parsed other; Some (lib_Equal L a b) }"

definition AncestorOf :: "ldap_lib \<Rightarrow> DN \<Rightarrow> DN \<Rightarrow> bool option" where
  "AncestorOf L dn other =
     (if hasSchemaAwareIdentity dn \<and> hasSchemaAwareIdentity other then
        Some (if length (identityRDNs other) \<le> length (identityRDNs dn) then False
          else let offset = length (identityRDNs other) - length (identityRDNs dn) in
            \<forall>i<length (identityRDNs dn). identityRDNs dn ! i = identityRDNs other ! (i + offset))
      else do { a \<leftarrow> parsed dn; b \<leftarrow> parsed other; Some (lib_AncestorOfFold L a b) })"

section \<open>Deriving names\<close>

definition Parent :: "ldap_lib \<Rightarrow> unicode \<Rightarrow> DN \<Rightarrow> (DN \<times> bool) option" where
  "Parent L U dn = do {
     rdns \<leftarrow> parsed dn;
     if rdns = [] then Some (zero_DN, False)
     else if hasSchemaAwareIdentity dn then do {
       ids \<leftarrow> slice_from 1 (identityRDNs dn);
       displays \<leftarrow> slice_from 1 (displayRDNs dn);
       normals \<leftarrow> slice_from 1 (normalizedRDNs dn);
       types \<leftarrow> slice_from 1 (attributeTypes dn);
       Some (\<lparr>parsed = Some (tl rdns), canonical = encodeDNIdentity ids, identityRDNs = ids,
         displayRDNs = displays, normalizedRDNs = normals, attributeTypes = types,
         identityLevel = schemaAwareDNIdentityLevel\<rparr>, True)
     } else do {
       displays \<leftarrow> slice_from 1 (displayRDNs dn);
       Some (zero_DN\<lparr>parsed := Some (tl rdns),
         canonical := ToLower U (lib_String L (tl rdns)), displayRDNs := displays\<rparr>, True)
     } }"

definition ParentKey :: "ldap_lib \<Rightarrow> unicode \<Rightarrow> DN \<Rightarrow> (bytes \<times> bool) option" where
  "ParentKey L U dn =
     (case parsed dn of None \<Rightarrow> Some ([], False)
      | Some rdns \<Rightarrow>
          if rdns = [] then Some ([], False)
          else if hasSchemaAwareIdentity dn then do {
            ids \<leftarrow> slice_from 1 (identityRDNs dn);
            Some (encodeDNIdentity ids, True) }
          else Some (ToLower U (lib_String L (tl rdns)), True))"

definition ComposeDN :: "ldap_lib \<Rightarrow> unicode \<Rightarrow> bytes \<Rightarrow> DN \<Rightarrow> (dn_error, DN) go" where
  "ComposeDN L U rdn superior =
     go_bind (ParseDN L U rdn) (\<lambda>parsedRDN.
     go_bind (go_of_option (Depth parsedRDN)) (\<lambda>d.
       if d \<noteq> 1 then Err NotExactlyOneRDN
       else go_bind (go_of_option (Depth superior)) (\<lambda>s.
         if s = 0 then Ok parsedRDN
         else ParseDN L U (DN_String parsedRDN @ '','' @ DN_String superior))))"

definition ComposeLocalName :: "ldap_lib \<Rightarrow> unicode \<Rightarrow> DN \<Rightarrow> DN \<Rightarrow> (dn_error, DN) go" where
  "ComposeLocalName L U localName superior =
     go_bind (go_of_option (parsed localName)) (\<lambda>a.
       if a = [] then Ok superior
       else go_bind (go_of_option (parsed superior)) (\<lambda>b.
         if b = [] then Ok localName
         else if hasSchemaAwareIdentity localName \<and> hasSchemaAwareIdentity superior then
           (let ids = identityRDNs localName @ identityRDNs superior in
            Ok \<lparr>parsed = Some (a @ b), canonical = encodeDNIdentity ids, identityRDNs = ids,
              displayRDNs = displayRDNs localName @ displayRDNs superior,
              normalizedRDNs = normalizedRDNs localName @ normalizedRDNs superior,
              attributeTypes = attributeTypes localName @ attributeTypes superior,
              identityLevel = schemaAwareDNIdentityLevel\<rparr>)
         else ParseDN L U (DN_String localName @ '','' @ DN_String superior)))"

text \<open>The panicking part of \<open>ReplaceAncestor\<close>: everything after the check of the subtree.\<close>

definition replace_ancestor_body :: "ldap_lib \<Rightarrow> unicode \<Rightarrow> DN \<Rightarrow> DN \<Rightarrow> DN \<Rightarrow> DN option" where
  "replace_ancestor_body L U dn oldBase newBase = do {
     rdns \<leftarrow> parsed dn;
     d \<leftarrow> Depth oldBase;
     newRDNs \<leftarrow> parsed newBase;
     let prefixLength = int (length rdns) - int d;
     local \<leftarrow> slice_to prefixLength rdns;
     displays \<leftarrow> slice_to prefixLength (displayRDNs dn);
     if hasSchemaAwareIdentity dn \<and> hasSchemaAwareIdentity oldBase \<and> hasSchemaAwareIdentity newBase
     then do {
       ids \<leftarrow> slice_to prefixLength (identityRDNs dn);
       normals \<leftarrow> slice_to prefixLength (normalizedRDNs dn);
       types \<leftarrow> slice_to prefixLength (attributeTypes dn);
       Some \<lparr>parsed = Some (local @ newRDNs),
         canonical = encodeDNIdentity (ids @ identityRDNs newBase),
         identityRDNs = ids @ identityRDNs newBase,
         displayRDNs = displays @ displayRDNs newBase,
         normalizedRDNs = normals @ normalizedRDNs newBase,
         attributeTypes = types @ attributeTypes newBase,
         identityLevel = schemaAwareDNIdentityLevel\<rparr>
     } else Some (zero_DN\<lparr>parsed := Some (local @ newRDNs),
         canonical := ToLower U (lib_String L (local @ newRDNs)),
         displayRDNs := displays @ displayRDNs newBase\<rparr>) }"

definition ReplaceAncestor :: "ldap_lib \<Rightarrow> unicode \<Rightarrow> DN \<Rightarrow> DN \<Rightarrow> DN \<Rightarrow> (dn_error, DN) go" where
  "ReplaceAncestor L U dn oldBase newBase =
     go_bind (go_of_option (Equal L oldBase dn)) (\<lambda>equal.
     go_bind (if equal then Ok True else go_of_option (AncestorOf L oldBase dn)) (\<lambda>inside.
       if \<not> inside then Err OutsideOldSubtree
       else go_of_option (replace_ancestor_body L U dn oldBase newBase)))"

section \<open>Attributes of the leading RDN\<close>

definition RDNValues :: "DN \<Rightarrow> (bytes \<times> bytes) list option" where
  "RDNValues dn = do {
     rdns \<leftarrow> parsed dn;
     if rdns = [] then Some []
     else Some (map (\<lambda>(index, attribute).
       (if hasSchemaAwareIdentity dn \<and> attributeTypes dn \<noteq> []
           \<and> index < length (attributeTypes dn ! 0)
        then attributeTypes dn ! 0 ! index else ava_type attribute, ava_value attribute))
       (enumerate 0 (rdns ! 0))) }"

definition AllAttributeTypesMatch :: "DN \<Rightarrow> (bytes \<Rightarrow> bool) option \<Rightarrow> bool" where
  "AllAttributeTypesMatch dn accept =
     (case (accept, parsed dn) of
        (Some ok, Some rdns) \<Rightarrow>
          if hasSchemaAwareIdentity dn \<and> length (attributeTypes dn) = length rdns
          then list_all (list_all ok) (attributeTypes dn)
          else list_all (list_all (ok \<circ> ava_type)) rdns
      | _ \<Rightarrow> False)"

section \<open>Textual comparisons\<close>

fun display_equals_from :: "bytes list \<Rightarrow> nat \<Rightarrow> bytes \<Rightarrow> nat \<Rightarrow> bool" where
  "display_equals_from [] index raw position = (position = length raw)"
| "display_equals_from (rdn # rdns) index raw position =
     (if 0 < index \<and> (position = length raw \<or> raw ! position \<noteq> CHR '','') then False
      else let start = (if 0 < index then position + 1 else position) in
        if length raw - start < length rdn \<or> take (length rdn) (drop start raw) \<noteq> rdn then False
        else display_equals_from rdns (index + 1) raw (start + length rdn))"

definition DisplayEquals :: "DN \<Rightarrow> bytes \<Rightarrow> bool" where
  "DisplayEquals dn raw = display_equals_from (displayRDNs dn) 0 raw 0"

text \<open>The loop runs from the last component to the first; the list here is reversed.\<close>

fun display_suffix_from :: "bytes list \<Rightarrow> bytes \<Rightarrow> nat \<Rightarrow> bool" where
  "display_suffix_from [] raw position = (position = 0 \<or> raw ! (position - 1) = CHR '','')"
| "display_suffix_from (rdn # rdns) raw position =
     (if position < length rdn
         \<or> take (length rdn) (drop (position - length rdn) raw) \<noteq> rdn then False
      else let p = position - length rdn in
        if rdns = [] then display_suffix_from [] raw p
        else if p = 0 \<or> raw ! (p - 1) \<noteq> CHR '','' then False
        else display_suffix_from rdns raw (p - 1))"

definition DisplaySuffixOf :: "DN \<Rightarrow> bytes \<Rightarrow> bool" where
  "DisplaySuffixOf dn raw = display_suffix_from (rev (displayRDNs dn)) raw (length raw)"

definition SimpleLegacyDisplayRelation :: "unicode \<Rightarrow> DN \<Rightarrow> DN \<Rightarrow> bool \<times> bool \<times> bool" where
  "SimpleLegacyDisplayRelation U dn other =
     (case (parsed dn, parsed other) of
        (Some a, Some b) \<Rightarrow>
          if length (displayRDNs dn) \<noteq> length a \<or> length (displayRDNs other) \<noteq> length b
          then (False, False, False)
          else if \<not> list_all (\<lambda>r. simpleDNDepth r = (1, True)) (displayRDNs dn @ displayRDNs other)
          then (False, False, False)
          else if length (displayRDNs other) < length (displayRDNs dn) then (False, False, True)
          else let offset = length (displayRDNs other) - length (displayRDNs dn) in
            if list_all2 (EqualFold U) (displayRDNs dn) (drop offset (displayRDNs other))
            then (offset = 0, 0 < offset, True) else (False, False, True)
      | _ \<Rightarrow> (False, False, False))"

section \<open>Scopes\<close>

datatype Scope = ScopeBase | ScopeSingleLevel | ScopeWholeSubtree | ScopeChildren | ScopeOther int

definition InScope :: "ldap_lib \<Rightarrow> DN \<Rightarrow> DN \<Rightarrow> Scope \<Rightarrow> bool option" where
  "InScope L base candidate scope =
     (case scope of
        ScopeBase \<Rightarrow> Equal L base candidate
      | ScopeSingleLevel \<Rightarrow> do {
          ancestor \<leftarrow> AncestorOf L base candidate;
          if \<not> ancestor then Some False
          else do { c \<leftarrow> Depth candidate; b \<leftarrow> Depth base; Some (c = b + 1) } }
      | ScopeWholeSubtree \<Rightarrow> do {
          equal \<leftarrow> Equal L base candidate;
          if equal then Some True else AncestorOf L base candidate }
      | ScopeChildren \<Rightarrow> AncestorOf L base candidate
      | ScopeOther _ \<Rightarrow> Some False)"

section \<open>The invariant of names\<close>

text \<open>
  A well-formed name has been parsed, and the lists that mirror its RDNs have their length; a
  schema-aware one carries the key of its identity RDNs. \<open>dn_schema\<close> adds that it is
  schema-aware and that its identity RDNs have lengths a Go slice can have.
\<close>

definition dn_wf :: "DN \<Rightarrow> bool" where
  "dn_wf dn \<longleftrightarrow> (\<exists>p. parsed dn = Some p \<and> length (displayRDNs dn) = length p \<and>
     (hasSchemaAwareIdentity dn \<longrightarrow>
        length (identityRDNs dn) = length p \<and> length (normalizedRDNs dn) = length p \<and>
        length (attributeTypes dn) = length p \<and> canonical dn = encodeDNIdentity (identityRDNs dn)))"

definition dn_schema :: "DN \<Rightarrow> bool" where
  "dn_schema dn \<longleftrightarrow> dn_wf dn \<and> hasSchemaAwareIdentity dn \<and> parts_fit (identityRDNs dn)"

lemma dn_schema_canonical [key_simps]:
  "dn_schema dn \<Longrightarrow> canonical dn = encodeDNIdentity (identityRDNs dn)"
  by (auto simp: dn_schema_def dn_wf_def)

lemma dn_schema_depth [shape_simps]: "dn_schema dn \<Longrightarrow> Depth dn = Some (length (identityRDNs dn))"
  by (auto simp: dn_schema_def dn_wf_def Depth_def)

lemma length_formatDNRDNs [shape_simps]: "length (formatDNRDNs U p b) = length p"
  by (simp add: formatDNRDNs_def)

lemma ParseDN_wf [wf_intros]: "ParseDN L U v = Ok dn \<Longrightarrow> dn_wf dn"
  by (auto simp: ParseDN_def dn_wf_def zero_DN_def hasSchemaAwareIdentity_def
      schemaAwareDNIdentityLevel_def shape_simps)

lemma normalize_rdns_length [shape_simps]:
  "normalize_rdns U N rdns = Ok rs \<Longrightarrow> length rs = length rdns"
  by (auto simp: normalize_rdns_def dest!: go_map_length)

lemma NormalizeWith_parts:
  assumes "NormalizeWith L U dn N = Ok d"
  obtains rdns rs where "parsed d = Some rdns" "normalize_rdns U (the N) rdns = Ok rs"
    "identityRDNs d = map r_identity rs" "displayRDNs d = map r_display rs"
    "normalizedRDNs d = map r_normalized rs" "attributeTypes d = map r_types rs"
    "hasSchemaAwareIdentity d" "canonical d = encodeDNIdentity (map r_identity rs)"
    "\<And>p. parsed dn = Some p \<Longrightarrow> rdns = p"
  using assms
  by (auto simp: NormalizeWith_def hasSchemaAwareIdentity_def split: option.splits if_splits)

lemma NormalizeWith_wf [wf_intros]:
  assumes "NormalizeWith L U dn N = Ok d"
  shows "dn_wf d \<and> hasSchemaAwareIdentity d"
  using assms by (rule NormalizeWith_parts) (auto simp: dn_wf_def shape_simps)

section \<open>Equality and ancestry of schema-aware names\<close>

lemma strict_suffix_nth:
  "strict_suffix xs ys \<longleftrightarrow> length xs < length ys \<and>
     (\<forall>i<length xs. xs ! i = ys ! (i + (length ys - length xs)))"
proof -
  have "length xs < length ys \<Longrightarrow> suffix xs ys \<longleftrightarrow>
      (\<forall>i<length xs. xs ! i = ys ! (i + (length ys - length xs)))"
    by (auto simp: suffix_conv_drop list_eq_iff_nth_eq add.commute)
  moreover have "strict_suffix xs ys \<longleftrightarrow> suffix xs ys \<and> length xs < length ys"
    by (metis strict_suffix_def suffix_length_less suffix_length_le suffix_order.less_le nat_less_le)
  ultimately show ?thesis by blast
qed

lemma Equal_schema:
  "dn_schema a \<Longrightarrow> dn_schema b \<Longrightarrow> Equal L a b = Some (identityRDNs a = identityRDNs b)"
  by (simp add: Equal_def dn_schema_canonical encodeDNIdentity_inj) (simp add: dn_schema_def encodeDNIdentity_inj)

lemma AncestorOf_schema:
  "dn_schema a \<Longrightarrow> dn_schema b \<Longrightarrow>
     AncestorOf L a b = Some (strict_suffix (identityRDNs a) (identityRDNs b))"
  by (auto simp: AncestorOf_def dn_schema_def strict_suffix_nth Let_def)

section \<open>Names form a tree\<close>

text \<open>
  What the storage and scope code relies on: equality and ancestry that are equality and proper
  suffix of paths. The parent relation of such names is a forest.
\<close>

locale name_tree =
  fixes wf :: "'a \<Rightarrow> bool"
    and path :: "'a \<Rightarrow> 'b list"
    and equal :: "'a \<Rightarrow> 'a \<Rightarrow> bool option"
    and ancestor :: "'a \<Rightarrow> 'a \<Rightarrow> bool option"
  assumes equal_path: "wf a \<Longrightarrow> wf b \<Longrightarrow> equal a b = Some (path a = path b)"
    and ancestor_path: "wf a \<Longrightarrow> wf b \<Longrightarrow> ancestor a b = Some (strict_suffix (path a) (path b))"
begin

lemma irreflexive: "wf a \<Longrightarrow> wf b \<Longrightarrow> equal a b = Some True \<Longrightarrow> ancestor a b = Some False"
  by (simp add: equal_path ancestor_path)

lemma transitive:
  "wf a \<Longrightarrow> wf b \<Longrightarrow> wf c \<Longrightarrow> ancestor a b = Some True \<Longrightarrow> ancestor b c = Some True \<Longrightarrow>
     ancestor a c = Some True"
  by (auto simp: ancestor_path intro: suffix_order.less_trans)

text \<open>The ancestors of a name are linearly ordered.\<close>

lemma ancestors_chain:
  assumes "wf a" "wf b" "wf c" "ancestor a c = Some True" "ancestor b c = Some True"
  shows "equal a b = Some True \<or> ancestor a b = Some True \<or> ancestor b a = Some True"
proof -
  have "suffix (path a) (path c)" "suffix (path b) (path c)"
    using assms by (auto simp: ancestor_path strict_suffix_def)
  then have "suffix (path a) (path b) \<or> suffix (path b) (path a)"
    by (metis suffix_same_cases)
  then show ?thesis using assms by (auto simp: equal_path ancestor_path strict_suffix_def)
qed

end

interpretation dn_tree: name_tree dn_schema identityRDNs "Equal L" "AncestorOf L" for L
  by unfold_locales (simp_all add: Equal_schema AncestorOf_schema)

section \<open>Derived names\<close>

lemma Parent_wf:
  assumes "dn_wf dn"
  shows "\<exists>q b. Parent L U dn = Some (q, b) \<and> (b \<longrightarrow> dn_wf q)
    \<and> (b \<longleftrightarrow> parsed dn \<noteq> Some []) \<and> (\<not> b \<longrightarrow> q = zero_DN)"
proof -
  from assms obtain p where p: "parsed dn = Some p" "length (displayRDNs dn) = length p"
    by (auto simp: dn_wf_def)
  show ?thesis
  proof (cases p)
    case Nil
    with p show ?thesis by (auto simp: Parent_def)
  next
    case (Cons r rs)
    with p assms show ?thesis
      by (cases "hasSchemaAwareIdentity dn")
        (auto simp: Parent_def slice_from_def dn_wf_def hasSchemaAwareIdentity_def zero_DN_def
          schemaAwareDNIdentityLevel_def)
  qed
qed

lemma ComposeLocalName_wf:
  "dn_wf a \<Longrightarrow> dn_wf b \<Longrightarrow> ComposeLocalName L U a b = Ok r \<Longrightarrow> dn_wf r"
  by (auto simp: ComposeLocalName_def Let_def dn_wf_def hasSchemaAwareIdentity_def split: if_splits
      dest!: ParseDN_wf)

lemma replace_ancestor_body_wf:
  assumes "dn_wf a" "dn_wf c" "replace_ancestor_body L U a b c = Some r"
  shows "dn_wf r"
  using assms
  by (auto simp: replace_ancestor_body_def dn_wf_def slice_to_def zero_DN_def
      hasSchemaAwareIdentity_def schemaAwareDNIdentityLevel_def Option.bind_eq_Some_conv Let_def
      split: if_splits)

lemma ReplaceAncestor_wf:
  "dn_wf a \<Longrightarrow> dn_wf c \<Longrightarrow> ReplaceAncestor L U a b c = Ok r \<Longrightarrow> dn_wf r"
  by (auto simp: ReplaceAncestor_def split: if_splits dest: replace_ancestor_body_wf)

lemma ReplaceAncestor_schema:
  assumes dn: "dn_schema dn" and old: "dn_schema old" and new: "dn_schema new"
  shows "if suffix (identityRDNs old) (identityRDNs dn) then
      \<exists>r. ReplaceAncestor L U dn old new = Ok r \<and> dn_wf r \<and> hasSchemaAwareIdentity r \<and>
        identityRDNs r = take (length (identityRDNs dn) - length (identityRDNs old)) (identityRDNs dn)
          @ identityRDNs new
    else ReplaceAncestor L U dn old new = Err OutsideOldSubtree"
proof -
  let ?in = "suffix (identityRDNs old) (identityRDNs dn)"
  have eq: "Equal L old dn = Some (identityRDNs old = identityRDNs dn)"
    and anc: "AncestorOf L old dn = Some (strict_suffix (identityRDNs old) (identityRDNs dn))"
    using dn old by (simp_all add: Equal_schema AncestorOf_schema)
  show ?thesis
  proof (cases ?in)
    case False
    with eq anc show ?thesis by (auto simp: ReplaceAncestor_def strict_suffix_def)
  next
    case True
    then have le: "length (identityRDNs old) \<le> length (identityRDNs dn)"
      by (rule suffix_length_le)
    from dn old new obtain p q n where
      p: "parsed dn = Some p" "length p = length (identityRDNs dn)" and
      q: "parsed old = Some q" "length q = length (identityRDNs old)" and
      n: "parsed new = Some n"
      by (fastforce simp: dn_schema_def dn_wf_def)
    have "nat (int (length p) - int (length q)) = length (identityRDNs dn) - length (identityRDNs old)"
      using p q le by linarith
    then obtain r where r: "replace_ancestor_body L U dn old new = Some r"
      "identityRDNs r = take (length (identityRDNs dn) - length (identityRDNs old)) (identityRDNs dn)
          @ identityRDNs new" "hasSchemaAwareIdentity r"
      using p q n le dn old new
      by (auto simp: replace_ancestor_body_def Depth_def slice_to_def dn_schema_def dn_wf_def
          hasSchemaAwareIdentity_def)
    have "ReplaceAncestor L U dn old new = Ok r"
      using True eq anc r(1) by (auto simp: ReplaceAncestor_def strict_suffix_def)
    moreover have "dn_wf r"
      using replace_ancestor_body_wf [OF _ _ r(1)] dn new by (auto simp: dn_schema_def)
    ultimately show ?thesis using True r(2,3) by auto
  qed
qed

lemma ComposeLocalName_schema:
  assumes a: "dn_schema a" and b: "dn_schema b"
    and ne: "identityRDNs a \<noteq> []" "identityRDNs b \<noteq> []"
  obtains r where "ComposeLocalName L U a b = Ok r" "dn_wf r" "hasSchemaAwareIdentity r"
    "identityRDNs r = identityRDNs a @ identityRDNs b"
proof -
  from a b obtain p q where "parsed a = Some p" "parsed b = Some q"
    "length p = length (identityRDNs a)" "length q = length (identityRDNs b)"
    by (fastforce simp: dn_schema_def dn_wf_def)
  moreover from this ne have "p \<noteq> []" "q \<noteq> []" by auto
  ultimately obtain r where r: "ComposeLocalName L U a b = Ok r" "hasSchemaAwareIdentity r"
    "identityRDNs r = identityRDNs a @ identityRDNs b"
    using a b ne by (auto simp: ComposeLocalName_def Let_def dn_schema_def hasSchemaAwareIdentity_def)
  with ComposeLocalName_wf [OF _ _ r(1)] a b that show ?thesis by (auto simp: dn_schema_def)
qed

lemma Parent_schema:
  assumes "dn_schema dn" "identityRDNs dn = r # rs"
  obtains q where "Parent L U dn = Some (q, True)" "identityRDNs q = rs"
    "canonical q = encodeDNIdentity rs" "dn_schema q"
proof -
  from assms obtain p where p: "parsed dn = Some p" "length p = Suc (length rs)"
    by (fastforce simp: dn_schema_def dn_wf_def)
  then obtain q where q: "Parent L U dn = Some (q, True)" "identityRDNs q = rs"
    "canonical q = encodeDNIdentity rs" "hasSchemaAwareIdentity q"
    using assms by (cases p) (auto simp: Parent_def slice_from_def dn_schema_def dn_wf_def
        hasSchemaAwareIdentity_def)
  moreover have "dn_wf q" using Parent_wf [of dn L U] q assms by (auto simp: dn_schema_def)
  moreover have "parts_fit rs" using assms by (auto simp: dn_schema_def parts_fit_def)
  ultimately show ?thesis using that by (auto simp: dn_schema_def)
qed

section \<open>Textual comparisons: lemmas\<close>

lemma display_equals_from_Suc:
  "p \<le> length raw \<Longrightarrow> display_equals_from rdns (Suc i) raw p
     \<longleftrightarrow> drop p raw = concat (map (\<lambda>r. CHR '','' # r) rdns)"
proof (induction rdns arbitrary: i p)
  case (Cons r rdns)
  show ?case
  proof (cases "p < length raw \<and> raw ! p = CHR '',''")
    case True
    then have d: "drop p raw = CHR '','' # drop (Suc p) raw" by (metis Cons_nth_drop_Suc)
    show ?thesis
    proof (cases "prefix r (drop (Suc p) raw)")
      case pre: True
      then have len: "Suc p + length r \<le> length raw"
        using True prefix_length_le [OF pre] by (simp, linarith)
      have t: "take (length r) (drop (Suc p) raw) = r"
        using pre by (simp add: drop_prefix_append)
      then have "drop (Suc p) raw = r @ drop (Suc p + length r) raw"
        by (metis append_take_drop_id drop_drop add.commute)
      with True d t len Cons.IH [of "Suc p + length r" "Suc i"] show ?thesis by simp
    next
      case False
      then have "\<not> (length raw - Suc p \<ge> length r \<and> take (length r) (drop (Suc p) raw) = r)"
        by (simp add: drop_prefix_append)
      moreover have "drop (Suc p) raw \<noteq> r @ x" for x using False by auto
      ultimately show ?thesis using True d by auto
    qed
  next
    case False
    then have "drop p raw \<noteq> CHR '','' # x" for x
      using Cons.prems by (metis Cons_nth_drop_Suc drop_all le_neq_implies_less list.inject
          list.distinct(1) order.refl)
    with False Cons.prems show ?thesis by auto
  qed
qed auto

lemma Join_comma: "Join (r # rdns) '','' = r @ concat (map (\<lambda>r. CHR '','' # r) rdns)"
  by (induction rdns arbitrary: r) auto

lemma DisplayEquals_iff: "DisplayEquals dn raw \<longleftrightarrow> raw = DN_String dn"
proof (cases "displayRDNs dn")
  case Nil
  then show ?thesis by (auto simp: DisplayEquals_def DN_String_def)
next
  case (Cons r rdns)
  show ?thesis
  proof (cases "prefix r raw")
    case True
    then obtain t where "raw = r @ t" by (auto simp: prefix_def)
    then show ?thesis
      using Cons display_equals_from_Suc [of "length r" raw rdns 0]
      by (auto simp: DisplayEquals_def DN_String_def Join_comma)
  next
    case False
    then have "take (length r) raw \<noteq> r" by (simp add: drop_prefix_append)
    with Cons False show ?thesis by (auto simp: DisplayEquals_def DN_String_def Join_comma)
  qed
qed

lemma suffix_take_iff:
  "p \<le> length raw \<Longrightarrow> (length r \<le> p \<and> take (length r) (drop (p - length r) raw) = r)
     \<longleftrightarrow> suffix r (take p raw)"
  by (auto simp: suffix_conv_drop drop_take)

lemma suffix_append_same: "suffix (a @ r) (b @ r) \<longleftrightarrow> suffix a b"
  by (auto simp: suffix_def)

lemma display_suffix_from_iff:
  "p \<le> length raw \<Longrightarrow> rdns \<noteq> [] \<Longrightarrow> display_suffix_from (rev rdns) raw p \<longleftrightarrow>
     take p raw = Join rdns '','' \<or> suffix ('','' @ Join rdns '','') (take p raw)"
proof (induction rdns arbitrary: p rule: rev_induct)
  case (snoc r rdns)
  show ?case
  proof (cases "suffix r (take p raw)")
    case False
    have "suffix r (Join (rdns @ [r]) '','')"
      by (cases "rdns = []") (auto simp: Join_append suffix_def)
    with False have "take p raw \<noteq> Join (rdns @ [r]) '',''"
      "\<not> suffix ('','' @ Join (rdns @ [r]) '','') (take p raw)"
      by (auto dest: suffix_ConsD suffix_order.trans)
    with False snoc.prems suffix_take_iff [of p raw r] show ?thesis by auto
  next
    case True
    then have len: "length r \<le> p" "take (length r) (drop (p - length r) raw) = r"
      using suffix_take_iff [OF snoc.prems(1)] by auto
    define q where "q = p - length r"
    have tk: "take p raw = take q raw @ r"
      using len snoc.prems(1) unfolding q_def by (metis le_add_diff_inverse2 take_add)
    have q: "q \<le> length raw" using snoc.prems(1) by (simp add: q_def)
    show ?thesis
    proof (cases "rdns = []")
      case rn: True
      have "q = 0 \<or> raw ! (q - 1) = CHR '','' \<longleftrightarrow> take q raw = [] \<or> suffix '','' (take q raw)"
        using q by (cases q) (auto simp: take_Suc_conv_app_nth suffix_def)
      with rn len tk suffix_append_same [of "'',''" r "take q raw"] show ?thesis
        by (auto simp: q_def)
    next
      case False
      have "display_suffix_from (rev (rdns @ [r])) raw p \<longleftrightarrow>
          q \<noteq> 0 \<and> raw ! (q - 1) = CHR '','' \<and> display_suffix_from (rev rdns) raw (q - 1)"
        using False len by (auto simp: q_def Let_def)
      also have "\<dots> \<longleftrightarrow> q \<noteq> 0 \<and> raw ! (q - 1) = CHR '','' \<and>
          (take (q - 1) raw = Join rdns '','' \<or> suffix ('','' @ Join rdns '','') (take (q - 1) raw))"
        using snoc.IH [of "q - 1"] q False by auto
      also have "\<dots> \<longleftrightarrow> take q raw = Join rdns '','' @ '','' \<or>
          suffix ('','' @ Join rdns '','' @ '','') (take q raw)"
        using q by (cases q) (auto simp: take_Suc_conv_app_nth suffix_def)
      finally show ?thesis using False tk by (auto simp: Join_append suffix_def)
    qed
  qed
qed simp

lemma DisplaySuffixOf_iff:
  "DisplaySuffixOf dn raw \<longleftrightarrow> raw = DN_String dn \<or> HasSuffix raw ('','' @ DN_String dn)"
proof (cases "displayRDNs dn = []")
  case True
  then show ?thesis
    by (cases raw rule: rev_cases)
      (auto simp: DisplaySuffixOf_def DN_String_def HasSuffix_suffix suffix_def)
next
  case False
  then show ?thesis
    using display_suffix_from_iff [of "length raw" raw "displayRDNs dn"]
    by (simp add: DisplaySuffixOf_def DN_String_def HasSuffix_suffix)
qed

section \<open>Normalisation: lemmas\<close>

text \<open>What one attribute contributes, when its normalisation succeeds.\<close>

definition canonical_type :: "unicode \<Rightarrow> normalizer \<Rightarrow> ava \<Rightarrow> bytes" where
  "canonical_type U N a =
     ToLower U (TrimSpace (fst (projr (NormalizeDNAttribute N (ava_type a) (ava_value a)))))"

definition normalize_one :: "unicode \<Rightarrow> normalizer \<Rightarrow> ava \<Rightarrow> normalizedAVA \<Rightarrow> bool" where
  "normalize_one U N a n \<longleftrightarrow> (\<exists>ct nv name.
     NormalizeDNAttribute N (ava_type a) (ava_value a) = Inr (ct, nv) \<and> canonical_type U N a \<noteq> [] \<and>
     display_name U N (ava_type a) = Ok name \<and>
     n = \<lparr>n_attributeType = name, n_display = name @ ''='' @ escapeDNValue (ava_value a),
          n_normalized = name @ ''='' @ escapeDNValue nv,
          n_identity = encodeDNIdentityParts [canonical_type U N a, nv]\<rparr>)"

lemma normalize_one_fun: "normalize_one U N a n \<Longrightarrow> normalize_one U N a m \<Longrightarrow> n = m"
  by (auto simp: normalize_one_def)

lemma normalize_avas_Ok:
  "normalize_avas U N i seen as = Ok ns \<longleftrightarrow>
     list_all2 (normalize_one U N) as ns \<and> distinct (map (canonical_type U N) as) \<and>
     set (map (canonical_type U N) as) \<inter> set seen = {}"
proof (induction as arbitrary: seen ns)
  case (Cons a as)
  show ?case
  proof (cases "NormalizeDNAttribute N (ava_type a) (ava_value a)")
    case (Inl e)
    then show ?thesis by (auto simp: list_all2_Cons1 normalize_one_def)
  next
    case (Inr r)
    obtain ct nv where r: "r = (ct, nv)" by fastforce
    have ct: "canonical_type U N a = ToLower U (TrimSpace ct)"
      using Inr r by (simp add: canonical_type_def)
    show ?thesis
      using Inr r by (auto simp: list_all2_Cons1 normalize_one_def [of U N a] ct Let_def Cons.IH)
  qed
qed auto

lemma sort_mset_cong: "mset xs = mset ys \<Longrightarrow> sort xs = sort ys"
  by (metis properties_for_sort mset_sort sorted_sort)

lemma assemble_identity: "r_identity (assemble_rdn ns) = encodeDNIdentityParts (sort (map n_identity ns))"
proof (cases "length ns = 1")
  case True
  then obtain n where "ns = [n]" by (auto simp: length_Suc_conv)
  then show ?thesis by (simp add: assemble_rdn_def)
next
  case False
  have "mset (map n_identity (sort_key n_attributeType ns)) = mset (map n_identity ns)"
    by simp
  from sort_mset_cong [OF this] False show ?thesis by (simp add: assemble_rdn_def Let_def)
qed

text \<open>The order of the AVAs of an RDN does not matter to its identity.\<close>

lemma normalize_avas_perm:
  assumes "normalize_avas U N i [] as = Ok ns" "mset as' = mset as"
  shows "\<exists>ns'. normalize_avas U N j [] as' = Ok ns' \<and> mset ns' = mset ns"
proof -
  from assms(1) have n: "list_all2 (normalize_one U N) as ns" "distinct (map (canonical_type U N) as)"
    by (auto simp: normalize_avas_Ok)
  from n(1) assms(2) obtain ns' where ns': "list_all2 (normalize_one U N) as' ns'" "mset ns' = mset ns"
    by (metis list_all2_reorder_left_invariance)
  have "mset (map (canonical_type U N) as') = mset (map (canonical_type U N) as)"
    using assms(2) by simp
  then have "distinct (map (canonical_type U N) as')"
    using n(2) by (metis mset_eq_imp_distinct_iff)
  with ns' show ?thesis by (auto simp: normalize_avas_Ok)
qed

definition same_rdn_avas :: "ldap_dn \<Rightarrow> ldap_dn \<Rightarrow> bool" where
  "same_rdn_avas p q \<longleftrightarrow> list_all2 (\<lambda>a b. mset a = mset b) p q"

lemma list_all2_enumerate:
  "list_all2 P xs ys \<Longrightarrow> list_all2 (\<lambda>(i, x) (j, y). i = j \<and> P x y) (enumerate k xs) (enumerate k ys)"
  by (induction arbitrary: k rule: list_all2_induct) auto

lemma normalize_rdns_perm:
  assumes "normalize_rdns U N p = Ok rs" "same_rdn_avas p q"
  shows "\<exists>rs'. normalize_rdns U N q = Ok rs' \<and> map r_identity rs' = map r_identity rs"
proof -
  let ?f = "\<lambda>(i, rdn). go_bind (normalize_avas U N i [] rdn) (\<lambda>avas. Ok (assemble_rdn avas))"
  have one: "\<exists>r'. ?f (i, b) = Ok r' \<and> r_identity r' = r_identity r"
    if "?f (i, a) = Ok r" "mset a = mset b" for i a b r
  proof -
    from that obtain ns where ns: "normalize_avas U N i [] a = Ok ns" "r = assemble_rdn ns" by auto
    from normalize_avas_perm [OF ns(1), of b] that(2) obtain ns' where
      ns': "normalize_avas U N i [] b = Ok ns'" "mset ns' = mset ns" by metis
    have "mset (map n_identity ns') = mset (map n_identity ns)" using ns'(2) by simp
    from sort_mset_cong [OF this] ns ns' show ?thesis by (simp add: assemble_identity)
  qed
  have "\<exists>rs'. go_map ?f (enumerate k q) = Ok rs' \<and> map r_identity rs' = map r_identity rs"
    if "go_map ?f (enumerate k p) = Ok rs" "list_all2 (\<lambda>a b. mset a = mset b) p q" for k p q rs
    using that(2,1)
  proof (induction arbitrary: k rs rule: list_all2_induct)
    case (Cons a p b q)
    then obtain r rs0 where r: "?f (k, a) = Ok r" "go_map ?f (enumerate (Suc k) p) = Ok rs0" "rs = r # rs0"
      by auto
    from one [OF r(1) Cons.hyps(1)] Cons.IH [OF r(2)] r(3) show ?case by fastforce
  qed simp
  then show ?thesis using assms by (auto simp: normalize_rdns_def same_rdn_avas_def)
qed

text \<open>Sizes of the framed parts of a normalised name, as they are in any Go process.\<close>

definition ava_fits :: "unicode \<Rightarrow> normalizer \<Rightarrow> ava \<Rightarrow> bool" where
  "ava_fits U N a \<longleftrightarrow>
     (let parts = [canonical_type U N a,
        snd (projr (NormalizeDNAttribute N (ava_type a) (ava_value a)))]
      in parts_fit parts \<and> length (encodeDNIdentityParts parts) < 2 ^ 64)"

definition rdn_fits :: "unicode \<Rightarrow> normalizer \<Rightarrow> rdn \<Rightarrow> bool" where
  "rdn_fits U N rdn \<longleftrightarrow> rdn \<noteq> [] \<and> length rdn < 2 ^ 64 \<and> list_all (ava_fits U N) rdn"

lemma normalize_one_identity:
  assumes "normalize_one U N a n" "ava_fits U N a"
  shows "wf_ava (n_identity n) \<and> length (n_identity n) < 2 ^ 64"
proof -
  from assms(1) obtain ct nv where
    "NormalizeDNAttribute N (ava_type a) (ava_value a) = Inr (ct, nv)" "canonical_type U N a \<noteq> []"
    "n_identity n = encodeDNIdentityParts [canonical_type U N a, nv]"
    by (auto simp: normalize_one_def)
  with assms(2) show ?thesis unfolding ava_fits_def wf_ava_def Let_def by auto
qed

lemma normalize_one_identity_inj:
  assumes "normalize_one U N a n" "normalize_one U N b m" "ava_fits U N a" "ava_fits U N b"
    and "n_identity n = n_identity m"
  shows "canonical_type U N a = canonical_type U N b"
  using assms encodeDNIdentityParts_inj by (fastforce simp: normalize_one_def ava_fits_def)

lemma distinct_identities:
  assumes "list_all2 (normalize_one U N) as ns" "distinct (map (canonical_type U N) as)"
    "list_all (ava_fits U N) as"
  shows "distinct (map n_identity ns)"
  using assms
proof (induction rule: list_all2_induct)
  case (Cons a as n ns)
  have "n_identity n \<noteq> n_identity m" if "m \<in> set ns" for m
  proof -
    from that Cons.hyps obtain b where b: "b \<in> set as" "normalize_one U N b m"
      by (metis in_set_conv_nth list_all2_conv_all_nth)
    moreover have "ava_fits U N b" using Cons.prems b by (auto simp: list_all_iff)
    moreover have "canonical_type U N a \<noteq> canonical_type U N b" using Cons.prems b by auto
    ultimately show ?thesis
      using normalize_one_identity_inj [OF Cons.hyps(1)] Cons.prems by fastforce
  qed
  with Cons show ?case by auto
qed simp

lemma normalized_rdn_path:
  assumes "normalize_avas U N i [] rdn = Ok ns" "rdn_fits U N rdn"
  shows "check_hierarchy_rdn (r_identity (assemble_rdn ns)) = Ok ()"
proof -
  let ?ids = "sort (map n_identity ns)"
  from assms have n: "list_all2 (normalize_one U N) rdn ns"
    "distinct (map (canonical_type U N) rdn)" "list_all (ava_fits U N) rdn"
    by (auto simp: normalize_avas_Ok rdn_fits_def)
  have "\<forall>x\<in>set ns. wf_ava (n_identity x) \<and> length (n_identity x) < 2 ^ 64"
    using n(1,3) by (induction rule: list_all2_induct) (auto dest: normalize_one_identity)
  moreover have "length ns = length rdn" using n(1) by (simp add: list_all2_lengthD)
  moreover have "sorted_wrt (<) ?ids"
    using distinct_identities [OF n] by (simp add: strict_sorted_iff)
  moreover have "?ids \<noteq> []"
    using calculation(2) assms(2) by (metis length_0_conv length_map length_sort rdn_fits_def)
  ultimately show ?thesis
    using assms(2) unfolding assemble_identity
    by (intro check_hierarchy_rdn_wf) (auto simp: rdn_fits_def parts_fit_def list_all_iff)
qed

section \<open>A sample of names\<close>

text \<open>
  A concrete instance of the two parameters, for names without escapes and for ASCII text.
\<close>

definition sample_parse_rdn :: "bytes \<Rightarrow> rdn" where
  "sample_parse_rdn r = map (\<lambda>a. case Cut (CHR ''='') a of (t, v, _) \<Rightarrow> \<lparr>ava_type = t, ava_value = v\<rparr>)
     (Split (CHR ''+'') r)"

definition sample_print :: "ldap_dn \<Rightarrow> bytes" where
  "sample_print p = Join (map (\<lambda>r. Join (map (\<lambda>a. ava_type a @ ''='' @ ava_value a) r) ''+'') p) '',''"

definition sample_unicode :: unicode where
  "sample_unicode = \<lparr>lower_table = id, fold_table = id\<rparr>"

definition sample_lib :: ldap_lib where
  "sample_lib = \<lparr>
     lib_ParseDN = (\<lambda>v. Inr (if v = [] then [] else map sample_parse_rdn (Split (CHR '','') v))),
     lib_String = sample_print,
     lib_EqualFold = (\<lambda>a b. EqualFold sample_unicode (sample_print a) (sample_print b)),
     lib_Equal = (=),
     lib_AncestorOfFold = (\<lambda>a b. strict_suffix a b)\<rparr>"

text \<open>A schema-aware name with given identity RDNs, to instantiate the theorems with.\<close>

definition sample_name :: "bytes list \<Rightarrow> DN" where
  "sample_name ids = \<lparr>parsed = Some (replicate (length ids) []),
     canonical = encodeDNIdentity ids, identityRDNs = ids, displayRDNs = ids,
     normalizedRDNs = ids, attributeTypes = replicate (length ids) [],
     identityLevel = schemaAwareDNIdentityLevel\<rparr>"

lemma sample_name_schema: "parts_fit ids \<Longrightarrow> dn_schema (sample_name ids)"
  by (simp add: sample_name_def dn_schema_def dn_wf_def hasSchemaAwareIdentity_def)

lemma sample_name_ids [simp]: "identityRDNs (sample_name ids) = ids"
  by (simp add: sample_name_def)

section \<open>Properties\<close>

text \<open>
  C32: on schema-aware names, equality excludes ancestry, ancestry is transitive, and any two
  ancestors of a name are equal or one is an ancestor of the other: the names form a forest.
\<close>

theorem names_form_forest:
  assumes "dn_schema a" "dn_schema b" "dn_schema c"
  shows "(Equal L a b = Some True \<longrightarrow> AncestorOf L a b = Some False) \<and>
    (AncestorOf L a b = Some True \<and> AncestorOf L b c = Some True \<longrightarrow> AncestorOf L a c = Some True) \<and>
    (AncestorOf L a c = Some True \<and> AncestorOf L b c = Some True \<longrightarrow>
       Equal L a b = Some True \<or> AncestorOf L a b = Some True \<or> AncestorOf L b a = Some True)"
  using assms dn_tree.irreflexive [of a b L] dn_tree.transitive [of a b c L]
    dn_tree.ancestors_chain [of a b c L] by blast

theorem names_form_forest_witness:
  "AncestorOf sample_lib (sample_name [''c'']) (sample_name [''a'', ''b'', ''c'']) = Some True"
proof -
  have s: "dn_schema (sample_name [''c''])" "dn_schema (sample_name [''b'', ''c''])"
    "dn_schema (sample_name [''a'', ''b'', ''c''])"
    by (simp_all add: sample_name_schema parts_fit_def)
  have "AncestorOf sample_lib (sample_name [''c'']) (sample_name [''b'', ''c'']) = Some True"
    "AncestorOf sample_lib (sample_name [''b'', ''c'']) (sample_name [''a'', ''b'', ''c'']) = Some True"
    using s by (simp_all add: AncestorOf_schema strict_suffix_def suffix_def)
  with names_form_forest [OF s, of sample_lib] show ?thesis by blast
qed

text \<open>
  parsing, normalising, taking the parent, composing and renaming all give well-formed
  names, and taking the parent of a well-formed name does not panic.
\<close>

theorem names_stay_well_formed:
  assumes "dn_wf a" "dn_wf b"
  shows "(ParseDN L U v = Ok r \<longrightarrow> dn_wf r) \<and> (NormalizeWith L U a N = Ok r \<longrightarrow> dn_wf r) \<and>
    (\<exists>q more_up. Parent L U a = Some (q, more_up) \<and> (more_up \<longrightarrow> dn_wf q)) \<and>
    (ComposeLocalName L U a b = Ok r \<longrightarrow> dn_wf r) \<and>
    (ReplaceAncestor L U a old b = Ok r \<longrightarrow> dn_wf r)"
  using assms ParseDN_wf NormalizeWith_wf Parent_wf [of a L U] ComposeLocalName_wf ReplaceAncestor_wf
  by blast

theorem names_stay_well_formed_witness:
  "\<exists>q more_up. Parent sample_lib sample_unicode (sample_name [''x'']) = Some (q, more_up) \<and> (more_up \<longrightarrow> dn_wf q)"
proof -
  have "dn_wf (sample_name [''x''])"
    using sample_name_schema [of "[''x'']"] by (simp add: dn_schema_def parts_fit_def)
  with names_stay_well_formed [of "sample_name [''x'']" "sample_name [''x'']"] show ?thesis
    by blast
qed

text \<open>
  \<open>ParentKey\<close> returns the key of the name that \<open>Parent\<close> builds, and agrees with it on
  whether there is a parent.
\<close>

theorem parent_key_agrees:
  assumes "dn_wf dn"
  shows "ParentKey L U dn = map_option (map_prod Key id) (Parent L U dn)"
proof -
  from assms obtain p where p: "parsed dn = Some p" by (auto simp: dn_wf_def)
  show ?thesis
  proof (cases p)
    case Nil
    with p show ?thesis by (simp add: ParentKey_def Parent_def Key_def zero_DN_def)
  next
    case (Cons r rs)
    with p assms show ?thesis
      by (auto simp: ParentKey_def Parent_def Key_def slice_from_def dn_wf_def zero_DN_def)
  qed
qed

theorem parent_key_agrees_witness:
  "ParentKey sample_lib sample_unicode (sample_name [''x'', ''y''])
     = map_option (map_prod Key id) (Parent sample_lib sample_unicode (sample_name [''x'', ''y'']))"
proof -
  have "dn_wf (sample_name [''x'', ''y''])"
    using sample_name_schema [of "[''x'', ''y'']"] by (simp add: dn_schema_def parts_fit_def)
  then show ?thesis by (rule parent_key_agrees)
qed

text \<open>
  C26: renaming a subtree. Inside the old subtree, \<open>ReplaceAncestor\<close> keeps the RDNs below the
  old base and puts them under the new base; the result lies in the new subtree, and renaming it
  back restores the key. Outside the old subtree it is refused.
\<close>

theorem rename_subtree:
  assumes "dn_schema dn" "dn_schema old" "dn_schema new"
  shows "if suffix (identityRDNs old) (identityRDNs dn) then
      \<exists>r. ReplaceAncestor L U dn old new = Ok r \<and>
        identityRDNs dn = take (length (identityRDNs dn) - length (identityRDNs old)) (identityRDNs dn)
          @ identityRDNs old \<and>
        identityRDNs r = take (length (identityRDNs dn) - length (identityRDNs old)) (identityRDNs dn)
          @ identityRDNs new \<and>
        (parts_fit (identityRDNs r) \<longrightarrow>
           (\<exists>bk. ReplaceAncestor L U r new old = Ok bk \<and> Key bk = Key dn))
    else ReplaceAncestor L U dn old new = Err OutsideOldSubtree"
proof (cases "suffix (identityRDNs old) (identityRDNs dn)")
  case True
  let ?k = "length (identityRDNs dn) - length (identityRDNs old)"
  from True have dn_ids: "identityRDNs dn = take ?k (identityRDNs dn) @ identityRDNs old"
    by (metis append_take_drop_id suffix_conv_drop)
  from ReplaceAncestor_schema [OF assms, of L U] True obtain r where
    r: "ReplaceAncestor L U dn old new = Ok r" "dn_wf r" "hasSchemaAwareIdentity r"
      "identityRDNs r = take ?k (identityRDNs dn) @ identityRDNs new" by auto
  have "\<exists>bk. ReplaceAncestor L U r new old = Ok bk \<and> Key bk = Key dn"
    if "parts_fit (identityRDNs r)"
  proof -
    have s: "dn_schema r" using r that by (simp add: dn_schema_def)
    have "suffix (identityRDNs new) (identityRDNs r)" using r(4) by (simp add: suffix_def)
    with ReplaceAncestor_schema [OF s assms(3,2), of L U] obtain bk where
      bk: "ReplaceAncestor L U r new old = Ok bk" "dn_wf bk" "hasSchemaAwareIdentity bk"
        "identityRDNs bk = take ?k (identityRDNs dn) @ identityRDNs old"
      using r(4) True by (auto simp: suffix_length_le)
    have "canonical bk = canonical dn"
      using bk dn_ids assms(1) by (auto simp: dn_schema_canonical dn_wf_def)
    with bk(1) show ?thesis by (auto simp: Key_def)
  qed
  with True r dn_ids show ?thesis by auto
next
  case False
  with ReplaceAncestor_schema [OF assms, of L U] show ?thesis by simp
qed

theorem rename_subtree_witness:
  "\<exists>r. ReplaceAncestor sample_lib sample_unicode (sample_name [''u'', ''a'']) (sample_name [''a'']) (sample_name [''b'']) = Ok r
     \<and> identityRDNs r = [''u'', ''b'']"
proof -
  have s: "dn_schema (sample_name [''u'', ''a''])" "dn_schema (sample_name [''a''])"
    "dn_schema (sample_name [''b''])"
    by (simp_all add: sample_name_schema parts_fit_def)
  from rename_subtree [OF s, of sample_lib sample_unicode] show ?thesis by (auto simp: suffix_def)
qed

text \<open>
  composing a local name with a superior gives a name whose RDNs are the two lists joined;
  when the local name is a single RDN, the parent of the result has the superior's key.
\<close>

theorem compose_local_name:
  assumes "dn_schema a" "dn_schema b" "identityRDNs a = [x]" "identityRDNs b \<noteq> []"
  shows "\<exists>r. ComposeLocalName L U a b = Ok r \<and> identityRDNs r = x # identityRDNs b \<and>
    (parts_fit (identityRDNs r) \<longrightarrow> AncestorOf L b r = Some True \<and>
       (\<exists>q. Parent L U r = Some (q, True) \<and> Key q = Key b))"
proof -
  from ComposeLocalName_schema [OF assms(1,2)] assms(3,4) obtain r where
    r: "ComposeLocalName L U a b = Ok r" "dn_wf r" "hasSchemaAwareIdentity r"
      "identityRDNs r = x # identityRDNs b" by (metis append_Cons append_Nil list.distinct(1))
  have "AncestorOf L b r = Some True \<and> (\<exists>q. Parent L U r = Some (q, True) \<and> Key q = Key b)"
    if "parts_fit (identityRDNs r)"
  proof -
    have s: "dn_schema r" using r that by (simp add: dn_schema_def)
    from Parent_schema [OF s r(4)] obtain q where "Parent L U r = Some (q, True)"
      "canonical q = encodeDNIdentity (identityRDNs b)" .
    moreover have "AncestorOf L b r = Some True"
      using AncestorOf_schema [OF assms(2) s] r(4) by (auto simp: strict_suffix_def suffix_def)
    ultimately show ?thesis using assms(2) by (auto simp: Key_def dn_schema_canonical)
  qed
  with r show ?thesis by blast
qed

theorem compose_local_name_witness:
  "\<exists>r. ComposeLocalName sample_lib sample_unicode (sample_name [''x'']) (sample_name [''y'']) = Ok r
     \<and> identityRDNs r = [''x'', ''y'']"
proof -
  have s: "dn_schema (sample_name [''x''])" "dn_schema (sample_name [''y''])"
    by (simp_all add: sample_name_schema parts_fit_def)
  from compose_local_name [OF s, of "''x''" sample_lib sample_unicode] show ?thesis by auto
qed

text \<open>
  the comparisons that avoid building the text of a name decide the literal predicates:
  equality with the text, and being the text or ending in a comma and the text.
\<close>

theorem display_comparisons:
  "DisplayEquals dn raw = (raw = DN_String dn) \<and>
   DisplaySuffixOf dn raw = (raw = DN_String dn \<or> HasSuffix raw ('','' @ DN_String dn))"
  by (simp add: DisplayEquals_iff DisplaySuffixOf_iff)

text \<open>
  C33: the identity key of a normalised name does not depend on the order in which the AVAs of
  its RDNs were written; in particular both spellings are accepted or refused together.
\<close>

theorem normalize_ignores_ava_order:
  assumes "parsed a = Some p" "parsed b = Some q" "same_rdn_avas p q"
    and "NormalizeWith L U a (Some N) = Ok d"
  shows "\<exists>e. NormalizeWith L U b (Some N) = Ok e \<and> Key e = Key d"
proof -
  from assms(4) obtain rs where rs: "normalize_rdns U N p = Ok rs"
    "canonical d = encodeDNIdentity (map r_identity rs)"
    using assms(1) by (elim NormalizeWith_parts) auto
  from normalize_rdns_perm [OF rs(1) assms(3)] obtain rs' where
    "normalize_rdns U N q = Ok rs'" "map r_identity rs' = map r_identity rs" by blast
  with rs assms(2) show ?thesis by (auto simp: NormalizeWith_def Key_def)
qed

definition plain_normalizer :: normalizer where
  "plain_normalizer = \<lparr>NormalizeDNAttribute = (\<lambda>t v. Inr (t, v)), CanonicalDNAttributeName = None\<rparr>"

theorem normalize_ignores_ava_order_witness:
  "\<exists>d e. NormalizeWith sample_lib sample_unicode (zero_DN\<lparr>parsed := Some [[\<lparr>ava_type = ''cn'', ava_value = ''a''\<rparr>,
        \<lparr>ava_type = ''sn'', ava_value = ''b''\<rparr>]]\<rparr>) (Some plain_normalizer) = Ok d \<and>
     NormalizeWith sample_lib sample_unicode (zero_DN\<lparr>parsed := Some [[\<lparr>ava_type = ''sn'', ava_value = ''b''\<rparr>,
        \<lparr>ava_type = ''cn'', ava_value = ''a''\<rparr>]]\<rparr>) (Some plain_normalizer) = Ok e \<and> Key e = Key d"
proof -
  let ?cn = "\<lparr>ava_type = ''cn'', ava_value = ''a''\<rparr>" and ?sn = "\<lparr>ava_type = ''sn'', ava_value = ''b''\<rparr>"
  obtain d where d: "NormalizeWith sample_lib sample_unicode (zero_DN\<lparr>parsed := Some [[?cn, ?sn]]\<rparr>) (Some plain_normalizer) = Ok d"
    by (simp add: NormalizeWith_def normalize_rdns_def plain_normalizer_def display_name_def Let_def
        ToLower_def TrimSpace_def ascii_lower_def is_space_def)
  have "same_rdn_avas [[?cn, ?sn]] [[?sn, ?cn]]" by (simp add: same_rdn_avas_def add_mset_commute)
  from normalize_ignores_ava_order [OF _ _ this d, of "zero_DN\<lparr>parsed := Some [[?sn, ?cn]]\<rparr>"] d
  show ?thesis by auto
qed

text \<open>
  every name that normalisation produces from nonempty RDNs has a hierarchy path, so the
  path index can hold every schema-aware name.
\<close>

theorem normalized_name_has_path:
  assumes "parsed a = Some p" "NormalizeWith L U a (Some N) = Ok d"
    and "list_all (rdn_fits U N) p" "parts_fit (identityRDNs d)"
  shows "\<exists>path. DNHierarchyPath (Key d) = Ok path"
proof -
  from assms(2) obtain rs where rs: "normalize_rdns U N p = Ok rs"
    "canonical d = encodeDNIdentity (map r_identity rs)" "identityRDNs d = map r_identity rs"
    using assms(1) by (elim NormalizeWith_parts) auto
  have "\<forall>r\<in>set rs. check_hierarchy_rdn (r_identity r) = Ok ()"
  proof
    fix r assume "r \<in> set rs"
    then obtain i where i: "i < length rs" "r = rs ! i" by (auto simp: in_set_conv_nth)
    with rs(1) obtain ns where "normalize_avas U N i [] (p ! i) = Ok ns" "r = assemble_rdn ns"
      by (auto simp: normalize_rdns_def go_map_all2 list_all2_conv_all_nth nth_enumerate_eq)
    moreover have "rdn_fits U N (p ! i)"
      using assms(3) i rs(1) by (auto simp: list_all_iff shape_simps)
    ultimately show "check_hierarchy_rdn (r_identity r) = Ok ()"
      by (simp add: normalized_rdn_path)
  qed
  with DNHierarchyPath_encode [of "map r_identity rs"] rs assms(4) show ?thesis
    by (auto simp: Key_def)
qed

theorem normalized_name_has_path_witness:
  "\<exists>d path. NormalizeWith sample_lib sample_unicode (zero_DN\<lparr>parsed := Some [[\<lparr>ava_type = ''cn'', ava_value = ''a''\<rparr>]]\<rparr>)
       (Some plain_normalizer) = Ok d \<and> DNHierarchyPath (Key d) = Ok path"
proof -
  let ?cn = "\<lparr>ava_type = ''cn'', ava_value = ''a''\<rparr>"
  have lower: "ToLower sample_unicode (TrimSpace ''cn'') = ''cn''"
    by (simp add: ToLower_def TrimSpace_def ascii_lower_def is_space_def char_of_def bit_0)
  obtain d where d: "NormalizeWith sample_lib sample_unicode (zero_DN\<lparr>parsed := Some [[?cn]]\<rparr>) (Some plain_normalizer) = Ok d"
    "identityRDNs d = [single_ava_rdn ''cn'' ''a'']"
    by (simp add: NormalizeWith_def normalize_rdns_def plain_normalizer_def display_name_def Let_def
        lower assemble_rdn_def single_ava_rdn_def)
  have fits: "list_all (rdn_fits sample_unicode plain_normalizer) [[?cn]]"
    by (simp add: rdn_fits_def ava_fits_def canonical_type_def plain_normalizer_def lower Let_def
        parts_fit_def encode_pair_small)
  have "parts_fit (identityRDNs d)"
    by (simp add: d parts_fit_def single_ava_rdn_def encodeDNIdentityParts_eq frame_def uvarint_last)
  from normalized_name_has_path [OF _ d(1) fits this] d(1) show ?thesis by auto
qed

end
