(* ===== verification/DN_Scope.thy ===== *)
theory DN_Scope
  imports Distinguished_Name
begin

text \<open>
  Names stored beside their identity keys (\<open>internal/directory/dn.go\<close>,
  \<open>dn_identity_scope.go\<close>, \<open>dn_identity_scope_bytes.go\<close>): rebuilding a name from its key,
  validating a display name against a key without building the name, and deciding the scope of a
  key without building the candidate. The fast paths are shown to return what the reference
  compositions return, on every input.
\<close>

section \<open>Reading keys\<close>

text \<open>One AVA of a key; the error is the third result \<open>false\<close>.\<close>

definition dnIdentityAVA :: "bytes \<Rightarrow> (unit, bytes \<times> bytes) go" where
  "dnIdentityAVA encoded =
     (case viewDNIdentityParts encoded of
        Panic \<Rightarrow> Panic
      | Err e \<Rightarrow> Err ()
      | Ok parts \<Rightarrow>
          if parts_count parts \<noteq> 2 then Err ()
          else go_bind (go_of_option (parts_next parts)) (\<lambda>(typeBytes, parts1).
            if typeBytes = [] then Err ()
            else go_bind (go_of_option (parts_next parts1)) (\<lambda>(v, _).
              Ok (typeBytes, typeBytes @ ''='' @ escapeDNValue v))))"

fun identity_avas :: "nat \<Rightarrow> dnIdentityParts \<Rightarrow> (unit, (bytes \<times> bytes) list) go" where
  "identity_avas 0 avas = Ok []"
| "identity_avas (Suc k) avas =
     go_bind (go_of_option (parts_next avas)) (\<lambda>(ava, avas').
     go_bind (dnIdentityAVA ava) (\<lambda>a.
     go_bind (identity_avas k avas') (\<lambda>rest. Ok (a # rest))))"

text \<open>
  The loop of \<open>ParseDNWithIdentityKey\<close>: per RDN its identity, attribute types and normalised
  text. Types of one RDN are pairwise different in every key that \<open>NormalizeWith\<close> writes, so the
  order \<open>sort.Slice\<close> gives to equal types does not arise there; the model takes the stable one.
\<close>

record keyRDN =
  k_identity :: bytes
  k_types :: "bytes list"
  k_normalized :: bytes

fun reconstruct_rdns :: "nat \<Rightarrow> nat \<Rightarrow> dnIdentityParts \<Rightarrow> (dn_error, keyRDN list) go" where
  "reconstruct_rdns rdnIndex 0 rdns = Ok []"
| "reconstruct_rdns rdnIndex (Suc k) rdns =
     go_bind (go_of_option (parts_next rdns)) (\<lambda>(encodedRDN, rdns').
     go_bind (go_wrap (KeyRDNError rdnIndex) (viewDNIdentityParts encodedRDN)) (\<lambda>avas.
     go_bind (go_wrap (\<lambda>_. KeyInvalidAVA rdnIndex) (identity_avas (parts_count avas) avas)) (\<lambda>as.
     let normalized = (if parts_count avas = 1 then as else sort_key fst as) in
     go_bind (reconstruct_rdns (rdnIndex + 1) k rdns') (\<lambda>rest.
       Ok (\<lparr>k_identity = encodedRDN, k_types = map fst normalized,
            k_normalized = Join (map snd normalized) ''+''\<rparr> # rest)))))"

section \<open>Validating a key against a parsed name\<close>

fun validate_key_avas ::
  "nat \<Rightarrow> nat \<Rightarrow> bytes option \<Rightarrow> bytes list \<Rightarrow> (dn_error, unit) go" where
  "validate_key_avas rdnIndex index prev [] = Ok ()"
| "validate_key_avas rdnIndex index prev (ava # avas) =
     (if (case prev of None \<Rightarrow> False | Some p \<Rightarrow> ava < p) then Err (KeyAVAsNotSorted rdnIndex)
      else go_bind (go_wrap (KeyAVAError rdnIndex index) (decodeDNIdentityParts ava)) (\<lambda>parts.
        if length parts \<noteq> 2 \<or> parts ! 0 = [] then Err (KeyAVAShape rdnIndex index)
        else validate_key_avas rdnIndex (index + 1) (Some ava) avas))"

fun validate_key_rdns :: "nat \<Rightarrow> ldap_dn \<Rightarrow> bytes list \<Rightarrow> (dn_error, unit) go" where
  "validate_key_rdns rdnIndex (rdn # rdns) (encodedRDN # encoded) =
     go_bind (go_wrap (KeyRDNError rdnIndex) (decodeDNIdentityParts encodedRDN)) (\<lambda>avas.
       if length avas \<noteq> length rdn then Err (KeyAVACount rdnIndex (length avas) (length rdn))
       else go_bind (validate_key_avas rdnIndex 0 None avas) (\<lambda>_.
         validate_key_rdns (rdnIndex + 1) rdns encoded))"
| "validate_key_rdns rdnIndex rdns encoded = Ok ()"

definition ValidateIdentityKey :: "ldap_lib \<Rightarrow> unicode \<Rightarrow> DN \<Rightarrow> bytes \<Rightarrow> (dn_error, unit) go" where
  "ValidateIdentityKey L U dn key =
     (if \<not> HasPrefix key schemaAwareDNKeyPrefix then
        go_bind (go_of_option (parsed dn)) (\<lambda>p.
          if key \<noteq> ToLower U (lib_String L p) then Err (LegacyKeyMismatch (Key dn)) else Ok ())
      else let encoded = drop (length schemaAwareDNKeyPrefix) key in
        case RawURL_Decode False encoded of None \<Rightarrow> Err KeyNotBase64
        | Some payload \<Rightarrow>
            if RawURL_EncodeToString payload \<noteq> encoded then Err KeyNotCanonical
            else go_bind (go_wrap KeyRDNsError (decodeDNIdentityParts payload)) (\<lambda>rdns.
              go_bind (go_of_option (parsed dn)) (\<lambda>p.
                if length rdns \<noteq> length p then Err (KeyRDNCount (length rdns) (length p))
                else validate_key_rdns 0 p rdns)))"

definition ParseDNWithIdentityKey ::
  "ldap_lib \<Rightarrow> unicode \<Rightarrow> bytes \<Rightarrow> bytes \<Rightarrow> (dn_error, DN) go" where
  "ParseDNWithIdentityKey L U v key =
     (if \<not> HasPrefix key schemaAwareDNKeyPrefix then
        go_bind (ParseDN L U v) (\<lambda>dn. go_bind (ValidateIdentityKey L U dn key) (\<lambda>_. Ok dn))
      else go_bind (parseDN L U v) (\<lambda>p.
        case key_payload key of None \<Rightarrow> Err KeyNotCanonical
        | Some payload \<Rightarrow>
            go_bind (go_wrap KeyRDNsError (viewDNIdentityParts payload)) (\<lambda>rdns.
              if parts_count rdns \<noteq> length p then Err (KeyRDNCount (parts_count rdns) (length p))
              else go_bind (reconstruct_rdns 0 (parts_count rdns) rdns) (\<lambda>rs.
                Ok \<lparr>parsed = Some p, canonical = key, identityRDNs = map k_identity rs,
                  displayRDNs = formatDNRDNs U p False, normalizedRDNs = map k_normalized rs,
                  attributeTypes = map k_types rs,
                  identityLevel = schemaAwareDNIdentityLevel\<rparr>))))"

text \<open>The AVAs of one RDN, as \<open>validatedDNIdentityRDNs\<close> checks them.\<close>

fun validate_view_avas :: "nat \<Rightarrow> dnIdentityParts \<Rightarrow> (unit, unit) go" where
  "validate_view_avas 0 avas = Ok ()"
| "validate_view_avas (Suc k) avas =
     go_bind (go_of_option (parts_next avas)) (\<lambda>(ava, avas').
     case viewDNIdentityParts ava of Panic \<Rightarrow> Panic | Err e \<Rightarrow> Err ()
     | Ok parts \<Rightarrow>
         if parts_count parts \<noteq> 2 then Err ()
         else go_bind (go_of_option (parts_next parts)) (\<lambda>(t, _).
           if t = [] then Err () else validate_view_avas k avas'))"

text \<open>
  The loop over RDNs; \<open>Ok False\<close> says that the number of AVAs differs from the display name's,
  where the code returns what the full parser returns.
\<close>

fun validate_view_rdns ::
  "(nat \<Rightarrow> nat) \<Rightarrow> nat \<Rightarrow> nat \<Rightarrow> dnIdentityParts \<Rightarrow> (dn_error, bool) go" where
  "validate_view_rdns attributeCount rdnIndex 0 remaining = Ok True"
| "validate_view_rdns attributeCount rdnIndex (Suc k) remaining =
     go_bind (go_of_option (parts_next remaining)) (\<lambda>(encodedRDN, remaining').
     go_bind (go_wrap (KeyRDNError rdnIndex) (viewDNIdentityParts encodedRDN)) (\<lambda>avas.
       if parts_count avas \<noteq> attributeCount rdnIndex then Ok False
       else go_bind (go_wrap (\<lambda>_. KeyInvalidAVA rdnIndex) (validate_view_avas (parts_count avas) avas)) (\<lambda>_.
         validate_view_rdns attributeCount (rdnIndex + 1) k remaining')))"

definition validatedDNIdentityRDNs ::
  "ldap_lib \<Rightarrow> unicode \<Rightarrow> bytes \<Rightarrow> bytes \<Rightarrow> (dn_error, dnIdentityParts) go" where
  "validatedDNIdentityRDNs L U v key =
     (let simple = snd (simpleDNDepth v) in
      go_bind (if simple then Ok [] else parseDN L U v) (\<lambda>p.
      let depth = (if simple then fst (simpleDNDepth v) else length p) in
      case key_payload key of None \<Rightarrow> Err KeyNotCanonical
      | Some payload \<Rightarrow>
          go_bind (go_wrap KeyRDNsError (viewDNIdentityParts payload)) (\<lambda>rdns.
            if parts_count rdns \<noteq> depth then go_bind (ParseDNWithIdentityKey L U v key) (\<lambda>_. Ok rdns)
            else go_bind (validate_view_rdns
                (\<lambda>rdnIndex. if simple then 1 else length (p ! rdnIndex)) 0 (parts_count rdns) rdns)
              (\<lambda>complete. if complete then Ok rdns
                else go_bind (ParseDNWithIdentityKey L U v key) (\<lambda>_. Ok rdns)))))"

definition ValidateDNWithIdentityKey ::
  "ldap_lib \<Rightarrow> unicode \<Rightarrow> bytes \<Rightarrow> bytes \<Rightarrow> (dn_error, unit) go" where
  "ValidateDNWithIdentityKey L U v key =
     (if \<not> HasPrefix key schemaAwareDNKeyPrefix then go_error (ParseDNWithIdentityKey L U v key)
      else go_error (validatedDNIdentityRDNs L U v key))"

section \<open>The scope of a key\<close>

datatype scope_error =
    BaseNotSchemaAware
  | CandidateNotSchemaAware
  | CandidateNotCanonical
  | CandidateRDNs parts_error

text \<open>The comparison loop, from the first RDN to the last; \<open>Ok False\<close> is the early break.\<close>

fun scope_loop :: "bytes list \<Rightarrow> nat \<Rightarrow> nat \<Rightarrow> nat \<Rightarrow> dnIdentityParts \<Rightarrow> (scope_error, bool) go" where
  "scope_loop ids offset index 0 rdns = Ok True"
| "scope_loop ids offset index (Suc k) rdns =
     go_bind (go_of_option (parts_next rdns)) (\<lambda>(rdn, rdns').
       if offset \<le> index then
         (if index - offset < length ids then
            (if ids ! (index - offset) \<noteq> rdn then Ok False
             else scope_loop ids offset (index + 1) k rdns')
          else Panic)
       else scope_loop ids offset (index + 1) k rdns')"

definition scope_decision :: "Scope \<Rightarrow> bool \<Rightarrow> bool \<Rightarrow> nat \<Rightarrow> nat \<Rightarrow> bool" where
  "scope_decision scope equal ancestor depth baseDepth =
     (case scope of
        ScopeBase \<Rightarrow> equal
      | ScopeSingleLevel \<Rightarrow> ancestor \<and> depth = baseDepth + 1
      | ScopeWholeSubtree \<Rightarrow> equal \<or> ancestor
      | ScopeChildren \<Rightarrow> ancestor
      | ScopeOther _ \<Rightarrow> False)"

definition dnIdentityRDNsInScope :: "DN \<Rightarrow> dnIdentityParts \<Rightarrow> Scope \<Rightarrow> (scope_error, bool) go" where
  "dnIdentityRDNsInScope base candidateRDNs scope =
     (let baseDepth = length (identityRDNs base); depth = parts_count candidateRDNs;
          equal = (baseDepth = depth); ancestor = (baseDepth < depth) in
      go_bind (if equal \<or> ancestor
        then scope_loop (identityRDNs base) (depth - baseDepth) 0 depth candidateRDNs
        else Ok True) (\<lambda>same.
          Ok (scope_decision scope (equal \<and> same) (ancestor \<and> same) depth baseDepth)))"

definition IdentityKeyInScope :: "DN \<Rightarrow> bytes \<Rightarrow> Scope \<Rightarrow> (scope_error, bool) go" where
  "IdentityKeyInScope base candidateKey scope =
     (if \<not> hasSchemaAwareIdentity base then Err BaseNotSchemaAware
      else if \<not> HasPrefix candidateKey schemaAwareDNKeyPrefix then Err CandidateNotSchemaAware
      else case key_payload candidateKey of None \<Rightarrow> Err CandidateNotCanonical
        | Some payload \<Rightarrow>
            go_bind (go_wrap CandidateRDNs (viewDNIdentityParts payload)) (\<lambda>rdns.
              dnIdentityRDNsInScope base rdns scope))"

section \<open>Validation and scope together\<close>

text \<open>
  The three results of the Go functions: an outer error is \<open>validationErr\<close>; otherwise the pair
  of \<open>inScope\<close> and \<open>scopeErr\<close>.
\<close>

type_synonym scope_result = "(dn_error, bool \<times> scope_error option) go"

fun scope_pair :: "(scope_error, bool) go \<Rightarrow> scope_result" where
  "scope_pair (Ok b) = Ok (b, None)"
| "scope_pair (Err e) = Ok (False, Some e)"
| "scope_pair Panic = Panic"

definition ValidateDNIdentityInScope ::
  "ldap_lib \<Rightarrow> unicode \<Rightarrow> bytes \<Rightarrow> bytes \<Rightarrow> DN \<Rightarrow> Scope \<Rightarrow> scope_result" where
  "ValidateDNIdentityInScope L U v key base scope =
     (if \<not> HasPrefix key schemaAwareDNKeyPrefix then
        go_bind (ValidateDNWithIdentityKey L U v key) (\<lambda>_.
          scope_pair (IdentityKeyInScope base key scope))
      else go_bind (validatedDNIdentityRDNs L U v key) (\<lambda>rdns.
        if \<not> hasSchemaAwareIdentity base then Ok (False, Some BaseNotSchemaAware)
        else scope_pair (dnIdentityRDNsInScope base rdns scope)))"

section \<open>The path without allocations\<close>

definition short_single_ava :: "bytes \<Rightarrow> bool" where
  "short_single_ava encoded \<longleftrightarrow>
     6 \<le> length encoded \<and> ord (encoded ! 0) = 1 \<and> ord (encoded ! 1) < 128 \<and>
     ord (encoded ! 1) = length encoded - 2 \<and> ord (encoded ! 2) = 2 \<and>
     0 < ord (encoded ! 3) \<and> ord (encoded ! 3) < 128 \<and>
     (let valueOffset = 4 + ord (encoded ! 3) in
       valueOffset < length encoded \<and> ord (encoded ! valueOffset) < 128 \<and>
       ord (encoded ! valueOffset) = length encoded - valueOffset - 1)"

definition general_single_ava :: "bytes \<Rightarrow> bool" where
  "general_single_ava encoded0 =
     (case Uvarint encoded0 of (c1, n1) \<Rightarrow>
      if n1 \<le> 0 \<or> c1 \<noteq> 1 then False else
      let encoded1 = drop (nat n1) encoded0 in
      case Uvarint encoded1 of (len1, n2) \<Rightarrow>
      if n2 \<le> 0 \<or> unat len1 \<noteq> length encoded1 - nat n2 then False else
      let encoded2 = drop (nat n2) encoded1 in
      case Uvarint encoded2 of (c2, n3) \<Rightarrow>
      if n3 \<le> 0 \<or> c2 \<noteq> 2 then False else
      let encoded3 = drop (nat n3) encoded2 in
      case Uvarint encoded3 of (len2, n4) \<Rightarrow>
      if n4 \<le> 0 \<or> len2 = 0 \<or> length encoded3 - nat n4 < unat len2 then False else
      let encoded4 = drop (nat n4 + unat len2) encoded3 in
      case Uvarint encoded4 of (len3, n5) \<Rightarrow>
      0 < n5 \<and> unat len3 = length encoded4 - nat n5)"

definition validSingleAVADNIdentityRDN :: "bytes \<Rightarrow> bool" where
  "validSingleAVADNIdentityRDN encoded \<longleftrightarrow> short_single_ava encoded \<or> general_single_ava encoded"

text \<open>
  The fused loop over the payload: framing, AVA and suffix comparison at once. The error is the
  second result \<open>false\<close>; the flags are \<open>equal\<close> and \<open>ancestor\<close>.
\<close>

fun fused_loop ::
  "bytes list \<Rightarrow> int \<Rightarrow> nat \<Rightarrow> nat \<Rightarrow> bool \<times> bool \<Rightarrow> bytes \<Rightarrow> (unit, (bool \<times> bool) \<times> bytes) go" where
  "fused_loop ids offset index 0 flags payload = Ok (flags, payload)"
| "fused_loop ids offset index (Suc k) flags payload =
     (case Uvarint payload of (len, n) \<Rightarrow>
      if n \<le> 0 then Err ()
      else let payload1 = drop (nat n) payload in
        if length payload1 < unat len then Err ()
        else let rdn = take (unat len) payload1; payload2 = drop (unat len) payload1 in
          if \<not> validSingleAVADNIdentityRDN rdn then Err ()
          else if (fst flags \<or> snd flags) \<and> offset \<le> int index then
            (if nat (int index - offset) < length ids then
               fused_loop ids offset (index + 1) k
                 (if ids ! nat (int index - offset) \<noteq> rdn then (False, False) else flags) payload2
             else Panic)
          else fused_loop ids offset (index + 1) k flags payload2)"

definition scratch_size :: nat where
  "scratch_size = 1024"

definition DecodedLen :: "nat \<Rightarrow> nat" where
  "DecodedLen n = n * 6 div 8"

definition validateSimpleDNIdentityInScopeBytes ::
  "bytes \<Rightarrow> bytes \<Rightarrow> DN \<Rightarrow> Scope \<Rightarrow> (unit, bool) go" where
  "validateSimpleDNIdentityInScopeBytes v key base scope =
     (if \<not> HasPrefix key schemaAwareDNKeyPrefix then Err ()
      else case simpleDNDepthBytes v of (depth, simple) \<Rightarrow>
        if \<not> simple then Err ()
        else let encoded = drop (length schemaAwareDNKeyPrefix) key in
          if scratch_size < DecodedLen (length encoded) \<or> hasDNKeyLineBreak encoded then Err ()
          else case RawURL_Decode True encoded of None \<Rightarrow> Err ()
            | Some payload \<Rightarrow>
                (case Uvarint payload of (c, n) \<Rightarrow>
                 if n \<le> 0 then Err ()
                 else let payload1 = drop (nat n) payload in
                   if length payload1 + 1 < unat c \<or> unat c \<noteq> depth then Err ()
                   else let baseDepth = length (identityRDNs base) in
                     go_bind (fused_loop (identityRDNs base) (int depth - int baseDepth) 0 depth
                        (baseDepth = depth, baseDepth < depth) payload1) (\<lambda>((equal, ancestor), rest).
                       if rest \<noteq> [] then Err ()
                       else Ok (scope_decision scope equal ancestor depth baseDepth))))"

definition ValidateDNIdentityInScopeBytes ::
  "ldap_lib \<Rightarrow> unicode \<Rightarrow> bytes \<Rightarrow> bytes \<Rightarrow> DN \<Rightarrow> Scope \<Rightarrow> scope_result" where
  "ValidateDNIdentityInScopeBytes L U v key base scope =
     (if hasSchemaAwareIdentity base then
        (case validateSimpleDNIdentityInScopeBytes v key base scope of
           Ok inScope \<Rightarrow> Ok (inScope, None)
         | Err _ \<Rightarrow> ValidateDNIdentityInScope L U v key base scope
         | Panic \<Rightarrow> Panic)
      else ValidateDNIdentityInScope L U v key base scope)"

section \<open>Reading validated views\<close>

lemma parts_take_Suc:
  "parts_take (Suc k) v = Some (ps, v') \<longleftrightarrow>
     (\<exists>p v1 qs. parts_next v = Some (p, v1) \<and> parts_take k v1 = Some (qs, v') \<and> ps = p # qs)"
  by (auto split: option.splits)

lemma view_two_parts:
  assumes "viewDNIdentityParts enc = Ok v" "parts_count v = 2"
  obtains t w v1 v2 where "parts_next v = Some (t, v1)" "parts_next v1 = Some (w, v2)"
  using viewDNIdentityParts_Ok [OF assms(1)] assms(2)
  by (metis parts_take_Suc numeral_2_eq_2)

lemma dnIdentityAVA_error:
  "go_error (dnIdentityAVA ava) =
     (case viewDNIdentityParts ava of Panic \<Rightarrow> Panic | Err e \<Rightarrow> Err ()
      | Ok parts \<Rightarrow> if parts_count parts \<noteq> 2 then Err ()
          else go_bind (go_of_option (parts_next parts)) (\<lambda>(t, _). if t = [] then Err () else Ok ()))"
proof (cases "viewDNIdentityParts ava")
  case (Ok v)
  show ?thesis
  proof (cases "parts_count v = 2")
    case True
    with Ok obtain t w v1 v2 where "parts_next v = Some (t, v1)" "parts_next v1 = Some (w, v2)"
      by (rule view_two_parts)
    with Ok True show ?thesis by (auto simp: dnIdentityAVA_def)
  qed (simp add: dnIdentityAVA_def Ok)
qed (simp_all add: dnIdentityAVA_def)

lemma dnIdentityAVA_no_panic [simp]: "dnIdentityAVA ava \<noteq> Panic"
proof (cases "viewDNIdentityParts ava")
  case (Ok v)
  show ?thesis
  proof (cases "parts_count v = 2")
    case True
    with Ok obtain t w v1 v2 where "parts_next v = Some (t, v1)" "parts_next v1 = Some (w, v2)"
      by (rule view_two_parts)
    with Ok True show ?thesis by (auto simp: dnIdentityAVA_def)
  qed (simp add: dnIdentityAVA_def Ok)
qed (simp_all add: dnIdentityAVA_def viewDNIdentityParts_no_panic)

text \<open>Checking AVAs reports exactly what reading them reports.\<close>

lemma validate_view_avas_error: "validate_view_avas k avas = go_error (identity_avas k avas)"
proof (induction k arbitrary: avas)
  case (Suc k)
  show ?case
  proof (cases "parts_next avas")
    case (Some r)
    obtain ava avas' where r: "r = (ava, avas')" by fastforce
    have e: "go_error (identity_avas (Suc k) avas)
        = go_bind (go_error (dnIdentityAVA ava)) (\<lambda>_. go_error (identity_avas k avas'))"
      using Some r by (cases "dnIdentityAVA ava") auto
    show ?thesis
    proof (cases "viewDNIdentityParts ava")
      case (Ok v)
      show ?thesis
      proof (cases "parts_count v = 2")
        case True
        with Ok obtain t w v1 v2 where "parts_next v = Some (t, v1)" by (rule view_two_parts)
        with e Ok True Some r Suc show ?thesis by (simp add: dnIdentityAVA_error)
      qed (use e Ok Some r in \<open>simp add: dnIdentityAVA_error\<close>)
    qed (use e Some r in \<open>simp_all add: dnIdentityAVA_error\<close>)
  qed simp
qed simp

lemma identity_avas_no_panic:
  "parts_take k avas = Some (ps, v) \<Longrightarrow> identity_avas k avas \<noteq> Panic"
  by (induction k arbitrary: avas ps) (auto simp: parts_take_Suc simp del: parts_take.simps(2))

lemma view_avas_no_panic:
  "viewDNIdentityParts enc = Ok v \<Longrightarrow> identity_avas (parts_count v) v \<noteq> Panic"
  by (metis viewDNIdentityParts_Ok identity_avas_no_panic)

lemma reconstruct_rdns_no_panic:
  "parts_take k rdns = Some (ps, v) \<Longrightarrow> reconstruct_rdns i k rdns \<noteq> Panic"
proof (induction k arbitrary: rdns ps i)
  case (Suc k)
  then obtain p v1 qs where "parts_next rdns = Some (p, v1)" "parts_take k v1 = Some (qs, v)"
    by (auto simp: parts_take_Suc simp del: parts_take.simps)
  with Suc.IH show ?case
    by (auto simp: Let_def viewDNIdentityParts_no_panic view_avas_no_panic)
qed simp

lemma reconstruct_rdns_identities:
  "parts_take k rdns = Some (ps, v) \<Longrightarrow> reconstruct_rdns i k rdns = Ok rs \<Longrightarrow> map k_identity rs = ps"
proof (induction k arbitrary: rdns ps i rs)
  case (Suc k)
  then obtain p v1 qs where "parts_next rdns = Some (p, v1)" "parts_take k v1 = Some (qs, v)" "ps = p # qs"
    by (auto simp: parts_take_Suc simp del: parts_take.simps)
  with Suc show ?case by (auto simp: Let_def)
qed simp

section \<open>Validating without building\<close>

text \<open>
  The validation loop agrees with the reconstruction loop, except where it hands over to it.
\<close>

lemma validate_view_rdns_spec:
  assumes "parts_take k rdns = Some (ps, v)"
  shows "case validate_view_rdns cnt i k rdns of
      Ok complete \<Rightarrow> complete \<longrightarrow> go_error (reconstruct_rdns i k rdns) = Ok ()
    | Err e \<Rightarrow> reconstruct_rdns i k rdns = Err e
    | Panic \<Rightarrow> False"
  using assms
proof (induction k arbitrary: rdns ps i)
  case (Suc k)
  then obtain p v1 qs where nxt: "parts_next rdns = Some (p, v1)" and rest: "parts_take k v1 = Some (qs, v)"
    by (auto simp: parts_take_Suc simp del: parts_take.simps)
  note IH = Suc.IH [OF rest, of "i + 1"]
  show ?case
  proof (cases "viewDNIdentityParts p")
    case (Ok avas)
    show ?thesis
    proof (cases "identity_avas (parts_count avas) avas")
      case as: (Ok as)
      show ?thesis using nxt Ok as IH
        by (auto simp: validate_view_avas_error Let_def split: go.splits)
    next
      case (Err e)
      with nxt Ok show ?thesis by (auto simp: validate_view_avas_error)
    next
      case Panic
      with Ok view_avas_no_panic show ?thesis by blast
    qed
  next
    case (Err e)
    with nxt show ?thesis by simp
  next
    case Panic
    then show ?thesis by (simp add: viewDNIdentityParts_no_panic)
  qed
qed simp

section \<open>Scope loops\<close>

lemma scope_loop_spec:
  assumes "parts_take k rdns = Some (ps, v)" "index + k = offset + length ids"
  shows "scope_loop ids offset index k rdns
    = Ok (drop (index - offset) ids = drop (offset - index) ps)"
  using assms
proof (induction k arbitrary: rdns ps index)
  case (Suc k)
  then obtain p v1 qs where nxt: "parts_next rdns = Some (p, v1)" and ps: "ps = p # qs"
    and rest: "parts_take k v1 = Some (qs, v)"
    by (auto simp: parts_take_Suc simp del: parts_take.simps)
  from Suc.IH [OF rest, of "index + 1"] Suc.prems(2) have
    IH: "scope_loop ids offset (index + 1) k v1
      = Ok (drop (index + 1 - offset) ids = drop (offset - (index + 1)) qs)" by simp
  show ?case
  proof (cases "offset \<le> index")
    case True
    then have lt: "index - offset < length ids" using Suc.prems(2) by linarith
    then have "drop (index - offset) ids = ids ! (index - offset) # drop (index + 1 - offset) ids"
      using True by (simp add: Cons_nth_drop_Suc Suc_diff_le)
    with True lt nxt ps IH show ?thesis by auto
  next
    case False
    then have "drop (offset - index) ps = drop (offset - (index + 1)) qs"
      using ps by (simp add: drop_Cons')
    with False nxt IH Suc.prems(2) show ?thesis by simp
  qed
qed simp

definition scope_holds :: "Scope \<Rightarrow> bytes list \<Rightarrow> bytes list \<Rightarrow> bool" where
  "scope_holds scope base candidate =
     (case scope of
        ScopeBase \<Rightarrow> base = candidate
      | ScopeSingleLevel \<Rightarrow> (\<exists>r. candidate = r # base)
      | ScopeWholeSubtree \<Rightarrow> suffix base candidate
      | ScopeChildren \<Rightarrow> strict_suffix base candidate
      | ScopeOther _ \<Rightarrow> False)"

lemma strict_suffix_one_more:
  "strict_suffix xs ys \<and> length ys = Suc (length xs) \<longleftrightarrow> (\<exists>r. ys = r # xs)"
proof
  assume "strict_suffix xs ys \<and> length ys = Suc (length xs)"
  then obtain zs where "ys = zs @ xs" "length zs = 1" by (auto simp: strict_suffix_def suffix_def)
  then show "\<exists>r. ys = r # xs" by (auto simp: length_Suc_conv)
qed (auto simp: strict_suffix_def suffix_def)

lemma scope_decision_spec:
  assumes same: "length ids \<le> length ps \<Longrightarrow> same = (ids = drop (length ps - length ids) ps)"
  shows "scope_decision scope (length ids = length ps \<and> same) (length ids < length ps \<and> same)
    (length ps) (length ids) = scope_holds scope ids ps"
proof -
  have suf: "suffix ids ps \<longleftrightarrow> length ids \<le> length ps \<and> same"
    using same by (auto simp: suffix_conv_drop)
  have eq: "ids = ps \<longleftrightarrow> length ids = length ps \<and> same"
    using same by auto
  have sub: "strict_suffix ids ps \<longleftrightarrow> length ids < length ps \<and> same"
    using suf eq by (auto simp: strict_suffix_def)
  show ?thesis
    unfolding scope_decision_def scope_holds_def strict_suffix_one_more [symmetric]
    using suf eq sub by (cases scope) auto
qed

lemma dnIdentityRDNsInScope_spec:
  assumes "parts_take (parts_count v) v = Some (ps, w)" "length ps = parts_count v"
  shows "dnIdentityRDNsInScope base v scope = Ok (scope_holds scope (identityRDNs base) ps)"
proof -
  let ?ids = "identityRDNs base"
  show ?thesis
  proof (cases "length ?ids \<le> length ps")
    case True
    with scope_loop_spec [OF assms(1), of 0 "length ps - length ?ids" ?ids]
      scope_decision_spec [of ?ids ps "?ids = drop (length ps - length ?ids) ps" scope] assms(2)
    show ?thesis
      by (cases "length ?ids = length ps") (auto simp: dnIdentityRDNsInScope_def Let_def)
  next
    case False
    with scope_decision_spec [of ?ids ps True scope] assms(2) show ?thesis
      by (auto simp: dnIdentityRDNsInScope_def Let_def)
  qed
qed

lemma view_scope:
  assumes "viewDNIdentityParts payload = Ok v"
  shows "\<exists>ps w. parts_take (parts_count v) v = Some (ps, w) \<and> length ps = parts_count v \<and>
    dnIdentityRDNsInScope base v scope = Ok (scope_holds scope (identityRDNs base) ps)"
  by (metis viewDNIdentityParts_Ok [OF assms] dnIdentityRDNsInScope_spec)

lemma InScope_schema:
  assumes "dn_schema a" "dn_schema b"
  shows "InScope L a b scope = Some (scope_holds scope (identityRDNs a) (identityRDNs b))"
  using assms strict_suffix_one_more [of "identityRDNs a" "identityRDNs b"]
  by (cases scope) (auto simp: InScope_def scope_holds_def Equal_schema AncestorOf_schema
      dn_schema_depth strict_suffix_def)

section \<open>The path without allocations: lemmas\<close>

text \<open>What \<open>validSingleAVADNIdentityRDN\<close> stands for: the general reader finds one valid AVA.\<close>

definition reads_single_ava :: "bytes \<Rightarrow> bool" where
  "reads_single_ava encoded =
     (case viewDNIdentityParts encoded of
        Ok avas \<Rightarrow> parts_count avas = 1 \<and> validate_view_avas 1 avas = Ok ()
      | _ \<Rightarrow> False)"

lemma unat_eq_small: "k < 2 ^ 64 \<Longrightarrow> unat (c :: uint64) = k \<longleftrightarrow> c = of_nat k"
  by (metis of_nat_unat ucast_id unat_of_nat_uint64)

lemma view_lengths_one:
  assumes "Uvarint e = (len, m)"
  shows "view_lengths 1 i e = Ok [] \<longleftrightarrow> 0 < m \<and> unat len = length e - nat m"
  using assms Uvarint_count [OF assms] by (auto simp: Let_def split: if_splits)

lemma view_lengths_two:
  assumes "Uvarint e = (len, m)" "Uvarint (drop (nat m + unat len) e) = (len', m')"
  shows "view_lengths 2 i e = Ok [] \<longleftrightarrow> 0 < m \<and> unat len \<le> length e - nat m \<and>
    0 < m' \<and> unat len' = length (drop (nat m + unat len) e) - nat m'"
proof -
  have "view_lengths 2 i e = (if m = 0 then Err (TruncatedPartLength i)
      else if m < 0 then Err (PartLengthOverflow i)
      else if length e - nat m < unat len then Err (PartLengthExceedsPayload i)
      else view_lengths 1 (i + 1) (drop (nat m + unat len) e))"
    using assms(1) by (simp add: numeral_2_eq_2 Let_def add.commute)
  with view_lengths_one [OF assms(2), of "i + 1"] show ?thesis by (auto split: if_splits)
qed

lemma view_count_iff:
  assumes "Uvarint enc = (c, n)" "k < 2 ^ 64"
  shows "viewDNIdentityParts enc = Ok v \<and> parts_count v = k \<longleftrightarrow> c = of_nat k \<and> 0 < n \<and>
    v = \<lparr>data = drop (nat n) enc, parts_count = k\<rparr> \<and> k \<le> length (drop (nat n) enc) + 1 \<and>
    view_lengths k 0 (drop (nat n) enc) = Ok []"
proof -
  have "unat c = k \<longleftrightarrow> c = of_nat k" using unat_eq_small [OF assms(2)] by simp
  with assms show ?thesis
    by (auto simp: viewDNIdentityParts_def Let_def split: if_splits)
qed

lemma view_one_iff:
  assumes "Uvarint enc = (c, n)" "e = drop (nat n) enc" "Uvarint e = (len, m)"
  shows "viewDNIdentityParts enc = Ok v \<and> parts_count v = 1 \<longleftrightarrow> c = 1 \<and> 0 < n \<and>
    0 < m \<and> unat len = length e - nat m \<and> v = \<lparr>data = e, parts_count = 1\<rparr>"
  using view_count_iff [OF assms(1), of 1 v] view_lengths_one [OF assms(3), of 0] assms(2) by auto

lemma view_two_iff:
  assumes "Uvarint enc = (c, n)" "e = drop (nat n) enc" "Uvarint e = (len, m)"
    "Uvarint (drop (nat m + unat len) e) = (len', m')"
  shows "viewDNIdentityParts enc = Ok v \<and> parts_count v = 2 \<longleftrightarrow> c = 2 \<and> 0 < n \<and>
    0 < m \<and> unat len \<le> length e - nat m \<and> 0 < m' \<and>
    unat len' = length (drop (nat m + unat len) e) - nat m' \<and> v = \<lparr>data = e, parts_count = 2\<rparr>"
proof -
  have "0 < m \<Longrightarrow> 1 \<le> length e" using Uvarint_count [OF assms(3)] by linarith
  then show ?thesis
    using view_count_iff [OF assms(1), of 2 v] view_lengths_two [OF assms(3,4), of 0] assms(2) by auto
qed

lemma view_whole_part:
  assumes "Uvarint d = (len, m)" "0 < m" "unat len = length d - nat m"
  shows "parts_next \<lparr>data = d, parts_count = c\<rparr> = Some (drop (nat m) d, \<lparr>data = [], parts_count = c\<rparr>)"
  using assms by (simp add: parts_next_def)

lemma general_single_ava_iff: "general_single_ava enc \<longleftrightarrow> reads_single_ava enc"
proof -
  obtain c1 n1 where u1: "Uvarint enc = (c1, n1)" by fastforce
  define e1 where "e1 = drop (nat n1) enc"
  obtain l1 n2 where u2: "Uvarint e1 = (l1, n2)" by fastforce
  define e2 where "e2 = drop (nat n2) e1"
  obtain c2 n3 where u3: "Uvarint e2 = (c2, n3)" by fastforce
  define e3 where "e3 = drop (nat n3) e2"
  obtain l2 n4 where u4: "Uvarint e3 = (l2, n4)" by fastforce
  define e4 where "e4 = drop (nat n4 + unat l2) e3"
  obtain l3 n5 where u5: "Uvarint e4 = (l3, n5)" by fastforce
  let ?outer = "c1 = 1 \<and> 0 < n1 \<and> 0 < n2 \<and> unat l1 = length e1 - nat n2"
  let ?inner = "c2 = 2 \<and> 0 < n3 \<and> 0 < n4 \<and> unat l2 \<le> length e3 - nat n4 \<and>
    0 < n5 \<and> unat l3 = length e4 - nat n5"
  have gen: "general_single_ava enc \<longleftrightarrow> ?outer \<and> ?inner \<and> l2 \<noteq> 0"
    unfolding general_single_ava_def Let_def u1 prod.case e1_def [symmetric] u2 e2_def [symmetric] u3
      e3_def [symmetric] u4 e4_def [symmetric] u5 by (simp only: not_le not_less if_bool_eq_conj) auto
  have outer: "viewDNIdentityParts enc = Ok v \<and> parts_count v = 1 \<longleftrightarrow>
      ?outer \<and> v = \<lparr>data = e1, parts_count = 1\<rparr>" for v
    using view_one_iff [OF u1 e1_def u2, of v] by blast
  have inner: "viewDNIdentityParts e2 = Ok v \<and> parts_count v = 2 \<longleftrightarrow>
      ?inner \<and> v = \<lparr>data = e3, parts_count = 2\<rparr>" for v
    using view_two_iff [OF u3 e3_def u4, of l3 n5 v] u5 by (auto simp: e4_def)
  have first: "\<exists>w. parts_next \<lparr>data = e3, parts_count = 2\<rparr> = Some (take (unat l2) (drop (nat n4) e3), w)
      \<and> (take (unat l2) (drop (nat n4) e3) = [] \<longleftrightarrow> l2 = 0)" if ?inner
  proof -
    have "length (take (unat l2) (drop (nat n4) e3)) = unat l2" using that by simp
    then have "take (unat l2) (drop (nat n4) e3) = [] \<longleftrightarrow> l2 = 0"
      by (metis length_0_conv unat_eq_zero)
    with that u4 show ?thesis by (simp add: parts_next_def)
  qed
  have "validate_view_avas 1 \<lparr>data = e1, parts_count = 1\<rparr> = Ok () \<longleftrightarrow> ?inner \<and> l2 \<noteq> 0" if ?outer
  proof -
    have "parts_next \<lparr>data = e1, parts_count = 1\<rparr> = Some (e2, \<lparr>data = [], parts_count = 1\<rparr>)"
      using that u2 view_whole_part [of e1 l1 n2] by (simp add: e2_def)
    then have "validate_view_avas 1 \<lparr>data = e1, parts_count = 1\<rparr> = Ok () \<longleftrightarrow>
        (\<exists>v. (viewDNIdentityParts e2 = Ok v \<and> parts_count v = 2) \<and>
           (\<exists>t w. parts_next v = Some (t, w) \<and> t \<noteq> []))"
      by (cases "viewDNIdentityParts e2") (auto split: if_splits)
    also have "\<dots> \<longleftrightarrow> ?inner \<and> l2 \<noteq> 0"
      unfolding inner using first by force
    finally show ?thesis .
  qed
  moreover have "reads_single_ava enc \<longleftrightarrow> (\<exists>v. (viewDNIdentityParts enc = Ok v \<and> parts_count v = 1)
      \<and> validate_view_avas 1 v = Ok ())"
    unfolding reads_single_ava_def by (cases "viewDNIdentityParts enc") auto
  ultimately show ?thesis unfolding gen outer by blast
qed

lemma Uvarint_short:
  assumes "i < length bs" "ord (bs ! i) < 128"
  shows "Uvarint (drop i bs) = (of_nat (ord (bs ! i)), 1)"
  using assms by (simp add: Uvarint_def Cons_nth_drop_Suc [symmetric])

lemma short_single_ava_general:
  assumes "short_single_ava enc"
  shows "general_single_ava enc"
proof -
  define a t b where "a = ord (enc ! 1)" and "t = ord (enc ! 3)" and "b = ord (enc ! (4 + t))"
  note s = assms [unfolded short_single_ava_def Let_def, folded t_def, folded a_def b_def]
  have "enc \<noteq> []" using s by auto
  then have u: "Uvarint enc = (1, 1)" "Uvarint (drop 1 enc) = (of_nat a, 1)"
    "Uvarint (drop 2 enc) = (2, 1)" "Uvarint (drop 3 enc) = (of_nat t, 1)"
    "Uvarint (drop (4 + t) enc) = (of_nat b, 1)"
    using s Uvarint_short [of 0 enc] Uvarint_short [of 1 enc] Uvarint_short [of 2 enc]
      Uvarint_short [of 3 enc] Uvarint_short [of "4 + t" enc] by (auto simp: a_def t_def b_def)
  have "a < 128" "t < 128" "b < 128" using s by auto
  then have small: "unat (of_nat a :: uint64) = a" "unat (of_nat t :: uint64) = t"
    "unat (of_nat b :: uint64) = b" by simp_all
  have t: "(of_nat t :: uint64) \<noteq> 0" using s small(2) by (metis unat_0 less_irrefl)
  have "a = length enc - 2" "t \<le> length enc - 4" "b = length enc - (4 + t) - 1" using s by auto
  with u t small show ?thesis
    by (simp add: general_single_ava_def Let_def numeral_2_eq_2 [symmetric] numeral_3_eq_3 [symmetric]
        add.commute)
qed

lemma validSingleAVADNIdentityRDN_iff:
  "validSingleAVADNIdentityRDN enc \<longleftrightarrow> reads_single_ava enc"
  using short_single_ava_general general_single_ava_iff
  by (auto simp: validSingleAVADNIdentityRDN_def)

text \<open>The fused loop reads the frames that the general reader reads.\<close>

lemma fused_loop_reads:
  assumes "fused_loop ids offset index k flags payload = Ok (flags', rest)"
  shows "view_lengths k i payload = Ok rest \<and>
    (\<exists>ps. parts_take k \<lparr>data = payload, parts_count = c\<rparr> = Some (ps, \<lparr>data = rest, parts_count = c\<rparr>)
      \<and> length ps = k \<and> list_all reads_single_ava ps)"
  using assms
proof (induction k arbitrary: index flags payload i)
  case (Suc k)
  obtain len n where u: "Uvarint payload = (len, n)" by fastforce
  let ?p1 = "drop (nat n) payload"
  let ?rdn = "take (unat len) ?p1" and ?p2 = "drop (unat len) ?p1"
  from Suc.prems u obtain flags1 where
    n: "0 < n" and len: "unat len \<le> length ?p1" and ava: "validSingleAVADNIdentityRDN ?rdn"
    and rec: "fused_loop ids offset (index + 1) k flags1 ?p2 = Ok (flags', rest)"
    by (auto simp: Let_def simp del: drop_drop split: if_splits)
  from Suc.IH [OF rec, of "i + 1"] obtain ps where
    "view_lengths k (i + 1) ?p2 = Ok rest"
    "parts_take k \<lparr>data = ?p2, parts_count = c\<rparr> = Some (ps, \<lparr>data = rest, parts_count = c\<rparr>)"
    "length ps = k" "list_all reads_single_ava ps" by auto
  with u n len ava parts_next_step [OF u n len, of c] show ?case
    by (auto simp: validSingleAVADNIdentityRDN_iff Let_def simp del: drop_drop take_drop)
qed simp

lemma fused_loop_flags_off:
  "fused_loop ids offset index k (False, False) payload = Ok (flags', rest) \<Longrightarrow> flags' = (False, False)"
  by (induction k arbitrary: index payload) (auto simp: Let_def split: if_splits prod.splits)

lemma fused_loop_flags:
  assumes "fused_loop ids (int offset) index k flags payload = Ok (flags', rest)"
    "parts_take k \<lparr>data = payload, parts_count = c\<rparr> = Some (ps, v)"
    "fst flags \<or> snd flags" "index + k = offset + length ids"
  shows "flags' = (if drop (index - offset) ids = drop (offset - index) ps then flags else (False, False))"
  using assms
proof (induction k arbitrary: index flags payload ps)
  case (Suc k)
  obtain len n where u: "Uvarint payload = (len, n)" by fastforce
  let ?p1 = "drop (nat n) payload"
  let ?rdn = "take (unat len) ?p1" and ?p2 = "drop (unat len) ?p1"
  from Suc.prems(1) u have n: "0 < n" and len: "unat len \<le> length ?p1"
    by (auto simp: Let_def split: if_splits)
  from Suc.prems(2) parts_next_step [OF u n len, of c] obtain qs where
    ps: "ps = ?rdn # qs" and qs: "parts_take k \<lparr>data = ?p2, parts_count = c\<rparr> = Some (qs, v)"
    by (auto simp: parts_take_Suc simp del: parts_take.simps drop_drop take_drop)
  show ?case
  proof (cases "offset \<le> index")
    case True
    then have lt: "index - offset < length ids" using Suc.prems(4) by linarith
    have idx: "nat (int index - int offset) = index - offset" using True by linarith
    let ?f = "if ids ! (index - offset) \<noteq> ?rdn then (False, False) else flags"
    have rec: "fused_loop ids (int offset) (index + 1) k ?f ?p2 = Ok (flags', rest)"
      using Suc.prems(1,3) u n len True lt idx
      by (auto simp: Let_def simp del: drop_drop take_drop split: if_splits)
    have d: "drop (index - offset) ids = ids ! (index - offset) # drop (index + 1 - offset) ids"
      using True lt by (simp add: Cons_nth_drop_Suc Suc_diff_le)
    show ?thesis
    proof (cases "ids ! (index - offset) = ?rdn")
      case same: True
      with Suc.IH [OF _ qs, of "index + 1" flags] rec Suc.prems(3,4) True d ps show ?thesis
        by (simp del: drop_drop take_drop)
    next
      case False
      with fused_loop_flags_off [of ids "int offset" "index + 1" k ?p2 flags' rest] rec d ps True
      show ?thesis by (simp del: drop_drop take_drop)
    qed
  next
    case False
    then have rec: "fused_loop ids (int offset) (index + 1) k flags ?p2 = Ok (flags', rest)"
      using Suc.prems(1) u n len by (auto simp: Let_def simp del: drop_drop take_drop split: if_splits)
    have "drop (offset - index) ps = drop (offset - (index + 1)) qs"
      using False ps by (simp add: drop_Cons' del: drop_drop take_drop)
    with Suc.IH [OF rec qs Suc.prems(3)] Suc.prems(4) False show ?thesis by simp
  qed
qed simp

lemma fused_loop_no_panic:
  assumes "fst flags \<or> snd flags \<Longrightarrow> int index + int k = offset + int (length ids)"
  shows "fused_loop ids offset index k flags payload \<noteq> Panic"
  using assms
proof (induction k arbitrary: index flags payload)
  case (Suc k)
  have off: "fused_loop ids offset (index + 1) k (False, False) p \<noteq> Panic" for p
    by (rule Suc.IH) simp
  have on: "fused_loop ids offset (index + 1) k flags p \<noteq> Panic" for p
    by (rule Suc.IH) (use Suc.prems in simp)
  have "(fst flags \<or> snd flags) \<and> offset \<le> int index \<Longrightarrow> nat (int index - offset) < length ids"
    using Suc.prems by linarith
  with on off show ?case by (auto simp: Let_def split: prod.splits)
qed simp

lemma validate_single_avas:
  assumes "parts_take k rdns = Some (ps, v)" "list_all reads_single_ava ps"
  shows "validate_view_rdns (\<lambda>_. 1) i k rdns = Ok True"
  using assms
proof (induction k arbitrary: i rdns ps)
  case (Suc k)
  then obtain p v1 qs where "parts_next rdns = Some (p, v1)" "parts_take k v1 = Some (qs, v)"
    "ps = p # qs" by (auto simp: parts_take_Suc simp del: parts_take.simps)
  with Suc show ?case
    by (auto simp: reads_single_ava_def split: go.splits simp del: validate_view_avas.simps)
qed simp

lemma key_payload_prefixed:
  "HasPrefix key schemaAwareDNKeyPrefix \<Longrightarrow> key_payload key =
     (case RawURL_Decode True (drop (length schemaAwareDNKeyPrefix) key) of None \<Rightarrow> None
      | Some payload \<Rightarrow> if hasDNKeyLineBreak (drop (length schemaAwareDNKeyPrefix) key) then None
          else Some payload)"
  by (simp add: key_payload_def Let_def)

lemma fast_path_Ok:
  assumes "validateSimpleDNIdentityInScopeBytes v key base scope = Ok b"
    and "hasSchemaAwareIdentity base"
  shows "ValidateDNIdentityInScope L U v key base scope = Ok (b, None)"
proof -
  let ?ids = "identityRDNs base"
  from assms(1) obtain depth payload c n flags where
    pre: "HasPrefix key schemaAwareDNKeyPrefix" and simple: "simpleDNDepth v = (depth, True)"
    and pay: "key_payload key = Some payload" and u: "Uvarint payload = (c, n)" "0 < n"
    and c: "unat c = depth" "depth \<le> length (drop (nat n) payload) + 1"
    and loop: "fused_loop ?ids (int depth - int (length ?ids)) 0 depth
      (length ?ids = depth, length ?ids < depth) (drop (nat n) payload) = Ok (flags, [])"
    and b: "b = scope_decision scope (fst flags) (snd flags) depth (length ?ids)"
    by (auto simp: validateSimpleDNIdentityInScopeBytes_def key_payload_prefixed Let_def
        simpleDNDepthBytes_eq split: if_splits option.splits prod.splits)
  let ?v = "\<lparr>data = drop (nat n) payload, parts_count = depth\<rparr>"
  from fused_loop_reads [OF loop, of 0 depth] obtain ps where
    lens: "view_lengths depth 0 (drop (nat n) payload) = Ok []" and
    ps: "parts_take depth ?v = Some (ps, ?v\<lparr>data := []\<rparr>)" "length ps = depth"
      "list_all reads_single_ava ps" by auto
  have view: "viewDNIdentityParts payload = Ok ?v"
    using u c lens by (auto simp: viewDNIdentityParts_def)
  have flags: "flags = (length ?ids = depth \<and> same, length ?ids < depth \<and> same)"
    if "same = (length ?ids \<le> depth \<longrightarrow> ?ids = drop (depth - length ?ids) ps)" for same
  proof (cases "length ?ids \<le> depth")
    case True
    with loop have "fused_loop ?ids (int (depth - length ?ids)) 0 depth
      (length ?ids = depth, length ?ids < depth) (drop (nat n) payload) = Ok (flags, [])"
      by (simp add: of_nat_diff)
    from fused_loop_flags [OF this ps(1)] True that show ?thesis by (auto simp: le_less)
  next
    case False
    with loop fused_loop_flags_off show ?thesis by fastforce
  qed
  have "b = scope_holds scope ?ids ps"
    using scope_decision_spec [of ?ids ps "length ?ids \<le> depth \<longrightarrow> ?ids = drop (depth - length ?ids) ps" scope]
      flags [OF refl] b ps(2) by simp
  moreover have "validatedDNIdentityRDNs L U v key = Ok ?v"
    using simple pay view validate_single_avas [OF ps(1,3), of 0]
    by (simp add: validatedDNIdentityRDNs_def)
  ultimately show ?thesis
    using pre assms(2) dnIdentityRDNsInScope_spec [of ?v ps "?v\<lparr>data := []\<rparr>" base scope] ps
    by (simp add: ValidateDNIdentityInScope_def)
qed

lemma fast_path_no_panic: "validateSimpleDNIdentityInScopeBytes v key base scope \<noteq> Panic"
proof -
  have "fused_loop ids (int d - int (length ids)) 0 d flags p \<noteq> Panic" for ids d flags p
    by (rule fused_loop_no_panic) simp
  then show ?thesis
    by (auto simp: validateSimpleDNIdentityInScopeBytes_def Let_def split: option.splits prod.splits)
qed

lemma validated_view:
  assumes "validatedDNIdentityRDNs L U v key = Ok rdns"
  shows "\<exists>payload. key_payload key = Some payload \<and> viewDNIdentityParts payload = Ok rdns"
  using assms by (auto simp: validatedDNIdentityRDNs_def Let_def split: option.splits if_splits)

section \<open>Simple names and the parser\<close>

text \<open>
  What the fast paths rely on of the third-party parser: a simple name is parsed into its
  comma-separated parts, one AVA each, with the text before and after the equals sign.
\<close>

definition parses_simple_names :: "ldap_lib \<Rightarrow> bool" where
  "parses_simple_names L \<longleftrightarrow> (\<forall>rs. rs \<noteq> [] \<and> list_all simple_rdn_ok rs \<longrightarrow>
     lib_ParseDN L (simple_dn_text rs) = Inr (map (\<lambda>(t, v). [\<lparr>ava_type = t, ava_value = v\<rparr>]) rs))"

lemma Split_Join:
  "xs \<noteq> [] \<Longrightarrow> \<forall>x\<in>set xs. sep \<notin> set x \<Longrightarrow> Split sep (Join xs [sep]) = xs"
proof (induction xs)
  case (Cons x xs)
  show ?case
  proof (cases "xs = []")
    case True
    with Cons.prems show ?thesis by (auto intro!: Split_Cut(2) simp: Cut_not_found)
  next
    case False
    have "Cut sep (Join (x # xs) [sep]) = (x, Join xs [sep], True)"
      using Cons.prems False by (simp add: Cut_found Join_Cons)
    with Cons False show ?thesis by (simp add: Split_Cut(1))
  qed
qed simp

lemma simple_rdn_ok_chars:
  assumes "simple_rdn_ok (t, v)"
  shows "\<forall>c\<in>set t \<union> set v. c \<notin> {CHR '';'', CHR '','', CHR ''='', CHR ''+''} \<and> ord c < 128 \<and> \<not> is_space (ord c)"
proof -
  have "simple_value_char c" if "c \<in> set t \<union> set v" for c
    using that assms validDNAttributeType_chars [of t]
    by (auto simp: simple_rdn_ok_def list_all_iff simple_value_char_def)
  then show ?thesis
    by (fastforce simp: simple_value_char_def asciiDNAttributeLetter_iff is_digit_def is_space_def)
qed

lemma TrimSpace_plain:
  assumes "\<forall>c\<in>set t. ord c < 128 \<and> \<not> is_space (ord c)"
  shows "TrimSpace t = t"
proof -
  have id: "dropWhile (\<lambda>x. is_space (fst x)) xs = xs" if "\<forall>x\<in>set xs. \<not> is_space (fst x)" for xs :: "(nat \<times> bytes) list"
    using that by (cases xs) auto
  have "segments t = map (\<lambda>c. (ord c, [c])) t"
    using assms by (intro segments_is_ascii) (auto simp: is_ascii_def)
  then show ?thesis using assms by (auto simp: TrimSpace_def id o_def rev_map [symmetric])
qed

lemma validDNAttributeType_lower:
  assumes "validDNAttributeType t"
  shows "validDNAttributeType (ToLower U t)"
proof -
  let ?lo = "\<lambda>c. char_of (ascii_lower (ord c)) :: char"
  note chars = validDNAttributeType_chars [OF assms]
  have "is_ascii t"
    using chars by (fastforce simp: is_ascii_def asciiDNAttributeLetter_iff is_digit_def)
  then have low: "ToLower U t = map ?lo t" by (simp add: ToLower_def)
  have same: "?lo c = c" if "is_digit c \<or> c = CHR ''.'' \<or> c = CHR ''-''" for c
    using that by (auto simp: ascii_lower_def is_digit_def)
  have letter: "asciiDNAttributeLetter (?lo c)" if "asciiDNAttributeLetter c" for c
    using that by (auto simp: asciiDNAttributeLetter_iff ascii_lower_def)
  have not_digit: "\<not> is_digit c" if "asciiDNAttributeLetter c" for c
    using that by (auto simp: asciiDNAttributeLetter_iff is_digit_def)
  show ?thesis
  proof (cases "is_digit (hd t)")
    case True
    then have "list_all valid_arc (Split (CHR ''.'') t)" "t \<noteq> []"
      using assms by (auto simp: validDNAttributeType_def split: if_splits)
    then have "c \<in> set t \<Longrightarrow> is_digit c \<or> c = CHR ''.''" for c
      using set_Split [of t "CHR ''.''"] by (force simp: list_all_iff valid_arc_iff)
    then have "ToLower U t = t" unfolding low using same by (intro map_idI) blast
    with assms show ?thesis by simp
  next
    case False
    with assms obtain c s where t: "t = c # s" "asciiDNAttributeLetter c"
      "list_all (\<lambda>c. asciiDNAttributeLetter c \<or> is_digit c \<or> c = CHR ''-'') s"
      by (cases t) (auto simp: validDNAttributeType_def split: if_splits)
    have "list_all (\<lambda>c. asciiDNAttributeLetter c \<or> is_digit c \<or> c = CHR ''-'') (map ?lo s)"
      unfolding list_all_iff
    proof
      fix d assume "d \<in> set (map ?lo s)"
      then obtain c where "c \<in> set s" "d = ?lo c" by auto
      with t(3) letter [of c] same [of c] show "asciiDNAttributeLetter d \<or> is_digit d \<or> d = CHR ''-''"
        by (auto simp: list_all_iff)
    qed
    with t letter [OF t(2)] not_digit [OF letter [OF t(2)]] show ?thesis
      unfolding low by (simp add: validDNAttributeType_def)
  qed
qed

lemma simple_names_parse:
  assumes "parses_simple_names L" "simpleDNDepth v = (d, True)"
  obtains p where "parseDN L U v = Ok p" "length p = d" "\<And>i. i < d \<Longrightarrow> length (p ! i) = 1"
proof -
  from assms(2) obtain rs where rs: "rs \<noteq> []" "d = length rs" "v = simple_dn_text rs" "list_all simple_rdn_ok rs"
    by (auto simp: simpleDNDepth_simple_dn simple_dn_def)
  let ?p = "map (\<lambda>(t, v). [\<lparr>ava_type = t, ava_value = v\<rparr>]) rs"
  have one: "validate_rdn_types U i [] [\<lparr>ava_type = t, ava_value = w\<rparr>] = Ok ()" if "(t, w) \<in> set rs" for t w i
  proof -
    have ok: "simple_rdn_ok (t, w)" using that rs(4) by (auto simp: list_all_iff)
    note c = simple_rdn_ok_chars [OF this]
    then have "Cut (CHR '';'') t = (t, [], False)" by (auto simp: Cut_not_found)
    moreover have "TrimSpace t = t" using c by (intro TrimSpace_plain) auto
    ultimately show ?thesis
      using ok validDNAttributeType_lower [of t U] by (simp add: simple_rdn_ok_def Let_def)
  qed
  have "go_map (\<lambda>(i, rdn). validate_rdn_types U i [] rdn) (enumerate 0 ?p)
      = Ok (map (\<lambda>_. ()) (enumerate 0 ?p))"
  proof (rule go_map_Ok)
    fix x assume "x \<in> set (enumerate 0 ?p)"
    then have x: "fst x < length rs" "snd x = ?p ! fst x" by (auto simp: in_set_enumerate_eq)
    obtain t w where tw: "rs ! fst x = (t, w)" by fastforce
    with x(1) have "(t, w) \<in> set rs" by (metis nth_mem)
    moreover have "x = (fst x, [\<lparr>ava_type = t, ava_value = w\<rparr>])" using x tw by (simp add: prod_eq_iff)
    ultimately show "(case x of (i, rdn) \<Rightarrow> validate_rdn_types U i [] rdn) = Ok ()"
      by (metis case_prod_conv one)
  qed
  then have "parseDN L U v = Ok ?p"
    using assms(1) rs by (simp add: parseDN_def parses_simple_names_def validateUniqueDNAttributeTypes_def)
  then show ?thesis by (rule that) (use rs(2) in \<open>auto split: prod.split\<close>)
qed

lemma sample_lib_parses: "parses_simple_names sample_lib"
  unfolding parses_simple_names_def
proof (intro allI impI)
  fix rs :: "(bytes \<times> bytes) list" assume a: "rs \<noteq> [] \<and> list_all simple_rdn_ok rs"
  have "sample_parse_rdn (simple_rdn_text r) = (\<lambda>(t, v). [\<lparr>ava_type = t, ava_value = v\<rparr>]) r"
    if r: "r \<in> set rs" for r
  proof (cases r)
    case (Pair t v)
    with a r have c: "\<forall>c\<in>set t \<union> set v. c \<notin> {CHR '';'', CHR '','', CHR ''='', CHR ''+''}"
      using simple_rdn_ok_chars [of t v] by (auto simp: list_all_iff)
    then have "Split (CHR ''+'') (simple_rdn_text r) = [simple_rdn_text r]"
      by (intro Split_Cut(2)) (auto simp: Cut_not_found simple_rdn_text_def Pair)
    moreover have "Cut (CHR ''='') (simple_rdn_text r) = (t, v, True)"
      using c by (auto simp: Cut_found simple_rdn_text_def Pair)
    ultimately show ?thesis by (simp add: sample_parse_rdn_def Pair)
  qed
  moreover have "Split (CHR '','') (simple_dn_text rs) = map simple_rdn_text rs"
    unfolding simple_dn_text_def using a simple_rdn_text_seps by (intro Split_Join) (auto simp: list_all_iff)
  moreover have "simple_dn_text rs \<noteq> []"
    using a by (cases rs) (auto simp: simple_dn_text_def Join_Cons simple_rdn_text_def)
  ultimately show "lib_ParseDN sample_lib (simple_dn_text rs)
      = Inr (map (\<lambda>(t, v). [\<lparr>ava_type = t, ava_value = v\<rparr>]) rs)"
    by (simp add: sample_lib_def)
qed

lemma scope_pair_Ok [simp]: "scope_pair m = Panic \<longleftrightarrow> m = Panic"
  by (cases m) auto

lemma validated_error:
  assumes "parses_simple_names L" "HasPrefix key schemaAwareDNKeyPrefix"
  shows "go_error (validatedDNIdentityRDNs L U v key) = go_error (ParseDNWithIdentityKey L U v key)"
proof -
  obtain d simple where s: "simpleDNDepth v = (d, simple)" by fastforce
  have main: "go_error (validatedDNIdentityRDNs L U v key) = go_error (ParseDNWithIdentityKey L U v key)"
    if p: "parseDN L U v = Ok p" and d: "simple \<Longrightarrow> length p = d" for p
  proof (cases "\<exists>payload rdns. key_payload key = Some payload \<and> viewDNIdentityParts payload = Ok rdns")
    case True
    then obtain payload rdns where v: "key_payload key = Some payload" "viewDNIdentityParts payload = Ok rdns"
      by blast
    from viewDNIdentityParts_Ok [OF v(2)] obtain ps w where
      ps: "parts_take (parts_count rdns) rdns = Some (ps, w)" by metis
    let ?cnt = "\<lambda>i. if simple then 1 else length ((if simple then [] else p) ! i)"
    from validate_view_rdns_spec [OF ps, of 0 ?cnt] show ?thesis
      using s p d v assms(2)
      by (auto simp: validatedDNIdentityRDNs_def ParseDNWithIdentityKey_def [of L U v key]
          go_error_bind_Ok split: go.splits if_splits)
  next
    case False
    then show ?thesis using s p d assms(2)
      by (cases "key_payload key"; cases "viewDNIdentityParts (the (key_payload key))")
        (auto simp: validatedDNIdentityRDNs_def ParseDNWithIdentityKey_def viewDNIdentityParts_no_panic)
  qed
  show ?thesis
  proof (cases simple)
    case True
    with s simple_names_parse [OF assms(1), of v d U] main show ?thesis by metis
  next
    case False
    with s main show ?thesis
      by (cases "parseDN L U v")
        (auto simp: validatedDNIdentityRDNs_def ParseDNWithIdentityKey_def assms(2))
  qed
qed

lemma identity_avas_Ok:
  "parts_take k avas = Some (ps, v) \<Longrightarrow> \<forall>p\<in>set ps. \<exists>t w. dnIdentityAVA p = Ok (t, w) \<Longrightarrow>
     \<exists>as. identity_avas k avas = Ok as"
  by (induction k arbitrary: avas ps) (fastforce simp: parts_take_Suc simp del: parts_take.simps(2))+

lemma decode_ava_Ok:
  assumes "decodeDNIdentityParts ava = Ok parts" "length parts = 2" "parts ! 0 \<noteq> []"
  shows "\<exists>t w. dnIdentityAVA ava = Ok (t, w)"
proof -
  from assms(1) obtain v rest where v: "viewDNIdentityParts ava = Ok v"
    "parts_take (parts_count v) v = Some (parts, rest)" by (auto simp: decodeDNIdentityParts_view)
  from viewDNIdentityParts_Ok [OF v(1)] v(2) assms(2) have "parts_count v = 2" by force
  moreover from this v(2) obtain t w v1 v2 where "parts_next v = Some (t, v1)"
    "parts_next v1 = Some (w, v2)" "parts = [t, w]"
    by (auto simp: numeral_2_eq_2 parts_take_Suc simp del: parts_take.simps(2))
  ultimately show ?thesis using v(1) assms(3) by (simp add: dnIdentityAVA_def)
qed

lemma check_hierarchy_avas_read:
  "check_hierarchy_avas prev avas = Ok () \<Longrightarrow> ava \<in> set avas \<Longrightarrow> \<exists>t w. dnIdentityAVA ava = Ok (t, w)"
  by (induction prev avas rule: check_hierarchy_avas.induct)
    (auto simp: check_hierarchy_ava_def split: go.splits if_splits intro: decode_ava_Ok)

lemma check_hierarchy_rdn_read:
  assumes "check_hierarchy_rdn r = Ok ()"
  obtains v as where "viewDNIdentityParts r = Ok v" "identity_avas (parts_count v) v = Ok as"
proof -
  from assms obtain avas where a: "decodeDNIdentityParts r = Ok avas" "check_hierarchy_avas None avas = Ok ()"
    by (auto simp: check_hierarchy_rdn_def split: go.splits if_splits)
  then obtain v rest where v: "viewDNIdentityParts r = Ok v"
    "parts_take (parts_count v) v = Some (avas, rest)" by (auto simp: decodeDNIdentityParts_view)
  with identity_avas_Ok [OF v(2)] check_hierarchy_avas_read [OF a(2)] that show ?thesis by blast
qed

lemma reconstruct_rdns_Ok:
  "parts_take k rdns = Some (ps, v) \<Longrightarrow> \<forall>p\<in>set ps. check_hierarchy_rdn p = Ok () \<Longrightarrow>
     \<exists>rs. reconstruct_rdns i k rdns = Ok rs"
proof (induction k arbitrary: rdns ps i)
  case (Suc k)
  then obtain p v1 qs where p: "parts_next rdns = Some (p, v1)" "parts_take k v1 = Some (qs, v)" "ps = p # qs"
    by (auto simp: parts_take_Suc simp del: parts_take.simps)
  from Suc.prems(2) p(3) obtain w as where "viewDNIdentityParts p = Ok w" "identity_avas (parts_count w) w = Ok as"
    by (metis check_hierarchy_rdn_read list.set_intros(1))
  moreover obtain rs where "reconstruct_rdns (i + 1) k v1 = Ok rs"
    using Suc.IH [OF p(2), of "i + 1"] Suc.prems(2) p(3) by auto
  ultimately show ?case using p by (simp add: Let_def)
qed simp

lemma validate_view_rdns_no_panic:
  "parts_take k rdns = Some (ps, v) \<Longrightarrow> validate_view_rdns cnt i k rdns \<noteq> Panic"
  using validate_view_rdns_spec [of k rdns ps v i cnt] by (auto split: go.splits)

lemma parseDN_no_panic [simp]: "parseDN L U v \<noteq> Panic"
proof -
  have "validate_rdn_types U i seen r \<noteq> Panic" for i seen r
    by (induction U i seen r rule: validate_rdn_types.induct) (auto simp: Let_def)
  then have "go_map (\<lambda>(i, rdn). validate_rdn_types U i [] rdn) xs \<noteq> Panic" for xs
    by (intro go_map_no_panic) auto
  then show ?thesis by (auto simp: parseDN_def validateUniqueDNAttributeTypes_def split: sum.splits)
qed

lemma validate_key_avas_no_panic: "validate_key_avas i j prev avas \<noteq> Panic"
  by (induction i j prev avas rule: validate_key_avas.induct) (auto simp: decodeDNIdentityParts_no_panic)

lemma validate_key_rdns_no_panic: "validate_key_rdns i p rdns \<noteq> Panic"
  by (induction i p rdns rule: validate_key_rdns.induct)
    (auto simp: decodeDNIdentityParts_no_panic validate_key_avas_no_panic)

lemma ParseDNWithIdentityKey_no_panic: "ParseDNWithIdentityKey L U v key \<noteq> Panic"
proof -
  have "reconstruct_rdns 0 k w \<noteq> Panic"
    if "viewDNIdentityParts pl = Ok w" "parts_count w = k" for pl w k
    by (metis viewDNIdentityParts_Ok [OF that(1)] that(2) reconstruct_rdns_no_panic)
  moreover have "ValidateIdentityKey L U d key \<noteq> Panic" if "ParseDN L U v = Ok d" for d
    using that by (auto simp: ValidateIdentityKey_def ParseDN_def Let_def decodeDNIdentityParts_no_panic
        validate_key_rdns_no_panic split: option.splits)
  ultimately show ?thesis
    by (auto simp: ParseDNWithIdentityKey_def ParseDN_def viewDNIdentityParts_no_panic split: option.splits)
qed

lemma validatedDNIdentityRDNs_no_panic: "validatedDNIdentityRDNs L U v key \<noteq> Panic"
proof -
  have "validate_view_rdns cnt 0 k w \<noteq> Panic"
    if "viewDNIdentityParts pl = Ok w" "parts_count w = k" for pl w cnt k
    by (metis viewDNIdentityParts_Ok [OF that(1)] that(2) validate_view_rdns_no_panic)
  then show ?thesis
    by (auto simp: validatedDNIdentityRDNs_def Let_def viewDNIdentityParts_no_panic
        ParseDNWithIdentityKey_no_panic split: option.splits)
qed

lemma dnIdentityRDNsInScope_no_panic:
  "viewDNIdentityParts pl = Ok w \<Longrightarrow> dnIdentityRDNsInScope base w scope \<noteq> Panic"
  by (metis view_scope go.distinct(3))

section \<open>Properties\<close>

text \<open>
  C31: deciding the scope of an identity key, without building the candidate, gives the answer of
  \<open>InScope\<close> on the two names, for every scope.
\<close>

theorem identity_key_scope:
  assumes "dn_schema base" "dn_schema candidate"
  shows "\<exists>b. IdentityKeyInScope base (Key candidate) scope = Ok b \<and> InScope L base candidate scope = Some b"
proof -
  have fits: "parts_fit (identityRDNs candidate)" using assms(2) by (simp add: dn_schema_def)
  have "IdentityKeyInScope base (Key candidate) scope
      = Ok (scope_holds scope (identityRDNs base) (identityRDNs candidate))"
    using assms parts_take_frames [of "identityRDNs candidate" "[]"] fits
      dnIdentityRDNsInScope_spec [where v = "\<lparr>data = concat (map frame (identityRDNs candidate)),
        parts_count = length (identityRDNs candidate)\<rparr>"]
    by (simp add: IdentityKeyInScope_def Key_def dn_schema_canonical viewDNIdentityParts_encode
        parts_fit_def) (simp add: dn_schema_def)
  with InScope_schema [OF assms, of L scope] show ?thesis by blast
qed

theorem identity_key_scope_witness:
  "IdentityKeyInScope (sample_name [''c'']) (Key (sample_name [''b'', ''c''])) ScopeSingleLevel = Ok True"
proof -
  have s: "dn_schema (sample_name [''c''])" "dn_schema (sample_name [''b'', ''c''])"
    by (simp_all add: sample_name_schema parts_fit_def)
  from identity_key_scope [OF s, of ScopeSingleLevel sample_lib] show ?thesis
    by (auto simp: InScope_schema [OF s] scope_holds_def)
qed

text \<open>
  validating a key and deciding its scope at once returns what the two calls in sequence
  return, on every input: the same validation error, the same deferred scope error, the same answer.
\<close>

theorem validate_in_scope_is_composition:
  "ValidateDNIdentityInScope L U v key base scope =
     go_bind (ValidateDNWithIdentityKey L U v key) (\<lambda>_. scope_pair (IdentityKeyInScope base key scope))"
proof (cases "HasPrefix key schemaAwareDNKeyPrefix")
  case True
  show ?thesis
  proof (cases "validatedDNIdentityRDNs L U v key")
    case (Ok rdns)
    with True validated_view [OF Ok] show ?thesis
      by (auto simp: ValidateDNIdentityInScope_def ValidateDNWithIdentityKey_def IdentityKeyInScope_def)
  qed (auto simp: True ValidateDNIdentityInScope_def ValidateDNWithIdentityKey_def)
qed (simp add: ValidateDNIdentityInScope_def)

text \<open>
  C22: the version on byte slices, with its fused loop that never builds anything, returns what
  the version on strings returns, on every input.
\<close>

theorem validate_in_scope_bytes_agrees:
  "ValidateDNIdentityInScopeBytes L U v key base scope = ValidateDNIdentityInScope L U v key base scope"
  using fast_path_Ok [of v key base scope _ L U] fast_path_no_panic [of v key base scope]
  by (auto simp: ValidateDNIdentityInScopeBytes_def split: go.splits)

text \<open>
  the check of one encoded RDN, with its shortcut for one-byte lengths, accepts exactly the
  encodings in which the general reader finds one AVA with a nonempty type.
\<close>

theorem single_ava_check_exact: "validSingleAVADNIdentityRDN enc = reads_single_ava enc"
  by (rule validSingleAVADNIdentityRDN_iff)

text \<open>
  validating a name against a key reports the error that rebuilding the name reports, and
  none exactly when rebuilding succeeds, given what is documented of the parser on simple names.
\<close>

theorem validate_key_same_error:
  assumes "parses_simple_names L"
  shows "ValidateDNWithIdentityKey L U v key = go_error (ParseDNWithIdentityKey L U v key)"
  using validated_error [OF assms] by (simp add: ValidateDNWithIdentityKey_def)

theorem validate_key_same_error_witness:
  "parses_simple_names sample_lib \<and>
   ValidateDNWithIdentityKey sample_lib sample_unicode ''cn=a'' ''dn:v2:AA''
     = go_error (ParseDNWithIdentityKey sample_lib sample_unicode ''cn=a'' ''dn:v2:AA'')"
  using sample_lib_parses validate_key_same_error [OF sample_lib_parses] by blast

text \<open>
  rebuilding a name from its display text and the key of a schema-aware name gives a
  schema-aware name with the same key and the same identity RDNs.
\<close>

theorem key_reconstruction:
  assumes "dn_schema d" "DNHierarchyPath (Key d) = Ok path"
    and "parseDN L U v = Ok p" "Depth d = Some (length p)"
  shows "\<exists>e. ParseDNWithIdentityKey L U v (Key d) = Ok e \<and> Key e = Key d \<and>
    identityRDNs e = identityRDNs d \<and> dn_schema e"
proof -
  let ?ids = "identityRDNs d"
  let ?v = "\<lparr>data = concat (map frame ?ids), parts_count = length ?ids\<rparr>"
  have fits: "parts_fit ?ids" and key: "Key d = encodeDNIdentity ?ids"
    using assms(1) by (auto simp: dn_schema_def Key_def dn_schema_canonical [OF assms(1)])
  have view: "viewDNIdentityParts (encodeDNIdentityParts ?ids) = Ok ?v"
    using fits by (rule viewDNIdentityParts_encode)
  have take: "parts_take (length ?ids) ?v = Some (?ids, \<lparr>data = [], parts_count = length ?ids\<rparr>)"
    using parts_take_frames [of ?ids "[]"] fits by (simp add: parts_fit_def)
  have "\<forall>r\<in>set ?ids. check_hierarchy_rdn r = Ok ()"
    using DNHierarchyPath_Ok(4) [OF assms(2)] fits unfolding key by simp
  from reconstruct_rdns_Ok [OF take this] obtain rs where rs: "reconstruct_rdns 0 (length ?ids) ?v = Ok rs"
    by blast
  have len: "length p = length ?ids" using assms(1,4) by (simp add: dn_schema_depth)
  have ids: "map k_identity rs = ?ids" using reconstruct_rdns_identities [OF take rs] .
  then have "length rs = length ?ids" by (metis length_map)
  with rs view len ids assms(1,3) fits show ?thesis
    by (auto simp: ParseDNWithIdentityKey_def key Key_def dn_schema_def dn_wf_def shape_simps
        hasSchemaAwareIdentity_def)
qed

theorem key_reconstruction_witness:
  "\<exists>e. ParseDNWithIdentityKey sample_lib sample_unicode ''cn=a''
       (Key (sample_name [single_ava_rdn ''cn'' ''a''])) = Ok e \<and>
     identityRDNs e = [single_ava_rdn ''cn'' ''a'']"
proof -
  let ?ids = "[single_ava_rdn ''cn'' ''a'']"
  have fits: "parts_fit ?ids"
    by (simp add: parts_fit_def single_ava_rdn_def encodeDNIdentityParts_eq frame_def uvarint_last)
  have schema: "dn_schema (sample_name ?ids)" using fits by (rule sample_name_schema)
  have "check_hierarchy_rdn (single_ava_rdn ''cn'' ''a'') = Ok ()"
    by (rule check_single_ava_rdn) simp_all
  with DNHierarchyPath_encode [of ?ids] fits obtain path where
    path: "DNHierarchyPath (Key (sample_name ?ids)) = Ok path" by (auto simp: Key_def sample_name_def)
  have "simple_rdn_ok (''cn'', ''a'')" by code_simp
  then have "simpleDNDepth ''cn=a'' = (1, True)"
    unfolding simpleDNDepth_simple_dn simple_dn_one
    by (intro exI [of _ "(''cn'', ''a'')"]) (simp add: simple_rdn_text_def)
  from simple_names_parse [OF sample_lib_parses this, of sample_unicode] obtain p where
    "parseDN sample_lib sample_unicode ''cn=a'' = Ok p" "length p = 1" by blast
  from key_reconstruction [OF schema path this(1)] this(2) schema show ?thesis
    by (auto simp: dn_schema_depth)
qed

text \<open>reading, validating and scoping stored keys never panics, whatever the bytes are.\<close>

theorem key_operations_no_panic:
  "ParseDNWithIdentityKey L U v key \<noteq> Panic \<and> ValidateDNWithIdentityKey L U v key \<noteq> Panic \<and>
   ValidateDNIdentityInScopeBytes L U v key base scope \<noteq> Panic"
proof -
  have V: "ValidateDNWithIdentityKey L U v key \<noteq> Panic"
    using ParseDNWithIdentityKey_no_panic [of L U v key] validatedDNIdentityRDNs_no_panic [of L U v key]
    by (auto simp: ValidateDNWithIdentityKey_def elim!: go_error.elims)
  have I: "IdentityKeyInScope base key scope \<noteq> Panic"
    by (auto simp: IdentityKeyInScope_def viewDNIdentityParts_no_panic dnIdentityRDNsInScope_no_panic
        split: option.splits)
  have S: "ValidateDNIdentityInScope L U v key base scope \<noteq> Panic"
    using V I validatedDNIdentityRDNs_no_panic [of L U v key] validated_view [of L U v key]
      dnIdentityRDNsInScope_no_panic
    by (auto simp: ValidateDNIdentityInScope_def)
  with V ParseDNWithIdentityKey_no_panic [of L U v key] fast_path_Ok [of v key base scope _ L U]
    fast_path_no_panic [of v key base scope]
  show ?thesis by (auto simp: ValidateDNIdentityInScopeBytes_def split: go.splits)
qed

end
