(* ===== verification/Directory_Entry.thy ===== *)
theory Directory_Entry
  imports Distinguished_Name
begin

text \<open>
  Entries and their attributes (\<open>internal/directory/entry.go\<close>, \<open>entry_normalization.go\<close>, and the
  value comparison of \<open>filter.go\<close>). An entry is a value; the methods with a pointer receiver
  return the entry they leave behind, and leave it unchanged when they return an error. Copies
  of values (\<open>cloneValues\<close>) are identities on the model's immutable lists.
\<close>

section \<open>Comparing values\<close>

definition normalizeDirectoryValue :: "unicode \<Rightarrow> bytes \<Rightarrow> bytes" where
  "normalizeDirectoryValue U v = ToLower U (Join (FieldsFunc_space v) '' '')"

text \<open>\<open>bytes.Compare\<close>.\<close>

definition bytes_Compare :: "bytes \<Rightarrow> bytes \<Rightarrow> int" where
  "bytes_Compare a b = (if a < b then -1 else if a = b then 0 else 1)"

definition compareDirectoryValue :: "unicode \<Rightarrow> bytes \<Rightarrow> bytes \<Rightarrow> int" where
  "compareDirectoryValue U left right =
     bytes_Compare (normalizeDirectoryValue U left) (normalizeDirectoryValue U right)"

definition EqualValue :: "unicode \<Rightarrow> bytes \<Rightarrow> bytes \<Rightarrow> bool" where
  "EqualValue U left right \<longleftrightarrow> compareDirectoryValue U left right = 0"

definition equalAttributeDescription :: "unicode \<Rightarrow> bytes \<Rightarrow> bytes \<Rightarrow> bool" where
  "equalAttributeDescription U left right \<longleftrightarrow> EqualFold U (TrimSpace left) (TrimSpace right)"

section \<open>Entries\<close>

record Attribute =
  Description :: bytes
  Values :: "bytes list"
  RawNormalized :: bool

record Entry =
  e_DN :: bytes
  Attributes :: "Attribute list"
  dnIdentity :: bytes
  normalizedDN :: "DN option"
  dnOrderKey :: bytes

datatype entry_error = ErrNoSuchAttribute | ErrAttributeValueExists | ErrInvalidIncrementValue

definition cloneValues :: "bytes list \<Rightarrow> bytes list" where
  "cloneValues vs = map id vs"

definition Clone :: "Entry \<Rightarrow> Entry" where
  "Clone e = \<lparr>e_DN = e_DN e,
     Attributes = map (\<lambda>a. \<lparr>Description = Description a, Values = cloneValues (Values a),
       RawNormalized = RawNormalized a\<rparr>) (Attributes e),
     dnIdentity = dnIdentity e, normalizedDN = normalizedDN e, dnOrderKey = dnOrderKey e\<rparr>"

section \<open>Hints\<close>

definition WithDNIdentity :: "Entry \<Rightarrow> DN \<Rightarrow> Entry" where
  "WithDNIdentity e dn = e\<lparr>dnIdentity := Key dn, normalizedDN := Some dn\<rparr>"

definition WithDNIdentityKey :: "Entry \<Rightarrow> bytes \<Rightarrow> Entry" where
  "WithDNIdentityKey e key = e\<lparr>dnIdentity := key, normalizedDN := None, dnOrderKey := []\<rparr>"

definition DNIdentity :: "Entry \<Rightarrow> bytes \<times> bool" where
  "DNIdentity e = (dnIdentity e, dnIdentity e \<noteq> [])"

definition WithNormalizedDNHint :: "Entry \<Rightarrow> DN \<Rightarrow> bytes \<Rightarrow> Entry" where
  "WithNormalizedDNHint e dn orderKey =
     e\<lparr>dnIdentity := Key dn, normalizedDN := Some dn, dnOrderKey := orderKey\<rparr>"

definition NormalizedDNHint :: "Entry \<Rightarrow> DN \<times> bool" where
  "NormalizedDNHint e = (case normalizedDN e of None \<Rightarrow> (zero_DN, False) | Some dn \<Rightarrow> (dn, True))"

definition DNOrderKeyHint :: "Entry \<Rightarrow> bytes \<times> bool" where
  "DNOrderKeyHint e = (dnOrderKey e, dnOrderKey e \<noteq> [])"

definition WithoutDNIdentity :: "Entry \<Rightarrow> Entry" where
  "WithoutDNIdentity e = e\<lparr>dnIdentity := []\<rparr>"

section \<open>Reading\<close>

fun attribute_index_from :: "unicode \<Rightarrow> Attribute list \<Rightarrow> bytes \<Rightarrow> nat \<Rightarrow> nat option" where
  "attribute_index_from U [] description i = None"
| "attribute_index_from U (a # as) description i =
     (if equalAttributeDescription U (Description a) description then Some i
      else attribute_index_from U as description (i + 1))"

definition attributeIndex :: "unicode \<Rightarrow> Entry \<Rightarrow> bytes \<Rightarrow> nat option" where
  "attributeIndex U e description = attribute_index_from U (Attributes e) description 0"

definition entry_Values :: "unicode \<Rightarrow> Entry \<Rightarrow> bytes \<Rightarrow> bytes list" where
  "entry_Values U e description =
     (case find (\<lambda>a. equalAttributeDescription U (Description a) description) (Attributes e) of
        None \<Rightarrow> [] | Some a \<Rightarrow> cloneValues (Values a))"

definition HasAttribute :: "unicode \<Rightarrow> Entry \<Rightarrow> bytes \<Rightarrow> bool" where
  "HasAttribute U e description \<longleftrightarrow>
     list_ex (\<lambda>a. equalAttributeDescription U (Description a) description) (Attributes e)"

definition HasValue :: "unicode \<Rightarrow> Entry \<Rightarrow> bytes \<Rightarrow> bytes \<Rightarrow> bool" where
  "HasValue U e description v \<longleftrightarrow> list_ex (\<lambda>existing. EqualValue U existing v) (entry_Values U e description)"

definition entry_Equal :: "Entry \<Rightarrow> Entry \<Rightarrow> bool" where
  "entry_Equal e other \<longleftrightarrow> e_DN e = e_DN other \<and>
     list_all2 (\<lambda>a b. Description a = Description b \<and> list_all2 (=) (Values a) (Values b))
       (Attributes e) (Attributes other)"

section \<open>Selecting attributes\<close>

definition bare_entry :: "bytes \<Rightarrow> Attribute list \<Rightarrow> Entry" where
  "bare_entry name as = \<lparr>e_DN = name, Attributes = as, dnIdentity = [], normalizedDN = None, dnOrderKey = []\<rparr>"

definition selectsNoAttributes :: "bytes list \<Rightarrow> bool" where
  "selectsNoAttributes requested \<longleftrightarrow> length requested = 1 \<and> requested ! 0 = ''1.1''"

definition SelectWithMatcher ::
  "unicode \<Rightarrow> Entry \<Rightarrow> bytes list \<Rightarrow> bool \<Rightarrow> (bytes \<Rightarrow> bool) option \<Rightarrow>
   (bytes \<Rightarrow> bytes \<Rightarrow> bool) option \<Rightarrow> Entry" where
  "SelectWithMatcher U e requested typesOnly isOperational isDescriptionSubtype =
     (if selectsNoAttributes requested then bare_entry (e_DN e) []
      else
        let allUserAttributes = (requested = [] \<or> list_ex (\<lambda>v. EqualFold U v ''*'') requested);
            allOperationalAttributes = list_ex (\<lambda>v. EqualFold U v ''+'') requested;
            keep = (\<lambda>attribute.
              let explicitlyRequested = list_ex (\<lambda>v. case isDescriptionSubtype of
                      Some subtype \<Rightarrow> subtype (Description attribute) v
                    | None \<Rightarrow> equalAttributeDescription U v (Description attribute)) requested;
                  operational = (case isOperational of None \<Rightarrow> False | Some f \<Rightarrow> f (Description attribute))
              in \<not> (\<not> explicitlyRequested \<and> (\<not> operational \<or> \<not> allOperationalAttributes)
                   \<and> (operational \<or> \<not> allUserAttributes)))
        in bare_entry (e_DN e) (map (\<lambda>a. \<lparr>Description = Description a,
             Values = (if typesOnly then [] else cloneValues (Values a)), RawNormalized = False\<rparr>)
             (filter keep (Attributes e))))"

definition SelectWith ::
  "unicode \<Rightarrow> Entry \<Rightarrow> bytes list \<Rightarrow> bool \<Rightarrow> (bytes \<Rightarrow> bool) option \<Rightarrow> Entry" where
  "SelectWith U e requested typesOnly isOperational =
     SelectWithMatcher U e requested typesOnly isOperational None"

definition Select :: "unicode \<Rightarrow> Entry \<Rightarrow> bytes list \<Rightarrow> bool \<Rightarrow> Entry" where
  "Select U e requested typesOnly = SelectWith U e requested typesOnly None"

definition Without :: "unicode \<Rightarrow> Entry \<Rightarrow> bytes list \<Rightarrow> Entry" where
  "Without U e descriptions =
     bare_entry (e_DN e) (map (\<lambda>a. \<lparr>Description = Description a, Values = cloneValues (Values a),
         RawNormalized = False\<rparr>)
       (filter (\<lambda>a. \<not> list_ex (equalAttributeDescription U (Description a)) descriptions) (Attributes e)))"

section \<open>Changing values\<close>

definition new_attribute :: "bytes \<Rightarrow> bytes list \<Rightarrow> Attribute" where
  "new_attribute description vs = \<lparr>Description = description, Values = cloneValues vs, RawNormalized = False\<rparr>"

definition AddValues :: "unicode \<Rightarrow> Entry \<Rightarrow> bytes \<Rightarrow> bytes list \<Rightarrow> (entry_error, Entry) go" where
  "AddValues U e description vs =
     (if vs = [] then Err ErrNoSuchAttribute
      else case attributeIndex U e description of
        None \<Rightarrow> Ok (e\<lparr>Attributes := Attributes e @ [new_attribute description vs]\<rparr>)
      | Some index \<Rightarrow>
          if list_ex (HasValue U e description) vs then Err ErrAttributeValueExists
          else let a = Attributes e ! index in
            Ok (e\<lparr>Attributes := (Attributes e)[index := a\<lparr>Values := Values a @ cloneValues vs\<rparr>]\<rparr>))"

definition DeleteValues :: "unicode \<Rightarrow> Entry \<Rightarrow> bytes \<Rightarrow> bytes list \<Rightarrow> (entry_error, Entry) go" where
  "DeleteValues U e description vs =
     (case attributeIndex U e description of
        None \<Rightarrow> Err ErrNoSuchAttribute
      | Some index \<Rightarrow>
          if vs = [] then Ok (e\<lparr>Attributes := remove_at index (Attributes e)\<rparr>)
          else if list_ex (\<lambda>v. \<not> HasValue U e description v) vs then Err ErrNoSuchAttribute
          else
            let a = Attributes e ! index;
                remaining = filter (\<lambda>existing. \<not> list_ex (EqualValue U existing) vs) (Values a) in
            if remaining = [] then Ok (e\<lparr>Attributes := remove_at index (Attributes e)\<rparr>)
            else Ok (e\<lparr>Attributes := (Attributes e)[index := a\<lparr>Values := remaining\<rparr>]\<rparr>))"

definition ReplaceValues :: "unicode \<Rightarrow> Entry \<Rightarrow> bytes \<Rightarrow> bytes list \<Rightarrow> Entry" where
  "ReplaceValues U e description vs =
     (let index = attributeIndex U e description in
      if vs = [] then
        (case index of Some i \<Rightarrow> e\<lparr>Attributes := remove_at i (Attributes e)\<rparr> | None \<Rightarrow> e)
      else case index of
        None \<Rightarrow> e\<lparr>Attributes := Attributes e @ [new_attribute description vs]\<rparr>
      | Some i \<Rightarrow> e\<lparr>Attributes := (Attributes e)[i :=
            (Attributes e ! i)\<lparr>Values := cloneValues vs, RawNormalized := False\<rparr>]\<rparr>)"

definition ReplaceRawNormalizedValues :: "unicode \<Rightarrow> Entry \<Rightarrow> bytes \<Rightarrow> bytes list \<Rightarrow> Entry" where
  "ReplaceRawNormalizedValues U e description vs =
     (let e' = ReplaceValues U e description vs in
      case attributeIndex U e' description of
        None \<Rightarrow> e'
      | Some i \<Rightarrow> e'\<lparr>Attributes := (Attributes e')[i := (Attributes e' ! i)\<lparr>RawNormalized := True\<rparr>]\<rparr>)"

text \<open>Machine addition wraps around; the two comparisons detect it.\<close>

definition addInt64 :: "64 word \<Rightarrow> 64 word \<Rightarrow> (entry_error, 64 word) go" where
  "addInt64 left right =
     (let result = left + right in
      if 0 <s right \<and> result <s left \<or> right <s 0 \<and> left <s result
      then Err ErrInvalidIncrementValue else Ok result)"

definition Increment :: "unicode \<Rightarrow> Entry \<Rightarrow> bytes \<Rightarrow> bytes \<Rightarrow> (entry_error, Entry) go" where
  "Increment U e description increment =
     (case attributeIndex U e description of
        None \<Rightarrow> Err ErrNoSuchAttribute
      | Some index \<Rightarrow>
          let a = Attributes e ! index in
          if length (Values a) \<noteq> 1 then Err ErrNoSuchAttribute
          else case ParseInt increment of None \<Rightarrow> Err ErrInvalidIncrementValue
            | Some delta \<Rightarrow> (case ParseInt (Values a ! 0) of None \<Rightarrow> Err ErrInvalidIncrementValue
              | Some current \<Rightarrow>
                  go_bind (addInt64 (word_of_int current) (word_of_int delta)) (\<lambda>next.
                    Ok (e\<lparr>Attributes := (Attributes e)[index :=
                      a\<lparr>Values := [FormatInt (sint next)]\<rparr>]\<rparr>))))"

section \<open>Values of the RDN\<close>

fun ensure_rdn_values :: "unicode \<Rightarrow> (bytes \<times> bytes) list \<Rightarrow> Entry \<Rightarrow> Entry" where
  "ensure_rdn_values U [] e = e"
| "ensure_rdn_values U ((t, v) # rest) e =
     ensure_rdn_values U rest
       (if \<not> HasValue U e t v then (case AddValues U e t [v] of Ok e' \<Rightarrow> e' | _ \<Rightarrow> e) else e)"

definition EnsureRDNValues :: "unicode \<Rightarrow> Entry \<Rightarrow> DN \<Rightarrow> Entry option" where
  "EnsureRDNValues U e dn = map_option (\<lambda>vs. ensure_rdn_values U vs e) (RDNValues dn)"

fun delete_rdn_values :: "unicode \<Rightarrow> (bytes \<times> bytes) list \<Rightarrow> Entry \<Rightarrow> Entry" where
  "delete_rdn_values U [] e = e"
| "delete_rdn_values U ((t, v) # rest) e =
     delete_rdn_values U rest
       (if HasValue U e t v then (case DeleteValues U e t [v] of Ok e' \<Rightarrow> e' | _ \<Rightarrow> e) else e)"

definition DeleteRDNValues :: "unicode \<Rightarrow> Entry \<Rightarrow> DN \<Rightarrow> Entry option" where
  "DeleteRDNValues U e dn = map_option (\<lambda>vs. delete_rdn_values U vs e) (RDNValues dn)"

section \<open>Equivalences of descriptions and values\<close>

definition distinct_by :: "('a \<Rightarrow> 'a \<Rightarrow> bool) \<Rightarrow> 'a list \<Rightarrow> bool" where
  "distinct_by same xs = sorted_wrt (\<lambda>x y. \<not> same x y) xs"

lemma distinct_by_Cons: "distinct_by same (x # xs) \<longleftrightarrow> (\<forall>y\<in>set xs. \<not> same x y) \<and> distinct_by same xs"
  and distinct_by_Nil [simp]: "distinct_by same []"
  and distinct_by_append: "distinct_by same (xs @ ys) \<longleftrightarrow>
    distinct_by same xs \<and> distinct_by same ys \<and> (\<forall>x\<in>set xs. \<forall>y\<in>set ys. \<not> same x y)"
  by (auto simp: distinct_by_def sorted_wrt_append)

lemma distinct_by_nth:
  "distinct_by same xs \<longleftrightarrow> (\<forall>i j. i < j \<longrightarrow> j < length xs \<longrightarrow> \<not> same (xs ! i) (xs ! j))"
  by (simp add: distinct_by_def sorted_wrt_iff_nth_less)

lemma distinct_by_filter: "distinct_by same xs \<Longrightarrow> distinct_by same (filter P xs)"
  by (simp add: distinct_by_def sorted_wrt_filter)

lemma distinct_by_remove_at: "distinct_by same xs \<Longrightarrow> distinct_by same (remove_at i xs)"
proof (cases "i < length xs")
  case True
  assume "distinct_by same xs"
  then have "distinct_by same (take i xs @ xs ! i # drop (Suc i) xs)"
    using True by (simp add: id_take_nth_drop [symmetric])
  then show ?thesis by (auto simp: remove_at_def distinct_by_append distinct_by_Cons)
qed (simp add: remove_at_def)

lemma EqualValue_iff: "EqualValue U a b \<longleftrightarrow> normalizeDirectoryValue U a = normalizeDirectoryValue U b"
  by (simp add: EqualValue_def compareDirectoryValue_def bytes_Compare_def)

lemma EqualValue_refl [simp]: "EqualValue U a a"
  and EqualValue_sym: "EqualValue U a b \<Longrightarrow> EqualValue U b a"
  by (simp_all add: EqualValue_iff)

lemma same_description_refl [simp]: "equalAttributeDescription U d d"
  and same_description_sym: "equalAttributeDescription U c d \<Longrightarrow> equalAttributeDescription U d c"
  and same_description_trans: "equalAttributeDescription U c d \<Longrightarrow> equalAttributeDescription U d f \<Longrightarrow>
    equalAttributeDescription U c f"
  by (auto simp: equalAttributeDescription_def intro: EqualFold_sym EqualFold_trans)

lemma same_description_cong:
  assumes "equalAttributeDescription U c d"
  shows "equalAttributeDescription U x c \<longleftrightarrow> equalAttributeDescription U x d"
    "equalAttributeDescription U c x \<longleftrightarrow> equalAttributeDescription U d x"
  using assms by (meson same_description_sym same_description_trans)+

section \<open>The invariant of entries\<close>

text \<open>
  No two attributes have the same description, every attribute has a value, and the values of
  an attribute are pairwise different.
\<close>

definition values_ok :: "unicode \<Rightarrow> bytes list \<Rightarrow> bool" where
  "values_ok U vs \<longleftrightarrow> vs \<noteq> [] \<and> distinct_by (EqualValue U) vs"

definition entry_wf :: "unicode \<Rightarrow> Entry \<Rightarrow> bool" where
  "entry_wf U e \<longleftrightarrow> distinct_by (equalAttributeDescription U) (map Description (Attributes e)) \<and>
     list_all (\<lambda>a. values_ok U (Values a)) (Attributes e)"

section \<open>Finding an attribute\<close>

lemma cloneValues_id [simp]: "cloneValues vs = vs"
  by (simp add: cloneValues_def)

lemma attribute_index_from_Some:
  "attribute_index_from U as d i = Some k \<longleftrightarrow> (\<exists>j<length as. k = i + j \<and>
     equalAttributeDescription U (Description (as ! j)) d \<and>
     (\<forall>m<j. \<not> equalAttributeDescription U (Description (as ! m)) d))"
proof (induction as arbitrary: i)
  case (Cons a as)
  show ?case
  proof (cases "equalAttributeDescription U (Description a) d")
    case True
    have "j = 0" if "\<forall>m<j. \<not> equalAttributeDescription U (Description ((a # as) ! m)) d" for j
      using that True by (cases j) auto
    with True show ?thesis by (auto intro: exI [of _ 0])
  next
    case False
    then show ?thesis
      using Cons [of "i + 1"] by (auto simp: Ex_less_Suc2 All_less_Suc2)
  qed
qed simp

lemma attribute_index_from_None:
  "attribute_index_from U as d i = None \<longleftrightarrow> (\<forall>a\<in>set as. \<not> equalAttributeDescription U (Description a) d)"
  by (induction as arbitrary: i) auto

lemma attributeIndex_Some:
  "attributeIndex U e d = Some i \<longleftrightarrow> i < length (Attributes e) \<and>
     equalAttributeDescription U (Description (Attributes e ! i)) d \<and>
     (\<forall>m<i. \<not> equalAttributeDescription U (Description (Attributes e ! m)) d)"
  by (auto simp: attributeIndex_def attribute_index_from_Some)

lemma attributeIndex_None:
  "attributeIndex U e d = None \<longleftrightarrow>
     (\<forall>a\<in>set (Attributes e). \<not> equalAttributeDescription U (Description a) d)"
  by (simp add: attributeIndex_def attribute_index_from_None)

lemma HasAttribute_index: "HasAttribute U e d \<longleftrightarrow> attributeIndex U e d \<noteq> None"
  by (auto simp: HasAttribute_def list_ex_iff attributeIndex_None)

lemma entry_Values_index:
  "entry_Values U e d = (case attributeIndex U e d of None \<Rightarrow> [] | Some i \<Rightarrow> Values (Attributes e ! i))"
proof (cases "attributeIndex U e d")
  case None
  then have "find (\<lambda>a. equalAttributeDescription U (Description a) d) (Attributes e) = None"
    by (simp add: attributeIndex_None find_None_iff)
  with None show ?thesis by (simp add: entry_Values_def)
next
  case (Some i)
  then have "find (\<lambda>a. equalAttributeDescription U (Description a) d) (Attributes e) = Some (Attributes e ! i)"
    unfolding find_Some_iff by (auto simp: attributeIndex_Some)
  with Some show ?thesis by (simp add: entry_Values_def)
qed

lemma attributeIndex_cong:
  "equalAttributeDescription U c d \<Longrightarrow> attributeIndex U e c = attributeIndex U e d"
proof -
  assume "equalAttributeDescription U c d"
  from same_description_cong(1) [OF this]
  have "attribute_index_from U as c i = attribute_index_from U as d i" for as i
    by (induction as arbitrary: i) auto
  then show ?thesis by (simp add: attributeIndex_def)
qed

lemma attributeIndex_update:
  assumes "Description b = Description (Attributes e ! i)"
  shows "attributeIndex U (e\<lparr>Attributes := (Attributes e)[i := b]\<rparr>) d = attributeIndex U e d"
proof -
  have "attribute_index_from U (as[i := b]) d k = attribute_index_from U as d k"
    if "Description b = Description (as ! i)" for as i k
    using that by (induction as arbitrary: i k) (auto simp: nth_Cons split: nat.splits)
  with assms show ?thesis by (simp add: attributeIndex_def)
qed

lemma attributeIndex_append:
  "attributeIndex U (e\<lparr>Attributes := Attributes e @ [b]\<rparr>) d =
     (case attributeIndex U e d of Some i \<Rightarrow> Some i
      | None \<Rightarrow> if equalAttributeDescription U (Description b) d then Some (length (Attributes e)) else None)"
proof -
  have "attribute_index_from U (as @ [b]) d k = (case attribute_index_from U as d k of Some i \<Rightarrow> Some i
      | None \<Rightarrow> if equalAttributeDescription U (Description b) d then Some (k + length as) else None)" for as k
    by (induction as arbitrary: k) (auto split: option.split)
  then show ?thesis by (auto simp: attributeIndex_def split: option.split)
qed

lemma entry_Values_cong:
  "equalAttributeDescription U c d \<Longrightarrow> entry_Values U e c = entry_Values U e d"
  by (simp add: entry_Values_index attributeIndex_cong)

lemma index_other:
  assumes "attributeIndex U e d = Some i" "attributeIndex U e c = Some j"
  shows "j = i \<longleftrightarrow> equalAttributeDescription U c d"
proof
  assume "j = i"
  with assms have "equalAttributeDescription U (Description (Attributes e ! i)) d"
    "equalAttributeDescription U (Description (Attributes e ! i)) c"
    by (auto simp: attributeIndex_Some)
  then show "equalAttributeDescription U c d" by (meson same_description_sym same_description_trans)
next
  assume "equalAttributeDescription U c d"
  with assms attributeIndex_cong show "j = i" by fastforce
qed

text \<open>Replacing the values at the index of an attribute, and adding an attribute.\<close>

lemma entry_Values_update:
  assumes "attributeIndex U e d = Some i" "Description b = Description (Attributes e ! i)"
  shows "entry_Values U (e\<lparr>Attributes := (Attributes e)[i := b]\<rparr>) c =
    (if equalAttributeDescription U c d then Values b else entry_Values U e c)"
proof (cases "attributeIndex U e c")
  case None
  with assms attributeIndex_cong [of U c d e] show ?thesis
    by (auto simp: entry_Values_index attributeIndex_update)
next
  case (Some j)
  have "i < length (Attributes e)" using assms(1) by (simp add: attributeIndex_Some)
  with Some index_other [OF assms(1) Some] assms show ?thesis
    by (auto simp: entry_Values_index attributeIndex_update)
qed

lemma entry_Values_append:
  assumes "attributeIndex U e (Description b) = None"
  shows "entry_Values U (e\<lparr>Attributes := Attributes e @ [b]\<rparr>) c =
    (if equalAttributeDescription U c (Description b) then Values b else entry_Values U e c)"
proof (cases "attributeIndex U e c")
  case None
  then show ?thesis
    using same_description_sym by (auto simp: entry_Values_index attributeIndex_append)
next
  case (Some j)
  then have "j < length (Attributes e)" by (simp add: attributeIndex_Some)
  with Some assms attributeIndex_cong [of U c "Description b" e] show ?thesis
    by (auto simp: entry_Values_index attributeIndex_append nth_append)
qed

lemma entry_Values_remove:
  assumes "distinct_by (equalAttributeDescription U) (map Description (Attributes e))"
    and "attributeIndex U e d = Some i"
  shows "entry_Values U (e\<lparr>Attributes := remove_at i (Attributes e)\<rparr>) c =
    (if equalAttributeDescription U c d then [] else entry_Values U e c)"
proof -
  let ?same = "\<lambda>c a. equalAttributeDescription U (Description a) c"
  let ?as = "Attributes e"
  have i: "i < length ?as" "?same d (?as ! i)" using assms(2) by (auto simp: attributeIndex_Some)
  have split: "?as = take i ?as @ ?as ! i # drop (Suc i) ?as" using i by (simp add: id_take_nth_drop)
  have dist: "(\<forall>a\<in>set (take i ?as). \<not> equalAttributeDescription U (Description a) (Description (?as ! i)))"
    "(\<forall>a\<in>set (drop (Suc i) ?as). \<not> equalAttributeDescription U (Description (?as ! i)) (Description a))"
    using assms(1) by (subst (asm) split, auto simp: distinct_by_append distinct_by_Cons)+
  have "\<not> ?same d a" if "a \<in> set (take i ?as) \<union> set (drop (Suc i) ?as)" for a
    using that dist i(2) by (metis UnE same_description_sym same_description_trans)
  then have gone: "find (?same c) (take i ?as @ drop (Suc i) ?as) = None" if "equalAttributeDescription U c d"
    using that by (auto simp: find_None_iff same_description_cong(1) [OF that])
  have kept: "find (?same c) (take i ?as @ drop (Suc i) ?as) = find (?same c) ?as"
    if "\<not> equalAttributeDescription U c d"
  proof -
    have "\<not> ?same c (?as ! i)" using that i(2) by (meson same_description_sym same_description_trans)
    then have "find (?same c) (xs @ ?as ! i # ys) = find (?same c) (xs @ ys)" for xs ys
      by (induction xs) auto
    then have "find (?same c) (take i ?as @ ?as ! i # drop (Suc i) ?as)
        = find (?same c) (take i ?as @ drop (Suc i) ?as)"
      by this
    with split show ?thesis by simp
  qed
  show ?thesis using gone kept by (auto simp: entry_Values_def remove_at_def)
qed

section \<open>Operations on one attribute\<close>

lemma entry_wf_update:
  assumes "entry_wf U e" "i < length (Attributes e)" "Description b = Description (Attributes e ! i)"
    "values_ok U (Values b)"
  shows "entry_wf U (e\<lparr>Attributes := (Attributes e)[i := b]\<rparr>)"
proof -
  have "map Description ((Attributes e)[i := b]) = map Description (Attributes e)"
    using assms(2,3) by (metis list_update_id map_update nth_map)
  with assms show ?thesis
    by (auto simp: entry_wf_def list_all_iff dest!: set_update_subset_insert [THEN subsetD])
qed

lemma entry_wf_remove:
  "entry_wf U e \<Longrightarrow> entry_wf U (e\<lparr>Attributes := remove_at i (Attributes e)\<rparr>)"
proof -
  have "map Description (remove_at i (Attributes e)) = remove_at i (map Description (Attributes e))"
    by (simp add: remove_at_def take_map drop_map)
  moreover have "set (remove_at i (Attributes e)) \<subseteq> set (Attributes e)"
    by (auto simp: remove_at_def dest: in_set_takeD in_set_dropD)
  ultimately show "entry_wf U e \<Longrightarrow> ?thesis"
    by (auto simp: entry_wf_def list_all_iff intro: distinct_by_remove_at)
qed

lemma entry_wf_append:
  "entry_wf U e \<Longrightarrow> attributeIndex U e (Description b) = None \<Longrightarrow> values_ok U (Values b) \<Longrightarrow>
     entry_wf U (e\<lparr>Attributes := Attributes e @ [b]\<rparr>)"
  by (auto simp: entry_wf_def attributeIndex_None distinct_by_append distinct_by_Cons)

lemma entry_wf_values:
  "entry_wf U e \<Longrightarrow> attributeIndex U e d = Some i \<Longrightarrow> values_ok U (Values (Attributes e ! i))"
  by (auto simp: entry_wf_def list_all_iff attributeIndex_Some)

lemma attributeIndex_less: "attributeIndex U e d = Some i \<Longrightarrow> i < length (Attributes e)"
  by (simp add: attributeIndex_Some)

lemma HasValue_iff: "HasValue U e d v \<longleftrightarrow> (\<exists>w\<in>set (entry_Values U e d). EqualValue U w v)"
  by (simp add: HasValue_def list_ex_iff)

lemma new_attribute_sel [simp]:
  "Description (new_attribute d vs) = d" "Values (new_attribute d vs) = vs"
  by (simp_all add: new_attribute_def)

lemma AddValues_Ok:
  assumes "AddValues U e d vs = Ok e'"
  shows "vs \<noteq> []" "\<And>v. v \<in> set vs \<Longrightarrow> \<not> HasValue U e d v" "e_DN e' = e_DN e"
    "entry_Values U e' c = (if equalAttributeDescription U c d then entry_Values U e d @ vs
       else entry_Values U e c)"
proof -
  show "vs \<noteq> []" using assms by (auto simp: AddValues_def)
  consider (new) "attributeIndex U e d = None" | (old) i where "attributeIndex U e d = Some i" by fastforce
  then have "(\<forall>v\<in>set vs. \<not> HasValue U e d v) \<and> e_DN e' = e_DN e \<and>
      entry_Values U e' c = (if equalAttributeDescription U c d then entry_Values U e d @ vs
        else entry_Values U e c)"
  proof cases
    case new
    then show ?thesis
      using assms entry_Values_append [of U e "new_attribute d vs" c]
      by (auto simp: AddValues_def HasValue_iff entry_Values_index [of U e d] split: if_splits)
  next
    case old
    then show ?thesis
      using assms entry_Values_update [OF old, of "(Attributes e ! i)\<lparr>Values := Values (Attributes e ! i) @ vs\<rparr>" c]
      by (auto simp: AddValues_def Let_def list_ex_iff entry_Values_index [of U e d] split: if_splits)
  qed
  then show "\<And>v. v \<in> set vs \<Longrightarrow> \<not> HasValue U e d v" "e_DN e' = e_DN e"
    "entry_Values U e' c = (if equalAttributeDescription U c d then entry_Values U e d @ vs
       else entry_Values U e c)" by auto
qed

lemma AddValues_wf:
  assumes "entry_wf U e" "distinct_by (EqualValue U) vs" "AddValues U e d vs = Ok e'"
  shows "entry_wf U e'"
proof (cases "attributeIndex U e d")
  case None
  with assms show ?thesis
    by (auto simp: AddValues_def values_ok_def split: if_splits intro!: entry_wf_append)
next
  case (Some i)
  note old = entry_wf_values [OF assms(1) Some]
  have "values_ok U (Values (Attributes e ! i) @ vs)"
    using old assms(2) AddValues_Ok(2) [OF assms(3)] Some
    by (auto simp: values_ok_def distinct_by_append HasValue_iff entry_Values_index)
  with Some attributeIndex_less [OF Some] assms show ?thesis
    by (auto simp: AddValues_def Let_def split: if_splits intro!: entry_wf_update)
qed

lemma DeleteValues_Ok:
  assumes "entry_wf U e" "DeleteValues U e d vs = Ok e'"
  shows "e_DN e' = e_DN e" "entry_wf U e'"
    "entry_Values U e' c = (if equalAttributeDescription U c d then
       (if vs = [] then [] else filter (\<lambda>w. \<not> list_ex (EqualValue U w) vs) (entry_Values U e d))
     else entry_Values U e c)"
proof -
  from assms(2) obtain i where i: "attributeIndex U e d = Some i"
    by (auto simp: DeleteValues_def split: option.splits)
  let ?a = "Attributes e ! i"
  let ?r = "filter (\<lambda>w. \<not> list_ex (EqualValue U w) vs) (Values ?a)"
  have old: "values_ok U (Values ?a)" using entry_wf_values [OF assms(1) i] .
  have dist: "distinct_by (equalAttributeDescription U) (map Description (Attributes e))"
    using assms(1) by (simp add: entry_wf_def)
  note rm = entry_Values_remove [OF dist i, of c] and rmwf = entry_wf_remove [OF assms(1), of i]
  note up = entry_Values_update [OF i, of "?a\<lparr>Values := ?r\<rparr>" c]
  have upwf: "?r \<noteq> [] \<Longrightarrow> entry_wf U (e\<lparr>Attributes := (Attributes e)[i := ?a\<lparr>Values := ?r\<rparr>]\<rparr>)"
    using old i by (intro entry_wf_update [OF assms(1)])
      (auto simp: attributeIndex_Some values_ok_def distinct_by_filter)
  have v: "entry_Values U e d = Values ?a" using i by (simp add: entry_Values_index)
  consider (all) "vs = []" "e' = e\<lparr>Attributes := remove_at i (Attributes e)\<rparr>"
    | (gone) "vs \<noteq> []" "?r = []" "e' = e\<lparr>Attributes := remove_at i (Attributes e)\<rparr>"
    | (kept) "vs \<noteq> []" "?r \<noteq> []" "e' = e\<lparr>Attributes := (Attributes e)[i := ?a\<lparr>Values := ?r\<rparr>]\<rparr>"
    using assms(2) i by (auto simp: DeleteValues_def Let_def simp del: filter_empty_conv split: if_splits)
  then have "e_DN e' = e_DN e \<and> entry_wf U e' \<and> entry_Values U e' c =
    (if equalAttributeDescription U c d then
       (if vs = [] then [] else filter (\<lambda>w. \<not> list_ex (EqualValue U w) vs) (entry_Values U e d))
     else entry_Values U e c)"
    by cases (use rm rmwf up upwf v in \<open>simp_all del: filter_empty_conv\<close>)
  then show "e_DN e' = e_DN e" "entry_wf U e'"
    "entry_Values U e' c = (if equalAttributeDescription U c d then
       (if vs = [] then [] else filter (\<lambda>w. \<not> list_ex (EqualValue U w) vs) (entry_Values U e d))
     else entry_Values U e c)" by blast+
qed

lemma ReplaceValues_spec:
  assumes "entry_wf U e"
  shows "entry_Values U (ReplaceValues U e d vs) c =
      (if equalAttributeDescription U c d then vs else entry_Values U e c)"
    and "vs = [] \<or> values_ok U vs \<Longrightarrow> entry_wf U (ReplaceValues U e d vs)"
proof -
  have dist: "distinct_by (equalAttributeDescription U) (map Description (Attributes e))"
    using assms by (simp add: entry_wf_def)
  consider (new) "attributeIndex U e d = None" | (old) i where "attributeIndex U e d = Some i" by fastforce
  then have "entry_Values U (ReplaceValues U e d vs) c =
      (if equalAttributeDescription U c d then vs else entry_Values U e c) \<and>
      (vs = [] \<or> values_ok U vs \<longrightarrow> entry_wf U (ReplaceValues U e d vs))"
  proof cases
    case new
    then show ?thesis
      using assms entry_Values_append [of U e "new_attribute d vs" c] entry_Values_cong [of U c d e]
        entry_wf_append [OF assms, of "new_attribute d vs"]
      by (auto simp: ReplaceValues_def entry_Values_index [of U e d] values_ok_def)
  next
    case old
    let ?b = "(Attributes e ! i)\<lparr>Values := vs, RawNormalized := False\<rparr>"
    from old show ?thesis
      using entry_Values_update [OF old, of ?b c] entry_Values_remove [OF dist old, of c]
        entry_wf_remove [OF assms, of i] entry_wf_update [OF assms, of i ?b] attributeIndex_less [OF old]
      by (auto simp: ReplaceValues_def Let_def values_ok_def)
  qed
  then show "entry_Values U (ReplaceValues U e d vs) c =
      (if equalAttributeDescription U c d then vs else entry_Values U e c)"
    "vs = [] \<or> values_ok U vs \<Longrightarrow> entry_wf U (ReplaceValues U e d vs)" by blast+
qed

lemma ReplaceRawNormalizedValues_wf:
  assumes "entry_wf U e" "vs = [] \<or> values_ok U vs"
  shows "entry_wf U (ReplaceRawNormalizedValues U e d vs)"
proof -
  let ?e = "ReplaceValues U e d vs"
  have wf: "entry_wf U ?e" using ReplaceValues_spec(2) [OF assms] .
  show ?thesis
  proof (cases "attributeIndex U ?e d")
    case (Some i)
    with entry_wf_values [OF wf Some] attributeIndex_less [OF Some] show ?thesis
      by (auto simp: ReplaceRawNormalizedValues_def Let_def intro!: entry_wf_update [OF wf])
  qed (use wf in \<open>simp add: ReplaceRawNormalizedValues_def Let_def\<close>)
qed

text \<open>Conversely, a well-formed result tells that the values that were given are pairwise different.\<close>

lemma entry_wf_entry_Values:
  "entry_wf U e \<Longrightarrow> entry_Values U e d = [] \<or> values_ok U (entry_Values U e d)"
  by (auto simp: entry_Values_index dest: entry_wf_values split: option.splits)

lemma AddValues_wf_values:
  assumes "AddValues U e d vs = Ok e'" "entry_wf U e'"
  shows "values_ok U vs"
  using AddValues_Ok(1) [OF assms(1)] AddValues_Ok(4) [OF assms(1), of d] entry_wf_entry_Values [OF assms(2), of d]
  by (auto simp: values_ok_def distinct_by_append)

lemma ReplaceValues_wf_values:
  assumes "entry_wf U e" "entry_wf U (ReplaceValues U e d vs)"
  shows "vs = [] \<or> values_ok U vs"
  using ReplaceValues_spec(1) [OF assms(1), of d vs d] entry_wf_entry_Values [OF assms(2), of d] by simp

lemma ReplaceRawNormalizedValues_wf_iff:
  "entry_wf U (ReplaceRawNormalizedValues U e d vs) \<longleftrightarrow> entry_wf U (ReplaceValues U e d vs)"
proof (cases "attributeIndex U (ReplaceValues U e d vs) d")
  case (Some i)
  let ?as = "Attributes (ReplaceValues U e d vs)"
  have i: "i < length ?as" using Some by (rule attributeIndex_less)
  have "map Description (?as[i := (?as ! i)\<lparr>RawNormalized := True\<rparr>]) = map Description ?as"
    "map Values (?as[i := (?as ! i)\<lparr>RawNormalized := True\<rparr>]) = map Values ?as"
    using i by (simp_all add: map_update list_update_same_conv)
  moreover have "entry_wf U x \<longleftrightarrow> distinct_by (equalAttributeDescription U) (map Description (Attributes x)) \<and>
      list_all (values_ok U) (map Values (Attributes x))" for x
    by (simp add: entry_wf_def list_all_iff)
  ultimately show ?thesis
    using Some by (simp add: ReplaceRawNormalizedValues_def Let_def)
qed (simp add: ReplaceRawNormalizedValues_def Let_def)

section \<open>Increments\<close>

lemma sint_range: "- (2 ^ 63) \<le> sint (w :: 64 word)" "sint (w :: 64 word) < 2 ^ 63"
  using sint_greater_eq [of w] sint_less [of w] by simp_all

lemma sint_add:
  "sint (a + b :: 64 word) = (sint a + sint b + 2 ^ 63) mod 2 ^ 64 - 2 ^ 63"
  by (simp add: signed_take_bit_eq_take_bit_shift take_bit_eq_mod sint_word_ariths)

lemma mod_once: "(m::int) \<le> x \<Longrightarrow> x < 2 * m \<Longrightarrow> x mod m = x - m"
  "- (m::int) \<le> x \<Longrightarrow> x < 0 \<Longrightarrow> x mod m = x + m"
proof -
  assume "m \<le> x" "x < 2 * m"
  then show "x mod m = x - m" by (metis add.commute add_diff_cancel_left' diff_ge_0_iff_ge diff_less_eq
        minus_mod_self2 mod_pos_pos_trivial mult_2)
next
  assume "- m \<le> x" "x < 0"
  then have "(x + m) mod m = x + m" by (intro mod_pos_pos_trivial) auto
  then show "x mod m = x + m" by simp
qed

lemma addInt64_spec:
  "addInt64 a b = (if - (2 ^ 63) \<le> sint a + sint b \<and> sint a + sint b < 2 ^ 63
     then Ok (a + b) else Err ErrInvalidIncrementValue)"
  and addInt64_value: "- (2 ^ 63) \<le> sint a + sint b \<and> sint a + sint b < 2 ^ 63 \<Longrightarrow>
     sint (a + b :: 64 word) = sint a + sint b"
proof -
  let ?s = "sint a + sint b"
  note r = sint_range [of a] sint_range [of b]
  consider (ok) "- (2 ^ 63) \<le> ?s" "?s < 2 ^ 63" | (over) "2 ^ 63 \<le> ?s" | (under) "?s < - (2 ^ 63)"
    by linarith
  then have "sint (a + b) = (if - (2 ^ 63) \<le> ?s \<and> ?s < 2 ^ 63 then ?s
      else if 2 ^ 63 \<le> ?s then ?s - 2 ^ 64 else ?s + 2 ^ 64)"
  proof cases
    case ok
    then have "(?s + 2 ^ 63) mod 2 ^ 64 = ?s + 2 ^ 63" by (intro mod_pos_pos_trivial) simp_all
    with ok sint_add [of a b] show ?thesis by simp
  next
    case over
    with r have "(?s + 2 ^ 63) mod 2 ^ 64 = ?s + 2 ^ 63 - 2 ^ 64" by (intro mod_once) simp_all
    with over sint_add [of a b] show ?thesis by simp
  next
    case under
    with r have "(?s + 2 ^ 63) mod 2 ^ 64 = ?s + 2 ^ 63 + 2 ^ 64" by (intro mod_once) simp_all
    with under sint_add [of a b] show ?thesis by simp
  qed
  note s = this
  show "- (2 ^ 63) \<le> ?s \<and> ?s < 2 ^ 63 \<Longrightarrow> sint (a + b) = ?s" using s by simp
  show "addInt64 a b = (if - (2 ^ 63) \<le> ?s \<and> ?s < 2 ^ 63
     then Ok (a + b) else Err ErrInvalidIncrementValue)"
    using s r by (auto simp: addInt64_def Let_def word_sless_alt split: if_splits)
qed

lemma dec_value_append: "dec_value (s @ [c]) = dec_value s * 10 + (ord c - 48)"
  by (simp add: dec_value_def)

lemma dec_digits_props: "dec_digits n \<noteq> [] \<and> list_all is_digit (dec_digits n) \<and> dec_value (dec_digits n) = n"
proof (induction n rule: dec_digits.induct)
  case (1 n)
  have digit: "is_digit (char_of (48 + k))" "ord (char_of (48 + k) :: char) = 48 + k" if "k < 10" for k :: nat
    using that by (simp_all add: is_digit_def)
  show ?case
  proof (cases "n < 10")
    case True
    with digit [OF True] show ?thesis by (simp add: dec_digits.simps [of n] dec_value_def del: of_char_of)
  next
    case False
    have m: "n mod 10 < 10" by simp
    from 1 [OF False] digit [OF m] False show ?thesis
      by (simp add: dec_digits.simps [of n] dec_value_append del: of_char_of)
  qed
qed

lemma is_digit_not_sign: "is_digit c \<Longrightarrow> c \<noteq> CHR ''-'' \<and> c \<noteq> CHR ''+''"
  by (auto simp: is_digit_def)

lemma ParseInt_FormatInt: "- (2 ^ 63) \<le> v \<Longrightarrow> v < 2 ^ 63 \<Longrightarrow> ParseInt (FormatInt v) = Some v"
proof -
  assume r: "- (2 ^ 63) \<le> v" "v < 2 ^ 63"
  note d = dec_digits_props [of "nat v"] dec_digits_props [of "nat (- v)"]
  have h: "hd (dec_digits (nat v)) \<noteq> CHR ''-''" "hd (dec_digits (nat v)) \<noteq> CHR ''+''"
    using d(1) is_digit_not_sign [of "hd (dec_digits (nat v))"] by (auto simp: list_all_iff)
  show ?thesis
    using d h r by (auto simp: ParseInt_def FormatInt_def Let_def)
qed

lemma sint_word_of_int_64: "- (2 ^ 63) \<le> v \<Longrightarrow> v < 2 ^ 63 \<Longrightarrow> sint (word_of_int v :: 64 word) = v"
  by (simp add: sint_sbintrunc' signed_take_bit_int_eq_self)

lemma ParseInt_range: "ParseInt s = Some v \<Longrightarrow> - (2 ^ 63) \<le> v \<and> v < 2 ^ 63"
  by (auto simp: ParseInt_def Let_def split: if_splits)

lemma Increment_parsed:
  assumes "attributeIndex U e d = Some i" "entry_Values U e d = [old]"
    "ParseInt old = Some x" "ParseInt inc = Some y"
  shows "Increment U e d inc =
    (if - (2 ^ 63) \<le> x + y \<and> x + y < 2 ^ 63
     then Ok (e\<lparr>Attributes := (Attributes e)[i := (Attributes e ! i)\<lparr>Values := [FormatInt (x + y)]\<rparr>]\<rparr>)
     else Err ErrInvalidIncrementValue)"
proof -
  have s: "sint (word_of_int x :: 64 word) = x" "sint (word_of_int y :: 64 word) = y"
    using assms(3,4) ParseInt_range sint_word_of_int_64 by blast+
  have v: "Values (Attributes e ! i) = [old]" using assms(1,2) by (simp add: entry_Values_index)
  show ?thesis
    using assms(1,3,4) v addInt64_value [of "word_of_int x" "word_of_int y"]
    by (simp add: Increment_def addInt64_spec s)
qed

lemma Increment_wf:
  assumes "entry_wf U e" "Increment U e d inc = Ok e'"
  shows "entry_wf U e'"
proof -
  obtain i w where "attributeIndex U e d = Some i"
    "e' = e\<lparr>Attributes := (Attributes e)[i := (Attributes e ! i)\<lparr>Values := [w]\<rparr>]\<rparr>"
    using assms(2) by (auto simp: Increment_def Let_def split: option.splits if_splits)
  then show ?thesis
    using attributeIndex_less by (auto simp: values_ok_def distinct_by_Cons intro!: entry_wf_update [OF assms(1)])
qed

section \<open>Values of the RDN\<close>

lemma AddValues_single:
  assumes "\<not> HasValue U e t v"
  obtains e' where "AddValues U e t [v] = Ok e'"
  using assms by (cases "attributeIndex U e t") (auto simp: AddValues_def Let_def)

lemma ensure_rdn_values_props:
  "(HasValue U e t v \<longrightarrow> HasValue U (ensure_rdn_values U vs e) t v) \<and>
   (entry_wf U e \<longrightarrow> entry_wf U (ensure_rdn_values U vs e)) \<and>
   (\<forall>(t, v)\<in>set vs. HasValue U (ensure_rdn_values U vs e) t v)"
proof (induction vs arbitrary: e t v)
  case (Cons p vs)
  obtain t1 v1 where p: "p = (t1, v1)" by fastforce
  show ?case
  proof (cases "HasValue U e t1 v1")
    case True
    with Cons.IH [of e] p show ?thesis by auto
  next
    case False
    then obtain e' where e': "AddValues U e t1 [v1] = Ok e'" by (rule AddValues_single)
    note vals = AddValues_Ok(4) [OF e']
    have "HasValue U e' t1 v1" by (auto simp: HasValue_iff vals)
    moreover have "HasValue U e t v \<Longrightarrow> HasValue U e' t v" for t v
      using entry_Values_cong [of U t t1 e] by (auto simp: HasValue_iff vals)
    moreover have "entry_wf U e \<Longrightarrow> entry_wf U e'"
      using AddValues_wf [OF _ _ e'] by (simp add: distinct_by_Cons)
    ultimately show ?thesis using Cons.IH [of e'] False e' p by auto
  qed
qed simp

lemma DeleteValues_single:
  assumes "HasValue U e t v"
  obtains e' where "DeleteValues U e t [v] = Ok e'"
proof -
  from assms obtain i where "attributeIndex U e t = Some i"
    by (fastforce simp: HasValue_iff entry_Values_index split: option.splits)
  with assms that show ?thesis by (cases "filter (\<lambda>w. \<not> EqualValue U w v) (Values (Attributes e ! i)) = []")
    (auto simp: DeleteValues_def Let_def simp del: filter_empty_conv)
qed

lemma delete_rdn_values_props:
  assumes "entry_wf U e"
  shows "entry_wf U (delete_rdn_values U vs e) \<and>
    (\<forall>t v. HasValue U (delete_rdn_values U vs e) t v \<longrightarrow> HasValue U e t v) \<and>
    (\<forall>(t, v)\<in>set vs. \<not> HasValue U (delete_rdn_values U vs e) t v)"
  using assms
proof (induction vs arbitrary: e)
  case (Cons p vs)
  obtain t1 v1 where p: "p = (t1, v1)" by fastforce
  show ?case
  proof (cases "HasValue U e t1 v1")
    case False
    with Cons.IH [OF Cons.prems] p show ?thesis by auto
  next
    case True
    then obtain e' where e': "DeleteValues U e t1 [v1] = Ok e'" by (rule DeleteValues_single)
    note d = DeleteValues_Ok [OF Cons.prems e']
    have "\<not> HasValue U e' t1 v1" by (auto simp: HasValue_iff d(3))
    moreover have "HasValue U e' t v \<Longrightarrow> HasValue U e t v" for t v
      using entry_Values_cong [of U t t1 e] by (auto simp: HasValue_iff d(3) split: if_splits)
    ultimately show ?thesis using Cons.IH [OF d(2)] True e' p by auto
  qed
qed simp

section \<open>Entries as maps from descriptions to values\<close>

text \<open>
  What clients of an entry rely on: reading and replacing the values of a description behave as
  in a finite map whose keys are descriptions up to letter case and surrounding space.
\<close>

locale value_map =
  fixes same :: "'k \<Rightarrow> 'k \<Rightarrow> bool"
    and ok :: "'v list \<Rightarrow> bool"
    and wf :: "'s \<Rightarrow> bool"
    and look :: "'s \<Rightarrow> 'k \<Rightarrow> 'v list"
    and put :: "'s \<Rightarrow> 'k \<Rightarrow> 'v list \<Rightarrow> 's"
  assumes same_refl: "same k k"
    and same_sym: "same k l \<Longrightarrow> same l k"
    and same_trans: "same k l \<Longrightarrow> same l m \<Longrightarrow> same k m"
    and look_put: "wf s \<Longrightarrow> look (put s k vs) l = (if same l k then vs else look s l)"
    and wf_put: "wf s \<Longrightarrow> vs = [] \<or> ok vs \<Longrightarrow> wf (put s k vs)"
begin

lemma last_put_wins:
  "wf s \<Longrightarrow> vs = [] \<or> ok vs \<Longrightarrow> same k l \<Longrightarrow> look (put (put s k vs) l ws) m = look (put s l ws) m"
  by (auto simp: look_put wf_put dest: same_sym same_trans)

lemma puts_commute:
  "wf s \<Longrightarrow> vs = [] \<or> ok vs \<Longrightarrow> ws = [] \<or> ok ws \<Longrightarrow> \<not> same k l \<Longrightarrow>
     look (put (put s k vs) l ws) m = look (put (put s l ws) k vs) m"
  by (auto simp: look_put wf_put dest: same_sym same_trans)

end

interpretation entry_map: value_map "equalAttributeDescription U" "values_ok U" "entry_wf U"
  "entry_Values U" "ReplaceValues U" for U
  by unfold_locales
    (auto simp: ReplaceValues_spec intro: same_description_sym same_description_trans)

section \<open>Properties\<close>

definition sample_entry :: Entry where
  "sample_entry = bare_entry ''cn=a'' [\<lparr>Description = ''cn'', Values = [''a''], RawNormalized = False\<rparr>,
     \<lparr>Description = ''uid'', Values = [''7''], RawNormalized = False\<rparr>]"

lemma sample_entry_wf: "entry_wf sample_unicode sample_entry"
  by (simp add: entry_wf_def sample_entry_def bare_entry_def distinct_by_Cons values_ok_def
      equalAttributeDescription_def EqualFold_def TrimSpace_def is_space_def runes_def fold_rune_def
      ascii_lower_def)

text \<open>
  C24: the operations that change an entry keep it well formed (descriptions pairwise different, no
  attribute without values, values pairwise different up to their normal form) exactly when the
  values they are given allow it. Deleting, incrementing, adding and removing the values of a name
  always do. Adding and replacing store the given values without comparing them with each other:
  an addition that is accepted leaves a well-formed entry if and only if the given values are
  pairwise different, a replacement if and only if they are or there are none.
\<close>

theorem entry_invariant:
  assumes "entry_wf U e"
  shows "(AddValues U e d vs = Ok e' \<longrightarrow> (entry_wf U e' \<longleftrightarrow> values_ok U vs)) \<and>
    (entry_wf U (ReplaceValues U e d vs) \<longleftrightarrow> vs = [] \<or> values_ok U vs) \<and>
    (entry_wf U (ReplaceRawNormalizedValues U e d vs) \<longleftrightarrow> vs = [] \<or> values_ok U vs) \<and>
    (DeleteValues U e d ws = Ok e' \<longrightarrow> entry_wf U e') \<and>
    (Increment U e d inc = Ok e' \<longrightarrow> entry_wf U e') \<and>
    (EnsureRDNValues U e dn = Some e' \<longrightarrow> entry_wf U e') \<and>
    (DeleteRDNValues U e dn = Some e' \<longrightarrow> entry_wf U e')"
proof -
  have "entry_wf U (ReplaceValues U e d vs) \<longleftrightarrow> vs = [] \<or> values_ok U vs"
    using ReplaceValues_spec(2) [OF assms] ReplaceValues_wf_values [OF assms] by blast
  moreover have "AddValues U e d vs = Ok e' \<longrightarrow> (entry_wf U e' \<longleftrightarrow> values_ok U vs)"
    using AddValues_wf [OF assms] AddValues_wf_values values_ok_def by blast
  ultimately show ?thesis
    using assms DeleteValues_Ok(2) [OF assms] Increment_wf [OF assms] ensure_rdn_values_props
      delete_rdn_values_props [OF assms]
    by (auto simp: EnsureRDNValues_def DeleteRDNValues_def ReplaceRawNormalizedValues_wf_iff)
qed

theorem entry_invariant_witness:
  "entry_wf sample_unicode (ReplaceValues sample_unicode sample_entry ''sn'' [''b'']) \<and>
   \<not> entry_wf sample_unicode (ReplaceValues sample_unicode sample_entry ''sn'' [''b'', ''b''])"
proof -
  have "values_ok sample_unicode [''b'']" "\<not> values_ok sample_unicode [''b'', ''b'']"
    by (simp_all add: values_ok_def distinct_by_Cons)
  with entry_invariant [OF sample_entry_wf] show ?thesis by blast
qed

text \<open>
  adding values. It is refused without values, or when one of them is present; otherwise the
  attribute has the old values followed by the new ones and every other attribute is unchanged.
\<close>

theorem add_values_spec:
  "case AddValues U e d vs of
     Ok e' \<Rightarrow> vs \<noteq> [] \<and> list_all (\<lambda>v. HasValue U e d v = False) vs \<and> e_DN e' = e_DN e \<and>
       entry_Values U e' c = (if equalAttributeDescription U c d then entry_Values U e d @ vs
         else entry_Values U e c)
   | Err err \<Rightarrow> if vs = [] then err = ErrNoSuchAttribute
       else err = ErrAttributeValueExists \<and> list_ex (HasValue U e d) vs
   | Panic \<Rightarrow> False"
proof (cases "AddValues U e d vs")
  case (Ok e')
  with AddValues_Ok [OF Ok] show ?thesis by (auto simp: list_all_iff)
qed (auto simp: AddValues_def Let_def split: option.splits if_splits)

text \<open>
  deleting values of a well-formed entry. It is refused when the attribute or one of the
  values is missing; otherwise exactly the values equal to a given one are removed, all of them
  when none is given, and every other attribute is unchanged.
\<close>

theorem delete_values_spec:
  assumes "entry_wf U e"
  shows "case DeleteValues U e d vs of
     Ok e' \<Rightarrow> e_DN e' = e_DN e \<and> entry_Values U e' c = (if equalAttributeDescription U c d then
         (if vs = [] then [] else filter (\<lambda>w. \<not> list_ex (EqualValue U w) vs) (entry_Values U e d))
       else entry_Values U e c)
   | Err err \<Rightarrow> err = ErrNoSuchAttribute \<and>
       (HasAttribute U e d = False \<or> list_ex (\<lambda>v. HasValue U e d v = False) vs)
   | Panic \<Rightarrow> False"
proof (cases "DeleteValues U e d vs")
  case (Ok e')
  with DeleteValues_Ok [OF assms Ok] show ?thesis by simp
qed (auto simp: DeleteValues_def Let_def HasAttribute_index split: option.splits if_splits)

theorem delete_values_spec_witness:
  "\<exists>e'. DeleteValues sample_unicode sample_entry ''cn'' [] = Ok e' \<and> entry_Values sample_unicode e' ''cn'' = []"
proof -
  have "attributeIndex sample_unicode sample_entry ''cn'' = Some 0"
    by (simp add: attributeIndex_def sample_entry_def bare_entry_def)
  with delete_values_spec [OF sample_entry_wf, where d = "''cn''" and vs = "[]" and c = "''cn''"] show ?thesis
    by (auto simp: DeleteValues_def)
qed

text \<open>
  deleting the values that were just added restores the entry, to the last detail.
\<close>

theorem add_then_delete:
  assumes "entry_wf U e" "AddValues U e d vs = Ok e'"
  shows "DeleteValues U e' d vs = Ok e"
proof -
  note a = AddValues_Ok [OF assms(2)]
  have self: "list_ex (EqualValue U v) vs" if "v \<in> set vs" for v
    unfolding list_ex_iff using that by (intro bexI [of _ v]) simp_all
  have "HasValue U e' d v" if "v \<in> set vs" for v
    unfolding HasValue_iff using that by (intro bexI [of _ v]) (simp_all add: a(4))
  then have has: "\<not> list_ex (\<lambda>v. \<not> HasValue U e' d v) vs" by (simp add: list_ex_iff)
  show ?thesis
  proof (cases "attributeIndex U e d")
    case None
    then have e': "e' = e\<lparr>Attributes := Attributes e @ [new_attribute d vs]\<rparr>"
      using assms(2) a(1) by (simp add: AddValues_def)
    have "attributeIndex U e' d = Some (length (Attributes e))"
      unfolding e' attributeIndex_append using None by simp
    moreover have "filter (\<lambda>w. \<not> list_ex (EqualValue U w) vs) vs = []"
      using self by (auto simp: filter_empty_conv)
    ultimately show ?thesis using a(1) has by (simp add: DeleteValues_def e' Let_def remove_at_def)
  next
    case (Some i)
    let ?a = "Attributes e ! i"
    have old: "Values ?a \<noteq> []" using entry_wf_values [OF assms(1) Some] by (simp add: values_ok_def)
    have e': "e' = e\<lparr>Attributes := (Attributes e)[i := ?a\<lparr>Values := Values ?a @ vs\<rparr>]\<rparr>"
      using assms(2) a(1) Some by (auto simp: AddValues_def Let_def split: if_splits)
    have idx: "attributeIndex U e' d = Some i"
      unfolding e' using Some attributeIndex_update by simp
    have "\<not> list_ex (EqualValue U w) vs" if "w \<in> set (Values ?a)" for w
      using a(2) that Some by (auto simp: list_ex_iff HasValue_iff entry_Values_index)
    then have "filter (\<lambda>w. \<not> list_ex (EqualValue U w) vs) (Values ?a @ vs) = Values ?a"
      using self by (auto simp: filter_empty_conv intro!: filter_True)
    with idx has a(1) old attributeIndex_less [OF Some] show ?thesis
      by (simp add: DeleteValues_def e' Let_def)
  qed
qed

theorem add_then_delete_witness:
  "\<exists>e'. AddValues sample_unicode sample_entry ''cn'' [''b''] = Ok e' \<and>
     DeleteValues sample_unicode e' ''cn'' [''b''] = Ok sample_entry"
proof -
  have "\<not> HasValue sample_unicode sample_entry ''cn'' ''b''"
    by (simp add: HasValue_def entry_Values_def sample_entry_def bare_entry_def EqualValue_iff
        normalizeDirectoryValue_def FieldsFunc_space_def is_space_def ToLower_def ascii_lower_def)
  then obtain e' where "AddValues sample_unicode sample_entry ''cn'' [''b''] = Ok e'"
    by (rule AddValues_single)
  with add_then_delete [OF sample_entry_wf this] show ?thesis by blast
qed

text \<open>
  replacing values. The last replacement of a description wins, under any spelling of the
  description, replacements of different descriptions commute, and nothing else changes.
\<close>

theorem replace_values_spec:
  assumes "entry_wf U e" "values_ok U vs" "values_ok U ws"
  shows "entry_Values U (ReplaceValues U e d vs) c =
      (if equalAttributeDescription U c d then vs else entry_Values U e c) \<and>
    (equalAttributeDescription U d f \<longrightarrow>
       entry_Values U (ReplaceValues U (ReplaceValues U e d vs) f ws) c = entry_Values U (ReplaceValues U e f ws) c) \<and>
    (\<not> equalAttributeDescription U d f \<longrightarrow>
       entry_Values U (ReplaceValues U (ReplaceValues U e d vs) f ws) c =
       entry_Values U (ReplaceValues U (ReplaceValues U e f ws) d vs) c)"
  using entry_map.look_put [OF assms(1)] entry_map.last_put_wins [OF assms(1)]
    entry_map.puts_commute [OF assms(1)] assms(2,3) by blast

theorem replace_values_spec_witness:
  "entry_Values sample_unicode (ReplaceValues sample_unicode sample_entry ''cn'' [''b'']) ''cn'' = [''b'']"
proof -
  have "values_ok sample_unicode [''b'']" by (simp add: values_ok_def distinct_by_Cons)
  from replace_values_spec [OF sample_entry_wf this this, of "''cn''" "''cn''"] show ?thesis by simp
qed

text \<open>
  adding 64-bit integers is refused exactly when the mathematical sum leaves the range; an
  accepted sum is the mathematical one.
\<close>

theorem add_int64_exact:
  "addInt64 a b = (if sint a + sint b \<in> {- (2 ^ 63) ..< 2 ^ 63}
     then Ok (word_of_int (sint a + sint b)) else Err ErrInvalidIncrementValue)"
proof -
  have "a + b = word_of_int (sint a + sint b)" by simp
  then show ?thesis by (simp add: addInt64_spec)
qed

text \<open>
  C40: incrementing a single-valued attribute stores the decimal text of the exact sum, which
  reads back as that sum, or reports an invalid increment when the sum leaves the range; other
  attributes are unchanged.
\<close>

theorem increment_spec:
  assumes "entry_Values U e d = [old]" "ParseInt old = Some x" "ParseInt inc = Some y"
  shows "if x + y \<in> {- (2 ^ 63) ..< 2 ^ 63} then
      \<exists>e'. Increment U e d inc = Ok e' \<and> entry_Values U e' d = [FormatInt (x + y)] \<and>
        ParseInt (FormatInt (x + y)) = Some (x + y) \<and>
        (\<forall>c. \<not> equalAttributeDescription U c d \<longrightarrow> entry_Values U e' c = entry_Values U e c)
    else Increment U e d inc = Err ErrInvalidIncrementValue"
proof -
  from assms(1) obtain i where i: "attributeIndex U e d = Some i"
    by (auto simp: entry_Values_index split: option.splits)
  show ?thesis
    using Increment_parsed [OF i assms] ParseInt_FormatInt [of "x + y"]
      entry_Values_update [OF i, of "(Attributes e ! i)\<lparr>Values := [FormatInt (x + y)]\<rparr>"]
    by auto
qed

theorem increment_spec_witness:
  "\<exists>e'. Increment sample_unicode sample_entry ''uid'' ''5'' = Ok e' \<and>
     entry_Values sample_unicode e' ''uid'' = [FormatInt 12]"
proof -
  have v: "entry_Values sample_unicode sample_entry ''uid'' = [''7'']"
    by (simp add: entry_Values_def sample_entry_def bare_entry_def equalAttributeDescription_def
        EqualFold_def TrimSpace_def is_space_def runes_def fold_rune_def ascii_lower_def)
  have "ParseInt ''7'' = Some 7" "ParseInt ''5'' = Some 5" by code_simp+
  from increment_spec [OF v this] show ?thesis by auto
qed

text \<open>
  after ensuring the values of the RDN every one of them is present and no value is lost;
  after deleting them none is present and no value appears.
\<close>

theorem rdn_values_spec:
  assumes "RDNValues dn = Some rdn" "(t, v) \<in> set rdn" "entry_wf U e"
  shows "\<exists>e1 e2. EnsureRDNValues U e dn = Some e1 \<and> DeleteRDNValues U e dn = Some e2 \<and>
    HasValue U e1 t v \<and> \<not> HasValue U e2 t v \<and>
    (\<forall>d w. HasValue U e d w \<longrightarrow> HasValue U e1 d w) \<and> (\<forall>d w. HasValue U e2 d w \<longrightarrow> HasValue U e d w)"
  using assms ensure_rdn_values_props [of U e _ _ rdn] delete_rdn_values_props [OF assms(3), of rdn]
  by (fastforce simp: EnsureRDNValues_def DeleteRDNValues_def)

theorem rdn_values_spec_witness:
  "\<exists>e1. EnsureRDNValues sample_unicode sample_entry
       (zero_DN\<lparr>parsed := Some [[\<lparr>ava_type = ''cn'', ava_value = ''b''\<rparr>]]\<rparr>) = Some e1 \<and>
     HasValue sample_unicode e1 ''cn'' ''b''"
proof -
  let ?dn = "zero_DN\<lparr>parsed := Some [[\<lparr>ava_type = ''cn'', ava_value = ''b''\<rparr>]]\<rparr>"
  have "RDNValues ?dn = Some [(''cn'', ''b'')]"
    by (simp add: RDNValues_def hasSchemaAwareIdentity_def zero_DN_def schemaAwareDNIdentityLevel_def)
  from rdn_values_spec [OF this _ sample_entry_wf, of "''cn''" "''b''"] show ?thesis by auto
qed

end
