(* ===== verification/Directory_Filter.thy ===== *)
theory Directory_Filter
  imports Directory_Entry
begin

text \<open>
  Search filters (\<open>internal/directory/filter.go\<close>): their three-valued evaluation over an entry
  and a matcher, and the schema-free matcher. The Go interface \<open>ValueMatcher\<close> with its optional
  extensions is the record \<open>matcher\<close>; an extension the matcher does not implement is \<open>None\<close>.
\<close>

section \<open>Filters\<close>

datatype FilterKind =
    FilterAnd | FilterOr | FilterNot | FilterEquality | FilterSubstrings | FilterGreaterOrEqual
  | FilterLessOrEqual | FilterPresent | FilterApprox | FilterExtensible | FilterComputed
  | FilterKindOther nat

text \<open>A nil slice is \<open>None\<close>: the code tells an absent part from an empty one.\<close>

record Substring =
  Initial :: "bytes option"
  Any :: "bytes list"
  Final :: "bytes option"

datatype Filter = Filter
  (Kind: FilterKind) (Children: "Filter list") (filter_Attribute: bytes) (Assertion: bytes)
  (filter_Substring: Substring) (MatchingRule: bytes) (DNAttributes: bool)

datatype FilterResult = FilterUndefinedResult | FilterFalseResult | FilterTrueResult

record matcher =
  Compare :: "bytes \<Rightarrow> bytes \<Rightarrow> bytes \<Rightarrow> bytes \<Rightarrow> string + int"
  MatchSubstring :: "bytes \<Rightarrow> bytes \<Rightarrow> Substring \<Rightarrow> string + bool"
  CompareOrdering :: "(bytes \<Rightarrow> bytes \<Rightarrow> bytes \<Rightarrow> bytes \<Rightarrow> string + int) option"
  MatchApproximate :: "(bytes \<Rightarrow> bytes \<Rightarrow> bytes \<Rightarrow> string + bool) option"
  AttributeResolver :: "((Entry \<Rightarrow> bytes \<Rightarrow> bytes list) \<times> (Entry \<Rightarrow> bytes \<Rightarrow> bool)) option"
  WithDNAttributes :: "(Entry \<Rightarrow> string + Entry) option"
  EvaluateEquality :: "(Entry \<Rightarrow> bytes \<Rightarrow> bytes \<Rightarrow> FilterResult \<times> bool) option"
  ValidateFilterAssertion :: "(Filter \<Rightarrow> string option) option"

datatype filter_error = NotNeedsOneChild | DNAttributesError string | UnknownFilterKind

section \<open>Resolving attributes\<close>

definition absentFilterResult :: "Filter \<Rightarrow> matcher \<Rightarrow> FilterResult" where
  "absentFilterResult f M =
     (case ValidateFilterAssertion M of
        Some validate \<Rightarrow> (case validate f of Some _ \<Rightarrow> FilterUndefinedResult | None \<Rightarrow> FilterFalseResult)
      | None \<Rightarrow> FilterFalseResult)"

definition resolvedAttributeValues :: "unicode \<Rightarrow> matcher \<Rightarrow> Entry \<Rightarrow> bytes \<Rightarrow> bytes list" where
  "resolvedAttributeValues U M entry description =
     (case AttributeResolver M of Some (values_of, _) \<Rightarrow> values_of entry description
      | None \<Rightarrow> entry_Values U entry description)"

definition resolvedHasAttribute :: "unicode \<Rightarrow> matcher \<Rightarrow> Entry \<Rightarrow> bytes \<Rightarrow> bool" where
  "resolvedHasAttribute U M entry description =
     (case AttributeResolver M of Some (_, has) \<Rightarrow> has entry description
      | None \<Rightarrow> HasAttribute U entry description)"

section \<open>Evaluation\<close>

text \<open>
  The loop over values that every leaf runs: the first match decides; an error makes the result
  undefined unless a later value matches.
\<close>

fun any_value :: "('a \<Rightarrow> string + bool) \<Rightarrow> bool \<Rightarrow> 'a list \<Rightarrow> FilterResult" where
  "any_value f undef [] = (if undef then FilterUndefinedResult else FilterFalseResult)"
| "any_value f undef (v # vs) =
     (case f v of Inl _ \<Rightarrow> any_value f True vs
      | Inr matches \<Rightarrow> if matches then FilterTrueResult else any_value f undef vs)"

definition compare_with :: "(int \<Rightarrow> bool) \<Rightarrow> string + int \<Rightarrow> string + bool" where
  "compare_with accept r = (case r of Inl e \<Rightarrow> Inl e | Inr c \<Rightarrow> Inr (accept c))"

definition evaluate_approx :: "unicode \<Rightarrow> Filter \<Rightarrow> Entry \<Rightarrow> matcher \<Rightarrow> FilterResult" where
  "evaluate_approx U f entry M =
     (let vs = resolvedAttributeValues U M entry (filter_Attribute f) in
      if vs = [] then absentFilterResult f M
      else any_value (\<lambda>v. case MatchApproximate M of
          Some approximate \<Rightarrow> approximate (filter_Attribute f) v (Assertion f)
        | None \<Rightarrow> compare_with (\<lambda>c. c = 0) (Compare M (filter_Attribute f) [] v (Assertion f))) False vs)"

definition evaluate_ordering :: "unicode \<Rightarrow> Filter \<Rightarrow> Entry \<Rightarrow> matcher \<Rightarrow> FilterResult" where
  "evaluate_ordering U f entry M =
     (let vs = resolvedAttributeValues U M entry (filter_Attribute f);
          cmp = (if Kind f = FilterEquality then Compare M
            else case CompareOrdering M of Some by_order \<Rightarrow> by_order | None \<Rightarrow> Compare M);
          accept = (\<lambda>c. case Kind f of FilterEquality \<Rightarrow> c = 0
            | FilterGreaterOrEqual \<Rightarrow> 0 \<le> c | FilterLessOrEqual \<Rightarrow> c \<le> 0 | _ \<Rightarrow> False) in
      if vs = [] then absentFilterResult f M
      else any_value (\<lambda>v. compare_with accept (cmp (filter_Attribute f) [] v (Assertion f))) False vs)"

definition evaluate_comparison :: "unicode \<Rightarrow> Filter \<Rightarrow> Entry \<Rightarrow> matcher \<Rightarrow> FilterResult" where
  "evaluate_comparison U f entry M =
     (case (Kind f = FilterEquality, EvaluateEquality M) of
        (True, Some evaluate) \<Rightarrow>
          (case evaluate entry (filter_Attribute f) (Assertion f) of (result, hasValues) \<Rightarrow>
             if \<not> hasValues then absentFilterResult f M else result)
      | _ \<Rightarrow> evaluate_ordering U f entry M)"

definition evaluate_substrings :: "unicode \<Rightarrow> Filter \<Rightarrow> Entry \<Rightarrow> matcher \<Rightarrow> FilterResult" where
  "evaluate_substrings U f entry M =
     (let vs = resolvedAttributeValues U M entry (filter_Attribute f) in
      if vs = [] then absentFilterResult f M
      else any_value (\<lambda>v. MatchSubstring M (filter_Attribute f) v (filter_Substring f)) False vs)"

text \<open>
  Extensible matching once the attributes of the name have been added to the entry. The filter
  the assertion validator sees has \<open>DNAttributes\<close> cleared.
\<close>

definition evaluate_extensible :: "unicode \<Rightarrow> Filter \<Rightarrow> Entry \<Rightarrow> matcher \<Rightarrow> FilterResult" where
  "evaluate_extensible U f entry M =
     (if filter_Attribute f \<noteq> [] then
        let vs = resolvedAttributeValues U M entry (filter_Attribute f) in
        if vs = [] then absentFilterResult f M
        else any_value (\<lambda>v. compare_with (\<lambda>c. c = 0)
               (Compare M (filter_Attribute f) (MatchingRule f) v (Assertion f))) False vs
      else any_value (\<lambda>(description, v). compare_with (\<lambda>c. c = 0)
               (Compare M description (MatchingRule f) v (Assertion f))) False
             (concat (map (\<lambda>a. map (\<lambda>v. (Description a, v)) (Values a)) (Attributes entry))))"

definition clear_DNAttributes :: "Filter \<Rightarrow> Filter" where
  "clear_DNAttributes f = Filter (Kind f) (Children f) (filter_Attribute f) (Assertion f)
     (filter_Substring f) (MatchingRule f) False"

fun EvaluateWith :: "unicode \<Rightarrow> matcher \<Rightarrow> Entry \<Rightarrow> Filter \<Rightarrow> (filter_error, FilterResult) go"
and evaluate_and :: "unicode \<Rightarrow> matcher \<Rightarrow> Entry \<Rightarrow> FilterResult \<Rightarrow> Filter list \<Rightarrow> (filter_error, FilterResult) go"
and evaluate_or :: "unicode \<Rightarrow> matcher \<Rightarrow> Entry \<Rightarrow> FilterResult \<Rightarrow> Filter list \<Rightarrow> (filter_error, FilterResult) go"
where
  "EvaluateWith U M entry (Filter kind children attribute assertion substring rule dnAttributes) =
     (let f = Filter kind children attribute assertion substring rule dnAttributes in
      case kind of
        FilterAnd \<Rightarrow> evaluate_and U M entry FilterTrueResult children
      | FilterOr \<Rightarrow> evaluate_or U M entry FilterFalseResult children
      | FilterNot \<Rightarrow>
          (case children of
             [child] \<Rightarrow> go_bind (EvaluateWith U M entry child) (\<lambda>result.
               Ok (case result of FilterTrueResult \<Rightarrow> FilterFalseResult
                   | FilterFalseResult \<Rightarrow> FilterTrueResult | _ \<Rightarrow> FilterUndefinedResult))
           | _ \<Rightarrow> Err NotNeedsOneChild)
      | FilterPresent \<Rightarrow>
          Ok (if \<not> resolvedHasAttribute U M entry attribute then absentFilterResult f M
              else FilterTrueResult)
      | FilterApprox \<Rightarrow> Ok (evaluate_approx U f entry M)
      | FilterEquality \<Rightarrow> Ok (evaluate_comparison U f entry M)
      | FilterGreaterOrEqual \<Rightarrow> Ok (evaluate_comparison U f entry M)
      | FilterLessOrEqual \<Rightarrow> Ok (evaluate_comparison U f entry M)
      | FilterSubstrings \<Rightarrow> Ok (evaluate_substrings U f entry M)
      | FilterExtensible \<Rightarrow>
          if dnAttributes then
            (case WithDNAttributes M of None \<Rightarrow> Ok FilterUndefinedResult
             | Some resolve \<Rightarrow> (case resolve entry of Inl e \<Rightarrow> Err (DNAttributesError e)
                | Inr withDNAttributes \<Rightarrow>
                    Ok (evaluate_extensible U (clear_DNAttributes f) withDNAttributes M)))
          else Ok (evaluate_extensible U f entry M)
      | FilterComputed \<Rightarrow> Err UnknownFilterKind
      | FilterKindOther _ \<Rightarrow> Err UnknownFilterKind)"
| "evaluate_and U M entry result [] = Ok result"
| "evaluate_and U M entry result (child # children) =
     go_bind (EvaluateWith U M entry child) (\<lambda>childResult.
       if childResult = FilterFalseResult then Ok FilterFalseResult
       else evaluate_and U M entry
         (if childResult = FilterUndefinedResult then FilterUndefinedResult else result) children)"
| "evaluate_or U M entry result [] = Ok result"
| "evaluate_or U M entry result (child # children) =
     go_bind (EvaluateWith U M entry child) (\<lambda>childResult.
       if childResult = FilterTrueResult then Ok FilterTrueResult
       else evaluate_or U M entry
         (if childResult = FilterUndefinedResult then FilterUndefinedResult else result) children)"

definition MatchWith :: "unicode \<Rightarrow> matcher \<Rightarrow> Entry \<Rightarrow> Filter \<Rightarrow> (filter_error, bool) go" where
  "MatchWith U M entry f = go_bind (EvaluateWith U M entry f) (\<lambda>r. Ok (r = FilterTrueResult))"

section \<open>The matcher without a schema\<close>

fun match_any :: "unicode \<Rightarrow> bytes list \<Rightarrow> bytes \<Rightarrow> nat \<Rightarrow> nat option" where
  "match_any U [] candidate position = Some position"
| "match_any U (part # parts) candidate position =
     (let normalized = normalizeDirectoryValue U part in
      case Index (drop position candidate) normalized of None \<Rightarrow> None
      | Some index \<Rightarrow> match_any U parts candidate (position + index + length normalized))"

definition matchSubstring :: "unicode \<Rightarrow> bytes \<Rightarrow> Substring \<Rightarrow> bool" where
  "matchSubstring U v substring =
     (let candidate = normalizeDirectoryValue U v;
          initial = (case Initial substring of None \<Rightarrow> [] | Some i \<Rightarrow> normalizeDirectoryValue U i) in
      if Initial substring \<noteq> None \<and> \<not> HasPrefix candidate initial then False
      else case match_any U (Any substring) candidate
          (if Initial substring \<noteq> None then length initial else 0) of
        None \<Rightarrow> False
      | Some position \<Rightarrow>
          (case Final substring of None \<Rightarrow> True
           | Some final \<Rightarrow> HasSuffix (drop position candidate) (normalizeDirectoryValue U final)))"

definition BasicMatcher_Compare :: "unicode \<Rightarrow> bytes \<Rightarrow> bytes \<Rightarrow> bytes \<Rightarrow> bytes \<Rightarrow> string + int" where
  "BasicMatcher_Compare U attribute matchingRule left right =
     (if matchingRule \<noteq> [] then Inl ''matching rule is not registered''
      else Inr (compareDirectoryValue U left right))"

definition BasicMatcher :: "unicode \<Rightarrow> matcher" where
  "BasicMatcher U = \<lparr>
     Compare = BasicMatcher_Compare U,
     MatchSubstring = (\<lambda>_ v substring. Inr (matchSubstring U v substring)),
     CompareOrdering = Some (BasicMatcher_Compare U),
     MatchApproximate = None, AttributeResolver = None, WithDNAttributes = None,
     EvaluateEquality = None, ValidateFilterAssertion = None\<rparr>"

definition Match :: "unicode \<Rightarrow> Entry \<Rightarrow> Filter \<Rightarrow> (filter_error, bool) go" where
  "Match U entry f = MatchWith U (BasicMatcher U) entry f"

section \<open>Three-valued logic\<close>

text \<open>Results are ordered by truth: false below undefined below true.\<close>

fun truth_rank :: "FilterResult \<Rightarrow> nat" where
  "truth_rank FilterFalseResult = 0"
| "truth_rank FilterUndefinedResult = 1"
| "truth_rank FilterTrueResult = 2"

lemma truth_rank_inj: "truth_rank a = truth_rank b \<Longrightarrow> a = b"
  by (cases a; cases b) auto

instantiation FilterResult :: linorder
begin

definition less_eq_FilterResult :: "FilterResult \<Rightarrow> FilterResult \<Rightarrow> bool" where
  "less_eq_FilterResult a b \<longleftrightarrow> truth_rank a \<le> truth_rank b"

definition less_FilterResult :: "FilterResult \<Rightarrow> FilterResult \<Rightarrow> bool" where
  "less_FilterResult a b \<longleftrightarrow> truth_rank a < truth_rank b"

instance
  by intro_classes (auto simp: less_eq_FilterResult_def less_FilterResult_def truth_rank_inj)

end

fun negate :: "FilterResult \<Rightarrow> FilterResult" where
  "negate FilterTrueResult = FilterFalseResult"
| "negate FilterFalseResult = FilterTrueResult"
| "negate FilterUndefinedResult = FilterUndefinedResult"

lemma negate_case [simp]:
  "(case r of FilterTrueResult \<Rightarrow> FilterFalseResult | FilterFalseResult \<Rightarrow> FilterTrueResult
    | _ \<Rightarrow> FilterUndefinedResult) = negate r"
  by (cases r) auto

text \<open>
  The meaning of a filter: conjunction is the minimum, disjunction the maximum, negation swaps
  true and false; a leaf means what its evaluation returns.
\<close>

fun truth :: "unicode \<Rightarrow> matcher \<Rightarrow> Entry \<Rightarrow> Filter \<Rightarrow> FilterResult" where
  "truth U M e (Filter kind children a v s r d) =
     (case kind of
        FilterAnd \<Rightarrow> foldr min (map (truth U M e) children) FilterTrueResult
      | FilterOr \<Rightarrow> foldr max (map (truth U M e) children) FilterFalseResult
      | FilterNot \<Rightarrow> (case children of [c] \<Rightarrow> negate (truth U M e c) | _ \<Rightarrow> FilterUndefinedResult)
      | _ \<Rightarrow> (case EvaluateWith U M e (Filter kind children a v s r d) of Ok t \<Rightarrow> t | _ \<Rightarrow> FilterUndefinedResult))"

text \<open>
  Filters the decoder produces: a negation has one child, the kind is one of the protocol's. The
  resolver of name attributes, where one is needed, succeeds on the entry.
\<close>

fun filter_ok :: "matcher \<Rightarrow> Entry \<Rightarrow> Filter \<Rightarrow> bool" where
  "filter_ok M e (Filter kind children a v s r d) =
     (case kind of
        FilterAnd \<Rightarrow> list_all (filter_ok M e) children
      | FilterOr \<Rightarrow> list_all (filter_ok M e) children
      | FilterNot \<Rightarrow> length children = 1 \<and> list_all (filter_ok M e) children
      | FilterExtensible \<Rightarrow> d \<longrightarrow> (case WithDNAttributes M of None \<Rightarrow> True
          | Some resolve \<Rightarrow> (case resolve e of Inl _ \<Rightarrow> False | Inr _ \<Rightarrow> True))
      | FilterComputed \<Rightarrow> False
      | FilterKindOther _ \<Rightarrow> False
      | _ \<Rightarrow> True)"

lemma min_results:
  "min FilterFalseResult r = FilterFalseResult" "min FilterTrueResult r = r"
  "r \<noteq> FilterFalseResult \<Longrightarrow> min FilterUndefinedResult (foldr min xs r) = foldr min xs FilterUndefinedResult"
proof -
  have acc: "foldr min xs (min c r) = min c (foldr min xs r)" for c :: FilterResult
    by (induction xs) (auto simp: min.left_commute)
  show "r \<noteq> FilterFalseResult \<Longrightarrow> min FilterUndefinedResult (foldr min xs r) = foldr min xs FilterUndefinedResult"
    unfolding acc [symmetric] by (cases r) (simp_all add: min_def less_eq_FilterResult_def)
qed (cases r; simp add: min_def less_eq_FilterResult_def)+

lemma max_results:
  "max FilterTrueResult r = FilterTrueResult" "max FilterFalseResult r = r"
  "r \<noteq> FilterTrueResult \<Longrightarrow> max FilterUndefinedResult (foldr max xs r) = foldr max xs FilterUndefinedResult"
proof -
  have acc: "foldr max xs (max c r) = max c (foldr max xs r)" for c :: FilterResult
    by (induction xs) (auto simp: max.left_commute)
  show "r \<noteq> FilterTrueResult \<Longrightarrow> max FilterUndefinedResult (foldr max xs r) = foldr max xs FilterUndefinedResult"
    unfolding acc [symmetric] by (cases r) (simp_all add: max_def less_eq_FilterResult_def)
qed (cases r; simp add: max_def less_eq_FilterResult_def)+

lemma evaluate_truth:
  "filter_ok M e f \<Longrightarrow> EvaluateWith U M e f = Ok (truth U M e f)"
  "list_all (filter_ok M e) fs \<Longrightarrow> r \<noteq> FilterFalseResult \<Longrightarrow>
     evaluate_and U M e r fs = Ok (foldr min (map (truth U M e) fs) r)"
  "list_all (filter_ok M e) fs \<Longrightarrow> r \<noteq> FilterTrueResult \<Longrightarrow>
     evaluate_or U M e r fs = Ok (foldr max (map (truth U M e) fs) r)"
proof (induction U M e f and U M e r fs and U M e r fs rule: EvaluateWith_evaluate_and_evaluate_or.induct)
  case (1 U M entry kind children a v s r d)
  show ?case
  proof (cases kind)
    case FilterAnd
    with 1 show ?thesis by simp
  next
    case FilterOr
    with 1 show ?thesis by simp
  next
    case FilterNot
    with 1(4) obtain c where "children = [c]" "filter_ok M entry c"
      by (auto simp: length_Suc_conv)
    with 1(3) FilterNot show ?thesis by simp
  qed (use 1(4) in \<open>auto simp: Let_def split: option.splits sum.splits\<close>)
next
  case (3 U M entry result child children)
  then show ?case using 3(2) [of "truth U M entry child"]
    by (cases "truth U M entry child") (auto simp: min_results)
next
  case (5 U M entry result child children)
  then show ?case using 5(2) [of "truth U M entry child"]
    by (cases "truth U M entry child") (auto simp: max_results)
qed simp_all

text \<open>
  A result that is returned is the meaning of the filter even where some part of it would fail: the
  meaning counts such a part as undefined, and the part can only be passed over after a child that
  decides alone.
\<close>

lemma evaluated_is_truth:
  "EvaluateWith U M e f = Ok x \<Longrightarrow> x = truth U M e f"
  "evaluate_and U M e r fs = Ok x \<Longrightarrow> r \<noteq> FilterFalseResult \<Longrightarrow> x = foldr min (map (truth U M e) fs) r"
  "evaluate_or U M e r fs = Ok x \<Longrightarrow> r \<noteq> FilterTrueResult \<Longrightarrow> x = foldr max (map (truth U M e) fs) r"
proof (induction U M e f and U M e r fs and U M e r fs arbitrary: x and x and x
    rule: EvaluateWith_evaluate_and_evaluate_or.induct)
  case (1 U M entry kind children a v s r d)
  show ?case
  proof (cases kind)
    case FilterNot
    with 1(4) obtain c where c: "children = [c]"
      by (auto simp: Let_def split: list.splits)
    with 1(4) FilterNot obtain t where "EvaluateWith U M entry c = Ok t" "x = negate t"
      by (auto simp: Let_def)
    with 1(3) [OF refl FilterNot c] FilterNot c show ?thesis by simp
  qed (use 1 in \<open>simp_all add: Let_def\<close>)
next
  case (3 U M entry result child children)
  then obtain t where t: "EvaluateWith U M entry child = Ok t" by auto
  from 3(1) [OF t] have truth: "truth U M entry child = t" by simp
  show ?case
  proof (cases "t = FilterFalseResult")
    case True
    with 3(3) t truth show ?thesis by (simp add: min_results)
  next
    case False
    from 3(2) [of t x] 3(3,4) t False
    have "x = foldr min (map (truth U M entry) children)
        (if t = FilterUndefinedResult then FilterUndefinedResult else result)" by (simp split: if_splits)
    with truth False show ?thesis by (cases t) (simp_all add: min_results 3(4))
  qed
next
  case (5 U M entry result child children)
  then obtain t where t: "EvaluateWith U M entry child = Ok t" by auto
  from 5(1) [OF t] have truth: "truth U M entry child = t" by simp
  show ?case
  proof (cases "t = FilterTrueResult")
    case True
    with 5(3) t truth show ?thesis by (simp add: max_results)
  next
    case False
    from 5(2) [of t x] 5(3,4) t False
    have "x = foldr max (map (truth U M entry) children)
        (if t = FilterUndefinedResult then FilterUndefinedResult else result)" by (simp split: if_splits)
    with truth False show ?thesis by (cases t) (simp_all add: max_results 5(4))
  qed
qed simp_all

section \<open>Negation and De Morgan\<close>

abbreviation not_filter :: "Filter \<Rightarrow> Filter" where
  "not_filter f \<equiv> Filter FilterNot [f] [] [] \<lparr>Initial = None, Any = [], Final = None\<rparr> [] False"

abbreviation and_filter :: "Filter list \<Rightarrow> Filter" where
  "and_filter fs \<equiv> Filter FilterAnd fs [] [] \<lparr>Initial = None, Any = [], Final = None\<rparr> [] False"

abbreviation or_filter :: "Filter list \<Rightarrow> Filter" where
  "or_filter fs \<equiv> Filter FilterOr fs [] [] \<lparr>Initial = None, Any = [], Final = None\<rparr> [] False"

lemma negate_eq [simp]:
  "negate r = FilterTrueResult \<longleftrightarrow> r = FilterFalseResult"
  "negate r = FilterUndefinedResult \<longleftrightarrow> r = FilterUndefinedResult"
  "negate (negate r) = r"
  by (cases r; simp)+

lemma evaluate_or_not:
  "evaluate_or U M e (negate r) (map not_filter fs)
     = go_bind (evaluate_and U M e r fs) (\<lambda>x. Ok (negate x))"
proof (induction fs arbitrary: r)
  case (Cons f fs)
  show ?case
  proof (cases "EvaluateWith U M e f")
    case (Ok t)
    have "negate (if t = FilterUndefinedResult then FilterUndefinedResult else r)
        = (if t = FilterUndefinedResult then FilterUndefinedResult else negate r)" by simp
    with Ok Cons [of "if t = FilterUndefinedResult then FilterUndefinedResult else r"] show ?thesis
      by (cases t) (simp_all add: Let_def)
  qed (simp_all add: Let_def)
qed simp

section \<open>Substrings\<close>

text \<open>
  The parts occur in order, without overlap, and the text ends with the last one.
\<close>

fun parts_occur :: "bytes list \<Rightarrow> bytes \<Rightarrow> bytes \<Rightarrow> bool" where
  "parts_occur [] final s \<longleftrightarrow> suffix final s"
| "parts_occur (p # ps) final s \<longleftrightarrow> (\<exists>before after. s = before @ p @ after \<and> parts_occur ps final after)"

lemma parts_occur_suffix: "parts_occur ps final s \<Longrightarrow> suffix s t \<Longrightarrow> parts_occur ps final t"
proof (cases ps)
  case (Cons p ps')
  assume "parts_occur ps final s" "suffix s t"
  then obtain before after zs where "s = before @ p @ after" "parts_occur ps' final after" "t = zs @ s"
    using Cons by (auto simp: suffix_def)
  then have "t = (zs @ before) @ p @ after \<and> parts_occur ps' final after" by simp
  then show ?thesis unfolding Cons parts_occur.simps by blast
qed (auto intro: suffix_order.trans)

text \<open>Taking the leftmost occurrence of each part loses no match.\<close>

lemma leftmost_part:
  assumes "Index s p = Some i"
  shows "parts_occur (p # ps) final s \<longleftrightarrow> parts_occur ps final (drop (i + length p) s)"
proof
  have i: "i \<le> length s" "prefix p (drop i s)" "\<And>j. j < i \<Longrightarrow> \<not> prefix p (drop j s)"
    using assms by (auto simp: Index_Some)
  {
    assume "parts_occur (p # ps) final s"
    then obtain before after where s: "s = before @ p @ after" "parts_occur ps final after" by auto
    have "prefix p (drop (length before) s)" by (simp add: s)
    with i(3) have "i \<le> length before" by (metis linorder_not_less)
    then have "suffix after (drop (i + length p) s)"
      using s(1) by (simp add: suffix_conv_drop add.commute)
    with s(2) show "parts_occur ps final (drop (i + length p) s)" by (rule parts_occur_suffix)
  next
    assume a: "parts_occur ps final (drop (i + length p) s)"
    from i(2) have "drop i s = p @ drop (length p) (drop i s)"
      by (metis append_take_drop_id drop_prefix_append)
    then have "s = take i s @ p @ drop (i + length p) s"
      by (metis append_take_drop_id drop_drop add.commute)
    with a show "parts_occur (p # ps) final s" by auto
  }
qed

lemma no_part:
  assumes "Index s p = None"
  shows "\<not> parts_occur (p # ps) final s"
proof
  assume "parts_occur (p # ps) final s"
  then obtain before after where "s = before @ p @ after" by auto
  then have "prefix p (drop (length before) s)" "length before \<le> length s" by auto
  with assms show False by (auto simp: Index_None)
qed

lemma match_any_spec:
  "parts_occur (map (normalizeDirectoryValue U) parts) final (drop position candidate) \<longleftrightarrow>
     (case match_any U parts candidate position of None \<Rightarrow> False
      | Some q \<Rightarrow> suffix final (drop q candidate))"
proof (induction parts arbitrary: position)
  case (Cons part parts)
  let ?n = "normalizeDirectoryValue U part"
  show ?case
  proof (cases "Index (drop position candidate) ?n")
    case None
    with no_part [OF None] show ?thesis by (simp del: parts_occur.simps)
  next
    case (Some i)
    with leftmost_part [OF Some] Cons [of "position + i + length ?n"] show ?thesis
      by (simp add: ac_simps del: parts_occur.simps)
  qed
qed simp

lemma any_value_total: "any_value (\<lambda>v. Inr (P v)) False vs = (if list_ex P vs then FilterTrueResult else FilterFalseResult)"
  by (induction vs) auto

section \<open>Properties\<close>

text \<open>
  C23: a result that the evaluation of a filter returns is the meaning of the filter in Kleene's
  three-valued logic, where conjunctions are minima, disjunctions maxima, negations swap true and
  false, and a part whose own evaluation fails counts as undefined: neither the early exits nor the
  flag for undefined results can return anything else. The evaluation does return a result when the
  filter has only known kinds, every negation in it has exactly one child and the resolver of name
  attributes, where the filter asks for one, succeeds on the entry. On other filters it may return
  an error, or a result when an early exit comes before the part that would fail.
\<close>

theorem filter_evaluation_kleene:
  "(filter_ok M e f \<longrightarrow> EvaluateWith U M e f = Ok (truth U M e f)) \<and>
   (EvaluateWith U M e f = Ok r \<longrightarrow> r = truth U M e f)"
  using evaluate_truth(1) evaluated_is_truth(1) by blast

abbreviation equality_filter :: "bytes \<Rightarrow> bytes \<Rightarrow> Filter" where
  "equality_filter a v \<equiv> Filter FilterEquality [] a v \<lparr>Initial = None, Any = [], Final = None\<rparr> [] False"

abbreviation ruled_filter :: "bytes \<Rightarrow> bytes \<Rightarrow> bytes \<Rightarrow> Filter" where
  "ruled_filter a rule v \<equiv> Filter FilterExtensible [] a v \<lparr>Initial = None, Any = [], Final = None\<rparr> rule False"

abbreviation unknown_filter :: Filter where
  "unknown_filter \<equiv> Filter FilterComputed [] [] [] \<lparr>Initial = None, Any = [], Final = None\<rparr> [] False"

lemma sample_leaves:
  "EvaluateWith sample_unicode (BasicMatcher sample_unicode) sample_entry
     (ruled_filter ''uid'' ''2.5.13.2'' ''8'') = Ok FilterUndefinedResult"
  "EvaluateWith sample_unicode (BasicMatcher sample_unicode) sample_entry
     (equality_filter ''uid'' ''8'') = Ok FilterFalseResult"
proof -
  have "entry_Values sample_unicode sample_entry ''uid'' = [''7'']"
    by (simp add: sample_entry_def bare_entry_def entry_Values_def
      equalAttributeDescription_def EqualFold_def TrimSpace_def is_space_def runes_def fold_rune_def
      ascii_lower_def)
  then show
  "EvaluateWith sample_unicode (BasicMatcher sample_unicode) sample_entry
     (ruled_filter ''uid'' ''2.5.13.2'' ''8'') = Ok FilterUndefinedResult"
  "EvaluateWith sample_unicode (BasicMatcher sample_unicode) sample_entry
     (equality_filter ''uid'' ''8'') = Ok FilterFalseResult"
    by (simp_all add: Let_def evaluate_comparison_def evaluate_ordering_def evaluate_extensible_def
      BasicMatcher_def BasicMatcher_Compare_def resolvedAttributeValues_def compare_with_def
      compareDirectoryValue_def bytes_Compare_def normalizeDirectoryValue_def FieldsFunc_space_def
      is_space_def ToLower_def ascii_lower_def)
qed

theorem filter_evaluation_kleene_witness:
  "EvaluateWith sample_unicode (BasicMatcher sample_unicode) sample_entry
     (and_filter [ruled_filter ''uid'' ''2.5.13.2'' ''8'', equality_filter ''uid'' ''8'', unknown_filter])
     = Ok FilterFalseResult \<and>
   EvaluateWith sample_unicode (BasicMatcher sample_unicode) sample_entry
     (not_filter (or_filter [ruled_filter ''uid'' ''2.5.13.2'' ''8'', equality_filter ''uid'' ''8'']))
     = Ok FilterUndefinedResult"
proof -
  let ?M = "BasicMatcher sample_unicode"
  let ?g = "not_filter (or_filter [ruled_filter ''uid'' ''2.5.13.2'' ''8'', equality_filter ''uid'' ''8''])"
  let ?h = "and_filter [ruled_filter ''uid'' ''2.5.13.2'' ''8'', equality_filter ''uid'' ''8'', unknown_filter]"
  have ok: "filter_ok ?M sample_entry ?g" by simp
  have g: "EvaluateWith sample_unicode ?M sample_entry ?g = Ok (truth sample_unicode ?M sample_entry ?g)"
    using filter_evaluation_kleene ok by blast
  have "EvaluateWith U M e (and_filter fs) = evaluate_and U M e FilterTrueResult fs" for U M e fs
    by (simp add: Let_def)
  then have "EvaluateWith sample_unicode ?M sample_entry ?h = Ok FilterFalseResult"
    by (simp add: sample_leaves del: EvaluateWith.simps)
  with g show ?thesis
    by (simp add: sample_leaves max_def less_eq_FilterResult_def del: EvaluateWith.simps)
qed

text \<open>
  De Morgan and double negation hold of evaluation itself, errors included: both sides
  return the same result or the same error.
\<close>

theorem filter_de_morgan:
  "EvaluateWith U M e (not_filter (and_filter fs)) = EvaluateWith U M e (or_filter (map not_filter fs)) \<and>
   EvaluateWith U M e (not_filter (not_filter f)) = EvaluateWith U M e f"
proof -
  have "EvaluateWith U M e (not_filter (not_filter f)) = EvaluateWith U M e f"
    by (cases "EvaluateWith U M e f") (simp_all add: Let_def)
  moreover have "EvaluateWith U M e (not_filter (and_filter fs)) = EvaluateWith U M e (or_filter (map not_filter fs))"
    using evaluate_or_not [of U M e FilterTrueResult fs] by (simp add: Let_def)
  ultimately show ?thesis by blast
qed

text \<open>
  substring matching. The greedy scan accepts a value exactly when its normal form is the
  initial part, then the middle parts in order without overlap, then the final part, for some
  choice of the text in between.
\<close>

theorem match_substring_complete:
  "matchSubstring U v (Substring.make i parts f) =
     (\<exists>rest. normalizeDirectoryValue U v
          = (case i of None \<Rightarrow> [] | Some x \<Rightarrow> normalizeDirectoryValue U x) @ rest \<and>
        parts_occur (map (normalizeDirectoryValue U) parts)
          (case f of None \<Rightarrow> [] | Some y \<Rightarrow> normalizeDirectoryValue U y) rest)"
proof -
  let ?c = "normalizeDirectoryValue U v"
  define init where "init = (case i of None \<Rightarrow> [] | Some x \<Rightarrow> normalizeDirectoryValue U x)"
  define fin where "fin = (case f of None \<Rightarrow> [] | Some y \<Rightarrow> normalizeDirectoryValue U y)"
  have "matchSubstring U v (Substring.make i parts f) \<longleftrightarrow> prefix init ?c \<and>
      (case match_any U parts ?c (length init) of None \<Rightarrow> False | Some q \<Rightarrow> suffix fin (drop q ?c))"
    by (auto simp: matchSubstring_def Substring.make_def init_def fin_def Let_def HasPrefix_prefix
        HasSuffix_suffix split: option.splits)
  also have "\<dots> \<longleftrightarrow> prefix init ?c \<and>
      parts_occur (map (normalizeDirectoryValue U) parts) fin (drop (length init) ?c)"
    by (simp add: match_any_spec)
  also have "\<dots> \<longleftrightarrow> (\<exists>rest. ?c = init @ rest \<and> parts_occur (map (normalizeDirectoryValue U) parts) fin rest)"
    by (auto simp: prefix_def)
  finally show ?thesis by (simp only: init_def fin_def)
qed

text \<open>
  with the schema-free matcher, an equality filter is true exactly when the entry has the
  value, a presence filter exactly when it has the attribute, a substring filter exactly when
  one of its values matches; otherwise they are false, never undefined.
\<close>

theorem basic_matcher_leaves:
  "EvaluateWith U (BasicMatcher U) e (Filter FilterEquality cs a v s r d) =
     Ok (if HasValue U e a v then FilterTrueResult else FilterFalseResult) \<and>
   EvaluateWith U (BasicMatcher U) e (Filter FilterPresent cs a v s r d) =
     Ok (if HasAttribute U e a then FilterTrueResult else FilterFalseResult) \<and>
   EvaluateWith U (BasicMatcher U) e (Filter FilterSubstrings cs a v s r d) =
     Ok (if list_ex (\<lambda>x. matchSubstring U x s) (entry_Values U e a) then FilterTrueResult else FilterFalseResult)"
  by (auto simp: Let_def evaluate_comparison_def evaluate_ordering_def evaluate_substrings_def
      BasicMatcher_def BasicMatcher_Compare_def resolvedAttributeValues_def resolvedHasAttribute_def
      absentFilterResult_def compare_with_def any_value_total HasValue_def EqualValue_def)

end
