(* ===== verification/Scheduler.thy ===== *)
theory Scheduler
  imports Go_Prelude "HOL-Library.Multiset"
begin

text \<open>
  The scheduler of the load balancer (\<open>internal/lloadd/scheduler.go\<close>): tiers of backends with
  pooled connections, selection policies, pending limits and leases.

  A pointer to a backend or a connection is its identifier, a key of the scheduler's maps
  \<open>backends\<close> and \<open>connections\<close>; a pointer to a lease token is an index of \<open>tokens\<close>, the tokens
  allocated so far. Every exported operation holds the scheduler's mutex, so concurrent callers
  see a sequence of the operations below. The generation channel \<open>capacity\<close> is a counter:
  closing it and making a new one increments the counter, and a caller that waits on generation
  \<open>g\<close> is woken once the counter exceeds \<open>g\<close>. Receivers are not nil.

  What comes from outside is the parameter \<open>env\<close>: the results of the calls of the random source
  and of the clock, in call order, and the operations of the machine's floating-point numbers.
\<close>

section \<open>Environment\<close>

record 'f env =
  Intn :: "nat \<Rightarrow> int \<Rightarrow> int"
  now :: "nat \<Rightarrow> int \<times> int"
  f_of_int :: "int \<Rightarrow> 'f"
  f_half :: 'f
  f_neg :: "'f \<Rightarrow> 'f"
  f_add :: "'f \<Rightarrow> 'f \<Rightarrow> 'f"
  f_sub :: "'f \<Rightarrow> 'f \<Rightarrow> 'f"
  f_mul :: "'f \<Rightarrow> 'f \<Rightarrow> 'f"
  f_div :: "'f \<Rightarrow> 'f \<Rightarrow> 'f"
  f_less :: "'f \<Rightarrow> 'f \<Rightarrow> bool"
  f_le :: "'f \<Rightarrow> 'f \<Rightarrow> bool"
  Exp2 :: "'f \<Rightarrow> 'f"
  f_Round :: "'f \<Rightarrow> int"

section \<open>State\<close>

type_synonym Policy = bytes
type_synonym Pool = nat
type_synonym ConnectionState = nat

definition PolicyRoundRobin :: Policy where "PolicyRoundRobin = ''roundrobin''"
definition PolicyWeighted :: Policy where "PolicyWeighted = ''weighted''"
definition PolicyBestOf :: Policy where "PolicyBestOf = ''bestof''"

definition PoolRegular :: Pool where "PoolRegular = 0"
definition PoolBind :: Pool where "PoolBind = 1"
definition poolCount :: Pool where "poolCount = 2"

definition ConnectionReady :: ConnectionState where "ConnectionReady = 0"
definition ConnectionBusy :: ConnectionState where "ConnectionBusy = 1"
definition ConnectionUnavailable :: ConnectionState where "ConnectionUnavailable = 2"

record tierState =
  t_id :: bytes
  policy :: Policy
  t_backends :: "bytes list"
  next_backend :: nat

record 'f backendState =
  b_id :: bytes
  b_tier :: bytes
  b_policy :: Policy
  weight :: int
  b_maxPending :: int
  b_pending :: int
  b_connections :: "bytes list"
  nextConnection :: "nat list"
  latencySamples :: uint64
  meanLatencyNS :: 'f
  fitnessSamples :: uint64
  fitnessTimeUS :: 'f
  fitnessUS :: 'f
  fitnessUpdated :: int
  fitnessRolled :: int

record connectionState =
  c_id :: bytes
  c_backend :: bytes
  c_pool :: Pool
  c_state :: ConnectionState
  c_maxPending :: int
  c_pending :: int

record leaseToken =
  k_backend :: bytes
  k_connection :: bytes
  released :: bool
  latencyStored :: bool

record Lease =
  TierID :: bytes
  BackendID :: bytes
  ConnectionID :: bytes
  l_Pool :: Pool
  token :: "nat option"

record 'f Scheduler =
  tiers :: "tierState list"
  backends :: "bytes \<rightharpoonup> 'f backendState"
  connections :: "bytes \<rightharpoonup> connectionState"
  capacity :: nat
  tokens :: "leaseToken list"
  draws :: nat
  ticks :: nat

datatype sched_error =
    ErrBusy | ErrUnavailable | ErrInvalidAffinity
  | InvalidPool Pool | NegativeOwnedLimit
  | InvalidConnectionState ConnectionState | UnknownConnection bytes
  | TierEmptyID nat | DuplicateTierID bytes | InvalidPolicy bytes Policy
  | BackendEmptyID bytes nat | DuplicateBackendID bytes | NegativeWeight bytes
  | NegativeBackendMaxPending bytes | TotalWeightTooLarge bytes
  | ConnectionEmptyID bytes nat | DuplicateConnectionID bytes
  | ConnectionInvalidPool bytes Pool | ConnectionInvalidState bytes ConnectionState
  | NegativeConnectionMaxPending bytes

datatype selectResult = resultUnavailable | resultBusy | resultSelected

abbreviation backend :: "'f Scheduler \<Rightarrow> bytes \<Rightarrow> 'f backendState" where
  "backend S i \<equiv> the (backends S i)"

abbreviation connection :: "'f Scheduler \<Rightarrow> bytes \<Rightarrow> connectionState" where
  "connection S i \<equiv> the (connections S i)"

section \<open>Validity checks\<close>

definition atCapacity :: "int \<Rightarrow> int \<Rightarrow> bool" where
  "atCapacity pending maximum \<longleftrightarrow> maximum > 0 \<and> pending \<ge> maximum"

definition validPolicy :: "Policy \<Rightarrow> bool" where
  "validPolicy p \<longleftrightarrow> p = PolicyRoundRobin \<or> p = PolicyWeighted \<or> p = PolicyBestOf"

definition validPool :: "Pool \<Rightarrow> bool" where
  "validPool pool \<longleftrightarrow> pool < poolCount"

definition validConnectionState :: "ConnectionState \<Rightarrow> bool" where
  "validConnectionState state \<longleftrightarrow> state \<le> ConnectionUnavailable"

section \<open>Construction\<close>

record SchedulerConnectionConfig =
  cc_ID :: bytes
  cc_Pool :: Pool
  cc_State :: ConnectionState
  cc_MaxPending :: int

record SchedulerBackendConfig =
  bc_ID :: bytes
  bc_Weight :: int
  bc_MaxPending :: int
  bc_Connections :: "SchedulerConnectionConfig list"

record SchedulerTierConfig =
  tc_ID :: bytes
  tc_Policy :: Policy
  tc_Backends :: "SchedulerBackendConfig list"

definition MaxInt :: int where
  "MaxInt = 2 ^ 63 - 1"

text \<open>The innermost loop: the connections of one backend.\<close>

fun add_connections ::
  "bytes \<Rightarrow> nat \<Rightarrow> SchedulerConnectionConfig list \<Rightarrow> (bytes \<rightharpoonup> connectionState) \<Rightarrow>
   (sched_error, bytes \<rightharpoonup> connectionState) go" where
  "add_connections b i [] conns = Ok conns"
| "add_connections b i (cc # rest) conns =
     (if cc_ID cc = [] then Err (ConnectionEmptyID b i)
      else if conns (cc_ID cc) \<noteq> None then Err (DuplicateConnectionID (cc_ID cc))
      else if \<not> validPool (cc_Pool cc) then Err (ConnectionInvalidPool (cc_ID cc) (cc_Pool cc))
      else if \<not> validConnectionState (cc_State cc) then Err (ConnectionInvalidState (cc_ID cc) (cc_State cc))
      else if cc_MaxPending cc < 0 then Err (NegativeConnectionMaxPending (cc_ID cc))
      else add_connections b (i + 1) rest (conns(cc_ID cc \<mapsto>
        \<lparr>c_id = cc_ID cc, c_backend = b, c_pool = cc_Pool cc, c_state = cc_State cc,
         c_maxPending = cc_MaxPending cc, c_pending = 0\<rparr>)))"

definition new_backend :: "'f env \<Rightarrow> SchedulerTierConfig \<Rightarrow> SchedulerBackendConfig \<Rightarrow> int \<Rightarrow> 'f backendState" where
  "new_backend E tc bc startedAt =
     \<lparr>b_id = bc_ID bc, b_tier = tc_ID tc, b_policy = tc_Policy tc, weight = bc_Weight bc,
      b_maxPending = bc_MaxPending bc, b_pending = 0, b_connections = map cc_ID (bc_Connections bc),
      nextConnection = replicate poolCount 0, latencySamples = 0, meanLatencyNS = f_of_int E 0,
      fitnessSamples = 0, fitnessTimeUS = f_of_int E 0, fitnessUS = f_of_int E 0,
      fitnessUpdated = 0, fitnessRolled = startedAt\<rparr>"

fun add_backends ::
  "'f env \<Rightarrow> int \<Rightarrow> SchedulerTierConfig \<Rightarrow> nat \<Rightarrow> int \<Rightarrow> SchedulerBackendConfig list \<Rightarrow>
   'f Scheduler \<Rightarrow> (sched_error, 'f Scheduler) go" where
  "add_backends E startedAt tc i totalWeight [] S = Ok S"
| "add_backends E startedAt tc i totalWeight (bc # rest) S =
     (if bc_ID bc = [] then Err (BackendEmptyID (tc_ID tc) i)
      else if backends S (bc_ID bc) \<noteq> None then Err (DuplicateBackendID (bc_ID bc))
      else if bc_Weight bc < 0 then Err (NegativeWeight (bc_ID bc))
      else if bc_MaxPending bc < 0 then Err (NegativeBackendMaxPending (bc_ID bc))
      else if bc_Weight bc > MaxInt - totalWeight - 1 then Err (TotalWeightTooLarge (tc_ID tc))
      else go_bind (add_connections (bc_ID bc) 0 (bc_Connections bc) (connections S)) (\<lambda>conns.
        add_backends E startedAt tc (i + 1) (totalWeight + bc_Weight bc) rest
          (S\<lparr>connections := conns,
             backends := (backends S)(bc_ID bc \<mapsto> new_backend E tc bc startedAt)\<rparr>)))"

fun add_tiers ::
  "'f env \<Rightarrow> int \<Rightarrow> nat \<Rightarrow> bytes list \<Rightarrow> SchedulerTierConfig list \<Rightarrow> 'f Scheduler \<Rightarrow>
   (sched_error, 'f Scheduler) go" where
  "add_tiers E startedAt i tierIDs [] S = Ok S"
| "add_tiers E startedAt i tierIDs (tc # rest) S =
     (if tc_ID tc = [] then Err (TierEmptyID i)
      else if tc_ID tc \<in> set tierIDs then Err (DuplicateTierID (tc_ID tc))
      else if \<not> validPolicy (tc_Policy tc) then Err (InvalidPolicy (tc_ID tc) (tc_Policy tc))
      else go_bind (add_backends E startedAt tc 0 0 (tc_Backends tc) S) (\<lambda>S'.
        add_tiers E startedAt (i + 1) (tc_ID tc # tierIDs) rest
          (S'\<lparr>tiers := tiers S' @ [\<lparr>t_id = tc_ID tc, policy = tc_Policy tc,
             t_backends = map bc_ID (tc_Backends tc), next_backend = 0\<rparr>]\<rparr>)))"

definition empty_scheduler :: "'f Scheduler" where
  "empty_scheduler = \<lparr>tiers = [], backends = Map.empty, connections = Map.empty, capacity = 0,
     tokens = [], draws = 0, ticks = 1\<rparr>"

definition newScheduler :: "'f env \<Rightarrow> SchedulerTierConfig list \<Rightarrow> (sched_error, 'f Scheduler) go" where
  "newScheduler E config = add_tiers E (fst (now E 0)) 0 [] config empty_scheduler"

section \<open>Reserving and releasing\<close>

definition set_backend :: "bytes \<Rightarrow> 'f backendState \<Rightarrow> 'f Scheduler \<Rightarrow> 'f Scheduler" where
  "set_backend i b S = S\<lparr>backends := (backends S)(i \<mapsto> b)\<rparr>"

definition set_connection :: "bytes \<Rightarrow> connectionState \<Rightarrow> 'f Scheduler \<Rightarrow> 'f Scheduler" where
  "set_connection i c S = S\<lparr>connections := (connections S)(i \<mapsto> c)\<rparr>"

definition signalCapacityLocked :: "'f Scheduler \<Rightarrow> 'f Scheduler" where
  "signalCapacityLocked S = S\<lparr>capacity := capacity S + 1\<rparr>"

definition capacitySignal :: "'f Scheduler \<Rightarrow> nat" where
  "capacitySignal S = capacity S"

definition reserveLocked :: "bytes \<Rightarrow> bytes \<Rightarrow> 'f Scheduler \<Rightarrow> Lease \<times> 'f Scheduler" where
  "reserveLocked bi ci S =
     (let b = backend S bi; c = connection S ci in
      (\<lparr>TierID = b_tier b, BackendID = b_id b, ConnectionID = c_id c, l_Pool = c_pool c,
        token = Some (length (tokens S))\<rparr>,
       (set_connection ci (c\<lparr>c_pending := c_pending c + 1\<rparr>)
         (set_backend bi (b\<lparr>b_pending := b_pending b + 1\<rparr>) S))
           \<lparr>tokens := tokens S @ [\<lparr>k_backend = bi, k_connection = ci, released = False,
              latencyStored = False\<rparr>]\<rparr>))"

definition Release :: "Lease \<Rightarrow> 'f Scheduler \<Rightarrow> bool \<times> 'f Scheduler" where
  "Release lease S =
     (case token lease of None \<Rightarrow> (False, S)
      | Some k \<Rightarrow>
          let t = tokens S ! k in
          if released t then (False, S)
          else let S1 = S\<lparr>tokens := (tokens S)[k := t\<lparr>released := True\<rparr>]\<rparr>;
                   b = backend S1 (k_backend t);
                   S2 = (if b_pending b > 0
                     then set_backend (k_backend t) (b\<lparr>b_pending := b_pending b - 1\<rparr>) S1 else S1);
                   c = connection S2 (k_connection t);
                   S3 = (if c_pending c > 0
                     then set_connection (k_connection t) (c\<lparr>c_pending := c_pending c - 1\<rparr>) S2 else S2)
               in (True, signalCapacityLocked S3))"

definition SetConnectionState ::
  "bytes \<Rightarrow> ConnectionState \<Rightarrow> 'f Scheduler \<Rightarrow> sched_error option \<times> 'f Scheduler" where
  "SetConnectionState ci state S =
     (if \<not> validConnectionState state then (Some (InvalidConnectionState state), S)
      else case connections S ci of None \<Rightarrow> (Some (UnknownConnection ci), S)
        | Some c \<Rightarrow> if c_state c = state then (None, S)
            else (None, signalCapacityLocked (set_connection ci (c\<lparr>c_state := state\<rparr>) S)))"

section \<open>Selecting within a backend\<close>

definition tryBackendLocked ::
  "bytes \<Rightarrow> Pool \<Rightarrow> 'f Scheduler \<Rightarrow> (Lease option \<times> selectResult) \<times> 'f Scheduler" where
  "tryBackendLocked bi pool S =
     (let b = backend S bi; n = length (b_connections b) in
      if n = 0 then ((None, resultUnavailable), S)
      else if \<not> list_ex (\<lambda>ci. c_pool (connection S ci) = pool
          \<and> c_state (connection S ci) \<noteq> ConnectionUnavailable) (b_connections b)
      then ((None, resultUnavailable), S)
      else if atCapacity (b_pending b) (b_maxPending b) then ((None, resultBusy), S)
      else
        let start = nextConnection b ! pool in
        case find (\<lambda>index. let c = connection S (b_connections b ! index) in
            \<not> (c_pool c \<noteq> pool \<or> c_state c \<noteq> ConnectionReady \<or> atCapacity (c_pending c) (c_maxPending c)))
          (map (\<lambda>offset. (start + offset) mod n) [0..<n]) of
          None \<Rightarrow> ((None, resultBusy), S)
        | Some index \<Rightarrow>
            (case reserveLocked bi (b_connections b ! index)
                (set_backend bi (b\<lparr>nextConnection := (nextConnection b)[pool := (index + 1) mod n]\<rparr>) S) of
               (lease, S') \<Rightarrow> ((Some lease, resultSelected), S')))"

text \<open>
  Trying backends in an order until one is selected; each comes with its index in the tier. The
  flag remembers that one was busy.
\<close>

fun try_backends ::
  "(nat \<times> bytes) list \<Rightarrow> Pool \<Rightarrow> bool \<Rightarrow> 'f Scheduler \<Rightarrow>
   ((Lease \<times> nat) option \<times> selectResult) \<times> 'f Scheduler" where
  "try_backends [] pool busy S = ((None, if busy then resultBusy else resultUnavailable), S)"
| "try_backends ((index, bi) # rest) pool busy S =
     (case tryBackendLocked bi pool S of
        ((Some lease, resultSelected), S') \<Rightarrow> ((Some (lease, index), resultSelected), S')
      | ((_, result), S') \<Rightarrow> try_backends rest pool (busy \<or> result = resultBusy) S')"

section \<open>Policies\<close>

definition set_next :: "nat \<Rightarrow> nat \<Rightarrow> 'f Scheduler \<Rightarrow> 'f Scheduler" where
  "set_next ti i S = S\<lparr>tiers := (tiers S)[ti := (tiers S ! ti)\<lparr>next_backend := i\<rparr>]\<rparr>"

definition round_robin_order :: "tierState \<Rightarrow> (nat \<times> bytes) list" where
  "round_robin_order tier = map (\<lambda>offset.
     let index = (next_backend tier + offset) mod length (t_backends tier) in (index, t_backends tier ! index))
     [0..<length (t_backends tier)]"

text \<open>The loop that both round robin and the fallback of \<open>bestof\<close> run.\<close>

definition round_robin_from ::
  "nat \<Rightarrow> Pool \<Rightarrow> bool \<Rightarrow> 'f Scheduler \<Rightarrow> (Lease option \<times> selectResult) \<times> 'f Scheduler" where
  "round_robin_from ti pool busy S =
     (let tier = tiers S ! ti in
      case try_backends (round_robin_order tier) pool busy S of
        ((Some (lease, index), r), S') \<Rightarrow>
          ((Some lease, r), set_next ti ((index + 1) mod length (t_backends tier)) S')
      | ((None, r), S') \<Rightarrow> ((None, r), S'))"

definition selectRoundRobinLocked ::
  "nat \<Rightarrow> Pool \<Rightarrow> 'f Scheduler \<Rightarrow> (Lease option \<times> selectResult) \<times> 'f Scheduler" where
  "selectRoundRobinLocked ti pool S =
     (if t_backends (tiers S ! ti) = [] then ((None, resultUnavailable), S)
      else round_robin_from ti pool False S)"

text \<open>\<open>%\<close> of Go: the remainder has the sign of the dividend.\<close>

definition go_rem :: "int \<Rightarrow> int \<Rightarrow> int" where
  "go_rem a b = sgn a * (\<bar>a\<bar> mod \<bar>b\<bar>)"

definition randomNLocked :: "'f env \<Rightarrow> int \<Rightarrow> nat \<Rightarrow> int \<times> nat" where
  "randomNLocked E n k =
     (if n \<le> 1 then (0, k)
      else let v = go_rem (Intn E k n) n in (if v < 0 then v + n else v, k + 1))"

text \<open>One step of the insertion sort; the sorted prefix is kept reversed.\<close>

fun sink :: "('b \<Rightarrow> int) \<Rightarrow> 'b \<Rightarrow> 'b list \<Rightarrow> 'b list" where
  "sink w x [] = [x]"
| "sink w x (y # ys) = (if w x < w y then y # sink w x ys else x # y # ys)"

definition sort_by_weight :: "('b \<Rightarrow> int) \<Rightarrow> 'b list \<Rightarrow> 'b list" where
  "sort_by_weight w xs = rev (foldl (\<lambda>acc x. sink w x acc) [] xs)"

fun pick_weighted :: "('b \<Rightarrow> int) \<Rightarrow> int \<Rightarrow> nat \<Rightarrow> 'b list \<Rightarrow> nat option" where
  "pick_weighted w draw index [] = None"
| "pick_weighted w draw index (x # xs) =
     (if w x = 0 then pick_weighted w draw (index + 1) xs
      else if draw < w x then Some index
      else pick_weighted w (draw - w x) (index + 1) xs)"

fun shuffle_rest :: "'f env \<Rightarrow> nat \<Rightarrow> 'b list \<Rightarrow> nat \<Rightarrow> 'b list \<times> nat" where
  "shuffle_rest E 0 remaining k = ([], k)"
| "shuffle_rest E (Suc n) remaining k =
     (case randomNLocked E (int (length remaining)) k of (i, k1) \<Rightarrow>
        (case shuffle_rest E n (remove_at (nat i) remaining) k1 of (rest, k2) \<Rightarrow>
           (remaining ! nat i # rest, k2)))"

text \<open>The drawing loop; every round removes one backend, so \<open>length remaining\<close> rounds are enough.\<close>

fun draw_order :: "'f env \<Rightarrow> ('b \<Rightarrow> int) \<Rightarrow> nat \<Rightarrow> 'b list \<Rightarrow> nat \<Rightarrow> 'b list \<times> nat" where
  "draw_order E w 0 remaining k = ([], k)"
| "draw_order E w (Suc n) remaining k =
     (let total = sum_list (map w remaining) in
      if total = 0 then shuffle_rest E (length remaining) remaining k
      else
        let zeroWeight = (w (remaining ! 0) = 0);
            drawRange = (if zeroWeight then total + 1 else total) in
        case randomNLocked E drawRange k of (draw, k1) \<Rightarrow>
          let selected = (if zeroWeight \<and> draw = 0 then 0
                else case pick_weighted w (if zeroWeight then draw - 1 else draw) 0 remaining of
                  Some i \<Rightarrow> i | None \<Rightarrow> length remaining - 1) in
          case draw_order E w n (remove_at selected remaining) k1 of (rest, k2) \<Rightarrow>
            (remaining ! selected # rest, k2))"

definition weightedOrderLocked :: "'f env \<Rightarrow> ('b \<Rightarrow> int) \<Rightarrow> 'b list \<Rightarrow> nat \<Rightarrow> 'b list \<times> nat" where
  "weightedOrderLocked E w xs k = draw_order E w (length xs) (sort_by_weight w xs) k"

definition selectWeightedLocked ::
  "'f env \<Rightarrow> nat \<Rightarrow> Pool \<Rightarrow> 'f Scheduler \<Rightarrow> (Lease option \<times> selectResult) \<times> 'f Scheduler" where
  "selectWeightedLocked E ti pool S =
     (case weightedOrderLocked E (\<lambda>bi. weight (backend S bi)) (t_backends (tiers S ! ti)) (draws S) of
        (order, k) \<Rightarrow>
          (case try_backends (map (Pair 0) order) pool False (S\<lparr>draws := k\<rparr>) of
             ((l, r), S') \<Rightarrow> ((map_option fst l, r), S')))"

section \<open>Fitness\<close>

definition rollBackendFitnessLocked :: "'f env \<Rightarrow> int \<Rightarrow> 'f backendState \<Rightarrow> 'f backendState" where
  "rollBackendFitnessLocked E nowSecond b =
     (if nowSecond \<le> fitnessRolled b then b
      else
        let b1 = b\<lparr>fitnessRolled := nowSecond\<rparr>; steps = nowSecond - fitnessUpdated b in
        if weight b = 0 \<or> steps \<le> 0 then b1
        else
          let cnt = fitnessSamples b; total = fitnessTimeUS b;
              b2 = b1\<lparr>fitnessSamples := 0, fitnessTimeUS := f_of_int E 0\<rparr> in
          if cnt = 0 then b2
          else
            let latest = f_div E (f_mul E total (f_of_int E (weight b))) (f_of_int E (uint cnt));
                oldWeight = (if steps > 10 then f_of_int E 0
                  else if steps > 1 then Exp2 E (f_neg E (f_of_int E steps)) else f_half E) in
            b2\<lparr>fitnessUS := f_add E (f_mul E oldWeight (fitnessUS b))
                 (f_mul E (f_sub E (f_of_int E 1) oldWeight) latest),
               fitnessUpdated := nowSecond\<rparr>)"

definition roll_backends :: "'f env \<Rightarrow> int \<Rightarrow> bytes list \<Rightarrow> 'f Scheduler \<Rightarrow> 'f Scheduler" where
  "roll_backends E nowSecond bs S =
     foldl (\<lambda>S bi. set_backend bi (rollBackendFitnessLocked E nowSecond (backend S bi)) S) S bs"

definition rollBestOfFitnessLocked :: "'f env \<Rightarrow> int \<Rightarrow> 'f Scheduler \<Rightarrow> 'f Scheduler" where
  "rollBestOfFitnessLocked E nowSecond S =
     foldl (\<lambda>S tier. if policy tier \<noteq> PolicyBestOf then S
       else roll_backends E nowSecond (t_backends tier) S) S (tiers S)"

definition backendFitnessAt :: "'f env \<Rightarrow> 'f backendState \<Rightarrow> int \<times> int \<Rightarrow> 'f" where
  "backendFitnessAt E b time =
     (if fitnessSamples b = 0 then fitnessUS b
      else
        let latest = f_div E (f_mul E (fitnessTimeUS b) (f_of_int E (weight b)))
              (f_of_int E (uint (fitnessSamples b)));
            fraction = f_div E (f_of_int E (snd time div 1000)) (f_of_int E 1000000);
            oldWeight = Exp2 E (f_neg E fraction) in
        f_add E (f_mul E oldWeight (fitnessUS b)) (f_mul E (f_sub E (f_of_int E 1) oldWeight) latest))"

text \<open>The index of the first backend that is the given one; 0 when there is none.\<close>

definition backendIndex :: "bytes list \<Rightarrow> bytes \<Rightarrow> nat" where
  "backendIndex bs target = (case find (\<lambda>i. bs ! i = target) [0..<length bs] of Some i \<Rightarrow> i | None \<Rightarrow> 0)"

definition selectBestOfLocked ::
  "'f env \<Rightarrow> nat \<Rightarrow> Pool \<Rightarrow> 'f Scheduler \<Rightarrow> (Lease option \<times> selectResult) \<times> 'f Scheduler" where
  "selectBestOfLocked E ti pool S0 =
     (let time = now E (ticks S0);
          tier = tiers S0 ! ti;
          bs = t_backends tier;
          n = length bs;
          S = roll_backends E (fst time) bs (S0\<lparr>ticks := ticks S0 + 1\<rparr>) in
      if n < 2 then selectRoundRobinLocked ti pool S
      else case randomNLocked E (int n) (draws S) of (first, k1) \<Rightarrow>
        (case randomNLocked E (int n - 1) k1 of (second0, k2) \<Rightarrow>
          let second = (if second0 \<ge> first then second0 + 1 else second0);
              S1 = S\<lparr>draws := k2\<rparr>;
              firstIndex = (next_backend tier + nat first) mod n;
              secondIndex = (next_backend tier + nat second) mod n;
              preferred = (if f_less E (backendFitnessAt E (backend S1 (bs ! firstIndex)) time)
                  (backendFitnessAt E (backend S1 (bs ! secondIndex)) time)
                then bs ! firstIndex else bs ! secondIndex) in
          case tryBackendLocked preferred pool S1 of
            ((Some lease, resultSelected), S2) \<Rightarrow>
              ((Some lease, resultSelected), set_next ti ((backendIndex bs preferred + 1) mod n) S2)
          | ((_, preferredResult), S2) \<Rightarrow> round_robin_from ti pool (preferredResult = resultBusy) S2))"

section \<open>Selection\<close>

definition selectTierLocked ::
  "'f env \<Rightarrow> nat \<Rightarrow> Pool \<Rightarrow> 'f Scheduler \<Rightarrow> (Lease option \<times> selectResult) \<times> 'f Scheduler" where
  "selectTierLocked E ti pool S =
     (let p = policy (tiers S ! ti) in
      if p = PolicyRoundRobin then selectRoundRobinLocked ti pool S
      else if p = PolicyWeighted then selectWeightedLocked E ti pool S
      else if p = PolicyBestOf then selectBestOfLocked E ti pool S
      else ((None, resultUnavailable), S))"

record Affinity =
  a_BackendID :: bytes
  a_ConnectionID :: bytes

record SelectRequest =
  q_Pool :: Pool
  q_Affinity :: Affinity

definition selectConnectionAffinityLocked ::
  "SelectRequest \<Rightarrow> 'f Scheduler \<Rightarrow> (sched_error + Lease) \<times> 'f Scheduler" where
  "selectConnectionAffinityLocked request S =
     (let ci = a_ConnectionID (q_Affinity request); bi = a_BackendID (q_Affinity request) in
      case connections S ci of None \<Rightarrow> (Inl ErrUnavailable, S)
      | Some c \<Rightarrow>
          if bi \<noteq> [] \<and> bi \<noteq> b_id (backend S (c_backend c)) then (Inl ErrInvalidAffinity, S)
          else if c_pool c \<noteq> q_Pool request \<or> c_state c = ConnectionUnavailable then (Inl ErrUnavailable, S)
          else
            let b = backend S (c_backend c) in
            if atCapacity (b_pending b) (b_maxPending b) \<or> c_state c \<noteq> ConnectionReady
              \<or> atCapacity (c_pending c) (c_maxPending c) then (Inl ErrBusy, S)
            else (case reserveLocked (c_backend c) ci S of (lease, S') \<Rightarrow> (Inr lease, S')))"

definition selectionResult :: "Lease option \<Rightarrow> selectResult \<Rightarrow> sched_error + Lease" where
  "selectionResult lease result =
     (case result of resultSelected \<Rightarrow> Inr (the lease) | resultBusy \<Rightarrow> Inl ErrBusy
      | resultUnavailable \<Rightarrow> Inl ErrUnavailable)"

text \<open>The loop over the tiers from \<open>ti\<close> on.\<close>

fun select_tiers ::
  "'f env \<Rightarrow> nat \<Rightarrow> nat \<Rightarrow> Pool \<Rightarrow> 'f Scheduler \<Rightarrow> (sched_error + Lease) \<times> 'f Scheduler" where
  "select_tiers E 0 ti pool S = (Inl ErrUnavailable, S)"
| "select_tiers E (Suc n) ti pool S =
     (case selectTierLocked E ti pool S of ((lease, result), S') \<Rightarrow>
        (case result of resultSelected \<Rightarrow> (Inr (the lease), S')
         | resultBusy \<Rightarrow> (Inl ErrBusy, S')
         | resultUnavailable \<Rightarrow> select_tiers E n (ti + 1) pool S'))"

definition Select :: "'f env \<Rightarrow> SelectRequest \<Rightarrow> 'f Scheduler \<Rightarrow> (sched_error + Lease) \<times> 'f Scheduler" where
  "Select E request S =
     (let bi = a_BackendID (q_Affinity request) in
      if \<not> validPool (q_Pool request) then (Inl (InvalidPool (q_Pool request)), S)
      else if a_ConnectionID (q_Affinity request) \<noteq> [] then selectConnectionAffinityLocked request S
      else if bi \<noteq> [] then
        (case backends S bi of None \<Rightarrow> (Inl ErrUnavailable, S)
         | Some _ \<Rightarrow> (case tryBackendLocked bi (q_Pool request) S of
             ((lease, result), S') \<Rightarrow> (selectionResult lease result, S')))
      else select_tiers E (length (tiers S)) 0 (q_Pool request) S)"

definition reserveOwnedConnection ::
  "bytes \<Rightarrow> int \<Rightarrow> 'f Scheduler \<Rightarrow> (sched_error + Lease) \<times> 'f Scheduler" where
  "reserveOwnedConnection ci maxPending S =
     (if maxPending < 0 then (Inl NegativeOwnedLimit, S)
      else case connections S ci of None \<Rightarrow> (Inl ErrUnavailable, S)
        | Some c \<Rightarrow>
            if c_state c = ConnectionUnavailable then (Inl ErrUnavailable, S)
            else
              let b = backend S (c_backend c) in
              if atCapacity (b_pending b) (b_maxPending b) \<or> atCapacity (c_pending c) maxPending
              then (Inl ErrBusy, S)
              else (case reserveLocked (c_backend c) ci S of (lease, S') \<Rightarrow> (Inr lease, S')))"

definition reserveSignalingConnection ::
  "bytes \<Rightarrow> 'f Scheduler \<Rightarrow> (sched_error + Lease) \<times> 'f Scheduler" where
  "reserveSignalingConnection ci S =
     (case connections S ci of None \<Rightarrow> (Inl ErrUnavailable, S)
      | Some c \<Rightarrow>
          if c_state c = ConnectionUnavailable then (Inl ErrUnavailable, S)
          else (case reserveLocked (c_backend c) ci S of (lease, S') \<Rightarrow> (Inr lease, S')))"

section \<open>Observations\<close>

definition BackendAffinity :: "Lease \<Rightarrow> Affinity" where
  "BackendAffinity lease = \<lparr>a_BackendID = BackendID lease, a_ConnectionID = []\<rparr>"

definition ConnectionAffinity :: "Lease \<Rightarrow> Affinity" where
  "ConnectionAffinity lease = \<lparr>a_BackendID = BackendID lease, a_ConnectionID = ConnectionID lease\<rparr>"

definition RecordFirstResponse :: "'f env \<Rightarrow> Lease \<Rightarrow> int \<Rightarrow> 'f Scheduler \<Rightarrow> bool \<times> 'f Scheduler" where
  "RecordFirstResponse E lease latency S0 =
     (case token lease of None \<Rightarrow> (False, S0)
      | Some k \<Rightarrow>
          let t = tokens S0 ! k in
          if latency < 0 \<or> latencyStored t then (False, S0)
          else
            let S1 = S0\<lparr>tokens := (tokens S0)[k := t\<lparr>latencyStored := True\<rparr>]\<rparr>;
                b0 = backend S1 (k_backend t);
                best = (b_policy b0 = PolicyBestOf);
                b1 = (if best then
                    let r = rollBackendFitnessLocked E (fst (now E (ticks S1))) b0 in
                    r\<lparr>fitnessSamples := fitnessSamples r + 1,
                      fitnessTimeUS := f_add E (fitnessTimeUS r) (f_of_int E (latency div 1000))\<rparr>
                  else b0);
                S2 = (if best then S1\<lparr>ticks := ticks S1 + 1\<rparr> else S1);
                b2 = b1\<lparr>latencySamples := latencySamples b1 + 1\<rparr>;
                b3 = b2\<lparr>meanLatencyNS := f_add E (meanLatencyNS b2)
                  (f_div E (f_sub E (f_of_int E latency) (meanLatencyNS b2))
                    (f_of_int E (uint (latencySamples b2))))\<rparr>
            in (True, set_backend (k_backend t) b3 S2))"

definition Complete :: "'f env \<Rightarrow> Lease \<Rightarrow> int \<Rightarrow> 'f Scheduler \<Rightarrow> 'f Scheduler" where
  "Complete E lease latency S = snd (Release lease (snd (RecordFirstResponse E lease latency S)))"

record BackendSnapshot =
  bs_TierID :: bytes
  bs_BackendID :: bytes
  bs_Pending :: int
  bs_MaxPending :: int
  bs_FirstResponseSamples :: uint64
  bs_MeanFirstResponseLatency :: int

record ConnectionSnapshot =
  cs_BackendID :: bytes
  cs_ID :: bytes
  cs_Pool :: Pool
  cs_State :: ConnectionState
  cs_Pending :: int
  cs_MaxPending :: int

definition durationFromFloat :: "'f env \<Rightarrow> 'f \<Rightarrow> int" where
  "durationFromFloat E nanoseconds =
     (if f_le E (f_of_int E (2 ^ 63 - 1)) nanoseconds then 2 ^ 63 - 1
      else if f_le E nanoseconds (f_of_int E (- (2 ^ 63))) then - (2 ^ 63)
      else f_Round E nanoseconds)"

definition Snapshot ::
  "'f env \<Rightarrow> 'f Scheduler \<Rightarrow> (BackendSnapshot list \<times> ConnectionSnapshot list) \<times> 'f Scheduler" where
  "Snapshot E S0 =
     (let S = rollBestOfFitnessLocked E (fst (now E (ticks S0))) (S0\<lparr>ticks := ticks S0 + 1\<rparr>);
          bs = concat (map (\<lambda>tier. map (\<lambda>bi. (tier, backend S bi)) (t_backends tier)) (tiers S)) in
      ((map (\<lambda>(tier, b). \<lparr>bs_TierID = t_id tier, bs_BackendID = b_id b, bs_Pending = b_pending b,
           bs_MaxPending = b_maxPending b, bs_FirstResponseSamples = latencySamples b,
           bs_MeanFirstResponseLatency = durationFromFloat E (meanLatencyNS b)\<rparr>) bs,
        concat (map (\<lambda>(tier, b). map (\<lambda>ci. let c = connection S ci in
           \<lparr>cs_BackendID = b_id b, cs_ID = c_id c, cs_Pool = c_pool c, cs_State = c_state c,
            cs_Pending = c_pending c, cs_MaxPending = c_maxPending c\<rparr>) (b_connections b)) bs)), S))"

end
