(* ===== verification/Scheduler_Spec.thy ===== *)
theory Scheduler_Spec
  imports Scheduler
begin

text \<open>
  What the load balancer's scheduler promises (\<^verbatim>\<open>src/internal/lloadd/scheduler.go\<close>). An abstract
  scheduler keeps only what decisions depend on; the detailed one refines it, step by step, for
  every random source, clock and arithmetic of latencies. From the refinement follow the
  accounting of pending operations, that selection is exact, that waiting on a capacity
  generation misses no wakeup, and that a lease is released once.
\<close>

section \<open>The abstract scheduler\<close>

text \<open>
  What scheduling decisions depend on: the tiers in order, the limits and pending counts, the
  states of the connections, the live leases and the capacity generation. Rotation positions,
  draws, clocks and latencies are left out.
\<close>

record core_backend =
  cb_id :: bytes
  cb_tier :: bytes
  cb_max :: int
  cb_pending :: int
  cb_conns :: "bytes list"

record core =
  co_tiers :: "(Policy \<times> bytes list) list"
  co_backends :: "bytes \<rightharpoonup> core_backend"
  co_conns :: "bytes \<rightharpoonup> connectionState"
  co_capacity :: nat
  co_tokens :: "(bytes \<times> bytes \<times> bool) list"

definition core_b :: "'f backendState \<Rightarrow> core_backend" where
  "core_b b = \<lparr>cb_id = b_id b, cb_tier = b_tier b, cb_max = b_maxPending b, cb_pending = b_pending b,
     cb_conns = b_connections b\<rparr>"

definition core_of :: "'f Scheduler \<Rightarrow> core" where
  "core_of S = \<lparr>co_tiers = map (\<lambda>t. (policy t, t_backends t)) (tiers S),
     co_backends = (\<lambda>i. map_option core_b (backends S i)), co_conns = connections S,
     co_capacity = capacity S,
     co_tokens = map (\<lambda>t. (k_backend t, k_connection t, released t)) (tokens S)\<rparr>"

lemma core_b_sel [simp]:
  "cb_id (core_b b) = b_id b" "cb_tier (core_b b) = b_tier b" "cb_max (core_b b) = b_maxPending b"
  "cb_pending (core_b b) = b_pending b" "cb_conns (core_b b) = b_connections b"
  by (simp_all add: core_b_def)

lemma core_of_sel [simp]:
  "co_tiers (core_of S) = map (\<lambda>t. (policy t, t_backends t)) (tiers S)"
  "co_backends (core_of S) i = map_option core_b (backends S i)"
  "co_conns (core_of S) = connections S" "co_capacity (core_of S) = capacity S"
  "co_tokens (core_of S) = map (\<lambda>t. (k_backend t, k_connection t, released t)) (tokens S)"
  by (simp_all add: core_of_def)

subsection \<open>Decisions\<close>

definition established :: "core \<Rightarrow> Pool \<Rightarrow> bytes \<Rightarrow> bool" where
  "established K pool bi \<longleftrightarrow> (case co_backends K bi of None \<Rightarrow> False
     | Some b \<Rightarrow> list_ex (\<lambda>ci. case co_conns K ci of None \<Rightarrow> False
         | Some c \<Rightarrow> c_pool c = pool \<and> c_state c \<noteq> ConnectionUnavailable) (cb_conns b))"

definition free_connection :: "core \<Rightarrow> Pool \<Rightarrow> bytes \<Rightarrow> bool" where
  "free_connection K pool ci \<longleftrightarrow> (case co_conns K ci of None \<Rightarrow> False
     | Some c \<Rightarrow> c_pool c = pool \<and> c_state c = ConnectionReady \<and> \<not> atCapacity (c_pending c) (c_maxPending c))"

text \<open>A backend and one of its connections that can take an operation.\<close>

definition can_take :: "core \<Rightarrow> Pool \<Rightarrow> bytes \<Rightarrow> bytes \<Rightarrow> bool" where
  "can_take K pool bi ci \<longleftrightarrow> (case co_backends K bi of None \<Rightarrow> False
     | Some b \<Rightarrow> \<not> atCapacity (cb_pending b) (cb_max b) \<and> ci \<in> set (cb_conns b) \<and> free_connection K pool ci)"

text \<open>The backends of the first tier that has an established connection in the pool.\<close>

definition serving_tier :: "core \<Rightarrow> Pool \<Rightarrow> bytes list option" where
  "serving_tier K pool = find (list_ex (established K pool)) (map snd (co_tiers K))"

definition allowed :: "core \<Rightarrow> SelectRequest \<Rightarrow> bytes \<Rightarrow> bytes \<Rightarrow> bool" where
  "allowed K q bi ci \<longleftrightarrow>
     validPool (q_Pool q) \<and> can_take K (q_Pool q) bi ci \<and>
     (if a_ConnectionID (q_Affinity q) \<noteq> [] then
        ci = a_ConnectionID (q_Affinity q) \<and> (a_BackendID (q_Affinity q) \<noteq> [] \<longrightarrow> bi = a_BackendID (q_Affinity q))
      else if a_BackendID (q_Affinity q) \<noteq> [] then bi = a_BackendID (q_Affinity q)
      else (case serving_tier K (q_Pool q) of None \<Rightarrow> False | Some bs \<Rightarrow> bi \<in> set bs))"

definition refusal :: "core \<Rightarrow> SelectRequest \<Rightarrow> sched_error" where
  "refusal K q =
     (let ci = a_ConnectionID (q_Affinity q); bi = a_BackendID (q_Affinity q) in
      if \<not> validPool (q_Pool q) then InvalidPool (q_Pool q)
      else if ci \<noteq> [] then
        (case co_conns K ci of None \<Rightarrow> ErrUnavailable
         | Some c \<Rightarrow> if bi \<noteq> [] \<and> bi \<noteq> c_backend c then ErrInvalidAffinity
             else if c_pool c \<noteq> q_Pool q \<or> c_state c = ConnectionUnavailable then ErrUnavailable
             else ErrBusy)
      else if bi \<noteq> [] then (if established K (q_Pool q) bi then ErrBusy else ErrUnavailable)
      else (case serving_tier K (q_Pool q) of None \<Rightarrow> ErrUnavailable | Some _ \<Rightarrow> ErrBusy))"

subsection \<open>Steps\<close>

definition reserve_core :: "bytes \<Rightarrow> bytes \<Rightarrow> core \<Rightarrow> core" where
  "reserve_core bi ci K =
     (let b = the (co_backends K bi); c = the (co_conns K ci) in
      K\<lparr>co_backends := (co_backends K)(bi \<mapsto> b\<lparr>cb_pending := cb_pending b + 1\<rparr>),
        co_conns := (co_conns K)(ci \<mapsto> c\<lparr>c_pending := c_pending c + 1\<rparr>),
        co_tokens := co_tokens K @ [(bi, ci, False)]\<rparr>)"

definition release_core :: "nat \<Rightarrow> core \<Rightarrow> core" where
  "release_core k K =
     (case co_tokens K ! k of (bi, ci, _) \<Rightarrow>
      let b = the (co_backends K bi); c = the (co_conns K ci) in
      K\<lparr>co_backends := (co_backends K)(bi \<mapsto> b\<lparr>cb_pending := cb_pending b - 1\<rparr>),
        co_conns := (co_conns K)(ci \<mapsto> c\<lparr>c_pending := c_pending c - 1\<rparr>),
        co_tokens := (co_tokens K)[k := (bi, ci, True)],
        co_capacity := co_capacity K + 1\<rparr>)"

definition set_state_core :: "bytes \<Rightarrow> ConnectionState \<Rightarrow> core \<Rightarrow> core" where
  "set_state_core ci state K =
     K\<lparr>co_conns := (co_conns K)(ci \<mapsto> (the (co_conns K ci))\<lparr>c_state := state\<rparr>),
       co_capacity := co_capacity K + 1\<rparr>"

section \<open>The invariant\<close>

definition live_leases :: "core \<Rightarrow> (bytes \<times> bytes \<Rightarrow> bool) \<Rightarrow> int" where
  "live_leases K P = int (length (filter (\<lambda>(bi, ci, rel). \<not> rel \<and> P (bi, ci)) (co_tokens K)))"

text \<open>
  Every name in a list is a key, a connection belongs to the backend that lists it, leases point
  at existing connections, and every pending count is the number of live leases.
\<close>

definition tiers_ok :: "core \<Rightarrow> bool" where
  "tiers_ok K \<longleftrightarrow> (\<forall>t\<in>set (co_tiers K). validPolicy (fst t) \<and> (\<forall>bi\<in>set (snd t). co_backends K bi \<noteq> None))"

definition listed :: "core \<Rightarrow> bytes \<Rightarrow> bytes \<Rightarrow> bool" where
  "listed K bi ci \<longleftrightarrow> (\<exists>c. co_conns K ci = Some c \<and> c_backend c = bi)"

definition backends_ok :: "core \<Rightarrow> bool" where
  "backends_ok K \<longleftrightarrow> (\<forall>bi b. co_backends K bi = Some b \<longrightarrow> cb_id b = bi \<and>
     (\<forall>ci\<in>set (cb_conns b). listed K bi ci) \<and> cb_pending b = live_leases K (\<lambda>l. fst l = bi))"

definition conns_ok :: "core \<Rightarrow> bool" where
  "conns_ok K \<longleftrightarrow> (\<forall>ci c. co_conns K ci = Some c \<longrightarrow> c_id c = ci \<and>
     (\<exists>b. co_backends K (c_backend c) = Some b \<and> ci \<in> set (cb_conns b)) \<and>
     c_pending c = live_leases K (\<lambda>l. snd l = ci))"

definition tokens_ok :: "core \<Rightarrow> bool" where
  "tokens_ok K \<longleftrightarrow> (\<forall>t\<in>set (co_tokens K). listed K (fst t) (fst (snd t)))"

definition core_wf :: "core \<Rightarrow> bool" where
  "core_wf K \<longleftrightarrow> tiers_ok K \<and> backends_ok K \<and> conns_ok K \<and> tokens_ok K"

lemma core_wf_conn:
  assumes "core_wf K" "co_conns K ci = Some c"
  obtains b where "co_backends K (c_backend c) = Some b" "ci \<in> set (cb_conns b)" "c_id c = ci"
    "cb_id b = c_backend c"
proof -
  from assms obtain b where b: "co_backends K (c_backend c) = Some b" "ci \<in> set (cb_conns b)" "c_id c = ci"
    unfolding core_wf_def conns_ok_def by blast
  moreover have "cb_id b = c_backend c" using assms(1) b(1) unfolding core_wf_def backends_ok_def by blast
  ultimately show ?thesis using that by blast
qed

text \<open>
  A step that changes the pending counts of one backend and of one of its connections, and the
  leases with them, or the state of a connection, keeps the invariant.
\<close>

lemma core_wf_step:
  assumes wf: "core_wf K" and c: "co_conns K ci = Some c" and b: "co_backends K (c_backend c) = Some b"
    and K': "co_tiers K' = co_tiers K"
      "co_backends K' = (co_backends K)(c_backend c \<mapsto> b\<lparr>cb_pending := cb_pending b + d\<rparr>)"
      "co_conns K' = (co_conns K)(ci \<mapsto> c')"
    and c': "c_id c' = c_id c" "c_backend c' = c_backend c" "c_pending c' = c_pending c + d"
    and live: "\<And>P. live_leases K' P = live_leases K P + (if P (c_backend c, ci) then d else 0)"
    and tok: "\<And>t. t \<in> set (co_tokens K') \<Longrightarrow> (\<exists>rel. (fst t, fst (snd t), rel) \<in> set (co_tokens K))
      \<or> (fst t, fst (snd t)) = (c_backend c, ci)"
  shows "core_wf K'"
proof -
  have dom: "co_backends K' x \<noteq> None \<longleftrightarrow> co_backends K x \<noteq> None" for x by (simp add: K' b)
  have list: "listed K' x y" if "listed K x y" for x y using that c c' by (auto simp: listed_def K')
  have "tiers_ok K'" using wf dom by (simp add: core_wf_def tiers_ok_def K'(1))
  moreover have "tokens_ok K'"
  proof -
    have "listed K (c_backend c) ci" using c by (simp add: listed_def)
    with wf tok show ?thesis unfolding core_wf_def tokens_ok_def by (metis fst_conv list prod.inject snd_conv)
  qed
  moreover have "backends_ok K'"
    using wf b unfolding core_wf_def backends_ok_def by (auto simp: K'(2) live intro: list)
  moreover have "conns_ok K'"
  proof -
    have old: "c_id e = x \<and> (\<exists>b. co_backends K (c_backend e) = Some b \<and> x \<in> set (cb_conns b)) \<and>
        c_pending e = live_leases K (\<lambda>l. snd l = x)" if "co_conns K x = Some e" for x e
      using wf that by (simp add: core_wf_def conns_ok_def)
    have "x \<in> set (cb_conns b)" if "co_conns K x = Some e" "c_backend e = c_backend c" for x e
      using old [OF that(1)] that(2) b by auto
    with old c c' show ?thesis unfolding conns_ok_def by (auto simp: K'(2,3) live)
  qed
  ultimately show ?thesis by (simp add: core_wf_def)
qed

lemma live_leases_append:
  "live_leases (K\<lparr>co_backends := B, co_conns := C, co_tokens := co_tokens K @ [(bi, ci, False)]\<rparr>) P
     = live_leases K P + (if P (bi, ci) then 1 else 0)"
  by (simp add: live_leases_def)

lemma length_filter_update:
  assumes "k < length xs" "Q (xs ! k)" "\<not> Q y"
  shows "length (filter Q xs) = Suc (length (filter Q (xs[k := y])))"
proof -
  have "xs = take k xs @ xs ! k # drop (Suc k) xs" using assms(1) by (simp add: id_take_nth_drop)
  then have "filter Q xs = filter Q (take k xs @ xs ! k # drop (Suc k) xs)" by simp
  then show ?thesis using assms by (simp add: upd_conv_take_nth_drop)
qed

lemma length_filter_same:
  assumes "k < length xs" "Q y = Q (xs ! k)"
  shows "length (filter Q (xs[k := y])) = length (filter Q xs)"
proof -
  have "xs = take k xs @ xs ! k # drop (Suc k) xs" using assms(1) by (simp add: id_take_nth_drop)
  then have "filter Q xs = filter Q (take k xs @ xs ! k # drop (Suc k) xs)" by simp
  then show ?thesis using assms by (simp add: upd_conv_take_nth_drop)
qed

lemma live_leases_release:
  assumes "k < length (co_tokens K)" "co_tokens K ! k = (bi, ci, False)"
  shows "live_leases (K\<lparr>co_backends := B, co_conns := C, co_tokens := (co_tokens K)[k := (bi, ci, True)],
      co_capacity := n\<rparr>) P = live_leases K P - (if P (bi, ci) then 1 else 0)"
proof (cases "P (bi, ci)")
  case True
  with assms length_filter_update [OF assms(1), of "\<lambda>(b, c, rel). \<not> rel \<and> P (b, c)" "(bi, ci, True)"]
  show ?thesis by (simp add: live_leases_def)
next
  case False
  with assms length_filter_same [OF assms(1), of "\<lambda>(b, c, rel). \<not> rel \<and> P (b, c)" "(bi, ci, True)"]
  show ?thesis by (simp add: live_leases_def)
qed

lemma reserve_core_wf:
  assumes "core_wf K" "co_conns K ci = Some c"
  shows "core_wf (reserve_core (c_backend c) ci K)"
proof -
  obtain b where b: "co_backends K (c_backend c) = Some b" using assms by (rule core_wf_conn)
  show ?thesis
    by (rule core_wf_step [OF assms b, where d = 1 and c' = "c\<lparr>c_pending := c_pending c + 1\<rparr>"])
      (auto simp: reserve_core_def Let_def assms(2) b live_leases_append)
qed

lemma release_core_wf:
  assumes "core_wf K" "k < length (co_tokens K)" "co_tokens K ! k = (bi, ci, False)"
  shows "core_wf (release_core k K)"
proof -
  have t: "(bi, ci, False) \<in> set (co_tokens K)" using assms(2,3) by (metis nth_mem)
  with assms(1) obtain c where c: "co_conns K ci = Some c" "bi = c_backend c"
    by (fastforce simp: core_wf_def tokens_ok_def listed_def)
  obtain b where b: "co_backends K (c_backend c) = Some b" using assms(1) c(1) by (rule core_wf_conn)
  have tok: "\<exists>rel. (fst x, fst (snd x), rel) \<in> set (co_tokens K)"
    if "x \<in> set ((co_tokens K)[k := (bi, ci, True)])" for x
  proof -
    from that have "x = (bi, ci, True) \<or> x \<in> set (co_tokens K)"
      using set_update_subset_insert [of "co_tokens K" k "(bi, ci, True)"] by blast
    with t show ?thesis by (metis fst_conv prod.collapse snd_conv)
  qed
  show ?thesis
    by (rule core_wf_step [OF assms(1) c(1) b, where d = "-1" and c' = "c\<lparr>c_pending := c_pending c - 1\<rparr>"])
      (use tok in \<open>auto simp: release_core_def Let_def assms(3) c b live_leases_release [OF assms(2) assms(3) [unfolded c(2)]]\<close>)
qed

lemma set_state_core_wf:
  assumes "core_wf K" "co_conns K ci = Some c"
  shows "core_wf (set_state_core ci state K)"
proof -
  obtain b where b: "co_backends K (c_backend c) = Some b" using assms by (rule core_wf_conn)
  show ?thesis
    by (rule core_wf_step [OF assms b, where d = 0 and c' = "c\<lparr>c_state := state\<rparr>"])
      (auto simp: set_state_core_def assms(2) b live_leases_def)
qed

section \<open>Weighted orders\<close>

lemma remove_at_mset: "i < length xs \<Longrightarrow> add_mset (xs ! i) (mset (remove_at i xs)) = mset xs"
proof -
  assume "i < length xs"
  then have "mset xs = mset (take i xs @ xs ! i # drop (Suc i) xs)" by (simp add: id_take_nth_drop [symmetric])
  then show ?thesis by (simp add: remove_at_def)
qed

lemma length_remove_at: "i < length xs \<Longrightarrow> length (remove_at i xs) = length xs - 1"
  by (simp add: remove_at_def)

lemma randomNLocked_range: "1 \<le> n \<Longrightarrow> 0 \<le> fst (randomNLocked E n k) \<and> fst (randomNLocked E n k) < n"
proof (cases "n \<le> 1")
  case False
  let ?m = "\<bar>Intn E k n\<bar> mod n"
  have m: "0 \<le> ?m" "?m < n" using False by simp_all
  have "go_rem (Intn E k n) n = ?m \<or> go_rem (Intn E k n) n = - ?m \<or> go_rem (Intn E k n) n = 0"
    using False by (cases "Intn E k n" "0::int" rule: linorder_cases) (auto simp: go_rem_def)
  with m have "\<bar>go_rem (Intn E k n) n\<bar> < n" by linarith
  with False show ?thesis by (simp add: randomNLocked_def Let_def) linarith
qed (simp add: randomNLocked_def)

lemma shuffle_rest_mset: "n = length xs \<Longrightarrow> mset (fst (shuffle_rest E n xs k)) = mset xs"
proof (induction n arbitrary: xs k)
  case (Suc n)
  obtain i k1 where r: "randomNLocked E (int (length xs)) k = (i, k1)" by fastforce
  then have "nat i < length xs" using randomNLocked_range [of "int (length xs)" E k] Suc.prems by auto
  moreover obtain rest k2 where "shuffle_rest E n (remove_at (nat i) xs) k1 = (rest, k2)" by fastforce
  ultimately show ?case
    using Suc.IH [of "remove_at (nat i) xs" k1] Suc.prems [symmetric] r remove_at_mset [of "nat i" xs]
    by (simp add: length_remove_at)
qed simp

lemma pick_weighted_less: "pick_weighted w d j xs = Some i \<Longrightarrow> i < j + length xs"
  by (induction w d j xs rule: pick_weighted.induct) (auto split: if_splits)

lemma draw_order_mset: "n = length xs \<Longrightarrow> mset (fst (draw_order E w n xs k)) = mset xs"
proof (induction n arbitrary: xs k)
  case (Suc n)
  let ?total = "sum_list (map w xs)"
  let ?zero = "w (xs ! 0) = 0"
  show ?case
  proof (cases "?total = 0")
    case True
    then have "draw_order E w (Suc n) xs k = shuffle_rest E (length xs) xs k" by simp
    then show ?thesis by (simp only: shuffle_rest_mset)
  next
    case False
    obtain d k1 where d: "randomNLocked E (if ?zero then ?total + 1 else ?total) k = (d, k1)" by fastforce
    define s where "s = (if ?zero \<and> d = 0 then 0
      else case pick_weighted w (if ?zero then d - 1 else d) 0 xs of Some i \<Rightarrow> i | None \<Rightarrow> length xs - 1)"
    have s: "s < length xs"
      using Suc.prems by (auto simp: s_def split: option.splits dest: pick_weighted_less)
    obtain rest k2 where r: "draw_order E w n (remove_at s xs) k1 = (rest, k2)" by fastforce
    have "fst (draw_order E w (Suc n) xs k) = xs ! s # rest"
      using False d r by (simp add: Let_def s_def [symmetric])
    then show ?thesis
      using Suc.IH [of "remove_at s xs" k1] Suc.prems [symmetric] s r remove_at_mset [OF s]
      by (simp add: length_remove_at)
  qed
qed simp

lemma sort_by_weight_mset: "mset (sort_by_weight w xs) = mset xs"
proof -
  have sink: "mset (sink w x acc) = add_mset x (mset acc)" for x acc by (induction acc) auto
  have "mset (foldl (\<lambda>acc x. sink w x acc) acc xs) = mset acc + mset xs" for acc
    by (induction xs arbitrary: acc) (simp_all add: sink)
  then show ?thesis by (simp add: sort_by_weight_def)
qed

lemma weightedOrder_mset: "mset (fst (weightedOrderLocked E w xs k)) = mset xs"
  unfolding weightedOrderLocked_def
  by (subst draw_order_mset) (simp_all add: sort_by_weight_mset flip: size_mset)

section \<open>Rotation\<close>

lemma rotation_set:
  assumes "0 < n"
  shows "set (map (\<lambda>offset. (start + offset) mod n) [0..<n]) = {..<n}"
proof -
  have "\<exists>offset<n. i = (start + offset) mod n" if "i < n" for i
  proof -
    let ?o = "(i + (n - start mod n)) mod n"
    have "(start + ?o) mod n = (start mod n + (i + (n - start mod n))) mod n"
      by (metis mod_add_left_eq mod_add_right_eq)
    also have "start mod n + (i + (n - start mod n)) = i + n"
      using mod_less_divisor [OF assms, of start] by linarith
    also have "(i + n) mod n = i" using that by simp
    finally show ?thesis using assms by (intro exI [of _ ?o]) simp
  qed
  with assms show ?thesis by (fastforce simp: image_def)
qed

section \<open>What the abstract scheduler sees\<close>

lemma core_of_set_backend:
  "backends S i = Some b \<Longrightarrow> core_b b' = core_b b \<Longrightarrow> core_of (set_backend i b' S) = core_of S"
  by (auto simp: core_of_def set_backend_def fun_eq_iff)

lemma core_of_set_next [simp]: "core_of (set_next ti i S) = core_of S"
proof -
  have "map (\<lambda>t. (policy t, t_backends t)) ((tiers S)[ti := (tiers S ! ti)\<lparr>next_backend := i\<rparr>])
      = map (\<lambda>t. (policy t, t_backends t)) (tiers S)"
    by (cases "ti < length (tiers S)") (auto simp: map_update list_update_same_conv list_update_beyond)
  then show ?thesis by (simp add: core_of_def set_next_def)
qed

lemma core_of_counters [simp]: "core_of (S\<lparr>draws := k\<rparr>) = core_of S" "core_of (S\<lparr>ticks := k\<rparr>) = core_of S"
  by (simp_all add: core_of_def)

lemma core_b_roll [simp]: "core_b (rollBackendFitnessLocked E t b) = core_b b"
  by (simp add: rollBackendFitnessLocked_def Let_def core_b_def)

lemma core_of_roll: "\<forall>bi\<in>set bs. backends S bi \<noteq> None \<Longrightarrow> core_of (roll_backends E t bs S) = core_of S"
proof (induction bs arbitrary: S)
  case (Cons bi bs)
  let ?S = "set_backend bi (rollBackendFitnessLocked E t (backend S bi)) S"
  from Cons.prems obtain b where b: "backends S bi = Some b" by auto
  then have "core_of ?S = core_of S" by (intro core_of_set_backend) simp_all
  moreover have "\<forall>bi\<in>set bs. backends ?S bi \<noteq> None" using Cons.prems by (auto simp: set_backend_def)
  ultimately show ?case using Cons.IH [of ?S] by (simp add: roll_backends_def)
qed (simp add: roll_backends_def)

lemma core_eq_backends:
  assumes "core_of S' = core_of S"
  shows "backends S' i = None \<longleftrightarrow> backends S i = None" "map (\<lambda>t. (policy t, t_backends t)) (tiers S') = map (\<lambda>t. (policy t, t_backends t)) (tiers S)"
proof -
  have "co_backends (core_of S') i = co_backends (core_of S) i" "co_tiers (core_of S') = co_tiers (core_of S)"
    using assms by simp_all
  then show "backends S' i = None \<longleftrightarrow> backends S i = None"
    "map (\<lambda>t. (policy t, t_backends t)) (tiers S') = map (\<lambda>t. (policy t, t_backends t)) (tiers S)"
    by (simp_all, metis map_option_is_None)
qed

lemma core_reserve:
  assumes "backends S bi = Some b" "connections S ci = Some c"
  shows "core_of (snd (reserveLocked bi ci S)) = reserve_core bi ci (core_of S)"
    "fst (reserveLocked bi ci S) = \<lparr>TierID = b_tier b, BackendID = b_id b, ConnectionID = c_id c,
       l_Pool = c_pool c, token = Some (length (tokens S))\<rparr>"
  using assms
  by (auto simp: reserveLocked_def reserve_core_def core_of_def Let_def set_backend_def
      set_connection_def core_b_def fun_eq_iff)

section \<open>One backend\<close>

text \<open>A lease on backend \<open>bi\<close> was given and reserved.\<close>

definition taken :: "core \<Rightarrow> Pool \<Rightarrow> bytes \<Rightarrow> Lease \<Rightarrow> core \<Rightarrow> bool" where
  "taken K pool bi lease K' \<longleftrightarrow> (\<exists>ci b. can_take K pool bi ci \<and> K' = reserve_core bi ci K \<and>
     co_backends K bi = Some b \<and>
     lease = \<lparr>TierID = cb_tier b, BackendID = bi, ConnectionID = ci, l_Pool = pool,
       token = Some (length (co_tokens K))\<rparr>)"

definition can_serve :: "core \<Rightarrow> Pool \<Rightarrow> bytes \<Rightarrow> bool" where
  "can_serve K pool bi \<longleftrightarrow> (\<exists>ci. can_take K pool bi ci)"

lemma can_serve_established: "can_serve K pool bi \<Longrightarrow> established K pool bi"
  by (fastforce simp: can_serve_def can_take_def established_def free_connection_def list_ex_iff
      ConnectionReady_def ConnectionUnavailable_def split: option.splits)

lemma tryBackend_spec:
  assumes wf: "core_wf (core_of S)" and b: "backends S bi = Some b"
  shows "if can_serve (core_of S) pool bi then
      \<exists>lease S'. tryBackendLocked bi pool S = ((Some lease, resultSelected), S') \<and>
        taken (core_of S) pool bi lease (core_of S')
    else tryBackendLocked bi pool S =
      ((None, if established (core_of S) pool bi then resultBusy else resultUnavailable), S)"
proof -
  let ?K = "core_of S"
  let ?cs = "b_connections b"
  let ?n = "length ?cs"
  let ?free = "\<lambda>index. let c = connection S (?cs ! index) in
    \<not> (c_pool c \<noteq> pool \<or> c_state c \<noteq> ConnectionReady \<or> atCapacity (c_pending c) (c_maxPending c))"
  let ?order = "map (\<lambda>offset. (nextConnection b ! pool + offset) mod ?n) [0..<?n]"
  have kb: "co_backends ?K bi = Some (core_b b)" using b by simp
  have conn: "\<exists>c. connections S ci = Some c \<and> c_id c = ci" if "ci \<in> set ?cs" for ci
  proof -
    have "listed ?K bi ci" using wf kb that unfolding core_wf_def backends_ok_def by fastforce
    then obtain c where c: "co_conns ?K ci = Some c" by (auto simp: listed_def)
    with wf have "c_id c = ci" unfolding core_wf_def conns_ok_def by blast
    with c show ?thesis by simp
  qed
  have est: "established ?K pool bi \<longleftrightarrow> list_ex (\<lambda>ci. c_pool (connection S ci) = pool
      \<and> c_state (connection S ci) \<noteq> ConnectionUnavailable) ?cs"
    using conn by (auto simp: established_def b list_ex_iff split: option.splits) (metis option.sel)+
  have free: "free_connection ?K pool (?cs ! i) \<longleftrightarrow> ?free i" if "i < ?n" for i
    using conn [OF nth_mem [OF that]] by (auto simp: free_connection_def Let_def)
  have serve: "can_serve ?K pool bi \<longleftrightarrow> \<not> atCapacity (b_pending b) (b_maxPending b) \<and> (\<exists>i<?n. ?free i)"
    using free by (auto simp: can_serve_def can_take_def b in_set_conv_nth simp del: Let_def)
  show ?thesis
  proof (cases "established ?K pool bi")
    case False
    with can_serve_established est b show ?thesis by (auto simp: tryBackendLocked_def Let_def)
  next
    case True
    then have n: "0 < ?n" using est by (cases ?cs) auto
    show ?thesis
    proof (cases "atCapacity (b_pending b) (b_maxPending b)")
      case True
      with serve est \<open>established ?K pool bi\<close> n b show ?thesis by (auto simp: tryBackendLocked_def Let_def)
    next
      case room: False
      show ?thesis
      proof (cases "find ?free ?order")
        case None
        then have "\<not> ?free i" if "i < ?n" for i
        proof -
          have "i \<in> set ?order" unfolding rotation_set [OF n] using that by simp
          with None show ?thesis unfolding find_None_iff by blast
        qed
        then have "\<not> can_serve ?K pool bi" using serve by blast
        with None est True n room b show ?thesis by (simp add: tryBackendLocked_def Let_def)
      next
        case (Some i)
        have i: "i < ?n" "?free i"
        proof -
          from Some have "i \<in> set ?order" "?free i" unfolding find_Some_iff by (metis nth_mem)+
          then show "i < ?n" "?free i" unfolding rotation_set [OF n] by simp_all
        qed
        let ?b = "b\<lparr>nextConnection := (nextConnection b)[pool := (i + 1) mod ?n]\<rparr>"
        let ?S = "set_backend bi ?b S"
        obtain c where c: "connections S (?cs ! i) = Some c" "c_id c = ?cs ! i" using conn [OF nth_mem [OF i(1)]] by blast
        have K: "core_of ?S = ?K" using b by (intro core_of_set_backend) (simp_all add: core_b_def)
        have "backends ?S bi = Some ?b" "connections ?S (?cs ! i) = Some c"
          using c by (simp_all add: set_backend_def)
        note r = core_reserve [OF this]
        have "can_take ?K pool bi (?cs ! i)"
          using room i free [OF i(1)] b by (simp add: can_take_def)
        moreover have "b_id b = bi" using wf kb unfolding core_wf_def backends_ok_def by fastforce
        moreover have "c_pool c = pool" using i(2) c by (simp add: Let_def)
        moreover have "tokens ?S = tokens S" by (simp add: set_backend_def)
        ultimately have "taken ?K pool bi (fst (reserveLocked bi (?cs ! i) ?S)) (core_of (snd (reserveLocked bi (?cs ! i) ?S)))"
          using r c K b by (auto simp: taken_def)
        moreover have "tryBackendLocked bi pool S = ((Some (fst (reserveLocked bi (?cs ! i) ?S)), resultSelected),
            snd (reserveLocked bi (?cs ! i) ?S))"
          using Some est True n room b by (simp add: tryBackendLocked_def Let_def split: prod.splits)
        moreover have "can_serve ?K pool bi" using serve room i by blast
        ultimately show ?thesis by auto
      qed
    qed
  qed
qed

section \<open>One tier\<close>

lemma try_backends_spec:
  assumes "core_wf (core_of S)" "\<forall>x\<in>set xs. backends S (snd x) \<noteq> None"
  shows "if \<exists>x\<in>set xs. can_serve (core_of S) pool (snd x) then
      \<exists>lease i bi S'. try_backends xs pool busy S = ((Some (lease, i), resultSelected), S') \<and>
        (i, bi) \<in> set xs \<and> taken (core_of S) pool bi lease (core_of S')
    else try_backends xs pool busy S =
      ((None, if busy \<or> (\<exists>x\<in>set xs. established (core_of S) pool (snd x)) then resultBusy
        else resultUnavailable), S)"
  using assms(2)
proof (induction xs arbitrary: busy)
  case (Cons x xs)
  obtain i bi where x: "x = (i, bi)" by fastforce
  from Cons.prems x obtain b where b: "backends S bi = Some b" by auto
  note spec = tryBackend_spec [OF assms(1) b, of pool]
  show ?case
  proof (cases "can_serve (core_of S) pool bi")
    case True
    with spec obtain lease S' where "tryBackendLocked bi pool S = ((Some lease, resultSelected), S')"
      "taken (core_of S) pool bi lease (core_of S')" by auto
    with True x show ?thesis by auto
  next
    case False
    then have t: "tryBackendLocked bi pool S =
        ((None, if established (core_of S) pool bi then resultBusy else resultUnavailable), S)"
      using spec by simp
    have r: "try_backends (x # xs) pool busy S = try_backends xs pool (busy \<or> established (core_of S) pool bi) S"
      using t x by simp
    have "\<forall>x\<in>set xs. backends S (snd x) \<noteq> None" using Cons.prems by simp
    from Cons.IH [OF this, of "busy \<or> established (core_of S) pool bi"] False x show ?thesis
      unfolding r by (auto split: if_splits)
  qed
qed simp

text \<open>What trying the backends \<open>bs\<close> of a tier may return.\<close>

definition tier_result ::
  "core \<Rightarrow> Pool \<Rightarrow> bytes list \<Rightarrow> (Lease option \<times> selectResult) \<times> 'f Scheduler \<Rightarrow> bool" where
  "tier_result K pool bs out \<longleftrightarrow>
     (if list_ex (can_serve K pool) bs then
        \<exists>lease bi S'. out = ((Some lease, resultSelected), S') \<and> bi \<in> set bs \<and> taken K pool bi lease (core_of S')
      else \<exists>S'. out = ((None, if list_ex (established K pool) bs then resultBusy else resultUnavailable), S')
        \<and> core_of S' = K)"

lemma round_robin_order_set:
  "snd ` set (round_robin_order tier) = set (t_backends tier)"
proof (cases "t_backends tier = []")
  case False
  let ?bs = "t_backends tier"
  let ?idx = "\<lambda>offset. (next_backend tier + offset) mod length ?bs"
  have "snd ` set (round_robin_order tier) = (\<lambda>i. ?bs ! i) ` set (map ?idx [0..<length ?bs])"
    by (auto simp: round_robin_order_def Let_def image_def)
  also have "\<dots> = (\<lambda>i. ?bs ! i) ` {..<length ?bs}"
    using rotation_set [of "length ?bs" "next_backend tier"] False by simp
  also have "\<dots> = set ?bs" by (auto simp: in_set_conv_nth image_def)
  finally show ?thesis .
qed (simp add: round_robin_order_def)

lemma round_robin_result:
  assumes wf: "core_wf (core_of S)" and dom: "\<forall>bi\<in>set (t_backends (tiers S ! ti)). backends S bi \<noteq> None"
    and busy: "busy \<longrightarrow> list_ex (established (core_of S) pool) (t_backends (tiers S ! ti))"
  shows "tier_result (core_of S) pool (t_backends (tiers S ! ti)) (round_robin_from ti pool busy S)"
proof -
  let ?tier = "tiers S ! ti"
  let ?xs = "round_robin_order ?tier"
  have set: "snd ` set ?xs = set (t_backends ?tier)" by (rule round_robin_order_set)
  have ex: "(\<exists>x\<in>set ?xs. P (snd x)) \<longleftrightarrow> list_ex P (t_backends ?tier)" for P
    unfolding list_ex_iff set [symmetric] by simp
  have "\<forall>x\<in>set ?xs. backends S (snd x) \<noteq> None" using dom unfolding set [symmetric] by blast
  note spec = try_backends_spec [OF wf this, of pool busy, unfolded ex]
  show ?thesis
  proof (cases "list_ex (can_serve (core_of S) pool) (t_backends ?tier)")
    case True
    with spec obtain lease i bi S' where t: "try_backends ?xs pool busy S = ((Some (lease, i), resultSelected), S')"
      "(i, bi) \<in> set ?xs" "taken (core_of S) pool bi lease (core_of S')" by auto
    then have "bi \<in> set (t_backends ?tier)" using set by force
    with True t show ?thesis by (auto simp: tier_result_def round_robin_from_def Let_def)
  next
    case False
    with spec busy show ?thesis by (auto simp: tier_result_def round_robin_from_def Let_def)
  qed
qed

lemma empty_tier_result: "tier_result (core_of S) pool [] ((None, resultUnavailable), S)"
  by (simp add: tier_result_def)

lemma selectRoundRobin_result:
  assumes "core_wf (core_of S)" "\<forall>bi\<in>set (t_backends (tiers S ! ti)). backends S bi \<noteq> None"
  shows "tier_result (core_of S) pool (t_backends (tiers S ! ti)) (selectRoundRobinLocked ti pool S)"
  using round_robin_result [OF assms, of False pool] empty_tier_result [of S pool]
  by (auto simp: selectRoundRobinLocked_def)

lemma selectWeighted_result:
  assumes wf: "core_wf (core_of S)" and dom: "\<forall>bi\<in>set (t_backends (tiers S ! ti)). backends S bi \<noteq> None"
  shows "tier_result (core_of S) pool (t_backends (tiers S ! ti)) (selectWeightedLocked E ti pool S)"
proof -
  let ?bs = "t_backends (tiers S ! ti)"
  obtain order k where o: "weightedOrderLocked E (\<lambda>bi. weight (backend S bi)) ?bs (draws S) = (order, k)"
    by fastforce
  then have set: "set order = set ?bs"
    using weightedOrder_mset [of E "\<lambda>bi. weight (backend S bi)" ?bs "draws S"] by (metis fst_conv set_mset_mset)
  let ?xs = "map (Pair 0) order :: (nat \<times> bytes) list"
  let ?S = "S\<lparr>draws := k\<rparr>"
  have ex: "(\<exists>x\<in>set ?xs. P (snd x)) \<longleftrightarrow> list_ex P ?bs" for P
    by (auto simp: list_ex_iff set)
  have "\<forall>x\<in>set ?xs. backends ?S (snd x) \<noteq> None" using dom set by auto
  from try_backends_spec [OF _ this, of pool False, unfolded ex] wf
  show ?thesis using o set
    by (cases "list_ex (can_serve (core_of S) pool) ?bs") (auto simp: tier_result_def selectWeightedLocked_def)
qed

lemma selectBestOf_result:
  assumes wf: "core_wf (core_of S)" and dom: "\<forall>bi\<in>set (t_backends (tiers S ! ti)). backends S bi \<noteq> None"
    and ti: "ti < length (tiers S)"
  shows "tier_result (core_of S) pool (t_backends (tiers S ! ti)) (selectBestOfLocked E ti pool S)"
proof -
  let ?bs = "t_backends (tiers S ! ti)"
  let ?n = "length ?bs"
  let ?time = "now E (ticks S)"
  let ?R = "roll_backends E (fst ?time) ?bs (S\<lparr>ticks := ticks S + 1\<rparr>)"
  have K: "core_of ?R = core_of S" using core_of_roll [of ?bs "S\<lparr>ticks := ticks S + 1\<rparr>"] dom by simp
  have same: "core_wf (core_of T)" "\<forall>bi\<in>set ?bs. backends T bi \<noteq> None" "t_backends (tiers T ! ti) = ?bs"
    if "core_of T = core_of S" for T :: "'a Scheduler"
  proof -
    show "core_wf (core_of T)" using wf that by simp
    show "\<forall>bi\<in>set ?bs. backends T bi \<noteq> None" using dom core_eq_backends(1) [OF that] by simp
    have eq: "map (\<lambda>t. (policy t, t_backends t)) (tiers T) = map (\<lambda>t. (policy t, t_backends t)) (tiers S)"
      using core_eq_backends(2) [OF that] .
    then have "length (tiers T) = length (tiers S)" by (metis length_map)
    with ti arg_cong [OF eq, of "\<lambda>xs. snd (xs ! ti)"] show "t_backends (tiers T ! ti) = ?bs" by simp
  qed
  show ?thesis
  proof (cases "?n < 2")
    case True
    with selectRoundRobin_result [of ?R ti pool] same [OF K] K show ?thesis
      by (simp add: selectBestOfLocked_def Let_def)
  next
    case False
    obtain first k1 where r1: "randomNLocked E (int ?n) (draws ?R) = (first, k1)" by fastforce
    obtain second0 k2 where r2: "randomNLocked E (int ?n - 1) k1 = (second0, k2)" by fastforce
    define second where "second = (if second0 \<ge> first then second0 + 1 else second0)"
    let ?T = "?R\<lparr>draws := k2\<rparr>"
    let ?i = "(next_backend (tiers S ! ti) + nat first) mod ?n"
    let ?j = "(next_backend (tiers S ! ti) + nat second) mod ?n"
    define pref where "pref = (if f_less E (backendFitnessAt E (backend ?T (?bs ! ?i)) ?time)
        (backendFitnessAt E (backend ?T (?bs ! ?j)) ?time) then ?bs ! ?i else ?bs ! ?j)"
    have KT: "core_of ?T = core_of S" using K by simp
    note T = same [OF KT]
    have "0 < ?n" using False by linarith
    then have "?bs ! ?i \<in> set ?bs" "?bs ! ?j \<in> set ?bs" by (intro nth_mem mod_less_divisor; simp)+
    then have pref: "pref \<in> set ?bs" by (simp add: pref_def)
    then obtain b where b: "backends ?T pref = Some b" using T(2) by blast
    have sel: "selectBestOfLocked E ti pool S = (case tryBackendLocked pref pool ?T of
        ((Some lease, resultSelected), S2) \<Rightarrow>
          ((Some lease, resultSelected), set_next ti ((backendIndex ?bs pref + 1) mod ?n) S2)
      | ((_, preferredResult), S2) \<Rightarrow> round_robin_from ti pool (preferredResult = resultBusy) S2)"
      unfolding selectBestOfLocked_def Let_def
      by (simp only: r1 r2 prod.case if_not_P [OF False] second_def [symmetric] pref_def [symmetric])
    note spec = tryBackend_spec [OF T(1) b, of pool, unfolded KT]
    show ?thesis
    proof (cases "can_serve (core_of S) pool pref")
      case True
      with spec pref show ?thesis unfolding sel by (auto simp: tier_result_def list_ex_iff)
    next
      case no: False
      let ?busy = "established (core_of S) pool pref"
      have "selectBestOfLocked E ti pool S = round_robin_from ti pool ?busy ?T"
        using spec no unfolding sel by simp
      moreover have "?busy \<longrightarrow> list_ex (established (core_of S) pool) ?bs" using pref by (auto simp: list_ex_iff)
      ultimately show ?thesis
        using round_robin_result [of ?T ti ?busy pool] T KT by simp
    qed
  qed
qed

lemma selectTier_result:
  assumes "core_wf (core_of S)" "ti < length (tiers S)"
  shows "tier_result (core_of S) pool (t_backends (tiers S ! ti)) (selectTierLocked E ti pool S)"
proof -
  have t: "(policy (tiers S ! ti), t_backends (tiers S ! ti)) \<in> set (co_tiers (core_of S))"
    using assms(2) by auto
  then have dom: "\<forall>bi\<in>set (t_backends (tiers S ! ti)). backends S bi \<noteq> None"
    and pol: "validPolicy (policy (tiers S ! ti))"
    using assms(1) unfolding core_wf_def tiers_ok_def by fastforce+
  show ?thesis
    using selectRoundRobin_result [OF assms(1) dom, of pool] selectWeighted_result [OF assms(1) dom, of pool E]
      selectBestOf_result [OF assms(1) dom assms(2), of pool E] pol
    by (auto simp: selectTierLocked_def Let_def validPolicy_def)
qed

section \<open>Falling back through the tiers\<close>

lemma taken_serve: "taken K pool bi lease K' \<Longrightarrow> can_serve K pool bi"
  by (auto simp: taken_def can_serve_def)

lemma select_tiers_spec:
  assumes "core_wf (core_of S)" "ti + n = length (tiers S)"
  shows "case find (list_ex (established (core_of S) pool)) (map t_backends (drop ti (tiers S))) of
      None \<Rightarrow> \<exists>S'. select_tiers E n ti pool S = (Inl ErrUnavailable, S') \<and> core_of S' = core_of S
    | Some bs \<Rightarrow>
        if list_ex (can_serve (core_of S) pool) bs then
          \<exists>lease bi S'. select_tiers E n ti pool S = (Inr lease, S') \<and> bi \<in> set bs \<and>
            taken (core_of S) pool bi lease (core_of S')
        else \<exists>S'. select_tiers E n ti pool S = (Inl ErrBusy, S') \<and> core_of S' = core_of S"
  using assms
proof (induction n arbitrary: ti S)
  case (Suc n)
  have ti: "ti < length (tiers S)" using Suc.prems by simp
  let ?bs = "t_backends (tiers S ! ti)"
  have d: "drop ti (tiers S) = tiers S ! ti # drop (ti + 1) (tiers S)"
    using ti by (simp add: Cons_nth_drop_Suc)
  note res = selectTier_result [OF Suc.prems(1) ti, of pool E]
  show ?case
  proof (cases "list_ex (established (core_of S) pool) ?bs")
    case True
    with res d show ?thesis
      by (cases "list_ex (can_serve (core_of S) pool) ?bs") (auto simp: tier_result_def)
  next
    case False
    then have "\<not> list_ex (can_serve (core_of S) pool) ?bs"
      using can_serve_established by (auto simp: list_ex_iff)
    with res False obtain S' where t: "selectTierLocked E ti pool S = ((None, resultUnavailable), S')"
      and K: "core_of S' = core_of S" by (auto simp: tier_result_def)
    have eq: "map (\<lambda>t. (policy t, t_backends t)) (tiers S') = map (\<lambda>t. (policy t, t_backends t)) (tiers S)"
      using core_eq_backends(2) [OF K] .
    then have len: "length (tiers S') = length (tiers S)" by (metis length_map)
    have "map t_backends (tiers S') = map t_backends (tiers S)"
      using arg_cong [OF eq, of "map snd"] by (simp add: comp_def)
    then have "map t_backends (drop (ti + 1) (tiers S')) = map t_backends (drop (ti + 1) (tiers S))"
      by (simp flip: drop_map)
    then have f: "find (list_ex (established (core_of S) pool)) (map t_backends (drop ti (tiers S)))
        = find (list_ex (established (core_of S) pool)) (map t_backends (drop (ti + 1) (tiers S')))"
      using d False by simp
    have step: "select_tiers E (Suc n) ti pool S = select_tiers E n (ti + 1) pool S'" using t by simp
    have "core_wf (core_of S')" "ti + 1 + n = length (tiers S')" using Suc.prems K len by simp_all
    from Suc.IH [OF this] show ?thesis unfolding f step K .
  qed
qed simp

section \<open>Selection refines the specification\<close>

lemma serving_tier_drop: "serving_tier (core_of S) pool
    = find (list_ex (established (core_of S) pool)) (map t_backends (drop 0 (tiers S)))"
  by (simp add: serving_tier_def comp_def)

lemma can_take_listed:
  assumes "core_wf K" "can_take K pool bi ci"
  obtains b c where "co_backends K bi = Some b" "co_conns K ci = Some c" "c_backend c = bi"
proof -
  from assms(2) obtain b where b: "co_backends K bi = Some b" "ci \<in> set (cb_conns b)"
    by (auto simp: can_take_def split: option.splits)
  with assms(1) have "listed K bi ci" unfolding core_wf_def backends_ok_def by blast
  with b that show ?thesis by (auto simp: listed_def)
qed

lemma taken_granted:
  assumes "taken K (q_Pool q) bi lease K'" "\<And>ci. can_take K (q_Pool q) bi ci \<Longrightarrow> allowed K q bi ci"
  shows "allowed K q (BackendID lease) (ConnectionID lease) \<and>
     K' = reserve_core (BackendID lease) (ConnectionID lease) K \<and>
     TierID lease = cb_tier (the (co_backends K (BackendID lease))) \<and> l_Pool lease = q_Pool q \<and>
     token lease = Some (length (co_tokens K))"
  using assms by (auto simp: taken_def)

text \<open>A selection that is granted, and one that is refused.\<close>

definition granted :: "core \<Rightarrow> SelectRequest \<Rightarrow> Lease \<Rightarrow> core \<Rightarrow> bool" where
  "granted K q lease K' \<longleftrightarrow> allowed K q (BackendID lease) (ConnectionID lease) \<and>
     K' = reserve_core (BackendID lease) (ConnectionID lease) K \<and>
     TierID lease = cb_tier (the (co_backends K (BackendID lease))) \<and> l_Pool lease = q_Pool q \<and>
     token lease = Some (length (co_tokens K))"

definition refused :: "core \<Rightarrow> SelectRequest \<Rightarrow> sched_error \<Rightarrow> core \<Rightarrow> bool" where
  "refused K q e K' \<longleftrightarrow> e = refusal K q \<and> K' = K \<and> (\<forall>bi ci. \<not> allowed K q bi ci)"

definition select_ok :: "core \<Rightarrow> SelectRequest \<Rightarrow> (sched_error + Lease) \<times> core \<Rightarrow> bool" where
  "select_ok K q out \<longleftrightarrow>
     (case out of (Inr lease, K') \<Rightarrow> granted K q lease K' | (Inl e, K') \<Rightarrow> refused K q e K')"

lemma select_by_connection:
  assumes wf: "core_wf (core_of S)" and pool: "validPool (q_Pool q)" and ci: "a_ConnectionID (q_Affinity q) \<noteq> []"
  shows "select_ok (core_of S) q (map_prod id core_of (selectConnectionAffinityLocked q S))"
proof -
  let ?ci = "a_ConnectionID (q_Affinity q)" and ?bi = "a_BackendID (q_Affinity q)"
  let ?K = "core_of S"
  have al: "allowed ?K q bi cj \<longleftrightarrow> can_take ?K (q_Pool q) bi cj \<and> cj = ?ci \<and> (?bi \<noteq> [] \<longrightarrow> bi = ?bi)" for bi cj
    using pool ci by (simp add: allowed_def)
  show ?thesis
  proof (cases "connections S ?ci")
    case None
    then have "\<not> allowed ?K q bi cj" for bi cj
      unfolding al by (auto simp: can_take_def free_connection_def split: option.splits)
    with None pool ci show ?thesis
      by (simp add: selectConnectionAffinityLocked_def select_ok_def refused_def refusal_def Let_def)
  next
    case (Some c)
    then have Kc: "co_conns ?K ?ci = Some c" by simp
    from core_wf_conn [OF wf Kc] obtain kb where kb: "co_backends ?K (c_backend c) = Some kb"
      "?ci \<in> set (cb_conns kb)" "c_id c = ?ci" "cb_id kb = c_backend c" .
    then obtain b where b: "backends S (c_backend c) = Some b" "kb = core_b b" by auto
    have owner: "bi = c_backend c" if can: "can_take ?K (q_Pool q) bi ?ci" for bi
    proof -
      obtain c' where "co_conns ?K ?ci = Some c'" "c_backend c' = bi" using can_take_listed [OF wf can] by blast
      with Kc show ?thesis by simp
    qed
    have take: "can_take ?K (q_Pool q) (c_backend c) ?ci \<longleftrightarrow> c_pool c = q_Pool q \<and> c_state c = ConnectionReady \<and>
        \<not> atCapacity (b_pending b) (b_maxPending b) \<and> \<not> atCapacity (c_pending c) (c_maxPending c)"
      using kb(2) b Some by (auto simp: can_take_def free_connection_def)
    have al': "allowed ?K q bi cj \<longleftrightarrow> bi = c_backend c \<and> cj = ?ci \<and> (?bi \<noteq> [] \<longrightarrow> ?bi = c_backend c) \<and>
        c_pool c = q_Pool q \<and> c_state c = ConnectionReady \<and>
        \<not> atCapacity (b_pending b) (b_maxPending b) \<and> \<not> atCapacity (c_pending c) (c_maxPending c)" for bi cj
    proof -
      have "can_take ?K (q_Pool q) bi ?ci \<longleftrightarrow> bi = c_backend c \<and> can_take ?K (q_Pool q) (c_backend c) ?ci"
        using owner by auto
      then show ?thesis unfolding al take by auto
    qed
    have ne: "ConnectionReady \<noteq> ConnectionUnavailable" by (simp add: ConnectionReady_def ConnectionUnavailable_def)
    note r = core_reserve [OF b(1) Some]
    have ids: "b_id b = c_backend c" "c_id c = ?ci" using kb b by simp_all
    have no: "select_ok ?K q (map_prod id core_of (Inl e, S))"
      if "e = refusal ?K q" "\<And>bi cj. \<not> allowed ?K q bi cj" for e
      using that by (simp add: select_ok_def refused_def)
    let ?other = "?bi \<noteq> [] \<and> ?bi \<noteq> c_backend c"
    let ?gone = "c_pool c \<noteq> q_Pool q \<or> c_state c = ConnectionUnavailable"
    let ?full = "atCapacity (b_pending b) (b_maxPending b) \<or> c_state c \<noteq> ConnectionReady
      \<or> atCapacity (c_pending c) (c_maxPending c)"
    have sel: "selectConnectionAffinityLocked q S = (if ?other then (Inl ErrInvalidAffinity, S)
        else if ?gone then (Inl ErrUnavailable, S) else if ?full then (Inl ErrBusy, S)
        else (Inr (fst (reserveLocked (c_backend c) ?ci S)), snd (reserveLocked (c_backend c) ?ci S)))"
      using Some b(1) ids by (simp add: selectConnectionAffinityLocked_def Let_def split: prod.splits)
    have ref: "refusal ?K q = (if ?other then ErrInvalidAffinity else if ?gone then ErrUnavailable else ErrBusy)"
      using Some pool ci by (simp add: refusal_def Let_def)
    show ?thesis
    proof (cases "?other \<or> ?gone \<or> ?full")
      case True
      then have "\<not> allowed ?K q bi cj" for bi cj unfolding al' using ne by metis
      then have "select_ok ?K q (map_prod id core_of (Inl (refusal ?K q), S))" by (rule no [OF refl])
      with True show ?thesis unfolding sel ref by (auto split: if_splits)
    next
      case False
      then have "allowed ?K q (c_backend c) ?ci" unfolding al' by blast
      with False r ids b(1) show ?thesis
        unfolding sel by (auto simp: select_ok_def granted_def)
    qed
  qed
qed

lemma select_by_backend:
  assumes wf: "core_wf (core_of S)" and pool: "validPool (q_Pool q)" and ci: "a_ConnectionID (q_Affinity q) = []"
    and bi: "a_BackendID (q_Affinity q) \<noteq> []"
  shows "select_ok (core_of S) q (map_prod id core_of (Select E q S))"
proof -
  let ?bi = "a_BackendID (q_Affinity q)" and ?K = "core_of S"
  have al: "allowed ?K q bj cj \<longleftrightarrow> can_take ?K (q_Pool q) bj cj \<and> bj = ?bi" for bj cj
    using pool ci bi by (simp add: allowed_def)
  show ?thesis
  proof (cases "backends S ?bi")
    case None
    then have "\<not> allowed ?K q bj cj" for bj cj unfolding al by (auto simp: can_take_def)
    moreover have "\<not> established ?K (q_Pool q) ?bi" using None by (simp add: established_def)
    ultimately show ?thesis using None pool ci bi
      by (simp add: Select_def select_ok_def refused_def refusal_def Let_def)
  next
    case (Some b)
    note spec = tryBackend_spec [OF wf Some, of "q_Pool q"]
    show ?thesis
    proof (cases "can_serve ?K (q_Pool q) ?bi")
      case True
      with spec obtain lease S' where t: "tryBackendLocked ?bi (q_Pool q) S = ((Some lease, resultSelected), S')"
        "taken ?K (q_Pool q) ?bi lease (core_of S')" by auto
      have "granted ?K q lease (core_of S')"
        unfolding granted_def using al by (intro taken_granted [OF t(2)]) simp
      with t(1) Some pool ci bi show ?thesis
        by (simp add: Select_def Let_def selectionResult_def select_ok_def)
    next
      case False
      then have no: "\<not> allowed ?K q bj cj" for bj cj unfolding al by (auto simp: can_serve_def)
      from False spec Some pool ci bi no show ?thesis
        by (auto simp: Select_def Let_def selectionResult_def select_ok_def refused_def refusal_def)
    qed
  qed
qed

lemma select_by_tier:
  assumes wf: "core_wf (core_of S)" and pool: "validPool (q_Pool q)" and ci: "a_ConnectionID (q_Affinity q) = []"
    and bi: "a_BackendID (q_Affinity q) = []"
  shows "select_ok (core_of S) q (map_prod id core_of (Select E q S))"
proof -
  let ?K = "core_of S"
  have al: "allowed ?K q bj cj \<longleftrightarrow> can_take ?K (q_Pool q) bj cj \<and>
      (\<exists>bs. serving_tier ?K (q_Pool q) = Some bs \<and> bj \<in> set bs)" for bj cj
    using pool ci bi by (auto simp: allowed_def split: option.splits)
  have sel: "Select E q S = select_tiers E (length (tiers S)) 0 (q_Pool q) S"
    using pool ci bi by (simp add: Select_def Let_def)
  have "0 + length (tiers S) = length (tiers S)" by simp
  note spec = select_tiers_spec [OF wf this, where pool = "q_Pool q" and E = E, folded serving_tier_drop]
  show ?thesis
  proof (cases "serving_tier ?K (q_Pool q)")
    case None
    with spec al pool ci bi show ?thesis
      by (auto simp: sel select_ok_def refused_def refusal_def Let_def)
  next
    case (Some bs)
    show ?thesis
    proof (cases "list_ex (can_serve ?K (q_Pool q)) bs")
      case True
      with spec Some obtain lease bj S' where t: "select_tiers E (length (tiers S)) 0 (q_Pool q) S = (Inr lease, S')"
        "bj \<in> set bs" "taken ?K (q_Pool q) bj lease (core_of S')" by auto
      have "granted ?K q lease (core_of S')"
        unfolding granted_def using al Some t(2) by (intro taken_granted [OF t(3)]) simp
      with t(1) show ?thesis by (simp add: sel select_ok_def)
    next
      case False
      then have "\<not> allowed ?K q bj cj" for bj cj
        unfolding al using Some by (auto simp: can_serve_def list_ex_iff)
      with False spec Some pool ci bi show ?thesis
        by (auto simp: sel select_ok_def refused_def refusal_def Let_def)
    qed
  qed
qed

lemma select_refines:
  assumes wf: "core_wf (core_of S)"
  shows "select_ok (core_of S) q (map_prod id core_of (Select E q S))"
proof (cases "validPool (q_Pool q)")
  case True
  show ?thesis
  proof (cases "a_ConnectionID (q_Affinity q) = []")
    case True
    with \<open>validPool (q_Pool q)\<close> select_by_backend [OF wf] select_by_tier [OF wf] show ?thesis by blast
  next
    case False
    with True select_by_connection [OF wf True False] show ?thesis by (simp add: Select_def Let_def)
  qed
next
  case False
  then show ?thesis by (simp add: Select_def select_ok_def refused_def refusal_def allowed_def Let_def)
qed

section \<open>Releasing and changing states\<close>

text \<open>The backend and the connection that a token points at.\<close>

lemma token_targets:
  assumes "core_wf (core_of S)" "k < length (tokens S)"
  obtains b c where "backends S (k_backend (tokens S ! k)) = Some b"
    "connections S (k_connection (tokens S ! k)) = Some c" "c_backend c = k_backend (tokens S ! k)"
proof -
  let ?t = "tokens S ! k"
  have "(k_backend ?t, k_connection ?t, released ?t) \<in> set (co_tokens (core_of S))" using assms(2) by auto
  with assms(1) have "listed (core_of S) (k_backend ?t) (k_connection ?t)"
    unfolding core_wf_def tokens_ok_def by fastforce
  then obtain c where c: "co_conns (core_of S) (k_connection ?t) = Some c" "c_backend c = k_backend ?t"
    by (auto simp: listed_def)
  from core_wf_conn [OF assms(1) c(1)] obtain kb where "co_backends (core_of S) (c_backend c) = Some kb" .
  with c that show ?thesis by auto
qed

lemma core_release:
  assumes wf: "core_wf (core_of S)" and k: "token lease = Some k" "k < length (tokens S)"
  shows "if released (tokens S ! k) then Release lease S = (False, S)
    else \<exists>S'. Release lease S = (True, S') \<and> core_of S' = release_core k (core_of S) \<and>
      tokens S' = (tokens S)[k := (tokens S ! k)\<lparr>released := True\<rparr>]"
proof (cases "released (tokens S ! k)")
  case True
  with k show ?thesis by (simp add: Release_def)
next
  case False
  let ?t = "tokens S ! k" and ?K = "core_of S"
  let ?bi = "k_backend ?t" and ?ci = "k_connection ?t"
  have kt: "co_tokens ?K ! k = (?bi, ?ci, False)" using k False by simp
  have mem: "(?bi, ?ci, False) \<in> set (co_tokens ?K)" using kt k by (metis core_of_sel(5) length_map nth_mem)
  from token_targets [OF wf k(2)] obtain b c where b: "backends S ?bi = Some b"
    and c: "connections S ?ci = Some c" "c_backend c = ?bi" .
  have pos: "0 < live_leases ?K P" if "P (?bi, ?ci)" for P
  proof -
    have "(?bi, ?ci, False) \<in> set (filter (\<lambda>(bi, ci, rel). \<not> rel \<and> P (bi, ci)) (co_tokens ?K))"
      using mem that by simp
    then show ?thesis unfolding live_leases_def by (metis length_pos_if_in_set of_nat_0_less_iff)
  qed
  have "cb_pending (core_b b) = live_leases ?K (\<lambda>l. fst l = ?bi)"
    using wf b unfolding core_wf_def backends_ok_def by (metis core_of_sel(2) option.simps(9))
  then have bp: "0 < b_pending b" using pos [of "\<lambda>l. fst l = ?bi"] by simp
  have "c_pending c = live_leases ?K (\<lambda>l. snd l = ?ci)"
    using wf c unfolding core_wf_def conns_ok_def by (metis core_of_sel(3))
  then have cp: "0 < c_pending c" using pos [of "\<lambda>l. snd l = ?ci"] by simp
  show ?thesis using k False b c bp cp
    by (auto simp: Release_def Let_def set_backend_def set_connection_def signalCapacityLocked_def
        release_core_def core_of_def core_b_def fun_eq_iff map_update)
qed

lemma core_set_state:
  "core_of (snd (SetConnectionState ci state S)) =
     (case connections S ci of None \<Rightarrow> core_of S
      | Some c \<Rightarrow> if validConnectionState state \<and> c_state c \<noteq> state
          then set_state_core ci state (core_of S) else core_of S)"
  by (auto simp: SetConnectionState_def set_connection_def signalCapacityLocked_def set_state_core_def
      core_of_def split: option.splits)

lemma core_b_latency:
  "core_b (b\<lparr>fitnessSamples := x, fitnessTimeUS := y, latencySamples := z, meanLatencyNS := w\<rparr>) = core_b b"
  "core_b (b\<lparr>latencySamples := z, meanLatencyNS := w\<rparr>) = core_b b"
  "core_b (b\<lparr>fitnessSamples := x, fitnessTimeUS := y\<rparr>) = core_b b"
  by (simp_all add: core_b_def)

lemma core_record:
  assumes wf: "core_wf (core_of S)" and k: "token lease = Some k" "k < length (tokens S)"
  shows "core_of (snd (RecordFirstResponse E lease latency S)) = core_of S"
proof (cases "latency < 0 \<or> latencyStored (tokens S ! k)")
  case True
  with k show ?thesis by (auto simp: RecordFirstResponse_def Let_def)
next
  case False
  let ?t = "tokens S ! k"
  let ?tok = "(tokens S)[k := ?t\<lparr>latencyStored := True\<rparr>]"
  from token_targets [OF wf k(2)] obtain b where b: "backends S (k_backend ?t) = Some b" .
  have tok: "map (\<lambda>t. (k_backend t, k_connection t, released t)) ?tok
      = map (\<lambda>t. (k_backend t, k_connection t, released t)) (tokens S)"
    using k by (auto simp: map_update list_update_same_conv)
  show ?thesis using False k b tok
    by (cases "b_policy b = PolicyBestOf")
      (simp_all add: RecordFirstResponse_def Let_def core_of_def set_backend_def fun_eq_iff core_b_latency)
qed

lemma core_snapshot:
  assumes "core_wf (core_of S)"
  shows "core_of (snd (Snapshot E S)) = core_of S"
proof -
  have roll: "core_of (foldl (\<lambda>S tier. if policy tier \<noteq> PolicyBestOf then S
      else roll_backends E t (t_backends tier) S) T ts) = core_of T"
    if "\<forall>tier\<in>set ts. \<forall>bi\<in>set (t_backends tier). backends T bi \<noteq> None" for ts t and T :: "'a Scheduler"
    using that
  proof (induction ts arbitrary: T)
    case (Cons tier ts)
    let ?T = "if policy tier \<noteq> PolicyBestOf then T else roll_backends E t (t_backends tier) T"
    have K: "core_of ?T = core_of T" using Cons.prems core_of_roll by auto
    have "\<forall>tier\<in>set ts. \<forall>bi\<in>set (t_backends tier). backends ?T bi \<noteq> None"
      using Cons.prems core_eq_backends(1) [OF K] by simp
    from Cons.IH [OF this] K show ?case by simp
  qed simp
  have "\<forall>tier\<in>set (tiers S). \<forall>bi\<in>set (t_backends tier). backends S bi \<noteq> None"
    using assms unfolding core_wf_def tiers_ok_def by fastforce
  with roll [of "tiers S" "S\<lparr>ticks := ticks S + 1\<rparr>"] show ?thesis
    by (simp add: Snapshot_def Let_def rollBestOfFitnessLocked_def)
qed

lemma core_reserve_known:
  assumes wf: "core_wf (core_of S)" and c: "connections S ci = Some c"
  shows "core_of (snd (reserveLocked (c_backend c) ci S)) = reserve_core (c_backend c) ci (core_of S)"
    "\<exists>bi cj p tr. fst (reserveLocked (c_backend c) ci S) = \<lparr>TierID = tr, BackendID = c_backend c, ConnectionID = ci,
       l_Pool = c_pool c, token = Some (length (tokens S))\<rparr>"
proof -
  from c have kc: "co_conns (core_of S) ci = Some c" by simp
  from core_wf_conn [OF wf kc] obtain kb where kb: "co_backends (core_of S) (c_backend c) = Some kb"
    "c_id c = ci" "cb_id kb = c_backend c" by blast
  then obtain b where b: "backends S (c_backend c) = Some b" "kb = core_b b" by auto
  from core_reserve [OF b(1) c] kb b
  show "core_of (snd (reserveLocked (c_backend c) ci S)) = reserve_core (c_backend c) ci (core_of S)"
    "\<exists>bi cj p tr. fst (reserveLocked (c_backend c) ci S) = \<lparr>TierID = tr, BackendID = c_backend c, ConnectionID = ci,
       l_Pool = c_pool c, token = Some (length (tokens S))\<rparr>" by auto
qed

section \<open>The scheduler as a state machine\<close>

text \<open>The calls of the scheduler's clients; a lease is one that the scheduler handed out.\<close>

definition lease_of :: "'f Scheduler \<Rightarrow> Lease \<Rightarrow> bool" where
  "lease_of S lease \<longleftrightarrow> (\<exists>k. token lease = Some k \<and> k < length (tokens S))"

inductive sched_step :: "'f env \<Rightarrow> 'f Scheduler \<Rightarrow> 'f Scheduler \<Rightarrow> bool" for E where
  step_select: "sched_step E S (snd (Select E q S))"
| step_owned: "sched_step E S (snd (reserveOwnedConnection ci m S))"
| step_signaling: "sched_step E S (snd (reserveSignalingConnection ci S))"
| step_set_state: "sched_step E S (snd (SetConnectionState ci state S))"
| step_record: "lease_of S lease \<Longrightarrow> sched_step E S (snd (RecordFirstResponse E lease latency S))"
| step_release: "lease_of S lease \<Longrightarrow> sched_step E S (snd (Release lease S))"
| step_snapshot: "sched_step E S (snd (Snapshot E S))"

text \<open>The steps of the abstract scheduler.\<close>

inductive core_step :: "core \<Rightarrow> core \<Rightarrow> bool" where
  cs_stay: "core_step K K"
| cs_reserve: "co_conns K ci = Some c \<Longrightarrow> core_step K (reserve_core (c_backend c) ci K)"
| cs_release: "k < length (co_tokens K) \<Longrightarrow> co_tokens K ! k = (bi, ci, False) \<Longrightarrow> core_step K (release_core k K)"
| cs_state: "co_conns K ci = Some c \<Longrightarrow> core_step K (set_state_core ci state K)"

inductive_cases core_stepE: "core_step K K'"

lemma select_core_step:
  assumes "core_wf (core_of S)"
  shows "core_step (core_of S) (core_of (snd (Select E q S)))"
proof (cases "Select E q S")
  case (Pair out S')
  note ok = select_refines [OF assms, of q E]
  show ?thesis
  proof (cases out)
    case (Inl e)
    with ok Pair show ?thesis by (simp add: select_ok_def refused_def cs_stay)
  next
    case (Inr lease)
    with ok Pair have g: "allowed (core_of S) q (BackendID lease) (ConnectionID lease)"
      "core_of S' = reserve_core (BackendID lease) (ConnectionID lease) (core_of S)"
      by (simp_all add: select_ok_def granted_def)
    then have "can_take (core_of S) (q_Pool q) (BackendID lease) (ConnectionID lease)" by (simp add: allowed_def)
    from can_take_listed [OF assms this] g(2) Pair show ?thesis by (metis cs_reserve snd_conv)
  qed
qed

lemma reserve_core_step:
  assumes "core_wf (core_of S)" "connections S ci = Some c" "reserveLocked (c_backend c) ci S = (l, S')"
  shows "core_step (core_of S) (core_of S')"
  using core_reserve_known(1) [OF assms(1,2)] assms(2,3) cs_reserve [of "core_of S" ci c] by simp

lemma sched_step_refines:
  assumes "sched_step E S S'" "core_wf (core_of S)"
  shows "core_step (core_of S) (core_of S')"
  using assms
proof cases
  case (step_select q)
  then show ?thesis using select_core_step [OF assms(2)] by simp
next
  case (step_owned ci m)
  then show ?thesis
    by (auto simp: reserveOwnedConnection_def Let_def split: option.splits prod.splits
        intro: cs_stay reserve_core_step [OF assms(2)])
next
  case (step_signaling ci)
  then show ?thesis
    by (auto simp: reserveSignalingConnection_def split: option.splits prod.splits
        intro: cs_stay reserve_core_step [OF assms(2)])
next
  case (step_set_state ci state)
  then show ?thesis
    by (auto simp: core_set_state split: option.splits intro: cs_stay cs_state)
next
  case (step_record lease latency)
  then show ?thesis using core_record [OF assms(2)] by (auto simp: lease_of_def intro: cs_stay)
next
  case (step_release lease)
  then obtain k where k: "token lease = Some k" "k < length (tokens S)" by (auto simp: lease_of_def)
  show ?thesis
  proof (cases "released (tokens S ! k)")
    case True
    with core_release [OF assms(2) k] step_release show ?thesis by (simp add: cs_stay)
  next
    case False
    with core_release [OF assms(2) k] step_release k show ?thesis
      by (auto intro!: cs_release)
  qed
next
  case step_snapshot
  then show ?thesis using core_snapshot [OF assms(2)] by (simp add: cs_stay)
qed

lemma core_step_wf: "core_step K K' \<Longrightarrow> core_wf K \<Longrightarrow> core_wf K'"
  by (induction rule: core_step.induct) (auto intro: reserve_core_wf release_core_wf set_state_core_wf)

section \<open>Simulation\<close>

text \<open>
  The interface between a machine and its abstraction: steps are simulated while the abstract
  invariant holds, and abstract steps keep it.
\<close>

locale simulation =
  fixes cstep :: "'s \<Rightarrow> 's \<Rightarrow> bool"
    and astep :: "'a \<Rightarrow> 'a \<Rightarrow> bool"
    and abs :: "'s \<Rightarrow> 'a"
    and inv :: "'a \<Rightarrow> bool"
  assumes sim: "cstep s s' \<Longrightarrow> inv (abs s) \<Longrightarrow> astep (abs s) (abs s')"
    and inv_step: "astep a a' \<Longrightarrow> inv a \<Longrightarrow> inv a'"
begin

lemma runs: "cstep\<^sup>*\<^sup>* s s' \<Longrightarrow> inv (abs s) \<Longrightarrow> inv (abs s') \<and> astep\<^sup>*\<^sup>* (abs s) (abs s')"
  by (induction rule: rtranclp_induct) (auto intro: rtranclp.rtrancl_into_rtrancl sim inv_step)

text \<open>What every abstract step keeps, every run of the machine keeps.\<close>

lemma runs_keep:
  assumes "cstep\<^sup>*\<^sup>* s s'" "inv (abs s)" "P (abs s)"
    and keep: "\<And>a a'. astep a a' \<Longrightarrow> inv a \<Longrightarrow> P a \<Longrightarrow> P a'"
  shows "P (abs s')"
  using assms(1)
proof (induction rule: rtranclp_induct)
  case (step t u)
  then show ?case using runs [OF step(1) assms(2)] sim keep by blast
qed (use assms(3) in simp)

end

interpretation sched: simulation "sched_step E" core_step core_of core_wf for E
  by unfold_locales (auto intro: sched_step_refines core_step_wf)

section \<open>Construction establishes the invariant\<close>

lemma add_connections_Ok:
  assumes "add_connections b i ccs conns = Ok conns'"
  shows "(\<forall>ci. ci \<notin> set (map cc_ID ccs) \<longrightarrow> conns' ci = conns ci) \<and>
    (\<forall>ci\<in>set (map cc_ID ccs). conns ci = None \<and>
       (\<exists>c. conns' ci = Some c \<and> c_id c = ci \<and> c_backend c = b \<and> c_pending c = 0))"
  using assms
proof (induction ccs arbitrary: i conns)
  case (Cons cc ccs)
  let ?c = "\<lparr>c_id = cc_ID cc, c_backend = b, c_pool = cc_Pool cc, c_state = cc_State cc,
         c_maxPending = cc_MaxPending cc, c_pending = 0\<rparr>"
  let ?m = "conns(cc_ID cc \<mapsto> ?c)"
  from Cons.prems have new: "conns (cc_ID cc) = None"
    and rest: "add_connections b (i + 1) ccs ?m = Ok conns'" by (auto split: if_splits)
  note IH = Cons.IH [OF rest]
  then have "cc_ID cc \<notin> set (map cc_ID ccs)" by fastforce
  with IH new show ?case by (auto split: if_splits)
qed simp

text \<open>While tiers are being added: no lease yet, and everything listed exists.\<close>

definition fresh_wf :: "core \<Rightarrow> bool" where
  "fresh_wf K \<longleftrightarrow> core_wf K \<and> co_tokens K = []"

lemma fresh_live: "co_tokens K = [] \<Longrightarrow> live_leases K P = 0"
  by (simp add: live_leases_def)

lemma core_b_new [simp]:
  "core_b (new_backend E tc bc t) = \<lparr>cb_id = bc_ID bc, cb_tier = tc_ID tc, cb_max = bc_MaxPending bc,
     cb_pending = 0, cb_conns = map cc_ID (bc_Connections bc)\<rparr>"
  by (simp add: core_b_def new_backend_def)

lemma add_backend_wf:
  assumes wf: "fresh_wf (core_of S)" and new: "backends S (bc_ID bc) = None"
    and conns: "add_connections (bc_ID bc) 0 (bc_Connections bc) (connections S) = Ok conns"
  shows "fresh_wf (core_of (S\<lparr>connections := conns,
    backends := (backends S)(bc_ID bc \<mapsto> new_backend E tc bc startedAt)\<rparr>))" (is "fresh_wf ?K")
proof -
  let ?bi = "bc_ID bc"
  note C = add_connections_Ok [OF conns]
  have tok: "co_tokens ?K = []" "tokens S = []" using wf by (simp_all add: fresh_wf_def)
  have old: "tiers_ok (core_of S)" "backends_ok (core_of S)" "conns_ok (core_of S)"
    using wf by (simp_all add: fresh_wf_def core_wf_def)
  have "tiers_ok ?K" using old(1) by (auto simp: tiers_ok_def split: if_splits)
  moreover have "backends_ok ?K"
    unfolding backends_ok_def
  proof (intro allI impI)
    fix bi b assume b: "co_backends ?K bi = Some b"
    show "cb_id b = bi \<and> (\<forall>ci\<in>set (cb_conns b). listed ?K bi ci) \<and> cb_pending b = live_leases ?K (\<lambda>l. fst l = bi)"
    proof (cases "bi = ?bi")
      case True
      then have b': "b = \<lparr>cb_id = ?bi, cb_tier = tc_ID tc, cb_max = bc_MaxPending bc, cb_pending = 0,
          cb_conns = map cc_ID (bc_Connections bc)\<rparr>" using b by simp
      have "listed ?K ?bi ci" if "ci \<in> set (map cc_ID (bc_Connections bc))" for ci
        using C that by (fastforce simp: listed_def)
      with True b' show ?thesis by (simp add: fresh_live [OF tok(1)])
    next
      case False
      with b have "co_backends (core_of S) bi = Some b" by simp
      with old(2) have "cb_id b = bi \<and> (\<forall>ci\<in>set (cb_conns b). listed (core_of S) bi ci) \<and>
          cb_pending b = live_leases (core_of S) (\<lambda>l. fst l = bi)" unfolding backends_ok_def by blast
      moreover have "listed ?K bi ci" if "listed (core_of S) bi ci" for ci
      proof -
        from that obtain c where "connections S ci = Some c" "c_backend c = bi" by (auto simp: listed_def)
        moreover from this C have "conns ci = connections S ci" by (metis option.distinct(1))
        ultimately show ?thesis by (simp add: listed_def)
      qed
      ultimately show ?thesis using tok by (simp add: fresh_live)
    qed
  qed
  moreover have "conns_ok ?K"
    unfolding conns_ok_def
  proof (intro allI impI)
    fix ci c assume c: "co_conns ?K ci = Some c"
    show "c_id c = ci \<and> (\<exists>b. co_backends ?K (c_backend c) = Some b \<and> ci \<in> set (cb_conns b)) \<and>
      c_pending c = live_leases ?K (\<lambda>l. snd l = ci)"
    proof (cases "ci \<in> set (map cc_ID (bc_Connections bc))")
      case True
      with C c have "c_id c = ci" "c_backend c = ?bi" "c_pending c = 0" by fastforce+
      with True show ?thesis by (simp add: fresh_live [OF tok(1)])
    next
      case False
      with C c have "co_conns (core_of S) ci = Some c" by simp
      with old(3) obtain b where b: "c_id c = ci" "co_backends (core_of S) (c_backend c) = Some b"
        "ci \<in> set (cb_conns b)" "c_pending c = live_leases (core_of S) (\<lambda>l. snd l = ci)"
        unfolding conns_ok_def by blast
      from b(2) new have other: "c_backend c \<noteq> ?bi" by auto
      show ?thesis
      proof (intro conjI exI)
        show "c_id c = ci" "ci \<in> set (cb_conns b)" by (fact b)+
        show "co_backends ?K (c_backend c) = Some b" using b(2) other by simp
        show "c_pending c = live_leases ?K (\<lambda>l. snd l = ci)"
          using b(4) tok by (simp add: fresh_live)
      qed
    qed
  qed
  ultimately show ?thesis using tok(1) by (simp add: fresh_wf_def core_wf_def tokens_ok_def)
qed

lemma add_backends_wf:
  assumes "fresh_wf (core_of S)" "add_backends E t tc i w bcs S = Ok S'"
  shows "fresh_wf (core_of S') \<and> tiers S' = tiers S \<and> capacity S' = capacity S \<and>
    (\<forall>bi. backends S bi \<noteq> None \<longrightarrow> backends S' bi \<noteq> None) \<and> (\<forall>bc\<in>set bcs. backends S' (bc_ID bc) \<noteq> None)"
  using assms
proof (induction bcs arbitrary: i w S)
  case (Cons bc bcs)
  from Cons.prems(2) obtain conns where new: "backends S (bc_ID bc) = None"
    and conns: "add_connections (bc_ID bc) 0 (bc_Connections bc) (connections S) = Ok conns"
    and rest: "add_backends E t tc (i + 1) (w + bc_Weight bc) bcs (S\<lparr>connections := conns,
      backends := (backends S)(bc_ID bc \<mapsto> new_backend E tc bc t)\<rparr>) = Ok S'"
    by (auto split: if_splits)
  from Cons.IH [OF add_backend_wf [OF Cons.prems(1) new conns] rest] show ?case by auto
qed simp

lemma add_tiers_wf:
  assumes "fresh_wf (core_of S)" "add_tiers E t i ids tcs S = Ok S'"
  shows "fresh_wf (core_of S')"
  using assms
proof (induction tcs arbitrary: i ids S)
  case (Cons tc tcs)
  let ?tier = "\<lparr>t_id = tc_ID tc, policy = tc_Policy tc, t_backends = map bc_ID (tc_Backends tc), next_backend = 0\<rparr>"
  from Cons.prems(2) obtain S1 where pol: "validPolicy (tc_Policy tc)"
    and bs: "add_backends E t tc 0 0 (tc_Backends tc) S = Ok S1"
    and rest: "add_tiers E t (i + 1) (tc_ID tc # ids) tcs (S1\<lparr>tiers := tiers S1 @ [?tier]\<rparr>) = Ok S'"
    by (auto split: if_splits)
  note B = add_backends_wf [OF Cons.prems(1) bs]
  have "fresh_wf (core_of (S1\<lparr>tiers := tiers S1 @ [?tier]\<rparr>))"
    using B pol
    by (auto simp: fresh_wf_def core_wf_def tiers_ok_def backends_ok_def conns_ok_def tokens_ok_def
        listed_def live_leases_def)
  from Cons.IH [OF this rest] show ?case .
qed simp

lemma newScheduler_wf: "newScheduler E config = Ok S \<Longrightarrow> core_wf (core_of S)"
proof -
  have "fresh_wf (core_of (empty_scheduler :: 'a Scheduler))"
    by (simp add: fresh_wf_def core_wf_def tiers_ok_def backends_ok_def conns_ok_def tokens_ok_def
        empty_scheduler_def)
  then show "newScheduler E config = Ok S \<Longrightarrow> core_wf (core_of S)"
    unfolding newScheduler_def by (metis add_tiers_wf fresh_wf_def)
qed

text \<open>The states a scheduler reaches from its configuration.\<close>

definition reachable :: "'f env \<Rightarrow> SchedulerTierConfig list \<Rightarrow> 'f Scheduler \<Rightarrow> bool" where
  "reachable E config S \<longleftrightarrow> (\<exists>S0. newScheduler E config = Ok S0 \<and> (sched_step E)\<^sup>*\<^sup>* S0 S)"

lemma reachable_wf: "reachable E config S \<Longrightarrow> core_wf (core_of S)"
  using sched.runs newScheduler_wf by (fastforce simp: reachable_def)

section \<open>Capacity only grows with a signal\<close>

lemma established_reserve:
  assumes "co_conns K ci = Some c" "co_backends K (c_backend c) = Some b"
  shows "established (reserve_core (c_backend c) ci K) pool bi = established K pool bi"
proof -
  let ?K = "reserve_core (c_backend c) ci K"
  have "(case co_conns ?K cj of None \<Rightarrow> False | Some c \<Rightarrow> c_pool c = pool \<and> c_state c \<noteq> ConnectionUnavailable)
    = (case co_conns K cj of None \<Rightarrow> False | Some c \<Rightarrow> c_pool c = pool \<and> c_state c \<noteq> ConnectionUnavailable)" for cj
    using assms by (simp add: reserve_core_def Let_def)
  note conn = this
  show ?thesis unfolding established_def conn
    using assms by (cases "bi = c_backend c") (simp_all add: reserve_core_def Let_def)
qed

lemma atCapacity_more: "atCapacity p m \<Longrightarrow> atCapacity (p + 1) m"
  by (simp add: atCapacity_def)

lemma can_take_reserve:
  assumes "co_conns K ci = Some c" "co_backends K (c_backend c) = Some b"
    "can_take (reserve_core (c_backend c) ci K) pool bi cj"
  shows "can_take K pool bi cj"
proof -
  have conn: "free_connection K pool cj" if "free_connection (reserve_core (c_backend c) ci K) pool cj"
    using that assms(1) atCapacity_more [of "c_pending c" "c_maxPending c"]
    by (auto simp: free_connection_def reserve_core_def Let_def split: if_splits option.splits)
  show ?thesis
    using assms conn atCapacity_more [of "cb_pending b" "cb_max b"]
    by (cases "bi = c_backend c")
      (auto simp: can_take_def reserve_core_def Let_def split: option.splits)
qed

lemma allowed_reserve:
  assumes "co_conns K ci = Some c" "co_backends K (c_backend c) = Some b"
    "allowed (reserve_core (c_backend c) ci K) q bi cj"
  shows "allowed K q bi cj"
proof -
  have "established (reserve_core (c_backend c) ci K) pool = established K pool" for pool
    using established_reserve [OF assms(1,2)] by blast
  then have "serving_tier (reserve_core (c_backend c) ci K) pool = serving_tier K pool" for pool
    by (simp add: serving_tier_def) (simp add: reserve_core_def Let_def)
  with assms(3) can_take_reserve [OF assms(1,2)] show ?thesis
    unfolding allowed_def by (auto split: if_splits)
qed

lemma core_step_capacity:
  assumes "core_step K K'" "core_wf K"
  shows "co_capacity K < co_capacity K' \<or>
    co_capacity K = co_capacity K' \<and> (\<forall>q bi ci. allowed K' q bi ci \<longrightarrow> allowed K q bi ci)"
  using assms(1)
proof cases
  case (cs_reserve ci c)
  from core_wf_conn [OF assms(2) cs_reserve(2)] obtain b where "co_backends K (c_backend c) = Some b" .
  with cs_reserve allowed_reserve show ?thesis by (auto simp: reserve_core_def Let_def)
next
  case (cs_release k bi ci)
  then show ?thesis by (simp add: release_core_def Let_def)
qed (simp_all add: set_state_core_def)

lemma released_stays:
  assumes "core_step K K'" "k < length (co_tokens K)" "snd (snd (co_tokens K ! k))"
  shows "k < length (co_tokens K') \<and> snd (snd (co_tokens K' ! k)) \<and>
    fst (co_tokens K' ! k) = fst (co_tokens K ! k)"
  using assms
  by cases (auto simp: reserve_core_def release_core_def set_state_core_def Let_def nth_append nth_list_update
      split: prod.splits)

section \<open>What clients rely on\<close>

lemma run_core:
  assumes "reachable E config S" "(sched_step E)\<^sup>*\<^sup>* S S'"
  shows "core_wf (core_of S') \<and> core_step\<^sup>*\<^sup>* (core_of S) (core_of S')"
  using sched.runs [OF assms(2)] reachable_wf [OF assms(1)] by blast

lemma core_run_capacity:
  assumes "core_step\<^sup>*\<^sup>* K K'" "core_wf K"
  shows "core_wf K' \<and> (co_capacity K < co_capacity K' \<or>
    co_capacity K = co_capacity K' \<and> (\<forall>q bi ci. allowed K' q bi ci \<longrightarrow> allowed K q bi ci))"
  using assms(1)
proof (induction rule: rtranclp_induct)
  case base
  then show ?case using assms(2) by simp
next
  case (step L M)
  with core_step_capacity [OF step(2)] core_step_wf [OF step(2)] show ?case
    by (metis order_less_trans)
qed

lemma core_run_released:
  assumes "core_step\<^sup>*\<^sup>* K K'" "k < length (co_tokens K)" "snd (snd (co_tokens K ! k))"
  shows "k < length (co_tokens K') \<and> snd (snd (co_tokens K' ! k))"
  using assms(1)
proof (induction rule: rtranclp_induct)
  case (step L M)
  then show ?case using released_stays [OF step(2)] by blast
qed (use assms in blast)

lemma live_leases_tokens:
  "live_leases (core_of S) P = int (length (filter (\<lambda>t. \<not> released t \<and> P (k_backend t, k_connection t)) (tokens S)))"
  by (simp add: live_leases_def filter_map comp_def)

lemma select_result:
  assumes "core_wf (core_of S)"
  shows "(\<exists>e. fst (Select E q S) = Inl e) \<longleftrightarrow> (\<forall>bi ci. \<not> allowed (core_of S) q bi ci)"
  using select_refines [OF assms, of q E]
  by (cases "Select E q S"; cases "fst (Select E q S)")
    (auto simp: select_ok_def granted_def refused_def)

lemma select_fails_core:
  assumes "core_wf (core_of S)" "Select E q S = (Inl e, S')"
  shows "core_of S' = core_of S"
  using select_refines [OF assms(1), of q E] assms(2) by (simp add: select_ok_def refused_def)

subsection \<open>A configuration to run\<close>

definition sample_env :: "int env" where
  "sample_env = \<lparr>Intn = (\<lambda>_ _. 0), now = (\<lambda>i. (int i, 0)), f_of_int = id, f_half = 0, f_neg = uminus,
     f_add = (+), f_sub = (-), f_mul = (*), f_div = (div), f_less = (<), f_le = (\<le>), Exp2 = id, f_Round = id\<rparr>"

definition sample_config :: "SchedulerTierConfig list" where
  "sample_config = [\<lparr>tc_ID = ''t'', tc_Policy = PolicyRoundRobin, tc_Backends =
     [\<lparr>bc_ID = ''b'', bc_Weight = 1, bc_MaxPending = 1, bc_Connections =
        [\<lparr>cc_ID = ''c'', cc_Pool = PoolRegular, cc_State = ConnectionReady, cc_MaxPending = 2\<rparr>]\<rparr>]\<rparr>]"

definition sample_request :: SelectRequest where
  "sample_request = \<lparr>q_Pool = PoolRegular, q_Affinity = \<lparr>a_BackendID = [], a_ConnectionID = []\<rparr>\<rparr>"

definition sample_start :: "int Scheduler" where
  "sample_start = (case newScheduler sample_env sample_config of Ok S \<Rightarrow> S | _ \<Rightarrow> empty_scheduler)"

definition sample_full :: "int Scheduler" where
  "sample_full = snd (Select sample_env sample_request sample_start)"

definition sample_lease :: Lease where
  "sample_lease = \<lparr>TierID = ''t'', BackendID = ''b'', ConnectionID = ''c'', l_Pool = PoolRegular, token = Some 0\<rparr>"

lemma sample_new: "newScheduler sample_env sample_config = Ok sample_start"
proof -
  have "case newScheduler sample_env sample_config of Ok _ \<Rightarrow> True | _ \<Rightarrow> False" by code_simp
  then show ?thesis by (cases "newScheduler sample_env sample_config") (simp_all add: sample_start_def)
qed

lemma sample_reachable: "reachable sample_env sample_config sample_start"
  "reachable sample_env sample_config sample_full"
  using sample_new step_select [of sample_env sample_start sample_request]
  by (auto simp: reachable_def sample_full_def)

subsection \<open>Properties\<close>

text \<open>
  C5: in every state the scheduler reaches, the pending count of a backend or of a connection is
  the number of its leases that have not been released; in particular it is never negative and
  the guards of \<open>Release\<close> never hide a double release.
\<close>

theorem pending_counts_live_leases:
  assumes "reachable E config S"
  shows "(backends S bi = Some b \<longrightarrow>
      b_pending b = int (length (filter (\<lambda>t. \<not> released t \<and> k_backend t = bi) (tokens S)))) \<and>
    (connections S ci = Some c \<longrightarrow>
      c_pending c = int (length (filter (\<lambda>t. \<not> released t \<and> k_connection t = ci) (tokens S))))"
proof -
  from reachable_wf [OF assms] have ok: "backends_ok (core_of S)" "conns_ok (core_of S)"
    by (simp_all add: core_wf_def)
  have "cb_pending (core_b b) = live_leases (core_of S) (\<lambda>l. fst l = bi)" if "backends S bi = Some b"
  proof -
    from that have "co_backends (core_of S) bi = Some (core_b b)" by simp
    with ok(1) show ?thesis unfolding backends_ok_def by blast
  qed
  moreover have "c_pending c = live_leases (core_of S) (\<lambda>l. snd l = ci)" if "connections S ci = Some c"
    using ok(2) that unfolding conns_ok_def by simp
  ultimately show ?thesis by (simp add: live_leases_tokens)
qed

theorem pending_counts_live_leases_witness:
  "\<exists>b. backends sample_full ''b'' = Some b \<and> b_pending b = 1"
proof -
  have "map_option b_pending (backends sample_full ''b'') = Some 1" by code_simp
  then obtain b where b: "backends sample_full ''b'' = Some b" by auto
  have one: "length (filter (\<lambda>t. \<not> released t \<and> k_backend t = ''b'') (tokens sample_full)) = 1" by code_simp
  from pending_counts_live_leases [OF sample_reachable(2), of "''b''" b] b one show ?thesis by simp
qed

text \<open>
  C8: selection refines its specification. In every reachable state it grants a lease on an
  allowed pair, which reserves one slot of both and changes nothing else that decisions depend
  on, or it refuses with the specified error because no pair is allowed, and changes nothing.
\<close>

theorem select_implements_spec:
  assumes "reachable E config S"
  shows "case Select E q S of
      (Inr lease, S') \<Rightarrow> allowed (core_of S) q (BackendID lease) (ConnectionID lease) \<and>
        core_of S' = reserve_core (BackendID lease) (ConnectionID lease) (core_of S) \<and>
        l_Pool lease = q_Pool q \<and> token lease = Some (length (tokens S))
    | (Inl e, S') \<Rightarrow> e = refusal (core_of S) q \<and> core_of S' = core_of S \<and>
        (\<forall>bi ci. \<not> allowed (core_of S) q bi ci)"
  using select_refines [OF reachable_wf [OF assms], of q E]
  by (auto simp: select_ok_def granted_def refused_def split: prod.splits sum.splits)

theorem select_implements_spec_witness:
  "allowed (core_of sample_start) sample_request ''b'' ''c'' \<and>
   fst (Select sample_env sample_request sample_full) = Inl (refusal (core_of sample_full) sample_request)"
proof
  have l: "fst (Select sample_env sample_request sample_start) = Inr sample_lease" by code_simp
  then obtain S' where "Select sample_env sample_request sample_start = (Inr sample_lease, S')"
    by (metis prod.collapse)
  with select_implements_spec [OF sample_reachable(1), of sample_request]
  show "allowed (core_of sample_start) sample_request ''b'' ''c''" by (simp add: sample_lease_def)
  have "fst (Select sample_env sample_request sample_full) = Inl ErrBusy" by code_simp
  then obtain S2 where "Select sample_env sample_request sample_full = (Inl ErrBusy, S2)" by (metis prod.collapse)
  with select_implements_spec [OF sample_reachable(2), of sample_request]
  show "fst (Select sample_env sample_request sample_full) = Inl (refusal (core_of sample_full) sample_request)"
    by simp
qed

text \<open>
  C9: no wakeup is missed. A caller whose selection failed keeps failing as long as the capacity
  generation it took before trying is the current one, whatever the other callers do; waiting
  for that generation to close is enough.
\<close>

theorem no_missed_wakeup:
  assumes "reachable E config S" "Select E q S = (Inl e, S1)"
    and "(sched_step E)\<^sup>*\<^sup>* S1 S2" "capacitySignal S2 = capacitySignal S"
  shows "\<exists>e'. fst (Select E q S2) = Inl e'"
proof -
  have wf: "core_wf (core_of S)" using reachable_wf [OF assms(1)] .
  have K: "core_of S1 = core_of S" using select_fails_core [OF wf assms(2)] .
  have run: "core_wf (core_of S2)" "core_step\<^sup>*\<^sup>* (core_of S) (core_of S2)"
    using sched.runs [OF assms(3)] wf unfolding K by blast+
  have "\<forall>bi ci. \<not> allowed (core_of S) q bi ci" using select_result [OF wf, of E q] assms(2) by simp
  moreover have "co_capacity (core_of S2) = co_capacity (core_of S)" using assms(4) by (simp add: capacitySignal_def)
  ultimately have "\<forall>bi ci. \<not> allowed (core_of S2) q bi ci"
    using core_run_capacity [OF run(2) wf] by (metis nat_neq_iff)
  then show ?thesis using select_result [OF run(1), of E q] by blast
qed

theorem no_missed_wakeup_witness:
  "\<exists>e'. fst (Select sample_env sample_request (snd (Snapshot sample_env
     (snd (Select sample_env sample_request sample_full))))) = Inl e'"
proof -
  let ?S1 = "snd (Select sample_env sample_request sample_full)"
  let ?S2 = "snd (Snapshot sample_env ?S1)"
  have "fst (Select sample_env sample_request sample_full) = Inl ErrBusy" by code_simp
  then have sel: "Select sample_env sample_request sample_full = (Inl ErrBusy, ?S1)" by (metis prod.collapse)
  have run: "(sched_step sample_env)\<^sup>*\<^sup>* ?S1 ?S2" using step_snapshot [of sample_env ?S1] by blast
  have "capacitySignal ?S2 = capacitySignal sample_full" by code_simp
  from no_missed_wakeup [OF sample_reachable(2) sel run this] show ?thesis .
qed

text \<open>
  a lease is released once. After a call of \<open>Release\<close>, and whatever steps follow, another
  call on the same lease returns false and changes nothing, while the first call on a lease that
  is not released returns true and closes the capacity generation, so that waiters wake up.
\<close>

theorem release_once:
  assumes "reachable E config S" "lease_of S lease" "Release lease S = (first, S1)"
    and "(sched_step E)\<^sup>*\<^sup>* S1 S2"
  shows "Release lease S2 = (False, S2) \<and> (first \<longrightarrow> capacitySignal S < capacitySignal S2) \<and>
    (first \<longleftrightarrow> \<not> released (tokens S ! the (token lease)))"
proof -
  have wf: "core_wf (core_of S)" using reachable_wf [OF assms(1)] .
  from assms(2) obtain k where k: "token lease = Some k" "k < length (tokens S)" by (auto simp: lease_of_def)
  note rel = core_release [OF wf k]
  have S1: "k < length (tokens S1) \<and> released (tokens S1 ! k) \<and> (first \<longleftrightarrow> \<not> released (tokens S ! k)) \<and>
      (first \<longrightarrow> capacity S < capacity S1)"
  proof (cases "released (tokens S ! k)")
    case True
    with rel assms(3) k show ?thesis by simp
  next
    case False
    with rel assms(3) have r: "first" "core_of S1 = release_core k (core_of S)"
      "tokens S1 = (tokens S)[k := (tokens S ! k)\<lparr>released := True\<rparr>]" by auto
    from arg_cong [OF r(2), of co_capacity] have "capacity S < capacity S1"
      by (simp add: release_core_def Let_def split: prod.splits)
    with r k False show ?thesis by simp
  qed
  have "sched_step E S S1" using step_release [OF assms(2), of E] assms(3) by simp
  then have wf1: "core_wf (core_of S1)" using sched_step_refines core_step_wf wf by blast
  have run: "core_step\<^sup>*\<^sup>* (core_of S1) (core_of S2)" using sched.runs [OF assms(4)] wf1 by blast
  have "k < length (co_tokens (core_of S1))" "snd (snd (co_tokens (core_of S1) ! k))" using S1 by simp_all
  from core_run_released [OF run this] have "k < length (tokens S2)" "released (tokens S2 ! k)" by auto
  moreover have "capacity S1 \<le> capacity S2" using core_run_capacity [OF run wf1] by auto
  moreover have "first \<longrightarrow> capacity S < capacity S2" using calculation(3) S1 by linarith
  ultimately show ?thesis using S1 k by (simp add: Release_def capacitySignal_def)
qed

theorem release_once_witness:
  "\<exists>S1. Release sample_lease sample_full = (True, S1) \<and> Release sample_lease S1 = (False, S1)"
proof -
  let ?S1 = "snd (Release sample_lease sample_full)"
  have "fst (Release sample_lease sample_full)" by code_simp
  then have r: "Release sample_lease sample_full = (True, ?S1)" by (metis prod.collapse)
  have "length (tokens sample_full) = 1" by code_simp
  then have "lease_of sample_full sample_lease" by (simp add: lease_of_def sample_lease_def)
  from release_once [OF sample_reachable(2) this r rtranclp.rtrancl_refl] r show ?thesis by blast
qed

text \<open>
  the weighted order is a permutation of the backends of the tier, whatever the random source
  returns: no backend is tried twice and none is left out.
\<close>

theorem weighted_order_permutation: "mset (fst (weightedOrderLocked E w xs k)) = mset xs"
  by (rule weightedOrder_mset)

end
