(* ===== verification/Go_Hash.thy ===== *)
theory Go_Hash
  imports Go_Prelude
begin

text \<open>
  SHA-256 of Go's standard library (\<^verbatim>\<open>crypto/sha256\<close>), after FIPS 180-4, and the big-endian
  lengths that the program feeds to it (\<open>binary.BigEndian.PutUint64\<close>).
\<close>

type_synonym uint32 = "32 word"

section \<open>Big-endian integers\<close>

fun big_endian :: "nat \<Rightarrow> int \<Rightarrow> bytes" where
  "big_endian 0 n = []"
| "big_endian (Suc k) n = big_endian k (n div 256) @ [char_of (n mod 256)]"

definition PutUint64 :: "uint64 \<Rightarrow> bytes" where
  "PutUint64 x = big_endian 8 (uint x)"

fun big_endian_value :: "bytes \<Rightarrow> int \<Rightarrow> int" where
  "big_endian_value [] n = n"
| "big_endian_value (c # cs) n = big_endian_value cs (n * 256 + of_char c)"

lemma length_big_endian [simp]: "length (big_endian k n) = k"
  by (induction k arbitrary: n) auto

lemma big_endian_value_append:
  "big_endian_value (xs @ [c]) n = big_endian_value xs n * 256 + of_char c"
  by (induction xs arbitrary: n) auto

lemma big_endian_roundtrip: "0 \<le> n \<Longrightarrow> n < 256 ^ k \<Longrightarrow> big_endian_value (big_endian k n) 0 = n"
proof (induction k arbitrary: n)
  case (Suc k)
  then have "n div 256 < 256 ^ k" "0 \<le> n div 256" by (simp_all add: div_less_iff_less_mult mult.commute)
  with Suc.IH [of "n div 256"] show ?case by (simp add: big_endian_value_append)
qed simp

lemma length_PutUint64 [simp]: "length (PutUint64 x) = 8"
  by (simp add: PutUint64_def)

lemma PutUint64_inj: "PutUint64 x = PutUint64 y \<longleftrightarrow> x = y"
proof
  assume eq: "PutUint64 x = PutUint64 y"
  have "0 \<le> uint z \<and> uint z < 256 ^ 8" for z :: uint64 using uint_lt2p [of z] by simp
  then have "big_endian_value (PutUint64 z) 0 = uint z" for z by (simp add: PutUint64_def big_endian_roundtrip)
  with eq show "x = y" by (metis unsigned_word_eqI)
qed simp

section \<open>SHA-256\<close>

definition sha_k :: "uint32 list" where
  "sha_k = [
   0x428a2f98, 0x71374491, 0xb5c0fbcf, 0xe9b5dba5, 0x3956c25b, 0x59f111f1, 0x923f82a4, 0xab1c5ed5,
   0xd807aa98, 0x12835b01, 0x243185be, 0x550c7dc3, 0x72be5d74, 0x80deb1fe, 0x9bdc06a7, 0xc19bf174,
   0xe49b69c1, 0xefbe4786, 0x0fc19dc6, 0x240ca1cc, 0x2de92c6f, 0x4a7484aa, 0x5cb0a9dc, 0x76f988da,
   0x983e5152, 0xa831c66d, 0xb00327c8, 0xbf597fc7, 0xc6e00bf3, 0xd5a79147, 0x06ca6351, 0x14292967,
   0x27b70a85, 0x2e1b2138, 0x4d2c6dfc, 0x53380d13, 0x650a7354, 0x766a0abb, 0x81c2c92e, 0x92722c85,
   0xa2bfe8a1, 0xa81a664b, 0xc24b8b70, 0xc76c51a3, 0xd192e819, 0xd6990624, 0xf40e3585, 0x106aa070,
   0x19a4c116, 0x1e376c08, 0x2748774c, 0x34b0bcb5, 0x391c0cb3, 0x4ed8aa4a, 0x5b9cca4f, 0x682e6ff3,
   0x748f82ee, 0x78a5636f, 0x84c87814, 0x8cc70208, 0x90befffa, 0xa4506ceb, 0xbef9a3f7, 0xc67178f2]"

definition sha_init :: "uint32 list" where
  "sha_init = [0x6a09e667, 0xbb67ae85, 0x3c6ef372, 0xa54ff53a, 0x510e527f, 0x9b05688c, 0x1f83d9ab, 0x5be0cd19]"

definition rotr :: "nat \<Rightarrow> uint32 \<Rightarrow> uint32" where
  "rotr n x = drop_bit n x OR push_bit (32 - n) x"

text \<open>The padding: a one bit, zeros, and the length in bits as 64 bits.\<close>

definition sha_pad :: "bytes \<Rightarrow> bytes" where
  "sha_pad m = m @ [CHR 0x80] @ replicate ((119 - length m mod 64) mod 64) (CHR 0x00)
     @ PutUint64 (of_nat (8 * length m))"

fun sha_words :: "bytes \<Rightarrow> uint32 list" where
  "sha_words (a # b # c # d # rest) = word_of_int (big_endian_value [a, b, c, d] 0) # sha_words rest"
| "sha_words _ = []"

text \<open>The message schedule, with the sixteen latest words, the oldest first.\<close>

fun sha_schedule :: "nat \<Rightarrow> uint32 list \<Rightarrow> uint32 list" where
  "sha_schedule 0 w = w"
| "sha_schedule (Suc k) w =
     (let s0 = rotr 7 (w ! 1) XOR rotr 18 (w ! 1) XOR drop_bit 3 (w ! 1);
          s1 = rotr 17 (w ! 14) XOR rotr 19 (w ! 14) XOR drop_bit 10 (w ! 14)
      in hd w # sha_schedule k (tl w @ [hd w + s0 + w ! 9 + s1]))"

fun sha_round :: "uint32 list \<Rightarrow> uint32 \<times> uint32 \<Rightarrow> uint32 list" where
  "sha_round [a, b, c, d, e, f, g, h] (k, w) =
     (let s1 = rotr 6 e XOR rotr 11 e XOR rotr 25 e;
          ch = (e AND f) XOR (NOT e AND g);
          t1 = h + s1 + ch + k + w;
          s0 = rotr 2 a XOR rotr 13 a XOR rotr 22 a;
          maj = (a AND b) XOR (a AND c) XOR (b AND c)
      in [t1 + (s0 + maj), a, b, c, d + t1, e, f, g])"
| "sha_round hs _ = hs"

definition sha_block :: "uint32 list \<Rightarrow> bytes \<Rightarrow> uint32 list" where
  "sha_block hs b = map2 (+) hs (foldl sha_round hs (zip sha_k (sha_schedule 48 (sha_words b))))"

function sha_blocks :: "uint32 list \<Rightarrow> bytes \<Rightarrow> uint32 list" where
  "sha_blocks hs m = (if m = [] then hs else sha_blocks (sha_block hs (take 64 m)) (drop 64 m))"
  by pat_completeness auto

termination by (relation "measure (\<lambda>(hs, m). length m)") auto

declare sha_blocks.simps [simp del]

definition sha256_Size :: nat where
  "sha256_Size = 32"

definition sha256 :: "bytes \<Rightarrow> bytes" where
  "sha256 m = concat (map (\<lambda>h. big_endian 4 (uint h)) (sha_blocks sha_init (sha_pad m)))"

lemma sha_round_length: "length hs = 8 \<Longrightarrow> length (sha_round hs x) = 8"
proof -
  assume "length hs = 8"
  then obtain a b c d e f g h where "hs = [a, b, c, d, e, f, g, h]"
    by (auto simp: numeral_eq_Suc length_Suc_conv)
  then show ?thesis by (cases x) (simp add: Let_def)
qed

lemma sha_rounds_length: "length hs = 8 \<Longrightarrow> length (foldl sha_round hs xs) = 8"
  by (induction xs arbitrary: hs) (simp_all add: sha_round_length)

lemma sha_blocks_length: "length hs = 8 \<Longrightarrow> length (sha_blocks hs m) = 8"
proof (induction hs m rule: sha_blocks.induct)
  case (1 hs m)
  then show ?case by (subst sha_blocks.simps) (simp add: sha_block_def sha_rounds_length)
qed

lemma length_sha256 [simp]: "length (sha256 m) = 32"
proof -
  have "length (sha_blocks sha_init (sha_pad m)) = 8" by (rule sha_blocks_length) (simp add: sha_init_def)
  then show ?thesis by (simp add: sha256_def length_concat comp_def sum_list_triv)
qed

end
