(* ===== verification/LLoad_BER.thy ===== *)
theory LLoad_BER
  imports Go_Strings Go_Hash Go_Encoding
begin

text \<open>
  The BER reader and writer of the load balancer (\<^verbatim>\<open>src/internal/lloadd/wire.go\<close>): elements with
  their identifier, length and content, the lengths and integers, and the two codes it writes
  them with. Offsets are indices into the whole message, as in the source; they start at 0 and
  only grow, so they are natural numbers and the source's test \<open>offset < 0\<close> has no counterpart.
  Tags and lengths are 64-bit words, with the overflow tests of the source.

  A reader fails in one of three ways: the message is malformed (with the text the source puts
  after \<open>malformed LDAP BER frame\<close>), it is too large, or a Go operation panics. Every index and
  every slice of the source is a \<open>go_index\<close> or \<open>go_slice\<close>, which panics out of range; the equations
  \<open>_eq\<close> below show what the readers compute behind their tests.
\<close>

section \<open>Errors\<close>

datatype io_error = EOF | UnexpectedEOF | ReadError string

datatype wire_error =
    Malformed string
  | FrameTooLarge
  | InvalidMessageID
  | NotAbandonRequest
  | UnsupportedRequest uint64
  | IOFailed io_error

definition wire_message :: "wire_error \<Rightarrow> string" where
  "wire_message e = (case e of
       Malformed m \<Rightarrow> ''malformed LDAP BER frame: '' @ m
     | FrameTooLarge \<Rightarrow> ''LDAP BER frame exceeds size limit''
     | InvalidMessageID \<Rightarrow> ''invalid LDAP message ID''
     | NotAbandonRequest \<Rightarrow> ''LDAP frame is not an AbandonRequest''
     | UnsupportedRequest t \<Rightarrow>
         ''LDAP request has no LDAPResult response: application tag '' @ FormatInt (int (unat t))
     | IOFailed EOF \<Rightarrow> ''EOF''
     | IOFailed UnexpectedEOF \<Rightarrow> ''unexpected EOF''
     | IOFailed (ReadError m) \<Rightarrow> m)"

definition malformedWrap :: "string \<Rightarrow> wire_error \<Rightarrow> wire_error" where
  "malformedWrap wher e = (if e = FrameTooLarge then e else Malformed (wher @ '': '' @ wire_message e))"

text \<open>The largest value of \<open>int\<close>.\<close>

definition maximumInt :: nat where
  "maximumInt = 2 ^ 63 - 1"

section \<open>Reading\<close>

definition berClassUniversal :: nat where "berClassUniversal = 0"
definition berClassApplication :: nat where "berClassApplication = 1"
definition berClassContext :: nat where "berClassContext = 2"
definition berTagBoolean :: uint64 where "berTagBoolean = 1"
definition berTagInteger :: uint64 where "berTagInteger = 2"
definition berTagOctetString :: uint64 where "berTagOctetString = 4"
definition berTagEnumerated :: uint64 where "berTagEnumerated = 10"
definition berTagSequence :: uint64 where "berTagSequence = 16"

lemmas ber_constants = berClassUniversal_def berClassApplication_def berClassContext_def
  berTagBoolean_def berTagInteger_def berTagOctetString_def berTagEnumerated_def berTagSequence_def

record berElement =
  e_start :: nat
  identifierEnd :: nat
  contentStart :: nat
  e_end :: nat
  e_class :: nat
  constructed :: bool
  e_tag :: uint64

text \<open>The octets of a high tag number, after the first octet of the identifier.\<close>

function high_tag :: "bytes \<Rightarrow> nat \<Rightarrow> bool \<Rightarrow> uint64 \<Rightarrow> (wire_error, uint64 \<times> nat) go" where
  "high_tag raw offset first tag =
     (if length raw \<le> offset then Err (Malformed ''truncated high-tag identifier'')
      else (case go_index offset raw of
          Ok byte \<Rightarrow>
            (let octet = ord byte; v = of_nat (octet AND 0x7f) in
             if first \<and> v = 0 then Err (Malformed ''non-minimal high-tag identifier'')
             else if (- 1 - v) div 128 < tag then Err (Malformed ''BER tag overflows'')
             else if octet AND 0x80 = 0 then Ok (tag * 128 + v, offset + 1)
             else high_tag raw (offset + 1) False (tag * 128 + v))
        | Err e \<Rightarrow> Err e | Panic \<Rightarrow> Panic))"
  by pat_completeness auto
termination
  by (relation "measure (\<lambda>(raw, offset, _). length raw - offset)") (auto simp: go_index_eq_Ok)

declare high_tag.simps [simp del]

definition parseBERLength :: "bytes \<Rightarrow> nat \<Rightarrow> (wire_error, uint64 \<times> nat) go" where
  "parseBERLength raw offset =
     (if length raw \<le> offset then Err (Malformed ''truncated BER length'')
      else
        go_bind (go_index offset raw) (\<lambda>byte.
        let head = ord byte; offset = offset + 1 in
        if head AND 0x80 = 0 then Ok (of_nat head, offset)
        else
          let octets = head AND 0x7f in
          if octets = 0 then Err (Malformed ''indefinite BER length'')
          else if 8 < octets then Err (Malformed ''BER length uses too many octets'')
          else if length raw - offset < octets then Err (Malformed ''truncated BER length'')
          else
            go_bind (go_of_option (go_slice offset (offset + octets) raw)) (\<lambda>bs.
              Ok (foldl (\<lambda>len octet. push_bit 8 len OR of_nat (ord octet)) 0 bs, offset + octets))))"

text \<open>The identifier at an offset: its tag number and where the length begins.\<close>

definition parse_identifier :: "bytes \<Rightarrow> nat \<Rightarrow> (wire_error, uint64 \<times> nat) go" where
  "parse_identifier raw offset =
     (if length raw \<le> offset then Err (Malformed ''truncated BER identifier'')
      else
        go_bind (go_index offset raw) (\<lambda>identifier.
        if ord identifier AND 0x1f = 0x1f then
          go_bind (high_tag raw (offset + 1) True 0) (\<lambda>(tag, next).
            if tag < 31 then Err (Malformed ''non-minimal high-tag identifier'') else Ok (tag, next))
        else Ok (of_nat (ord identifier AND 0x1f), offset + 1)))"

definition parseElement :: "bytes \<Rightarrow> nat \<Rightarrow> (wire_error, berElement \<times> nat) go" where
  "parseElement raw offset =
     go_bind (parse_identifier raw offset) (\<lambda>(tag, next).
     go_bind (go_index offset raw) (\<lambda>identifier.
     go_bind (parseBERLength raw next) (\<lambda>(len, start).
       if length raw - start < unat len then Err (Malformed ''truncated BER value'')
       else if maximumInt < unat len then Err FrameTooLarge
       else Ok (\<lparr>e_start = offset, identifierEnd = next, contentStart = start,
                 e_end = start + unat len, e_class = drop_bit 6 (ord identifier),
                 constructed = (ord identifier AND 0x20 \<noteq> 0), e_tag = tag\<rparr>, start + unat len))))"

definition elementIs :: "berElement \<Rightarrow> nat \<Rightarrow> bool \<Rightarrow> uint64 \<Rightarrow> bool" where
  "elementIs element cls con tag \<longleftrightarrow> e_class element = cls \<and> constructed element = con \<and> e_tag element = tag"

text \<open>\<open>raw[element.contentStart:element.end]\<close> and \<open>raw[element.start:element.end]\<close>.\<close>

definition content_of :: "bytes \<Rightarrow> berElement \<Rightarrow> (wire_error, bytes) go" where
  "content_of raw element = go_of_option (go_slice (contentStart element) (e_end element) raw)"

definition whole_of :: "bytes \<Rightarrow> berElement \<Rightarrow> (wire_error, bytes) go" where
  "whole_of raw element = go_of_option (go_slice (e_start element) (e_end element) raw)"

fun integer_value :: "bytes \<Rightarrow> uint64 \<Rightarrow> uint64 option" where
  "integer_value [] v = Some v"
| "integer_value (octet # rest) v =
     (if (- 1 - of_nat (ord octet)) div 256 < v then None
      else integer_value rest (v * 256 + of_nat (ord octet)))"

definition decodeNonnegativeInteger :: "bytes \<Rightarrow> int \<Rightarrow> (wire_error, int) go" where
  "decodeNonnegativeInteger content maximum =
     (if content = [] then Err (Malformed ''empty BER integer'')
      else
        go_bind (go_index 0 content) (\<lambda>head.
        if ord head AND 0x80 \<noteq> 0 then Err (Malformed ''negative BER integer'')
        else
          go_bind (go_and (1 < length content) (go_bind (go_index 0 content) (\<lambda>head.
              go_and (ord head = 0) (go_bind (go_index 1 content) (\<lambda>second. Ok (ord second AND 0x80 = 0))))))
            (\<lambda>nonMinimal.
          if nonMinimal then Err (Malformed ''non-minimal BER integer'')
          else (case integer_value content 0 of
              None \<Rightarrow> Err (Malformed ''BER integer overflows'')
            | Some v \<Rightarrow>
                if (of_int maximum :: uint64) < v then Err (Malformed ''BER integer exceeds allowed range'')
                else Ok (int (unat v))))))"

section \<open>Writing\<close>

text \<open>
  Filling a scratch array from its end with the octets of a number; \<open>room\<close> is what is left of
  the array, and the source would index before its start where there is none.
\<close>

fun fill_octets :: "nat \<Rightarrow> int \<Rightarrow> bytes \<Rightarrow> (nat \<times> bytes) option" where
  "fill_octets room v filled =
     (if v = 0 then Some (room, filled)
      else case room of 0 \<Rightarrow> None
        | Suc room \<Rightarrow> fill_octets room (v div 256) (char_of (v mod 256) # filled))"

declare fill_octets.simps [simp del]

definition encodeBERLength :: "nat \<Rightarrow> (wire_error, bytes) go" where
  "encodeBERLength len =
     (if len < 128 then Ok [char_of len]
      else go_bind (go_of_option (fill_octets 8 (int len) [])) (\<lambda>(_, octets).
        Ok (char_of (0x80 OR length octets) # octets)))"

definition encodeTLV :: "nat \<Rightarrow> bytes \<Rightarrow> (wire_error, bytes) go" where
  "encodeTLV identifier content =
     go_bind (encodeBERLength (length content)) (\<lambda>len. Ok (char_of identifier # len @ content))"

definition encodeNonnegativeInteger :: "int \<Rightarrow> (wire_error, bytes) go" where
  "encodeNonnegativeInteger v =
     (if v = 0 then Ok [CHR 0x00]
      else go_bind (go_of_option (fill_octets 9 v [])) (\<lambda>(room, octets).
        go_bind (go_index 0 octets) (\<lambda>head.
        if ord head AND 0x80 \<noteq> 0 then
          if room = 0 then Panic else Ok (CHR 0x00 # octets)
        else Ok octets)))"

fun join_total :: "bytes list \<Rightarrow> nat \<Rightarrow> (wire_error, unit) go" where
  "join_total [] n = Ok ()"
| "join_total (part # parts) n =
     (if int maximumInt - int n < int (length part) then Panic
      else join_total parts (n + length part))"

definition joinBER :: "bytes list \<Rightarrow> (wire_error, bytes) go" where
  "joinBER parts = go_bind (join_total parts 0) (\<lambda>_. Ok (concat parts))"


section \<open>The tests in front of the reads\<close>

text \<open>Behind its tests each reader reads inside the message.\<close>

lemma high_tag_eq:
  "high_tag raw offset first tag =
     (if length raw \<le> offset then Err (Malformed ''truncated high-tag identifier'')
      else
        let octet = ord (raw ! offset); v = of_nat (octet AND 0x7f) in
        if first \<and> v = 0 then Err (Malformed ''non-minimal high-tag identifier'')
        else if (- 1 - v) div 128 < tag then Err (Malformed ''BER tag overflows'')
        else if octet AND 0x80 = 0 then Ok (tag * 128 + v, offset + 1)
        else high_tag raw (offset + 1) False (tag * 128 + v))"
  by (subst high_tag.simps) (simp add: not_le)

lemma high_tag_induct [case_names 1]:
  assumes "\<And>raw offset first tag. (\<And>octet v. \<not> length raw \<le> offset \<Longrightarrow> octet = ord (raw ! offset) \<Longrightarrow>
      v = of_nat (octet AND 0x7f) \<Longrightarrow> \<not> (first \<and> v = 0) \<Longrightarrow> \<not> (- 1 - v) div 128 < tag \<Longrightarrow> octet AND 0x80 \<noteq> 0 \<Longrightarrow>
      P raw (offset + 1) False (tag * 128 + v)) \<Longrightarrow> P raw offset first (tag :: uint64)"
  shows "P raw offset first tag"
proof (induction raw offset first tag rule: high_tag.induct)
  case (1 raw offset first tag)
  show ?case by (rule assms, rule "1.IH") (simp_all add: not_le)
qed

lemma parseBERLength_eq:
  "parseBERLength raw offset =
     (if length raw \<le> offset then Err (Malformed ''truncated BER length'')
      else
        let head = ord (raw ! offset); offset = offset + 1 in
        if head AND 0x80 = 0 then Ok (of_nat head, offset)
        else
          let octets = head AND 0x7f in
          if octets = 0 then Err (Malformed ''indefinite BER length'')
          else if 8 < octets then Err (Malformed ''BER length uses too many octets'')
          else if length raw - offset < octets then Err (Malformed ''truncated BER length'')
          else Ok (foldl (\<lambda>len octet. push_bit 8 len OR of_nat (ord octet)) 0
                     (take octets (drop offset raw)),
                   offset + octets))"
  by (auto simp: parseBERLength_def not_le Let_def go_slice_def)

lemma parse_identifier_eq:
  "parse_identifier raw offset =
     (if length raw \<le> offset then Err (Malformed ''truncated BER identifier'')
      else if ord (raw ! offset) AND 0x1f = 0x1f then
        go_bind (high_tag raw (offset + 1) True 0) (\<lambda>(tag, next).
          if tag < 31 then Err (Malformed ''non-minimal high-tag identifier'') else Ok (tag, next))
      else Ok (of_nat (ord (raw ! offset) AND 0x1f), offset + 1))"
  by (simp add: parse_identifier_def not_le)

lemma parse_identifier_inside: "parse_identifier raw offset = Ok r \<Longrightarrow> offset < length raw"
  by (simp add: parse_identifier_def not_le split: if_splits)

lemma parseElement_eq:
  "parseElement raw offset =
     go_bind (parse_identifier raw offset) (\<lambda>(tag, next).
     go_bind (parseBERLength raw next) (\<lambda>(len, start).
       if length raw - start < unat len then Err (Malformed ''truncated BER value'')
       else if maximumInt < unat len then Err FrameTooLarge
       else Ok (\<lparr>e_start = offset, identifierEnd = next, contentStart = start,
                 e_end = start + unat len, e_class = drop_bit 6 (ord (raw ! offset)),
                 constructed = (ord (raw ! offset) AND 0x20 \<noteq> 0), e_tag = tag\<rparr>, start + unat len)))"
  using parse_identifier_inside [of raw offset]
  by (cases "parse_identifier raw offset") (auto simp: parseElement_def)

lemma decodeNonnegativeInteger_eq:
  "decodeNonnegativeInteger content maximum =
     (if content = [] then Err (Malformed ''empty BER integer'')
      else if ord (content ! 0) AND 0x80 \<noteq> 0 then Err (Malformed ''negative BER integer'')
      else if 1 < length content \<and> ord (content ! 0) = 0 \<and> ord (content ! 1) AND 0x80 = 0
      then Err (Malformed ''non-minimal BER integer'')
      else (case integer_value content 0 of
          None \<Rightarrow> Err (Malformed ''BER integer overflows'')
        | Some v \<Rightarrow>
            if (of_int maximum :: uint64) < v then Err (Malformed ''BER integer exceeds allowed range'')
            else Ok (int (unat v))))"
  by (auto simp: decodeNonnegativeInteger_def go_and_def)

lemma fill_octets_nonempty:
  "fill_octets room v filled = Some (left, octets) \<Longrightarrow> v \<noteq> 0 \<or> filled \<noteq> [] \<Longrightarrow> octets \<noteq> []"
proof (induction room v filled rule: fill_octets.induct)
  case (1 room v filled)
  from "1.prems" show ?case
    by (subst (asm) fill_octets.simps) (auto split: if_splits nat.splits dest: "1.IH")
qed

lemma encodeNonnegativeInteger_eq:
  "encodeNonnegativeInteger v =
     (if v = 0 then Ok [CHR 0x00]
      else go_bind (go_of_option (fill_octets 9 v [])) (\<lambda>(room, octets).
        if ord (octets ! 0) AND 0x80 \<noteq> 0 then
          if room = 0 then Panic else Ok (CHR 0x00 # octets)
        else Ok octets))"
  using fill_octets_nonempty [of 9 v "[]"]
  by (cases "fill_octets 9 v []") (auto simp: encodeNonnegativeInteger_def)

section \<open>Bounds, positions and prefixes\<close>

lemma and_128 [simp]: "(n::nat) < 256 \<Longrightarrow> n AND 128 = 0 \<longleftrightarrow> n < 128"
proof -
  assume "n < 256"
  then have "n div 128 = (if n < 128 then 0 else 1)" by auto
  then show ?thesis
    using and_exp_eq_0_iff_not_bit [of n 7] by (simp add: bit_iff_odd)
qed

lemma and_127: "(n::nat) AND 127 = n mod 128"
  using take_bit_eq_mask [of 7 n] by (simp add: take_bit_eq_mod mask_eq_exp_minus_1)

lemma parseBERLength_Ok:
  assumes "parseBERLength raw offset = Ok (len, next)"
  shows "offset < next \<and> next \<le> length raw"
  using assms by (auto simp: parseBERLength_eq Let_def split: if_splits)

lemma high_tag_Ok:
  "high_tag raw offset first tag = Ok (v, next) \<Longrightarrow> offset < next \<and> next \<le> length raw"
proof (induction raw offset first tag arbitrary: v "next" rule: high_tag_induct)
  case (1 raw offset first tag)
  note IH = "1.IH" [OF _ refl refl, simplified]
  from "1.prems" show ?case
    by (subst (asm) high_tag_eq) (auto simp: Let_def split: if_splits dest: IH)
qed

lemma parse_identifier_Ok:
  "parse_identifier raw offset = Ok (tag, next) \<Longrightarrow> offset < next \<and> next \<le> length raw"
  by (auto simp: parse_identifier_eq split: if_splits dest!: high_tag_Ok)

lemma parseElement_Ok:
  assumes "parseElement raw offset = Ok (element, next)"
  shows "e_start element = offset \<and> offset < identifierEnd element
    \<and> identifierEnd element < contentStart element \<and> contentStart element \<le> next
    \<and> e_end element = next \<and> next \<le> length raw"
  using assms
  by (auto simp: parseElement_eq split: if_splits
      dest!: parse_identifier_Ok parseBERLength_Ok)

lemma high_tag_shift:
  "high_tag (front @ raw) (length front + offset) first tag =
     go_bind (high_tag raw offset first tag) (\<lambda>(v, next). Ok (v, length front + next))"
proof (induction raw offset first tag rule: high_tag_induct)
  case (1 raw offset first tag)
  show ?case
    apply (subst high_tag_eq)
    apply (subst (2) high_tag_eq)
    using "1.IH" [OF _ refl refl, simplified] by (auto simp: Let_def nth_append)
qed

lemma parseBERLength_shift:
  "parseBERLength (front @ raw) (length front + offset) =
     go_bind (parseBERLength raw offset) (\<lambda>(len, next). Ok (len, length front + next))"
  by (auto simp: parseBERLength_eq Let_def nth_append)

text \<open>The element at a position further on.\<close>

definition moved :: "nat \<Rightarrow> berElement \<Rightarrow> berElement" where
  "moved k element = element\<lparr>e_start := k + e_start element, identifierEnd := k + identifierEnd element,
     contentStart := k + contentStart element, e_end := k + e_end element\<rparr>"

lemma moved_fields [simp]:
  "e_start (moved k element) = k + e_start element"
  "identifierEnd (moved k element) = k + identifierEnd element"
  "contentStart (moved k element) = k + contentStart element"
  "e_end (moved k element) = k + e_end element"
  "e_class (moved k element) = e_class element"
  "constructed (moved k element) = constructed element"
  "e_tag (moved k element) = e_tag element"
  by (simp_all add: moved_def)

lemma elementIs_moved [simp]: "elementIs (moved k element) cls con tag = elementIs element cls con tag"
  by (simp add: elementIs_def)

lemma parse_identifier_shift:
  "parse_identifier (front @ raw) (length front + offset) =
     go_bind (parse_identifier raw offset) (\<lambda>(v, next). Ok (v, length front + next))"
  using high_tag_shift [of front raw "Suc offset"]
  by (cases "high_tag raw (Suc offset) True 0") (auto simp: parse_identifier_eq)

lemma parseElement_shift:
  "parseElement (front @ raw) (length front + offset) =
     go_bind (parseElement raw offset) (\<lambda>(element, next). Ok (moved (length front) element, length front + next))"
proof (cases "parse_identifier raw offset")
  case (Ok r)
  then obtain tag q where "r = (tag, q)" and "offset < q" "q \<le> length raw"
    using parse_identifier_Ok by (cases r) auto
  with Ok show ?thesis
    by (cases "parseBERLength raw q")
      (auto simp: parseElement_eq parse_identifier_shift parseBERLength_shift moved_def)
qed (simp_all add: parseElement_eq parse_identifier_shift)

lemma parseElement_at:
  assumes "offset \<le> length raw"
  shows "parseElement raw offset = go_bind (parseElement (drop offset raw) 0)
    (\<lambda>(element, next). Ok (moved offset element, offset + next))"
  using parseElement_shift [of "take offset raw" "drop offset raw" 0] assms by (simp add: min_absorb2)

text \<open>What was read does not depend on what comes after it.\<close>

lemma nth_prefix: "i < m \<Longrightarrow> i < length raw \<Longrightarrow> (take m raw @ rest) ! i = raw ! i"
  by (simp add: nth_append)

lemma high_tag_prefix:
  "high_tag raw offset first tag = Ok (v, next) \<Longrightarrow> next \<le> m \<Longrightarrow> 
   high_tag (take m raw @ rest) offset first tag = Ok (v, next)"
proof (induction raw offset first tag arbitrary: v "next" rule: high_tag_induct)
  case (1 raw offset first tag)
  note IH = "1.IH" [OF _ refl refl, simplified]
  have "offset < next" "next \<le> length raw" using high_tag_Ok [OF "1.prems"(1)] by auto
  with "1.prems" show ?case
    apply (subst (asm) high_tag_eq)
    apply (subst high_tag_eq)
    apply (auto simp: Let_def nth_prefix split: if_splits intro: IH)
    done
qed

lemma parseBERLength_prefix:
  assumes "parseBERLength raw offset = Ok (len, next)" "next \<le> m"
  shows "parseBERLength (take m raw @ rest) offset = Ok (len, next)"
proof -
  note bounds = parseBERLength_Ok [OF assms(1)]
  have "take (next - Suc offset) (drop (Suc offset) (take m raw @ rest)) =
      take (next - Suc offset) (drop (Suc offset) raw)"
    using bounds assms(2) by (simp add: take_drop min_absorb1)
  with assms bounds show ?thesis
    by (auto simp: parseBERLength_eq Let_def nth_prefix split: if_splits)
qed

lemma parse_identifier_prefix:
  assumes "parse_identifier raw offset = Ok (tag, next)" "next \<le> m"
  shows "parse_identifier (take m raw @ rest) offset = Ok (tag, next)"
proof -
  have "offset < m" "offset < length raw" using parse_identifier_Ok [OF assms(1)] assms(2) by auto
  with assms show ?thesis
    by (auto simp: parse_identifier_eq nth_prefix split: if_splits dest: high_tag_prefix)
qed

lemma parseElement_prefix:
  assumes "parseElement raw offset = Ok (element, next)" "next \<le> m"
  shows "parseElement (take m raw @ rest) offset = Ok (element, next)"
proof -
  note bounds = parseElement_Ok [OF assms(1)]
  have id: "(take m raw @ rest) ! offset = raw ! offset"
    using bounds assms(2) by (simp add: nth_prefix)
  obtain tag q len where "parse_identifier raw offset = Ok (tag, q)"
    and "parseBERLength raw q = Ok (len, contentStart element)"
    and q: "identifierEnd element = q" and len: "next = contentStart element + unat len"
    using assms(1) by (auto simp: parseElement_eq split: if_splits)
  with bounds assms(2) have "parse_identifier (take m raw @ rest) offset = Ok (tag, q)"
    and "parseBERLength (take m raw @ rest) q = Ok (len, contentStart element)"
    by (auto intro!: parse_identifier_prefix parseBERLength_prefix)
  moreover have "\<not> length (take m raw @ rest) - contentStart element < unat len"
    using bounds assms(2) len by auto
  ultimately show ?thesis
    using assms(1) \<open>parse_identifier raw offset = _\<close> \<open>parseBERLength raw q = _\<close>
    by (auto simp: parseElement_eq id split: if_splits)
qed

section \<open>No panics\<close>

lemma high_tag_no_panic [simp]: "high_tag raw offset first tag \<noteq> Panic"
proof (induction raw offset first tag rule: high_tag_induct)
  case (1 raw offset first tag)
  from "1.IH" [OF _ refl refl, simplified] show ?case by (subst high_tag_eq) (simp add: Let_def)
qed

lemma parse_identifier_no_panic [simp]: "parse_identifier raw offset \<noteq> Panic"
  by (auto simp: parse_identifier_eq split: if_splits)

lemma parseBERLength_no_panic [simp]: "parseBERLength raw offset \<noteq> Panic"
  by (auto simp: parseBERLength_eq Let_def)

lemma parseElement_no_panic [simp]: "parseElement raw offset \<noteq> Panic"
  by (auto simp: parseElement_eq split: if_splits)

lemma decodeNonnegativeInteger_no_panic [simp]: "decodeNonnegativeInteger content maximum \<noteq> Panic"
  by (simp add: decodeNonnegativeInteger_eq split: option.split)

lemma content_of_no_panic:
  "parseElement raw offset = Ok (element, next) \<Longrightarrow>
   content_of raw element = Ok (take (next - contentStart element) (drop (contentStart element) raw))"
  using parseElement_Ok by (fastforce simp: content_of_def go_slice_def)

lemma whole_of_no_panic:
  "parseElement raw offset = Ok (element, next) \<Longrightarrow>
   whole_of raw element = Ok (take (next - offset) (drop offset raw))"
  using parseElement_Ok by (fastforce simp: whole_of_def go_slice_def)

section \<open>What is written is read back\<close>

lemma push_or_8: "push_bit 8 v OR of_nat (ord c) = v * 256 + (of_nat (ord c) :: uint64)"
proof -
  have "\<not> bit (push_bit 8 v) n \<or> \<not> bit (of_nat (ord c) :: uint64) n" for n
  proof (cases "n < 8")
    case False
    have "ord c < 2 ^ 8" by simp
    also have "2 ^ 8 \<le> (2 ^ n :: nat)" using False by (intro power_increasing) auto
    finally have "ord c < 2 ^ n" .
    then have "\<not> bit (ord c) n" by (simp add: bit_iff_odd)
    then show ?thesis by (simp add: bit_of_nat_iff)
  qed (simp add: bit_push_bit_iff)
  then show ?thesis by (simp add: disjunctive_add push_bit_eq_mult)
qed

lemma of_char_int: "(of_char c :: int) = int (ord c)"
  by (simp add: of_nat_of_char)

lemma length_value:
  "foldl (\<lambda>len octet. push_bit 8 len OR of_nat (ord octet)) (of_int v :: uint64) octets
     = of_int (big_endian_value octets v)"
proof (induction octets arbitrary: v)
  case (Cons c octets)
  have "push_bit 8 (of_int v) OR of_nat (ord c) = (of_int (v * 256 + of_char c) :: uint64)"
    by (simp only: push_or_8 of_char_int of_int_add of_int_mult of_int_numeral of_int_of_nat_eq)
  with Cons.IH [of "v * 256 + of_char c"] show ?case by (simp only: foldl_Cons big_endian_value.simps)
qed simp

lemma fill_octets_Some:
  "fill_octets room v filled = Some (left, octets) \<Longrightarrow> 0 \<le> v \<Longrightarrow>
   \<exists>os. octets = os @ filled \<and> big_endian_value os 0 = v \<and> room = left + length os
     \<and> (if v = 0 then os = [] else os \<noteq> [] \<and> ord (hd os) \<noteq> 0)"
proof (induction room v filled rule: fill_octets.induct)
  case (1 room v filled)
  show ?case
  proof (cases "v = 0")
    case True
    with 1 show ?thesis by (subst (asm) fill_octets.simps) auto
  next
    case False
    then obtain r where r: "room = Suc r"
      using "1.prems"(1) by (cases room) (subst (asm) fill_octets.simps, simp)+
    have "fill_octets r (v div 256) (char_of (v mod 256) # filled) = Some (left, octets)"
      using "1.prems"(1) False r by (subst (asm) fill_octets.simps) simp
    from "1.IH" [OF False r this] "1.prems"(2) obtain os
      where os: "octets = os @ char_of (v mod 256) # filled" "big_endian_value os 0 = v div 256"
        "r = left + length os" "if v div 256 = 0 then os = [] else os \<noteq> [] \<and> ord (hd os) \<noteq> 0"
      by (auto simp: pos_imp_zdiv_nonneg_iff)
    have low: "int (ord (char_of (v mod 256))) = v mod 256" by (simp add: of_nat_of_char)
    show ?thesis
    proof (intro exI conjI)
      show "octets = (os @ [char_of (v mod 256)]) @ filled" using os by simp
      show "big_endian_value (os @ [char_of (v mod 256)]) 0 = v"
        using os by (simp add: big_endian_value_append)
      show "room = left + length (os @ [char_of (v mod 256)])" using os r by simp
      have "v mod 256 = v" if "v div 256 = 0"
        using div_mult_mod_eq [of v 256] that by simp
      with os low False show "if v = 0 then os @ [char_of (v mod 256)] = []
          else os @ [char_of (v mod 256)] \<noteq> [] \<and> ord (hd (os @ [char_of (v mod 256)])) \<noteq> 0"
        by (cases os) (auto split: if_splits)
    qed
  qed
qed

lemma fill_octets_room:
  "0 \<le> v \<Longrightarrow> v < 256 ^ k \<Longrightarrow> \<exists>left octets. fill_octets (n + k) v filled = Some (left, octets) \<and> n \<le> left"
proof (induction k arbitrary: v filled)
  case 0
  then show ?case by (subst fill_octets.simps) simp
next
  case (Suc k)
  show ?case
  proof (cases "v = 0")
    case False
    have "0 \<le> v div 256" "v div 256 < 256 ^ k" using Suc.prems by (auto simp: pos_imp_zdiv_nonneg_iff)
    from Suc.IH [OF this, of "char_of (v mod 256) # filled"] False show ?thesis
      by (subst fill_octets.simps) simp
  qed (subst fill_octets.simps, simp)
qed

lemma encodeBERLength_Ok:
  assumes "len < 2 ^ 63"
  obtains octets where "encodeBERLength len = Ok octets"
    and "\<And>rest. parseBERLength (octets @ rest) 0 = Ok (of_nat len, length octets)"
    and "len < 256 ^ k \<Longrightarrow> k \<le> 8 \<Longrightarrow> length octets \<le> k + 1" and "octets \<noteq> []"
    and "ord (octets ! 0) < 128 \<or> ord (octets ! 0) AND 127 = length octets - 1"
proof (cases "len < 128")
  case True
  then have "parseBERLength ([char_of len] @ rest) 0 = Ok (of_nat len, length [char_of len :: char])" for rest
    by (simp add: parseBERLength_eq)
  with True show ?thesis by (intro that [of "[char_of len]"]) (auto simp: encodeBERLength_def)
next
  case False
  have "int len < 256 ^ 8" using assms by simp
  from fill_octets_room [of "int len" 8 0 "[]", OF _ this] obtain left os
    where fill: "fill_octets 8 (int len) [] = Some (left, os)" by auto
  from fill_octets_Some [OF fill] False
  have v: "big_endian_value os 0 = int len" and l: "8 = left + length os" and "os \<noteq> []"
    by (auto split: if_splits)
  have n: "length os \<le> 8" "0 < length os" using l \<open>os \<noteq> []\<close> by auto
  then have tagged: "128 OR length os = 128 + length os"
    using nat_or_128 [of "length os"] by (simp add: or.commute add.commute)
  have "parseBERLength ((char_of (128 OR length os) # os) @ rest) 0 = Ok (of_nat len, length (char_of (128 OR length os) # os))" for rest
    using n length_value [of 0 os] by (simp add: parseBERLength_eq tagged and_127 v Let_def)
  moreover have "length os \<le> k" if "len < 256 ^ k" "k \<le> 8"
  proof -
    have "int len < 256 ^ k" using that by (metis of_nat_less_iff of_nat_numeral of_nat_power)
    from fill_octets_room [OF _ this, of "8 - k" "[]"] that fill show ?thesis using l by auto
  qed
  ultimately show ?thesis using False fill n tagged
    by (intro that [of "char_of (128 OR length os) # os"]) (auto simp: encodeBERLength_def and_127)
qed

text \<open>The element that a written identifier, length and content is read as.\<close>

definition tlv_element :: "nat \<Rightarrow> nat \<Rightarrow> nat \<Rightarrow> berElement" where
  "tlv_element identifier h n = \<lparr>e_start = 0, identifierEnd = 1, contentStart = h, e_end = h + n,
     e_class = drop_bit 6 identifier, constructed = (identifier AND 32 \<noteq> 0),
     e_tag = of_nat (identifier AND 31)\<rparr>"

lemma tlv_element_fields [simp]:
  "e_start (tlv_element i h n) = 0" "identifierEnd (tlv_element i h n) = 1"
  "contentStart (tlv_element i h n) = h" "e_end (tlv_element i h n) = h + n"
  "e_class (tlv_element i h n) = drop_bit 6 i" "constructed (tlv_element i h n) \<longleftrightarrow> i AND 32 \<noteq> 0"
  "e_tag (tlv_element i h n) = of_nat (i AND 31)"
  by (simp_all add: tlv_element_def)

definition tlv_head :: "nat \<Rightarrow> bytes \<Rightarrow> bytes \<Rightarrow> bool" where
  "tlv_head identifier head content \<longleftrightarrow>
     head ! 0 = char_of identifier \<and> 1 < length head \<and>
     (ord (head ! 1) < 128 \<or> ord (head ! 1) AND 127 = length head - 2) \<and>
     (\<forall>rest. parseElement (head @ content @ rest) 0 =
       Ok (tlv_element identifier (length head) (length content), length head + length content))"

lemma encodeTLV_Ok:
  assumes "length content \<le> maximumInt" and id: "identifier < 256" "identifier AND 31 \<noteq> 31"
    and "length content < 256 ^ k" "k \<le> 8"
  obtains head where "encodeTLV identifier content = Ok (head @ content)"
    "tlv_head identifier head content" "length head \<le> k + 2"
proof -
  have len: "length content < 2 ^ 63" using assms(1) by (simp add: maximumInt_def)
  obtain octets where octets: "encodeBERLength (length content) = Ok octets"
    "\<And>rest. parseBERLength (octets @ rest) 0 = Ok (of_nat (length content), length octets)"
    "length octets \<le> k + 1" "octets \<noteq> []"
    "ord (octets ! 0) < 128 \<or> ord (octets ! 0) AND 127 = length octets - 1"
    using encodeBERLength_Ok [OF len, of k] assms(4,5) by metis
  have u: "unat (of_nat (length content) :: uint64) = length content" using len by simp
  have i: "ord (char_of identifier) = identifier" using id(1) by simp
  have "parseBERLength ((char_of identifier # octets) @ content @ rest) (Suc 0) =
      Ok (of_nat (length content), Suc (length octets))" for rest
    using parseBERLength_shift [of "[char_of identifier]" "octets @ content @ rest" 0]
    by (simp add: octets(2) [of "content @ rest"])
  then have "parseElement ((char_of identifier # octets) @ content @ rest) 0 =
      Ok (tlv_element identifier (Suc (length octets)) (length content), Suc (length octets) + length content)" for rest
    using len id i by (simp add: parseElement_eq parse_identifier_eq u maximumInt_def tlv_element_def)
  with octets show ?thesis
    by (intro that [of "char_of identifier # octets"])
      (auto simp: encodeTLV_def tlv_head_def Suc_le_eq)
qed

lemma tlv_headD:
  assumes "tlv_head identifier head content"
  shows "parseElement (head @ content @ rest) 0 =
    Ok (tlv_element identifier (length head) (length content), length head + length content)"
  and "parseElement (head @ content) 0 =
    Ok (tlv_element identifier (length head) (length content), length head + length content)"
  and "parseElement (front @ head @ content @ rest) (length front) =
    Ok (moved (length front) (tlv_element identifier (length head) (length content)),
      length front + (length head + length content))"
  and "content_of (front @ head @ content @ rest)
      (moved (length front) (tlv_element identifier (length head) (length content))) = Ok content"
proof -
  show e: "parseElement (head @ content @ rest) 0 =
    Ok (tlv_element identifier (length head) (length content), length head + length content)" for rest
    using assms by (simp add: tlv_head_def)
  show "parseElement (head @ content) 0 =
    Ok (tlv_element identifier (length head) (length content), length head + length content)"
    using e [of "[]"] by simp
  show "parseElement (front @ head @ content @ rest) (length front) =
    Ok (moved (length front) (tlv_element identifier (length head) (length content)),
      length front + (length head + length content))"
    using parseElement_shift [of front "head @ content @ rest" 0] e by simp
  show "content_of (front @ head @ content @ rest)
      (moved (length front) (tlv_element identifier (length head) (length content))) = Ok content"
    by (simp add: content_of_def go_slice_def)
qed

lemma integer_step:
  fixes v :: uint64
  assumes "n < 256" "uint v * 256 + int n < 2 ^ 64"
  shows "\<not> (- 1 - of_nat n) div 256 < v" and "uint (v * 256 + of_nat n) = uint v * 256 + int n"
proof -
  have n: "uint (of_nat n :: uint64) = int n"
    using assms(1) unat_of_nat_uint64 [of n] by (simp add: uint_nat)
  have top: "uint (- 1 :: uint64) = 2 ^ 64 - 1"
    by (simp add: unsigned_minus_1_eq_mask mask_eq_exp_minus_1)
  have "uint (of_nat n :: uint64) \<le> uint (- 1 :: uint64)" using n top assms(1) by simp
  then have "uint (- 1 - of_nat n :: uint64) = 2 ^ 64 - 1 - int n" using n top by (metis uint_sub_lem)
  then have "uint ((- 1 - of_nat n :: uint64) div 256) = (2 ^ 64 - 1 - int n) div 256"
    by (simp add: uint_div_distrib)
  then have "uint v \<le> uint ((- 1 - of_nat n :: uint64) div 256)" using assms by simp
  then show "\<not> (- 1 - of_nat n) div 256 < v" by (simp add: word_le_def not_less)
  have "uint (v * 256) = uint v * 256"
    using assms uint_mult_lem [of v 256] by simp
  then show "uint (v * 256 + of_nat n) = uint v * 256 + int n"
    using assms n uint_add_lem [of "v * 256" "of_nat n"] by simp
qed

lemma big_endian_value_ge: "0 \<le> n \<Longrightarrow> n \<le> big_endian_value cs n"
proof (induction cs arbitrary: n)
  case (Cons c cs)
  have c: "0 \<le> (of_char c :: int)" by (simp only: of_char_int of_nat_0_le_iff)
  with Cons.prems have "n \<le> n * 256 + of_char c" by simp
  also have "\<dots> \<le> big_endian_value cs (n * 256 + of_char c)" using Cons.prems c by (intro Cons.IH) simp
  finally show ?case by simp
qed simp

lemma integer_value_Some:
  "big_endian_value octets (uint v) < 2 ^ 64 \<Longrightarrow>
   \<exists>w. integer_value octets v = Some w \<and> uint w = big_endian_value octets (uint v)"
proof (induction octets arbitrary: v)
  case (Cons c octets)
  have "0 \<le> uint v * 256 + int (ord c)" by simp
  from big_endian_value_ge [OF this, of octets] Cons.prems
  have "uint v * 256 + int (ord c) < 2 ^ 64" by (simp only: big_endian_value.simps of_char_int)
  note step = integer_step [OF _ this]
  have "ord c < 256" by simp
  note step = step [OF this]
  have "big_endian_value octets (uint (v * 256 + of_nat (ord c))) < 2 ^ 64"
    using Cons.prems by (simp only: step(2) big_endian_value.simps of_char_int)
  from Cons.IH [OF this] step show ?case
    by (simp only: integer_value.simps big_endian_value.simps of_char_int if_False simp_thms)
qed simp

lemma encodeNonnegativeInteger_Ok:
  assumes "0 \<le> v" "v \<le> maximum" "maximum < 2 ^ 63"
  obtains octets where "encodeNonnegativeInteger v = Ok octets"
    and "decodeNonnegativeInteger octets maximum = Ok v" and "octets \<noteq> []" "length octets \<le> 9"
proof (cases "v = 0")
  case True
  with assms have "decodeNonnegativeInteger [CHR 0x00] maximum = Ok v"
    by (simp add: decodeNonnegativeInteger_eq word_less_def)
  with True that show ?thesis by (auto simp: encodeNonnegativeInteger_eq)
next
  case False
  have "v < 256 ^ 8" using assms by simp
  from fill_octets_room [OF assms(1) this, of 1 "[]"] obtain left os
    where fill: "fill_octets 9 v [] = Some (left, os)" and "1 \<le> left" by auto
  from fill_octets_Some [OF fill assms(1)] False
  have os: "big_endian_value os 0 = v" "9 = left + length os" "os \<noteq> []" "ord (hd os) \<noteq> 0"
    by (auto split: if_splits)
  then have h: "ord (os ! 0) \<noteq> 0" by (simp add: hd_conv_nth)
  have max: "uint (of_int maximum :: uint64) = maximum"
    using assms by (simp add: uint_word_of_int)
  obtain w where w: "integer_value os 0 = Some w" "uint w = v"
    using integer_value_Some [of os 0] os(1) assms by auto
  then have "\<not> (of_int maximum :: uint64) < w" using max assms by (simp add: word_less_def)
  moreover have "int (unat w) = v" using w(2) by simp
  ultimately have dec: "decodeNonnegativeInteger os maximum = Ok v" if "ord (os ! 0) < 128"
    using w(1) os(3) h that by (auto simp: decodeNonnegativeInteger_eq)
  show ?thesis
  proof (cases "ord (os ! 0) < 128")
    case True
    with dec fill False os show ?thesis
      by (intro that [of os]) (auto simp: encodeNonnegativeInteger_eq)
  next
    case False
    have "integer_value (CHR 0x00 # os) 0 = Some w" using w(1) by simp
    with False w \<open>\<not> of_int maximum < w\<close> \<open>int (unat w) = v\<close> os(3)
    have "decodeNonnegativeInteger (CHR 0x00 # os) maximum = Ok v"
      by (simp add: decodeNonnegativeInteger_eq)
    with False \<open>v \<noteq> 0\<close> fill \<open>1 \<le> left\<close> os(2) show ?thesis
      by (intro that [of "CHR 0x00 # os"]) (auto simp: encodeNonnegativeInteger_eq)
  qed
qed

end
