(* ===== verification/LLoad_Wire.thy ===== *)
theory LLoad_Wire
  imports LLoad_BER
begin

text \<open>
  The messages that the load balancer forwards (\<^verbatim>\<open>src/internal/lloadd/wire.go\<close>): taking one from a
  connection, reading what routing needs (message identifier, operation, controls, bind and
  extended request data, result code), writing it again under another message identifier, with
  another target or with a proxied identity, and the responses the proxy makes itself. The
  messages' bytes are kept as they came (\<open>f_Raw\<close>, \<open>ProtocolOp\<close>, \<open>ControlsRaw\<close>); a nil slice and
  an empty one are the same list. \<open>int64\<close> values are integers: all of them are checked against
  a range before they are used.
\<close>

named_theorems wire_constants \<open>the protocol's numbers\<close>

section \<open>Protocol numbers\<close>

definition DefaultMaxFrameSize :: int where "DefaultMaxFrameSize = 2 ^ 24 - 1"
definition MaxMessageID :: int where "MaxMessageID = 2 ^ 31 - 1"
definition maxOuterLengthOctets :: nat where "maxOuterLengthOctets = 4"
definition ProxyAuthzControlOID :: bytes where "ProxyAuthzControlOID = ''2.16.840.1.113730.3.4.18''"

definition TagBindRequest :: uint64 where [wire_constants]: "TagBindRequest = 0"
definition TagBindResponse :: uint64 where [wire_constants]: "TagBindResponse = 1"
definition TagUnbindRequest :: uint64 where [wire_constants]: "TagUnbindRequest = 2"
definition TagSearchRequest :: uint64 where [wire_constants]: "TagSearchRequest = 3"
definition TagSearchResultEntry :: uint64 where [wire_constants]: "TagSearchResultEntry = 4"
definition TagSearchResultDone :: uint64 where [wire_constants]: "TagSearchResultDone = 5"
definition TagModifyRequest :: uint64 where [wire_constants]: "TagModifyRequest = 6"
definition TagModifyResponse :: uint64 where [wire_constants]: "TagModifyResponse = 7"
definition TagAddRequest :: uint64 where [wire_constants]: "TagAddRequest = 8"
definition TagAddResponse :: uint64 where [wire_constants]: "TagAddResponse = 9"
definition TagDeleteRequest :: uint64 where [wire_constants]: "TagDeleteRequest = 10"
definition TagDeleteResponse :: uint64 where [wire_constants]: "TagDeleteResponse = 11"
definition TagModifyDNRequest :: uint64 where [wire_constants]: "TagModifyDNRequest = 12"
definition TagModifyDNResponse :: uint64 where [wire_constants]: "TagModifyDNResponse = 13"
definition TagCompareRequest :: uint64 where [wire_constants]: "TagCompareRequest = 14"
definition TagCompareResponse :: uint64 where [wire_constants]: "TagCompareResponse = 15"
definition TagAbandonRequest :: uint64 where [wire_constants]: "TagAbandonRequest = 16"
definition TagSearchResultReference :: uint64 where [wire_constants]: "TagSearchResultReference = 19"
definition TagExtendedRequest :: uint64 where [wire_constants]: "TagExtendedRequest = 23"
definition TagExtendedResponse :: uint64 where [wire_constants]: "TagExtendedResponse = 24"
definition TagIntermediateResponse :: uint64 where [wire_constants]: "TagIntermediateResponse = 25"

type_synonym ResultCode = int

definition ResultSASLBindInProgress :: ResultCode where "ResultSASLBindInProgress = 14"

section \<open>Messages\<close>

record Control =
  OID :: bytes
  Critical :: bool
  HasValue :: bool
  c_Raw :: bytes

datatype BindAuthentication = BindAuthenticationSimple | BindAuthenticationSASL

definition authentication_String :: "BindAuthentication \<Rightarrow> string" where
  "authentication_String a = (if a = BindAuthenticationSASL then ''sasl'' else ''simple'')"

record BindMetadata =
  Version :: int
  b_DN :: bytes
  Authentication :: BindAuthentication
  SASLMechanism :: bytes
  SASLAuthenticationID :: bytes
  SASLAuthorizationID :: bytes
  HasSASLCredentials :: bool

record Frame =
  f_Raw :: bytes
  MessageID :: int
  ProtocolTag :: uint64
  ProtocolOp :: bytes
  ControlsRaw :: bytes
  Controls :: "Control list"
  ExtendedOID :: bytes
  ExtendedValue :: bytes
  HasExtendedValue :: bool
  f_Bind :: "BindMetadata option"
  f_ResultCode :: "ResultCode option"
  AbandonTarget :: int
  HasAbandonTarget :: bool

section \<open>Reading the parts of a message\<close>

text \<open>The test \<open>err != nil || !elementIs(...)\<close> that the readers share.\<close>

definition parse_as ::
  "bytes \<Rightarrow> nat \<Rightarrow> nat \<Rightarrow> bool \<Rightarrow> uint64 \<Rightarrow> string \<Rightarrow> (wire_error, berElement \<times> nat) go" where
  "parse_as raw offset cls con tag msg =
     (case parseElement raw offset of
        Ok (element, next) \<Rightarrow> if elementIs element cls con tag then Ok (element, next) else Err (Malformed msg)
      | Err _ \<Rightarrow> Err (Malformed msg)
      | Panic \<Rightarrow> Panic)"

text \<open>\<open>utf8.Valid\<close>: no byte is read as a replacement character of width one.\<close>

definition utf8_Valid :: "bytes \<Rightarrow> bool" where
  "utf8_Valid s \<longleftrightarrow> list_all (\<lambda>(r, b). \<not> (r = RuneError \<and> length b = 1)) (segments s)"

text \<open>One step per byte; the accumulated values are the start of the segment and the dots.\<close>

definition leading_zero :: "bytes \<Rightarrow> nat \<Rightarrow> nat \<Rightarrow> (wire_error, bool) go" where
  "leading_zero raw segmentStart segmentEnd =
     go_and (1 < segmentEnd - segmentStart)
       (go_bind (go_index segmentStart raw) (\<lambda>octet. Ok (octet = CHR ''0'')))"

fun oid_loop :: "bytes \<Rightarrow> bytes \<Rightarrow> nat \<Rightarrow> nat \<Rightarrow> nat \<Rightarrow> (wire_error, nat \<times> nat) go" where
  "oid_loop raw [] index segmentStart dots = Ok (segmentStart, dots)"
| "oid_loop raw (v # rest) index segmentStart dots =
     (if v = CHR ''.'' then
        go_bind (if index = segmentStart then Ok True else leading_zero raw segmentStart index) (\<lambda>invalid.
        if invalid then Err (Malformed ''invalid numeric OID'')
        else oid_loop raw rest (index + 1) (index + 1) (dots + 1))
      else if v < CHR ''0'' \<or> CHR ''9'' < v then Err (Malformed ''invalid numeric OID'')
      else oid_loop raw rest (index + 1) segmentStart dots)"

definition parseNumericOID :: "bytes \<Rightarrow> (wire_error, bytes) go" where
  "parseNumericOID raw =
     (if length raw < 3 then Err (Malformed ''invalid numeric OID'')
      else
        go_bind (go_index 0 raw) (\<lambda>front.
        if front = CHR ''.'' then Err (Malformed ''invalid numeric OID'')
        else
          go_bind (go_index (length raw - 1) raw) (\<lambda>back.
          if back = CHR ''.'' then Err (Malformed ''invalid numeric OID'')
          else
            go_bind (oid_loop raw raw 0 0 0) (\<lambda>(segmentStart, dots).
            go_bind (if dots = 0 then Ok True else leading_zero raw segmentStart (length raw)) (\<lambda>invalid.
              if invalid then Err (Malformed ''invalid numeric OID'') else Ok raw)))))"

text \<open>The same without the reads: what the loop accepts, and what an identifier is.\<close>

fun oid_scan :: "bytes \<Rightarrow> bytes \<Rightarrow> nat \<Rightarrow> nat \<Rightarrow> nat \<Rightarrow> (nat \<times> nat) option" where
  "oid_scan raw [] index segmentStart dots = Some (segmentStart, dots)"
| "oid_scan raw (v # rest) index segmentStart dots =
     (if v = CHR ''.'' then
        if index = segmentStart \<or> 1 < index - segmentStart \<and> raw ! segmentStart = CHR ''0'' then None
        else oid_scan raw rest (index + 1) (index + 1) (dots + 1)
      else if v < CHR ''0'' \<or> CHR ''9'' < v then None
      else oid_scan raw rest (index + 1) segmentStart dots)"

lemma leading_zero_inside:
  "segmentEnd \<le> length raw \<Longrightarrow>
   leading_zero raw segmentStart segmentEnd = Ok (1 < segmentEnd - segmentStart \<and> raw ! segmentStart = CHR ''0'')"
  by (cases "1 < segmentEnd - segmentStart") (simp_all add: leading_zero_def)

lemma oid_loop_scan:
  "index + length rest = length raw \<Longrightarrow>
   oid_loop raw rest index segmentStart dots = (case oid_scan raw rest index segmentStart dots of
      None \<Rightarrow> Err (Malformed ''invalid numeric OID'') | Some r \<Rightarrow> Ok r)"
  by (induction raw rest index segmentStart dots rule: oid_scan.induct) (simp_all add: leading_zero_inside)

lemma parseNumericOID_eq:
  "parseNumericOID raw =
     (if length raw < 3 \<or> raw ! 0 = CHR ''.'' \<or> raw ! (length raw - 1) = CHR ''.''
      then Err (Malformed ''invalid numeric OID'')
      else (case oid_scan raw raw 0 0 0 of
          None \<Rightarrow> Err (Malformed ''invalid numeric OID'')
        | Some (segmentStart, dots) \<Rightarrow>
            if dots = 0 \<or> 1 < length raw - segmentStart \<and> raw ! segmentStart = CHR ''0''
            then Err (Malformed ''invalid numeric OID'')
            else Ok raw))"
proof (cases "length raw < 3")
  case False
  then have inside: "0 < length raw" "length raw - 1 < length raw" by linarith+
  have loop: "oid_loop raw raw 0 0 0 = (case oid_scan raw raw 0 0 0 of
      None \<Rightarrow> Err (Malformed ''invalid numeric OID'') | Some r \<Rightarrow> Ok r)"
    by (rule oid_loop_scan) simp
  show ?thesis
    unfolding parseNumericOID_def loop go_index_inside [OF inside(1)] go_index_inside [OF inside(2)] go_bind.simps
    by (cases "oid_scan raw raw 0 0 0") (simp_all add: leading_zero_inside split: prod.split)
qed (simp add: parseNumericOID_def)

subsection \<open>Controls\<close>

definition parse_criticality :: "bytes \<Rightarrow> nat \<Rightarrow> nat \<Rightarrow> (wire_error, bool \<times> nat) go" where
  "parse_criticality raw fieldCursor sequenceEnd =
     (if fieldCursor < sequenceEnd then
        go_bind (go_wrap (malformedWrap ''control field'') (parseElement raw fieldCursor)) (\<lambda>(field, nextField).
          if elementIs field berClassUniversal False berTagBoolean then
            if e_end field - contentStart field \<noteq> 1 then Err (Malformed ''invalid control criticality'')
            else go_bind (go_index (contentStart field) raw) (\<lambda>octet. Ok (ord octet \<noteq> 0, nextField))
          else Ok (False, fieldCursor))
      else Ok (False, fieldCursor))"

lemma parse_criticality_eq:
  "parse_criticality raw fieldCursor sequenceEnd =
     (if fieldCursor < sequenceEnd then
        go_bind (go_wrap (malformedWrap ''control field'') (parseElement raw fieldCursor)) (\<lambda>(field, nextField).
          if elementIs field berClassUniversal False berTagBoolean then
            if e_end field - contentStart field \<noteq> 1 then Err (Malformed ''invalid control criticality'')
            else Ok (ord (raw ! contentStart field) \<noteq> 0, nextField)
          else Ok (False, fieldCursor))
      else Ok (False, fieldCursor))"
  using parseElement_Ok [of raw fieldCursor]
  by (cases "parseElement raw fieldCursor") (fastforce simp: parse_criticality_def)+

definition parse_control_value :: "bytes \<Rightarrow> nat \<Rightarrow> nat \<Rightarrow> (wire_error, bool \<times> nat) go" where
  "parse_control_value raw fieldCursor sequenceEnd =
     (if fieldCursor < sequenceEnd then
        go_bind (parse_as raw fieldCursor berClassUniversal False berTagOctetString ''invalid control value'')
          (\<lambda>(_, nextField). Ok (True, nextField))
      else Ok (False, fieldCursor))"

definition parse_control :: "bytes \<Rightarrow> nat \<Rightarrow> (wire_error, Control \<times> nat) go" where
  "parse_control raw cursor =
     go_bind (go_wrap (malformedWrap ''control'') (parseElement raw cursor)) (\<lambda>(sequence, next).
     if \<not> elementIs sequence berClassUniversal True berTagSequence
     then Err (Malformed ''control is not a sequence'')
     else
       go_bind (parse_as raw (contentStart sequence) berClassUniversal False berTagOctetString
         ''invalid control OID'') (\<lambda>(oidElement, fieldEnd).
       go_bind (content_of raw oidElement) (\<lambda>oidBytes.
       go_bind (go_wrap (\<lambda>_. Malformed ''invalid control OID'') (parseNumericOID oidBytes)) (\<lambda>oid.
       go_bind (whole_of raw sequence) (\<lambda>whole.
       go_bind (parse_criticality raw fieldEnd (e_end sequence)) (\<lambda>(critical, fieldCursor).
       go_bind (parse_control_value raw fieldCursor (e_end sequence)) (\<lambda>(hasValue, fieldCursor).
         if fieldCursor \<noteq> e_end sequence then Err (Malformed ''unexpected control field'')
         else Ok (\<lparr>OID = oid, Critical = critical, HasValue = hasValue, c_Raw = whole\<rparr>, next))))))))"

lemma parse_control_next: "parse_control raw cursor = Ok (control, next) \<Longrightarrow> cursor < next \<and> next \<le> length raw"
  by (auto simp: parse_control_def split: if_splits dest!: parseElement_Ok)

function control_loop :: "bytes \<Rightarrow> nat \<Rightarrow> nat \<Rightarrow> (wire_error, Control list) go" where
  "control_loop raw cursor wrapperEnd =
     (if cursor < wrapperEnd then
        (case parse_control raw cursor of
           Ok (control, next) \<Rightarrow>
             go_bind (control_loop raw next wrapperEnd) (\<lambda>controls. Ok (control # controls))
         | Err e \<Rightarrow> Err e
         | Panic \<Rightarrow> Panic)
      else Ok [])"
  by pat_completeness auto
termination
  by (relation "measure (\<lambda>(raw, cursor, wrapperEnd). wrapperEnd - cursor)")
    (auto dest!: parse_control_next)

declare control_loop.simps [simp del]

definition parseControls :: "bytes \<Rightarrow> berElement \<Rightarrow> (wire_error, Control list) go" where
  "parseControls raw wrapper =
     (if \<not> elementIs wrapper berClassContext True 0 then Err (Malformed ''invalid controls wrapper'')
      else if contentStart wrapper = e_end wrapper then Err (Malformed ''controls wrapper is empty'')
      else control_loop raw (contentStart wrapper) (e_end wrapper))"

subsection \<open>Bind requests\<close>

text \<open>The two identities in front of the password, each ended by a zero byte.\<close>

definition parseSASLPlainIdentities :: "bytes \<Rightarrow> bytes \<times> bytes" where
  "parseSASLPlainIdentities credentials =
     (case Cut (CHR 0x00) credentials of (authzID, rest, found) \<Rightarrow>
        if \<not> found then ([], [])
        else (case Cut (CHR 0x00) rest of (authcID, _, found) \<Rightarrow>
          if \<not> found then ([], [])
          else if authcID = [] \<or> \<not> utf8_Valid authzID \<or> \<not> utf8_Valid authcID then ([], [])
          else (authzID, authcID)))"

text \<open>The SASL choice of a bind request: its mechanism and optional credentials.\<close>

definition parse_sasl ::
  "unicode \<Rightarrow> bytes \<Rightarrow> berElement \<Rightarrow> BindMetadata \<Rightarrow> (wire_error, BindMetadata) go" where
  "parse_sasl U raw authentication metadata =
     go_bind (parse_as raw (contentStart authentication) berClassUniversal False berTagOctetString
       ''invalid SASL mechanism'') (\<lambda>(mechanism, mechanismEnd).
     go_bind (content_of raw mechanism) (\<lambda>mechanismBytes.
     if mechanismBytes = [] \<or> \<not> utf8_Valid mechanismBytes then Err (Malformed ''invalid SASL mechanism'')
     else
       let metadata = metadata\<lparr>Authentication := BindAuthenticationSASL, SASLMechanism := mechanismBytes\<rparr> in
       if mechanismEnd < e_end authentication then
         (case parseElement raw mechanismEnd of
            Ok (credentials, credentialsEnd) \<Rightarrow>
              if credentialsEnd \<noteq> e_end authentication
                \<or> \<not> elementIs credentials berClassUniversal False berTagOctetString
              then Err (Malformed ''invalid SASL credentials element'')
              else if EqualFold U mechanismBytes ''PLAIN'' then
                go_bind (content_of raw credentials) (\<lambda>bs.
                  Ok (metadata\<lparr>HasSASLCredentials := True,
                        SASLAuthorizationID := fst (parseSASLPlainIdentities bs),
                        SASLAuthenticationID := snd (parseSASLPlainIdentities bs)\<rparr>))
              else Ok (metadata\<lparr>HasSASLCredentials := True\<rparr>)
          | Err _ \<Rightarrow> Err (Malformed ''invalid SASL credentials element'')
          | Panic \<Rightarrow> Panic)
       else if mechanismEnd \<noteq> e_end authentication then Err (Malformed ''invalid SASL authentication'')
       else Ok metadata))"

definition parseBindMetadata :: "unicode \<Rightarrow> bytes \<Rightarrow> berElement \<Rightarrow> (wire_error, BindMetadata) go" where
  "parseBindMetadata U raw protocol =
     (if \<not> constructed protocol then Err (Malformed ''BindRequest must be constructed'')
      else
        go_bind (parse_as raw (contentStart protocol) berClassUniversal False berTagInteger
          ''invalid Bind version'') (\<lambda>(versionElement, next).
        go_bind (content_of raw versionElement) (\<lambda>versionBytes.
        go_bind (go_wrap (\<lambda>_. Malformed ''invalid Bind version'')
          (decodeNonnegativeInteger versionBytes 127)) (\<lambda>version.
        if version = 0 then Err (Malformed ''invalid Bind version'')
        else
          go_bind (parse_as raw next berClassUniversal False berTagOctetString ''invalid Bind DN'')
            (\<lambda>(dnElement, next).
          go_bind (content_of raw dnElement) (\<lambda>dnBytes.
          if \<not> utf8_Valid dnBytes then Err (Malformed ''Bind DN is not valid UTF-8'')
          else
            (case parseElement raw next of
               Ok (authentication, next) \<Rightarrow>
                 if next \<noteq> e_end protocol \<or> e_class authentication \<noteq> berClassContext
                 then Err (Malformed ''invalid Bind authentication'')
                 else
                   let metadata = \<lparr>Version = version, b_DN = dnBytes,
                     Authentication = BindAuthenticationSimple, SASLMechanism = [],
                     SASLAuthenticationID = [], SASLAuthorizationID = [], HasSASLCredentials = False\<rparr> in
                   if e_tag authentication = 0 then
                     if constructed authentication
                     then Err (Malformed ''simple Bind authentication must be primitive'')
                     else Ok metadata
                   else if e_tag authentication = 3 then
                     if \<not> constructed authentication
                     then Err (Malformed ''SASL Bind authentication must be constructed'')
                     else parse_sasl U raw authentication metadata
                   else Err (Malformed ''unsupported Bind authentication choice'')
             | Err _ \<Rightarrow> Err (Malformed ''invalid Bind authentication'')
             | Panic \<Rightarrow> Panic)))))))"

subsection \<open>Extended requests and results\<close>

definition parseExtendedRequestMetadata ::
  "bytes \<Rightarrow> berElement \<Rightarrow> (wire_error, bytes \<times> bytes \<times> bool) go" where
  "parseExtendedRequestMetadata raw protocol =
     (if \<not> constructed protocol then Err (Malformed ''ExtendedRequest must be constructed'')
      else
        go_bind (parse_as raw (contentStart protocol) berClassContext False 0 ''invalid ExtendedRequest OID'')
          (\<lambda>(requestName, next).
        go_bind (content_of raw requestName) (\<lambda>nameBytes.
        go_bind (go_wrap (\<lambda>_. Malformed ''invalid ExtendedRequest OID'') (parseNumericOID nameBytes)) (\<lambda>oid.
        if next < e_end protocol then
          (case parseElement raw next of
             Ok (requestValue, valueEnd) \<Rightarrow>
               if valueEnd \<noteq> e_end protocol \<or> \<not> elementIs requestValue berClassContext False 1
               then Err (Malformed ''invalid ExtendedRequest value'')
               else go_bind (content_of raw requestValue) (\<lambda>v. Ok (oid, v, True))
           | Err _ \<Rightarrow> Err (Malformed ''invalid ExtendedRequest value'')
           | Panic \<Rightarrow> Panic)
        else if next \<noteq> e_end protocol then Err (Malformed ''unexpected ExtendedRequest field'')
        else Ok (oid, [], False)))))"

text \<open>The optional fields behind the three that every result has: \<open>Ok\<close> with where they end.\<close>

function result_fields :: "bytes \<Rightarrow> nat \<Rightarrow> nat \<Rightarrow> (wire_error, nat) go" where
  "result_fields raw next protocolEnd =
     (if next < protocolEnd then
        (case parseElement raw next of
           Ok (_, fieldEnd) \<Rightarrow> result_fields raw fieldEnd protocolEnd
         | Err e \<Rightarrow> Err (malformedWrap ''LDAPResult field'' e)
         | Panic \<Rightarrow> Panic)
      else Ok next)"
  by pat_completeness auto
termination
  by (relation "measure (\<lambda>(raw, next, protocolEnd). protocolEnd - next)") (auto dest!: parseElement_Ok)

declare result_fields.simps [simp del]

definition parseLDAPResultCode :: "bytes \<Rightarrow> berElement \<Rightarrow> (wire_error, ResultCode) go" where
  "parseLDAPResultCode raw protocol =
     (if \<not> constructed protocol then Err (Malformed ''LDAPResult response must be constructed'')
      else
        go_bind (parse_as raw (contentStart protocol) berClassUniversal False berTagEnumerated
          ''invalid LDAPResult code'') (\<lambda>(codeElement, next).
        go_bind (content_of raw codeElement) (\<lambda>codeBytes.
        go_bind (go_wrap (\<lambda>_. Malformed ''invalid LDAPResult code'')
          (decodeNonnegativeInteger codeBytes MaxMessageID)) (\<lambda>code.
        go_bind (parse_as raw next berClassUniversal False berTagOctetString
          ''invalid LDAPResult matched DN'') (\<lambda>(_, next).
        go_bind (parse_as raw next berClassUniversal False berTagOctetString
          ''invalid LDAPResult diagnostic message'') (\<lambda>(_, next).
        go_bind (result_fields raw next (e_end protocol)) (\<lambda>next.
          if next \<noteq> e_end protocol then Err (Malformed ''invalid LDAPResult'') else Ok code)))))))"

section \<open>Kinds of messages\<close>

definition protocolConstructedForm :: "uint64 \<Rightarrow> bool option" where
  "protocolConstructedForm tag =
     (if tag \<in> set [TagUnbindRequest, TagDeleteRequest, TagAbandonRequest] then Some False
      else if tag \<in> set [TagBindRequest, TagBindResponse, TagSearchRequest, TagSearchResultEntry,
        TagSearchResultDone, TagModifyRequest, TagModifyResponse, TagAddRequest, TagAddResponse,
        TagDeleteResponse, TagModifyDNRequest, TagModifyDNResponse, TagCompareRequest,
        TagCompareResponse, TagSearchResultReference, TagExtendedRequest, TagExtendedResponse,
        TagIntermediateResponse] then Some True
      else None)"

definition validateProtocolElement :: "berElement \<Rightarrow> (wire_error, unit) go" where
  "validateProtocolElement protocol =
     (case protocolConstructedForm (e_tag protocol) of
        Some expected \<Rightarrow>
          if constructed protocol \<noteq> expected
          then Err (Malformed ''protocolOp has invalid primitive/constructed form'') else Ok ()
      | None \<Rightarrow> Ok ())"

definition isLDAPResultResponse :: "uint64 \<Rightarrow> bool" where
  "isLDAPResultResponse tag \<longleftrightarrow> tag \<in> set [TagBindResponse, TagSearchResultDone, TagModifyResponse,
     TagAddResponse, TagDeleteResponse, TagModifyDNResponse, TagCompareResponse, TagExtendedResponse]"

definition responseTagForRequest :: "uint64 \<Rightarrow> uint64 option" where
  "responseTagForRequest tag0 =
     (let tag = (if 30 < tag0 \<and> tag0 \<le> 0xff \<and> tag0 AND 0xc0 = 0x40 \<and> tag0 AND 0x1f \<noteq> 0x1f
                 then tag0 AND 0x1f else tag0)
      in if tag = TagBindRequest then Some TagBindResponse
         else if tag = TagSearchRequest then Some TagSearchResultDone
         else if tag = TagModifyRequest then Some TagModifyResponse
         else if tag = TagAddRequest then Some TagAddResponse
         else if tag = TagDeleteRequest then Some TagDeleteResponse
         else if tag = TagModifyDNRequest then Some TagModifyDNResponse
         else if tag = TagCompareRequest then Some TagCompareResponse
         else if tag = TagExtendedRequest then Some TagExtendedResponse
         else None)"

definition IsFinalResponse :: "Frame \<Rightarrow> bool" where
  "IsFinalResponse frame =
     (if ProtocolTag frame \<in> set [TagSearchResultEntry, TagSearchResultReference, TagIntermediateResponse]
      then False
      else if ProtocolTag frame = TagBindResponse
      then f_ResultCode frame = None \<or> f_ResultCode frame \<noteq> Some ResultSASLBindInProgress
      else True)"

definition validateMessageID :: "int \<Rightarrow> bool \<Rightarrow> (wire_error, unit) go" where
  "validateMessageID messageID allowZero =
     (if messageID < 0 \<or> MaxMessageID < messageID \<or> (\<not> allowZero \<and> messageID = 0)
      then Err InvalidMessageID else Ok ())"

definition normalizedMaximum :: "int \<Rightarrow> int" where
  "normalizedMaximum m = (if m \<le> 0 then DefaultMaxFrameSize else m)"

section \<open>Reading a message\<close>

text \<open>The checks on the outer sequence, with its element.\<close>

definition parse_outer :: "bytes \<Rightarrow> (wire_error, berElement) go" where
  "parse_outer raw =
     go_bind (parseElement raw 0) (\<lambda>(outer, next).
     if next \<noteq> length raw then Err (Malformed ''trailing bytes after LDAPMessage'')
     else if e_class outer \<noteq> berClassUniversal \<or> \<not> constructed outer \<or> e_tag outer \<noteq> berTagSequence
       \<or> identifierEnd outer - e_start outer \<noteq> 1
     then Err (Malformed ''LDAPMessage is not a sequence'')
     else
       go_bind (go_index (e_start outer) raw) (\<lambda>identifier.
       if identifier \<noteq> CHR 0x30 then Err (Malformed ''LDAPMessage is not a sequence'')
       else
         go_bind (go_index (identifierEnd outer) raw) (\<lambda>head.
         if ord head AND 0x80 \<noteq> 0 \<and> maxOuterLengthOctets < ord head AND 0x7f
         then Err (Malformed ''BER length uses too many octets'')
         else Ok outer)))"

lemma parse_outer_eq:
  "parse_outer raw =
     go_bind (parseElement raw 0) (\<lambda>(outer, next).
     if next \<noteq> length raw then Err (Malformed ''trailing bytes after LDAPMessage'')
     else if e_class outer \<noteq> berClassUniversal \<or> \<not> constructed outer \<or> e_tag outer \<noteq> berTagSequence
       \<or> identifierEnd outer - e_start outer \<noteq> 1 \<or> raw ! e_start outer \<noteq> CHR 0x30
     then Err (Malformed ''LDAPMessage is not a sequence'')
     else if ord (raw ! identifierEnd outer) AND 0x80 \<noteq> 0
       \<and> maxOuterLengthOctets < ord (raw ! identifierEnd outer) AND 0x7f
     then Err (Malformed ''BER length uses too many octets'')
     else Ok outer)"
proof (cases "parseElement raw 0")
  case (Ok r)
  obtain outer n where r: "r = (outer, n)" by (cases r)
  have "e_start outer < length raw" "identifierEnd outer < length raw"
    using parseElement_Ok [OF Ok [unfolded r]] by auto
  then show ?thesis by (simp add: parse_outer_def Ok r)
qed (simp_all add: parse_outer_def)

definition parse_message_id :: "bytes \<Rightarrow> nat \<Rightarrow> (wire_error, int \<times> nat) go" where
  "parse_message_id raw cursor =
     go_bind (go_wrap (malformedWrap ''messageID'') (parseElement raw cursor)) (\<lambda>(element, next).
     if \<not> elementIs element berClassUniversal False berTagInteger
     then Err (Malformed ''invalid messageID element'')
     else
       go_bind (content_of raw element) (\<lambda>bs.
       go_bind (go_wrap (malformedWrap ''messageID'') (decodeNonnegativeInteger bs MaxMessageID))
         (\<lambda>messageID. Ok (messageID, next))))"

text \<open>The protocol operation and what follows it up to the end of the outer sequence.\<close>

definition parse_protocol :: "bytes \<Rightarrow> nat \<Rightarrow> (wire_error, berElement \<times> nat) go" where
  "parse_protocol raw cursor =
     go_bind (go_wrap (malformedWrap ''protocolOp'') (parseElement raw cursor)) (\<lambda>(protocol, next).
     if e_class protocol \<noteq> berClassApplication then Err (Malformed ''protocolOp is not application class'')
     else go_bind (validateProtocolElement protocol) (\<lambda>_. Ok (protocol, next)))"

definition parse_trailing_controls :: "bytes \<Rightarrow> nat \<Rightarrow> nat \<Rightarrow> (wire_error, bytes \<times> Control list \<times> nat) go" where
  "parse_trailing_controls raw cursor outerEnd =
     (if cursor < outerEnd then
        go_bind (go_wrap (malformedWrap ''controls'') (parseElement raw cursor)) (\<lambda>(element, controlsEnd).
        if controlsEnd \<noteq> outerEnd then Err (Malformed ''unexpected LDAPMessage element'')
        else
          go_bind (parseControls raw element) (\<lambda>controls.
          go_bind (whole_of raw element) (\<lambda>whole. Ok (whole, controls, controlsEnd))))
      else Ok ([], [], cursor))"

text \<open>What the operation adds to the frame.\<close>

definition parse_operation :: "unicode \<Rightarrow> bytes \<Rightarrow> berElement \<Rightarrow> Frame \<Rightarrow> (wire_error, Frame) go" where
  "parse_operation U raw protocol frame =
     (if e_tag protocol = TagBindRequest then
        go_bind (parseBindMetadata U raw protocol) (\<lambda>bind. Ok (frame\<lparr>f_Bind := Some bind\<rparr>))
      else if e_tag protocol = TagExtendedRequest then
        go_bind (parseExtendedRequestMetadata raw protocol) (\<lambda>(oid, v, hasValue).
          Ok (frame\<lparr>ExtendedOID := oid, ExtendedValue := v, HasExtendedValue := hasValue\<rparr>))
      else if e_tag protocol = TagAbandonRequest then
        if constructed protocol then Err (Malformed ''AbandonRequest must be primitive'')
        else
          go_bind (content_of raw protocol) (\<lambda>bs.
          go_bind (go_wrap (\<lambda>_. Malformed ''invalid Abandon target messageID'')
            (decodeNonnegativeInteger bs MaxMessageID)) (\<lambda>target.
          if target = 0 then Err (Malformed ''invalid Abandon target messageID'')
          else Ok (frame\<lparr>AbandonTarget := target, HasAbandonTarget := True\<rparr>)))
      else Ok frame)"

definition parse_result :: "bytes \<Rightarrow> berElement \<Rightarrow> Frame \<Rightarrow> (wire_error, Frame) go" where
  "parse_result raw protocol frame =
     (if isLDAPResultResponse (e_tag protocol) then
        go_bind (parseLDAPResultCode raw protocol) (\<lambda>code. Ok (frame\<lparr>f_ResultCode := Some code\<rparr>))
      else Ok frame)"

definition bare_frame :: "bytes \<Rightarrow> int \<Rightarrow> uint64 \<Rightarrow> bytes \<Rightarrow> bytes \<Rightarrow> Control list \<Rightarrow> Frame" where
  "bare_frame raw messageID tag op controlsRaw controls =
     \<lparr>f_Raw = raw, MessageID = messageID, ProtocolTag = tag, ProtocolOp = op,
      ControlsRaw = controlsRaw, Controls = controls, ExtendedOID = [], ExtendedValue = [],
      HasExtendedValue = False, f_Bind = None, f_ResultCode = None, AbandonTarget = 0,
      HasAbandonTarget = False\<rparr>"

text \<open>Everything behind the message identifier, from \<open>cursor\<close> to the end of the outer sequence.\<close>

definition parse_body :: "unicode \<Rightarrow> bytes \<Rightarrow> int \<Rightarrow> nat \<Rightarrow> nat \<Rightarrow> (wire_error, Frame) go" where
  "parse_body U raw messageID cursor outerEnd =
     go_bind (parse_protocol raw cursor) (\<lambda>(protocol, cursor).
     go_bind (whole_of raw protocol) (\<lambda>op.
     go_bind (parse_trailing_controls raw cursor outerEnd) (\<lambda>(controlsRaw, controls, cursor).
     if cursor \<noteq> outerEnd then Err (Malformed ''incomplete LDAPMessage'')
     else
       go_bind (parse_operation U raw protocol
         (bare_frame raw messageID (e_tag protocol) op controlsRaw controls)) (\<lambda>frame.
       parse_result raw protocol frame))))"

definition parseOwnedFrame :: "unicode \<Rightarrow> bytes \<Rightarrow> int \<Rightarrow> (wire_error, Frame) go" where
  "parseOwnedFrame U raw limit =
     (if limit < int (length raw) then Err FrameTooLarge
      else
        go_bind (parse_outer raw) (\<lambda>outer.
        go_bind (parse_message_id raw (contentStart outer)) (\<lambda>(messageID, cursor).
        parse_body U raw messageID cursor (e_end outer))))"

definition ParseFrame :: "unicode \<Rightarrow> bytes \<Rightarrow> int \<Rightarrow> (wire_error, Frame) go" where
  "ParseFrame U raw maximum =
     (let limit = normalizedMaximum maximum in
      if limit < int (length raw) then Err FrameTooLarge else parseOwnedFrame U raw limit)"

text \<open>
  A connection: the bytes still to come and the error that ends them. \<open>ReadFull\<close> is
  \<open>io.ReadFull\<close>, with what is left of the connection.
\<close>

record reader =
  pending :: bytes
  closing :: io_error

definition ReadFull :: "reader \<Rightarrow> nat \<Rightarrow> (wire_error, bytes \<times> reader) go" where
  "ReadFull reader n =
     (if n \<le> length (pending reader)
      then Ok (take n (pending reader), reader\<lparr>pending := drop n (pending reader)\<rparr>)
      else Err (IOFailed (if closing reader = EOF \<and> pending reader \<noteq> [] then UnexpectedEOF else closing reader)))"

text \<open>The octets of a long length, behind the first two octets.\<close>

definition read_length_octets :: "bytes \<Rightarrow> reader \<Rightarrow> (wire_error, bytes \<times> reader) go" where
  "read_length_octets header reader =
     go_bind (go_index 1 header) (\<lambda>head.
     if ord head AND 0x80 \<noteq> 0 then
       let lengthOctets = ord head AND 0x7f in
       if lengthOctets = 0 then Err (Malformed ''indefinite BER length'')
       else if maxOuterLengthOctets < lengthOctets then Err (Malformed ''BER length uses too many octets'')
       else go_bind (ReadFull reader lengthOctets) (\<lambda>(octets, reader). Ok (header @ octets, reader))
     else Ok (header, reader))"

lemma read_length_octets_plain:
  "1 < length header \<Longrightarrow> read_length_octets header reader =
     (if ord (header ! 1) AND 0x80 \<noteq> 0 then
        let lengthOctets = ord (header ! 1) AND 0x7f in
        if lengthOctets = 0 then Err (Malformed ''indefinite BER length'')
        else if maxOuterLengthOctets < lengthOctets then Err (Malformed ''BER length uses too many octets'')
        else go_bind (ReadFull reader lengthOctets) (\<lambda>(octets, reader). Ok (header @ octets, reader))
      else Ok (header, reader))"
  by (simp add: read_length_octets_def)

definition ReadFrame :: "unicode \<Rightarrow> reader option \<Rightarrow> int \<Rightarrow> (wire_error, Frame \<times> reader) go" where
  "ReadFrame U connection maximum =
     (case connection of None \<Rightarrow> Err (Malformed ''nil reader'')
      | Some reader \<Rightarrow>
        let limit = normalizedMaximum maximum in
        go_bind (ReadFull reader 2) (\<lambda>(header, reader).
        go_bind (go_index 0 header) (\<lambda>identifier.
        if identifier \<noteq> CHR 0x30 then Err (Malformed ''LDAPMessage is not a sequence'')
        else
          go_bind (read_length_octets header reader) (\<lambda>(header, reader).
          go_bind (parseBERLength header 1) (\<lambda>(contentLength, next).
          if next \<noteq> length header then Err (Malformed ''invalid LDAPMessage header'')
          else if limit < int (unat contentLength) \<or> limit - int (unat contentLength) < int (length header)
          then Err FrameTooLarge
          else if maximumInt - length header < unat contentLength then Err FrameTooLarge
          else
            go_bind (ReadFull reader (unat contentLength)) (\<lambda>(content, reader).
            go_bind (parseOwnedFrame U (header @ content) limit) (\<lambda>frame. Ok (frame, reader))))))))"

lemma ReadFrame_eq:
  "ReadFrame U connection maximum =
     (case connection of None \<Rightarrow> Err (Malformed ''nil reader'')
      | Some reader \<Rightarrow>
        let limit = normalizedMaximum maximum in
        go_bind (ReadFull reader 2) (\<lambda>(header, reader).
        if header ! 0 \<noteq> CHR 0x30 then Err (Malformed ''LDAPMessage is not a sequence'')
        else
          go_bind (read_length_octets header reader) (\<lambda>(header, reader).
          go_bind (parseBERLength header 1) (\<lambda>(contentLength, next).
          if next \<noteq> length header then Err (Malformed ''invalid LDAPMessage header'')
          else if limit < int (unat contentLength) \<or> limit - int (unat contentLength) < int (length header)
          then Err FrameTooLarge
          else if maximumInt - length header < unat contentLength then Err FrameTooLarge
          else
            go_bind (ReadFull reader (unat contentLength)) (\<lambda>(content, reader).
            go_bind (parseOwnedFrame U (header @ content) limit) (\<lambda>frame. Ok (frame, reader)))))))"
proof -
  have "ReadFull c 2 = Ok (h, c') \<Longrightarrow> 0 < length h" for c h c' by (auto simp: ReadFull_def split: if_splits)
  then have "go_bind (ReadFull c 2) (\<lambda>(h, c'). go_bind (go_index 0 h) (\<lambda>i. f i h c')) =
      go_bind (ReadFull c 2) (\<lambda>(h, c'). f (h ! 0) h c')"
    for c and f :: "char \<Rightarrow> bytes \<Rightarrow> reader \<Rightarrow> (wire_error, Frame \<times> reader) go"
    by (cases "ReadFull c 2") auto
  then show ?thesis by (simp only: ReadFrame_def Let_def)
qed

section \<open>Writing a message\<close>

definition encodeFrame :: "int \<Rightarrow> bytes \<Rightarrow> bytes \<Rightarrow> (wire_error, bytes) go" where
  "encodeFrame messageID protocolOp controls =
     go_bind (encodeNonnegativeInteger messageID) (\<lambda>octets.
     go_bind (encodeTLV 0x02 octets) (\<lambda>identifier.
     go_bind (joinBER [identifier, protocolOp, controls]) (\<lambda>content. encodeTLV 0x30 content)))"

definition validateFrameParts :: "Frame \<Rightarrow> (wire_error, unit) go" where
  "validateFrameParts frame =
     (case parseElement (ProtocolOp frame) 0 of
        Ok (protocol, next) \<Rightarrow>
          if next \<noteq> length (ProtocolOp frame) \<or> e_class protocol \<noteq> berClassApplication
            \<or> e_tag protocol \<noteq> ProtocolTag frame
          then Err (Malformed ''invalid preserved protocolOp'')
          else
            go_bind (validateProtocolElement protocol) (\<lambda>_.
            if ControlsRaw frame \<noteq> [] then
              (case parseElement (ControlsRaw frame) 0 of
                 Ok (controls, controlsEnd) \<Rightarrow>
                   if controlsEnd \<noteq> length (ControlsRaw frame) \<or> \<not> elementIs controls berClassContext True 0
                   then Err (Malformed ''invalid preserved controls'') else Ok ()
               | Err _ \<Rightarrow> Err (Malformed ''invalid preserved controls'')
               | Panic \<Rightarrow> Panic)
            else Ok ())
      | Err _ \<Rightarrow> Err (Malformed ''invalid preserved protocolOp'')
      | Panic \<Rightarrow> Panic)"

definition RewriteMessageID :: "Frame \<Rightarrow> int \<Rightarrow> (wire_error, bytes) go" where
  "RewriteMessageID frame messageID =
     go_bind (validateMessageID messageID True) (\<lambda>_.
     go_bind (validateFrameParts frame) (\<lambda>_.
       encodeFrame messageID (ProtocolOp frame) (ControlsRaw frame)))"

definition rewriteAbandon :: "Frame \<Rightarrow> int \<Rightarrow> int \<Rightarrow> (wire_error, bytes) go" where
  "rewriteAbandon frame messageID targetMessageID =
     (if ProtocolTag frame \<noteq> TagAbandonRequest \<or> \<not> HasAbandonTarget frame then Err NotAbandonRequest
      else
        go_bind (validateMessageID messageID True) (\<lambda>_.
        go_bind (validateMessageID targetMessageID False) (\<lambda>_.
        go_bind (validateFrameParts frame) (\<lambda>_.
        go_bind (encodeNonnegativeInteger targetMessageID) (\<lambda>octets.
        go_bind (encodeTLV 0x50 octets) (\<lambda>abandon.
          encodeFrame messageID abandon (ControlsRaw frame)))))))"

definition RewriteAbandonTarget :: "Frame \<Rightarrow> int \<Rightarrow> (wire_error, bytes) go" where
  "RewriteAbandonTarget frame targetMessageID = rewriteAbandon frame (MessageID frame) targetMessageID"

definition RewriteAbandonMessageIDs :: "Frame \<Rightarrow> int \<Rightarrow> int \<Rightarrow> (wire_error, bytes) go" where
  "RewriteAbandonMessageIDs frame messageID targetMessageID = rewriteAbandon frame messageID targetMessageID"

definition EncodeAbandonRequest :: "int \<Rightarrow> int \<Rightarrow> (wire_error, bytes) go" where
  "EncodeAbandonRequest messageID targetMessageID =
     go_bind (validateMessageID messageID False) (\<lambda>_.
     go_bind (validateMessageID targetMessageID False) (\<lambda>_.
     go_bind (encodeNonnegativeInteger targetMessageID) (\<lambda>octets.
     go_bind (encodeTLV 0x50 octets) (\<lambda>abandon. encodeFrame messageID abandon []))))"

definition RewriteExtendedRequestValue :: "Frame \<Rightarrow> int \<Rightarrow> bytes \<Rightarrow> (wire_error, bytes) go" where
  "RewriteExtendedRequestValue frame messageID requestValue =
     go_bind (validateMessageID messageID False) (\<lambda>_.
     go_bind (validateFrameParts frame) (\<lambda>_.
     if ProtocolTag frame \<noteq> TagExtendedRequest then Err (Malformed ''frame is not an ExtendedRequest'')
     else
       let op = ProtocolOp frame in
       (case parseElement op 0 of
          Ok (protocol, next) \<Rightarrow>
            if next \<noteq> length op \<or> \<not> elementIs protocol berClassApplication True TagExtendedRequest
            then Err (Malformed ''invalid ExtendedRequest protocol op'')
            else
              go_bind (parseExtendedRequestMetadata op protocol) (\<lambda>_.
              go_bind (parse_as op (contentStart protocol) berClassContext False 0
                ''invalid ExtendedRequest OID'') (\<lambda>(requestName, _).
              go_bind (whole_of op requestName) (\<lambda>name.
              go_bind (encodeTLV 0x81 requestValue) (\<lambda>v.
              go_bind (joinBER [name, v]) (\<lambda>content.
              go_bind (encodeTLV 0x77 content) (\<lambda>operation.
                encodeFrame messageID operation (ControlsRaw frame)))))))
        | Err _ \<Rightarrow> Err (Malformed ''invalid ExtendedRequest protocol op'')
        | Panic \<Rightarrow> Panic)))"

text \<open>The control in front, and the content of the wrapper that is there already.\<close>

definition proxy_control :: "bytes \<Rightarrow> (wire_error, bytes) go" where
  "proxy_control authzID =
     go_bind (encodeTLV 0x04 ProxyAuthzControlOID) (\<lambda>oid.
     go_bind (encodeTLV 0x01 [CHR 0xFF]) (\<lambda>critical.
     go_bind (encodeTLV 0x04 authzID) (\<lambda>v.
     go_bind (joinBER [oid, critical, v]) (\<lambda>content. encodeTLV 0x30 content))))"

definition preserved_controls :: "bytes \<Rightarrow> (wire_error, bytes) go" where
  "preserved_controls controlsRaw =
     (case parseElement controlsRaw 0 of
        Ok (wrapper, next) \<Rightarrow>
          if next \<noteq> length controlsRaw \<or> e_class wrapper \<noteq> berClassContext \<or> \<not> constructed wrapper
            \<or> e_tag wrapper \<noteq> 0
          then Err (Malformed ''invalid controls wrapper'')
          else content_of controlsRaw wrapper
      | Err _ \<Rightarrow> Err (Malformed ''invalid controls wrapper'')
      | Panic \<Rightarrow> Panic)"

definition prependProxyAuthz :: "Frame \<Rightarrow> int \<Rightarrow> bytes \<Rightarrow> (wire_error, bytes) go" where
  "prependProxyAuthz frame messageID authzID =
     go_bind (validateMessageID messageID True) (\<lambda>_.
     if \<not> utf8_Valid authzID then Err (Malformed ''ProxyAuthz identity is not valid UTF-8'')
     else if DefaultMaxFrameSize < int (length authzID) then Err FrameTooLarge
     else
       go_bind (validateFrameParts frame) (\<lambda>_.
       go_bind (proxy_control authzID) (\<lambda>proxyControl.
       go_bind (if ControlsRaw frame \<noteq> [] then
                  go_bind (preserved_controls (ControlsRaw frame)) (\<lambda>preserved. joinBER [proxyControl, preserved])
                else Ok proxyControl) (\<lambda>controlsContent.
       go_bind (encodeTLV 0xa0 controlsContent) (\<lambda>controls.
         encodeFrame messageID (ProtocolOp frame) controls)))))"

definition PrependProxyAuthz :: "Frame \<Rightarrow> bytes \<Rightarrow> (wire_error, bytes) go" where
  "PrependProxyAuthz frame authzID = prependProxyAuthz frame (MessageID frame) authzID"

definition EncodeErrorResponse :: "int \<Rightarrow> uint64 \<Rightarrow> ResultCode \<Rightarrow> bytes \<Rightarrow> (wire_error, bytes) go" where
  "EncodeErrorResponse messageID requestTag code diagnosticMessage =
     go_bind (validateMessageID messageID True) (\<lambda>_.
     if code < 0 \<or> MaxMessageID < code then Err (Malformed ''invalid LDAP result code'')
     else if \<not> utf8_Valid diagnosticMessage then Err (Malformed ''diagnostic message is not valid UTF-8'')
     else (case responseTagForRequest requestTag of
         None \<Rightarrow> Err (UnsupportedRequest requestTag)
       | Some responseTag \<Rightarrow>
           go_bind (encodeNonnegativeInteger code) (\<lambda>codeOctets.
           go_bind (encodeTLV 0x0a codeOctets) (\<lambda>codeField.
           go_bind (encodeTLV 0x04 []) (\<lambda>matchedDN.
           go_bind (encodeTLV 0x04 diagnosticMessage) (\<lambda>diagnostic.
           go_bind (joinBER [codeField, matchedDN, diagnostic]) (\<lambda>content.
           go_bind (encodeTLV (0x60 OR unat responseTag) content) (\<lambda>operation.
             encodeFrame messageID operation []))))))))"

section \<open>The proxy's view of a message\<close>

record proxyFrame =
  p_Raw :: bytes
  p_MessageID :: int
  p_ProtocolTag :: uint64
  p_Controls :: "bytes list"
  p_ExtendedOID :: bytes
  p_ExtendedValue :: bytes
  p_HasExtendedValue :: bool
  AbandonID :: int
  BindVersion :: int
  BindDN :: bytes
  BindSASL :: bool
  BindMechanism :: bytes
  BindAuthcID :: bytes
  BindAuthzID :: bytes
  p_ResultCode :: ResultCode
  HasResultCode :: bool
  FinalResponse :: bool

definition projectProxyFrame :: "Frame \<Rightarrow> proxyFrame" where
  "projectProxyFrame frame =
     (let projected = \<lparr>p_Raw = f_Raw frame, p_MessageID = MessageID frame, p_ProtocolTag = ProtocolTag frame,
            p_Controls = map OID (Controls frame), p_ExtendedOID = ExtendedOID frame,
            p_ExtendedValue = ExtendedValue frame, p_HasExtendedValue = HasExtendedValue frame,
            AbandonID = AbandonTarget frame, BindVersion = 0, BindDN = [], BindSASL = False,
            BindMechanism = [], BindAuthcID = [], BindAuthzID = [], p_ResultCode = 0,
            HasResultCode = False, FinalResponse = IsFinalResponse frame\<rparr>;
          projected = (case f_Bind frame of None \<Rightarrow> projected
            | Some bind \<Rightarrow> projected\<lparr>BindVersion := Version bind, BindDN := b_DN bind,
                BindSASL := (Authentication bind = BindAuthenticationSASL),
                BindMechanism := SASLMechanism bind, BindAuthcID := SASLAuthenticationID bind,
                BindAuthzID := SASLAuthorizationID bind\<rparr>)
      in case f_ResultCode frame of None \<Rightarrow> projected
         | Some code \<Rightarrow> projected\<lparr>p_ResultCode := code, HasResultCode := True\<rparr>)"

definition parseProxyFrame :: "unicode \<Rightarrow> proxyFrame \<Rightarrow> (wire_error, Frame) go" where
  "parseProxyFrame U frame =
     (let maximum = int (length (p_Raw frame))
      in ParseFrame U (p_Raw frame) (if maximum = 0 then 1 else maximum))"

definition codec_Read :: "unicode \<Rightarrow> reader option \<Rightarrow> int \<Rightarrow> (wire_error, proxyFrame \<times> reader) go" where
  "codec_Read U connection limit =
     go_bind (ReadFrame U connection limit) (\<lambda>(frame, reader). Ok (projectProxyFrame frame, reader))"

definition codec_RewriteMessageID :: "unicode \<Rightarrow> proxyFrame \<Rightarrow> int \<Rightarrow> (wire_error, bytes) go" where
  "codec_RewriteMessageID U frame messageID =
     go_bind (parseProxyFrame U frame) (\<lambda>parsed. RewriteMessageID parsed messageID)"

definition codec_RewriteAbandon :: "unicode \<Rightarrow> proxyFrame \<Rightarrow> int \<Rightarrow> int \<Rightarrow> (wire_error, bytes) go" where
  "codec_RewriteAbandon U frame messageID targetMessageID =
     go_bind (parseProxyFrame U frame) (\<lambda>parsed. RewriteAbandonMessageIDs parsed messageID targetMessageID)"

definition codec_RewriteExtendedRequestValue ::
  "unicode \<Rightarrow> proxyFrame \<Rightarrow> int \<Rightarrow> bytes \<Rightarrow> (wire_error, bytes) go" where
  "codec_RewriteExtendedRequestValue U frame messageID requestValue =
     go_bind (parseProxyFrame U frame) (\<lambda>parsed. RewriteExtendedRequestValue parsed messageID requestValue)"

definition codec_PrependProxyAuthz :: "unicode \<Rightarrow> proxyFrame \<Rightarrow> int \<Rightarrow> bytes \<Rightarrow> (wire_error, bytes) go" where
  "codec_PrependProxyAuthz U frame messageID authzID =
     go_bind (parseProxyFrame U frame) (\<lambda>parsed. prependProxyAuthz parsed messageID authzID)"

end
