(* ===== verification/LLoad_Wire_Facts.thy ===== *)
theory LLoad_Wire_Facts
  imports LLoad_Wire
begin

text \<open>
  What the load balancer's framing guarantees. A reader of a part of a message depends only on the
  bytes of that part, wherever they stand (\<open>_shift\<close>, \<open>_part\<close>), so a message is a head, the bytes
  of its operation and those of its controls, and its frame comes from the latter two
  (\<open>parseOwnedFrame_Ok\<close>, \<open>parse_body_controls\<close>). What the proxy writes is read back as it was
  meant: a rewritten identifier, a redirected abandon request, a proxied identity in front of the
  other controls, and its own responses. Reading takes exactly the bytes of one message off a
  connection, so a connection splits into messages in one way (\<open>prefix_code\<close>), and never panics.
\<close>

section \<open>Readers depend only on what lies behind their position\<close>

lemma go_slice_append [simp]: "go_slice (length front + a) (length front + b) (front @ raw) = go_slice a b raw"
  by (simp add: go_slice_def)

lemma content_of_shift [simp]: "content_of (front @ raw) (moved (length front) element) = content_of raw element"
  by (simp add: content_of_def)

lemma whole_of_shift [simp]: "whole_of (front @ raw) (moved (length front) element) = whole_of raw element"
  by (simp add: whole_of_def)

lemma parse_as_shift:
  "parse_as (front @ raw) (length front + offset) cls con tag msg = go_bind (parse_as raw offset cls con tag msg)
     (\<lambda>r. Ok (moved (length front) (fst r), length front + snd r))"
  by (cases "parseElement raw offset") (auto simp: parse_as_def parseElement_shift)

lemma parseElement_shift': "parseElement (front @ raw) (length front + offset) = go_bind (parseElement raw offset)
     (\<lambda>r. Ok (moved (length front) (fst r), length front + snd r))"
  by (simp add: parseElement_shift split_def)

lemma go_wrap_bind: "go_wrap w (go_bind m f) = go_bind (go_wrap w m) (\<lambda>x. go_wrap w (f x))"
  by (cases m) auto

lemma go_bind_case:
  "(case go_bind m f of Ok x \<Rightarrow> g x | Err e \<Rightarrow> h e | Panic \<Rightarrow> Panic) =
   (case m of Ok x \<Rightarrow> (case f x of Ok x \<Rightarrow> g x | Err e \<Rightarrow> h e | Panic \<Rightarrow> Panic) | Err e \<Rightarrow> h e | Panic \<Rightarrow> Panic)"
  by (cases m) auto

lemmas shift_simps = parseElement_shift' parse_as_shift go_wrap_bind go_bind_assoc go_bind_case split_def nth_append

lemma go_bind_if: "go_bind (if b then m else n) f = (if b then go_bind m f else go_bind n f)"
  by simp

lemma parse_criticality_shift:
  "parse_criticality (front @ raw) (length front + c) (length front + e) = go_bind (parse_criticality raw c e)
     (\<lambda>r. Ok (fst r, length front + snd r))"
  by (simp add: parse_criticality_eq shift_simps go_bind_if cong: if_cong go.case_cong)

lemma parse_control_value_shift:
  "parse_control_value (front @ raw) (length front + c) (length front + e) = go_bind (parse_control_value raw c e)
     (\<lambda>r. Ok (fst r, length front + snd r))"
  by (simp add: parse_control_value_def shift_simps go_bind_if cong: if_cong go.case_cong)

lemma parse_control_shift:
  "parse_control (front @ raw) (length front + c) = go_bind (parse_control raw c)
     (\<lambda>r. Ok (fst r, length front + snd r))"
  by (simp add: parse_control_def shift_simps go_bind_if parse_criticality_shift parse_control_value_shift cong: if_cong go.case_cong)

lemma control_loop_shift:
  "control_loop (front @ raw) (length front + c) (length front + e) = control_loop raw c e"
proof (induction raw c e rule: control_loop.induct)
  case (1 raw c e)
  show ?case
    by (subst (1 2) control_loop.simps)
      (use "1.IH" in \<open>auto simp: parse_control_shift go_bind_case split: go.splits prod.splits\<close>)
qed

lemma parseControls_shift:
  "parseControls (front @ raw) (moved (length front) element) = parseControls raw element"
  by (simp add: parseControls_def control_loop_shift)

lemma parse_sasl_shift:
  "parse_sasl U (front @ raw) (moved (length front) element) m = parse_sasl U raw element m"
  by (simp add: parse_sasl_def shift_simps go_bind_if Let_def cong: if_cong go.case_cong)

lemma parseBindMetadata_shift:
  "parseBindMetadata U (front @ raw) (moved (length front) element) = parseBindMetadata U raw element"
  by (simp add: parseBindMetadata_def shift_simps go_bind_if parse_sasl_shift Let_def cong: if_cong go.case_cong)

lemma parseExtendedRequestMetadata_shift:
  "parseExtendedRequestMetadata (front @ raw) (moved (length front) element) = parseExtendedRequestMetadata raw element"
  by (simp add: parseExtendedRequestMetadata_def shift_simps go_bind_if cong: if_cong go.case_cong)

lemma result_fields_shift:
  "result_fields (front @ raw) (length front + c) (length front + e) =
     go_bind (result_fields raw c e) (\<lambda>next. Ok (length front + next))"
proof (induction raw c e rule: result_fields.induct)
  case (1 raw c e)
  show ?case
    by (subst (1 2) result_fields.simps)
      (use "1.IH" in \<open>auto simp: parseElement_shift' go_bind_case split: go.splits prod.splits\<close>)
qed

lemma parseLDAPResultCode_shift:
  "parseLDAPResultCode (front @ raw) (moved (length front) element) = parseLDAPResultCode raw element"
  by (simp add: parseLDAPResultCode_def shift_simps go_bind_if result_fields_shift cong: if_cong go.case_cong)

lemma parse_operation_shift:
  "parse_operation U (front @ raw) (moved (length front) element) frame = parse_operation U raw element frame"
  by (simp add: parse_operation_def parseBindMetadata_shift parseExtendedRequestMetadata_shift)

lemma parse_result_shift:
  "parse_result (front @ raw) (moved (length front) element) frame = parse_result raw element frame"
  by (simp add: parse_result_def parseLDAPResultCode_shift)

lemma parse_protocol_shift:
  "parse_protocol (front @ raw) (length front + c) = go_bind (parse_protocol raw c)
     (\<lambda>r. Ok (moved (length front) (fst r), length front + snd r))"
  by (simp add: parse_protocol_def shift_simps go_bind_if validateProtocolElement_def cong: if_cong option.case_cong go.case_cong)

lemma parse_trailing_controls_shift:
  "parse_trailing_controls (front @ raw) (length front + c) (length front + e) = go_bind (parse_trailing_controls raw c e)
     (\<lambda>r. Ok (fst r, fst (snd r), length front + snd (snd r)))"
  by (simp add: parse_trailing_controls_def shift_simps go_bind_if parseControls_shift cong: if_cong go.case_cong)

section \<open>Readers of an operation do not look behind it\<close>

lemma case_go_Ok: "(case m of Ok x \<Rightarrow> f x | Err e \<Rightarrow> Err (g e) | Panic \<Rightarrow> Panic) = Ok y \<longleftrightarrow>
    (\<exists>x. m = Ok x \<and> f x = Ok y)"
  by (cases m) auto

lemma if_Err_Ok: "(if b then Err e else m) = Ok y \<longleftrightarrow> \<not> b \<and> m = Ok y"
  by auto

lemma if_else_Err_Ok: "(if b then m else Err e) = Ok y \<longleftrightarrow> b \<and> m = Ok y"
  by auto

lemma parse_as_Ok: "parse_as raw offset cls con tag msg = Ok (element, next) \<longleftrightarrow>
    parseElement raw offset = Ok (element, next) \<and> elementIs element cls con tag"
  by (auto simp: parse_as_def case_go_Ok if_else_Err_Ok)

lemmas ok_simps = case_go_Ok if_Err_Ok if_else_Err_Ok parse_as_Ok

lemma parseElement_part:
  assumes "parseElement (part @ rest) offset = Ok (element, next)" "next \<le> length part"
  shows "parseElement (part @ rest') offset = Ok (element, next)"
  using parseElement_prefix [OF assms, of rest'] by simp

lemma go_slice_part: "b \<le> length part \<Longrightarrow> go_slice a b (part @ rest) = go_slice a b (part @ rest')"
  by (auto simp: go_slice_def)

lemma content_of_part:
  "e_end element \<le> length part \<Longrightarrow> content_of (part @ rest) element = content_of (part @ rest') element"
  by (simp add: content_of_def go_slice_part [of _ _ _ rest rest'])

text \<open>Two messages on which the elements up to an offset are the same.\<close>

definition agree_to :: "nat \<Rightarrow> bytes \<Rightarrow> bytes \<Rightarrow> bool" where
  "agree_to m raw raw' \<longleftrightarrow>
     (\<forall>offset element next. parseElement raw offset = Ok (element, next) \<and> next \<le> m \<longrightarrow>
        parseElement raw' offset = Ok (element, next) \<and> content_of raw' element = content_of raw element)"

lemma agree_toD:
  assumes "agree_to m raw raw'" "parseElement raw offset = Ok (element, next)" "next \<le> m"
  shows "parseElement raw' offset = Ok (element, next)" "content_of raw' element = content_of raw element"
  using assms unfolding agree_to_def by blast+

lemma agree_mono: "agree_to m raw raw' \<Longrightarrow> k \<le> m \<Longrightarrow> agree_to k raw raw'"
  unfolding agree_to_def by (meson order_trans)

lemma agree_part: "agree_to (length part) (part @ rest) (part @ rest')"
  unfolding agree_to_def
proof (intro allI impI, elim conjE, intro conjI)
  fix offset element "next"
  assume parsed: "parseElement (part @ rest) offset = Ok (element, next)" and le: "next \<le> length part"
  then show "parseElement (part @ rest') offset = Ok (element, next)" by (rule parseElement_part)
  show "content_of (part @ rest') element = content_of (part @ rest) element"
    using parseElement_Ok [OF parsed] le by (intro content_of_part) simp
qed

lemma parse_sasl_part:
  assumes "parse_sasl U raw authentication m = Ok m'"
    and agree: "agree_to (e_end authentication) raw raw'"
  shows "parse_sasl U raw' authentication m = Ok m'"
proof -
  obtain mech q mb where mech: "parseElement raw (contentStart authentication) = Ok (mech, q)"
    "elementIs mech berClassUniversal False berTagOctetString" "content_of raw mech = Ok mb"
    and q: "q \<le> e_end authentication"
    and tail: "if q < e_end authentication
      then \<exists>cred. parseElement raw q = Ok (cred, e_end authentication) else True"
    using assms(1) by (fastforce simp: parse_sasl_def ok_simps Let_def split: if_split_asm)
  from mech q agree have mech': "parseElement raw' (contentStart authentication) = Ok (mech, q)"
    "content_of raw' mech = Ok mb"
    by (auto simp: agree_to_def)
  show ?thesis
  proof (cases "q < e_end authentication")
    case True
    then obtain cred where "parseElement raw q = Ok (cred, e_end authentication)" using tail by auto
    moreover from this agree have "parseElement raw' q = Ok (cred, e_end authentication)"
      "content_of raw' cred = content_of raw cred" by (auto simp: agree_to_def)
    ultimately show ?thesis
      using True mech mech' assms(1) by (auto simp: parse_sasl_def ok_simps Let_def)
  next
    case False
    with mech mech' assms(1) show ?thesis by (auto simp: parse_sasl_def ok_simps Let_def)
  qed
qed

lemma parseBindMetadata_part:
  assumes parsed: "parseBindMetadata U raw protocol = Ok m" and agree: "agree_to (e_end protocol) raw raw'"
  shows "parseBindMetadata U raw' protocol = Ok m"
proof -
  obtain v n1 d n2 a where v: "parseElement raw (contentStart protocol) = Ok (v, n1)"
      "elementIs v berClassUniversal False berTagInteger"
    and d: "parseElement raw n1 = Ok (d, n2)" "elementIs d berClassUniversal False berTagOctetString"
    and a: "parseElement raw n2 = Ok (a, e_end protocol)"
    using parsed by (fastforce simp: parseBindMetadata_def ok_simps)
  have ends: "n1 < n2" "n2 < e_end protocol" "e_end a = e_end protocol"
    using parseElement_Ok [OF d(1)] parseElement_Ok [OF a] by auto
  then have same: "parseElement raw' (contentStart protocol) = Ok (v, n1)"
    "content_of raw' v = content_of raw v" "parseElement raw' n1 = Ok (d, n2)"
    "content_of raw' d = content_of raw d" "parseElement raw' n2 = Ok (a, e_end protocol)"
    using agree_toD [OF agree v(1)] agree_toD [OF agree d(1)] agree_toD [OF agree a] by auto
  have sasl: "parse_sasl U raw' a m' = Ok m" if "parse_sasl U raw a m' = Ok m" for m'
    using parse_sasl_part [OF that] agree ends(3) by simp
  from parsed v d a same sasl show ?thesis
    by (auto simp: parseBindMetadata_def Let_def ok_simps split: if_split_asm)
qed

lemma parseExtendedRequestMetadata_part:
  assumes parsed: "parseExtendedRequestMetadata raw protocol = Ok m"
    and agree: "agree_to (e_end protocol) raw raw'"
  shows "parseExtendedRequestMetadata raw' protocol = Ok m"
proof -
  obtain name n1 where name: "parseElement raw (contentStart protocol) = Ok (name, n1)"
      "elementIs name berClassContext False 0"
    and n1: "n1 \<le> e_end protocol"
    and tail: "if n1 < e_end protocol then \<exists>v. parseElement raw n1 = Ok (v, e_end protocol) else True"
    using parsed by (fastforce simp: parseExtendedRequestMetadata_def ok_simps split: if_split_asm)
  from name n1 agree have same: "parseElement raw' (contentStart protocol) = Ok (name, n1)"
    "content_of raw' name = content_of raw name"
    by (auto simp: agree_to_def)
  show ?thesis
  proof (cases "n1 < e_end protocol")
    case True
    then obtain v where v: "parseElement raw n1 = Ok (v, e_end protocol)" using tail by auto
    with agree have "parseElement raw' n1 = Ok (v, e_end protocol)" "content_of raw' v = content_of raw v"
      by (auto simp: agree_to_def)
    with parsed name same True v show ?thesis
      by (auto simp: parseExtendedRequestMetadata_def ok_simps)
  next
    case False
    with parsed name same show ?thesis by (auto simp: parseExtendedRequestMetadata_def ok_simps)
  qed
qed

lemma result_fields_ge: "result_fields raw n e = Ok q \<Longrightarrow> n \<le> q"
proof (induction raw n e rule: result_fields.induct)
  case (1 raw n e)
  show ?case
  proof (cases "n < e")
    case True
    with "1.prems" obtain x k where x: "parseElement raw n = Ok (x, k)" and "result_fields raw k e = Ok q"
      by (subst (asm) result_fields.simps) (auto simp: ok_simps)
    with "1.IH" [OF True x refl] parseElement_Ok [OF x] show ?thesis by simp
  next
    case False
    with "1.prems" show ?thesis by (subst (asm) result_fields.simps) simp
  qed
qed

lemma result_fields_part:
  "result_fields raw n e = Ok q \<Longrightarrow> agree_to q raw raw' \<Longrightarrow> result_fields raw' n e = Ok q"
proof (induction raw n e rule: result_fields.induct)
  case (1 raw n e)
  show ?case
  proof (cases "n < e")
    case True
    with "1.prems"(1) obtain x k where x: "parseElement raw n = Ok (x, k)"
      and q: "result_fields raw k e = Ok q"
      by (subst (asm) result_fields.simps) (auto simp: ok_simps)
    have "parseElement raw' n = Ok (x, k)"
      using x result_fields_ge [OF q] "1.prems"(2) by (auto simp: agree_to_def)
    with True "1.IH" [OF True x refl q "1.prems"(2)] show ?thesis by (subst result_fields.simps) simp
  next
    case False
    with "1.prems" show ?thesis by (subst result_fields.simps, subst (asm) result_fields.simps) simp
  qed
qed

lemma parseLDAPResultCode_part:
  assumes parsed: "parseLDAPResultCode raw protocol = Ok m" and agree: "agree_to (e_end protocol) raw raw'"
  shows "parseLDAPResultCode raw' protocol = Ok m"
proof -
  obtain c n1 d n2 g n3 where c: "parseElement raw (contentStart protocol) = Ok (c, n1)"
      "elementIs c berClassUniversal False berTagEnumerated"
    and d: "parseElement raw n1 = Ok (d, n2)" "elementIs d berClassUniversal False berTagOctetString"
    and g: "parseElement raw n2 = Ok (g, n3)" "elementIs g berClassUniversal False berTagOctetString"
    and f: "result_fields raw n3 (e_end protocol) = Ok (e_end protocol)"
    using parsed by (fastforce simp: parseLDAPResultCode_def ok_simps)
  have "n1 < n2" "n2 < n3" "n3 \<le> e_end protocol"
    using parseElement_Ok [OF d(1)] parseElement_Ok [OF g(1)] result_fields_ge [OF f] by auto
  then have "parseElement raw' (contentStart protocol) = Ok (c, n1)"
    "content_of raw' c = content_of raw c" "parseElement raw' n1 = Ok (d, n2)"
    "parseElement raw' n2 = Ok (g, n3)"
    using agree_toD [OF agree c(1)] agree_toD [OF agree d(1)] agree_toD [OF agree g(1)] by auto
  with parsed c d g f result_fields_part [OF f agree] show ?thesis
    by (auto simp: parseLDAPResultCode_def ok_simps)
qed

lemma parse_operation_part:
  assumes "parse_operation U (part @ rest) protocol frame = Ok frame'" "e_end protocol \<le> length part"
  shows "parse_operation U (part @ rest') protocol frame = Ok frame'"
proof -
  have agree: "agree_to (e_end protocol) (part @ rest) (part @ rest')"
    by (rule agree_mono [OF agree_part assms(2)])
  have "content_of (part @ rest') protocol = content_of (part @ rest) protocol"
    using assms(2) by (rule content_of_part)
  then have content: "content_of (part @ rest) protocol = content_of (part @ rest') protocol" by (rule sym)
  have b: "parseBindMetadata U (part @ rest') protocol = Ok m"
    if "parseBindMetadata U (part @ rest) protocol = Ok m" for m
    using parseBindMetadata_part [OF that agree] .
  have x: "parseExtendedRequestMetadata (part @ rest') protocol = Ok m"
    if "parseExtendedRequestMetadata (part @ rest) protocol = Ok m" for m
    using parseExtendedRequestMetadata_part [OF that agree] .
  consider (bind) "e_tag protocol = TagBindRequest"
    | (ext) "e_tag protocol \<noteq> TagBindRequest" "e_tag protocol = TagExtendedRequest"
    | (other) "e_tag protocol \<noteq> TagBindRequest" "e_tag protocol \<noteq> TagExtendedRequest"
    by blast
  then show ?thesis
  proof cases
    case bind
    with assms(1) show ?thesis by (auto simp: parse_operation_def dest: b)
  next
    case ext
    with assms(1) show ?thesis by (auto simp: parse_operation_def dest: x)
  next
    case other
    with assms(1) show ?thesis unfolding parse_operation_def content by simp
  qed
qed

lemma parse_result_part:
  assumes "parse_result (part @ rest) protocol frame = Ok frame'" "e_end protocol \<le> length part"
  shows "parse_result (part @ rest') protocol frame = Ok frame'"
proof -
  have agree: "agree_to (e_end protocol) (part @ rest) (part @ rest')"
    by (rule agree_mono [OF agree_part assms(2)])
  have "parseLDAPResultCode (part @ rest') protocol = Ok m"
    if "parseLDAPResultCode (part @ rest) protocol = Ok m" for m
    using parseLDAPResultCode_part [OF that agree] .
  with assms(1) show ?thesis by (auto simp: parse_result_def split: if_split_asm)
qed

section \<open>The frame of a message\<close>

text \<open>A frame over other bytes: what the operation says stays.\<close>

definition rebase :: "bytes \<Rightarrow> int \<Rightarrow> bytes \<Rightarrow> bytes \<Rightarrow> Control list \<Rightarrow> Frame \<Rightarrow> Frame" where
  "rebase raw messageID op controlsRaw controls frame =
     frame\<lparr>f_Raw := raw, MessageID := messageID, ProtocolOp := op, ControlsRaw := controlsRaw,
       Controls := controls\<rparr>"

lemma rebase_fields [simp]:
  "f_Raw (rebase r i op cr cs f) = r" "MessageID (rebase r i op cr cs f) = i"
  "ProtocolTag (rebase r i op cr cs f) = ProtocolTag f" "ProtocolOp (rebase r i op cr cs f) = op"
  "ControlsRaw (rebase r i op cr cs f) = cr" "Controls (rebase r i op cr cs f) = cs"
  by (simp_all add: rebase_def)

lemma parse_operation_commutes:
  "parse_operation U raw protocol (rebase r i op cr cs f) =
     go_bind (parse_operation U raw protocol f) (\<lambda>f. Ok (rebase r i op cr cs f))"
  by (cases f) (simp add: parse_operation_def rebase_def go_bind_assoc split_def go_bind_if cong: if_cong)

lemma parse_result_commutes:
  "parse_result raw protocol (rebase r i op cr cs f) =
     go_bind (parse_result raw protocol f) (\<lambda>f. Ok (rebase r i op cr cs f))"
  by (cases f) (simp add: parse_result_def rebase_def go_bind_assoc)

lemma parse_operation_tag:
  assumes "parse_operation U raw protocol f = Ok g"
  shows "ProtocolTag g = ProtocolTag f"
  using assms unfolding parse_operation_def
  by (cases "e_tag protocol = TagBindRequest"; cases "e_tag protocol = TagExtendedRequest";
      cases "e_tag protocol = TagAbandonRequest") (auto simp: if_Err_Ok)

lemma parse_operation_rebase:
  assumes "parse_operation U raw protocol (bare_frame r i t op cr cs) = Ok f"
  shows "parse_operation U raw protocol (bare_frame r' i' t op' cr' cs') = Ok (rebase r' i' op' cr' cs' f)"
    and "f = rebase r i op cr cs f" and "ProtocolTag f = t"
proof -
  have b: "bare_frame r' i' t op' cr' cs' = rebase r' i' op' cr' cs' (bare_frame r i t op cr cs)"
    for r' i' op' cr' cs' by (simp add: bare_frame_def rebase_def)
  show moved: "parse_operation U raw protocol (bare_frame r' i' t op' cr' cs') = Ok (rebase r' i' op' cr' cs' f)"
    for r' i' op' cr' cs' by (simp add: b [of r'] parse_operation_commutes assms)
  show "f = rebase r i op cr cs f" using moved [of r i op cr cs] assms by simp
  show "ProtocolTag f = t" using parse_operation_tag [OF assms] by (simp add: bare_frame_def)
qed

lemma parse_result_rebase:
  assumes "parse_result raw protocol f = Ok f'"
  shows "parse_result raw protocol (rebase r i op cr cs f) = Ok (rebase r i op cr cs f')"
    and "f_Raw f' = f_Raw f \<and> MessageID f' = MessageID f \<and> ProtocolTag f' = ProtocolTag f
      \<and> ProtocolOp f' = ProtocolOp f \<and> ControlsRaw f' = ControlsRaw f \<and> Controls f' = Controls f"
  using assms parse_result_commutes [of raw protocol r i op cr cs f]
  by (auto simp: parse_result_def split: if_split_asm)

lemma parse_trailing_controls_Ok:
  assumes "parse_trailing_controls raw c e = Ok (cr, cs, n)" "c \<le> length raw"
  shows "if c < e then n = e \<and> e \<le> length raw \<and> cr = take (e - c) (drop c raw) else n = c \<and> cr = [] \<and> cs = []"
proof (cases "c < e")
  case True
  then obtain x where x: "parseElement raw c = Ok (x, e)" and "n = e" and w: "whole_of raw x = Ok cr"
    using assms(1) by (auto simp: parse_trailing_controls_def ok_simps)
  from whole_of_no_panic [OF x] w parseElement_Ok [OF x] True \<open>n = e\<close> show ?thesis by simp
qed (use assms in \<open>simp add: parse_trailing_controls_def\<close>)

lemma parse_body_shift:
  "parse_body U (front @ raw) i (length front + c) (length front + e) =
     go_bind (parse_body U raw i c e) (\<lambda>f. Ok (f\<lparr>f_Raw := front @ raw\<rparr>))"
proof -
  have op: "parse_operation U raw p (bare_frame (front @ raw) i t op cr cs) =
      go_bind (parse_operation U raw p (bare_frame raw i t op cr cs)) (\<lambda>f. Ok (f\<lparr>f_Raw := front @ raw\<rparr>))"
    for p t op cr cs
    by (simp add: parse_operation_def bare_frame_def go_bind_assoc split_def go_bind_if cong: if_cong)
  have res: "parse_result raw p (f\<lparr>f_Raw := front @ raw\<rparr>) =
      go_bind (parse_result raw p f) (\<lambda>f. Ok (f\<lparr>f_Raw := front @ raw\<rparr>))" for p f
    by (cases f) (simp add: parse_result_def go_bind_assoc)
  show ?thesis
    by (simp add: parse_body_def parse_protocol_shift parse_trailing_controls_shift parse_operation_shift
        parse_result_shift op res go_bind_assoc split_def go_bind_if cong: if_cong)
qed

text \<open>What a successful reading of the body says, at the start of the bytes.\<close>

lemma parse_body_Ok:
  assumes "parse_body U raw i 0 (length raw) = Ok f"
  obtains protocol k g where "parse_protocol raw 0 = Ok (protocol, k)" "k \<le> length raw"
    "e_start protocol = 0" "e_end protocol = k"
    "ProtocolOp f = take k raw" "ControlsRaw f = drop k raw" "f_Raw f = raw" "MessageID f = i"
    "ProtocolTag f = e_tag protocol"
    "parse_trailing_controls raw k (length raw) = Ok (drop k raw, Controls f, length raw)"
    "parse_operation U raw protocol (bare_frame raw i (e_tag protocol) (take k raw) (drop k raw) (Controls f)) = Ok g"
    "parse_result raw protocol g = Ok f"
proof -
  obtain protocol k op cr cs n g where p: "parse_protocol raw 0 = Ok (protocol, k)"
    and op: "whole_of raw protocol = Ok op"
    and t: "parse_trailing_controls raw k (length raw) = Ok (cr, cs, n)" "n = length raw"
    and g: "parse_operation U raw protocol (bare_frame raw i (e_tag protocol) op cr cs) = Ok g"
    and f: "parse_result raw protocol g = Ok f"
    using assms by (auto simp: parse_body_def if_Err_Ok)
  have e: "parseElement raw 0 = Ok (protocol, k)" using p by (auto simp: parse_protocol_def if_Err_Ok)
  note b = parseElement_Ok [OF e]
  have "op = take k raw" using whole_of_no_panic [OF e] op by simp
  moreover have "cr = drop k raw"
    using parse_trailing_controls_Ok [OF t(1)] b by (auto split: if_splits)
  ultimately show ?thesis
    using p b t g f arg_cong [OF parse_operation_rebase(2) [OF g], of f_Raw]
      arg_cong [OF parse_operation_rebase(2) [OF g], of MessageID]
      arg_cong [OF parse_operation_rebase(2) [OF g], of ProtocolOp]
      arg_cong [OF parse_operation_rebase(2) [OF g], of ControlsRaw]
      arg_cong [OF parse_operation_rebase(2) [OF g], of Controls]
      parse_operation_rebase(3) [OF g] parse_result_rebase(2) [OF f]
    by (intro that [of protocol k g]) (simp_all only: rebase_fields simp_thms)
qed

text \<open>The same operation with other controls behind it.\<close>

lemma parse_body_controls:
  assumes body: "parse_body U (op @ cr) i 0 (length (op @ cr)) = Ok f" and "ProtocolOp f = op"
    and controls: "parse_trailing_controls cr' 0 (length cr') = Ok (cr', cs', length cr')"
  shows "parse_body U (op @ cr') i' 0 (length (op @ cr')) = Ok (rebase (op @ cr') i' op cr' cs' f)"
proof -
  obtain protocol k g where p: "parse_protocol (op @ cr) 0 = Ok (protocol, k)" "k \<le> length (op @ cr)"
    "e_start protocol = 0" "e_end protocol = k" "take k (op @ cr) = op"
    and g: "parse_operation U (op @ cr) protocol
      (bare_frame (op @ cr) i (e_tag protocol) (take k (op @ cr)) (drop k (op @ cr)) (Controls f)) = Ok g"
    and f: "parse_result (op @ cr) protocol g = Ok f"
    using parse_body_Ok [OF body] assms(2) by metis
  have k: "k = length op"
  proof -
    have "length (take k (op @ cr)) = length op" using p(5) by simp
    then show ?thesis using p(2) by simp
  qed
  have e: "parseElement (op @ cr) 0 = Ok (protocol, k)" using p(1) by (auto simp: parse_protocol_def if_Err_Ok)
  have e': "parseElement (op @ cr') 0 = Ok (protocol, k)" using parseElement_part [OF e] k by simp
  have p': "parse_protocol (op @ cr') 0 = Ok (protocol, k)" using p(1) e e' by (simp add: parse_protocol_def)
  have op': "whole_of (op @ cr') protocol = Ok op" using whole_of_no_panic [OF e'] k by simp
  have t': "parse_trailing_controls (op @ cr') k (length (op @ cr')) = Ok (cr', cs', length (op @ cr'))"
    using parse_trailing_controls_shift [of op cr' 0 "length cr'"] controls k by simp
  have pe: "e_end protocol \<le> length op" using p(4) k by simp
  have "parse_operation U (op @ cr') protocol (bare_frame (op @ cr') i' (e_tag protocol) op cr' cs') =
      Ok (rebase (op @ cr') i' op cr' cs' g)"
    using parse_operation_rebase(1) [OF parse_operation_part [OF g pe]] .
  moreover have "parse_result (op @ cr') protocol (rebase (op @ cr') i' op cr' cs' g) =
      Ok (rebase (op @ cr') i' op cr' cs' f)"
    using parse_result_rebase(1) [OF parse_result_part [OF f pe]] .
  ultimately show ?thesis using p' op' t' by (simp add: parse_body_def)
qed

lemma parse_outer_Ok:
  assumes "parse_outer raw = Ok outer"
  shows "parseElement raw 0 = Ok (outer, length raw)" "identifierEnd outer = 1"
    "raw ! 0 = CHR 0x30" "contentStart outer \<le> length raw" "e_end outer = length raw"
    "ord (raw ! 1) < 128 \<or> ord (raw ! 1) AND 127 \<le> 4"
proof -
  show e: "parseElement raw 0 = Ok (outer, length raw)" using assms by (auto simp: parse_outer_eq if_Err_Ok)
  note b = parseElement_Ok [OF e]
  show "identifierEnd outer = 1" "raw ! 0 = CHR 0x30" "ord (raw ! 1) < 128 \<or> ord (raw ! 1) AND 127 \<le> 4"
    using assms b by (auto simp: parse_outer_eq if_Err_Ok maxOuterLengthOctets_def e)
  show "contentStart outer \<le> length raw" "e_end outer = length raw" using b by auto
qed

text \<open>A message is a head, the operation and the controls; its frame comes from the latter two.\<close>

lemma parseOwnedFrame_Ok:
  assumes "parseOwnedFrame U raw limit = Ok f"
  obtains outer front where "parse_outer raw = Ok outer"
    "parse_message_id raw (contentStart outer) = Ok (MessageID f, length front)"
    "raw = front @ ProtocolOp f @ ControlsRaw f" "f_Raw f = raw" "int (length raw) \<le> limit"
    "parse_body U (ProtocolOp f @ ControlsRaw f) (MessageID f) 0 (length (ProtocolOp f @ ControlsRaw f)) =
       Ok (f\<lparr>f_Raw := ProtocolOp f @ ControlsRaw f\<rparr>)"
    "front \<noteq> []"
proof -
  obtain outer i c where o': "parse_outer raw = Ok outer"
    and m: "parse_message_id raw (contentStart outer) = Ok (i, c)"
    and b: "parse_body U raw i c (e_end outer) = Ok f" and l: "int (length raw) \<le> limit"
    using assms by (auto simp: parseOwnedFrame_def if_Err_Ok)
  have c: "c \<le> length raw" "0 < c"
    using m by (auto simp: parse_message_id_def if_Err_Ok dest!: parseElement_Ok)
  define front s where "front = take c raw" and "s = drop c raw"
  have raw: "raw = front @ s" and len: "length front = c" using c by (simp_all add: front_def s_def)
  have "parse_body U (front @ s) i (length front) (length front + length s) = Ok f"
    using b parse_outer_Ok(5) [OF o'] raw len by simp
  then have "go_bind (parse_body U s i 0 (length s)) (\<lambda>f. Ok (f\<lparr>f_Raw := front @ s\<rparr>)) = Ok f"
    using parse_body_shift [of U front s i 0 "length s"] by (simp only: add_0_right)
  then obtain h where h: "parse_body U s i 0 (length s) = Ok h" and f: "f = h\<lparr>f_Raw := front @ s\<rparr>"
    by auto
  obtain k where k: "ProtocolOp h = take k s" "ControlsRaw h = drop k s" "f_Raw h = s" "MessageID h = i"
    using parse_body_Ok [OF h] by metis
  have s: "ProtocolOp f @ ControlsRaw f = s" using f k by simp
  show ?thesis
  proof (rule that [OF o'])
    show "parse_message_id raw (contentStart outer) = Ok (MessageID f, length front)"
      using m len f k by simp
    show "raw = front @ ProtocolOp f @ ControlsRaw f" using raw s by simp
    show "f_Raw f = raw" using f raw by simp
    show "parse_body U (ProtocolOp f @ ControlsRaw f) (MessageID f) 0 (length (ProtocolOp f @ ControlsRaw f)) =
        Ok (f\<lparr>f_Raw := ProtocolOp f @ ControlsRaw f\<rparr>)"
      unfolding s using h f k by (metis (no_types) Frame.surjective Frame.update_convs(1) Frame.select_convs(1,2))
    show "front \<noteq> []" using len c by auto
  qed (rule l)
qed

section \<open>Messages that are written\<close>

lemma decodeNonnegativeInteger_bounds:
  assumes "decodeNonnegativeInteger content maximum = Ok v" "0 \<le> maximum" "maximum < 2 ^ 63"
  shows "0 \<le> v \<and> v \<le> maximum"
proof -
  obtain w where w: "\<not> (of_int maximum :: uint64) < w" and v: "v = int (unat w)"
    using assms(1) by (auto simp: decodeNonnegativeInteger_eq split: if_split_asm option.split_asm)
  have "uint w \<le> uint (of_int maximum :: uint64)" using w by (simp add: word_le_def not_less)
  also have "uint (of_int maximum :: uint64) = maximum" using assms(2,3) by (simp add: uint_word_of_int)
  finally show ?thesis using v by simp
qed

lemma joinBER_Ok:
  assumes "length (concat parts) \<le> maximumInt"
  shows "joinBER parts = Ok (concat parts)"
proof -
  have "join_total ps n = Ok ()" if "length (concat ps) + n \<le> maximumInt" for ps n
    using that by (induction ps arbitrary: n) (auto simp: algebra_simps)
  from this [of parts 0] assms show ?thesis by (simp add: joinBER_def)
qed

lemma encodeFrame_Ok:
  assumes id: "0 \<le> i" "i \<le> MaxMessageID" and len: "length op + length cr < 2 ^ 31"
  obtains front outer where "encodeFrame i op cr = Ok (front @ op @ cr)" "length front \<le> 18"
    "parse_outer (front @ op @ cr) = Ok outer" "e_end outer = length (front @ op @ cr)"
    "parse_message_id (front @ op @ cr) (contentStart outer) = Ok (i, length front)"
proof -
  obtain octets where octets: "encodeNonnegativeInteger i = Ok octets"
    "decodeNonnegativeInteger octets MaxMessageID = Ok i" "length octets \<le> 9"
    using encodeNonnegativeInteger_Ok [OF id] by (auto simp: MaxMessageID_def)
  have big: "(2::nat) ^ 31 + 100 \<le> maximumInt" "(2::nat) ^ 31 + 100 < 256 ^ 4" by (simp_all add: maximumInt_def)
  obtain idh where idh: "encodeTLV 2 octets = Ok (idh @ octets)" "tlv_head 2 idh octets" "length idh \<le> 1 + 2"
    by (rule encodeTLV_Ok [of octets 2 1]) (use octets(3) big in simp_all)
  define content where "content = idh @ octets @ op @ cr"
  have cl: "length content < 2 ^ 31 + 100" using len octets(3) idh(3) by (simp add: content_def)
  obtain oh where oh: "encodeTLV 48 content = Ok (oh @ content)" "tlv_head 48 oh content" "length oh \<le> 4 + 2"
    by (rule encodeTLV_Ok [of content 48 4]) (use cl big in simp_all)
  define front where "front = oh @ idh @ octets"
  have whole: "front @ op @ cr = oh @ content" by (simp add: front_def content_def)
  have "joinBER [idh @ octets, op, cr] = Ok content"
    using joinBER_Ok [of "[idh @ octets, op, cr]"] cl big(1) by (simp add: content_def)
  then have "encodeFrame i op cr = Ok (front @ op @ cr)"
    using octets(1) idh(1) oh(1) by (simp add: encodeFrame_def whole)
  moreover have "parse_outer (front @ op @ cr) = Ok (tlv_element 48 (length oh) (length content))"
  proof -
    have "(oh @ content) ! 0 = CHR 0x30" "(oh @ content) ! 1 = oh ! 1"
      "\<not> (\<not> ord (oh ! 1) < 128 \<and> 4 < ord (oh ! 1) AND 127)"
      using oh(2,3) by (auto simp: nth_append tlv_head_def char_of_def bit_0)
    then show ?thesis
      by (auto simp: parse_outer_eq tlv_headD(2) [OF oh(2)] whole ber_constants maxOuterLengthOctets_def
          drop_bit_eq_div)
  qed
  moreover have "parse_message_id (oh @ content) (length oh) = Ok (i, length front)"
    using octets(2) tlv_headD(3) [OF idh(2), of oh "op @ cr"] tlv_headD(4) [OF idh(2), of oh "op @ cr"]
    by (simp add: parse_message_id_def content_def elementIs_def ber_constants front_def drop_bit_eq_div)
  ultimately show ?thesis
    using oh(3) idh(3) octets(3) by (intro that [of front "tlv_element 48 (length oh) (length content)"]) (simp_all add: whole front_def content_def)
qed

lemma encoded_frame:
  assumes id: "0 \<le> i" "i \<le> MaxMessageID" and len: "length op + length cr < 2 ^ 31"
    and body: "parse_body U (op @ cr) i 0 (length (op @ cr)) = Ok f"
  obtains raw where "encodeFrame i op cr = Ok raw" "length raw \<le> length op + length cr + 18"
    "\<And>limit. int (length raw) \<le> normalizedMaximum limit \<Longrightarrow> ParseFrame U raw limit = Ok (f\<lparr>f_Raw := raw\<rparr>)"
proof -
  obtain front outer where e: "encodeFrame i op cr = Ok (front @ op @ cr)" "length front \<le> 18"
    "parse_outer (front @ op @ cr) = Ok outer" "e_end outer = length (front @ op @ cr)"
    "parse_message_id (front @ op @ cr) (contentStart outer) = Ok (i, length front)"
    using encodeFrame_Ok [OF id len] .
  have "parse_body U (front @ op @ cr) i (length front) (length (front @ op @ cr)) =
      Ok (f\<lparr>f_Raw := front @ op @ cr\<rparr>)"
    using parse_body_shift [of U front "op @ cr" i 0 "length (op @ cr)"] body by simp
  with e show ?thesis
    by (intro that [of "front @ op @ cr"]) (simp_all add: ParseFrame_def parseOwnedFrame_def Let_def)
qed

lemma validateFrameParts_Ok:
  assumes "parse_body U (ProtocolOp f @ ControlsRaw f) i 0 (length (ProtocolOp f @ ControlsRaw f)) = Ok h"
    and "ProtocolOp h = ProtocolOp f" "ProtocolTag h = ProtocolTag f"
  shows "validateFrameParts f = Ok ()"
proof -
  obtain protocol k where p: "parse_protocol (ProtocolOp f @ ControlsRaw f) 0 = Ok (protocol, k)"
    "k \<le> length (ProtocolOp f @ ControlsRaw f)"
    and op: "ProtocolOp h = take k (ProtocolOp f @ ControlsRaw f)" and tag: "ProtocolTag h = e_tag protocol"
    and t: "parse_trailing_controls (ProtocolOp f @ ControlsRaw f) k (length (ProtocolOp f @ ControlsRaw f)) =
      Ok (drop k (ProtocolOp f @ ControlsRaw f), Controls h, length (ProtocolOp f @ ControlsRaw f))"
    using parse_body_Ok [OF assms(1)] by metis
  have k: "k = length (ProtocolOp f)"
  proof -
    have "length (take k (ProtocolOp f @ ControlsRaw f)) = length (ProtocolOp f)" using op assms(2) by simp
    then show ?thesis using p(2) by simp
  qed
  have "parseElement (ProtocolOp f @ ControlsRaw f) 0 = Ok (protocol, k)"
    and cls: "e_class protocol = berClassApplication" "validateProtocolElement protocol = Ok ()"
    using p(1) by (auto simp: parse_protocol_def if_Err_Ok)
  from parseElement_part [OF this(1), of "[]"] k
  have e: "parseElement (ProtocolOp f) 0 = Ok (protocol, length (ProtocolOp f))" by simp
  have "\<exists>w. parseElement (ControlsRaw f) 0 = Ok (w, length (ControlsRaw f)) \<and> elementIs w berClassContext True 0"
    if "ControlsRaw f \<noteq> []"
  proof -
    have "parse_trailing_controls (ControlsRaw f) 0 (length (ControlsRaw f)) =
        Ok (ControlsRaw f, Controls h, length (ControlsRaw f))"
      using parse_trailing_controls_shift [of "ProtocolOp f" "ControlsRaw f" 0 "length (ControlsRaw f)"] t k
      by auto
    with that show ?thesis
      by (auto simp: parse_trailing_controls_def parseControls_def if_Err_Ok)
  qed
  with e cls tag assms(3) show ?thesis by (auto simp: validateFrameParts_def)
qed

lemma parsed_frame:
  assumes "ParseFrame U raw limit = Ok f"
  shows "f_Raw f = raw" "int (length raw) \<le> normalizedMaximum limit"
    "length (ProtocolOp f) + length (ControlsRaw f) < length raw" "validateFrameParts f = Ok ()"
    "0 \<le> MessageID f" "MessageID f \<le> MaxMessageID"
    "parse_body U (ProtocolOp f @ ControlsRaw f) (MessageID f) 0 (length (ProtocolOp f @ ControlsRaw f)) =
       Ok (f\<lparr>f_Raw := ProtocolOp f @ ControlsRaw f\<rparr>)"
proof -
  have p: "parseOwnedFrame U raw (normalizedMaximum limit) = Ok f" and "int (length raw) \<le> normalizedMaximum limit"
    using assms by (auto simp: ParseFrame_def Let_def if_Err_Ok)
  then show "int (length raw) \<le> normalizedMaximum limit" by simp
  obtain outer :: berElement and front where o': "parse_message_id raw (contentStart outer) = Ok (MessageID f, length front)"
    and raw: "raw = front @ ProtocolOp f @ ControlsRaw f" "f_Raw f = raw" "front \<noteq> []"
    and b: "parse_body U (ProtocolOp f @ ControlsRaw f) (MessageID f) 0 (length (ProtocolOp f @ ControlsRaw f)) =
       Ok (f\<lparr>f_Raw := ProtocolOp f @ ControlsRaw f\<rparr>)"
    by (rule parseOwnedFrame_Ok [OF p]) blast
  show "f_Raw f = raw" by (rule raw(2))
  show "length (ProtocolOp f) + length (ControlsRaw f) < length raw"
    using arg_cong [OF raw(1), of length] raw(3) by simp
  show "parse_body U (ProtocolOp f @ ControlsRaw f) (MessageID f) 0 (length (ProtocolOp f @ ControlsRaw f)) =
       Ok (f\<lparr>f_Raw := ProtocolOp f @ ControlsRaw f\<rparr>)" by (rule b)
  show "validateFrameParts f = Ok ()" using validateFrameParts_Ok [OF b] by simp
  show "0 \<le> MessageID f" "MessageID f \<le> MaxMessageID"
    using o' by (auto simp: parse_message_id_def if_Err_Ok MaxMessageID_def
        dest: decodeNonnegativeInteger_bounds)
qed

lemma parse_body_trailing:
  assumes "parse_body U (op @ cr) i 0 (length (op @ cr)) = Ok f" "ProtocolOp f = op"
  shows "parse_trailing_controls cr 0 (length cr) = Ok (cr, Controls f, length cr)"
proof -
  obtain k where k: "k \<le> length (op @ cr)" "ProtocolOp f = take k (op @ cr)"
    and t: "parse_trailing_controls (op @ cr) k (length (op @ cr)) = Ok (drop k (op @ cr), Controls f, length (op @ cr))"
    using parse_body_Ok [OF assms(1)] by metis
  have "length (take k (op @ cr)) = length op" using k(2) assms(2) by simp
  with k(1) have "k = length op" by simp
  with t show ?thesis
    using parse_trailing_controls_shift [of op cr 0 "length cr"]
    by (cases "parse_trailing_controls cr 0 (length cr)") auto
qed

text \<open>The same operation and controls under another identifier.\<close>

lemma rewritten_frame:
  assumes "ParseFrame U raw limit = Ok f" "length raw < 2 ^ 31" "0 \<le> i" "i \<le> MaxMessageID"
    and controls: "parse_trailing_controls cr' 0 (length cr') = Ok (cr', cs', length cr')"
    and len: "length (ProtocolOp f) + length cr' < 2 ^ 31"
  obtains raw' where "encodeFrame i (ProtocolOp f) cr' = Ok raw'"
    "length raw' \<le> length (ProtocolOp f) + length cr' + 18"
    "\<And>limit'. int (length raw') \<le> normalizedMaximum limit' \<Longrightarrow>
      ParseFrame U raw' limit' = Ok (f\<lparr>f_Raw := raw', MessageID := i, ControlsRaw := cr', Controls := cs'\<rparr>)"
proof -
  note p = parsed_frame [OF assms(1)]
  have "parse_body U (ProtocolOp f @ cr') i 0 (length (ProtocolOp f @ cr')) =
      Ok (rebase (ProtocolOp f @ cr') i (ProtocolOp f) cr' cs' (f\<lparr>f_Raw := ProtocolOp f @ ControlsRaw f\<rparr>))"
    by (rule parse_body_controls [OF p(7) _ controls]) simp
  from encoded_frame [OF assms(3,4) len this] obtain raw' where "encodeFrame i (ProtocolOp f) cr' = Ok raw'"
    "length raw' \<le> length (ProtocolOp f) + length cr' + 18"
    "\<And>limit'. int (length raw') \<le> normalizedMaximum limit' \<Longrightarrow> ParseFrame U raw' limit' =
      Ok ((rebase (ProtocolOp f @ cr') i (ProtocolOp f) cr' cs' (f\<lparr>f_Raw := ProtocolOp f @ ControlsRaw f\<rparr>))\<lparr>f_Raw := raw'\<rparr>)"
    by blast
  then show ?thesis by (intro that [of raw']) (simp_all add: rebase_def)
qed

text \<open>
  C11: A message that was parsed can be written under any valid message identifier (whatever it
  holds, below 2 GiB), and what is written parses to the same frame in every field, its operation,
  controls, bind and extended request data, result code and abandon target, apart from the
  identifier and the bytes themselves.
\<close>

theorem rewritten_message_id:
  assumes "ParseFrame U raw limit = Ok f" "length raw < 2 ^ 31" "0 \<le> i" "i \<le> MaxMessageID"
  shows "\<exists>raw'. RewriteMessageID f i = Ok raw' \<and> length raw' < length raw + 18 \<and>
    (\<forall>limit'. int (length raw') \<le> normalizedMaximum limit' \<longrightarrow>
      ParseFrame U raw' limit' = Ok (f\<lparr>f_Raw := raw', MessageID := i\<rparr>))"
proof -
  note p = parsed_frame [OF assms(1)]
  have t: "parse_trailing_controls (ControlsRaw f) 0 (length (ControlsRaw f)) =
      Ok (ControlsRaw f, Controls f, length (ControlsRaw f))"
    using parse_body_trailing [OF p(7)] by simp
  obtain raw' where "encodeFrame i (ProtocolOp f) (ControlsRaw f) = Ok raw'"
    "length raw' \<le> length (ProtocolOp f) + length (ControlsRaw f) + 18"
    "\<And>limit'. int (length raw') \<le> normalizedMaximum limit' \<Longrightarrow> ParseFrame U raw' limit' =
      Ok (f\<lparr>f_Raw := raw', MessageID := i, ControlsRaw := ControlsRaw f, Controls := Controls f\<rparr>)"
    using rewritten_frame [OF assms(1-4) t] p(3) assms(2) by auto
  then show ?thesis
    using p(3,4) assms(3,4) by (auto simp: RewriteMessageID_def validateMessageID_def)
qed

section \<open>Abandon requests\<close>

lemma abandon_body:
  assumes target: "0 < target" "target \<le> MaxMessageID"
    and controls: "parse_trailing_controls cr 0 (length cr) = Ok (cr, cs, length cr)"
  obtains octets op where "encodeNonnegativeInteger target = Ok octets" "encodeTLV 0x50 octets = Ok op"
    "length op \<le> 12"
    "parse_body U (op @ cr) i 0 (length (op @ cr)) = Ok ((bare_frame (op @ cr) i TagAbandonRequest op cr cs)
       \<lparr>AbandonTarget := target, HasAbandonTarget := True\<rparr>)"
proof -
  have small: "MaxMessageID < 2 ^ 63" by (simp add: MaxMessageID_def)
  obtain octets where octets: "encodeNonnegativeInteger target = Ok octets"
    "decodeNonnegativeInteger octets MaxMessageID = Ok target" "length octets \<le> 9"
    using encodeNonnegativeInteger_Ok [OF _ target(2) small] target(1) by auto
  obtain h where h: "encodeTLV 0x50 octets = Ok (h @ octets)" "tlv_head 0x50 h octets" "length h \<le> 1 + 2"
    by (rule encodeTLV_Ok [of octets "0x50" 1]) (use octets(3) in \<open>simp_all add: maximumInt_def\<close>)
  let ?e = "tlv_element 0x50 (length h) (length octets)"
  have e: "parseElement ((h @ octets) @ cr) 0 = Ok (?e, length (h @ octets))"
    using tlv_headD(1) [OF h(2), of cr] by simp
  have c: "content_of ((h @ octets) @ cr) ?e = Ok octets"
    by (simp add: content_of_def go_slice_def)
  have w: "whole_of ((h @ octets) @ cr) ?e = Ok (h @ octets)"
    using whole_of_no_panic [OF e] by simp
  have t: "parse_trailing_controls ((h @ octets) @ cr) (length (h @ octets)) (length ((h @ octets) @ cr)) =
      Ok (cr, cs, length ((h @ octets) @ cr))"
    using parse_trailing_controls_shift [of "h @ octets" cr 0 "length cr"] controls by (simp add: add.assoc)
  have v: "validateProtocolElement ?e = Ok ()" "e_tag ?e = TagAbandonRequest"
    by (simp_all add: validateProtocolElement_def protocolConstructedForm_def wire_constants)
  have p: "parse_protocol ((h @ octets) @ cr) 0 = Ok (?e, length (h @ octets))"
    unfolding parse_protocol_def e using v by (simp add: berClassApplication_def drop_bit_eq_div)
  have "parse_operation U ((h @ octets) @ cr) ?e f = Ok (f\<lparr>AbandonTarget := target, HasAbandonTarget := True\<rparr>)" for f
    unfolding parse_operation_def v(2) using target octets(2) by (simp add: wire_constants c [unfolded append_assoc])
  moreover have "parse_result ((h @ octets) @ cr) ?e f = Ok f" for f
    unfolding parse_result_def v(2) by (simp add: isLDAPResultResponse_def wire_constants)
  ultimately have "parse_body U ((h @ octets) @ cr) i 0 (length ((h @ octets) @ cr)) =
      Ok ((bare_frame ((h @ octets) @ cr) i TagAbandonRequest (h @ octets) cr cs)
        \<lparr>AbandonTarget := target, HasAbandonTarget := True\<rparr>)"
    unfolding parse_body_def p go_bind.simps prod.case w t v(2) by simp
  with octets h show ?thesis by (intro that [of octets "h @ octets"]) simp_all
qed

lemma parse_result_abandon:
  "parse_result raw protocol f = Ok f' \<Longrightarrow> HasAbandonTarget f' = HasAbandonTarget f"
  by (auto simp: parse_result_def split: if_split_asm)

text \<open>
  A parsed abandon request can be redirected to any other message: under the new identifier it
  parses to an abandon request of the new target, with the controls of the old one.
\<close>

theorem rewritten_abandon:
  assumes "ParseFrame U raw limit = Ok f" "length raw < 2 ^ 30" "HasAbandonTarget f"
    and "0 \<le> i" "i \<le> MaxMessageID" "0 < target" "target \<le> MaxMessageID"
  shows "\<exists>raw' op. rewriteAbandon f i target = Ok raw' \<and>
    (\<forall>limit'. int (length raw') \<le> normalizedMaximum limit' \<longrightarrow> ParseFrame U raw' limit' =
      Ok (f\<lparr>f_Raw := raw', MessageID := i, ProtocolOp := op, AbandonTarget := target\<rparr>))"
proof -
  note p = parsed_frame [OF assms(1)]
  let ?s = "ProtocolOp f @ ControlsRaw f"
  obtain protocol k g where tag: "ProtocolTag f = e_tag protocol"
    and g: "parse_operation U ?s protocol (bare_frame ?s (MessageID f) (e_tag protocol) (take k ?s) (drop k ?s) (Controls f)) = Ok g"
    and r: "parse_result ?s protocol g = Ok (f\<lparr>f_Raw := ?s\<rparr>)"
    using parse_body_Ok [OF p(7)] by (metis Frame.select_convs(3,6) Frame.surjective Frame.update_convs(1))
  have abandon: "e_tag protocol = TagAbandonRequest"
  proof (rule ccontr)
    assume "e_tag protocol \<noteq> TagAbandonRequest"
    then have "\<not> HasAbandonTarget g" using g
      by (auto simp: parse_operation_def bare_frame_def split: if_split_asm)
    with parse_result_abandon [OF r] assms(3) show False by simp
  qed
  have "f\<lparr>f_Raw := ?s\<rparr> = g" using r abandon
    by (simp add: parse_result_def isLDAPResultResponse_def wire_constants)
  moreover obtain t where "g = (bare_frame ?s (MessageID f) TagAbandonRequest (take k ?s) (drop k ?s) (Controls f))
      \<lparr>AbandonTarget := t, HasAbandonTarget := True\<rparr>"
    using g abandon by (auto simp: parse_operation_def wire_constants if_Err_Ok)
  ultimately have f: "f = bare_frame (f_Raw f) (MessageID f) TagAbandonRequest (ProtocolOp f) (ControlsRaw f) (Controls f)
      \<lparr>AbandonTarget := AbandonTarget f, HasAbandonTarget := True\<rparr>"
    by (cases f) (auto simp: bare_frame_def)
  have t: "parse_trailing_controls (ControlsRaw f) 0 (length (ControlsRaw f)) =
      Ok (ControlsRaw f, Controls f, length (ControlsRaw f))"
    using parse_body_trailing [OF p(7)] by simp
  obtain octets op where op: "encodeNonnegativeInteger target = Ok octets" "encodeTLV 0x50 octets = Ok op"
    "length op \<le> 12" and body: "parse_body U (op @ ControlsRaw f) i 0 (length (op @ ControlsRaw f)) =
      Ok ((bare_frame (op @ ControlsRaw f) i TagAbandonRequest op (ControlsRaw f) (Controls f))
       \<lparr>AbandonTarget := target, HasAbandonTarget := True\<rparr>)"
    by (rule abandon_body [OF assms(6,7) t])
  have len: "length op + length (ControlsRaw f) < 2 ^ 31" using op(3) p(3) assms(2) by simp
  obtain raw' where raw': "encodeFrame i op (ControlsRaw f) = Ok raw'"
    "\<And>limit'. int (length raw') \<le> normalizedMaximum limit' \<Longrightarrow> ParseFrame U raw' limit' =
      Ok ((bare_frame (op @ ControlsRaw f) i TagAbandonRequest op (ControlsRaw f) (Controls f))
       \<lparr>AbandonTarget := target, HasAbandonTarget := True, f_Raw := raw'\<rparr>)"
    using encoded_frame [OF assms(4,5) len body] by auto
  have "f\<lparr>f_Raw := raw', MessageID := i, ProtocolOp := op, AbandonTarget := target\<rparr> =
      (bare_frame (op @ ControlsRaw f) i TagAbandonRequest op (ControlsRaw f) (Controls f))
       \<lparr>AbandonTarget := target, HasAbandonTarget := True, f_Raw := raw'\<rparr>"
    by (subst f) (simp add: bare_frame_def)
  moreover have "rewriteAbandon f i target = Ok raw'"
    using assms(3-7) abandon tag p(4) op(1,2) raw'(1)
    by (simp add: rewriteAbandon_def validateMessageID_def)
  ultimately show ?thesis using raw'(2) by (intro exI [of _ raw'] exI [of _ op]) simp
qed


section \<open>Responses of the proxy\<close>

lemma response_tags:
  assumes "responseTagForRequest requestTag = Some tag"
  shows "drop_bit 6 (96 OR unat tag) = 1" "(96 OR unat tag) AND 32 \<noteq> 0" "(96 OR unat tag) AND 31 = unat tag"
    "96 OR unat tag < 256" "unat tag \<noteq> 31" "isLDAPResultResponse tag" "protocolConstructedForm tag = Some True"
    "tag \<noteq> TagBindRequest" "tag \<noteq> TagExtendedRequest" "tag \<noteq> TagAbandonRequest"
    "tag \<notin> set [TagSearchResultEntry, TagSearchResultReference, TagIntermediateResponse]"
proof -
  have "tag \<in> {1, 5, 7, 9, 11, 13, 15, 24}"
    using assms by (auto simp: responseTagForRequest_def Let_def wire_constants split: if_split_asm)
  then show "drop_bit 6 (96 OR unat tag) = 1" "(96 OR unat tag) AND 32 \<noteq> 0" "(96 OR unat tag) AND 31 = unat tag"
    "96 OR unat tag < 256" "unat tag \<noteq> 31" "isLDAPResultResponse tag" "protocolConstructedForm tag = Some True"
    "tag \<noteq> TagBindRequest" "tag \<noteq> TagExtendedRequest" "tag \<noteq> TagAbandonRequest"
    "tag \<notin> set [TagSearchResultEntry, TagSearchResultReference, TagIntermediateResponse]"
    by (auto simp: isLDAPResultResponse_def protocolConstructedForm_def wire_constants drop_bit_eq_div)
qed

lemma result_body:
  assumes tag: "responseTagForRequest requestTag = Some tag"
    and code: "0 \<le> code" "code \<le> MaxMessageID" and len: "length msg < 2 ^ 30"
  obtains codeOctets c m d content op where "encodeNonnegativeInteger code = Ok codeOctets"
    "encodeTLV 0x0a codeOctets = Ok c" "encodeTLV 0x04 [] = Ok m" "encodeTLV 0x04 msg = Ok d"
    "joinBER [c, m, d] = Ok content" "encodeTLV (0x60 OR unat tag) content = Ok op"
    "length op \<le> length msg + 100"
    "parse_body U op i 0 (length op) = Ok ((bare_frame op i tag op [] [])\<lparr>f_ResultCode := Some code\<rparr>)"
proof -
  have small: "MaxMessageID < 2 ^ 63" by (simp add: MaxMessageID_def)
  have big: "(2::nat) ^ 30 + 200 \<le> maximumInt" "(2::nat) ^ 30 + 200 < 256 ^ 4" by (simp_all add: maximumInt_def)
  obtain octets where octets: "encodeNonnegativeInteger code = Ok octets"
    "decodeNonnegativeInteger octets MaxMessageID = Ok code" "length octets \<le> 9"
    using encodeNonnegativeInteger_Ok [OF code small] by auto
  obtain ch where ch: "encodeTLV 10 octets = Ok (ch @ octets)" "tlv_head 10 ch octets" "length ch \<le> 1 + 2"
    by (rule encodeTLV_Ok [of octets 10 1]) (use octets(3) in \<open>simp_all add: maximumInt_def\<close>)
  obtain mh where mh: "encodeTLV 4 [] = Ok (mh @ [])" "tlv_head 4 mh []" "length mh \<le> 1 + 2"
    by (rule encodeTLV_Ok [of "[]" 4 1]) simp_all
  obtain dh where dh: "encodeTLV 4 msg = Ok (dh @ msg)" "tlv_head 4 dh msg" "length dh \<le> 4 + 2"
    by (rule encodeTLV_Ok [of msg 4 4]) (use len big in simp_all)
  define content where "content = ch @ octets @ mh @ dh @ msg"
  have cl: "length content \<le> length msg + 21" using octets(3) ch(3) mh(3) dh(3) by (simp add: content_def)
  note tags = response_tags [OF tag]
  obtain oh where oh: "encodeTLV (96 OR unat tag) content = Ok (oh @ content)"
    "tlv_head (96 OR unat tag) oh content" "length oh \<le> 4 + 2"
    by (rule encodeTLV_Ok [of content "96 OR unat tag" 4]) (use cl len big tags in simp_all)
  let ?e = "tlv_element (96 OR unat tag) (length oh) (length content)"
  have e: "parseElement (oh @ content) 0 = Ok (?e, length (oh @ content))"
    using tlv_headD(2) [OF oh(2)] by simp
  have fields: "e_tag ?e = tag" "constructed ?e" "e_class ?e = 1" "e_end ?e = length (oh @ content)"
    "contentStart ?e = length oh" using tags by simp_all
  have p: "parse_protocol (oh @ content) 0 = Ok (?e, length (oh @ content))"
    unfolding parse_protocol_def e using fields tags
    by (simp add: berClassApplication_def validateProtocolElement_def)
  have w: "whole_of (oh @ content) ?e = Ok (oh @ content)" using whole_of_no_panic [OF e] by simp
  have t: "parse_trailing_controls (oh @ content) (length (oh @ content)) (length (oh @ content)) =
      Ok ([], [], length (oh @ content))" by (simp add: parse_trailing_controls_def)
  have o': "parse_operation U (oh @ content) ?e f = Ok f" for f
    unfolding parse_operation_def fields using tags by simp
  have whole: "oh @ content = oh @ ch @ octets @ (mh @ dh @ msg)"
    "oh @ content = (oh @ ch @ octets) @ mh @ [] @ (dh @ msg)"
    "oh @ content = (oh @ ch @ octets @ mh) @ dh @ msg @ []" by (simp_all add: content_def)
  have el1: "parseElement (oh @ content) (length oh) =
      Ok (moved (length oh) (tlv_element 10 (length ch) (length octets)), length (oh @ ch @ octets))"
    using tlv_headD(3) [OF ch(2), of oh] whole(1) by simp
  have el2: "parseElement (oh @ content) (length (oh @ ch @ octets)) =
      Ok (moved (length (oh @ ch @ octets)) (tlv_element 4 (length mh) 0), length (oh @ ch @ octets @ mh))"
    using tlv_headD(3) [OF mh(2), of "oh @ ch @ octets"] whole(2) by simp
  have el3: "parseElement (oh @ content) (length (oh @ ch @ octets @ mh)) =
      Ok (moved (length (oh @ ch @ octets @ mh)) (tlv_element 4 (length dh) (length msg)), length (oh @ content))"
    using tlv_headD(3) [OF dh(2), of "oh @ ch @ octets @ mh" "[]"] whole(3) by (simp add: add.assoc)
  have c: "content_of (oh @ content) (moved (length oh) (tlv_element 10 (length ch) (length octets))) = Ok octets"
    using tlv_headD(4) [OF ch(2), of oh] whole(1) by simp
  have r: "result_fields (oh @ content) (length (oh @ content)) (length (oh @ content)) = Ok (length (oh @ content))"
    by (subst result_fields.simps) simp
  have pa1: "parse_as (oh @ content) (length oh) berClassUniversal False berTagEnumerated why =
      Ok (moved (length oh) (tlv_element 10 (length ch) (length octets)), length (oh @ ch @ octets))" for why
    by (simp only: parse_as_def el1 go.case prod.case) (simp add: elementIs_def ber_constants drop_bit_eq_div)
  have pa2: "parse_as (oh @ content) (length (oh @ ch @ octets)) berClassUniversal False berTagOctetString why =
      Ok (moved (length (oh @ ch @ octets)) (tlv_element 4 (length mh) 0), length (oh @ ch @ octets @ mh))" for why
    by (simp only: parse_as_def el2 go.case prod.case) (simp add: elementIs_def ber_constants drop_bit_eq_div)
  have pa3: "parse_as (oh @ content) (length (oh @ ch @ octets @ mh)) berClassUniversal False berTagOctetString why =
      Ok (moved (length (oh @ ch @ octets @ mh)) (tlv_element 4 (length dh) (length msg)), length (oh @ content))" for why
    by (simp only: parse_as_def el3 go.case prod.case) (simp add: elementIs_def ber_constants drop_bit_eq_div)
  have res: "parseLDAPResultCode (oh @ content) ?e = Ok code"
    by (simp only: parseLDAPResultCode_def fields not_True_eq_False if_False pa1 pa2 pa3 go_bind.simps
        prod.case c octets(2) go_wrap.simps r simp_thms)
  have "parse_body U (oh @ content) i 0 (length (oh @ content)) =
      Ok ((bare_frame (oh @ content) i tag (oh @ content) [] [])\<lparr>f_ResultCode := Some code\<rparr>)"
    unfolding parse_body_def p go_bind.simps prod.case w t o' parse_result_def fields(1) using tags(6) res by simp
  moreover have "joinBER [ch @ octets, mh @ [], dh @ msg] = Ok content"
    using joinBER_Ok [of "[ch @ octets, mh @ [], dh @ msg]"] cl len big(1) by (simp add: content_def)
  ultimately show ?thesis
    using octets(1) ch(1) mh(1) dh(1) oh(1,3) cl by (intro that [of octets "ch @ octets" "mh @ []" "dh @ msg" content "oh @ content"]) simp_all
qed

text \<open>
  C34: For every request kind that has a response, every result code and diagnostic message in range,
  the proxy's own response is a message that parses, under the request's identifier, to the response
  of that kind with that result code and no controls; it is final, except for a bind response that
  says the bind is still in progress.
\<close>

theorem error_response_parses:
  assumes "0 \<le> i" "i \<le> MaxMessageID" "0 \<le> code" "code \<le> MaxMessageID"
    and "utf8_Valid msg" "length msg < 2 ^ 30" "responseTagForRequest requestTag = Some tag"
  shows "\<exists>raw op. EncodeErrorResponse i requestTag code msg = Ok raw \<and>
    (\<forall>limit. int (length raw) \<le> normalizedMaximum limit \<longrightarrow>
      ParseFrame U raw limit = Ok ((bare_frame raw i tag op [] [])\<lparr>f_ResultCode := Some code\<rparr>)) \<and>
    (IsFinalResponse ((bare_frame raw i tag op [] [])\<lparr>f_ResultCode := Some code\<rparr>) \<longleftrightarrow>
      tag \<noteq> TagBindResponse \<or> code \<noteq> ResultSASLBindInProgress)"
proof -
  obtain codeOctets c m d content op where r: "encodeNonnegativeInteger code = Ok codeOctets"
    "encodeTLV 0x0a codeOctets = Ok c" "encodeTLV 0x04 [] = Ok m" "encodeTLV 0x04 msg = Ok d"
    "joinBER [c, m, d] = Ok content" "encodeTLV (0x60 OR unat tag) content = Ok op"
    "length op \<le> length msg + 100"
    and body: "parse_body U op i 0 (length op) = Ok ((bare_frame op i tag op [] [])\<lparr>f_ResultCode := Some code\<rparr>)"
    by (rule result_body [OF assms(7,3,4,6)])
  have len: "length op + length [] < 2 ^ 31" using r(7) assms(6) by simp
  have body: "parse_body U (op @ []) i 0 (length (op @ [])) = Ok ((bare_frame op i tag op [] [])\<lparr>f_ResultCode := Some code\<rparr>)"
    using body by simp
  obtain raw where raw: "encodeFrame i op [] = Ok raw"
    "\<And>limit. int (length raw) \<le> normalizedMaximum limit \<Longrightarrow> ParseFrame U raw limit =
      Ok ((bare_frame op i tag op [] [])\<lparr>f_ResultCode := Some code\<rparr>\<lparr>f_Raw := raw\<rparr>)"
    using encoded_frame [OF assms(1,2) len body] by auto
  have "(bare_frame op i tag op [] [])\<lparr>f_ResultCode := Some code\<rparr>\<lparr>f_Raw := raw\<rparr> =
      (bare_frame raw i tag op [] [])\<lparr>f_ResultCode := Some code\<rparr>"
    by (simp add: bare_frame_def)
  moreover have "EncodeErrorResponse i requestTag code msg = Ok raw"
    using assms r(1-6) raw(1) by (simp add: EncodeErrorResponse_def validateMessageID_def)
  moreover have "IsFinalResponse ((bare_frame raw i tag op [] [])\<lparr>f_ResultCode := Some code\<rparr>) \<longleftrightarrow>
      tag \<noteq> TagBindResponse \<or> code \<noteq> ResultSASLBindInProgress"
    using response_tags(11) [OF assms(7)] by (simp add: IsFinalResponse_def bare_frame_def)
  ultimately show ?thesis using raw(2) by (intro exI [of _ raw] exI [of _ op]) simp
qed

section \<open>Proxied identities\<close>

lemma proxy_oid: "parseNumericOID ProxyAuthzControlOID = Ok ProxyAuthzControlOID" "length ProxyAuthzControlOID = 24"
  by (simp_all add: parseNumericOID_eq ProxyAuthzControlOID_def)

text \<open>The control that carries the identity, in front of others.\<close>

lemma proxy_control_Ok:
  assumes len: "length authzID < 2 ^ 30"
  obtains pc where "proxy_control authzID = Ok pc" "length pc \<le> length authzID + 100" "suffix authzID pc"
    "\<And>rest. parse_control (pc @ rest) 0 = Ok (\<lparr>OID = ProxyAuthzControlOID, Critical = True, HasValue = True,
       c_Raw = pc\<rparr>, length pc)"
proof -
  have big: "(2::nat) ^ 30 + 200 \<le> maximumInt" "(2::nat) ^ 30 + 200 < 256 ^ 4" by (simp_all add: maximumInt_def)
  obtain xh where xh: "encodeTLV 4 ProxyAuthzControlOID = Ok (xh @ ProxyAuthzControlOID)"
    "tlv_head 4 xh ProxyAuthzControlOID" "length xh \<le> 1 + 2"
    by (rule encodeTLV_Ok [of ProxyAuthzControlOID 4 1]) (simp_all add: proxy_oid maximumInt_def)
  obtain bh where bh: "encodeTLV 1 [CHR 0xFF] = Ok (bh @ [CHR 0xFF])" "tlv_head 1 bh [CHR 0xFF]" "length bh \<le> 1 + 2"
    by (rule encodeTLV_Ok [of "[CHR 0xFF]" 1 1]) (simp_all add: maximumInt_def)
  obtain vh where vh: "encodeTLV 4 authzID = Ok (vh @ authzID)" "tlv_head 4 vh authzID" "length vh \<le> 4 + 2"
    by (rule encodeTLV_Ok [of authzID 4 4]) (use len big in simp_all)
  let ?oid = "ProxyAuthzControlOID" and ?b = "[CHR 0xFF]"
  define content where "content = xh @ ?oid @ bh @ ?b @ vh @ authzID"
  have cl: "length content \<le> length authzID + 37" using xh(3) bh(3) vh(3) by (simp add: content_def proxy_oid)
  obtain sh where sh: "encodeTLV 48 content = Ok (sh @ content)" "tlv_head 48 sh content" "length sh \<le> 4 + 2"
    by (rule encodeTLV_Ok [of content 48 4]) (use cl len big in simp_all)
  let ?s = "tlv_element 48 (length sh) (length content)"
  let ?x = "moved (length sh) (tlv_element 4 (length xh) (length ?oid))"
  let ?e = "moved (length (sh @ xh @ ?oid)) (tlv_element 1 (length bh) (length ?b))"
  let ?v = "moved (length (sh @ xh @ ?oid @ bh @ ?b)) (tlv_element 4 (length vh) (length authzID))"
  have parse: "parse_control ((sh @ content) @ rest) 0 = Ok (\<lparr>OID = ?oid, Critical = True, HasValue = True,
       c_Raw = sh @ content\<rparr>, length (sh @ content))" for rest
  proof -
    define raw where "raw = (sh @ content) @ rest"
    have w: "raw = sh @ xh @ ?oid @ (bh @ ?b @ vh @ authzID @ rest)"
      "raw = (sh @ xh @ ?oid) @ bh @ ?b @ (vh @ authzID @ rest)"
      "raw = (sh @ xh @ ?oid @ bh @ ?b) @ vh @ authzID @ rest" "raw = sh @ content @ rest"
      by (simp_all add: content_def raw_def)
    have s: "parseElement raw 0 = Ok (?s, length (sh @ content))"
      unfolding w(4) using tlv_headD(1) [OF sh(2), of rest] by simp
    have x: "parseElement raw (length sh) = Ok (?x, length (sh @ xh @ ?oid))"
      unfolding w(1) using tlv_headD(3) [OF xh(2), of sh] by simp
    have e: "parseElement raw (length (sh @ xh @ ?oid)) = Ok (?e, length (sh @ xh @ ?oid @ bh @ ?b))"
      unfolding w(2) using tlv_headD(3) [OF bh(2), of "sh @ xh @ ?oid"] by simp
    have v: "parseElement raw (length (sh @ xh @ ?oid @ bh @ ?b)) = Ok (?v, length (sh @ content))"
      unfolding w(3) using tlv_headD(3) [OF vh(2), of "sh @ xh @ ?oid @ bh @ ?b" rest]
      by (simp add: content_def add.assoc)
    have cx: "content_of raw ?x = Ok ?oid" unfolding w(1) by (rule tlv_headD(4) [OF xh(2)])
    have ws: "whole_of raw ?s = Ok (sh @ content)" using whole_of_no_panic [OF s] by (simp add: raw_def)
    have kinds: "elementIs ?s berClassUniversal True berTagSequence" "elementIs ?x berClassUniversal False berTagOctetString"
      "elementIs ?e berClassUniversal False berTagBoolean" "elementIs ?v berClassUniversal False berTagOctetString"
      by (simp_all add: elementIs_def ber_constants drop_bit_eq_div)
    have lt: "length (sh @ xh @ ?oid) < length (sh @ content)" "length (sh @ xh @ ?oid @ bh @ ?b) < length (sh @ content)"
      using vh(2) by (auto simp: content_def tlv_head_def)
    have be: "e_end ?e - contentStart ?e = 1" "ord (raw ! contentStart ?e) \<noteq> 0"
      unfolding w(2) by (simp_all add: nth_append)
    have ends: "e_end ?s = length (sh @ content)" "contentStart ?s = length sh" by simp_all
    have crit: "parse_criticality raw (length (sh @ xh @ ?oid)) (length (sh @ content)) =
        Ok (True, length (sh @ xh @ ?oid @ bh @ ?b))"
      unfolding parse_criticality_eq e go_wrap.simps go_bind.simps prod.case using lt be kinds by simp
    have val: "parse_control_value raw (length (sh @ xh @ ?oid @ bh @ ?b)) (length (sh @ content)) =
        Ok (True, length (sh @ content))"
      unfolding parse_control_value_def parse_as_def v go.case prod.case using lt kinds by simp
    show ?thesis
      unfolding parse_control_def parse_as_def raw_def [symmetric] s go_wrap.simps go_bind.simps prod.case ends x go.case
      by (simp only: kinds not_True_eq_False if_True if_False go_bind.simps prod.case cx go_wrap.simps proxy_oid(1)
          ws crit val simp_thms)
  qed
  have "joinBER [xh @ ?oid, bh @ ?b, vh @ authzID] = Ok content"
    using joinBER_Ok [of "[xh @ ?oid, bh @ ?b, vh @ authzID]"] cl len big(1) by (simp add: content_def)
  then have "proxy_control authzID = Ok (sh @ content)"
    using xh(1) bh(1) vh(1) sh(1) by (simp add: proxy_control_def)
  moreover have "suffix authzID (sh @ content)" by (simp add: content_def suffix_def)
  ultimately show ?thesis using parse cl sh(3) by (intro that [of "sh @ content"]) simp_all
qed

lemma controls_in_front:
  assumes pc: "\<And>rest. parse_control (pc @ rest) 0 = Ok (control, length pc)" "pc \<noteq> []"
    and old: "parse_trailing_controls cr 0 (length cr) = Ok (cr, cs, length cr)"
    and small: "length cr + length pc < 2 ^ 31"
  obtains content cr' where "(if cr \<noteq> [] then go_bind (preserved_controls cr) (\<lambda>preserved. joinBER [pc, preserved])
      else Ok pc) = Ok content"
    "encodeTLV 0xa0 content = Ok cr'" "length cr' \<le> length cr + length pc + 6"
    "parse_trailing_controls cr' 0 (length cr') = Ok (cr', control # cs, length cr')"
proof -
  have big: "(2::nat) ^ 31 + 200 \<le> maximumInt" "(2::nat) ^ 31 + 200 < 256 ^ 4" by (simp_all add: maximumInt_def)
  have "\<exists>preserved. (if cr \<noteq> [] then go_bind (preserved_controls cr) (\<lambda>preserved. joinBER [pc, preserved])
      else Ok pc) = Ok (pc @ preserved) \<and> length preserved \<le> length cr
      \<and> control_loop preserved 0 (length preserved) = Ok cs"
  proof (cases "cr = []")
    case True
    with old have "cs = []" by (simp add: parse_trailing_controls_def)
    with True show ?thesis by (intro exI [of _ "[]"]) (subst control_loop.simps, simp)
  next
    case False
    then obtain w where w: "parseElement cr 0 = Ok (w, length cr)" and c: "parseControls cr w = Ok cs"
      using old by (auto simp: parse_trailing_controls_def if_Err_Ok)
    note b = parseElement_Ok [OF w]
    define preserved where "preserved = drop (contentStart w) cr"
    have k: "elementIs w berClassContext True 0" and l: "control_loop cr (contentStart w) (length cr) = Ok cs"
      using c b by (auto simp: parseControls_def if_Err_Ok)
    have "preserved_controls cr = Ok preserved"
      using w k content_of_no_panic [OF w] b by (simp add: preserved_controls_def elementIs_def preserved_def)
    moreover have "joinBER [pc, preserved] = Ok (pc @ preserved)"
      using joinBER_Ok [of "[pc, preserved]"] small big(1) by (simp add: preserved_def)
    moreover have "control_loop preserved 0 (length preserved) = Ok cs"
      using control_loop_shift [of "take (contentStart w) cr" preserved 0 "length preserved"] l b
      by (simp add: preserved_def min_absorb2)
    ultimately show ?thesis using False by (intro exI [of _ preserved]) (simp add: preserved_def)
  qed
  then obtain preserved where p: "(if cr \<noteq> [] then go_bind (preserved_controls cr) (\<lambda>preserved. joinBER [pc, preserved])
      else Ok pc) = Ok (pc @ preserved)" "length preserved \<le> length cr"
      "control_loop preserved 0 (length preserved) = Ok cs" by blast
  obtain h where h: "encodeTLV 0xa0 (pc @ preserved) = Ok (h @ pc @ preserved)" "tlv_head 0xa0 h (pc @ preserved)"
    "length h \<le> 4 + 2"
    by (rule encodeTLV_Ok [of "pc @ preserved" "0xa0" 4]) (use p(2) small big in simp_all)
  let ?w = "tlv_element 0xa0 (length h) (length (pc @ preserved))"
  have e: "parseElement (h @ pc @ preserved) 0 = Ok (?w, length (h @ pc @ preserved))"
    using tlv_headD(2) [OF h(2)] by simp
  have "control_loop (h @ pc @ preserved) (length h) (length (h @ pc @ preserved)) =
      control_loop (pc @ preserved) 0 (length (pc @ preserved))"
    using control_loop_shift [of h "pc @ preserved" 0 "length (pc @ preserved)"] by simp
  also have "\<dots> = Ok (control # cs)"
    using pc p(3) control_loop_shift [of pc preserved 0 "length preserved"]
    by (subst control_loop.simps) simp
  finally have "parseControls (h @ pc @ preserved) ?w = Ok (control # cs)"
    using pc(2) by (simp add: parseControls_def elementIs_def berClassContext_def drop_bit_eq_div)
  moreover have "whole_of (h @ pc @ preserved) ?w = Ok (h @ pc @ preserved)"
    using whole_of_no_panic [OF e] by simp
  moreover have "0 < length (h @ pc @ preserved)" using pc(2) by simp
  ultimately have "parse_trailing_controls (h @ pc @ preserved) 0 (length (h @ pc @ preserved)) =
      Ok (h @ pc @ preserved, control # cs, length (h @ pc @ preserved))"
    by (simp only: parse_trailing_controls_def e go_wrap.simps go_bind.simps prod.case if_True if_False simp_thms)
  with p h show ?thesis by (intro that [of "pc @ preserved" "h @ pc @ preserved"]) simp_all
qed


section \<open>Messages on a connection\<close>

lemma read_length_octets_eq:
  assumes "2 \<le> length raw" "raw ! 0 = CHR 0x30"
    and length_octets: "ord (raw ! 1) < 128 \<and> k = 2 \<or>
      \<not> ord (raw ! 1) < 128 \<and> ord (raw ! 1) AND 127 = k - 2 \<and> 2 < k \<and> k \<le> 6"
    and "k \<le> length raw"
  shows "read_length_octets (take 2 raw) \<lparr>pending = drop 2 raw @ rest, closing = c\<rparr> =
    Ok (take k raw, \<lparr>pending = drop k raw @ rest, closing = c\<rparr>)"
proof -
  have n: "take 2 raw ! 1 = raw ! 1" and two: "1 < length (take 2 raw)" using assms(1) by simp_all
  show ?thesis
  proof (cases "ord (raw ! 1) < 128")
    case True
    with length_octets have "k = 2" by auto
    with True show ?thesis by (simp add: read_length_octets_plain [OF two] n)
  next
    case False
    with length_octets have k: "ord (raw ! 1) AND 127 = k - 2" "2 < k" "k \<le> 6" by auto
    have "take 2 raw @ take (k - 2) (drop 2 raw) = take k raw"
      using k by (metis add_diff_inverse_nat less_imp_le not_less take_add)
    moreover have "k - 2 + 2 = k" using k by simp
    then have "drop (k - 2) (drop 2 raw) = drop k raw" by (simp only: drop_drop)
    moreover have "k - 2 \<le> length raw + length rest - 2" "\<not> 4 < k - 2" using k assms(4) by linarith+
    ultimately show ?thesis
      using False k assms(4) by (simp add: read_length_octets_plain [OF two] n ReadFull_def maxOuterLengthOctets_def Let_def)
  qed
qed

lemma read_frame_iff:
  assumes "limit \<le> int maximumInt"
  shows "ReadFrame U (Some \<lparr>pending = s, closing = c\<rparr>) limit = Ok (f, r) \<longleftrightarrow>
    (\<exists>raw rest. s = raw @ rest \<and> r = \<lparr>pending = rest, closing = c\<rparr> \<and> ParseFrame U raw limit = Ok f)"
proof
  let ?m = "normalizedMaximum limit"
  assume read: "ReadFrame U (Some \<lparr>pending = s, closing = c\<rparr>) limit = Ok (f, r)"
  then have two: "2 \<le> length s"
    by (auto simp: ReadFrame_eq Let_def ReadFull_def split: if_split_asm)
  from read obtain header r1 n where h: "read_length_octets (take 2 s) \<lparr>pending = drop 2 s, closing = c\<rparr> = Ok (header, r1)"
    and n: "n \<le> length (pending r1)" "r = r1\<lparr>pending := drop n (pending r1)\<rparr>"
    and l: "\<not> (?m < int n \<or> ?m - int n < int (length header))"
    and f: "parseOwnedFrame U (header @ take n (pending r1)) ?m = Ok f"
    by (simp only: ReadFrame_eq Let_def option.case go_bind_eq_Ok if_Err_Ok if_else_Err_Ok ReadFull_def
        split_paired_Ex prod.case go.inject reader.select_convs prod.inject) fastforce
  have inside: "1 < length (take 2 s)" using two by simp
  obtain k where k: "header = take k s" "r1 = \<lparr>pending = drop k s, closing = c\<rparr>"
  proof (cases "ord (take 2 s ! 1) AND 128 = 0")
    case True
    with h show ?thesis by (intro that [of 2]) (auto simp: read_length_octets_plain [OF inside])
  next
    case False
    have two: "take 2 s @ take m (drop 2 s) = take (Suc (Suc m)) s" for m using take_add [of 2 m s] by simp
    from False h show ?thesis
      by (intro that [of "2 + (ord (take 2 s ! 1) AND 127)"])
        (auto simp: read_length_octets_plain [OF inside] Let_def if_Err_Ok ReadFull_def two split: if_split_asm)
  qed
  define content where "content = take n (drop k s)"
  have "s = (header @ content) @ drop n (drop k s)"
    unfolding content_def k(1) by (simp only: append.assoc append_take_drop_id)
  moreover have "ParseFrame U (header @ content) limit = Ok f"
    using l f k n(1) by (simp add: ParseFrame_def Let_def content_def)
  ultimately show "\<exists>raw rest. s = raw @ rest \<and> r = \<lparr>pending = rest, closing = c\<rparr> \<and> ParseFrame U raw limit = Ok f"
    using n(2) k(2) by (intro exI [of _ "header @ content"] exI [of _ "drop n (drop k s)"]) simp
next
  let ?m = "normalizedMaximum limit"
  assume "\<exists>raw rest. s = raw @ rest \<and> r = \<lparr>pending = rest, closing = c\<rparr> \<and> ParseFrame U raw limit = Ok f"
  then obtain raw rest where s: "s = raw @ rest" "r = \<lparr>pending = rest, closing = c\<rparr>"
    and parse: "ParseFrame U raw limit = Ok f" by blast
  have p: "parseOwnedFrame U raw ?m = Ok f" and len: "int (length raw) \<le> ?m"
    using parse by (auto simp: ParseFrame_def Let_def if_Err_Ok)
  obtain outer where "parse_outer raw = Ok outer" by (rule parseOwnedFrame_Ok [OF p])
  note out = parse_outer_Ok [OF this]
  define k where "k = contentStart outer"
  obtain n where n: "parseBERLength raw 1 = Ok (n, k)" "k + unat n = length raw"
    using out(1,2,5) by (auto simp: parseElement_eq k_def if_Err_Ok)
  note kb = parseBERLength_Ok [OF n(1)]
  have octets: "ord (raw ! 1) < 128 \<and> k = 2 \<or>
      \<not> ord (raw ! 1) < 128 \<and> ord (raw ! 1) AND 127 = k - 2 \<and> 2 < k \<and> k \<le> 6"
    using n(1) out(6) by (auto simp: parseBERLength_eq Let_def if_Err_Ok split: if_split_asm)
  have "2 \<le> length raw" using kb by simp
  note header = read_length_octets_eq [OF this out(3) octets]
  have head: "parseBERLength (take k raw) 1 = Ok (n, length (take k raw))"
    using parseBERLength_prefix [OF n(1), of k "[]"] kb by simp
  have big: "int (length raw) \<le> int maximumInt"
    using len assms by (simp add: normalizedMaximum_def DefaultMaxFrameSize_def maximumInt_def split: if_split_asm)
  have two: "ReadFull \<lparr>pending = s, closing = c\<rparr> 2 = Ok (take 2 raw, \<lparr>pending = drop 2 raw @ rest, closing = c\<rparr>)"
    using \<open>2 \<le> length raw\<close> s(1) by (simp add: ReadFull_def)
  have ch: "take 2 raw ! 0 = CHR 0x30" using out(3) by simp
  have all: "ReadFull \<lparr>pending = drop k raw @ rest, closing = c\<rparr> (unat n) = Ok (drop k raw, r)"
    using n(2) s(2) kb by (simp add: ReadFull_def)
  have total: "int k + uint n = int (length raw)" using n(2) by (metis of_nat_add uint_nat)
  have bounds: "\<not> (?m < int (unat n) \<or> ?m - int (unat n) < int (length (take k raw)))"
    "\<not> maximumInt - length (take k raw) < unat n"
    using total n(2) len big kb by auto
  have app: "take k raw @ drop k raw = raw" by simp
  show "ReadFrame U (Some \<lparr>pending = s, closing = c\<rparr>) limit = Ok (f, r)"
    using header kb
    by (simp only: ReadFrame_eq Let_def option.case two go_bind.simps prod.case ch simp_thms if_False head bounds all
        app p not_True_eq_False)
qed


section \<open>Totality\<close>

lemma parse_as_no_panic [simp]: "parse_as raw k cls con tag why \<noteq> Panic"
  by (auto simp: parse_as_def split: go.splits)

lemma parseNumericOID_no_panic [simp]: "parseNumericOID raw \<noteq> Panic"
  by (auto simp: parseNumericOID_eq split: option.split)

lemma content_of_parsed [simp]:
  "parseElement raw k = Ok (element, n) \<Longrightarrow> content_of raw element \<noteq> Panic"
  "parseElement raw k = Ok (element, n) \<Longrightarrow> whole_of raw element \<noteq> Panic"
  by (auto dest: content_of_no_panic whole_of_no_panic)

lemma if_Err_Panic: "(if b then Err e else m) = Panic \<longleftrightarrow> \<not> b \<and> m = Panic"
  "(if b then Ok x else m) = Panic \<longleftrightarrow> \<not> b \<and> m = Panic"
  "(if b then m else Ok x) = Panic \<longleftrightarrow> b \<and> m = Panic"
  "(if b then m else Err e) = Panic \<longleftrightarrow> b \<and> m = Panic"
  by auto

lemma case_go_Panic: "(case m of Ok x \<Rightarrow> f x | Err e \<Rightarrow> Err (g e) | Panic \<Rightarrow> Panic) = Panic \<longleftrightarrow>
    m = Panic \<or> (\<exists>x. m = Ok x \<and> f x = Panic)"
  by (cases m) auto

lemmas panic_simps = if_Err_Panic case_go_Panic parse_as_Ok split_paired_Ex

lemma parse_control_no_panic [simp]: "parse_control raw k \<noteq> Panic"
  by (auto simp: parse_control_def parse_criticality_eq parse_control_value_def panic_simps dest: content_of_parsed)

lemma control_loop_no_panic [simp]: "control_loop raw k e \<noteq> Panic"
proof (induction raw k e rule: control_loop.induct)
  case (1 raw k e)
  then show ?case by (subst control_loop.simps) (auto simp: case_go_Panic)
qed

lemma parse_sasl_no_panic [simp]: "parse_sasl U raw a m \<noteq> Panic"
  by (auto simp: parse_sasl_def Let_def panic_simps dest: content_of_parsed)

lemma parseBindMetadata_no_panic [simp]: "parseBindMetadata U raw p \<noteq> Panic"
  by (auto simp: parseBindMetadata_def Let_def panic_simps dest: content_of_parsed)

lemma parseExtendedRequestMetadata_no_panic [simp]: "parseExtendedRequestMetadata raw p \<noteq> Panic"
  by (auto simp: parseExtendedRequestMetadata_def panic_simps dest: content_of_parsed)

lemma result_fields_no_panic [simp]: "result_fields raw k e \<noteq> Panic"
proof (induction raw k e rule: result_fields.induct)
  case (1 raw k e)
  then show ?case by (subst result_fields.simps) (auto simp: case_go_Panic)
qed

lemma parseLDAPResultCode_no_panic [simp]: "parseLDAPResultCode raw p \<noteq> Panic"
  by (auto simp: parseLDAPResultCode_def panic_simps dest: content_of_parsed)

lemma parse_message_id_no_panic [simp]: "parse_message_id raw k \<noteq> Panic"
  by (auto simp: parse_message_id_def panic_simps dest: content_of_parsed)

lemma parse_body_no_panic [simp]: "parse_body U raw i c e \<noteq> Panic"
  by (auto simp: parse_body_def parse_protocol_def validateProtocolElement_def parse_trailing_controls_def
      parseControls_def parse_operation_def parse_result_def panic_simps dest: content_of_parsed
      split: option.splits if_split_asm)

lemma parseOwnedFrame_no_panic [simp]: "parseOwnedFrame U raw limit \<noteq> Panic"
  by (auto simp: parseOwnedFrame_def parse_outer_eq panic_simps)


section \<open>Object identifiers\<close>

definition arc_ok :: "bytes \<Rightarrow> bool" where
  "arc_ok a \<longleftrightarrow> a \<noteq> [] \<and> list_all is_digit a \<and> (1 < length a \<longrightarrow> a ! 0 \<noteq> CHR ''0'')"

lemma Split_not_found: "sep \<notin> set s \<Longrightarrow> Split sep s = [s]"
  using Cut_not_found [of sep s s "[]"] by (simp add: Split_Cut)

lemma Split_found: "sep \<notin> set b \<Longrightarrow> Split sep (b @ sep # a) = b # Split sep a"
  using Cut_found [of sep "b @ sep # a" b a] by (simp add: Split_Cut)

lemma Split_nonempty [simp]: "Split sep s \<noteq> []"
  by (subst Split.simps) (simp split: prod.split)

lemma suffix_last_Split: "suffix (last (Split sep s)) s"
proof (induction s rule: length_induct)
  case (1 s)
  show ?case
  proof (cases "sep \<in> set s")
    case True
    then obtain b a where s: "s = b @ sep # a" "sep \<notin> set b" by (meson split_list_first)
    with "1.IH" have "suffix (last (Split sep a)) a" by simp
    then have "suffix (last (Split sep a)) (b @ sep # a)"
      by (meson suffix_ConsI suffix_appendI)
    with s show ?thesis by (simp add: Split_found)
  qed (simp add: Split_not_found)
qed

lemma last_Split_empty: "last (Split sep s) = [] \<Longrightarrow> s \<noteq> [] \<Longrightarrow> last s = sep"
proof (induction s rule: length_induct)
  case (1 s)
  show ?case
  proof (cases "sep \<in> set s")
    case True
    then obtain b a where s: "s = b @ sep # a" "sep \<notin> set b" by (meson split_list_first)
    with "1" show ?thesis by (cases "a = []") (auto simp: Split_found)
  qed (use "1.prems" in \<open>simp add: Split_not_found\<close>)
qed

lemma digit_bounds: "is_digit v \<longleftrightarrow> \<not> (v < CHR ''0'' \<or> CHR ''9'' < v)"
  by (auto simp: is_digit_def less_char_def not_less)

lemma dot_not_digit: "list_all is_digit s \<Longrightarrow> CHR ''.'' \<notin> set s"
  by (auto simp: list_all_iff is_digit_def)

text \<open>The loop has read \<open>front\<close> and \<open>seg\<close>, the segment that is not ended yet.\<close>

lemma oid_scan_Split:
  "list_all is_digit seg \<Longrightarrow>
   oid_scan (front @ seg @ rest) rest (length (front @ seg)) (length front) dots =
     (let arcs = Split (CHR ''.'') (seg @ rest) in
      if list_all arc_ok (butlast arcs) \<and> list_all is_digit (last arcs)
      then Some (length (front @ seg @ rest) - length (last arcs), dots + length arcs - 1) else None)"
proof (induction rest arbitrary: front seg dots)
  case Nil
  then show ?case by (simp add: Split_not_found dot_not_digit Let_def)
next
  case (Cons v rest)
  show ?case
  proof (cases "v = CHR ''.''")
    case True
    have split: "Split (CHR ''.'') (seg @ CHR ''.'' # rest) = seg # Split (CHR ''.'') rest"
      using dot_not_digit [OF Cons.prems] by (simp add: Split_found)
    have bad: "(length (front @ seg) = length front \<or> 1 < length (front @ seg) - length front
        \<and> (front @ seg @ CHR ''.'' # rest) ! length front = CHR ''0'') \<longleftrightarrow> \<not> arc_ok seg"
      using Cons.prems by (cases seg) (auto simp: arc_ok_def nth_append)
    have rest_loop: "oid_scan (front @ seg @ CHR ''.'' # rest) rest (length (front @ seg) + 1) (length (front @ seg) + 1) (dots + 1) =
        (if list_all arc_ok (butlast (Split (CHR ''.'') rest)) \<and> list_all is_digit (last (Split (CHR ''.'') rest))
         then Some (length (front @ seg @ CHR ''.'' # rest) - length (last (Split (CHR ''.'') rest)),
           dots + length (Split (CHR ''.'') rest)) else None)"
      using Cons.IH [of "[]" "front @ seg @ [CHR ''.'']" "dots + 1"] by (simp add: Let_def)
    show ?thesis
      unfolding True oid_scan.simps simp_thms if_True bad rest_loop split Let_def by simp
  next
    case False
    show ?thesis
    proof (cases "is_digit v")
      case True
      with False Cons.IH [of "seg @ [v]" front dots] Cons.prems digit_bounds [of v] show ?thesis
        by (simp add: Let_def)
    next
      case no: False
      have "\<not> (list_all arc_ok (butlast (Split (CHR ''.'') (seg @ v # rest)))
          \<and> list_all is_digit (last (Split (CHR ''.'') (seg @ v # rest))))"
      proof -
        obtain more where "hd (Split (CHR ''.'') (seg @ v # rest)) = seg @ v # more"
        proof (cases "CHR ''.'' \<in> set rest")
          case True
          then obtain b a where "rest = b @ CHR ''.'' # a" "CHR ''.'' \<notin> set b" by (meson split_list_first)
          with False dot_not_digit [OF Cons.prems] Split_found [of "CHR ''.''" "seg @ v # b" a] that show ?thesis
            by simp
        next
          case no_dot: False
          with False dot_not_digit [OF Cons.prems] that show ?thesis by (simp add: Split_not_found)
        qed
        then have "\<not> list_all is_digit (hd (Split (CHR ''.'') (seg @ v # rest)))" using no by simp
        then show ?thesis
          by (cases "Split (CHR ''.'') (seg @ v # rest)") (auto simp: arc_ok_def split: if_splits)
      qed
      with no False show ?thesis using digit_bounds [of v] by (auto simp: Let_def)
    qed
  qed
qed

text \<open>
  Which object identifiers are accepted: at least two arcs, each a decimal number without a leading
  zero.
\<close>

theorem numeric_oid_iff:
  "parseNumericOID raw = Ok oid \<longleftrightarrow> oid = raw \<and> 2 \<le> length (Split (CHR ''.'') raw)
     \<and> list_all arc_ok (Split (CHR ''.'') raw)"
proof -
  define arcs where "arcs = Split (CHR ''.'') raw"
  have "arcs \<noteq> []" by (simp add: arcs_def)
  then have arcs: "arcs = butlast arcs @ [last arcs]" by simp
  have loop: "oid_scan raw raw 0 0 0 =
      (if list_all arc_ok (butlast arcs) \<and> list_all is_digit (last arcs)
       then Some (length raw - length (last arcs), length arcs - 1) else None)"
    using oid_scan_Split [of "[]" "[]" raw 0] by (simp add: arcs_def Let_def)
  have shape: "3 \<le> length raw \<and> raw ! 0 \<noteq> CHR ''.'' \<and> raw ! (length raw - 1) \<noteq> CHR ''.''"
    if ok: "2 \<le> length arcs" "\<forall>arc\<in>set arcs. arc_ok arc"
  proof -
    obtain b a where raw: "raw = b @ CHR ''.'' # a" "CHR ''.'' \<notin> set b" "arcs = b # Split (CHR ''.'') a"
    proof (cases "CHR ''.'' \<in> set raw")
      case True
      then obtain b a where "raw = b @ CHR ''.'' # a" "CHR ''.'' \<notin> set b" by (meson split_list_first)
      with that show ?thesis by (simp add: arcs_def Split_found)
    next
      case False
      with ok(1) show ?thesis by (simp add: arcs_def Split_not_found)
    qed
    have b: "b \<noteq> []" using ok(2) raw(3) by (auto simp: arc_ok_def)
    have la: "arc_ok (last (Split (CHR ''.'') a))" using ok(2) raw(3) by simp
    obtain z y where a: "a = z @ y" "y \<noteq> []" "list_all is_digit y"
      using la suffix_last_Split [of "CHR ''.''" a] by (auto simp: arc_ok_def suffix_def)
    have "raw ! (length raw - 1) = last raw" "raw ! 0 = hd raw" using raw by (simp_all add: last_conv_nth hd_conv_nth)
    moreover have "last raw \<in> set y" "hd raw \<in> set b" using raw a b by simp_all
    ultimately show ?thesis using raw b a dot_not_digit [OF a(3)] by (cases b; cases y) auto
  qed
  have last_ok: "arc_ok (last arcs) \<longleftrightarrow> list_all is_digit (last arcs) \<and> last arcs \<noteq> []
      \<and> \<not> (1 < length raw - (length raw - length (last arcs)) \<and> raw ! (length raw - length (last arcs)) = CHR ''0'')"
  proof -
    obtain z where raw: "raw = z @ last arcs"
      using suffix_last_Split [of "CHR ''.''" raw] by (auto simp: arcs_def suffix_def)
    then have "length raw - length (last arcs) = length z" "last arcs \<noteq> [] \<Longrightarrow> raw ! length z = last arcs ! 0"
      by (metis add_diff_cancel_right' length_append, metis nth_append_length_plus add_0_right)
    then show ?thesis using raw by (auto simp: arc_ok_def)
  qed
  have all: "(\<forall>arc\<in>set arcs. arc_ok arc) \<longleftrightarrow> list_all arc_ok (butlast arcs) \<and> arc_ok (last arcs)"
    by (subst arcs) (auto simp: list_all_iff)
  have two: "length arcs - 1 = 0 \<longleftrightarrow> \<not> 2 \<le> length arcs" using \<open>arcs \<noteq> []\<close> by (cases arcs; cases "tl arcs") auto
  have last_empty: "last arcs = [] \<Longrightarrow> raw = [] \<or> raw ! (length raw - 1) = CHR ''.''"
    using last_Split_empty [of "CHR ''.''" raw] by (auto simp: arcs_def last_conv_nth)
  show ?thesis
    unfolding arcs_def [symmetric] list_all_iff [of arc_ok arcs]
  proof
    assume "parseNumericOID raw = Ok oid"
    then have "oid = raw" "list_all arc_ok (butlast arcs)" "list_all is_digit (last arcs)" "length arcs - 1 \<noteq> 0"
      "\<not> (1 < length raw - (length raw - length (last arcs)) \<and> raw ! (length raw - length (last arcs)) = CHR ''0'')"
      "\<not> length raw < 3" "raw ! (length raw - 1) \<noteq> CHR ''.''"
      by (auto simp: parseNumericOID_eq loop split: if_split_asm)
    then show "oid = raw \<and> 2 \<le> length arcs \<and> (\<forall>arc\<in>set arcs. arc_ok arc)"
      using last_ok last_empty two all by auto
  next
    assume ok: "oid = raw \<and> 2 \<le> length arcs \<and> (\<forall>arc\<in>set arcs. arc_ok arc)"
    then have "list_all arc_ok (butlast arcs)" "list_all is_digit (last arcs)" "length arcs - 1 \<noteq> 0"
      "\<not> (1 < length raw - (length raw - length (last arcs)) \<and> raw ! (length raw - length (last arcs)) = CHR ''0'')"
      using all last_ok two by blast+
    moreover have "\<not> (length raw < 3 \<or> raw ! 0 = CHR ''.'' \<or> raw ! (length raw - 1) = CHR ''.'')"
      using shape ok by (meson not_less)
    ultimately show "parseNumericOID raw = Ok oid"
      using ok by (simp only: parseNumericOID_eq loop if_False if_True option.case prod.case simp_thms)
  qed
qed

section \<open>Sequences of messages\<close>

text \<open>Reading so many messages, one after the other.\<close>

fun read_frames :: "unicode \<Rightarrow> int \<Rightarrow> nat \<Rightarrow> reader \<Rightarrow> (wire_error, Frame list \<times> reader) go" where
  "read_frames U limit 0 connection = Ok ([], connection)"
| "read_frames U limit (Suc n) connection =
     go_bind (ReadFrame U (Some connection) limit) (\<lambda>(frame, connection).
     go_bind (read_frames U limit n connection) (\<lambda>(frames, connection). Ok (frame # frames, connection)))"

definition parsed_with :: "unicode \<Rightarrow> int \<Rightarrow> Frame \<Rightarrow> bool" where
  "parsed_with U limit frame \<longleftrightarrow> ParseFrame U (f_Raw frame) limit = Ok frame"

lemma ParseFrame_Raw: "ParseFrame U raw limit = Ok f \<longleftrightarrow> f_Raw f = raw \<and> parsed_with U limit f"
  using parsed_frame(1) by (auto simp: parsed_with_def)

definition read_default :: "unicode \<Rightarrow> bytes \<Rightarrow> (Frame \<times> bytes) option" where
  "read_default U s = (case ReadFrame U (Some \<lparr>pending = s, closing = EOF\<rparr>) 0 of
     Ok (f, r) \<Rightarrow> Some (f, pending r) | _ \<Rightarrow> None)"

interpretation wire: prefix_code f_Raw "parsed_with U 0" "read_default U" for U
proof
  fix f rest
  assume "parsed_with U 0 f"
  then have "ReadFrame U (Some \<lparr>pending = f_Raw f @ rest, closing = EOF\<rparr>) 0 =
      Ok (f, \<lparr>pending = rest, closing = EOF\<rparr>)"
    unfolding read_frame_iff [of 0 U, simplified] by (auto simp: ParseFrame_Raw)
  then show "read_default U (f_Raw f @ rest) = Some (f, rest)" by (simp add: read_default_def)
next
  fix f
  assume "parsed_with U 0 f"
  then show "f_Raw f \<noteq> []" using parsed_frame(3) by (fastforce simp: parsed_with_def)
qed

text \<open>Two sequences of messages with the same bytes are the same.\<close>

lemma frames_determined:
  "list_all (parsed_with U 0) fs \<Longrightarrow> list_all (parsed_with U 0) gs \<Longrightarrow>
   concat (map f_Raw fs) = concat (map f_Raw gs) \<Longrightarrow> fs = gs"
  by (rule wire.concat_inj [of fs U gs]) (auto simp: list_all_iff)

lemma read_frames_iff:
  assumes "limit \<le> int maximumInt"
  shows "read_frames U limit n \<lparr>pending = s, closing = c\<rparr> = Ok (fs, r) \<longleftrightarrow>
    length fs = n \<and> list_all (parsed_with U limit) fs \<and>
    (\<exists>rest. s = concat (map f_Raw fs) @ rest \<and> r = \<lparr>pending = rest, closing = c\<rparr>)"
proof (induction n arbitrary: s fs)
  case (Suc n)
  show ?case
  proof
    assume "read_frames U limit (Suc n) \<lparr>pending = s, closing = c\<rparr> = Ok (fs, r)"
    then obtain f r1 gs where f: "ReadFrame U (Some \<lparr>pending = s, closing = c\<rparr>) limit = Ok (f, r1)"
      and gs: "read_frames U limit n r1 = Ok (gs, r)" and fs: "fs = f # gs"
      by auto
    from f obtain raw rest where "s = raw @ rest" "r1 = \<lparr>pending = rest, closing = c\<rparr>" "ParseFrame U raw limit = Ok f"
      unfolding read_frame_iff [OF assms] by blast
    with gs fs Suc.IH [of rest gs] show "length fs = Suc n \<and> list_all (parsed_with U limit) fs \<and>
        (\<exists>rest. s = concat (map f_Raw fs) @ rest \<and> r = \<lparr>pending = rest, closing = c\<rparr>)"
      by (auto simp: ParseFrame_Raw)
  next
    assume "length fs = Suc n \<and> list_all (parsed_with U limit) fs \<and>
        (\<exists>rest. s = concat (map f_Raw fs) @ rest \<and> r = \<lparr>pending = rest, closing = c\<rparr>)"
    then obtain f gs rest where fs: "fs = f # gs" "length gs = n" "parsed_with U limit f"
      "list_all (parsed_with U limit) gs" "s = f_Raw f @ concat (map f_Raw gs) @ rest"
      "r = \<lparr>pending = rest, closing = c\<rparr>"
      by (cases fs) auto
    have "ReadFrame U (Some \<lparr>pending = s, closing = c\<rparr>) limit =
        Ok (f, \<lparr>pending = concat (map f_Raw gs) @ rest, closing = c\<rparr>)"
      unfolding read_frame_iff [OF assms] using fs by (auto simp: ParseFrame_Raw)
    with fs Suc.IH [of "concat (map f_Raw gs) @ rest" gs]
    show "read_frames U limit (Suc n) \<lparr>pending = s, closing = c\<rparr> = Ok (fs, r)" by simp
  qed
qed auto

text \<open>Go's case tables are not consulted for the examples below.\<close>

definition plain_unicode :: unicode where
  "plain_unicode = \<lparr>lower_table = (\<lambda>r. r), fold_table = (\<lambda>r. r)\<rparr>"

definition unbind_message :: bytes where
  "unbind_message = [CHR 0x30, CHR 0x05, CHR 0x02, CHR 0x01, CHR 0x01, CHR 0x42, CHR 0x00]"

definition unbind_frame :: Frame where
  "unbind_frame = bare_frame unbind_message 1 2 [CHR 0x42, CHR 0x00] [] []"

lemma element_eval:
  assumes "offset + 1 < length raw" "ord (raw ! offset) AND 31 \<noteq> 31" "ord (raw ! (offset + 1)) < 128"
    "offset + 2 + ord (raw ! (offset + 1)) \<le> length raw"
  shows "parseElement raw offset = Ok (\<lparr>e_start = offset, identifierEnd = offset + 1, contentStart = offset + 2,
    e_end = offset + 2 + ord (raw ! (offset + 1)), e_class = drop_bit 6 (ord (raw ! offset)),
    constructed = (ord (raw ! offset) AND 32 \<noteq> 0), e_tag = of_nat (ord (raw ! offset) AND 31)\<rparr>,
    offset + 2 + ord (raw ! (offset + 1)))"
proof -
  have "unat (of_nat (ord (raw ! (offset + 1))) :: uint64) = ord (raw ! (offset + 1))"
    using assms(3) by (intro unat_of_nat_uint64) simp
  moreover have "ord (raw ! (offset + 1)) \<le> maximumInt" using assms(3) by (simp add: maximumInt_def)
  ultimately show ?thesis
    using assms by (simp add: parseElement_eq parse_identifier_eq parseBERLength_eq Let_def)
qed

lemma unbind_elements:
  "parseElement unbind_message 0 = Ok (\<lparr>e_start = 0, identifierEnd = 1, contentStart = 2, e_end = 7,
     e_class = 0, constructed = True, e_tag = 16\<rparr>, 7)"
  "parseElement unbind_message 2 = Ok (\<lparr>e_start = 2, identifierEnd = 3, contentStart = 4, e_end = 5,
     e_class = 0, constructed = False, e_tag = 2\<rparr>, 5)"
  "parseElement unbind_message 5 = Ok (\<lparr>e_start = 5, identifierEnd = 6, contentStart = 7, e_end = 7,
     e_class = 1, constructed = False, e_tag = 2\<rparr>, 7)"
  using element_eval [of 0 unbind_message] element_eval [of 2 unbind_message] element_eval [of 5 unbind_message]
  by (simp_all add: unbind_message_def drop_bit_eq_div flip: numeral_2_eq_2)

lemma unbind_outer: "parse_outer unbind_message =
    Ok \<lparr>e_start = 0, identifierEnd = 1, contentStart = 2, e_end = 7, e_class = 0, constructed = True, e_tag = 16\<rparr>"
  unfolding parse_outer_eq unbind_elements go_bind.simps prod.case
  by (simp add: unbind_message_def ber_constants maxOuterLengthOctets_def)

lemma one_octet: "decodeNonnegativeInteger [CHR 0x01] MaxMessageID = Ok 1"
  by (simp add: decodeNonnegativeInteger_eq MaxMessageID_def)

lemma unbind_id: "parse_message_id unbind_message 2 = Ok (1, 5)"
  unfolding parse_message_id_def unbind_elements go_bind.simps prod.case go_wrap.simps
  by (simp add: elementIs_def ber_constants content_of_def go_slice_def unbind_message_def one_octet)

lemma unbind_body: "parse_body U unbind_message 1 5 7 = Ok unbind_frame"
  unfolding parse_body_def parse_protocol_def unbind_elements go_bind.simps prod.case go_wrap.simps
  by (simp add: ber_constants validateProtocolElement_def protocolConstructedForm_def wire_constants whole_of_def
      go_slice_def parse_trailing_controls_def parse_operation_def parse_result_def isLDAPResultResponse_def)
    (simp add: unbind_frame_def unbind_message_def)

lemma unbind_parses: "ParseFrame U unbind_message 0 = Ok unbind_frame"
  by (simp add: ParseFrame_def normalizedMaximum_def DefaultMaxFrameSize_def parseOwnedFrame_def unbind_outer
      unbind_id unbind_body) (simp add: unbind_message_def)

lemma encoded_abandon:
  assumes "0 < i" "i \<le> MaxMessageID" "0 < target" "target \<le> MaxMessageID"
  shows "\<exists>raw op. EncodeAbandonRequest i target = Ok raw \<and> length raw \<le> 30 \<and>
    (\<forall>limit. int (length raw) \<le> normalizedMaximum limit \<longrightarrow> ParseFrame U raw limit =
      Ok ((bare_frame raw i TagAbandonRequest op [] [])\<lparr>AbandonTarget := target, HasAbandonTarget := True\<rparr>))"
proof -
  have t: "parse_trailing_controls [] 0 (length []) = Ok ([], [], length ([] :: bytes))"
    by (simp add: parse_trailing_controls_def)
  obtain octets op where op: "encodeNonnegativeInteger target = Ok octets" "encodeTLV 0x50 octets = Ok op"
    "length op \<le> 12" and body: "parse_body U (op @ []) i 0 (length (op @ [])) =
      Ok ((bare_frame (op @ []) i TagAbandonRequest op [] [])\<lparr>AbandonTarget := target, HasAbandonTarget := True\<rparr>)"
    using abandon_body [OF assms(3,4) t] by metis
  have len: "length op + length [] < 2 ^ 31" using op(3) by simp
  obtain raw where raw: "encodeFrame i op [] = Ok raw" "length raw \<le> length op + 18"
    "\<And>limit. int (length raw) \<le> normalizedMaximum limit \<Longrightarrow> ParseFrame U raw limit =
      Ok ((bare_frame (op @ []) i TagAbandonRequest op [] [])
       \<lparr>AbandonTarget := target, HasAbandonTarget := True, f_Raw := raw\<rparr>)"
    using encoded_frame [OF _ assms(2) len body] assms(1) by auto
  have "EncodeAbandonRequest i target = Ok raw"
    using assms op(1,2) raw(1) by (simp add: EncodeAbandonRequest_def validateMessageID_def)
  moreover have "(bare_frame (op @ []) i TagAbandonRequest op [] [])
      \<lparr>AbandonTarget := target, HasAbandonTarget := True, f_Raw := raw\<rparr> =
      (bare_frame raw i TagAbandonRequest op [] [])\<lparr>AbandonTarget := target, HasAbandonTarget := True\<rparr>"
    by (simp add: bare_frame_def)
  ultimately show ?thesis using raw(2,3) op(3) by (intro exI [of _ raw] exI [of _ op]) simp
qed

section \<open>Properties\<close>

lemma small_default: "n \<le> 100 \<Longrightarrow> int n \<le> normalizedMaximum 0"
  by (simp add: normalizedMaximum_def DefaultMaxFrameSize_def)

lemma rewritten_message_id_witness:
  "\<exists>raw'. RewriteMessageID unbind_frame 300 = Ok raw' \<and>
    ParseFrame plain_unicode raw' 0 = Ok (unbind_frame\<lparr>f_Raw := raw', MessageID := 300\<rparr>)"
proof -
  have "length unbind_message < 2 ^ 31" "(300::int) \<le> MaxMessageID"
    by (simp_all add: unbind_message_def MaxMessageID_def)
  from rewritten_message_id [OF unbind_parses this(1) _ this(2), of plain_unicode]
  obtain raw' where "RewriteMessageID unbind_frame 300 = Ok raw'" "length raw' < length unbind_message + 18"
    "int (length raw') \<le> normalizedMaximum 0 \<longrightarrow>
      ParseFrame plain_unicode raw' 0 = Ok (unbind_frame\<lparr>f_Raw := raw', MessageID := 300\<rparr>)" by auto
  moreover have "length raw' \<le> 100" using calculation(2) by (simp add: unbind_message_def)
  ultimately show ?thesis using small_default by blast
qed


lemma error_response_parses_witness:
  "\<exists>raw op. EncodeErrorResponse 1 TagSearchRequest 2 ''bad'' = Ok raw \<and>
    (int (length raw) \<le> normalizedMaximum 0 \<longrightarrow>
      ParseFrame plain_unicode raw 0 = Ok ((bare_frame raw 1 TagSearchResultDone op [] [])\<lparr>f_ResultCode := Some 2\<rparr>))"
proof -
  have "(1::int) \<le> MaxMessageID" "(2::int) \<le> MaxMessageID" "utf8_Valid ''bad''"
    "responseTagForRequest TagSearchRequest = Some TagSearchResultDone"
    by (simp_all add: MaxMessageID_def utf8_Valid_def RuneError_def responseTagForRequest_def wire_constants)
  with error_response_parses [of 1 2 "''bad''" TagSearchRequest TagSearchResultDone plain_unicode]
  show ?thesis by fastforce
qed

lemma rewritten_abandon_witness:
  "\<exists>raw f raw' op. EncodeAbandonRequest 5 3 = Ok raw \<and> ParseFrame plain_unicode raw 0 = Ok f \<and>
    rewriteAbandon f 6 4 = Ok raw' \<and> (int (length raw') \<le> normalizedMaximum 0 \<longrightarrow>
      ParseFrame plain_unicode raw' 0 = Ok (f\<lparr>f_Raw := raw', MessageID := 6, ProtocolOp := op, AbandonTarget := 4\<rparr>))"
proof -
  have small: "(5::int) \<le> MaxMessageID" "(3::int) \<le> MaxMessageID" "(6::int) \<le> MaxMessageID" "(4::int) \<le> MaxMessageID"
    by (simp_all add: MaxMessageID_def)
  obtain raw f where raw: "EncodeAbandonRequest 5 3 = Ok raw" "length raw \<le> 30"
    and f: "ParseFrame plain_unicode raw 0 = Ok f" "HasAbandonTarget f"
    using encoded_abandon [of 5 3 plain_unicode] small small_default by fastforce
  have "length raw < 2 ^ 30" using raw(2) by simp
  from rewritten_abandon [OF f(1) this f(2) _ small(3) _ small(4)] obtain raw' op
    where "rewriteAbandon f 6 4 = Ok raw'" "int (length raw') \<le> normalizedMaximum 0 \<longrightarrow>
      ParseFrame plain_unicode raw' 0 = Ok (f\<lparr>f_Raw := raw', MessageID := 6, ProtocolOp := op, AbandonTarget := 4\<rparr>)"
    by auto
  with raw(1) f(1) show ?thesis
    by (intro exI [of _ raw] exI [of _ f] exI [of _ raw'] exI [of _ op]) simp
qed

text \<open>
  C12: Reading so many messages from a connection succeeds with these frames exactly when the bytes
  that arrive are the bytes of the frames, each of which parses to itself, one after the other; what
  is left on the connection is what follows them. Nothing is read too far and nothing is skipped.
\<close>

theorem connection_splits_into_frames:
  assumes "limit \<le> int maximumInt"
  shows "read_frames U limit n \<lparr>pending = s, closing = c\<rparr> = Ok (fs, r) \<longleftrightarrow>
    length fs = n \<and> list_all (parsed_with U limit) fs \<and>
    (\<exists>rest. s = concat (map f_Raw fs) @ rest \<and> r = \<lparr>pending = rest, closing = c\<rparr>)"
  by (rule read_frames_iff [OF assms])

lemma connection_splits_into_frames_witness:
  "read_frames plain_unicode 0 2 \<lparr>pending = unbind_message @ unbind_message, closing = EOF\<rparr> =
     Ok ([unbind_frame, unbind_frame], \<lparr>pending = [], closing = EOF\<rparr>)"
proof -
  have "(0::int) \<le> int maximumInt" by simp
  have "f_Raw unbind_frame = unbind_message" by (simp add: unbind_frame_def bare_frame_def)
  then show ?thesis
    unfolding connection_splits_into_frames [OF \<open>0 \<le> int maximumInt\<close>]
    by (simp add: parsed_with_def unbind_parses)
qed

end
