(* ===== verification/Schema_Description.thy ===== *)
theory Schema_Description
  imports Directory_Entry
begin

text \<open>
  Schema definitions and their text (\<^verbatim>\<open>src/internal/schema/types.go\<close>, \<^verbatim>\<open>parser.go\<close>, \<^verbatim>\<open>format.go\<close> and
  \<^verbatim>\<open>matching_rule_description.go\<close>): the six kinds of RFC 4512 descriptions, matching rules and
  their uses, the tokens they are made of, the parsers and the formatters.

  The parser's state is the list of the tokens that are not taken yet. Errors carry what the
  messages of the source say, with \<open>Near\<close> for the position that \<open>wrap\<close> adds. A
  \<open>map[string][]string\<close> of extensions is the list of its pairs in the order of their keys, which
  determines it. \<open>unicode.ToUpper\<close> beyond ASCII is a parameter, as in \<open>Go_Strings\<close>; so is the
  resolver of object identifiers.
\<close>

section \<open>Definitions\<close>

type_synonym extensions = "(bytes \<times> bytes list) list"

record LDAPSyntax =
  ls_OID :: bytes
  ls_Description :: bytes
  ls_Extensions :: extensions
  BinaryTransferRequired :: bool
  BEREncoded :: bool
  validator :: "(bytes \<Rightarrow> string option) option"
  validatorIdentity :: bytes
  builtin :: bool

definition HasValidator :: "LDAPSyntax \<Rightarrow> bool" where
  "HasValidator syntax \<longleftrightarrow> validator syntax \<noteq> None"

type_synonym AttributeUsage = bytes

definition UsageUserApplications :: AttributeUsage where "UsageUserApplications = ''userApplications''"
definition UsageDirectoryOperation :: AttributeUsage where "UsageDirectoryOperation = ''directoryOperation''"
definition UsageDistributedOperation :: AttributeUsage where "UsageDistributedOperation = ''distributedOperation''"
definition UsageDSAOperation :: AttributeUsage where "UsageDSAOperation = ''dSAOperation''"

lemmas usage_constants = UsageUserApplications_def UsageDirectoryOperation_def
  UsageDistributedOperation_def UsageDSAOperation_def

record AttributeType =
  at_OID :: bytes
  at_Names :: "bytes list"
  at_Description :: bytes
  at_Hidden :: bool
  at_Obsolete :: bool
  Superior :: bytes
  Equality :: bytes
  Ordering :: bytes
  Substring :: bytes
  Syntax :: bytes
  SyntaxLength :: int
  SingleValue :: bool
  Collective :: bool
  NoUserModification :: bool
  Usage :: AttributeUsage
  at_Extensions :: extensions

definition AttributeType_Name :: "AttributeType \<Rightarrow> bytes" where
  "AttributeType_Name attribute = (if at_Names attribute \<noteq> [] then at_Names attribute ! 0 else at_OID attribute)"

type_synonym ObjectClassKind = bytes

definition ObjectClassAbstract :: ObjectClassKind where "ObjectClassAbstract = ''ABSTRACT''"
definition ObjectClassStructural :: ObjectClassKind where "ObjectClassStructural = ''STRUCTURAL''"
definition ObjectClassAuxiliary :: ObjectClassKind where "ObjectClassAuxiliary = ''AUXILIARY''"

lemmas kind_constants = ObjectClassAbstract_def ObjectClassStructural_def ObjectClassAuxiliary_def

record ObjectClass =
  oc_OID :: bytes
  oc_Names :: "bytes list"
  oc_Description :: bytes
  oc_Obsolete :: bool
  oc_Hidden :: bool
  oc_Superiors :: "bytes list"
  Kind :: ObjectClassKind
  oc_Must :: "bytes list"
  oc_May :: "bytes list"
  oc_Extensions :: extensions

definition ObjectClass_Name :: "ObjectClass \<Rightarrow> bytes" where
  "ObjectClass_Name oc = (if oc_Names oc \<noteq> [] then oc_Names oc ! 0 else oc_OID oc)"

record DITContentRule =
  cr_OID :: bytes
  cr_Names :: "bytes list"
  cr_Description :: bytes
  cr_Obsolete :: bool
  Auxiliary :: "bytes list"
  cr_Must :: "bytes list"
  cr_May :: "bytes list"
  Not :: "bytes list"
  cr_Extensions :: extensions

definition DITContentRule_Name :: "DITContentRule \<Rightarrow> bytes" where
  "DITContentRule_Name r = (if cr_Names r \<noteq> [] then cr_Names r ! 0 else cr_OID r)"

record NameForm =
  nf_OID :: bytes
  nf_Names :: "bytes list"
  nf_Description :: bytes
  nf_Obsolete :: bool
  nf_ObjectClass :: bytes
  nf_Must :: "bytes list"
  nf_May :: "bytes list"
  nf_Extensions :: extensions

definition NameForm_Name :: "NameForm \<Rightarrow> bytes" where
  "NameForm_Name f = (if nf_Names f \<noteq> [] then nf_Names f ! 0 else nf_OID f)"

record DITStructureRule =
  RuleID :: int
  sr_Names :: "bytes list"
  sr_Description :: bytes
  sr_Obsolete :: bool
  Form :: bytes
  sr_Superiors :: "int list"
  sr_Extensions :: extensions

definition DITStructureRule_Name :: "DITStructureRule \<Rightarrow> bytes" where
  "DITStructureRule_Name r = (if sr_Names r \<noteq> [] then sr_Names r ! 0 else FormatInt (RuleID r))"

record MatchingRule =
  mr_OID :: bytes
  mr_Names :: "bytes list"
  mr_Description :: bytes
  mr_Obsolete :: bool
  mr_Syntax :: bytes
  mr_Extensions :: extensions

record MatchingRuleUse =
  mu_OID :: bytes
  mu_Names :: "bytes list"
  mu_Description :: bytes
  mu_Obsolete :: bool
  Applies :: "bytes list"
  mu_Extensions :: extensions

section \<open>Errors\<close>

datatype desc_error =
    Near nat desc_error
  | InvalidOrderingPrefix | NotEnclosed
  | TruncatedEscape | InvalidEscape bytes | UnterminatedQuoted
  | MissingOID string | ResolveOID string bytes string | NotNumericOID string bytes | Unresolved string
  | MissingFieldValue | ExpectedFieldValue bytes
  | MissingListValue | EmptyList | NestedSchemaList | UnterminatedList
  | MissingRuleIDList | EmptyRuleIDList | UnterminatedRuleIDList | MissingRuleID | InvalidRuleID bytes
  | UnknownField string bytes | DuplicateField string bytes | RequiresField string string
  | UnexpectedToken bytes | InvalidSyntaxLength bytes | UnknownUsage bytes
  | DescriptionTooLong | DescriptionNotUTF8 | TooManyTokens | QuotedNotUTF8
  | MissingSeparatorAfter | MissingSeparatorBefore | NotASCIIIdentifier
  | DollarInQuotedList | ExpectedQuoted | InvalidRuleName bytes | AppliesSeparators | InvalidApplies bytes

section \<open>Upper case\<close>

definition ascii_upper :: "nat \<Rightarrow> nat" where
  "ascii_upper r = (if 97 \<le> r \<and> r \<le> 122 then r - 32 else r)"

definition upper_rune :: "(nat \<Rightarrow> nat) \<Rightarrow> nat \<Rightarrow> nat" where
  "upper_rune up r = (if r < 128 then ascii_upper r else up r)"

text \<open>\<open>strings.ToUpper\<close>.\<close>

definition ToUpper :: "(nat \<Rightarrow> nat) \<Rightarrow> bytes \<Rightarrow> bytes" where
  "ToUpper up s =
     (if is_ascii s then map (\<lambda>c. char_of (ascii_upper (ord c))) s
      else concat (map (\<lambda>r. EncodeRune (upper_rune up r)) (runes s)))"

section \<open>Tokens\<close>

definition hex_digit :: "char \<Rightarrow> nat option" where
  "hex_digit c =
     (if 48 \<le> ord c \<and> ord c \<le> 57 then Some (ord c - 48)
      else if 65 \<le> ord c \<and> ord c \<le> 70 then Some (ord c - 55)
      else if 97 \<le> ord c \<and> ord c \<le> 102 then Some (ord c - 87)
      else None)"

text \<open>A quoted value from behind its quote, with what follows the closing quote.\<close>

fun readQuoted :: "bytes \<Rightarrow> (desc_error, bytes \<times> bytes) go" where
  "readQuoted [] = Err UnterminatedQuoted"
| "readQuoted (c # s) =
     (if c = CHR 0x27 then Ok ([], s)
      else if c = CHR 0x5C then
        (case s of
           h # l # s' \<Rightarrow>
             (case (hex_digit h, hex_digit l) of
                (Some a, Some b) \<Rightarrow>
                  go_bind (readQuoted s') (\<lambda>(v, rest). Ok (char_of (a * 16 + b) # v, rest))
              | _ \<Rightarrow> Err (InvalidEscape [c, h, l]))
         | _ \<Rightarrow> Err TruncatedEscape)
      else go_bind (readQuoted s) (\<lambda>(v, rest). Ok (c # v, rest)))"

lemma readQuoted_length: "readQuoted s = Ok (v, rest) \<Longrightarrow> length rest < length s"
proof (induction s arbitrary: v rest rule: readQuoted.induct)
  case (2 c s)
  show ?case
  proof (cases "c = CHR 0x27")
    case False
    then show ?thesis
      using "2.prems" "2.IH" by (auto split: if_splits list.splits option.splits; fastforce)
  qed (use "2.prems" in simp)
qed simp

definition delimiter :: "char \<Rightarrow> bool" where
  "delimiter c \<longleftrightarrow> is_space (ord c) \<or> c = CHR ''('' \<or> c = CHR '')'' \<or> c = CHR ''$''"

function tokenize :: "bytes \<Rightarrow> (desc_error, bytes list) go" where
  "tokenize input =
     (case input of [] \<Rightarrow> Ok []
      | c # s \<Rightarrow>
        if is_space (ord c) then tokenize s
        else if c = CHR ''('' \<or> c = CHR '')'' \<or> c = CHR ''$'' then
          go_bind (tokenize s) (\<lambda>tokens. Ok ([c] # tokens))
        else if c = CHR 0x27 then
          (case readQuoted s of
             Ok (v, rest) \<Rightarrow> go_bind (tokenize rest) (\<lambda>tokens. Ok (v # tokens))
           | Err e \<Rightarrow> Err e
           | Panic \<Rightarrow> Panic)
        else
          go_bind (tokenize (dropWhile (\<lambda>c. \<not> delimiter c) s)) (\<lambda>tokens.
            Ok ((c # takeWhile (\<lambda>c. \<not> delimiter c) s) # tokens)))"
  by pat_completeness auto
termination
  by (relation "measure length")
    (auto dest: readQuoted_length simp: le_imp_less_Suc length_dropWhile_le)

declare tokenize.simps [simp del]


text \<open>\<open>strings.IndexByte\<close> with the text before and behind the byte.\<close>

definition ordering_prefix :: "bytes \<Rightarrow> (desc_error, bytes) go" where
  "ordering_prefix description =
     (if HasPrefix description ''{'' then
        (case Cut (CHR ''}'') description of (before, after, found) \<Rightarrow>
           if \<not> found \<or> length before < 2 then Err InvalidOrderingPrefix
           else (case ParseInt (drop 1 before) of
               None \<Rightarrow> Err InvalidOrderingPrefix
             | Some _ \<Rightarrow> Ok (TrimSpace after)))
      else Ok description)"

text \<open>The parser of a description: the tokens between its outer parentheses.\<close>

definition enclosed :: "bytes list \<Rightarrow> (desc_error, bytes list) go" where
  "enclosed tokens =
     (if length tokens < 3 \<or> tokens ! 0 \<noteq> ''('' \<or> tokens ! (length tokens - 1) \<noteq> '')''
      then Err NotEnclosed else Ok (butlast (tl tokens)))"

definition newDescriptionParser :: "bytes \<Rightarrow> (desc_error, bytes list) go" where
  "newDescriptionParser description =
     go_bind (ordering_prefix (TrimSpace description)) (\<lambda>description.
     go_bind (tokenize description) enclosed)"

section \<open>Reading fields\<close>

type_synonym 'a reading = "(desc_error, 'a) go \<times> bytes list"

definition atEnd :: "bytes list \<Rightarrow> bool" where
  "atEnd tokens \<longleftrightarrow> tokens = []"

definition take_token :: "bytes list \<Rightarrow> bytes \<times> bytes list" where
  "take_token tokens = (case tokens of [] \<Rightarrow> ([], []) | t # ts \<Rightarrow> (t, ts))"

definition isASCIILetter :: "char \<Rightarrow> bool" where
  "isASCIILetter c \<longleftrightarrow> CHR ''A'' \<le> c \<and> c \<le> CHR ''Z'' \<or> CHR ''a'' \<le> c \<and> c \<le> CHR ''z''"

definition validObjectIdentifier :: "bytes \<Rightarrow> bool" where
  "validObjectIdentifier v =
     (if v = [] then False
      else if is_digit (v ! 0) then
        (let components = Split (CHR ''.'') v in
         2 \<le> length components \<and>
         list_all (\<lambda>c. c \<noteq> [] \<and> \<not> (1 < length c \<and> c ! 0 = CHR ''0'') \<and> list_all is_digit c) components)
      else isASCIILetter (v ! 0) \<and>
        list_all (\<lambda>c. isASCIILetter c \<or> is_digit c \<or> c = CHR ''-'') (tl v))"

type_synonym resolver = "(bytes \<Rightarrow> (string, bytes) go) option"

definition readNumericOID :: "resolver \<Rightarrow> string \<Rightarrow> bytes list \<Rightarrow> bytes reading" where
  "readNumericOID resolveOID kind tokens =
     (case take_token tokens of (oid, rest) \<Rightarrow>
       (if oid = [] then Err (MissingOID kind)
        else if is_digit (oid ! 0) \<and> validObjectIdentifier oid then Ok oid
        else
          case resolveOID of
            None \<Rightarrow> Err (NotNumericOID kind oid)
          | Some resolve \<Rightarrow>
              (case resolve oid of
                 Ok resolved \<Rightarrow>
                   if resolved \<noteq> [] \<and> validObjectIdentifier resolved then Ok resolved
                   else Err (NotNumericOID kind oid)
               | Err e \<Rightarrow> Err (ResolveOID kind oid e)
               | Panic \<Rightarrow> Panic), rest))"

definition readOne :: "bytes list \<Rightarrow> bytes reading" where
  "readOne tokens =
     (case tokens of [] \<Rightarrow> (Err MissingFieldValue, [])
      | v # rest \<Rightarrow>
          (if v = ''('' \<or> v = '')'' \<or> v = ''$'' then Err (ExpectedFieldValue v) else Ok v, rest))"

fun list_values :: "bytes list \<Rightarrow> bytes list \<Rightarrow> bytes list reading" where
  "list_values [] values = (Err UnterminatedList, [])"
| "list_values (v # rest) values =
     (if v = '')'' then (if values = [] then Err EmptyList else Ok values, rest)
      else if v = ''$'' then list_values rest values
      else if v = ''('' then (Err NestedSchemaList, rest)
      else list_values rest (values @ [v]))"

definition readList :: "bytes list \<Rightarrow> bytes list reading" where
  "readList tokens =
     (case tokens of [] \<Rightarrow> (Err MissingListValue, [])
      | t # rest \<Rightarrow>
          if t \<noteq> ''('' then (case readOne tokens of (r, rest) \<Rightarrow> (go_bind r (\<lambda>v. Ok [v]), rest))
          else list_values rest [])"

definition parseRuleID :: "bytes \<Rightarrow> (desc_error, int) go" where
  "parseRuleID v =
     (if v = [] then Err MissingRuleID
      else if \<not> list_all is_digit v then Err (InvalidRuleID v)
      else (case ParseInt v of
          Some n \<Rightarrow> if n < 2 ^ 31 then Ok n else Err (InvalidRuleID v)
        | None \<Rightarrow> Err (InvalidRuleID v)))"

fun rule_ids :: "bytes list \<Rightarrow> int list \<Rightarrow> int list reading" where
  "rule_ids [] ids = (Err UnterminatedRuleIDList, [])"
| "rule_ids (v # rest) ids =
     (if v = '')'' then (if ids = [] then Err EmptyRuleIDList else Ok ids, rest)
      else if v = ''('' \<or> v = ''$'' then (Err (InvalidRuleID v), rest)
      else (case parseRuleID v of
          Ok n \<Rightarrow> rule_ids rest (ids @ [n])
        | Err e \<Rightarrow> (Err e, rest)
        | Panic \<Rightarrow> (Panic, rest)))"

definition readRuleIDs :: "bytes list \<Rightarrow> int list reading" where
  "readRuleIDs tokens =
     (case tokens of [] \<Rightarrow> (Err MissingRuleIDList, [])
      | t # rest \<Rightarrow>
          if t \<noteq> ''('' then (go_bind (parseRuleID t) (\<lambda>n. Ok [n]), rest) else rule_ids rest [])"

section \<open>The loop over the fields\<close>

text \<open>
  What a keyword makes of the record: the value it reads, and how it is stored. Every case of the
  parsers' switches is one of these.
\<close>

datatype 's field =
    One "bytes \<Rightarrow> (desc_error, 's) go"
  | Many "bytes list \<Rightarrow> (desc_error, 's) go"
  | IDs "int list \<Rightarrow> (desc_error, 's) go"
  | Flag 's
  | Quoted bool "bytes list \<Rightarrow> (desc_error, 's) go"
  | QuotedOne "bytes \<Rightarrow> (desc_error, 's) go"
  | NumericOID string "bytes \<Rightarrow> (desc_error, 's) go"
  | AppliesTo "bytes list \<Rightarrow> (desc_error, 's) go"
  | Unknown desc_error

text \<open>The readers of matching rules, whose tokens keep their quotes.\<close>

definition matchingRuleQuotedValue :: "bytes \<Rightarrow> bool \<Rightarrow> (desc_error, bytes) go" where
  "matchingRuleQuotedValue v descriptor =
     (if length v < 2 \<or> v ! 0 \<noteq> CHR 0x27 \<or> v ! (length v - 1) \<noteq> CHR 0x27 then Err ExpectedQuoted
      else if descriptor then
        (let name = butlast (tl v) in
         if name = [] \<or> \<not> isASCIILetter (name ! 0) \<or> \<not> validObjectIdentifier name
         then Err (InvalidRuleName name) else Ok name)
      else go_bind (readQuoted (tl v)) (\<lambda>(decoded, _). Ok decoded))"

definition readMatchingRuleQuotedList :: "bytes list \<Rightarrow> bool \<Rightarrow> bytes list reading" where
  "readMatchingRuleQuotedList tokens descriptors =
     (if 1 < length tokens \<and> tokens ! 0 = ''('' \<and> tokens ! 1 = '')'' then (Ok [], drop 2 tokens)
      else (case readList tokens of (r, rest) \<Rightarrow>
        (go_bind r (\<lambda>vs.
           if ''$'' \<in> set (take (length tokens - length rest) tokens) then Err DollarInQuotedList
           else go_map (\<lambda>v. matchingRuleQuotedValue v descriptors) vs), rest)))"

definition readMatchingRuleApplies :: "bytes list \<Rightarrow> bytes list reading" where
  "readMatchingRuleApplies tokens =
     (case readList tokens of (r, rest) \<Rightarrow>
       (go_bind r (\<lambda>vs.
          let list = drop 1 (take (length tokens - length rest - 1) tokens) in
          if tokens ! 0 = ''('' \<and>
             (length list \<noteq> 2 * length vs - 1 \<or>
              list_ex (\<lambda>i. odd i \<and> list ! i \<noteq> ''$'') [0..<length list])
          then Err AppliesSeparators
          else (case dropWhile validObjectIdentifier vs of
              v # _ \<Rightarrow> Err (InvalidApplies v)
            | [] \<Rightarrow> Ok vs)), rest))"

text \<open>
  \<open>n_tokens\<close> is the number of tokens of the whole description, for the position in an error of
  \<open>readNumericOID\<close>.
\<close>

fun run_field :: "nat \<Rightarrow> 's field \<Rightarrow> bytes list \<Rightarrow> 's reading" where
  "run_field n_tokens (One f) tokens = (case readOne tokens of (r, rest) \<Rightarrow> (go_bind r f, rest))"
| "run_field n_tokens (Many f) tokens = (case readList tokens of (r, rest) \<Rightarrow> (go_bind r f, rest))"
| "run_field n_tokens (IDs f) tokens = (case readRuleIDs tokens of (r, rest) \<Rightarrow> (go_bind r f, rest))"
| "run_field n_tokens (Flag s) tokens = (Ok s, tokens)"
| "run_field n_tokens (Quoted d f) tokens =
     (case readMatchingRuleQuotedList tokens d of (r, rest) \<Rightarrow> (go_bind r f, rest))"
| "run_field n_tokens (QuotedOne f) tokens =
     (case readOne tokens of (r, rest) \<Rightarrow>
       (go_bind r (\<lambda>v. go_bind (matchingRuleQuotedValue v False) f), rest))"
| "run_field n_tokens (NumericOID kind f) tokens =
     (case readNumericOID None kind tokens of (r, rest) \<Rightarrow>
       (go_bind (go_wrap (Near (n_tokens - length rest)) r) f, rest))"
| "run_field n_tokens (AppliesTo f) tokens =
     (case readMatchingRuleApplies tokens of (r, rest) \<Rightarrow> (go_bind r f, rest))"
| "run_field n_tokens (Unknown e) tokens = (Err e, tokens)"

lemma list_values_length: "list_values tokens vs = (r, rest) \<Longrightarrow> length rest \<le> length tokens"
  by (induction tokens vs rule: list_values.induct) (auto split: if_splits)

lemma rule_ids_length: "rule_ids tokens ids = (r, rest) \<Longrightarrow> length rest \<le> length tokens"
  by (induction tokens ids rule: rule_ids.induct) (auto split: if_splits go.splits)

lemma readOne_length: "readOne tokens = (r, rest) \<Longrightarrow> length rest \<le> length tokens"
  by (auto simp: readOne_def split: list.splits if_splits)

lemma readList_length: "readList tokens = (r, rest) \<Longrightarrow> length rest \<le> length tokens"
  by (auto simp: readList_def split: list.splits if_splits prod.splits
    dest: list_values_length readOne_length)

lemma run_field_length: "run_field n f tokens = (r, rest) \<Longrightarrow> length rest \<le> length tokens"
  by (cases f)
    (auto simp: readRuleIDs_def readMatchingRuleQuotedList_def readMatchingRuleApplies_def
        readNumericOID_def take_token_def
      split: list.splits if_splits prod.splits option.splits
      dest: rule_ids_length readOne_length readList_length)

text \<open>
  \<open>unique\<close> is the name that a repeated keyword is reported under where it is refused,
  \<open>seen\<close> the keywords so far.
\<close>

function field_loop ::
  "(nat \<Rightarrow> nat) \<Rightarrow> string option \<Rightarrow> (bytes \<Rightarrow> 's \<Rightarrow> 's field) \<Rightarrow> nat \<Rightarrow> bytes list \<Rightarrow> bytes list \<Rightarrow> 's \<Rightarrow>
     (desc_error, bytes list \<times> 's) go" where
  "field_loop up unique handler n_tokens seen tokens s =
     (case tokens of [] \<Rightarrow> Ok (seen, s)
      | token # rest \<Rightarrow>
          let keyword = ToUpper up token in
          if unique \<noteq> None \<and> keyword \<in> set seen
          then Err (Near (n_tokens - length rest) (DuplicateField (the unique) keyword))
          else (case run_field n_tokens (handler keyword s) rest of
              (Ok s', rest') \<Rightarrow> field_loop up unique handler n_tokens (keyword # seen) rest' s'
            | (Err e, rest') \<Rightarrow> Err (Near (n_tokens - length rest') e)
            | (Panic, _) \<Rightarrow> Panic))"
  by pat_completeness auto
termination
  by (relation "measure (\<lambda>(up, unique, handler, n_tokens, seen, tokens, s). length tokens)")
    (auto dest!: run_field_length [OF sym] simp: le_imp_less_Suc)

declare field_loop.simps [simp del]

text \<open>A pair of a map, in the order of the keys.\<close>

fun ext_put :: "bytes \<Rightarrow> bytes list \<Rightarrow> extensions \<Rightarrow> extensions" where
  "ext_put k v [] = [(k, v)]"
| "ext_put k v ((k', v') # rest) =
     (if k = k' then (k, v) # rest
      else if k < k' then (k, v) # (k', v') # rest
      else (k', v') # ext_put k v rest)"

section \<open>The six kinds of descriptions\<close>

definition validUsage :: "AttributeUsage \<Rightarrow> bool" where
  "validUsage usage \<longleftrightarrow> usage \<in> set [UsageUserApplications, UsageDirectoryOperation,
     UsageDistributedOperation, UsageDSAOperation]"

definition parseSyntaxOID :: "bytes \<Rightarrow> (desc_error, bytes \<times> int) go" where
  "parseSyntaxOID v =
     (if CHR ''{'' \<notin> set v then Ok (v, 0)
      else
        let after = rev (takeWhile (\<lambda>c. c \<noteq> CHR ''{'') (rev v));
            before = take (length v - length after - 1) v in
        if \<not> HasSuffix v ''}'' then Err (InvalidSyntaxLength v)
        else (case ParseInt (butlast after) of
            None \<Rightarrow> Err (InvalidSyntaxLength v)
          | Some n \<Rightarrow> if n \<le> 0 then Err (InvalidSyntaxLength v) else Ok (before, n)))"

text \<open>Resolving every value of a list, up to the first failure.\<close>

definition resolve_list :: "resolver \<Rightarrow> bytes list \<Rightarrow> (desc_error, bytes list) go" where
  "resolve_list resolveOID vs =
     (case resolveOID of None \<Rightarrow> Ok vs | Some resolve \<Rightarrow> go_wrap Unresolved (go_map resolve vs))"

definition syntax_field :: "resolver \<Rightarrow> bytes \<Rightarrow> LDAPSyntax \<Rightarrow> LDAPSyntax field" where
  "syntax_field resolveOID keyword x =
     (if keyword = ''DESC'' then One (\<lambda>v. Ok (x\<lparr>ls_Description := v\<rparr>))
      else if HasPrefix keyword ''X-'' then
        Many (\<lambda>vs. go_bind (if keyword = ''X-SUBST'' then resolve_list resolveOID vs else Ok vs)
          (\<lambda>vs. Ok (x\<lparr>ls_Extensions := ext_put keyword vs (ls_Extensions x)\<rparr>)))
      else Unknown (UnknownField ''LDAP syntax'' keyword))"

definition bare_syntax :: "bytes \<Rightarrow> LDAPSyntax" where
  "bare_syntax oid = \<lparr>ls_OID = oid, ls_Description = [], ls_Extensions = [], BinaryTransferRequired = False,
     BEREncoded = False, validator = None, validatorIdentity = [], builtin = False\<rparr>"

text \<open>The frame of every parser: tokens, identifier, fields.\<close>

definition parse_description ::
  "(nat \<Rightarrow> nat) \<Rightarrow> resolver \<Rightarrow> string \<Rightarrow> string option \<Rightarrow> (bytes \<Rightarrow> 's) \<Rightarrow> (bytes \<Rightarrow> 's \<Rightarrow> 's field) \<Rightarrow> bytes \<Rightarrow>
     (desc_error, nat \<times> 's) go" where
  "parse_description up resolveOID kind unique bare handler description =
     go_bind (newDescriptionParser description) (\<lambda>tokens.
       case readNumericOID resolveOID kind tokens of (r, rest) \<Rightarrow>
         go_bind (go_wrap (Near (length tokens - length rest)) r) (\<lambda>oid.
         go_bind (field_loop up unique handler (length tokens) [] rest (bare oid)) (\<lambda>(_, s).
           Ok (length tokens, s))))"

definition parseLDAPSyntax :: "(nat \<Rightarrow> nat) \<Rightarrow> bytes \<Rightarrow> resolver \<Rightarrow> (desc_error, LDAPSyntax) go" where
  "parseLDAPSyntax up description resolveOID =
     go_bind (parse_description up resolveOID ''LDAP syntax'' (Some ''LDAP syntax'') bare_syntax
       (syntax_field resolveOID) description) (\<lambda>(_, x). Ok x)"

definition ParseLDAPSyntax :: "(nat \<Rightarrow> nat) \<Rightarrow> bytes \<Rightarrow> (desc_error, LDAPSyntax) go" where
  "ParseLDAPSyntax up description = parseLDAPSyntax up description None"

definition attribute_syntax :: "resolver \<Rightarrow> AttributeType \<Rightarrow> bytes \<Rightarrow> (desc_error, AttributeType) go" where
  "attribute_syntax resolveOID a v =
     go_bind (parseSyntaxOID v) (\<lambda>(oid, len).
     go_bind (case resolveOID of None \<Rightarrow> Ok oid | Some resolve \<Rightarrow> go_wrap Unresolved (resolve oid)) (\<lambda>oid.
       Ok (a\<lparr>Syntax := oid, SyntaxLength := len\<rparr>)))"

definition attribute_field :: "resolver \<Rightarrow> bytes \<Rightarrow> AttributeType \<Rightarrow> AttributeType field" where
  "attribute_field resolveOID keyword a =
     (if keyword = ''NAME'' then Many (\<lambda>vs. Ok (a\<lparr>at_Names := vs\<rparr>))
      else if keyword = ''DESC'' then One (\<lambda>v. Ok (a\<lparr>at_Description := v\<rparr>))
      else if keyword = ''OBSOLETE'' then Flag (a\<lparr>at_Obsolete := True\<rparr>)
      else if keyword = ''SUP'' then One (\<lambda>v. Ok (a\<lparr>Superior := v\<rparr>))
      else if keyword = ''EQUALITY'' then One (\<lambda>v. Ok (a\<lparr>Equality := v\<rparr>))
      else if keyword = ''ORDERING'' then One (\<lambda>v. Ok (a\<lparr>Ordering := v\<rparr>))
      else if keyword = ''SUBSTR'' then One (\<lambda>v. Ok (a\<lparr>Substring := v\<rparr>))
      else if keyword = ''SYNTAX'' then One (attribute_syntax resolveOID a)
      else if keyword = ''SINGLE-VALUE'' then Flag (a\<lparr>SingleValue := True\<rparr>)
      else if keyword = ''COLLECTIVE'' then Flag (a\<lparr>Collective := True\<rparr>)
      else if keyword = ''NO-USER-MODIFICATION'' then Flag (a\<lparr>NoUserModification := True\<rparr>)
      else if keyword = ''USAGE'' then
        One (\<lambda>v. if validUsage v then Ok (a\<lparr>Usage := v\<rparr>) else Err (UnknownUsage v))
      else if HasPrefix keyword ''X-'' then
        Many (\<lambda>vs. Ok (a\<lparr>at_Extensions := ext_put keyword vs (at_Extensions a)\<rparr>))
      else Unknown (UnknownField ''attribute type'' keyword))"

definition bare_attribute :: "bytes \<Rightarrow> AttributeType" where
  "bare_attribute oid = \<lparr>at_OID = oid, at_Names = [], at_Description = [], at_Hidden = False,
     at_Obsolete = False, Superior = [], Equality = [], Ordering = [], Substring = [], Syntax = [],
     SyntaxLength = 0, SingleValue = False, Collective = False, NoUserModification = False,
     Usage = UsageUserApplications, at_Extensions = []\<rparr>"

definition parseAttributeType :: "(nat \<Rightarrow> nat) \<Rightarrow> bytes \<Rightarrow> resolver \<Rightarrow> (desc_error, AttributeType) go" where
  "parseAttributeType up description resolveOID =
     go_bind (parse_description up resolveOID ''attribute type'' None bare_attribute
       (attribute_field resolveOID) description) (\<lambda>(_, a). Ok a)"

definition ParseAttributeType :: "(nat \<Rightarrow> nat) \<Rightarrow> bytes \<Rightarrow> (desc_error, AttributeType) go" where
  "ParseAttributeType up description = parseAttributeType up description None"

definition class_field :: "bytes \<Rightarrow> ObjectClass \<Rightarrow> ObjectClass field" where
  "class_field keyword oc =
     (if keyword = ''NAME'' then Many (\<lambda>vs. Ok (oc\<lparr>oc_Names := vs\<rparr>))
      else if keyword = ''DESC'' then One (\<lambda>v. Ok (oc\<lparr>oc_Description := v\<rparr>))
      else if keyword = ''OBSOLETE'' then Flag (oc\<lparr>oc_Obsolete := True\<rparr>)
      else if keyword = ''SUP'' then Many (\<lambda>vs. Ok (oc\<lparr>oc_Superiors := vs\<rparr>))
      else if keyword = ''ABSTRACT'' then Flag (oc\<lparr>Kind := ObjectClassAbstract\<rparr>)
      else if keyword = ''STRUCTURAL'' then Flag (oc\<lparr>Kind := ObjectClassStructural\<rparr>)
      else if keyword = ''AUXILIARY'' then Flag (oc\<lparr>Kind := ObjectClassAuxiliary\<rparr>)
      else if keyword = ''MUST'' then Many (\<lambda>vs. Ok (oc\<lparr>oc_Must := vs\<rparr>))
      else if keyword = ''MAY'' then Many (\<lambda>vs. Ok (oc\<lparr>oc_May := vs\<rparr>))
      else if HasPrefix keyword ''X-'' then
        Many (\<lambda>vs. Ok (oc\<lparr>oc_Extensions := ext_put keyword vs (oc_Extensions oc)\<rparr>))
      else Unknown (UnknownField ''object class'' keyword))"

definition bare_class :: "bytes \<Rightarrow> ObjectClass" where
  "bare_class oid = \<lparr>oc_OID = oid, oc_Names = [], oc_Description = [], oc_Obsolete = False, oc_Hidden = False,
     oc_Superiors = [], Kind = ObjectClassStructural, oc_Must = [], oc_May = [], oc_Extensions = []\<rparr>"

definition parseObjectClass :: "(nat \<Rightarrow> nat) \<Rightarrow> bytes \<Rightarrow> resolver \<Rightarrow> (desc_error, ObjectClass) go" where
  "parseObjectClass up description resolveOID =
     go_bind (parse_description up resolveOID ''object class'' None bare_class class_field description)
       (\<lambda>(_, oc). Ok oc)"

definition ParseObjectClass :: "(nat \<Rightarrow> nat) \<Rightarrow> bytes \<Rightarrow> (desc_error, ObjectClass) go" where
  "ParseObjectClass up description = parseObjectClass up description None"

definition content_rule_field :: "bytes \<Rightarrow> DITContentRule \<Rightarrow> DITContentRule field" where
  "content_rule_field keyword r =
     (if keyword = ''NAME'' then Many (\<lambda>vs. Ok (r\<lparr>cr_Names := vs\<rparr>))
      else if keyword = ''DESC'' then One (\<lambda>v. Ok (r\<lparr>cr_Description := v\<rparr>))
      else if keyword = ''OBSOLETE'' then Flag (r\<lparr>cr_Obsolete := True\<rparr>)
      else if keyword = ''AUX'' then Many (\<lambda>vs. Ok (r\<lparr>Auxiliary := vs\<rparr>))
      else if keyword = ''MUST'' then Many (\<lambda>vs. Ok (r\<lparr>cr_Must := vs\<rparr>))
      else if keyword = ''MAY'' then Many (\<lambda>vs. Ok (r\<lparr>cr_May := vs\<rparr>))
      else if keyword = ''NOT'' then Many (\<lambda>vs. Ok (r\<lparr>Not := vs\<rparr>))
      else if HasPrefix keyword ''X-'' then
        Many (\<lambda>vs. Ok (r\<lparr>cr_Extensions := ext_put keyword vs (cr_Extensions r)\<rparr>))
      else Unknown (UnknownField ''DIT content rule'' keyword))"

definition bare_content_rule :: "bytes \<Rightarrow> DITContentRule" where
  "bare_content_rule oid = \<lparr>cr_OID = oid, cr_Names = [], cr_Description = [], cr_Obsolete = False,
     Auxiliary = [], cr_Must = [], cr_May = [], Not = [], cr_Extensions = []\<rparr>"

definition parseDITContentRule :: "(nat \<Rightarrow> nat) \<Rightarrow> bytes \<Rightarrow> resolver \<Rightarrow> (desc_error, DITContentRule) go" where
  "parseDITContentRule up description resolveOID =
     go_bind (parse_description up resolveOID ''DIT content rule'' (Some ''DIT content rule'') bare_content_rule
       content_rule_field description) (\<lambda>(_, r). Ok r)"

definition ParseDITContentRule :: "(nat \<Rightarrow> nat) \<Rightarrow> bytes \<Rightarrow> (desc_error, DITContentRule) go" where
  "ParseDITContentRule up description = parseDITContentRule up description None"

definition name_form_field :: "bytes \<Rightarrow> NameForm \<Rightarrow> NameForm field" where
  "name_form_field keyword f =
     (if keyword = ''NAME'' then Many (\<lambda>vs. Ok (f\<lparr>nf_Names := vs\<rparr>))
      else if keyword = ''DESC'' then One (\<lambda>v. Ok (f\<lparr>nf_Description := v\<rparr>))
      else if keyword = ''OBSOLETE'' then Flag (f\<lparr>nf_Obsolete := True\<rparr>)
      else if keyword = ''OC'' then One (\<lambda>v. Ok (f\<lparr>nf_ObjectClass := v\<rparr>))
      else if keyword = ''MUST'' then Many (\<lambda>vs. Ok (f\<lparr>nf_Must := vs\<rparr>))
      else if keyword = ''MAY'' then Many (\<lambda>vs. Ok (f\<lparr>nf_May := vs\<rparr>))
      else if HasPrefix keyword ''X-'' then
        Many (\<lambda>vs. Ok (f\<lparr>nf_Extensions := ext_put keyword vs (nf_Extensions f)\<rparr>))
      else Unknown (UnknownField ''name form'' keyword))"

definition bare_name_form :: "bytes \<Rightarrow> NameForm" where
  "bare_name_form oid = \<lparr>nf_OID = oid, nf_Names = [], nf_Description = [], nf_Obsolete = False,
     nf_ObjectClass = [], nf_Must = [], nf_May = [], nf_Extensions = []\<rparr>"

definition ParseNameForm :: "(nat \<Rightarrow> nat) \<Rightarrow> bytes \<Rightarrow> (desc_error, NameForm) go" where
  "ParseNameForm up description =
     go_bind (parse_description up None ''name form'' (Some ''name form'') bare_name_form name_form_field description)
       (\<lambda>(n_tokens, f).
         if nf_ObjectClass f = [] then Err (Near n_tokens (RequiresField ''name form'' ''OC''))
         else if nf_Must f = [] then Err (Near n_tokens (RequiresField ''name form'' ''MUST''))
         else Ok f)"

definition structure_rule_field :: "bytes \<Rightarrow> DITStructureRule \<Rightarrow> DITStructureRule field" where
  "structure_rule_field keyword r =
     (if keyword = ''NAME'' then Many (\<lambda>vs. Ok (r\<lparr>sr_Names := vs\<rparr>))
      else if keyword = ''DESC'' then One (\<lambda>v. Ok (r\<lparr>sr_Description := v\<rparr>))
      else if keyword = ''OBSOLETE'' then Flag (r\<lparr>sr_Obsolete := True\<rparr>)
      else if keyword = ''FORM'' then One (\<lambda>v. Ok (r\<lparr>Form := v\<rparr>))
      else if keyword = ''SUP'' then IDs (\<lambda>ids. Ok (r\<lparr>sr_Superiors := ids\<rparr>))
      else if HasPrefix keyword ''X-'' then
        Many (\<lambda>vs. Ok (r\<lparr>sr_Extensions := ext_put keyword vs (sr_Extensions r)\<rparr>))
      else Unknown (UnknownField ''DIT structure rule'' keyword))"

definition bare_structure_rule :: "int \<Rightarrow> DITStructureRule" where
  "bare_structure_rule n = \<lparr>RuleID = n, sr_Names = [], sr_Description = [], sr_Obsolete = False,
     Form = [], sr_Superiors = [], sr_Extensions = []\<rparr>"

definition ParseDITStructureRule :: "(nat \<Rightarrow> nat) \<Rightarrow> bytes \<Rightarrow> (desc_error, DITStructureRule) go" where
  "ParseDITStructureRule up description =
     go_bind (newDescriptionParser description) (\<lambda>tokens.
       case take_token tokens of (t, rest) \<Rightarrow>
         go_bind (go_wrap (Near (length tokens - length rest)) (parseRuleID t)) (\<lambda>n.
         go_bind (field_loop up (Some ''DIT structure rule'') structure_rule_field (length tokens) [] rest
           (bare_structure_rule n)) (\<lambda>(_, r).
           if Form r = [] then Err (Near (length tokens) (RequiresField ''DIT structure rule'' ''FORM''))
           else Ok r)))"

section \<open>Matching rules\<close>

definition ValidString :: "bytes \<Rightarrow> bool" where
  "ValidString s \<longleftrightarrow> list_all (\<lambda>(r, b). \<not> (r = RuneError \<and> length b = 1)) (segments s)"

definition maxMatchingRuleDescriptionSize :: nat where "maxMatchingRuleDescriptionSize = 1048576"
definition maxMatchingRuleDescriptionTokens :: nat where "maxMatchingRuleDescriptionTokens = 65536"

definition matchingRuleSpace :: "char \<Rightarrow> bool" where
  "matchingRuleSpace c \<longleftrightarrow> ord c = 32 \<or> ord c = 9 \<or> ord c = 13 \<or> ord c = 10 \<or> ord c = 11 \<or> ord c = 12"

definition rule_trim :: "bytes \<Rightarrow> bytes" where
  "rule_trim s = rev (dropWhile matchingRuleSpace (rev (dropWhile matchingRuleSpace s)))"

text \<open>An unquoted token.\<close>

fun rule_word :: "bytes \<Rightarrow> (desc_error, bytes \<times> bytes) go" where
  "rule_word [] = Ok ([], [])"
| "rule_word (c # s) =
     (if matchingRuleSpace c \<or> c = CHR ''('' \<or> c = CHR '')'' \<or> c = CHR ''$'' then Ok ([], c # s)
      else if c = CHR 0x27 then Err MissingSeparatorBefore
      else if ord c < 0x21 \<or> 0x7e < ord c then Err NotASCIIIdentifier
      else go_bind (rule_word s) (\<lambda>(w, rest). Ok (c # w, rest)))"

lemma rule_word_length: "rule_word s = Ok (w, rest) \<Longrightarrow> length rest \<le> length s"
  by (induction s arbitrary: w rest rule: rule_word.induct) (fastforce split: if_splits)+

function rule_tokens :: "nat \<Rightarrow> bytes \<Rightarrow> (desc_error, bytes list) go" where
  "rule_tokens n input =
     (case input of [] \<Rightarrow> Ok []
      | c # s \<Rightarrow>
        if matchingRuleSpace c then rule_tokens n s
        else if n = maxMatchingRuleDescriptionTokens then Err TooManyTokens
        else if c = CHR ''('' \<or> c = CHR '')'' \<or> c = CHR ''$'' then
          go_bind (rule_tokens (Suc n) s) (\<lambda>tokens. Ok ([c] # tokens))
        else if c = CHR 0x27 then
          (case readQuoted s of
             Ok (v, rest) \<Rightarrow>
               if \<not> ValidString v then Err QuotedNotUTF8
               else if rest \<noteq> [] \<and> \<not> matchingRuleSpace (hd rest) \<and> hd rest \<noteq> CHR '')''
               then Err MissingSeparatorAfter
               else go_bind (rule_tokens (Suc n) rest)
                 (\<lambda>tokens. Ok (take (length input - length rest) input # tokens))
           | Err e \<Rightarrow> Err e
           | Panic \<Rightarrow> Panic)
        else if ord c < 0x21 \<or> 0x7e < ord c then Err NotASCIIIdentifier
        else (case rule_word s of
            Ok (w, rest) \<Rightarrow> go_bind (rule_tokens (Suc n) rest) (\<lambda>tokens. Ok ((c # w) # tokens))
          | Err e \<Rightarrow> Err e
          | Panic \<Rightarrow> Panic))"
  by pat_completeness auto
termination
  by (relation "measure (length \<circ> snd)")
    (auto dest: readQuoted_length rule_word_length simp: le_imp_less_Suc)

declare rule_tokens.simps [simp del]

definition newMatchingRuleDescriptionParser :: "bytes \<Rightarrow> (desc_error, bytes list) go" where
  "newMatchingRuleDescriptionParser description =
     (if maxMatchingRuleDescriptionSize < length description then Err DescriptionTooLong
      else if \<not> ValidString description then Err DescriptionNotUTF8
      else
        let description = rule_trim description in
        go_bind
          (if HasPrefix description ''{'' then
             (case Cut (CHR ''}'') description of (before, after, found) \<Rightarrow>
                if \<not> found \<or> length before < 2 then Err InvalidOrderingPrefix
                else (case parseRuleID (drop 1 before) of
                    Ok _ \<Rightarrow> Ok (rule_trim after)
                  | _ \<Rightarrow> Err InvalidOrderingPrefix))
           else Ok description)
          (\<lambda>description. go_bind (rule_tokens 0 description) enclosed))"

definition validMatchingRuleExtension :: "bytes \<Rightarrow> bool" where
  "validMatchingRuleExtension name \<longleftrightarrow>
     HasPrefix name ''X-'' \<and> length name \<noteq> 2 \<and>
     list_all (\<lambda>c. isASCIILetter c \<or> c = CHR ''-'' \<or> c = CHR ''_'') (drop 2 name)"

definition rule_field :: "bool \<Rightarrow> bytes \<Rightarrow> MatchingRule \<times> bytes list \<Rightarrow> (MatchingRule \<times> bytes list) field" where
  "rule_field for_use keyword = (\<lambda>(r, applies).
     if keyword = ''NAME'' then Quoted True (\<lambda>vs. Ok (r\<lparr>mr_Names := vs\<rparr>, applies))
     else if keyword = ''DESC'' then QuotedOne (\<lambda>v. Ok (r\<lparr>mr_Description := v\<rparr>, applies))
     else if keyword = ''OBSOLETE'' then Flag (r\<lparr>mr_Obsolete := True\<rparr>, applies)
     else if keyword = ''SYNTAX'' \<and> \<not> for_use then
       NumericOID ''matching rule syntax'' (\<lambda>v. Ok (r\<lparr>mr_Syntax := v\<rparr>, applies))
     else if keyword = ''APPLIES'' \<and> for_use then AppliesTo (\<lambda>vs. Ok (r, vs))
     else if validMatchingRuleExtension keyword then
       Quoted False (\<lambda>vs. Ok (r\<lparr>mr_Extensions := ext_put keyword vs (mr_Extensions r)\<rparr>, applies))
     else Unknown (UnknownField ''matching rule'' keyword))"

definition bare_rule :: "bytes \<Rightarrow> MatchingRule \<times> bytes list" where
  "bare_rule oid = (\<lparr>mr_OID = oid, mr_Names = [], mr_Description = [], mr_Obsolete = False,
     mr_Syntax = [], mr_Extensions = []\<rparr>, [])"

definition parseMatchingRuleDescription ::
  "(nat \<Rightarrow> nat) \<Rightarrow> bytes \<Rightarrow> bool \<Rightarrow> (desc_error, MatchingRule \<times> bytes list) go" where
  "parseMatchingRuleDescription up description for_use =
     go_bind (newMatchingRuleDescriptionParser description) (\<lambda>tokens.
       case readNumericOID None ''matching rule'' tokens of (r, rest) \<Rightarrow>
         go_bind (go_wrap (Near (length tokens - length rest)) r) (\<lambda>oid.
         go_bind (field_loop up (Some ''matching rule'') (rule_field for_use) (length tokens) [] rest
           (bare_rule oid)) (\<lambda>(seen, s).
           let required = (if for_use then ''APPLIES'' else ''SYNTAX'') in
           if required \<notin> set seen
           then Err (Near (length tokens) (RequiresField ''matching rule description'' required))
           else Ok s)))"

definition ParseMatchingRule :: "(nat \<Rightarrow> nat) \<Rightarrow> bytes \<Rightarrow> (desc_error, MatchingRule) go" where
  "ParseMatchingRule up description =
     go_bind (parseMatchingRuleDescription up description False) (\<lambda>(rule, _). Ok rule)"

definition ParseMatchingRuleUse :: "(nat \<Rightarrow> nat) \<Rightarrow> bytes \<Rightarrow> (desc_error, MatchingRuleUse) go" where
  "ParseMatchingRuleUse up description =
     go_bind (parseMatchingRuleDescription up description True) (\<lambda>(rule, applies).
       Ok \<lparr>mu_OID = mr_OID rule, mu_Names = mr_Names rule, mu_Description = mr_Description rule,
         mu_Obsolete = mr_Obsolete rule, Applies = applies, mu_Extensions = mr_Extensions rule\<rparr>)"

section \<open>Writing descriptions\<close>

definition upper_hex :: "nat \<Rightarrow> char" where
  "upper_hex n = char_of (if n < 10 then 48 + n else 55 + n)"

definition quoted_byte :: "char \<Rightarrow> bytes" where
  "quoted_byte c =
     (if c = CHR 0x27 \<or> c = CHR 0x5C \<or> ord c < 0x20 \<or> ord c = 0x7f
      then [CHR 0x5C, upper_hex (ord c div 16), upper_hex (ord c mod 16)] else [c])"

definition quoteSchemaValue :: "bytes \<Rightarrow> bytes" where
  "quoteSchemaValue v = CHR 0x27 # concat (map quoted_byte v) @ [CHR 0x27]"

definition formatQuotedList :: "bytes list \<Rightarrow> bytes" where
  "formatQuotedList vs =
     (let quoted = map quoteSchemaValue vs in
      if length quoted = 1 then quoted ! 0 else ''( '' @ Join quoted '' '' @ '' )'')"

definition formatOIDList :: "bytes list \<Rightarrow> bytes" where
  "formatOIDList vs = (if length vs = 1 then vs ! 0 else ''( '' @ Join vs '' $ '' @ '' )'')"

definition formatRuleIDList :: "int list \<Rightarrow> bytes" where
  "formatRuleIDList vs =
     (let formatted = map FormatInt vs in
      if length formatted = 1 then formatted ! 0 else ''( '' @ Join formatted '' '' @ '' )'')"

definition appendExtensions :: "(nat \<Rightarrow> nat) \<Rightarrow> bytes list \<Rightarrow> extensions \<Rightarrow> bytes list" where
  "appendExtensions up written xs =
     written @ concat (map (\<lambda>(name, vs). [ToUpper up name, formatQuotedList vs]) xs)"

text \<open>The optional fields of a description.\<close>

definition names_field :: "bytes list \<Rightarrow> bytes list" where
  "names_field names = (if names \<noteq> [] then [''NAME'', formatQuotedList names] else [])"

definition desc_field :: "bytes \<Rightarrow> bytes list" where
  "desc_field d = (if d \<noteq> [] then [''DESC'', quoteSchemaValue d] else [])"

definition flag_field :: "bytes \<Rightarrow> bool \<Rightarrow> bytes list" where
  "flag_field keyword b = (if b then [keyword] else [])"

definition text_field :: "bytes \<Rightarrow> bytes \<Rightarrow> bytes list" where
  "text_field keyword v = (if v \<noteq> [] then [keyword, v] else [])"

definition oids_field :: "bytes \<Rightarrow> bytes list \<Rightarrow> bytes list" where
  "oids_field keyword vs = (if vs \<noteq> [] then [keyword, formatOIDList vs] else [])"

definition FormatLDAPSyntax :: "(nat \<Rightarrow> nat) \<Rightarrow> LDAPSyntax \<Rightarrow> bytes" where
  "FormatLDAPSyntax up x =
     Join (appendExtensions up ([''('', ls_OID x] @ desc_field (ls_Description x)) (ls_Extensions x) @ ['')'']) '' ''"

definition FormatAttributeType :: "(nat \<Rightarrow> nat) \<Rightarrow> AttributeType \<Rightarrow> bytes" where
  "FormatAttributeType up a =
     Join (appendExtensions up
       ([''('', at_OID a] @
        names_field (at_Names a) @
        desc_field (at_Description a) @
        flag_field ''OBSOLETE'' (at_Obsolete a) @
        text_field ''SUP'' (Superior a) @
        text_field ''EQUALITY'' (Equality a) @
        text_field ''ORDERING'' (Ordering a) @
        text_field ''SUBSTR'' (Substring a) @
        (if Syntax a \<noteq> []
         then [''SYNTAX'', Syntax a @ (if 0 < SyntaxLength a then ''{'' @ FormatInt (SyntaxLength a) @ ''}'' else [])]
         else []) @
        flag_field ''SINGLE-VALUE'' (SingleValue a) @
        flag_field ''COLLECTIVE'' (Collective a) @
        flag_field ''NO-USER-MODIFICATION'' (NoUserModification a) @
        (if Usage a \<noteq> [] \<and> Usage a \<noteq> UsageUserApplications then [''USAGE'', Usage a] else []))
       (at_Extensions a) @ ['')'']) '' ''"

definition FormatObjectClass :: "(nat \<Rightarrow> nat) \<Rightarrow> ObjectClass \<Rightarrow> bytes" where
  "FormatObjectClass up oc =
     Join (appendExtensions up
       ([''('', oc_OID oc] @
        names_field (oc_Names oc) @
        desc_field (oc_Description oc) @
        flag_field ''OBSOLETE'' (oc_Obsolete oc) @
        oids_field ''SUP'' (oc_Superiors oc) @
        (if Kind oc \<noteq> [] then [Kind oc] else []) @
        oids_field ''MUST'' (oc_Must oc) @
        oids_field ''MAY'' (oc_May oc))
       (oc_Extensions oc) @ ['')'']) '' ''"

definition FormatDITContentRule :: "(nat \<Rightarrow> nat) \<Rightarrow> DITContentRule \<Rightarrow> bytes" where
  "FormatDITContentRule up r =
     Join (appendExtensions up
       ([''('', cr_OID r] @
        names_field (cr_Names r) @
        desc_field (cr_Description r) @
        flag_field ''OBSOLETE'' (cr_Obsolete r) @
        oids_field ''AUX'' (Auxiliary r) @
        oids_field ''MUST'' (cr_Must r) @
        oids_field ''MAY'' (cr_May r) @
        oids_field ''NOT'' (Not r))
       (cr_Extensions r) @ ['')'']) '' ''"

definition FormatNameForm :: "(nat \<Rightarrow> nat) \<Rightarrow> NameForm \<Rightarrow> bytes" where
  "FormatNameForm up f =
     Join (appendExtensions up
       ([''('', nf_OID f] @
        names_field (nf_Names f) @
        desc_field (nf_Description f) @
        flag_field ''OBSOLETE'' (nf_Obsolete f) @
        [''OC'', nf_ObjectClass f] @
        [''MUST'', formatOIDList (nf_Must f)] @
        oids_field ''MAY'' (nf_May f))
       (nf_Extensions f) @ ['')'']) '' ''"

definition FormatDITStructureRule :: "(nat \<Rightarrow> nat) \<Rightarrow> DITStructureRule \<Rightarrow> bytes" where
  "FormatDITStructureRule up r =
     Join (appendExtensions up
       ([''('', FormatInt (RuleID r)] @
        names_field (sr_Names r) @
        desc_field (sr_Description r) @
        flag_field ''OBSOLETE'' (sr_Obsolete r) @
        [''FORM'', Form r] @
        (if sr_Superiors r \<noteq> [] then [''SUP'', formatRuleIDList (sr_Superiors r)] else []))
       (sr_Extensions r) @ ['')'']) '' ''"

definition formatMatchingRuleFields :: "bytes \<Rightarrow> bytes list \<Rightarrow> bytes \<Rightarrow> bool \<Rightarrow> bytes list" where
  "formatMatchingRuleFields oid names description obsolete =
     [''('', oid] @ names_field names @ desc_field description @ flag_field ''OBSOLETE'' obsolete"

definition FormatMatchingRule :: "(nat \<Rightarrow> nat) \<Rightarrow> MatchingRule \<Rightarrow> bytes" where
  "FormatMatchingRule up r =
     Join (appendExtensions up
       (formatMatchingRuleFields (mr_OID r) (mr_Names r) (mr_Description r) (mr_Obsolete r) @
        [''SYNTAX'', mr_Syntax r])
       (mr_Extensions r) @ ['')'']) '' ''"

definition FormatMatchingRuleUse :: "(nat \<Rightarrow> nat) \<Rightarrow> MatchingRuleUse \<Rightarrow> bytes" where
  "FormatMatchingRuleUse up r =
     Join (appendExtensions up
       (formatMatchingRuleFields (mu_OID r) (mu_Names r) (mu_Description r) (mu_Obsolete r) @
        [''APPLIES'', formatOIDList (Applies r)])
       (mu_Extensions r) @ ['')'']) '' ''"

end
