(* ===== verification/Schema_Description_Facts.thy ===== *)
theory Schema_Description_Facts
  imports Schema_Description
begin

text \<open>
  Definitions and their texts. A piece of text is described by the tokens it adds wherever it stands
  (\<open>lexes\<close>); a formatted definition is its identifier and a list of segments, each a keyword with
  the texts behind it, the tokens of these and what reading them does to the record
  (\<open>parse_description_written\<close>). From this the parser reads back what the formatter wrote, for
  each of the six kinds. \<open>field_loop_invariant\<close> carries what holds of a record through the loop
  over the fields, from which follows what a parsed attribute type looks like. The last section has
  the values that quotes do not protect.
\<close>

section \<open>Trimming\<close>

lemma DecodeRune_ascii_end: "s \<noteq> [] \<Longrightarrow> ord c < 128 \<Longrightarrow> DecodeRune (s @ [c]) = DecodeRune s"
  by (auto simp: DecodeRune_def second_ok_def continuation_def split: list.split)

lemma segments_ascii_end: "ord c < 128 \<Longrightarrow> segments (s @ [c]) = segments s @ [(ord c, [c])]"
proof (induction s rule: segments.induct)
  case (1 s)
  show ?case
  proof (cases "s = []")
    case False
    let ?w = "snd (DecodeRune s)"
    have w: "?w \<le> length s"
      using False by (auto simp: DecodeRune_def split: list.split)
    have IH: "segments (drop ?w s @ [c]) = segments (drop ?w s) @ [(ord c, [c])]"
      using "1.IH" [OF False refl] 1(2) by (metis prod.collapse)
    have "segments (s @ [c]) = (fst (DecodeRune s), take ?w s) # segments (drop ?w s @ [c])"
      using False 1(2) w by (subst segments.simps) (simp add: DecodeRune_ascii_end Let_def split_beta)
    moreover have "segments s = (fst (DecodeRune s), take ?w s) # segments (drop ?w s)"
      using False by (subst segments.simps) (simp add: Let_def split_beta)
    ultimately show ?thesis
      using IH by simp
  qed (use 1(2) in simp)
qed

lemma TrimSpace_between:
  "ord a < 128 \<Longrightarrow> ord b < 128 \<Longrightarrow> \<not> is_space (ord a) \<Longrightarrow> \<not> is_space (ord b) \<Longrightarrow>
    TrimSpace (a # s @ [b]) = a # s @ [b]"
  using segments_ascii_end [of b "a # s"] concat_segments [of s] by (simp add: TrimSpace_def)

section \<open>What a piece of text adds to the tokens\<close>

definition lexes :: "bytes \<Rightarrow> bytes list \<Rightarrow> bool" where
  "lexes s ts \<longleftrightarrow> (\<forall>rest. (rest = [] \<or> delimiter (hd rest)) \<longrightarrow>
     tokenize (s @ rest) = go_bind (tokenize rest) (\<lambda>tokens. Ok (ts @ tokens)))"

lemma tokenize_Nil [simp]: "tokenize [] = Ok []"
  by (simp add: tokenize.simps)

lemma tokenize_space [simp]: "tokenize (CHR '' '' # s) = tokenize s"
  by (subst tokenize.simps) (simp add: is_space_def)

lemma delimiter_space [simp]: "delimiter (CHR '' '')"
  by (simp add: delimiter_def is_space_def)

lemma go_bind_Ok_assoc [simp]:
  "go_bind (go_bind m (\<lambda>x. Ok (f x))) (\<lambda>y. Ok (g y)) = go_bind m (\<lambda>x. Ok (g (f x)))"
  by (cases m) auto

lemma lexes_tokenize: "lexes s ts \<Longrightarrow> tokenize s = Ok ts"
  unfolding lexes_def by (drule spec [of _ "[]"]) simp

lemma lexes_space:
  assumes "lexes a ts" "lexes b us"
  shows "lexes (a @ '' '' @ b) (ts @ us)"
  using assms by (auto simp: lexes_def)

lemma lexes_Join: "list_all2 lexes texts tss \<Longrightarrow> texts \<noteq> [] \<Longrightarrow> lexes (Join texts '' '') (concat tss)"
proof (induction texts tss rule: list_all2_induct)
  case (Cons x xs ts tss)
  then show ?case
    by (cases xs) (auto simp: Join_Cons intro: lexes_space [simplified])
qed simp

definition special :: "bytes \<Rightarrow> bool" where
  "special v \<longleftrightarrow> v = ''('' \<or> v = '')'' \<or> v = ''$''"

text \<open>A value that can be written without quotes.\<close>

definition bare_word :: "bytes \<Rightarrow> bool" where
  "bare_word v \<longleftrightarrow> v \<noteq> [] \<and> hd v \<noteq> CHR 0x27 \<and> list_all (\<lambda>c. \<not> delimiter c) v"

lemma bare_word_not_special [simp]: "bare_word v \<Longrightarrow> \<not> special v"
  by (auto simp: bare_word_def special_def delimiter_def)

lemma lexes_bare: "bare_word v \<Longrightarrow> lexes v [v]"
  unfolding lexes_def
proof (intro allI impI)
  fix rest
  assume v: "bare_word v" and rest: "rest = [] \<or> delimiter (hd rest)"
  obtain c s where cs: "v = c # s" "list_all (\<lambda>c. \<not> delimiter c) s" "\<not> delimiter c" "c \<noteq> CHR 0x27"
    using v by (cases v) (auto simp: bare_word_def)
  have "takeWhile (\<lambda>c. \<not> delimiter c) (s @ rest) = s" "dropWhile (\<lambda>c. \<not> delimiter c) (s @ rest) = rest"
    using cs(2) rest by (cases rest; auto simp: takeWhile_append2 dropWhile_append2 list_all_iff)+
  then show "tokenize (v @ rest) = go_bind (tokenize rest) (\<lambda>tokens. Ok ([v] @ tokens))"
    using cs by (subst tokenize.simps) (simp add: delimiter_def)
qed

lemma lexes_special: "special v \<Longrightarrow> lexes v [v]"
  unfolding lexes_def special_def by (auto simp: tokenize.simps [of "_ # _"] is_space_def)

lemma hex_digit_upper_hex [simp]: "n < 16 \<Longrightarrow> hex_digit (upper_hex n) = Some n"
proof -
  assume n: "n < 16"
  have "ord (upper_hex n) = (if n < 10 then 48 + n else 55 + n)"
    using n by (simp add: upper_hex_def)
  then show ?thesis
    using n by (auto simp: hex_digit_def)
qed

lemma upper_hex_div: "ord c div 16 < 16"
  using nat_of_char_less_256 [of c] by (simp del: nat_of_char_less_256 add: less_mult_imp_div_less)

lemma readQuoted_quoted_byte:
  "readQuoted (quoted_byte c @ s) = go_bind (readQuoted s) (\<lambda>(v, rest). Ok (c # v, rest))"
proof (cases "c = CHR 0x27 \<or> c = CHR 0x5C \<or> ord c < 0x20 \<or> ord c = 0x7f")
  case True
  have "char_of (ord c div 16 * 16 + ord c mod 16) = c"
    by (simp add: div_mult_mod_eq)
  then show ?thesis
    using True upper_hex_div [of c] by (simp add: quoted_byte_def)
qed (auto simp: quoted_byte_def)

lemma readQuoted_quoted: "readQuoted (concat (map quoted_byte v) @ CHR 0x27 # rest) = Ok (v, rest)"
  by (induction v) (simp_all add: readQuoted_quoted_byte)

lemma lexes_quote: "lexes (quoteSchemaValue v) [v]"
  unfolding lexes_def
  by (auto simp: tokenize.simps [of "_ # _"] is_space_def quoteSchemaValue_def readQuoted_quoted)

section \<open>Lists of values\<close>

definition list_tokens :: "bytes list \<Rightarrow> bytes list" where
  "list_tokens vs = (if length vs = 1 then vs else [''(''] @ vs @ ['')''])"

primrec dollar_tokens :: "bytes list \<Rightarrow> bytes list" where
  "dollar_tokens [] = []"
| "dollar_tokens (v # vs) = v # (if vs = [] then [] else ''$'' # dollar_tokens vs)"

definition oids_tokens :: "bytes list \<Rightarrow> bytes list" where
  "oids_tokens vs = (if length vs = 1 then vs else [''(''] @ dollar_tokens vs @ ['')''])"

lemma lexes_parens: "lexes s ts \<Longrightarrow> lexes (''( '' @ s @ '' )'') ([''(''] @ ts @ ['')''])"
  using lexes_space [OF lexes_special [of "''(''"] lexes_space [OF _ lexes_special [of "'')''"]]]
  by (simp add: special_def)

lemma lexes_quoted_list: "vs \<noteq> [] \<Longrightarrow> lexes (formatQuotedList vs) (list_tokens vs)"
proof -
  assume vs: "vs \<noteq> []"
  have "list_all2 lexes (map quoteSchemaValue vs) (map (\<lambda>v. [v]) vs)"
    by (simp add: list_all2_map1 list_all2_map2 list_all2_same lexes_quote)
  from lexes_Join [OF this] have "lexes (Join (map quoteSchemaValue vs) '' '') vs"
    using vs by (simp add: concat_map_singleton)
  moreover have "length vs = 1 \<Longrightarrow> lexes (quoteSchemaValue (vs ! 0)) vs"
    by (cases vs) (auto simp: lexes_quote)
  ultimately show ?thesis
    unfolding formatQuotedList_def list_tokens_def Let_def using lexes_parens by fastforce
qed

lemma Join_dollar: "Join vs '' $ '' = Join (dollar_tokens vs) '' ''"
proof (induction vs)
  case (Cons v vs)
  then show ?case
    by (cases vs) (auto simp: Join_Cons)
qed simp

lemma lexes_words: "list_all bare_word vs \<Longrightarrow> vs \<noteq> [] \<Longrightarrow> lexes (Join (dollar_tokens vs) '' '') (dollar_tokens vs)"
proof -
  assume vs: "list_all bare_word vs" "vs \<noteq> []"
  have "list_all (\<lambda>v. bare_word v \<or> special v) (dollar_tokens vs)"
    using vs(1) by (induction vs) (auto simp: special_def)
  then have "list_all2 lexes (dollar_tokens vs) (map (\<lambda>v. [v]) (dollar_tokens vs))"
    by (auto simp: list_all2_map2 list_all2_same list_all_iff intro: lexes_bare lexes_special)
  from lexes_Join [OF this] show ?thesis
    using vs(2) by (cases vs) (auto simp: concat_map_singleton)
qed

lemma lexes_oid_list: "list_all bare_word vs \<Longrightarrow> vs \<noteq> [] \<Longrightarrow> lexes (formatOIDList vs) (oids_tokens vs)"
proof -
  assume vs: "list_all bare_word vs" "vs \<noteq> []"
  have "length vs = 1 \<Longrightarrow> lexes (vs ! 0) vs"
    using vs by (cases vs) (auto simp: lexes_bare)
  with lexes_words [OF vs] show ?thesis
    unfolding formatOIDList_def oids_tokens_def Join_dollar using lexes_parens by fastforce
qed

lemma list_values_run:
  "list_all (\<lambda>v. v \<noteq> ''('' \<and> v \<noteq> '')'') ts \<Longrightarrow> values @ filter (\<lambda>v. v \<noteq> ''$'') ts \<noteq> [] \<Longrightarrow>
    list_values (ts @ '')'' # rest) values = (Ok (values @ filter (\<lambda>v. v \<noteq> ''$'') ts), rest)"
  by (induction ts arbitrary: "values") auto

lemma readList_tokens:
  "vs \<noteq> [] \<Longrightarrow> list_all (\<lambda>v. \<not> special v) vs \<Longrightarrow> readList (list_tokens vs @ rest) = (Ok vs, rest)"
proof -
  assume vs: "vs \<noteq> []" "list_all (\<lambda>v. \<not> special v) vs"
  have "filter (\<lambda>v. v \<noteq> ''$'') vs = vs" "list_all (\<lambda>v. v \<noteq> ''('' \<and> v \<noteq> '')'') vs"
    using vs(2) by (auto simp: filter_id_conv list_all_iff special_def)
  with list_values_run [of vs "[]" rest] vs show ?thesis
    by (cases vs) (auto simp: list_tokens_def readList_def readOne_def special_def)
qed

lemma dollar_tokens_filter:
  "list_all (\<lambda>v. \<not> special v) vs \<Longrightarrow> filter (\<lambda>v. v \<noteq> ''$'') (dollar_tokens vs) = vs"
  by (induction vs) (auto simp: special_def)

lemma dollar_tokens_flat:
  "list_all (\<lambda>v. \<not> special v) vs \<Longrightarrow> list_all (\<lambda>v. v \<noteq> ''('' \<and> v \<noteq> '')'') (dollar_tokens vs)"
  by (induction vs) (auto simp: special_def)

lemma readList_oids:
  "vs \<noteq> [] \<Longrightarrow> list_all (\<lambda>v. \<not> special v) vs \<Longrightarrow> readList (oids_tokens vs @ rest) = (Ok vs, rest)"
  using list_values_run [of "dollar_tokens vs" "[]" rest]
  by (cases vs)
    (auto simp: oids_tokens_def readList_def readOne_def special_def dollar_tokens_filter [unfolded special_def]
      dollar_tokens_flat [unfolded special_def])

lemma readOne_token: "\<not> special v \<Longrightarrow> readOne (v # rest) = (Ok v, rest)"
  by (simp add: readOne_def special_def)

section \<open>Numbers of structure rules\<close>

lemma digits_bare: "s \<noteq> [] \<Longrightarrow> list_all is_digit s \<Longrightarrow> bare_word s"
  by (cases s) (auto simp: bare_word_def list_all_iff delimiter_def is_space_def is_digit_def)

lemma FormatInt_digits: "0 \<le> n \<Longrightarrow> FormatInt n \<noteq> [] \<and> list_all is_digit (FormatInt n)"
  using dec_digits_props [of "nat n"] by (simp add: FormatInt_def)

lemma FormatInt_bare: "0 \<le> n \<Longrightarrow> bare_word (FormatInt n)"
  using FormatInt_digits [of n] digits_bare by blast

lemma parseRuleID_FormatInt: "0 \<le> n \<Longrightarrow> n < 2 ^ 31 \<Longrightarrow> parseRuleID (FormatInt n) = Ok n"
  using FormatInt_digits [of n] ParseInt_FormatInt [of n] by (simp add: parseRuleID_def)

lemma rule_ids_run:
  "list_all (\<lambda>n. 0 \<le> n \<and> n < 2 ^ 31) ns \<Longrightarrow> ids @ ns \<noteq> [] \<Longrightarrow>
    rule_ids (map FormatInt ns @ '')'' # rest) ids = (Ok (ids @ ns), rest)"
proof (induction ns arbitrary: ids)
  case (Cons n ns)
  then have "\<not> special (FormatInt n)"
    by (simp add: FormatInt_bare)
  with Cons show ?case
    by (simp add: parseRuleID_FormatInt special_def)
qed simp

lemma readRuleIDs_tokens:
  assumes "list_all (\<lambda>n. 0 \<le> n \<and> n < 2 ^ 31) ns" "ns \<noteq> []"
  shows "readRuleIDs (list_tokens (map FormatInt ns) @ rest) = (Ok ns, rest)"
proof (cases "length ns = 1")
  case True
  then obtain n where n: "ns = [n]"
    by (cases ns) auto
  then have "\<not> special (FormatInt n)"
    using assms by (simp add: FormatInt_bare)
  then show ?thesis
    using assms n by (simp add: readRuleIDs_def list_tokens_def parseRuleID_FormatInt special_def)
qed (use assms rule_ids_run [of ns "[]" rest] in \<open>simp add: readRuleIDs_def list_tokens_def\<close>)

lemma lexes_rule_ids:
  assumes "list_all (\<lambda>n. 0 \<le> n \<and> n < 2 ^ 31) ns" "ns \<noteq> []"
  shows "lexes (formatRuleIDList ns) (list_tokens (map FormatInt ns))"
proof -
  have "list_all2 lexes (map FormatInt ns) (map (\<lambda>v. [v]) (map FormatInt ns))"
    using assms(1) by (auto simp: list_all2_map1 list_all2_map2 list_all2_same list_all_iff
      intro!: lexes_bare FormatInt_bare)
  from lexes_Join [OF this] have "lexes (Join (map FormatInt ns) '' '') (map FormatInt ns)"
    using assms(2) by (simp del: map_map add: concat_map_singleton)
  moreover have "length ns = 1 \<Longrightarrow> lexes (FormatInt (ns ! 0)) (map FormatInt ns)"
    using assms by (cases ns) (auto intro: lexes_bare FormatInt_bare)
  ultimately show ?thesis
    using assms(2) unfolding formatRuleIDList_def list_tokens_def Let_def
    by (auto simp: nth_map intro: lexes_parens [simplified])
qed

section \<open>A description from its pieces\<close>

lemma newDescriptionParser_texts:
  assumes texts: "list_all2 lexes texts tss" and some: "concat tss \<noteq> []"
  shows "newDescriptionParser (Join (''('' # texts @ ['')'']) '' '') = Ok (concat tss)"
proof -
  let ?all = "''('' # texts @ ['')'']"
  have "list_all2 lexes ?all ([''(''] # tss @ [['')'']])"
    using texts by (simp add: list_all2_appendI lexes_special special_def)
  from lexes_tokenize [OF lexes_Join [OF this]]
  have tokens: "tokenize (Join ?all '' '') = Ok ([''(''] @ concat tss @ ['')''])"
    by simp
  obtain m where m: "Join ?all '' '' = CHR ''('' # m @ [CHR '')'']"
  proof
    show "Join ?all '' '' = CHR ''('' # ('' '' @ (if texts = [] then [] else Join texts '' '' @ '' '')) @ [CHR '')'']"
      by (simp add: Join_Cons Join_append)
  qed
  have trim: "TrimSpace (Join ?all '' '') = Join ?all '' ''"
    unfolding m by (rule TrimSpace_between) (simp_all add: is_space_def)
  have "\<not> HasPrefix (Join ?all '' '') ''{''"
    unfolding m by (simp add: HasPrefix_def)
  moreover have "enclosed ([''(''] @ concat tss @ ['')'']) = Ok (concat tss)"
    using some by (cases "concat tss") (auto simp: enclosed_def nth_append butlast_append)
  ultimately show ?thesis
    by (simp add: newDescriptionParser_def ordering_prefix_def trim tokens del: Join.simps)
qed

text \<open>
  A field as it is written and read: its keyword, the texts behind it, the tokens of these, and
  what reading it does to the record.
\<close>

type_synonym 's segment = "bytes \<times> bytes list \<times> bytes list \<times> ('s \<Rightarrow> 's)"

definition segment_ok :: "(nat \<Rightarrow> nat) \<Rightarrow> (bytes \<Rightarrow> 's \<Rightarrow> 's field) \<Rightarrow> 's segment \<Rightarrow> bool" where
  "segment_ok up h = (\<lambda>(k, txts, ts, f).
     ToUpper up k = k \<and> bare_word k \<and> (\<exists>tss. list_all2 lexes txts tss \<and> concat tss = ts) \<and>
     (\<forall>n s rest. run_field n (h k s) (ts @ rest) = (Ok (f s), rest)))"

definition written :: "'s segment list \<Rightarrow> bytes list" where
  "written segs = concat (map (\<lambda>(k, txts, _). k # txts) segs)"

definition seg_tokens :: "'s segment list \<Rightarrow> bytes list" where
  "seg_tokens segs = concat (map (\<lambda>(k, _, ts, _). k # ts) segs)"

definition effect :: "'s segment list \<Rightarrow> 's \<Rightarrow> 's" where
  "effect segs = fold (\<lambda>(_, _, _, f). f) segs"

lemma segment_simps [simp]:
  "written [] = []" "written (a @ b) = written a @ written b"
  "written ((k, txts, ts, f) # segs) = k # txts @ written segs"
  "effect [] s = s" "effect (a @ b) s = effect b (effect a s)"
  "effect ((k, txts, ts, f) # segs) s = effect segs (f s)"
  by (auto simp: written_def effect_def)

lemma segments_lex:
  "list_all (segment_ok up h) segs \<Longrightarrow> \<exists>tss. list_all2 lexes (written segs) tss \<and> concat tss = seg_tokens segs"
proof (induction segs)
  case (Cons seg segs)
  obtain k txts ts f where seg: "seg = (k, txts, ts, f)"
    by (cases seg)
  from Cons obtain tss where "list_all2 lexes (written segs) tss" "concat tss = seg_tokens segs"
    by auto
  moreover from Cons.prems obtain tss' where "list_all2 lexes txts tss'" "concat tss' = ts" "bare_word k"
    by (auto simp: segment_ok_def seg)
  ultimately show ?case
    by (intro exI [of _ "[k] # tss' @ tss"])
      (auto simp: seg seg_tokens_def intro: list_all2_appendI lexes_bare)
qed (simp add: seg_tokens_def)

lemma field_loop_segments:
  "list_all (segment_ok up h) segs \<Longrightarrow>
    (u \<noteq> None \<Longrightarrow> distinct (map fst segs) \<and> set (map fst segs) \<inter> set seen = {}) \<Longrightarrow>
    field_loop up u h n seen (seg_tokens segs) s = Ok (rev (map fst segs) @ seen, effect segs s)"
proof (induction segs arbitrary: seen s)
  case Nil
  then show ?case
    by (simp add: seg_tokens_def field_loop.simps [of _ _ _ _ _ "[]"])
next
  case (Cons seg segs)
  obtain k txts ts f where seg: "seg = (k, txts, ts, f)"
    by (cases seg)
  have k: "ToUpper up k = k" "run_field n (h k s) (ts @ seg_tokens segs) = (Ok (f s), seg_tokens segs)"
    using Cons.prems(1) by (auto simp: segment_ok_def seg)
  have rest: "field_loop up u h n (k # seen) (seg_tokens segs) (f s) =
      Ok (rev (map fst segs) @ k # seen, effect segs (f s))"
    using Cons.prems by (intro Cons.IH) (auto simp: seg)
  have "field_loop up u h n seen (k # ts @ seg_tokens segs) s =
      field_loop up u h n (k # seen) (seg_tokens segs) (f s)"
    using Cons.prems(2) k by (subst field_loop.simps) (auto simp: seg Let_def)
  then show ?case
    using rest by (simp add: seg seg_tokens_def)
qed

definition numeric_oid :: "bytes \<Rightarrow> bool" where
  "numeric_oid oid \<longleftrightarrow> oid \<noteq> [] \<and> is_digit (oid ! 0) \<and> validObjectIdentifier oid"

lemma Split_chars: "list_all (list_all P) (Split sep s) \<Longrightarrow> list_all (\<lambda>c. P c \<or> c = sep) s"
proof (induction sep s rule: Split.induct)
  case (1 sep s)
  obtain b a found where c: "Cut sep s = (b, a, found)"
    by (cases "Cut sep s")
  show ?case
  proof (cases found)
    case True
    then have s: "s = b @ sep # a"
      using c True Cut_found [of sep s b a] by simp
    moreover have "Split sep s = b # Split sep a"
      using c True by (simp add: Split.simps [of sep s])
    ultimately show ?thesis
      using "1.IH" [OF c [symmetric] refl True] "1.prems" by (auto simp: list_all_iff)
  next
    case False
    then have "Split sep s = [s]"
      using c by (simp add: Split.simps [of sep s])
    then show ?thesis
      using "1.prems" by (auto simp: list_all_iff)
  qed
qed

lemma numeric_oid_bare: "numeric_oid oid \<Longrightarrow> bare_word oid"
proof -
  assume oid: "numeric_oid oid"
  then have "list_all (list_all is_digit) (Split (CHR ''.'') oid)"
    by (auto simp: numeric_oid_def validObjectIdentifier_def Let_def list_all_iff split: if_splits)
  from Split_chars [OF this] show ?thesis
    using oid by (cases oid)
      (auto simp: bare_word_def numeric_oid_def list_all_iff delimiter_def is_space_def is_digit_def)
qed

lemma readNumericOID_numeric:
  "numeric_oid oid \<Longrightarrow> readNumericOID resolveOID kind (oid # rest) = (Ok oid, rest)"
  by (simp add: readNumericOID_def take_token_def numeric_oid_def)

lemma parse_description_written:
  assumes "numeric_oid oid" "list_all (segment_ok up h) segs"
    "u \<noteq> None \<Longrightarrow> distinct (map fst segs)"
  shows "\<exists>n. parse_description up resolveOID kind u bare h (Join (''('' # oid # written segs @ ['')'']) '' '') =
    Ok (n, effect segs (bare oid))"
proof -
  obtain tss where tss: "list_all2 lexes (written segs) tss" "concat tss = seg_tokens segs"
    using segments_lex [OF assms(2)] by blast
  then have "list_all2 lexes (oid # written segs) ([oid] # tss)"
    using assms(1) by (auto intro: lexes_bare numeric_oid_bare)
  from newDescriptionParser_texts [OF this] tss
  have "newDescriptionParser (Join (''('' # oid # written segs @ ['')'']) '' '') = Ok (oid # seg_tokens segs)"
    by simp
  then show ?thesis
    using assms field_loop_segments [OF assms(2), where seen = "[]"]
    by (simp add: parse_description_def readNumericOID_numeric)
qed

section \<open>The fields of the formatters\<close>

definition opt :: "bool \<Rightarrow> 'x \<Rightarrow> 'x list" where
  "opt b x = (if b then [x] else [])"

lemma opt_simps [simp]:
  "list_all P (opt b x) \<longleftrightarrow> (b \<longrightarrow> P x)"
  "y \<in> set (opt b x) \<longleftrightarrow> b \<and> y = x"
  "distinct (map g (opt b x))"
  by (cases b; auto simp: opt_def)+

lemma opt_written: "written (opt b (k, txts, ts, f)) = (if b then k # txts else [])"
  by (simp add: opt_def)

lemma opt_effect: "b \<or> f s = s \<Longrightarrow> effect (opt b (k, txts, ts, f)) s = f s"
  by (auto simp: opt_def)

text \<open>The extensions of a definition, as the formatter can write them.\<close>

definition wf_extensions :: "(nat \<Rightarrow> nat) \<Rightarrow> extensions \<Rightarrow> bool" where
  "wf_extensions up xs \<longleftrightarrow> sorted_wrt (<) (map fst xs) \<and>
     list_all (\<lambda>(k, vs). HasPrefix k ''X-'' \<and> ToUpper up k = k \<and> bare_word k \<and>
       vs \<noteq> [] \<and> list_all (\<lambda>v. \<not> special v) vs) xs"

definition ext_segments :: "(bytes \<Rightarrow> bytes list \<Rightarrow> 's \<Rightarrow> 's) \<Rightarrow> extensions \<Rightarrow> 's segment list" where
  "ext_segments f xs = map (\<lambda>(k, vs). (k, [formatQuotedList vs], list_tokens vs, f k vs)) xs"

lemma ext_written: "wf_extensions up xs \<Longrightarrow> appendExtensions up ts xs = ts @ written (ext_segments f xs)"
  unfolding wf_extensions_def appendExtensions_def written_def ext_segments_def
  by (auto simp: list_all_iff o_def split_beta intro!: arg_cong [where f = concat])

lemma ext_keys: "map fst (ext_segments f xs) = map fst xs"
  by (auto simp: ext_segments_def)

lemma many_ok:
  assumes "ToUpper up k = k" "bare_word k" "vs \<noteq> []" "list_all (\<lambda>v. \<not> special v) vs"
    "\<And>s. h k s = Many (\<lambda>vs. Ok (f vs s))"
  shows "segment_ok up h (k, [formatQuotedList vs], list_tokens vs, f vs)"
  using assms lexes_quoted_list [OF assms(3)] by (auto simp: segment_ok_def readList_tokens
      intro!: exI [of _ "[list_tokens vs]"])

lemma oids_ok:
  assumes "ToUpper up k = k" "bare_word k" "vs \<noteq> []" "list_all bare_word vs"
    "\<And>s. h k s = Many (\<lambda>vs. Ok (f vs s))"
  shows "segment_ok up h (k, [formatOIDList vs], oids_tokens vs, f vs)"
proof -
  have "list_all (\<lambda>v. \<not> special v) vs"
    using assms(4) by (auto simp: list_all_iff)
  then show ?thesis
    using assms lexes_oid_list [OF assms(4,3)] by (auto simp: segment_ok_def readList_oids
      intro!: exI [of _ "[oids_tokens vs]"])
qed

lemma quoted_ok:
  assumes "ToUpper up k = k" "bare_word k" "\<not> special v" "\<And>s. h k s = One (\<lambda>v. Ok (f v s))"
  shows "segment_ok up h (k, [quoteSchemaValue v], [v], f v)"
  using assms by (auto simp: segment_ok_def readOne_token lexes_quote intro!: exI [of _ "[[v]]"])

lemma word_ok:
  assumes "ToUpper up k = k" "bare_word k" "bare_word v" "\<And>s. run_field 0 (h k s) [v] = (Ok (f s), [])"
    "\<And>s. \<exists>g. h k s = One g"
  shows "segment_ok up h (k, [v], [v], f)"
proof -
  have "run_field n (h k s) (v # rest) = (Ok (f s), rest)" for n s rest
    using assms(3) assms(4) [of s] assms(5) [of s] by (auto simp: readOne_token)
  then show ?thesis
    using assms by (auto simp: segment_ok_def lexes_bare intro!: exI [of _ "[[v]]"])
qed

lemma flag_ok:
  assumes "ToUpper up k = k" "bare_word k" "\<And>s. h k s = Flag (f s)"
  shows "segment_ok up h (k, [], [], f)"
  using assms by (auto simp: segment_ok_def)

lemma ids_ok:
  assumes "ToUpper up k = k" "bare_word k" "list_all (\<lambda>n. 0 \<le> n \<and> n < 2 ^ 31) ns" "ns \<noteq> []"
    "\<And>s. h k s = IDs (\<lambda>ns. Ok (f ns s))"
  shows "segment_ok up h (k, [formatRuleIDList ns], list_tokens (map FormatInt ns), f ns)"
  using assms lexes_rule_ids [OF assms(3,4)]
  by (auto simp: segment_ok_def readRuleIDs_tokens intro!: exI [of _ "[list_tokens (map FormatInt ns)]"])

lemma ext_ok:
  assumes "wf_extensions up xs" "\<And>k s. HasPrefix k ''X-'' \<Longrightarrow> h k s = Many (\<lambda>vs. Ok (f k vs s))"
  shows "list_all (segment_ok up h) (ext_segments f xs)"
proof -
  have "segment_ok up h (k, [formatQuotedList vs], list_tokens vs, f k vs)" if "(k, vs) \<in> set xs" for k vs
    using assms(1) that by (intro many_ok assms(2)) (auto simp: wf_extensions_def list_all_iff)
  then show ?thesis
    by (auto simp: ext_segments_def list_all_iff)
qed

lemma ext_put_last: "\<forall>k'\<in>set (map fst xs). k' < k \<Longrightarrow> ext_put k v xs = xs @ [(k, v)]"
  by (induction k v xs rule: ext_put.induct) auto

lemma ext_put_sorted:
  "sorted_wrt (<) (map fst (ys @ xs)) \<Longrightarrow> fold (\<lambda>(k, v). ext_put k v) xs ys = ys @ xs"
proof (induction xs arbitrary: ys)
  case (Cons x xs)
  obtain k v where x: "x = (k, v)"
    by (cases x)
  have "ext_put k v ys = ys @ [x]"
    using Cons.prems by (subst ext_put_last) (auto simp: x sorted_wrt_append)
  then show ?case
    using Cons.IH [of "ys @ [x]"] Cons.prems by (simp add: x)
qed simp

lemma ext_effect:
  assumes "wf_extensions up xs" "E s = []"
    "\<And>k v s. f k v s = U (ext_put k v (E s)) s" "\<And>e s. E (U e s) = e" "\<And>e e' s. U e (U e' s) = U e s"
    "U [] s = s"
  shows "effect (ext_segments f xs) s = U xs s"
proof -
  have "effect (ext_segments f ys) (U e s) = U (fold (\<lambda>(k, v). ext_put k v) ys e) s" for e ys
    by (induction ys arbitrary: e) (auto simp: ext_segments_def assms(3-5))
  from this [of xs "[]"] show ?thesis
    using assms(1,6) ext_put_sorted [of "[]" xs] by (simp add: wf_extensions_def)
qed

section \<open>Keywords\<close>

definition keyword :: "bytes \<Rightarrow> bool" where
  "keyword k \<longleftrightarrow> k \<noteq> [] \<and> list_all (\<lambda>c. CHR ''A'' \<le> c \<and> c \<le> CHR ''Z'' \<or> c = CHR ''-'') k"

lemma keyword_char:
  "CHR ''A'' \<le> c \<and> c \<le> CHR ''Z'' \<or> c = CHR ''-'' \<Longrightarrow> 65 \<le> ord c \<and> ord c \<le> 90 \<or> ord c = 45"
  by (auto simp: less_eq_char_def)

lemma keyword_upper: "keyword k \<Longrightarrow> ToUpper up k = k"
proof -
  assume k: "keyword k"
  have "char_of (ascii_upper (ord c)) = c \<and> ord c < 128" if "c \<in> set k" for c
    using keyword_char [of c] that k by (auto simp: keyword_def list_all_iff ascii_upper_def)
  then have "is_ascii k" "map (\<lambda>c. char_of (ascii_upper (ord c))) k = k"
    by (auto simp: is_ascii_def intro: map_idI)
  then show ?thesis
    by (simp add: ToUpper_def)
qed

lemma keyword_bare: "keyword k \<Longrightarrow> bare_word k"
proof -
  assume k: "keyword k"
  have "\<not> delimiter c \<and> c \<noteq> CHR 0x27" if "c \<in> set k" for c
    using keyword_char [of c] that k by (auto simp: keyword_def list_all_iff delimiter_def is_space_def)
  then show ?thesis
    using k by (cases k) (auto simp: bare_word_def keyword_def list_all_iff)
qed

lemmas keyword_simps = keyword_upper keyword_bare keyword_def less_eq_char_def

definition optional_word :: "bytes \<Rightarrow> bool" where
  "optional_word v \<longleftrightarrow> v = [] \<or> bare_word v"

section \<open>Attribute types\<close>

definition syntax_text :: "bytes \<Rightarrow> int \<Rightarrow> bytes" where
  "syntax_text syntax len = syntax @ (if 0 < len then ''{'' @ FormatInt len @ ''}'' else [])"

definition attribute_segments :: "AttributeType \<Rightarrow> AttributeType segment list" where
  "attribute_segments a =
     opt (at_Names a \<noteq> []) (''NAME'', [formatQuotedList (at_Names a)], list_tokens (at_Names a),
       \<lambda>s. s\<lparr>at_Names := at_Names a\<rparr>) @
     opt (at_Description a \<noteq> []) (''DESC'', [quoteSchemaValue (at_Description a)], [at_Description a],
       \<lambda>s. s\<lparr>at_Description := at_Description a\<rparr>) @
     opt (at_Obsolete a) (''OBSOLETE'', [], [], \<lambda>s. s\<lparr>at_Obsolete := at_Obsolete a\<rparr>) @
     opt (Superior a \<noteq> []) (''SUP'', [Superior a], [Superior a], \<lambda>s. s\<lparr>Superior := Superior a\<rparr>) @
     opt (Equality a \<noteq> []) (''EQUALITY'', [Equality a], [Equality a], \<lambda>s. s\<lparr>Equality := Equality a\<rparr>) @
     opt (Ordering a \<noteq> []) (''ORDERING'', [Ordering a], [Ordering a], \<lambda>s. s\<lparr>Ordering := Ordering a\<rparr>) @
     opt (Substring a \<noteq> []) (''SUBSTR'', [Substring a], [Substring a], \<lambda>s. s\<lparr>Substring := Substring a\<rparr>) @
     opt (Syntax a \<noteq> []) (''SYNTAX'', [syntax_text (Syntax a) (SyntaxLength a)],
       [syntax_text (Syntax a) (SyntaxLength a)],
       \<lambda>s. s\<lparr>Syntax := Syntax a, SyntaxLength := SyntaxLength a\<rparr>) @
     opt (SingleValue a) (''SINGLE-VALUE'', [], [], \<lambda>s. s\<lparr>SingleValue := SingleValue a\<rparr>) @
     opt (Collective a) (''COLLECTIVE'', [], [], \<lambda>s. s\<lparr>Collective := Collective a\<rparr>) @
     opt (NoUserModification a) (''NO-USER-MODIFICATION'', [], [], \<lambda>s. s\<lparr>NoUserModification := NoUserModification a\<rparr>) @
     opt (Usage a \<noteq> [] \<and> Usage a \<noteq> UsageUserApplications) (''USAGE'', [Usage a], [Usage a],
       \<lambda>s. s\<lparr>Usage := Usage a\<rparr>) @
     ext_segments (\<lambda>k vs s. s\<lparr>at_Extensions := ext_put k vs (at_Extensions s)\<rparr>) (at_Extensions a)"

text \<open>
  The attribute types that have a text: no value that is nothing but a bracket or a dollar sign, no
  unquoted value with a space or a bracket in it, a length only with a syntax.
\<close>

definition wf_attribute_type :: "(nat \<Rightarrow> nat) \<Rightarrow> AttributeType \<Rightarrow> bool" where
  "wf_attribute_type up a \<longleftrightarrow>
     numeric_oid (at_OID a) \<and> list_all (\<lambda>v. \<not> special v) (at_Names a) \<and> \<not> special (at_Description a) \<and>
     \<not> at_Hidden a \<and> optional_word (Superior a) \<and> optional_word (Equality a) \<and>
     optional_word (Ordering a) \<and> optional_word (Substring a) \<and> optional_word (Syntax a) \<and>
     0 \<le> SyntaxLength a \<and> SyntaxLength a < 2 ^ 63 \<and> (Syntax a = [] \<longrightarrow> SyntaxLength a = 0) \<and>
     (SyntaxLength a = 0 \<longrightarrow> CHR ''{'' \<notin> set (Syntax a)) \<and>
     validUsage (Usage a) \<and> wf_extensions up (at_Extensions a)"

lemma bare_word_append:
  "bare_word a \<Longrightarrow> list_all (\<lambda>c. \<not> delimiter c) b \<Longrightarrow> bare_word (a @ b)"
  by (cases a) (auto simp: bare_word_def)

lemma syntax_text_bare: "bare_word syntax \<Longrightarrow> bare_word (syntax_text syntax len)"
proof -
  assume "bare_word syntax"
  moreover have "0 < len \<Longrightarrow> list_all (\<lambda>c. \<not> delimiter c) (FormatInt len)"
    using FormatInt_bare [of len] by (simp add: bare_word_def)
  ultimately show ?thesis
    by (auto simp: syntax_text_def delimiter_def is_space_def intro!: bare_word_append)
qed

lemma takeWhile_stop: "list_all P xs \<Longrightarrow> \<not> P y \<Longrightarrow> takeWhile P (xs @ y # ys) = xs"
  by (induction xs) auto

lemma parseSyntaxOID_text:
  assumes "0 \<le> len" "len < 2 ^ 63" "len = 0 \<longrightarrow> CHR ''{'' \<notin> set syntax"
  shows "parseSyntaxOID (syntax_text syntax len) = Ok (syntax, len)"
proof (cases "0 < len")
  case True
  have "list_all is_digit (FormatInt len)"
    using FormatInt_digits [of len] True by simp
  then have "list_all (\<lambda>c. c \<noteq> CHR ''{'') (CHR ''}'' # rev (FormatInt len))"
    by (auto simp: list_all_iff is_digit_def)
  from takeWhile_stop [OF this, of "CHR ''{''" "rev syntax"]
  have "takeWhile (\<lambda>c. c \<noteq> CHR ''{'') (rev (syntax @ ''{'' @ FormatInt len @ ''}'')) = rev (FormatInt len @ ''}'')"
    by simp
  then show ?thesis
    using True assms ParseInt_FormatInt [of len]
    by (simp add: parseSyntaxOID_def syntax_text_def HasSuffix_def Let_def butlast_append)
qed (use assms in \<open>auto simp: parseSyntaxOID_def syntax_text_def\<close>)

lemma FormatAttributeType_written:
  "wf_attribute_type up a \<Longrightarrow>
    FormatAttributeType up a = Join (''('' # at_OID a # written (attribute_segments a) @ ['')'']) '' ''"
  by (simp add: FormatAttributeType_def wf_attribute_type_def attribute_segments_def opt_written
    names_field_def desc_field_def flag_field_def text_field_def syntax_text_def
    ext_written [where f = "\<lambda>k vs s :: AttributeType. s\<lparr>at_Extensions := ext_put k vs (at_Extensions s)\<rparr>"] del: Join.simps split del: if_split)

lemma extension_keyword: "HasPrefix k ''X-'' \<Longrightarrow> \<exists>r. k = ''X-'' @ r"
  by (auto simp: HasPrefix_prefix prefix_def)

lemma attribute_ext_field:
  assumes "HasPrefix k ''X-''"
  shows "attribute_field R k s = Many (\<lambda>vs. Ok (s\<lparr>at_Extensions := ext_put k vs (at_Extensions s)\<rparr>))"
proof -
  obtain r where "k = ''X-'' @ r"
    using assms extension_keyword by blast
  then show ?thesis
    using assms by (simp add: attribute_field_def)
qed

lemma validUsage_bare: "validUsage u \<Longrightarrow> u \<noteq> [] \<and> bare_word u"
  by (auto simp: validUsage_def usage_constants bare_word_def delimiter_def is_space_def)

lemma attribute_segments_ok:
  assumes "wf_attribute_type up a"
  shows "list_all (segment_ok up (attribute_field None)) (attribute_segments a)"
proof -
  have wf: "validUsage (Usage a)" "0 \<le> SyntaxLength a" "list_all (\<lambda>v. \<not> special v) (at_Names a)"
    "\<not> special (at_Description a)" "SyntaxLength a < 2 ^ 63" "wf_extensions up (at_Extensions a)"
    "SyntaxLength a = 0 \<longrightarrow> CHR ''{'' \<notin> set (Syntax a)" "Superior a \<noteq> [] \<Longrightarrow> bare_word (Superior a)"
    "Equality a \<noteq> [] \<Longrightarrow> bare_word (Equality a)" "Ordering a \<noteq> [] \<Longrightarrow> bare_word (Ordering a)"
    "Substring a \<noteq> [] \<Longrightarrow> bare_word (Substring a)" "Syntax a \<noteq> [] \<Longrightarrow> bare_word (Syntax a)"
    using assms by (simp_all add: wf_attribute_type_def optional_word_def)
  show ?thesis
    unfolding attribute_segments_def
    by (simp only: list_all_append opt_simps,
        intro conjI impI many_ok quoted_ok flag_ok word_ok ext_ok attribute_ext_field)
      (simp_all add: keyword_simps wf validUsage_bare syntax_text_bare,
       simp_all add: attribute_field_def readOne_token attribute_syntax_def wf validUsage_bare syntax_text_bare
         parseSyntaxOID_text [OF wf(2,5,7)])
qed

lemma attribute_effect:
  "wf_attribute_type up a \<Longrightarrow> effect (attribute_segments a) (bare_attribute (at_OID a)) = a"
  using validUsage_bare [of "Usage a"]
  by (cases a) (auto simp: attribute_segments_def opt_effect bare_attribute_def wf_attribute_type_def
      ext_effect [where E = at_Extensions and U = "\<lambda>e s :: AttributeType. s\<lparr>at_Extensions := e\<rparr>"])

lemma attribute_text_parses:
  "wf_attribute_type up a \<Longrightarrow> ParseAttributeType up (FormatAttributeType up a) = Ok a"
  using parse_description_written [OF _ attribute_segments_ok, of "at_OID a" up a None None
      "''attribute type''" bare_attribute]
  by (auto simp: ParseAttributeType_def parseAttributeType_def FormatAttributeType_written attribute_effect
      wf_attribute_type_def)

text \<open>
  What the text of an attribute type carries. It has no place for the flag of hidden types and for a
  length without a syntax, and the usage of an application is left out like a usage that is not set.
\<close>

definition carried :: "AttributeType \<Rightarrow> AttributeType" where
  "carried a = a\<lparr>at_Hidden := False,
     SyntaxLength := (if Syntax a = [] then 0 else max 0 (SyntaxLength a)),
     Usage := (if Usage a = [] then UsageUserApplications else Usage a)\<rparr>"

lemma FormatAttributeType_carried: "FormatAttributeType up (carried a) = FormatAttributeType up a"
  by (auto simp: FormatAttributeType_def carried_def max_def)

lemma carried_wf: "wf_attribute_type up a \<Longrightarrow> carried a = a"
  by (auto simp: wf_attribute_type_def carried_def validUsage_def usage_constants)

text \<open>
  C14: An attribute type that is written and parsed comes back as what its text carries: the same
  attribute type, but with the usage of an application where none was set, without a syntax length
  that is negative or has no syntax, and not hidden; it comes back unchanged if it meets the conditions
  itself. The conditions, on what comes back: the identifier is a numeric OID; no name, no value of an
  extension and not the description is just a bracket or a dollar sign; the superior, the matching
  rules and the syntax are empty, or have no quote at their start and no white space, bracket or
  dollar sign in them; a syntax without a length has no opening brace, and a length fits 64 bits; the
  usage is one of the four; the names of the extensions start with \<^verbatim>\<open>X-\<close>, are in upper case and need no
  quotes, and no extension is without values.
\<close>

theorem attribute_type_roundtrip:
  assumes "wf_attribute_type up (carried a)"
  shows "ParseAttributeType up (FormatAttributeType up a) = Ok (carried a) \<and>
    (wf_attribute_type up a \<longrightarrow> carried a = a)"
  using attribute_text_parses [OF assms] carried_wf by (simp add: FormatAttributeType_carried)

lemma opt_keys: "map fst (opt b (k, x)) = opt b k" "set (opt b k) = (if b then {k} else {})" "distinct (opt b k)"
  by (auto simp: opt_def)

lemma ext_keys_distinct: "wf_extensions up xs \<Longrightarrow> distinct (map fst xs)"
  by (simp add: wf_extensions_def strict_sorted_iff)

lemma ext_key_new: "wf_extensions up xs \<Longrightarrow> take (Suc (Suc 0)) k \<noteq> ''X-'' \<Longrightarrow> (k, vs) \<notin> set xs"
  by (auto simp: wf_extensions_def list_all_iff HasPrefix_def)

lemmas field_texts = names_field_def desc_field_def flag_field_def text_field_def oids_field_def

section \<open>Syntaxes\<close>

definition syntax_segments :: "LDAPSyntax \<Rightarrow> LDAPSyntax segment list" where
  "syntax_segments x =
     opt (ls_Description x \<noteq> []) (''DESC'', [quoteSchemaValue (ls_Description x)], [ls_Description x],
       \<lambda>s. s\<lparr>ls_Description := ls_Description x\<rparr>) @
     ext_segments (\<lambda>k vs s. s\<lparr>ls_Extensions := ext_put k vs (ls_Extensions s)\<rparr>) (ls_Extensions x)"

definition wf_syntax :: "(nat \<Rightarrow> nat) \<Rightarrow> LDAPSyntax \<Rightarrow> bool" where
  "wf_syntax up x \<longleftrightarrow> numeric_oid (ls_OID x) \<and> \<not> special (ls_Description x) \<and>
     wf_extensions up (ls_Extensions x) \<and>
     \<not> BinaryTransferRequired x \<and> \<not> BEREncoded x \<and> validator x = None \<and> validatorIdentity x = [] \<and> \<not> builtin x"

lemma FormatLDAPSyntax_written:
  "wf_syntax up x \<Longrightarrow> FormatLDAPSyntax up x = Join (''('' # ls_OID x # written (syntax_segments x) @ ['')'']) '' ''"
  by (simp add: FormatLDAPSyntax_def wf_syntax_def syntax_segments_def opt_written field_texts
    ext_written [where f = "\<lambda>k vs s :: LDAPSyntax. s\<lparr>ls_Extensions := ext_put k vs (ls_Extensions s)\<rparr>"]
    del: Join.simps split del: if_split)

lemma syntax_ext_field:
  assumes "HasPrefix k ''X-''"
  shows "syntax_field None k s = Many (\<lambda>vs. Ok (s\<lparr>ls_Extensions := ext_put k vs (ls_Extensions s)\<rparr>))"
proof -
  obtain r where "k = ''X-'' @ r"
    using assms extension_keyword by blast
  then show ?thesis
    using assms by (auto simp: syntax_field_def resolve_list_def)
qed

lemma syntax_segments_ok:
  assumes "wf_syntax up x"
  shows "list_all (segment_ok up (syntax_field None)) (syntax_segments x)"
proof -
  have wf: "\<not> special (ls_Description x)" "wf_extensions up (ls_Extensions x)"
    using assms by (simp_all add: wf_syntax_def)
  show ?thesis
    unfolding syntax_segments_def
    by (simp only: list_all_append opt_simps, intro conjI impI quoted_ok ext_ok syntax_ext_field)
      (simp_all add: keyword_simps wf, simp_all add: syntax_field_def)
qed

lemma syntax_effect:
  "wf_syntax up x \<Longrightarrow> effect (syntax_segments x) (bare_syntax (ls_OID x)) = x"
  by (cases x) (auto simp: syntax_segments_def opt_effect bare_syntax_def wf_syntax_def
      ext_effect [where E = ls_Extensions and U = "\<lambda>e s :: LDAPSyntax. s\<lparr>ls_Extensions := e\<rparr>"])

lemma syntax_keys: "wf_syntax up x \<Longrightarrow> distinct (map fst (syntax_segments x))"
  by (auto simp: syntax_segments_def opt_keys ext_keys wf_syntax_def ext_key_new
      dest: ext_keys_distinct)

lemma ldap_syntax_roundtrip:
  "wf_syntax up x \<Longrightarrow> ParseLDAPSyntax up (FormatLDAPSyntax up x) = Ok x"
  using parse_description_written [OF _ syntax_segments_ok, of "ls_OID x" up x "Some ''LDAP syntax''" None
      "''LDAP syntax''" bare_syntax]
  by (auto simp: ParseLDAPSyntax_def parseLDAPSyntax_def FormatLDAPSyntax_written syntax_effect
      syntax_keys wf_syntax_def)

section \<open>Object classes\<close>

definition class_segments :: "ObjectClass \<Rightarrow> ObjectClass segment list" where
  "class_segments oc =
     opt (oc_Names oc \<noteq> []) (''NAME'', [formatQuotedList (oc_Names oc)], list_tokens (oc_Names oc),
       \<lambda>s. s\<lparr>oc_Names := oc_Names oc\<rparr>) @
     opt (oc_Description oc \<noteq> []) (''DESC'', [quoteSchemaValue (oc_Description oc)], [oc_Description oc],
       \<lambda>s. s\<lparr>oc_Description := oc_Description oc\<rparr>) @
     opt (oc_Obsolete oc) (''OBSOLETE'', [], [], \<lambda>s. s\<lparr>oc_Obsolete := oc_Obsolete oc\<rparr>) @
     opt (oc_Superiors oc \<noteq> []) (''SUP'', [formatOIDList (oc_Superiors oc)], oids_tokens (oc_Superiors oc),
       \<lambda>s. s\<lparr>oc_Superiors := oc_Superiors oc\<rparr>) @
     opt (Kind oc \<noteq> []) (Kind oc, [], [], \<lambda>s. s\<lparr>Kind := Kind oc\<rparr>) @
     opt (oc_Must oc \<noteq> []) (''MUST'', [formatOIDList (oc_Must oc)], oids_tokens (oc_Must oc),
       \<lambda>s. s\<lparr>oc_Must := oc_Must oc\<rparr>) @
     opt (oc_May oc \<noteq> []) (''MAY'', [formatOIDList (oc_May oc)], oids_tokens (oc_May oc),
       \<lambda>s. s\<lparr>oc_May := oc_May oc\<rparr>) @
     ext_segments (\<lambda>k vs s. s\<lparr>oc_Extensions := ext_put k vs (oc_Extensions s)\<rparr>) (oc_Extensions oc)"

definition wf_object_class :: "(nat \<Rightarrow> nat) \<Rightarrow> ObjectClass \<Rightarrow> bool" where
  "wf_object_class up oc \<longleftrightarrow> numeric_oid (oc_OID oc) \<and> list_all (\<lambda>v. \<not> special v) (oc_Names oc) \<and>
     \<not> special (oc_Description oc) \<and> \<not> oc_Hidden oc \<and> list_all bare_word (oc_Superiors oc) \<and>
     Kind oc \<in> {ObjectClassAbstract, ObjectClassStructural, ObjectClassAuxiliary} \<and>
     list_all bare_word (oc_Must oc) \<and> list_all bare_word (oc_May oc) \<and>
     wf_extensions up (oc_Extensions oc)"

lemma FormatObjectClass_written:
  "wf_object_class up oc \<Longrightarrow>
    FormatObjectClass up oc = Join (''('' # oc_OID oc # written (class_segments oc) @ ['')'']) '' ''"
  by (simp add: FormatObjectClass_def wf_object_class_def class_segments_def opt_written field_texts
    ext_written [where f = "\<lambda>k vs s :: ObjectClass. s\<lparr>oc_Extensions := ext_put k vs (oc_Extensions s)\<rparr>"]
    del: Join.simps split del: if_split)

lemma class_ext_field:
  assumes "HasPrefix k ''X-''"
  shows "class_field k s = Many (\<lambda>vs. Ok (s\<lparr>oc_Extensions := ext_put k vs (oc_Extensions s)\<rparr>))"
proof -
  obtain r where "k = ''X-'' @ r"
    using assms extension_keyword by blast
  then show ?thesis
    using assms by (simp add: class_field_def)
qed

lemma class_kind_field:
  "k \<in> {ObjectClassAbstract, ObjectClassStructural, ObjectClassAuxiliary} \<Longrightarrow>
    class_field k s = Flag (s\<lparr>Kind := k\<rparr>) \<and> keyword k"
  by (auto simp: class_field_def kind_constants keyword_def less_eq_char_def)

lemma class_segments_ok:
  assumes "wf_object_class up oc"
  shows "list_all (segment_ok up class_field) (class_segments oc)"
proof -
  have wf: "list_all (\<lambda>v. \<not> special v) (oc_Names oc)" "\<not> special (oc_Description oc)"
    "list_all bare_word (oc_Superiors oc)" "list_all bare_word (oc_Must oc)" "list_all bare_word (oc_May oc)"
    "class_field (Kind oc) s = Flag (s\<lparr>Kind := Kind oc\<rparr>)" "keyword (Kind oc)"
    "wf_extensions up (oc_Extensions oc)" for s
    using assms class_kind_field [of "Kind oc"] by (simp_all add: wf_object_class_def)
  show ?thesis
    unfolding class_segments_def
    by (simp only: list_all_append opt_simps,
        intro conjI impI many_ok oids_ok quoted_ok flag_ok ext_ok class_ext_field)
      (simp_all add: keyword_upper keyword_bare wf,
       simp_all add: class_field_def keyword_simps)
qed

lemma class_effect:
  "wf_object_class up oc \<Longrightarrow> effect (class_segments oc) (bare_class (oc_OID oc)) = oc"
  using class_kind_field [of "Kind oc"]
  by (cases oc) (auto simp: class_segments_def opt_effect bare_class_def wf_object_class_def keyword_def
      ext_effect [where E = oc_Extensions and U = "\<lambda>e s :: ObjectClass. s\<lparr>oc_Extensions := e\<rparr>"])

text \<open>
  An object class that is written and parsed is the same object class, under the same conditions.
\<close>

theorem object_class_roundtrip:
  "wf_object_class up oc \<Longrightarrow> ParseObjectClass up (FormatObjectClass up oc) = Ok oc"
  using parse_description_written [OF _ class_segments_ok, of "oc_OID oc" up oc None None
      "''object class''" bare_class]
  by (auto simp: ParseObjectClass_def parseObjectClass_def FormatObjectClass_written class_effect
      wf_object_class_def)

section \<open>Content rules\<close>

definition content_rule_segments :: "DITContentRule \<Rightarrow> DITContentRule segment list" where
  "content_rule_segments r =
     opt (cr_Names r \<noteq> []) (''NAME'', [formatQuotedList (cr_Names r)], list_tokens (cr_Names r),
       \<lambda>s. s\<lparr>cr_Names := cr_Names r\<rparr>) @
     opt (cr_Description r \<noteq> []) (''DESC'', [quoteSchemaValue (cr_Description r)], [cr_Description r],
       \<lambda>s. s\<lparr>cr_Description := cr_Description r\<rparr>) @
     opt (cr_Obsolete r) (''OBSOLETE'', [], [], \<lambda>s. s\<lparr>cr_Obsolete := cr_Obsolete r\<rparr>) @
     opt (Auxiliary r \<noteq> []) (''AUX'', [formatOIDList (Auxiliary r)], oids_tokens (Auxiliary r),
       \<lambda>s. s\<lparr>Auxiliary := Auxiliary r\<rparr>) @
     opt (cr_Must r \<noteq> []) (''MUST'', [formatOIDList (cr_Must r)], oids_tokens (cr_Must r),
       \<lambda>s. s\<lparr>cr_Must := cr_Must r\<rparr>) @
     opt (cr_May r \<noteq> []) (''MAY'', [formatOIDList (cr_May r)], oids_tokens (cr_May r),
       \<lambda>s. s\<lparr>cr_May := cr_May r\<rparr>) @
     opt (Not r \<noteq> []) (''NOT'', [formatOIDList (Not r)], oids_tokens (Not r), \<lambda>s. s\<lparr>Not := Not r\<rparr>) @
     ext_segments (\<lambda>k vs s. s\<lparr>cr_Extensions := ext_put k vs (cr_Extensions s)\<rparr>) (cr_Extensions r)"

definition wf_content_rule :: "(nat \<Rightarrow> nat) \<Rightarrow> DITContentRule \<Rightarrow> bool" where
  "wf_content_rule up r \<longleftrightarrow> numeric_oid (cr_OID r) \<and> list_all (\<lambda>v. \<not> special v) (cr_Names r) \<and>
     \<not> special (cr_Description r) \<and> list_all bare_word (Auxiliary r) \<and> list_all bare_word (cr_Must r) \<and>
     list_all bare_word (cr_May r) \<and> list_all bare_word (Not r) \<and> wf_extensions up (cr_Extensions r)"

lemma FormatDITContentRule_written:
  "wf_content_rule up r \<Longrightarrow>
    FormatDITContentRule up r = Join (''('' # cr_OID r # written (content_rule_segments r) @ ['')'']) '' ''"
  by (simp add: FormatDITContentRule_def wf_content_rule_def content_rule_segments_def opt_written field_texts
    ext_written [where f = "\<lambda>k vs s :: DITContentRule. s\<lparr>cr_Extensions := ext_put k vs (cr_Extensions s)\<rparr>"]
    del: Join.simps split del: if_split)

lemma content_rule_ext_field:
  assumes "HasPrefix k ''X-''"
  shows "content_rule_field k s = Many (\<lambda>vs. Ok (s\<lparr>cr_Extensions := ext_put k vs (cr_Extensions s)\<rparr>))"
proof -
  obtain r where "k = ''X-'' @ r"
    using assms extension_keyword by blast
  then show ?thesis
    using assms by (simp add: content_rule_field_def)
qed

lemma content_rule_segments_ok:
  assumes "wf_content_rule up r"
  shows "list_all (segment_ok up content_rule_field) (content_rule_segments r)"
proof -
  have wf: "list_all (\<lambda>v. \<not> special v) (cr_Names r)" "\<not> special (cr_Description r)"
    "list_all bare_word (Auxiliary r)" "list_all bare_word (cr_Must r)" "list_all bare_word (cr_May r)"
    "list_all bare_word (Not r)" "wf_extensions up (cr_Extensions r)"
    using assms by (simp_all add: wf_content_rule_def)
  show ?thesis
    unfolding content_rule_segments_def
    by (simp only: list_all_append opt_simps,
        intro conjI impI many_ok oids_ok quoted_ok flag_ok ext_ok content_rule_ext_field)
      (simp_all add: keyword_simps wf, simp_all add: content_rule_field_def)
qed

lemma content_rule_effect:
  "wf_content_rule up r \<Longrightarrow> effect (content_rule_segments r) (bare_content_rule (cr_OID r)) = r"
  by (cases r) (auto simp: content_rule_segments_def opt_effect bare_content_rule_def wf_content_rule_def
      ext_effect [where E = cr_Extensions and U = "\<lambda>e s :: DITContentRule. s\<lparr>cr_Extensions := e\<rparr>"])

lemma content_rule_keys: "wf_content_rule up r \<Longrightarrow> distinct (map fst (content_rule_segments r))"
  unfolding content_rule_segments_def map_append opt_keys ext_keys distinct_append
  by (auto simp: opt_keys wf_content_rule_def ext_key_new dest: ext_keys_distinct
      split del: if_split split: if_split_asm)

lemma content_rule_roundtrip:
  "wf_content_rule up r \<Longrightarrow> ParseDITContentRule up (FormatDITContentRule up r) = Ok r"
  using parse_description_written [OF _ content_rule_segments_ok, of "cr_OID r" up r
      "Some ''DIT content rule''" None "''DIT content rule''" bare_content_rule]
  by (auto simp: ParseDITContentRule_def parseDITContentRule_def FormatDITContentRule_written
      content_rule_effect content_rule_keys wf_content_rule_def)

section \<open>Name forms\<close>

definition name_form_segments :: "NameForm \<Rightarrow> NameForm segment list" where
  "name_form_segments f =
     opt (nf_Names f \<noteq> []) (''NAME'', [formatQuotedList (nf_Names f)], list_tokens (nf_Names f),
       \<lambda>s. s\<lparr>nf_Names := nf_Names f\<rparr>) @
     opt (nf_Description f \<noteq> []) (''DESC'', [quoteSchemaValue (nf_Description f)], [nf_Description f],
       \<lambda>s. s\<lparr>nf_Description := nf_Description f\<rparr>) @
     opt (nf_Obsolete f) (''OBSOLETE'', [], [], \<lambda>s. s\<lparr>nf_Obsolete := nf_Obsolete f\<rparr>) @
     opt True (''OC'', [nf_ObjectClass f], [nf_ObjectClass f], \<lambda>s. s\<lparr>nf_ObjectClass := nf_ObjectClass f\<rparr>) @
     opt True (''MUST'', [formatOIDList (nf_Must f)], oids_tokens (nf_Must f), \<lambda>s. s\<lparr>nf_Must := nf_Must f\<rparr>) @
     opt (nf_May f \<noteq> []) (''MAY'', [formatOIDList (nf_May f)], oids_tokens (nf_May f),
       \<lambda>s. s\<lparr>nf_May := nf_May f\<rparr>) @
     ext_segments (\<lambda>k vs s. s\<lparr>nf_Extensions := ext_put k vs (nf_Extensions s)\<rparr>) (nf_Extensions f)"

definition wf_name_form :: "(nat \<Rightarrow> nat) \<Rightarrow> NameForm \<Rightarrow> bool" where
  "wf_name_form up f \<longleftrightarrow> numeric_oid (nf_OID f) \<and> list_all (\<lambda>v. \<not> special v) (nf_Names f) \<and>
     \<not> special (nf_Description f) \<and> bare_word (nf_ObjectClass f) \<and>
     nf_Must f \<noteq> [] \<and> list_all bare_word (nf_Must f) \<and> list_all bare_word (nf_May f) \<and>
     wf_extensions up (nf_Extensions f)"

lemma FormatNameForm_written:
  "wf_name_form up f \<Longrightarrow>
    FormatNameForm up f = Join (''('' # nf_OID f # written (name_form_segments f) @ ['')'']) '' ''"
  by (simp add: FormatNameForm_def wf_name_form_def name_form_segments_def opt_written field_texts
    ext_written [where f = "\<lambda>k vs s :: NameForm. s\<lparr>nf_Extensions := ext_put k vs (nf_Extensions s)\<rparr>"]
    del: Join.simps split del: if_split)

lemma name_form_ext_field:
  assumes "HasPrefix k ''X-''"
  shows "name_form_field k s = Many (\<lambda>vs. Ok (s\<lparr>nf_Extensions := ext_put k vs (nf_Extensions s)\<rparr>))"
proof -
  obtain r where "k = ''X-'' @ r"
    using assms extension_keyword by blast
  then show ?thesis
    using assms by (simp add: name_form_field_def)
qed

lemma name_form_segments_ok:
  assumes "wf_name_form up f"
  shows "list_all (segment_ok up name_form_field) (name_form_segments f)"
proof -
  have wf: "list_all (\<lambda>v. \<not> special v) (nf_Names f)" "\<not> special (nf_Description f)"
    "bare_word (nf_ObjectClass f)" "nf_Must f \<noteq> []" "list_all bare_word (nf_Must f)"
    "list_all bare_word (nf_May f)" "wf_extensions up (nf_Extensions f)"
    using assms by (simp_all add: wf_name_form_def)
  show ?thesis
    unfolding name_form_segments_def
    by (simp only: list_all_append opt_simps,
        intro conjI impI many_ok oids_ok quoted_ok flag_ok word_ok ext_ok name_form_ext_field)
      (simp_all add: keyword_simps wf, simp_all add: name_form_field_def readOne_token wf)
qed

lemma name_form_effect:
  "wf_name_form up f \<Longrightarrow> effect (name_form_segments f) (bare_name_form (nf_OID f)) = f"
  by (cases f) (auto simp: name_form_segments_def opt_effect bare_name_form_def wf_name_form_def
      ext_effect [where E = nf_Extensions and U = "\<lambda>e s :: NameForm. s\<lparr>nf_Extensions := e\<rparr>"])

lemma name_form_keys: "wf_name_form up f \<Longrightarrow> distinct (map fst (name_form_segments f))"
  unfolding name_form_segments_def map_append opt_keys ext_keys distinct_append
  by (auto simp: opt_keys wf_name_form_def ext_key_new dest: ext_keys_distinct
      split del: if_split split: if_split_asm)

lemma name_form_roundtrip:
  assumes "wf_name_form up f"
  shows "ParseNameForm up (FormatNameForm up f) = Ok f"
proof -
  obtain n where "parse_description up None ''name form'' (Some ''name form'') bare_name_form
      name_form_field (FormatNameForm up f) = Ok (n, f)"
    using parse_description_written [OF _ name_form_segments_ok [OF assms], of "nf_OID f"
        "Some ''name form''" None "''name form''" bare_name_form] assms
      name_form_keys [OF assms] name_form_effect [OF assms] FormatNameForm_written [OF assms]
    by (auto simp: wf_name_form_def)
  moreover have "nf_ObjectClass f \<noteq> []" "nf_Must f \<noteq> []"
    using assms by (auto simp: wf_name_form_def bare_word_def)
  ultimately show ?thesis
    by (simp add: ParseNameForm_def)
qed

section \<open>Structure rules\<close>

definition structure_rule_segments :: "DITStructureRule \<Rightarrow> DITStructureRule segment list" where
  "structure_rule_segments r =
     opt (sr_Names r \<noteq> []) (''NAME'', [formatQuotedList (sr_Names r)], list_tokens (sr_Names r),
       \<lambda>s. s\<lparr>sr_Names := sr_Names r\<rparr>) @
     opt (sr_Description r \<noteq> []) (''DESC'', [quoteSchemaValue (sr_Description r)], [sr_Description r],
       \<lambda>s. s\<lparr>sr_Description := sr_Description r\<rparr>) @
     opt (sr_Obsolete r) (''OBSOLETE'', [], [], \<lambda>s. s\<lparr>sr_Obsolete := sr_Obsolete r\<rparr>) @
     opt True (''FORM'', [Form r], [Form r], \<lambda>s. s\<lparr>Form := Form r\<rparr>) @
     opt (sr_Superiors r \<noteq> []) (''SUP'', [formatRuleIDList (sr_Superiors r)],
       list_tokens (map FormatInt (sr_Superiors r)), \<lambda>s. s\<lparr>sr_Superiors := sr_Superiors r\<rparr>) @
     ext_segments (\<lambda>k vs s. s\<lparr>sr_Extensions := ext_put k vs (sr_Extensions s)\<rparr>) (sr_Extensions r)"

definition wf_structure_rule :: "(nat \<Rightarrow> nat) \<Rightarrow> DITStructureRule \<Rightarrow> bool" where
  "wf_structure_rule up r \<longleftrightarrow> 0 \<le> RuleID r \<and> RuleID r < 2 ^ 31 \<and> list_all (\<lambda>v. \<not> special v) (sr_Names r) \<and>
     \<not> special (sr_Description r) \<and> bare_word (Form r) \<and>
     list_all (\<lambda>n. 0 \<le> n \<and> n < 2 ^ 31) (sr_Superiors r) \<and> wf_extensions up (sr_Extensions r)"

lemma FormatDITStructureRule_written:
  "wf_structure_rule up r \<Longrightarrow>
    FormatDITStructureRule up r = Join (''('' # FormatInt (RuleID r) # written (structure_rule_segments r) @ ['')'']) '' ''"
  by (simp add: FormatDITStructureRule_def wf_structure_rule_def structure_rule_segments_def opt_written field_texts
    ext_written [where f = "\<lambda>k vs s :: DITStructureRule. s\<lparr>sr_Extensions := ext_put k vs (sr_Extensions s)\<rparr>"]
    del: Join.simps split del: if_split)

lemma structure_rule_ext_field:
  assumes "HasPrefix k ''X-''"
  shows "structure_rule_field k s = Many (\<lambda>vs. Ok (s\<lparr>sr_Extensions := ext_put k vs (sr_Extensions s)\<rparr>))"
proof -
  obtain r where "k = ''X-'' @ r"
    using assms extension_keyword by blast
  then show ?thesis
    using assms by (simp add: structure_rule_field_def)
qed

lemma structure_rule_segments_ok:
  assumes "wf_structure_rule up r"
  shows "list_all (segment_ok up structure_rule_field) (structure_rule_segments r)"
proof -
  have wf: "list_all (\<lambda>v. \<not> special v) (sr_Names r)" "\<not> special (sr_Description r)"
    "bare_word (Form r)" "list_all (\<lambda>n. 0 \<le> n \<and> n < 2 ^ 31) (sr_Superiors r)"
    "wf_extensions up (sr_Extensions r)"
    using assms by (simp_all add: wf_structure_rule_def)
  show ?thesis
    unfolding structure_rule_segments_def
    by (simp only: list_all_append opt_simps,
        intro conjI impI many_ok ids_ok quoted_ok flag_ok word_ok ext_ok structure_rule_ext_field wf)
      (simp_all add: keyword_simps, simp_all add: structure_rule_field_def readOne_token wf)
qed

lemma structure_rule_effect:
  "wf_structure_rule up r \<Longrightarrow> effect (structure_rule_segments r) (bare_structure_rule (RuleID r)) = r"
  by (cases r) (auto simp: structure_rule_segments_def opt_effect bare_structure_rule_def wf_structure_rule_def
      ext_effect [where E = sr_Extensions and U = "\<lambda>e s :: DITStructureRule. s\<lparr>sr_Extensions := e\<rparr>"])

lemma structure_rule_keys: "wf_structure_rule up r \<Longrightarrow> distinct (map fst (structure_rule_segments r))"
  unfolding structure_rule_segments_def map_append opt_keys ext_keys distinct_append
  by (auto simp: opt_keys wf_structure_rule_def ext_key_new dest: ext_keys_distinct
      split del: if_split split: if_split_asm)

text \<open>
  A structure rule that is written and parsed is the same structure rule, under the same conditions
  and with identifiers below 2 GiB.
\<close>

theorem structure_rule_roundtrip:
  assumes "wf_structure_rule up r"
  shows "ParseDITStructureRule up (FormatDITStructureRule up r) = Ok r"
proof -
  have id: "0 \<le> RuleID r" "RuleID r < 2 ^ 31" and form: "bare_word (Form r)"
    using assms by (simp_all add: wf_structure_rule_def)
  obtain tss where tss: "list_all2 lexes (written (structure_rule_segments r)) tss"
      "concat tss = seg_tokens (structure_rule_segments r)"
    using segments_lex [OF structure_rule_segments_ok [OF assms]] by blast
  then have "list_all2 lexes (FormatInt (RuleID r) # written (structure_rule_segments r)) ([FormatInt (RuleID r)] # tss)"
    using id(1) by (auto intro: lexes_bare FormatInt_bare)
  from newDescriptionParser_texts [OF this] tss
  have "newDescriptionParser (FormatDITStructureRule up r) =
      Ok (FormatInt (RuleID r) # seg_tokens (structure_rule_segments r))"
    by (simp add: FormatDITStructureRule_written [OF assms])
  then show ?thesis
    using field_loop_segments [OF structure_rule_segments_ok [OF assms], where seen = "[]"]
      structure_rule_keys [OF assms] structure_rule_effect [OF assms] form
    by (simp add: ParseDITStructureRule_def take_token_def parseRuleID_FormatInt [OF id] bare_word_def)
qed

section \<open>What a parsed definition looks like\<close>

lemma field_loop_invariant:
  "field_loop up u h n seen tokens s = Ok (seen', s') \<Longrightarrow>
    (\<And>k s tokens s' rest. run_field n (h k s) tokens = (Ok s', rest) \<Longrightarrow> P s \<Longrightarrow> P s') \<Longrightarrow> P s \<Longrightarrow> P s'"
proof (induction up u h n seen tokens s rule: field_loop.induct)
  case (1 up u h n seen tokens s)
  show ?case
  proof (cases tokens)
    case Nil
    then show ?thesis
      using "1.prems" by (simp add: field_loop.simps)
  next
    case (Cons token rest)
    let ?k = "ToUpper up token"
    obtain r rest' where run: "run_field n (h ?k s) rest = (r, rest')"
      by (cases "run_field n (h ?k s) rest")
    have new: "\<not> (u \<noteq> None \<and> ?k \<in> set seen)"
      using "1.prems"(1) Cons by (subst (asm) field_loop.simps) (auto simp: Let_def split: if_splits)
    obtain s1 where r: "r = Ok s1"
      using "1.prems"(1) Cons run new by (subst (asm) field_loop.simps) (auto simp: Let_def split: go.splits if_splits)
    have loop: "field_loop up u h n (?k # seen) rest' s1 = Ok (seen', s')"
      using "1.prems"(1) Cons run new r by (subst (asm) field_loop.simps) (auto simp: Let_def split: if_splits)
    have "P s1"
      using "1.prems"(2,3) run r by blast
    then show ?thesis
      by (intro "1.IH" [OF Cons refl new run [unfolded r, symmetric] refl loop]) (use "1.prems"(2) in blast)+
  qed
qed

lemma readOne_Ok: "readOne tokens = (Ok v, rest) \<Longrightarrow> \<not> special v"
  by (auto simp: readOne_def special_def split: list.splits if_splits)

lemma list_values_Ok:
  "list_values tokens values = (Ok vs, rest) \<Longrightarrow> list_all (\<lambda>v. \<not> special v) values \<Longrightarrow>
    vs \<noteq> [] \<and> list_all (\<lambda>v. \<not> special v) vs"
  by (induction tokens "values" rule: list_values.induct) (auto simp: special_def split: if_splits)

lemma readList_Ok: "readList tokens = (Ok vs, rest) \<Longrightarrow> vs \<noteq> [] \<and> list_all (\<lambda>v. \<not> special v) vs"
  by (auto simp: readList_def split: list.splits if_splits prod.splits dest: list_values_Ok readOne_Ok)

lemma run_field_cases:
  assumes "run_field n f tokens = (Ok s, rest)"
  obtains
    g v where "f = One g" "\<not> special v" "g v = Ok s"
  | g vs where "f = Many g" "vs \<noteq> []" "list_all (\<lambda>v. \<not> special v) vs" "g vs = Ok s"
  | g ns where "f = IDs g" "g ns = Ok s"
  | "f = Flag s"
  | d g vs r where "f = Quoted d g" "readMatchingRuleQuotedList tokens d = (Ok vs, r)" "g vs = Ok s"
  | g v where "f = QuotedOne g" "g v = Ok s"
  | k g v r where "f = NumericOID k g" "readNumericOID None k tokens = (Ok v, r)" "g v = Ok s"
  | g vs r where "f = AppliesTo g" "readMatchingRuleApplies tokens = (Ok vs, r)" "g vs = Ok s"
  using assms by (cases f) (auto split: prod.splits dest!: readOne_Ok readList_Ok)

lemma parse_description_Ok:
  assumes "parse_description up R kind u bare h d = Ok (m, s)"
  obtains oid tokens rest seen n where "readNumericOID R kind tokens = (Ok oid, rest)"
    "field_loop up u h n [] rest (bare oid) = Ok (seen, s)"
proof -
  obtain tokens r rest where t: "newDescriptionParser d = Ok tokens" "readNumericOID R kind tokens = (r, rest)"
    using assms by (cases "newDescriptionParser d") (auto simp: parse_description_def split: prod.splits)
  with assms show ?thesis
    by (auto simp: parse_description_def intro: that)
qed

lemma readNumericOID_Ok: "readNumericOID None kind tokens = (Ok oid, rest) \<Longrightarrow> numeric_oid oid"
  by (auto simp: readNumericOID_def numeric_oid_def take_token_def split: if_splits list.splits)

text \<open>What holds of an attribute type, field by field, from the start of the loop.\<close>

definition parsed_attribute :: "AttributeType \<Rightarrow> bool" where
  "parsed_attribute a \<longleftrightarrow> numeric_oid (at_OID a) \<and> list_all (\<lambda>v. \<not> special v) (at_Names a) \<and>
     \<not> special (at_Description a) \<and> \<not> special (Superior a) \<and> \<not> special (Equality a) \<and>
     \<not> special (Ordering a) \<and> \<not> special (Substring a) \<and>
     0 \<le> SyntaxLength a \<and> SyntaxLength a < 2 ^ 63 \<and>
     (SyntaxLength a = 0 \<longrightarrow> \<not> special (Syntax a) \<and> CHR ''{'' \<notin> set (Syntax a)) \<and>
     \<not> at_Hidden a \<and> validUsage (Usage a) \<and>
     sorted_wrt (<) (map fst (at_Extensions a)) \<and>
     list_all (\<lambda>(k, vs). HasPrefix k ''X-'' \<and> vs \<noteq> [] \<and> list_all (\<lambda>v. \<not> special v) vs) (at_Extensions a)"

lemma ext_put_keys: "set (map fst (ext_put k v xs)) = insert k (set (map fst xs))"
  by (induction k v xs rule: ext_put.induct) auto

lemma ext_put_strict: "sorted_wrt (<) (map fst xs) \<Longrightarrow> sorted_wrt (<) (map fst (ext_put k v xs))"
proof (induction k v xs rule: ext_put.induct)
  case (2 k v k' v' rest)
  have "k' < k \<Longrightarrow> \<forall>x\<in>set (map fst (ext_put k v rest)). k' < x"
    using "2.prems" by (subst ext_put_keys) auto
  with 2 show ?case
    by (auto dest: less_trans)
qed simp

lemma ext_put_all: "list_all P xs \<Longrightarrow> P (k, v) \<Longrightarrow> list_all P (ext_put k v xs)"
  by (induction k v xs rule: ext_put.induct) auto

lemma parseSyntaxOID_Ok:
  "parseSyntaxOID v = Ok (oid, len) \<Longrightarrow> 0 \<le> len \<and> len < 2 ^ 63 \<and> (len = 0 \<longrightarrow> oid = v \<and> CHR ''{'' \<notin> set v)"
  by (auto simp: parseSyntaxOID_def Let_def split: if_splits option.splits dest: ParseInt_range)

lemma attribute_field_parsed:
  assumes "run_field n (attribute_field None k a) tokens = (Ok a', rest)" "parsed_attribute a"
  shows "parsed_attribute a'"
  using assms(1)
proof (cases rule: run_field_cases)
  case (1 g v)
  then show ?thesis
    using assms(2) by (auto simp: attribute_field_def attribute_syntax_def parsed_attribute_def
        split: if_splits dest!: parseSyntaxOID_Ok)
next
  case (2 g vs)
  then show ?thesis
    using assms(2) by (auto simp: attribute_field_def parsed_attribute_def ext_put_strict ext_put_all
        split: if_splits)
next
  case 4
  then show ?thesis
    using assms(2) by (auto simp: attribute_field_def parsed_attribute_def split: if_splits)
qed (auto simp: attribute_field_def split: if_splits)

text \<open>
  C16: What the parser makes of any text: an attribute type under a numeric identifier, not hidden, with
  one of the four usages, extensions only under names with the prefix for extensions, in their order,
  each once and none of them empty; a syntax length that is neither negative nor beyond 64 bits; and
  no name, description, superior, matching rule or value of an extension that is just a bracket or a
  dollar sign. The syntax is none of these either, and has no opening brace, if no length was written
  behind it; in front of a length it may be anything, a lone bracket included.
\<close>

theorem parsed_attribute_type:
  assumes "ParseAttributeType up d = Ok a"
  shows "parsed_attribute a"
proof -
  obtain m where "parse_description up None ''attribute type'' None bare_attribute (attribute_field None) d = Ok (m, a)"
    using assms by (auto simp: ParseAttributeType_def parseAttributeType_def)
  then obtain oid tokens rest seen n where p: "readNumericOID None ''attribute type'' tokens = (Ok oid, rest)"
      "field_loop up None (attribute_field None) n [] rest (bare_attribute oid) = Ok (seen, a)"
    by (rule parse_description_Ok)
  have "parsed_attribute (bare_attribute oid)"
    using readNumericOID_Ok [OF p(1)]
    by (simp add: parsed_attribute_def bare_attribute_def special_def validUsage_def)
  with field_loop_invariant [OF p(2), of parsed_attribute] show ?thesis
    using attribute_field_parsed by blast
qed

section \<open>Instances\<close>

lemmas eval_simps = numeric_oid_def validObjectIdentifier_def Let_def Split.simps Cut_def is_digit_def
  special_def optional_word_def bare_word_def delimiter_def is_space_def wf_extensions_def HasPrefix_def
  keyword_upper keyword_def less_eq_char_def validUsage_def

definition sample_attribute :: AttributeType where
  "sample_attribute = (bare_attribute ''2.5.4.3'')\<lparr>at_Names := [''cn'', ''commonName''],
     at_Description := ''it's a name'', Superior := ''name'', Syntax := ''1.3.6.1'', SyntaxLength := 64,
     SingleValue := True, at_Extensions := [(''X-ORIGIN'', [''RFC 4519''])]\<rparr>"

lemma sample_attribute_wf: "wf_attribute_type id sample_attribute"
  by (simp_all add: wf_attribute_type_def eval_simps bare_attribute_def sample_attribute_def)

text \<open>The sample, and the same type hidden, with a usage that is not set.\<close>

theorem attribute_type_roundtrip_witness:
  "ParseAttributeType id (FormatAttributeType id sample_attribute) = Ok sample_attribute \<and>
   ParseAttributeType id (FormatAttributeType id (sample_attribute\<lparr>at_Hidden := True, Usage := []\<rparr>)) =
     Ok sample_attribute"
proof -
  have same: "carried sample_attribute = sample_attribute"
    by (rule carried_wf [OF sample_attribute_wf])
  have "carried (sample_attribute\<lparr>at_Hidden := True, Usage := []\<rparr>) = sample_attribute"
    by (simp add: carried_def sample_attribute_def bare_attribute_def)
  then show ?thesis
    using attribute_type_roundtrip [of id sample_attribute]
      attribute_type_roundtrip [of id "sample_attribute\<lparr>at_Hidden := True, Usage := []\<rparr>"]
      sample_attribute_wf same by simp
qed

definition sample_class :: ObjectClass where
  "sample_class = (bare_class ''2.5.6.6'')\<lparr>oc_Names := [''person''], oc_Superiors := [''top''],
     oc_Must := [''sn'', ''cn''], oc_May := [''seeAlso'']\<rparr>"

theorem object_class_roundtrip_witness: "ParseObjectClass id (FormatObjectClass id sample_class) = Ok sample_class"
  by (rule object_class_roundtrip) (simp_all add: wf_attribute_type_def wf_object_class_def wf_structure_rule_def eval_simps
      bare_attribute_def bare_class_def bare_structure_rule_def sample_class_def kind_constants)

definition sample_rule :: DITStructureRule where
  "sample_rule = (bare_structure_rule 3)\<lparr>Form := ''personForm'', sr_Superiors := [1, 2]\<rparr>"

theorem structure_rule_roundtrip_witness:
  "ParseDITStructureRule id (FormatDITStructureRule id sample_rule) = Ok sample_rule"
  by (rule structure_rule_roundtrip) (simp_all add: wf_attribute_type_def wf_object_class_def wf_structure_rule_def eval_simps
      bare_attribute_def bare_class_def bare_structure_rule_def sample_rule_def kind_constants)

theorem parsed_attribute_type_witness: "parsed_attribute sample_attribute"
  by (rule parsed_attribute_type [of id "FormatAttributeType id sample_attribute"])
    (rule attribute_text_parses, rule sample_attribute_wf)

section \<open>Values the text cannot carry\<close>

text \<open>
  C35: The description of an attribute type without any other field, if it is a bracket or a dollar sign,
  is written in quotes, and what is written is refused: the parser forgets the quotes and takes the value for punctuation.
\<close>

theorem bracket_description_refused:
  assumes "numeric_oid oid" "special v"
  shows "ParseAttributeType up (FormatAttributeType up ((bare_attribute oid)\<lparr>at_Description := v\<rparr>)) =
    Err (Near 3 (ExpectedFieldValue v))"
proof -
  let ?a = "(bare_attribute oid)\<lparr>at_Description := v\<rparr>"
  have v: "v \<noteq> []" "v = ''('' \<or> v = '')'' \<or> v = ''$''"
    using assms(2) by (auto simp: special_def)
  then have line: "FormatAttributeType up ?a = Join (''('' # [oid, ''DESC'', quoteSchemaValue v] @ ['')'']) '' ''"
    by (simp add: FormatAttributeType_def bare_attribute_def field_texts appendExtensions_def del: Join.simps)
  have "list_all2 lexes [oid, ''DESC'', quoteSchemaValue v] [[oid], [''DESC''], [v]]"
    using assms(1) by (simp add: lexes_quote lexes_bare numeric_oid_bare keyword_simps)
  from newDescriptionParser_texts [OF this]
  have "newDescriptionParser (FormatAttributeType up ?a) = Ok [oid, ''DESC'', v]"
    by (simp add: line)
  moreover have "ToUpper up ''DESC'' = ''DESC''"
    by (simp add: keyword_simps)
  ultimately show ?thesis
    using v(2)
    by (simp add: ParseAttributeType_def parseAttributeType_def parse_description_def
        readNumericOID_numeric [OF assms(1)] field_loop.simps [of _ _ _ _ _ "_ # _"] attribute_field_def
        readOne_def Let_def)
qed

theorem bracket_description_refused_witness:
  "ParseAttributeType id (FormatAttributeType id ((bare_attribute ''1.2'')\<lparr>at_Description := ''(''\<rparr>)) =
     Err (Near 3 (ExpectedFieldValue ''(''))"
  by (rule bracket_description_refused) (simp_all add: eval_simps)

lemma dollar_name_dropped:
  assumes "numeric_oid oid" "2 \<le> length ns" "list_all (\<lambda>v. v \<noteq> ''('' \<and> v \<noteq> '')'') ns"
    "filter (\<lambda>v. v \<noteq> ''$'') ns \<noteq> []"
  shows "ParseAttributeType up (FormatAttributeType up ((bare_attribute oid)\<lparr>at_Names := ns\<rparr>)) =
    Ok ((bare_attribute oid)\<lparr>at_Names := filter (\<lambda>v. v \<noteq> ''$'') ns\<rparr>)"
proof -
  let ?a = "(bare_attribute oid)\<lparr>at_Names := ns\<rparr>"
  have ns: "ns \<noteq> []" "length ns \<noteq> Suc 0"
    using assms(2) by auto
  then have line: "FormatAttributeType up ?a = Join (''('' # [oid, ''NAME'', formatQuotedList ns] @ ['')'']) '' ''"
    by (simp add: FormatAttributeType_def bare_attribute_def field_texts appendExtensions_def del: Join.simps)
  have "list_all2 lexes [oid, ''NAME'', formatQuotedList ns] [[oid], [''NAME''], list_tokens ns]"
    using assms(1) ns by (simp add: lexes_quoted_list lexes_bare numeric_oid_bare keyword_simps)
  from newDescriptionParser_texts [OF this]
  have "newDescriptionParser (FormatAttributeType up ?a) = Ok (oid # ''NAME'' # ''('' # ns @ ['')''])"
    using ns by (simp add: line list_tokens_def)
  moreover have "ToUpper up ''NAME'' = ''NAME''"
    by (simp add: keyword_simps)
  ultimately show ?thesis
    using list_values_run [OF assms(3), of "[]" "[]"] assms(4)
    by (simp add: ParseAttributeType_def parseAttributeType_def parse_description_def
        readNumericOID_numeric [OF assms(1)] field_loop.simps [of _ _ _ _ _ "_ # _"]
        field_loop.simps [of _ _ _ _ _ "[]"] attribute_field_def readList_def Let_def bare_attribute_def)
qed

end
