(* ===== verification/Schema_Values.thy ===== *)
theory Schema_Values
  imports Schema_Description
begin

text \<open>
  Attribute values with a structure of their own: integers (\<^verbatim>\<open>src/internal/schema/integer.go\<close>), values
  with an index in braces (\<^verbatim>\<open>ordered_values.go\<close>) and generalized time (\<^verbatim>\<open>generalized_time.go\<close>). The
  index into the value that the parser of times carries is kept as a number.
\<close>

section \<open>Integers\<close>

datatype value_error =
    InvalidInteger
  | InvalidOrderedPrefix | OrderedIndexTooLarge | MixedOrderedValues | DuplicateOrderedIndex int
  | NotGeneralizedTime

definition validLDAPInteger :: "bytes \<Rightarrow> bool" where
  "validLDAPInteger v =
     (if v = [] then False
      else if v ! 0 = CHR ''-'' then
        \<not> (length v = 1 \<or> v ! 1 = CHR ''0'') \<and> list_all is_digit (drop 1 v)
      else if v ! 0 = CHR ''0'' then length v = 1
      else list_all is_digit v)"

text \<open>\<open>bytes.Compare\<close>.\<close>

fun Compare_bytes :: "bytes \<Rightarrow> bytes \<Rightarrow> int" where
  "Compare_bytes [] [] = 0"
| "Compare_bytes [] (_ # _) = - 1"
| "Compare_bytes (_ # _) [] = 1"
| "Compare_bytes (a # s) (b # t) =
     (if ord a < ord b then - 1 else if ord b < ord a then 1 else Compare_bytes s t)"

definition compareLDAPIntegers :: "bytes \<Rightarrow> bytes \<Rightarrow> (value_error, int) go" where
  "compareLDAPIntegers left right =
     (if \<not> validLDAPInteger left \<or> \<not> validLDAPInteger right then Err InvalidInteger
      else
        let leftNegative = (left ! 0 = CHR ''-''); rightNegative = (right ! 0 = CHR ''-'') in
        if leftNegative \<noteq> rightNegative then Ok (if leftNegative then - 1 else 1)
        else
          let l = (if leftNegative then drop 1 left else left);
              r = (if leftNegative then drop 1 right else right);
              comparison = (if length l < length r then - 1
                else if length r < length l then 1 else Compare_bytes l r) in
          Ok (if leftNegative then - comparison else comparison))"

section \<open>Values with an order\<close>

definition attributeHasOrderedValues :: "AttributeType \<Rightarrow> bool" where
  "attributeHasOrderedValues a = (map_of (at_Extensions a) ''X-ORDERED'' = Some [''VALUES''])"

definition ParseOrderedValue :: "bytes \<Rightarrow> (value_error, int \<times> bytes \<times> bool) go" where
  "ParseOrderedValue v =
     (if v = [] \<or> v ! 0 \<noteq> CHR ''{'' then Ok (0, v, False)
      else (case Cut (CHR ''}'') v of (before, after, found) \<Rightarrow>
        if \<not> found \<or> length before < 2 then Err InvalidOrderedPrefix
        else if \<not> list_all is_digit (drop 1 before) then Err InvalidOrderedPrefix
        else (case ParseInt (drop 1 before) of
            None \<Rightarrow> Err OrderedIndexTooLarge
          | Some order \<Rightarrow> Ok (order, after, True))))"

definition FormatOrderedValue :: "int \<Rightarrow> bytes \<Rightarrow> bytes" where
  "FormatOrderedValue order v = ''{'' @ FormatInt order @ ''}'' @ v"

text \<open>The first index that stands twice in a sorted list.\<close>

fun adjacent_duplicate :: "int list \<Rightarrow> int option" where
  "adjacent_duplicate (a # b # rest) = (if a = b then Some b else adjacent_duplicate (b # rest))"
| "adjacent_duplicate _ = None"

text \<open>
  The sort is stable and compares the order and then the position, so it is stable by the order.
\<close>

definition NormalizeOrderedValues :: "bytes list \<Rightarrow> (value_error, bytes list) go" where
  "NormalizeOrderedValues vs =
     go_bind (go_map ParseOrderedValue vs) (\<lambda>items.
       let indexed = list_ex (\<lambda>(_, _, i). i) items; unindexed = list_ex (\<lambda>(_, _, i). \<not> i) items in
       if indexed \<and> unindexed then Err MixedOrderedValues
       else
         let items = (if indexed then sort_key fst items else items) in
         (case (if indexed then adjacent_duplicate (map fst items) else None) of
            Some n \<Rightarrow> Err (DuplicateOrderedIndex n)
          | None \<Rightarrow> Ok (map (\<lambda>(index, (_, content, _)). FormatOrderedValue (int index) content) (enumerate 0 items))))"

section \<open>Generalized time\<close>

definition decimalField :: "bytes \<Rightarrow> nat \<Rightarrow> nat \<Rightarrow> int option" where
  "decimalField v start len =
     (if len = 0 \<or> length v < start + len then None
      else
        let digits = take len (drop start v) in
        if list_all is_digit digits then Some (int (dec_value digits)) else None)"

definition leap_year :: "int \<Rightarrow> bool" where
  "leap_year year \<longleftrightarrow> year mod 400 = 0 \<or> year mod 4 = 0 \<and> year mod 100 \<noteq> 0"

definition daysInMonth :: "int \<Rightarrow> int \<Rightarrow> int" where
  "daysInMonth year month =
     (if month = 4 \<or> month = 6 \<or> month = 9 \<or> month = 11 then 30
      else if month = 2 then (if leap_year year then 29 else 28)
      else 31)"

text \<open>
  \<open>time.Date(\<dots>).Add(\<dots>)\<close> for a valid date and a shift of less than a day: at most one day back
  or forth in the calendar.
\<close>

definition previous_day :: "int \<times> int \<times> int \<Rightarrow> int \<times> int \<times> int" where
  "previous_day = (\<lambda>(y, m, d).
     if 1 < d then (y, m, d - 1)
     else if m = 1 then (y - 1, 12, 31) else (y, m - 1, daysInMonth y (m - 1)))"

definition next_day :: "int \<times> int \<times> int \<Rightarrow> int \<times> int \<times> int" where
  "next_day = (\<lambda>(y, m, d).
     if d < daysInMonth y m then (y, m, d + 1)
     else if m = 12 then (y + 1, 1, 1) else (y, m + 1, 1))"

definition shift_minutes :: "int \<times> int \<times> int \<Rightarrow> int \<Rightarrow> (int \<times> int \<times> int) \<times> int" where
  "shift_minutes date minutes =
     (if minutes < 0 then (previous_day date, minutes + 1440)
      else if 1440 \<le> minutes then (next_day date, minutes - 1440)
      else (date, minutes))"

text \<open>\<open>%04d\<close> and \<open>%02d\<close> of numbers that are not negative.\<close>

definition padded :: "nat \<Rightarrow> int \<Rightarrow> bytes" where
  "padded n v = (let s = FormatInt v in replicate (n - length s) (CHR ''0'') @ s)"

definition trim_zeros :: "bytes \<Rightarrow> bytes" where
  "trim_zeros s = rev (dropWhile (\<lambda>c. c = CHR ''0'') (rev s))"

abbreviation field_or_fail :: "int option \<Rightarrow> (int \<Rightarrow> (value_error, 'a) go) \<Rightarrow> (value_error, 'a) go" where
  "field_or_fail m k \<equiv> (case m of None \<Rightarrow> Err NotGeneralizedTime | Some n \<Rightarrow> k n)"

text \<open>Minutes and seconds: both may be left out, the seconds also alone.\<close>

definition time_of_day :: "bytes \<Rightarrow> (value_error, int \<times> int \<times> nat) go" where
  "time_of_day v =
     (if 10 < length v \<and> is_digit (v ! 10) then
        field_or_fail (decimalField v 10 2) (\<lambda>minute.
          if 59 < minute then Err NotGeneralizedTime
          else if 12 < length v \<and> is_digit (v ! 12) then
            field_or_fail (decimalField v 12 2) (\<lambda>second.
              if 60 < second then Err NotGeneralizedTime else Ok (minute, second, 14))
          else Ok (minute, 0, 12))
      else Ok (0, 0, 10))"

definition fraction_of :: "bytes \<Rightarrow> nat \<Rightarrow> (value_error, bytes \<times> nat) go" where
  "fraction_of v index =
     (if index < length v \<and> (v ! index = CHR ''.'' \<or> v ! index = CHR '','') then
        (let digits = takeWhile is_digit (drop (index + 1) v) in
         if digits = [] then Err NotGeneralizedTime
         else Ok (trim_zeros digits, index + 1 + length digits))
      else Ok ([], index))"

definition offset_of :: "bytes \<Rightarrow> nat \<Rightarrow> (value_error, int \<times> nat) go" where
  "offset_of v index =
     (if length v \<le> index then Err NotGeneralizedTime
      else if v ! index = CHR ''Z'' then Ok (0, index + 1)
      else if v ! index = CHR ''+'' \<or> v ! index = CHR ''-'' then
        (let sign = (if v ! index = CHR ''-'' then - 1 else 1);
             remaining = length v - (index + 1) in
         if remaining \<noteq> 2 \<and> remaining \<noteq> 4 then Err NotGeneralizedTime
         else field_or_fail (decimalField v (index + 1) 2) (\<lambda>offsetHour.
           if 23 < offsetHour then Err NotGeneralizedTime
           else if remaining = 4 then
             field_or_fail (decimalField v (index + 3) 2) (\<lambda>offsetMinute.
               if 59 < offsetMinute then Err NotGeneralizedTime
               else Ok (sign * (offsetHour * 60 + offsetMinute), index + 5))
           else Ok (sign * (offsetHour * 60), index + 3)))
      else Err NotGeneralizedTime)"

definition normalizeGeneralizedTime :: "bytes \<Rightarrow> (value_error, bytes) go" where
  "normalizeGeneralizedTime v =
     (if length v < 11 then Err NotGeneralizedTime
      else field_or_fail (decimalField v 0 4) (\<lambda>year.
        field_or_fail (decimalField v 4 2) (\<lambda>month.
        if month < 1 \<or> 12 < month then Err NotGeneralizedTime
        else field_or_fail (decimalField v 6 2) (\<lambda>day.
        if day < 1 \<or> daysInMonth year month < day then Err NotGeneralizedTime
        else field_or_fail (decimalField v 8 2) (\<lambda>hour.
        if 23 < hour then Err NotGeneralizedTime
        else
          go_bind (time_of_day v) (\<lambda>(minute, second, index).
          go_bind (fraction_of v index) (\<lambda>(fraction, index).
          go_bind (offset_of v index) (\<lambda>(offsetMinutes, index).
          if index \<noteq> length v then Err NotGeneralizedTime
          else case shift_minutes (year, month, day) (hour * 60 + minute - offsetMinutes) of
            ((y, m, d), minutes) \<Rightarrow>
              if y < 0 \<or> 9999 < y then Err NotGeneralizedTime
              else Ok (padded 4 y @ padded 2 m @ padded 2 d @ padded 2 (minutes div 60) @
                padded 2 (minutes mod 60) @ padded 2 second @
                (if fraction \<noteq> [] then ''.'' @ fraction else []) @ ''Z'')))))))))"

definition validGeneralizedTime :: "bytes \<Rightarrow> bool" where
  "validGeneralizedTime v \<longleftrightarrow> (case normalizeGeneralizedTime v of Ok _ \<Rightarrow> True | _ \<Rightarrow> False)"

end
