(* ===== verification/Schema_Value_Facts.thy ===== *)
theory Schema_Value_Facts
  imports Schema_Values
begin

text \<open>
  Integers are the canonical texts of the integers and compare as these. Numbering values is stable,
  keeps the order of their indexes and leaves numbered values alone. A time in any of its spellings
  (\<open>written_text\<close>) is read back field by field (\<open>normalize_written\<close>); the calendar counts the days and
  minutes since the beginning of year 0 (\<open>shift_minutes_spec\<close>, \<open>day_number_inj\<close>), from which it
  follows that two times have the same normal form exactly when they are of the same moment.
\<close>

section \<open>Decimal texts\<close>

lemma dec_value_from:
  "foldl (\<lambda>n c. n * 10 + (ord c - 48)) a s = a * 10 ^ length s + dec_value s"
proof (induction s arbitrary: a)
  case (Cons x xs)
  have "dec_value (x # xs) = (ord x - 48) * 10 ^ length xs + dec_value xs"
    using Cons [of "ord x - 48"] by (simp add: dec_value_def)
  then show ?case
    using Cons [of "a * 10 + (ord x - 48)"] by (simp add: distrib_right)
qed (simp add: dec_value_def)

lemma dec_value_Cons: "dec_value (c # s) = (ord c - 48) * 10 ^ length s + dec_value s"
  using dec_value_from [of "ord c - 48" s] by (simp add: dec_value_def)

lemma dec_value_Nil [simp]: "dec_value [] = 0"
  by (simp add: dec_value_def)

lemma dec_value_less: "list_all is_digit s \<Longrightarrow> dec_value s < 10 ^ length s"
proof (induction s)
  case (Cons c s)
  then have "ord c - 48 \<le> 9" "dec_value s < 10 ^ length s"
    by (auto simp: is_digit_def)
  then have "(ord c - 48) * 10 ^ length s + dec_value s < 9 * 10 ^ length s + 10 ^ length s"
    by (intro add_le_less_mono mult_right_mono) auto
  then show ?case
    by (simp add: dec_value_Cons)
qed simp

lemma dec_value_ge: "list_all is_digit (c # s) \<Longrightarrow> c \<noteq> CHR ''0'' \<Longrightarrow> 10 ^ length s \<le> dec_value (c # s)"
proof -
  assume c: "list_all is_digit (c # s)" "c \<noteq> CHR ''0''"
  then have "ord c \<noteq> 48"
    using of_char_eq_iff [of c "CHR ''0''", where 'a = nat] by simp
  moreover have "48 \<le> ord c"
    using c(1) by (simp add: is_digit_def)
  ultimately have "1 \<le> ord c - 48"
    by linarith
  then have "10 ^ length s \<le> (ord c - 48) * 10 ^ length s"
    using mult_right_mono [of 1 "ord c - 48" "10 ^ length s"] by simp
  then show ?thesis
    by (simp only: dec_value_Cons trans_le_add1)
qed

text \<open>A decimal number without leading zeros.\<close>

definition canonical_digits :: "bytes \<Rightarrow> bool" where
  "canonical_digits s \<longleftrightarrow> s \<noteq> [] \<and> list_all is_digit s \<and> (s ! 0 = CHR ''0'' \<longrightarrow> length s = 1)"

lemma canonical_length_less:
  assumes "canonical_digits s" "canonical_digits t" "length s < length t"
  shows "dec_value s < dec_value t"
proof -
  obtain c r where t: "t = c # r" "c \<noteq> CHR ''0''"
    using assms by (cases t) (auto simp: canonical_digits_def Suc_lessI)
  have "dec_value s < 10 ^ length s"
    using assms(1) by (simp add: canonical_digits_def dec_value_less)
  also have "\<dots> \<le> 10 ^ length r"
    using assms(3) t by (intro power_increasing) auto
  also have "\<dots> \<le> dec_value t"
    using assms(2) t by (simp add: canonical_digits_def dec_value_ge)
  finally show ?thesis .
qed

lemma Compare_bytes_digits:
  "length s = length t \<Longrightarrow> list_all is_digit s \<Longrightarrow> list_all is_digit t \<Longrightarrow>
    Compare_bytes s t = sgn (int (dec_value s) - int (dec_value t))"
proof (induction s t rule: Compare_bytes.induct)
  case (4 a s b t)
  let ?k = "10 ^ length s :: nat"
  have d: "is_digit a" "is_digit b" "length s = length t" "dec_value s < ?k" "dec_value t < ?k"
    using 4 dec_value_less [of s] dec_value_less [of t] by auto
  have step: "x * ?k + p < y * ?k + q" if "x < y" "p < ?k" for x y p q :: nat
  proof -
    have "x * ?k + p < Suc x * ?k" using that by simp
    also have "\<dots> \<le> y * ?k" using that by (intro mult_right_mono) auto
    finally show ?thesis by simp
  qed
  consider "ord a < ord b" | "ord b < ord a" | "a = b"
    by (metis linorder_less_linear of_char_eq_iff)
  then show ?case
  proof cases
    case 1
    then have "dec_value (a # s) < dec_value (b # t)"
      using step [of "ord a - 48" "ord b - 48" "dec_value s" "dec_value t"] d
      by (simp add: dec_value_Cons is_digit_def)
    then show ?thesis
      using \<open>ord a < ord b\<close> by (simp add: sgn_if)
  next
    case 2
    then have "dec_value (b # t) < dec_value (a # s)"
      using step [of "ord b - 48" "ord a - 48" "dec_value t" "dec_value s"] d
      by (simp add: dec_value_Cons is_digit_def)
    then show ?thesis
      using \<open>ord b < ord a\<close> by (simp add: sgn_if)
  next
    case 3
    then show ?thesis
      using 4 d by (simp add: dec_value_Cons)
  qed
qed (auto simp: dec_value_def)

lemma canonical_compare:
  assumes "canonical_digits s" "canonical_digits t"
  shows "(if length s < length t then - 1 else if length t < length s then 1 else Compare_bytes s t) =
    sgn (int (dec_value s) - int (dec_value t))"
  using canonical_length_less [OF assms] canonical_length_less [OF assms(2,1)] Compare_bytes_digits [of s t] assms
  by (auto simp: canonical_digits_def sgn_if)

section \<open>Integers\<close>

definition ldap_integer :: "bytes \<Rightarrow> int" where
  "ldap_integer v = (if v ! 0 = CHR ''-'' then - int (dec_value (tl v)) else int (dec_value v))"

lemma validLDAPInteger_iff:
  "validLDAPInteger v \<longleftrightarrow>
    (\<exists>s. v = CHR ''-'' # s \<and> canonical_digits s \<and> s \<noteq> ''0'' \<or> v = s \<and> canonical_digits s)"
proof (cases v)
  case (Cons c s)
  have minus: "\<not> is_digit (CHR ''-'')" "is_digit (CHR ''0'')"
    by (simp_all add: is_digit_def)
  show ?thesis
  proof (cases "c = CHR ''-''")
    case True
    then show ?thesis
      using Cons minus by (cases s) (auto simp: validLDAPInteger_def canonical_digits_def)
  next
    case False
    then show ?thesis
      using Cons minus by (auto simp: validLDAPInteger_def canonical_digits_def)
  qed
qed (simp add: validLDAPInteger_def canonical_digits_def)

lemma canonical_pos: "canonical_digits s \<Longrightarrow> s \<noteq> ''0'' \<Longrightarrow> 0 < dec_value s"
proof -
  assume s: "canonical_digits s" "s \<noteq> ''0''"
  then obtain c r where "s = c # r" "c \<noteq> CHR ''0''"
    by (cases s) (auto simp: canonical_digits_def)
  then show ?thesis
    using dec_value_ge [of c r] s(1) by (auto simp: canonical_digits_def intro: less_le_trans [of 0 "10 ^ length r"])
qed

lemma validLDAPInteger_sign:
  assumes "validLDAPInteger v"
  obtains s where "v = CHR ''-'' # s" "canonical_digits s" "0 < dec_value s"
  | "v \<noteq> []" "v ! 0 \<noteq> CHR ''-''" "canonical_digits v"
proof -
  have "canonical_digits v \<Longrightarrow> v \<noteq> [] \<and> v ! 0 \<noteq> CHR ''-''"
    by (cases v) (auto simp: canonical_digits_def is_digit_def)
  then show thesis
    using assms canonical_pos that unfolding validLDAPInteger_iff by blast
qed

lemma Compare_bytes_refl: "Compare_bytes s t = 0 \<longleftrightarrow> s = t"
  by (induction s t rule: Compare_bytes.induct) (auto simp: not_less_iff_gr_or_eq)

lemma canonical_unique:
  assumes "canonical_digits s" "canonical_digits t" "dec_value s = dec_value t"
  shows "s = t"
proof -
  have "length s = length t"
    using canonical_length_less [OF assms(1,2)] canonical_length_less [OF assms(2,1)] assms(3)
    by (cases "length s" "length t" rule: linorder_cases) auto
  then have "Compare_bytes s t = 0"
    using Compare_bytes_digits [of s t] assms by (simp add: canonical_digits_def)
  then show ?thesis
    by (simp only: Compare_bytes_refl)
qed

lemma dec_digits_canonical: "canonical_digits (dec_digits n)"
proof -
  have "0 < n \<Longrightarrow> dec_digits n ! 0 \<noteq> CHR ''0''"
  proof (induction n rule: dec_digits.induct)
    case (1 n)
    show ?case
    proof (cases "n < 10")
      case True
      have "char_of (48 + n) \<noteq> CHR ''0''"
      proof
        assume "char_of (48 + n) = CHR ''0''"
        then have "ord (char_of (48 + n)) = ord (CHR ''0'')"
          by (simp only:)
        then show False
          using True "1.prems" by simp
      qed
      then show ?thesis
        using True by (simp add: dec_digits.simps [of n])
    next
      case False
      then show ?thesis
        using 1 dec_digits_props [of "n div 10"] by (subst dec_digits.simps) (simp add: nth_append)
    qed
  qed
  then show ?thesis
    using dec_digits_props [of n] by (cases "n = 0") (auto simp: canonical_digits_def dec_digits.simps [of 0])
qed

text \<open>
  The valid integers are exactly the canonical texts of the integers.
\<close>

theorem valid_integer_iff: "validLDAPInteger v \<longleftrightarrow> v = FormatInt (ldap_integer v)"
proof
  assume "validLDAPInteger v"
  then show "v = FormatInt (ldap_integer v)"
  proof (cases rule: validLDAPInteger_sign)
    case (1 s)
    then have "dec_digits (dec_value s) = s"
      using canonical_unique [OF dec_digits_canonical] dec_digits_props by blast
    then show ?thesis
      using 1 by (simp add: ldap_integer_def FormatInt_def)
  next
    case 2
    then have "dec_digits (dec_value v) = v"
      using canonical_unique [OF dec_digits_canonical] dec_digits_props by blast
    then show ?thesis
      using 2 by (simp add: ldap_integer_def FormatInt_def)
  qed
next
  assume v: "v = FormatInt (ldap_integer v)"
  have "validLDAPInteger (FormatInt n)" for n
  proof (cases "n < 0")
    case True
    have "dec_value (dec_digits (nat (- n))) = nat (- n)"
      using dec_digits_props by blast
    then have "dec_digits (nat (- n)) \<noteq> ''0''"
      using True by (auto simp: dec_value_def)
    then show ?thesis
      using True dec_digits_canonical by (auto simp: FormatInt_def validLDAPInteger_iff)
  qed (use dec_digits_canonical [of "nat n"] in \<open>auto simp: FormatInt_def validLDAPInteger_iff\<close>)
  then show "validLDAPInteger v"
    using v by metis
qed

text \<open>
  C36: Two valid integers compare as the integers they stand for, of any length.
\<close>

theorem compare_integers:
  assumes "validLDAPInteger left" "validLDAPInteger right"
  shows "compareLDAPIntegers left right = Ok (sgn (ldap_integer left - ldap_integer right))"
  using assms(1)
proof (cases rule: validLDAPInteger_sign)
  case (1 s)
  from assms(2) show ?thesis
  proof (cases rule: validLDAPInteger_sign)
    case (1 t)
    then show ?thesis
      using assms \<open>left = _\<close> \<open>canonical_digits s\<close> canonical_compare [of s t]
      by (simp add: compareLDAPIntegers_def ldap_integer_def Let_def sgn_if split: if_splits)
  next
    case 2
    then show ?thesis
      using assms 1 by (simp add: compareLDAPIntegers_def ldap_integer_def)
  qed
next
  case 2
  from assms(2) show ?thesis
  proof (cases rule: validLDAPInteger_sign)
    case (1 t)
    then show ?thesis
      using assms 2 by (simp add: compareLDAPIntegers_def ldap_integer_def)
  next
    case r: 2
    then show ?thesis
      using assms 2 canonical_compare [of left right] by (simp add: compareLDAPIntegers_def ldap_integer_def Let_def)
  qed
qed

theorem compare_integers_witness:
  "compareLDAPIntegers ''-12'' ''7'' = Ok (sgn (ldap_integer ''-12'' - ldap_integer ''7''))"
  by (rule compare_integers) (simp_all add: validLDAPInteger_def is_digit_def)

section \<open>Values with an order\<close>

lemma parse_ordered_format:
  assumes "0 \<le> n" "n < 2 ^ 63"
  shows "ParseOrderedValue (FormatOrderedValue n c) = Ok (n, c, True)"
proof -
  have digits: "FormatInt n \<noteq> []" "list_all is_digit (FormatInt n)"
    using dec_digits_props [of "nat n"] assms(1) by (simp_all add: FormatInt_def)
  then have "CHR ''}'' \<notin> set (CHR ''{'' # FormatInt n)"
    by (auto simp: list_all_iff is_digit_def)
  then have "Cut (CHR ''}'') (CHR ''{'' # FormatInt n @ CHR ''}'' # c) = (CHR ''{'' # FormatInt n, c, True)"
    by (subst Cut_found) simp
  then show ?thesis
    using digits assms ParseInt_FormatInt [of n]
    by (cases "FormatInt n") (auto simp: ParseOrderedValue_def FormatOrderedValue_def)
qed

lemma unindexed_order: "ParseOrderedValue v = Ok (n, c, False) \<Longrightarrow> n = 0"
  by (auto simp: ParseOrderedValue_def split: if_splits prod.splits option.splits)

definition numbered :: "bytes list \<Rightarrow> (int \<times> bytes \<times> bool) list" where
  "numbered cs = map (\<lambda>(i, c). (int i, c, True)) (enumerate 0 cs)"

lemma numbered_parse:
  "length cs < 2 ^ 63 \<Longrightarrow>
    go_map ParseOrderedValue (map (\<lambda>(i, c). FormatOrderedValue (int i) c) (enumerate 0 cs)) = Ok (numbered cs)"
  by (auto simp: go_map_all2 numbered_def list_all2_conv_all_nth nth_enumerate_eq parse_ordered_format)

lemma sort_key_ascending: "sorted (map f xs) \<Longrightarrow> sort_key f xs = xs"
  by (induction xs) (auto simp: insort_is_Cons)

lemma numbered_sorted: "sorted_wrt (<) (map fst (numbered cs))"
  by (simp add: numbered_def sorted_wrt_iff_nth_less nth_enumerate_eq)

lemma adjacent_duplicate_strict: "sorted_wrt (<) ns \<Longrightarrow> adjacent_duplicate ns = None"
  by (induction ns rule: adjacent_duplicate.induct) auto

lemma adjacent_duplicate_distinct: "sorted ns \<Longrightarrow> adjacent_duplicate ns = None \<longleftrightarrow> distinct ns"
  by (induction ns rule: adjacent_duplicate.induct) (auto split: if_splits)

lemma numbered_renumbered:
  assumes "length cs < 2 ^ 63"
  shows "NormalizeOrderedValues (map (\<lambda>(i, c). FormatOrderedValue (int i) c) (enumerate 0 cs)) =
    Ok (map (\<lambda>(i, c). FormatOrderedValue (int i) c) (enumerate 0 cs))"
proof -
  have "sort_key fst (numbered cs) = numbered cs"
    using numbered_sorted by (intro sort_key_ascending) (simp add: strict_sorted_iff)
  moreover have "adjacent_duplicate (map fst (numbered cs)) = None"
    by (rule adjacent_duplicate_strict) (rule numbered_sorted)
  moreover have "\<not> list_ex (\<lambda>(_, _, i). \<not> i) (numbered cs)"
    by (auto simp: numbered_def list_ex_iff)
  moreover have "map (\<lambda>(i, (_, c, _)). FormatOrderedValue (int i) c) (enumerate 0 (numbered cs)) =
      map (\<lambda>(i, c). FormatOrderedValue (int i) c) (enumerate 0 cs)"
    by (rule nth_equalityI) (auto simp: numbered_def nth_enumerate_eq)
  ultimately show ?thesis
    by (auto simp: NormalizeOrderedValues_def numbered_parse [OF assms] Let_def)
qed

text \<open>
  C17: Numbering a list of values succeeds only if all of them carry different indexes or none carries
  any. The result carries the indexes from 0 on, over the same contents in the order of the given
  indexes (without indexes, in the given order), and is its own numbering.
\<close>

theorem ordered_values_numbered:
  assumes "NormalizeOrderedValues vs = Ok ws" "length vs < 2 ^ 63"
  shows "\<exists>items. go_map ParseOrderedValue vs = Ok items \<and>
    ((\<forall>(n, c, i)\<in>set items. \<not> i) \<or> (\<forall>(n, c, i)\<in>set items. i) \<and> distinct (map fst items)) \<and>
    go_map ParseOrderedValue ws = Ok (numbered (map (fst \<circ> snd) (sort_key fst items))) \<and>
    NormalizeOrderedValues ws = Ok ws"
proof -
  obtain items where items: "go_map ParseOrderedValue vs = Ok items"
    using assms(1) by (auto simp: NormalizeOrderedValues_def)
  have len: "length items = length vs"
    using items by (rule go_map_length)
  let ?indexed = "list_ex (\<lambda>(_, _, i). i) items"
  let ?sorted = "sort_key fst items"
  have zero: "n = 0" if "(n, c, False) \<in> set items" for n c
  proof -
    from that obtain i where "i < length items" "items ! i = (n, c, False)"
      by (auto simp: in_set_conv_nth)
    with items have "ParseOrderedValue (vs ! i) = Ok (n, c, False)"
      by (auto simp: go_map_all2 list_all2_conv_all_nth)
    then show ?thesis
      by (rule unindexed_order)
  qed
  have pure: "?indexed \<longrightarrow> \<not> list_ex (\<lambda>(_, _, i). \<not> i) items"
    using assms(1) items by (auto simp: NormalizeOrderedValues_def Let_def split: if_splits)
  have "fst x = 0" if "\<not> ?indexed" "x \<in> set items" for x
  proof (cases x)
    case (fields n c i)
    then show ?thesis
      using that zero [of n c] by (cases i) (auto simp: list_ex_iff)
  qed
  then have "\<not> ?indexed \<Longrightarrow> sorted (map fst items)"
    by (simp add: sorted_map sorted_wrt_iff_nth_less)
  then have sorted: "(if ?indexed then ?sorted else items) = ?sorted"
    by (simp add: sort_key_ascending)
  have none: "?indexed \<Longrightarrow> adjacent_duplicate (map fst ?sorted) = None"
    using assms(1) items pure by (auto simp: NormalizeOrderedValues_def Let_def split: if_splits option.splits)
  have "ws = map (\<lambda>(i, (_, c, _)). FormatOrderedValue (int i) c) (enumerate 0 ?sorted)"
    using assms(1) items pure sorted by (auto simp: NormalizeOrderedValues_def Let_def split: if_splits option.splits)
  also have "\<dots> = map (\<lambda>(i, c). FormatOrderedValue (int i) c) (enumerate 0 (map (fst \<circ> snd) ?sorted))"
    by (rule nth_equalityI) (auto simp: nth_enumerate_eq split: prod.split)
  finally have ws: "ws = map (\<lambda>(i, c). FormatOrderedValue (int i) c) (enumerate 0 (map (fst \<circ> snd) ?sorted))" .
  have "length (map (fst \<circ> snd) ?sorted) < 2 ^ 63"
    using assms(2) len by simp
  note renumbered = numbered_parse [OF this] numbered_renumbered [OF this]
  have "?indexed \<Longrightarrow> distinct (map fst ?sorted)"
    using none adjacent_duplicate_distinct [of "map fst ?sorted"] by simp
  moreover have "mset (map fst ?sorted) = mset (map fst items)"
    by simp
  ultimately have "?indexed \<Longrightarrow> distinct (map fst items)"
    using mset_eq_imp_distinct_iff by blast
  moreover have "(\<forall>(n, c, i)\<in>set items. \<not> i) \<or> (\<forall>(n, c, i)\<in>set items. i) \<and> ?indexed"
    using pure by (fastforce simp: list_ex_iff)
  ultimately show ?thesis
    using items renumbered ws by blast
qed

theorem ordered_values_numbered_witness:
  "\<exists>items. go_map ParseOrderedValue [''{2}b'', ''{1}a''] = Ok items \<and>
    ((\<forall>(n, c, i)\<in>set items. \<not> i) \<or> (\<forall>(n, c, i)\<in>set items. i) \<and> distinct (map fst items)) \<and>
    go_map ParseOrderedValue [''{0}a'', ''{1}b''] = Ok (numbered (map (fst \<circ> snd) (sort_key fst items))) \<and>
    NormalizeOrderedValues [''{0}a'', ''{1}b''] = Ok [''{0}a'', ''{1}b'']"
proof (rule ordered_values_numbered)
  show "NormalizeOrderedValues [''{2}b'', ''{1}a''] = Ok [''{0}a'', ''{1}b'']"
    by code_simp
qed simp

section \<open>Reading a written time\<close>

lemma dec_digits_length: "n < 10 ^ k \<Longrightarrow> 0 < k \<Longrightarrow> length (dec_digits n) \<le> k"
proof (rule ccontr)
  assume n: "n < 10 ^ k" "0 < k" "\<not> length (dec_digits n) \<le> k"
  obtain c s where d: "dec_digits n = c # s"
    using dec_digits_canonical [of n] by (cases "dec_digits n") (auto simp: canonical_digits_def)
  then have "c \<noteq> CHR ''0''" "list_all is_digit (c # s)"
    using dec_digits_canonical [of n] n by (auto simp: canonical_digits_def)
  then have "10 ^ length s \<le> dec_value (c # s)"
    by (intro dec_value_ge)
  moreover have "10 ^ k \<le> (10 :: nat) ^ length s"
    using n d by (intro power_increasing) auto
  moreover have "dec_value (c # s) = n"
    using dec_digits_props [of n] d by simp
  ultimately show False
    using n by simp
qed

lemma padded_digits:
  assumes "0 \<le> v" "v < 10 ^ k" "0 < k"
  shows "length (padded k v) = k" "list_all is_digit (padded k v)" "int (dec_value (padded k v)) = v"
proof -
  have "nat v < 10 ^ k"
    using assms by (simp add: nat_less_iff)
  then have "length (dec_digits (nat v)) \<le> k"
    using assms(3) by (rule dec_digits_length)
  moreover have "dec_value (replicate m (CHR ''0'') @ s) = dec_value s" for m s
    by (induction m) (simp_all add: dec_value_Cons)
  ultimately show "length (padded k v) = k" "list_all is_digit (padded k v)" "int (dec_value (padded k v)) = v"
    using dec_digits_props [of "nat v"] assms(1)
    by (auto simp: padded_def FormatInt_def Let_def list_all_iff is_digit_def)
qed

lemma decimalField_at:
  assumes "length pre = start" "length mid = k" "0 < k" "list_all is_digit mid"
  shows "decimalField (pre @ mid @ post) start k = Some (int (dec_value mid))"
  using assms by (simp add: decimalField_def)

lemma decimalField_padded:
  assumes "length pre = start" "0 \<le> v" "v < 10 ^ k" "0 < k"
  shows "decimalField (pre @ padded k v @ post) start k = Some v"
  using decimalField_at [OF assms(1) padded_digits(1) [OF assms(2-4)] assms(4) padded_digits(2) [OF assms(2-4)]]
    padded_digits(3) [OF assms(2-4)] by simp

text \<open>
  The spellings of a time: hours alone, with minutes, or with minutes and seconds; a fraction behind
  a point or a comma; and the three forms of a zone.
\<close>

datatype zone = Zulu | ZoneHours bool int | ZoneMinutes bool int int

datatype clock = HoursOnly | HoursMinutes | HoursMinutesSeconds

record written_time =
  wt_date :: "int \<times> int \<times> int"
  wt_minutes :: int
  wt_second :: int
  wt_clock :: clock
  wt_comma :: bool
  wt_fraction :: bytes
  wt_zone :: zone

fun zone_text :: "zone \<Rightarrow> bytes" where
  "zone_text Zulu = ''Z''"
| "zone_text (ZoneHours west h) = (if west then CHR ''-'' else CHR ''+'') # padded 2 h"
| "zone_text (ZoneMinutes west h m) = (if west then CHR ''-'' else CHR ''+'') # padded 2 h @ padded 2 m"

fun zone_minutes :: "zone \<Rightarrow> int" where
  "zone_minutes Zulu = 0"
| "zone_minutes (ZoneHours west h) = (if west then - 1 else 1) * (h * 60)"
| "zone_minutes (ZoneMinutes west h m) = (if west then - 1 else 1) * (h * 60 + m)"

fun valid_zone :: "zone \<Rightarrow> bool" where
  "valid_zone Zulu = True"
| "valid_zone (ZoneHours _ h) = (0 \<le> h \<and> h \<le> 23)"
| "valid_zone (ZoneMinutes _ h m) = (0 \<le> h \<and> h \<le> 23 \<and> 0 \<le> m \<and> m \<le> 59)"

fun clock_text :: "clock \<Rightarrow> int \<Rightarrow> int \<Rightarrow> bytes" where
  "clock_text HoursOnly minutes second = []"
| "clock_text HoursMinutes minutes second = padded 2 (minutes mod 60)"
| "clock_text HoursMinutesSeconds minutes second = padded 2 (minutes mod 60) @ padded 2 second"

text \<open>What is left out counts as zero.\<close>

fun clock_ok :: "clock \<Rightarrow> int \<Rightarrow> int \<Rightarrow> bool" where
  "clock_ok HoursOnly minutes second = (minutes mod 60 = 0 \<and> second = 0)"
| "clock_ok HoursMinutes minutes second = (second = 0)"
| "clock_ok HoursMinutesSeconds minutes second = True"

definition fraction_text :: "bool \<Rightarrow> bytes \<Rightarrow> bytes" where
  "fraction_text comma fraction =
     (if fraction = [] then [] else (if comma then CHR '','' else CHR ''.'') # fraction)"

definition date_text :: "int \<times> int \<times> int \<Rightarrow> bytes" where
  "date_text = (\<lambda>(y, m, d). padded 4 y @ padded 2 m @ padded 2 d)"

definition written_text :: "written_time \<Rightarrow> bytes" where
  "written_text w = date_text (wt_date w) @ padded 2 (wt_minutes w div 60) @
     clock_text (wt_clock w) (wt_minutes w) (wt_second w) @
     fraction_text (wt_comma w) (wt_fraction w) @ zone_text (wt_zone w)"

text \<open>The normal form: minutes and seconds, a point, no zone but \<^verbatim>\<open>Z\<close>.\<close>

definition time_text :: "int \<times> int \<times> int \<Rightarrow> int \<Rightarrow> int \<Rightarrow> bytes \<Rightarrow> bytes" where
  "time_text = (\<lambda>(y, m, d) minutes second fraction.
     padded 4 y @ padded 2 m @ padded 2 d @ padded 2 (minutes div 60) @ padded 2 (minutes mod 60) @
     padded 2 second @ (if fraction \<noteq> [] then ''.'' @ fraction else []) @ ''Z'')"

definition valid_date :: "int \<times> int \<times> int \<Rightarrow> bool" where
  "valid_date = (\<lambda>(y, m, d). 0 \<le> y \<and> y \<le> 9999 \<and> 1 \<le> m \<and> m \<le> 12 \<and> 1 \<le> d \<and> d \<le> daysInMonth y m)"

definition valid_written :: "written_time \<Rightarrow> bool" where
  "valid_written w \<longleftrightarrow> valid_date (wt_date w) \<and> 0 \<le> wt_minutes w \<and> wt_minutes w < 1440 \<and>
     0 \<le> wt_second w \<and> wt_second w \<le> 60 \<and> clock_ok (wt_clock w) (wt_minutes w) (wt_second w) \<and>
     list_all is_digit (wt_fraction w) \<and> valid_zone (wt_zone w)"

definition plain_time :: "int \<times> int \<times> int \<Rightarrow> int \<Rightarrow> int \<Rightarrow> bytes \<Rightarrow> written_time" where
  "plain_time date minutes second fraction = \<lparr>wt_date = date, wt_minutes = minutes, wt_second = second,
     wt_clock = HoursMinutesSeconds, wt_comma = False, wt_fraction = fraction, wt_zone = Zulu\<rparr>"

lemma written_plain_time: "written_text (plain_time date minutes second fraction) = time_text date minutes second fraction"
  by (cases date) (simp add: written_text_def plain_time_def date_text_def time_text_def fraction_text_def)

lemma zone_text_start: "\<exists>c s. zone_text z = c # s \<and> \<not> is_digit c \<and> c \<noteq> CHR ''.'' \<and> c \<noteq> CHR '',''"
  by (cases z) (auto simp: is_digit_def)

lemma tail_start: "\<exists>c s. fraction_text comma fraction @ zone_text z = c # s \<and> \<not> is_digit c"
  using zone_text_start [of z] by (auto simp: fraction_text_def is_digit_def)

lemma fraction_of_text:
  assumes "length pre = index" "list_all is_digit fraction"
  shows "fraction_of (pre @ fraction_text comma fraction @ zone_text z) index =
    Ok (trim_zeros fraction, index + length (fraction_text comma fraction))"
proof -
  obtain c s where z: "zone_text z = c # s" "\<not> is_digit c" "c \<noteq> CHR ''.''" "c \<noteq> CHR '',''"
    using zone_text_start by blast
  have "takeWhile is_digit (fraction @ c # s) = fraction"
    using assms(2) z(2) by (induction fraction) auto
  then show ?thesis
    using assms z by (auto simp: fraction_of_def fraction_text_def nth_append trim_zeros_def)
qed

lemma offset_of_text:
  assumes "length pre = index" "valid_zone z"
  shows "offset_of (pre @ zone_text z) index = Ok (zone_minutes z, index + length (zone_text z))"
proof (cases z)
  case (ZoneHours west h)
  let ?c = "if west then CHR ''-'' else CHR ''+''"
  have h: "0 \<le> h" "h < 10 ^ 2" "h \<le> 23"
    using assms(2) ZoneHours by simp_all
  have "decimalField ((pre @ [?c]) @ padded 2 h @ []) (index + 1) 2 = Some h"
    by (rule decimalField_padded) (use h assms(1) in simp_all)
  then show ?thesis
    using ZoneHours h assms(1) padded_digits(1) [of h 2] by (auto simp: offset_of_def Let_def nth_append)
next
  case (ZoneMinutes west h m)
  let ?c = "if west then CHR ''-'' else CHR ''+''"
  have h: "0 \<le> h" "h < 10 ^ 2" "h \<le> 23" "0 \<le> m" "m < 10 ^ 2" "m \<le> 59"
    using assms(2) ZoneMinutes by simp_all
  have "decimalField ((pre @ [?c]) @ padded 2 h @ padded 2 m) (index + 1) 2 = Some h"
    by (rule decimalField_padded) (use h assms(1) in simp_all)
  moreover have "decimalField ((pre @ [?c] @ padded 2 h) @ padded 2 m @ []) (index + 3) 2 = Some m"
    by (rule decimalField_padded) (use h assms(1) padded_digits [of h 2] in simp_all)
  ultimately show ?thesis
    using ZoneMinutes h assms(1) padded_digits(1) [of h 2] padded_digits(1) [of m 2]
    by (auto simp: offset_of_def Let_def nth_append)
qed (use assms in \<open>simp add: offset_of_def nth_append\<close>)

lemma nth_middle: "length pre = n \<Longrightarrow> (pre @ c # post) ! n = c"
  by (simp add: nth_append)

lemma padded_start: "0 \<le> v \<Longrightarrow> v < 10 ^ 2 \<Longrightarrow> \<exists>c s. padded 2 v = c # s \<and> is_digit c"
  using padded_digits(1,2) [of v 2] by (cases "padded 2 v") auto

lemma time_of_day_text:
  assumes "length P = 10" "rest = c # s" "\<not> is_digit c" "0 \<le> minutes" "0 \<le> second" "second \<le> 60"
    "clock_ok k minutes second"
  shows "time_of_day (P @ clock_text k minutes second @ rest) =
    Ok (minutes mod 60, second, 10 + length (clock_text k minutes second))"
proof -
  let ?i = "minutes mod 60"
  have i: "0 \<le> ?i" "?i < 10 ^ 2" "?i \<le> 59" and s: "0 \<le> second" "second < 10 ^ 2"
    using assms(5,6) pos_mod_bound [of 60 minutes] by simp_all
  obtain e es where E: "padded 2 ?i = e # es" "is_digit e"
    using padded_start i by blast
  obtain f fs where F: "padded 2 second = f # fs" "is_digit f"
    using padded_start s by blast
  have minute: "decimalField (P @ padded 2 ?i @ x) 10 2 = Some ?i" for x
    by (rule decimalField_padded) (use i assms(1) in simp_all)
  have second: "decimalField ((P @ padded 2 ?i) @ padded 2 second @ x) 12 2 = Some second" for x
    by (rule decimalField_padded) (use i s assms(1) padded_digits(1) [of ?i 2] in simp_all)
  have at10: "(P @ padded 2 ?i @ x) ! 10 = e" for x
    using assms(1) E by (simp add: nth_append)
  have at12: "(P @ padded 2 ?i @ x # y) ! 12 = x" for x y
    using nth_middle [of "P @ padded 2 ?i" 12 x y] assms(1) padded_digits(1) [of ?i 2] i by simp
  show ?thesis
  proof (cases k)
    case HoursOnly
    then show ?thesis
      using assms by (simp add: time_of_day_def nth_append)
  next
    case HoursMinutes
    then show ?thesis
      using assms minute at10 at12 E i padded_digits(1) [of ?i 2] by (simp add: time_of_day_def)
  next
    case HoursMinutesSeconds
    then show ?thesis
      using assms(1,5,6) minute [of "padded 2 second @ rest"] second [of rest] at10 at12 [of f "fs @ rest"]
        E F i padded_digits(1) [of ?i 2] padded_digits(1) [of second 2] s by (simp add: time_of_day_def)
  qed
qed

lemma date_fields:
  assumes "0 \<le> y" "y \<le> 9999" "0 \<le> m" "m < 10 ^ 2" "0 \<le> d" "d < 10 ^ 2" "0 \<le> h" "h < 10 ^ 2"
  shows "decimalField (padded 4 y @ padded 2 m @ padded 2 d @ padded 2 h @ R) 0 4 = Some y"
    "decimalField (padded 4 y @ padded 2 m @ padded 2 d @ padded 2 h @ R) 4 2 = Some m"
    "decimalField (padded 4 y @ padded 2 m @ padded 2 d @ padded 2 h @ R) 6 2 = Some d"
    "decimalField (padded 4 y @ padded 2 m @ padded 2 d @ padded 2 h @ R) 8 2 = Some h"
    "length (padded 4 y @ padded 2 m @ padded 2 d @ padded 2 h) = 10"
proof -
  have y: "0 \<le> y" "y < 10 ^ 4" using assms by simp_all
  have len: "length (padded 4 y) = 4" "length (padded 2 m) = 2" "length (padded 2 d) = 2" "length (padded 2 h) = 2"
    using padded_digits(1) y assms by simp_all
  then show "length (padded 4 y @ padded 2 m @ padded 2 d @ padded 2 h) = 10" by simp
  show "decimalField (padded 4 y @ padded 2 m @ padded 2 d @ padded 2 h @ R) 0 4 = Some y"
    using decimalField_padded [of "[]" 0 y 4 "padded 2 m @ padded 2 d @ padded 2 h @ R"] y by simp
  show "decimalField (padded 4 y @ padded 2 m @ padded 2 d @ padded 2 h @ R) 4 2 = Some m"
    using decimalField_padded [of "padded 4 y" 4 m 2 "padded 2 d @ padded 2 h @ R"] assms len by simp
  show "decimalField (padded 4 y @ padded 2 m @ padded 2 d @ padded 2 h @ R) 6 2 = Some d"
    using decimalField_padded [of "padded 4 y @ padded 2 m" 6 d 2 "padded 2 h @ R"] assms len by simp
  show "decimalField (padded 4 y @ padded 2 m @ padded 2 d @ padded 2 h @ R) 8 2 = Some h"
    using decimalField_padded [of "padded 4 y @ padded 2 m @ padded 2 d" 8 h 2 R] assms len by simp
qed

lemma normalize_from_fields:
  assumes "decimalField T 0 4 = Some y" "decimalField T 4 2 = Some m" "decimalField T 6 2 = Some d"
    "decimalField T 8 2 = Some h" "1 \<le> m" "m \<le> 12" "1 \<le> d" "d \<le> daysInMonth y m" "h \<le> 23"
    "time_of_day T = Ok (i, second, n)" "fraction_of T n = Ok (fraction, n')"
    "offset_of T n' = Ok (offset, length T)" "11 \<le> length T"
  shows "normalizeGeneralizedTime T =
    (case shift_minutes (y, m, d) (h * 60 + i - offset) of ((y, m, d), minutes) \<Rightarrow>
       if y < 0 \<or> 9999 < y then Err NotGeneralizedTime
       else Ok (time_text (y, m, d) minutes second fraction))"
proof -
  have "\<not> length T < 11" "\<not> (m < 1 \<or> 12 < m)" "\<not> (d < 1 \<or> daysInMonth y m < d)" "\<not> 23 < h"
    using assms by auto
  then show ?thesis
    unfolding normalizeGeneralizedTime_def time_text_def
    by (simp only: assms if_False option.case go_bind.simps prod.case simp_thms)
qed

lemma normalize_written:
  assumes "valid_written w"
  shows "normalizeGeneralizedTime (written_text w) =
    (case shift_minutes (wt_date w) (wt_minutes w - zone_minutes (wt_zone w)) of ((y, m, d), minutes) \<Rightarrow>
       if y < 0 \<or> 9999 < y then Err NotGeneralizedTime
       else Ok (time_text (y, m, d) minutes (wt_second w) (trim_zeros (wt_fraction w))))"
proof -
  obtain y m d where date: "wt_date w = (y, m, d)"
    by (cases "wt_date w")
  let ?h = "wt_minutes w div 60" and ?i = "wt_minutes w mod 60" and ?s = "wt_second w" and ?z = "wt_zone w"
  have dim: "daysInMonth y m \<le> 31"
    by (simp add: daysInMonth_def)
  have valid: "0 \<le> y" "y \<le> 9999" "1 \<le> m" "m \<le> 12" "1 \<le> d" "d \<le> daysInMonth y m" "?h \<le> 23" "0 \<le> ?h"
    "0 \<le> wt_minutes w" "0 \<le> ?s" "?s \<le> 60" "clock_ok (wt_clock w) (wt_minutes w) ?s"
    "list_all is_digit (wt_fraction w)" "valid_zone ?z"
    using assms by (auto simp: valid_written_def valid_date_def date)
  define P where "P = padded 4 y @ padded 2 m @ padded 2 d @ padded 2 ?h"
  define K where "K = clock_text (wt_clock w) (wt_minutes w) ?s"
  define R where "R = fraction_text (wt_comma w) (wt_fraction w)"
  define Z where "Z = zone_text ?z"
  define T where "T = P @ K @ R @ Z"
  have T: "written_text w = T"
    by (simp add: written_text_def date_text_def date T_def P_def K_def R_def Z_def)
  have bounds: "0 \<le> m" "m < 10 ^ 2" "0 \<le> d" "d < 10 ^ 2" "?h < 10 ^ 2"
    using valid dim by simp_all
  note fields = date_fields [OF valid(1,2) bounds(1-4) valid(8) bounds(5)]
  have read: "decimalField T 0 4 = Some y" "decimalField T 4 2 = Some m" "decimalField T 6 2 = Some d"
      "decimalField T 8 2 = Some ?h"
    using fields(1-4) [of "K @ R @ Z"] by (simp_all add: T_def P_def)
  have len: "length P = 10"
    using fields(5) by (simp add: P_def)
  obtain c s where cs: "R @ Z = c # s" "\<not> is_digit c"
    using tail_start unfolding R_def Z_def by blast
  have tod: "time_of_day T = Ok (?i, ?s, 10 + length K)"
    unfolding T_def K_def by (rule time_of_day_text [OF len cs valid(9-12)])
  have frac: "fraction_of T (10 + length K) = Ok (trim_zeros (wt_fraction w), 10 + length K + length R)"
    using fraction_of_text [of "P @ K" "10 + length K" _ "wt_comma w" ?z, folded R_def Z_def] len valid(13)
    by (simp add: T_def R_def)
  have off: "offset_of T (10 + length K + length R) = Ok (zone_minutes ?z, length T)"
    using offset_of_text [of "P @ K @ R" "10 + length K + length R" ?z, folded Z_def] len valid(14)
    by (simp add: T_def)
  have "11 \<le> length T"
    using len arg_cong [OF cs(1), of length] by (simp add: T_def)
  from normalize_from_fields [OF read valid(3-7) tod frac off this] show ?thesis
    by (simp add: T date)
qed

lemma normalize_time_text:
  assumes "valid_date date" "0 \<le> minutes" "minutes < 1440" "0 \<le> second" "second \<le> 60" "list_all is_digit fraction"
  shows "normalizeGeneralizedTime (time_text date minutes second fraction) =
    Ok (time_text date minutes second (trim_zeros fraction))"
proof -
  have "valid_written (plain_time date minutes second fraction)"
    using assms by (simp add: valid_written_def plain_time_def)
  from normalize_written [OF this] show ?thesis
    using assms(1-3) unfolding written_plain_time
    by (cases date) (simp add: plain_time_def shift_minutes_def valid_date_def)
qed

section \<open>The calendar\<close>

definition valid_month_day :: "int \<times> int \<times> int \<Rightarrow> bool" where
  "valid_month_day = (\<lambda>(y, m, d). 1 \<le> m \<and> m \<le> 12 \<and> 1 \<le> d \<and> d \<le> daysInMonth y m)"

definition year_length :: "int \<Rightarrow> int" where
  "year_length y = (if leap_year y then 366 else 365)"

definition year_start :: "int \<Rightarrow> int" where
  "year_start y = (\<Sum>i\<in>{0..<y}. year_length i)"

definition month_start :: "int \<Rightarrow> int \<Rightarrow> int" where
  "month_start y m = (\<Sum>j\<in>{1..<m}. daysInMonth y j)"

definition day_number :: "int \<times> int \<times> int \<Rightarrow> int" where
  "day_number = (\<lambda>(y, m, d). year_start y + month_start y m + d - 1)"

text \<open>The minutes since the beginning of year 0.\<close>

definition minute_number :: "int \<times> int \<times> int \<Rightarrow> int \<Rightarrow> int" where
  "minute_number date minutes = day_number date * 1440 + minutes"

lemma sum_upto_step: "a \<le> b \<Longrightarrow> (\<Sum>i\<in>{a..<b + 1}. f i) = (\<Sum>i\<in>{a..<b}. f i) + (f b :: int)" for a b :: int
proof -
  assume "a \<le> b"
  then have "{a..<b + 1} = insert b {a..<b}"
    by auto
  then show ?thesis
    by simp
qed

lemma year_start_step: "0 \<le> y \<Longrightarrow> year_start (y + 1) = year_start y + year_length y"
  by (simp add: year_start_def sum_upto_step)

lemma month_start_step: "1 \<le> m \<Longrightarrow> month_start y (m + 1) = month_start y m + daysInMonth y m"
  by (simp add: month_start_def sum_upto_step)

lemma month_start_first [simp]: "month_start y 1 = 0"
  by (simp add: month_start_def)

lemma month_start_end: "month_start y 13 = year_length y"
proof -
  have "{1..<13} = {1, 2, 3, 4, 5, 6, 7, 8, 9, 10, 11, 12 :: int}"
    by (rule set_eqI) (simp, presburger)
  then show ?thesis
    by (simp add: month_start_def daysInMonth_def year_length_def)
qed

lemma month_start_mono: "m \<le> n \<Longrightarrow> month_start y m \<le> month_start y n"
  unfolding month_start_def by (rule sum_mono2) (auto simp: daysInMonth_def)

lemma year_start_mono: "y \<le> z \<Longrightarrow> year_start y \<le> year_start z"
  unfolding year_start_def by (rule sum_mono2) (auto simp: year_length_def)

lemma year_start_nonneg: "0 \<le> year_start y"
  unfolding year_start_def by (rule sum_nonneg) (simp add: year_length_def)

lemma month_end: "1 \<le> m \<Longrightarrow> m < n \<Longrightarrow> month_start y m + daysInMonth y m \<le> month_start y n"
  using month_start_step [of m y] month_start_mono [of "m + 1" n y] by simp

lemma month_start_nonneg: "0 \<le> month_start y m"
  unfolding month_start_def by (rule sum_nonneg) (simp add: daysInMonth_def)

lemma valid_date_split: "valid_date (y, m, d) \<longleftrightarrow> 0 \<le> y \<and> y \<le> 9999 \<and> valid_month_day (y, m, d)"
  by (auto simp: valid_date_def valid_month_day_def)

lemma day_in_year:
  "valid_month_day (y, m, d) \<Longrightarrow> 0 \<le> month_start y m + d - 1 \<and> month_start y m + d - 1 < year_length y"
  using month_end [of m 13 y] month_start_end [of y] month_start_nonneg [of y m]
  by (auto simp: valid_month_day_def)

lemma day_number_nonneg: "valid_month_day (y, m, d) \<Longrightarrow> 0 \<le> day_number (y, m, d)"
  using day_in_year [of y m d] year_start_nonneg [of y] by (simp add: day_number_def)

lemma day_number_less_year:
  "0 \<le> y \<Longrightarrow> y < z \<Longrightarrow> valid_month_day (y, m, d) \<Longrightarrow> valid_month_day (z, n, e) \<Longrightarrow>
    day_number (y, m, d) < day_number (z, n, e)"
  using day_in_year [of y m d] day_in_year [of z n e] year_start_step [of y] year_start_mono [of "y + 1" z]
  by (simp add: day_number_def)

lemma day_number_less_month:
  "m < n \<Longrightarrow> valid_month_day (y, m, d) \<Longrightarrow> valid_month_day (y, n, e) \<Longrightarrow>
    day_number (y, m, d) < day_number (y, n, e)"
  using month_end [of m n y] by (auto simp: day_number_def valid_month_day_def)

lemma day_number_inj:
  assumes "valid_month_day (y, m, d)" "valid_month_day (z, n, e)" "0 \<le> y" "0 \<le> z"
    "day_number (y, m, d) = day_number (z, n, e)"
  shows "(y, m, d) = (z, n, e)"
proof -
  have "y = z"
    using day_number_less_year [of y z m d n e] day_number_less_year [of z y n e m d] assms by linarith
  moreover have "m = n"
    using day_number_less_month [of m n y d e] day_number_less_month [of n m y e d] assms calculation by force
  ultimately show ?thesis
    using assms(5) by (simp add: day_number_def)
qed

lemma next_day_number:
  "0 \<le> y \<Longrightarrow> valid_month_day (y, m, d) \<Longrightarrow> day_number (next_day (y, m, d)) = day_number (y, m, d) + 1"
  using year_start_step [of y] month_start_step [of m y] month_start_end [of y] month_start_step [of 12 y]
  by (auto simp: next_day_def day_number_def valid_month_day_def)

lemma previous_day_number:
  "0 \<le> y \<Longrightarrow> valid_month_day (y, m, d) \<Longrightarrow> (y, m, d) \<noteq> (0, 1, 1) \<Longrightarrow>
    day_number (previous_day (y, m, d)) = day_number (y, m, d) - 1"
  using year_start_step [of "y - 1"] month_start_step [of "m - 1" y] month_start_end [of "y - 1"]
    month_start_step [of 12 "y - 1"]
  by (auto simp: previous_day_def day_number_def valid_month_day_def daysInMonth_def [of "y - 1" 12])

lemma daysInMonth_pos: "1 \<le> daysInMonth y m"
  by (simp add: daysInMonth_def)

lemma next_day_valid: "valid_month_day (y, m, d) \<Longrightarrow> valid_month_day (next_day (y, m, d))"
  using daysInMonth_pos [of y "m + 1"] daysInMonth_pos [of "y + 1" 1]
  by (auto simp: next_day_def valid_month_day_def)

lemma previous_day_valid: "valid_month_day (y, m, d) \<Longrightarrow> valid_month_day (previous_day (y, m, d))"
  using daysInMonth_pos [of y "m - 1"]
  by (auto simp: previous_day_def valid_month_day_def daysInMonth_def [of "y - 1" 12])

lemma shift_minutes_spec:
  assumes "0 \<le> y" "valid_month_day (y, m, d)" "- 1440 < t" "t < 2880"
    "shift_minutes (y, m, d) t = ((y', m', d'), t')"
  shows "valid_month_day (y', m', d')" "0 \<le> t'" "t' < 1440"
    "0 \<le> y' \<Longrightarrow> minute_number (y', m', d') t' = minute_number (y, m, d) t"
    "y' < 0 \<Longrightarrow> minute_number (y, m, d) t < 0"
proof -
  have prev: "(y, m, d) = (0, 1, 1) \<longleftrightarrow> fst (previous_day (y, m, d)) < 0"
    using assms(1,2) by (auto simp: previous_day_def valid_month_day_def)
  have next_year: "0 \<le> fst (next_day (y, m, d))"
    using assms(1) by (simp add: next_day_def)
  have first: "day_number (0, 1, 1) = 0"
    by (simp add: day_number_def year_start_def)
  show "valid_month_day (y', m', d')"
    using assms next_day_valid [OF assms(2)] previous_day_valid [OF assms(2)]
    by (auto simp: shift_minutes_def split: if_splits)
  show "0 \<le> t'" "t' < 1440"
    using assms by (auto simp: shift_minutes_def split: if_splits)
  consider "t < 0" "(y', m', d') = previous_day (y, m, d)" "t' = t + 1440"
    | "1440 \<le> t" "(y', m', d') = next_day (y, m, d)" "t' = t - 1440"
    | "0 \<le> t" "(y', m', d') = (y, m, d)" "t' = t"
    using assms(5) by (auto simp: shift_minutes_def split: if_splits)
  note moved = this
  show "minute_number (y', m', d') t' = minute_number (y, m, d) t" if "0 \<le> y'"
    using moved
  proof cases
    case 1
    then have "(y, m, d) \<noteq> (0, 1, 1)"
      using that prev by (metis fst_conv not_less)
    then show ?thesis
      using previous_day_number [OF assms(1,2)] 1 by (simp add: minute_number_def)
  next
    case 2
    then show ?thesis
      using next_day_number [OF assms(1,2)] by (simp add: minute_number_def)
  qed simp
  show "minute_number (y, m, d) t < 0" if "y' < 0"
    using moved
  proof cases
    case 1
    then have "(y, m, d) = (0, 1, 1)"
      using that prev by (metis fst_conv)
    then show ?thesis
      using first 1(1) by (simp add: minute_number_def)
  next
    case 2
    then show ?thesis
      using that next_year by (metis fst_conv not_less)
  qed (use that assms(1) in simp)
qed

lemma shift_zero: "0 \<le> t \<Longrightarrow> t < 1440 \<Longrightarrow> shift_minutes date t = (date, t)"
  by (simp add: shift_minutes_def)

lemma zone_minutes_bound: "valid_zone z \<Longrightarrow> - 1440 < zone_minutes z \<and> zone_minutes z < 1440"
  by (cases z) auto

lemma euclid: "a * 1440 + t = b * 1440 + u \<Longrightarrow> 0 \<le> t \<Longrightarrow> t < 1440 \<Longrightarrow> 0 \<le> u \<Longrightarrow> u < 1440 \<Longrightarrow> a = b \<and> t = u"
  for a b t u :: int
proof -
  assume "a * 1440 + t = b * 1440 + u" "0 \<le> t" "t < 1440" "0 \<le> u" "u < 1440"
  moreover from this have "a = (a * 1440 + t) div 1440" "b = (b * 1440 + u) div 1440"
    by simp_all
  ultimately have "a = b"
    by simp
  then show ?thesis
    using \<open>a * 1440 + t = b * 1440 + u\<close> by simp
qed

definition written_moment :: "written_time \<Rightarrow> int" where
  "written_moment w = minute_number (wt_date w) (wt_minutes w - zone_minutes (wt_zone w))"

definition same_time :: "written_time \<Rightarrow> written_time \<Rightarrow> bool" where
  "same_time v w \<longleftrightarrow> written_moment v = written_moment w \<and> wt_second v = wt_second w \<and>
     trim_zeros (wt_fraction v) = trim_zeros (wt_fraction w)"

lemma shifted_written:
  assumes "valid_written w"
  obtains y m d t where
    "shift_minutes (wt_date w) (wt_minutes w - zone_minutes (wt_zone w)) = ((y, m, d), t)"
    "valid_month_day (y, m, d)" "0 \<le> t" "t < 1440" "0 \<le> y \<Longrightarrow> minute_number (y, m, d) t = written_moment w"
    "y < 0 \<longleftrightarrow> written_moment w < 0"
proof -
  obtain a b c where date: "wt_date w = (a, b, c)"
    by (cases "wt_date w")
  obtain y m d t where s: "shift_minutes (a, b, c) (wt_minutes w - zone_minutes (wt_zone w)) = ((y, m, d), t)"
    by (metis prod.collapse)
  have v: "0 \<le> a" "valid_month_day (a, b, c)" "0 \<le> wt_minutes w" "wt_minutes w < 1440" "valid_zone (wt_zone w)"
    using assms by (simp_all add: date valid_written_def valid_date_split)
  have bound: "- 1440 < wt_minutes w - zone_minutes (wt_zone w)" "wt_minutes w - zone_minutes (wt_zone w) < 2880"
    using zone_minutes_bound [OF v(5)] v(3,4) by linarith+
  note spec = shift_minutes_spec [OF v(1,2) bound s]
  have "0 \<le> minute_number (y, m, d) t"
    using day_number_nonneg [OF spec(1)] spec(2) by (simp add: minute_number_def)
  then have "y < 0 \<longleftrightarrow> written_moment w < 0"
    using spec(4,5) by (cases "y < 0") (auto simp: written_moment_def date)
  with that [of y m d t] s spec show thesis
    by (simp add: written_moment_def date)
qed

lemma same_shifted:
  assumes "valid_month_day (y, m, d)" "0 \<le> t" "t < 1440" "valid_month_day (z, n, e)" "0 \<le> u" "u < 1440"
    "0 \<le> y" "0 \<le> z" "minute_number (y, m, d) t = minute_number (z, n, e) u"
  shows "((y, m, d), t) = ((z, n, e), u)"
proof -
  have "day_number (y, m, d) * 1440 + t = day_number (z, n, e) * 1440 + u"
    using assms(9) by (simp add: minute_number_def)
  from euclid [OF this assms(2,3,5,6)] have "day_number (y, m, d) = day_number (z, n, e)" "t = u"
    by simp_all
  then show ?thesis
    using day_number_inj [OF assms(1,4,7,8)] by simp
qed

lemma padded_inj:
  assumes "padded k v @ s = padded k w @ t" "0 \<le> v" "v < 10 ^ k" "0 \<le> w" "w < 10 ^ k" "0 < k"
  shows "v = w" "s = t"
proof -
  have "length (padded k v) = length (padded k w)"
    using padded_digits(1) assms(2-6) by simp
  then have same: "padded k v = padded k w \<and> s = t"
    using assms(1) by (simp add: append_eq_append_conv)
  then show "s = t" ..
  have "v = int (dec_value (padded k v))"
    using padded_digits(3) [OF assms(2,3,6)] by (rule sym)
  also have "\<dots> = int (dec_value (padded k w))"
    using same by (simp only:)
  also have "\<dots> = w"
    by (rule padded_digits(3) [OF assms(4-6)])
  finally show "v = w" .
qed

lemma time_text_inj:
  assumes "time_text (y, m, d) t r f = time_text (z, n, e) u q g"
    and "0 \<le> y" "y \<le> 9999" "valid_month_day (y, m, d)" "0 \<le> t" "t < 1440" "0 \<le> r" "r \<le> 60"
    and "0 \<le> z" "z \<le> 9999" "valid_month_day (z, n, e)" "0 \<le> u" "u < 1440" "0 \<le> q" "q \<le> 60"
  shows "(y, m, d) = (z, n, e)" "t = u" "r = q" "f = g"
proof -
  have v: "0 \<le> m" "m < 10 ^ 2" "0 \<le> d" "d < 10 ^ 2" "0 \<le> n" "n < 10 ^ 2" "0 \<le> e" "e < 10 ^ 2"
    using assms(4,11) by (auto simp: valid_month_day_def daysInMonth_def split: if_splits)
  have t: "0 \<le> t div 60" "t div 60 < 10 ^ 2" "0 \<le> t mod 60" "t mod 60 < 10 ^ 2"
    and u: "0 \<le> u div 60" "u div 60 < 10 ^ 2" "0 \<le> u mod 60" "u mod 60 < 10 ^ 2"
    using assms(5,6,12,13) pos_mod_bound [of 60 t] pos_mod_bound [of 60 u] by auto
  have y: "0 \<le> y" "y < 10 ^ 4" "0 \<le> z" "z < 10 ^ 4" and s: "0 \<le> r" "r < 10 ^ 2" "0 \<le> q" "q < 10 ^ 2"
    using assms by simp_all
  note written = assms(1) [unfolded time_text_def prod.case]
  note p1 = padded_inj [OF written y zero_less_numeral]
  note p2 = padded_inj [OF p1(2) v(1,2,5,6) zero_less_numeral]
  note p3 = padded_inj [OF p2(2) v(3,4,7,8) zero_less_numeral]
  note p4 = padded_inj [OF p3(2) t(1,2) u(1,2) zero_less_numeral]
  note p5 = padded_inj [OF p4(2) t(3,4) u(3,4) zero_less_numeral]
  note p6 = padded_inj [OF p5(2) s zero_less_numeral]
  show "(y, m, d) = (z, n, e)" "r = q"
    using p1 p2 p3 p6 by simp_all
  show "t = u"
    using p4(1) p5(1) by (metis div_mod_decomp_int)
  show "f = g"
    using p6(2) by (auto split: if_splits)
qed

section \<open>Every time has one form\<close>

lemma decimalField_range: "decimalField v start k = Some n \<Longrightarrow> 0 \<le> n \<and> n < 10 ^ k"
proof -
  assume a: "decimalField v start k = Some n"
  let ?s = "take k (drop start v)"
  have s: "list_all is_digit ?s" "length ?s = k" "n = int (dec_value ?s)"
    using a by (auto simp: decimalField_def Let_def split: if_splits)
  then have "int (dec_value ?s) < int (10 ^ k)"
    using dec_value_less [OF s(1)] by (simp only: of_nat_less_iff s(2))
  then show ?thesis
    using s(3) by simp
qed

lemma time_of_day_Ok: "time_of_day v = Ok (i, s, n) \<Longrightarrow> 0 \<le> i \<and> i \<le> 59 \<and> 0 \<le> s \<and> s \<le> 60"
  by (auto simp: time_of_day_def split: if_splits option.splits dest: decimalField_range)

lemma trim_zeros_idem: "trim_zeros (trim_zeros s) = trim_zeros s"
  by (simp add: trim_zeros_def)

lemma trim_zeros_digits: "list_all is_digit s \<Longrightarrow> list_all is_digit (trim_zeros s)"
  by (auto simp: trim_zeros_def list_all_iff dest: set_dropWhileD)

lemma fraction_of_Ok:
  assumes "fraction_of v n = Ok (f, n')"
  shows "list_all is_digit f \<and> trim_zeros f = f"
proof -
  have "list_all is_digit (takeWhile is_digit s)" for s
    by (induction s) auto
  then show ?thesis
    using assms by (auto simp: fraction_of_def Let_def trim_zeros_idem trim_zeros_digits split: if_splits)
      (simp_all add: trim_zeros_def)
qed

lemma offset_of_Ok: "offset_of v n = Ok (o', n') \<Longrightarrow> - 1440 < o' \<and> o' < 1440"
  by (auto simp: offset_of_def Let_def split: if_splits option.splits dest!: decimalField_range)

lemma normalize_Ok:
  assumes "normalizeGeneralizedTime v = Ok w"
  obtains y m d h i s n f n' offset where
    "decimalField v 0 4 = Some y" "decimalField v 4 2 = Some m" "1 \<le> m" "m \<le> 12"
    "decimalField v 6 2 = Some d" "1 \<le> d" "d \<le> daysInMonth y m"
    "decimalField v 8 2 = Some h" "h \<le> 23" "time_of_day v = Ok (i, s, n)" "fraction_of v n = Ok (f, n')"
    "offset_of v n' = Ok (offset, length v)"
    "case shift_minutes (y, m, d) (h * 60 + i - offset) of (date, minutes) \<Rightarrow>
       0 \<le> fst date \<and> fst date \<le> 9999 \<and> w = time_text date minutes s f"
proof -
  obtain y where y: "decimalField v 0 4 = Some y"
    using assms by (cases "decimalField v 0 4") (auto simp: normalizeGeneralizedTime_def split: if_splits)
  obtain m where m: "decimalField v 4 2 = Some m" "1 \<le> m" "m \<le> 12"
    using assms y by (cases "decimalField v 4 2") (auto simp: normalizeGeneralizedTime_def split: if_splits)
  obtain d where d: "decimalField v 6 2 = Some d" "1 \<le> d" "d \<le> daysInMonth y m"
    using assms y m by (cases "decimalField v 6 2") (auto simp: normalizeGeneralizedTime_def split: if_splits)
  obtain h where h: "decimalField v 8 2 = Some h" "h \<le> 23"
    using assms y m d by (cases "decimalField v 8 2") (auto simp: normalizeGeneralizedTime_def split: if_splits)
  have tail: "go_bind (time_of_day v) (\<lambda>(i, s, n). go_bind (fraction_of v n) (\<lambda>(f, n').
      go_bind (offset_of v n') (\<lambda>(offset, n).
        if n \<noteq> length v then Err NotGeneralizedTime
        else case shift_minutes (y, m, d) (h * 60 + i - offset) of ((y, m, d), minutes) \<Rightarrow>
          if y < 0 \<or> 9999 < y then Err NotGeneralizedTime
          else Ok (time_text (y, m, d) minutes s f)))) = Ok w"
  proof -
    have "\<not> length v < 11"
      using assms by (auto simp: normalizeGeneralizedTime_def split: if_splits)
    moreover have "\<not> (m < 1 \<or> 12 < m)" "\<not> (d < 1 \<or> daysInMonth y m < d)" "\<not> 23 < h"
      using m d h by auto
    ultimately show ?thesis
      using assms unfolding normalizeGeneralizedTime_def time_text_def
      by (simp only: y m(1) d(1) h(1) if_False option.case prod.case)
  qed
  then obtain i s n f n' offset where t: "time_of_day v = Ok (i, s, n)" "fraction_of v n = Ok (f, n')"
      "offset_of v n' = Ok (offset, length v)"
      "(case shift_minutes (y, m, d) (h * 60 + i - offset) of ((y, m, d), minutes) \<Rightarrow>
          if y < 0 \<or> 9999 < y then Err NotGeneralizedTime
          else Ok (time_text (y, m, d) minutes s f)) = Ok w"
    by (auto simp: split_beta split: if_splits)
  show thesis
    by (rule that [OF y m d h t(1-3)]) (use t(4) in \<open>auto split: prod.splits if_splits\<close>)
qed

text \<open>Every text that is accepted is one of the spellings.\<close>

lemma padded_dec_value:
  assumes "list_all is_digit s" "length s = k" "0 < k"
  shows "padded k (int (dec_value s)) = s"
proof -
  have bound: "int (dec_value s) < 10 ^ k"
    using dec_value_less [OF assms(1)] assms(2) by (metis of_nat_less_iff of_nat_numeral of_nat_power)
  note p = padded_digits [OF _ bound assms(3), simplified]
  have "Compare_bytes (padded k (int (dec_value s))) s = 0"
    using Compare_bytes_digits [OF _ p(2) assms(1)] p assms(2) by simp
  then show ?thesis
    by (simp only: Compare_bytes_refl)
qed

lemma decimalField_split:
  assumes "decimalField v start k = Some n"
  shows "drop start v = padded k n @ drop (start + k) v" "start + k \<le> length v" "0 \<le> n" "0 < k"
proof -
  let ?s = "take k (drop start v)"
  have a: "list_all is_digit ?s" "start + k \<le> length v" "n = int (dec_value ?s)" "0 < k"
    using assms by (auto simp: decimalField_def Let_def split: if_splits)
  then have "padded k n = ?s"
    using padded_dec_value [of ?s k] by simp
  then show "drop start v = padded k n @ drop (start + k) v"
    by (metis add.commute append_take_drop_id drop_drop)
  show "start + k \<le> length v" "0 \<le> n" "0 < k"
    using a by simp_all
qed

lemma time_of_day_written:
  assumes "time_of_day v = Ok (i, s, n)"
  shows "\<exists>k. clock_ok k (h * 60 + i) s \<and> drop 10 v = clock_text k (h * 60 + i) s @ drop n v"
proof -
  have i: "(h * 60 + i) mod 60 = i"
    using time_of_day_Ok [OF assms] by simp
  consider (hours) "i = 0" "s = 0" "n = 10"
    | (minutes) "decimalField v 10 2 = Some i" "s = 0" "n = 12"
    | (seconds) "decimalField v 10 2 = Some i" "decimalField v 12 2 = Some s" "n = 14"
    using assms by (auto simp: time_of_day_def split: if_splits option.splits)
  then show ?thesis
  proof cases
    case hours
    then show ?thesis by (intro exI [of _ HoursOnly]) simp
  next
    case minutes
    then show ?thesis
      using decimalField_split(1) [OF minutes(1)] i by (intro exI [of _ HoursMinutes]) simp
  next
    case seconds
    then show ?thesis
      using decimalField_split(1) [OF seconds(1)] decimalField_split(1) [OF seconds(2)] i
      by (intro exI [of _ HoursMinutesSeconds]) simp
  qed
qed

lemma fraction_of_written:
  assumes "fraction_of v n = Ok (f, n')"
  shows "\<exists>comma g. list_all is_digit g \<and> drop n v = fraction_text comma g @ drop n' v"
proof (cases "n < length v \<and> (v ! n = CHR ''.'' \<or> v ! n = CHR '','')")
  case True
  define g where "g = takeWhile is_digit (drop (n + 1) v)"
  have g: "g \<noteq> []" "n' = n + 1 + length g"
    using assms True by (auto simp: fraction_of_def Let_def g_def split: if_splits)
  have "list_all is_digit g"
    unfolding g_def by (induction v) (auto simp: list_all_iff dest: set_takeWhileD)
  moreover have "drop (n + 1) v = g @ drop n' v"
  proof -
    have "take (length g) (drop (n + 1) v) = g"
      unfolding g_def by (metis takeWhile_eq_take)
    then show ?thesis
      unfolding g(2) by (metis add.commute append_take_drop_id drop_drop)
  qed
  then have "drop n v = v ! n # g @ drop n' v"
    using True by (simp add: Cons_nth_drop_Suc [symmetric])
  ultimately show ?thesis
    using True g(1) by (intro exI [of _ "v ! n = CHR '',''"] exI [of _ g]) (auto simp: fraction_text_def)
next
  case False
  then show ?thesis
    using assms by (intro exI [of _ False] exI [of _ "[]"]) (auto simp: fraction_of_def fraction_text_def)
qed

lemma offset_of_written:
  assumes "offset_of v n = Ok (offset, length v)"
  shows "\<exists>z. valid_zone z \<and> drop n v = zone_text z"
proof -
  have n: "n < length v"
    using assms by (auto simp: offset_of_def split: if_splits)
  then have v: "drop n v = v ! n # drop (n + 1) v"
    by (simp add: Cons_nth_drop_Suc [symmetric])
  consider (zulu) "v ! n = CHR ''Z''" "n + 1 = length v"
    | (hours) h where "v ! n = CHR ''+'' \<or> v ! n = CHR ''-''" "decimalField v (n + 1) 2 = Some h" "h \<le> 23"
        "n + 3 = length v"
    | (minutes) h m where "v ! n = CHR ''+'' \<or> v ! n = CHR ''-''" "decimalField v (n + 1) 2 = Some h" "h \<le> 23"
        "decimalField v (n + 3) 2 = Some m" "m \<le> 59" "n + 5 = length v"
    using assms by (auto simp: offset_of_def Let_def split: if_splits option.splits)
  then show ?thesis
  proof cases
    case zulu
    then show ?thesis using v by (intro exI [of _ Zulu]) simp
  next
    case (hours h)
    then show ?thesis
      using v decimalField_split [OF hours(2)]
      by (intro exI [of _ "ZoneHours (v ! n = CHR ''-'') h"]) auto
  next
    case (minutes h m)
    then show ?thesis
      using v decimalField_split [OF minutes(2)] decimalField_split [OF minutes(4)]
      by (intro exI [of _ "ZoneMinutes (v ! n = CHR ''-'') h m"]) (auto simp: numeral_3_eq_3)
  qed
qed

lemma accepted_is_written:
  assumes "normalizeGeneralizedTime v = Ok r"
  shows "\<exists>w. valid_written w \<and> written_text w = v"
  using assms
proof (cases rule: normalize_Ok)
  case (1 y m d h i s n f n' offset)
  obtain k where k: "clock_ok k (h * 60 + i) s" "drop 10 v = clock_text k (h * 60 + i) s @ drop n v"
    using time_of_day_written [OF 1(10)] by blast
  obtain comma g where g: "list_all is_digit g" "drop n v = fraction_text comma g @ drop n' v"
    using fraction_of_written [OF 1(11)] by blast
  obtain z where z: "valid_zone z" "drop n' v = zone_text z"
    using offset_of_written [OF 1(12)] by blast
  let ?w = "\<lparr>wt_date = (y, m, d), wt_minutes = h * 60 + i, wt_second = s, wt_clock = k, wt_comma = comma,
    wt_fraction = g, wt_zone = z\<rparr>"
  note range = decimalField_range [OF 1(1)] decimalField_range [OF 1(8)] time_of_day_Ok [OF 1(10)]
  have "valid_written ?w"
    using k(1) g(1) z(1) range 1(3,4,6,7,9) by (simp add: valid_written_def valid_date_def)
  moreover have "written_text ?w = v"
    using decimalField_split(1) [OF 1(1)] decimalField_split(1) [OF 1(2)] decimalField_split(1) [OF 1(5)]
      decimalField_split(1) [OF 1(8)] k(2) g(2) z(2) range by (simp add: written_text_def date_text_def)
  ultimately show ?thesis
    by blast
qed

text \<open>
  C15: The normal form of a generalized time identifies its moment. Every text that is accepted is a
  time in one of these spellings: minutes and seconds written or left out, a fraction of any length
  behind a point or a comma, the zone as \<^verbatim>\<open>Z\<close>, as hours or as hours and minutes. A part that is left
  out counts as zero, and the code counts a fraction as one of a second, also behind hours or minutes
  alone. If two such times agree in the minute that the calendar and the zone give, in the seconds and
  in the digits of the fraction up to zeros at its end, they have the same normal form, or both have
  none; and times that have the same normal form agree in these, whatever day, month or year the zone
  moves them into.
\<close>

theorem same_moment_same_form:
  assumes "valid_written v" "valid_written w"
  shows "(normalizeGeneralizedTime s = Ok r \<longrightarrow> (\<exists>x. valid_written x \<and> written_text x = s)) \<and>
    (same_time v w \<longrightarrow> normalizeGeneralizedTime (written_text v) = normalizeGeneralizedTime (written_text w)) \<and>
    (normalizeGeneralizedTime (written_text v) = Ok r \<and> normalizeGeneralizedTime (written_text w) = Ok r \<longrightarrow>
      same_time v w)"
proof -
  obtain y m d t where v: "shift_minutes (wt_date v) (wt_minutes v - zone_minutes (wt_zone v)) = ((y, m, d), t)"
    "valid_month_day (y, m, d)" "0 \<le> t" "t < 1440" "0 \<le> y \<Longrightarrow> minute_number (y, m, d) t = written_moment v"
    "y < 0 \<longleftrightarrow> written_moment v < 0"
    using shifted_written [OF assms(1)] by blast
  obtain z n e u where w: "shift_minutes (wt_date w) (wt_minutes w - zone_minutes (wt_zone w)) = ((z, n, e), u)"
    "valid_month_day (z, n, e)" "0 \<le> u" "u < 1440" "0 \<le> z \<Longrightarrow> minute_number (z, n, e) u = written_moment w"
    "z < 0 \<longleftrightarrow> written_moment w < 0"
    using shifted_written [OF assms(2)] by blast
  note nv = normalize_written [OF assms(1), unfolded v(1) prod.case]
    and nw = normalize_written [OF assms(2), unfolded w(1) prod.case]
  have "((y, m, d), t) = ((z, n, e), u)" if "0 \<le> y" "0 \<le> z" "written_moment v = written_moment w"
    using same_shifted [OF v(2-4) w(2-4) that(1,2)] v(5) w(5) that by simp
  then have "same_time v w \<longrightarrow> normalizeGeneralizedTime (written_text v) = normalizeGeneralizedTime (written_text w)"
    using v(6) w(6) unfolding nv nw same_time_def by (cases "y < 0") auto
  moreover have "same_time v w" if "normalizeGeneralizedTime (written_text v) = Ok r" "normalizeGeneralizedTime (written_text w) = Ok r"
  proof -
    have years: "0 \<le> y" "y \<le> 9999" "0 \<le> z" "z \<le> 9999"
      using that unfolding nv nw by (simp_all split: if_splits)
    have seconds: "0 \<le> wt_second v" "wt_second v \<le> 60" "0 \<le> wt_second w" "wt_second w \<le> 60"
      using assms by (simp_all add: valid_written_def)
    have "time_text (y, m, d) t (wt_second v) (trim_zeros (wt_fraction v)) =
        time_text (z, n, e) u (wt_second w) (trim_zeros (wt_fraction w))"
      using that years unfolding nv nw by simp
    from time_text_inj [OF this years(1,2) v(2-4) seconds(1,2) years(3,4) w(2-4) seconds(3,4)]
    show "same_time v w"
      using v(5) w(5) years by (simp add: same_time_def)
  qed
  ultimately show ?thesis
    using accepted_is_written by blast
qed

text \<open>
  Half past midnight of 1 March 2024 an hour east of Greenwich with a comma and a zero, the same moment
  in the normal spelling; and a fraction behind the hours.
\<close>

theorem same_moment_same_form_witness:
  "normalizeGeneralizedTime ''20240301003015,50+01'' = normalizeGeneralizedTime ''20240229233015.5Z'' \<and>
   normalizeGeneralizedTime ''2024010203,5000Z'' = normalizeGeneralizedTime ''20240102030000.5Z'' \<and>
   normalizeGeneralizedTime ''2024010203,5000Z'' = Ok ''20240102030000.5Z''"
proof -
  let ?a = "(plain_time (2024, 3, 1) 30 15 ''50'')\<lparr>wt_comma := True, wt_zone := ZoneHours False 1\<rparr>"
  let ?b = "plain_time (2024, 2, 29) 1410 15 ''5''"
  let ?c = "(plain_time (2024, 1, 2) 180 0 ''5000'')\<lparr>wt_comma := True, wt_clock := HoursOnly\<rparr>"
  let ?d = "plain_time (2024, 1, 2) 180 0 ''5''"
  have "day_number (2024, 3, 1) = day_number (2024, 2, 29) + 1"
    using month_start_step [of 2 2024] by (simp add: day_number_def daysInMonth_def leap_year_def)
  then have moments: "written_moment ?a = written_moment ?b" "written_moment ?c = written_moment ?d"
    by (simp_all add: written_moment_def plain_time_def minute_number_def)
  have valid: "valid_written ?a" "valid_written ?b" "valid_written ?c" "valid_written ?d"
    by (simp_all add: valid_written_def valid_date_def plain_time_def daysInMonth_def leap_year_def is_digit_def)
  have texts: "written_text ?a = ''20240301003015,50+01''" "written_text ?b = ''20240229233015.5Z''"
    "written_text ?c = ''2024010203,5000Z''" "written_text ?d = ''20240102030000.5Z''"
    by (simp_all add: written_text_def plain_time_def date_text_def fraction_text_def padded_def FormatInt_def
        dec_digits.simps Let_def)
      (simp_all add: char_of_def bit_0)
  have "normalizeGeneralizedTime (written_text ?a) = normalizeGeneralizedTime (written_text ?b)"
    using same_moment_same_form [OF valid(1,2)] moments by (simp add: same_time_def plain_time_def trim_zeros_def)
  moreover have "normalizeGeneralizedTime (written_text ?c) = normalizeGeneralizedTime (written_text ?d)"
    using same_moment_same_form [OF valid(3,4)] moments by (simp add: same_time_def plain_time_def trim_zeros_def)
  moreover have "normalizeGeneralizedTime ''2024010203,5000Z'' = Ok ''20240102030000.5Z''"
    by code_simp
  ultimately show ?thesis
    unfolding texts by simp
qed

text \<open>
  The normal form of a time is a time again, and its own normal form.
\<close>

theorem normal_form_stable:
  assumes "normalizeGeneralizedTime v = Ok w"
  shows "normalizeGeneralizedTime w = Ok w"
  using assms
proof (cases rule: normalize_Ok)
  case (1 y m d h i s n f n' offset)
  obtain y' m' d' t where s: "shift_minutes (y, m, d) (h * 60 + i - offset) = ((y', m', d'), t)"
    by (metis prod.collapse)
  note read = decimalField_range [OF 1(1)] decimalField_range [OF 1(8)] time_of_day_Ok [OF 1(10)]
    fraction_of_Ok [OF 1(11)] offset_of_Ok [OF 1(12)]
  have w: "0 \<le> y'" "y' \<le> 9999" "w = time_text (y', m', d') t s f"
    using 1(13) s by simp_all
  have "valid_month_day (y, m, d)" "- 1440 < h * 60 + i - offset" "h * 60 + i - offset < 2880"
    using 1(3,4,6,7,9) read by (auto simp: valid_month_day_def)
  note shifted = shift_minutes_spec [OF _ this s]
  have "valid_date (y', m', d')" "0 \<le> t" "t < 1440"
    using shifted(1-3) read(1) w by (simp_all add: valid_date_split)
  then show ?thesis
    using normalize_time_text [of "(y', m', d')" t s f] read(3,4) w by simp
qed

text \<open>The form of the time half past midnight of 1 March 2024, an hour east of Greenwich.\<close>

theorem normal_form_stable_witness:
  "normalizeGeneralizedTime ''20240229233015.5Z'' = Ok ''20240229233015.5Z''"
proof (rule normal_form_stable)
  show "normalizeGeneralizedTime ''20240301003015,50+0100'' = Ok ''20240229233015.5Z''"
    by code_simp
qed

end
