(* ===== verification/Entry_Codec.thy ===== *)
theory Entry_Codec
  imports Directory_Entry Go_Hash
begin

text \<open>
  How entries are stored (\<^verbatim>\<open>src/internal/storage/entry_codec.go\<close>, \<^verbatim>\<open>entry_normalization.go\<close>) and the
  structural check of candidate rows (\<^verbatim>\<open>index_bolt_candidates.go\<close>). There are three binary formats, told apart by a prefix,
  and the JSON of old files, whose parser is a parameter. Lists stand for slices; where the
  lengths of the source are 64-bit, \<open>entry_fits\<close> says that they do not overflow.
\<close>

section \<open>Format\<close>

definition entryBinaryV1Prefix :: bytes where
  "entryBinaryV1Prefix = [CHR 0x00, CHR ''L'', CHR ''G'', CHR ''E'', CHR 0x01]"

definition entryBinaryPrefix :: bytes where
  "entryBinaryPrefix = [CHR 0x00, CHR ''L'', CHR ''G'', CHR ''E'', CHR 0x02]"

definition entryBinaryV3Prefix :: bytes where
  "entryBinaryV3Prefix = [CHR 0x00, CHR ''L'', CHR ''G'', CHR ''E'', CHR 0x03]"

record storedEntry =
  s_Entry :: Entry
  s_DNIdentity :: bytes
  s_DNSource :: bytes
  s_DNBinding :: bytes

datatype field_error = InvalidLength | TruncatedValue | InvalidCount | CountOverflows

datatype codec_error =
    DNField field_error | BindingField field_error | BindingLength nat
  | IdentityField field_error | SourceField field_error
  | AttributeCount field_error | AttributeCountTooLarge
  | AttributeDescription nat field_error | AttributeValueCount nat field_error
  | AttributeValueCountTooLarge nat | AttributeValue nat nat field_error
  | TrailingBytes nat
  | BitmapField field_error | BitmapLength | BitmapBit
  | DecodeEntry codec_error | JSONError string

section \<open>Writing\<close>

definition appendEntryBinaryField :: "bytes \<Rightarrow> bytes \<Rightarrow> bytes" where
  "appendEntryBinaryField destination v = AppendUvarint destination (of_nat (length v)) @ v"

text \<open>The digest that binds an entry to its key and to the text of its name.\<close>

definition entryDNBinding :: "bytes \<Rightarrow> bytes \<Rightarrow> bytes" where
  "entryDNBinding identity source =
     sha256 (concat (map (\<lambda>v. PutUint64 (of_nat (length v)) @ v) [identity, source]))"

text \<open>Setting bit \<open>i mod 8\<close> of byte \<open>i div 8\<close> for every attribute with the hint.\<close>

fun set_hints :: "nat \<Rightarrow> Attribute list \<Rightarrow> bytes \<Rightarrow> bytes" where
  "set_hints i [] bitmap = bitmap"
| "set_hints i (a # as) bitmap =
     set_hints (i + 1) as (if RawNormalized a
       then bitmap[i div 8 := char_of (ord (bitmap ! (i div 8)) OR push_bit (i mod 8) 1)] else bitmap)"

definition appendEntryNormalizationHeader :: "bytes \<Rightarrow> Entry \<Rightarrow> bytes" where
  "appendEntryNormalizationHeader dst entry =
     (if \<not> list_ex RawNormalized (Attributes entry) then dst @ entryBinaryPrefix
      else let size = (length (Attributes entry) + 7) div 8 in
        AppendUvarint (dst @ entryBinaryV3Prefix) (of_nat size)
          @ set_hints 0 (Attributes entry) (replicate size (CHR 0x00)))"

definition append_values :: "bytes \<Rightarrow> bytes list \<Rightarrow> bytes" where
  "append_values encoded vs =
     foldl appendEntryBinaryField (AppendUvarint encoded (of_nat (length vs))) vs"

definition append_attributes :: "bytes \<Rightarrow> Attribute list \<Rightarrow> bytes" where
  "append_attributes encoded as =
     foldl (\<lambda>encoded a. append_values (appendEntryBinaryField encoded (Description a)) (Values a))
       (AppendUvarint encoded (of_nat (length as))) as"

definition encodeEntry :: "Entry \<Rightarrow> bytes \<Rightarrow> bytes \<Rightarrow> bytes" where
  "encodeEntry entry identity source0 =
     (let source = (if identity = [] then [] else source0);
          encoded = appendEntryBinaryField (appendEntryNormalizationHeader [] entry) (e_DN entry);
          binding = (if identity \<noteq> [] then entryDNBinding identity source else [])
      in append_attributes (appendEntryBinaryField encoded binding) (Attributes entry))"

section \<open>Reading\<close>

text \<open>The value of a one-byte length, if the input begins with one.\<close>

definition short_length :: "bytes \<Rightarrow> (field_error, nat option) go" where
  "short_length v =
     (if v = [] then Ok None
      else go_bind (go_index 0 v) (\<lambda>octet. Ok (if ord octet < 0x80 then Some (ord octet) else None)))"

definition cut_field :: "nat \<Rightarrow> bytes \<Rightarrow> (field_error, bytes \<times> bytes) go" where
  "cut_field len v =
     go_bind (go_of_option (go_slice 0 len v)) (\<lambda>field.
     go_bind (go_of_option (slice_from len v)) (\<lambda>rest. Ok (field, rest)))"

definition long_field :: "bytes \<Rightarrow> (field_error, bytes \<times> bytes) go" where
  "long_field v =
     (case Uvarint v of (len, n) \<Rightarrow>
        if n \<le> 0 then Err InvalidLength
        else go_bind (go_of_option (slice_from (nat n) v)) (\<lambda>v'.
          if length v' < unat len then Err TruncatedValue else cut_field (unat len) v'))"

text \<open>A field is a length and as many bytes; one-byte lengths have a shortcut.\<close>

definition consumeEntryBinaryField :: "bytes \<Rightarrow> (field_error, bytes \<times> bytes) go" where
  "consumeEntryBinaryField v =
     go_bind (short_length v) (\<lambda>short.
       case short of
         None \<Rightarrow> long_field v
       | Some len \<Rightarrow>
           if len < length v then go_bind (go_of_option (slice_from 1 v)) (cut_field len)
           else long_field v)"

definition consumeEntryBinaryCount :: "bytes \<Rightarrow> (field_error, nat \<times> bytes) go" where
  "consumeEntryBinaryCount v =
     go_bind (short_length v) (\<lambda>short.
       case short of
         Some n \<Rightarrow> go_bind (go_of_option (slice_from 1 v)) (\<lambda>v'. Ok (n, v'))
       | None \<Rightarrow>
           (case Uvarint v of (n, width) \<Rightarrow>
              if width \<le> 0 then Err InvalidCount
              else if 2 ^ 63 - 1 < unat n then Err CountOverflows
              else go_bind (go_of_option (slice_from (nat width) v)) (\<lambda>v'. Ok (unat n, v'))))"

text \<open>The values of an attribute: so many fields, the first one numbered \<open>j\<close>.\<close>

fun decode_values :: "nat \<Rightarrow> nat \<Rightarrow> nat \<Rightarrow> bytes \<Rightarrow> (codec_error, bytes list \<times> bytes) go" where
  "decode_values 0 i j v = Ok ([], v)"
| "decode_values (Suc k) i j v =
     go_bind (go_wrap (AttributeValue i j) (consumeEntryBinaryField v)) (\<lambda>(x, next).
     go_bind (decode_values k i (j + 1) next) (\<lambda>(xs, rest). Ok (x # xs, rest)))"

fun decode_attributes :: "nat \<Rightarrow> nat \<Rightarrow> bytes \<Rightarrow> (codec_error, Attribute list \<times> bytes) go" where
  "decode_attributes 0 i v = Ok ([], v)"
| "decode_attributes (Suc k) i v =
     go_bind (go_wrap (AttributeDescription i) (consumeEntryBinaryField v)) (\<lambda>(description, next).
     go_bind (go_wrap (AttributeValueCount i) (consumeEntryBinaryCount next)) (\<lambda>(valueCount, next).
     if length next < valueCount then Err (AttributeValueCountTooLarge i)
     else
       go_bind (decode_values valueCount i 0 next) (\<lambda>(vs, next).
       go_bind (decode_attributes k (i + 1) next) (\<lambda>(as, rest).
         Ok (\<lparr>Description = description, Values = vs, RawNormalized = False\<rparr> # as, rest)))))"

definition decodeBinaryStoredEntryAttributes ::
  "bytes \<Rightarrow> bytes \<Rightarrow> bytes \<Rightarrow> (codec_error, storedEntry) go" where
  "decodeBinaryStoredEntryAttributes dn binding v =
     go_bind (go_wrap AttributeCount (consumeEntryBinaryCount v)) (\<lambda>(attributeCount, remaining).
     if length remaining < attributeCount then Err AttributeCountTooLarge
     else
       go_bind (decode_attributes attributeCount 0 remaining) (\<lambda>(as, rest).
       if rest \<noteq> [] then Err (TrailingBytes (length rest))
       else Ok \<lparr>s_Entry = bare_entry dn as, s_DNIdentity = [], s_DNSource = [], s_DNBinding = binding\<rparr>))"

definition decodeBinaryStoredEntry :: "bytes \<Rightarrow> (codec_error, storedEntry) go" where
  "decodeBinaryStoredEntry v =
     go_bind (go_wrap DNField (consumeEntryBinaryField v)) (\<lambda>(dn, remaining).
     go_bind (go_wrap BindingField (consumeEntryBinaryField remaining)) (\<lambda>(binding, remaining).
     if length binding \<noteq> 0 \<and> length binding \<noteq> sha256_Size then Err (BindingLength (length binding))
     else decodeBinaryStoredEntryAttributes dn binding remaining))"

definition decodeBinaryStoredEntryV1 :: "bytes \<Rightarrow> (codec_error, storedEntry) go" where
  "decodeBinaryStoredEntryV1 v =
     go_bind (go_wrap DNField (consumeEntryBinaryField v)) (\<lambda>(dn, remaining).
     go_bind (go_wrap IdentityField (consumeEntryBinaryField remaining)) (\<lambda>(identity, remaining).
     go_bind (go_wrap SourceField (consumeEntryBinaryField remaining)) (\<lambda>(source, remaining).
     go_bind (decodeBinaryStoredEntryAttributes dn [] remaining) (\<lambda>stored.
       Ok (stored\<lparr>s_DNIdentity := identity, s_DNSource := source\<rparr>)))))"

text \<open>Reading the bits of one byte of the bitmap, from bit \<open>8 - k\<close> on, and of the bytes.\<close>

fun apply_bits :: "nat \<Rightarrow> nat \<Rightarrow> char \<Rightarrow> Attribute list \<Rightarrow> (codec_error, Attribute list) go" where
  "apply_bits 0 i flag as = Ok as"
| "apply_bits (Suc k) i flag as =
     (let b = 8 - Suc k; index = i * 8 + b in
      if ord flag AND push_bit b 1 = 0 then apply_bits k i flag as
      else if length as \<le> index then Err BitmapBit
      else apply_bits k i flag (as[index := (as ! index)\<lparr>RawNormalized := True\<rparr>]))"

fun apply_flags :: "nat \<Rightarrow> bytes \<Rightarrow> Attribute list \<Rightarrow> (codec_error, Attribute list) go" where
  "apply_flags i [] as = Ok as"
| "apply_flags i (flag # flags) as =
     go_bind (apply_bits 8 i flag as) (apply_flags (i + 1) flags)"

definition decodeNormalizedStoredEntry :: "bytes \<Rightarrow> (codec_error, storedEntry) go" where
  "decodeNormalizedStoredEntry v =
     go_bind (go_wrap BitmapField (consumeEntryBinaryField (drop (length entryBinaryV3Prefix) v))) (\<lambda>(flags, remaining).
     go_bind (decodeBinaryStoredEntry remaining) (\<lambda>stored.
     let as = Attributes (s_Entry stored) in
     if length flags \<noteq> (length as + 7) div 8 then Err BitmapLength
     else go_bind (apply_flags 0 flags as) (\<lambda>as'.
       Ok (stored\<lparr>s_Entry := (s_Entry stored)\<lparr>Attributes := as'\<rparr>\<rparr>))))"

text \<open>Entries of the oldest format are JSON; \<open>json.Unmarshal\<close> is a parameter.\<close>

definition decodeStoredEntry ::
  "(bytes \<Rightarrow> string + storedEntry) \<Rightarrow> bytes \<Rightarrow> (codec_error, storedEntry) go" where
  "decodeStoredEntry Unmarshal v =
     (if HasPrefix v entryBinaryV3Prefix then decodeNormalizedStoredEntry v
      else if HasPrefix v entryBinaryPrefix
      then go_wrap DecodeEntry (decodeBinaryStoredEntry (drop (length entryBinaryPrefix) v))
      else if HasPrefix v entryBinaryV1Prefix
      then go_wrap DecodeEntry (decodeBinaryStoredEntryV1 (drop (length entryBinaryV1Prefix) v))
      else case Unmarshal v of Inl e \<Rightarrow> Err (DecodeEntry (JSONError e)) | Inr stored \<Rightarrow> Ok stored)"

section \<open>The structural check\<close>

text \<open>
  \<open>validBinaryCandidateEntry\<close> walks the binary formats without building anything. The header
  is what the three formats differ in: the bitmap, and the identity and source of the first one.
\<close>

definition candidate_header :: "bytes \<Rightarrow> (bool \<times> bool \<times> bytes \<times> bytes) option" where
  "candidate_header v =
     (if HasPrefix v entryBinaryV3Prefix then
        case consumeEntryBinaryField (drop (length entryBinaryV3Prefix) v) of
          Ok (flags, v') \<Rightarrow> Some (False, True, flags, v') | _ \<Rightarrow> None
      else if HasPrefix v entryBinaryPrefix then Some (False, False, [], drop (length entryBinaryPrefix) v)
      else if HasPrefix v entryBinaryV1Prefix then Some (True, False, [], drop (length entryBinaryV1Prefix) v)
      else None)"

fun skip_fields :: "nat \<Rightarrow> bytes \<Rightarrow> bytes option" where
  "skip_fields 0 v = Some v"
| "skip_fields (Suc k) v =
     (case consumeEntryBinaryField v of Ok (_, v') \<Rightarrow> skip_fields k v' | _ \<Rightarrow> None)"

fun skip_attributes :: "nat \<Rightarrow> bytes \<Rightarrow> bytes option" where
  "skip_attributes 0 v = Some v"
| "skip_attributes (Suc k) v =
     (case consumeEntryBinaryField v of
        Ok (_, v1) \<Rightarrow>
          (case consumeEntryBinaryCount v1 of
             Ok (valueCount, v2) \<Rightarrow>
               if length v2 < valueCount then None
               else (case skip_fields valueCount v2 of None \<Rightarrow> None | Some v3 \<Rightarrow> skip_attributes k v3)
           | _ \<Rightarrow> None)
      | _ \<Rightarrow> None)"

text \<open>The bitmap has one bit for each attribute and no other bit set.\<close>

definition bitmap_ok :: "bytes \<Rightarrow> nat \<Rightarrow> bool" where
  "bitmap_ok flags attributeCount \<longleftrightarrow>
     length flags = (attributeCount + 7) div 8 \<and>
     \<not> (attributeCount mod 8 \<noteq> 0 \<and> drop_bit (attributeCount mod 8) (ord (flags ! (length flags - 1))) \<noteq> 0)"

definition validBinaryCandidateEntry :: "bytes \<Rightarrow> bool" where
  "validBinaryCandidateEntry v0 \<longleftrightarrow>
     (case candidate_header v0 of
        None \<Rightarrow> False
      | Some (v1, v3, flags, v) \<Rightarrow>
          (case consumeEntryBinaryField v of
             Ok (_, v) \<Rightarrow>
               (case consumeEntryBinaryField v of
                  Ok (binding, v) \<Rightarrow>
                    (case (if v1 then case consumeEntryBinaryField v of Ok (_, v) \<Rightarrow> Some v | _ \<Rightarrow> None
                           else if length binding \<noteq> 0 \<and> length binding \<noteq> sha256_Size then None
                           else Some v) of
                       None \<Rightarrow> False
                     | Some v \<Rightarrow>
                         (case consumeEntryBinaryCount v of
                            Ok (attributeCount, v) \<Rightarrow>
                              attributeCount \<le> length v \<and>
                              skip_attributes attributeCount v = Some [] \<and>
                              (v3 \<longrightarrow> bitmap_ok flags attributeCount)
                          | _ \<Rightarrow> False))
                | _ \<Rightarrow> False)
           | _ \<Rightarrow> False))"

section \<open>Fields and counts\<close>

lemma Uvarint_one_byte: "v \<noteq> [] \<Longrightarrow> ord (hd v) < 128 \<Longrightarrow> Uvarint v = (of_nat (ord (hd v)), 1)"
  by (cases v) (auto simp: Uvarint_def)

lemma ord_uint64: "ord c < 128 \<Longrightarrow> unat (of_nat (ord c) :: uint64) = ord c"
  by (rule unat_of_nat_uint64) simp

lemma short_length_cases:
  obtains "v \<noteq> []" "ord (hd v) < 128" "short_length v = Ok (Some (ord (hd v)))"
  | "short_length v = Ok None"
proof (cases v)
  case Nil
  then show thesis by (intro that(2)) (simp add: short_length_def)
next
  case (Cons c cs)
  then show thesis
    by (cases "ord c < 128") (use that in \<open>simp_all add: short_length_def\<close>)
qed

lemma cut_field_inside: "len \<le> length v \<Longrightarrow> cut_field len v = Ok (take len v, drop len v)"
  by (simp add: cut_field_def go_slice_def slice_from_def)

lemma long_field_eq:
  "long_field v =
     (case Uvarint v of (len, n) \<Rightarrow>
        if n \<le> 0 then Err InvalidLength
        else let v' = drop (nat n) v in
          if length v' < unat len then Err TruncatedValue else Ok (take (unat len) v', drop (unat len) v'))"
proof (cases "Uvarint v")
  case (Pair len n)
  then have "0 < n \<Longrightarrow> slice_from (nat n) v = Some (drop (nat n) v)"
    using Uvarint_count [OF Pair] by (simp add: slice_from_def)
  with Pair show ?thesis by (auto simp: long_field_def Let_def cut_field_inside)
qed

text \<open>The shortcuts change nothing: a field and a count are read as the varint says.\<close>

lemma consumeEntryBinaryField_eq:
  "consumeEntryBinaryField v =
     (case Uvarint v of (len, n) \<Rightarrow>
        if n \<le> 0 then Err InvalidLength
        else let v' = drop (nat n) v in
          if length v' < unat len then Err TruncatedValue else Ok (take (unat len) v', drop (unat len) v'))"
proof (cases v rule: short_length_cases)
  case 1
  show ?thesis
  proof (cases "ord (hd v) < length v")
    case True
    from 1 have "Uvarint v = (of_nat (ord (hd v)), 1)" by (intro Uvarint_one_byte)
    moreover have "slice_from 1 v = Some (drop 1 v)" "ord (hd v) \<le> length (drop 1 v)"
      using True 1(1) by (auto simp: slice_from_def Suc_le_eq)
    ultimately show ?thesis using True 1 by (simp add: consumeEntryBinaryField_def cut_field_inside ord_uint64 Let_def)
  next
    case False
    with 1 show ?thesis by (simp add: consumeEntryBinaryField_def long_field_eq)
  qed
next
  case 2
  then show ?thesis by (simp add: consumeEntryBinaryField_def long_field_eq)
qed

lemma consumeEntryBinaryCount_eq:
  "consumeEntryBinaryCount v =
     (case Uvarint v of (n, width) \<Rightarrow>
        if width \<le> 0 then Err InvalidCount else if 2 ^ 63 - 1 < unat n then Err CountOverflows
        else Ok (unat n, drop (nat width) v))"
proof (cases v rule: short_length_cases)
  case 1
  then have "Uvarint v = (of_nat (ord (hd v)), 1)" by (intro Uvarint_one_byte)
  moreover have "slice_from 1 v = Some (drop 1 v)" using 1(1) by (auto simp: slice_from_def Suc_le_eq)
  ultimately show ?thesis using 1 by (simp add: consumeEntryBinaryCount_def ord_uint64)
next
  case 2
  obtain n width where u: "Uvarint v = (n, width)" by fastforce
  then have "0 < width \<Longrightarrow> slice_from (nat width) v = Some (drop (nat width) v)"
    using Uvarint_count [OF u] by (simp add: slice_from_def)
  with 2 u show ?thesis by (auto simp: consumeEntryBinaryCount_def)
qed

lemma consume_field_no_panic [simp]: "consumeEntryBinaryField v \<noteq> Panic"
  by (simp add: consumeEntryBinaryField_eq Let_def split: prod.splits)

lemma consume_count_no_panic [simp]: "consumeEntryBinaryCount v \<noteq> Panic"
  by (simp add: consumeEntryBinaryCount_eq split: prod.splits)

lemma consume_frame [simp]:
  assumes "length v < 2 ^ 64"
  shows "consumeEntryBinaryField (frame v @ rest) = Ok (v, rest)"
proof -
  have "0 < length (uvarint (of_nat (length v)))" by simp
  with assms show ?thesis
    unfolding consumeEntryBinaryField_eq Uvarint_frame [OF assms] by (simp add: frame_def Let_def)
qed

lemma consume_frame_only [simp]: "length v < 2 ^ 64 \<Longrightarrow> consumeEntryBinaryField (frame v) = Ok (v, [])"
  using consume_frame [of v "[]"] by simp

lemma consume_uvarint [simp]:
  assumes "n < 2 ^ 63"
  shows "consumeEntryBinaryCount (uvarint (of_nat n) @ rest) = Ok (n, rest)"
proof -
  have "0 < length (uvarint (of_nat n))" by simp
  moreover have "unat (of_nat n :: uint64) = n" using assms by (intro unat_of_nat_uint64) simp
  ultimately show ?thesis using assms by (simp add: consumeEntryBinaryCount_eq Uvarint_uvarint)
qed

section \<open>What is written is read back\<close>

definition attribute_fits :: "Attribute \<Rightarrow> bool" where
  "attribute_fits a \<longleftrightarrow> length (Description a) < 2 ^ 64 \<and> length (Values a) < 2 ^ 63 \<and>
     (\<forall>v\<in>set (Values a). length v < 2 ^ 64)"

definition entry_fits :: "Entry \<Rightarrow> bool" where
  "entry_fits e \<longleftrightarrow> length (e_DN e) < 2 ^ 64 \<and> length (Attributes e) < 2 ^ 63 \<and>
     (\<forall>a\<in>set (Attributes e). attribute_fits a)"

definition attribute_code :: "Attribute \<Rightarrow> bytes" where
  "attribute_code a = frame (Description a) @ uvarint (of_nat (length (Values a))) @ concat (map frame (Values a))"

definition attributes_code :: "Attribute list \<Rightarrow> bytes" where
  "attributes_code as = uvarint (of_nat (length as)) @ concat (map attribute_code as)"

lemma foldl_frames: "foldl appendEntryBinaryField enc vs = enc @ concat (map frame vs)"
  by (induction vs arbitrary: enc) (auto simp: appendEntryBinaryField_def AppendUvarint_def frame_def)

lemma append_attributes_eq: "append_attributes enc as = enc @ attributes_code as"
proof -
  have "foldl (\<lambda>encoded a. append_values (appendEntryBinaryField encoded (Description a)) (Values a)) enc xs
      = enc @ concat (map attribute_code xs)" for enc xs
    by (induction xs arbitrary: enc)
      (auto simp: append_values_def foldl_frames attribute_code_def AppendUvarint_def appendEntryBinaryField_def frame_def)
  then show ?thesis by (simp add: append_attributes_def attributes_code_def AppendUvarint_def)
qed

definition header_code :: "Entry \<Rightarrow> bytes" where
  "header_code e =
     (if \<not> list_ex RawNormalized (Attributes e) then entryBinaryPrefix
      else entryBinaryV3Prefix @ frame (set_hints 0 (Attributes e) (replicate ((length (Attributes e) + 7) div 8) (CHR 0x00))))"

lemma set_hints_length [simp]: "length (set_hints i as bm) = length bm"
  by (induction i as bm rule: set_hints.induct) simp_all

lemma encodeEntry_eq:
  "encodeEntry e identity source =
     header_code e @ frame (e_DN e) @ frame (if identity \<noteq> [] then entryDNBinding identity source else [])
       @ attributes_code (Attributes e)"
  by (simp add: encodeEntry_def append_attributes_eq appendEntryBinaryField_def AppendUvarint_def
      frame_def appendEntryNormalizationHeader_def header_code_def Let_def)

definition strip_hint :: "Attribute \<Rightarrow> Attribute" where
  "strip_hint a = a\<lparr>RawNormalized := False\<rparr>"

lemma decode_values_code:
  "\<forall>v\<in>set vs. length v < 2 ^ 64 \<Longrightarrow> decode_values (length vs) i j (concat (map frame vs) @ rest) = Ok (vs, rest)"
  by (induction vs arbitrary: j) auto

lemma length_attributes_code: "length as \<le> length (concat (map attribute_code as))"
proof (induction as)
  case (Cons a as)
  have "Suc 0 \<le> length (attribute_code a)" by (simp add: attribute_code_def Suc_le_eq frame_def)
  with Cons show ?case by (simp only: list.size concat.simps list.map length_append)
qed simp

lemma decode_attributes_code:
  "\<forall>a\<in>set as. attribute_fits a \<Longrightarrow>
     decode_attributes (length as) i (concat (map attribute_code as) @ rest) = Ok (map strip_hint as, rest)"
proof (induction as arbitrary: i)
  case (Cons a as)
  let ?tail = "concat (map attribute_code as) @ rest"
  have fits: "attribute_fits a" using Cons.prems by simp
  then have vs: "decode_values (length (Values a)) i 0 (concat (map frame (Values a)) @ ?tail) = Ok (Values a, ?tail)"
    by (intro decode_values_code) (simp add: attribute_fits_def)
  have enough: "\<not> length (concat (map frame (Values a)) @ ?tail) < length (Values a)"
    using length_concat_frames [of "Values a"] by simp
  have code: "concat (map attribute_code (a # as)) @ rest =
      frame (Description a) @ uvarint (of_nat (length (Values a))) @ concat (map frame (Values a)) @ ?tail"
    by (simp add: attribute_code_def)
  show ?case
    unfolding code using fits vs enough Cons.IH [of "i + 1"] Cons.prems
    by (simp add: attribute_fits_def strip_hint_def)
qed simp

lemma decode_body_code:
  assumes "length as < 2 ^ 63" "\<forall>a\<in>set as. attribute_fits a"
  shows "decodeBinaryStoredEntryAttributes dn binding (attributes_code as) =
    Ok \<lparr>s_Entry = bare_entry dn (map strip_hint as), s_DNIdentity = [], s_DNSource = [], s_DNBinding = binding\<rparr>"
  using assms length_attributes_code [of as] decode_attributes_code [OF assms(2), of 0 "[]"]
  by (simp add: decodeBinaryStoredEntryAttributes_def attributes_code_def)

lemma decode_v2_code:
  assumes "length dn < 2 ^ 64" "length binding = 0 \<or> length binding = sha256_Size"
    and "length as < 2 ^ 63" "\<forall>a\<in>set as. attribute_fits a"
  shows "decodeBinaryStoredEntry (frame dn @ frame binding @ attributes_code as) =
    Ok \<lparr>s_Entry = bare_entry dn (map strip_hint as), s_DNIdentity = [], s_DNSource = [], s_DNBinding = binding\<rparr>"
proof -
  have "length binding < 2 ^ 64" using assms(2) by (auto simp: sha256_Size_def)
  with assms show ?thesis by (auto simp: decodeBinaryStoredEntry_def decode_body_code)
qed

subsection \<open>The bitmap\<close>

definition flag :: "bytes \<Rightarrow> nat \<Rightarrow> bool" where
  "flag bm i \<longleftrightarrow> bit (ord (bm ! (i div 8))) (i mod 8)"

lemma mod_256_take_bit: "n mod 256 = take_bit 8 (n :: nat)"
  by (simp add: take_bit_eq_mod)

lemma bit_char_of: "b < 8 \<Longrightarrow> bit (ord (char_of (n :: nat))) b = bit n b"
  by (simp only: of_char_of mod_256_take_bit bit_take_bit_iff) simp

lemma char_bit_less: "bit (ord c) b \<Longrightarrow> b < 8"
proof -
  assume "bit (ord c) b"
  moreover have "take_bit 8 (ord c) = ord c" by (simp add: take_bit_eq_mod)
  ultimately show "b < 8" by (metis bit_take_bit_iff)
qed

lemma flag_set:
  assumes "i div 8 < length bm"
  shows "flag (bm[i div 8 := char_of (ord (bm ! (i div 8)) OR push_bit (i mod 8) 1)]) j \<longleftrightarrow> flag bm j \<or> j = i"
proof (cases "j div 8 = i div 8")
  case True
  have "bit (ord (char_of (ord (bm ! (i div 8)) OR push_bit (i mod 8) (1::nat)))) (j mod 8)
      \<longleftrightarrow> bit (ord (bm ! (i div 8))) (j mod 8) \<or> j mod 8 = i mod 8"
    by (subst bit_char_of) (auto simp: bit_or_iff bit_exp_iff)
  moreover have "j = i \<longleftrightarrow> j mod 8 = i mod 8" using True by (metis div_mult_mod_eq)
  ultimately show ?thesis using True assms by (simp add: flag_def)
next
  case False
  then show ?thesis using assms by (auto simp: flag_def)
qed

lemma set_hints_flag:
  "i + length as \<le> 8 * length bm \<Longrightarrow>
     flag (set_hints i as bm) j \<longleftrightarrow> flag bm j \<or> (i \<le> j \<and> j < i + length as \<and> RawNormalized (as ! (j - i)))"
proof (induction i as bm rule: set_hints.induct)
  case (2 i a as bm)
  let ?bm = "if RawNormalized a then bm[i div 8 := char_of (ord (bm ! (i div 8)) OR push_bit (i mod 8) 1)] else bm"
  have "i div 8 < length bm" using 2(2) by auto
  then have bm: "flag ?bm j \<longleftrightarrow> flag bm j \<or> j = i \<and> RawNormalized a" using flag_set by simp
  have "flag (set_hints (i + 1) as ?bm) j \<longleftrightarrow>
      flag ?bm j \<or> (i + 1 \<le> j \<and> j < i + 1 + length as \<and> RawNormalized (as ! (j - (i + 1))))"
    using 2(2) by (intro 2(1)) auto
  then show ?case unfolding bm
    by (cases "j = i") (auto simp: nth_Cons')
qed auto

lemma test_bit: "(ord c AND push_bit b 1 = 0) \<longleftrightarrow> \<not> bit (ord c) b"
  by (simp add: push_bit_of_1 and_exp_eq_0_iff_not_bit)

text \<open>Setting the hints that a predicate on positions gives.\<close>

definition mark :: "(nat \<Rightarrow> bool) \<Rightarrow> Attribute list \<Rightarrow> Attribute list" where
  "mark P as = map (\<lambda>(i, a). if P i then a\<lparr>RawNormalized := True\<rparr> else a) (enumerate 0 as)"

lemma length_mark [simp]: "length (mark P as) = length as"
  by (simp add: mark_def)

lemma nth_mark [simp]: "i < length as \<Longrightarrow> mark P as ! i = (if P i then (as ! i)\<lparr>RawNormalized := True\<rparr> else as ! i)"
  by (simp add: mark_def nth_enumerate_eq)

lemma mark_mark: "mark P (mark Q as) = mark (\<lambda>i. P i \<or> Q i) as"
  by (rule nth_equalityI) auto

lemma mark_none: "(\<And>i. i < length as \<Longrightarrow> \<not> P i) \<Longrightarrow> mark P as = as"
  by (rule nth_equalityI) auto

lemma mark_update: "i < length as \<Longrightarrow> as[i := (as ! i)\<lparr>RawNormalized := True\<rparr>] = mark (\<lambda>j. j = i) as"
  by (rule nth_equalityI) (auto simp: nth_list_update)

lemma mark_cong: "(\<And>i. i < length as \<Longrightarrow> P i = Q i) \<Longrightarrow> mark P as = mark Q as"
  by (rule nth_equalityI) auto

lemma apply_bits_step:
  assumes "8 - Suc k = b"
  shows "apply_bits (Suc k) i c as =
    (if \<not> bit (ord c) b then apply_bits k i c as
     else if length as \<le> i * 8 + b then Err BitmapBit
     else apply_bits k i c (mark (\<lambda>j. j = i * 8 + b) as))"
  unfolding apply_bits.simps(2) assms Let_def test_bit by (simp add: mark_update)

lemma apply_bits_eq:
  assumes "k \<le> 8" "8 - k = b0"
  shows "apply_bits k i c as =
    (if \<exists>b. b0 \<le> b \<and> bit (ord c) b \<and> length as \<le> i * 8 + b then Err BitmapBit
     else Ok (mark (\<lambda>j. i * 8 + b0 \<le> j \<and> j < i * 8 + 8 \<and> bit (ord c) (j - i * 8)) as))"
  using assms
proof (induction k arbitrary: as b0)
  case 0
  have "\<not> (\<exists>b. 8 \<le> b \<and> bit (ord c) b)" using char_bit_less leD by blast
  with 0 show ?case by (auto intro!: mark_none [symmetric])
next
  case (Suc k)
  have b0: "b0 < 8" "8 - k = Suc b0" "k \<le> 8" using Suc.prems by auto
  note step = apply_bits_step [OF Suc.prems(2)]
  note IH = Suc.IH [OF b0(3,2)]
  have low: "b0 \<le> b \<longleftrightarrow> b = b0 \<or> Suc b0 \<le> b" for b by arith
  let ?over = "\<lambda>b0. \<exists>b. b0 \<le> b \<and> bit (ord c) b \<and> length as \<le> i * 8 + b"
  let ?in = "\<lambda>b0 j. i * 8 + b0 \<le> j \<and> j < i * 8 + 8 \<and> bit (ord c) (j - i * 8)"
  show ?case
  proof (cases "bit (ord c) b0")
    case False
    then have over: "?over b0 = ?over (Suc b0)" by (metis low)
    have mk: "mark (?in b0) as = mark (?in (Suc b0)) as"
    proof (rule mark_cong)
      fix j
      have "j = i * 8 + b0 \<Longrightarrow> \<not> bit (ord c) (j - i * 8)" using False by simp
      then show "?in b0 j = ?in (Suc b0) j" by (cases "j = i * 8 + b0") auto
    qed
    show ?thesis unfolding step IH over mk using False by (simp only: if_True not_False_eq_True)
  next
    case True
    show ?thesis
    proof (cases "length as \<le> i * 8 + b0")
      case False
      then have over: "?over b0 = ?over (Suc b0)" by (metis low)
      have mk: "mark (?in b0) as = mark (?in (Suc b0)) (mark (\<lambda>j. j = i * 8 + b0) as)"
        unfolding mark_mark using True b0(1) by (intro mark_cong) auto
      show ?thesis unfolding step IH over mk length_mark using True False by (simp only: if_False not_True_eq_False)
    next
      case Long: True
      with True have "?over b0" by blast
      with True Long show ?thesis unfolding step by (simp only: if_True if_False not_True_eq_False)
    qed
  qed
qed

lemma flag_Cons: "flag (c # bm) j = (if j < 8 then bit (ord c) j else flag bm (j - 8))"
proof -
  have "(j - 8) div 8 = j div 8 - 1" "(j - 8) mod 8 = j mod 8" if "8 \<le> j"
    using that by (simp_all add: le_div_geq le_mod_geq)
  then show ?thesis by (auto simp: flag_def nth_Cons' div_eq_0_iff)
qed

lemma apply_flags_eq:
  "apply_flags i bm as =
    (if \<exists>j < 8 * length bm. flag bm j \<and> length as \<le> i * 8 + j then Err BitmapBit
     else Ok (mark (\<lambda>j. i * 8 \<le> j \<and> j < (i + length bm) * 8 \<and> flag bm (j - i * 8)) as))"
proof (induction bm arbitrary: i as)
  case Nil
  then show ?case by (simp add: mark_none)
next
  case (Cons c bm)
  have bits: "apply_bits 8 i c as =
      (if \<exists>b. bit (ord c) b \<and> length as \<le> i * 8 + b then Err BitmapBit
       else Ok (mark (\<lambda>j. i * 8 \<le> j \<and> j < i * 8 + 8 \<and> bit (ord c) (j - i * 8)) as))"
    using apply_bits_eq [of 8 0 i c as] by simp
  have split: "(\<exists>j < 8 * length (c # bm). flag (c # bm) j \<and> length as \<le> i * 8 + j) \<longleftrightarrow>
      (\<exists>b. bit (ord c) b \<and> length as \<le> i * 8 + b) \<or>
      (\<exists>j < 8 * length bm. flag bm j \<and> length as \<le> (i + 1) * 8 + j)" (is "?L \<longleftrightarrow> ?A \<or> ?B")
  proof
    assume ?L
    then obtain j where j: "j < 8 * length (c # bm)" "flag (c # bm) j" "length as \<le> i * 8 + j" by blast
    show "?A \<or> ?B"
    proof (cases "j < 8")
      case True
      with j show ?thesis by (auto simp: flag_Cons)
    next
      case False
      with j have "flag bm (j - 8)" "j - 8 < 8 * length bm" "length as \<le> (i + 1) * 8 + (j - 8)"
        by (auto simp: flag_Cons)
      then show ?thesis by blast
    qed
  next
    assume "?A \<or> ?B"
    then show ?L
    proof
      assume ?A
      then obtain b where "bit (ord c) b" "length as \<le> i * 8 + b" by blast
      with char_bit_less [of c b] show ?L by (intro exI [of _ b]) (simp add: flag_Cons)
    next
      assume ?B
      then obtain j where "j < 8 * length bm" "flag bm j" "length as \<le> (i + 1) * 8 + j" by blast
      then show ?L by (intro exI [of _ "j + 8"]) (simp add: flag_Cons)
    qed
  qed
  have merge: "mark (\<lambda>j. (i + 1) * 8 \<le> j \<and> j < (i + 1 + length bm) * 8 \<and> flag bm (j - (i + 1) * 8))
        (mark (\<lambda>j. i * 8 \<le> j \<and> j < i * 8 + 8 \<and> bit (ord c) (j - i * 8)) as)
      = mark (\<lambda>j. i * 8 \<le> j \<and> j < (i + length (c # bm)) * 8 \<and> flag (c # bm) (j - i * 8)) as"
    unfolding mark_mark
  proof (rule mark_cong)
    fix j
    have "j - (i + 1) * 8 = j - i * 8 - 8" by simp
    then show "((i + 1) * 8 \<le> j \<and> j < (i + 1 + length bm) * 8 \<and> flag bm (j - (i + 1) * 8) \<or>
        i * 8 \<le> j \<and> j < i * 8 + 8 \<and> bit (ord c) (j - i * 8)) =
        (i * 8 \<le> j \<and> j < (i + length (c # bm)) * 8 \<and> flag (c # bm) (j - i * 8))"
      by (auto simp: flag_Cons)
  qed
  show ?case
    unfolding split apply_flags.simps(2) bits using Cons.IH [of "i + 1"] merge by auto
qed

lemma apply_flags_0:
  "apply_flags 0 bm as =
    (if \<exists>j < 8 * length bm. flag bm j \<and> length as \<le> j then Err BitmapBit
     else Ok (mark (\<lambda>j. j < 8 * length bm \<and> flag bm j) as))"
  by (auto simp: apply_flags_eq mult.commute)

lemma bitmap_ok_iff:
  "bitmap_ok bm n \<longleftrightarrow> length bm = (n + 7) div 8 \<and> \<not> (\<exists>j < 8 * length bm. flag bm j \<and> n \<le> j)"
proof (cases "length bm = (n + 7) div 8")
  case True
  show ?thesis
  proof (cases "n mod 8 = 0")
    case mod: True
    then have "8 * length bm = n" using True by presburger
    with True mod show ?thesis by (auto simp: bitmap_ok_def)
  next
    case False
    then have len: "length bm = n div 8 + 1" using True by presburger
    let ?c = "bm ! (n div 8)"
    have "drop_bit (n mod 8) (ord ?c) \<noteq> 0 \<longleftrightarrow> (\<exists>b \<ge> n mod 8. bit (ord ?c) b)"
      by (simp add: bit_eq_iff bit_drop_bit_eq) (metis le_add1 le_add_diff_inverse)
    also have "\<dots> \<longleftrightarrow> (\<exists>j < 8 * length bm. flag bm j \<and> n \<le> j)"
    proof
      assume "\<exists>b \<ge> n mod 8. bit (ord ?c) b"
      then obtain b where b: "n mod 8 \<le> b" "bit (ord ?c) b" by blast
      then have "b < 8" using char_bit_less by blast
      then have "(8 * (n div 8) + b) div 8 = n div 8" "(8 * (n div 8) + b) mod 8 = b" by simp_all
      with b have "flag bm (8 * (n div 8) + b)" by (simp add: flag_def)
      moreover have "n \<le> 8 * (n div 8) + b" using b(1) by (metis add_le_cancel_left mult_div_mod_eq)
      ultimately show "\<exists>j < 8 * length bm. flag bm j \<and> n \<le> j" using len \<open>b < 8\<close>
        by (intro exI [of _ "8 * (n div 8) + b"]) simp
    next
      assume "\<exists>j < 8 * length bm. flag bm j \<and> n \<le> j"
      then obtain j where j: "j < 8 * (n div 8 + 1)" "flag bm j" "n \<le> j" using len by auto
      have "j div 8 < n div 8 + 1" using j(1) by (simp add: less_mult_imp_div_less mult.commute)
      moreover have "n div 8 \<le> j div 8" using j(3) by (rule div_le_mono)
      ultimately have "j div 8 = n div 8" by simp
      then have "n mod 8 \<le> j mod 8" using j(3) by (metis add_le_cancel_left mult_div_mod_eq)
      with j \<open>j div 8 = n div 8\<close> show "\<exists>b \<ge> n mod 8. bit (ord ?c) b" by (auto simp: flag_def)
    qed
    finally have "drop_bit (n mod 8) (ord ?c) \<noteq> 0 \<longleftrightarrow> (\<exists>j < 8 * length bm. flag bm j \<and> n \<le> j)" .
    moreover have "length bm - 1 = n div 8" using len by simp
    ultimately show ?thesis unfolding bitmap_ok_def using True False by simp
  qed
qed (simp add: bitmap_ok_def)

section \<open>Round trip\<close>

lemma header_prefixes [simp]:
  "HasPrefix (entryBinaryPrefix @ x) entryBinaryV3Prefix = False"
  "HasPrefix (entryBinaryV1Prefix @ x) entryBinaryV3Prefix = False"
  "HasPrefix (entryBinaryV1Prefix @ x) entryBinaryPrefix = False"
  by (simp_all add: HasPrefix_prefix entryBinaryPrefix_def entryBinaryV3Prefix_def entryBinaryV1Prefix_def)

lemma mark_strip:
  assumes "\<And>i. i < length as \<Longrightarrow> P i = RawNormalized (as ! i)"
  shows "mark P (map strip_hint as) = as"
  by (rule nth_equalityI) (simp_all add: assms strip_hint_def)

lemma strip_none: "\<not> list_ex RawNormalized as \<Longrightarrow> map strip_hint as = as"
  by (simp add: list_ex_iff strip_hint_def map_idI)

text \<open>The entry without the hints that are not stored: what the decoder returns.\<close>

definition stored_part :: "Entry \<Rightarrow> Entry" where
  "stored_part e = bare_entry (e_DN e) (Attributes e)"

lemma decodeStoredEntry_encodeEntry:
  assumes fits: "entry_fits e"
  shows "decodeStoredEntry Unmarshal (encodeEntry e identity source) =
    Ok \<lparr>s_Entry = stored_part e, s_DNIdentity = [], s_DNSource = [],
      s_DNBinding = (if identity \<noteq> [] then entryDNBinding identity source else [])\<rparr>"
proof -
  let ?as = "Attributes e" and ?n = "length (Attributes e)"
  let ?binding = "if identity \<noteq> [] then entryDNBinding identity source else []"
  have body: "decodeBinaryStoredEntry (frame (e_DN e) @ frame ?binding @ attributes_code ?as) =
      Ok \<lparr>s_Entry = bare_entry (e_DN e) (map strip_hint ?as), s_DNIdentity = [], s_DNSource = [], s_DNBinding = ?binding\<rparr>"
    using fits by (intro decode_v2_code) (auto simp: entry_fits_def sha256_Size_def entryDNBinding_def)
  show ?thesis
  proof (cases "list_ex RawNormalized ?as")
    case False
    then show ?thesis using body
      by (simp add: decodeStoredEntry_def encodeEntry_eq header_code_def strip_none stored_part_def)
  next
    case True
    let ?bm = "set_hints 0 ?as (replicate ((?n + 7) div 8) (CHR 0x00))"
    have "?n + 7 < 2 ^ 64 * 8" using fits by (simp add: entry_fits_def)
    then have small: "length ?bm < 2 ^ 64" by (simp add: less_mult_imp_div_less)
    have le: "0 + ?n \<le> 8 * length (replicate ((?n + 7) div 8) (CHR 0x00))" by simp
    have zero: "\<not> flag (replicate ((?n + 7) div 8) (CHR 0x00)) j" if "j < 8 * ((?n + 7) div 8)" for j
      using that by (simp add: flag_def less_mult_imp_div_less mult.commute)
    have fl: "flag ?bm j \<longleftrightarrow> j < ?n \<and> RawNormalized (?as ! j)" if "j < 8 * ((?n + 7) div 8)" for j
      using set_hints_flag [OF le, of j] zero [OF that] by simp
    have "?n \<le> 8 * ((?n + 7) div 8)" by simp
    then have "apply_flags 0 ?bm (map strip_hint ?as) = Ok ?as"
      by (simp add: apply_flags_0 fl mark_strip) (use fl in force)
    with True body small show ?thesis
      by (simp add: decodeStoredEntry_def decodeNormalizedStoredEntry_def encodeEntry_eq header_code_def
          bare_entry_def stored_part_def)
  qed
qed

section \<open>Decoding never panics\<close>

lemma decode_values_no_panic: "decode_values k i j v \<noteq> Panic"
  by (induction k i j v rule: decode_values.induct) auto

lemma decode_attributes_no_panic: "decode_attributes k i v \<noteq> Panic"
  by (induction k i v rule: decode_attributes.induct) (auto simp: decode_values_no_panic split: if_splits)

lemma decode_body_no_panic: "decodeBinaryStoredEntryAttributes dn binding v \<noteq> Panic"
  by (auto simp: decodeBinaryStoredEntryAttributes_def decode_attributes_no_panic split: if_splits)

lemma decode_v2_no_panic: "decodeBinaryStoredEntry v \<noteq> Panic"
  by (auto simp: decodeBinaryStoredEntry_def decode_body_no_panic split: if_splits)

lemma decodeStoredEntry_no_panic: "decodeStoredEntry Unmarshal v \<noteq> Panic"
  by (auto simp: decodeStoredEntry_def decodeNormalizedStoredEntry_def decodeBinaryStoredEntryV1_def
      decode_v2_no_panic decode_body_no_panic apply_flags_eq Let_def split: if_splits sum.splits)

section \<open>Counts bound what is decoded\<close>

text \<open>A field takes at least a byte, so counts that exceed the rest are refused before any work.\<close>

lemma consume_field_shorter:
  assumes "consumeEntryBinaryField v = Ok (x, v')"
  shows "length x + length v' < length v"
proof (cases "Uvarint v")
  case (Pair len n)
  with assms Uvarint_count [OF Pair] show ?thesis
    by (auto simp: consumeEntryBinaryField_eq Let_def split: if_splits)
qed

section \<open>The structural check is exact\<close>

lemma skip_fields_values:
  "skip_fields k v = (case decode_values k i j v of Ok (_, rest) \<Rightarrow> Some rest | _ \<Rightarrow> None)"
proof (induction k arbitrary: j v)
  case (Suc k)
  show ?case
  proof (cases "consumeEntryBinaryField v")
    case (Ok x)
    then obtain a v' where a: "consumeEntryBinaryField v = Ok (a, v')" by (cases x) auto
    show ?thesis using a Suc.IH [of v' "j + 1"] by (cases "decode_values k i (j + 1) v'") auto
  qed simp_all
qed simp

lemma skip_attributes_decode:
  "skip_attributes k v = (case decode_attributes k i v of Ok (_, rest) \<Rightarrow> Some rest | _ \<Rightarrow> None)"
proof (induction k arbitrary: i v)
  case (Suc k)
  show ?case
  proof (cases "consumeEntryBinaryField v")
    case (Ok x)
    then obtain a v1 where a: "consumeEntryBinaryField v = Ok (a, v1)" by (cases x) auto
    show ?thesis
    proof (cases "consumeEntryBinaryCount v1")
      case (Ok y)
      then obtain n v2 where n: "consumeEntryBinaryCount v1 = Ok (n, v2)" by (cases y) auto
      show ?thesis
      proof (cases "decode_values n i 0 v2")
        case (Ok z)
        then obtain vs v3 where vs: "decode_values n i 0 v2 = Ok (vs, v3)" by (cases z) auto
        show ?thesis using a n vs Suc.IH [of v3 "i + 1"] skip_fields_values [of n v2 i 0]
          by (cases "decode_attributes k (i + 1) v3") auto
      qed (use a n skip_fields_values [of n v2 i 0] in simp_all)
    qed (use a in simp_all)
  qed simp_all
qed simp

lemma skip_attributes_all:
  "skip_attributes k v = Some [] \<longleftrightarrow> (\<exists>as. decode_attributes k i v = Ok (as, []))"
  by (auto simp: skip_attributes_decode [of k v i] split: go.splits)

lemma decode_attributes_length: "decode_attributes k i v = Ok (as, rest) \<Longrightarrow> length as = k"
  by (induction k i v arbitrary: as rest rule: decode_attributes.induct) (auto split: if_splits)

lemma decode_body_Ok:
  "(\<exists>stored. decodeBinaryStoredEntryAttributes dn binding v = Ok stored) \<longleftrightarrow>
   (case consumeEntryBinaryCount v of
      Ok (n, v') \<Rightarrow> n \<le> length v' \<and> skip_attributes n v' = Some []
    | _ \<Rightarrow> False)"
  by (cases "consumeEntryBinaryCount v")
    (auto simp: decodeBinaryStoredEntryAttributes_def skip_attributes_all [where i = 0] split: if_splits)

lemma decode_body_attributes:
  assumes "decodeBinaryStoredEntryAttributes dn binding v = Ok stored"
    and "consumeEntryBinaryCount v = Ok (n, v')"
  shows "length (Attributes (s_Entry stored)) = n"
  using assms decode_attributes_length
  by (fastforce simp: decodeBinaryStoredEntryAttributes_def bare_entry_def split: if_splits)

definition binary_entry :: "bytes \<Rightarrow> bool" where
  "binary_entry v \<longleftrightarrow> HasPrefix v entryBinaryV3Prefix \<or> HasPrefix v entryBinaryPrefix \<or> HasPrefix v entryBinaryV1Prefix"

text \<open>What follows the header, as the structural check sees it.\<close>

definition body_ok :: "bool \<Rightarrow> bytes \<Rightarrow> nat \<Rightarrow> bool" where
  "body_ok v1 v n \<longleftrightarrow>
     (\<exists>dn a binding b c d. consumeEntryBinaryField v = Ok (dn, a) \<and> consumeEntryBinaryField a = Ok (binding, b) \<and>
        (if v1 then \<exists>source. consumeEntryBinaryField b = Ok (source, c)
         else c = b \<and> (length binding = 0 \<or> length binding = sha256_Size)) \<and>
        consumeEntryBinaryCount c = Ok (n, d) \<and> n \<le> length d \<and> skip_attributes n d = Some [])"

lemma validBinaryCandidateEntry_iff:
  "validBinaryCandidateEntry v \<longleftrightarrow>
     (\<exists>v1 v3 flags v' n. candidate_header v = Some (v1, v3, flags, v') \<and> body_ok v1 v' n \<and>
        (v3 \<longrightarrow> bitmap_ok flags n))"
proof (cases "candidate_header v")
  case (Some h)
  obtain v1 v3 flags v' where h: "h = (v1, v3, flags, v')" by (cases h)
  show ?thesis
  proof (cases v1)
    case True
    then show ?thesis unfolding validBinaryCandidateEntry_def Some h body_ok_def
      by (auto split: go.splits)
  next
    case False
    then show ?thesis unfolding validBinaryCandidateEntry_def Some h body_ok_def
      by (auto split: go.splits)
  qed
qed (simp add: validBinaryCandidateEntry_def)

lemma decode_v2_iff:
  "(\<exists>stored. decodeBinaryStoredEntry v = Ok stored \<and> length (Attributes (s_Entry stored)) = n) \<longleftrightarrow> body_ok False v n"
proof
  assume "\<exists>stored. decodeBinaryStoredEntry v = Ok stored \<and> length (Attributes (s_Entry stored)) = n"
  then obtain stored dn a binding b where s: "consumeEntryBinaryField v = Ok (dn, a)"
    "consumeEntryBinaryField a = Ok (binding, b)" "length binding = 0 \<or> length binding = sha256_Size"
    "decodeBinaryStoredEntryAttributes dn binding b = Ok stored" "length (Attributes (s_Entry stored)) = n"
    by (auto simp: decodeBinaryStoredEntry_def split: if_splits)
  then have "\<exists>stored. decodeBinaryStoredEntryAttributes dn binding b = Ok stored" by blast
  then obtain m d where c: "consumeEntryBinaryCount b = Ok (m, d)" "m \<le> length d" "skip_attributes m d = Some []"
    unfolding decode_body_Ok by (auto split: go.splits)
  have "m = n" using decode_body_attributes [OF s(4) c(1)] s(5) by simp
  with s c show "body_ok False v n" unfolding body_ok_def by auto
next
  assume "body_ok False v n"
  then obtain dn a binding b d where s: "consumeEntryBinaryField v = Ok (dn, a)"
    "consumeEntryBinaryField a = Ok (binding, b)" "length binding = 0 \<or> length binding = sha256_Size"
    "consumeEntryBinaryCount b = Ok (n, d)" "n \<le> length d" "skip_attributes n d = Some []"
    unfolding body_ok_def by auto
  then obtain stored where st: "decodeBinaryStoredEntryAttributes dn binding b = Ok stored"
    using decode_body_Ok [of dn binding b] by auto
  then have "decodeBinaryStoredEntry v = Ok stored" using s by (auto simp: decodeBinaryStoredEntry_def)
  with decode_body_attributes [OF st s(4)]
  show "\<exists>stored. decodeBinaryStoredEntry v = Ok stored \<and> length (Attributes (s_Entry stored)) = n" by blast
qed

lemma decode_v1_iff: "(\<exists>stored. decodeBinaryStoredEntryV1 v = Ok stored) \<longleftrightarrow> (\<exists>n. body_ok True v n)"
proof
  assume "\<exists>stored. decodeBinaryStoredEntryV1 v = Ok stored"
  then obtain dn a identity b source c stored where s: "consumeEntryBinaryField v = Ok (dn, a)"
    "consumeEntryBinaryField a = Ok (identity, b)" "consumeEntryBinaryField b = Ok (source, c)"
    "decodeBinaryStoredEntryAttributes dn [] c = Ok stored"
    by (auto simp: decodeBinaryStoredEntryV1_def)
  then have "\<exists>stored. decodeBinaryStoredEntryAttributes dn [] c = Ok stored" by blast
  then obtain m d where "consumeEntryBinaryCount c = Ok (m, d)" "m \<le> length d" "skip_attributes m d = Some []"
    unfolding decode_body_Ok by (auto split: go.splits)
  with s show "\<exists>n. body_ok True v n" unfolding body_ok_def by auto
next
  assume "\<exists>n. body_ok True v n"
  then obtain n dn a identity b source c d where s: "consumeEntryBinaryField v = Ok (dn, a)"
    "consumeEntryBinaryField a = Ok (identity, b)" "consumeEntryBinaryField b = Ok (source, c)"
    "consumeEntryBinaryCount c = Ok (n, d)" "n \<le> length d" "skip_attributes n d = Some []"
    unfolding body_ok_def by auto
  then obtain stored where "decodeBinaryStoredEntryAttributes dn [] c = Ok stored"
    using decode_body_Ok [of dn "[]" c] by auto
  with s show "\<exists>stored. decodeBinaryStoredEntryV1 v = Ok stored" by (auto simp: decodeBinaryStoredEntryV1_def)
qed

lemma decode_v3_iff:
  "(\<exists>stored. decodeNormalizedStoredEntry v = Ok stored) \<longleftrightarrow>
   (\<exists>flags v' n. consumeEntryBinaryField (drop (length entryBinaryV3Prefix) v) = Ok (flags, v') \<and>
      body_ok False v' n \<and> bitmap_ok flags n)"
proof
  assume "\<exists>stored. decodeNormalizedStoredEntry v = Ok stored"
  then obtain flags v' stored where s: "consumeEntryBinaryField (drop (length entryBinaryV3Prefix) v) = Ok (flags, v')"
    "decodeBinaryStoredEntry v' = Ok stored" "length flags = (length (Attributes (s_Entry stored)) + 7) div 8"
    "\<exists>as. apply_flags 0 flags (Attributes (s_Entry stored)) = Ok as"
    by (auto simp: decodeNormalizedStoredEntry_def Let_def split: if_splits)
  then have "bitmap_ok flags (length (Attributes (s_Entry stored)))"
    by (auto simp: bitmap_ok_iff apply_flags_0 split: if_splits)
  with s decode_v2_iff show "\<exists>flags v' n. consumeEntryBinaryField (drop (length entryBinaryV3Prefix) v) = Ok (flags, v') \<and>
      body_ok False v' n \<and> bitmap_ok flags n" by blast
next
  assume "\<exists>flags v' n. consumeEntryBinaryField (drop (length entryBinaryV3Prefix) v) = Ok (flags, v') \<and>
      body_ok False v' n \<and> bitmap_ok flags n"
  then obtain flags v' n stored where s: "consumeEntryBinaryField (drop (length entryBinaryV3Prefix) v) = Ok (flags, v')"
    "bitmap_ok flags n" "decodeBinaryStoredEntry v' = Ok stored" "length (Attributes (s_Entry stored)) = n"
    using decode_v2_iff by blast
  then have "length flags = (n + 7) div 8" "\<not> (\<exists>j<8 * length flags. flag flags j \<and> n \<le> j)"
    unfolding bitmap_ok_iff by blast+
  with s have "\<exists>as. apply_flags 0 flags (Attributes (s_Entry stored)) = Ok as"
    unfolding apply_flags_0 by (simp only: if_False) blast
  with s \<open>length flags = (n + 7) div 8\<close> show "\<exists>stored. decodeNormalizedStoredEntry v = Ok stored"
    by (auto simp: decodeNormalizedStoredEntry_def Let_def)
qed

lemma valid_candidate_iff_decodes:
  "validBinaryCandidateEntry v \<longleftrightarrow> binary_entry v \<and> (\<exists>stored. decodeStoredEntry Unmarshal v = Ok stored)"
proof -
  consider (v3) "HasPrefix v entryBinaryV3Prefix" | (v2) "\<not> HasPrefix v entryBinaryV3Prefix" "HasPrefix v entryBinaryPrefix"
    | (v1) "\<not> HasPrefix v entryBinaryV3Prefix" "\<not> HasPrefix v entryBinaryPrefix" "HasPrefix v entryBinaryV1Prefix"
    | (none) "\<not> binary_entry v" unfolding binary_entry_def by blast
  then show ?thesis
  proof cases
    case v3
    have h: "candidate_header v = Some (v1, b, flags, v') \<longleftrightarrow>
        \<not> v1 \<and> b \<and> consumeEntryBinaryField (drop (length entryBinaryV3Prefix) v) = Ok (flags, v')" for v1 b flags v'
      using v3 by (auto simp: candidate_header_def split: go.splits)
    have "validBinaryCandidateEntry v \<longleftrightarrow> (\<exists>stored. decodeNormalizedStoredEntry v = Ok stored)"
      unfolding validBinaryCandidateEntry_iff decode_v3_iff h by (simp add: ex_bool_eq)
    then show ?thesis using v3 by (simp add: binary_entry_def decodeStoredEntry_def)
  next
    case v2
    then have "candidate_header v = Some (False, False, [], drop (length entryBinaryPrefix) v)"
      by (simp add: candidate_header_def)
    then have "validBinaryCandidateEntry v \<longleftrightarrow> (\<exists>n. body_ok False (drop (length entryBinaryPrefix) v) n)"
      by (simp add: validBinaryCandidateEntry_iff ex_bool_eq)
    also have "\<dots> \<longleftrightarrow> (\<exists>stored. decodeBinaryStoredEntry (drop (length entryBinaryPrefix) v) = Ok stored)"
      by (simp flip: decode_v2_iff)
    finally show ?thesis using v2 by (simp add: binary_entry_def decodeStoredEntry_def)
  next
    case v1
    then have "candidate_header v = Some (True, False, [], drop (length entryBinaryV1Prefix) v)"
      by (simp add: candidate_header_def)
    then show ?thesis using v1 decode_v1_iff [of "drop (length entryBinaryV1Prefix) v"]
      by (simp add: validBinaryCandidateEntry_iff binary_entry_def decodeStoredEntry_def ex_bool_eq)
  next
    case none
    then show ?thesis by (auto simp: validBinaryCandidateEntry_iff candidate_header_def binary_entry_def)
  qed
qed

lemma decode_attributes_unhinted:
  "decode_attributes k i v = Ok (as, rest) \<Longrightarrow> list_all (\<lambda>a. \<not> RawNormalized a) as"
  by (induction k i v arbitrary: as rest rule: decode_attributes.induct) (auto split: if_splits)

lemma decode_body_from:
  assumes "consumeEntryBinaryCount v = Ok (n, v')" "n \<le> length v'" "decode_attributes n 0 v' = Ok (as, [])"
  shows "decodeBinaryStoredEntryAttributes dn binding v =
    Ok \<lparr>s_Entry = bare_entry dn as, s_DNIdentity = [], s_DNSource = [], s_DNBinding = binding\<rparr>"
  using assms by (simp add: decodeBinaryStoredEntryAttributes_def)

section \<open>Properties\<close>

text \<open>
  C6: an entry that is stored is read back: same name, attributes, values and normalisation
  hints, in order, with the digest that binds it to its key; for either format the writer picks.
\<close>

theorem stored_entry_roundtrip:
  assumes "entry_fits e"
  shows "decodeStoredEntry Unmarshal (encodeEntry e identity source) =
    Ok \<lparr>s_Entry = bare_entry (e_DN e) (Attributes e), s_DNIdentity = [], s_DNSource = [],
      s_DNBinding = (if identity \<noteq> [] then entryDNBinding identity source else [])\<rparr>"
  using decodeStoredEntry_encodeEntry [OF assms] by (simp add: stored_part_def)

theorem stored_entry_roundtrip_witness:
  "decodeStoredEntry (\<lambda>_. Inl []) (encodeEntry (bare_entry ''cn=a''
      [\<lparr>Description = ''cn'', Values = [''a'', ''b''], RawNormalized = True\<rparr>]) [] ''cn=a'') =
    Ok \<lparr>s_Entry = bare_entry ''cn=a'' [\<lparr>Description = ''cn'', Values = [''a'', ''b''], RawNormalized = True\<rparr>],
      s_DNIdentity = [], s_DNSource = [], s_DNBinding = []\<rparr>"
proof -
  let ?e = "bare_entry ''cn=a'' [\<lparr>Description = ''cn'', Values = [''a'', ''b''], RawNormalized = True\<rparr>]"
  have "entry_fits ?e" by (simp add: entry_fits_def attribute_fits_def bare_entry_def)
  from stored_entry_roundtrip [OF this, of "\<lambda>_. Inl []" "[]" "''cn=a''"] show ?thesis
    by (simp add: bare_entry_def)
qed

text \<open>decoding a stored entry never panics, whatever the bytes are.\<close>

theorem stored_entry_decoding_no_panic: "decodeStoredEntry Unmarshal v \<noteq> Panic"
  by (rule decodeStoredEntry_no_panic)

text \<open>
  the structural check of candidate rows, which decodes nothing, accepts exactly the binary
  encodings that the decoder accepts.
\<close>

theorem candidate_check_exact:
  "validBinaryCandidateEntry v \<longleftrightarrow>
     (HasPrefix v entryBinaryV3Prefix \<or> HasPrefix v entryBinaryPrefix \<or> HasPrefix v entryBinaryV1Prefix) \<and>
     (\<exists>stored. decodeStoredEntry Unmarshal v = Ok stored)"
  using valid_candidate_iff_decodes [of v Unmarshal] by (simp add: binary_entry_def)

end
