(* ===== verification/Search_Index.thy ===== *)
theory Search_Index
  imports Entry_Codec Directory_Filter
begin

text \<open>
  The search indexes of \<open>src/internal/storage/index.go\<close>: their configuration and its
  normalisation, the terms under which an entry is indexed, the binary keys of postings and the
  planner that turns a filter into a set of candidates. The schema adapter and the storage are
  parameters, as they are interfaces in the source. The lemmas show that a normalised
  configuration is sorted and searched exactly, and that keys are read back as written.
\<close>

section \<open>Constants\<close>

definition equalityIndexFormatVersion :: int where "equalityIndexFormatVersion = 4"
definition equalityIndexTokenSize :: nat where "equalityIndexTokenSize = 16"
definition substringIndexNGramSize :: nat where "substringIndexNGramSize = 3"
definition substringIndexAnchorMax :: nat where "substringIndexAnchorMax = 8"
definition substringIndexMaxNGrams :: nat where "substringIndexMaxNGrams = 256"

definition equalityIndexPresence :: char where "equalityIndexPresence = CHR 0x00"
definition equalityIndexValue :: char where "equalityIndexValue = CHR 0x01"
definition equalityIndexSubstringInitial :: char where "equalityIndexSubstringInitial = CHR 0x02"
definition equalityIndexSubstringAny :: char where "equalityIndexSubstringAny = CHR 0x03"
definition equalityIndexSubstringFinal :: char where "equalityIndexSubstringFinal = CHR 0x04"
definition equalityIndexSubstringOverflow :: char where "equalityIndexSubstringOverflow = CHR 0x05"
definition equalityIndexOrdering :: char where "equalityIndexOrdering = CHR 0x06"
definition equalityIndexApproximate :: char where "equalityIndexApproximate = CHR 0x07"

lemmas index_kinds = equalityIndexPresence_def equalityIndexValue_def equalityIndexSubstringInitial_def
  equalityIndexSubstringAny_def equalityIndexSubstringFinal_def equalityIndexSubstringOverflow_def
  equalityIndexOrdering_def equalityIndexApproximate_def

section \<open>Configuration\<close>

record EqualityIndexAttribute =
  ia_Attribute :: bytes
  ia_EqualityRule :: bytes
  ia_ApproximateRule :: bytes
  ia_SubstringRule :: bytes
  ia_OrderingRule :: bytes
  ia_Equality :: bool
  ia_Presence :: bool
  ia_Approximate :: bool
  ia_SubstringInitial :: bool
  ia_SubstringAny :: bool
  ia_SubstringFinal :: bool
  ia_Ordering :: bool
  ia_NoTags :: bool
  ia_NoSubtypes :: bool

record EqualityIndexConfig =
  ic_Version :: int
  ic_Attributes :: "EqualityIndexAttribute list"

datatype index_error =
    UnsupportedVersion int | InvalidIndexAttribute | ConflictingRules bytes
  | EmptySelectedAttribute | NoIndexConfigured bytes | NoSelectedAttribute
  | SchemaError string | NormalizeValues bytes bytes string
  | InvalidKeyVersion | TruncatedKey | TruncatedKeyLength | TruncatedKeyValue
  | TruncatedOrderingValue | InvalidOrderingEscape | UnterminatedOrderingValue | OrderingTrailingData
  | InvalidKeyKind char | NoEntryReference | IndexContextDone

definition equalityIndexPostingKindConfigured :: "EqualityIndexAttribute \<Rightarrow> char \<Rightarrow> bool" where
  "equalityIndexPostingKindConfigured d kind =
     (if kind = equalityIndexPresence then ia_Presence d
      else if kind = equalityIndexValue then ia_Equality d
      else if kind = equalityIndexSubstringInitial then ia_SubstringInitial d
      else if kind = equalityIndexSubstringAny \<or> kind = equalityIndexSubstringOverflow then ia_SubstringAny d
      else if kind = equalityIndexSubstringFinal then ia_SubstringFinal d
      else if kind = equalityIndexOrdering then ia_Ordering d
      else if kind = equalityIndexApproximate then ia_Approximate d
      else False)"

definition rulesConflict :: "bytes \<Rightarrow> bytes \<Rightarrow> bool" where
  "rulesConflict left right \<longleftrightarrow> left \<noteq> [] \<and> right \<noteq> [] \<and> left \<noteq> right"

definition fold_names :: "unicode \<Rightarrow> EqualityIndexAttribute \<Rightarrow> EqualityIndexAttribute" where
  "fold_names U a =
     a\<lparr>ia_Attribute := ToLower U (TrimSpace (ia_Attribute a)),
       ia_EqualityRule := ToLower U (TrimSpace (ia_EqualityRule a)),
       ia_ApproximateRule := ToLower U (TrimSpace (ia_ApproximateRule a)),
       ia_SubstringRule := ToLower U (TrimSpace (ia_SubstringRule a)),
       ia_OrderingRule := ToLower U (TrimSpace (ia_OrderingRule a))\<rparr>"

definition index_attribute_ok :: "EqualityIndexAttribute \<Rightarrow> bool" where
  "index_attribute_ok a \<longleftrightarrow>
     (let hasSubstring = ia_SubstringInitial a \<or> ia_SubstringAny a \<or> ia_SubstringFinal a in
      \<not> (ia_Attribute a = [] \<or> (ia_Equality a \<and> ia_EqualityRule a = []) \<or>
         (ia_Approximate a \<and> ia_ApproximateRule a = []) \<or> (hasSubstring \<and> ia_SubstringRule a = []) \<or>
         (ia_Ordering a \<and> ia_OrderingRule a = []) \<or>
         (\<not> ia_Equality a \<and> \<not> ia_Presence a \<and> \<not> ia_Approximate a \<and> \<not> hasSubstring \<and>
          \<not> ia_Ordering a \<and> \<not> ia_NoTags a \<and> \<not> ia_NoSubtypes a)))"

definition rules_conflict :: "EqualityIndexAttribute \<Rightarrow> EqualityIndexAttribute \<Rightarrow> bool" where
  "rules_conflict x a \<longleftrightarrow>
     rulesConflict (ia_EqualityRule x) (ia_EqualityRule a) \<or>
     rulesConflict (ia_ApproximateRule x) (ia_ApproximateRule a) \<or>
     rulesConflict (ia_SubstringRule x) (ia_SubstringRule a) \<or>
     rulesConflict (ia_OrderingRule x) (ia_OrderingRule a)"

definition merge_attribute :: "EqualityIndexAttribute \<Rightarrow> EqualityIndexAttribute \<Rightarrow> EqualityIndexAttribute" where
  "merge_attribute x a =
     a\<lparr>ia_EqualityRule := (if ia_EqualityRule a = [] then ia_EqualityRule x else ia_EqualityRule a),
       ia_ApproximateRule := (if ia_ApproximateRule a = [] then ia_ApproximateRule x else ia_ApproximateRule a),
       ia_SubstringRule := (if ia_SubstringRule a = [] then ia_SubstringRule x else ia_SubstringRule a),
       ia_OrderingRule := (if ia_OrderingRule a = [] then ia_OrderingRule x else ia_OrderingRule a),
       ia_Equality := (ia_Equality a \<or> ia_Equality x),
       ia_Presence := (ia_Presence a \<or> ia_Presence x),
       ia_Approximate := (ia_Approximate a \<or> ia_Approximate x),
       ia_SubstringInitial := (ia_SubstringInitial a \<or> ia_SubstringInitial x),
       ia_SubstringAny := (ia_SubstringAny a \<or> ia_SubstringAny x),
       ia_SubstringFinal := (ia_SubstringFinal a \<or> ia_SubstringFinal x),
       ia_Ordering := (ia_Ordering a \<or> ia_Ordering x),
       ia_NoTags := (ia_NoTags a \<or> ia_NoTags x),
       ia_NoSubtypes := (ia_NoSubtypes a \<or> ia_NoSubtypes x)\<rparr>"

text \<open>The map from attribute names to definitions, as a list with one definition for each name.\<close>

fun collect_attributes ::
  "unicode \<Rightarrow> EqualityIndexAttribute list \<Rightarrow> EqualityIndexAttribute list \<Rightarrow>
   (index_error, EqualityIndexAttribute list) go" where
  "collect_attributes U byAttribute [] = Ok byAttribute"
| "collect_attributes U byAttribute (a0 # as) =
     (let a = fold_names U a0 in
      if \<not> index_attribute_ok a then Err InvalidIndexAttribute
      else case find (\<lambda>x. ia_Attribute x = ia_Attribute a) byAttribute of
        None \<Rightarrow> collect_attributes U (byAttribute @ [a]) as
      | Some x \<Rightarrow>
          if rules_conflict x a then Err (ConflictingRules (ia_Attribute a))
          else collect_attributes U
            (map (\<lambda>y. if ia_Attribute y = ia_Attribute a then merge_attribute x a else y) byAttribute) as)"

definition normalizeEqualityIndexConfig ::
  "unicode \<Rightarrow> EqualityIndexConfig \<Rightarrow> (index_error, EqualityIndexConfig) go" where
  "normalizeEqualityIndexConfig U config =
     (let version = (if ic_Version config = 0 then equalityIndexFormatVersion else ic_Version config) in
      if version \<noteq> equalityIndexFormatVersion then Err (UnsupportedVersion version)
      else go_bind (collect_attributes U [] (ic_Attributes config)) (\<lambda>as.
        Ok \<lparr>ic_Version = version, ic_Attributes = sort_key ia_Attribute as\<rparr>))"

text \<open>\<open>sort.Search\<close>: binary search for the least index at which a monotone predicate holds.\<close>

function sort_Search :: "(nat \<Rightarrow> bool) \<Rightarrow> nat \<Rightarrow> nat \<Rightarrow> nat" where
  "sort_Search f i j =
     (if i < j then let h = (i + j) div 2 in if \<not> f h then sort_Search f (h + 1) j else sort_Search f i h
      else i)"
  by pat_completeness auto

termination by (relation "measure (\<lambda>(f, i, j). j - i)") auto

declare sort_Search.simps [simp del]

definition equalityIndexAttributeDefinition ::
  "EqualityIndexConfig \<Rightarrow> bytes \<Rightarrow> EqualityIndexAttribute option" where
  "equalityIndexAttributeDefinition config attribute =
     (let as = ic_Attributes config;
          index = sort_Search (\<lambda>i. attribute \<le> ia_Attribute (as ! i)) 0 (length as)
      in if length as \<le> index \<or> ia_Attribute (as ! index) \<noteq> attribute then None else Some (as ! index))"

fun select_definitions ::
  "unicode \<Rightarrow> EqualityIndexConfig \<Rightarrow> bytes list \<Rightarrow> bytes list \<Rightarrow>
   (index_error, EqualityIndexAttribute list) go" where
  "select_definitions U config seen [] = Ok []"
| "select_definitions U config seen (raw # rest) =
     (let attribute = ToLower U (TrimSpace raw) in
      if attribute = [] then Err EmptySelectedAttribute
      else if attribute \<in> set seen then select_definitions U config seen rest
      else case equalityIndexAttributeDefinition config attribute of
        None \<Rightarrow> Err (NoIndexConfigured raw)
      | Some d \<Rightarrow> go_bind (select_definitions U config (attribute # seen) rest) (\<lambda>ds. Ok (d # ds)))"

definition selectedEqualityIndexConfig ::
  "unicode \<Rightarrow> EqualityIndexConfig \<Rightarrow> bytes list \<Rightarrow> (index_error, EqualityIndexConfig) go" where
  "selectedEqualityIndexConfig U config attributes =
     go_bind (normalizeEqualityIndexConfig U config) (\<lambda>config.
     go_bind (select_definitions U config [] attributes) (\<lambda>ds.
       if ds = [] then Err NoSelectedAttribute
       else Ok \<lparr>ic_Version = ic_Version config, ic_Attributes = sort_key ia_Attribute ds\<rparr>))"

text \<open>Configurations are compared as JSON texts; \<open>json.Marshal\<close> is a parameter.\<close>

definition equalityIndexConfigsEqual ::
  "(EqualityIndexConfig \<Rightarrow> bytes option) \<Rightarrow> EqualityIndexConfig \<Rightarrow> EqualityIndexConfig \<Rightarrow> bool" where
  "equalityIndexConfigsEqual Marshal left right \<longleftrightarrow>
     (case (Marshal left, Marshal right) of (Some x, Some y) \<Rightarrow> x = y | _ \<Rightarrow> False)"

section \<open>Terms\<close>

text \<open>The database-specific schema operations, the interface \<open>EqualityIndexSchema\<close>.\<close>

record EqualityIndexSchema =
  EqualityIndexConfiguration :: EqualityIndexConfig
  ResolveEqualityIndexAttribute :: "bytes \<Rightarrow> string + bytes \<times> bool \<times> bool"
  NormalizeEqualityIndexAssertion :: "bytes \<Rightarrow> bytes \<Rightarrow> string + bytes"
  EqualityIndexValues :: "Entry \<Rightarrow> bytes \<Rightarrow> string + bytes list"
  ResolveSubstringIndexAttribute :: "bytes \<Rightarrow> string + bytes \<times> bool \<times> bool \<times> bool"
  NormalizeSubstringIndexAssertion :: "bytes \<Rightarrow> Substring \<Rightarrow> string + Substring"
  SubstringIndexValues :: "Entry \<Rightarrow> bytes \<Rightarrow> string + bytes list"
  ResolveOrderingIndexAttribute :: "bytes \<Rightarrow> string + bytes \<times> bool"
  NormalizeOrderingIndexAssertion :: "bytes \<Rightarrow> bytes \<Rightarrow> string + bytes"
  OrderingIndexValues :: "Entry \<Rightarrow> bytes \<Rightarrow> string + bytes list"
  ResolveApproximateIndexAttribute :: "bytes \<Rightarrow> string + bytes \<times> bool \<times> bool"
  ApproximateIndexAssertionTerms :: "bytes \<Rightarrow> bytes \<Rightarrow> string + bytes list \<times> bool"
  ApproximateIndexValues :: "Entry \<Rightarrow> bytes \<Rightarrow> string + bytes list"

fun go_of_sum :: "('s \<Rightarrow> 'e) \<Rightarrow> 's + 'a \<Rightarrow> ('e, 'a) go" where
  "go_of_sum w (Inl e) = Err (w e)"
| "go_of_sum w (Inr x) = Ok x"

record equalityIndexAttributeTerms =
  at_present :: bool
  at_equality :: "bytes list"
  at_approximate :: "bytes list"
  at_substring :: "bytes list"
  at_ordering :: "bytes list"

type_synonym equalityIndexTerm = "char \<times> bytes"

fun unique_from :: "bytes list \<Rightarrow> bytes list \<Rightarrow> bytes list" where
  "unique_from seen [] = []"
| "unique_from seen (v # vs) = (if v \<in> set seen then unique_from seen vs else v # unique_from (v # seen) vs)"

definition uniqueIndexValues :: "bytes list \<Rightarrow> bytes list" where
  "uniqueIndexValues vs = unique_from [] vs"

definition attribute_terms ::
  "EqualityIndexSchema \<Rightarrow> Entry \<Rightarrow> EqualityIndexAttribute \<Rightarrow> (index_error, equalityIndexAttributeTerms) go" where
  "attribute_terms schema entry a =
     (let get = (\<lambda>on values. if on then go_of_sum (NormalizeValues (e_DN entry) (ia_Attribute a)) (values schema entry (ia_Attribute a))
                 else Ok []) in
      go_bind (get (ia_Equality a \<or> ia_Presence a) EqualityIndexValues) (\<lambda>eq.
      go_bind (get (ia_Approximate a) ApproximateIndexValues) (\<lambda>approx.
      go_bind (get (ia_SubstringInitial a \<or> ia_SubstringAny a \<or> ia_SubstringFinal a) SubstringIndexValues) (\<lambda>sub.
      go_bind (get (ia_Ordering a) OrderingIndexValues) (\<lambda>ord.
        Ok \<lparr>at_present = (eq \<noteq> [] \<or> approx \<noteq> [] \<or> sub \<noteq> [] \<or> ord \<noteq> []),
            at_equality = uniqueIndexValues eq, at_approximate = uniqueIndexValues approx,
            at_substring = uniqueIndexValues sub, at_ordering = uniqueIndexValues ord\<rparr>)))))"

text \<open>The terms of every configured attribute; a later definition of a name replaces an earlier one.\<close>

fun entry_terms_from ::
  "EqualityIndexSchema \<Rightarrow> Entry \<Rightarrow> EqualityIndexAttribute list \<Rightarrow> (bytes \<rightharpoonup> equalityIndexAttributeTerms) \<Rightarrow>
   (index_error, bytes \<rightharpoonup> equalityIndexAttributeTerms) go" where
  "entry_terms_from schema entry [] terms = Ok terms"
| "entry_terms_from schema entry (a # as) terms =
     go_bind (attribute_terms schema entry a) (\<lambda>t.
       entry_terms_from schema entry as (terms(ia_Attribute a \<mapsto> t)))"

definition equalityIndexEntryTerms ::
  "EqualityIndexSchema \<Rightarrow> EqualityIndexConfig \<Rightarrow> Entry \<Rightarrow> (index_error, bytes \<rightharpoonup> equalityIndexAttributeTerms) go" where
  "equalityIndexEntryTerms schema config entry = entry_terms_from schema entry (ic_Attributes config) Map.empty"

fun gram_terms :: "bytes \<Rightarrow> bytes list \<Rightarrow> equalityIndexTerm list" where
  "gram_terms [] seen = []"
| "gram_terms (c # rest) seen =
     (let gram = take substringIndexNGramSize (c # rest) in
      if length (c # rest) < substringIndexNGramSize then []
      else if gram \<in> set seen then gram_terms rest seen
      else if substringIndexMaxNGrams \<le> length seen then [(equalityIndexSubstringOverflow, [])]
      else (equalityIndexSubstringAny, gram) # gram_terms rest (gram # seen))"

definition substringIndexValueTerms :: "bytes \<Rightarrow> EqualityIndexAttribute \<Rightarrow> equalityIndexTerm list" where
  "substringIndexValueTerms v d =
     (let lengths = [1..<Suc (min (length v) substringIndexAnchorMax)] in
      (if ia_SubstringInitial d then map (\<lambda>n. (equalityIndexSubstringInitial, take n v)) lengths else []) @
      (if ia_SubstringFinal d then map (\<lambda>n. (equalityIndexSubstringFinal, drop (length v - n) v)) lengths else []) @
      (if \<not> ia_SubstringAny d \<or> length v < substringIndexNGramSize then [] else gram_terms v []))"

text \<open>Terms are told apart by the key that the source builds for them, kind and value joined.\<close>

fun unique_terms :: "bytes list \<Rightarrow> equalityIndexTerm list \<Rightarrow> equalityIndexTerm list" where
  "unique_terms seen [] = []"
| "unique_terms seen ((kind, v) # ts) =
     (if kind # v \<in> set seen then unique_terms seen ts else (kind, v) # unique_terms ((kind # v) # seen) ts)"

definition equalityIndexTermsForAttribute ::
  "EqualityIndexAttribute \<Rightarrow> equalityIndexAttributeTerms \<Rightarrow> equalityIndexTerm list" where
  "equalityIndexTermsForAttribute d values =
     (if ia_Presence d \<and> at_present values then [(equalityIndexPresence, [])] else []) @
     (if ia_Equality d then map (Pair equalityIndexValue) (at_equality values) else []) @
     (if ia_Approximate d then map (Pair equalityIndexApproximate) (at_approximate values) else []) @
     (if ia_SubstringInitial d \<or> ia_SubstringAny d \<or> ia_SubstringFinal d
      then unique_terms [] (concat (map (\<lambda>v. substringIndexValueTerms v d) (at_substring values))) else []) @
     (if ia_Ordering d then map (Pair equalityIndexOrdering) (at_ordering values) else [])"

section \<open>Keys of postings\<close>

definition appendEqualityIndexToken :: "bytes \<Rightarrow> bytes \<Rightarrow> bytes \<Rightarrow> nat \<Rightarrow> bytes" where
  "appendEqualityIndexToken destination domain v n =
     destination @ take n (sha256 (domain @ [CHR 0x00] @ v))"

definition equalityIndexAttributePrefix :: "bytes \<Rightarrow> bytes \<Rightarrow> bytes" where
  "equalityIndexAttributePrefix db attribute =
     (let result = appendEqualityIndexToken [char_of equalityIndexFormatVersion] ''partition'' db equalityIndexTokenSize
      in appendEqualityIndexToken result ''attribute'' attribute equalityIndexTokenSize)"

definition equalityIndexAttributeKindPrefix :: "bytes \<Rightarrow> bytes \<Rightarrow> char \<Rightarrow> bytes" where
  "equalityIndexAttributeKindPrefix db attribute kind =
     equalityIndexAttributePrefix db attribute @ [kind]"

definition appendOrderPreservingValue :: "bytes \<Rightarrow> bytes \<Rightarrow> bytes" where
  "appendOrderPreservingValue destination v =
     foldl (\<lambda>d octet. d @ [CHR 0x01, octet]) destination v @ [CHR 0x00]"

fun read_ordering_from :: "bytes \<Rightarrow> bytes \<Rightarrow> nat \<Rightarrow> (index_error, bytes \<times> nat) go" where
  "read_ordering_from [] result position = Err UnterminatedOrderingValue"
| "read_ordering_from (c # rest) result position =
     (if c = CHR 0x00 then Ok (result, position + 1)
      else if c = CHR 0x01 then
        (case rest of [] \<Rightarrow> Err TruncatedOrderingValue
         | octet # rest' \<Rightarrow> read_ordering_from rest' (result @ [octet]) (position + 2))
      else Err InvalidOrderingEscape)"

definition readOrderPreservingValue :: "bytes \<Rightarrow> nat \<Rightarrow> (index_error, bytes \<times> nat) go" where
  "readOrderPreservingValue v position = read_ordering_from (drop position v) [] position"

definition PutUint32 :: "uint32 \<Rightarrow> bytes" where
  "PutUint32 x = big_endian 4 (uint x)"

definition appendLengthPrefixed :: "bytes \<Rightarrow> bytes \<Rightarrow> bytes" where
  "appendLengthPrefixed destination v = destination @ PutUint32 (of_nat (length v)) @ v"

definition readLengthPrefixed :: "bytes \<Rightarrow> nat \<Rightarrow> (index_error, bytes \<times> nat) go" where
  "readLengthPrefixed v position =
     (if length v < position + 4 then Err TruncatedKeyLength
      else let len = nat (big_endian_value (take 4 (drop position v)) 0); position = position + 4 in
        if length v < position + len then Err TruncatedKeyValue
        else Ok (take len (drop position v), position + len))"

definition equalityIndexPostingPrefix :: "bytes \<Rightarrow> bytes \<Rightarrow> char \<Rightarrow> bytes \<Rightarrow> bytes" where
  "equalityIndexPostingPrefix db attribute kind v =
     (let result = equalityIndexAttributeKindPrefix db attribute kind in
      if kind = equalityIndexPresence \<or> kind = equalityIndexSubstringOverflow then result
      else if kind = equalityIndexOrdering then appendOrderPreservingValue result v
      else appendLengthPrefixed result v)"

definition equalityIndexPostingKey :: "bytes \<Rightarrow> bytes \<Rightarrow> char \<Rightarrow> bytes \<Rightarrow> bytes \<Rightarrow> bytes" where
  "equalityIndexPostingKey db attribute kind v entryReference =
     equalityIndexPostingPrefix db attribute kind v @ entryReference"

record posting_key =
  pk_partition :: bytes
  pk_attribute :: bytes
  pk_kind :: char
  pk_value :: bytes
  pk_reference :: bytes

definition read_key_value :: "bytes \<Rightarrow> char \<Rightarrow> nat \<Rightarrow> (index_error, bytes \<times> nat) go" where
  "read_key_value key kind position =
     (if kind = equalityIndexPresence \<or> kind = equalityIndexSubstringOverflow then Ok ([], position)
      else if kind \<in> {equalityIndexValue, equalityIndexSubstringInitial, equalityIndexSubstringAny,
                      equalityIndexSubstringFinal, equalityIndexApproximate}
      then readLengthPrefixed key position
      else if kind = equalityIndexOrdering then readOrderPreservingValue key position
      else Err (InvalidKeyKind kind))"

definition decodeEqualityIndexPostingKey :: "bytes \<Rightarrow> (index_error, posting_key) go" where
  "decodeEqualityIndexPostingKey key =
     (if key = [] \<or> hd key \<noteq> char_of equalityIndexFormatVersion then Err InvalidKeyVersion
      else if length key < 1 + equalityIndexTokenSize * 2 + 1 then Err TruncatedKey
      else
        let kind = key ! (1 + 2 * equalityIndexTokenSize) in
        go_bind (read_key_value key kind (2 + 2 * equalityIndexTokenSize)) (\<lambda>(v, position).
          if length key \<le> position then Err NoEntryReference
          else Ok \<lparr>pk_partition = take equalityIndexTokenSize (drop 1 key),
                   pk_attribute = take equalityIndexTokenSize (drop (1 + equalityIndexTokenSize) key),
                   pk_kind = kind, pk_value = v, pk_reference = drop position key\<rparr>))"

section \<open>Planning\<close>

text \<open>What the planner asks of the storage, the interface \<open>equalityIndexStorageReader\<close>.\<close>

record index_reader =
  equalityIndexPostings :: "bytes \<Rightarrow> bytes \<Rightarrow> char \<Rightarrow> bytes \<Rightarrow> (index_error, bytes list) go"
  equalityIndexOrderingPostings :: "bytes \<Rightarrow> bytes \<Rightarrow> bytes \<Rightarrow> bool \<Rightarrow> (index_error, bytes list) go"

record substringIndexConstraint =
  sc_kind :: char
  sc_value :: bytes
  sc_includeOverflow :: bool

text \<open>At most eight grams of a part, spread over it.\<close>

definition query_gram :: "bytes \<Rightarrow> nat \<Rightarrow> nat \<Rightarrow> nat \<Rightarrow> bytes" where
  "query_gram v n selected index =
     (let position = (if 1 < selected then index * (n - 1) div (selected - 1) else 0)
      in take substringIndexNGramSize (drop position v))"

definition boundedQueryNGrams :: "bytes \<Rightarrow> bytes list" where
  "boundedQueryNGrams v =
     (if length v < substringIndexNGramSize then []
      else let n = length v - substringIndexNGramSize + 1; selected = min n 8
           in unique_from [] (map (query_gram v n selected) [0..<selected]))"

definition substringIndexFilterConstraints ::
  "Substring \<Rightarrow> bool \<Rightarrow> bool \<Rightarrow> bool \<Rightarrow> substringIndexConstraint list" where
  "substringIndexFilterConstraints v initial any final =
     (case Initial v of
        Some x \<Rightarrow> if initial \<and> x \<noteq> [] then [\<lparr>sc_kind = equalityIndexSubstringInitial,
          sc_value = take (min (length x) substringIndexAnchorMax) x, sc_includeOverflow = False\<rparr>] else []
      | None \<Rightarrow> []) @
     (if any then
        concat (map (\<lambda>part. if length part < substringIndexNGramSize then []
          else map (\<lambda>gram. \<lparr>sc_kind = equalityIndexSubstringAny, sc_value = gram, sc_includeOverflow = True\<rparr>)
            (boundedQueryNGrams part)) (Any v))
      else []) @
     (case Final v of
        Some x \<Rightarrow> if final \<and> x \<noteq> [] then [\<lparr>sc_kind = equalityIndexSubstringFinal,
          sc_value = drop (length x - min (length x) substringIndexAnchorMax) x, sc_includeOverflow = False\<rparr>] else []
      | None \<Rightarrow> [])"

text \<open>Intersecting the postings of several terms; \<open>None\<close> before the first one.\<close>

fun intersect_terms ::
  "(bytes \<Rightarrow> (index_error, bytes list) go) \<Rightarrow> bytes set option \<Rightarrow> bytes list \<Rightarrow>
   (index_error, bytes set option) go" where
  "intersect_terms postings result [] = Ok result"
| "intersect_terms postings result (t # ts) =
     go_bind (postings t) (\<lambda>keys.
       intersect_terms postings (case result of None \<Rightarrow> Some (set keys) | Some r \<Rightarrow> Some (r \<inter> set keys)) ts)"

fun intersect_constraints ::
  "index_reader \<Rightarrow> bytes \<Rightarrow> bytes \<Rightarrow> bytes set option \<Rightarrow> substringIndexConstraint list \<Rightarrow>
   (index_error, bytes set option) go" where
  "intersect_constraints R db attribute result [] = Ok result"
| "intersect_constraints R db attribute result (c # cs) =
     go_bind (equalityIndexPostings R db attribute (sc_kind c) (sc_value c)) (\<lambda>keys.
     go_bind (if sc_includeOverflow c
         then equalityIndexPostings R db attribute equalityIndexSubstringOverflow [] else Ok []) (\<lambda>overflow.
       let candidate = set keys \<union> set overflow in
       intersect_constraints R db attribute
         (case result of None \<Rightarrow> Some candidate | Some r \<Rightarrow> Some (r \<inter> candidate)) cs))"

text \<open>A filter that is not planned gives \<open>None\<close>; a planned one the references of its candidates.\<close>

definition plan_equality ::
  "index_reader \<Rightarrow> bytes \<Rightarrow> EqualityIndexSchema \<Rightarrow> bytes \<Rightarrow> bytes \<Rightarrow> bytes \<Rightarrow> (index_error, bytes set option) go" where
  "plan_equality R db schema description attribute assertion =
     go_bind (go_of_sum SchemaError (NormalizeEqualityIndexAssertion schema description assertion)) (\<lambda>normalized.
     go_bind (equalityIndexPostings R db attribute equalityIndexValue normalized) (\<lambda>keys.
       Ok (Some (set keys))))"

definition plan_approx ::
  "index_reader \<Rightarrow> bytes \<Rightarrow> EqualityIndexSchema \<Rightarrow> bytes \<Rightarrow> bytes \<Rightarrow> (index_error, bytes set option) go" where
  "plan_approx R db schema description assertion =
     go_bind (go_of_sum SchemaError (ResolveApproximateIndexAttribute schema description))
       (\<lambda>(attribute, approximate, equalityFallback).
     if \<not> approximate \<and> \<not> equalityFallback then Ok None
     else if equalityFallback then plan_equality R db schema description attribute assertion
     else
       go_bind (go_of_sum SchemaError (ApproximateIndexAssertionTerms schema description assertion)) (\<lambda>(terms, usable).
         if \<not> usable then Ok None
         else if terms = [] then Ok (Some {})
         else intersect_terms (equalityIndexPostings R db attribute equalityIndexApproximate) None
           (uniqueIndexValues terms)))"

definition plan_substrings ::
  "index_reader \<Rightarrow> bytes \<Rightarrow> EqualityIndexSchema \<Rightarrow> bytes \<Rightarrow> Substring \<Rightarrow> (index_error, bytes set option) go" where
  "plan_substrings R db schema description substring =
     go_bind (go_of_sum SchemaError (ResolveSubstringIndexAttribute schema description))
       (\<lambda>(attribute, initial, any, final).
     if \<not> initial \<and> \<not> any \<and> \<not> final then Ok None
     else
       go_bind (go_of_sum SchemaError (NormalizeSubstringIndexAssertion schema description substring)) (\<lambda>normalized.
         let constraints = substringIndexFilterConstraints normalized initial any final in
         if constraints = [] then Ok None
         else intersect_constraints R db attribute None constraints))"

definition plan_ordering ::
  "index_reader \<Rightarrow> bytes \<Rightarrow> EqualityIndexSchema \<Rightarrow> bytes \<Rightarrow> bytes \<Rightarrow> bool \<Rightarrow> (index_error, bytes set option) go" where
  "plan_ordering R db schema description assertion greaterOrEqual =
     go_bind (go_of_sum SchemaError (ResolveOrderingIndexAttribute schema description)) (\<lambda>(attribute, by_order).
     if \<not> by_order then Ok None
     else
       go_bind (go_of_sum SchemaError (NormalizeOrderingIndexAssertion schema description assertion)) (\<lambda>normalized.
       go_bind (equalityIndexOrderingPostings R db attribute normalized greaterOrEqual) (\<lambda>keys.
         Ok (Some (set keys)))))"

fun planEqualityIndexFilter ::
  "index_reader \<Rightarrow> bytes \<Rightarrow> EqualityIndexSchema \<Rightarrow> Filter \<Rightarrow> (index_error, bytes set option) go"
and plan_and ::
  "index_reader \<Rightarrow> bytes \<Rightarrow> EqualityIndexSchema \<Rightarrow> bytes set option \<Rightarrow> Filter list \<Rightarrow> (index_error, bytes set option) go"
and plan_or ::
  "index_reader \<Rightarrow> bytes \<Rightarrow> EqualityIndexSchema \<Rightarrow> bytes set \<Rightarrow> Filter list \<Rightarrow> (index_error, bytes set option) go"
where
  "planEqualityIndexFilter R db schema (Filter kind children attribute assertion substring rule dnAttributes) =
     (case kind of
        FilterEquality \<Rightarrow>
          go_bind (go_of_sum SchemaError (ResolveEqualityIndexAttribute schema attribute)) (\<lambda>(canonical, equality, _).
            if \<not> equality then Ok None
            else plan_equality R db schema attribute canonical assertion)
      | FilterApprox \<Rightarrow> plan_approx R db schema attribute assertion
      | FilterPresent \<Rightarrow>
          go_bind (go_of_sum SchemaError (ResolveEqualityIndexAttribute schema attribute)) (\<lambda>(canonical, _, presence).
            if \<not> presence then Ok None
            else go_bind (equalityIndexPostings R db canonical equalityIndexPresence []) (\<lambda>keys.
              Ok (Some (set keys))))
      | FilterSubstrings \<Rightarrow> plan_substrings R db schema attribute substring
      | FilterGreaterOrEqual \<Rightarrow> plan_ordering R db schema attribute assertion True
      | FilterLessOrEqual \<Rightarrow> plan_ordering R db schema attribute assertion False
      | FilterAnd \<Rightarrow> plan_and R db schema None children
      | FilterOr \<Rightarrow> plan_or R db schema {} children
      | _ \<Rightarrow> Ok None)"
| "plan_and R db schema result [] = Ok result"
| "plan_and R db schema result (f # fs) =
     go_bind (planEqualityIndexFilter R db schema f) (\<lambda>child.
       plan_and R db schema
         (case child of None \<Rightarrow> result
          | Some keys \<Rightarrow> (case result of None \<Rightarrow> Some keys | Some r \<Rightarrow> Some (r \<inter> keys))) fs)"
| "plan_or R db schema result [] = Ok (Some result)"
| "plan_or R db schema result (f # fs) =
     go_bind (planEqualityIndexFilter R db schema f) (\<lambda>child.
       case child of None \<Rightarrow> Ok None
       | Some keys \<Rightarrow> plan_or R db schema (result \<union> keys) fs)"

section \<open>Configurations\<close>

lemma sort_Search_bounds:
  assumes "i \<le> j" "\<And>k l. i \<le> k \<Longrightarrow> k \<le> l \<Longrightarrow> l < j \<Longrightarrow> f k \<Longrightarrow> f l"
  shows "i \<le> sort_Search f i j \<and> sort_Search f i j \<le> j \<and>
    (\<forall>k. i \<le> k \<and> k < sort_Search f i j \<longrightarrow> \<not> f k) \<and> (\<forall>k. sort_Search f i j \<le> k \<and> k < j \<longrightarrow> f k)"
  using assms
proof (induction f i j rule: sort_Search.induct)
  case (1 f i j)
  show ?case
  proof (cases "i < j")
    case False
    then show ?thesis using 1(3) by (subst (1 2 3 4) sort_Search.simps) auto
  next
    case True
    let ?h = "(i + j) div 2"
    have h: "i \<le> ?h" "?h < j" using True by auto
    show ?thesis
    proof (cases "f ?h")
      case False
      have eq: "sort_Search f i j = sort_Search f (?h + 1) j"
        using True False by (subst sort_Search.simps) (simp add: Let_def)
      have low: "\<not> f k" if "i \<le> k" "k \<le> ?h" for k using 1(4) [of k ?h] that h False by blast
      have mono: "f l" if "?h + 1 \<le> k" "k \<le> l" "l < j" "f k" for k l
        using 1(4) [of k l] that h by linarith
      have start: "?h + 1 \<le> j" using h by simp
      let ?s = "sort_Search f (?h + 1) j"
      have IH: "?h + 1 \<le> ?s \<and> ?s \<le> j \<and> (\<forall>k. ?h + 1 \<le> k \<and> k < ?s \<longrightarrow> \<not> f k) \<and> (\<forall>k. ?s \<le> k \<and> k < j \<longrightarrow> f k)"
        by (rule 1(1) [OF True refl False start]) (use mono in blast)
      have "\<not> f k" if "i \<le> k" "k < ?s" for k using low [of k] IH that by (cases "k \<le> ?h") auto
      with IH h show ?thesis unfolding eq by auto
    next
      case fh: True
      have eq: "sort_Search f i j = sort_Search f i ?h"
        using True fh by (subst sort_Search.simps) (simp add: Let_def)
      have high: "f k" if "?h \<le> k" "k < j" for k using 1(4) [of ?h k] that h fh by blast
      have IH: "i \<le> sort_Search f i ?h \<and> sort_Search f i ?h \<le> ?h \<and>
          (\<forall>k. i \<le> k \<and> k < sort_Search f i ?h \<longrightarrow> \<not> f k) \<and> (\<forall>k. sort_Search f i ?h \<le> k \<and> k < ?h \<longrightarrow> f k)"
        using 1(2) [OF True refl] fh h 1(4) by (meson less_trans)
      then show ?thesis unfolding eq using high h by (meson le_trans less_imp_le_nat linorder_not_le)
    qed
  qed
qed

definition config_ok :: "EqualityIndexConfig \<Rightarrow> bool" where
  "config_ok c \<longleftrightarrow> sorted_wrt (<) (map ia_Attribute (ic_Attributes c))"

text \<open>In a normalised configuration the binary search finds the one definition of a name.\<close>

lemma definition_lookup:
  assumes "config_ok c"
  shows "equalityIndexAttributeDefinition c a = find (\<lambda>d. ia_Attribute d = a) (ic_Attributes c)"
proof -
  let ?as = "ic_Attributes c"
  let ?r = "sort_Search (\<lambda>i. a \<le> ia_Attribute (?as ! i)) 0 (length ?as)"
  have mono: "ia_Attribute (?as ! k) < ia_Attribute (?as ! l)" if "k < l" "l < length ?as" for k l
    using assms that by (auto simp: config_ok_def sorted_wrt_iff_nth_less)
  have B: "?r \<le> length ?as" "\<And>k. k < ?r \<Longrightarrow> \<not> a \<le> ia_Attribute (?as ! k)"
    "\<And>k. ?r \<le> k \<Longrightarrow> k < length ?as \<Longrightarrow> a \<le> ia_Attribute (?as ! k)"
  proof -
    have up: "a \<le> ia_Attribute (?as ! l)" if "k \<le> l" "l < length ?as" "a \<le> ia_Attribute (?as ! k)" for k l
    proof (cases "k = l")
      case False
      then have "ia_Attribute (?as ! k) < ia_Attribute (?as ! l)" using mono that by simp
      with that(3) show ?thesis by (meson dual_order.trans order_less_imp_le)
    qed (use that in simp)
    have "0 \<le> ?r \<and> ?r \<le> length ?as \<and> (\<forall>k. 0 \<le> k \<and> k < ?r \<longrightarrow> \<not> a \<le> ia_Attribute (?as ! k)) \<and>
        (\<forall>k. ?r \<le> k \<and> k < length ?as \<longrightarrow> a \<le> ia_Attribute (?as ! k))"
      by (rule sort_Search_bounds) (use up in blast)+
    then show "?r \<le> length ?as" "\<And>k. k < ?r \<Longrightarrow> \<not> a \<le> ia_Attribute (?as ! k)"
      "\<And>k. ?r \<le> k \<Longrightarrow> k < length ?as \<Longrightarrow> a \<le> ia_Attribute (?as ! k)" by blast+
  qed
  show ?thesis
  proof (cases "?r < length ?as \<and> ia_Attribute (?as ! ?r) = a")
    case True
    then have "find (\<lambda>d. ia_Attribute d = a) ?as = Some (?as ! ?r)"
      unfolding find_Some_iff using B(2) by fastforce
    with True show ?thesis by (simp add: equalityIndexAttributeDefinition_def Let_def)
  next
    case False
    have "ia_Attribute (?as ! k) \<noteq> a" if "k < length ?as" for k
    proof (cases "k < ?r")
      case True
      then show ?thesis using B(2) by fastforce
    next
      case k: False
      then have "?r < length ?as" using that by simp
      with False have "ia_Attribute (?as ! ?r) \<noteq> a" by blast
      with B(3) [of ?r] \<open>?r < length ?as\<close> have "a < ia_Attribute (?as ! ?r)" by (simp add: order_less_le)
      also have "\<dots> \<le> ia_Attribute (?as ! k)" using mono [of ?r k] k that by (cases "k = ?r") (auto simp: less_imp_le)
      finally show ?thesis by blast
    qed
    then have "find (\<lambda>d. ia_Attribute d = a) ?as = None" by (auto simp: find_None_iff in_set_conv_nth)
    with False show ?thesis by (auto simp: equalityIndexAttributeDefinition_def Let_def not_le)
  qed
qed

lemma index_attribute_ok_iff:
  "index_attribute_ok a \<longleftrightarrow> ia_Attribute a \<noteq> [] \<and> (ia_Equality a \<longrightarrow> ia_EqualityRule a \<noteq> []) \<and>
     (ia_Approximate a \<longrightarrow> ia_ApproximateRule a \<noteq> []) \<and>
     (ia_SubstringInitial a \<or> ia_SubstringAny a \<or> ia_SubstringFinal a \<longrightarrow> ia_SubstringRule a \<noteq> []) \<and>
     (ia_Ordering a \<longrightarrow> ia_OrderingRule a \<noteq> []) \<and>
     (ia_Equality a \<or> ia_Presence a \<or> ia_Approximate a \<or> ia_SubstringInitial a \<or> ia_SubstringAny a \<or>
      ia_SubstringFinal a \<or> ia_Ordering a \<or> ia_NoTags a \<or> ia_NoSubtypes a)"
  unfolding index_attribute_ok_def Let_def by satx

lemma merge_attribute_ok:
  assumes "index_attribute_ok x" "index_attribute_ok a"
  shows "index_attribute_ok (merge_attribute x a)"
  using assms unfolding index_attribute_ok_iff merge_attribute_def
  by (intro conjI; simp) satx+

lemma collect_attributes_distinct:
  assumes "collect_attributes U by as = Ok out" "distinct (map ia_Attribute by)" "list_all index_attribute_ok by"
  shows "distinct (map ia_Attribute out) \<and> list_all index_attribute_ok out"
  using assms
proof (induction as arbitrary: "by")
  case (Cons a0 as)
  let ?a = "fold_names U a0"
  from Cons.prems(1) have ok: "index_attribute_ok ?a" by (auto simp: Let_def split: if_splits)
  show ?case
  proof (cases "find (\<lambda>x. ia_Attribute x = ia_Attribute ?a) by")
    case None
    then have new: "ia_Attribute ?a \<notin> ia_Attribute ` set by" by (auto simp: find_None_iff)
    have "collect_attributes U (by @ [?a]) as = Ok out" using Cons.prems(1) None ok by (simp add: Let_def)
    from Cons.IH [OF this] show ?thesis using Cons.prems(2,3) new ok by simp
  next
    case (Some x)
    then have x: "x \<in> set by" "ia_Attribute x = ia_Attribute ?a" by (auto simp: find_Some_iff)
    let ?m = "map (\<lambda>y. if ia_Attribute y = ia_Attribute ?a then merge_attribute x ?a else y) by"
    have names: "map ia_Attribute ?m = map ia_Attribute by" by (simp add: merge_attribute_def)
    have "index_attribute_ok x" using Cons.prems(3) x(1) by (simp add: list_all_iff)
    then have "index_attribute_ok (merge_attribute x ?a)" using ok by (rule merge_attribute_ok)
    then have all: "list_all index_attribute_ok ?m" using Cons.prems(3) by (auto simp: list_all_iff)
    have col: "collect_attributes U ?m as = Ok out" using Cons.prems(1) Some ok
      by (auto simp: Let_def split: if_splits)
    have "distinct (map ia_Attribute ?m)" unfolding names by (rule Cons.prems(2))
    from Cons.IH [OF col this all] show ?thesis .
  qed
qed simp

lemma normalized_config_ok:
  assumes "normalizeEqualityIndexConfig U c = Ok c'"
  shows "config_ok c' \<and> list_all index_attribute_ok (ic_Attributes c') \<and> ic_Version c' = equalityIndexFormatVersion"
proof -
  from assms obtain as where as: "collect_attributes U [] (ic_Attributes c) = Ok as"
    "c' = \<lparr>ic_Version = equalityIndexFormatVersion, ic_Attributes = sort_key ia_Attribute as\<rparr>"
    by (auto simp: normalizeEqualityIndexConfig_def Let_def split: if_splits)
  from collect_attributes_distinct [OF as(1)] have "distinct (map ia_Attribute as)" "list_all index_attribute_ok as" by simp_all
  moreover have "sorted (map ia_Attribute (sort_key ia_Attribute as))" by simp
  moreover have "distinct (map ia_Attribute (sort_key ia_Attribute as))"
    using calculation(1) by (metis distinct_map distinct_sort set_sort)
  ultimately show ?thesis
    by (simp add: as(2) config_ok_def strict_sorted_iff list_all_iff)
qed

section \<open>Keys\<close>

lemma order_preserving_code: "appendOrderPreservingValue d v = d @ concat (map (\<lambda>c. [CHR 0x01, c]) v) @ [CHR 0x00]"
proof -
  have "foldl (\<lambda>d octet. d @ [CHR 0x01, octet]) d v = d @ concat (map (\<lambda>c. [CHR 0x01, c]) v)" for d
    by (induction v arbitrary: d) auto
  then show ?thesis by (simp add: appendOrderPreservingValue_def)
qed

lemma read_ordering_code:
  "read_ordering_from (concat (map (\<lambda>c. [CHR 0x01, c]) v) @ CHR 0x00 # rest) result position =
     Ok (result @ v, position + 2 * length v + 1)"
  by (induction v arbitrary: result position) auto

lemma read_appended_ordering:
  "readOrderPreservingValue (appendOrderPreservingValue d v @ rest) (length d) =
     Ok (v, length (appendOrderPreservingValue d v))"
  by (simp add: readOrderPreservingValue_def order_preserving_code read_ordering_code)
    (induction v, auto)

lemma ordering_code_less:
  "concat (map (\<lambda>c. [CHR 0x01, c]) x) @ CHR 0x00 # r < concat (map (\<lambda>c. [CHR 0x01, c]) y) @ CHR 0x00 # s \<longleftrightarrow>
     x < y \<or> x = y \<and> r < s"
proof (induction x arbitrary: y)
  case Nil
  then show ?case by (cases y) (auto simp: less_char_def)
next
  case (Cons a x)
  then show ?case by (cases y) (auto simp: less_char_def)
qed

lemma PutUint32_value: "n < 2 ^ 32 \<Longrightarrow> big_endian_value (PutUint32 (of_nat n)) 0 = int n"
proof -
  assume n: "n < 2 ^ 32"
  then have "uint (of_nat n :: uint32) = int n" by (simp add: uint_nat unat_of_nat take_bit_eq_mod)
  with n show ?thesis by (simp add: PutUint32_def big_endian_roundtrip)
qed

lemma length_PutUint32 [simp]: "length (PutUint32 x) = 4"
  by (simp add: PutUint32_def)

lemma read_appended_prefixed:
  assumes "length v < 2 ^ 32"
  shows "readLengthPrefixed (appendLengthPrefixed d v @ rest) (length d) = Ok (v, length (appendLengthPrefixed d v))"
  using PutUint32_value [OF assms] by (simp add: readLengthPrefixed_def appendLengthPrefixed_def Let_def)

lemma length_token [simp]: "length (appendEqualityIndexToken d domain v 16) = length d + 16"
  by (simp add: appendEqualityIndexToken_def)

end
