(* ===== verification/Index_Planner.thy ===== *)
theory Index_Planner
  imports Search_Index
begin

text \<open>
  Correctness of the index planner. The locale \<open>index_provider\<close> states what the planner needs of
  a storage: the postings of a term contain every entry indexed under it. In it every plan is
  complete: an entry of which the filter is true is among the candidates. The schema adapter's
  part of the contract is \<open>names_configured\<close> and \<open>schema_agrees\<close>.
\<close>

section \<open>Terms cover what they index\<close>

lemma set_unique_from: "set (unique_from seen vs) = set vs - set seen"
  by (induction seen vs rule: unique_from.induct) auto

lemma set_uniqueIndexValues [simp]: "set (uniqueIndexValues vs) = set vs"
  by (simp add: uniqueIndexValues_def set_unique_from)

lemma set_unique_terms:
  "(kind, v) \<in> set (unique_terms seen ts) \<longleftrightarrow> (kind, v) \<in> set ts \<and> kind # v \<notin> set seen"
  by (induction seen ts rule: unique_terms.induct) auto

text \<open>Every gram of a value is indexed, unless the value is marked as having too many.\<close>

lemma gram_terms_cover:
  assumes "g \<notin> set seen" "length g = substringIndexNGramSize" "v = before @ g @ after"
  shows "(equalityIndexSubstringAny, g) \<in> set (gram_terms v seen) \<or>
    (equalityIndexSubstringOverflow, []) \<in> set (gram_terms v seen)"
  using assms
proof (induction v seen arbitrary: before rule: gram_terms.induct)
  case (1 seen)
  then show ?case by (simp add: substringIndexNGramSize_def)
next
  case (2 c rest seen)
  note prems = 2(3-5)
  have long: "\<not> length (c # rest) < substringIndexNGramSize" using prems by simp
  show ?case
  proof (cases before)
    case Nil
    then have "take substringIndexNGramSize (c # rest) = g" using prems by simp
    with prems(1) long show ?thesis by (auto simp: Let_def)
  next
    case (Cons b before')
    then have rest: "rest = before' @ g @ after" using prems(3) by simp
    let ?g = "take substringIndexNGramSize (c # rest)"
    show ?thesis
    proof (cases "?g \<in> set seen")
      case True
      from 2(1) [OF refl long True prems(1,2) rest] True long show ?thesis by (simp add: Let_def)
    next
      case False
      show ?thesis
      proof (cases "substringIndexMaxNGrams \<le> length seen \<or> g = ?g")
        case True
        then show ?thesis using False long by (auto simp: Let_def)
      next
        case other: False
        then have "g \<notin> set (?g # seen)" using prems(1) by auto
        from 2(2) [OF refl long False _ this prems(2) rest] other False long show ?thesis by (auto simp: Let_def)
      qed
    qed
  qed
qed

definition substring_occurs :: "Substring \<Rightarrow> bytes \<Rightarrow> bool" where
  "substring_occurs s w \<longleftrightarrow> (\<exists>rest. w = (case Initial s of None \<Rightarrow> [] | Some x \<Rightarrow> x) @ rest \<and>
     parts_occur (Any s) (case Final s of None \<Rightarrow> [] | Some x \<Rightarrow> x) rest)"

lemma parts_occur_member:
  "parts_occur ps final s \<Longrightarrow> p \<in> set ps \<Longrightarrow> \<exists>before after. s = before @ p @ after"
proof (induction ps arbitrary: s)
  case (Cons q ps)
  then obtain before after where s: "s = before @ q @ after" "parts_occur ps final after" by auto
  show ?case
  proof (cases "p = q")
    case False
    with Cons.prems(2) Cons.IH [OF s(2)] obtain b a where "after = b @ p @ a" by auto
    with s(1) have "s = (before @ q @ b) @ p @ a" by simp
    then show ?thesis by blast
  qed (use s in blast)
qed simp

lemma parts_occur_final: "parts_occur ps final s \<Longrightarrow> suffix final s"
proof (induction ps arbitrary: s)
  case (Cons p ps)
  then obtain before after where "s = before @ p @ after" "parts_occur ps final after" by auto
  with Cons.IH [of after] show ?case by (auto simp: suffix_def)
qed simp

lemma query_gram_occurs:
  assumes "g \<in> set (boundedQueryNGrams p)"
  shows "length g = substringIndexNGramSize \<and> (\<exists>before after. p = before @ g @ after)"
proof -
  let ?n = "length p - substringIndexNGramSize + 1"
  from assms have long: "substringIndexNGramSize \<le> length p" by (simp add: boundedQueryNGrams_def split: if_splits)
  from assms obtain index where i: "index < min ?n 8" "g = query_gram p ?n (min ?n 8) index"
  proof -
    have "set (boundedQueryNGrams p) = query_gram p ?n (min ?n 8) ` {0..<min ?n 8}"
      using long unfolding boundedQueryNGrams_def Let_def not_less [symmetric]
      by (simp only: set_unique_from set_map set_upt list.set Diff_empty if_False)
    with assms that show ?thesis by auto
  qed
  define position where "position = (if 1 < min ?n 8 then index * (?n - 1) div (min ?n 8 - 1) else 0)"
  have pos: "position \<le> ?n - 1"
  proof (cases "1 < min ?n 8")
    case True
    then have "index * (?n - 1) \<le> (min ?n 8 - 1) * (?n - 1)" using i(1) by (intro mult_right_mono) auto
    then have "index * (?n - 1) div (min ?n 8 - 1) \<le> (min ?n 8 - 1) * (?n - 1) div (min ?n 8 - 1)"
      by (rule div_le_mono)
    also have "\<dots> = ?n - 1" using True by (intro nonzero_mult_div_cancel_left) auto
    finally show ?thesis using True by (simp only: position_def if_True)
  qed (simp add: position_def)
  have g: "g = take substringIndexNGramSize (drop position p)"
    by (simp only: i(2) query_gram_def position_def Let_def)
  have fits: "position + substringIndexNGramSize \<le> length p" using pos long by simp
  then have "length g = substringIndexNGramSize" by (simp add: g)
  moreover have "p = take position p @ g @ drop (position + substringIndexNGramSize) p"
    by (metis add.commute append_take_drop_id drop_drop g)
  ultimately show ?thesis by blast
qed

text \<open>Every constraint that the planner derives is among the terms of a value that matches.\<close>

lemma anchor_length:
  assumes "x \<noteq> []" "length x \<le> length w"
  shows "min (length x) substringIndexAnchorMax \<in> set [1..<Suc (min (length w) substringIndexAnchorMax)]"
proof -
  have "1 \<le> min (length x) substringIndexAnchorMax"
    using assms(1) by (cases x) (simp_all add: substringIndexAnchorMax_def)
  moreover have "min (length x) substringIndexAnchorMax \<le> min (length w) substringIndexAnchorMax"
    using assms(2) by (rule min.mono) simp
  ultimately show ?thesis by (simp only: set_upt atLeastLessThan_iff less_Suc_eq_le)
qed

lemma constraint_covered:
  assumes occurs: "substring_occurs s w"
    and c: "c \<in> set (substringIndexFilterConstraints s initial any final)"
    and d: "initial \<longrightarrow> ia_SubstringInitial d" "any \<longrightarrow> ia_SubstringAny d" "final \<longrightarrow> ia_SubstringFinal d"
  shows "(sc_kind c, sc_value c) \<in> set (substringIndexValueTerms w d) \<or>
    sc_includeOverflow c \<and> (equalityIndexSubstringOverflow, []) \<in> set (substringIndexValueTerms w d)"
proof -
  from occurs obtain rest where w: "w = (case Initial s of None \<Rightarrow> [] | Some x \<Rightarrow> x) @ rest"
    and parts: "parts_occur (Any s) (case Final s of None \<Rightarrow> [] | Some x \<Rightarrow> x) rest"
    unfolding substring_occurs_def by blast
  let ?max = substringIndexAnchorMax
  from c consider
      (first) x where "Initial s = Some x" "initial" "x \<noteq> []" "sc_kind c = equalityIndexSubstringInitial"
        "sc_value c = take (min (length x) ?max) x"
    | (any) p g where "any" "p \<in> set (Any s)" "g \<in> set (boundedQueryNGrams p)"
        "sc_kind c = equalityIndexSubstringAny" "sc_value c = g" "sc_includeOverflow c"
    | (last) x where "Final s = Some x" "final" "x \<noteq> []" "sc_kind c = equalityIndexSubstringFinal"
        "sc_value c = drop (length x - min (length x) ?max) x"
    unfolding substringIndexFilterConstraints_def
    by (cases "Initial s"; cases "Final s") (auto split: if_splits)
  then show ?thesis
  proof cases
    case first
    let ?n = "min (length x) ?max"
    have "length x \<le> length w" using first(1) w by simp
    note n = anchor_length [OF first(3) this]
    have "sc_value c = take ?n w" using first(1,5) w by simp
    with n have "(sc_kind c, sc_value c) \<in> (\<lambda>n. (equalityIndexSubstringInitial, take n w)) `
        set [1..<Suc (min (length w) ?max)]" using first(4) by blast
    then show ?thesis using first(2) d unfolding substringIndexValueTerms_def Let_def
      by (simp del: upt.simps)
  next
    case last
    let ?n = "min (length x) ?max"
    have "suffix x w" using parts_occur_final [OF parts] last(1) w by (auto intro: suffix_order.trans suffix_appendI)
    then obtain u where u: "w = u @ x" by (auto simp: suffix_def)
    have "length x \<le> length w" using u by simp
    note n = anchor_length [OF last(3) this]
    have "sc_value c = drop (length w - ?n) w" using last(5) u by simp
    with n have "(sc_kind c, sc_value c) \<in> (\<lambda>n. (equalityIndexSubstringFinal, drop (length w - n) w)) `
        set [1..<Suc (min (length w) ?max)]" using last(4) by blast
    then show ?thesis using last(2) d unfolding substringIndexValueTerms_def Let_def
      by (simp del: upt.simps)
  next
    case any
    obtain b1 a1 where "rest = b1 @ p @ a1" using parts_occur_member [OF parts any(2)] by blast
    moreover obtain b2 a2 where "p = b2 @ g @ a2" "length g = substringIndexNGramSize"
      using query_gram_occurs [OF any(3)] by blast
    ultimately have wg: "w = ((case Initial s of None \<Rightarrow> [] | Some x \<Rightarrow> x) @ b1 @ b2) @ g @ (a2 @ a1)"
      and len: "length g = substringIndexNGramSize" using w by simp_all
    have "(equalityIndexSubstringAny, g) \<in> set (gram_terms w []) \<or>
        (equalityIndexSubstringOverflow, []) \<in> set (gram_terms w [])"
      using gram_terms_cover [OF _ len wg, of "[]"] by simp
    moreover have "\<not> length w < substringIndexNGramSize" using len wg by simp
    ultimately show ?thesis using any d unfolding substringIndexValueTerms_def Let_def
      by (auto simp del: upt.simps)
  qed
qed

section \<open>What an index is asked to provide\<close>

text \<open>
  The postings of an entry: a storage state knows an entry of a partition as indexed under a
  configuration when its terms exist and every one of them leads to the entry's reference, which
  is the text of its name.
\<close>

locale index_provider =
  fixes reader :: "'s \<Rightarrow> index_reader"
    and indexed :: "'s \<Rightarrow> bytes \<Rightarrow> EqualityIndexSchema \<Rightarrow> EqualityIndexConfig \<Rightarrow> Entry \<Rightarrow> bool"
  assumes indexed_terms: "indexed s db schema config e \<Longrightarrow>
      config_ok config \<and> (\<exists>terms. equalityIndexEntryTerms schema config e = Ok terms)"
    and postings_complete:
      "\<lbrakk>indexed s db schema config e; equalityIndexEntryTerms schema config e = Ok terms;
        equalityIndexAttributeDefinition config a = Some d; terms a = Some t;
        (kind, v) \<in> set (equalityIndexTermsForAttribute d t);
        equalityIndexPostings (reader s) db a kind v = Ok keys\<rbrakk> \<Longrightarrow> e_DN e \<in> set keys"
    and ordering_complete:
      "\<lbrakk>indexed s db schema config e; equalityIndexEntryTerms schema config e = Ok terms;
        equalityIndexAttributeDefinition config a = Some d; terms a = Some t;
        (equalityIndexOrdering, v) \<in> set (equalityIndexTermsForAttribute d t);
        if greaterOrEqual then assertion \<le> v else v \<le> assertion;
        equalityIndexOrderingPostings (reader s) db a assertion greaterOrEqual = Ok keys\<rbrakk> \<Longrightarrow> e_DN e \<in> set keys"

section \<open>What the schema is asked to provide\<close>

text \<open>
  The schema adapter names attributes that are configured for the kind of search it announces,
  and its normalised values agree with the matcher: a filter that is true of an entry is
  witnessed by an index value of the entry.
\<close>

definition names_configured :: "EqualityIndexSchema \<Rightarrow> EqualityIndexConfig \<Rightarrow> bool" where
  "names_configured schema config \<longleftrightarrow>
     (\<forall>desc a eq pres. ResolveEqualityIndexAttribute schema desc = Inr (a, eq, pres) \<longrightarrow>
        (eq \<or> pres \<longrightarrow> (\<exists>d. equalityIndexAttributeDefinition config a = Some d \<and>
           (eq \<longrightarrow> ia_Equality d) \<and> (pres \<longrightarrow> ia_Presence d)))) \<and>
     (\<forall>desc a i n f. ResolveSubstringIndexAttribute schema desc = Inr (a, i, n, f) \<longrightarrow>
        (i \<or> n \<or> f \<longrightarrow> (\<exists>d. equalityIndexAttributeDefinition config a = Some d \<and>
           (i \<longrightarrow> ia_SubstringInitial d) \<and> (n \<longrightarrow> ia_SubstringAny d) \<and> (f \<longrightarrow> ia_SubstringFinal d)))) \<and>
     (\<forall>desc a. ResolveOrderingIndexAttribute schema desc = Inr (a, True) \<longrightarrow>
        (\<exists>d. equalityIndexAttributeDefinition config a = Some d \<and> ia_Ordering d)) \<and>
     (\<forall>desc a approx fallback. ResolveApproximateIndexAttribute schema desc = Inr (a, approx, fallback) \<longrightarrow>
        (approx \<or> fallback \<longrightarrow> (\<exists>d. equalityIndexAttributeDefinition config a = Some d \<and>
           (fallback \<longrightarrow> ia_Equality d) \<and> (approx \<and> \<not> fallback \<longrightarrow> ia_Approximate d))))"

definition equality_values_agree :: "unicode \<Rightarrow> matcher \<Rightarrow> EqualityIndexSchema \<Rightarrow> Entry \<Rightarrow> bool" where
  "equality_values_agree U M schema e \<longleftrightarrow>
     (\<forall>f a pres n vs. ResolveEqualityIndexAttribute schema (filter_Attribute f) = Inr (a, True, pres) \<longrightarrow>
        NormalizeEqualityIndexAssertion schema (filter_Attribute f) (Assertion f) = Inr n \<longrightarrow>
        Kind f = FilterEquality \<longrightarrow> EvaluateWith U M e f = Ok FilterTrueResult \<longrightarrow>
        EqualityIndexValues schema e a = Inr vs \<longrightarrow> n \<in> set vs) \<and>
     (\<forall>f a eq vs. ResolveEqualityIndexAttribute schema (filter_Attribute f) = Inr (a, eq, True) \<longrightarrow>
        Kind f = FilterPresent \<longrightarrow> EvaluateWith U M e f = Ok FilterTrueResult \<longrightarrow>
        EqualityIndexValues schema e a = Inr vs \<longrightarrow> vs \<noteq> [])"

definition substring_values_agree :: "unicode \<Rightarrow> matcher \<Rightarrow> EqualityIndexSchema \<Rightarrow> Entry \<Rightarrow> bool" where
  "substring_values_agree U M schema e \<longleftrightarrow>
     (\<forall>f a i n fin s vs. ResolveSubstringIndexAttribute schema (filter_Attribute f) = Inr (a, i, n, fin) \<longrightarrow> i \<or> n \<or> fin \<longrightarrow>
        NormalizeSubstringIndexAssertion schema (filter_Attribute f) (filter_Substring f) = Inr s \<longrightarrow>
        Kind f = FilterSubstrings \<longrightarrow> EvaluateWith U M e f = Ok FilterTrueResult \<longrightarrow>
        SubstringIndexValues schema e a = Inr vs \<longrightarrow> (\<exists>w\<in>set vs. substring_occurs s w))"

definition ordering_values_agree :: "unicode \<Rightarrow> matcher \<Rightarrow> EqualityIndexSchema \<Rightarrow> Entry \<Rightarrow> bool" where
  "ordering_values_agree U M schema e \<longleftrightarrow>
     (\<forall>f a n vs. ResolveOrderingIndexAttribute schema (filter_Attribute f) = Inr (a, True) \<longrightarrow>
        NormalizeOrderingIndexAssertion schema (filter_Attribute f) (Assertion f) = Inr n \<longrightarrow>
        EvaluateWith U M e f = Ok FilterTrueResult \<longrightarrow> OrderingIndexValues schema e a = Inr vs \<longrightarrow>
        (Kind f = FilterGreaterOrEqual \<longrightarrow> (\<exists>w\<in>set vs. n \<le> w)) \<and>
        (Kind f = FilterLessOrEqual \<longrightarrow> (\<exists>w\<in>set vs. w \<le> n)))"

definition approximate_values_agree :: "unicode \<Rightarrow> matcher \<Rightarrow> EqualityIndexSchema \<Rightarrow> Entry \<Rightarrow> bool" where
  "approximate_values_agree U M schema e \<longleftrightarrow>
     (\<forall>f a approx n vs. ResolveApproximateIndexAttribute schema (filter_Attribute f) = Inr (a, approx, True) \<longrightarrow>
        NormalizeEqualityIndexAssertion schema (filter_Attribute f) (Assertion f) = Inr n \<longrightarrow>
        Kind f = FilterApprox \<longrightarrow> EvaluateWith U M e f = Ok FilterTrueResult \<longrightarrow>
        EqualityIndexValues schema e a = Inr vs \<longrightarrow> n \<in> set vs) \<and>
     (\<forall>f a ts vs. ResolveApproximateIndexAttribute schema (filter_Attribute f) = Inr (a, True, False) \<longrightarrow>
        ApproximateIndexAssertionTerms schema (filter_Attribute f) (Assertion f) = Inr (ts, True) \<longrightarrow>
        Kind f = FilterApprox \<longrightarrow> EvaluateWith U M e f = Ok FilterTrueResult \<longrightarrow>
        ApproximateIndexValues schema e a = Inr vs \<longrightarrow> ts \<noteq> [] \<and> set ts \<subseteq> set vs)"

definition schema_agrees :: "unicode \<Rightarrow> matcher \<Rightarrow> EqualityIndexSchema \<Rightarrow> Entry \<Rightarrow> bool" where
  "schema_agrees U M schema e \<longleftrightarrow> equality_values_agree U M schema e \<and> substring_values_agree U M schema e \<and>
     ordering_values_agree U M schema e \<and> approximate_values_agree U M schema e"

section \<open>The terms of an entry\<close>

lemma entry_terms_from_Ok:
  assumes "entry_terms_from schema e as init = Ok terms" "distinct (map ia_Attribute as)" "d \<in> set as"
  shows "\<exists>t. attribute_terms schema e d = Ok t \<and> terms (ia_Attribute d) = Some t"
  using assms
proof (induction as arbitrary: init)
  case (Cons a as)
  then obtain t where t: "attribute_terms schema e a = Ok t"
    "entry_terms_from schema e as (init(ia_Attribute a \<mapsto> t)) = Ok terms" by auto
  have keep: "entry_terms_from schema e bs m = Ok terms \<Longrightarrow> x \<notin> ia_Attribute ` set bs \<Longrightarrow> terms x = m x" for bs m x
    by (induction bs arbitrary: m) auto
  show ?case
  proof (cases "d = a")
    case True
    with keep [OF t(2), of "ia_Attribute a"] Cons.prems(2) t(1) show ?thesis by auto
  next
    case False
    with Cons.IH [OF t(2)] Cons.prems show ?thesis by simp
  qed
qed simp

lemma entry_terms_attribute:
  assumes "config_ok config" "equalityIndexEntryTerms schema config e = Ok terms"
    and "equalityIndexAttributeDefinition config a = Some d"
  shows "ia_Attribute d = a \<and> (\<exists>t. attribute_terms schema e d = Ok t \<and> terms a = Some t)"
proof -
  from assms(3) have d: "d \<in> set (ic_Attributes config)" "ia_Attribute d = a"
    unfolding definition_lookup [OF assms(1)] by (auto simp: find_Some_iff)
  have "distinct (map ia_Attribute (ic_Attributes config))"
    using assms(1) by (simp add: config_ok_def strict_sorted_iff)
  from entry_terms_from_Ok [OF assms(2) [unfolded equalityIndexEntryTerms_def] this d(1)] d(2)
  show ?thesis by blast
qed

lemma go_of_sum_Ok [simp]: "go_of_sum w s = Ok x \<longleftrightarrow> s = Inr x"
  by (cases s) auto

text \<open>What the terms of an attribute contain, kind by kind.\<close>

lemma attribute_terms_members:
  assumes "attribute_terms schema e d = Ok t"
  shows "ia_Equality d \<Longrightarrow> \<exists>vs. EqualityIndexValues schema e (ia_Attribute d) = Inr vs \<and>
      (\<forall>v\<in>set vs. (equalityIndexValue, v) \<in> set (equalityIndexTermsForAttribute d t))"
    and "ia_Presence d \<Longrightarrow> \<exists>vs. EqualityIndexValues schema e (ia_Attribute d) = Inr vs \<and>
      (vs \<noteq> [] \<longrightarrow> (equalityIndexPresence, []) \<in> set (equalityIndexTermsForAttribute d t))"
    and "ia_Approximate d \<Longrightarrow> \<exists>vs. ApproximateIndexValues schema e (ia_Attribute d) = Inr vs \<and>
      (\<forall>v\<in>set vs. (equalityIndexApproximate, v) \<in> set (equalityIndexTermsForAttribute d t))"
    and "ia_Ordering d \<Longrightarrow> \<exists>vs. OrderingIndexValues schema e (ia_Attribute d) = Inr vs \<and>
      (\<forall>v\<in>set vs. (equalityIndexOrdering, v) \<in> set (equalityIndexTermsForAttribute d t))"
    and "ia_SubstringInitial d \<or> ia_SubstringAny d \<or> ia_SubstringFinal d \<Longrightarrow>
      \<exists>vs. SubstringIndexValues schema e (ia_Attribute d) = Inr vs \<and>
      (\<forall>v\<in>set vs. set (substringIndexValueTerms v d) \<subseteq> set (equalityIndexTermsForAttribute d t))"
proof -
  show "\<exists>vs. EqualityIndexValues schema e (ia_Attribute d) = Inr vs \<and>
      (\<forall>v\<in>set vs. (equalityIndexValue, v) \<in> set (equalityIndexTermsForAttribute d t))" if "ia_Equality d"
    using assms that by (auto simp: attribute_terms_def equalityIndexTermsForAttribute_def Let_def)
  show "\<exists>vs. EqualityIndexValues schema e (ia_Attribute d) = Inr vs \<and>
      (vs \<noteq> [] \<longrightarrow> (equalityIndexPresence, []) \<in> set (equalityIndexTermsForAttribute d t))" if "ia_Presence d"
    using assms that by (auto simp: attribute_terms_def equalityIndexTermsForAttribute_def Let_def)
  show "\<exists>vs. ApproximateIndexValues schema e (ia_Attribute d) = Inr vs \<and>
      (\<forall>v\<in>set vs. (equalityIndexApproximate, v) \<in> set (equalityIndexTermsForAttribute d t))" if "ia_Approximate d"
    using assms that by (auto simp: attribute_terms_def equalityIndexTermsForAttribute_def Let_def)
  show "\<exists>vs. OrderingIndexValues schema e (ia_Attribute d) = Inr vs \<and>
      (\<forall>v\<in>set vs. (equalityIndexOrdering, v) \<in> set (equalityIndexTermsForAttribute d t))" if "ia_Ordering d"
    using assms that by (auto simp: attribute_terms_def equalityIndexTermsForAttribute_def Let_def)
  show "\<exists>vs. SubstringIndexValues schema e (ia_Attribute d) = Inr vs \<and>
      (\<forall>v\<in>set vs. set (substringIndexValueTerms v d) \<subseteq> set (equalityIndexTermsForAttribute d t))"
    if "ia_SubstringInitial d \<or> ia_SubstringAny d \<or> ia_SubstringFinal d"
  proof -
    from assms that obtain vs where vs: "SubstringIndexValues schema e (ia_Attribute d) = Inr vs"
      "at_substring t = uniqueIndexValues vs" by (auto simp: attribute_terms_def Let_def)
    have "set (substringIndexValueTerms v d) \<subseteq> set (equalityIndexTermsForAttribute d t)" if "v \<in> set vs" for v
    proof
      fix x assume x: "x \<in> set (substringIndexValueTerms v d)"
      obtain kind w where kw: "x = (kind, w)" by (cases x)
      have "x \<in> set (concat (map (\<lambda>v. substringIndexValueTerms v d) (at_substring t)))"
        using x vs(2) \<open>v \<in> set vs\<close> by auto
      then have "x \<in> set (unique_terms [] (concat (map (\<lambda>v. substringIndexValueTerms v d) (at_substring t))))"
        unfolding kw set_unique_terms by simp
      with \<open>ia_SubstringInitial d \<or> ia_SubstringAny d \<or> ia_SubstringFinal d\<close>
      show "x \<in> set (equalityIndexTermsForAttribute d t)" by (simp add: equalityIndexTermsForAttribute_def)
    qed
    with vs(1) show ?thesis by blast
  qed
qed

section \<open>Plans are complete\<close>

lemma intersect_terms_member:
  assumes "intersect_terms postings result ts = Ok (Some keys)"
    and "\<And>t ks. t \<in> set ts \<Longrightarrow> postings t = Ok ks \<Longrightarrow> x \<in> set ks"
    and "\<And>r. result = Some r \<Longrightarrow> x \<in> r"
  shows "x \<in> keys"
  using assms
proof (induction ts arbitrary: result)
  case (Cons t ts)
  then obtain ks where ks: "postings t = Ok ks"
    "intersect_terms postings (case result of None \<Rightarrow> Some (set ks) | Some r \<Rightarrow> Some (r \<inter> set ks)) ts = Ok (Some keys)"
    by auto
  have "x \<in> set ks" using Cons.prems(2) [OF _ ks(1)] by simp
  with Cons.prems show ?case by (intro Cons.IH [OF ks(2)]) (auto split: option.splits)
qed simp

lemma intersect_constraints_member:
  assumes "intersect_constraints R db attribute result cs = Ok (Some keys)"
    and "\<And>c ks. c \<in> set cs \<Longrightarrow> equalityIndexPostings R db attribute (sc_kind c) (sc_value c) = Ok ks \<Longrightarrow>
      x \<in> set ks \<or> sc_includeOverflow c \<and>
        (\<forall>os. equalityIndexPostings R db attribute equalityIndexSubstringOverflow [] = Ok os \<longrightarrow> x \<in> set os)"
    and "\<And>r. result = Some r \<Longrightarrow> x \<in> r"
  shows "x \<in> keys"
  using assms
proof (induction cs arbitrary: result)
  case (Cons c cs)
  then obtain ks os where ks: "equalityIndexPostings R db attribute (sc_kind c) (sc_value c) = Ok ks"
    "(if sc_includeOverflow c then equalityIndexPostings R db attribute equalityIndexSubstringOverflow [] else Ok []) = Ok os"
    "intersect_constraints R db attribute
      (case result of None \<Rightarrow> Some (set ks \<union> set os) | Some r \<Rightarrow> Some (r \<inter> (set ks \<union> set os))) cs = Ok (Some keys)"
    by (auto simp: Let_def)
  have "x \<in> set ks \<union> set os" using Cons.prems(2) [OF _ ks(1)] ks(2) by (auto split: if_splits)
  with Cons.prems show ?case by (intro Cons.IH [OF ks(3)]) (auto split: option.splits)
qed simp

text \<open>A true conjunction has only true parts, a true disjunction a true part.\<close>

lemma evaluate_and_true:
  "evaluate_and U M e r fs = Ok FilterTrueResult \<Longrightarrow>
     r = FilterTrueResult \<and> (\<forall>f\<in>set fs. EvaluateWith U M e f = Ok FilterTrueResult)"
proof (induction fs arbitrary: r)
  case (Cons f fs)
  from Cons.prems obtain c where c: "EvaluateWith U M e f = Ok c" "c \<noteq> FilterFalseResult"
    "evaluate_and U M e (if c = FilterUndefinedResult then FilterUndefinedResult else r) fs = Ok FilterTrueResult"
    by (auto split: if_splits)
  from Cons.IH [OF c(3)] have "c \<noteq> FilterUndefinedResult" "r = FilterTrueResult" by (auto split: if_splits)
  with c(1,2) Cons.IH [OF c(3)] show ?case by (cases c) auto
qed simp

lemma evaluate_or_true:
  "evaluate_or U M e r fs = Ok FilterTrueResult \<Longrightarrow> r \<noteq> FilterTrueResult \<Longrightarrow>
     \<exists>f\<in>set fs. EvaluateWith U M e f = Ok FilterTrueResult"
proof (induction fs arbitrary: r)
  case (Cons f fs)
  from Cons.prems(1) obtain c where c: "EvaluateWith U M e f = Ok c" by (auto split: if_splits)
  show ?case
  proof (cases "c = FilterTrueResult")
    case False
    with Cons c show ?thesis by (auto split: if_splits)
  qed (use c in auto)
qed simp

lemma equality_agreeD:
  assumes "equality_values_agree U M schema e" "EvaluateWith U M e f = Ok FilterTrueResult"
  shows "\<lbrakk>ResolveEqualityIndexAttribute schema (filter_Attribute f) = Inr (a, True, pres);
      NormalizeEqualityIndexAssertion schema (filter_Attribute f) (Assertion f) = Inr n;
      Kind f = FilterEquality; EqualityIndexValues schema e a = Inr vs\<rbrakk> \<Longrightarrow> n \<in> set vs"
    and "\<lbrakk>ResolveEqualityIndexAttribute schema (filter_Attribute f) = Inr (a, eq, True);
      Kind f = FilterPresent; EqualityIndexValues schema e a = Inr vs\<rbrakk> \<Longrightarrow> vs \<noteq> []"
  using assms unfolding equality_values_agree_def by blast+

context index_provider
begin

text \<open>One kind of term: an entry that is indexed under a term is among the postings of the term.\<close>

lemma term_posting:
  assumes "indexed s db schema config e" "equalityIndexAttributeDefinition config a = Some d"
    and "\<And>t. attribute_terms schema e d = Ok t \<Longrightarrow> ia_Attribute d = a \<Longrightarrow>
      (kind, v) \<in> set (equalityIndexTermsForAttribute d t)"
    and "equalityIndexPostings (reader s) db a kind v = Ok keys"
  shows "e_DN e \<in> set keys"
proof -
  from indexed_terms [OF assms(1)] obtain terms where ok: "config_ok config"
    "equalityIndexEntryTerms schema config e = Ok terms" by blast
  from entry_terms_attribute [OF ok assms(2)] obtain t where
    t: "ia_Attribute d = a" "attribute_terms schema e d = Ok t" "terms a = Some t" by blast
  show ?thesis using postings_complete [OF assms(1) ok(2) assms(2) t(3) assms(3) [OF t(2,1)] assms(4)] .
qed

lemma ordering_posting:
  assumes "indexed s db schema config e" "equalityIndexAttributeDefinition config a = Some d" "ia_Ordering d"
    and "\<And>vs. OrderingIndexValues schema e a = Inr vs \<Longrightarrow>
      \<exists>v\<in>set vs. if greaterOrEqual then assertion \<le> v else v \<le> assertion"
    and "equalityIndexOrderingPostings (reader s) db a assertion greaterOrEqual = Ok keys"
  shows "e_DN e \<in> set keys"
proof -
  from indexed_terms [OF assms(1)] obtain terms where ok: "config_ok config"
    "equalityIndexEntryTerms schema config e = Ok terms" by blast
  from entry_terms_attribute [OF ok assms(2)] obtain t where
    t: "ia_Attribute d = a" "attribute_terms schema e d = Ok t" "terms a = Some t" by blast
  from attribute_terms_members(4) [OF t(2) assms(3)] t(1) obtain vs where
    vs: "OrderingIndexValues schema e a = Inr vs"
      "\<forall>v\<in>set vs. (equalityIndexOrdering, v) \<in> set (equalityIndexTermsForAttribute d t)" by blast
  from assms(4) [OF vs(1)] obtain v where v: "v \<in> set vs"
    "if greaterOrEqual then assertion \<le> v else v \<le> assertion" by blast
  show ?thesis using ordering_complete [OF assms(1) ok(2) assms(2) t(3) _ v(2) assms(5)] vs(2) v(1) by blast
qed

lemma plan_equality_complete:
  assumes ix: "indexed s db schema config e" and d: "equalityIndexAttributeDefinition config a = Some d" "ia_Equality d"
    and agree: "\<And>n vs. NormalizeEqualityIndexAssertion schema desc v = Inr n \<Longrightarrow>
      EqualityIndexValues schema e a = Inr vs \<Longrightarrow> n \<in> set vs"
    and plan: "plan_equality (reader s) db schema desc a v = Ok (Some keys)"
  shows "e_DN e \<in> keys"
proof -
  from plan obtain n ks where n: "NormalizeEqualityIndexAssertion schema desc v = Inr n"
    "equalityIndexPostings (reader s) db a equalityIndexValue n = Ok ks" "keys = set ks"
    by (auto simp: plan_equality_def)
  have "e_DN e \<in> set ks"
  proof (rule term_posting [OF ix d(1) _ n(2)])
    fix t assume t: "attribute_terms schema e d = Ok t" "ia_Attribute d = a"
    from attribute_terms_members(1) [OF t(1) d(2)] t(2) obtain vs where
      vs: "EqualityIndexValues schema e a = Inr vs"
        "\<forall>v\<in>set vs. (equalityIndexValue, v) \<in> set (equalityIndexTermsForAttribute d t)" by blast
    with agree [OF n(1) vs(1)] show "(equalityIndexValue, n) \<in> set (equalityIndexTermsForAttribute d t)" by blast
  qed
  with n(3) show ?thesis by simp
qed

lemma plan_approx_complete:
  assumes ix: "indexed s db schema config e" and names: "names_configured schema config"
    and agree: "approximate_values_agree U M schema e"
    and f: "Kind f = FilterApprox" "filter_Attribute f = desc" "Assertion f = v"
    and true: "EvaluateWith U M e f = Ok FilterTrueResult"
    and plan: "plan_approx (reader s) db schema desc v = Ok (Some keys)"
  shows "e_DN e \<in> keys"
proof -
  from plan obtain a approx fallback where
    a: "ResolveApproximateIndexAttribute schema desc = Inr (a, approx, fallback)" "approx \<or> fallback"
    by (auto simp: plan_approx_def split: if_splits)
  with names obtain d where d: "equalityIndexAttributeDefinition config a = Some d"
    "fallback \<Longrightarrow> ia_Equality d" "approx \<Longrightarrow> \<not> fallback \<Longrightarrow> ia_Approximate d"
    unfolding names_configured_def by blast
  show ?thesis
  proof (cases fallback)
    case True
    have "plan_equality (reader s) db schema desc a v = Ok (Some keys)"
      using plan a True by (auto simp: plan_approx_def)
    moreover have "n \<in> set vs" if "NormalizeEqualityIndexAssertion schema desc v = Inr n"
      "EqualityIndexValues schema e a = Inr vs" for n vs
      using agree a(1) [unfolded eqTrueI [OF True]] f true that unfolding approximate_values_agree_def by blast
    ultimately show ?thesis using plan_equality_complete [OF ix d(1) d(2) [OF True]] by blast
  next
    case False
    with a(2) have approx by simp
    from plan a False obtain ts where ts: "ApproximateIndexAssertionTerms schema desc v = Inr (ts, True)"
      "if ts = [] then keys = {} else intersect_terms
        (equalityIndexPostings (reader s) db a equalityIndexApproximate) None (uniqueIndexValues ts) = Ok (Some keys)"
      by (auto simp: plan_approx_def split: if_splits)
    have sub: "ts \<noteq> [] \<and> set ts \<subseteq> set vs" if "ApproximateIndexValues schema e a = Inr vs" for vs
    proof -
      have "ResolveApproximateIndexAttribute schema desc = Inr (a, True, False)" using a(1) \<open>approx\<close> False by simp
      with agree f true ts(1) that show ?thesis unfolding approximate_values_agree_def by blast
    qed
    have terms: "ts \<noteq> [] \<and> (\<forall>x\<in>set ts. (equalityIndexApproximate, x) \<in> set (equalityIndexTermsForAttribute d t))"
      if t: "attribute_terms schema e d = Ok t" "ia_Attribute d = a" for t
    proof -
      from attribute_terms_members(3) [OF t(1) d(3)] \<open>approx\<close> False t(2) obtain vs where
        "ApproximateIndexValues schema e a = Inr vs"
        "\<forall>v\<in>set vs. (equalityIndexApproximate, v) \<in> set (equalityIndexTermsForAttribute d t)" by blast
      with sub show ?thesis by blast
    qed
    have "ts \<noteq> []"
    proof -
      from indexed_terms [OF ix] obtain terms where ok: "config_ok config"
        "equalityIndexEntryTerms schema config e = Ok terms" by blast
      from entry_terms_attribute [OF ok d(1)] terms show ?thesis by blast
    qed
    with ts(2) have "intersect_terms (equalityIndexPostings (reader s) db a equalityIndexApproximate) None
      (uniqueIndexValues ts) = Ok (Some keys)" by simp
    then show ?thesis
    proof (rule intersect_terms_member)
      fix t ks assume t: "t \<in> set (uniqueIndexValues ts)"
        "equalityIndexPostings (reader s) db a equalityIndexApproximate t = Ok ks"
      then have "t \<in> set ts" by simp
      with terms show "e_DN e \<in> set ks" by (intro term_posting [OF ix d(1) _ t(2)]) blast
    qed simp
  qed
qed

lemma plan_substrings_complete:
  assumes ix: "indexed s db schema config e" and names: "names_configured schema config"
    and agree: "substring_values_agree U M schema e"
    and f: "Kind f = FilterSubstrings" "filter_Attribute f = desc" "filter_Substring f = sub"
    and true: "EvaluateWith U M e f = Ok FilterTrueResult"
    and plan: "plan_substrings (reader s) db schema desc sub = Ok (Some keys)"
  shows "e_DN e \<in> keys"
proof -
  from plan obtain a i n fin s' where
    a: "ResolveSubstringIndexAttribute schema desc = Inr (a, i, n, fin)" "i \<or> n \<or> fin"
      "NormalizeSubstringIndexAssertion schema desc sub = Inr s'"
      "intersect_constraints (reader s) db a None (substringIndexFilterConstraints s' i n fin) = Ok (Some keys)"
    by (auto simp: plan_substrings_def Let_def split: if_splits)
  with names obtain d where d: "equalityIndexAttributeDefinition config a = Some d"
    "i \<longrightarrow> ia_SubstringInitial d" "n \<longrightarrow> ia_SubstringAny d" "fin \<longrightarrow> ia_SubstringFinal d"
    unfolding names_configured_def by blast
  have some: "ia_SubstringInitial d \<or> ia_SubstringAny d \<or> ia_SubstringFinal d" using a(2) d by blast
  have covered: "(sc_kind c, sc_value c) \<in> set (equalityIndexTermsForAttribute d t) \<or>
      sc_includeOverflow c \<and> (equalityIndexSubstringOverflow, []) \<in> set (equalityIndexTermsForAttribute d t)"
    if t: "attribute_terms schema e d = Ok t" "ia_Attribute d = a"
      and c: "c \<in> set (substringIndexFilterConstraints s' i n fin)" for t c
  proof -
    from attribute_terms_members(5) [OF t(1) some] t(2) obtain vs where
      vs: "SubstringIndexValues schema e a = Inr vs"
        "\<forall>v\<in>set vs. set (substringIndexValueTerms v d) \<subseteq> set (equalityIndexTermsForAttribute d t)" by blast
    with agree a(1,2,3) f true obtain w where w: "w \<in> set vs" "substring_occurs s' w"
      unfolding substring_values_agree_def by blast
    from constraint_covered [OF w(2) c d(2-4)] vs(2) w(1) show ?thesis by blast
  qed
  from a(4) show ?thesis
  proof (rule intersect_constraints_member)
    fix c ks assume c: "c \<in> set (substringIndexFilterConstraints s' i n fin)"
      "equalityIndexPostings (reader s) db a (sc_kind c) (sc_value c) = Ok ks"
    from indexed_terms [OF ix] obtain terms where ok: "config_ok config"
      "equalityIndexEntryTerms schema config e = Ok terms" by blast
    from entry_terms_attribute [OF ok d(1)] obtain t where
      t: "ia_Attribute d = a" "attribute_terms schema e d = Ok t" "terms a = Some t" by blast
    from covered [OF t(2,1) c(1)] show "e_DN e \<in> set ks \<or> sc_includeOverflow c \<and>
        (\<forall>os. equalityIndexPostings (reader s) db a equalityIndexSubstringOverflow [] = Ok os \<longrightarrow> e_DN e \<in> set os)"
      using postings_complete [OF ix ok(2) d(1) t(3)] c(2) by blast
  qed simp
qed

lemma plan_ordering_complete:
  assumes ix: "indexed s db schema config e" and names: "names_configured schema config"
    and agree: "ordering_values_agree U M schema e"
    and f: "Kind f = (if ge then FilterGreaterOrEqual else FilterLessOrEqual)" "filter_Attribute f = desc" "Assertion f = v"
    and true: "EvaluateWith U M e f = Ok FilterTrueResult"
    and plan: "plan_ordering (reader s) db schema desc v ge = Ok (Some keys)"
  shows "e_DN e \<in> keys"
proof -
  from plan obtain a n ks where a: "ResolveOrderingIndexAttribute schema desc = Inr (a, True)"
      "NormalizeOrderingIndexAssertion schema desc v = Inr n"
      "equalityIndexOrderingPostings (reader s) db a n ge = Ok ks" "keys = set ks"
    by (auto simp: plan_ordering_def split: if_splits)
  with names obtain d where d: "equalityIndexAttributeDefinition config a = Some d" "ia_Ordering d"
    unfolding names_configured_def by blast
  have "\<exists>w\<in>set vs. if ge then n \<le> w else w \<le> n" if "OrderingIndexValues schema e a = Inr vs" for vs
  proof (cases ge)
    case True
    then show ?thesis using agree a(1,2) f true that unfolding ordering_values_agree_def by auto
  next
    case False
    then show ?thesis using agree a(1,2) f true that unfolding ordering_values_agree_def by auto
  qed
  from ordering_posting [OF ix d this a(3)] a(4) show ?thesis by simp
qed

text \<open>Every entry of which a filter is true is among the candidates of its plan.\<close>

lemma plan_complete:
  assumes ix: "indexed s db schema config e" and names: "names_configured schema config"
    and agree: "schema_agrees U M schema e"
  shows "planEqualityIndexFilter (reader s) db schema f = Ok (Some keys) \<Longrightarrow>
      EvaluateWith U M e f = Ok FilterTrueResult \<Longrightarrow> e_DN e \<in> keys"
    and "plan_and (reader s) db schema result fs = Ok (Some keys) \<Longrightarrow>
      (\<forall>f\<in>set fs. EvaluateWith U M e f = Ok FilterTrueResult) \<Longrightarrow>
      (\<And>r. result = Some r \<Longrightarrow> e_DN e \<in> r) \<Longrightarrow> e_DN e \<in> keys"
    and "plan_or (reader s) db schema acc fs = Ok (Some keys) \<Longrightarrow>
      (\<exists>f\<in>set fs. EvaluateWith U M e f = Ok FilterTrueResult) \<or> e_DN e \<in> acc \<Longrightarrow> e_DN e \<in> keys"
  using ix names agree
proof (induction "reader s" db schema f and "reader s" db schema result fs and "reader s" db schema acc fs
    arbitrary: keys and keys and keys rule: planEqualityIndexFilter_plan_and_plan_or.induct)
  case (1 db schema kind children attribute assertion substring rule dnAttributes)
  let ?f = "Filter kind children attribute assertion substring rule dnAttributes"
  note plan = 1(3) and true = 1(4) and ix = 1(5) and names = 1(6) and agree = 1(7)
  from agree have agree: "equality_values_agree U M schema e" "substring_values_agree U M schema e"
    "ordering_values_agree U M schema e" "approximate_values_agree U M schema e"
    unfolding schema_agrees_def by blast+
  show ?case
  proof (cases kind)
    case FilterAnd
    have "\<forall>f\<in>set children. EvaluateWith U M e f = Ok FilterTrueResult"
      using true evaluate_and_true [of U M e FilterTrueResult children] by (simp add: FilterAnd)
    then show ?thesis using 1(1) [OF FilterAnd _ _ _ ix names 1(7)] plan by (simp add: FilterAnd)
  next
    case FilterOr
    have "\<exists>f\<in>set children. EvaluateWith U M e f = Ok FilterTrueResult"
      using true evaluate_or_true [of U M e FilterFalseResult children] by (simp add: FilterOr)
    then show ?thesis using 1(2) [OF FilterOr _ _ ix names 1(7)] plan by (simp add: FilterOr)
  next
    case FilterEquality
    from plan obtain a pres where a: "ResolveEqualityIndexAttribute schema attribute = Inr (a, True, pres)"
      "plan_equality (reader s) db schema attribute a assertion = Ok (Some keys)"
      by (auto simp: FilterEquality split: if_splits)
    with names obtain d where d: "equalityIndexAttributeDefinition config a = Some d" "ia_Equality d"
      unfolding names_configured_def by blast
    have "n \<in> set vs" if "NormalizeEqualityIndexAssertion schema attribute assertion = Inr n"
      "EqualityIndexValues schema e a = Inr vs" for n vs
      using equality_agreeD(1) [OF agree(1) true, of a pres n vs] a(1) that FilterEquality by simp
    from plan_equality_complete [OF ix d this a(2)] show ?thesis .
  next
    case FilterPresent
    from plan obtain a eq ks where a: "ResolveEqualityIndexAttribute schema attribute = Inr (a, eq, True)"
      "equalityIndexPostings (reader s) db a equalityIndexPresence [] = Ok ks" "keys = set ks"
      by (auto simp: FilterPresent split: if_splits)
    with names obtain d where d: "equalityIndexAttributeDefinition config a = Some d" "ia_Presence d"
      unfolding names_configured_def by blast
    have ne: "vs \<noteq> []" if "EqualityIndexValues schema e a = Inr vs" for vs
      using equality_agreeD(2) [OF agree(1) true, of a eq vs] a(1) that FilterPresent by simp
    have "e_DN e \<in> set ks"
    proof (rule term_posting [OF ix d(1) _ a(2)])
      fix t assume "attribute_terms schema e d = Ok t" "ia_Attribute d = a"
      then show "(equalityIndexPresence, []) \<in> set (equalityIndexTermsForAttribute d t)"
        using attribute_terms_members(2) [OF _ d(2)] ne by blast
    qed
    with a(3) show ?thesis by simp
  next
    case FilterApprox
    with plan have "plan_approx (reader s) db schema attribute assertion = Ok (Some keys)" by simp
    then show ?thesis using plan_approx_complete [OF ix names agree(4) _ _ _ true] FilterApprox by simp
  next
    case FilterSubstrings
    with plan have "plan_substrings (reader s) db schema attribute substring = Ok (Some keys)" by simp
    then show ?thesis using plan_substrings_complete [OF ix names agree(2) _ _ _ true] FilterSubstrings by simp
  next
    case FilterGreaterOrEqual
    with plan have "plan_ordering (reader s) db schema attribute assertion True = Ok (Some keys)" by simp
    then show ?thesis using plan_ordering_complete [OF ix names agree(3) _ _ _ true, where ge = True]
      FilterGreaterOrEqual by simp
  next
    case FilterLessOrEqual
    with plan have "plan_ordering (reader s) db schema attribute assertion False = Ok (Some keys)" by simp
    then show ?thesis using plan_ordering_complete [OF ix names agree(3) _ _ _ true, where ge = False]
      FilterLessOrEqual by simp
  qed (use plan in simp_all)
next
  case (2 db schema result)
  then show ?case by simp
next
  case (3 db schema result f fs)
  from 3(3) obtain child where child: "planEqualityIndexFilter (reader s) db schema f = Ok child"
    "plan_and (reader s) db schema (case child of None \<Rightarrow> result
      | Some keys \<Rightarrow> (case result of None \<Rightarrow> Some keys | Some r \<Rightarrow> Some (r \<inter> keys))) fs = Ok (Some keys)"
    by auto
  have "e_DN e \<in> ks" if "child = Some ks" for ks
    using 3(1) [OF _ _ 3(6-8)] child(1) that 3(4) by auto
  with 3(5) show ?case
    by (intro 3(2) [OF child(2) _ _ 3(6-8)]) (use 3(4) in \<open>auto split: option.splits\<close>)
next
  case (4 db schema acc)
  then show ?case by simp
next
  case (5 db schema acc f fs)
  from 5(3) obtain ks where child: "planEqualityIndexFilter (reader s) db schema f = Ok (Some ks)"
    "plan_or (reader s) db schema (acc \<union> ks) fs = Ok (Some keys)"
    by (auto split: option.splits)
  have "EvaluateWith U M e f = Ok FilterTrueResult \<Longrightarrow> e_DN e \<in> ks"
    using 5(1) [OF child(1) _ 5(5-7)] .
  with 5(4) show ?case by (intro 5(2) [OF child(2) _ 5(5-7)]) auto
qed

end

section \<open>Entries with the same terms\<close>

text \<open>A missing attribute of the Go map reads as the zero value.\<close>

definition terms_of :: "(bytes \<rightharpoonup> equalityIndexAttributeTerms) \<Rightarrow> bytes \<Rightarrow> equalityIndexAttributeTerms" where
  "terms_of terms attribute =
     (case terms attribute of Some t \<Rightarrow> t
      | None \<Rightarrow> \<lparr>at_present = False, at_equality = [], at_approximate = [], at_substring = [], at_ordering = []\<rparr>)"

definition same_attribute_terms ::
  "(bytes \<rightharpoonup> equalityIndexAttributeTerms) \<Rightarrow> (bytes \<rightharpoonup> equalityIndexAttributeTerms) \<Rightarrow> EqualityIndexAttribute \<Rightarrow> bool" where
  "same_attribute_terms leftTerms rightTerms d \<longleftrightarrow>
     (let leftSet = remdups (map (\<lambda>(kind, v). kind # v) (equalityIndexTermsForAttribute d (terms_of leftTerms (ia_Attribute d))));
          rightValues = equalityIndexTermsForAttribute d (terms_of rightTerms (ia_Attribute d))
      in length leftSet = length rightValues \<and> list_all (\<lambda>(kind, v). kind # v \<in> set leftSet) rightValues)"

definition equalityIndexEntriesHaveSameTerms ::
  "EqualityIndexSchema \<Rightarrow> EqualityIndexConfig \<Rightarrow> Entry \<Rightarrow> Entry \<Rightarrow> (index_error, bool) go" where
  "equalityIndexEntriesHaveSameTerms schema config left right =
     go_bind (equalityIndexEntryTerms schema config left) (\<lambda>leftTerms.
     go_bind (equalityIndexEntryTerms schema config right) (\<lambda>rightTerms.
       Ok (list_all (same_attribute_terms leftTerms rightTerms) (ic_Attributes config))))"

lemma distinct_unique_from: "distinct (unique_from seen vs)"
  by (induction seen vs rule: unique_from.induct) (auto simp: set_unique_from)

lemma distinct_unique_terms: "distinct (unique_terms seen ts)"
proof (induction seen ts rule: unique_terms.induct)
  case (2 seen kind v ts)
  then show ?case by (simp add: set_unique_terms)
qed simp

lemma fst_gram_terms: "x \<in> set (gram_terms v seen) \<Longrightarrow>
  fst x = equalityIndexSubstringAny \<or> fst x = equalityIndexSubstringOverflow"
  by (induction v seen rule: gram_terms.induct) (auto simp: Let_def split: if_splits)

lemma fst_substring_terms: "x \<in> set (substringIndexValueTerms v d) \<Longrightarrow>
  fst x \<in> {equalityIndexSubstringInitial, equalityIndexSubstringFinal, equalityIndexSubstringAny, equalityIndexSubstringOverflow}"
  unfolding substringIndexValueTerms_def Let_def
  by (auto simp del: upt.simps split: if_splits dest: fst_gram_terms)

lemma distinct_terms:
  assumes "attribute_terms schema e d = Ok t"
  shows "distinct (equalityIndexTermsForAttribute d' t)"
proof -
  from assms have u: "distinct (at_equality t)" "distinct (at_approximate t)" "distinct (at_ordering t)"
    by (auto simp: attribute_terms_def Let_def uniqueIndexValues_def distinct_unique_from)
  let ?s = "if ia_SubstringInitial d' \<or> ia_SubstringAny d' \<or> ia_SubstringFinal d'
      then unique_terms [] (concat (map (\<lambda>v. substringIndexValueTerms v d') (at_substring t))) else []"
  have s: "distinct ?s" by (simp add: distinct_unique_terms)
  have k: "fst x \<in> {equalityIndexSubstringInitial, equalityIndexSubstringFinal, equalityIndexSubstringAny,
      equalityIndexSubstringOverflow}" if "x \<in> set ?s" for x
  proof -
    obtain kind v where x: "x = (kind, v)" by (cases x)
    from that have "x \<in> set (concat (map (\<lambda>v. substringIndexValueTerms v d') (at_substring t)))"
      unfolding x by (simp add: set_unique_terms split: if_splits)
    then obtain v' where "x \<in> set (substringIndexValueTerms v' d')" by auto
    then show ?thesis by (rule fst_substring_terms)
  qed
  have kinds: "(equalityIndexPresence, v) \<notin> set ?s" "(equalityIndexValue, v) \<notin> set ?s"
    "(equalityIndexApproximate, v) \<notin> set ?s" "(equalityIndexOrdering, v) \<notin> set ?s" for v
    using k [of "(equalityIndexPresence, v)"] k [of "(equalityIndexValue, v)"]
      k [of "(equalityIndexApproximate, v)"] k [of "(equalityIndexOrdering, v)"]
    by (auto simp only: index_kinds fst_conv insert_iff empty_iff char.inject)
  show ?thesis unfolding equalityIndexTermsForAttribute_def
    using u s kinds by (auto simp: distinct_map inj_on_def index_kinds simp del: if_splits)
qed

lemma same_attribute_terms_iff:
  assumes "distinct (equalityIndexTermsForAttribute d (terms_of rightTerms (ia_Attribute d)))"
    and "distinct (equalityIndexTermsForAttribute d (terms_of leftTerms (ia_Attribute d)))"
  shows "same_attribute_terms leftTerms rightTerms d \<longleftrightarrow>
    set (equalityIndexTermsForAttribute d (terms_of leftTerms (ia_Attribute d))) =
    set (equalityIndexTermsForAttribute d (terms_of rightTerms (ia_Attribute d)))" (is "_ \<longleftrightarrow> set ?l = set ?r")
proof -
  let ?key = "\<lambda>(kind, v). kind # (v :: bytes)"
  have inj: "inj ?key" by (auto simp: inj_def)
  have "distinct (map ?key ?l)" using assms(2) inj_on_subset [OF inj subset_UNIV]
    unfolding distinct_map by blast
  then have dups: "remdups (map ?key ?l) = map ?key ?l" by (rule distinct_remdups_id)
  have mem: "?key x \<in> ?key ` set ?l \<longleftrightarrow> x \<in> set ?l" for x using inj by (auto simp: inj_image_mem_iff)
  have "same_attribute_terms leftTerms rightTerms d \<longleftrightarrow> length ?l = length ?r \<and> set ?r \<subseteq> set ?l"
    unfolding same_attribute_terms_def Let_def dups
    using mem by (auto simp: list_all_iff split_beta)
  also have "\<dots> \<longleftrightarrow> set ?l = set ?r"
    using assms by (metis card_subset_eq distinct_card finite_set subset_refl)
  finally show ?thesis .
qed

section \<open>Normalising twice\<close>

lemma collect_distinct_list:
  assumes "distinct (map ia_Attribute (by @ as))" "list_all (\<lambda>a. fold_names U a = a \<and> index_attribute_ok a) as"
  shows "collect_attributes U by as = Ok (by @ as)"
  using assms
proof (induction as arbitrary: "by")
  case (Cons a as)
  then have "ia_Attribute a \<notin> ia_Attribute ` set by" by simp
  then have "find (\<lambda>x. ia_Attribute x = ia_Attribute a) by = None"
    unfolding find_None_iff by (metis imageI)
  with Cons.IH [of "by @ [a]"] Cons.prems show ?case by (simp add: Let_def)
qed simp

lemma fold_names_iff:
  "fold_names U a = a \<longleftrightarrow> ToLower U (TrimSpace (ia_Attribute a)) = ia_Attribute a \<and>
     ToLower U (TrimSpace (ia_EqualityRule a)) = ia_EqualityRule a \<and>
     ToLower U (TrimSpace (ia_ApproximateRule a)) = ia_ApproximateRule a \<and>
     ToLower U (TrimSpace (ia_SubstringRule a)) = ia_SubstringRule a \<and>
     ToLower U (TrimSpace (ia_OrderingRule a)) = ia_OrderingRule a"
  by (cases a) (simp add: fold_names_def)

lemma fold_names_merge:
  assumes "fold_names U x = x" "fold_names U a = a"
  shows "fold_names U (merge_attribute x a) = merge_attribute x a"
  using assms unfolding fold_names_iff by (simp add: merge_attribute_def)

lemma collect_attributes_folded:
  assumes "collect_attributes U by as = Ok out" "list_all (\<lambda>a. fold_names U a = a) by"
    and "\<forall>a\<in>set as. fold_names U (fold_names U a) = fold_names U a"
  shows "list_all (\<lambda>a. fold_names U a = a) out"
  using assms
proof (induction as arbitrary: "by")
  case (Cons a0 as)
  let ?a = "fold_names U a0"
  have a: "fold_names U ?a = ?a" using Cons.prems(3) by simp
  from Cons.prems(1) have ok: "index_attribute_ok ?a" by (auto simp: Let_def split: if_splits)
  show ?case
  proof (cases "find (\<lambda>x. ia_Attribute x = ia_Attribute ?a) by")
    case None
    then have "collect_attributes U (by @ [?a]) as = Ok out" using Cons.prems(1) ok by (simp add: Let_def)
    from Cons.IH [OF this] Cons.prems(2,3) a show ?thesis by simp
  next
    case (Some x)
    then have "x \<in> set by" by (auto simp: find_Some_iff)
    with Cons.prems(2) have x: "fold_names U x = x" by (simp add: list_all_iff)
    let ?m = "map (\<lambda>y. if ia_Attribute y = ia_Attribute ?a then merge_attribute x ?a else y) by"
    have col: "collect_attributes U ?m as = Ok out" using Cons.prems(1) Some ok
      by (auto simp: Let_def split: if_splits)
    have "list_all (\<lambda>a. fold_names U a = a) ?m"
      using Cons.prems(2) fold_names_merge [OF x a] by (auto simp: list_all_iff)
    from Cons.IH [OF col this] Cons.prems(3) show ?thesis by simp
  qed
qed simp

section \<open>A schema without matching rules\<close>

text \<open>
  The instance used by the witnesses: values are normalised as the schema-free matcher compares
  them, and attributes are indexed for equality and presence.
\<close>

definition sample_index_attribute :: "bytes \<Rightarrow> EqualityIndexAttribute" where
  "sample_index_attribute a = \<lparr>ia_Attribute = a, ia_EqualityRule = ''eq'', ia_ApproximateRule = [],
     ia_SubstringRule = [], ia_OrderingRule = [], ia_Equality = True, ia_Presence = True, ia_Approximate = False,
     ia_SubstringInitial = False, ia_SubstringAny = False, ia_SubstringFinal = False, ia_Ordering = False,
     ia_NoTags = False, ia_NoSubtypes = False\<rparr>"

definition sample_index_config :: "bytes list \<Rightarrow> EqualityIndexConfig" where
  "sample_index_config as = \<lparr>ic_Version = 4, ic_Attributes = map sample_index_attribute as\<rparr>"

definition sample_index_schema :: "unicode \<Rightarrow> bytes list \<Rightarrow> EqualityIndexSchema" where
  "sample_index_schema U as =
     \<lparr>EqualityIndexConfiguration = sample_index_config as,
      ResolveEqualityIndexAttribute = (\<lambda>d. Inr (d, d \<in> set as, d \<in> set as)),
      NormalizeEqualityIndexAssertion = (\<lambda>_ v. Inr (normalizeDirectoryValue U v)),
      EqualityIndexValues = (\<lambda>e a. Inr (map (normalizeDirectoryValue U) (entry_Values U e a))),
      ResolveSubstringIndexAttribute = (\<lambda>d. Inr (d, False, False, False)),
      NormalizeSubstringIndexAssertion = (\<lambda>_ s. Inr s), SubstringIndexValues = (\<lambda>_ _. Inr []),
      ResolveOrderingIndexAttribute = (\<lambda>d. Inr (d, False)),
      NormalizeOrderingIndexAssertion = (\<lambda>_ v. Inr v), OrderingIndexValues = (\<lambda>_ _. Inr []),
      ResolveApproximateIndexAttribute = (\<lambda>d. Inr (d, False, False)),
      ApproximateIndexAssertionTerms = (\<lambda>_ _. Inr ([], False)), ApproximateIndexValues = (\<lambda>_ _. Inr [])\<rparr>"

lemma sample_names_configured:
  assumes "config_ok (sample_index_config as)"
  shows "names_configured (sample_index_schema U as) (sample_index_config as)"
proof -
  have "\<exists>d. find (\<lambda>d. ia_Attribute d = a) (map sample_index_attribute as) = Some d \<and> ia_Equality d \<and> ia_Presence d"
    if "a \<in> set as" for a
    using that by (induction as) (auto simp: sample_index_attribute_def)
  then show ?thesis unfolding names_configured_def definition_lookup [OF assms]
    by (auto simp: sample_index_schema_def sample_index_config_def)
qed

lemma sample_schema_agrees:
  assumes "\<forall>a\<in>set (Attributes e). Values a \<noteq> []"
  shows "schema_agrees U (BasicMatcher U) (sample_index_schema U as) e"
proof -
  have "HasAttribute U e a \<Longrightarrow> entry_Values U e a \<noteq> []" for a
    using assms by (auto simp: HasAttribute_def entry_Values_def list_ex_iff find_None_iff find_Some_iff
        cloneValues_def split: option.splits)
  moreover have "HasValue U e a v \<Longrightarrow> normalizeDirectoryValue U v \<in> normalizeDirectoryValue U ` set (entry_Values U e a)" for a v
    unfolding HasValue_def list_ex_iff EqualValue_iff by (metis imageI)
  moreover have "EvaluateWith U (BasicMatcher U) e f = Ok FilterTrueResult \<Longrightarrow> Kind f = FilterEquality \<Longrightarrow>
      HasValue U e (filter_Attribute f) (Assertion f)"
    "EvaluateWith U (BasicMatcher U) e f = Ok FilterTrueResult \<Longrightarrow> Kind f = FilterPresent \<Longrightarrow>
      HasAttribute U e (filter_Attribute f)" for f
    using basic_matcher_leaves by (cases f; simp split: if_splits)+
  ultimately show ?thesis
    unfolding schema_agrees_def equality_values_agree_def substring_values_agree_def ordering_values_agree_def
      approximate_values_agree_def
    by (simp add: sample_index_schema_def)
qed

section \<open>Properties\<close>

text \<open>
  a normalised index configuration has the current version, valid definitions sorted by name
  and one for each name, so that the binary search for a name finds exactly its definition; and
  normalising it again changes nothing, so that a stored configuration can be compared with a
  wanted one. Folding the names of the given definitions is taken to be idempotent.
\<close>

theorem normalized_configuration:
  assumes "normalizeEqualityIndexConfig U config = Ok c"
    and "\<forall>a\<in>set (ic_Attributes config). fold_names U (fold_names U a) = fold_names U a"
  shows "ic_Version c = equalityIndexFormatVersion \<and> list_all index_attribute_ok (ic_Attributes c) \<and>
    sorted_wrt (<) (map ia_Attribute (ic_Attributes c)) \<and>
    equalityIndexAttributeDefinition c a = find (\<lambda>d. ia_Attribute d = a) (ic_Attributes c) \<and>
    normalizeEqualityIndexConfig U c = Ok c"
proof -
  note ok = normalized_config_ok [OF assms(1)]
  then have sorted: "sorted_wrt (<) (map ia_Attribute (ic_Attributes c))" by (simp add: config_ok_def)
  from assms(1) obtain as where as: "collect_attributes U [] (ic_Attributes config) = Ok as"
    "ic_Attributes c = sort_key ia_Attribute as"
    by (auto simp: normalizeEqualityIndexConfig_def Let_def split: if_splits)
  from collect_attributes_folded [OF as(1) _ assms(2)] have "list_all (\<lambda>a. fold_names U a = a) (ic_Attributes c)"
    by (simp add: as(2) list_all_iff)
  with ok have "collect_attributes U [] (ic_Attributes c) = Ok (ic_Attributes c)"
    using collect_distinct_list [of "[]" "ic_Attributes c" U] sorted by (simp add: list_all_iff strict_sorted_iff)
  moreover have "sort_key ia_Attribute (ic_Attributes c) = ic_Attributes c"
    using sorted by (intro sort_key_id_if_sorted) (simp add: strict_sorted_iff)
  ultimately have "normalizeEqualityIndexConfig U c = Ok c"
    using ok by (simp add: normalizeEqualityIndexConfig_def Let_def equalityIndexFormatVersion_def)
  with ok sorted definition_lookup show ?thesis by blast
qed

theorem normalized_configuration_witness:
  "(case normalizeEqualityIndexConfig sample_unicode (sample_index_config [''sn'', ''cn'']) of
      Ok c \<Rightarrow> map_option ia_Attribute (equalityIndexAttributeDefinition c ''cn'') | _ \<Rightarrow> None) = Some ''cn''"
proof -
  have names: "ToLower sample_unicode (TrimSpace v) = v" if "v \<in> {''sn'', ''cn'', ''eq'', []}" for v
    using that by (auto simp: TrimSpace_def ToLower_def ascii_lower_def is_space_def) (simp_all add: char_of_def bit_0)
  have folded: "fold_names sample_unicode (sample_index_attribute ''sn'') = sample_index_attribute ''sn''"
    "fold_names sample_unicode (sample_index_attribute ''cn'') = sample_index_attribute ''cn''"
    by (simp_all add: fold_names_def sample_index_attribute_def names)
  define c where "c = sample_index_config [''cn'', ''sn'']"
  have c: "normalizeEqualityIndexConfig sample_unicode (sample_index_config [''sn'', ''cn'']) = Ok c"
    by (simp add: normalizeEqualityIndexConfig_def sample_index_config_def Let_def folded c_def
        index_attribute_ok_iff equalityIndexFormatVersion_def)
      (simp add: sample_index_attribute_def less_char_def)
  have fold: "\<forall>a\<in>set (ic_Attributes (sample_index_config [''sn'', ''cn''])).
      fold_names sample_unicode (fold_names sample_unicode a) = fold_names sample_unicode a"
    by (simp add: sample_index_config_def folded)
  have "find (\<lambda>d. ia_Attribute d = ''cn'') (ic_Attributes c) = Some (sample_index_attribute ''cn'')"
    by (simp add: c_def sample_index_config_def sample_index_attribute_def)
  with normalized_configuration [OF c fold, of "''cn''"]
  have "equalityIndexAttributeDefinition c ''cn'' = Some (sample_index_attribute ''cn'')" by metis
  then show ?thesis unfolding c by (simp add: sample_index_attribute_def)
qed

text \<open>
  decoding the key of a posting gives back its parts: the hashed partition and attribute, the
  kind of the term, its value and the reference of the entry.
\<close>

theorem posting_key_roundtrip:
  assumes "kind \<in> {equalityIndexPresence, equalityIndexValue, equalityIndexSubstringInitial, equalityIndexSubstringAny,
      equalityIndexSubstringFinal, equalityIndexSubstringOverflow, equalityIndexOrdering, equalityIndexApproximate}"
    and "kind \<in> {equalityIndexPresence, equalityIndexSubstringOverflow} \<Longrightarrow> v = []"
    and "length v < 2 ^ 32" "entryReference \<noteq> []"
  shows "decodeEqualityIndexPostingKey (equalityIndexPostingKey db attribute kind v entryReference) =
    Ok \<lparr>pk_partition = appendEqualityIndexToken [] ''partition'' db equalityIndexTokenSize,
        pk_attribute = appendEqualityIndexToken [] ''attribute'' attribute equalityIndexTokenSize,
        pk_kind = kind, pk_value = v, pk_reference = entryReference\<rparr>"
proof -
  let ?p = "appendEqualityIndexToken [] ''partition'' db 16"
  let ?a = "appendEqualityIndexToken [] ''attribute'' attribute 16"
  let ?v = "char_of equalityIndexFormatVersion :: char"
  let ?d = "(?v # ?p @ ?a @ [kind])"
  have prefix: "equalityIndexAttributeKindPrefix db attribute kind = ?d"
    by (simp add: equalityIndexAttributeKindPrefix_def equalityIndexAttributePrefix_def Let_def
        appendEqualityIndexToken_def equalityIndexTokenSize_def)
  have len: "length ?d = 34" by simp
  define body where "body = equalityIndexPostingPrefix db attribute kind v"
  have ne: "body = ?d @ drop 34 body"
    unfolding body_def equalityIndexPostingPrefix_def Let_def prefix
    by (simp add: order_preserving_code appendLengthPrefixed_def)
  have read: "read_key_value (body @ entryReference) kind 34 = Ok (v, length body)"
    using assms(1,2) read_appended_prefixed [OF assms(3), of ?d entryReference]
      read_appended_ordering [of ?d v entryReference] len
    unfolding body_def equalityIndexPostingPrefix_def Let_def prefix read_key_value_def
    by (auto simp: index_kinds)
  have key: "body @ entryReference = ?v # ?p @ ?a @ kind # (drop 34 body @ entryReference)"
    by (subst ne) simp
  have long: "34 \<le> length body" by (subst ne) simp
  define key where "key = body @ entryReference"
  have parts: "key \<noteq> []" "hd key = ?v" "34 \<le> length key" "key ! 33 = kind" "take 16 (drop 1 key) = ?p"
    "take 16 (drop 17 key) = ?a"
    using long unfolding key_def by (simp_all add: key nth_append)
  have "read_key_value key kind 34 = Ok (v, length body)" "length body < length key" "drop (length body) key = entryReference"
    using read assms(4) by (simp_all add: key_def)
  with parts have "decodeEqualityIndexPostingKey key =
      Ok \<lparr>pk_partition = ?p, pk_attribute = ?a, pk_kind = kind, pk_value = v, pk_reference = entryReference\<rparr>"
    by (simp add: decodeEqualityIndexPostingKey_def equalityIndexTokenSize_def)
  then show ?thesis by (simp add: key_def body_def equalityIndexPostingKey_def equalityIndexTokenSize_def)
qed

theorem posting_key_roundtrip_witness:
  "map_option pk_value (case decodeEqualityIndexPostingKey
      (equalityIndexPostingKey ''db'' ''2.5.4.3'' equalityIndexValue ''alice'' ''cn=alice'') of Ok k \<Rightarrow> Some k | _ \<Rightarrow> None) =
    Some ''alice''"
  using posting_key_roundtrip [of equalityIndexValue "''alice''" "''cn=alice''" "''db''" "''2.5.4.3''"]
  by (simp add: index_kinds)

text \<open>
  ordering terms keep the order of the values: their keys compare as the values do, and then
  as the references that follow them.
\<close>

theorem ordering_keys_ordered:
  "equalityIndexPostingKey db attribute equalityIndexOrdering v r < equalityIndexPostingKey db attribute equalityIndexOrdering w s \<longleftrightarrow>
     v < w \<or> v = w \<and> r < s"
proof -
  have "xs @ ys < xs @ zs \<longleftrightarrow> ys < zs" for xs ys zs :: bytes by (induction xs) auto
  then show ?thesis
    by (simp add: equalityIndexPostingKey_def equalityIndexPostingPrefix_def Let_def order_preserving_code
        ordering_code_less index_kinds)
qed

text \<open>
  two entries are found to have the same terms exactly when every configured attribute gives
  both the same set of terms; an update between such entries leaves the index as it is.
\<close>

theorem same_terms_exact:
  assumes "sorted_wrt (<) (map ia_Attribute (ic_Attributes config))"
    and "equalityIndexEntryTerms schema config left = Ok l" "equalityIndexEntryTerms schema config right = Ok r"
  shows "equalityIndexEntriesHaveSameTerms schema config left right =
    Ok (\<forall>d\<in>set (ic_Attributes config).
      set (equalityIndexTermsForAttribute d (terms_of l (ia_Attribute d))) =
      set (equalityIndexTermsForAttribute d (terms_of r (ia_Attribute d))))"
proof -
  have dist: "distinct (equalityIndexTermsForAttribute d (terms_of t (ia_Attribute d)))"
    if "d \<in> set (ic_Attributes config)" "equalityIndexEntryTerms schema config e = Ok t" for d t e
  proof -
    have "distinct (map ia_Attribute (ic_Attributes config))" using assms(1) by (simp add: strict_sorted_iff)
    from entry_terms_from_Ok [OF that(2) [unfolded equalityIndexEntryTerms_def] this that(1)] distinct_terms
    show ?thesis by (auto simp: terms_of_def)
  qed
  have "same_attribute_terms l r d \<longleftrightarrow>
      set (equalityIndexTermsForAttribute d (terms_of l (ia_Attribute d))) =
      set (equalityIndexTermsForAttribute d (terms_of r (ia_Attribute d)))" if "d \<in> set (ic_Attributes config)" for d
    using same_attribute_terms_iff [OF dist [OF that assms(3)] dist [OF that assms(2)]] .
  then have "list_all (same_attribute_terms l r) (ic_Attributes config) \<longleftrightarrow> (\<forall>d\<in>set (ic_Attributes config).
      set (equalityIndexTermsForAttribute d (terms_of l (ia_Attribute d))) =
      set (equalityIndexTermsForAttribute d (terms_of r (ia_Attribute d))))" by (simp add: list_all_iff)
  with assms(2,3) show ?thesis by (simp add: equalityIndexEntriesHaveSameTerms_def)
qed

theorem same_terms_exact_witness:
  "equalityIndexEntriesHaveSameTerms (sample_index_schema sample_unicode [''cn'']) (sample_index_config [''cn''])
     sample_entry sample_entry = Ok True"
proof -
  let ?s = "sample_index_schema sample_unicode [''cn'']"
  let ?c = "sample_index_config [''cn'']"
  have sorted: "sorted_wrt (<) (map ia_Attribute (ic_Attributes ?c))" by (simp add: sample_index_config_def)
  obtain t where t: "equalityIndexEntryTerms ?s ?c sample_entry = Ok t"
    by (simp add: equalityIndexEntryTerms_def sample_index_config_def sample_index_schema_def attribute_terms_def
        sample_index_attribute_def Let_def)
  from same_terms_exact [OF sorted t t] show ?thesis by simp
qed

end
