(* ===== verification/Memory_Store.thy ===== *)
theory Memory_Store
  imports Index_Planner DN_Scope "HOL-Library.Finite_Map"
begin

text \<open>
  The in-memory storage engine, \<open>src/internal/storage/memory.go\<close>, with the key and identity rules of
  \<open>storage.go\<close>. Go maps are finite maps; the order of a \<open>range\<close> loop and the answers of
  \<open>ctx.Err()\<close> come from the surroundings, a different one at every call. An operation returns its
  result and the state it leaves, also where it fails.
\<close>

section \<open>Errors and surroundings\<close>

datatype identity_error =
    InvalidEntryDN bytes dn_error | BothBindings | BindingSize nat | InvalidBinding bytes
  | NoIdentityBinding bytes | IdentityMismatch bytes bytes | NoSourceBinding bytes
  | InvalidSource bytes dn_error | SourceMismatch bytes bytes | InvalidPhysicalKey bytes dn_error
  | LegacyCarriesBinding bytes | PhysicalKeyMismatch bytes bytes dn_error

datatype store_error =
    ErrEntryNotFound | ErrEntryExists | ErrEntryAmbiguous | ErrMetadataNotFound
  | ErrDNIdentityMigrationRequired bytes | ContextDone | ReadOnlyTransaction
  | CountUnderflow bytes | EntryKeyInvalid bytes identity_error | LookupMismatch bytes bytes
  | DNInvalid dn_error | EntryIdentityInvalid bytes dn_error | IdentityProofEncoding bytes
  | UntrustedIdentity | DNDiffers bytes bytes | UnsupportedMarker bytes bytes
  | CannotNormalize bytes bytes dn_error | KeyDiffersFromName bytes bytes
  | NormalizeEntry bytes dn_error | SameIdentity bytes bytes | MigrationNeedsSchema
  | IndexFailed index_error | CannotNormalizeReference bytes dn_error | MissingIndexedEntry bytes
  | SchemaCannotNormalize | CallbackFailed string | ScanFailed store_error

text \<open>
  What the store takes from outside: the name library and the Unicode tables, the context (what
  \<open>ctx.Err()\<close> answers at the \<open>n\<close>-th check of an operation), the order in which a \<open>range\<close> loop of an
  operation visits the keys of a map, and the JSON encoder.
\<close>

record store_env =
  se_lib :: ldap_lib
  se_unicode :: unicode
  ctx_Err :: "string \<Rightarrow> nat \<Rightarrow> bool"
  range_keys :: "string \<Rightarrow> bytes fset \<Rightarrow> bytes list"
  Marshal_config :: "EqualityIndexConfig \<Rightarrow> bytes option"
  Marshal_entry :: "Entry \<Rightarrow> bytes option"

text \<open>A \<open>range\<close> loop visits every key once, in some order.\<close>

definition ranges_all :: "store_env \<Rightarrow> bool" where
  "ranges_all E \<longleftrightarrow> (\<forall>site ks. distinct (range_keys E site ks) \<and> set (range_keys E site ks) = fset ks)"

definition poll :: "store_env \<Rightarrow> string \<Rightarrow> nat \<Rightarrow> (store_error, unit) go" where
  "poll E site n = (if ctx_Err E site n then Err ContextDone else Ok ())"

section \<open>Keys and identities\<close>

definition partitionedEntryKey :: "bytes \<Rightarrow> bytes \<Rightarrow> bytes" where
  "partitionedEntryKey db dnKey = db @ [CHR 0x00] @ dnKey"

definition splitPartitionedEntryKey :: "bytes \<Rightarrow> bytes \<times> bytes" where
  "splitPartitionedEntryKey key =
     (if CHR 0x00 \<in> set key
      then (takeWhile (\<lambda>c. c \<noteq> CHR 0x00) key, drop 1 (dropWhile (\<lambda>c. c \<noteq> CHR 0x00) key))
      else ([], key))"

abbreviation partition_of :: "bytes \<Rightarrow> bytes" where
  "partition_of key \<equiv> fst (splitPartitionedEntryKey key)"

definition isSchemaAwareDNKey :: "bytes \<Rightarrow> bool" where
  "isSchemaAwareDNKey key = HasPrefix key schemaAwareDNKeyPrefix"

definition schemaAwareDNIdentityFormatVersion :: nat where "schemaAwareDNIdentityFormatVersion = 2"

definition partitionedEntryKeysMetadataKey :: bytes where
  "partitionedEntryKeysMetadataKey = ''storage:partitioned-entry-keys:v1''"

definition schemaAwareDNMigrationMetadataKey :: "bytes \<Rightarrow> bytes" where
  "schemaAwareDNMigrationMetadataKey db = ''storage:dn-identity:v2:'' @ RawURL_EncodeToString db"

definition entryMatchesDisplayDN :: "store_env \<Rightarrow> Entry \<Rightarrow> DN \<Rightarrow> ('e, bool) go" where
  "entryMatchesDisplayDN E entry requested =
     (case ParseDN (se_lib E) (se_unicode E) (e_DN entry) of
        Ok entryDN \<Rightarrow> go_of_option (EqualExact (se_lib E) entryDN requested)
      | Err _ \<Rightarrow> Ok False | Panic \<Rightarrow> Panic)"

definition validateDirectIdentityLookup :: "bytes \<Rightarrow> DN \<Rightarrow> (store_error, unit) go" where
  "validateDirectIdentityLookup physicalKey requested =
     (if \<not> isSchemaAwareDNKey physicalKey then Ok ()
      else if physicalKey \<noteq> Key requested then Err (LookupMismatch physicalKey (Key requested))
      else Ok ())"

definition validateStoredEntryIdentityDN ::
  "store_env \<Rightarrow> bytes \<Rightarrow> Entry \<Rightarrow> bytes \<Rightarrow> bytes \<Rightarrow> bytes \<Rightarrow> (identity_error, DN) go" where
  "validateStoredEntryIdentityDN E physicalKey entry storedIdentity storedSource storedBinding =
     (let L = se_lib E; U = se_unicode E in
      go_bind (go_wrap (InvalidEntryDN (e_DN entry)) (ParseDN L U (e_DN entry))) (\<lambda>dn.
      if isSchemaAwareDNKey physicalKey then
        go_bind
          (if storedBinding \<noteq> [] then
             if storedIdentity \<noteq> [] \<or> storedSource \<noteq> [] then Err BothBindings
             else if length storedBinding \<noteq> sha256_Size then Err (BindingSize (length storedBinding))
             else if storedBinding \<noteq> entryDNBinding physicalKey (e_DN entry) then Err (InvalidBinding physicalKey)
             else Ok ()
           else if storedIdentity = [] then Err (NoIdentityBinding physicalKey)
           else if storedIdentity \<noteq> physicalKey then Err (IdentityMismatch physicalKey storedIdentity)
           else if storedSource = [] then Err (NoSourceBinding physicalKey)
           else
             go_bind (go_wrap (InvalidSource storedSource) (ParseDN L U storedSource)) (\<lambda>sourceDN.
             go_bind (go_of_option (EqualExact L sourceDN dn)) (\<lambda>equal.
               if \<not> equal then Err (SourceMismatch storedSource (e_DN entry)) else Ok ())))
          (\<lambda>_. go_bind (go_wrap (InvalidPhysicalKey physicalKey) (ValidateIdentityKey L U dn physicalKey)) (\<lambda>_. Ok dn))
      else if storedIdentity \<noteq> [] \<or> storedSource \<noteq> [] \<or> storedBinding \<noteq> [] then Err (LegacyCarriesBinding physicalKey)
      else go_bind (go_wrap (PhysicalKeyMismatch physicalKey (e_DN entry)) (ValidateIdentityKey L U dn physicalKey)) (\<lambda>_. Ok dn)))"

definition validateStoredEntryIdentity ::
  "store_env \<Rightarrow> bytes \<Rightarrow> Entry \<Rightarrow> bytes \<Rightarrow> bytes \<Rightarrow> bytes \<Rightarrow> (identity_error, unit) go" where
  "validateStoredEntryIdentity E physicalKey entry storedIdentity storedSource storedBinding =
     go_error (validateStoredEntryIdentityDN E physicalKey entry storedIdentity storedSource storedBinding)"

section \<open>Trusted identities\<close>

text \<open>
  The process-wide table of identities that \<open>PutInWithDN\<close> vouches for: how many writes with a
  key are under way.
\<close>

type_synonym trusted_writes = "(bytes, int) fmap"

definition map_zero :: "'v \<Rightarrow> ('k, 'v) fmap \<Rightarrow> 'k \<Rightarrow> 'v" where
  "map_zero z m k = (case fmlookup m k of None \<Rightarrow> z | Some v \<Rightarrow> v)"

definition dnIdentityWriteKey :: "store_env \<Rightarrow> bytes \<Rightarrow> Entry \<Rightarrow> bytes \<Rightarrow> (store_error, bytes) go" where
  "dnIdentityWriteKey E db entry identity =
     (case Marshal_entry E (WithoutDNIdentity entry) of
        None \<Rightarrow> Err (IdentityProofEncoding (e_DN entry))
      | Some encodedEntry \<Rightarrow>
          Ok (sha256 (concat (map (\<lambda>v. PutUint64 (of_nat (length v)) @ v) [db, encodedEntry, identity]))))"

definition trust :: "bytes \<Rightarrow> trusted_writes \<Rightarrow> trusted_writes" where
  "trust key counts = fmupd key (map_zero 0 counts key + 1) counts"

definition release_trust :: "bytes \<Rightarrow> trusted_writes \<Rightarrow> trusted_writes" where
  "release_trust key counts =
     (if map_zero 0 counts key \<le> 1 then fmdrop key counts else fmupd key (map_zero 0 counts key - 1) counts)"

definition requireTrustedDNIdentityWrite ::
  "store_env \<Rightarrow> trusted_writes \<Rightarrow> bytes \<Rightarrow> Entry \<Rightarrow> bytes \<Rightarrow> (store_error, unit) go" where
  "requireTrustedDNIdentityWrite E counts db entry identity =
     go_bind (dnIdentityWriteKey E db entry identity) (\<lambda>key.
       if \<not> 0 < map_zero 0 counts key then Err UntrustedIdentity else Ok ())"

section \<open>The state of a transaction\<close>

type_synonym posting_map = "(bytes, bytes fset) fmap"

record store_data =
  entries :: "(bytes, Entry) fmap"
  entryCounts :: "(bytes, uint64) fmap"
  dnIdentities :: "(bytes, bytes) fmap"
  dnSources :: "(bytes, bytes) fmap"
  equalityIndexConfigs :: "(bytes, EqualityIndexConfig) fmap"
  equalityPostings :: "(bytes, posting_map) fmap"
  namingContexts :: "bytes list"
  metadata :: "(bytes, bytes) fmap"

record memoryTx = store_data +
  readOnly :: bool
  tx_revision :: uint64

record Memory = store_data +
  closed :: bool
  m_revision :: uint64

text \<open>
  An operation of a transaction: its result, and the state it leaves also where it fails. A caller
  that goes on after an error sees that state; \<open>Update\<close> throws it away.
\<close>

type_synonym 'a tx_op = "memoryTx \<Rightarrow> (store_error, 'a) go \<times> memoryTx"

definition tx_bind :: "'a tx_op \<Rightarrow> ('a \<Rightarrow> 'b tx_op) \<Rightarrow> 'b tx_op" where
  "tx_bind m f = (\<lambda>tx. case m tx of (Ok x, tx') \<Rightarrow> f x tx' | (Err e, tx') \<Rightarrow> (Err e, tx') | (Panic, tx') \<Rightarrow> (Panic, tx'))"

definition tx_check :: "(memoryTx \<Rightarrow> (store_error, 'a) go) \<Rightarrow> 'a tx_op" where
  "tx_check f = (\<lambda>tx. (f tx, tx))"

definition tx_modify :: "(memoryTx \<Rightarrow> memoryTx) \<Rightarrow> unit tx_op" where
  "tx_modify f = (\<lambda>tx. (Ok (), f tx))"

fun tx_foreach :: "'a list \<Rightarrow> ('a \<Rightarrow> unit tx_op) \<Rightarrow> unit tx_op" where
  "tx_foreach [] f = tx_check (\<lambda>_. Ok ())"
| "tx_foreach (x # xs) f = tx_bind (f x) (\<lambda>_. tx_foreach xs f)"

definition writable :: "unit tx_op" where
  "writable = tx_check (\<lambda>tx. if readOnly tx then Err ReadOnlyTransaction else Ok ())"

definition zero_entry :: Entry where
  "zero_entry = bare_entry [] []"

definition entry_at :: "('a) store_data_scheme \<Rightarrow> bytes \<Rightarrow> Entry" where
  "entry_at tx key = map_zero zero_entry (entries tx) key"

definition has_entry :: "('a) store_data_scheme \<Rightarrow> bytes \<Rightarrow> bool" where
  "has_entry tx key \<longleftrightarrow> fmlookup (entries tx) key \<noteq> None"

definition validateEntry :: "store_env \<Rightarrow> memoryTx \<Rightarrow> bytes \<Rightarrow> Entry \<Rightarrow> (store_error, unit) go" where
  "validateEntry E tx key entry =
     go_wrap (EntryKeyInvalid key)
       (validateStoredEntryIdentity E (snd (splitPartitionedEntryKey key)) entry
          (map_zero [] (dnIdentities tx) key) (map_zero [] (dnSources tx) key) [])"

definition putEntry :: "bytes \<Rightarrow> bytes \<Rightarrow> Entry \<Rightarrow> memoryTx \<Rightarrow> memoryTx" where
  "putEntry db key entry tx =
     (let tx = (if has_entry tx key then tx
                else tx\<lparr>entryCounts := fmupd db (map_zero 0 (entryCounts tx) db + 1) (entryCounts tx)\<rparr>)
      in tx\<lparr>entries := fmupd key entry (entries tx)\<rparr>)"

definition deleteEntry :: "bytes \<Rightarrow> unit tx_op" where
  "deleteEntry key tx =
     (if \<not> has_entry tx key then (Ok (), tx)
      else
        let db = partition_of key; count = map_zero 0 (entryCounts tx) db in
        if count = 0 then (Err (CountUnderflow db), tx)
        else (Ok (), tx\<lparr>entries := fmdrop key (entries tx),
               entryCounts := (if count = 1 then fmdrop db (entryCounts tx)
                               else fmupd db (count - 1) (entryCounts tx))\<rparr>))"

definition forget_identity :: "bytes \<Rightarrow> memoryTx \<Rightarrow> memoryTx" where
  "forget_identity key tx = tx\<lparr>dnIdentities := fmdrop key (dnIdentities tx), dnSources := fmdrop key (dnSources tx)\<rparr>"

definition set_identity :: "bytes \<Rightarrow> bytes \<Rightarrow> bytes \<Rightarrow> memoryTx \<Rightarrow> memoryTx" where
  "set_identity key identity source tx =
     tx\<lparr>dnIdentities := fmupd key identity (dnIdentities tx), dnSources := fmupd key source (dnSources tx)\<rparr>"

definition invalidateEqualityIndexes :: "bytes \<Rightarrow> memoryTx \<Rightarrow> memoryTx" where
  "invalidateEqualityIndexes db tx =
     tx\<lparr>equalityIndexConfigs := fmdrop db (equalityIndexConfigs tx),
        equalityPostings := fmdrop db (equalityPostings tx)\<rparr>"

definition PartitionEntryCount :: "store_env \<Rightarrow> memoryTx \<Rightarrow> bytes \<Rightarrow> (store_error, uint64) go" where
  "PartitionEntryCount E tx db =
     go_bind (poll E ''PartitionEntryCount'' 0) (\<lambda>_. Ok (map_zero 0 (entryCounts tx) db))"

section \<open>Reading\<close>

fun get_loop :: "store_env \<Rightarrow> memoryTx \<Rightarrow> DN \<Rightarrow> bytes option \<Rightarrow> bytes list \<Rightarrow> (store_error, bytes option) go" where
  "get_loop E tx dn found [] = Ok found"
| "get_loop E tx dn found (key # keys) =
     (let entry = entry_at tx key; entryDN = snd (splitPartitionedEntryKey key); directIdentity = (entryDN = Key dn) in
      go_bind (if directIdentity then Ok True else entryMatchesDisplayDN E entry dn) (\<lambda>match.
      if \<not> match then get_loop E tx dn found keys
      else
        go_bind (validateEntry E tx key entry) (\<lambda>_.
        go_bind (if directIdentity then validateDirectIdentityLookup entryDN dn else Ok ()) (\<lambda>_.
          if found \<noteq> None then Err ErrEntryAmbiguous else get_loop E tx dn (Some key) keys))))"

definition Get :: "store_env \<Rightarrow> memoryTx \<Rightarrow> DN \<Rightarrow> (store_error, Entry) go" where
  "Get E tx dn =
     go_bind (poll E ''Get'' 0) (\<lambda>_.
     go_bind (get_loop E tx dn None (range_keys E ''Get'' (fmdom (entries tx)))) (\<lambda>found.
       case found of None \<Rightarrow> Err ErrEntryNotFound | Some key \<Rightarrow> Ok (Clone (entry_at tx key))))"

fun identity_ready_loop ::
  "store_env \<Rightarrow> memoryTx \<Rightarrow> bytes \<Rightarrow> bool \<Rightarrow> bytes list \<Rightarrow> (store_error, bool) go" where
  "identity_ready_loop E tx db ready [] = Ok ready"
| "identity_ready_loop E tx db ready (key # keys) =
     (case splitPartitionedEntryKey key of (entryPartition, physicalKey) \<Rightarrow>
      if entryPartition \<noteq> db then identity_ready_loop E tx db ready keys
      else if \<not> isSchemaAwareDNKey physicalKey then Ok False
      else go_bind (validateEntry E tx key (entry_at tx key)) (\<lambda>_. identity_ready_loop E tx db True keys))"

definition schemaAwareDNIdentityReady :: "store_env \<Rightarrow> memoryTx \<Rightarrow> bytes \<Rightarrow> (store_error, bool) go" where
  "schemaAwareDNIdentityReady E tx db =
     go_bind (poll E ''schemaAwareDNIdentityReady'' 0) (\<lambda>_.
     case fmlookup (metadata tx) (schemaAwareDNMigrationMetadataKey db) of
       None \<Rightarrow> identity_ready_loop E tx db False (range_keys E ''schemaAwareDNIdentityReady'' (fmdom (entries tx)))
     | Some v \<Rightarrow>
         if length v \<noteq> 1 \<or> ord (hd v) \<noteq> schemaAwareDNIdentityFormatVersion then Err (UnsupportedMarker db v)
         else Ok True)"

text \<open>The scan for names of a partition that are spelt as requested.\<close>

fun display_loop ::
  "store_env \<Rightarrow> memoryTx \<Rightarrow> bytes \<Rightarrow> DN \<Rightarrow> bytes option \<Rightarrow> bytes option \<Rightarrow> bytes list \<Rightarrow> (store_error, bytes option) go" where
  "display_loop E tx db dn skip match [] = Ok match"
| "display_loop E tx db dn skip match (key # keys) =
     (if skip = Some key then display_loop E tx db dn skip match keys
      else if partition_of key \<noteq> db then display_loop E tx db dn skip match keys
      else go_bind (entryMatchesDisplayDN E (entry_at tx key) dn) (\<lambda>same.
        if \<not> same then display_loop E tx db dn skip match keys
        else go_bind (validateEntry E tx key (entry_at tx key)) (\<lambda>_.
          if match \<noteq> None then Err ErrEntryAmbiguous else display_loop E tx db dn skip (Some key) keys)))"

definition direct_key :: "store_env \<Rightarrow> memoryTx \<Rightarrow> bytes \<Rightarrow> DN \<Rightarrow> (store_error, bytes option) go" where
  "direct_key E tx db dn =
     (let key = partitionedEntryKey db (Key dn) in
      if \<not> has_entry tx key then Ok None
      else go_bind (validateEntry E tx key (entry_at tx key)) (\<lambda>_.
           go_bind (validateDirectIdentityLookup (Key dn) dn) (\<lambda>_. Ok (Some key))))"

text \<open>
  The key that \<open>GetIn\<close> and \<open>DeleteIn\<close> act on: the direct one for a schema-aware name, and
  otherwise the only one whose entry has the direct key or is spelt as requested.
\<close>

definition find_in :: "store_env \<Rightarrow> string \<Rightarrow> memoryTx \<Rightarrow> bytes \<Rightarrow> DN \<Rightarrow> (store_error, bytes) go" where
  "find_in E site tx db dn =
     (let key = partitionedEntryKey db (Key dn);
          scan = go_bind (direct_key E tx db dn) (\<lambda>direct.
            go_bind (display_loop E tx db dn direct direct (range_keys E site (fmdom (entries tx)))) (\<lambda>match.
              case match of None \<Rightarrow> Err ErrEntryNotFound | Some k \<Rightarrow> Ok k)) in
      if isSchemaAwareDNKey (Key dn) then
        if \<not> has_entry tx key then
          go_bind (schemaAwareDNIdentityReady E tx db) (\<lambda>ready. if ready then Err ErrEntryNotFound else scan)
        else go_bind (validateEntry E tx key (entry_at tx key)) (\<lambda>_.
             go_bind (validateDirectIdentityLookup (Key dn) dn) (\<lambda>_. Ok key))
      else scan)"

definition GetIn :: "store_env \<Rightarrow> memoryTx \<Rightarrow> bytes \<Rightarrow> DN \<Rightarrow> (store_error, Entry) go" where
  "GetIn E tx db dn =
     go_bind (poll E ''GetIn'' 0) (\<lambda>_.
     go_bind (find_in E ''GetIn'' tx db dn) (\<lambda>key. Ok (Clone (entry_at tx key))))"

definition getSchemaAwareIn :: "store_env \<Rightarrow> memoryTx \<Rightarrow> bytes \<Rightarrow> DN \<Rightarrow> (store_error, Entry) go" where
  "getSchemaAwareIn E tx db dn =
     go_bind (poll E ''getSchemaAwareIn'' 0) (\<lambda>_.
     case fmlookup (entries tx) (partitionedEntryKey db (Key dn)) of
       None \<Rightarrow> Err ErrEntryNotFound | Some entry \<Rightarrow> Ok (Clone entry))"

text \<open>
  The loops over entries call back with a copy of each entry; the callback may change the
  transaction and a state of its own, and the loop reads each entry when it gets there.
\<close>

fun visit_loop ::
  "store_env \<Rightarrow> string \<Rightarrow> (bytes \<Rightarrow> Entry \<Rightarrow> memoryTx \<times> 's \<Rightarrow> (store_error, unit) go \<times> memoryTx \<times> 's) \<Rightarrow> nat \<Rightarrow>
   bytes list \<Rightarrow> memoryTx \<times> 's \<Rightarrow> (store_error, unit) go \<times> memoryTx \<times> 's" where
  "visit_loop E site fn n [] st = (Ok (), st)"
| "visit_loop E site fn n (key # keys) st =
     (case go_bind (poll E site n) (\<lambda>_. validateEntry E (fst st) key (entry_at (fst st) key)) of
        Ok _ \<Rightarrow>
          (case fn key (Clone (entry_at (fst st) key)) st of
             (Ok _, st') \<Rightarrow> visit_loop E site fn (n + 1) keys st'
           | (Err e, st') \<Rightarrow> (Err e, st') | (Panic, st') \<Rightarrow> (Panic, st'))
      | Err e \<Rightarrow> (Err e, st) | Panic \<Rightarrow> (Panic, st))"

definition ForEach ::
  "store_env \<Rightarrow> (Entry \<Rightarrow> memoryTx \<times> 's \<Rightarrow> (store_error, unit) go \<times> memoryTx \<times> 's) \<Rightarrow>
   memoryTx \<times> 's \<Rightarrow> (store_error, unit) go \<times> memoryTx \<times> 's" where
  "ForEach E fn st =
     visit_loop E ''ForEach'' (\<lambda>_. fn) 0 (sort (range_keys E ''ForEach'' (fmdom (entries (fst st))))) st"

definition ForEachIn ::
  "store_env \<Rightarrow> bytes \<Rightarrow> (Entry \<Rightarrow> memoryTx \<times> 's \<Rightarrow> (store_error, unit) go \<times> memoryTx \<times> 's) \<Rightarrow>
   memoryTx \<times> 's \<Rightarrow> (store_error, unit) go \<times> memoryTx \<times> 's" where
  "ForEachIn E db fn st =
     visit_loop E ''ForEachIn'' (\<lambda>_. fn) 0
       (sort (filter (\<lambda>key. partition_of key = db) (range_keys E ''ForEachIn'' (fmdom (entries (fst st)))))) st"

definition ForEachPartition ::
  "store_env \<Rightarrow> (bytes \<Rightarrow> Entry \<Rightarrow> memoryTx \<times> 's \<Rightarrow> (store_error, unit) go \<times> memoryTx \<times> 's) \<Rightarrow>
   memoryTx \<times> 's \<Rightarrow> (store_error, unit) go \<times> memoryTx \<times> 's" where
  "ForEachPartition E fn st =
     visit_loop E ''ForEachPartition'' (\<lambda>key. fn (partition_of key)) 0
       (sort (range_keys E ''ForEachPartition'' (fmdom (entries (fst st))))) st"

definition NamingContexts :: "store_env \<Rightarrow> memoryTx \<Rightarrow> (store_error, bytes list) go" where
  "NamingContexts E tx = go_bind (poll E ''NamingContexts'' 0) (\<lambda>_. Ok (namingContexts tx))"

definition Metadata :: "store_env \<Rightarrow> memoryTx \<Rightarrow> bytes \<Rightarrow> (store_error, bytes) go" where
  "Metadata E tx key =
     go_bind (poll E ''Metadata'' 0) (\<lambda>_.
     case fmlookup (metadata tx) key of None \<Rightarrow> Err ErrMetadataNotFound | Some v \<Rightarrow> Ok v)"

fun physical_loop ::
  "store_env \<Rightarrow> bytes \<Rightarrow> (Entry \<Rightarrow> bytes \<Rightarrow> memoryTx \<times> 's \<Rightarrow> (store_error, unit) go \<times> memoryTx \<times> 's) \<Rightarrow> nat \<Rightarrow>
   bytes list \<Rightarrow> memoryTx \<times> 's \<Rightarrow> (store_error, unit) go \<times> memoryTx \<times> 's" where
  "physical_loop E db visit n [] st = (Ok (), st)"
| "physical_loop E db visit n (key # keys) st =
     (case poll E ''forEachSchemaAwarePhysicalIn'' n of
        Ok _ \<Rightarrow>
          if partition_of key \<noteq> db then physical_loop E db visit (n + 1) keys st
          else (case visit (Clone (entry_at (fst st) key)) (snd (splitPartitionedEntryKey key)) st of
             (Ok _, st') \<Rightarrow> physical_loop E db visit (n + 1) keys st'
           | (Err e, st') \<Rightarrow> (Err e, st') | (Panic, st') \<Rightarrow> (Panic, st'))
      | Err e \<Rightarrow> (Err e, st) | Panic \<Rightarrow> (Panic, st))"

section \<open>Writing\<close>

definition setSchemaAwareDNIdentityReady :: "bytes \<Rightarrow> memoryTx \<Rightarrow> memoryTx" where
  "setSchemaAwareDNIdentityReady db tx =
     tx\<lparr>metadata := fmupd (schemaAwareDNMigrationMetadataKey db)
       [char_of schemaAwareDNIdentityFormatVersion] (metadata tx)\<rparr>"

fun no_legacy_loop :: "store_env \<Rightarrow> memoryTx \<Rightarrow> bytes \<Rightarrow> bytes list \<Rightarrow> (store_error, unit) go" where
  "no_legacy_loop E tx db [] = Ok ()"
| "no_legacy_loop E tx db (key # keys) =
     (case splitPartitionedEntryKey key of (entryPartition, physicalKey) \<Rightarrow>
      if entryPartition \<noteq> db then no_legacy_loop E tx db keys
      else if \<not> isSchemaAwareDNKey physicalKey then Err (ErrDNIdentityMigrationRequired db)
      else go_bind (validateEntry E tx key (entry_at tx key)) (\<lambda>_. no_legacy_loop E tx db keys))"

definition markSchemaAwareDNIdentityReadyIfNoLegacy :: "store_env \<Rightarrow> bytes \<Rightarrow> unit tx_op" where
  "markSchemaAwareDNIdentityReadyIfNoLegacy E db =
     tx_bind (tx_check (\<lambda>tx. no_legacy_loop E tx db
         (range_keys E ''markSchemaAwareDNIdentityReadyIfNoLegacy'' (fmdom (entries tx)))))
       (\<lambda>_. tx_modify (setSchemaAwareDNIdentityReady db))"

text \<open>The keys of the entries of a partition that are spelt as the name, in the order of the loop.\<close>

fun spelt_keys :: "store_env \<Rightarrow> memoryTx \<Rightarrow> bytes \<Rightarrow> DN \<Rightarrow> bytes list \<Rightarrow> (store_error, bytes list) go" where
  "spelt_keys E tx db dn [] = Ok []"
| "spelt_keys E tx db dn (key # keys) =
     (if partition_of key \<noteq> db then spelt_keys E tx db dn keys
      else go_bind (entryMatchesDisplayDN E (entry_at tx key) dn) (\<lambda>same.
        go_bind (spelt_keys E tx db dn keys) (\<lambda>ks. Ok (if same then key # ks else ks))))"

definition existing_keys :: "store_env \<Rightarrow> memoryTx \<Rightarrow> bytes \<Rightarrow> bytes \<Rightarrow> DN \<Rightarrow> (store_error, bytes fset) go" where
  "existing_keys E tx db key dn =
     go_bind (spelt_keys E tx db dn (range_keys E ''putInWithDN'' (fmdom (entries tx)))) (\<lambda>ks.
       Ok ((if has_entry tx key then {|key|} else {||}) |\<union>| fset_of_list ks))"

definition drop_entry :: "bytes \<Rightarrow> unit tx_op" where
  "drop_entry key = tx_bind (deleteEntry key) (\<lambda>_. tx_modify (forget_identity key))"

definition putInWithDN :: "store_env \<Rightarrow> bytes \<Rightarrow> Entry \<Rightarrow> DN \<Rightarrow> bytes \<Rightarrow> bool \<Rightarrow> unit tx_op" where
  "putInWithDN E db entry entryDN identity replace =
     tx_bind writable (\<lambda>_.
     tx_bind (tx_check (\<lambda>_. poll E ''putInWithDN'' 0)) (\<lambda>_.
     let key = partitionedEntryKey db identity in
     if isSchemaAwareDNKey identity then
       tx_bind (tx_check (\<lambda>tx. schemaAwareDNIdentityReady E tx db)) (\<lambda>ready.
       tx_bind (if \<not> ready then markSchemaAwareDNIdentityReadyIfNoLegacy E db else tx_check (\<lambda>_. Ok ())) (\<lambda>_.
       tx_bind (tx_check (\<lambda>tx. if has_entry tx key \<and> \<not> replace then Err ErrEntryExists else Ok ())) (\<lambda>_.
       tx_bind (tx_modify (putEntry db key (Clone entry))) (\<lambda>_.
         tx_modify (set_identity key identity (e_DN entry))))))
     else
       tx_bind (tx_check (\<lambda>tx. existing_keys E tx db key entryDN)) (\<lambda>existingKeys.
       tx_bind (tx_check (\<lambda>_. if existingKeys \<noteq> {||} \<and> \<not> replace then Err ErrEntryExists else Ok ())) (\<lambda>_.
       tx_bind (tx_modify (putEntry db key (Clone entry))) (\<lambda>_.
       tx_bind (tx_modify (forget_identity key)) (\<lambda>_.
         tx_foreach (filter (\<lambda>k. k \<noteq> key) (range_keys E ''existingKeys'' existingKeys)) drop_entry))))))"

definition delete_metadata :: "bytes \<Rightarrow> memoryTx \<Rightarrow> memoryTx" where
  "delete_metadata key tx = tx\<lparr>metadata := fmdrop key (metadata tx)\<rparr>"

definition PutIn :: "store_env \<Rightarrow> trusted_writes \<Rightarrow> bytes \<Rightarrow> Entry \<Rightarrow> bool \<Rightarrow> unit tx_op" where
  "PutIn E trusted db entry replace =
     tx_bind writable (\<lambda>_.
     tx_bind (tx_check (\<lambda>_. poll E ''PutIn'' 0)) (\<lambda>_.
     tx_bind (tx_check (\<lambda>_. go_wrap DNInvalid (ParseDN (se_lib E) (se_unicode E) (e_DN entry)))) (\<lambda>dn.
     tx_bind (tx_check (\<lambda>_. case DNIdentity entry of (normalized, present) \<Rightarrow>
         if present then go_bind (requireTrustedDNIdentityWrite E trusted db entry normalized) (\<lambda>_. Ok normalized)
         else Ok (Key dn))) (\<lambda>identity.
     tx_bind (tx_check (\<lambda>_. go_wrap (EntryIdentityInvalid (e_DN entry))
         (ValidateIdentityKey (se_lib E) (se_unicode E) dn identity))) (\<lambda>_.
     tx_bind (putInWithDN E db (WithoutDNIdentity entry) dn identity replace) (\<lambda>_.
     tx_bind (tx_modify (\<lambda>tx. if isSchemaAwareDNKey identity then tx
         else delete_metadata (schemaAwareDNMigrationMetadataKey db) tx)) (\<lambda>_.
     tx_bind (tx_modify (\<lambda>tx. if db \<noteq> [] then tx else delete_metadata partitionedEntryKeysMetadataKey tx)) (\<lambda>_.
       tx_modify (invalidateEqualityIndexes db)))))))))"

definition Put :: "store_env \<Rightarrow> trusted_writes \<Rightarrow> Entry \<Rightarrow> bool \<Rightarrow> unit tx_op" where
  "Put E trusted entry replace = PutIn E trusted [] entry replace"

text \<open>
  \<open>PutInWithDN\<close> vouches for the identity while \<open>PutIn\<close> runs, and takes it back however that ends.
\<close>

definition PutInWithDN ::
  "store_env \<Rightarrow> bytes \<Rightarrow> Entry \<Rightarrow> DN \<Rightarrow> bool \<Rightarrow> trusted_writes \<Rightarrow> memoryTx \<Rightarrow>
   (store_error, unit) go \<times> trusted_writes \<times> memoryTx" where
  "PutInWithDN E db entry dn replace trusted tx =
     (case go_bind (go_wrap DNInvalid (ParseDN (se_lib E) (se_unicode E) (e_DN entry))) (\<lambda>entryDN.
           go_bind (go_of_option (EqualExact (se_lib E) entryDN dn)) (\<lambda>same.
           if \<not> same then Err (DNDiffers (e_DN entry) (DN_String dn))
           else dnIdentityWriteKey E db entry (Key dn))) of
        Ok key \<Rightarrow>
          let trusted1 = trust key trusted in
          (case PutIn E trusted1 db (WithDNIdentity entry dn) replace tx of
             (result, tx') \<Rightarrow> (result, release_trust key trusted1, tx'))
      | Err e \<Rightarrow> (Err e, trusted, tx) | Panic \<Rightarrow> (Panic, trusted, tx))"

definition Delete :: "store_env \<Rightarrow> DN \<Rightarrow> unit tx_op" where
  "Delete E dn =
     tx_bind writable (\<lambda>_.
     tx_bind (tx_check (\<lambda>tx. get_loop E tx dn None (range_keys E ''Delete'' (fmdom (entries tx))))) (\<lambda>foundKey.
     case foundKey of None \<Rightarrow> tx_check (\<lambda>_. Err ErrEntryNotFound)
     | Some key \<Rightarrow> tx_bind (drop_entry key) (\<lambda>_. tx_modify (invalidateEqualityIndexes (partition_of key)))))"

definition DeleteIn :: "store_env \<Rightarrow> bytes \<Rightarrow> DN \<Rightarrow> unit tx_op" where
  "DeleteIn E db dn =
     tx_bind writable (\<lambda>_.
     tx_bind (tx_check (\<lambda>tx. find_in E ''DeleteIn'' tx db dn)) (\<lambda>key.
     tx_bind (drop_entry key) (\<lambda>_. tx_modify (invalidateEqualityIndexes db))))"

definition Clear :: "unit tx_op" where
  "Clear = tx_bind writable (\<lambda>_. tx_modify (\<lambda>tx.
     tx\<lparr>entries := fmempty, entryCounts := fmempty, dnIdentities := fmempty, dnSources := fmempty,
        equalityIndexConfigs := fmempty, equalityPostings := fmempty, namingContexts := [],
        metadata := fmempty\<rparr>))"

definition SetNamingContexts :: "bytes list \<Rightarrow> unit tx_op" where
  "SetNamingContexts contexts = tx_bind writable (\<lambda>_. tx_modify (\<lambda>tx. tx\<lparr>namingContexts := contexts\<rparr>))"

definition SetMetadata :: "store_env \<Rightarrow> bytes \<Rightarrow> bytes \<Rightarrow> unit tx_op" where
  "SetMetadata E key v =
     tx_bind writable (\<lambda>_.
     tx_bind (tx_check (\<lambda>_. poll E ''SetMetadata'' 0)) (\<lambda>_.
       tx_modify (\<lambda>tx. tx\<lparr>metadata := fmupd key v (metadata tx)\<rparr>)))"

definition DeleteMetadata :: "store_env \<Rightarrow> bytes \<Rightarrow> unit tx_op" where
  "DeleteMetadata E key =
     tx_bind writable (\<lambda>_.
     tx_bind (tx_check (\<lambda>_. poll E ''DeleteMetadata'' 0)) (\<lambda>_.
     tx_bind (tx_check (\<lambda>tx. if fmlookup (metadata tx) key = None then Err ErrMetadataNotFound else Ok ())) (\<lambda>_.
       tx_modify (delete_metadata key))))"

definition PartitionedEntryKeysCurrent :: "store_env \<Rightarrow> memoryTx \<Rightarrow> (store_error, bool) go" where
  "PartitionedEntryKeysCurrent E tx =
     (case Metadata E tx partitionedEntryKeysMetadataKey of
        Ok v \<Rightarrow> Ok (v = [CHR 0x01])
      | Err e \<Rightarrow> if e = ErrMetadataNotFound then Ok False else Err e
      | Panic \<Rightarrow> Panic)"

definition MarkPartitionedEntryKeys :: "store_env \<Rightarrow> unit tx_op" where
  "MarkPartitionedEntryKeys E = SetMetadata E partitionedEntryKeysMetadataKey [CHR 0x01]"

section \<open>The store\<close>

definition NewMemory :: Memory where
  "NewMemory = \<lparr>entries = fmempty, entryCounts = fmempty, dnIdentities = fmempty, dnSources = fmempty,
     equalityIndexConfigs = fmempty, equalityPostings = fmempty, namingContexts = [], metadata = fmempty,
     closed = False, m_revision = 0\<rparr>"

definition view_tx :: "Memory \<Rightarrow> memoryTx" where
  "view_tx store = \<lparr>entries = entries store, entryCounts = entryCounts store, dnIdentities = dnIdentities store,
     dnSources = dnSources store, equalityIndexConfigs = equalityIndexConfigs store,
     equalityPostings = equalityPostings store, namingContexts = namingContexts store,
     metadata = metadata store, readOnly = True, tx_revision = m_revision store\<rparr>"

text \<open>
  The copies that a write transaction starts from; entries are cloned, the other maps hold values
  that the model does not share anyway.
\<close>

definition update_tx :: "Memory \<Rightarrow> memoryTx" where
  "update_tx store = \<lparr>entries = fmmap Clone (entries store), entryCounts = entryCounts store,
     dnIdentities = dnIdentities store, dnSources = dnSources store,
     equalityIndexConfigs = equalityIndexConfigs store, equalityPostings = equalityPostings store,
     namingContexts = namingContexts store, metadata = metadata store, readOnly = False, tx_revision = 0\<rparr>"

definition commit :: "memoryTx \<Rightarrow> Memory \<Rightarrow> Memory" where
  "commit tx store = \<lparr>entries = entries tx, entryCounts = entryCounts tx, dnIdentities = dnIdentities tx,
     dnSources = dnSources tx, equalityIndexConfigs = equalityIndexConfigs tx,
     equalityPostings = equalityPostings tx, namingContexts = namingContexts tx, metadata = metadata tx,
     closed = closed store, m_revision = m_revision store + 1\<rparr>"

definition View :: "store_env \<Rightarrow> (memoryTx \<Rightarrow> (store_error, 'a) go) \<Rightarrow> Memory \<Rightarrow> (store_error, 'a) go" where
  "View E fn store =
     go_bind (poll E ''View'' 0) (\<lambda>_. if closed store then Err ContextDone else fn (view_tx store))"

definition Update :: "store_env \<Rightarrow> unit tx_op \<Rightarrow> Memory \<Rightarrow> (store_error, unit) go \<times> Memory" where
  "Update E fn store =
     (case poll E ''Update'' 0 of Err e \<Rightarrow> (Err e, store) | Panic \<Rightarrow> (Panic, store)
      | Ok _ \<Rightarrow>
          if closed store then (Err ContextDone, store)
          else (case fn (update_tx store) of
             (Ok _, tx) \<Rightarrow> (case poll E ''Update'' 1 of Ok _ \<Rightarrow> (Ok (), commit tx store)
               | Err e \<Rightarrow> (Err e, store) | Panic \<Rightarrow> (Panic, store))
           | (Err e, tx) \<Rightarrow> (Err e, store) | (Panic, tx) \<Rightarrow> (Panic, store)))"

definition Close :: "Memory \<Rightarrow> Memory" where
  "Close store = \<lparr>entries = fmempty, entryCounts = fmempty, dnIdentities = fmempty, dnSources = fmempty,
     equalityIndexConfigs = fmempty, equalityPostings = fmempty, namingContexts = [], metadata = fmempty,
     closed = True, m_revision = m_revision store\<rparr>"

definition CurrentStorageSnapshotRevision :: "Memory \<Rightarrow> uint64 \<times> bool" where
  "CurrentStorageSnapshotRevision store = (if closed store then (0, False) else (m_revision store, True))"

definition StorageSnapshotRevision :: "memoryTx \<Rightarrow> uint64 \<times> bool" where
  "StorageSnapshotRevision tx = (tx_revision tx, True)"

end
