(* ===== verification/Memory_Index.thy ===== *)
theory Memory_Index
  imports Memory_Store
begin

text \<open>
  The indexes of the in-memory engine, \<open>src/internal/storage/index_memory.go\<close>, the migration to
  schema-aware keys of \<open>memory.go\<close>, and the candidates of a filter, \<open>index.go\<close>.
\<close>

section \<open>The schema adapter's optional interfaces\<close>

record index_schema =
  is_schema :: EqualityIndexSchema
  is_normalizer :: "normalizer option"
  is_resolver :: "(bytes \<Rightarrow> dn_error + DN) option"

definition resolveEqualityIndexDNReference :: "store_env \<Rightarrow> index_schema \<Rightarrow> bytes \<Rightarrow> (store_error, DN) go" where
  "resolveEqualityIndexDNReference E schema reference =
     (case is_resolver schema of
        Some resolve \<Rightarrow> go_of_sum (CannotNormalizeReference reference) (resolve reference)
      | None \<Rightarrow> (case is_normalizer schema of
          None \<Rightarrow> Err SchemaCannotNormalize
        | Some n \<Rightarrow> go_wrap (CannotNormalizeReference reference)
            (ParseDNWithNormalizer (se_lib E) (se_unicode E) reference (Some n))))"

section \<open>Reading postings\<close>

definition postings_in :: "'a store_data_scheme \<Rightarrow> bytes \<Rightarrow> posting_map" where
  "postings_in tx db = map_zero fmempty (equalityPostings tx) db"

definition index_poll :: "store_env \<Rightarrow> string \<Rightarrow> (index_error, unit) go" where
  "index_poll E site = (if ctx_Err E site 0 then Err IndexContextDone else Ok ())"

definition equalityIndexConfig :: "store_env \<Rightarrow> memoryTx \<Rightarrow> bytes \<Rightarrow> (index_error, EqualityIndexConfig option) go" where
  "equalityIndexConfig E tx db =
     go_bind (index_poll E ''equalityIndexConfig'') (\<lambda>_. Ok (fmlookup (equalityIndexConfigs tx) db))"

definition memory_postings ::
  "store_env \<Rightarrow> memoryTx \<Rightarrow> bytes \<Rightarrow> bytes \<Rightarrow> char \<Rightarrow> bytes \<Rightarrow> (index_error, bytes list) go" where
  "memory_postings E tx db attribute kind v =
     go_bind (index_poll E ''equalityIndexPostings'') (\<lambda>_.
       let keys = map_zero {||} (postings_in tx db) (equalityIndexPostingPrefix db attribute kind v)
       in Ok (sort (range_keys E ''equalityIndexPostings'' keys)))"

fun ordering_loop ::
  "posting_map \<Rightarrow> bytes \<Rightarrow> bytes \<Rightarrow> bool \<Rightarrow> bytes fset \<Rightarrow> bytes list \<Rightarrow> (index_error, bytes fset) go" where
  "ordering_loop postings pre assertion greaterOrEqual keys [] = Ok keys"
| "ordering_loop postings pre assertion greaterOrEqual keys (t # ts) =
     (if \<not> HasPrefix t pre then ordering_loop postings pre assertion greaterOrEqual keys ts
      else go_bind (readOrderPreservingValue t (length pre)) (\<lambda>(v, position).
        if position \<noteq> length t then Err OrderingTrailingData
        else
          let comparison = bytes_Compare v assertion in
          if greaterOrEqual \<and> comparison < 0 \<or> \<not> greaterOrEqual \<and> 0 < comparison
          then ordering_loop postings pre assertion greaterOrEqual keys ts
          else ordering_loop postings pre assertion greaterOrEqual (keys |\<union>| map_zero {||} postings t) ts))"

definition memory_ordering_postings ::
  "store_env \<Rightarrow> memoryTx \<Rightarrow> bytes \<Rightarrow> bytes \<Rightarrow> bytes \<Rightarrow> bool \<Rightarrow> (index_error, bytes list) go" where
  "memory_ordering_postings E tx db attribute assertion greaterOrEqual =
     go_bind (index_poll E ''equalityIndexOrderingPostings'') (\<lambda>_.
       let pre = equalityIndexAttributeKindPrefix db attribute equalityIndexOrdering;
           postings = postings_in tx db in
       go_bind (ordering_loop postings pre assertion greaterOrEqual {||}
           (range_keys E ''equalityIndexOrderingPostings'' (fmdom postings))) (\<lambda>keys.
         Ok (sort (range_keys E ''orderingKeys'' keys))))"

definition memory_reader :: "store_env \<times> memoryTx \<Rightarrow> index_reader" where
  "memory_reader s = (case s of (E, tx) \<Rightarrow>
     \<lparr>equalityIndexPostings = memory_postings E tx, equalityIndexOrderingPostings = memory_ordering_postings E tx\<rparr>)"

text \<open>The entry a reference stands for: under its schema-aware key, or under its legacy key.\<close>

definition referenced_key :: "store_env \<Rightarrow> memoryTx \<Rightarrow> bytes \<Rightarrow> bytes \<Rightarrow> DN \<Rightarrow> (store_error, bytes) go" where
  "referenced_key E tx db reference dn =
     (let key = partitionedEntryKey db (Key dn) in
      if has_entry tx key then Ok key
      else go_bind (go_wrap DNInvalid (ParseDN (se_lib E) (se_unicode E) reference)) (\<lambda>legacy.
        let legacyKey = partitionedEntryKey db (Key legacy) in
        if has_entry tx legacyKey then Ok legacyKey else Err (MissingIndexedEntry legacyKey)))"

fun equalityIndexEntries_from ::
  "store_env \<Rightarrow> memoryTx \<Rightarrow> bytes \<Rightarrow> index_schema \<Rightarrow> nat \<Rightarrow> bytes list \<Rightarrow> (store_error, Entry list) go" where
  "equalityIndexEntries_from E tx db schema n [] = Ok []"
| "equalityIndexEntries_from E tx db schema n (reference # references) =
     go_bind (poll E ''equalityIndexEntries'' n) (\<lambda>_.
     go_bind (resolveEqualityIndexDNReference E schema reference) (\<lambda>dn.
     go_bind (referenced_key E tx db reference dn) (\<lambda>key.
     go_bind (validateEntry E tx key (entry_at tx key)) (\<lambda>_.
     go_bind (equalityIndexEntries_from E tx db schema (n + 1) references) (\<lambda>es.
       Ok (WithNormalizedDNHint (Clone (entry_at tx key)) dn
             (LegacyKey (se_lib E) (se_unicode E) dn @ [CHR 0x00] @ Key dn) # es))))))"

definition equalityIndexEntries ::
  "store_env \<Rightarrow> memoryTx \<Rightarrow> bytes \<Rightarrow> bytes list \<Rightarrow> index_schema \<Rightarrow> (store_error, Entry list) go" where
  "equalityIndexEntries E tx db references schema = equalityIndexEntries_from E tx db schema 0 references"

section \<open>Writing postings\<close>

definition addMemoryEqualityPosting ::
  "bytes \<Rightarrow> bytes \<Rightarrow> posting_map \<Rightarrow> bytes \<times> equalityIndexTerm \<Rightarrow> posting_map" where
  "addMemoryEqualityPosting db entryKey postings t = (case t of (attribute, kind, v) \<Rightarrow>
     let t = equalityIndexPostingPrefix db attribute kind v
     in fmupd t (finsert entryKey (map_zero {||} postings t)) postings)"

definition deleteMemoryEqualityPosting ::
  "bytes \<Rightarrow> bytes \<Rightarrow> posting_map \<Rightarrow> bytes \<times> equalityIndexTerm \<Rightarrow> posting_map" where
  "deleteMemoryEqualityPosting db entryKey postings t = (case t of (attribute, kind, v) \<Rightarrow>
     let t = equalityIndexPostingPrefix db attribute kind v; keys = map_zero {||} postings t |-| {|entryKey|}
     in if keys = {||} then fmdrop t postings else fmupd t keys postings)"

text \<open>
  The terms of an entry in the order the loop visits them. The map of terms has one key for each
  attribute of the configuration.
\<close>

definition entry_term_list ::
  "store_env \<Rightarrow> string \<Rightarrow> EqualityIndexConfig \<Rightarrow> (bytes \<rightharpoonup> equalityIndexAttributeTerms) \<Rightarrow> (bytes \<times> equalityIndexTerm) list" where
  "entry_term_list E site config terms =
     concat (map (\<lambda>attribute.
       (case equalityIndexAttributeDefinition config attribute of None \<Rightarrow> []
        | Some d \<Rightarrow> map (Pair attribute) (equalityIndexTermsForAttribute d (terms_of terms attribute))))
       (range_keys E site (fset_of_list (map ia_Attribute (ic_Attributes config)))))"

definition addEqualityIndexEntry ::
  "store_env \<Rightarrow> bytes \<Rightarrow> Entry \<Rightarrow> EqualityIndexSchema \<Rightarrow> EqualityIndexConfig \<Rightarrow> unit tx_op" where
  "addEqualityIndexEntry E db entry schema config =
     tx_bind (tx_check (\<lambda>_. go_wrap IndexFailed (equalityIndexEntryTerms schema config entry))) (\<lambda>terms tx.
       let ts = entry_term_list E ''addEqualityIndexEntry'' config terms in
       case fmlookup (equalityPostings tx) db of
         None \<Rightarrow> if ts = [] then (Ok (), tx) else (Panic, tx)
       | Some postings \<Rightarrow> (Ok (), tx\<lparr>equalityPostings :=
           fmupd db (foldl (addMemoryEqualityPosting db (e_DN entry)) postings ts) (equalityPostings tx)\<rparr>))"

definition removeEqualityIndexEntry ::
  "store_env \<Rightarrow> bytes \<Rightarrow> Entry \<Rightarrow> EqualityIndexSchema \<Rightarrow> EqualityIndexConfig \<Rightarrow> unit tx_op" where
  "removeEqualityIndexEntry E db entry schema config =
     tx_bind (tx_check (\<lambda>_. go_wrap IndexFailed (equalityIndexEntryTerms schema config entry))) (\<lambda>terms tx.
       let ts = entry_term_list E ''removeEqualityIndexEntry'' config terms in
       case fmlookup (equalityPostings tx) db of
         None \<Rightarrow> (Ok (), tx)
       | Some postings \<Rightarrow> (Ok (), tx\<lparr>equalityPostings :=
           fmupd db (foldl (deleteMemoryEqualityPosting db (e_DN entry)) postings ts) (equalityPostings tx)\<rparr>))"

definition keys_in :: "store_env \<Rightarrow> string \<Rightarrow> memoryTx \<Rightarrow> bytes \<Rightarrow> bytes list" where
  "keys_in E site tx db = sort (filter (\<lambda>key. partition_of key = db) (range_keys E site (fmdom (entries tx))))"

definition index_keys ::
  "store_env \<Rightarrow> bytes \<Rightarrow> EqualityIndexSchema \<Rightarrow> EqualityIndexConfig \<Rightarrow> bytes list \<Rightarrow> unit tx_op" where
  "index_keys E db schema config keys =
     tx_foreach keys (\<lambda>key tx. addEqualityIndexEntry E db (entry_at tx key) schema config tx)"

definition buildEqualityIndexes ::
  "store_env \<Rightarrow> bytes \<Rightarrow> EqualityIndexSchema \<Rightarrow> EqualityIndexConfig \<Rightarrow> unit tx_op" where
  "buildEqualityIndexes E db schema config =
     tx_bind (tx_modify (\<lambda>tx. tx\<lparr>equalityIndexConfigs := fmupd db config (equalityIndexConfigs tx),
        equalityPostings := fmupd db fmempty (equalityPostings tx)\<rparr>)) (\<lambda>_.
     tx_bind (tx_check (\<lambda>tx. Ok (keys_in E ''buildEqualityIndexes'' tx db))) (\<lambda>keys.
       index_keys E db schema config keys))"

definition wanted_config :: "store_env \<Rightarrow> EqualityIndexSchema \<Rightarrow> (store_error, EqualityIndexConfig) go" where
  "wanted_config E schema =
     go_wrap IndexFailed (normalizeEqualityIndexConfig (se_unicode E) (EqualityIndexConfiguration schema))"

definition ensureEqualityIndexes :: "store_env \<Rightarrow> bytes \<Rightarrow> EqualityIndexSchema \<Rightarrow> EqualityIndexConfig tx_op" where
  "ensureEqualityIndexes E db schema =
     tx_bind (tx_check (\<lambda>_. wanted_config E schema)) (\<lambda>config tx.
       case fmlookup (equalityIndexConfigs tx) db of
         Some current \<Rightarrow>
           if equalityIndexConfigsEqual (Marshal_config E) current config then (Ok config, tx)
           else tx_bind (buildEqualityIndexes E db schema config) (\<lambda>_. tx_check (\<lambda>_. Ok config)) tx
       | None \<Rightarrow> tx_bind (buildEqualityIndexes E db schema config) (\<lambda>_. tx_check (\<lambda>_. Ok config)) tx)"

definition schemaAwareEntryKeys :: "store_env \<Rightarrow> memoryTx \<Rightarrow> bytes \<Rightarrow> DN \<Rightarrow> index_schema \<Rightarrow> (store_error, bytes list) go" where
  "schemaAwareEntryKeys E tx db dn schema =
     (if is_normalizer schema = None then Err SchemaCannotNormalize
      else let key = partitionedEntryKey db (Key dn) in
        if \<not> has_entry tx key then Ok []
        else go_bind (validateEntry E tx key (entry_at tx key)) (\<lambda>_. Ok [key]))"

definition unindex_and_drop ::
  "store_env \<Rightarrow> bytes \<Rightarrow> EqualityIndexSchema \<Rightarrow> EqualityIndexConfig \<Rightarrow> bytes \<Rightarrow> unit tx_op" where
  "unindex_and_drop E db schema config key =
     tx_bind (\<lambda>tx. removeEqualityIndexEntry E db (entry_at tx key) schema config tx) (\<lambda>_. drop_entry key)"

definition putInWithEqualityIndexes ::
  "store_env \<Rightarrow> bytes \<Rightarrow> Entry \<Rightarrow> DN \<Rightarrow> bool \<Rightarrow> index_schema \<Rightarrow> unit tx_op" where
  "putInWithEqualityIndexes E db entry dn replace schema =
     tx_bind writable (\<lambda>_.
     tx_bind (tx_check (\<lambda>_. poll E ''putInWithEqualityIndexes'' 0)) (\<lambda>_.
     tx_bind (ensureEqualityIndexes E db (is_schema schema)) (\<lambda>config.
     tx_bind (tx_check (\<lambda>tx. schemaAwareEntryKeys E tx db dn schema)) (\<lambda>existingKeys.
     tx_bind (tx_check (\<lambda>_. if existingKeys \<noteq> [] \<and> \<not> replace then Err ErrEntryExists else Ok ())) (\<lambda>_.
     tx_bind (tx_foreach existingKeys (unindex_and_drop E db (is_schema schema) config)) (\<lambda>_.
     tx_bind (putInWithDN E db (WithoutDNIdentity entry) dn (Key dn) False) (\<lambda>_.
       addEqualityIndexEntry E db entry (is_schema schema) config)))))))"

definition deleteInWithEqualityIndexes ::
  "store_env \<Rightarrow> bytes \<Rightarrow> DN \<Rightarrow> index_schema \<Rightarrow> unit tx_op" where
  "deleteInWithEqualityIndexes E db dn schema =
     tx_bind writable (\<lambda>_.
     tx_bind (tx_check (\<lambda>_. poll E ''deleteInWithEqualityIndexes'' 0)) (\<lambda>_.
     tx_bind (ensureEqualityIndexes E db (is_schema schema)) (\<lambda>config.
     tx_bind (tx_check (\<lambda>tx. schemaAwareEntryKeys E tx db dn schema)) (\<lambda>keys.
     case keys of [] \<Rightarrow> tx_check (\<lambda>_. Err ErrEntryNotFound)
     | key # _ \<Rightarrow> unindex_and_drop E db (is_schema schema) config key))))"

definition rebuildEqualityIndexes :: "store_env \<Rightarrow> bytes \<Rightarrow> EqualityIndexSchema \<Rightarrow> unit tx_op" where
  "rebuildEqualityIndexes E db schema =
     tx_bind writable (\<lambda>_.
     tx_bind (tx_check (\<lambda>_. wanted_config E schema)) (\<lambda>config. buildEqualityIndexes E db schema config))"

definition drop_terms :: "bytes \<Rightarrow> EqualityIndexConfig \<Rightarrow> memoryTx \<Rightarrow> memoryTx" where
  "drop_terms db selected tx =
     (case fmlookup (equalityPostings tx) db of None \<Rightarrow> tx
      | Some postings \<Rightarrow> tx\<lparr>equalityPostings := fmupd db
          (foldl (\<lambda>ps d. fmfilter (\<lambda>t. \<not> HasPrefix t (equalityIndexAttributePrefix db (ia_Attribute d))) ps)
             postings (ic_Attributes selected)) (equalityPostings tx)\<rparr>)"

definition rebuildSelectedEqualityIndexes ::
  "store_env \<Rightarrow> bytes \<Rightarrow> EqualityIndexSchema \<Rightarrow> bytes list \<Rightarrow> unit tx_op" where
  "rebuildSelectedEqualityIndexes E db schema attributes =
     tx_bind writable (\<lambda>_.
     tx_bind (tx_check (\<lambda>_. wanted_config E schema)) (\<lambda>want.
     tx_bind (tx_check (\<lambda>_. go_wrap IndexFailed (selectedEqualityIndexConfig (se_unicode E) want attributes))) (\<lambda>selected tx.
       case map_option (normalizeEqualityIndexConfig (se_unicode E)) (fmlookup (equalityIndexConfigs tx) db) of
         Some (Ok current) \<Rightarrow>
           if \<not> equalityIndexConfigsEqual (Marshal_config E) current want
           then buildEqualityIndexes E db schema want tx
           else tx_bind (tx_modify (drop_terms db selected)) (\<lambda>_.
                tx_bind (tx_check (\<lambda>tx. Ok (keys_in E ''rebuildSelectedEqualityIndexes'' tx db))) (\<lambda>keys.
                  index_keys E db schema selected keys)) tx
       | Some Panic \<Rightarrow> (Panic, tx)
       | _ \<Rightarrow> buildEqualityIndexes E db schema want tx)))"

section \<open>Migration to schema-aware keys\<close>

record DNIdentityMigrationReport =
  mr_Entries :: nat
  mr_Migrated :: nat
  mr_AlreadyCurrent :: nat

record migrationEntry =
  me_oldKey :: bytes
  me_newKey :: bytes
  me_entry :: Entry
  me_identity :: bytes

fun migration_entries ::
  "store_env \<Rightarrow> memoryTx \<Rightarrow> bytes \<Rightarrow> normalizer \<Rightarrow> migrationEntry list \<Rightarrow> bytes list \<Rightarrow> (store_error, migrationEntry list) go" where
  "migration_entries E tx db N done [] = Ok done"
| "migration_entries E tx db N done (key # keys) =
     (let entry = entry_at tx key in
      if partition_of key \<noteq> db then migration_entries E tx db N done keys
      else
        go_bind (validateEntry E tx key entry) (\<lambda>_.
        go_bind (go_wrap (NormalizeEntry (e_DN entry))
            (ParseDNWithNormalizer (se_lib E) (se_unicode E) (e_DN entry) (Some N))) (\<lambda>normalized.
          let identity = Key normalized; newKey = partitionedEntryKey db identity in
          case find (\<lambda>m. me_newKey m = newKey) done of
            Some previous \<Rightarrow> Err (SameIdentity (e_DN (me_entry previous)) (e_DN entry))
          | None \<Rightarrow> migration_entries E tx db N
              (done @ [\<lparr>me_oldKey = key, me_newKey = newKey, me_entry = Clone entry, me_identity = identity\<rparr>]) keys)))"

definition move_out :: "memoryTx \<Rightarrow> migrationEntry \<Rightarrow> memoryTx" where
  "move_out tx m =
     (if me_oldKey m = me_newKey m then tx
      else forget_identity (me_oldKey m) (tx\<lparr>entries := fmdrop (me_oldKey m) (entries tx)\<rparr>))"

definition move_in :: "memoryTx \<Rightarrow> migrationEntry \<Rightarrow> memoryTx" where
  "move_in tx m =
     set_identity (me_newKey m) (me_identity m) (e_DN (me_entry m))
       (tx\<lparr>entries := fmupd (me_newKey m) (me_entry m) (entries tx)\<rparr>)"

definition set_count :: "bytes \<Rightarrow> nat \<Rightarrow> memoryTx \<Rightarrow> memoryTx" where
  "set_count db n tx =
     tx\<lparr>entryCounts := (if n = 0 then fmdrop db (entryCounts tx) else fmupd db (of_nat n) (entryCounts tx))\<rparr>"

definition migration_report :: "migrationEntry list \<Rightarrow> DNIdentityMigrationReport" where
  "migration_report ms =
     \<lparr>mr_Entries = length ms, mr_Migrated = length (filter (\<lambda>m. me_oldKey m \<noteq> me_newKey m) ms),
      mr_AlreadyCurrent = length (filter (\<lambda>m. me_oldKey m = me_newKey m) ms)\<rparr>"

definition apply_migration :: "bytes \<Rightarrow> migrationEntry list \<Rightarrow> memoryTx \<Rightarrow> memoryTx" where
  "apply_migration db ms tx =
     setSchemaAwareDNIdentityReady db (set_count db (length ms) (foldl move_in (foldl move_out tx ms) ms))"

definition reindex_migrated :: "store_env \<Rightarrow> bytes \<Rightarrow> EqualityIndexSchema option \<Rightarrow> bool \<Rightarrow> unit tx_op" where
  "reindex_migrated E db indexSchema indexed =
     (case indexSchema of
        Some schema \<Rightarrow>
          if indexed then tx_bind (tx_check (\<lambda>_. wanted_config E schema)) (buildEqualityIndexes E db schema)
          else tx_check (\<lambda>_. Ok ())
      | None \<Rightarrow> tx_check (\<lambda>_. Ok ()))"

definition migration_plan ::
  "store_env \<Rightarrow> bytes \<Rightarrow> normalizer \<Rightarrow> EqualityIndexSchema option \<Rightarrow> memoryTx \<Rightarrow> (store_error, migrationEntry list \<times> bool) go" where
  "migration_plan E db N indexSchema tx =
     go_bind (migration_entries E tx db N []
         (range_keys E ''migrateSchemaAwareDNIdentitiesIn'' (fmdom (entries tx)))) (\<lambda>ms.
       let indexed = (fmlookup (equalityIndexConfigs tx) db \<noteq> None) in
       if indexed \<and> indexSchema = None then Err MigrationNeedsSchema else Ok (ms, indexed))"

definition migrateSchemaAwareDNIdentitiesIn ::
  "store_env \<Rightarrow> bytes \<Rightarrow> normalizer \<Rightarrow> EqualityIndexSchema option \<Rightarrow> DNIdentityMigrationReport tx_op" where
  "migrateSchemaAwareDNIdentitiesIn E db N indexSchema =
     tx_bind writable (\<lambda>_.
     tx_bind (tx_check (\<lambda>_. poll E ''migrateSchemaAwareDNIdentitiesIn'' 0)) (\<lambda>_.
     tx_bind (tx_check (migration_plan E db N indexSchema)) (\<lambda>(ms, indexed).
     tx_bind (tx_modify (apply_migration db ms)) (\<lambda>_.
     tx_bind (reindex_migrated E db indexSchema indexed) (\<lambda>_.
       tx_check (\<lambda>_. Ok (migration_report ms)))))))"

fun bindings_loop :: "store_env \<Rightarrow> memoryTx \<Rightarrow> bytes \<Rightarrow> normalizer \<Rightarrow> bytes list \<Rightarrow> (store_error, unit) go" where
  "bindings_loop E tx db N [] = Ok ()"
| "bindings_loop E tx db N (key # keys) =
     (case splitPartitionedEntryKey key of (entryPartition, physicalKey) \<Rightarrow>
      let entry = entry_at tx key in
      if entryPartition \<noteq> db \<or> \<not> isSchemaAwareDNKey physicalKey then bindings_loop E tx db N keys
      else
        go_bind (validateEntry E tx key entry) (\<lambda>_.
        go_bind (go_wrap (CannotNormalize key (e_DN entry))
            (ParseDNWithNormalizer (se_lib E) (se_unicode E) (e_DN entry) (Some N))) (\<lambda>normalized.
          if Key normalized \<noteq> physicalKey then Err (KeyDiffersFromName key (e_DN entry))
          else bindings_loop E tx db N keys)))"

definition validateSchemaAwareDNBindingsIn :: "store_env \<Rightarrow> memoryTx \<Rightarrow> bytes \<Rightarrow> normalizer \<Rightarrow> (store_error, unit) go" where
  "validateSchemaAwareDNBindingsIn E tx db N =
     bindings_loop E tx db N (range_keys E ''validateSchemaAwareDNBindingsIn'' (fmdom (entries tx)))"

definition ValidateSchemaAwareDNIdentities ::
  "store_env \<Rightarrow> memoryTx \<Rightarrow> bytes \<Rightarrow> normalizer \<Rightarrow> (store_error, unit) go" where
  "ValidateSchemaAwareDNIdentities E tx db N =
     go_bind (schemaAwareDNIdentityReady E tx db) (\<lambda>ready.
       if \<not> ready then Err (ErrDNIdentityMigrationRequired db)
       else validateSchemaAwareDNBindingsIn E tx db N)"

definition ensureSchemaAwareDNIdentities ::
  "store_env \<Rightarrow> bytes \<Rightarrow> normalizer \<Rightarrow> EqualityIndexSchema option \<Rightarrow> unit tx_op" where
  "ensureSchemaAwareDNIdentities E db N indexSchema =
     tx_bind (tx_check (\<lambda>tx. schemaAwareDNIdentityReady E tx db)) (\<lambda>ready.
       if ready then tx_check (\<lambda>_. Ok ())
       else tx_bind (migrateSchemaAwareDNIdentitiesIn E db N indexSchema) (\<lambda>_. tx_check (\<lambda>_. Ok ())))"

definition EnsureEqualityIndexes :: "store_env \<Rightarrow> bytes \<Rightarrow> index_schema \<Rightarrow> unit tx_op" where
  "EnsureEqualityIndexes E db schema =
     tx_bind (case is_normalizer schema of
         Some N \<Rightarrow> ensureSchemaAwareDNIdentities E db N (Some (is_schema schema)) | None \<Rightarrow> tx_check (\<lambda>_. Ok ())) (\<lambda>_.
     tx_bind (tx_check (\<lambda>tx. go_wrap IndexFailed (equalityIndexConfig E tx db))) (\<lambda>current.
     tx_bind (tx_check (\<lambda>_. wanted_config E (is_schema schema))) (\<lambda>want tx.
       case map_option (normalizeEqualityIndexConfig (se_unicode E)) current of
         Some (Ok current) \<Rightarrow>
           if equalityIndexConfigsEqual (Marshal_config E) current want then (Ok (), tx)
           else rebuildEqualityIndexes E db (is_schema schema) tx
       | Some Panic \<Rightarrow> (Panic, tx)
       | _ \<Rightarrow> rebuildEqualityIndexes E db (is_schema schema) tx)))"

section \<open>Candidates of a filter\<close>

text \<open>
  The reader's path over this engine: there is no encoded candidate, and every entry comes with its
  normalised name, so that a \<open>DNIdentityHintResolver\<close> has nothing left to resolve.
\<close>

definition planCurrentEqualityIndexCandidates ::
  "store_env \<Rightarrow> memoryTx \<Rightarrow> bytes \<Rightarrow> index_schema \<Rightarrow> Filter \<Rightarrow> (store_error, Entry list option) go" where
  "planCurrentEqualityIndexCandidates E tx db schema f =
     (if Kind f = FilterEquality then
        go_bind (go_wrap IndexFailed (go_of_sum SchemaError
            (ResolveEqualityIndexAttribute (is_schema schema) (filter_Attribute f)))) (\<lambda>(attribute, equality, _).
        if \<not> equality then Ok None
        else
          go_bind (go_wrap IndexFailed (go_of_sum SchemaError
              (NormalizeEqualityIndexAssertion (is_schema schema) (filter_Attribute f) (Assertion f)))) (\<lambda>normalized.
          go_bind (go_wrap IndexFailed (memory_postings E tx db attribute equalityIndexValue normalized)) (\<lambda>references.
          go_bind (equalityIndexEntries E tx db (sort references) schema) (\<lambda>es. Ok (Some es)))))
      else
        go_bind (go_wrap IndexFailed (planEqualityIndexFilter (memory_reader (E, tx)) db (is_schema schema) f)) (\<lambda>keys.
        case keys of None \<Rightarrow> Ok None
        | Some ks \<Rightarrow> go_bind (equalityIndexEntries E tx db (sorted_list_of_set ks) schema) (\<lambda>es. Ok (Some es))))"

end
