(* ===== verification/Store_Invariants.thy ===== *)
theory Store_Invariants
  imports Memory_Index
begin

text \<open>
  Invariants of the in-memory engine. The locale \<open>store_invariant\<close> collects what an invariant of the
  entries needs to survive every operation; it is interpreted for the entry counts and for the
  bindings of names to keys, and both hold in every store that transactions reach.
\<close>

section \<open>Reasoning about operations\<close>

text \<open>An operation keeps a property of the state, whether it succeeds or fails.\<close>

definition keeps :: "(memoryTx \<Rightarrow> bool) \<Rightarrow> 'a tx_op \<Rightarrow> bool" where
  "keeps I m \<longleftrightarrow> (\<forall>tx. I tx \<longrightarrow> I (snd (m tx)))"

lemma keepsD: "keeps I m \<Longrightarrow> I tx \<Longrightarrow> I (snd (m tx))"
  by (simp add: keeps_def)

lemma keeps_bind: "keeps I m \<Longrightarrow> (\<And>x. keeps I (f x)) \<Longrightarrow> keeps I (tx_bind m f)"
  unfolding keeps_def tx_bind_def by (fastforce split: prod.splits go.splits)

lemma keeps_check: "keeps I (tx_check f)"
  by (simp add: keeps_def tx_check_def)

lemma keeps_modify: "(\<And>tx. I tx \<Longrightarrow> I (f tx)) \<Longrightarrow> keeps I (tx_modify f)"
  by (simp add: keeps_def tx_modify_def)

lemma keeps_writable: "keeps I writable"
  by (simp add: writable_def keeps_check)

lemma keeps_foreach: "(\<And>x. x \<in> set xs \<Longrightarrow> keeps I (f x)) \<Longrightarrow> keeps I (tx_foreach xs f)"
  by (induction xs) (auto intro: keeps_bind keeps_check)

lemma keeps_if: "(b \<Longrightarrow> keeps I m) \<Longrightarrow> (\<not> b \<Longrightarrow> keeps I m') \<Longrightarrow> keeps I (if b then m else m')"
  by simp

lemma keeps_option: "keeps I m \<Longrightarrow> (\<And>x. keeps I (f x)) \<Longrightarrow> keeps I (case v of None \<Rightarrow> m | Some x \<Rightarrow> f x)"
  by (cases v) auto

lemma tx_bind_modify [simp]: "tx_bind (tx_modify f) g tx = g () (f tx)"
  by (simp add: tx_bind_def tx_modify_def)

lemma keeps_modify_then: "(\<And>tx. I tx \<Longrightarrow> I (snd (g () (f tx)))) \<Longrightarrow> keeps I (tx_bind (tx_modify f) g)"
  by (simp add: keeps_def)

lemma keeps_check_then:
  assumes "\<And>x. f = Ok x \<Longrightarrow> keeps I (g x)"
  shows "keeps I (tx_bind (tx_check (\<lambda>_. f)) g)"
  using assms by (auto simp: keeps_def tx_bind_def tx_check_def split: go.splits)

lemma keeps_assuming:
  assumes "\<And>tx x. I tx \<Longrightarrow> f tx = Ok x \<Longrightarrow> I (snd (g x tx))"
  shows "keeps I (tx_bind (tx_check f) g)"
  using assms by (auto simp: keeps_def tx_bind_def tx_check_def split: go.splits)

lemma keeps_case_config:
  assumes "keeps I build" "\<And>c. keeps I (f c)"
  shows "keeps I (\<lambda>tx. case g tx of Some (Ok c) \<Rightarrow> f c tx | Some Panic \<Rightarrow> (Panic, tx) | _ \<Rightarrow> build tx)"
  using assms by (auto simp: keeps_def split: option.splits go.splits)

lemmas keeps_intros = keeps_bind keeps_check keeps_writable keeps_if keeps_option

text \<open>A successful sequence passes through a state in between.\<close>

lemma tx_bind_Ok:
  "tx_bind m f tx = (Ok y, tx') \<longleftrightarrow> (\<exists>x tx1. m tx = (Ok x, tx1) \<and> f x tx1 = (Ok y, tx'))"
  by (auto simp: tx_bind_def split: prod.splits go.splits)

lemma tx_check_Ok: "tx_check f tx = (Ok x, tx') \<longleftrightarrow> f tx = Ok x \<and> tx' = tx"
  by (auto simp: tx_check_def)

lemma tx_modify_Ok: "tx_modify f tx = (Ok x, tx') \<longleftrightarrow> tx' = f tx"
  by (auto simp: tx_modify_def)

lemma writable_Ok: "writable tx = (Ok x, tx') \<longleftrightarrow> \<not> readOnly tx \<and> tx' = tx"
  by (auto simp: writable_def tx_check_def)

lemma poll_Ok [simp]: "poll E site n = Ok x \<longleftrightarrow> \<not> ctx_Err E site n"
  by (auto simp: poll_def)

lemmas tx_Ok = tx_bind_Ok tx_check_Ok tx_modify_Ok writable_Ok

lemma Clone_same [simp]: "Clone e = e"
proof -
  have "map (\<lambda>a. \<lparr>Description = Description a, Values = Values a, RawNormalized = RawNormalized a\<rparr>) as = as" for as :: "Attribute list"
    by (induction as) auto
  then show ?thesis by (simp add: Clone_def cloneValues_def)
qed

lemma map_zero_simps [simp]:
  "map_zero z fmempty k = z"
  "map_zero z (fmupd k' v m) k = (if k = k' then v else map_zero z m k)"
  "map_zero z (fmdrop k' m) k = (if k = k' then z else map_zero z m k)"
  by (auto simp: map_zero_def)

lemma map_zero_Some: "fmlookup m k = Some v \<Longrightarrow> map_zero z m k = v"
  by (simp add: map_zero_def)

section \<open>Keys of partitions\<close>

definition nul_free :: "bytes \<Rightarrow> bool" where
  "nul_free db \<longleftrightarrow> CHR 0x00 \<notin> set db"

lemma split_partitioned [simp]:
  "nul_free db \<Longrightarrow> splitPartitionedEntryKey (partitionedEntryKey db dnKey) = (db, dnKey)"
proof -
  assume "nul_free db"
  then have "takeWhile (\<lambda>c. c \<noteq> CHR 0x00) (db @ CHR 0x00 # dnKey) = db"
    "dropWhile (\<lambda>c. c \<noteq> CHR 0x00) (db @ CHR 0x00 # dnKey) = CHR 0x00 # dnKey"
    by (induction db) (auto simp: nul_free_def)
  then show ?thesis by (simp add: splitPartitionedEntryKey_def partitionedEntryKey_def)
qed

lemma partition_key_inj [simp]: "partitionedEntryKey db x = partitionedEntryKey db y \<longleftrightarrow> x = y"
  by (simp add: partitionedEntryKey_def)

section \<open>Entry counts\<close>

definition keys_of :: "'a store_data_scheme \<Rightarrow> bytes \<Rightarrow> bytes set" where
  "keys_of tx db = {key. key |\<in>| fmdom (entries tx) \<and> partition_of key = db}"

lemma finite_keys_of [simp]: "finite (keys_of tx db)"
  by (rule finite_subset [of _ "fset (fmdom (entries tx))"]) (auto simp: keys_of_def)

definition counts_ok :: "'a store_data_scheme \<Rightarrow> bool" where
  "counts_ok tx \<longleftrightarrow> (\<forall>db. map_zero 0 (entryCounts tx) db = of_nat (card (keys_of tx db)))"

lemma has_entry_iff: "has_entry tx key \<longleftrightarrow> key |\<in>| fmdom (entries tx)"
  by (auto simp: has_entry_def fmlookup_dom_iff)

lemma putEntry_counts:
  assumes "counts_ok tx" "partition_of key = db"
  shows "counts_ok (putEntry db key entry tx)"
proof -
  have k: "keys_of (putEntry db key entry tx) db' = (if db' = db then insert key (keys_of tx db') else keys_of tx db')" for db'
    using assms(2) by (auto simp: keys_of_def putEntry_def Let_def)
  have "card (insert key (keys_of tx db)) = (if has_entry tx key then card (keys_of tx db) else card (keys_of tx db) + 1)"
    using assms(2) by (auto simp: card_insert_if keys_of_def has_entry_iff)
  moreover have "entryCounts (putEntry db key entry tx) =
      (if has_entry tx key then entryCounts tx else fmupd db (map_zero 0 (entryCounts tx) db + 1) (entryCounts tx))"
    by (simp add: putEntry_def Let_def)
  ultimately show ?thesis using assms(1) unfolding counts_ok_def k by (auto simp: add.commute)
qed

lemma deleteEntry_counts: "keeps counts_ok (deleteEntry key)"
  unfolding keeps_def
proof (intro allI impI)
  fix tx :: memoryTx assume ok: "counts_ok tx"
  let ?db = "partition_of key"
  let ?tx = "snd (deleteEntry key tx)"
  show "counts_ok ?tx"
  proof (cases "has_entry tx key \<and> map_zero 0 (entryCounts tx) ?db \<noteq> 0")
    case True
    then have tx: "?tx = tx\<lparr>entries := fmdrop key (entries tx),
        entryCounts := (if map_zero 0 (entryCounts tx) ?db = 1 then fmdrop ?db (entryCounts tx)
          else fmupd ?db (map_zero 0 (entryCounts tx) ?db - 1) (entryCounts tx))\<rparr>"
      by (simp add: deleteEntry_def Let_def)
    have k: "keys_of ?tx db' = (if db' = ?db then keys_of tx db' - {key} else keys_of tx db')" for db'
      unfolding tx by (auto simp: keys_of_def)
    have "key \<in> keys_of tx ?db" using True by (simp add: keys_of_def has_entry_iff)
    then have "Suc (card (keys_of tx ?db - {key})) = card (keys_of tx ?db)" by (rule card_Suc_Diff1 [OF finite_keys_of])
    then have "(of_nat (card (keys_of tx ?db - {key})) :: uint64) = of_nat (card (keys_of tx ?db)) - 1"
      by (metis add_diff_cancel_left' of_nat_Suc)
    moreover have c: "map_zero 0 (entryCounts ?tx) db' =
        (if db' = ?db then map_zero 0 (entryCounts tx) ?db - 1 else map_zero 0 (entryCounts tx) db')" for db'
      by (simp add: tx)
    ultimately have "map_zero 0 (entryCounts ?tx) db' = of_nat (card (keys_of ?tx db'))" for db'
      using ok unfolding counts_ok_def k c by (cases "db' = ?db") simp_all
    then show ?thesis by (simp add: counts_ok_def)
  next
    case False
    with ok show ?thesis by (auto simp: deleteEntry_def Let_def)
  qed
qed

lemma counts_other [simp]:
  "counts_ok (forget_identity key tx) = counts_ok tx" "counts_ok (set_identity key i s tx) = counts_ok tx"
  "counts_ok (invalidateEqualityIndexes db tx) = counts_ok tx" "counts_ok (delete_metadata key tx) = counts_ok tx"
  "counts_ok (setSchemaAwareDNIdentityReady db tx) = counts_ok tx"
  "counts_ok (tx\<lparr>metadata := m\<rparr>) = counts_ok tx" "counts_ok (tx\<lparr>namingContexts := c\<rparr>) = counts_ok tx"
  "counts_ok (tx\<lparr>equalityPostings := p\<rparr>) = counts_ok tx"
  "counts_ok (tx\<lparr>equalityIndexConfigs := ic\<rparr>) = counts_ok tx"
  by (simp_all add: counts_ok_def keys_of_def forget_identity_def set_identity_def invalidateEqualityIndexes_def
      delete_metadata_def setSchemaAwareDNIdentityReady_def)

section \<open>Invariants that writes keep\<close>

text \<open>
  What an invariant of the entries needs to survive every operation but the insertion of an
  entry: it is kept when an entry is dropped, holds of the empty store, and does not look at the
  indexes, the metadata and the naming contexts.
\<close>

locale store_invariant =
  fixes I :: "memoryTx \<Rightarrow> bool"
  assumes drop_entry_keeps: "keeps I (drop_entry key)"
    and postings_blind: "I (tx\<lparr>equalityPostings := p\<rparr>) = I tx"
    and configs_blind: "I (tx\<lparr>equalityIndexConfigs := c\<rparr>) = I tx"
    and metadata_blind: "I (tx\<lparr>metadata := m\<rparr>) = I tx"
    and naming_blind: "I (tx\<lparr>namingContexts := n\<rparr>) = I tx"
    and cleared: "I (tx\<lparr>entries := fmempty, entryCounts := fmempty, dnIdentities := fmempty, dnSources := fmempty\<rparr>)"
begin

lemma blind [simp]:
  "I (invalidateEqualityIndexes db tx) = I tx" "I (delete_metadata key tx) = I tx"
  "I (setSchemaAwareDNIdentityReady db tx) = I tx" "I (drop_terms db selected tx) = I tx"
  by (simp_all add: invalidateEqualityIndexes_def delete_metadata_def setSchemaAwareDNIdentityReady_def drop_terms_def
      postings_blind configs_blind metadata_blind split: option.splits)

lemma mark_ready_keeps: "keeps I (markSchemaAwareDNIdentityReadyIfNoLegacy E db)"
  unfolding markSchemaAwareDNIdentityReadyIfNoLegacy_def by (intro keeps_intros keeps_modify) simp

lemma Delete_keeps: "keeps I (Delete E dn)"
  unfolding Delete_def by (intro keeps_intros keeps_modify drop_entry_keeps) simp

lemma DeleteIn_keeps: "keeps I (DeleteIn E db dn)"
  unfolding DeleteIn_def by (intro keeps_intros keeps_modify drop_entry_keeps) simp

lemma Clear_keeps: "keeps I Clear"
  unfolding Clear_def
  by (intro keeps_intros keeps_modify)
    (simp add: cleared postings_blind configs_blind metadata_blind naming_blind)

lemma metadata_keeps:
  "keeps I (SetNamingContexts cs)" "keeps I (SetMetadata E key v)" "keeps I (DeleteMetadata E key)"
  unfolding SetNamingContexts_def SetMetadata_def DeleteMetadata_def
  by (intro keeps_intros keeps_modify; simp add: naming_blind metadata_blind)+

lemma index_entry_keeps:
  "keeps I (addEqualityIndexEntry E db entry schema config)"
  "keeps I (removeEqualityIndexEntry E db entry schema config)"
  unfolding addEqualityIndexEntry_def removeEqualityIndexEntry_def
  by (intro keeps_intros; simp add: keeps_def Let_def postings_blind split: option.splits)+

lemma index_keys_keeps: "keeps I (index_keys E db schema config keys)"
proof -
  have "keeps I (\<lambda>tx. addEqualityIndexEntry E db (entry_at tx key) schema config tx)" for key
    using index_entry_keeps(1) unfolding keeps_def by blast
  then show ?thesis unfolding index_keys_def by (rule keeps_foreach)
qed

lemma build_keeps: "keeps I (buildEqualityIndexes E db schema config)"
  unfolding buildEqualityIndexes_def
  by (intro keeps_intros keeps_modify index_keys_keeps) (simp add: postings_blind configs_blind)

lemma ensure_keeps: "keeps I (ensureEqualityIndexes E db schema)"
proof -
  have b: "keeps I (tx_bind (buildEqualityIndexes E db schema config) (\<lambda>_. tx_check (\<lambda>_. Ok config)))" for config
    by (intro keeps_intros build_keeps)
  show ?thesis unfolding ensureEqualityIndexes_def
    by (intro keeps_intros) (use b in \<open>auto simp: keeps_def split: option.splits\<close>)
qed

lemma unindex_keeps: "keeps I (unindex_and_drop E db schema config key)"
proof -
  have "keeps I (\<lambda>tx. removeEqualityIndexEntry E db (entry_at tx key) schema config tx)"
    using index_entry_keeps(2) unfolding keeps_def by blast
  then show ?thesis unfolding unindex_and_drop_def by (rule keeps_bind) (rule drop_entry_keeps)
qed

lemma indexed_put_keeps:
  assumes "keeps I (putInWithDN E db (WithoutDNIdentity entry) dn (Key dn) False)"
  shows "keeps I (putInWithEqualityIndexes E db entry dn replace schema)"
  unfolding putInWithEqualityIndexes_def
  by (intro keeps_intros keeps_foreach ensure_keeps unindex_keeps assms index_entry_keeps)

lemma indexed_delete_keeps: "keeps I (deleteInWithEqualityIndexes E db dn schema)"
proof -
  have "keeps I (case keys of [] \<Rightarrow> tx_check (\<lambda>_. Err ErrEntryNotFound)
     | key # _ \<Rightarrow> unindex_and_drop E db (is_schema schema) config key)" for keys config
    by (cases keys) (auto intro: keeps_check unindex_keeps)
  then show ?thesis unfolding deleteInWithEqualityIndexes_def by (intro keeps_intros ensure_keeps)
qed

lemma rebuild_keeps: "keeps I (rebuildEqualityIndexes E db schema)"
  unfolding rebuildEqualityIndexes_def by (intro keeps_intros build_keeps)

lemma rebuild_selected_keeps: "keeps I (rebuildSelectedEqualityIndexes E db schema attributes)"
proof -
  have sel: "keeps I (tx_bind (tx_modify (drop_terms db selected)) (\<lambda>_.
      tx_bind (tx_check (\<lambda>tx. Ok (keys_in E ''rebuildSelectedEqualityIndexes'' tx db))) (\<lambda>keys.
        index_keys E db schema selected keys)))" for selected
    by (intro keeps_intros keeps_modify index_keys_keeps) simp
  show ?thesis unfolding rebuildSelectedEqualityIndexes_def
    by (intro keeps_intros keeps_case_config build_keeps)
      (use sel build_keeps in \<open>auto simp: keeps_def split: if_splits\<close>)
qed

lemma reindex_keeps: "keeps I (reindex_migrated E db indexSchema indexed)"
  unfolding reindex_migrated_def by (intro keeps_intros build_keeps)

lemma migrate_keeps:
  assumes "\<And>tx ms indexed. I tx \<Longrightarrow> migration_plan E db N indexSchema tx = Ok (ms, indexed) \<Longrightarrow> I (apply_migration db ms tx)"
  shows "keeps I (migrateSchemaAwareDNIdentitiesIn E db N indexSchema)"
proof -
  have tail: "keeps I (tx_bind (reindex_migrated E db indexSchema indexed) (\<lambda>_. tx_check (\<lambda>_. Ok (migration_report ms))))"
    for indexed ms by (intro keeps_intros reindex_keeps)
  have "I (snd (tx_bind (tx_modify (apply_migration db ms)) (\<lambda>_.
     tx_bind (reindex_migrated E db indexSchema indexed) (\<lambda>_. tx_check (\<lambda>_. Ok (migration_report ms)))) tx))"
    if "I tx" "migration_plan E db N indexSchema tx = Ok (ms, indexed)" for tx ms indexed
    using keepsD [OF tail assms [OF that]] by simp
  then show ?thesis unfolding migrateSchemaAwareDNIdentitiesIn_def
    by (intro keeps_bind keeps_writable keeps_check keeps_assuming) auto
qed

lemma Ensure_keeps:
  assumes "\<And>N. is_normalizer schema = Some N \<Longrightarrow> keeps I (migrateSchemaAwareDNIdentitiesIn E db N (Some (is_schema schema)))"
  shows "keeps I (EnsureEqualityIndexes E db schema)"
proof -
  have "keeps I (ensureSchemaAwareDNIdentities E db N (Some (is_schema schema)))" if "is_normalizer schema = Some N" for N
    unfolding ensureSchemaAwareDNIdentities_def by (intro keeps_intros assms that)
  then have "keeps I (case is_normalizer schema of
      Some N \<Rightarrow> ensureSchemaAwareDNIdentities E db N (Some (is_schema schema)) | None \<Rightarrow> tx_check (\<lambda>_. Ok ()))"
    by (auto intro: keeps_check split: option.splits)
  then show ?thesis unfolding EnsureEqualityIndexes_def
    by (rule keeps_bind) (intro keeps_intros keeps_case_config rebuild_keeps,
      use rebuild_keeps in \<open>auto simp: keeps_def split: if_splits option.splits go.splits\<close>)
qed

lemma PutIn_keeps:
  assumes "\<And>dn identity. ParseDN (se_lib E) (se_unicode E) (e_DN entry) = Ok dn \<Longrightarrow>
      ValidateIdentityKey (se_lib E) (se_unicode E) dn identity = Ok () \<Longrightarrow>
      keeps I (putInWithDN E db (WithoutDNIdentity entry) dn identity replace)"
  shows "keeps I (PutIn E trusted db entry replace)"
  unfolding PutIn_def
proof (rule keeps_bind [OF keeps_writable], rule keeps_bind [OF keeps_check], rule keeps_check_then,
    rule keeps_bind [OF keeps_check], rule keeps_check_then)
  fix dn identity x
  assume "go_wrap DNInvalid (ParseDN (se_lib E) (se_unicode E) (e_DN entry)) = Ok dn"
    and "go_wrap (EntryIdentityInvalid (e_DN entry)) (ValidateIdentityKey (se_lib E) (se_unicode E) dn identity) = Ok x"
  then have put: "keeps I (putInWithDN E db (WithoutDNIdentity entry) dn identity replace)"
    by (intro assms) simp_all
  show "keeps I (tx_bind (putInWithDN E db (WithoutDNIdentity entry) dn identity replace) (\<lambda>_.
     tx_bind (tx_modify (\<lambda>tx. if isSchemaAwareDNKey identity then tx
         else delete_metadata (schemaAwareDNMigrationMetadataKey db) tx)) (\<lambda>_.
     tx_bind (tx_modify (\<lambda>tx. if db \<noteq> [] then tx else delete_metadata partitionedEntryKeysMetadataKey tx)) (\<lambda>_.
       tx_modify (invalidateEqualityIndexes db)))))"
    by (intro keeps_bind put keeps_modify) simp_all
qed

end

interpretation counts: store_invariant counts_ok
proof unfold_locales
  show "keeps counts_ok (drop_entry key)" for key
    unfolding drop_entry_def by (intro keeps_intros keeps_modify deleteEntry_counts) simp
  show "counts_ok (tx\<lparr>entries := fmempty, entryCounts := fmempty, dnIdentities := fmempty, dnSources := fmempty\<rparr>)" for tx
    by (simp add: counts_ok_def keys_of_def)
qed simp_all

lemma putInWithDN_counts:
  assumes "nul_free db"
  shows "keeps counts_ok (putInWithDN E db entry dn identity replace)"
  unfolding putInWithDN_def Let_def
  by (intro keeps_intros keeps_modify keeps_foreach counts.drop_entry_keeps counts.mark_ready_keeps putEntry_counts)
    (simp_all add: assms)

section \<open>Migration\<close>

definition migration_ok :: "store_env \<Rightarrow> normalizer \<Rightarrow> memoryTx \<Rightarrow> bytes \<Rightarrow> migrationEntry \<Rightarrow> bool" where
  "migration_ok E N tx db m \<longleftrightarrow> me_entry m = entry_at tx (me_oldKey m) \<and> me_newKey m = partitionedEntryKey db (me_identity m) \<and>
     (\<exists>n. ParseDNWithNormalizer (se_lib E) (se_unicode E) (e_DN (me_entry m)) (Some N) = Ok n \<and> me_identity m = Key n)"

definition migrates :: "store_env \<Rightarrow> normalizer \<Rightarrow> memoryTx \<Rightarrow> bytes \<Rightarrow> migrationEntry list \<Rightarrow> bool" where
  "migrates E N tx db ms \<longleftrightarrow> distinct (map me_newKey ms) \<and> distinct (map me_oldKey ms) \<and>
     set (map me_oldKey ms) = keys_of tx db \<and>
     (\<forall>m\<in>set ms. migration_ok E N tx db m)"

lemma migration_entries_Ok:
  assumes "migration_entries E tx db N done keys = Ok ms"
    and "distinct (map me_newKey done)" "distinct (map me_oldKey done)" "distinct keys"
    and "set (map me_oldKey done) \<inter> set keys = {}"
  shows "distinct (map me_newKey ms) \<and> distinct (map me_oldKey ms) \<and>
    set (map me_oldKey ms) = set (map me_oldKey done) \<union> {k\<in>set keys. partition_of k = db} \<and>
    (\<forall>m\<in>set ms - set done. migration_ok E N tx db m)"
  using assms
proof (induction keys arbitrary: "done")
  case (Cons key keys)
  show ?case
  proof (cases "partition_of key = db")
    case False
    with Cons.prems have "migration_entries E tx db N done keys = Ok ms" by (simp add: Let_def)
    from Cons.IH [OF this] Cons.prems(2-) False show ?thesis by auto
  next
    case True
    from Cons.prems(1) True obtain normalized where
      n: "ParseDNWithNormalizer (se_lib E) (se_unicode E) (e_DN (entry_at tx key)) (Some N) = Ok normalized"
        "find (\<lambda>m. me_newKey m = partitionedEntryKey db (Key normalized)) done = None"
        "migration_entries E tx db N (done @ [\<lparr>me_oldKey = key, me_newKey = partitionedEntryKey db (Key normalized),
          me_entry = Clone (entry_at tx key), me_identity = Key normalized\<rparr>]) keys = Ok ms"
      by (auto simp: Let_def split: option.splits)
    have fresh: "partitionedEntryKey db (Key normalized) \<notin> me_newKey ` set done"
      using n(2) unfolding find_None_iff by auto
    let ?m = "\<lparr>me_oldKey = key, me_newKey = partitionedEntryKey db (Key normalized),
          me_entry = Clone (entry_at tx key), me_identity = Key normalized\<rparr>"
    have "migration_ok E N tx db ?m" using n(1) by (simp add: migration_ok_def)
    moreover have "distinct (map me_newKey ms) \<and> distinct (map me_oldKey ms) \<and>
      set (map me_oldKey ms) = set (map me_oldKey (done @ [?m])) \<union> {k\<in>set keys. partition_of k = db} \<and>
      (\<forall>m\<in>set ms - set (done @ [?m]). migration_ok E N tx db m)"
      using Cons.prems(2-5) fresh by (intro Cons.IH [OF n(3)]) auto
    ultimately show ?thesis using True by auto
  qed
qed auto

lemma migration_migrates:
  assumes "ranges_all E" "migration_entries E tx db N [] (range_keys E site (fmdom (entries tx))) = Ok ms"
  shows "migrates E N tx db ms"
  using migration_entries_Ok [OF assms(2)] assms(1)
  by (auto simp: migrates_def ranges_all_def keys_of_def)

lemma move_out_entries:
  "fmlookup (entries (foldl move_out tx ms)) k =
     (if \<exists>m\<in>set ms. me_oldKey m \<noteq> me_newKey m \<and> me_oldKey m = k then None else fmlookup (entries tx) k)"
  by (induction ms arbitrary: tx) (auto simp: move_out_def forget_identity_def)

lemma move_in_entries:
  "distinct (map me_newKey ms) \<Longrightarrow> m \<in> set ms \<Longrightarrow> fmlookup (entries (foldl move_in tx ms)) (me_newKey m) = Some (me_entry m)"
  "k \<notin> me_newKey ` set ms \<Longrightarrow> fmlookup (entries (foldl move_in tx ms)) k = fmlookup (entries tx) k"
proof -
  show other: "k \<notin> me_newKey ` set ms \<Longrightarrow> fmlookup (entries (foldl move_in tx ms)) k = fmlookup (entries tx) k" for k tx ms
    by (induction ms arbitrary: tx) (auto simp: move_in_def set_identity_def)
  show "distinct (map me_newKey ms) \<Longrightarrow> m \<in> set ms \<Longrightarrow>
      fmlookup (entries (foldl move_in tx ms)) (me_newKey m) = Some (me_entry m)"
  proof (induction ms arbitrary: tx)
    case (Cons x ms)
    show ?case
    proof (cases "m = x")
      case True
      with Cons.prems have "fmlookup (entries (foldl move_in (move_in tx x) ms)) (me_newKey x) = Some (me_entry x)"
        by (subst other) (auto simp: move_in_def set_identity_def)
      with True show ?thesis by simp
    next
      case False
      with Cons show ?thesis by simp
    qed
  qed simp
qed

lemma move_counts [simp]:
  "entryCounts (foldl move_out tx ms) = entryCounts tx" "entryCounts (foldl move_in tx ms) = entryCounts tx"
  by (induction ms arbitrary: tx) (auto simp: move_out_def move_in_def forget_identity_def set_identity_def)

text \<open>After the moves the keys of the partition are exactly the new keys; others are untouched.\<close>

lemma moved_keys:
  assumes "migrates E N tx db ms" "nul_free db"
  shows "keys_of (foldl move_in (foldl move_out tx ms) ms) db' = (if db' = db then me_newKey ` set ms else keys_of tx db')"
proof -
  let ?tx = "foldl move_in (foldl move_out tx ms) ms"
  have new: "partition_of k = db" if "k \<in> me_newKey ` set ms" for k
    using assms that by (auto simp: migrates_def migration_ok_def)
  have old: "set (map me_oldKey ms) = keys_of tx db" using assms(1) by (simp add: migrates_def)
  have look: "k |\<in>| fmdom (entries ?tx) \<longleftrightarrow> k \<in> me_newKey ` set ms \<or> k |\<in>| fmdom (entries tx) \<and> k \<notin> me_oldKey ` set ms" for k
  proof (cases "k \<in> me_newKey ` set ms")
    case True
    then show ?thesis using move_in_entries(1) [of ms] assms(1) by (auto simp: migrates_def fmlookup_dom_iff)
  next
    case False
    then have "fmlookup (entries ?tx) k = fmlookup (entries (foldl move_out tx ms)) k" by (rule move_in_entries(2))
    also have "\<dots> = (if k \<in> me_oldKey ` set ms then None else fmlookup (entries tx) k)"
      unfolding move_out_entries using False by auto
    finally show ?thesis using False by (simp add: fmlookup_dom_iff)
  qed
  show ?thesis
  proof (cases "db' = db")
    case True
    have "k \<in> keys_of ?tx db \<longleftrightarrow> k \<in> me_newKey ` set ms" for k
      using look [of k] new [of k] old by (auto simp: keys_of_def)
    with True show ?thesis by auto
  next
    case False
    have "k \<in> keys_of ?tx db' \<longleftrightarrow> k \<in> keys_of tx db'" for k
    proof -
      have "partition_of k = db' \<Longrightarrow> k \<notin> me_newKey ` set ms \<and> k \<notin> me_oldKey ` set ms"
        using new [of k] old False by (auto simp: keys_of_def)
      with look [of k] show ?thesis by (auto simp: keys_of_def)
    qed
    with False show ?thesis by auto
  qed
qed

lemma apply_migration_counts:
  assumes "counts_ok tx" "migrates E N tx db ms" "nul_free db"
  shows "counts_ok (apply_migration db ms tx)"
proof -
  let ?tx = "foldl move_in (foldl move_out tx ms) ms"
  have "card (me_newKey ` set ms) = length ms"
    using assms(2) by (metis distinct_card length_map list.set_map migrates_def)
  then have n: "of_nat (card (keys_of ?tx db')) = (if db' = db then of_nat (length ms) else map_zero 0 (entryCounts tx) db')" for db'
    using assms(1) unfolding moved_keys [OF assms(2,3)] by (simp add: counts_ok_def)
  have k: "keys_of (set_count db (length ms) ?tx) db' = keys_of ?tx db'" for db' by (simp add: set_count_def keys_of_def)
  have "map_zero 0 (entryCounts (set_count db (length ms) ?tx)) db' = of_nat (card (keys_of ?tx db'))" for db'
    unfolding n by (simp add: set_count_def)
  then show ?thesis unfolding apply_migration_def counts_other by (simp add: counts_ok_def k)
qed

lemma migration_plan_migrates:
  "ranges_all E \<Longrightarrow> migration_plan E db N indexSchema tx = Ok (ms, indexed) \<Longrightarrow> migrates E N tx db ms"
  by (auto simp: migration_plan_def Let_def split: if_splits intro: migration_migrates)

lemma migrate_counts:
  assumes "ranges_all E" "nul_free db"
  shows "keeps counts_ok (migrateSchemaAwareDNIdentitiesIn E db N indexSchema)"
  using apply_migration_counts [OF _ migration_plan_migrates [OF assms(1)] assms(2)]
  by (rule counts.migrate_keeps)

section \<open>Bindings of names to keys\<close>

text \<open>An entry under a key whose identity binding is in order.\<close>

definition binding_ok :: "ldap_lib \<Rightarrow> unicode \<Rightarrow> bytes \<Rightarrow> bytes \<Rightarrow> bytes \<Rightarrow> Entry \<Rightarrow> bool" where
  "binding_ok L U identity source key entry \<longleftrightarrow>
     (let physicalKey = snd (splitPartitionedEntryKey key) in
      \<exists>d. ParseDN L U (e_DN entry) = Ok d \<and> ValidateIdentityKey L U d physicalKey = Ok () \<and>
        (if isSchemaAwareDNKey physicalKey
         then identity = physicalKey \<and> source \<noteq> [] \<and>
           (\<exists>s. ParseDN L U source = Ok s \<and> EqualExact L s d = Some True)
         else identity = [] \<and> source = []))"

definition bindings_ok :: "ldap_lib \<Rightarrow> unicode \<Rightarrow> 'a store_data_scheme \<Rightarrow> bool" where
  "bindings_ok L U tx \<longleftrightarrow> (\<forall>key entry. fmlookup (entries tx) key = Some entry \<longrightarrow>
     e_DN entry \<noteq> [] \<and> binding_ok L U (map_zero [] (dnIdentities tx) key) (map_zero [] (dnSources tx) key) key entry)"

lemma go_error_Ok [simp]: "go_error m = Ok x \<longleftrightarrow> (\<exists>y. m = Ok y)"
  by (cases m) auto

lemma schema_key_nonempty: "isSchemaAwareDNKey key \<Longrightarrow> key \<noteq> []"
  by (auto simp: isSchemaAwareDNKey_def HasPrefix_def schemaAwareDNKeyPrefix_def)

lemma validateEntry_iff:
  "validateEntry E tx key entry = Ok () \<longleftrightarrow> 
     binding_ok (se_lib E) (se_unicode E) (map_zero [] (dnIdentities tx) key) (map_zero [] (dnSources tx) key) key entry"
proof (cases "isSchemaAwareDNKey (snd (splitPartitionedEntryKey key))")
  case True
  then show ?thesis
    by (auto simp: validateEntry_def validateStoredEntryIdentity_def validateStoredEntryIdentityDN_def binding_ok_def
        Let_def dest: schema_key_nonempty)
next
  case False
  then show ?thesis
    by (auto simp: validateEntry_def validateStoredEntryIdentity_def validateStoredEntryIdentityDN_def binding_ok_def Let_def)
qed

lemma bindings_other [simp]:
  "bindings_ok L U (invalidateEqualityIndexes db tx) = bindings_ok L U tx" "bindings_ok L U (delete_metadata key tx) = bindings_ok L U tx"
  "bindings_ok L U (setSchemaAwareDNIdentityReady db tx) = bindings_ok L U tx"
  "bindings_ok L U (tx\<lparr>metadata := m\<rparr>) = bindings_ok L U tx" "bindings_ok L U (tx\<lparr>namingContexts := c\<rparr>) = bindings_ok L U tx"
  "bindings_ok L U (tx\<lparr>equalityPostings := p\<rparr>) = bindings_ok L U tx"
  "bindings_ok L U (tx\<lparr>equalityIndexConfigs := ic\<rparr>) = bindings_ok L U tx"
  "bindings_ok L U (set_count db n tx) = bindings_ok L U tx"
  by (simp_all add: bindings_ok_def invalidateEqualityIndexes_def
      delete_metadata_def setSchemaAwareDNIdentityReady_def set_count_def)

lemma drop_entry_bindings: "keeps (bindings_ok L U) (drop_entry key)"
proof -
  have "bindings_ok L U (snd (drop_entry key tx))" if ok: "bindings_ok L U tx" for tx :: memoryTx
  proof (cases "has_entry tx key \<and> map_zero 0 (entryCounts tx) (partition_of key) = 0")
    case True
    then show ?thesis using ok by (simp add: drop_entry_def tx_bind_def deleteEntry_def Let_def)
  next
    case False
    let ?tx = "snd (drop_entry key tx)"
    have "fmlookup (entries ?tx) k = (if k = key then None else fmlookup (entries tx) k)"
      "k \<noteq> key \<Longrightarrow> map_zero [] (dnIdentities ?tx) k = map_zero [] (dnIdentities tx) k"
      "k \<noteq> key \<Longrightarrow> map_zero [] (dnSources ?tx) k = map_zero [] (dnSources tx) k" for k
      using False by (auto simp: drop_entry_def tx_bind_def deleteEntry_def Let_def forget_identity_def has_entry_def
          tx_modify_def)
    with ok show ?thesis unfolding bindings_ok_def by (metis option.distinct(1))
  qed
  then show ?thesis by (simp add: keeps_def)
qed

text \<open>An entry that may be stored under an identity.\<close>

definition storable :: "ldap_lib \<Rightarrow> unicode \<Rightarrow> Entry \<Rightarrow> bytes \<Rightarrow> bool" where
  "storable L U entry identity \<longleftrightarrow> e_DN entry \<noteq> [] \<and>
     (\<exists>d. ParseDN L U (e_DN entry) = Ok d \<and> ValidateIdentityKey L U d identity = Ok ())"

definition lib_reflexive :: "ldap_lib \<Rightarrow> bool" where
  "lib_reflexive L \<longleftrightarrow> (\<forall>p. lib_Equal L p p)"

lemma EqualExact_refl:
  assumes "lib_reflexive L" "ParseDN L U v = Ok d"
  shows "EqualExact L d d = Some True"
  using assms by (auto simp: EqualExact_def ParseDN_def lib_reflexive_def)

lemma put_identity_bindings:
  assumes ok: "bindings_ok L U tx" and "nul_free db" "storable L U entry identity" "lib_reflexive L"
  shows "isSchemaAwareDNKey identity \<Longrightarrow> bindings_ok L U (set_identity (partitionedEntryKey db identity) identity (e_DN entry)
      (putEntry db (partitionedEntryKey db identity) entry tx))"
    and "\<not> isSchemaAwareDNKey identity \<Longrightarrow> bindings_ok L U (forget_identity (partitionedEntryKey db identity)
      (putEntry db (partitionedEntryKey db identity) entry tx))"
proof -
  let ?key = "partitionedEntryKey db identity"
  from assms(3) obtain d where d: "e_DN entry \<noteq> []" "ParseDN L U (e_DN entry) = Ok d"
    "ValidateIdentityKey L U d identity = Ok ()" by (auto simp: storable_def)
  have phys: "snd (splitPartitionedEntryKey ?key) = identity" using assms(2) by simp
  have lk: "fmlookup (entries (putEntry db ?key entry tx)) k = (if k = ?key then Some entry else fmlookup (entries tx) k)"
    "dnIdentities (putEntry db ?key entry tx) = dnIdentities tx" "dnSources (putEntry db ?key entry tx) = dnSources tx" for k
    by (auto simp: putEntry_def Let_def)
  show "bindings_ok L U (set_identity ?key identity (e_DN entry) (putEntry db ?key entry tx))" if "isSchemaAwareDNKey identity"
  proof -
    have "binding_ok L U identity (e_DN entry) ?key entry"
      using d that EqualExact_refl [OF assms(4) d(2)] by (auto simp: binding_ok_def Let_def phys)
    with ok d(1) show ?thesis by (auto simp: bindings_ok_def set_identity_def lk split: if_splits)
  qed
  show "bindings_ok L U (forget_identity ?key (putEntry db ?key entry tx))" if "\<not> isSchemaAwareDNKey identity"
  proof -
    have "binding_ok L U [] [] ?key entry"
      using d that by (auto simp: binding_ok_def Let_def phys)
    with ok d(1) show ?thesis by (auto simp: bindings_ok_def forget_identity_def lk split: if_splits)
  qed
qed

lemma bindings_invariant: "store_invariant (bindings_ok L U)"
  by unfold_locales (auto simp: drop_entry_bindings bindings_ok_def)

interpretation bindings: store_invariant "bindings_ok L U" for L U
  by (rule bindings_invariant)

lemma putInWithDN_bindings:
  assumes "nul_free db" "storable L U entry identity" "lib_reflexive L"
  shows "keeps (bindings_ok L U) (putInWithDN E db entry dn identity replace)"
proof (cases "isSchemaAwareDNKey identity")
  case True
  show ?thesis unfolding putInWithDN_def Let_def if_P [OF True]
    by (intro keeps_intros keeps_modify_then bindings.mark_ready_keeps) (simp_all add: tx_modify_def put_identity_bindings [OF _ assms] True)
next
  case False
  have f: "keeps (bindings_ok L U) (tx_foreach ks drop_entry)" for ks by (intro keeps_foreach drop_entry_bindings)
  show ?thesis unfolding putInWithDN_def Let_def if_not_P [OF False]
    by (intro keeps_intros keeps_modify_then)
      (simp add: keepsD [OF f] put_identity_bindings [OF _ assms] False)
qed

lemma storable_without: "storable L U (WithoutDNIdentity entry) identity = storable L U entry identity"
  by (simp add: storable_def WithoutDNIdentity_def)

lemma PutIn_bindings:
  assumes "nul_free db" "e_DN entry \<noteq> []" "lib_reflexive (se_lib E)"
  shows "keeps (bindings_ok (se_lib E) (se_unicode E)) (PutIn E trusted db entry replace)"
proof (rule bindings.PutIn_keeps)
  fix dn identity
  assume "ParseDN (se_lib E) (se_unicode E) (e_DN entry) = Ok dn"
    "ValidateIdentityKey (se_lib E) (se_unicode E) dn identity = Ok ()"
  then have "storable (se_lib E) (se_unicode E) (WithoutDNIdentity entry) identity"
    unfolding storable_without using assms(2) by (auto simp: storable_def)
  then show "keeps (bindings_ok (se_lib E) (se_unicode E)) (putInWithDN E db (WithoutDNIdentity entry) dn identity replace)"
    by (rule putInWithDN_bindings [OF assms(1) _ assms(3)])
qed

lemma move_out_bindings:
  "(\<And>m. m \<in> set ms \<Longrightarrow> me_oldKey m \<noteq> me_newKey m \<Longrightarrow> me_oldKey m \<noteq> k) \<Longrightarrow>
     map_zero [] (dnIdentities (foldl move_out tx ms)) k = map_zero [] (dnIdentities tx) k \<and>
     map_zero [] (dnSources (foldl move_out tx ms)) k = map_zero [] (dnSources tx) k"
  by (induction ms arbitrary: tx) (auto simp: move_out_def forget_identity_def)

lemma move_in_bindings:
  "k \<notin> me_newKey ` set ms \<Longrightarrow>
     map_zero [] (dnIdentities (foldl move_in tx ms)) k = map_zero [] (dnIdentities tx) k \<and>
     map_zero [] (dnSources (foldl move_in tx ms)) k = map_zero [] (dnSources tx) k"
  "distinct (map me_newKey ms) \<Longrightarrow> m \<in> set ms \<Longrightarrow>
     map_zero [] (dnIdentities (foldl move_in tx ms)) (me_newKey m) = me_identity m \<and>
     map_zero [] (dnSources (foldl move_in tx ms)) (me_newKey m) = e_DN (me_entry m)"
proof -
  show other: "k \<notin> me_newKey ` set ms \<Longrightarrow>
     map_zero [] (dnIdentities (foldl move_in tx ms)) k = map_zero [] (dnIdentities tx) k \<and>
     map_zero [] (dnSources (foldl move_in tx ms)) k = map_zero [] (dnSources tx) k" for k tx ms
    by (induction ms arbitrary: tx) (auto simp: move_in_def set_identity_def)
  show "distinct (map me_newKey ms) \<Longrightarrow> m \<in> set ms \<Longrightarrow>
     map_zero [] (dnIdentities (foldl move_in tx ms)) (me_newKey m) = me_identity m \<and>
     map_zero [] (dnSources (foldl move_in tx ms)) (me_newKey m) = e_DN (me_entry m)"
  proof (induction ms arbitrary: tx)
    case (Cons x ms)
    show ?case
    proof (cases "m = x")
      case True
      with Cons.prems other [of "me_newKey x" ms "move_in tx x"] show ?thesis
        by (simp add: move_in_def [of tx] set_identity_def [of _ _ _ "tx\<lparr>entries := _\<rparr>"])
    qed (use Cons in simp)
  qed simp
qed

text \<open>Every key that the normaliser writes passes the check that entries are read with.\<close>

definition keys_valid :: "ldap_lib \<Rightarrow> unicode \<Rightarrow> normalizer \<Rightarrow> bool" where
  "keys_valid L U N \<longleftrightarrow> (\<forall>v d n. ParseDN L U v = Ok d \<and> ParseDNWithNormalizer L U v (Some N) = Ok n \<longrightarrow>
     ValidateIdentityKey L U d (Key n) = Ok ())"

lemma normalized_key_aware: "ParseDNWithNormalizer L U v N = Ok n \<Longrightarrow> isSchemaAwareDNKey (Key n)"
  by (auto simp: ParseDNWithNormalizer_def NormalizeWith_def Key_def isSchemaAwareDNKey_def encodeDNIdentity_def
      HasPrefix_def split: if_splits option.splits)

lemma apply_migration_bindings:
  assumes ok: "bindings_ok (se_lib E) (se_unicode E) tx" and mig: "migrates E N tx db ms" and "nul_free db"
    and valid: "keys_valid (se_lib E) (se_unicode E) N" and refl: "lib_reflexive (se_lib E)"
  shows "bindings_ok (se_lib E) (se_unicode E) (apply_migration db ms tx)"
proof -
  let ?L = "se_lib E" and ?U = "se_unicode E"
  let ?tx = "foldl move_in (foldl move_out tx ms) ms"
  have "e_DN entry \<noteq> [] \<and> binding_ok ?L ?U (map_zero [] (dnIdentities ?tx) k) (map_zero [] (dnSources ?tx) k) k entry"
    if k: "fmlookup (entries ?tx) k = Some entry" for k entry
  proof (cases "k \<in> me_newKey ` set ms")
    case True
    then obtain m where m: "m \<in> set ms" "k = me_newKey m" by blast
    have dist: "distinct (map me_newKey ms)" using mig by (simp add: migrates_def)
    from k move_in_entries(1) [OF dist m(1)] m(2) have e: "entry = me_entry m" by simp
    from mig m(1) have "migration_ok E N tx db m" "me_oldKey m \<in> keys_of tx db" unfolding migrates_def by auto
    then obtain n where n: "me_entry m = entry_at tx (me_oldKey m)" "k = partitionedEntryKey db (me_identity m)"
      "ParseDNWithNormalizer ?L ?U (e_DN (me_entry m)) (Some N) = Ok n" "me_identity m = Key n" "me_oldKey m \<in> keys_of tx db"
      using m(2) unfolding migration_ok_def by blast
    then obtain e0 where "fmlookup (entries tx) (me_oldKey m) = Some e0" by (auto simp: keys_of_def fmlookup_dom_iff)
    with ok n(1) e have named: "e_DN entry \<noteq> []" and "binding_ok ?L ?U (map_zero [] (dnIdentities tx) (me_oldKey m))
        (map_zero [] (dnSources tx) (me_oldKey m)) (me_oldKey m) entry"
      by (auto simp: bindings_ok_def entry_at_def map_zero_Some)
    then obtain d where d: "ParseDN ?L ?U (e_DN entry) = Ok d" by (auto simp: binding_ok_def Let_def)
    with valid n(3,4) e have "ValidateIdentityKey ?L ?U d (me_identity m) = Ok ()" by (auto simp: keys_valid_def)
    with d named EqualExact_refl [OF refl d] normalized_key_aware [OF n(3)]
    have "binding_ok ?L ?U (me_identity m) (e_DN entry) k entry"
      using assms(3) by (auto simp: binding_ok_def Let_def n(2,4))
    with move_in_bindings(2) [OF dist m(1)] m(2) e named show ?thesis by simp
  next
    case False
    with k move_in_entries(2) have out: "fmlookup (entries (foldl move_out tx ms)) k = Some entry" by metis
    then have keep: "\<And>m. m \<in> set ms \<Longrightarrow> me_oldKey m \<noteq> me_newKey m \<Longrightarrow> me_oldKey m \<noteq> k"
      and "fmlookup (entries tx) k = Some entry" unfolding move_out_entries by (auto split: if_splits)
    with ok have "e_DN entry \<noteq> [] \<and> binding_ok ?L ?U (map_zero [] (dnIdentities tx) k) (map_zero [] (dnSources tx) k) k entry"
      by (simp add: bindings_ok_def)
    with move_in_bindings(1) [OF False] move_out_bindings [OF keep] show ?thesis by simp
  qed
  then have "bindings_ok ?L ?U ?tx" by (auto simp: bindings_ok_def)
  then show ?thesis by (simp add: apply_migration_def)
qed

lemma migrate_bindings:
  assumes "ranges_all E" "nul_free db" "keys_valid (se_lib E) (se_unicode E) N" "lib_reflexive (se_lib E)"
  shows "keeps (bindings_ok (se_lib E) (se_unicode E)) (migrateSchemaAwareDNIdentitiesIn E db N indexSchema)"
  using apply_migration_bindings [OF _ migration_plan_migrates [OF assms(1)] assms(2-4)]
  by (rule bindings.migrate_keeps)

section \<open>Reachable stores\<close>

definition op_env :: "ldap_lib \<Rightarrow> unicode \<Rightarrow> store_env \<Rightarrow> bool" where
  "op_env L U E \<longleftrightarrow> ranges_all E \<and> se_lib E = L \<and> se_unicode E = U"

text \<open>
  The steps of a write transaction: one call of one of its operations, successful or not. Every
  step has surroundings of its own, so contexts and iteration orders may change between calls.
  Partitions have no NUL in their names and entries have names; an indexed insertion passes the
  name that the entry's text normalises to.
\<close>

inductive tx_step :: "ldap_lib \<Rightarrow> unicode \<Rightarrow> memoryTx \<Rightarrow> memoryTx \<Rightarrow> bool" for L U where
  st_PutIn: "op_env L U E \<Longrightarrow> nul_free db \<Longrightarrow> e_DN entry \<noteq> [] \<Longrightarrow>
    tx_step L U tx (snd (PutIn E trusted db entry replace tx))"
| st_Delete: "op_env L U E \<Longrightarrow> tx_step L U tx (snd (Delete E dn tx))"
| st_DeleteIn: "op_env L U E \<Longrightarrow> tx_step L U tx (snd (DeleteIn E db dn tx))"
| st_Clear: "tx_step L U tx (snd (Clear tx))"
| st_SetNamingContexts: "tx_step L U tx (snd (SetNamingContexts cs tx))"
| st_SetMetadata: "tx_step L U tx (snd (SetMetadata E key v tx))"
| st_DeleteMetadata: "tx_step L U tx (snd (DeleteMetadata E key tx))"
| st_indexed_put: "op_env L U E \<Longrightarrow> nul_free db \<Longrightarrow> storable L U entry (Key dn) \<Longrightarrow>
    tx_step L U tx (snd (putInWithEqualityIndexes E db entry dn replace schema tx))"
| st_indexed_delete: "op_env L U E \<Longrightarrow> tx_step L U tx (snd (deleteInWithEqualityIndexes E db dn schema tx))"
| st_rebuild: "op_env L U E \<Longrightarrow> tx_step L U tx (snd (rebuildEqualityIndexes E db schema' tx))"
| st_rebuild_selected: "op_env L U E \<Longrightarrow> tx_step L U tx (snd (rebuildSelectedEqualityIndexes E db schema' attributes tx))"
| st_migrate: "op_env L U E \<Longrightarrow> nul_free db \<Longrightarrow> keys_valid L U N \<Longrightarrow>
    tx_step L U tx (snd (migrateSchemaAwareDNIdentitiesIn E db N indexSchema tx))"
| st_Ensure: "op_env L U E \<Longrightarrow> nul_free db \<Longrightarrow> (\<And>N. is_normalizer schema = Some N \<Longrightarrow> keys_valid L U N) \<Longrightarrow>
    tx_step L U tx (snd (EnsureEqualityIndexes E db schema tx))"

text \<open>A store changes when a transaction commits and when it is closed.\<close>

inductive store_step :: "ldap_lib \<Rightarrow> unicode \<Rightarrow> Memory \<Rightarrow> Memory \<Rightarrow> bool" for L U where
  ss_update: "\<not> closed s \<Longrightarrow> (tx_step L U)\<^sup>*\<^sup>* (update_tx s) tx \<Longrightarrow> store_step L U s (commit tx s)"
| ss_close: "store_step L U s (Close s)"

definition reachable_store :: "ldap_lib \<Rightarrow> unicode \<Rightarrow> Memory \<Rightarrow> bool" where
  "reachable_store L U s \<longleftrightarrow> (store_step L U)\<^sup>*\<^sup>* NewMemory s"

lemma fmmap_Clone [simp]: "fmmap Clone m = m"
  by (rule fmap_ext) (simp add: option.map_ident_strong)

lemma step_counts: "tx_step L U tx tx' \<Longrightarrow> counts_ok tx \<Longrightarrow> counts_ok tx'"
  by (induction rule: tx_step.induct)
    (auto simp: op_env_def intro!: keepsD [where I = counts_ok] counts.PutIn_keeps putInWithDN_counts counts.Delete_keeps
      counts.DeleteIn_keeps counts.Clear_keeps counts.metadata_keeps counts.indexed_put_keeps
      counts.indexed_delete_keeps counts.rebuild_keeps counts.rebuild_selected_keeps migrate_counts counts.Ensure_keeps)

lemma step_bindings:
  assumes "tx_step L U tx tx'" "lib_reflexive L" "bindings_ok L U tx"
  shows "bindings_ok L U tx'"
  using assms
proof (induction rule: tx_step.induct)
  case (st_PutIn E db entry tx trusted replace)
  then show ?case using keepsD [OF PutIn_bindings [of db entry E]] by (auto simp: op_env_def)
next
  case (st_indexed_put E db entry dn tx replace schema)
  then have "keeps (bindings_ok L U) (putInWithDN E db (WithoutDNIdentity entry) dn (Key dn) False)"
    by (intro putInWithDN_bindings) (simp_all add: storable_without)
  from keepsD [OF bindings.indexed_put_keeps [OF this]] st_indexed_put show ?case by blast
next
  case (st_migrate E db N tx indexSchema)
  then show ?case using keepsD [OF migrate_bindings [of E db N]] by (auto simp: op_env_def)
next
  case (st_Ensure E db schema tx)
  then have "keeps (bindings_ok L U) (migrateSchemaAwareDNIdentitiesIn E db N (Some (is_schema schema)))"
    if "is_normalizer schema = Some N" for N
    using migrate_bindings [of E db N] that by (auto simp: op_env_def)
  from keepsD [OF bindings.Ensure_keeps [OF this]] st_Ensure show ?case by blast
qed (auto intro: keepsD [where I = "bindings_ok L U"] bindings.Delete_keeps bindings.DeleteIn_keeps bindings.Clear_keeps
      bindings.metadata_keeps bindings.indexed_delete_keeps bindings.rebuild_keeps bindings.rebuild_selected_keeps)

text \<open>An invariant of the data of a transaction that its steps keep is one of every reachable store.\<close>

lemma reachable_invariant:
  assumes "reachable_store L U s"
    and step: "\<And>tx tx'. tx_step L U tx tx' \<Longrightarrow> I tx \<Longrightarrow> I tx'"
    and start: "J NewMemory" and closing: "\<And>s. J (Close s)"
    and opened: "\<And>s. J s \<Longrightarrow> I (update_tx s)" and committed: "\<And>tx s. I tx \<Longrightarrow> J (commit tx s)"
  shows "J s"
  using assms(1) unfolding reachable_store_def
proof (induction rule: rtranclp_induct)
  case (step s s')
  from step(2) show ?case
  proof cases
    case (ss_update tx)
    from ss_update(3) opened [OF step.IH] have "I tx"
      by (induction rule: rtranclp_induct) (auto intro: assms(2))
    with ss_update(1) committed show ?thesis by simp
  qed (use closing in simp)
qed (rule start)

lemma reachable_counts: "reachable_store L U s \<Longrightarrow> counts_ok s"
  by (erule reachable_invariant [where I = counts_ok, OF _ step_counts])
    (auto simp: counts_ok_def keys_of_def NewMemory_def Close_def update_tx_def commit_def)

lemma reachable_bindings:
  assumes "reachable_store L U s" "lib_reflexive L"
  shows "bindings_ok L U s"
  using step_bindings [OF _ assms(2)]
  by (rule reachable_invariant [where I = "bindings_ok L U", OF assms(1)])
    (auto simp: bindings_ok_def NewMemory_def Close_def update_tx_def commit_def)

section \<open>A sample store\<close>

definition sample_env :: store_env where
  "sample_env = \<lparr>se_lib = sample_lib, se_unicode = sample_unicode, ctx_Err = (\<lambda>_ _. False),
     range_keys = (\<lambda>_. sorted_list_of_fset), Marshal_config = (\<lambda>c. if c = sample_index_config [''cn''] then Some ''cn'' else None),
     Marshal_entry = (\<lambda>e. Some (e_DN e))\<rparr>"

definition sample_dn :: DN where
  "sample_dn = zero_DN\<lparr>parsed := Some [[\<lparr>ava_type = ''cn'', ava_value = ''a''\<rparr>]], canonical := ''cn=a'',
     displayRDNs := [''cn=a'']\<rparr>"

lemma sample_string: "lib_String sample_lib [[\<lparr>ava_type = ''cn'', ava_value = ''a''\<rparr>]] = ''cn=a''"
  by (simp add: sample_lib_def sample_print_def)

lemma sample_lower: "ToLower sample_unicode ''cn'' = ''cn''" "ToLower sample_unicode ''cn=a'' = ''cn=a''"
  by (simp_all add: ToLower_def ascii_lower_def sample_unicode_def) (simp_all add: char_of_def bit_0)

lemma sample_parse: "ParseDN sample_lib sample_unicode ''cn=a'' = Ok sample_dn"
proof -
  have lib: "lib_ParseDN sample_lib ''cn=a'' = Inr [[\<lparr>ava_type = ''cn'', ava_value = ''a''\<rparr>]]"
  proof -
    have "simple_rdn_ok (''cn'', ''a'')" by code_simp
    then show ?thesis using sample_lib_parses
      by (auto simp: parses_simple_names_def simple_dn_text_def simple_rdn_text_def dest!: spec [of _ "[(''cn'', ''a'')]"])
  qed
  have trim: "TrimSpace ''cn'' = ''cn''" by (simp add: TrimSpace_def is_space_def)
  have "validDNAttributeType ''cn''" by code_simp
  then have p: "parseDN sample_lib sample_unicode ''cn=a'' = Ok [[\<lparr>ava_type = ''cn'', ava_value = ''a''\<rparr>]]"
    by (simp add: parseDN_def lib validateUniqueDNAttributeTypes_def enumerate_eq_zip Cut_def trim sample_lower Let_def)
  have "escapeDNValue ''a'' = ''a''" by code_simp
  then show ?thesis
    by (simp add: ParseDN_def p sample_dn_def formatDNRDNs_def format_ava_def sample_lower sample_string)
qed

lemma sample_env_ranges [simp]: "ranges_all sample_env"
  by (simp add: ranges_all_def sample_env_def sorted_list_of_fset.rep_eq)

section \<open>Properties\<close>

text \<open>
  C29: the entry count of a partition is exact in every store that sequences of committed
  transactions reach, failed calls inside them included: it is the number of the entries that the
  partition holds, as a 64-bit number.
\<close>

theorem entry_counts_exact:
  assumes "reachable_store L U s"
    and "View E (\<lambda>tx. PartitionEntryCount E tx db) s = Ok n"
  shows "n = of_nat (card {key. key |\<in>| fmdom (entries s) \<and> fst (splitPartitionedEntryKey key) = db})"
  using assms(2) reachable_counts [OF assms(1)]
  by (auto simp: View_def PartitionEntryCount_def view_tx_def counts_ok_def keys_of_def split: if_splits)


lemma putInWithDN_schema_Ok:
  assumes "putInWithDN E db entry dn identity replace tx = (Ok (), tx')" "isSchemaAwareDNKey identity"
  shows "entries tx' = fmupd (partitionedEntryKey db identity) entry (entries tx) \<and>
    fmlookup (dnIdentities tx') (partitionedEntryKey db identity) = Some identity \<and>
    fmlookup (dnSources tx') (partitionedEntryKey db identity) = Some (e_DN entry)"
proof -
  have mark: "markSchemaAwareDNIdentityReadyIfNoLegacy E db t = (Ok u, t') \<Longrightarrow> entries t' = entries t" for t t' u
    by (auto simp: markSchemaAwareDNIdentityReadyIfNoLegacy_def tx_Ok setSchemaAwareDNIdentityReady_def)
  from assms(1) obtain ready u tx1 where
    r: "(if \<not> ready then markSchemaAwareDNIdentityReadyIfNoLegacy E db else tx_check (\<lambda>_. Ok ())) tx = (Ok u, tx1)"
      "tx' = set_identity (partitionedEntryKey db identity) identity (e_DN entry) (putEntry db (partitionedEntryKey db identity) entry tx1)"
    unfolding putInWithDN_def Let_def if_P [OF assms(2)] tx_Ok Clone_same by blast
  then have "entries tx1 = entries tx" using mark by (auto simp: tx_Ok split: if_splits)
  then show ?thesis by (simp add: r(2) set_identity_def putEntry_def Let_def)
qed

lemma trust_release:
  assumes "\<forall>k c. fmlookup trusted k = Some c \<longrightarrow> 0 < c"
  shows "release_trust key (trust key trusted) = trusted"
proof (rule fmap_ext)
  fix k
  show "fmlookup (release_trust key (trust key trusted)) k = fmlookup trusted k"
  proof (cases "fmlookup trusted key")
    case (Some c)
    with assms have "0 < c" by blast
    with Some show ?thesis by (auto simp: release_trust_def trust_def map_zero_def)
  qed (auto simp: release_trust_def trust_def map_zero_def)
qed

lemma PutIn_schema_Ok:
  assumes "PutIn E trusted db entry replace tx = (Ok (), tx')" "DNIdentity entry = (identity, True)" "isSchemaAwareDNKey identity"
  shows "\<exists>d tx1. ParseDN (se_lib E) (se_unicode E) (e_DN entry) = Ok d \<and>
    ValidateIdentityKey (se_lib E) (se_unicode E) d identity = Ok () \<and>
    putInWithDN E db (WithoutDNIdentity entry) d identity replace tx = (Ok (), tx1) \<and>
    entries tx' = entries tx1 \<and> dnIdentities tx' = dnIdentities tx1 \<and> dnSources tx' = dnSources tx1"
proof -
  from assms(1) obtain d x u v tx1 where s: "ParseDN (se_lib E) (se_unicode E) (e_DN entry) = Ok d"
    "(case DNIdentity entry of (normalized, present) \<Rightarrow>
         if present then go_bind (requireTrustedDNIdentityWrite E trusted db entry normalized) (\<lambda>_. Ok normalized)
         else Ok (Key d)) = Ok x"
    "ValidateIdentityKey (se_lib E) (se_unicode E) d x = Ok u"
    "putInWithDN E db (WithoutDNIdentity entry) d x replace tx = (Ok v, tx1)"
    "tx' = invalidateEqualityIndexes db ((\<lambda>tx. if db \<noteq> [] then tx else delete_metadata partitionedEntryKeysMetadataKey tx)
       ((\<lambda>tx. if isSchemaAwareDNKey x then tx else delete_metadata (schemaAwareDNMigrationMetadataKey db) tx) tx1))"
    unfolding PutIn_def tx_Ok go_wrap_eq_Ok by blast
  have "x = identity" using s(2) assms(2) by (auto split: if_splits)
  then show ?thesis using s assms(3) by (simp add: invalidateEqualityIndexes_def delete_metadata_def)
qed


definition sample_aware :: DN where
  "sample_aware = (sample_name [single_ava_rdn ''cn'' ''a''])\<lparr>parsed := Some [[\<lparr>ava_type = ''cn'', ava_value = ''a''\<rparr>]]\<rparr>"

lemma sample_aware_key: "isSchemaAwareDNKey (Key sample_aware)"
  by (simp add: sample_aware_def sample_name_def Key_def isSchemaAwareDNKey_def encodeDNIdentity_def HasPrefix_def)

lemma sample_aware_valid: "ValidateIdentityKey sample_lib sample_unicode sample_dn (Key sample_aware) = Ok ()"
proof -
  let ?ava = "encodeDNIdentityParts [''cn'', ''a'']"
  have fits: "parts_fit [''cn'', ''a'']" "parts_fit [?ava]" "parts_fit [single_ava_rdn ''cn'' ''a'']"
    by (simp_all add: parts_fit_def single_ava_rdn_def encodeDNIdentityParts_eq frame_def uvarint_last)
  have key: "Key sample_aware = schemaAwareDNKeyPrefix @ RawURL_EncodeToString (encodeDNIdentityParts [single_ava_rdn ''cn'' ''a''])"
    by (simp add: sample_aware_def sample_name_def Key_def encodeDNIdentity_def encodeDNIdentityParts_def)
  have dec: "decodeDNIdentityParts (encodeDNIdentityParts [single_ava_rdn ''cn'' ''a'']) = Ok [single_ava_rdn ''cn'' ''a'']"
    "decodeDNIdentityParts (single_ava_rdn ''cn'' ''a'') = Ok [?ava]" "decodeDNIdentityParts ?ava = Ok [''cn'', ''a'']"
    using fits by (simp_all add: decodeDNIdentityParts_encode single_ava_rdn_def)
  show ?thesis
    by (simp add: ValidateIdentityKey_def key HasPrefix_def RawURL_Decode_Encode dec sample_dn_def Let_def)
qed

lemma sample_put_aware:
  "\<exists>tx'. PutInWithDN sample_env ''db'' sample_entry sample_aware False fmempty (update_tx NewMemory) = (Ok (), fmempty, tx')"
proof -
  have n: "e_DN sample_entry = ''cn=a''" by (simp add: sample_entry_def bare_entry_def)
  have parse: "ParseDN (se_lib sample_env) (se_unicode sample_env) ''cn=a'' = Ok sample_dn" by (simp add: sample_env_def sample_parse)
  have same: "EqualExact (se_lib sample_env) sample_dn sample_aware = Some True"
    by (simp add: EqualExact_def sample_env_def sample_lib_def sample_dn_def sample_aware_def)
  obtain wk where wk: "dnIdentityWriteKey sample_env ''db'' e (Key sample_aware) = Ok wk" if "e_DN e = ''cn=a''" for e
    by (simp add: dnIdentityWriteKey_def sample_env_def WithoutDNIdentity_def)
  let ?e = "WithDNIdentity sample_entry sample_aware"
  have e: "e_DN ?e = ''cn=a''" "DNIdentity ?e = (Key sample_aware, True)"
    using schema_key_nonempty [OF sample_aware_key] by (simp_all add: n WithDNIdentity_def DNIdentity_def)
  have empty: "entries (update_tx NewMemory) = fmempty" "metadata (update_tx NewMemory) = fmempty" "\<not> readOnly (update_tx NewMemory)"
    by (simp_all add: update_tx_def NewMemory_def)
  have poll: "poll sample_env site k = Ok ()" "range_keys sample_env site {||} = []" for site k
    by (simp_all add: poll_def sample_env_def sorted_list_of_fset.rep_eq)
  have ready: "schemaAwareDNIdentityReady sample_env (update_tx NewMemory) ''db'' = Ok False"
    by (simp add: schemaAwareDNIdentityReady_def poll empty)
  have "\<exists>tx1. putInWithDN sample_env ''db'' (WithoutDNIdentity ?e) sample_dn (Key sample_aware) False (update_tx NewMemory) = (Ok (), tx1)"
    unfolding putInWithDN_def Let_def if_P [OF sample_aware_key]
    by (simp add: tx_bind_def tx_check_def tx_modify_def writable_def poll empty ready
        markSchemaAwareDNIdentityReadyIfNoLegacy_def setSchemaAwareDNIdentityReady_def has_entry_def)
  then obtain tx1 where put: "putInWithDN sample_env ''db'' (WithoutDNIdentity ?e) sample_dn (Key sample_aware) False (update_tx NewMemory) = (Ok (), tx1)"
    by blast
  have valid: "ValidateIdentityKey (se_lib sample_env) (se_unicode sample_env) sample_dn (Key sample_aware) = Ok ()"
    using sample_aware_valid by (simp add: sample_env_def)
  have "\<exists>tx'. PutIn sample_env (trust wk fmempty) ''db'' ?e False (update_tx NewMemory) = (Ok (), tx')"
    unfolding PutIn_def
    by (simp add: tx_bind_def tx_check_def tx_modify_def writable_def poll empty e parse valid put
        requireTrustedDNIdentityWrite_def wk trust_def map_zero_def)
  moreover have "release_trust wk (trust wk fmempty) = fmempty" by (rule trust_release) simp
  ultimately show ?thesis by (auto simp: PutInWithDN_def n parse same wk)
qed


lemma sample_step: "tx_step sample_lib sample_unicode (update_tx NewMemory)
    (snd (PutIn sample_env fmempty ''db'' sample_entry False (update_tx NewMemory)))"
  by (rule tx_step.st_PutIn) (simp_all add: op_env_def nul_free_def sample_entry_def bare_entry_def, simp add: sample_env_def)

definition sample_store :: Memory where
  "sample_store = commit (snd (PutIn sample_env fmempty ''db'' sample_entry False (update_tx NewMemory))) NewMemory"

lemma sample_store_reachable: "reachable_store sample_lib sample_unicode sample_store"
  unfolding reachable_store_def sample_store_def
  by (intro r_into_rtranclp store_step.ss_update r_into_rtranclp sample_step) (simp add: NewMemory_def)

lemma sample_store_entries: "entries sample_store = fmupd (partitionedEntryKey ''db'' ''cn=a'') sample_entry fmempty"
proof -
  have n: "e_DN sample_entry = ''cn=a''" "DNIdentity sample_entry = ([], False)" "WithoutDNIdentity sample_entry = sample_entry"
    by (simp_all add: sample_entry_def bare_entry_def DNIdentity_def WithoutDNIdentity_def)
  have parse: "ParseDN (se_lib sample_env) (se_unicode sample_env) ''cn=a'' = Ok sample_dn" by (simp add: sample_env_def sample_parse)
  have empty: "entries (update_tx NewMemory) = fmempty" "metadata (update_tx NewMemory) = fmempty" "\<not> readOnly (update_tx NewMemory)"
    by (simp_all add: update_tx_def NewMemory_def)
  have poll: "poll sample_env site k = Ok ()" "range_keys sample_env site {||} = []" for site k
    by (simp_all add: poll_def sample_env_def sorted_list_of_fset.rep_eq)
  have key: "Key sample_dn = ''cn=a''" "\<not> isSchemaAwareDNKey ''cn=a''"
    by (simp_all add: sample_dn_def Key_def isSchemaAwareDNKey_def HasPrefix_def schemaAwareDNKeyPrefix_def)
  have valid: "ValidateIdentityKey (se_lib sample_env) (se_unicode sample_env) sample_dn ''cn=a'' = Ok ()"
    by (simp add: ValidateIdentityKey_def HasPrefix_def schemaAwareDNKeyPrefix_def sample_dn_def sample_string sample_lower sample_env_def)
  have old: "existing_keys sample_env (update_tx NewMemory) ''db'' (partitionedEntryKey ''db'' ''cn=a'') sample_dn = Ok {||}"
    by (simp add: existing_keys_def poll empty has_entry_def)
  show ?thesis
    unfolding sample_store_def PutIn_def putInWithDN_def Let_def
    by (simp add: tx_bind_def tx_check_def tx_modify_def writable_def poll empty n parse key valid old
       commit_def forget_identity_def putEntry_def has_entry_def invalidateEqualityIndexes_def delete_metadata_def)
qed

theorem entry_counts_exact_witness:
  "View sample_env (\<lambda>tx. PartitionEntryCount sample_env tx ''db'') sample_store = Ok 1"
proof -
  have ok: "poll sample_env site k = Ok ()" for site k by (simp add: poll_def sample_env_def)
  obtain n where n: "View sample_env (\<lambda>tx. PartitionEntryCount sample_env tx ''db'') sample_store = Ok n"
    by (simp add: View_def ok PartitionEntryCount_def sample_store_def commit_def NewMemory_def)
  have "{key. key |\<in>| fmdom (entries sample_store) \<and> fst (splitPartitionedEntryKey key) = ''db''} = {partitionedEntryKey ''db'' ''cn=a''}"
    by (auto simp: sample_store_entries nul_free_def)
  with n entry_counts_exact [OF sample_store_reachable n] show ?thesis by simp
qed


end
