(* ===== verification/Index_Invariant.thy ===== *)
theory Index_Invariant
  imports Store_Invariants
begin

text \<open>
  The postings of the in-memory engine follow its entries: what an exact index is, that the indexed
  writes of \<open>src/internal/storage/index_memory.go\<close> keep it, and that the candidates of a filter
  miss no entry. The store is an instance of the interface that the planner works on.
\<close>

section \<open>What the postings of a partition are\<close>

text \<open>The posting terms of an entry, as keys of the posting map.\<close>

definition entry_prefixes :: "bytes \<Rightarrow> EqualityIndexConfig \<Rightarrow> (bytes \<rightharpoonup> equalityIndexAttributeTerms) \<Rightarrow> bytes set" where
  "entry_prefixes db config terms =
     {equalityIndexPostingPrefix db a kind v | a d kind v. equalityIndexAttributeDefinition config a = Some d \<and>
        (kind, v) \<in> set (equalityIndexTermsForAttribute d (terms_of terms a))}"

definition indexed_under :: "bytes \<Rightarrow> EqualityIndexSchema \<Rightarrow> EqualityIndexConfig \<Rightarrow> Entry \<Rightarrow> bytes \<Rightarrow> bool" where
  "indexed_under db schema config e t \<longleftrightarrow>
     (\<exists>terms. equalityIndexEntryTerms schema config e = Ok terms \<and> t \<in> entry_prefixes db config terms)"

definition entries_in :: "'a store_data_scheme \<Rightarrow> bytes \<Rightarrow> Entry set" where
  "entries_in tx db = {e. \<exists>key. fmlookup (entries tx) key = Some e \<and> partition_of key = db}"

text \<open>
  The index of a partition is exact: it is configured, every entry has terms, and an entry's
  name is posted under a term exactly when some entry of that name has the term.
\<close>

definition index_exact :: "memoryTx \<Rightarrow> bytes \<Rightarrow> EqualityIndexSchema \<Rightarrow> EqualityIndexConfig \<Rightarrow> bool" where
  "index_exact tx db schema config \<longleftrightarrow>
     fmlookup (equalityIndexConfigs tx) db = Some config \<and> config_ok config \<and>
     (\<forall>e\<in>entries_in tx db. \<exists>terms. equalityIndexEntryTerms schema config e = Ok terms) \<and>
     (\<exists>p. fmlookup (equalityPostings tx) db = Some p \<and>
        (\<forall>t r. r |\<in>| map_zero {||} p t \<longleftrightarrow>
           (\<exists>e\<in>entries_in tx db. e_DN e = r \<and> indexed_under db schema config e t)))"

text \<open>The keys of the partition are what the names of its entries normalise to.\<close>

definition keyed :: "(bytes \<Rightarrow> bytes) \<Rightarrow> memoryTx \<Rightarrow> bytes \<Rightarrow> bool" where
  "keyed ident tx db \<longleftrightarrow> (\<forall>key e. fmlookup (entries tx) key = Some e \<longrightarrow> partition_of key = db \<longrightarrow>
     key = partitionedEntryKey db (ident (e_DN e)))"

section \<open>Adding and deleting postings\<close>

lemma config_attributes:
  assumes "config_ok config"
  shows "(\<exists>d. equalityIndexAttributeDefinition config a = Some d) \<longleftrightarrow> a \<in> set (map ia_Attribute (ic_Attributes config))"
proof -
  have "(\<exists>d. find (\<lambda>d. ia_Attribute d = a) as = Some d) \<longleftrightarrow> a \<in> set (map ia_Attribute as)" for as
    by (induction as) auto
  then show ?thesis unfolding definition_lookup [OF assms] .
qed

lemma entry_term_list_set:
  assumes "ranges_all E" "config_ok config"
  shows "(\<lambda>(a, kind, v). equalityIndexPostingPrefix db a kind v) ` set (entry_term_list E site config terms) =
    entry_prefixes db config terms"
proof -
  have r: "set (range_keys E site (fset_of_list (map ia_Attribute (ic_Attributes config)))) =
      {a. \<exists>d. equalityIndexAttributeDefinition config a = Some d}"
    using assms(1) config_attributes [OF assms(2)] by (auto simp: ranges_all_def fset_of_list.rep_eq)
  have mem: "(a, kind, v) \<in> set (entry_term_list E site config terms) \<longleftrightarrow>
      (\<exists>d. equalityIndexAttributeDefinition config a = Some d \<and> (kind, v) \<in> set (equalityIndexTermsForAttribute d (terms_of terms a)))"
    for a kind v
    unfolding entry_term_list_def set_concat set_map r by (auto split: option.splits)
  have "t \<in> (\<lambda>(a, kind, v). equalityIndexPostingPrefix db a kind v) ` set (entry_term_list E site config terms) \<longleftrightarrow>
      (\<exists>a kind v. (a, kind, v) \<in> set (entry_term_list E site config terms) \<and> t = equalityIndexPostingPrefix db a kind v)" for t
    by force
  then show ?thesis unfolding entry_prefixes_def mem by blast
qed

lemma add_postings:
  "r |\<in>| map_zero {||} (foldl (addMemoryEqualityPosting db ref) p ts) t \<longleftrightarrow>
     r |\<in>| map_zero {||} p t \<or> r = ref \<and> t \<in> (\<lambda>(a, kind, v). equalityIndexPostingPrefix db a kind v) ` set ts"
proof (induction ts arbitrary: p)
  case (Cons x ts)
  obtain a kind v where x: "x = (a, kind, v)" by (cases x)
  show ?case unfolding foldl_Cons Cons.IH by (auto simp: x addMemoryEqualityPosting_def Let_def)
qed simp

lemma delete_postings:
  "r |\<in>| map_zero {||} (foldl (deleteMemoryEqualityPosting db ref) p ts) t \<longleftrightarrow>
     r |\<in>| map_zero {||} p t \<and> \<not> (r = ref \<and> t \<in> (\<lambda>(a, kind, v). equalityIndexPostingPrefix db a kind v) ` set ts)"
proof (induction ts arbitrary: p)
  case (Cons x ts)
  obtain a kind v where x: "x = (a, kind, v)" by (cases x)
  have "r |\<in>| map_zero {||} (deleteMemoryEqualityPosting db ref p x) t \<longleftrightarrow>
      r |\<in>| map_zero {||} p t \<and> \<not> (r = ref \<and> t = equalityIndexPostingPrefix db a kind v)"
    unfolding x deleteMemoryEqualityPosting_def Let_def prod.case by auto
  then show ?case unfolding foldl_Cons Cons.IH by (auto simp: x)
qed simp

lemma add_entry_Ok:
  assumes "addEqualityIndexEntry E db entry schema config tx = (Ok (), tx')" "fmlookup (equalityPostings tx) db = Some p"
    and "ranges_all E" "config_ok config"
  shows "\<exists>terms p'. equalityIndexEntryTerms schema config entry = Ok terms \<and>
    tx' = tx\<lparr>equalityPostings := fmupd db p' (equalityPostings tx)\<rparr> \<and>
    (\<forall>t r. r |\<in>| map_zero {||} p' t \<longleftrightarrow> r |\<in>| map_zero {||} p t \<or> r = e_DN entry \<and> indexed_under db schema config entry t)"
proof -
  from assms(1,2) obtain terms where t: "equalityIndexEntryTerms schema config entry = Ok terms"
    "tx' = tx\<lparr>equalityPostings := fmupd db (foldl (addMemoryEqualityPosting db (e_DN entry)) p
      (entry_term_list E ''addEqualityIndexEntry'' config terms)) (equalityPostings tx)\<rparr>"
    by (auto simp: addEqualityIndexEntry_def tx_Ok Let_def)
  then show ?thesis using add_postings entry_term_list_set [OF assms(3,4), of db "''addEqualityIndexEntry''" terms]
    by (auto simp: indexed_under_def)
qed

lemma remove_entry_Ok:
  assumes "removeEqualityIndexEntry E db entry schema config tx = (Ok (), tx')" "fmlookup (equalityPostings tx) db = Some p"
    and "ranges_all E" "config_ok config"
  shows "\<exists>terms p'. equalityIndexEntryTerms schema config entry = Ok terms \<and>
    tx' = tx\<lparr>equalityPostings := fmupd db p' (equalityPostings tx)\<rparr> \<and>
    (\<forall>t r. r |\<in>| map_zero {||} p' t \<longleftrightarrow> r |\<in>| map_zero {||} p t \<and> \<not> (r = e_DN entry \<and> indexed_under db schema config entry t))"
proof -
  from assms(1,2) obtain terms where t: "equalityIndexEntryTerms schema config entry = Ok terms"
    "tx' = tx\<lparr>equalityPostings := fmupd db (foldl (deleteMemoryEqualityPosting db (e_DN entry)) p
      (entry_term_list E ''removeEqualityIndexEntry'' config terms)) (equalityPostings tx)\<rparr>"
    by (auto simp: removeEqualityIndexEntry_def tx_Ok Let_def)
  then show ?thesis using delete_postings entry_term_list_set [OF assms(3,4), of db "''removeEqualityIndexEntry''" terms]
    by (auto simp: indexed_under_def)
qed

section \<open>Building\<close>

lemma fmupd_same: "fmlookup m k = Some v \<Longrightarrow> fmupd k v m = m"
  by (rule fmap_ext) auto

lemma index_keys_Ok:
  assumes "index_keys E db schema config keys tx = (Ok (), tx')" "fmlookup (equalityPostings tx) db = Some p"
    and "ranges_all E" "config_ok config"
  shows "\<exists>p'. tx' = tx\<lparr>equalityPostings := fmupd db p' (equalityPostings tx)\<rparr> \<and>
    (\<forall>key\<in>set keys. \<exists>terms. equalityIndexEntryTerms schema config (entry_at tx key) = Ok terms) \<and>
    (\<forall>t r. r |\<in>| map_zero {||} p' t \<longleftrightarrow> r |\<in>| map_zero {||} p t \<or>
       (\<exists>key\<in>set keys. e_DN (entry_at tx key) = r \<and> indexed_under db schema config (entry_at tx key) t))"
  using assms(1,2)
proof (induction keys arbitrary: tx p)
  case Nil
  then show ?case
    by (intro exI [of _ p]) (auto simp: index_keys_def tx_Ok fmupd_same)
next
  case (Cons key keys)
  from Cons.prems(1) obtain tx1 where step: "addEqualityIndexEntry E db (entry_at tx key) schema config tx = (Ok (), tx1)"
    "index_keys E db schema config keys tx1 = (Ok (), tx')" by (auto simp: index_keys_def tx_Ok)
  from add_entry_Ok [OF step(1) Cons.prems(2) assms(3,4)] obtain terms p1 where
    p1: "equalityIndexEntryTerms schema config (entry_at tx key) = Ok terms"
      "tx1 = tx\<lparr>equalityPostings := fmupd db p1 (equalityPostings tx)\<rparr>"
      "\<And>t r. r |\<in>| map_zero {||} p1 t \<longleftrightarrow> r |\<in>| map_zero {||} p t \<or>
        r = e_DN (entry_at tx key) \<and> indexed_under db schema config (entry_at tx key) t" by blast
  have "fmlookup (equalityPostings tx1) db = Some p1" by (simp add: p1(2))
  from Cons.IH [OF step(2) this] obtain p' where
    p': "tx' = tx1\<lparr>equalityPostings := fmupd db p' (equalityPostings tx1)\<rparr>"
      "\<forall>key\<in>set keys. \<exists>terms. equalityIndexEntryTerms schema config (entry_at tx1 key) = Ok terms"
      "\<And>t r. r |\<in>| map_zero {||} p' t \<longleftrightarrow> r |\<in>| map_zero {||} p1 t \<or>
        (\<exists>key\<in>set keys. e_DN (entry_at tx1 key) = r \<and> indexed_under db schema config (entry_at tx1 key) t)" by blast
  have same: "entry_at tx1 k = entry_at tx k" for k by (simp add: p1(2) entry_at_def)
  have "tx' = tx\<lparr>equalityPostings := fmupd db p' (equalityPostings tx)\<rparr>" by (simp add: p'(1) p1(2))
  with p1(1) p'(2,3) p1(3) show ?case unfolding same by (intro exI [of _ p']) auto
qed

lemma entries_in_keys: "e \<in> entries_in tx db \<longleftrightarrow> (\<exists>key\<in>keys_of tx db. entry_at tx key = e)"
  by (auto simp: entries_in_def keys_of_def entry_at_def fmlookup_dom_iff map_zero_Some)

lemma keys_in_set: "ranges_all E \<Longrightarrow> set (keys_in E site tx db) = keys_of tx db"
  by (auto simp: keys_in_def ranges_all_def keys_of_def)

lemma build_exact:
  assumes "buildEqualityIndexes E db schema config tx = (Ok (), tx')" "ranges_all E" "config_ok config"
  shows "index_exact tx' db schema config" "entries tx' = entries tx"
    "dnIdentities tx' = dnIdentities tx \<and> dnSources tx' = dnSources tx"
proof -
  let ?tx0 = "tx\<lparr>equalityIndexConfigs := fmupd db config (equalityIndexConfigs tx),
      equalityPostings := fmupd db fmempty (equalityPostings tx)\<rparr>"
  from assms(1) have run: "index_keys E db schema config (keys_in E ''buildEqualityIndexes'' ?tx0 db) ?tx0 = (Ok (), tx')"
    by (auto simp: buildEqualityIndexes_def tx_Ok)
  from index_keys_Ok [OF run _ assms(2,3), of fmempty] obtain p where
    p: "tx' = ?tx0\<lparr>equalityPostings := fmupd db p (equalityPostings ?tx0)\<rparr>"
      "\<forall>key\<in>keys_of ?tx0 db. \<exists>terms. equalityIndexEntryTerms schema config (entry_at ?tx0 key) = Ok terms"
      "\<forall>t r. r |\<in>| map_zero {||} p t \<longleftrightarrow> (\<exists>key\<in>keys_of ?tx0 db. e_DN (entry_at ?tx0 key) = r \<and>
         indexed_under db schema config (entry_at ?tx0 key) t)"
    unfolding keys_in_set [OF assms(2)] by auto
  show "entries tx' = entries tx" "dnIdentities tx' = dnIdentities tx \<and> dnSources tx' = dnSources tx"
    by (simp_all add: p(1))
  have e: "entries_in tx' db = entries_in ?tx0 db" by (simp add: p(1) entries_in_def)
  have "fmlookup (equalityPostings tx') db = Some p" "fmlookup (equalityIndexConfigs tx') db = Some config" by (simp_all add: p(1))
  with p(2,3) assms(3) show "index_exact tx' db schema config"
    unfolding index_exact_def e entries_in_keys Ball_def Bex_def by blast
qed

definition faithful_marshal :: "store_env \<Rightarrow> bool" where
  "faithful_marshal E \<longleftrightarrow> (\<forall>c c'. equalityIndexConfigsEqual (Marshal_config E) c c' \<longrightarrow> c = c')"

text \<open>The index of a partition is missing, or exact for the schema under the configuration it has.\<close>

definition index_consistent :: "memoryTx \<Rightarrow> bytes \<Rightarrow> EqualityIndexSchema \<Rightarrow> bool" where
  "index_consistent tx db schema \<longleftrightarrow>
     (\<forall>config. fmlookup (equalityIndexConfigs tx) db = Some config \<longrightarrow> index_exact tx db schema config)"

lemma wanted_config_ok: "wanted_config E schema = Ok config \<Longrightarrow> config_ok config"
  using normalized_config_ok by (auto simp: wanted_config_def)

lemma ensure_exact:
  assumes "ensureEqualityIndexes E db schema tx = (Ok config, tx')" "ranges_all E" "faithful_marshal E"
    and "index_consistent tx db schema"
  shows "index_exact tx' db schema config" "entries tx' = entries tx"
proof -
  have "index_exact tx' db schema config \<and> entries tx' = entries tx"
  proof (cases "tx' = tx \<and> fmlookup (equalityIndexConfigs tx) db = Some config")
    case True
    then show ?thesis using assms(4) by (simp add: index_consistent_def)
  next
    case False
    with assms(1,3) have "buildEqualityIndexes E db schema config tx = (Ok (), tx')" "wanted_config E schema = Ok config"
      by (auto simp: ensureEqualityIndexes_def tx_Ok faithful_marshal_def split: option.splits if_splits)
    from build_exact [OF this(1) assms(2) wanted_config_ok [OF this(2)]] show ?thesis by blast
  qed
  then show "index_exact tx' db schema config" "entries tx' = entries tx" by blast+
qed

section \<open>Removing an entry\<close>

lemma drop_entry_Ok:
  assumes "drop_entry key tx = (Ok (), tx')"
  shows "entries tx' = fmdrop key (entries tx) \<and> equalityIndexConfigs tx' = equalityIndexConfigs tx \<and>
    equalityPostings tx' = equalityPostings tx"
  using assms
  by (auto simp: drop_entry_def tx_Ok deleteEntry_def Let_def forget_identity_def has_entry_iff fmdrop_idle split: if_splits)

lemma entries_in_drop:
  assumes "keyed ident tx db" "fmlookup (entries tx) key = Some old" "partition_of key = db" "entries tx' = fmdrop key (entries tx)"
  shows "entries_in tx' db = {e\<in>entries_in tx db. e_DN e \<noteq> e_DN old}"
proof -
  have only: "k = key" if "fmlookup (entries tx) k = Some e" "partition_of k = db" "e_DN e = e_DN old" for k e
    using assms(1-3) that unfolding keyed_def by metis
  show ?thesis
  proof (intro set_eqI iffI)
    fix e assume "e \<in> entries_in tx' db"
    then obtain k where k: "k \<noteq> key" "fmlookup (entries tx) k = Some e" "partition_of k = db"
      by (auto simp: entries_in_def assms(4) split: if_splits)
    with only show "e \<in> {e\<in>entries_in tx db. e_DN e \<noteq> e_DN old}" by (auto simp: entries_in_def)
  next
    fix e assume "e \<in> {e\<in>entries_in tx db. e_DN e \<noteq> e_DN old}"
    then obtain k where k: "fmlookup (entries tx) k = Some e" "partition_of k = db" "e_DN e \<noteq> e_DN old"
      by (auto simp: entries_in_def)
    then have "k \<noteq> key" using assms(2) by auto
    with k show "e \<in> entries_in tx' db" by (auto simp: entries_in_def assms(4))
  qed
qed

lemma unindex_exact:
  assumes run: "unindex_and_drop E db schema config key tx = (Ok (), tx')" and E: "ranges_all E"
    and ix: "index_exact tx db schema config" and k: "keyed ident tx db" and key: "has_entry tx key" "partition_of key = db"
  shows "index_exact tx' db schema config" "entries tx' = fmdrop key (entries tx)"
proof -
  from key(1) obtain old where old: "fmlookup (entries tx) key = Some old" by (auto simp: has_entry_def)
  then have at: "entry_at tx key = old" by (simp add: entry_at_def map_zero_Some)
  from ix obtain p where p: "fmlookup (equalityIndexConfigs tx) db = Some config" "config_ok config"
    "\<forall>e\<in>entries_in tx db. \<exists>terms. equalityIndexEntryTerms schema config e = Ok terms"
    "fmlookup (equalityPostings tx) db = Some p"
    "\<And>t r. r |\<in>| map_zero {||} p t \<longleftrightarrow> (\<exists>e\<in>entries_in tx db. e_DN e = r \<and> indexed_under db schema config e t)"
    by (auto simp: index_exact_def)
  from run obtain tx1 where r: "removeEqualityIndexEntry E db old schema config tx = (Ok (), tx1)"
    "drop_entry key tx1 = (Ok (), tx')" by (auto simp: unindex_and_drop_def tx_Ok at)
  from remove_entry_Ok [OF r(1) p(4) E p(2)] obtain p' where
    p': "tx1 = tx\<lparr>equalityPostings := fmupd db p' (equalityPostings tx)\<rparr>"
      "\<And>t r. r |\<in>| map_zero {||} p' t \<longleftrightarrow> r |\<in>| map_zero {||} p t \<and> \<not> (r = e_DN old \<and> indexed_under db schema config old t)"
    by blast
  note d = drop_entry_Ok [OF r(2)]
  show e': "entries tx' = fmdrop key (entries tx)" using d by (simp add: p'(1))
  have ein: "entries_in tx' db = {e\<in>entries_in tx db. e_DN e \<noteq> e_DN old}" by (rule entries_in_drop [OF k old key(2) e'])
  have "old \<in> entries_in tx db" using old key(2) by (auto simp: entries_in_def)
  moreover have "e = old" if "e \<in> entries_in tx db" "e_DN e = e_DN old" for e
  proof -
    from that(1) obtain k' where "fmlookup (entries tx) k' = Some e" "partition_of k' = db" by (auto simp: entries_in_def)
    moreover from this k that(2) old key(2) have "k' = key" unfolding keyed_def by metis
    ultimately show ?thesis using old by simp
  qed
  ultimately have "r |\<in>| map_zero {||} p' t \<longleftrightarrow> (\<exists>e\<in>entries_in tx' db. e_DN e = r \<and> indexed_under db schema config e t)" for t r
    unfolding p'(2) p(5) ein by blast
  moreover have "fmlookup (equalityPostings tx') db = Some p'" "fmlookup (equalityIndexConfigs tx') db = Some config"
    using d p(1) by (simp_all add: p'(1))
  ultimately show "index_exact tx' db schema config" using p(2,3) unfolding index_exact_def ein by blast
qed

lemma keyed_drop: "keyed ident tx db \<Longrightarrow> entries tx' = fmdrop key (entries tx) \<Longrightarrow> keyed ident tx' db"
  by (auto simp: keyed_def split: if_splits)

section \<open>Inserting an entry\<close>

lemma putInWithDN_new:
  assumes "putInWithDN E db entry dn identity False tx = (Ok (), tx')" "nul_free db" "ranges_all E"
  shows "entries tx' = fmupd (partitionedEntryKey db identity) entry (entries tx) \<and>
    equalityIndexConfigs tx' = equalityIndexConfigs tx \<and> equalityPostings tx' = equalityPostings tx"
proof (cases "isSchemaAwareDNKey identity")
  case True
  have mark: "markSchemaAwareDNIdentityReadyIfNoLegacy E db t = (Ok (), t') \<Longrightarrow> entries t' = entries t \<and>
      equalityIndexConfigs t' = equalityIndexConfigs t \<and> equalityPostings t' = equalityPostings t" for t t'
    by (auto simp: markSchemaAwareDNIdentityReadyIfNoLegacy_def tx_Ok setSchemaAwareDNIdentityReady_def)
  from assms(1) obtain ready u tx1 where
    r: "(if \<not> ready then markSchemaAwareDNIdentityReadyIfNoLegacy E db else tx_check (\<lambda>_. Ok ())) tx = (Ok u, tx1)"
      "tx' = set_identity (partitionedEntryKey db identity) identity (e_DN entry) (putEntry db (partitionedEntryKey db identity) entry tx1)"
    unfolding putInWithDN_def Let_def if_P [OF True] tx_Ok Clone_same by blast
  then have "entries tx1 = entries tx \<and> equalityIndexConfigs tx1 = equalityIndexConfigs tx \<and> equalityPostings tx1 = equalityPostings tx"
    using mark by (auto simp: tx_Ok split: if_splits)
  then show ?thesis by (simp add: r(2) set_identity_def putEntry_def Let_def)
next
  case False
  from assms(1) False obtain ks where ks: "existing_keys E tx db (partitionedEntryKey db identity) dn = Ok ks" "ks = {||}"
    "tx_foreach (filter (\<lambda>k. k \<noteq> partitionedEntryKey db identity) (range_keys E ''existingKeys'' ks)) drop_entry
      (forget_identity (partitionedEntryKey db identity) (putEntry db (partitionedEntryKey db identity) entry tx)) = (Ok (), tx')"
    by (auto simp: putInWithDN_def tx_Ok Let_def split: if_splits)
  have "set (range_keys E ''existingKeys'' {||}) = fset {||}" using assms(3) unfolding ranges_all_def by blast
  then have "range_keys E ''existingKeys'' ks = []" using ks(2) by simp
  with ks(3) show ?thesis by (simp add: tx_Ok forget_identity_def putEntry_def Let_def)
qed

text \<open>The schema reads values from the attributes of an entry, not from its stored identity.\<close>

definition identity_blind :: "EqualityIndexSchema \<Rightarrow> bool" where
  "identity_blind schema \<longleftrightarrow> (\<forall>e a.
     EqualityIndexValues schema (WithoutDNIdentity e) a = EqualityIndexValues schema e a \<and>
     SubstringIndexValues schema (WithoutDNIdentity e) a = SubstringIndexValues schema e a \<and>
     OrderingIndexValues schema (WithoutDNIdentity e) a = OrderingIndexValues schema e a \<and>
     ApproximateIndexValues schema (WithoutDNIdentity e) a = ApproximateIndexValues schema e a)"

lemma e_DN_without [simp]: "e_DN (WithoutDNIdentity e) = e_DN e"
  by (simp add: WithoutDNIdentity_def)

lemma terms_without:
  assumes "identity_blind schema"
  shows "equalityIndexEntryTerms schema config (WithoutDNIdentity e) = equalityIndexEntryTerms schema config e"
proof -
  have a: "attribute_terms schema (WithoutDNIdentity e) d = attribute_terms schema e d" for d
    using assms by (simp add: attribute_terms_def identity_blind_def)
  have "entry_terms_from schema (WithoutDNIdentity e) as init = entry_terms_from schema e as init" for as init
  proof (induction as arbitrary: init)
    case (Cons d as)
    show ?case unfolding entry_terms_from.simps a Cons.IH by (rule refl)
  qed simp
  then show ?thesis by (simp add: equalityIndexEntryTerms_def)
qed

lemma indexed_under_without: "identity_blind schema \<Longrightarrow> indexed_under db schema config (WithoutDNIdentity e) t = indexed_under db schema config e t"
  by (simp add: indexed_under_def terms_without)

lemma schema_keys_Ok:
  assumes "schemaAwareEntryKeys E tx db dn schema = Ok keys"
  shows "keys = (if has_entry tx (partitionedEntryKey db (Key dn)) then [partitionedEntryKey db (Key dn)] else [])"
  using assms by (auto simp: schemaAwareEntryKeys_def Let_def split: if_splits)

lemma has_entry_cong: "entries tx' = entries tx \<Longrightarrow> has_entry tx' key = has_entry tx key"
  by (simp add: has_entry_def)

lemma keyed_cong: "entries tx' = entries tx \<Longrightarrow> keyed ident tx' db = keyed ident tx db"
  by (simp add: keyed_def)

lemma entries_in_insert:
  assumes "key |\<notin>| fmdom (entries tx)" "entries tx' = fmupd key e (entries tx)" "partition_of key = db"
  shows "entries_in tx' db = insert e (entries_in tx db)"
proof (intro set_eqI iffI)
  fix x assume "x \<in> entries_in tx' db"
  then obtain k where "fmlookup (fmupd key e (entries tx)) k = Some x" "partition_of k = db"
    unfolding entries_in_def assms(2) by blast
  then show "x \<in> insert e (entries_in tx db)" by (cases "k = key") (auto simp: entries_in_def)
next
  fix x assume x: "x \<in> insert e (entries_in tx db)"
  show "x \<in> entries_in tx' db"
  proof (cases "x = e")
    case True
    with assms(3) show ?thesis unfolding entries_in_def assms(2) by (intro CollectI exI [of _ key]) simp
  next
    case False
    with x obtain k where k: "fmlookup (entries tx) k = Some x" "partition_of k = db" by (auto simp: entries_in_def)
    then have "k \<noteq> key" using assms(1) by (auto simp: fmlookup_dom_iff)
    with k show ?thesis unfolding entries_in_def assms(2) by (intro CollectI exI [of _ k]) simp
  qed
qed

lemma keyed_insert:
  assumes "keyed ident tx db" "entries tx' = fmupd key e (entries tx)" "key = partitionedEntryKey db (ident (e_DN e))"
  shows "keyed ident tx' db"
  unfolding keyed_def
proof (intro allI impI)
  fix k x assume k: "fmlookup (entries tx') k = Some x" "partition_of k = db"
  show "k = partitionedEntryKey db (ident (e_DN x))"
  proof (cases "k = key")
    case True
    with k(1) have "x = e" by (simp add: assms(2))
    with True assms(3) show ?thesis by simp
  next
    case False
    with k(1) have "fmlookup (entries tx) k = Some x" by (simp add: assms(2))
    with assms(1) k(2) show ?thesis unfolding keyed_def by blast
  qed
qed

lemma indexed_put_Ok:
  assumes run: "putInWithEqualityIndexes E db entry dn replace schema tx = (Ok (), tx')"
    and E: "ranges_all E" "faithful_marshal E" and db: "nul_free db"
    and ix: "index_consistent tx db (is_schema schema)" and k: "keyed ident tx db"
    and dn: "Key dn = ident (e_DN entry)" and blind: "identity_blind (is_schema schema)"
  shows "(\<exists>config. index_exact tx' db (is_schema schema) config) \<and> keyed ident tx' db \<and>
    entries tx' = fmupd (partitionedEntryKey db (Key dn)) (WithoutDNIdentity entry) (entries tx)"
proof -
  let ?key = "partitionedEntryKey db (Key dn)"
  let ?s = "is_schema schema"
  from run obtain config tx1 keys u tx2 u' tx3 where
    r: "ensureEqualityIndexes E db ?s tx = (Ok config, tx1)" "schemaAwareEntryKeys E tx1 db dn schema = Ok keys"
      "tx_foreach keys (unindex_and_drop E db ?s config) tx1 = (Ok u, tx2)"
      "putInWithDN E db (WithoutDNIdentity entry) dn (Key dn) False tx2 = (Ok u', tx3)"
      "addEqualityIndexEntry E db entry ?s config tx3 = (Ok (), tx')"
    unfolding putInWithEqualityIndexes_def tx_Ok by blast
  note en = ensure_exact [OF r(1) E ix]
  have k1: "keyed ident tx1 db" using k keyed_cong [OF en(2)] by simp
  have s2: "index_exact tx2 db ?s config \<and> keyed ident tx2 db \<and> entries tx2 = fmdrop ?key (entries tx1)"
  proof (cases "has_entry tx1 ?key")
    case True
    then have "unindex_and_drop E db ?s config ?key tx1 = (Ok (), tx2)"
      using r(3) schema_keys_Ok [OF r(2)] by (simp add: tx_Ok)
    from unindex_exact [OF this E(1) en(1) k1 True] db keyed_drop [OF k1] show ?thesis by simp
  next
    case False
    then have "tx2 = tx1" using r(3) schema_keys_Ok [OF r(2)] by (simp add: tx_Ok)
    with False en(1) k1 show ?thesis by (simp add: has_entry_iff fmdrop_idle)
  qed
  from putInWithDN_new [OF _ db E(1), of "WithoutDNIdentity entry" dn "Key dn" tx2 tx3] r(4)
  have p: "entries tx3 = fmupd ?key (WithoutDNIdentity entry) (entries tx2)"
    "equalityIndexConfigs tx3 = equalityIndexConfigs tx2" "equalityPostings tx3 = equalityPostings tx2" by simp_all
  from s2 obtain q where q: "fmlookup (equalityIndexConfigs tx2) db = Some config" "config_ok config"
    "\<forall>e\<in>entries_in tx2 db. \<exists>terms. equalityIndexEntryTerms ?s config e = Ok terms"
    "fmlookup (equalityPostings tx2) db = Some q"
    "\<And>t r. r |\<in>| map_zero {||} q t \<longleftrightarrow> (\<exists>e\<in>entries_in tx2 db. e_DN e = r \<and> indexed_under db ?s config e t)"
    by (auto simp: index_exact_def)
  from add_entry_Ok [OF r(5) _ E(1) q(2), of q] q(4) p(3) obtain terms q' where
    q': "equalityIndexEntryTerms ?s config entry = Ok terms" "tx' = tx3\<lparr>equalityPostings := fmupd db q' (equalityPostings tx3)\<rparr>"
      "\<And>t r. r |\<in>| map_zero {||} q' t \<longleftrightarrow> r |\<in>| map_zero {||} q t \<or> r = e_DN entry \<and> indexed_under db ?s config entry t"
    by auto
  have e': "entries tx' = fmupd ?key (WithoutDNIdentity entry) (entries tx2)" by (simp add: q'(2) p(1))
  have "?key |\<notin>| fmdom (entries tx2)" using s2 by simp
  from entries_in_insert [OF this e'] db
  have ein: "entries_in tx' db = insert (WithoutDNIdentity entry) (entries_in tx2 db)" by simp
  have keyed': "keyed ident tx' db" using s2 dn by (intro keyed_insert [OF _ e']) simp_all
  have entries': "entries tx' = fmupd ?key (WithoutDNIdentity entry) (entries tx)"
    using s2 en(2) by (intro fmap_ext) (simp add: e')
  have post: "r |\<in>| map_zero {||} q' t \<longleftrightarrow>
      (\<exists>e\<in>entries_in tx' db. e_DN e = r \<and> indexed_under db ?s config e t)" for t r
    using indexed_under_without [OF blind, of db config entry t] e_DN_without [of entry] unfolding q'(3) q(5) ein by blast
  have "\<forall>e\<in>entries_in tx' db. \<exists>terms. equalityIndexEntryTerms ?s config e = Ok terms"
    using q(3) q'(1) terms_without [OF blind, of config entry] unfolding ein by force
  moreover have "fmlookup (equalityPostings tx') db = Some q'" "fmlookup (equalityIndexConfigs tx') db = Some config"
    using q(1) p(2) by (simp_all add: q'(2))
  ultimately have "index_exact tx' db ?s config" using q(2) post unfolding index_exact_def by blast
  with keyed' entries' show ?thesis by blast
qed

lemma indexed_delete_Ok:
  assumes run: "deleteInWithEqualityIndexes E db dn schema tx = (Ok (), tx')"
    and E: "ranges_all E" "faithful_marshal E" and db: "nul_free db"
    and ix: "index_consistent tx db (is_schema schema)" and k: "keyed ident tx db"
  shows "(\<exists>config. index_exact tx' db (is_schema schema) config) \<and> keyed ident tx' db \<and>
    has_entry tx (partitionedEntryKey db (Key dn)) \<and> entries tx' = fmdrop (partitionedEntryKey db (Key dn)) (entries tx)"
proof -
  let ?key = "partitionedEntryKey db (Key dn)"
  let ?s = "is_schema schema"
  from run obtain config tx1 keys where
    r: "ensureEqualityIndexes E db ?s tx = (Ok config, tx1)" "schemaAwareEntryKeys E tx1 db dn schema = Ok keys"
      "(case keys of [] \<Rightarrow> tx_check (\<lambda>_. Err ErrEntryNotFound)
        | key # _ \<Rightarrow> unindex_and_drop E db ?s config key) tx1 = (Ok (), tx')"
    unfolding deleteInWithEqualityIndexes_def tx_Ok by blast
  note en = ensure_exact [OF r(1) E ix]
  have k1: "keyed ident tx1 db" using k keyed_cong [OF en(2)] by simp
  have split_db: "partition_of ?key = db" using db by simp
  have has: "has_entry tx1 ?key" using r(3) schema_keys_Ok [OF r(2)] by (auto simp: tx_Ok split: if_splits)
  then have "unindex_and_drop E db ?s config ?key tx1 = (Ok (), tx')" using r(3) schema_keys_Ok [OF r(2)] by simp
  note un = unindex_exact [OF this E(1) en(1) k1 has split_db]
  have "has_entry tx ?key" using has has_entry_cong [OF en(2)] by simp
  with un(1) keyed_drop [OF k1 un(2)] un(2) show ?thesis unfolding en(2) by blast
qed

lemma rebuild_Ok:
  assumes "rebuildEqualityIndexes E db schema tx = (Ok (), tx')" "ranges_all E"
  shows "(\<exists>config. index_exact tx' db schema config) \<and> entries tx' = entries tx"
proof -
  from assms(1) obtain config where c: "wanted_config E schema = Ok config" "buildEqualityIndexes E db schema config tx = (Ok (), tx')"
    unfolding rebuildEqualityIndexes_def tx_Ok by blast
  from build_exact [OF c(2) assms(2) wanted_config_ok [OF c(1)]] show ?thesis by blast
qed

section \<open>The store provides an index\<close>

definition memory_indexed :: "store_env \<times> memoryTx \<Rightarrow> bytes \<Rightarrow> EqualityIndexSchema \<Rightarrow> EqualityIndexConfig \<Rightarrow> Entry \<Rightarrow> bool" where
  "memory_indexed s db schema config e \<longleftrightarrow>
     (case s of (E, tx) \<Rightarrow> ranges_all E \<and> index_exact tx db schema config \<and> e \<in> entries_in tx db)"

lemma ordering_loop_mono:
  "ordering_loop postings pre assertion ge keys ts = Ok out \<Longrightarrow> keys |\<subseteq>| out"
  by (induction ts arbitrary: keys) (auto simp: Let_def split: if_splits)

lemma ordering_loop_member:
  assumes "ordering_loop postings pre assertion ge keys ts = Ok out"
    and "t \<in> set ts" "HasPrefix t pre" "readOrderPreservingValue t (length pre) = Ok (v, length t)"
    and "if ge then assertion \<le> v else v \<le> assertion" "r |\<in>| map_zero {||} postings t"
  shows "r |\<in>| out"
  using assms(1,2)
proof (induction ts arbitrary: keys)
  case (Cons x ts)
  show ?case
  proof (cases "x = t")
    case True
    have "\<not> (ge \<and> bytes_Compare v assertion < 0 \<or> \<not> ge \<and> 0 < bytes_Compare v assertion)"
      using assms(5) by (cases ge) (auto simp: bytes_Compare_def)
    then have "ordering_loop postings pre assertion ge (keys |\<union>| map_zero {||} postings t) ts = Ok out"
      using Cons.prems(1) True assms(3,4) by (auto simp: Let_def split: if_splits)
    from ordering_loop_mono [OF this] assms(6) show ?thesis by auto
  next
    case False
    with Cons.prems show ?thesis by (auto simp: Let_def split: if_splits intro: Cons.IH)
  qed
qed simp

lemma postings_lookup:
  assumes "index_exact tx db schema config" "equalityIndexEntryTerms schema config e = Ok terms" "e \<in> entries_in tx db"
    and "equalityIndexAttributeDefinition config a = Some d" "terms a = Some t"
    and "(kind, v) \<in> set (equalityIndexTermsForAttribute d t)"
  shows "e_DN e |\<in>| map_zero {||} (postings_in tx db) (equalityIndexPostingPrefix db a kind v)"
proof -
  from assms(1) obtain p where p: "fmlookup (equalityPostings tx) db = Some p"
    "\<And>t r. r |\<in>| map_zero {||} p t \<longleftrightarrow> (\<exists>e\<in>entries_in tx db. e_DN e = r \<and> indexed_under db schema config e t)"
    by (auto simp: index_exact_def)
  have "terms_of terms a = t" using assms(5) by (simp add: terms_of_def)
  with assms(2,4,6) have "indexed_under db schema config e (equalityIndexPostingPrefix db a kind v)"
    unfolding indexed_under_def entry_prefixes_def by blast
  with assms(3) have "e_DN e |\<in>| map_zero {||} p (equalityIndexPostingPrefix db a kind v)" unfolding p(2) by blast
  then show ?thesis by (simp add: postings_in_def map_zero_Some [OF p(1)])
qed

lemma ordering_prefix:
  "equalityIndexPostingPrefix db a equalityIndexOrdering v =
     appendOrderPreservingValue (equalityIndexAttributeKindPrefix db a equalityIndexOrdering) v"
  by (simp add: equalityIndexPostingPrefix_def Let_def index_kinds)

lemma map_zero_member: "r |\<in>| map_zero {||} p t \<Longrightarrow> t |\<in>| fmdom p"
  by (auto simp: map_zero_def fmlookup_dom_iff split: option.splits)

interpretation mem: index_provider memory_reader memory_indexed
proof unfold_locales
  fix s db schema config e
  assume "memory_indexed s db schema config e"
  then show "config_ok config \<and> (\<exists>terms. equalityIndexEntryTerms schema config e = Ok terms)"
    by (auto simp: memory_indexed_def index_exact_def)
next
  fix s db schema config e terms a d t kind v keys
  assume ix: "memory_indexed s db schema config e" and rest: "equalityIndexEntryTerms schema config e = Ok terms"
    "equalityIndexAttributeDefinition config a = Some d" "terms a = Some t"
    "(kind, v) \<in> set (equalityIndexTermsForAttribute d t)"
    and keys: "equalityIndexPostings (memory_reader s) db a kind v = Ok keys"
  obtain E tx where s: "s = (E, tx)" by (cases s)
  have E: "ranges_all E" "index_exact tx db schema config" "e \<in> entries_in tx db" using ix by (auto simp: memory_indexed_def s)
  from keys have "keys = sort (range_keys E ''equalityIndexPostings''
      (map_zero {||} (postings_in tx db) (equalityIndexPostingPrefix db a kind v)))"
    by (auto simp: s memory_reader_def memory_postings_def index_poll_def split: if_splits)
  then have "set keys = fset (map_zero {||} (postings_in tx db) (equalityIndexPostingPrefix db a kind v))"
    using E(1) by (simp add: ranges_all_def)
  with postings_lookup [OF E(2) rest(1) E(3) rest(2-4)] show "e_DN e \<in> set keys" by simp
next
  fix s db schema config e terms a d t v greaterOrEqual assertion keys
  assume ix: "memory_indexed s db schema config e" and rest: "equalityIndexEntryTerms schema config e = Ok terms"
    "equalityIndexAttributeDefinition config a = Some d" "terms a = Some t"
    "(equalityIndexOrdering, v) \<in> set (equalityIndexTermsForAttribute d t)"
    and cmp: "if greaterOrEqual then assertion \<le> v else v \<le> assertion"
    and keys: "equalityIndexOrderingPostings (memory_reader s) db a assertion greaterOrEqual = Ok keys"
  obtain E tx where s: "s = (E, tx)" by (cases s)
  have E: "ranges_all E" "index_exact tx db schema config" "e \<in> entries_in tx db" using ix by (auto simp: memory_indexed_def s)
  let ?pre = "equalityIndexAttributeKindPrefix db a equalityIndexOrdering"
  let ?t = "equalityIndexPostingPrefix db a equalityIndexOrdering v"
  from keys obtain out where out:
    "ordering_loop (postings_in tx db) ?pre assertion greaterOrEqual {||}
       (range_keys E ''equalityIndexOrderingPostings'' (fmdom (postings_in tx db))) = Ok out"
    "keys = sort (range_keys E ''orderingKeys'' out)"
    by (auto simp: s memory_reader_def memory_ordering_postings_def index_poll_def Let_def split: if_splits)
  note here = postings_lookup [OF E(2) rest(1) E(3) rest(2-4)]
  have mem: "?t \<in> set (range_keys E ''equalityIndexOrderingPostings'' (fmdom (postings_in tx db)))"
    using E(1) map_zero_member [OF here] by (simp add: ranges_all_def)
  have pre: "HasPrefix ?t ?pre" unfolding ordering_prefix order_preserving_code HasPrefix_def by simp
  have read: "readOrderPreservingValue ?t (length ?pre) = Ok (v, length ?t)"
    using read_appended_ordering [of ?pre v "[]"] unfolding ordering_prefix by simp
  have "e_DN e |\<in>| out" by (rule ordering_loop_member [OF out(1) mem pre read cmp here])
  then show "e_DN e \<in> set keys" using E(1) by (simp add: out(2) ranges_all_def)
qed

section \<open>Transactions over an indexed partition\<close>

text \<open>
  The states a transaction reaches on a partition through the indexed writes. The first state has no
  index for the partition yet, and entries under the keys of their names; a step writes or deletes
  an entry, rebuilds the index, or leaves the partition as it is, as a commit and the next
  transaction do.
\<close>

inductive indexed_step ::
  "store_env \<Rightarrow> bytes \<Rightarrow> index_schema \<Rightarrow> (bytes \<Rightarrow> bytes) \<Rightarrow> memoryTx \<Rightarrow> memoryTx \<Rightarrow> bool"
  for E db schema ident where
  put: "putInWithEqualityIndexes E db entry dn replace schema tx = (Ok (), tx') \<Longrightarrow> Key dn = ident (e_DN entry) \<Longrightarrow>
    indexed_step E db schema ident tx tx'"
| delete: "deleteInWithEqualityIndexes E db dn schema tx = (Ok (), tx') \<Longrightarrow> indexed_step E db schema ident tx tx'"
| rebuild: "rebuildEqualityIndexes E db (is_schema schema) tx = (Ok (), tx') \<Longrightarrow> indexed_step E db schema ident tx tx'"
| elsewhere: "(\<And>key. partition_of key = db \<Longrightarrow> fmlookup (entries tx') key = fmlookup (entries tx) key) \<Longrightarrow>
    fmlookup (equalityIndexConfigs tx') db = fmlookup (equalityIndexConfigs tx) db \<Longrightarrow>
    fmlookup (equalityPostings tx') db = fmlookup (equalityPostings tx) db \<Longrightarrow> indexed_step E db schema ident tx tx'"

inductive indexed_reachable ::
  "store_env \<Rightarrow> bytes \<Rightarrow> index_schema \<Rightarrow> (bytes \<Rightarrow> bytes) \<Rightarrow> memoryTx \<Rightarrow> bool"
  for E db schema ident where
  start: "fmlookup (equalityIndexConfigs tx) db = None \<Longrightarrow> keyed ident tx db \<Longrightarrow> indexed_reachable E db schema ident tx"
| step: "indexed_reachable E db schema ident tx \<Longrightarrow> indexed_step E db schema ident tx tx' \<Longrightarrow>
    indexed_reachable E db schema ident tx'"

lemma entries_elsewhere:
  assumes "\<And>key. partition_of key = db \<Longrightarrow> fmlookup (entries tx') key = fmlookup (entries tx) key"
  shows "entries_in tx' db = entries_in tx db"
  unfolding entries_in_def using assms by fastforce

lemma exact_unique: "index_exact tx db schema config \<Longrightarrow> index_consistent tx db schema"
  by (auto simp: index_consistent_def index_exact_def)

lemma indexed_reachable_consistent:
  assumes "indexed_reachable E db schema ident tx"
    and E: "ranges_all E" "faithful_marshal E" and db: "nul_free db" and blind: "identity_blind (is_schema schema)"
  shows "index_consistent tx db (is_schema schema) \<and> keyed ident tx db"
  using assms(1)
proof induction
  case (start tx)
  then show ?case by (simp add: index_consistent_def)
next
  case (step tx tx')
  from step.hyps(2) show ?case
  proof cases
    case (put entry dn replace)
    from indexed_put_Ok [OF put(1) E db conjunct1 [OF step.IH] conjunct2 [OF step.IH] put(2) blind]
    show ?thesis using exact_unique by blast
  next
    case (delete dn)
    from indexed_delete_Ok [OF delete E db conjunct1 [OF step.IH] conjunct2 [OF step.IH]] show ?thesis using exact_unique by blast
  next
    case rebuild
    from rebuild_Ok [OF rebuild E(1)] obtain config where
      "index_exact tx' db (is_schema schema) config" "entries tx' = entries tx" by blast
    then show ?thesis using exact_unique keyed_cong step.IH by blast
  next
    case elsewhere
    have ein: "entries_in tx' db = entries_in tx db" by (rule entries_elsewhere) (rule elsewhere(1))
    have "keyed ident tx' db" using step.IH elsewhere(1) unfolding keyed_def by metis
    then show ?thesis using step.IH unfolding index_consistent_def index_exact_def ein elsewhere(2,3) by blast
  qed
qed

section \<open>Candidates\<close>

text \<open>The reference of an entry is resolved to the identity that its key was made of.\<close>

definition resolves :: "store_env \<Rightarrow> index_schema \<Rightarrow> (bytes \<Rightarrow> bytes) \<Rightarrow> bool" where
  "resolves E schema ident \<longleftrightarrow>
     (\<forall>reference dn. resolveEqualityIndexDNReference E schema reference = Ok dn \<longrightarrow> Key dn = ident reference)"

lemma index_entries_member:
  assumes "equalityIndexEntries_from E tx db schema n refs = Ok es" "e_DN e \<in> set refs"
    and "resolves E schema ident" "fmlookup (entries tx) (partitionedEntryKey db (ident (e_DN e))) = Some e"
  shows "\<exists>dn. WithNormalizedDNHint e dn (LegacyKey (se_lib E) (se_unicode E) dn @ [CHR 0x00] @ Key dn) \<in> set es \<and>
    Key dn = ident (e_DN e)"
  using assms(1,2)
proof (induction refs arbitrary: n es)
  case (Cons r refs)
  from Cons.prems(1) obtain dn key rest where step: "resolveEqualityIndexDNReference E schema r = Ok dn"
    "referenced_key E tx db r dn = Ok key" "equalityIndexEntries_from E tx db schema (n + 1) refs = Ok rest"
    "es = WithNormalizedDNHint (entry_at tx key) dn (LegacyKey (se_lib E) (se_unicode E) dn @ [CHR 0x00] @ Key dn) # rest"
    by auto
  show ?case
  proof (cases "r = e_DN e")
    case True
    then have dn: "Key dn = ident (e_DN e)" using assms(3) step(1) unfolding resolves_def by blast
    have has: "has_entry tx (partitionedEntryKey db (Key dn))" using assms(4) dn by (simp add: has_entry_def)
    then have "key = partitionedEntryKey db (Key dn)" using step(2) by (simp add: referenced_key_def Let_def)
    then have "entry_at tx key = e" using assms(4) dn by (simp add: entry_at_def map_zero_Some)
    with dn show ?thesis by (intro exI [of _ dn]) (simp add: step(4))
  next
    case False
    with Cons.IH [OF step(3)] Cons.prems(2) step(4) show ?thesis by auto
  qed
qed simp

lemma intersect_terms_finite:
  "intersect_terms postings result ts = Ok (Some keys) \<Longrightarrow> (\<And>r. result = Some r \<Longrightarrow> finite r) \<Longrightarrow> finite keys"
  by (induction ts arbitrary: result) (fastforce split: option.splits)+

lemma intersect_constraints_finite:
  "intersect_constraints R db a result cs = Ok (Some keys) \<Longrightarrow> (\<And>r. result = Some r \<Longrightarrow> finite r) \<Longrightarrow> finite keys"
  by (induction cs arbitrary: result) (fastforce simp: Let_def split: option.splits)+

lemma plan_leaves_finite:
  "plan_equality R db schema d a v = Ok (Some keys) \<Longrightarrow> finite keys"
  "plan_approx R db schema d v = Ok (Some keys) \<Longrightarrow> finite keys"
  "plan_substrings R db schema d sub = Ok (Some keys) \<Longrightarrow> finite keys"
  "plan_ordering R db schema d v ge = Ok (Some keys) \<Longrightarrow> finite keys"
  by (auto simp: plan_equality_def plan_approx_def plan_substrings_def plan_ordering_def Let_def
      dest: intersect_terms_finite intersect_constraints_finite split: if_splits prod.splits)

lemma plan_finite:
  "planEqualityIndexFilter R db schema f = Ok (Some keys) \<Longrightarrow> finite keys"
  "plan_and R db schema result fs = Ok (Some keys) \<Longrightarrow> (\<And>r. result = Some r \<Longrightarrow> finite r) \<Longrightarrow> finite keys"
  "plan_or R db schema acc fs = Ok (Some keys) \<Longrightarrow> finite acc \<Longrightarrow> finite keys"
proof (induction R db schema f and R db schema result fs and R db schema acc fs
    arbitrary: keys and keys and keys rule: planEqualityIndexFilter_plan_and_plan_or.induct)
  case (1 R db schema kind children attribute assertion substring rule dnAttributes)
  show ?case
  proof (cases kind)
    case FilterAnd
    then show ?thesis using 1(1) [OF FilterAnd] 1(3) by simp
  next
    case FilterOr
    then show ?thesis using 1(2) [OF FilterOr] 1(3) by simp
  qed (use 1(3) in \<open>auto dest: plan_leaves_finite split: if_splits\<close>)
next
  case (3 R db schema result f fs)
  let ?next = "\<lambda>child. case child of None \<Rightarrow> result
      | Some keys \<Rightarrow> (case result of None \<Rightarrow> Some keys | Some r \<Rightarrow> Some (r \<inter> keys))"
  from 3(3) obtain child where c: "planEqualityIndexFilter R db schema f = Ok child"
    "plan_and R db schema (?next child) fs = Ok (Some keys)" by auto
  have "finite r" if "?next child = Some r" for r
    using that 3(1) [of "the child"] 3(4) c(1) by (cases child; cases result) auto
  with 3(2) [OF c(2)] show ?case by blast
next
  case (5 R db schema result f fs)
  from 5(3) obtain k where c: "planEqualityIndexFilter R db schema f = Ok (Some k)"
    "plan_or R db schema (result \<union> k) fs = Ok (Some keys)" by (auto split: option.splits)
  from 5(2) [OF c(2)] 5(1) [OF c(1)] 5(4) show ?case by simp
qed simp_all

text \<open>
  The references of the candidates are those of the plan, on the direct path of an equality filter
  too.
\<close>

lemma candidates_from_plan:
  assumes "planCurrentEqualityIndexCandidates E tx db schema f = Ok (Some es)" "ranges_all E"
  shows "\<exists>keys refs. planEqualityIndexFilter (memory_reader (E, tx)) db (is_schema schema) f = Ok (Some keys) \<and>
    set refs = keys \<and> equalityIndexEntries E tx db refs schema = Ok es"
proof (cases "Kind f = FilterEquality")
  case True
  obtain kind cs a v sub rule dna where f: "f = Filter kind cs a v sub rule dna" by (cases f)
  from assms(1) True obtain attribute pres n refs where
    s: "ResolveEqualityIndexAttribute (is_schema schema) a = Inr (attribute, True, pres)"
      "NormalizeEqualityIndexAssertion (is_schema schema) a v = Inr n"
      "memory_postings E tx db attribute equalityIndexValue n = Ok refs"
      "equalityIndexEntries E tx db (sort refs) schema = Ok es"
    by (auto simp: planCurrentEqualityIndexCandidates_def f split: if_splits)
  then have "planEqualityIndexFilter (memory_reader (E, tx)) db (is_schema schema) f = Ok (Some (set refs))"
    using True by (simp add: f plan_equality_def memory_reader_def)
  with s(4) show ?thesis by (metis set_sort)
next
  case False
  with assms(1) obtain keys where "planEqualityIndexFilter (memory_reader (E, tx)) db (is_schema schema) f = Ok (Some keys)"
    "equalityIndexEntries E tx db (sorted_list_of_set keys) schema = Ok es"
    by (auto simp: planCurrentEqualityIndexCandidates_def split: option.splits)
  then show ?thesis using plan_finite(1) by (metis set_sorted_list_of_set)
qed

section \<open>A sample index\<close>

lemma sample_env_faithful [simp]: "faithful_marshal sample_env"
  by (auto simp: sample_env_def faithful_marshal_def equalityIndexConfigsEqual_def split: if_splits)

lemmas sample_env_ok = sample_env_ranges sample_env_faithful

definition sample_schema :: index_schema where
  "sample_schema = \<lparr>is_schema = sample_index_schema sample_unicode [''cn''], is_normalizer = None,
     is_resolver = Some (\<lambda>r. case ParseDN sample_lib sample_unicode r of Ok d \<Rightarrow> Inr d
       | _ \<Rightarrow> Inl NormalizerRequired)\<rparr>"

definition sample_ident :: "bytes \<Rightarrow> bytes" where
  "sample_ident r = (case ParseDN sample_lib sample_unicode r of Ok d \<Rightarrow> Key d | _ \<Rightarrow> [])"

definition sample_tx :: memoryTx where
  "sample_tx = (update_tx NewMemory)\<lparr>entries := fmupd (partitionedEntryKey ''db'' ''cn=a'') sample_entry fmempty\<rparr>"

lemma sample_config_ok: "config_ok (sample_index_config [''cn''])"
  and sample_wanted: "wanted_config sample_env (is_schema sample_schema) = Ok (sample_index_config [''cn''])"
proof -
  have names: "ToLower sample_unicode (TrimSpace v) = v" if "v \<in> {''cn'', ''eq'', []}" for v
    using that by (auto simp: TrimSpace_def ToLower_def ascii_lower_def is_space_def) (simp_all add: char_of_def bit_0)
  have folded: "fold_names sample_unicode (sample_index_attribute ''cn'') = sample_index_attribute ''cn''"
    by (simp add: fold_names_def sample_index_attribute_def names)
  have c: "normalizeEqualityIndexConfig sample_unicode (sample_index_config [''cn'']) = Ok (sample_index_config [''cn''])"
    by (simp add: normalizeEqualityIndexConfig_def sample_index_config_def Let_def folded
        index_attribute_ok_iff equalityIndexFormatVersion_def)
      (simp add: sample_index_attribute_def)
  show "config_ok (sample_index_config [''cn''])" using normalized_config_ok [of sample_unicode] c by blast
  show "wanted_config sample_env (is_schema sample_schema) = Ok (sample_index_config [''cn''])"
    using c by (simp add: wanted_config_def sample_env_def sample_schema_def sample_index_schema_def)
qed

lemma sample_keyed: "keyed sample_ident sample_tx ''db''"
  by (auto simp: keyed_def sample_tx_def sample_entry_def bare_entry_def sample_ident_def sample_parse sample_dn_def Key_def
      zero_DN_def split: if_splits)

definition sample_indexed :: memoryTx where
  "sample_indexed = snd (rebuildEqualityIndexes sample_env ''db'' (is_schema sample_schema) sample_tx)"

lemma sample_terms: "\<exists>terms. equalityIndexEntryTerms (is_schema sample_schema) (sample_index_config [''cn'']) e = Ok terms"
  by (simp add: equalityIndexEntryTerms_def sample_index_config_def sample_schema_def attribute_terms_def Let_def
      sample_index_schema_def sample_index_attribute_def)

lemma sample_rebuild:
  "rebuildEqualityIndexes sample_env ''db'' (is_schema sample_schema) sample_tx = (Ok (), sample_indexed)"
proof -
  let ?tx = "sample_tx\<lparr>equalityIndexConfigs := fmupd ''db'' (sample_index_config [''cn'']) (equalityIndexConfigs sample_tx),
     equalityPostings := fmupd ''db'' fmempty (equalityPostings sample_tx)\<rparr>"
  have keys: "keys_in sample_env ''buildEqualityIndexes'' ?tx ''db'' = [partitionedEntryKey ''db'' ''cn=a'']"
    by (simp add: keys_in_def sample_env_def sample_tx_def sorted_list_of_fset.rep_eq nul_free_def)
  obtain terms where t: "equalityIndexEntryTerms (is_schema sample_schema) (sample_index_config [''cn''])
      (entry_at ?tx (partitionedEntryKey ''db'' ''cn=a'')) = Ok terms" using sample_terms by blast
  have "fmlookup (equalityPostings ?tx) ''db'' = Some fmempty" by simp
  then obtain tx' where "addEqualityIndexEntry sample_env ''db'' (entry_at ?tx (partitionedEntryKey ''db'' ''cn=a''))
      (is_schema sample_schema) (sample_index_config [''cn'']) ?tx = (Ok (), tx')"
    unfolding addEqualityIndexEntry_def tx_bind_def tx_check_def t by (simp add: Let_def)
  then have "index_keys sample_env ''db'' (is_schema sample_schema) (sample_index_config [''cn''])
      (keys_in sample_env ''buildEqualityIndexes'' ?tx ''db'') ?tx = (Ok (), tx')"
    unfolding keys index_keys_def by (simp add: tx_bind_def tx_check_def)
  then have "buildEqualityIndexes sample_env ''db'' (is_schema sample_schema) (sample_index_config [''cn'']) sample_tx = (Ok (), tx')"
    unfolding buildEqualityIndexes_def by (simp add: tx_bind_def tx_check_def tx_modify_def)
  moreover have "\<not> readOnly sample_tx" by (simp add: sample_tx_def update_tx_def)
  ultimately have "\<exists>tx'. rebuildEqualityIndexes sample_env ''db'' (is_schema sample_schema) sample_tx = (Ok (), tx')"
    unfolding rebuildEqualityIndexes_def writable_def by (simp add: tx_bind_def tx_check_def sample_wanted)
  then show ?thesis by (auto simp: sample_indexed_def)
qed

section \<open>Properties\<close>

text \<open>
  C7: indexed writes keep the index of a partition exact: after any successful insertions,
  replacements, deletions and rebuilds, an entry's name is posted under a term exactly when the
  partition holds an entry of that name with the term.
\<close>

theorem index_follows_writes:
  assumes "indexed_reachable E db schema ident tx" "ranges_all E" "faithful_marshal E" "nul_free db"
    and "identity_blind (is_schema schema)" "fmlookup (equalityIndexConfigs tx) db = Some config"
  shows "index_exact tx db (is_schema schema) config"
  using indexed_reachable_consistent [OF assms(1-5)] assms(6) unfolding index_consistent_def by blast

lemma sample_blind [simp]: "identity_blind (is_schema sample_schema)"
  by (simp add: identity_blind_def sample_schema_def sample_index_schema_def entry_Values_def WithoutDNIdentity_def)

lemma sample_index_reachable: "indexed_reachable sample_env ''db'' sample_schema sample_ident sample_indexed"
proof -
  have "fmlookup (equalityIndexConfigs sample_tx) ''db'' = None" by (simp add: sample_tx_def update_tx_def NewMemory_def)
  from indexed_reachable.start [OF this sample_keyed, of sample_env sample_schema]
  show ?thesis by (rule indexed_reachable.step) (rule indexed_step.rebuild [OF sample_rebuild])
qed

lemma sample_indexed_config: "fmlookup (equalityIndexConfigs sample_indexed) ''db'' = Some (sample_index_config [''cn''])"
  and sample_indexed_entries: "entries sample_indexed = entries sample_tx"
    "dnIdentities sample_indexed = dnIdentities sample_tx" "dnSources sample_indexed = dnSources sample_tx"
proof -
  from sample_rebuild have b: "buildEqualityIndexes sample_env ''db'' (is_schema sample_schema) (sample_index_config [''cn'']) sample_tx =
      (Ok (), sample_indexed)"
    unfolding rebuildEqualityIndexes_def writable_def tx_Ok sample_wanted by auto
  note exact = build_exact [OF b sample_env_ranges sample_config_ok]
  show "fmlookup (equalityIndexConfigs sample_indexed) ''db'' = Some (sample_index_config [''cn''])"
    using exact(1) by (simp add: index_exact_def)
  show "entries sample_indexed = entries sample_tx" by (rule exact(2))
  show "dnIdentities sample_indexed = dnIdentities sample_tx" "dnSources sample_indexed = dnSources sample_tx"
    using exact(3) by blast+
qed

theorem index_follows_writes_witness:
  "index_exact sample_indexed ''db'' (is_schema sample_schema) (sample_index_config [''cn''])"
  by (rule index_follows_writes [OF sample_index_reachable sample_env_ok _ sample_blind sample_indexed_config])
    (simp add: nul_free_def)

text \<open>
  C1: a search through the index misses nothing: when a filter is planned, every entry of the
  partition of which it is true is among the candidates that are read, with its attributes. The
  matching rules of the schema are taken to agree with its index values, and the schema to resolve
  a name to the identity that it is stored under.
\<close>

theorem indexed_search_complete:
  assumes "indexed_reachable E db schema ident tx" "ranges_all E" "faithful_marshal E" "nul_free db"
    and "identity_blind (is_schema schema)" "fmlookup (equalityIndexConfigs tx) db = Some config"
    and "names_configured (is_schema schema) config" "schema_agrees U M (is_schema schema) e" "resolves E schema ident"
    and "fmlookup (entries tx) key = Some e" "partition_of key = db"
    and "planCurrentEqualityIndexCandidates E tx db schema f = Ok (Some es)"
    and "EvaluateWith U M e f = Ok FilterTrueResult"
  shows "\<exists>c\<in>set es. e_DN c = e_DN e \<and> Attributes c = Attributes e"
proof -
  note inv = indexed_reachable_consistent [OF assms(1-5)]
  have ix: "index_exact tx db (is_schema schema) config" using inv assms(6) unfolding index_consistent_def by blast
  have stored: "fmlookup (entries tx) (partitionedEntryKey db (ident (e_DN e))) = Some e"
    using inv assms(10,11) unfolding keyed_def by metis
  have mi: "memory_indexed (E, tx) db (is_schema schema) config e"
    using ix assms(2,10,11) by (auto simp: memory_indexed_def entries_in_def)
  from candidates_from_plan [OF assms(12,2)] obtain keys refs where
    plan: "planEqualityIndexFilter (memory_reader (E, tx)) db (is_schema schema) f = Ok (Some keys)"
      "set refs = keys" "equalityIndexEntries E tx db refs schema = Ok es" by blast
  have "e_DN e \<in> set refs" unfolding plan(2) by (rule mem.plan_complete(1) [OF mi assms(7,8) plan(1) assms(13)])
  from index_entries_member [OF plan(3) [unfolded equalityIndexEntries_def] this assms(9) stored]
  show ?thesis by (auto simp: WithNormalizedDNHint_def intro: rev_bexI)
qed

definition sample_present :: Filter where
  "sample_present = Filter FilterPresent [] ''cn'' [] \<lparr>Initial = None, Any = [], Final = None\<rparr> [] False"

lemma sample_evaluates: "EvaluateWith sample_unicode (BasicMatcher sample_unicode) sample_entry sample_present = Ok FilterTrueResult"
proof -
  have "HasAttribute sample_unicode sample_entry ''cn''"
    by (simp add: HasAttribute_def sample_entry_def bare_entry_def same_description_refl)
  then show ?thesis using basic_matcher_leaves [of sample_unicode sample_entry] by (simp add: sample_present_def)
qed

lemma entries_in_single:
  assumes "entries tx = fmupd key e fmempty" "partition_of key = db"
  shows "entries_in tx db = {e}"
proof -
  have "fmlookup (entries tx) k = Some x \<longleftrightarrow> k = key \<and> x = e" for k x by (auto simp: assms(1))
  then show ?thesis using assms(2) unfolding entries_in_def by blast
qed

lemma postings_named:
  assumes "index_exact tx db schema config"
  shows "fset (map_zero {||} (postings_in tx db) t) \<subseteq> e_DN ` entries_in tx db"
proof -
  from assms obtain p where p: "fmlookup (equalityPostings tx) db = Some p"
    "\<And>t r. r |\<in>| map_zero {||} p t \<longleftrightarrow> (\<exists>e\<in>entries_in tx db. e_DN e = r \<and> indexed_under db schema config e t)"
    by (auto simp: index_exact_def)
  have "postings_in tx db = p" by (simp add: postings_in_def map_zero_Some [OF p(1)])
  moreover have "fset (map_zero {||} p t) \<subseteq> e_DN ` entries_in tx db" using p(2) by (auto simp del: fset_simps)
  ultimately show ?thesis by simp
qed

lemma sample_candidates:
  "\<exists>es. planCurrentEqualityIndexCandidates sample_env sample_indexed ''db'' sample_schema sample_present = Ok (Some es)"
proof -
  let ?key = "partitionedEntryKey ''db'' ''cn=a''"
  have e: "entries sample_indexed = fmupd ?key sample_entry fmempty" by (simp add: sample_indexed_entries sample_tx_def)
  have in_db: "entries_in sample_indexed ''db'' = {sample_entry}"
    by (rule entries_in_single [OF e]) (simp add: nul_free_def)
  have exact: "index_exact sample_indexed ''db'' (is_schema sample_schema) (sample_index_config [''cn''])"
    using indexed_reachable_consistent [OF sample_index_reachable sample_env_ok _ sample_blind] sample_indexed_config
    by (simp add: nul_free_def index_consistent_def)
  have "e_DN sample_entry = ''cn=a''" by (simp add: sample_entry_def bare_entry_def)
  with postings_named [OF exact] have "fset (map_zero {||} (postings_in sample_indexed ''db'') t) \<subseteq> {''cn=a''}" for t
    unfolding in_db by simp
  then have refs: "set (sorted_list_of_set (fset (map_zero {||} (postings_in sample_indexed ''db'') t))) \<subseteq> {''cn=a''}" for t
    by simp
  have entries: "\<exists>es. equalityIndexEntries_from sample_env sample_indexed ''db'' sample_schema n rs = Ok es"
    if "set rs \<subseteq> {''cn=a''}" for rs n
    using that
  proof (induction rs arbitrary: n)
    case (Cons r rs)
    have r: "r = ''cn=a''" and rest: "set rs \<subseteq> {''cn=a''}" using Cons.prems by auto
    have "resolveEqualityIndexDNReference sample_env sample_schema r = Ok sample_dn"
      by (simp add: resolveEqualityIndexDNReference_def sample_schema_def r sample_parse)
    moreover have "referenced_key sample_env sample_indexed ''db'' r sample_dn = Ok ?key"
      by (simp add: referenced_key_def Let_def has_entry_def e sample_dn_def Key_def)
    moreover have "validateEntry sample_env sample_indexed ?key (entry_at sample_indexed ?key) = Ok ()"
    proof -
      have "entry_at sample_indexed ?key = sample_entry" by (simp add: entry_at_def e map_zero_def)
      moreover have "e_DN sample_entry = ''cn=a''" by (simp add: sample_entry_def bare_entry_def)
      moreover have "map_zero [] (dnIdentities sample_indexed) k = []" "map_zero [] (dnSources sample_indexed) k = []" for k
        by (simp_all add: sample_indexed_entries sample_tx_def update_tx_def NewMemory_def map_zero_def)
      moreover have "\<not> isSchemaAwareDNKey ''cn=a''"
        by (simp add: isSchemaAwareDNKey_def HasPrefix_def schemaAwareDNKeyPrefix_def)
      moreover have "ValidateIdentityKey sample_lib sample_unicode sample_dn ''cn=a'' = Ok ()"
        by (simp add: ValidateIdentityKey_def HasPrefix_def schemaAwareDNKeyPrefix_def sample_dn_def sample_string sample_lower)
      ultimately show ?thesis
        by (simp add: validateEntry_iff binding_ok_def sample_env_def sample_parse nul_free_def)
    qed
    moreover have "poll sample_env ''equalityIndexEntries'' n = Ok ()" by (simp add: poll_def sample_env_def)
    ultimately show ?case using Cons.IH [OF rest, of "n + 1"] by auto
  qed simp
  let ?posted = "map_zero {||} (postings_in sample_indexed ''db'') (equalityIndexPostingPrefix ''db'' ''cn'' equalityIndexPresence [])"
  have resolved: "ResolveEqualityIndexAttribute (is_schema sample_schema) ''cn'' = Inr (''cn'', True, True)"
    by (simp add: sample_schema_def sample_index_schema_def)
  have posted: "\<exists>ks. memory_postings sample_env sample_indexed ''db'' ''cn'' equalityIndexPresence [] = Ok ks \<and> set ks = fset ?posted"
    by (simp add: memory_postings_def index_poll_def sample_env_def Let_def sorted_list_of_fset.rep_eq)
  have "planEqualityIndexFilter (memory_reader (sample_env, sample_indexed)) ''db'' (is_schema sample_schema) sample_present =
      Ok (Some (fset ?posted))"
    using posted by (auto simp: sample_present_def resolved memory_reader_def)
  moreover obtain es where "equalityIndexEntries sample_env sample_indexed ''db'' (sorted_list_of_set (fset ?posted)) sample_schema = Ok es"
    using entries [OF refs] unfolding equalityIndexEntries_def by blast
  moreover have "Kind sample_present \<noteq> FilterEquality" by (simp add: sample_present_def)
  ultimately show ?thesis by (simp add: planCurrentEqualityIndexCandidates_def)
qed

theorem indexed_search_complete_witness:
  "\<exists>es. planCurrentEqualityIndexCandidates sample_env sample_indexed ''db'' sample_schema sample_present = Ok (Some es) \<and>
     (\<exists>c\<in>set es. e_DN c = ''cn=a'' \<and> Attributes c = Attributes sample_entry)"
proof -
  from sample_candidates obtain es where
    es: "planCurrentEqualityIndexCandidates sample_env sample_indexed ''db'' sample_schema sample_present = Ok (Some es)" by blast
  have db: "nul_free ''db''" by (simp add: nul_free_def)
  have names: "names_configured (is_schema sample_schema) (sample_index_config [''cn''])"
    using sample_names_configured [OF sample_config_ok] by (simp add: sample_schema_def)
  have agrees: "schema_agrees sample_unicode (BasicMatcher sample_unicode) (is_schema sample_schema) sample_entry"
    using sample_schema_agrees [of sample_entry] by (simp add: sample_schema_def sample_entry_def bare_entry_def)
  have res: "resolves sample_env sample_schema sample_ident"
    by (auto simp: resolves_def resolveEqualityIndexDNReference_def sample_schema_def sample_ident_def split: go.splits)
  have e: "fmlookup (entries sample_indexed) (partitionedEntryKey ''db'' ''cn=a'') = Some sample_entry"
    by (simp add: sample_indexed_entries sample_tx_def)
  have p: "partition_of (partitionedEntryKey ''db'' ''cn=a'') = ''db''" using db by simp
  have "e_DN sample_entry = ''cn=a''" by (simp add: sample_entry_def bare_entry_def)
  with es indexed_search_complete [OF sample_index_reachable sample_env_ok db sample_blind sample_indexed_config names agrees res
      e p es sample_evaluates]
  show ?thesis by auto
qed

end
