(* ===== verification/Candidate_Decoder.thy ===== *)
theory Candidate_Decoder
  imports Entry_Codec
begin

text \<open>
  The decoder that reads the rows of a candidate iteration without copying them
  (\<^verbatim>\<open>src/internal/storage/index_readonly_candidates.go\<close>). It is reused from row to row, and what it
  reuses is memory: an array of attribute descriptors, an arena of value descriptors with a fixed
  size, a larger arena that is made when a row needs one and kept for the next rows, and the names
  seen so far. The values of an attribute are a slice of an arena, so writing into an arena changes
  every slice of it. The model therefore keeps the arenas in a heap and a slice as a reference into
  it, and an index or slice out of range panics.
\<close>

section \<open>Memory\<close>

definition maxReadOnlyCandidateAttributes :: nat where "maxReadOnlyCandidateAttributes = 64"
definition maxReadOnlyCandidateValues :: nat where "maxReadOnlyCandidateValues = 128"
definition maxReadOnlyCandidateBorrowedValues :: nat where "maxReadOnlyCandidateBorrowedValues = 4096"
definition maxReadOnlyCandidateNames :: nat where "maxReadOnlyCandidateNames = 128"
definition maxReadOnlyCandidateNameBytes :: nat where "maxReadOnlyCandidateNameBytes = 128"

text \<open>
  A slice \<open>arena[low:high:high]\<close>, or nil. The arenas are numbered: 0 is the array inside the decoder,
  the others are made later, and \<open>d_made\<close> is the number of the next one.
\<close>

datatype value_slice = NilValues | ValueSlice nat nat nat

fun slice_length :: "value_slice \<Rightarrow> nat" where
  "slice_length NilValues = 0"
| "slice_length (ValueSlice arena low high) = high - low"

record slot =
  sl_Description :: bytes
  sl_Values :: value_slice
  sl_RawNormalized :: bool

record readOnlyCandidateDecoder =
  d_attributes :: "slot list"
  d_arenas :: "nat \<Rightarrow> bytes list"
  d_made :: nat
  d_overflow :: "nat option"
  d_names :: "(bytes \<times> bytes) list"

definition empty_slot :: slot where
  "empty_slot = \<lparr>sl_Description = [], sl_Values = NilValues, sl_RawNormalized = False\<rparr>"

text \<open>What a slot holds when the memory is read.\<close>

definition read_slot :: "(nat \<Rightarrow> bytes list) \<Rightarrow> slot \<Rightarrow> Attribute" where
  "read_slot arenas s =
     \<lparr>Description = sl_Description s,
      Values = (case sl_Values s of NilValues \<Rightarrow> []
        | ValueSlice arena low high \<Rightarrow> take (high - low) (drop low (arenas arena))),
      RawNormalized = sl_RawNormalized s\<rparr>"

text \<open>A new decoder, and one that is given back: the descriptors and names are cleared.\<close>

definition acquireReadOnlyCandidateDecoder :: readOnlyCandidateDecoder where
  "acquireReadOnlyCandidateDecoder =
     \<lparr>d_attributes = replicate maxReadOnlyCandidateAttributes empty_slot,
      d_arenas = (\<lambda>_. [])(0 := replicate maxReadOnlyCandidateValues []), d_made = 1,
      d_overflow = None, d_names = []\<rparr>"

definition releaseReadOnlyCandidateDecoder :: "readOnlyCandidateDecoder \<Rightarrow> readOnlyCandidateDecoder" where
  "releaseReadOnlyCandidateDecoder d =
     d\<lparr>d_attributes := map (\<lambda>_. empty_slot) (d_attributes d),
       d_arenas := (\<lambda>arena. if arena = 0 \<or> d_overflow d = Some arena then map (\<lambda>_. []) (d_arenas d arena)
         else d_arenas d arena),
       d_names := []\<rparr>"

text \<open>Writing a slot, cutting a slice and writing one of its elements.\<close>

definition update_slot ::
  "nat \<Rightarrow> (slot \<Rightarrow> slot) \<Rightarrow> readOnlyCandidateDecoder \<Rightarrow> ('e, readOnlyCandidateDecoder) go" where
  "update_slot i f d =
     go_bind (go_index i (d_attributes d)) (\<lambda>s. Ok (d\<lparr>d_attributes := (d_attributes d)[i := f s]\<rparr>))"

definition cut_values :: "nat \<Rightarrow> nat \<Rightarrow> nat \<Rightarrow> nat \<Rightarrow> ('e, value_slice) go" where
  "cut_values arena room low high =
     (if low \<le> high \<and> high \<le> room then Ok (ValueSlice arena low high) else Panic)"

fun set_value :: "value_slice \<Rightarrow> nat \<Rightarrow> bytes \<Rightarrow> readOnlyCandidateDecoder \<Rightarrow> ('e, readOnlyCandidateDecoder) go" where
  "set_value NilValues j x d = Panic"
| "set_value (ValueSlice arena low high) j x d =
     (if j < high - low
      then Ok (d\<lparr>d_arenas := (d_arenas d)(arena := (d_arenas d arena)[low + j := x])\<rparr>) else Panic)"

section \<open>Names\<close>

definition internName :: "bytes \<Rightarrow> readOnlyCandidateDecoder \<Rightarrow> bytes \<times> readOnlyCandidateDecoder" where
  "internName name d =
     (if maxReadOnlyCandidateNameBytes < length name then (name, d)
      else case map_of (d_names d) name of
        Some interned \<Rightarrow> (interned, d)
      | None \<Rightarrow> (name, if length (d_names d) < maxReadOnlyCandidateNames
          then d\<lparr>d_names := (name, name) # d_names d\<rparr> else d))"

text \<open>The name that the slot had in the row before is used again when it is the same.\<close>

definition slot_name ::
  "nat \<Rightarrow> bytes \<Rightarrow> readOnlyCandidateDecoder \<Rightarrow> ('e, bytes \<times> readOnlyCandidateDecoder) go" where
  "slot_name i description d =
     go_bind (go_index i (d_attributes d)) (\<lambda>s.
     let name = sl_Description s in
     go_bind (if name = [] \<or> description = [] then Ok True
              else go_bind (go_index 0 name) (\<lambda>a. go_bind (go_index 0 description) (\<lambda>b.
                Ok (a \<noteq> b \<or> name \<noteq> description)))) (\<lambda>other.
       Ok (if other then internName description d else (name, d))))"

section \<open>The arenas\<close>

text \<open>\<open>for size < end\<close>: the new size is doubled up to the limit; \<open>None\<close> is a loop that does not end.\<close>

partial_function (option) grow_size :: "nat \<Rightarrow> nat \<Rightarrow> nat option" where
  "grow_size stop room =
     (if room < stop then grow_size stop (min maxReadOnlyCandidateBorrowedValues (2 * room)) else Some room)"

text \<open>The large arena with room for \<open>stop\<close> values: the one that is there, or a new one.\<close>

definition make_arena ::
  "nat \<Rightarrow> nat \<Rightarrow> readOnlyCandidateDecoder \<Rightarrow> ('e, nat \<times> readOnlyCandidateDecoder) go" where
  "make_arena stop room d =
     go_bind (go_of_option (grow_size stop room)) (\<lambda>n.
       Ok (d_made d, d\<lparr>d_arenas := (d_arenas d)(d_made d := replicate n []), d_made := d_made d + 1,
         d_overflow := Some (d_made d)\<rparr>))"

definition overflow_arena ::
  "nat \<Rightarrow> nat \<Rightarrow> readOnlyCandidateDecoder \<Rightarrow> ('e, nat \<times> readOnlyCandidateDecoder) go" where
  "overflow_arena stop room d =
     (case d_overflow d of
        Some arena \<Rightarrow> if stop \<le> length (d_arenas d arena) then Ok (arena, d) else make_arena stop room d
      | None \<Rightarrow> make_arena stop room d)"

text \<open>\<open>copy(dst, src)\<close> copies as many elements as both have.\<close>

definition go_copy :: "'a list \<Rightarrow> 'a list \<Rightarrow> 'a list" where
  "go_copy dst source = take (length dst) source @ drop (length source) dst"

text \<open>The earlier attributes of the row get their slices in the new arena.\<close>

fun rebind_slots :: "nat \<Rightarrow> nat \<Rightarrow> nat \<Rightarrow> slot list \<Rightarrow> ('e, slot list) go" where
  "rebind_slots arena room position [] = Ok []"
| "rebind_slots arena room position (s # slots) =
     (let n = slice_length (sl_Values s) in
      if 0 < n then
        go_bind (cut_values arena room position (position + n)) (\<lambda>vs.
        go_bind (rebind_slots arena room (position + n) slots) (\<lambda>rest. Ok (s\<lparr>sl_Values := vs\<rparr> # rest)))
      else go_bind (rebind_slots arena room position slots) (\<lambda>rest. Ok (s # rest)))"

text \<open>The arena of the row, with room for \<open>stop\<close> values: the row moves when its arena is too small.\<close>

definition make_room ::
  "nat \<Rightarrow> nat \<Rightarrow> nat \<Rightarrow> nat \<Rightarrow> readOnlyCandidateDecoder \<Rightarrow> ('e, nat \<times> readOnlyCandidateDecoder) go" where
  "make_room i used stop arena d =
     (let vs = d_arenas d arena in
      if stop \<le> length vs then Ok (arena, d)
      else
        go_bind (overflow_arena stop (length vs) d) (\<lambda>(arena', d').
        go_bind (go_of_option (go_slice 0 used vs)) (\<lambda>moved.
        let target = go_copy (d_arenas d' arena') moved in
        go_bind (go_of_option (go_slice 0 i (d_attributes d'))) (\<lambda>earlier.
        go_bind (rebind_slots arena' (length target) 0 earlier) (\<lambda>rebound.
          Ok (arena', d'\<lparr>d_arenas := (d_arenas d')(arena' := target),
            d_attributes := rebound @ drop i (d_attributes d')\<rparr>))))))"

section \<open>Borrowing a row\<close>

text \<open>
  From here on an error is \<open>return nil, nil, false\<close>, with the decoder as it is left; the decoder that
  owns its data is asked then.
\<close>

fun fill_values ::
  "value_slice \<Rightarrow> nat \<Rightarrow> nat \<Rightarrow> bytes \<Rightarrow> readOnlyCandidateDecoder \<Rightarrow>
   (readOnlyCandidateDecoder, bytes \<times> readOnlyCandidateDecoder) go" where
  "fill_values vs j 0 v d = Ok (v, d)"
| "fill_values vs j (Suc k) v d =
     (case consumeEntryBinaryField v of
        Ok (x, v') \<Rightarrow> go_bind (set_value vs j x d) (fill_values vs (j + 1) k v')
      | Err _ \<Rightarrow> go_bind (set_value vs j [] d) Err
      | Panic \<Rightarrow> Panic)"

text \<open>The values slice of an attribute, and the arena and the values used with it.\<close>

definition value_room ::
  "nat \<Rightarrow> nat \<Rightarrow> nat \<Rightarrow> nat \<Rightarrow> readOnlyCandidateDecoder \<Rightarrow>
   ('e, value_slice \<times> nat \<times> nat \<times> readOnlyCandidateDecoder) go" where
  "value_room i used valueCount arena d =
     (if 0 < valueCount then
        let stop = used + valueCount in
        go_bind (make_room i used stop arena d) (\<lambda>(arena, d).
        go_bind (cut_values arena (length (d_arenas d arena)) used stop) (\<lambda>vs. Ok (vs, stop, arena, d)))
      else Ok (NilValues, used, arena, d))"

definition borrow_attribute ::
  "nat \<Rightarrow> nat \<Rightarrow> nat \<Rightarrow> bytes \<Rightarrow> readOnlyCandidateDecoder \<Rightarrow>
   (readOnlyCandidateDecoder, nat \<times> nat \<times> bytes \<times> readOnlyCandidateDecoder) go" where
  "borrow_attribute i used arena v d =
     go_bind (go_wrap (\<lambda>_. d) (consumeEntryBinaryField v)) (\<lambda>(description, v).
     go_bind (go_wrap (\<lambda>_. d) (consumeEntryBinaryCount v)) (\<lambda>(valueCount, v).
     if length v < valueCount \<or> int maxReadOnlyCandidateBorrowedValues - int used < int valueCount then Err d
     else
       go_bind (slot_name i description d) (\<lambda>(name, d).
       go_bind (value_room i used valueCount arena d) (\<lambda>(vs, used, arena, d).
       go_bind (fill_values vs 0 valueCount v d) (\<lambda>(v, d).
       go_bind (update_slot i (\<lambda>_. \<lparr>sl_Description = name, sl_Values = vs, sl_RawNormalized = False\<rparr>) d) (\<lambda>d.
         Ok (used, arena, v, d)))))))"

text \<open>Attribute \<open>i\<close> and the \<open>k - 1\<close> after it; \<open>used\<close> values are in the arena.\<close>

fun borrow_attributes ::
  "nat \<Rightarrow> nat \<Rightarrow> nat \<Rightarrow> nat \<Rightarrow> bytes \<Rightarrow> readOnlyCandidateDecoder \<Rightarrow>
   (readOnlyCandidateDecoder, bytes \<times> readOnlyCandidateDecoder) go" where
  "borrow_attributes 0 i used arena v d = Ok (v, d)"
| "borrow_attributes (Suc k) i used arena v d =
     go_bind (borrow_attribute i used arena v d) (\<lambda>(used, arena, v, d).
       borrow_attributes k (i + 1) used arena v d)"

text \<open>The test of the bitmap and the flags it sets.\<close>

definition row_bitmap_ok :: "bytes \<Rightarrow> nat \<Rightarrow> ('e, bool) go" where
  "row_bitmap_ok flags attributeCount =
     (if length flags \<noteq> (attributeCount + 7) div 8 then Ok False
      else
        let remainder = attributeCount mod 8 in
        go_bind (go_and (remainder \<noteq> 0) (go_bind (if flags = [] then Panic else go_index (length flags - 1) flags)
          (\<lambda>octet. Ok (drop_bit remainder (ord octet) \<noteq> 0)))) (\<lambda>bad. Ok (\<not> bad)))"

fun set_row_flags ::
  "bytes \<Rightarrow> nat \<Rightarrow> nat \<Rightarrow> readOnlyCandidateDecoder \<Rightarrow> ('e, readOnlyCandidateDecoder) go" where
  "set_row_flags flags i 0 d = Ok d"
| "set_row_flags flags i (Suc k) d =
     go_bind (go_index (i div 8) flags) (\<lambda>octet.
     go_bind (update_slot i (\<lambda>s. s\<lparr>sl_RawNormalized := (ord octet AND push_bit (i mod 8) 1 \<noteq> 0)\<rparr>) d)
       (set_row_flags flags (i + 1) k))"

text \<open>The row that is returned is read out of the memory as it is at that moment.\<close>

definition borrow_body ::
  "bool \<Rightarrow> bytes \<Rightarrow> bytes \<Rightarrow> bytes \<Rightarrow> readOnlyCandidateDecoder \<Rightarrow>
   (readOnlyCandidateDecoder, (bytes \<times> Attribute list) \<times> readOnlyCandidateDecoder) go" where
  "borrow_body v3 flags dn v d =
     go_bind (go_wrap (\<lambda>_. d) (consumeEntryBinaryCount v)) (\<lambda>(attributeCount, v).
     if length v < attributeCount \<or> length (d_attributes d) < attributeCount then Err d
     else
       go_bind (borrow_attributes attributeCount 0 0 0 v d) (\<lambda>(rest, d).
       if rest \<noteq> [] then Err d
       else
         go_bind (if v3 then go_bind (row_bitmap_ok flags attributeCount) (\<lambda>ok.
             if ok then set_row_flags flags 0 attributeCount d else Err d) else Ok d) (\<lambda>d.
         go_bind (go_of_option (go_slice 0 attributeCount (d_attributes d))) (\<lambda>slots.
           Ok ((dn, map (read_slot (d_arenas d)) slots), d)))))"

text \<open>The formats: whether it is the first one and the third one, the bitmap, and the rest.\<close>

definition row_header ::
  "bytes \<Rightarrow> readOnlyCandidateDecoder \<Rightarrow> (readOnlyCandidateDecoder, bool \<times> bool \<times> bytes \<times> bytes) go" where
  "row_header v d =
     (if HasPrefix v entryBinaryV3Prefix then
        go_bind (go_of_option (slice_from (length entryBinaryV3Prefix) v)) (\<lambda>v.
        go_bind (go_wrap (\<lambda>_. d) (consumeEntryBinaryField v)) (\<lambda>(flags, v). Ok (False, True, flags, v)))
      else if HasPrefix v entryBinaryPrefix then
        go_bind (go_of_option (slice_from (length entryBinaryPrefix) v)) (\<lambda>v. Ok (False, False, [], v))
      else if HasPrefix v entryBinaryV1Prefix then
        go_bind (go_of_option (slice_from (length entryBinaryV1Prefix) v)) (\<lambda>v. Ok (True, False, [], v))
      else Err d)"

definition borrowMetadata ::
  "bytes \<Rightarrow> readOnlyCandidateDecoder \<Rightarrow>
   (readOnlyCandidateDecoder, (bytes \<times> Attribute list) \<times> readOnlyCandidateDecoder) go" where
  "borrowMetadata v d =
     go_bind (row_header v d) (\<lambda>(v1, v3, flags, v).
     go_bind (go_wrap (\<lambda>_. d) (consumeEntryBinaryField v)) (\<lambda>(dn, v).
     go_bind (go_wrap (\<lambda>_. d) (consumeEntryBinaryField v)) (\<lambda>(binding, v).
     if v1 then go_bind (go_wrap (\<lambda>_. d) (consumeEntryBinaryField v)) (\<lambda>(_, v). borrow_body v3 flags dn v d)
     else if length binding \<noteq> 0 \<and> length binding \<noteq> sha256_Size then Err d
     else borrow_body v3 flags dn v d)))"

definition borrow ::
  "bytes \<Rightarrow> readOnlyCandidateDecoder \<Rightarrow> (readOnlyCandidateDecoder, Entry \<times> readOnlyCandidateDecoder) go" where
  "borrow v d = go_bind (borrowMetadata v d) (\<lambda>((dn, as), d). Ok (bare_entry dn as, d))"

definition decoder_decode ::
  "(bytes \<Rightarrow> string + storedEntry) \<Rightarrow> bytes \<Rightarrow> readOnlyCandidateDecoder \<Rightarrow>
   (codec_error, Entry) go \<times> readOnlyCandidateDecoder" where
  "decoder_decode Unmarshal v d =
     (case borrow v d of
        Ok (entry, d') \<Rightarrow> (Ok entry, d')
      | Err d' \<Rightarrow> (go_bind (decodeStoredEntry Unmarshal v) (\<lambda>stored. Ok (s_Entry stored)), d')
      | Panic \<Rightarrow> (Panic, d))"

section \<open>A decoder that can be reused\<close>

definition decoder_ok :: "readOnlyCandidateDecoder \<Rightarrow> bool" where
  "decoder_ok d \<longleftrightarrow> length (d_attributes d) = maxReadOnlyCandidateAttributes \<and>
     length (d_arenas d 0) = maxReadOnlyCandidateValues \<and> 0 < d_made d \<and>
     (\<forall>arena. d_overflow d = Some arena \<longrightarrow> arena < d_made d \<and> maxReadOnlyCandidateValues \<le> length (d_arenas d arena)) \<and>
     (\<forall>(name, interned)\<in>set (d_names d). interned = name)"

lemma acquire_ok [wf_intros]: "decoder_ok acquireReadOnlyCandidateDecoder"
  by (simp add: decoder_ok_def acquireReadOnlyCandidateDecoder_def)

lemma release_ok [wf_intros]: "decoder_ok d \<Longrightarrow> decoder_ok (releaseReadOnlyCandidateDecoder d)"
  by (auto simp: decoder_ok_def releaseReadOnlyCandidateDecoder_def)

text \<open>
  The row so far is the attributes \<open>as\<close>: the slots are laid out one behind the other in an arena, and
  the arena begins with their values.
\<close>

fun lay :: "nat \<Rightarrow> nat \<Rightarrow> Attribute list \<Rightarrow> slot list" where
  "lay arena p [] = []"
| "lay arena p (a # as) =
     \<lparr>sl_Description = Description a,
      sl_Values = (if Values a = [] then NilValues else ValueSlice arena p (p + length (Values a))),
      sl_RawNormalized = RawNormalized a\<rparr> # lay arena (p + length (Values a)) as"

abbreviation row_values :: "Attribute list \<Rightarrow> bytes list" where
  "row_values as \<equiv> concat (map Values as)"

definition row :: "readOnlyCandidateDecoder \<Rightarrow> nat \<Rightarrow> nat \<Rightarrow> Attribute list \<Rightarrow> bool" where
  "row d arena used as \<longleftrightarrow> decoder_ok d \<and> (arena = 0 \<or> d_overflow d = Some arena) \<and>
     take (length as) (d_attributes d) = lay arena 0 as \<and>
     used = length (row_values as) \<and> used \<le> length (d_arenas d arena) \<and>
     take used (d_arenas d arena) = row_values as"

lemma length_lay [simp]: "length (lay arena p as) = length as"
  by (induction as arbitrary: p) simp_all

lemma lay_append: "lay arena p (as @ bs) = lay arena p as @ lay arena (p + length (row_values as)) bs"
  by (induction as arbitrary: p) (simp_all add: add.assoc)

lemma read_lay:
  "p + length (row_values as) \<le> length (arenas arena) \<Longrightarrow>
   take (length (row_values as)) (drop p (arenas arena)) = row_values as \<Longrightarrow>
   map (read_slot arenas) (lay arena p as) = as"
proof (induction as arbitrary: p)
  case (Cons a as)
  let ?n = "length (Values a)" and ?m = "length (row_values as)"
  have "take (?n + ?m) (drop p (arenas arena)) = Values a @ row_values as" using Cons.prems(2) by simp
  then have "take ?n (drop p (arenas arena)) @ take ?m (drop ?n (drop p (arenas arena))) = Values a @ row_values as"
    by (simp only: take_add)
  moreover have "length (take ?n (drop p (arenas arena))) = ?n" using Cons.prems(1) by simp
  ultimately have split: "take ?n (drop p (arenas arena)) = Values a"
    "take ?m (drop ?n (drop p (arenas arena))) = row_values as"
    by (metis append_eq_append_conv)+
  have "map (read_slot arenas) (lay arena (p + ?n) as) = as"
    by (rule Cons.IH) (use Cons.prems(1) split(2) in \<open>simp_all add: add.commute\<close>)
  moreover have "read_slot arenas (hd (lay arena p (a # as))) = a" using split(1) by (simp add: read_slot_def)
  ultimately show ?case by simp
qed simp

lemma row_read:
  assumes "row d arena used as"
  shows "map (read_slot (d_arenas d)) (take (length as) (d_attributes d)) = as"
proof -
  from assms have "take (length as) (d_attributes d) = lay arena 0 as"
    and "length (row_values as) \<le> length (d_arenas d arena)"
    and "take (length (row_values as)) (d_arenas d arena) = row_values as"
    by (auto simp: row_def)
  with read_lay [of 0 as "d_arenas d" arena] show ?thesis by simp
qed

lemma row_start: "decoder_ok d \<Longrightarrow> row d 0 0 []"
  by (simp add: row_def)

lemma row_decoder [simp]: "row d arena used as \<Longrightarrow> decoder_ok d"
  by (simp add: row_def)

section \<open>Names\<close>

lemma internName_same:
  assumes "internName name d = (out, d')"
  shows "d_attributes d' = d_attributes d \<and> d_arenas d' = d_arenas d \<and> d_made d' = d_made d \<and>
    d_overflow d' = d_overflow d \<and> (decoder_ok d \<longrightarrow> out = name \<and> decoder_ok d')"
  using assms map_of_SomeD [of "d_names d" name]
  by (auto simp: internName_def decoder_ok_def split: if_splits option.splits)

lemma slot_name_spec:
  assumes "row d arena used as" "length as < maxReadOnlyCandidateAttributes"
  obtains d' where "(slot_name (length as) description d :: ('e, bytes \<times> readOnlyCandidateDecoder) go) = Ok (description, d')"
    "row d' arena used as"
proof -
  have inside: "length as < length (d_attributes d)" using assms by (simp add: row_def decoder_ok_def)
  obtain out d1 where n: "internName description d = (out, d1)" by fastforce
  note same = internName_same [OF n]
  have r: "row d1 arena used as" "out = description" using same assms(1) by (auto simp: row_def)
  let ?name = "sl_Description (d_attributes d ! length as)"
  define other where "other \<longleftrightarrow> ?name = [] \<or> description = [] \<or> ?name ! 0 \<noteq> description ! 0 \<or> ?name \<noteq> description"
  have "(if ?name = [] \<or> description = [] then Ok True
      else go_bind (go_index 0 ?name) (\<lambda>a. go_bind (go_index 0 description) (\<lambda>b.
        Ok (a \<noteq> b \<or> ?name \<noteq> description)))) = (Ok other :: ('e, bool) go)"
    by (cases "?name = [] \<or> description = []") (auto simp: other_def)
  then have "(slot_name (length as) description d :: ('e, bytes \<times> readOnlyCandidateDecoder) go) =
      Ok (if other then internName description d else (?name, d))"
    using inside by (simp add: slot_name_def Let_def)
  then have "(slot_name (length as) description d :: ('e, bytes \<times> readOnlyCandidateDecoder) go) =
      Ok (if other then (description, d1) else (description, d))"
    using n r(2) by (cases other) (simp_all add: other_def)
  with r(1) assms(1) show ?thesis by (cases other) (simp_all add: that)
qed

section \<open>Room for values\<close>

lemma grow_size_total:
  assumes "0 < room" "stop \<le> maxReadOnlyCandidateBorrowedValues"
  obtains n where "grow_size stop room = Some n" "stop \<le> n" "min room maxReadOnlyCandidateBorrowedValues \<le> n"
  using assms(1)
proof (induction "stop - room" arbitrary: room thesis rule: less_induct)
  case less
  show ?case
  proof (cases "room < stop")
    case False
    then show ?thesis by (intro less.prems(1) [of room]) (simp_all add: grow_size.simps)
  next
    case True
    let ?room = "min maxReadOnlyCandidateBorrowedValues (2 * room)"
    have "stop - ?room < stop - room" "0 < ?room" using True less.prems(2) assms(2) by auto
    from less.hyps [OF this(1) _ this(2)] obtain n where
      n: "grow_size stop ?room = Some n" "stop \<le> n" "min ?room maxReadOnlyCandidateBorrowedValues \<le> n" by blast
    have "grow_size stop room = Some n" using True n(1) by (subst grow_size.simps) simp
    with n show ?thesis by (intro less.prems(1)) auto
  qed
qed

lemma rebind_lay:
  "p + length (row_values as) \<le> room \<Longrightarrow> rebind_slots arena' room p (lay arena p as) = Ok (lay arena' p as)"
proof (induction as arbitrary: p)
  case (Cons a as)
  have "p + length (Values a) + length (row_values as) \<le> room" using Cons.prems by simp
  note IH = Cons.IH [OF this]
  from IH Cons.prems show ?case by (cases "Values a = []") (simp_all add: cut_values_def Let_def)
qed simp

lemma make_arena_row:
  assumes "row d arena used as" "stop \<le> maxReadOnlyCandidateBorrowedValues"
  obtains d' where "make_arena stop (length (d_arenas d arena)) d = Ok (d_made d, d')"
    "d_attributes d' = d_attributes d" "d_arenas d' arena = d_arenas d arena" "arena \<noteq> d_made d"
    "decoder_ok d'" "d_overflow d' = Some (d_made d)" "stop \<le> length (d_arenas d' (d_made d))"
proof -
  have ok: "decoder_ok d" and large: "maxReadOnlyCandidateValues \<le> length (d_arenas d arena)"
    and old: "arena < d_made d" and used: "arena = 0 \<or> d_overflow d = Some arena"
    using assms(1) by (auto simp: row_def decoder_ok_def)
  have "0 < length (d_arenas d arena)" using large by (rule less_le_trans [rotated]) (simp add: maxReadOnlyCandidateValues_def)
  from grow_size_total [OF this assms(2)] obtain n where n: "grow_size stop (length (d_arenas d arena)) = Some n"
    "stop \<le> n" "min (length (d_arenas d arena)) maxReadOnlyCandidateBorrowedValues \<le> n" .
  have "maxReadOnlyCandidateValues \<le> n" using n(3) large
    by (simp add: maxReadOnlyCandidateValues_def maxReadOnlyCandidateBorrowedValues_def)
  with ok old n show ?thesis
    by (intro that [of "d\<lparr>d_arenas := (d_arenas d)(d_made d := replicate n []), d_made := d_made d + 1,
        d_overflow := Some (d_made d)\<rparr>"]) (auto simp: make_arena_def decoder_ok_def)
qed

lemma overflow_arena_row:
  assumes "row d arena used as" "length (d_arenas d arena) < stop" "stop \<le> maxReadOnlyCandidateBorrowedValues"
  obtains arena' d' where "(overflow_arena stop (length (d_arenas d arena)) d :: ('e, nat \<times> readOnlyCandidateDecoder) go) = Ok (arena', d')"
    "d_attributes d' = d_attributes d" "d_arenas d' arena = d_arenas d arena"
    "decoder_ok d'" "d_overflow d' = Some arena'" "stop \<le> length (d_arenas d' arena')"
proof -
  obtain d' where made: "(make_arena stop (length (d_arenas d arena)) d :: ('e, nat \<times> readOnlyCandidateDecoder) go) = Ok (d_made d, d')"
    "d_attributes d' = d_attributes d" "d_arenas d' arena = d_arenas d arena" "arena \<noteq> d_made d"
    "decoder_ok d'" "d_overflow d' = Some (d_made d)" "stop \<le> length (d_arenas d' (d_made d))"
    by (rule make_arena_row [OF assms(1,3)])
  show ?thesis
  proof (cases "\<exists>k. d_overflow d = Some k \<and> stop \<le> length (d_arenas d k)")
    case True
    then obtain k where "d_overflow d = Some k" "stop \<le> length (d_arenas d k)" by blast
    with assms(1) show ?thesis by (intro that [of k d]) (simp_all add: overflow_arena_def)
  next
    case False
    then have "(overflow_arena stop (length (d_arenas d arena)) d :: ('e, nat \<times> readOnlyCandidateDecoder) go) = Ok (d_made d, d')"
      using made(1) by (auto simp: overflow_arena_def split: option.split)
    with made show ?thesis by (intro that)
  qed
qed

lemma make_room_row:
  assumes r: "row d arena used as" and stop: "used \<le> stop" "stop \<le> maxReadOnlyCandidateBorrowedValues"
  obtains arena' d' where "(make_room (length as) used stop arena d :: ('e, nat \<times> readOnlyCandidateDecoder) go) = Ok (arena', d')"
    "row d' arena' used as" "stop \<le> length (d_arenas d' arena')"
proof (cases "stop \<le> length (d_arenas d arena)")
  case True
  with r show ?thesis by (intro that) (simp_all add: make_room_def)
next
  case False
  then obtain arena' d' where o: "(overflow_arena stop (length (d_arenas d arena)) d :: ('e, nat \<times> readOnlyCandidateDecoder) go) = Ok (arena', d')"
    "d_attributes d' = d_attributes d" "d_arenas d' arena = d_arenas d arena"
    "decoder_ok d'" "d_overflow d' = Some arena'" "stop \<le> length (d_arenas d' arena')"
    using overflow_arena_row [OF r _ stop(2)] by (metis not_le)
  from r have R: "take (length as) (d_attributes d) = lay arena 0 as" "used = length (row_values as)"
    "used \<le> length (d_arenas d arena)" "take used (d_arenas d arena) = row_values as"
    unfolding row_def by blast+
  let ?target = "row_values as @ drop used (d_arenas d' arena')"
  have len: "length ?target = length (d_arenas d' arena')" using R(2) stop(1) o(6) by simp
  have copy: "go_copy (d_arenas d' arena') (row_values as) = ?target"
    using R(2) stop(1) o(6) by (simp add: go_copy_def)
  have slots: "length as \<le> length (d_attributes d)" using R(1) by (metis length_lay length_take min_def nat_le_linear)
  let ?d = "d'\<lparr>d_arenas := (d_arenas d')(arena' := ?target),
      d_attributes := lay arena' 0 as @ drop (length as) (d_attributes d)\<rparr>"
  have "(rebind_slots arena' (length ?target) 0 (lay arena 0 as) :: ('e, slot list) go) = Ok (lay arena' 0 as)"
    using len stop(1) R(2) o(6) by (intro rebind_lay) simp
  then have "(make_room (length as) used stop arena d :: ('e, nat \<times> readOnlyCandidateDecoder) go) = Ok (arena', ?d)"
    using False o(1,2) R slots unfolding make_room_def Let_def by (simp add: go_slice_def copy)
  moreover have "row ?d arena' used as"
    using o slots R(2) stop(1) len by (auto simp: row_def decoder_ok_def)
  moreover have "stop \<le> length (d_arenas ?d arena')" using len o(6) by simp
  ultimately show ?thesis by (rule that)
qed

section \<open>Filling the arena\<close>

text \<open>The values \<open>xs\<close> stand in an arena from \<open>p\<close> on.\<close>

definition write_values :: "nat \<Rightarrow> nat \<Rightarrow> bytes list \<Rightarrow> readOnlyCandidateDecoder \<Rightarrow> readOnlyCandidateDecoder" where
  "write_values arena p xs d =
     d\<lparr>d_arenas := (d_arenas d)(arena := take p (d_arenas d arena) @ xs @ drop (p + length xs) (d_arenas d arena))\<rparr>"

lemma decoder_ok_arena:
  "decoder_ok d \<Longrightarrow> length vs = length (d_arenas d arena) \<Longrightarrow> decoder_ok (d\<lparr>d_arenas := (d_arenas d)(arena := vs)\<rparr>)"
  by (auto simp: decoder_ok_def)

lemma write_values_ok:
  "decoder_ok d \<Longrightarrow> p + length xs \<le> length (d_arenas d arena) \<Longrightarrow> decoder_ok (write_values arena p xs d)"
  unfolding write_values_def by (rule decoder_ok_arena) simp_all

lemma set_value_write:
  assumes "j < high - low" "high \<le> length (d_arenas d arena)"
  shows "set_value (ValueSlice arena low high) j x d = Ok (write_values arena (low + j) [x] d)"
  using assms by (simp add: write_values_def upd_conv_take_nth_drop)

lemma write_write:
  assumes "p + Suc (length xs) \<le> length (d_arenas d arena)"
  shows "write_values arena (Suc p) xs (write_values arena p [x] d) = write_values arena p (x # xs) d"
  using assms by (simp add: write_values_def min_absorb2 Suc_le_eq ac_simps)

lemma fill_values_spec:
  assumes "decoder_ok d" "low + j + k \<le> high" "high \<le> length (d_arenas d arena)"
  shows "case decode_values k i j0 v of
      Ok (vs, rest) \<Rightarrow> fill_values (ValueSlice arena low high) j k v d = Ok (rest, write_values arena (low + j) vs d)
        \<and> length vs = k
    | _ \<Rightarrow> \<exists>d'. fill_values (ValueSlice arena low high) j k v d = Err d' \<and> decoder_ok d'"
  using assms
proof (induction k arbitrary: j j0 v d)
  case 0
  then show ?case by (simp add: write_values_def)
next
  case (Suc k)
  have inside: "j < high - low" using Suc.prems(2) by simp
  note set = set_value_write [OF inside Suc.prems(3)]
  have ok: "decoder_ok (write_values arena (low + j) [x] d)" for x
    using Suc.prems by (intro write_values_ok) simp_all
  show ?case
  proof (cases "consumeEntryBinaryField v")
    case (Ok p)
    obtain x v' where p: "consumeEntryBinaryField v = Ok (x, v')" using Ok by (cases p) simp
    let ?d = "write_values arena (low + j) [x] d"
    have "high \<le> length (d_arenas ?d arena)" using Suc.prems by (simp add: write_values_def)
    note IH = Suc.IH [OF ok [of x] _ this, where j = "j + 1" and ?j0.0 = "j0 + 1" and v = v']
    show ?thesis
    proof (cases "decode_values k i (j0 + 1) v'")
      case (Ok q)
      obtain vs rest where q: "decode_values k i (j0 + 1) v' = Ok (vs, rest)" using Ok by (cases q) simp
      with IH Suc.prems have "fill_values (ValueSlice arena low high) (j + 1) k v' ?d =
          Ok (rest, write_values arena (low + (j + 1)) vs ?d)" "length vs = k" by auto
      moreover have "write_values arena (Suc (low + j)) vs ?d = write_values arena (low + j) (x # vs) d"
        using Suc.prems \<open>length vs = k\<close> by (intro write_write) simp
      ultimately show ?thesis using p q by (simp add: set del: set_value.simps)
    qed (use IH Suc.prems p in \<open>auto simp: set simp del: set_value.simps\<close>)
  next
    case (Err e)
    with ok show ?thesis by (simp add: set del: set_value.simps)
  qed simp
qed

section \<open>One attribute\<close>

lemma value_room_row:
  assumes "row d arena used as" "used + n \<le> maxReadOnlyCandidateBorrowedValues"
  obtains arena' d' where "(value_room (length as) used n arena d ::
      ('e, value_slice \<times> nat \<times> nat \<times> readOnlyCandidateDecoder) go) =
      Ok (if n = 0 then NilValues else ValueSlice arena' used (used + n), used + n, arena', d')"
    "row d' arena' used as" "used + n \<le> length (d_arenas d' arena')"
proof (cases "n = 0")
  case True
  have "used \<le> length (d_arenas d arena)" using assms(1) unfolding row_def by blast
  with True assms show ?thesis by (intro that [of arena d]) (simp_all add: value_room_def)
next
  case False
  obtain arena' d' where "(make_room (length as) used (used + n) arena d ::
      ('e, nat \<times> readOnlyCandidateDecoder) go) = Ok (arena', d')"
    "row d' arena' used as" "used + n \<le> length (d_arenas d' arena')"
    by (rule make_room_row [OF assms(1) le_add1 assms(2)])
  with False show ?thesis by (intro that [of arena' d']) (simp_all add: value_room_def cut_values_def Let_def)
qed

lemma fill_room:
  assumes "row d arena used as" "used + n \<le> length (d_arenas d arena)"
  shows "case decode_values n i 0 v of
      Ok (vs, rest) \<Rightarrow> fill_values (if n = 0 then NilValues else ValueSlice arena used (used + n)) 0 n v d =
          Ok (rest, write_values arena used vs d) \<and> length vs = n
    | _ \<Rightarrow> \<exists>d'. fill_values (if n = 0 then NilValues else ValueSlice arena used (used + n)) 0 n v d = Err d' \<and>
        decoder_ok d'"
proof (cases "n = 0")
  case True
  then show ?thesis by (simp add: write_values_def)
next
  case False
  with fill_values_spec [of d used 0 n "used + n" arena, where i = i and ?j0.0 = 0 and v = v, unfolded add_0_right] assms show ?thesis by simp
qed

text \<open>Writing the values behind the row and the slot behind its slots makes the row longer.\<close>

lemma row_extend:
  assumes r: "row d arena used as" and room: "used + length vs \<le> length (d_arenas d arena)"
    and i: "length as < maxReadOnlyCandidateAttributes"
    and s: "s = \<lparr>sl_Description = name,
      sl_Values = (if vs = [] then NilValues else ValueSlice arena used (used + length vs)),
      sl_RawNormalized = False\<rparr>"
  obtains d' where "(update_slot (length as) (\<lambda>_. s) (write_values arena used vs d) ::
      ('e, readOnlyCandidateDecoder) go) = Ok d'"
    "row d' arena (used + length vs) (as @ [\<lparr>Description = name, Values = vs, RawNormalized = False\<rparr>])"
proof -
  let ?w = "write_values arena used vs d"
  let ?d = "?w\<lparr>d_attributes := (d_attributes d)[length as := s]\<rparr>"
  have R: "decoder_ok d" "take (length as) (d_attributes d) = lay arena 0 as" "used = length (row_values as)"
    "take used (d_arenas d arena) = row_values as" "arena = 0 \<or> d_overflow d = Some arena"
    using r unfolding row_def by blast+
  have inside: "length as < length (d_attributes d)" using R(1) i by (simp add: decoder_ok_def)
  have slots: "take (Suc (length as)) ((d_attributes d)[length as := s]) =
      lay arena 0 (as @ [\<lparr>Description = name, Values = vs, RawNormalized = False\<rparr>])"
    using inside R(2,3) by (simp add: take_Suc_conv_app_nth lay_append s)
  have "decoder_ok ?w" by (rule write_values_ok [OF R(1) room])
  then have ok: "decoder_ok ?d" by (simp add: decoder_ok_def write_values_def)
  have len: "length (take used (d_arenas d arena)) = used" using room by simp
  have arena: "d_arenas ?d arena = row_values as @ vs @ drop (used + length vs) (d_arenas d arena)"
    using R(4) by (simp add: write_values_def)
  have "row ?d arena (used + length vs) (as @ [\<lparr>Description = name, Values = vs, RawNormalized = False\<rparr>])"
    unfolding row_def
  proof (intro conjI)
    show "decoder_ok ?d" by (rule ok)
    show "arena = 0 \<or> d_overflow ?d = Some arena" using R(5) by (simp add: write_values_def)
    show "take (length (as @ [\<lparr>Description = name, Values = vs, RawNormalized = False\<rparr>])) (d_attributes ?d) =
        lay arena 0 (as @ [\<lparr>Description = name, Values = vs, RawNormalized = False\<rparr>])" using slots by simp
    show "used + length vs = length (row_values (as @ [\<lparr>Description = name, Values = vs, RawNormalized = False\<rparr>]))"
      using R(3) by simp
    show "used + length vs \<le> length (d_arenas ?d arena)" unfolding arena using R(3) by simp
    show "take (used + length vs) (d_arenas ?d arena) =
        row_values (as @ [\<lparr>Description = name, Values = vs, RawNormalized = False\<rparr>])"
      unfolding arena using R(3) by simp
  qed
  moreover have "(update_slot (length as) (\<lambda>_. s) ?w :: ('e, readOnlyCandidateDecoder) go) = Ok ?d"
    using inside by (simp add: update_slot_def write_values_def)
  ultimately show ?thesis by (intro that)
qed

lemma borrow_attribute_spec:
  assumes r: "row d arena used as" and i: "length as < maxReadOnlyCandidateAttributes"
  shows "case borrow_attribute (length as) used arena v d of
      Ok (used', arena', rest, d') \<Rightarrow> \<exists>name v1 n v2 vs. consumeEntryBinaryField v = Ok (name, v1) \<and>
        consumeEntryBinaryCount v1 = Ok (n, v2) \<and> n \<le> length v2 \<and> decode_values n (length as) 0 v2 = Ok (vs, rest) \<and>
        row d' arena' used' (as @ [\<lparr>Description = name, Values = vs, RawNormalized = False\<rparr>])
    | Err d' \<Rightarrow> decoder_ok d' | Panic \<Rightarrow> False"
proof (cases "\<exists>name v1 n v2. consumeEntryBinaryField v = Ok (name, v1) \<and> consumeEntryBinaryCount v1 = Ok (n, v2) \<and>
    n \<le> length v2 \<and> used + n \<le> maxReadOnlyCandidateBorrowedValues")
  case False
  have "borrow_attribute (length as) used arena v d = Err d"
  proof (cases "consumeEntryBinaryField v")
    case (Ok p)
    then obtain name v1 where p: "consumeEntryBinaryField v = Ok (name, v1)" by (cases p) simp
    then show ?thesis
      by (cases "consumeEntryBinaryCount v1") (use False p in \<open>auto simp: borrow_attribute_def\<close>)
  qed (simp_all add: borrow_attribute_def)
  with r show ?thesis by simp
next
  case True
  then obtain name v1 n v2 where f: "consumeEntryBinaryField v = Ok (name, v1)"
    "consumeEntryBinaryCount v1 = Ok (n, v2)" "n \<le> length v2" "used + n \<le> maxReadOnlyCandidateBorrowedValues" by blast
  obtain d1 where n1: "(slot_name (length as) name d ::
      (readOnlyCandidateDecoder, bytes \<times> readOnlyCandidateDecoder) go) = Ok (name, d1)" and r1: "row d1 arena used as"
    by (rule slot_name_spec [OF r i])
  obtain arena' d2 where v2: "(value_room (length as) used n arena d1 ::
      (readOnlyCandidateDecoder, value_slice \<times> nat \<times> nat \<times> readOnlyCandidateDecoder) go) =
      Ok (if n = 0 then NilValues else ValueSlice arena' used (used + n), used + n, arena', d2)"
    and r2: "row d2 arena' used as" and room: "used + n \<le> length (d_arenas d2 arena')"
    by (rule value_room_row [OF r1 f(4)])
  let ?slice = "if n = 0 then NilValues else ValueSlice arena' used (used + n)"
  have step: "borrow_attribute (length as) used arena v d =
      go_bind (fill_values ?slice 0 n v2 d2) (\<lambda>(v, d).
      go_bind (update_slot (length as) (\<lambda>_. \<lparr>sl_Description = name, sl_Values = ?slice, sl_RawNormalized = False\<rparr>) d) (\<lambda>d.
        Ok (used + n, arena', v, d)))"
    unfolding borrow_attribute_def using f n1 v2 by (simp add: not_less)
  note fill = fill_room [OF r2 room, where i = "length as" and v = v2]
  show ?thesis
  proof (cases "decode_values n (length as) 0 v2")
    case (Ok p)
    obtain vs rest where p: "decode_values n (length as) 0 v2 = Ok (vs, rest)" using Ok by (cases p) simp
    then have filled: "fill_values ?slice 0 n v2 d2 = Ok (rest, write_values arena' used vs d2)" and n: "length vs = n"
      using fill by simp_all
    have slice: "?slice = (if vs = [] then NilValues else ValueSlice arena' used (used + length vs))" using n by auto
    obtain d' where "(update_slot (length as) (\<lambda>_. \<lparr>sl_Description = name, sl_Values = ?slice, sl_RawNormalized = False\<rparr>)
        (write_values arena' used vs d2) :: (readOnlyCandidateDecoder, readOnlyCandidateDecoder) go) = Ok d'"
      and r': "row d' arena' (used + n) (as @ [\<lparr>Description = name, Values = vs, RawNormalized = False\<rparr>])"
      using row_extend [OF r2 _ i refl, of vs name] room unfolding slice n by blast
    then have "borrow_attribute (length as) used arena v d = Ok (used + n, arena', rest, d')"
      unfolding step filled by simp
    with r' f p show ?thesis by simp
  next
    case (Err e)
    with fill show ?thesis unfolding step by auto
  next
    case Panic
    then show ?thesis by (simp add: decode_values_no_panic)
  qed
qed

section \<open>A whole row\<close>

lemma borrow_attributes_spec:
  assumes "row d arena used as" "length as + k \<le> maxReadOnlyCandidateAttributes"
  shows "case borrow_attributes k (length as) used arena v d of
      Ok (rest, d') \<Rightarrow> \<exists>bs arena' used'. decode_attributes k (length as) v = Ok (bs, rest) \<and> row d' arena' used' (as @ bs)
    | Err d' \<Rightarrow> decoder_ok d' | Panic \<Rightarrow> False"
  using assms
proof (induction k arbitrary: as used arena v d)
  case 0
  then show ?case by auto
next
  case (Suc k)
  have "length as < maxReadOnlyCandidateAttributes" using Suc.prems(2) by simp
  note step = borrow_attribute_spec [OF Suc.prems(1) this, of v]
  show ?case
  proof (cases "borrow_attribute (length as) used arena v d")
    case (Ok p)
    obtain used' arena' v' d' where p: "p = (used', arena', v', d')" by (cases p)
    from step obtain name v1 n v2 vs where f: "consumeEntryBinaryField v = Ok (name, v1)"
      "consumeEntryBinaryCount v1 = Ok (n, v2)" "n \<le> length v2" "decode_values n (length as) 0 v2 = Ok (vs, v')"
      and r: "row d' arena' used' (as @ [\<lparr>Description = name, Values = vs, RawNormalized = False\<rparr>])"
      unfolding Ok p by auto
    let ?a = "\<lparr>Description = name, Values = vs, RawNormalized = False\<rparr>"
    have "length (as @ [?a]) + k \<le> maxReadOnlyCandidateAttributes" using Suc.prems(2) by simp
    note IH = Suc.IH [OF r this, of v']
    have run: "borrow_attributes (Suc k) (length as) used arena v d =
        borrow_attributes k (length (as @ [?a])) used' arena' v' d'"
      by (simp add: Ok p)
    show ?thesis
    proof (cases "borrow_attributes k (length (as @ [?a])) used' arena' v' d'")
      case (Ok q)
      obtain rest d'' where q: "q = (rest, d'')" by (cases q)
      from IH obtain bs arena'' used'' where "decode_attributes k (length as + 1) v' = Ok (bs, rest)"
        "row d'' arena'' used'' (as @ ?a # bs)" unfolding Ok q by auto
      moreover from this(1) f have "decode_attributes (Suc k) (length as) v = Ok (?a # bs, rest)" by simp
      ultimately have "\<exists>bs arena' used'. decode_attributes (Suc k) (length as) v = Ok (bs, rest) \<and>
          row d'' arena' used' (as @ bs)" by blast
      then show ?thesis by (simp only: run Ok q go.case prod.case)
    qed (use IH in \<open>simp_all only: run go.case\<close>)
  qed (use step in simp_all)
qed

section \<open>The flags\<close>

lemma row_bitmap_ok_eq: "row_bitmap_ok flags n = Ok (bitmap_ok flags n)"
proof (cases "length flags = (n + 7) div 8 \<and> n mod 8 \<noteq> 0")
  case True
  then have "0 < n" by (cases n) simp_all
  then have "0 < (n + 7) div 8" by simp
  with True have "flags \<noteq> []" "length flags - 1 < length flags" by auto
  with True show ?thesis by (simp add: row_bitmap_ok_def bitmap_ok_def Let_def)
next
  case False
  then show ?thesis by (auto simp: row_bitmap_ok_def bitmap_ok_def Let_def)
qed

text \<open>The attributes of a row after the first \<open>i\<close> flags have been set.\<close>

definition flagged :: "bytes \<Rightarrow> nat \<Rightarrow> Attribute list \<Rightarrow> Attribute list" where
  "flagged flags i as = map (\<lambda>(j, a). if j < i then a\<lparr>RawNormalized := flag flags j\<rparr> else a) (enumerate 0 as)"

lemma length_flagged [simp]: "length (flagged flags i as) = length as"
  by (simp add: flagged_def)

lemma flagged_0: "flagged flags 0 as = as"
  by (simp add: flagged_def case_prod_unfold)

lemma flagged_Suc:
  "i < length as \<Longrightarrow>
   flagged flags (Suc i) as = (flagged flags i as)[i := (flagged flags i as ! i)\<lparr>RawNormalized := flag flags i\<rparr>]"
  by (rule nth_equalityI) (auto simp: flagged_def nth_enumerate_eq nth_list_update less_Suc_eq)

lemma flagged_mark:
  assumes "list_all (\<lambda>a. \<not> RawNormalized a) as" "length as \<le> 8 * length flags"
  shows "flagged flags (length as) as = mark (\<lambda>j. j < 8 * length flags \<and> flag flags j) as"
proof (rule nth_equalityI)
  fix j assume "j < length (flagged flags (length as) as)"
  then have j: "j < length as" by simp
  then have "(as ! j)\<lparr>RawNormalized := False\<rparr> = as ! j" using assms(1) by (auto simp: list_all_length)
  with j assms(2) show "flagged flags (length as) as ! j = mark (\<lambda>j. j < 8 * length flags \<and> flag flags j) as ! j"
    by (cases "flag flags j") (simp_all add: flagged_def nth_enumerate_eq)
qed simp

lemma lay_update:
  "i < length as \<Longrightarrow> lay arena p (as[i := (as ! i)\<lparr>RawNormalized := b\<rparr>]) =
     (lay arena p as)[i := (lay arena p as ! i)\<lparr>sl_RawNormalized := b\<rparr>]"
  by (induction as arbitrary: i p) (auto simp: nth_Cons' split: nat.split)

lemma row_values_update: "i < length as \<Longrightarrow> row_values (as[i := (as ! i)\<lparr>RawNormalized := b\<rparr>]) = row_values as"
proof -
  assume "i < length as"
  then have "map Values (as[i := (as ! i)\<lparr>RawNormalized := b\<rparr>]) = map Values as"
    by (simp add: map_update list_update_same_conv)
  then show ?thesis by (rule arg_cong)
qed

lemma row_flag:
  assumes r: "row d arena used as" and i: "i < length as"
  obtains d' where "(update_slot i (\<lambda>s. s\<lparr>sl_RawNormalized := b\<rparr>) d :: ('e, readOnlyCandidateDecoder) go) = Ok d'"
    "row d' arena used (as[i := (as ! i)\<lparr>RawNormalized := b\<rparr>])"
proof -
  have R: "decoder_ok d" "take (length as) (d_attributes d) = lay arena 0 as"
    using r unfolding row_def by blast+
  have inside: "i < length (d_attributes d)"
    using arg_cong [OF R(2), of length] i by (simp add: min_def split: if_splits)
  have slot: "d_attributes d ! i = lay arena 0 as ! i" using R(2) i by (metis nth_take)
  let ?d = "d\<lparr>d_attributes := (d_attributes d)[i := (d_attributes d ! i)\<lparr>sl_RawNormalized := b\<rparr>]\<rparr>"
  have "take (length as) (d_attributes ?d) = lay arena 0 (as[i := (as ! i)\<lparr>RawNormalized := b\<rparr>])"
    using R(2) i slot by (simp add: take_update_swap lay_update)
  moreover have "decoder_ok ?d" using R(1) by (simp add: decoder_ok_def)
  moreover have "d_arenas ?d = d_arenas d" "d_overflow ?d = d_overflow d" by simp_all
  ultimately have "row ?d arena used (as[i := (as ! i)\<lparr>RawNormalized := b\<rparr>])"
    using r unfolding row_def row_values_update [OF i] length_list_update by metis
  with inside show ?thesis by (intro that [of ?d]) (simp_all add: update_slot_def)
qed

lemma set_row_flags_row:
  assumes "row d arena used (flagged flags i as)" "i + k = length as" "length as \<le> 8 * length flags"
  shows "\<exists>d'. (set_row_flags flags i k d :: ('e, readOnlyCandidateDecoder) go) = Ok d' \<and>
    row d' arena used (flagged flags (length as) as)"
  using assms
proof (induction k arbitrary: i d)
  case (Suc k)
  let ?as = "flagged flags i as"
  have i: "i < length ?as" "i < length as" using Suc.prems(2) by simp_all
  have byte: "i div 8 < length flags" using i Suc.prems(3) by (simp add: less_mult_imp_div_less mult.commute)
  have "(ord (flags ! (i div 8)) AND push_bit (i mod 8) 1 \<noteq> 0) = flag flags i"
    unfolding test_bit flag_def by simp
  moreover obtain d' where d': "(update_slot i (\<lambda>s. s\<lparr>sl_RawNormalized := flag flags i\<rparr>) d ::
      ('e, readOnlyCandidateDecoder) go) = Ok d'"
    "row d' arena used (?as[i := (?as ! i)\<lparr>RawNormalized := flag flags i\<rparr>])"
    by (rule row_flag [OF Suc.prems(1) i(1)])
  ultimately have step: "(set_row_flags flags i (Suc k) d :: ('e, readOnlyCandidateDecoder) go) =
      set_row_flags flags (i + 1) k d'"
    using byte by (simp del: push_bit_of_1)
  have "row d' arena used (flagged flags (i + 1) as)" using d'(2) flagged_Suc [OF i(2)] by simp
  from Suc.IH [OF this _ Suc.prems(3)] Suc.prems(2) show ?case unfolding step by simp
qed auto

section \<open>Agreement with the decoder that owns its data\<close>

text \<open>The outcome of the borrowing decoder on what follows the header.\<close>

lemma borrow_body_decode:
  assumes "decoder_ok d"
  shows "case borrow_body v3 flags dn v d of
      Ok ((dn', as'), d') \<Rightarrow> decoder_ok d' \<and> dn' = dn \<and>
        (\<exists>n v' as. consumeEntryBinaryCount v = Ok (n, v') \<and> n \<le> length v' \<and> decode_attributes n 0 v' = Ok (as, []) \<and>
           (if v3 then bitmap_ok flags n \<and> as' = mark (\<lambda>j. j < 8 * length flags \<and> flag flags j) as else as' = as))
    | Err d' \<Rightarrow> decoder_ok d' | Panic \<Rightarrow> False"
proof (cases "\<exists>n v'. consumeEntryBinaryCount v = Ok (n, v') \<and> n \<le> length v' \<and> n \<le> maxReadOnlyCandidateAttributes")
  case False
  with assms have "borrow_body v3 flags dn v d = Err d"
    by (cases "consumeEntryBinaryCount v") (auto simp: borrow_body_def decoder_ok_def)
  with assms show ?thesis by simp
next
  case True
  then obtain n v' where n: "consumeEntryBinaryCount v = Ok (n, v')" "n \<le> length v'" "n \<le> maxReadOnlyCandidateAttributes"
    by blast
  have size: "length (d_attributes d) = maxReadOnlyCandidateAttributes" using assms by (simp add: decoder_ok_def)
  have loop: "case borrow_attributes n 0 0 0 v' d of
      Ok (rest, d') \<Rightarrow> \<exists>bs arena' used'. decode_attributes n 0 v' = Ok (bs, rest) \<and> row d' arena' used' bs
    | Err d' \<Rightarrow> decoder_ok d' | Panic \<Rightarrow> False"
    using borrow_attributes_spec [OF row_start [OF assms], where k = n and v = v'] n(3)
    by (simp only: append_Nil list.size(3) add_0)
  show ?thesis
  proof (cases "borrow_attributes n 0 0 0 v' d")
    case (Ok p)
    obtain rest d1 where p: "p = (rest, d1)" by (cases p)
    from loop obtain bs arena used where bs: "decode_attributes n 0 v' = Ok (bs, rest)" and r: "row d1 arena used bs"
      unfolding Ok p by auto
    have len: "length bs = n" using decode_attributes_length [OF bs] .
    have read: "go_of_option (go_slice 0 n (d_attributes d')) = Ok (take n (d_attributes d'))"
      if "decoder_ok d'" for d' using that n(3) by (simp add: go_slice_def decoder_ok_def)
    consider "rest \<noteq> [] \<or> v3 \<and> \<not> bitmap_ok flags n" | "rest = []" "\<not> v3" | "rest = []" v3 "bitmap_ok flags n" by blast
    then show ?thesis
    proof cases
      case 1
      then have "borrow_body v3 flags dn v d = Err d1"
        using n Ok p size by (auto simp: borrow_body_def row_bitmap_ok_eq)
      with r show ?thesis by simp
    next
      case 2
      then have "borrow_body v3 flags dn v d = Ok ((dn, bs), d1)"
        using n Ok p size read [OF row_decoder [OF r]] row_read [OF r] len by (simp add: borrow_body_def)
      with 2 r n bs show ?thesis by auto
    next
      case 3
      then have "length flags = (n + 7) div 8" unfolding bitmap_ok_iff by blast
      then have bits: "length bs \<le> 8 * length flags" unfolding len by presburger
      obtain d2 where d2: "(set_row_flags flags 0 n d1 :: (readOnlyCandidateDecoder, readOnlyCandidateDecoder) go) = Ok d2"
        "row d2 arena used (flagged flags n bs)"
        using set_row_flags_row [of d1 arena used flags 0 bs n] r bits len by (auto simp: flagged_0)
      have "flagged flags n bs = mark (\<lambda>j. j < 8 * length flags \<and> flag flags j) bs"
        using flagged_mark [OF decode_attributes_unhinted [OF bs] bits] len by simp
      moreover have "borrow_body v3 flags dn v d = Ok ((dn, flagged flags n bs), d2)"
        using 3 n Ok p size read [OF row_decoder [OF d2(2)]] row_read [OF d2(2)] len d2(1)
        by (simp add: borrow_body_def row_bitmap_ok_eq)
      ultimately show ?thesis using 3 d2 n bs by auto
    qed
  next
    case (Err d')
    then have "borrow_body v3 flags dn v d = Err d'" using n size by (simp add: borrow_body_def)
    with loop Err show ?thesis by simp
  qed (use loop in simp)
qed

lemma row_header_eq:
  "row_header v d = (case candidate_header v of None \<Rightarrow> Err d | Some h \<Rightarrow> Ok h)"
proof -
  have "HasPrefix v p \<Longrightarrow> slice_from (length p) v = Some (drop (length p) v)" for p
    by (auto simp: HasPrefix_prefix slice_from_def dest: prefix_length_le)
  then show ?thesis
    by (cases "consumeEntryBinaryField (drop (length entryBinaryV3Prefix) v)")
      (auto simp: row_header_def candidate_header_def)
qed

lemma borrowMetadata_decode:
  assumes "decoder_ok d"
  shows "case borrowMetadata v d of
      Ok ((dn, as), d') \<Rightarrow> decoder_ok d' \<and>
        (\<exists>v1 v3 flags w a binding b c. candidate_header v = Some (v1, v3, flags, w) \<and>
          consumeEntryBinaryField w = Ok (dn, a) \<and> consumeEntryBinaryField a = Ok (binding, b) \<and>
          (if v1 then \<exists>source. consumeEntryBinaryField b = Ok (source, c)
           else c = b \<and> (length binding = 0 \<or> length binding = sha256_Size)) \<and>
          borrow_body v3 flags dn c d = Ok ((dn, as), d'))
    | Err d' \<Rightarrow> decoder_ok d' | Panic \<Rightarrow> False"
proof (cases "candidate_header v")
  case (Some h)
  obtain v1 v3 flags w where h: "h = (v1, v3, flags, w)" by (cases h)
  show ?thesis
  proof (cases "consumeEntryBinaryField w")
    case (Ok p1)
    obtain dn a where p1: "p1 = (dn, a)" by (cases p1)
    show ?thesis
    proof (cases "consumeEntryBinaryField a")
      case ok2: (Ok p2)
      obtain binding b where p2: "p2 = (binding, b)" by (cases p2)
      have body: "case borrow_body v3 flags dn c d of
          Ok ((dn', as'), d') \<Rightarrow> decoder_ok d' \<and> dn' = dn | Err d' \<Rightarrow> decoder_ok d' | Panic \<Rightarrow> False" for c
        using borrow_body_decode [OF assms, where ?v3.0 = v3 and flags = flags and dn = dn and v = c] by (auto split: go.splits prod.splits)
      consider c source where v1 "consumeEntryBinaryField b = Ok (source, c)"
        | c where "\<not> v1" "c = b" "length binding = 0 \<or> length binding = sha256_Size"
        | "borrowMetadata v d = Err d"
        by (cases v1; cases "consumeEntryBinaryField b";
            cases "binding \<noteq> [] \<and> length binding \<noteq> sha256_Size") (auto simp: borrowMetadata_def row_header_eq Some h Ok p1 ok2 p2)
      then show ?thesis
      proof cases
        case (1 c source)
        then have "borrowMetadata v d = borrow_body v3 flags dn c d"
          by (simp add: borrowMetadata_def row_header_eq Some h Ok p1 ok2 p2)
        with body [of c] 1 Some h Ok p1 ok2 p2 show ?thesis
          by (cases "borrow_body v3 flags dn c d") (auto split: prod.splits)
      next
        case (2 c)
        then have "borrowMetadata v d = borrow_body v3 flags dn c d"
          by (auto simp: borrowMetadata_def row_header_eq Some h Ok p1 ok2 p2)
        with body [of c] 2 Some h Ok p1 ok2 p2 show ?thesis
          by (cases "borrow_body v3 flags dn c d") (auto split: prod.splits)
      next
        case 3
        with assms show ?thesis by simp
      qed
    qed (use assms in \<open>simp_all add: borrowMetadata_def row_header_eq Some h Ok p1\<close>)
  qed (use assms in \<open>simp_all add: borrowMetadata_def row_header_eq Some h\<close>)
qed (use assms in \<open>simp add: borrowMetadata_def row_header_eq\<close>)

lemma borrow_decodes:
  assumes "decoder_ok d" "borrowMetadata v d = Ok ((dn, as), d')"
  shows "\<exists>stored. decodeStoredEntry Unmarshal v = Ok stored \<and> s_Entry stored = bare_entry dn as"
proof -
  from borrowMetadata_decode [OF assms(1), of v] assms(2) obtain v1 v3 flags w a binding b c where
    h: "candidate_header v = Some (v1, v3, flags, w)" and f: "consumeEntryBinaryField w = Ok (dn, a)"
    "consumeEntryBinaryField a = Ok (binding, b)"
    and c: "if v1 then \<exists>source. consumeEntryBinaryField b = Ok (source, c)
      else c = b \<and> (length binding = 0 \<or> length binding = sha256_Size)"
    and body: "borrow_body v3 flags dn c d = Ok ((dn, as), d')" by auto
  from borrow_body_decode [OF assms(1), where ?v3.0 = v3 and flags = flags and dn = dn and v = c] obtain n v' as0 where n:
    "consumeEntryBinaryCount c = Ok (n, v')" "n \<le> length v'" "decode_attributes n 0 v' = Ok (as0, [])"
    "if v3 then bitmap_ok flags n \<and> as = mark (\<lambda>j. j < 8 * length flags \<and> flag flags j) as0 else as = as0"
    unfolding body by auto
  note dec = decode_body_from [OF n(1-3)]
  consider (v3) "HasPrefix v entryBinaryV3Prefix" | (v2) "\<not> HasPrefix v entryBinaryV3Prefix" "HasPrefix v entryBinaryPrefix"
    | (v1) "\<not> HasPrefix v entryBinaryV3Prefix" "\<not> HasPrefix v entryBinaryPrefix" "HasPrefix v entryBinaryV1Prefix"
    using h by (auto simp: candidate_header_def split: if_splits)
  then show ?thesis
  proof cases
    case v3
    then have hd: "\<not> v1" "v3" "consumeEntryBinaryField (drop (length entryBinaryV3Prefix) v) = Ok (flags, w)"
      using h by (auto simp: candidate_header_def split: go.splits)
    then have bd: "decodeBinaryStoredEntry w = Ok \<lparr>s_Entry = bare_entry dn as0, s_DNIdentity = [],
        s_DNSource = [], s_DNBinding = binding\<rparr>"
      using f c dec by (auto simp: decodeBinaryStoredEntry_def)
    have len: "length as0 = n" using decode_attributes_length n(3) by blast
    have bm: "bitmap_ok flags n" "as = mark (\<lambda>j. j < 8 * length flags \<and> flag flags j) as0" using n(4) hd(2) by auto
    then have "length flags = (length as0 + 7) div 8" "apply_flags 0 flags as0 = Ok as"
      unfolding bitmap_ok_iff apply_flags_0 len by auto
    with bd hd v3 show ?thesis
      by (simp add: decodeStoredEntry_def decodeNormalizedStoredEntry_def bare_entry_def)
  next
    case v2
    then have hd: "\<not> v1" "\<not> v3" "w = drop (length entryBinaryPrefix) v" using h by (auto simp: candidate_header_def)
    with f c dec n(4) v2 show ?thesis by (auto simp: decodeStoredEntry_def decodeBinaryStoredEntry_def)
  next
    case v1
    then have hd: "v1" "\<not> v3" "w = drop (length entryBinaryV1Prefix) v" using h by (auto simp: candidate_header_def)
    with f c dec n(4) v1 show ?thesis by (auto simp: decodeStoredEntry_def decodeBinaryStoredEntryV1_def)
  qed
qed

section \<open>Properties\<close>

text \<open>
  C38: the decoder that is reused from row to row returns what the authoritative decoder returns,
  entry or error, whatever rows it decoded before. The slots, arenas and names left by those rows
  change nothing, values are not overwritten by those of later attributes when an arena is filled or
  the row moves to a larger one, no index or slice is out of range, and the decoder stays reusable.
\<close>

theorem candidate_decoder_agrees:
  assumes "decoder_ok d"
  shows "fst (decoder_decode Unmarshal v d) = go_bind (decodeStoredEntry Unmarshal v) (\<lambda>stored. Ok (s_Entry stored)) \<and>
    fst (decoder_decode Unmarshal v d) \<noteq> Panic \<and>
    decoder_ok (snd (decoder_decode Unmarshal v d)) \<and>
    decoder_ok (releaseReadOnlyCandidateDecoder d)"
proof -
  note read = borrowMetadata_decode [OF assms, of v]
  have no_panic: "go_bind (decodeStoredEntry Unmarshal v) (\<lambda>stored. Ok (s_Entry stored)) \<noteq> Panic"
    by (simp add: decodeStoredEntry_no_panic)
  show ?thesis
  proof (cases "borrowMetadata v d")
    case (Ok p)
    obtain dn as d' where p: "borrowMetadata v d = Ok ((dn, as), d')" using Ok by (cases p) auto
    from borrow_decodes [OF assms p, of Unmarshal] read release_ok [OF assms] show ?thesis
      by (auto simp: decoder_decode_def borrow_def p)
  next
    case (Err d')
    with read release_ok [OF assms] no_panic show ?thesis by (simp add: decoder_decode_def borrow_def)
  qed (use read in simp)
qed

definition sample_row :: "bytes \<Rightarrow> bytes \<Rightarrow> bytes list \<Rightarrow> Entry" where
  "sample_row dn description vs = bare_entry dn [\<lparr>Description = description, Values = vs, RawNormalized = False\<rparr>]"

theorem candidate_decoder_agrees_witness:
  "fst (decoder_decode (\<lambda>_. Inl []) (encodeEntry (sample_row ''cn=b'' ''sn'' [''c'']) [] [])
     (snd (decoder_decode (\<lambda>_. Inl []) (encodeEntry (sample_row ''cn=a'' ''cn'' [''a'', ''b'']) [] [])
       acquireReadOnlyCandidateDecoder)))
     = Ok (sample_row ''cn=b'' ''sn'' [''c''])"
proof -
  have "decodeStoredEntry (\<lambda>_. Inl []) (encodeEntry (sample_row ''cn=b'' ''sn'' [''c'']) [] []) =
      Ok \<lparr>s_Entry = sample_row ''cn=b'' ''sn'' [''c''], s_DNIdentity = [], s_DNSource = [], s_DNBinding = []\<rparr>"
    using decodeStoredEntry_encodeEntry [of "sample_row ''cn=b'' ''sn'' [''c'']" "\<lambda>_. Inl []" "[]" "[]"]
    by (simp add: sample_row_def entry_fits_def attribute_fits_def bare_entry_def stored_part_def)
  moreover note first = candidate_decoder_agrees [OF acquire_ok, of "\<lambda>_. Inl []"
      "encodeEntry (sample_row ''cn=a'' ''cn'' [''a'', ''b'']) [] []"]
  ultimately show ?thesis
    using candidate_decoder_agrees [of "snd (decoder_decode (\<lambda>_. Inl [])
      (encodeEntry (sample_row ''cn=a'' ''cn'' [''a'', ''b'']) [] []) acquireReadOnlyCandidateDecoder)" "\<lambda>_. Inl []"
      "encodeEntry (sample_row ''cn=b'' ''sn'' [''c'']) [] []"] by simp
qed

end
