(* ===== verification/ACL_Model.thy ===== *)
theory ACL_Model
  imports DN_Scope Directory_Filter "HOL-Library.Finite_Map"
begin

text \<open>
  The data of the access control lists (\<open>src/internal/acl/types.go\<close>), the expansion of patterns
  (\<open>expansion.go\<close>), and the matchers for names, target values and connections (\<open>policy.go\<close>,
  \<open>connection.go\<close>). A function that can panic returns an option; \<open>None\<close> is the panic.
\<close>

unbundle bit_operations_syntax

section \<open>Surroundings\<close>

text \<open>
  What the rules take from outside: a compiled regular expression is the function that gives the
  submatches of a text; a parsed URL is what the code reads of it; an IP address is its sixteen
  bytes. \<open>acl_range\<close> is the order of a \<open>range\<close> loop over a map.
\<close>

type_synonym regex = "bytes \<Rightarrow> bytes list option"

record url =
  url_Scheme :: bytes
  url_Host :: bytes
  url_HasUser :: bool
  url_Fragment :: bytes
  url_EscapedPath :: bytes
  url_RawQuery :: bytes

record acl_env =
  acl_lib :: ldap_lib
  acl_unicode :: unicode
  regexp_Compile :: "bytes \<Rightarrow> regex option"
  CompileFilter :: "bytes \<Rightarrow> Filter option"
  url_Parse :: "bytes \<Rightarrow> url option"
  ParseIP :: "bytes \<Rightarrow> bytes option"
  SplitHostPort :: "bytes \<Rightarrow> (bytes \<times> bytes) option"
  acl_range :: "string \<Rightarrow> bytes fset \<Rightarrow> bytes list"

abbreviation MatchString :: "regex \<Rightarrow> bytes \<Rightarrow> bool" where
  "MatchString pattern s \<equiv> pattern s \<noteq> None"

section \<open>Privileges and rules\<close>

type_synonym Privilege = "16 word"

definition Disclose :: Privilege where "Disclose = push_bit 0 1"
definition Auth :: Privilege where "Auth = push_bit 1 1"
definition Compare_privilege :: Privilege where "Compare_privilege = push_bit 2 1"
definition Search :: Privilege where "Search = push_bit 3 1"
definition Read :: Privilege where "Read = push_bit 4 1"
definition WriteAdd :: Privilege where "WriteAdd = push_bit 5 1"
definition WriteDelete :: Privilege where "WriteDelete = push_bit 6 1"
definition Manage :: Privilege where "Manage = push_bit 7 1"

definition Write :: Privilege where "Write = (WriteAdd OR WriteDelete)"

definition NoneLevel :: Privilege where "NoneLevel = 0"
definition DiscloseLevel :: Privilege where "DiscloseLevel = Disclose"
definition AuthLevel :: Privilege where "AuthLevel = (DiscloseLevel OR Auth)"
definition CompareLevel :: Privilege where "CompareLevel = (AuthLevel OR Compare_privilege)"
definition SearchLevel :: Privilege where "SearchLevel = (CompareLevel OR Search)"
definition ReadLevel :: Privilege where "ReadLevel = (SearchLevel OR Read)"
definition WriteLevel :: Privilege where "WriteLevel = (ReadLevel OR WriteAdd OR WriteDelete)"
definition ManageLevel :: Privilege where "ManageLevel = (WriteLevel OR Manage)"

datatype Control = ControlStop | ControlContinue | ControlBreak

datatype grantMode = grantSet | grantAdd | grantRemove | grantIdentity

record Grant =
  g_Mode :: grantMode
  g_Privileges :: Privilege
  g_SelfValue :: bool
  g_RealSelfValue :: bool

datatype DNStyle = DNAny | DNExact | DNOne | DNSubtree | DNChildren | DNLevel | DNRegex

record DNMatcher =
  dm_Style :: DNStyle
  dm_DN :: DN
  dm_Pattern :: "regex option"
  dm_Raw :: bytes
  dm_Expand :: bool
  dm_Level :: int

record ValueSelector =
  vs_Style :: DNStyle
  vs_MatchingRule :: bytes
  vs_Assertion :: bytes
  vs_Pattern :: "regex option"

record TargetSelector =
  ts_DN :: DNMatcher
  ts_Attributes :: "bytes list"
  ts_Filter :: "Filter option"
  ts_Value :: "ValueSelector option"

datatype WhoKind =
    WhoAny | WhoAnonymous | WhoUsers | WhoSelf | WhoDN | WhoDNAttribute | WhoGroup | WhoPeerName
  | WhoSockName | WhoDomain | WhoSockURL | WhoSet | WhoACI | WhoSSF

datatype StringStyle = StringExact | StringRegex | StringSubtree | StringIP | StringIPv6 | StringPath

record StringMatcher =
  sm_Style :: StringStyle
  sm_Value :: bytes
  sm_Pattern :: "regex option"
  sm_Expand :: bool

datatype SSFKind = SSFOverall | SSFTransport | SSFTLS | SSFSASL

record WhoMatcher =
  w_Kind :: WhoKind
  w_Real :: bool
  w_DN :: DNMatcher
  w_Attribute :: bytes
  w_GroupObjectClass :: bytes
  w_GroupAttribute :: bytes
  w_GroupPattern :: bytes
  w_GroupExpand :: bool
  w_Connection :: StringMatcher
  w_SetPattern :: bytes
  w_SetExpand :: bool
  w_ACIAttribute :: bytes
  w_SelfLevel :: int
  w_SSFKind :: SSFKind
  w_MinimumSSF :: int

record ByClause =
  by_Who :: "WhoMatcher list"
  by_Grant :: Grant
  by_Control :: Control

record Rule =
  ru_Order :: int
  ru_Target :: TargetSelector
  ru_By :: "ByClause list"
  ru_Raw :: bytes

record Subject =
  s_DN :: bytes
  s_RealDN :: bytes
  s_PeerName :: bytes
  s_SockName :: bytes
  s_Domain :: bytes
  s_SockURL :: bytes
  s_SSF :: int
  s_TransportSSF :: int
  s_TLSSSF :: int
  s_SASLSSF :: int

text \<open>The schema and the normaliser are interfaces; their methods are fields.\<close>

record TargetSchema =
  sch_matcher :: matcher
  AttributeValues :: "Entry \<Rightarrow> bytes \<Rightarrow> bytes list"
  AttributeDescriptionSubtype :: "bytes \<Rightarrow> bytes \<Rightarrow> bool"
  EntryHasObjectClass :: "Entry \<Rightarrow> bytes \<Rightarrow> bool"
  ObjectClassAllowsAttribute :: "bytes \<Rightarrow> bytes \<Rightarrow> bool \<times> bool"
  HasAttributeType :: "bytes \<Rightarrow> bool"
  IsOperational :: "bytes \<Rightarrow> bool"
  IsDNValued :: "bytes \<Rightarrow> bool"
  IsDNReferenceValued :: "bytes \<Rightarrow> bool"
  IsACIValued :: "bytes \<Rightarrow> bool"
  NormalizeEqualityValue :: "bytes \<Rightarrow> bytes \<Rightarrow> bytes option"

record acl_normalizer =
  an_normalizer :: normalizer
  ParseDNIdentity :: "(bytes \<Rightarrow> dn_error + DN) option"

record Target =
  t_Entry :: Entry
  t_Attribute :: bytes
  t_Value :: "bytes option"
  t_DNValued :: bool
  t_Schema :: "TargetSchema option"
  t_DNNormalizer :: "acl_normalizer option"

record matchContext =
  mc_dn :: "bytes list"
  mc_value :: "bytes list"

text \<open>
  The entry reader: \<open>Get\<close>, and the entries that its \<open>ForEach\<close> visits when it has one.
\<close>

record EntryReader =
  er_Get :: "DN \<Rightarrow> Entry option"
  er_ForEach :: "Entry list option"

record databaseRules =
  db_Suffix :: DN
  db_Rules :: "Rule list"
  db_AddContentACL :: bool

record Policy =
  p_global :: "Rule list"
  p_databases :: "databaseRules list"

section \<open>Errors that are taken as a value\<close>

text \<open>A call whose error is looked at: \<open>Some None\<close> is the error, \<open>None\<close> the panic.\<close>

fun attempt :: "('e, 'a) go \<Rightarrow> 'a option option" where
  "attempt (Ok x) = Some (Some x)"
| "attempt (Err e) = Some None"
| "attempt Panic = None"

definition on_success :: "('e, 'a) go \<Rightarrow> ('a \<Rightarrow> bool option) \<Rightarrow> bool option" where
  "on_success m f = (case m of Ok x \<Rightarrow> f x | Err _ \<Rightarrow> Some False | Panic \<Rightarrow> None)"

section \<open>Expansion of patterns\<close>

definition IndexByte :: "bytes \<Rightarrow> char \<Rightarrow> nat option" where
  "IndexByte s c = (if c \<in> set s then Some (length (takeWhile (\<lambda>x. x \<noteq> c) s)) else None)"

definition aclExpansionReference :: "bytes \<Rightarrow> (bool \<times> nat) option" where
  "aclExpansionReference token0 =
     (let valueMatches = HasPrefix token0 ''v'';
          token = (if valueMatches then tl token0 else if HasPrefix token0 ''d'' then tl token0 else token0) in
      if token = [] then None
      else case ParseInt token of None \<Rightarrow> None
        | Some index \<Rightarrow> if index < 0 then None else Some (valueMatches, nat index))"

fun hasACLExpansion :: "bytes \<Rightarrow> bool" where
  "hasACLExpansion [] = False"
| "hasACLExpansion (c # rest) =
     (if c \<noteq> CHR ''$'' \<or> rest = [] then hasACLExpansion rest
      else if is_digit (hd rest) then True
      else if hd rest \<noteq> CHR ''{'' then hasACLExpansion rest
      else case Cut (CHR ''}'') (tl rest) of (token, _, found) \<Rightarrow>
        if found \<and> aclExpansionReference token \<noteq> None then True else hasACLExpansion rest)"

definition appendACLExpansion :: "bytes list \<Rightarrow> nat \<Rightarrow> bytes" where
  "appendACLExpansion matches index = (if index < length matches then matches ! index else [])"

function expandACLPattern :: "bytes \<Rightarrow> matchContext \<Rightarrow> bytes option" where
  "expandACLPattern [] context = Some []"
| "expandACLPattern (c # rest) context =
     (if c \<noteq> CHR ''$'' \<or> rest = [] then map_option ((#) c) (expandACLPattern rest context)
      else if hd rest = CHR ''$'' then map_option ((#) (CHR ''$'')) (expandACLPattern (tl rest) context)
      else if is_digit (hd rest) then
        map_option ((@) (appendACLExpansion (mc_dn context) (ord (hd rest) - 48))) (expandACLPattern (tl rest) context)
      else if hd rest \<noteq> CHR ''{'' then map_option ((#) (CHR ''$'')) (expandACLPattern rest context)
      else case Cut (CHR ''}'') (tl rest) of (token, after, found) \<Rightarrow>
        if \<not> found then None
        else case aclExpansionReference token of None \<Rightarrow> None
          | Some (valueMatches, index) \<Rightarrow>
              map_option ((@) (appendACLExpansion (if valueMatches then mc_value context else mc_dn context) index))
                (expandACLPattern after context))"
  by pat_completeness auto
termination
  by (relation "measure (length \<circ> fst)") (auto simp: Cut_def Let_def split: if_splits)

section \<open>Names\<close>

definition parseACLDN :: "acl_env \<Rightarrow> bytes \<Rightarrow> acl_normalizer option \<Rightarrow> (dn_error, DN) go" where
  "parseACLDN E raw normalizer =
     (case normalizer of
        Some N \<Rightarrow> (case ParseDNIdentity N of
            Some parser \<Rightarrow> (case parser raw of Inl e \<Rightarrow> Err e | Inr dn \<Rightarrow> Ok dn)
          | None \<Rightarrow> ParseDNWithNormalizer (acl_lib E) (acl_unicode E) raw (Some (an_normalizer N)))
      | None \<Rightarrow> ParseDN (acl_lib E) (acl_unicode E) raw)"

definition normalizeACLDN :: "acl_env \<Rightarrow> DN \<Rightarrow> acl_normalizer option \<Rightarrow> (dn_error, DN) go" where
  "normalizeACLDN E dn normalizer =
     (if normalizer = None then Ok dn else parseACLDN E (DN_String dn) normalizer)"

text \<open>Ancestors; the inner \<open>None\<close> is the result false.\<close>

fun dn_ancestor :: "acl_env \<Rightarrow> bool \<Rightarrow> DN \<Rightarrow> nat \<Rightarrow> DN option option" where
  "dn_ancestor E root dn 0 = Some (Some dn)"
| "dn_ancestor E root dn (Suc n) = do {
     (parent, ok) \<leftarrow> Parent (acl_lib E) (acl_unicode E) dn;
     if \<not> ok then Some None
     else if root then dn_ancestor E root parent n
     else do {
       depth \<leftarrow> Depth parent;
       if depth = 0 then Some None else dn_ancestor E root parent n } }"

definition dnAncestor :: "acl_env \<Rightarrow> DN \<Rightarrow> int \<Rightarrow> DN option option" where
  "dnAncestor E dn level = do {
     ancestor \<leftarrow> dn_ancestor E False dn (nat level);
     case ancestor of None \<Rightarrow> Some None
     | Some a \<Rightarrow> do { depth \<leftarrow> Depth a; Some (if 0 < depth then Some a else None) } }"

definition dnAncestorAllowRoot :: "acl_env \<Rightarrow> DN \<Rightarrow> int \<Rightarrow> DN option option" where
  "dnAncestorAllowRoot E dn level = dn_ancestor E True dn (nat level)"

definition matchesDN :: "acl_env \<Rightarrow> DNMatcher \<Rightarrow> DN \<Rightarrow> bool option" where
  "matchesDN E matcher candidate =
     (let L = acl_lib E; dn = dm_DN matcher in
      case dm_Style matcher of
        DNAny \<Rightarrow> Some True
      | DNExact \<Rightarrow> Equal L dn candidate
      | DNOne \<Rightarrow> do {
          ancestor \<leftarrow> AncestorOf L dn candidate;
          if \<not> ancestor then Some False
          else do { c \<leftarrow> Depth candidate; d \<leftarrow> Depth dn; Some (c = d + 1) } }
      | DNSubtree \<Rightarrow> do {
          equal \<leftarrow> Equal L dn candidate;
          if equal then Some True else AncestorOf L dn candidate }
      | DNChildren \<Rightarrow> AncestorOf L dn candidate
      | DNLevel \<Rightarrow> do {
          ancestor \<leftarrow> dnAncestor E candidate (dm_Level matcher);
          case ancestor of None \<Rightarrow> Some False | Some a \<Rightarrow> Equal L dn a }
      | DNRegex \<Rightarrow> Some (case dm_Pattern matcher of None \<Rightarrow> False | Some p \<Rightarrow> MatchString p (Key candidate)))"

definition matchesExpandedDN :: "acl_env \<Rightarrow> DNMatcher \<Rightarrow> DN \<Rightarrow> matchContext \<Rightarrow> bool option" where
  "matchesExpandedDN E matcher candidate context =
     (if dm_Style matcher = DNRegex then
        (case (dm_Raw matcher = [], dm_Pattern matcher) of
           (True, Some p) \<Rightarrow> Some (MatchString p (Key candidate))
         | _ \<Rightarrow> Some (case expandACLPattern (dm_Raw matcher) context of None \<Rightarrow> False
             | Some expanded \<Rightarrow> (case regexp_Compile E (''(?i)'' @ expanded) of None \<Rightarrow> False
                 | Some p \<Rightarrow> MatchString p (Key candidate))))
      else if \<not> dm_Expand matcher then matchesDN E matcher candidate
      else case expandACLPattern (dm_Raw matcher) context of None \<Rightarrow> Some False
        | Some expanded \<Rightarrow> on_success (ParseDN (acl_lib E) (acl_unicode E) expanded) (\<lambda>dn.
            matchesDN E (matcher\<lparr>dm_DN := dn\<rparr>) candidate))"

definition compileACLRegex :: "acl_env \<Rightarrow> bytes \<Rightarrow> regex option" where
  "compileACLRegex E pattern = regexp_Compile E (''(?i)'' @ pattern)"

definition matchesExpandedACLDN ::
  "acl_env \<Rightarrow> DNMatcher \<Rightarrow> DN \<Rightarrow> matchContext \<Rightarrow> acl_normalizer option \<Rightarrow> bool option" where
  "matchesExpandedACLDN E matcher candidate context normalizer =
     (if normalizer = None then matchesExpandedDN E matcher candidate context
      else if dm_Style matcher = DNRegex then
        (case (dm_Raw matcher = [], dm_Pattern matcher) of
           (True, Some p) \<Rightarrow> Some (MatchString p (NormalizedString candidate))
         | _ \<Rightarrow> Some (case expandACLPattern (dm_Raw matcher) context of None \<Rightarrow> False
             | Some expanded \<Rightarrow> (case compileACLRegex E expanded of None \<Rightarrow> False
                 | Some p \<Rightarrow> MatchString p (NormalizedString candidate))))
      else if dm_Expand matcher then
        (case expandACLPattern (dm_Raw matcher) context of None \<Rightarrow> Some False
         | Some expanded \<Rightarrow> on_success (parseACLDN E expanded normalizer) (\<lambda>dn.
             matchesDN E (matcher\<lparr>dm_DN := dn\<rparr>) candidate))
      else on_success (normalizeACLDN E (dm_DN matcher) normalizer) (\<lambda>dn.
        matchesDN E (matcher\<lparr>dm_DN := dn\<rparr>) candidate))"

definition matchesSelfLevel :: "acl_env \<Rightarrow> bytes \<Rightarrow> DN \<Rightarrow> int \<Rightarrow> acl_normalizer option \<Rightarrow> bool option" where
  "matchesSelfLevel E rawSubject target level normalizer =
     (if rawSubject = [] then Some False
      else on_success (parseACLDN E rawSubject normalizer) (\<lambda>subject.
        if level < 0 then do {
          ancestor \<leftarrow> dnAncestor E target (- level);
          case ancestor of None \<Rightarrow> Some False | Some a \<Rightarrow> Equal (acl_lib E) subject a }
        else do {
          ancestor \<leftarrow> dnAncestor E subject level;
          case ancestor of None \<Rightarrow> Some False | Some a \<Rightarrow> Equal (acl_lib E) a target }))"

definition valueIsSubjectDN :: "acl_env \<Rightarrow> bytes option \<Rightarrow> bytes \<Rightarrow> acl_normalizer option \<Rightarrow> bool option" where
  "valueIsSubjectDN E v rawSubject normalizer =
     (case v of None \<Rightarrow> Some False
      | Some text \<Rightarrow>
          if text = [] \<or> rawSubject = [] then Some False
          else do {
            valueDN \<leftarrow> attempt (parseACLDN E text normalizer);
            subjectDN \<leftarrow> attempt (parseACLDN E rawSubject normalizer);
            case (valueDN, subjectDN) of (Some a, Some b) \<Rightarrow> Equal (acl_lib E) a b | _ \<Rightarrow> Some False })"

definition acl_values :: "acl_env \<Rightarrow> TargetSchema option \<Rightarrow> Entry \<Rightarrow> bytes \<Rightarrow> bytes list" where
  "acl_values E schema entry attribute =
     (case schema of Some s \<Rightarrow> AttributeValues s entry attribute | None \<Rightarrow> entry_Values (acl_unicode E) entry attribute)"

fun contains_dn ::
  "acl_env \<Rightarrow> bytes \<Rightarrow> bytes \<Rightarrow> DN \<Rightarrow> TargetSchema option \<Rightarrow> acl_normalizer option \<Rightarrow> bytes list \<Rightarrow> bool option" where
  "contains_dn E attribute rawDN subjectDN schema normalizer [] = Some False"
| "contains_dn E attribute rawDN subjectDN schema normalizer (v # vs) = do {
     candidate \<leftarrow> attempt (parseACLDN E v normalizer);
     same \<leftarrow> (case candidate of
        Some dn \<Rightarrow> Equal (acl_lib E) dn subjectDN
      | None \<Rightarrow> Some (case schema of None \<Rightarrow> False
          | Some s \<Rightarrow> Compare (sch_matcher s) attribute [] v rawDN = Inr 0));
     if same then Some True else contains_dn E attribute rawDN subjectDN schema normalizer vs }"

definition entryContainsDNWithNormalizer ::
  "acl_env \<Rightarrow> Entry \<Rightarrow> bytes \<Rightarrow> bytes \<Rightarrow> TargetSchema option \<Rightarrow> acl_normalizer option \<Rightarrow> bool option" where
  "entryContainsDNWithNormalizer E entry attribute rawDN schema normalizer =
     (if rawDN = [] then Some False
      else on_success (parseACLDN E rawDN normalizer) (\<lambda>subjectDN.
        contains_dn E attribute rawDN subjectDN schema normalizer (acl_values E schema entry attribute)))"

definition entryContainsDN :: "acl_env \<Rightarrow> Entry \<Rightarrow> bytes \<Rightarrow> bytes \<Rightarrow> TargetSchema option \<Rightarrow> bool option" where
  "entryContainsDN E entry attribute rawDN schema = entryContainsDNWithNormalizer E entry attribute rawDN schema None"

section \<open>Targets\<close>

definition acl_matcher :: "acl_env \<Rightarrow> TargetSchema option \<Rightarrow> matcher" where
  "acl_matcher E schema = (case schema of Some s \<Rightarrow> sch_matcher s | None \<Rightarrow> BasicMatcher (acl_unicode E))"

definition acl_text :: "acl_normalizer option \<Rightarrow> DN \<Rightarrow> bytes" where
  "acl_text normalizer dn = (if normalizer = None then Key dn else NormalizedString dn)"

text \<open>The inner option is the match: its captures, or no match.\<close>

definition targetDNMatches ::
  "acl_env \<Rightarrow> DNMatcher \<Rightarrow> DN \<Rightarrow> acl_normalizer option \<Rightarrow> bytes list option option" where
  "targetDNMatches E matcher candidate normalizer =
     (if dm_Style matcher = DNRegex then
        Some (case dm_Pattern matcher of None \<Rightarrow> None | Some p \<Rightarrow> p (acl_text normalizer candidate))
      else do {
        dn \<leftarrow> attempt (normalizeACLDN E (dm_DN matcher) normalizer);
        case dn of None \<Rightarrow> Some None
        | Some d \<Rightarrow> do {
            matched \<leftarrow> matchesDN E (matcher\<lparr>dm_DN := d\<rparr>) candidate;
            if \<not> matched then Some None
            else Some (Some (acl_text normalizer candidate #
              (if dm_Style matcher \<in> {DNOne, DNSubtree, DNChildren} then [acl_text normalizer d] else []))) } })"

text \<open>One selector of a rule's attributes.\<close>

definition selector_matches :: "acl_env \<Rightarrow> Target \<Rightarrow> bytes \<Rightarrow> bool" where
  "selector_matches E target selector =
     (let attribute = t_Attribute target;
          classed = (\<lambda>s wanted. case ObjectClassAllowsAttribute s (tl selector) attribute of (allowed, known) \<Rightarrow>
            known \<and> (allowed = wanted)) in
      if selector = ''*'' then (case t_Schema target of None \<Rightarrow> True | Some s \<Rightarrow> \<not> IsOperational s attribute)
      else if selector = ''+'' then (case t_Schema target of None \<Rightarrow> False | Some s \<Rightarrow> IsOperational s attribute)
      else if HasPrefix selector ''-'' then EqualFold (acl_unicode E) (tl selector) attribute
      else if HasPrefix selector ''@'' \<or> HasPrefix selector ''+'' \<and> 1 < length selector then
        (case t_Schema target of None \<Rightarrow> False | Some s \<Rightarrow> classed s True)
      else if HasPrefix selector ''!'' then
        (case t_Schema target of None \<Rightarrow> False | Some s \<Rightarrow> classed s False)
      else case t_Schema target of
        None \<Rightarrow> EqualFold (acl_unicode E) selector attribute
      | Some s \<Rightarrow> AttributeDescriptionSubtype s attribute selector \<or>
          (\<not> HasAttributeType s selector \<and>
             (case ObjectClassAllowsAttribute s selector attribute of (allowed, known) \<Rightarrow> known \<and> allowed)))"

definition matchesTargetAttribute :: "acl_env \<Rightarrow> bytes list \<Rightarrow> Target \<Rightarrow> bool" where
  "matchesTargetAttribute E attributes target = list_ex (selector_matches E target) attributes"

definition targetIsDNValued :: "Target \<Rightarrow> bool" where
  "targetIsDNValued target =
     (case t_Schema target of Some s \<Rightarrow> IsDNValued s (t_Attribute target) | None \<Rightarrow> t_DNValued target)"

definition matchTargetValue :: "acl_env \<Rightarrow> ValueSelector \<Rightarrow> Target \<Rightarrow> (bool \<times> bytes list) option" where
  "matchTargetValue E selector target =
     (case (t_Value target, t_Schema target) of
        (None, _) \<Rightarrow> Some (False, [])
      | (Some v, schema) \<Rightarrow>
          (case (case schema of Some s \<Rightarrow> NormalizeEqualityValue s (t_Attribute target) v | None \<Rightarrow> Some v) of
             None \<Rightarrow> Some (False, [])
           | Some candidateValue \<Rightarrow>
               if vs_Style selector = DNRegex then
                 Some (case vs_Pattern selector of None \<Rightarrow> (False, [])
                   | Some p \<Rightarrow> (case p candidateValue of None \<Rightarrow> (False, []) | Some captures \<Rightarrow> (True, captures)))
               else if targetIsDNValued target then do {
                 candidate \<leftarrow> attempt (parseACLDN E candidateValue (t_DNNormalizer target));
                 assertion \<leftarrow> attempt (parseACLDN E (vs_Assertion selector) (t_DNNormalizer target));
                 case (candidate, assertion) of
                   (Some c, Some a) \<Rightarrow> do {
                     matched \<leftarrow> matchesDN E \<lparr>dm_Style = vs_Style selector, dm_DN = a, dm_Pattern = None,
                       dm_Raw = [], dm_Expand = False, dm_Level = 0\<rparr> c;
                     Some (matched, []) }
                 | _ \<Rightarrow> Some (False, []) }
               else if vs_Style selector \<noteq> DNExact then Some (False, [])
               else Some (Compare (acl_matcher E schema) (t_Attribute target) (vs_MatchingRule selector)
                   candidateValue (vs_Assertion selector) = Inr 0, [])))"

definition matchTarget :: "acl_env \<Rightarrow> TargetSelector \<Rightarrow> Target \<Rightarrow> DN \<Rightarrow> matchContext option option" where
  "matchTarget E selector target targetDN = do {
     dnMatches \<leftarrow> targetDNMatches E (ts_DN selector) targetDN (t_DNNormalizer target);
     case dnMatches of None \<Rightarrow> Some None
     | Some captures \<Rightarrow>
         if ts_Attributes selector \<noteq> [] \<and> \<not> matchesTargetAttribute E (ts_Attributes selector) target then Some None
         else do {
           (valueMatched, valueMatches) \<leftarrow> (case ts_Value selector of None \<Rightarrow> Some (True, [])
             | Some v \<Rightarrow> matchTargetValue E v target);
           if \<not> valueMatched then Some None
           else do {
             filtered \<leftarrow> (case ts_Filter selector of None \<Rightarrow> Some True
               | Some f \<Rightarrow> on_success (MatchWith (acl_unicode E) (acl_matcher E (t_Schema target)) (t_Entry target) f) Some);
             Some (if filtered then Some \<lparr>mc_dn = captures, mc_value = valueMatches\<rparr> else None) } } }"

definition matchesTarget :: "acl_env \<Rightarrow> TargetSelector \<Rightarrow> Target \<Rightarrow> DN \<Rightarrow> bool option" where
  "matchesTarget E selector target targetDN =
     map_option (\<lambda>matched. matched \<noteq> None) (matchTarget E selector target targetDN)"

end
