(* ===== verification/ACL_Sets.thy ===== *)
theory ACL_Sets
  imports ACL_Model
begin

text \<open>
  Set expressions of access rules: the parser and the evaluator of \<open>src/internal/acl/set.go\<close>, and
  the schema-aware evaluator of \<open>policy.go\<close>. A \<open>map[string]struct{}\<close> is a finite set, a map with
  values a finite map.
\<close>

section \<open>Expressions\<close>

definition maxACLSetValues :: nat where "maxACLSetValues = 10000"

datatype setExpression =
    setLiteral bytes | setUser | setThis
  | setUnion setExpression setExpression | setIntersection setExpression setExpression
  | setConcat setExpression setExpression
  | setChase setExpression bytes bool
  | setParents setExpression nat bool

datatype set_error =
    InvalidSetExpression | InvalidSetOperator | MissingSetOperand | SetTooDeep | UnterminatedSet
  | UnterminatedLiteral | UnknownSetOperand | InvalidParentLevel | ParentLevelTooLarge | ChaseNeedsAttribute
  | SetTooLarge | ChaseTooLarge

section \<open>Parsing\<close>

text \<open>\<open>unicode.IsLetter\<close> and \<open>unicode.IsDigit\<close> of a byte taken as a code point.\<close>

definition latin_letter :: "char \<Rightarrow> bool" where
  "latin_letter c \<longleftrightarrow> (let n = ord c in 65 \<le> n \<and> n \<le> 90 \<or> 97 \<le> n \<and> n \<le> 122 \<or> n = 170 \<or> n = 181 \<or> n = 186 \<or>
     192 \<le> n \<and> n \<noteq> 215 \<and> n \<noteq> 247)"

definition set_identifier_char :: "char \<Rightarrow> bool" where
  "set_identifier_char c \<longleftrightarrow> latin_letter c \<or> is_digit c \<or> c = CHR ''-'' \<or> c = CHR ''.'' \<or> c = CHR '';''"

text \<open>
  The parser keeps its input and a position in it. Every byte is read with \<open>go_index\<close> and every
  slice is cut with \<open>go_slice\<close>, so a read behind the end is a panic; \<open>byte_at\<close> is the test
  \<open>position < len(input) && ...\<close> that the source puts in front of its reads.
\<close>

definition byte_at :: "bytes \<Rightarrow> nat \<Rightarrow> (char \<Rightarrow> bool) \<Rightarrow> (set_error, bool) go" where
  "byte_at input p P = go_and (p < length input) (go_bind (go_index p input) (\<lambda>c. Ok (P c)))"

text \<open>The loops that move the position over the bytes of a class.\<close>

function scan_while :: "(char \<Rightarrow> bool) \<Rightarrow> bytes \<Rightarrow> nat \<Rightarrow> (set_error, nat) go" where
  "scan_while P input p =
     (case byte_at input p P of
        Ok inside \<Rightarrow> if inside then scan_while P input (p + 1) else Ok p
      | Err e \<Rightarrow> Err e | Panic \<Rightarrow> Panic)"
  by pat_completeness auto
termination
  by (relation "measure (\<lambda>(P, input, p). length input - p)")
    (auto simp: byte_at_def go_and_def go_index_def split: if_splits)

declare scan_while.simps [simp del]

definition skipSpace :: "bytes \<Rightarrow> nat \<Rightarrow> (set_error, nat) go" where
  "skipSpace = scan_while (\<lambda>c. is_space (ord c))"

definition parseIdentifier :: "bytes \<Rightarrow> nat \<Rightarrow> (set_error, bytes \<times> nat) go" where
  "parseIdentifier input p =
     go_bind (scan_while set_identifier_char input p) (\<lambda>q.
     go_bind (go_of_option (go_slice p q input)) (\<lambda>identifier. Ok (identifier, q)))"

fun parent_level :: "nat \<Rightarrow> bytes \<Rightarrow> (set_error, nat) go" where
  "parent_level level [] = Ok level"
| "parent_level level (digit # digits) =
     (let level' = level * 10 + (ord digit - 48) in
      if level' > 10000 then Err ParentLevelTooLarge else parent_level level' digits)"

text \<open>One step behind \<open>->\<close> or \<open>/\<close>: parents, or the values of an attribute.\<close>

definition parse_parents :: "setExpression \<Rightarrow> bytes \<Rightarrow> nat \<Rightarrow> (set_error, setExpression \<times> nat) go" where
  "parse_parents expression input p =
     go_bind (byte_at input p (\<lambda>c. c = CHR ''*'')) (\<lambda>every.
     if every then Ok (setParents expression 0 True, p + 1)
     else
       go_bind (scan_while is_digit input p) (\<lambda>q.
       if p = q then Err InvalidParentLevel
       else
         go_bind (go_of_option (go_slice p q input)) (\<lambda>digits.
         go_bind (parent_level 0 digits) (\<lambda>level. Ok (setParents expression level False, q)))))"

definition parse_step :: "setExpression \<Rightarrow> bytes \<Rightarrow> nat \<Rightarrow> (set_error, setExpression \<times> nat) go" where
  "parse_step expression input p =
     go_bind (byte_at input p (\<lambda>c. c = CHR ''-'')) (\<lambda>parents.
     if parents then parse_parents expression input (p + 1)
     else
       go_bind (parseIdentifier input p) (\<lambda>(attribute, q).
       if attribute = [] then Err ChaseNeedsAttribute
       else
         go_bind (byte_at input q (\<lambda>c. c = CHR ''*'')) (\<lambda>closure.
           Ok (setChase expression attribute closure, if closure then q + 1 else q))))"

text \<open>Whether a step begins at a position that is not the end, and where it goes on.\<close>

definition step_start :: "bytes \<Rightarrow> nat \<Rightarrow> (set_error, nat option) go" where
  "step_start input p =
     go_bind (go_of_option (go_slice p (length input) input)) (\<lambda>rest.
     if HasPrefix rest ''->'' then Ok (Some (p + 2))
     else go_bind (go_index p input) (\<lambda>c. Ok (if c = CHR ''/'' then Some (p + 1) else None)))"

lemma scan_while_forward: "scan_while P input p = Ok q \<Longrightarrow> p \<le> q"
proof (induction P input p rule: scan_while.induct)
  case (1 P input p)
  from "1.prems" show ?case
    by (subst (asm) scan_while.simps) (auto split: go.splits if_splits dest!: "1.IH")
qed

lemma parse_step_forward: "parse_step expression input p = Ok (e, q) \<Longrightarrow> p \<le> q"
  by (auto simp: parse_step_def parse_parents_def parseIdentifier_def split: if_splits
      dest!: scan_while_forward)

lemma step_start_forward: "step_start input p = Ok (Some q) \<Longrightarrow> p < q"
  by (auto simp: step_start_def split: if_splits)

function chase_steps :: "setExpression \<Rightarrow> bytes \<Rightarrow> nat \<Rightarrow> (set_error, setExpression \<times> nat) go" where
  "chase_steps expression input p0 =
     (case skipSpace input p0 of
        Ok p \<Rightarrow>
          if length input \<le> p then Ok (expression, p)
          else (case step_start input p of
              Ok None \<Rightarrow> Ok (expression, p)
            | Ok (Some q) \<Rightarrow> (case parse_step expression input q of
                  Ok (e, r) \<Rightarrow> chase_steps e input r
                | Err err \<Rightarrow> Err err | Panic \<Rightarrow> Panic)
            | Err err \<Rightarrow> Err err | Panic \<Rightarrow> Panic)
      | Err err \<Rightarrow> Err err | Panic \<Rightarrow> Panic)"
  by pat_completeness auto
termination
  by (relation "measure (\<lambda>(expression, input, p). length input - p)")
    (auto simp: skipSpace_def dest!: scan_while_forward parse_step_forward step_start_forward)

declare chase_steps.simps [simp del]

text \<open>
  The parser of expressions calls itself through the parser of operands, as often as the input has
  operators: \<open>None\<close> is a call that does not return, and \<open>run_then\<close> goes on after one that does.
\<close>

definition run_then ::
  "('e, 'a) go option \<Rightarrow> ('a \<Rightarrow> ('e, 'b) go option) \<Rightarrow> ('e, 'b) go option" where
  "run_then m f = Option.bind m (\<lambda>r. case r of Ok x \<Rightarrow> f x | Err e \<Rightarrow> Some (Err e) | Panic \<Rightarrow> Some Panic)"

lemma run_then_simps [simp]:
  "run_then None f = None" "run_then (Some (Ok x)) f = f x"
  "run_then (Some (Err e)) f = Some (Err e)" "run_then (Some Panic) f = Some Panic"
  by (simp_all add: run_then_def)

lemma run_then_mono [partial_function_mono]:
  assumes "mono_option A" "\<And>y. mono_option (\<lambda>f. B y f)"
  shows "mono_option (\<lambda>f. run_then (A f) (\<lambda>y. B y f))"
  unfolding run_then_def
proof (rule bind_mono [OF assms(1)])
  show "mono_option (\<lambda>f. case r of Ok x \<Rightarrow> B x f | Err e \<Rightarrow> Some (Err e) | Panic \<Rightarrow> Some Panic)" for r
    by (cases r) (simp_all add: assms(2) option.const_mono)
qed

text \<open>The test at the head of the loop over operators, and the operator.\<close>

definition at_terminator :: "bytes \<Rightarrow> nat \<Rightarrow> char \<Rightarrow> (set_error, bool) go" where
  "at_terminator input p terminator =
     (if length input \<le> p then Ok True
      else go_and (terminator \<noteq> CHR 0x00) (go_bind (go_index p input) (\<lambda>c. Ok (c = terminator))))"

definition operator_kind ::
  "bytes \<Rightarrow> nat \<Rightarrow> (set_error, setExpression \<Rightarrow> setExpression \<Rightarrow> setExpression) go" where
  "operator_kind input p =
     go_bind (go_index p input) (\<lambda>operator.
       if operator = CHR ''|'' then Ok setUnion
       else if operator = CHR ''&'' then Ok setIntersection
       else if operator = CHR ''+'' then Ok setConcat
       else Err InvalidSetOperator)"

partial_function (option) operator_loop ::
  "(nat \<Rightarrow> (set_error, setExpression \<times> nat) go option) \<Rightarrow> bytes \<Rightarrow> char \<Rightarrow> setExpression \<Rightarrow> nat \<Rightarrow>
   (set_error, setExpression \<times> nat) go option" where
  "operator_loop operand input terminator left p0 =
     run_then (Some (skipSpace input p0)) (\<lambda>p.
     run_then (Some (at_terminator input p terminator)) (\<lambda>stop.
       if stop then Some (Ok (left, p))
       else
         run_then (Some (operator_kind input p)) (\<lambda>kind.
         run_then (operand (p + 1)) (\<lambda>(right, q).
           operator_loop operand input terminator (kind left right) q))))"

definition parse_expression ::
  "(nat \<Rightarrow> (set_error, setExpression \<times> nat) go option) \<Rightarrow> bytes \<Rightarrow> char \<Rightarrow> nat \<Rightarrow>
   (set_error, setExpression \<times> nat) go option" where
  "parse_expression operand input terminator p =
     run_then (operand p) (\<lambda>(left, q). operator_loop operand input terminator left q)"

text \<open>An operand in brackets, with the parser of the operands inside.\<close>

definition close_bracket :: "bytes \<Rightarrow> setExpression \<Rightarrow> nat \<Rightarrow> (set_error, setExpression \<times> nat) go" where
  "close_bracket input expression q0 =
     go_bind (skipSpace input q0) (\<lambda>q.
     go_bind (if length input \<le> q then Ok True else go_bind (go_index q input) (\<lambda>c. Ok (c \<noteq> CHR '')'')))
       (\<lambda>unterminated. if unterminated then Err UnterminatedSet else Ok (expression, q + 1)))"

definition parse_bracket ::
  "(nat \<Rightarrow> (set_error, setExpression \<times> nat) go option) \<Rightarrow> bytes \<Rightarrow> nat \<Rightarrow>
   (set_error, setExpression \<times> nat) go option" where
  "parse_bracket operand input p =
     run_then (parse_expression operand input (CHR '')'') (p + 1))
       (\<lambda>(expression, q0). Some (close_bracket input expression q0))"

definition parse_literal :: "bytes \<Rightarrow> nat \<Rightarrow> (set_error, setExpression \<times> nat) go" where
  "parse_literal input p =
     go_bind (go_of_option (go_slice (p + 1) (length input) input)) (\<lambda>rest.
       case IndexByte rest (CHR '']'') of
         None \<Rightarrow> Err UnterminatedLiteral
       | Some i \<Rightarrow>
           let close = i + (p + 1) in
           go_bind (go_of_option (go_slice (p + 1) close input)) (\<lambda>literal. Ok (setLiteral literal, close + 1)))"

definition parse_name :: "bytes \<Rightarrow> nat \<Rightarrow> (set_error, setExpression \<times> nat) go" where
  "parse_name input p =
     go_bind (parseIdentifier input p) (\<lambda>(identifier, q).
       if identifier = ''user'' then Ok (setUser, q)
       else if identifier = ''this'' then Ok (setThis, q)
       else Err UnknownSetOperand)"

text \<open>The parser of operands, with the number of nesting levels that are left.\<close>

fun parseOperand :: "nat \<Rightarrow> bytes \<Rightarrow> nat \<Rightarrow> (set_error, setExpression \<times> nat) go option" where
  "parseOperand levels input p0 =
     run_then (Some (skipSpace input p0)) (\<lambda>p.
     if length input \<le> p then Some (Err MissingSetOperand)
     else
       run_then (Some (go_index p input)) (\<lambda>c.
       run_then
         (if c = CHR ''('' then
            (case levels of 0 \<Rightarrow> Some (Err SetTooDeep)
             | Suc levels' \<Rightarrow> parse_bracket (parseOperand levels' input) input p)
          else if c = CHR ''['' then Some (parse_literal input p)
          else Some (parse_name input p))
         (\<lambda>(expression, q). Some (chase_steps expression input q))))"

declare parseOperand.simps [simp del]

definition maxSetDepth :: nat where "maxSetDepth = 64"

definition run_set_parser :: "bytes \<Rightarrow> (set_error, setExpression) go option" where
  "run_set_parser input =
     run_then (parse_expression (parseOperand maxSetDepth input) input (CHR 0x00) 0) (\<lambda>(expression, q0).
     run_then (Some (skipSpace input q0)) (\<lambda>q.
       if q \<noteq> length input then Some (Err InvalidSetExpression) else Some (Ok expression)))"

text \<open>For the callers: a call that did not return would give them no result either.\<close>

definition parseSetExpression :: "bytes \<Rightarrow> (set_error, setExpression) go" where
  "parseSetExpression input = (case run_set_parser input of None \<Rightarrow> Panic | Some r \<Rightarrow> r)"

section \<open>URLs\<close>

definition unhex :: "char \<Rightarrow> nat option" where
  "unhex c = (let n = ord c in if 48 \<le> n \<and> n \<le> 57 then Some (n - 48)
     else if 97 \<le> n \<and> n \<le> 102 then Some (n - 87) else if 65 \<le> n \<and> n \<le> 70 then Some (n - 55) else None)"

fun PathUnescape :: "bytes \<Rightarrow> bytes option" where
  "PathUnescape [] = Some []"
| "PathUnescape (c # s) =
     (if c \<noteq> CHR ''%'' then map_option ((#) c) (PathUnescape s)
      else case s of
        a # b # rest \<Rightarrow> (case (unhex a, unhex b) of
            (Some x, Some y) \<Rightarrow> map_option ((#) (char_of (16 * x + y))) (PathUnescape rest)
          | _ \<Rightarrow> None)
      | _ \<Rightarrow> None)"

definition TrimPrefix :: "bytes \<Rightarrow> bytes \<Rightarrow> bytes" where
  "TrimPrefix s p = (if HasPrefix s p then drop (length p) s else s)"

definition pad_components :: "nat \<Rightarrow> bytes list \<Rightarrow> bytes list" where
  "pad_components n cs = cs @ replicate (n - length cs) []"

definition local_ldap_url :: "acl_env \<Rightarrow> bytes \<Rightarrow> url option" where
  "local_ldap_url E raw =
     (case url_Parse E raw of None \<Rightarrow> None
      | Some u \<Rightarrow> if \<not> EqualFold (acl_unicode E) (url_Scheme u) ''ldap'' \<or> url_Host u \<noteq> [] \<or> url_HasUser u \<or>
          url_Fragment u \<noteq> [] then None else Some u)"

definition url_scope :: "acl_env \<Rightarrow> bytes \<Rightarrow> Scope option" where
  "url_scope E text =
     (let t = ToLower (acl_unicode E) text in
      if t \<in> {[], ''base''} then Some ScopeBase
      else if t \<in> {''one'', ''onelevel''} then Some ScopeSingleLevel
      else if t \<in> {''sub'', ''subtree''} then Some ScopeWholeSubtree
      else if t \<in> {''children'', ''subord'', ''subordinate''} then Some ScopeChildren
      else None)"

text \<open>What a URL of a set asks for: a base, the attributes, a scope and a filter.\<close>

record set_url =
  su_base :: DN
  su_attributes :: "bytes list"
  su_scope :: Scope
  su_filter :: Filter

definition present_objectClass :: Filter where
  "present_objectClass = Filter FilterPresent [] ''objectClass'' [] \<lparr>Initial = None, Any = [], Final = None\<rparr> [] False"

definition parse_set_url ::
  "acl_env \<Rightarrow> (bytes \<Rightarrow> (dn_error, DN) go) \<Rightarrow> bytes \<Rightarrow> bytes \<Rightarrow> set_url option option" where
  "parse_set_url E parse raw chaseAttribute =
     (case local_ldap_url E raw of None \<Rightarrow> Some None
      | Some u \<Rightarrow> (case PathUnescape (TrimPrefix (url_EscapedPath u) ''/'') of None \<Rightarrow> Some None
        | Some baseText \<Rightarrow> do {
            base \<leftarrow> attempt (parse baseText);
            case base of None \<Rightarrow> Some None
            | Some b \<Rightarrow>
                let components = pad_components 4 (Split (CHR ''?'') (url_RawQuery u)) in
                Some (if 4 < length components \<or> components ! 3 \<noteq> [] then None
                else case PathUnescape (components ! 0) of None \<Rightarrow> None
                  | Some attributesText \<Rightarrow> (case PathUnescape (components ! 1) of None \<Rightarrow> None
                    | Some scopeText \<Rightarrow> (case url_scope E scopeText of None \<Rightarrow> None
                      | Some scope \<Rightarrow> (case PathUnescape (components ! 2) of None \<Rightarrow> None
                        | Some filterText \<Rightarrow>
                            (case (if filterText = [] then Some present_objectClass else CompileFilter E filterText) of
                               None \<Rightarrow> None
                             | Some f \<Rightarrow> Some \<lparr>su_base = b,
                                 su_attributes = chaseAttribute # filter (\<lambda>a. a \<noteq> []) (Split (CHR '','') attributesText),
                                 su_scope = scope, su_filter = f\<rparr>))))) }))"

section \<open>Evaluation over texts\<close>

record set_context =
  sc_subjectDN :: bytes
  sc_target :: Target
  sc_targetDN :: DN
  sc_reader :: "EntryReader option"

definition canonicalSetDN :: "acl_env \<Rightarrow> bytes \<Rightarrow> bytes option" where
  "canonicalSetDN E raw =
     map_option (\<lambda>dn. case dn of None \<Rightarrow> raw | Some d \<Rightarrow> Key d) (attempt (ParseDN (acl_lib E) (acl_unicode E) raw))"

definition aclSetAttributeValues :: "acl_env \<Rightarrow> Entry \<Rightarrow> bytes \<Rightarrow> TargetSchema option \<Rightarrow> bytes fset" where
  "aclSetAttributeValues E entry attribute schema =
     fset_of_list (map (\<lambda>v. case schema of None \<Rightarrow> v
        | Some s \<Rightarrow> (case NormalizeEqualityValue s attribute v of Some n \<Rightarrow> n | None \<Rightarrow> v))
       (acl_values E schema entry attribute))"

definition joinACLSets :: "(bytes fset \<Rightarrow> bytes fset \<Rightarrow> bytes fset) \<Rightarrow> bool \<Rightarrow> bytes fset \<Rightarrow> bytes fset \<Rightarrow> (set_error, bytes fset) go" where
  "joinACLSets combine concatenation left right =
     (if concatenation \<and> 0 < fcard left \<and> fcard right > maxACLSetValues div fcard left then Err SetTooLarge
      else let result = combine left right in
        if fcard result > maxACLSetValues then Err SetTooLarge else Ok result)"

definition concat_sets :: "bytes fset \<Rightarrow> bytes fset \<Rightarrow> bytes fset" where
  "concat_sets left right = ffUnion ((\<lambda>l. (\<lambda>r. l @ r) |`| right) |`| left)"

text \<open>The values of one entry that a URL selects.\<close>

definition url_entry_values ::
  "acl_env \<Rightarrow> set_url \<Rightarrow> TargetSchema option \<Rightarrow> Entry \<Rightarrow> bytes fset option" where
  "url_entry_values E u schema entry =
     (let L = acl_lib E; U = acl_unicode E in do {
        dn \<leftarrow> attempt (ParseDN L U (e_DN entry));
        case dn of None \<Rightarrow> Some {||}
        | Some d \<Rightarrow> do {
            inside \<leftarrow> InScope L (su_base u) d (su_scope u);
            if \<not> inside then Some {||}
            else do {
              matches \<leftarrow> attempt (MatchWith U (acl_matcher E schema) entry (su_filter u));
              if matches \<noteq> Some True then Some {||}
              else Some (ffUnion (fset_of_list (map (\<lambda>a.
                if EqualFold U a ''entryDN'' then {|Key d|} else aclSetAttributeValues E entry a schema)
                (su_attributes u)))) } } })"

fun gather_entries :: "('a \<Rightarrow> 'b fset option) \<Rightarrow> 'a list \<Rightarrow> 'b fset option" where
  "gather_entries f [] = Some {||}"
| "gather_entries f (e # es) = do { vs \<leftarrow> f e; rest \<leftarrow> gather_entries f es; Some (vs |\<union>| rest) }"

definition gatherACLSetURL :: "acl_env \<Rightarrow> bytes \<Rightarrow> bytes \<Rightarrow> set_context \<Rightarrow> bytes fset option" where
  "gatherACLSetURL E raw chaseAttribute ctx =
     (case sc_reader ctx of None \<Rightarrow> Some {||}
      | Some reader \<Rightarrow> (case er_ForEach reader of None \<Rightarrow> Some {||}
        | Some es \<Rightarrow> do {
            u \<leftarrow> parse_set_url E (ParseDN (acl_lib E) (acl_unicode E)) raw chaseAttribute;
            case u of None \<Rightarrow> Some {||}
            | Some u \<Rightarrow> gather_entries (url_entry_values E u (t_Schema (sc_target ctx))) es }))"

definition gatherACLSetValue :: "acl_env \<Rightarrow> bytes \<Rightarrow> bytes \<Rightarrow> set_context \<Rightarrow> bytes fset option" where
  "gatherACLSetValue E v attribute ctx =
     (if HasPrefix (ToLower (acl_unicode E) v) ''ldap:///'' then gatherACLSetURL E v attribute ctx
      else do {
        dn \<leftarrow> attempt (ParseDN (acl_lib E) (acl_unicode E) v);
        case (dn, sc_reader ctx) of
          (Some d, Some reader) \<Rightarrow>
            if EqualFold (acl_unicode E) attribute ''entryDN'' then Some {|Key d|}
            else do {
              same \<leftarrow> Equal (acl_lib E) d (sc_targetDN ctx);
              (case (if same then Some (t_Entry (sc_target ctx)) else er_Get reader d) of
                 None \<Rightarrow> Some {||}
               | Some entry \<Rightarrow> Some (aclSetAttributeValues E entry attribute (t_Schema (sc_target ctx)))) }
        | _ \<Rightarrow> Some {||} })"

text \<open>
  Adding gathered values, in the order of the loop: the ones that are new, up to the limit. The
  new values are what a closure goes on with.
\<close>

fun add_gathered :: "bytes fset \<Rightarrow> bytes list \<Rightarrow> bytes list \<Rightarrow> (set_error, bytes fset \<times> bytes list) go" where
  "add_gathered result fresh [] = Ok (result, fresh)"
| "add_gathered result fresh (v # vs) =
     (if v |\<in>| result then add_gathered result fresh vs
      else if maxACLSetValues \<le> fcard result then Err ChaseTooLarge
      else add_gathered (finsert v result) (fresh @ [v]) vs)"

lemma add_gathered_count:
  "add_gathered result fresh vs = Ok (result', fresh') \<Longrightarrow> fcard result \<le> maxACLSetValues \<Longrightarrow>
     fcard result' \<le> maxACLSetValues \<and> fcard result' + length fresh = fcard result + length fresh'"
proof (induction vs arbitrary: result fresh)
  case (Cons v vs)
  show ?case
  proof (cases "v |\<in>| result")
    case True
    with Cons show ?thesis by simp
  next
    case False
    with Cons.prems have "add_gathered (finsert v result) (fresh @ [v]) vs = Ok (result', fresh')"
      "fcard (finsert v result) \<le> maxACLSetValues" "fcard (finsert v result) = fcard result + 1"
      by (auto simp: fcard_finsert_disjoint split: if_splits)
    with Cons.IH [of "finsert v result" "fresh @ [v]"] show ?thesis by simp
  qed
qed simp

text \<open>
  The chase: the values of an attribute of each queued value, and for a closure the values of
  those again. It ends because a value is queued only when it is added, and at most
  \<open>maxACLSetValues\<close> are. The first test is for the termination argument only: a result that
  starts empty never grows past the limit.
\<close>

function chase_loop ::
  "(bytes \<Rightarrow> bytes list option) \<Rightarrow> bool \<Rightarrow> bytes fset \<Rightarrow> bytes list \<Rightarrow> (set_error, bytes fset) go" where
  "chase_loop gather closure result [] = Ok result"
| "chase_loop gather closure result (v # queue) =
     (if maxACLSetValues < fcard result then Err ChaseTooLarge
      else case gather v of None \<Rightarrow> Panic
        | Some gathered \<Rightarrow> (case add_gathered result [] gathered of
            Ok (result', fresh) \<Rightarrow> chase_loop gather closure result' (if closure then queue @ fresh else queue)
          | Err e \<Rightarrow> Err e | Panic \<Rightarrow> Panic))"
  by pat_completeness auto
termination
proof (relation "measure (\<lambda>(_, _, result, queue). 2 * (maxACLSetValues - fcard result) + length queue)"; clarsimp)
  fix result :: "bytes fset" and queue gathered result' fresh and closure :: bool
  assume small: "\<not> maxACLSetValues < fcard result" and step: "add_gathered result [] gathered = Ok (result', fresh)"
  from add_gathered_count [OF step] small
  have "fcard result' \<le> maxACLSetValues" "fcard result' = fcard result + length fresh" by simp_all
  then show "(closure \<longrightarrow> 2 * (maxACLSetValues - fcard result') + length fresh <
        Suc (2 * (maxACLSetValues - fcard result))) \<and>
      (\<not> closure \<longrightarrow> 2 * (maxACLSetValues - fcard result') < Suc (2 * (maxACLSetValues - fcard result)))"
    by auto
qed

declare chase_loop.simps [simp del]

definition chaseACLSet :: "acl_env \<Rightarrow> bytes fset \<Rightarrow> bytes \<Rightarrow> bool \<Rightarrow> set_context \<Rightarrow> (set_error, bytes fset) go" where
  "chaseACLSet E vs attribute closure ctx =
     chase_loop (\<lambda>v. map_option (acl_range E ''gathered'') (gatherACLSetValue E v attribute ctx)) closure {||}
       (acl_range E ''values'' vs)"

text \<open>A name and its ancestors up to the root.\<close>

function dn_chain :: "acl_env \<Rightarrow> DN \<Rightarrow> DN list option" where
  "dn_chain E dn = do {
     (parent, ok) \<leftarrow> Parent (acl_lib E) (acl_unicode E) dn;
     if \<not> ok then Some [dn] else do { rest \<leftarrow> dn_chain E parent; Some (dn # rest) } }"
  by pat_completeness auto
termination
  by (relation "measure (\<lambda>(E, dn). case parsed dn of None \<Rightarrow> 0 | Some p \<Rightarrow> length p)")
    (auto simp: Parent_def Option.bind_eq_Some_conv split: if_splits)

declare dn_chain.simps [simp del]

definition parent_values :: "acl_env \<Rightarrow> nat \<Rightarrow> bool \<Rightarrow> DN \<Rightarrow> DN list option" where
  "parent_values E level all dn =
     (if all then dn_chain E dn
      else map_option (\<lambda>a. case a of None \<Rightarrow> [] | Some d \<Rightarrow> [d]) (dnAncestorAllowRoot E dn (int level)))"

definition parentACLSet :: "acl_env \<Rightarrow> bytes fset \<Rightarrow> nat \<Rightarrow> bool \<Rightarrow> bytes fset option" where
  "parentACLSet E vs level all =
     gather_entries (\<lambda>v. do {
         dn \<leftarrow> attempt (ParseDN (acl_lib E) (acl_unicode E) v);
         case dn of None \<Rightarrow> Some {||}
         | Some d \<Rightarrow> map_option (\<lambda>ds. fset_of_list (map Key ds)) (parent_values E level all d) })
       (acl_range E ''parents'' vs)"

fun evaluateSetExpression :: "acl_env \<Rightarrow> set_context \<Rightarrow> setExpression \<Rightarrow> (set_error, bytes fset) go" where
  "evaluateSetExpression E ctx (setLiteral v) = Ok {|v|}"
| "evaluateSetExpression E ctx setUser = go_bind (go_of_option (canonicalSetDN E (sc_subjectDN ctx))) (\<lambda>v. Ok {|v|})"
| "evaluateSetExpression E ctx setThis = Ok {|Key (sc_targetDN ctx)|}"
| "evaluateSetExpression E ctx (setUnion l r) =
     go_bind (evaluateSetExpression E ctx l) (\<lambda>left. go_bind (evaluateSetExpression E ctx r) (\<lambda>right.
       joinACLSets (|\<union>|) False left right))"
| "evaluateSetExpression E ctx (setIntersection l r) =
     go_bind (evaluateSetExpression E ctx l) (\<lambda>left. go_bind (evaluateSetExpression E ctx r) (\<lambda>right.
       joinACLSets (|\<inter>|) False left right))"
| "evaluateSetExpression E ctx (setConcat l r) =
     go_bind (evaluateSetExpression E ctx l) (\<lambda>left. go_bind (evaluateSetExpression E ctx r) (\<lambda>right.
       joinACLSets concat_sets True left right))"
| "evaluateSetExpression E ctx (setChase e attribute closure) =
     go_bind (evaluateSetExpression E ctx e) (\<lambda>vs. chaseACLSet E vs attribute closure ctx)"
| "evaluateSetExpression E ctx (setParents e level all) =
     go_bind (evaluateSetExpression E ctx e) (\<lambda>vs. go_of_option (parentACLSet E vs level all))"

definition matchesSet ::
  "acl_env \<Rightarrow> WhoMatcher \<Rightarrow> bytes \<Rightarrow> Target \<Rightarrow> DN \<Rightarrow> EntryReader option \<Rightarrow> matchContext \<Rightarrow> bool option" where
  "matchesSet E matcher subjectDN target targetDN reader context =
     (case (if w_SetExpand matcher then expandACLPattern (w_SetPattern matcher) context else Some (w_SetPattern matcher)) of
        None \<Rightarrow> Some False
      | Some pattern \<Rightarrow> on_success (parseSetExpression pattern) (\<lambda>expression.
          on_success (evaluateSetExpression E \<lparr>sc_subjectDN = subjectDN, sc_target = target, sc_targetDN = targetDN,
            sc_reader = reader\<rparr> expression) (\<lambda>vs. Some (0 < fcard vs))))"

section \<open>Evaluation over names\<close>

text \<open>
  The schema-aware evaluator: a value is a normalised name when it parses as one, and a text
  otherwise; values are told apart by their keys.
\<close>

record schemaACLSetValue =
  sv_text :: bytes
  sv_dn :: DN
  sv_isDN :: bool

type_synonym schemaACLSet = "(bytes, schemaACLSetValue) fmap"

definition sv_key :: "schemaACLSetValue \<Rightarrow> bytes" where
  "sv_key v = (if sv_isDN v then ''dn'' @ [CHR 0x00] @ Key (sv_dn v) else ''text'' @ [CHR 0x00] @ sv_text v)"

definition dn_value :: "DN \<Rightarrow> schemaACLSetValue" where
  "dn_value dn = \<lparr>sv_text = NormalizedString dn, sv_dn = dn, sv_isDN = True\<rparr>"

definition schemaACLValue :: "acl_env \<Rightarrow> bytes \<Rightarrow> acl_normalizer option \<Rightarrow> schemaACLSetValue option" where
  "schemaACLValue E raw normalizer =
     map_option (\<lambda>dn. case dn of None \<Rightarrow> \<lparr>sv_text = raw, sv_dn = zero_DN, sv_isDN = False\<rparr> | Some d \<Rightarrow> dn_value d)
       (attempt (parseACLDN E raw normalizer))"

definition singletonSchemaACLSet :: "schemaACLSetValue \<Rightarrow> schemaACLSet" where
  "singletonSchemaACLSet v = fmupd (sv_key v) v fmempty"

definition put_value :: "schemaACLSet \<Rightarrow> schemaACLSetValue \<Rightarrow> schemaACLSet" where
  "put_value m v = fmupd (sv_key v) v m"

definition values_in :: "acl_env \<Rightarrow> string \<Rightarrow> schemaACLSet \<Rightarrow> schemaACLSetValue list" where
  "values_in E site m = List.map_filter (fmlookup m) (acl_range E site (fmdom m))"

fun option_values :: "('a \<Rightarrow> schemaACLSetValue list option) \<Rightarrow> 'a list \<Rightarrow> schemaACLSetValue list option" where
  "option_values f [] = Some []"
| "option_values f (x # xs) = do { vs \<leftarrow> f x; rest \<leftarrow> option_values f xs; Some (vs @ rest) }"

definition concat_schema_sets ::
  "acl_env \<Rightarrow> acl_normalizer option \<Rightarrow> schemaACLSet \<Rightarrow> schemaACLSet \<Rightarrow> schemaACLSet option" where
  "concat_schema_sets E normalizer left right =
     map_option (foldl put_value fmempty)
       (option_values (\<lambda>(l, r). map_option (\<lambda>v. [v]) (schemaACLValue E (sv_text l @ sv_text r) normalizer))
          (List.product (values_in E ''left'' left) (values_in E ''right'' right)))"

definition joinSchemaACLSets ::
  "(schemaACLSet \<Rightarrow> schemaACLSet \<Rightarrow> schemaACLSet option) \<Rightarrow> bool \<Rightarrow> schemaACLSet \<Rightarrow> schemaACLSet \<Rightarrow>
   (set_error, schemaACLSet) go" where
  "joinSchemaACLSets combine concatenation left right =
     (let n = (\<lambda>m. fcard (fmdom m)) in
      if concatenation \<and> 0 < n left \<and> n right > maxACLSetValues div n left then Err SetTooLarge
      else go_bind (go_of_option (combine left right)) (\<lambda>result.
        if n result > maxACLSetValues then Err SetTooLarge else Ok result))"

fun schema_attribute_values ::
  "acl_env \<Rightarrow> bytes \<Rightarrow> Target \<Rightarrow> schemaACLSet \<Rightarrow> bytes list \<Rightarrow> schemaACLSet option" where
  "schema_attribute_values E attribute target result [] = Some result"
| "schema_attribute_values E attribute target result (raw # raws) = do {
     v \<leftarrow> schemaACLValue E raw (t_DNNormalizer target);
     w \<leftarrow> (case t_Schema target of
        Some s \<Rightarrow> if sv_isDN v then Some (Some v)
          else (case NormalizeEqualityValue s attribute raw of None \<Rightarrow> Some None
            | Some n \<Rightarrow> map_option Some (schemaACLValue E n (t_DNNormalizer target)))
      | None \<Rightarrow> Some (Some v));
     schema_attribute_values E attribute target (case w of None \<Rightarrow> result | Some x \<Rightarrow> put_value result x) raws }"

definition schemaACLAttributeValues :: "acl_env \<Rightarrow> Entry \<Rightarrow> bytes \<Rightarrow> Target \<Rightarrow> schemaACLSet option" where
  "schemaACLAttributeValues E entry attribute target =
     schema_attribute_values E attribute target fmempty (acl_values E (t_Schema target) entry attribute)"

fun schema_url_attributes ::
  "acl_env \<Rightarrow> Target \<Rightarrow> Entry \<Rightarrow> DN \<Rightarrow> schemaACLSet \<Rightarrow> bytes list \<Rightarrow> schemaACLSet option" where
  "schema_url_attributes E target entry dn result [] = Some result"
| "schema_url_attributes E target entry dn result (a # as) = do {
     result' \<leftarrow> (if EqualFold (acl_unicode E) a ''entryDN'' then Some (put_value result (dn_value dn))
       else map_option (\<lambda>vs. result ++\<^sub>f vs) (schemaACLAttributeValues E entry a target));
     schema_url_attributes E target entry dn result' as }"

fun schema_url_entries :: "acl_env \<Rightarrow> set_url \<Rightarrow> Target \<Rightarrow> schemaACLSet \<Rightarrow> Entry list \<Rightarrow> schemaACLSet option" where
  "schema_url_entries E u target result [] = Some result"
| "schema_url_entries E u target result (entry # es) = do {
     dn \<leftarrow> attempt (parseACLDN E (e_DN entry) (t_DNNormalizer target));
     result' \<leftarrow> (case dn of None \<Rightarrow> Some result
       | Some d \<Rightarrow> do {
           inside \<leftarrow> InScope (acl_lib E) (su_base u) d (su_scope u);
           if \<not> inside then Some result
           else do {
             matches \<leftarrow> attempt (MatchWith (acl_unicode E) (acl_matcher E (t_Schema target)) entry (su_filter u));
             if matches \<noteq> Some True then Some result
             else schema_url_attributes E target entry d result (su_attributes u) } });
     schema_url_entries E u target result' es }"

definition gatherSchemaACLSetURL :: "acl_env \<Rightarrow> bytes \<Rightarrow> bytes \<Rightarrow> set_context \<Rightarrow> schemaACLSet option" where
  "gatherSchemaACLSetURL E raw chaseAttribute ctx =
     (case sc_reader ctx of None \<Rightarrow> Some fmempty
      | Some reader \<Rightarrow> (case er_ForEach reader of None \<Rightarrow> Some fmempty
        | Some es \<Rightarrow> do {
            u \<leftarrow> parse_set_url E (\<lambda>text. parseACLDN E text (t_DNNormalizer (sc_target ctx))) raw chaseAttribute;
            case u of None \<Rightarrow> Some fmempty
            | Some u \<Rightarrow> schema_url_entries E u (sc_target ctx) fmempty es }))"

definition gatherSchemaACLSetValue :: "acl_env \<Rightarrow> schemaACLSetValue \<Rightarrow> bytes \<Rightarrow> set_context \<Rightarrow> schemaACLSet option" where
  "gatherSchemaACLSetValue E v attribute ctx =
     (if HasPrefix (ToLower (acl_unicode E) (sv_text v)) ''ldap:///'' then gatherSchemaACLSetURL E (sv_text v) attribute ctx
      else case (sv_isDN v, sc_reader ctx) of
        (True, Some reader) \<Rightarrow>
          if EqualFold (acl_unicode E) attribute ''entryDN'' then Some (singletonSchemaACLSet v)
          else do {
            same \<leftarrow> Equal (acl_lib E) (sv_dn v) (sc_targetDN ctx);
            (case (if same then Some (t_Entry (sc_target ctx)) else er_Get reader (sv_dn v)) of
               None \<Rightarrow> Some fmempty
             | Some entry \<Rightarrow> schemaACLAttributeValues E entry attribute (sc_target ctx)) }
      | _ \<Rightarrow> Some fmempty)"

fun add_schema_gathered ::
  "schemaACLSet \<Rightarrow> schemaACLSetValue list \<Rightarrow> (bytes \<times> schemaACLSetValue) list \<Rightarrow>
   (set_error, schemaACLSet \<times> schemaACLSetValue list) go" where
  "add_schema_gathered result fresh [] = Ok (result, fresh)"
| "add_schema_gathered result fresh ((key, v) # vs) =
     (if key |\<in>| fmdom result then add_schema_gathered result fresh vs
      else if maxACLSetValues \<le> fcard (fmdom result) then Err ChaseTooLarge
      else add_schema_gathered (fmupd key v result) (fresh @ [v]) vs)"

lemma add_schema_gathered_count:
  "add_schema_gathered result fresh vs = Ok (result', fresh') \<Longrightarrow> fcard (fmdom result) \<le> maxACLSetValues \<Longrightarrow>
     fcard (fmdom result') \<le> maxACLSetValues \<and> fcard (fmdom result') + length fresh = fcard (fmdom result) + length fresh'"
proof (induction vs arbitrary: result fresh)
  case (Cons kv vs)
  obtain key v where kv: "kv = (key, v)" by (cases kv)
  show ?case
  proof (cases "key |\<in>| fmdom result")
    case True
    with Cons show ?thesis by (simp add: kv)
  next
    case False
    with Cons.prems have "add_schema_gathered (fmupd key v result) (fresh @ [v]) vs = Ok (result', fresh')"
      "fcard (fmdom (fmupd key v result)) \<le> maxACLSetValues"
      "fcard (fmdom (fmupd key v result)) = fcard (fmdom result) + 1"
      by (auto simp: kv fcard_finsert_disjoint split: if_splits)
    with Cons.IH [of "fmupd key v result" "fresh @ [v]"] show ?thesis by simp
  qed
qed simp

function schema_chase_loop ::
  "(schemaACLSetValue \<Rightarrow> (bytes \<times> schemaACLSetValue) list option) \<Rightarrow> bool \<Rightarrow> schemaACLSet \<Rightarrow> schemaACLSetValue list \<Rightarrow>
   (set_error, schemaACLSet) go" where
  "schema_chase_loop gather closure result [] = Ok result"
| "schema_chase_loop gather closure result (v # queue) =
     (if maxACLSetValues < fcard (fmdom result) then Err ChaseTooLarge
      else case gather v of None \<Rightarrow> Panic
        | Some gathered \<Rightarrow> (case add_schema_gathered result [] gathered of
            Ok (result', fresh) \<Rightarrow> schema_chase_loop gather closure result' (if closure then queue @ fresh else queue)
          | Err e \<Rightarrow> Err e | Panic \<Rightarrow> Panic))"
  by pat_completeness auto
termination
proof (relation "measure (\<lambda>(_, _, result, queue). 2 * (maxACLSetValues - fcard (fmdom result)) + length queue)"; clarsimp)
  fix result :: schemaACLSet and queue gathered result' fresh and closure :: bool
  assume small: "\<not> maxACLSetValues < fcard (fmdom result)" and step: "add_schema_gathered result [] gathered = Ok (result', fresh)"
  from add_schema_gathered_count [OF step] small
  have "fcard (fmdom result') \<le> maxACLSetValues" "fcard (fmdom result') = fcard (fmdom result) + length fresh" by simp_all
  then show "(closure \<longrightarrow> 2 * (maxACLSetValues - fcard (fmdom result')) + length fresh <
        Suc (2 * (maxACLSetValues - fcard (fmdom result)))) \<and>
      (\<not> closure \<longrightarrow> 2 * (maxACLSetValues - fcard (fmdom result')) < Suc (2 * (maxACLSetValues - fcard (fmdom result))))"
    by auto
qed

declare schema_chase_loop.simps [simp del]

definition gathered_pairs :: "acl_env \<Rightarrow> schemaACLSet \<Rightarrow> (bytes \<times> schemaACLSetValue) list" where
  "gathered_pairs E m = List.map_filter (\<lambda>k. map_option (Pair k) (fmlookup m k)) (acl_range E ''gathered'' (fmdom m))"

definition chaseSchemaACLSet :: "acl_env \<Rightarrow> schemaACLSet \<Rightarrow> bytes \<Rightarrow> bool \<Rightarrow> set_context \<Rightarrow> (set_error, schemaACLSet) go" where
  "chaseSchemaACLSet E vs attribute closure ctx =
     schema_chase_loop (\<lambda>v. map_option (gathered_pairs E) (gatherSchemaACLSetValue E v attribute ctx)) closure fmempty
       (values_in E ''values'' vs)"

definition parentSchemaACLSet :: "acl_env \<Rightarrow> schemaACLSet \<Rightarrow> nat \<Rightarrow> bool \<Rightarrow> schemaACLSet option" where
  "parentSchemaACLSet E vs level all =
     map_option (foldl put_value fmempty)
       (option_values (\<lambda>v. if \<not> sv_isDN v then Some []
          else map_option (map dn_value) (parent_values E level all (sv_dn v))) (values_in E ''parents'' vs))"

fun evaluateSchemaACLSet :: "acl_env \<Rightarrow> set_context \<Rightarrow> setExpression \<Rightarrow> (set_error, schemaACLSet) go" where
  "evaluateSchemaACLSet E ctx (setLiteral v) =
     go_bind (go_of_option (schemaACLValue E v (t_DNNormalizer (sc_target ctx)))) (\<lambda>x. Ok (singletonSchemaACLSet x))"
| "evaluateSchemaACLSet E ctx setUser =
     go_bind (go_of_option (schemaACLValue E (sc_subjectDN ctx) (t_DNNormalizer (sc_target ctx)))) (\<lambda>x.
       Ok (if sv_isDN x then singletonSchemaACLSet x else fmempty))"
| "evaluateSchemaACLSet E ctx setThis = Ok (singletonSchemaACLSet (dn_value (sc_targetDN ctx)))"
| "evaluateSchemaACLSet E ctx (setUnion l r) =
     go_bind (evaluateSchemaACLSet E ctx l) (\<lambda>left. go_bind (evaluateSchemaACLSet E ctx r) (\<lambda>right.
       joinSchemaACLSets (\<lambda>a b. Some (a ++\<^sub>f b)) False left right))"
| "evaluateSchemaACLSet E ctx (setIntersection l r) =
     go_bind (evaluateSchemaACLSet E ctx l) (\<lambda>left. go_bind (evaluateSchemaACLSet E ctx r) (\<lambda>right.
       joinSchemaACLSets (\<lambda>a b. Some (fmrestrict_fset (fmdom b) a)) False left right))"
| "evaluateSchemaACLSet E ctx (setConcat l r) =
     go_bind (evaluateSchemaACLSet E ctx l) (\<lambda>left. go_bind (evaluateSchemaACLSet E ctx r) (\<lambda>right.
       joinSchemaACLSets (concat_schema_sets E (t_DNNormalizer (sc_target ctx))) True left right))"
| "evaluateSchemaACLSet E ctx (setChase e attribute closure) =
     go_bind (evaluateSchemaACLSet E ctx e) (\<lambda>vs. chaseSchemaACLSet E vs attribute closure ctx)"
| "evaluateSchemaACLSet E ctx (setParents e level all) =
     go_bind (evaluateSchemaACLSet E ctx e) (\<lambda>vs. go_of_option (parentSchemaACLSet E vs level all))"

definition matchesSchemaAwareSet ::
  "acl_env \<Rightarrow> WhoMatcher \<Rightarrow> bytes \<Rightarrow> Target \<Rightarrow> DN \<Rightarrow> EntryReader option \<Rightarrow> matchContext \<Rightarrow> bool option" where
  "matchesSchemaAwareSet E matcher subjectDN target targetDN reader context =
     (case (if w_SetExpand matcher then expandACLPattern (w_SetPattern matcher) context else Some (w_SetPattern matcher)) of
        None \<Rightarrow> Some False
      | Some pattern \<Rightarrow> on_success (parseSetExpression pattern) (\<lambda>expression.
          on_success (evaluateSchemaACLSet E \<lparr>sc_subjectDN = subjectDN, sc_target = target, sc_targetDN = targetDN,
            sc_reader = reader\<rparr> expression) (\<lambda>vs. Some (0 < fcard (fmdom vs)))))"

end
