(* ===== verification/ACI_Value.thy ===== *)
theory ACI_Value
  imports ACL_Model
begin

text \<open>
  OpenLDAP access control values, \<open>src/internal/aci/aci.go\<close>: reading a value, its normal form and
  the comparison of two values.
\<close>

datatype aci_scope = ACI_Entry | ACI_Children | ACI_Subtree

datatype aci_subject_kind =
    SubjectPublic | SubjectUsers | SubjectSelf | SubjectAccessID | SubjectSubtree | SubjectOneLevel
  | SubjectChildren | SubjectDNAttribute | SubjectGroup | SubjectRole | SubjectSet | SubjectSetReference

type_synonym Right = "8 word"

definition RightAuth :: Right where "RightAuth = push_bit 0 1"
definition RightDisclose :: Right where "RightDisclose = push_bit 1 1"
definition RightCompare :: Right where "RightCompare = push_bit 2 1"
definition RightSearch :: Right where "RightSearch = push_bit 3 1"
definition RightRead :: Right where "RightRead = push_bit 4 1"
definition RightWrite :: Right where "RightWrite = push_bit 5 1"

record AttributeSelector =
  as_Name :: bytes
  as_Value :: bytes
  as_All :: bool
  as_HasValue :: bool
  as_Prefix :: bool

record Permission =
  pm_Grant :: bool
  pm_Rights :: Right
  pm_Attributes :: "AttributeSelector list"
  pm_Action :: nat

record aci_value =
  av_OID :: bytes
  av_Scope :: aci_scope
  av_Permissions :: "Permission list"
  av_SubjectKind :: aci_subject_kind
  av_Subject :: bytes
  av_ObjectClass :: bytes
  av_GroupAttribute :: bytes

datatype aci_error =
    FiveFields | InvalidOID bytes | InvalidScope bytes | InvalidPermission bytes | EmptyAction
  | InvalidAction bytes | InvalidRight bytes | EmptyRights | EmptySelector | EmptyAttributeName
  | InvalidOptions bytes | EmptyObjectClass bytes | EmptyGroupAttribute bytes | InvalidSubjectType bytes
  | NoOptionsAccepted bytes | EmptyDNSubject | InvalidSubjectDN dn_error | EmptyDNAttribute

section \<open>Reading\<close>

fun SplitN :: "nat \<Rightarrow> char \<Rightarrow> bytes \<Rightarrow> bytes list" where
  "SplitN 0 sep s = []"
| "SplitN (Suc 0) sep s = [s]"
| "SplitN (Suc (Suc n)) sep s =
     (case Cut sep s of (before, after, found) \<Rightarrow> if found then before # SplitN (Suc n) sep after else [s])"

fun oid_from :: "bool \<Rightarrow> bytes \<Rightarrow> bool" where
  "oid_from lastDot [] = (\<not> lastDot)"
| "oid_from lastDot (c # cs) =
     (if c = CHR ''.'' \<and> \<not> lastDot then oid_from True cs
      else if is_digit c then oid_from False cs else False)"

definition validNumericOID :: "bytes \<Rightarrow> bool" where
  "validNumericOID v \<longleftrightarrow> v \<noteq> [] \<and> hd v \<noteq> CHR ''.'' \<and> last v \<noteq> CHR ''.'' \<and> oid_from False v"

definition right_of :: "char \<Rightarrow> Right option" where
  "right_of c =
     (if c = CHR ''x'' then Some RightAuth else if c = CHR ''d'' then Some RightDisclose
      else if c = CHR ''c'' then Some RightCompare else if c = CHR ''s'' then Some RightSearch
      else if c = CHR ''r'' then Some RightRead else if c = CHR ''w'' then Some RightWrite else None)"

fun collect_rights :: "Right \<Rightarrow> bytes list \<Rightarrow> (aci_error, Right) go" where
  "collect_rights result [] = Ok result"
| "collect_rights result (p # ps) =
     (let part = TrimSpace p in
      if length part \<noteq> 1 then Err (InvalidRight part)
      else case right_of (hd part) of None \<Rightarrow> Err (InvalidRight part) | Some r \<Rightarrow> collect_rights (result OR r) ps)"

definition parseRights :: "bytes \<Rightarrow> (aci_error, Right) go" where
  "parseRights raw =
     go_bind (collect_rights 0 (Split (CHR '','') raw)) (\<lambda>result. if result = 0 then Err EmptyRights else Ok result)"

definition plain_selector :: "bytes \<Rightarrow> AttributeSelector" where
  "plain_selector name = \<lparr>as_Name = name, as_Value = [], as_All = False, as_HasValue = False, as_Prefix = False\<rparr>"

definition parse_selector :: "unicode \<Rightarrow> bytes \<Rightarrow> (aci_error, AttributeSelector) go" where
  "parse_selector U raw =
     (let part = TrimSpace raw; lower = ToLower U part in
      if part = [] then Err EmptySelector
      else if lower = ''[all]'' then Ok ((plain_selector [])\<lparr>as_All := True\<rparr>)
      else
        let part = (if lower = ''[entry]'' then ''entry'' else if lower = ''[children]'' then ''children'' else part);
            selector = (case Cut (CHR ''='') part of (name, rest, found) \<Rightarrow>
              if \<not> found then plain_selector part
              else
                let v = TrimSpace rest in
                (case Cut (CHR ''*'') v of (before, _, wildcard) \<Rightarrow>
                   \<lparr>as_Name = TrimSpace name, as_Value = (if wildcard then before else v), as_All = False,
                    as_HasValue = True, as_Prefix = wildcard\<rparr>)) in
        if as_Name selector = [] then Err EmptyAttributeName else Ok selector)"

definition parseAttributeSelectors :: "unicode \<Rightarrow> bytes \<Rightarrow> (aci_error, AttributeSelector list) go" where
  "parseAttributeSelectors U raw = go_map (parse_selector U) (Split (CHR '','') raw)"

fun parse_pairs :: "unicode \<Rightarrow> bool \<Rightarrow> nat \<Rightarrow> bytes list \<Rightarrow> (aci_error, Permission list) go" where
  "parse_pairs U grant action (rights # selectors # rest) =
     go_bind (parseRights rights) (\<lambda>r.
     go_bind (parseAttributeSelectors U selectors) (\<lambda>ss.
     go_bind (parse_pairs U grant action rest) (\<lambda>ps.
       Ok (\<lparr>pm_Grant = grant, pm_Rights = r, pm_Attributes = map (\<lambda>s. s\<lparr>as_Name := TrimSpace (as_Name s)\<rparr>) ss,
            pm_Action = action\<rparr> # ps))))"
| "parse_pairs U grant action _ = Ok []"

definition parse_action :: "unicode \<Rightarrow> nat \<times> bytes \<Rightarrow> (aci_error, Permission list) go" where
  "parse_action U ia = (case ia of (index, action) \<Rightarrow>
     let parts = Split (CHR '';'') action in
     if length parts < 3 \<or> even (length parts) then Err (InvalidPermission action)
     else
       let verb = ToLower U (TrimSpace (hd parts)) in
       if verb = ''grant'' then parse_pairs U True index (tl parts)
       else if verb = ''deny'' then parse_pairs U False index (tl parts)
       else if verb = [] then Err EmptyAction
       else Err (InvalidAction (hd parts)))"

definition parsePermissions :: "unicode \<Rightarrow> bytes \<Rightarrow> (aci_error, Permission list) go" where
  "parsePermissions U raw =
     go_bind (go_map (parse_action U) (enumerate 0 (Split (CHR ''$'') raw))) (\<lambda>pss. Ok (concat pss))"

definition simple_subject_kind :: "bytes \<Rightarrow> aci_subject_kind option" where
  "simple_subject_kind kind =
     (if kind = ''public'' then Some SubjectPublic else if kind = ''users'' then Some SubjectUsers
      else if kind = ''self'' then Some SubjectSelf else if kind = ''access-id'' then Some SubjectAccessID
      else if kind = ''subtree'' then Some SubjectSubtree else if kind = ''onelevel'' then Some SubjectOneLevel
      else if kind = ''children'' then Some SubjectChildren else if kind = ''dnattr'' then Some SubjectDNAttribute
      else if kind = ''set'' then Some SubjectSet else if kind = ''set-ref'' then Some SubjectSetReference else None)"

definition dn_subject :: "aci_subject_kind \<Rightarrow> bool" where
  "dn_subject kind \<longleftrightarrow> kind \<in> {SubjectAccessID, SubjectSubtree, SubjectOneLevel, SubjectChildren, SubjectGroup, SubjectRole}"

definition group_subject :: "bytes \<Rightarrow> bytes list \<Rightarrow> aci_value \<Rightarrow> (aci_error, aci_value) go" where
  "group_subject kind parts v =
     (if 3 < length parts then Err (InvalidOptions kind)
      else
        let v = (if kind = ''group''
              then v\<lparr>av_SubjectKind := SubjectGroup, av_ObjectClass := ''groupOfNames'', av_GroupAttribute := ''member''\<rparr>
              else v\<lparr>av_SubjectKind := SubjectRole, av_ObjectClass := ''organizationalRole'', av_GroupAttribute := ''roleOccupant''\<rparr>) in
        if 1 < length parts \<and> parts ! 1 = [] then Err (EmptyObjectClass kind)
        else
          let v = (if 1 < length parts then v\<lparr>av_ObjectClass := parts ! 1\<rparr> else v) in
          if 2 < length parts \<and> parts ! 2 = [] then Err (EmptyGroupAttribute kind)
          else Ok (if 2 < length parts then v\<lparr>av_GroupAttribute := parts ! 2\<rparr> else v))"

definition parseSubjectType :: "ldap_lib \<Rightarrow> unicode \<Rightarrow> bytes \<Rightarrow> aci_value \<Rightarrow> (aci_error, aci_value) go" where
  "parseSubjectType L U raw v =
     (let parts = map TrimSpace (Split (CHR ''/'') raw); kind = ToLower U (hd parts) in
      go_bind
        (case simple_subject_kind kind of
           Some k \<Rightarrow> if length parts \<noteq> 1 then Err (NoOptionsAccepted kind) else Ok (v\<lparr>av_SubjectKind := k\<rparr>)
         | None \<Rightarrow> if kind = ''group'' \<or> kind = ''role'' then group_subject kind parts v else Err (InvalidSubjectType raw))
        (\<lambda>v. if dn_subject (av_SubjectKind v) then
               (if av_Subject v = [] then Err EmptyDNSubject
                else go_bind (go_wrap InvalidSubjectDN (ParseDN L U (av_Subject v))) (\<lambda>_. Ok v))
             else if av_SubjectKind v = SubjectDNAttribute \<and> TrimSpace (av_Subject v) = [] then Err EmptyDNAttribute
             else Ok v))"

definition parse_scope :: "unicode \<Rightarrow> bytes \<Rightarrow> (aci_error, aci_scope) go" where
  "parse_scope U raw =
     (let scope = ToLower U (TrimSpace raw) in
      if scope = ''entry'' then Ok ACI_Entry else if scope = ''children'' then Ok ACI_Children
      else if scope = ''subtree'' then Ok ACI_Subtree else Err (InvalidScope raw))"

definition aci_Parse :: "ldap_lib \<Rightarrow> unicode \<Rightarrow> bytes \<Rightarrow> (aci_error, aci_value) go" where
  "aci_Parse L U raw =
     (case SplitN 5 (CHR ''#'') raw of
        [oid, scope, permissions, subjectType, subject] \<Rightarrow>
          if \<not> validNumericOID (TrimSpace oid) then Err (InvalidOID (TrimSpace oid))
          else
            go_bind (parse_scope U scope) (\<lambda>sc.
            go_bind (parsePermissions U permissions) (\<lambda>ps.
              parseSubjectType L U subjectType
                \<lparr>av_OID = TrimSpace oid, av_Scope = sc, av_Permissions = ps, av_SubjectKind = SubjectPublic,
                 av_Subject = subject, av_ObjectClass = [], av_GroupAttribute = []\<rparr>))
      | _ \<Rightarrow> Err FiveFields)"

section \<open>Writing\<close>

definition right_letters :: "(Right \<times> char) list" where
  "right_letters = [(RightAuth, CHR ''x''), (RightDisclose, CHR ''d''), (RightCompare, CHR ''c''),
     (RightSearch, CHR ''s''), (RightRead, CHR ''r''), (RightWrite, CHR ''w'')]"

definition writeRights :: "Right \<Rightarrow> bytes" where
  "writeRights rights =
     Join (map (\<lambda>(_, c). [c]) (filter (\<lambda>(r, _). rights AND r \<noteq> 0) right_letters)) '',''"

definition write_selector :: "unicode \<Rightarrow> AttributeSelector \<Rightarrow> bytes" where
  "write_selector U s =
     (if as_All s then ''[all]''
      else ToLower U (as_Name s) @
        (if as_HasValue s then ''='' @ as_Value s @ (if as_Prefix s then ''*'' else []) else []))"

fun write_permissions :: "unicode \<Rightarrow> nat option \<Rightarrow> Permission list \<Rightarrow> bytes" where
  "write_permissions U previous [] = []"
| "write_permissions U previous (p # ps) =
     (let newAction = (previous \<noteq> Some (pm_Action p)) in
      (if previous \<noteq> None \<and> newAction then ''$'' else []) @
      (if newAction then (if pm_Grant p then ''grant'' else ''deny'') else []) @
      '';'' @ writeRights (pm_Rights p) @ '';'' @ Join (map (write_selector U) (pm_Attributes p)) '','' @
      write_permissions U (Some (pm_Action p)) ps)"

fun subject_name :: "aci_subject_kind \<Rightarrow> bytes" where
  "subject_name SubjectPublic = ''public''"
| "subject_name SubjectUsers = ''users''"
| "subject_name SubjectSelf = ''self''"
| "subject_name SubjectAccessID = ''access-id''"
| "subject_name SubjectSubtree = ''subtree''"
| "subject_name SubjectOneLevel = ''onelevel''"
| "subject_name SubjectChildren = ''children''"
| "subject_name SubjectDNAttribute = ''dnattr''"
| "subject_name SubjectGroup = ''group''"
| "subject_name SubjectRole = ''role''"
| "subject_name SubjectSet = ''set''"
| "subject_name SubjectSetReference = ''set-ref''"

definition writeSubjectType :: "unicode \<Rightarrow> aci_value \<Rightarrow> bytes" where
  "writeSubjectType U v =
     subject_name (av_SubjectKind v) @
     (if av_SubjectKind v \<in> {SubjectGroup, SubjectRole}
      then ''/'' @ ToLower U (av_ObjectClass v) @ ''/'' @ ToLower U (av_GroupAttribute v) else [])"

definition normalizedDNSubject :: "ldap_lib \<Rightarrow> unicode \<Rightarrow> aci_value \<Rightarrow> bytes option option" where
  "normalizedDNSubject L U v =
     (if dn_subject (av_SubjectKind v)
      then map_option (map_option Key) (attempt (ParseDN L U (av_Subject v))) else Some None)"

definition write_scope :: "aci_scope \<Rightarrow> bytes" where
  "write_scope scope = (case scope of ACI_Entry \<Rightarrow> ''entry'' | ACI_Children \<Rightarrow> ''children'' | ACI_Subtree \<Rightarrow> ''subtree'')"

definition aci_Normalize :: "ldap_lib \<Rightarrow> unicode \<Rightarrow> bytes \<Rightarrow> (aci_error, bytes) go" where
  "aci_Normalize L U raw =
     go_bind (aci_Parse L U raw) (\<lambda>v.
     go_bind (go_of_option (normalizedDNSubject L U v)) (\<lambda>subject.
       Ok (av_OID v @ ''#'' @ write_scope (av_Scope v) @ ''#'' @ write_permissions U None (av_Permissions v) @ ''#'' @
           writeSubjectType U v @ ''#'' @
           (case subject of Some s \<Rightarrow> s
            | None \<Rightarrow> if av_SubjectKind v = SubjectDNAttribute then ToLower U (TrimSpace (av_Subject v))
                else if av_SubjectKind v \<in> {SubjectSet, SubjectSetReference} then av_Subject v else []))))"

definition aci_Compare :: "ldap_lib \<Rightarrow> unicode \<Rightarrow> bytes \<Rightarrow> bytes \<Rightarrow> (aci_error, int) go" where
  "aci_Compare L U left right =
     go_bind (aci_Normalize L U left) (\<lambda>a. go_bind (aci_Normalize L U right) (\<lambda>b. Ok (bytes_Compare a b)))"

end
