(* ===== verification/ACL_Policy.thy ===== *)
theory ACL_Policy
  imports ACL_Sets ACI_Value
begin

text \<open>
  The access decision of \<open>src/internal/acl/policy.go\<close>: groups (\<open>group.go\<close>), connections
  (\<open>connection.go\<close>), access control values in entries (\<open>aci.go\<close>), who a clause is for, the walk over
  the rules, and the checks on a whole policy (\<open>value_batch.go\<close>).
\<close>

section \<open>Connections\<close>

definition To4 :: "bytes \<Rightarrow> bytes option" where
  "To4 ip = (if length ip = 4 then Some ip
     else if length ip = 16 \<and> take 12 ip = replicate 10 (CHR 0x00) @ [CHR 0xFF, CHR 0xFF] then Some (drop 12 ip) else None)"

definition To16 :: "bytes \<Rightarrow> bytes option" where
  "To16 ip = (if length ip = 4 then Some (replicate 10 (CHR 0x00) @ [CHR 0xFF, CHR 0xFF] @ ip)
     else if length ip = 16 then Some ip else None)"

definition LastIndexByte :: "bytes \<Rightarrow> char \<Rightarrow> nat option" where
  "LastIndexByte s c = map_option (\<lambda>i. length s - 1 - i) (IndexByte (rev s) c)"

text \<open>The port of a pattern in braces; the inner option is the absent one.\<close>

definition peer_port :: "bytes \<Rightarrow> (bytes \<times> int option) option" where
  "peer_port v =
     (case LastIndexByte v (CHR ''{'') of
        None \<Rightarrow> Some (v, None)
      | Some opening \<Rightarrow>
          if \<not> HasSuffix v ''}'' \<or> opening = length v - 2 then None
          else (case ParseInt (take (length v - 1 - (opening + 1)) (drop (opening + 1) v)) of
              None \<Rightarrow> None
            | Some port \<Rightarrow> if port < 0 \<or> 65535 < port then None else Some (take opening v, Some port)))"

definition parsePeerPattern :: "acl_env \<Rightarrow> bytes \<Rightarrow> bool \<Rightarrow> (bytes \<times> bytes \<times> int option) option" where
  "parsePeerPattern E v0 ipv6 =
     (case peer_port v0 of None \<Rightarrow> None
      | Some (v, port) \<Rightarrow> (case Cut (CHR ''%'') v of (addressText, maskText, hasMask) \<Rightarrow>
          (case ParseIP E addressText of None \<Rightarrow> None
           | Some parsed_ip \<Rightarrow>
               (case (if ipv6 then (if To4 parsed_ip \<noteq> None then None else To16 parsed_ip) else To4 parsed_ip) of
                  None \<Rightarrow> None
                | Some address \<Rightarrow>
                    if \<not> hasMask then Some (address, replicate (if ipv6 then 16 else 4) (CHR 0xFF), port)
                    else (case ParseIP E maskText of None \<Rightarrow> None
                      | Some m \<Rightarrow> (case (if ipv6 then To16 m else To4 m) of None \<Rightarrow> None
                          | Some netmask \<Rightarrow> Some (address, netmask, port)))))))"

definition parseOpenLDAPPeerName :: "acl_env \<Rightarrow> bytes \<Rightarrow> (bytes \<times> int) option" where
  "parseOpenLDAPPeerName E v =
     (if length v < 3 \<or> \<not> EqualFold (acl_unicode E) (take 3 v) ''IP='' then None
      else case SplitHostPort E (drop 3 v) of None \<Rightarrow> None
        | Some (host, portText) \<Rightarrow> (case ParseInt portText of None \<Rightarrow> None
            | Some port \<Rightarrow> map_option (\<lambda>ip. (ip, port)) (ParseIP E host)))"

definition masked_equal :: "bytes \<Rightarrow> bytes \<Rightarrow> bytes \<Rightarrow> bool" where
  "masked_equal actual netmask wanted \<longleftrightarrow>
     (\<forall>i<length wanted. (of_char (actual ! i) :: 8 word) AND of_char (netmask ! i) = of_char (wanted ! i))"

definition matchesPeerAddress :: "acl_env \<Rightarrow> bytes \<Rightarrow> bytes \<Rightarrow> bool \<Rightarrow> bool" where
  "matchesPeerAddress E pattern candidate ipv6 =
     (case (parsePeerPattern E pattern ipv6, parseOpenLDAPPeerName E candidate) of
        (Some (wanted, netmask, wantedPort), Some (parsed_ip, actualPort)) \<Rightarrow>
          if wantedPort \<noteq> None \<and> wantedPort \<noteq> Some actualPort then False
          else (case (if ipv6 then (if To4 parsed_ip \<noteq> None then None else To16 parsed_ip) else To4 parsed_ip) of
              None \<Rightarrow> False
            | Some actual \<Rightarrow> length actual = length wanted \<and> length netmask = length wanted \<and> masked_equal actual netmask wanted)
      | _ \<Rightarrow> False)"

definition TrimSuffix :: "bytes \<Rightarrow> bytes \<Rightarrow> bytes" where
  "TrimSuffix s p = (if HasSuffix s p then take (length s - length p) s else s)"

definition matchesStringMatcher :: "acl_env \<Rightarrow> StringMatcher \<Rightarrow> bytes \<Rightarrow> matchContext \<Rightarrow> bool" where
  "matchesStringMatcher E matcher candidate context =
     (if sm_Value matcher = ''*'' then True
      else if candidate = [] then False
      else case (if sm_Expand matcher then expandACLPattern (sm_Value matcher) context else Some (sm_Value matcher)) of
        None \<Rightarrow> False
      | Some v \<Rightarrow> (case sm_Style matcher of
            StringExact \<Rightarrow> EqualFold (acl_unicode E) v candidate
          | StringRegex \<Rightarrow> (case sm_Pattern matcher of
                Some p \<Rightarrow> MatchString p candidate
              | None \<Rightarrow> (case regexp_Compile E (''(?i)'' @ v) of None \<Rightarrow> False | Some p \<Rightarrow> MatchString p candidate))
          | StringSubtree \<Rightarrow>
              (let c = TrimSuffix (ToLower (acl_unicode E) candidate) ''.''; w = TrimSuffix (ToLower (acl_unicode E) v) ''.''
               in c = w \<or> HasSuffix c (''.'' @ w))
          | StringIP \<Rightarrow> matchesPeerAddress E v candidate False
          | StringIPv6 \<Rightarrow> matchesPeerAddress E v candidate True
          | StringPath \<Rightarrow> HasPrefix candidate ''PATH='' \<and> drop 5 candidate = v))"

section \<open>Groups\<close>

record aclDynamicGroupURL =
  dg_base :: DN
  dg_scope :: Scope
  dg_filter :: "Filter option"

definition parseACLDynamicGroupURL :: "acl_env \<Rightarrow> bytes \<Rightarrow> aclDynamicGroupURL option option" where
  "parseACLDynamicGroupURL E raw =
     (case local_ldap_url E raw of None \<Rightarrow> Some None
      | Some u \<Rightarrow> (case PathUnescape (TrimPrefix (url_EscapedPath u) ''/'') of None \<Rightarrow> Some None
        | Some baseText \<Rightarrow> do {
            base \<leftarrow> attempt (ParseDN (acl_lib E) (acl_unicode E) baseText);
            case base of None \<Rightarrow> Some None
            | Some b \<Rightarrow>
                let given = (if url_RawQuery u = [] then [] else Split (CHR ''?'') (url_RawQuery u));
                    components = pad_components 3 given in
                Some (if 3 < length given then None
                else case PathUnescape (components ! 0) of None \<Rightarrow> None
                  | Some attributes \<Rightarrow> if attributes \<noteq> [] then None
                      else (case PathUnescape (components ! 1) of None \<Rightarrow> None
                        | Some scopeText \<Rightarrow> (case url_scope E scopeText of None \<Rightarrow> None
                          | Some scope \<Rightarrow> (case PathUnescape (components ! 2) of None \<Rightarrow> None
                            | Some filterText \<Rightarrow>
                                if filterText = [] then Some \<lparr>dg_base = b, dg_scope = scope, dg_filter = None\<rparr>
                                else map_option (\<lambda>f. \<lparr>dg_base = b, dg_scope = scope, dg_filter = Some f\<rparr>)
                                  (CompileFilter E filterText))))) }))"

text \<open>
  Whether one URL of a dynamic groupEntry covers the subject; a normaliser makes it the schema-aware
  version.
\<close>

definition dynamic_url_contains ::
  "acl_env \<Rightarrow> acl_normalizer option \<Rightarrow> DN \<Rightarrow> Target \<Rightarrow> EntryReader \<Rightarrow> bytes \<Rightarrow> bool option" where
  "dynamic_url_contains E normalizer subjectDN target reader url = do {
     parsed_url \<leftarrow> parseACLDynamicGroupURL E url;
     case parsed_url of None \<Rightarrow> Some False
     | Some u \<Rightarrow> do {
         base \<leftarrow> attempt (normalizeACLDN E (dg_base u) normalizer);
         case base of None \<Rightarrow> Some False
         | Some b \<Rightarrow> do {
             inside \<leftarrow> InScope (acl_lib E) b subjectDN (dg_scope u);
             if \<not> inside then Some False
             else case dg_filter u of None \<Rightarrow> Some True
               | Some f \<Rightarrow> do {
                   targetDN \<leftarrow> attempt (parseACLDN E (e_DN (t_Entry target)) normalizer);
                   same \<leftarrow> (case targetDN of None \<Rightarrow> Some False | Some d \<Rightarrow> Equal (acl_lib E) d subjectDN);
                   case (if same then Some (t_Entry target) else er_Get reader subjectDN) of
                     None \<Rightarrow> Some False
                   | Some subject \<Rightarrow>
                       on_success (MatchWith (acl_unicode E) (acl_matcher E (t_Schema target)) subject f) Some } } } }"

fun some_value :: "('a \<Rightarrow> bool option) \<Rightarrow> 'a list \<Rightarrow> bool option" where
  "some_value f [] = Some False"
| "some_value f (v # vs) = do { found \<leftarrow> f v; if found then Some True else some_value f vs }"

definition dynamic_group ::
  "acl_env \<Rightarrow> acl_normalizer option \<Rightarrow> Entry \<Rightarrow> bytes \<Rightarrow> bytes \<Rightarrow> Target \<Rightarrow> EntryReader \<Rightarrow> bool option" where
  "dynamic_group E normalizer groupEntry attribute rawSubjectDN target reader =
     on_success (parseACLDN E rawSubjectDN normalizer) (\<lambda>subjectDN.
       some_value (dynamic_url_contains E normalizer subjectDN target reader) (acl_values E (t_Schema target) groupEntry attribute))"

definition dynamicGroupContainsSubject ::
  "acl_env \<Rightarrow> Entry \<Rightarrow> bytes \<Rightarrow> bytes \<Rightarrow> Target \<Rightarrow> EntryReader \<Rightarrow> bool option" where
  "dynamicGroupContainsSubject E = dynamic_group E None"

definition schemaAwareDynamicGroupContainsSubject ::
  "acl_env \<Rightarrow> Entry \<Rightarrow> bytes \<Rightarrow> bytes \<Rightarrow> Target \<Rightarrow> EntryReader \<Rightarrow> bool option" where
  "schemaAwareDynamicGroupContainsSubject E groupEntry attribute rawSubjectDN target reader =
     dynamic_group E (t_DNNormalizer target) groupEntry attribute rawSubjectDN target reader"

definition group_class_ok :: "acl_env \<Rightarrow> TargetSchema option \<Rightarrow> Entry \<Rightarrow> bytes \<Rightarrow> bool" where
  "group_class_ok E schema groupEntry objectClass =
     (case schema of Some s \<Rightarrow> EntryHasObjectClass s groupEntry objectClass
      | None \<Rightarrow> HasValue (acl_unicode E) groupEntry ''objectClass'' objectClass)"

definition uri_group :: "TargetSchema option \<Rightarrow> bytes \<Rightarrow> bool" where
  "uri_group schema attribute =
     (case schema of Some s \<Rightarrow> AttributeDescriptionSubtype s attribute ''labeledURI'' | None \<Rightarrow> False)"

definition matchesGroup ::
  "acl_env \<Rightarrow> WhoMatcher \<Rightarrow> bytes \<Rightarrow> Target \<Rightarrow> EntryReader option \<Rightarrow> matchContext \<Rightarrow> bool option" where
  "matchesGroup E matcher subjectDN target reader context =
     (case reader of None \<Rightarrow> Some False
      | Some rd \<Rightarrow>
          if subjectDN = [] then Some False
          else do {
            groupDN \<leftarrow> (if w_GroupExpand matcher
              then (case expandACLPattern (w_GroupPattern matcher) context of None \<Rightarrow> Some None
                | Some expanded \<Rightarrow> attempt (ParseDN (acl_lib E) (acl_unicode E) expanded))
              else Some (Some (dm_DN (w_DN matcher))));
            case groupDN of None \<Rightarrow> Some False
            | Some dn \<Rightarrow> (case er_Get rd dn of None \<Rightarrow> Some False
              | Some groupEntry \<Rightarrow>
                  if \<not> group_class_ok E (t_Schema target) groupEntry (w_GroupObjectClass matcher) then Some False
                  else if uri_group (t_Schema target) (w_GroupAttribute matcher)
                  then dynamicGroupContainsSubject E groupEntry (w_GroupAttribute matcher) subjectDN target rd
                  else entryContainsDN E groupEntry (w_GroupAttribute matcher) subjectDN (t_Schema target)) })"

definition matchesSchemaAwareGroup ::
  "acl_env \<Rightarrow> WhoMatcher \<Rightarrow> bytes \<Rightarrow> Target \<Rightarrow> EntryReader option \<Rightarrow> matchContext \<Rightarrow> bool option" where
  "matchesSchemaAwareGroup E matcher rawSubjectDN target reader context =
     (case reader of None \<Rightarrow> Some False
      | Some rd \<Rightarrow>
          if rawSubjectDN = [] \<or> t_DNNormalizer target = None then Some False
          else (case (if w_GroupExpand matcher then expandACLPattern (w_GroupPattern matcher) context
                else Some (DN_String (dm_DN (w_DN matcher)))) of
              None \<Rightarrow> Some False
            | Some groupText \<Rightarrow> on_success (parseACLDN E groupText (t_DNNormalizer target)) (\<lambda>groupDN.
                case er_Get rd groupDN of None \<Rightarrow> Some False
                | Some groupEntry \<Rightarrow>
                    if \<not> group_class_ok E (t_Schema target) groupEntry (w_GroupObjectClass matcher) then Some False
                    else if uri_group (t_Schema target) (w_GroupAttribute matcher)
                    then schemaAwareDynamicGroupContainsSubject E groupEntry (w_GroupAttribute matcher) rawSubjectDN target rd
                    else entryContainsDNWithNormalizer E groupEntry (w_GroupAttribute matcher) rawSubjectDN
                      (t_Schema target) (t_DNNormalizer target))))"

section \<open>Access control values of entries\<close>

datatype aciAssertionScope = aciAssertEntry | aciAssertChildren

definition aciScopeMatches :: "aci_scope \<Rightarrow> aciAssertionScope \<Rightarrow> bool" where
  "aciScopeMatches scope asserted =
     (case asserted of aciAssertEntry \<Rightarrow> scope = ACI_Entry \<or> scope = ACI_Subtree
      | aciAssertChildren \<Rightarrow> scope = ACI_Children \<or> scope = ACI_Subtree)"

definition aci_selector_applies :: "unicode \<Rightarrow> bytes \<Rightarrow> bytes option \<Rightarrow> AttributeSelector \<Rightarrow> bool" where
  "aci_selector_applies U attribute v selector \<longleftrightarrow>
     as_All selector \<or>
     EqualFold U (as_Name selector) attribute \<and>
       (\<not> as_HasValue selector \<or>
        (case v of None \<Rightarrow> True
         | Some candidate \<Rightarrow>
             if as_Prefix selector
             then length (as_Value selector) \<le> length candidate \<and>
               EqualFold U (take (length (as_Value selector)) candidate) (as_Value selector)
             else EqualFold U candidate (as_Value selector)))"

definition aciPermissionApplies :: "acl_env \<Rightarrow> Permission \<Rightarrow> Target \<Rightarrow> bool" where
  "aciPermissionApplies E permission target =
     (let base = fst (Cut (CHR '';'') (t_Attribute target)); attribute = (if base = [] then ''entry'' else base) in
      list_ex (aci_selector_applies (acl_unicode E) attribute (t_Value target)) (pm_Attributes permission))"

definition aciRights :: "Right \<Rightarrow> Privilege" where
  "aciRights rights =
     (if rights AND RightAuth \<noteq> 0 then Auth else 0) OR
     (if rights AND RightDisclose \<noteq> 0 then Disclose else 0) OR
     (if rights AND RightCompare \<noteq> 0 then Compare_privilege else 0) OR
     (if rights AND RightSearch \<noteq> 0 then Search else 0) OR
     (if rights AND RightRead \<noteq> 0 then Read else 0) OR
     (if rights AND RightWrite \<noteq> 0 then Write else 0)"

definition set_matcher :: "bytes \<Rightarrow> WhoMatcher" where
  "set_matcher pattern =
     \<lparr>w_Kind = WhoSet, w_Real = False,
      w_DN = \<lparr>dm_Style = DNAny, dm_DN = zero_DN, dm_Pattern = None, dm_Raw = [], dm_Expand = False, dm_Level = 0\<rparr>,
      w_Attribute = [], w_GroupObjectClass = [], w_GroupAttribute = [], w_GroupPattern = [], w_GroupExpand = False,
      w_Connection = \<lparr>sm_Style = StringExact, sm_Value = [], sm_Pattern = None, sm_Expand = False\<rparr>,
      w_SetPattern = pattern, w_SetExpand = False, w_ACIAttribute = [], w_SelfLevel = 0, w_SSFKind = SSFOverall,
      w_MinimumSSF = 0\<rparr>"

definition group_matcher :: "DN \<Rightarrow> aci_value \<Rightarrow> WhoMatcher" where
  "group_matcher groupDN v =
     (set_matcher [])\<lparr>w_Kind := WhoGroup,
        w_DN := \<lparr>dm_Style = DNExact, dm_DN = groupDN, dm_Pattern = None, dm_Raw = [], dm_Expand = False, dm_Level = 0\<rparr>,
        w_GroupObjectClass := av_ObjectClass v, w_GroupAttribute := av_GroupAttribute v,
        w_GroupPattern := av_Subject v, w_GroupExpand := hasACLExpansion (av_Subject v)\<rparr>"

definition matchesACISetReference ::
  "acl_env \<Rightarrow> bytes \<Rightarrow> bytes \<Rightarrow> Target \<Rightarrow> DN \<Rightarrow> EntryReader option \<Rightarrow> matchContext \<Rightarrow> bool option" where
  "matchesACISetReference E reference subjectDN target targetDN reader context =
     (case reader of None \<Rightarrow> Some False
      | Some rd \<Rightarrow>
          (let parts = SplitN 2 (CHR ''/'') reference;
               attribute = (if length parts = 2 \<and> parts ! 1 \<noteq> [] then parts ! 1 else ''template'') in
           on_success (ParseDN (acl_lib E) (acl_unicode E) (hd parts)) (\<lambda>dn. do {
             same \<leftarrow> Equal (acl_lib E) dn targetDN;
             case (if same then Some (t_Entry target) else er_Get rd dn) of
               None \<Rightarrow> Some False
             | Some entry \<Rightarrow> (case acl_values E (t_Schema target) entry attribute of
                 [] \<Rightarrow> Some False
               | v # _ \<Rightarrow> matchesSet E (set_matcher v) subjectDN target targetDN reader context) })))"

definition aciSubjectMatches ::
  "acl_env \<Rightarrow> aci_value \<Rightarrow> Subject \<Rightarrow> Target \<Rightarrow> DN \<Rightarrow> EntryReader option \<Rightarrow> matchContext \<Rightarrow> bool option" where
  "aciSubjectMatches E v subject target targetDN reader context =
     (let L = acl_lib E; parse = ParseDN (acl_lib E) (acl_unicode E) in
      if av_SubjectKind v = SubjectPublic then Some True
      else if s_DN subject = [] then Some False
      else if av_SubjectKind v = SubjectUsers then Some True
      else on_success (parse (s_DN subject)) (\<lambda>subjectDN.
        case av_SubjectKind v of
          SubjectSelf \<Rightarrow> Equal L subjectDN targetDN
        | SubjectAccessID \<Rightarrow> on_success (parse (av_Subject v)) (Equal L subjectDN)
        | SubjectSubtree \<Rightarrow> on_success (parse (av_Subject v)) (\<lambda>assertion. do {
            equal \<leftarrow> Equal L subjectDN assertion;
            if equal then Some True else AncestorOf L assertion subjectDN })
        | SubjectOneLevel \<Rightarrow> on_success (parse (av_Subject v)) (\<lambda>assertion. do {
            (parent, ok) \<leftarrow> Parent L (acl_unicode E) assertion;
            if ok then Equal L subjectDN parent else Some False })
        | SubjectChildren \<Rightarrow> on_success (parse (av_Subject v)) (\<lambda>assertion. do {
            equal \<leftarrow> Equal L subjectDN assertion;
            if equal then Some False else AncestorOf L assertion subjectDN })
        | SubjectDNAttribute \<Rightarrow> entryContainsDN E (t_Entry target) (av_Subject v) (s_DN subject) (t_Schema target)
        | SubjectGroup \<Rightarrow> on_success (parse (av_Subject v)) (\<lambda>groupDN.
            matchesGroup E (group_matcher groupDN v) (s_DN subject) target reader context)
        | SubjectRole \<Rightarrow> on_success (parse (av_Subject v)) (\<lambda>groupDN.
            matchesGroup E (group_matcher groupDN v) (s_DN subject) target reader context)
        | SubjectSet \<Rightarrow> matchesSet E (set_matcher (av_Subject v)) (s_DN subject) target targetDN reader context
        | SubjectSetReference \<Rightarrow> matchesACISetReference E (av_Subject v) (s_DN subject) target targetDN reader context
        | _ \<Rightarrow> Some False))"

definition aci_masks :: "acl_env \<Rightarrow> Target \<Rightarrow> Permission list \<Rightarrow> Privilege \<times> Privilege" where
  "aci_masks E target permissions =
     (let rights = (\<lambda>granted. foldl (\<lambda>m p. if aciPermissionApplies E p target \<and> pm_Grant p = granted
            then m OR aciRights (pm_Rights p) else m) 0 permissions)
      in (rights True, rights False))"

definition aciValueMask ::
  "acl_env \<Rightarrow> aci_value \<Rightarrow> Subject \<Rightarrow> Target \<Rightarrow> DN \<Rightarrow> EntryReader option \<Rightarrow> matchContext \<Rightarrow> (Privilege \<times> Privilege) option" where
  "aciValueMask E v subject target targetDN reader context =
     (case aci_masks E target (av_Permissions v) of (grant, deny) \<Rightarrow>
      if grant = 0 \<and> deny = 0 then Some (0, 0)
      else do {
        matched \<leftarrow> aciSubjectMatches E v subject target targetDN reader context;
        Some (if matched then (grant, deny) else (0, 0)) })"

fun evaluateACIValues ::
  "acl_env \<Rightarrow> aciAssertionScope \<Rightarrow> Subject \<Rightarrow> Target \<Rightarrow> DN \<Rightarrow> EntryReader option \<Rightarrow> matchContext \<Rightarrow>
   Privilege \<Rightarrow> Privilege \<Rightarrow> bytes list \<Rightarrow> (Privilege \<times> Privilege) option" where
  "evaluateACIValues E assertedScope subject target targetDN reader context grant deny [] = Some (grant, deny)"
| "evaluateACIValues E assertedScope subject target targetDN reader context grant deny (raw # raws) = do {
     v \<leftarrow> attempt (aci_Parse (acl_lib E) (acl_unicode E) raw);
     (g, d) \<leftarrow> (case v of None \<Rightarrow> Some (0, 0)
        | Some value \<Rightarrow> if \<not> aciScopeMatches (av_Scope value) assertedScope then Some (0, 0)
            else aciValueMask E value subject target targetDN reader context);
     evaluateACIValues E assertedScope subject target targetDN reader context (grant OR g) (deny OR d) raws }"

text \<open>The walk to the root over the values that reach down to the target.\<close>

function aci_ancestors ::
  "acl_env \<Rightarrow> bytes \<Rightarrow> Subject \<Rightarrow> Target \<Rightarrow> DN \<Rightarrow> EntryReader \<Rightarrow> matchContext \<Rightarrow> DN \<Rightarrow> (Privilege \<times> Privilege) option" where
  "aci_ancestors E attribute subject target targetDN reader context dn = do {
     (parent, ok) \<leftarrow> Parent (acl_lib E) (acl_unicode E) dn;
     if \<not> ok then Some (0, 0)
     else do {
       depth \<leftarrow> Depth parent;
       if depth = 0 then Some (0, 0)
       else case er_Get reader parent of None \<Rightarrow> Some (0, 0)
         | Some entry \<Rightarrow> do {
             (grant, deny) \<leftarrow> evaluateACIValues E aciAssertChildren subject target targetDN (Some reader) context 0 0
               (acl_values E (t_Schema target) entry attribute);
             if grant \<noteq> 0 \<or> deny \<noteq> 0 then Some (grant, deny)
             else aci_ancestors E attribute subject target targetDN reader context parent } } }"
  by pat_completeness auto
termination
  by (relation "measure (\<lambda>(E, attribute, subject, target, targetDN, reader, context, dn).
        case parsed dn of None \<Rightarrow> 0 | Some p \<Rightarrow> length p)")
    (auto simp: Parent_def Option.bind_eq_Some_conv split: if_splits)

declare aci_ancestors.simps [simp del]

definition evaluateACIMatcher ::
  "acl_env \<Rightarrow> WhoMatcher \<Rightarrow> Subject \<Rightarrow> Target \<Rightarrow> DN \<Rightarrow> EntryReader option \<Rightarrow> matchContext \<Rightarrow> (Privilege \<times> Privilege) option" where
  "evaluateACIMatcher E matcher subject target targetDN reader context = do {
     depth \<leftarrow> Depth targetDN;
     if depth = 0 then Some (0, 0)
     else do {
       (grant, deny) \<leftarrow> evaluateACIValues E aciAssertEntry subject target targetDN reader context 0 0
         (acl_values E (t_Schema target) (t_Entry target) (w_ACIAttribute matcher));
       case reader of
         Some rd \<Rightarrow> if grant \<noteq> 0 \<or> deny \<noteq> 0 then Some (grant, deny)
           else aci_ancestors E (w_ACIAttribute matcher) subject target targetDN rd context targetDN
       | None \<Rightarrow> Some (grant, deny) } }"

section \<open>Who a clause is for\<close>

definition realSubjectDN :: "Subject \<Rightarrow> bytes" where
  "realSubjectDN subject = (if s_RealDN subject \<noteq> [] then s_RealDN subject else s_DN subject)"

definition matchesOneWho ::
  "acl_env \<Rightarrow> WhoMatcher \<Rightarrow> Subject \<Rightarrow> Target \<Rightarrow> DN \<Rightarrow> EntryReader option \<Rightarrow> matchContext \<Rightarrow> bool option" where
  "matchesOneWho E matcher subject target targetDN reader context =
     (let subjectDN = (if w_Real matcher then realSubjectDN subject else s_DN subject); N = t_DNNormalizer target in
      case w_Kind matcher of
        WhoAny \<Rightarrow> Some True
      | WhoAnonymous \<Rightarrow> Some (subjectDN = [])
      | WhoUsers \<Rightarrow> Some (subjectDN \<noteq> [])
      | WhoSelf \<Rightarrow> matchesSelfLevel E subjectDN targetDN (w_SelfLevel matcher) N
      | WhoDN \<Rightarrow> on_success (parseACLDN E subjectDN N) (\<lambda>parsedSubject.
          matchesExpandedACLDN E (w_DN matcher) parsedSubject context N)
      | WhoDNAttribute \<Rightarrow> entryContainsDNWithNormalizer E (t_Entry target) (w_Attribute matcher) subjectDN (t_Schema target) N
      | WhoGroup \<Rightarrow> if N \<noteq> None then matchesSchemaAwareGroup E matcher subjectDN target reader context
          else matchesGroup E matcher subjectDN target reader context
      | WhoPeerName \<Rightarrow> Some (matchesStringMatcher E (w_Connection matcher) (s_PeerName subject) context)
      | WhoSockName \<Rightarrow> Some (matchesStringMatcher E (w_Connection matcher) (s_SockName subject) context)
      | WhoDomain \<Rightarrow> Some (matchesStringMatcher E (w_Connection matcher) (s_Domain subject) context)
      | WhoSockURL \<Rightarrow> Some (matchesStringMatcher E (w_Connection matcher) (s_SockURL subject) context)
      | WhoSet \<Rightarrow> if N \<noteq> None then matchesSchemaAwareSet E matcher subjectDN target targetDN reader context
          else matchesSet E matcher subjectDN target targetDN reader context
      | WhoSSF \<Rightarrow> Some (w_MinimumSSF matcher \<le> (case w_SSFKind matcher of SSFOverall \<Rightarrow> s_SSF subject
          | SSFTransport \<Rightarrow> s_TransportSSF subject | SSFTLS \<Rightarrow> s_TLSSSF subject | SSFSASL \<Rightarrow> s_SASLSSF subject))
      | WhoACI \<Rightarrow> Some False)"

record whoMatchResult =
  wm_matched :: bool
  wm_dynamic :: bool
  wm_grant :: Privilege
  wm_deny :: Privilege

definition no_who :: whoMatchResult where
  "no_who = \<lparr>wm_matched = False, wm_dynamic = False, wm_grant = 0, wm_deny = 0\<rparr>"

fun who_loop ::
  "acl_env \<Rightarrow> Subject \<Rightarrow> Target \<Rightarrow> DN \<Rightarrow> EntryReader option \<Rightarrow> matchContext \<Rightarrow> whoMatchResult \<Rightarrow> WhoMatcher list \<Rightarrow>
   whoMatchResult option" where
  "who_loop E subject target targetDN reader context result [] = Some result"
| "who_loop E subject target targetDN reader context result (matcher # matchers) =
     (if w_Kind matcher = WhoACI then do {
        (grant, deny) \<leftarrow> evaluateACIMatcher E matcher subject target targetDN reader context;
        who_loop E subject target targetDN reader context
          (result\<lparr>wm_dynamic := True, wm_grant := wm_grant result OR grant, wm_deny := wm_deny result OR deny\<rparr>) matchers }
      else do {
        matched \<leftarrow> matchesOneWho E matcher subject target targetDN reader context;
        if \<not> matched then Some no_who else who_loop E subject target targetDN reader context result matchers })"

definition self_value_ok :: "acl_env \<Rightarrow> bool \<Rightarrow> bytes \<Rightarrow> Target \<Rightarrow> bool option" where
  "self_value_ok E asked subjectDN target =
     (if \<not> asked then Some True
      else if \<not> targetIsDNValued target then Some False
      else valueIsSubjectDN E (t_Value target) subjectDN (t_DNNormalizer target))"

definition matchesWho ::
  "acl_env \<Rightarrow> WhoMatcher list \<Rightarrow> Grant \<Rightarrow> Subject \<Rightarrow> Target \<Rightarrow> DN \<Rightarrow> EntryReader option \<Rightarrow> matchContext \<Rightarrow>
   whoMatchResult option" where
  "matchesWho E matchers grant subject target targetDN reader context = do {
     result \<leftarrow> who_loop E subject target targetDN reader context
       \<lparr>wm_matched = True, wm_dynamic = False, wm_grant = 0, wm_deny = 0\<rparr> matchers;
     if \<not> wm_matched result then Some no_who
     else do {
       self \<leftarrow> self_value_ok E (g_SelfValue grant) (s_DN subject) target;
       if \<not> self then Some no_who
       else do {
         real \<leftarrow> self_value_ok E (g_RealSelfValue grant) (realSubjectDN subject) target;
         if \<not> real then Some no_who
         else Some (if wm_dynamic result \<and> wm_grant result = 0 \<and> wm_deny result = 0 then no_who else result) } } }"

section \<open>The decision\<close>

definition applyGrant :: "Privilege \<Rightarrow> Grant \<Rightarrow> Privilege" where
  "applyGrant current grant =
     (case g_Mode grant of grantSet \<Rightarrow> g_Privileges grant
      | grantAdd \<Rightarrow> current OR g_Privileges grant
      | grantRemove \<Rightarrow> current AND NOT (g_Privileges grant)
      | grantIdentity \<Rightarrow> current)"

definition dynamic_privileges :: "Privilege \<Rightarrow> Privilege \<Rightarrow> Privilege \<Rightarrow> Privilege" where
  "dynamic_privileges privileges grant deny =
     (if deny = 0 then privileges OR grant
      else if grant = 0 then privileges AND NOT deny
      else privileges OR (grant AND NOT deny))"

text \<open>How the clauses of a rule end: a decision, a break with the privileges so far, or no clause left.\<close>

datatype clause_outcome = Decided bool | BrokeWith Privilege | NoClauseLeft

fun clause_loop ::
  "acl_env \<Rightarrow> Subject \<Rightarrow> Target \<Rightarrow> DN \<Rightarrow> EntryReader option \<Rightarrow> Privilege \<Rightarrow> matchContext \<Rightarrow> Privilege \<Rightarrow> ByClause list \<Rightarrow>
   clause_outcome option" where
  "clause_loop E subject target targetDN reader required context privileges [] = Some NoClauseLeft"
| "clause_loop E subject target targetDN reader required context privileges (clause # clauses) = do {
     match \<leftarrow> matchesWho E (by_Who clause) (by_Grant clause) subject target targetDN reader context;
     if \<not> wm_matched match \<or> wm_dynamic match \<and> g_Privileges (by_Grant clause) AND required \<noteq> required
     then clause_loop E subject target targetDN reader required context privileges clauses
     else
       let privileges' = (if wm_dynamic match
             then dynamic_privileges privileges (wm_grant match AND g_Privileges (by_Grant clause)) (wm_deny match)
             else applyGrant privileges (by_Grant clause)) in
       case by_Control clause of
         ControlStop \<Rightarrow> Some (Decided (privileges' AND required = required))
       | ControlContinue \<Rightarrow> clause_loop E subject target targetDN reader required context privileges' clauses
       | ControlBreak \<Rightarrow> Some (BrokeWith privileges') }"

fun rule_loop ::
  "acl_env \<Rightarrow> Subject \<Rightarrow> Target \<Rightarrow> DN \<Rightarrow> EntryReader option \<Rightarrow> Privilege \<Rightarrow> Privilege \<Rightarrow> Rule list \<Rightarrow> bool option" where
  "rule_loop E subject target targetDN reader required privileges [] = Some False"
| "rule_loop E subject target targetDN reader required privileges (rule # rules) = do {
     matched \<leftarrow> matchTarget E (ru_Target rule) target targetDN;
     case matched of
       None \<Rightarrow> rule_loop E subject target targetDN reader required privileges rules
     | Some context \<Rightarrow> do {
         outcome \<leftarrow> clause_loop E subject target targetDN reader required context privileges (ru_By rule);
         case outcome of Decided d \<Rightarrow> Some d
         | BrokeWith privileges' \<Rightarrow> rule_loop E subject target targetDN reader required privileges' rules
         | NoClauseLeft \<Rightarrow> Some False } }"

definition configSuffix :: "acl_env \<Rightarrow> DN option" where
  "configSuffix E = (case ParseDN (acl_lib E) (acl_unicode E) ''cn=config'' of Ok dn \<Rightarrow> Some dn | _ \<Rightarrow> None)"

definition under_suffix :: "acl_env \<Rightarrow> DN \<Rightarrow> DN \<Rightarrow> bool option" where
  "under_suffix E suffixDN target = do {
     equal \<leftarrow> Equal (acl_lib E) suffixDN target;
     if equal then Some True else AncestorOf (acl_lib E) suffixDN target }"

definition defaultPrivileges :: "acl_env \<Rightarrow> DN \<Rightarrow> Privilege option" where
  "defaultPrivileges E target = do {
     suffixDN \<leftarrow> configSuffix E;
     inside \<leftarrow> under_suffix E suffixDN target;
     Some (if inside then NoneLevel else ReadLevel) }"

fun database_rules :: "acl_env \<Rightarrow> DN \<Rightarrow> acl_normalizer option \<Rightarrow> databaseRules list \<Rightarrow> Rule list option" where
  "database_rules E target normalizer [] = Some []"
| "database_rules E target normalizer (candidate # candidates) = do {
     suffixDN \<leftarrow> attempt (normalizeACLDN E (db_Suffix candidate) normalizer);
     inside \<leftarrow> (case suffixDN of None \<Rightarrow> Some False | Some s \<Rightarrow> under_suffix E s target);
     if inside then Some (db_Rules candidate) else database_rules E target normalizer candidates }"

definition rulesFor :: "acl_env \<Rightarrow> Policy \<Rightarrow> DN \<Rightarrow> acl_normalizer option \<Rightarrow> Rule list option" where
  "rulesFor E policy target normalizer =
     map_option (\<lambda>database. database @ p_global policy) (database_rules E target normalizer (p_databases policy))"

definition Allowed :: "acl_env \<Rightarrow> Policy \<Rightarrow> Subject \<Rightarrow> Target \<Rightarrow> Privilege \<Rightarrow> EntryReader option \<Rightarrow> bool option" where
  "Allowed E policy subject target required reader =
     on_success (parseACLDN E (e_DN (t_Entry target)) (t_DNNormalizer target)) (\<lambda>targetDN. do {
       rules \<leftarrow> rulesFor E policy targetDN (t_DNNormalizer target);
       if rules = [] then do {
         privileges \<leftarrow> defaultPrivileges E targetDN;
         Some (privileges AND required = required) }
       else rule_loop E subject target targetDN reader required 0 rules })"

definition DefaultDNAllowed ::
  "acl_env \<Rightarrow> Policy \<Rightarrow> bytes \<Rightarrow> acl_normalizer option \<Rightarrow> Privilege \<Rightarrow> (bool \<times> bool) option" where
  "DefaultDNAllowed E policy rawDN normalizer required =
     (if p_global policy \<noteq> [] \<or> list_ex (\<lambda>d. db_Rules d \<noteq> []) (p_databases policy) then Some (False, False)
      else do {
        allowed \<leftarrow> on_success (parseACLDN E rawDN normalizer) (\<lambda>targetDN. do {
          privileges \<leftarrow> defaultPrivileges E targetDN;
          Some (privileges AND required = required) });
        Some (allowed, True) })"

fun RequiresAddContentACL_in :: "acl_env \<Rightarrow> DN \<Rightarrow> databaseRules list \<Rightarrow> bool option" where
  "RequiresAddContentACL_in E target [] = Some False"
| "RequiresAddContentACL_in E target (d # ds) = do {
     inside \<leftarrow> under_suffix E (db_Suffix d) target;
     if inside then Some (db_AddContentACL d) else RequiresAddContentACL_in E target ds }"

definition RequiresAddContentACL :: "acl_env \<Rightarrow> Policy \<Rightarrow> DN \<Rightarrow> bool option" where
  "RequiresAddContentACL E policy target = RequiresAddContentACL_in E target (p_databases policy)"

section \<open>Building a policy\<close>

definition SortRules :: "Rule list \<Rightarrow> Rule list" where
  "SortRules = sort_key ru_Order"

text \<open>Insertion from the right into a list in reverse, as the swaps of the inner loop do it.\<close>

fun insert_database :: "databaseRules \<Rightarrow> databaseRules list \<Rightarrow> databaseRules list option" where
  "insert_database d [] = Some [d]"
| "insert_database d (x # xs) = do {
     dd \<leftarrow> Depth (db_Suffix d);
     xd \<leftarrow> Depth (db_Suffix x);
     if xd < dd then map_option ((#) x) (insert_database d xs) else Some (d # x # xs) }"

fun sort_databases_from :: "databaseRules list \<Rightarrow> databaseRules list \<Rightarrow> databaseRules list option" where
  "sort_databases_from sorted_rev [] = Some (rev sorted_rev)"
| "sort_databases_from sorted_rev (d # ds) = do { s \<leftarrow> insert_database d sorted_rev; sort_databases_from s ds }"

definition sortDatabases :: "databaseRules list \<Rightarrow> databaseRules list option" where
  "sortDatabases = sort_databases_from []"

definition newPolicy ::
  "acl_env \<Rightarrow> Rule list \<Rightarrow> (bytes, Rule list) fmap \<Rightarrow> (bytes, bool) fmap \<Rightarrow> (dn_error, Policy) go" where
  "newPolicy E global databases addContentACL =
     go_bind (go_map (\<lambda>suffixDN.
         go_bind (ParseDN (acl_lib E) (acl_unicode E) suffixDN) (\<lambda>dn.
           Ok \<lparr>db_Suffix = dn, db_Rules = SortRules (case fmlookup databases suffixDN of None \<Rightarrow> [] | Some rs \<Rightarrow> rs),
               db_AddContentACL = (fmlookup addContentACL suffixDN = Some True)\<rparr>))
         (acl_range E ''newPolicy'' (fmdom databases))) (\<lambda>dbs.
     go_bind (go_of_option (sortDatabases dbs)) (\<lambda>sorted_dbs.
       Ok \<lparr>p_global = SortRules global, p_databases = sorted_dbs\<rparr>))"

definition NewPolicy :: "acl_env \<Rightarrow> Rule list \<Rightarrow> (bytes, Rule list) fmap \<Rightarrow> (dn_error, Policy) go" where
  "NewPolicy E global databases = newPolicy E global databases fmempty"

definition DefaultPolicy :: Policy where
  "DefaultPolicy = \<lparr>p_global = [], p_databases = []\<rparr>"

section \<open>Checks on a policy\<close>

definition batch_who :: "WhoKind \<Rightarrow> bool" where
  "batch_who kind \<longleftrightarrow> kind \<in> {WhoAny, WhoAnonymous, WhoUsers, WhoSelf, WhoDN, WhoPeerName, WhoSockName, WhoDomain,
     WhoSockURL, WhoSSF}"

definition rulesCanBatchValues :: "Rule list \<Rightarrow> bool" where
  "rulesCanBatchValues rules =
     list_all (\<lambda>rule. ts_Value (ru_Target rule) = None \<and> ts_Filter (ru_Target rule) = None \<and>
       list_all (\<lambda>clause. \<not> g_SelfValue (by_Grant clause) \<and> \<not> g_RealSelfValue (by_Grant clause) \<and>
         list_all (\<lambda>matcher. batch_who (w_Kind matcher)) (by_Who clause)) (ru_By rule)) rules"

definition CanBatchValues :: "Policy \<Rightarrow> bool" where
  "CanBatchValues policy \<longleftrightarrow> rulesCanBatchValues (p_global policy) \<and>
     list_all (\<lambda>d. rulesCanBatchValues (db_Rules d)) (p_databases policy)"

end
