(* ===== verification/ACL_Parser.thy ===== *)
theory ACL_Parser
  imports ACL_Policy
begin

text \<open>
  Reading access rules: the grammar of \<open>src/internal/acl/parser.go\<close>, the connection patterns of
  \<open>connection.go\<close>, the check of a policy against a schema (\<open>policy.go\<close>) and the loading of a whole
  OpenLDAP configuration (\<open>openldap.go\<close>).
\<close>

datatype acl_error =
    InvalidOrderedPrefix bytes | UnterminatedQuote | MissingTo | MissingBy | InByClause acl_error
  | TargetDNTwice | UnsupportedTarget bytes | EmptyTargetAttribute | EmptyTargetSelector bytes
  | InTarget bytes acl_error | BadTargetFilter bytes | TargetValueTwice | TargetValueAttribute
  | InvalidValueSelector bytes | EmptyMatchingRule | BadValueRegex bytes | UnsupportedValueStyle bytes
  | EmptyByClause | ByNeedsSubject | UnexpectedToken bytes | InSubject bytes acl_error
  | UnsupportedSubject bytes | NeedsAttribute bytes | UnsupportedSetStyle bytes | SetNeedsExpression
  | InvalidSSF bytes | UnsupportedACIStyle bytes | UnsupportedGroupStyle bytes | InvalidGroupSelector bytes
  | BadDN dn_error | UnsupportedDNModifier bytes | ExpansionInTarget | RegexExpansion | NoSubstitutions
  | NegativeLevel int | UnsupportedDNStyle bytes | BadDNRegex bytes | InvalidLevelStyle bytes | EmptyLevel
  | InvalidLevel bytes | ModifierNeedsLevel bytes | InvalidGrant bytes | ZeroCombined | UnknownPrivilege nat
  | StringNeedsValue bytes | UnsupportedStringModifier bytes bytes | UnsupportedStringStyle bytes bytes
  | BadStringRegex bytes | BadPeerPattern bytes | NoStringSubstitutions bytes | StyleWithoutExpansion bytes

section \<open>Tokens\<close>

abbreviation parse_int :: "bytes \<Rightarrow> int option" where
  "parse_int \<equiv> ParseInt"

definition maxInt :: int where "maxInt = 2 ^ 63 - 1"

definition orderedValue :: "bytes \<Rightarrow> (acl_error, int \<times> bytes) go" where
  "orderedValue raw =
     (let v = TrimSpace raw in
      if \<not> HasPrefix v ''{'' then Ok (maxInt, v)
      else case IndexByte v (CHR ''}'') of
        None \<Rightarrow> Err (InvalidOrderedPrefix v)
      | Some closing \<Rightarrow>
          if closing < 2 then Err (InvalidOrderedPrefix v)
          else (case ParseInt (take (closing - 1) (drop 1 v)) of
              None \<Rightarrow> Err (InvalidOrderedPrefix (take (closing + 1) v))
            | Some order \<Rightarrow> if order < 0 then Err (InvalidOrderedPrefix (take (closing + 1) v))
                else Ok (order, TrimSpace (drop (closing + 1) v))))"

definition token_space :: "char \<Rightarrow> bool" where
  "token_space c = is_space (ord c)"

definition quote_char :: "char \<Rightarrow> bool" where
  "quote_char c \<longleftrightarrow> c = CHR 0x27 \<or> c = CHR 0x22"

text \<open>One token: the open quote, the bytes collected and what is left of the text.\<close>

fun scan_token :: "char option \<Rightarrow> bytes \<Rightarrow> bytes \<Rightarrow> char option \<times> bytes \<times> bytes" where
  "scan_token quote token [] = (quote, token, [])"
| "scan_token quote token (c # rest) =
     (if quote = None \<and> token_space c then (quote, token, c # rest)
      else if quote_char c \<and> quote = None then scan_token (Some c) token rest
      else if quote_char c \<and> quote = Some c then scan_token None token rest
      else if c = CHR 0x5C then
        (case rest of [] \<Rightarrow> scan_token quote (token @ [c]) rest
         | d # rest' \<Rightarrow> scan_token quote (token @ [c, d]) rest')
      else scan_token quote (token @ [c]) rest)"

lemma scan_token_length: "length (snd (snd (scan_token quote token s))) \<le> length s"
proof (induction "length s" arbitrary: quote token s rule: less_induct)
  case less
  show ?case
  proof (cases s)
    case (Cons c rest)
    have "length (snd (snd (scan_token q t rest))) \<le> Suc (length rest)" for q t
      by (rule le_SucI) (rule less, simp add: Cons)
    moreover have "length (snd (snd (scan_token q t (tl rest)))) \<le> Suc (length rest)" for q t
      by (rule order_trans, rule less) (auto simp: Cons)
    ultimately show ?thesis using Cons by (cases rest) (simp_all del: scan_token.simps(2) add: scan_token.simps(2) [of quote token c])
  qed simp
qed

lemma scan_token_progress:
  assumes "\<not> token_space c"
  shows "length (snd (snd (scan_token None token (c # s)))) < Suc (length s)"
proof -
  have "length (snd (snd (scan_token q t s))) \<le> length s" for q t by (rule scan_token_length)
  moreover have "length (snd (snd (scan_token q t (tl s)))) \<le> length s" for q t
    using scan_token_length [of q t "tl s"] by simp
  ultimately show ?thesis using assms by (auto simp: less_Suc_eq_le split: list.split)
qed

lemma scan_rest_length:
  assumes "dropWhile token_space v \<noteq> []" "(q, token, rest) = scan_token None [] (dropWhile token_space v)"
  shows "length rest < length v"
proof -
  obtain c t where ct: "dropWhile token_space v = c # t" using assms(1) by (cases "dropWhile token_space v") auto
  then have "\<not> token_space c" using hd_dropWhile [OF assms(1)] by simp
  from scan_token_progress [OF this, of "[]" t] have "length rest < length (dropWhile token_space v)"
    by (simp add: ct assms(2) [unfolded ct, symmetric] del: scan_token.simps)
  also have "\<dots> \<le> length v" by (rule length_dropWhile_le)
  finally show ?thesis .
qed

function tokenize :: "bytes \<Rightarrow> (acl_error, bytes list) go" where
  "tokenize v =
     (let s = dropWhile token_space v in
      if s = [] then Ok []
      else case scan_token None [] s of (quote, token, rest) \<Rightarrow>
        if quote \<noteq> None then Err UnterminatedQuote
        else go_bind (tokenize rest) (\<lambda>tokens. Ok (if token = [] then tokens else token # tokens)))"
  by pat_completeness auto
termination
  by (relation "measure length") (auto simp del: dropWhile_eq_Nil_conv intro: scan_rest_length)

declare tokenize.simps [simp del]

definition tokenIndex :: "unicode \<Rightarrow> bytes list \<Rightarrow> bytes \<Rightarrow> nat \<Rightarrow> nat option" where
  "tokenIndex U tokens token start = List.find (\<lambda>i. EqualFold U (tokens ! i) token) [start..<length tokens]"

definition splitSelector :: "unicode \<Rightarrow> bytes \<Rightarrow> (bytes \<times> bytes) option" where
  "splitSelector U token =
     (case IndexByte token (CHR ''='') of
        None \<Rightarrow> None
      | Some index \<Rightarrow> if index < 1 then None else Some (ToLower U (take index token), drop (index + 1) token))"

section \<open>Access\<close>

definition access_level :: "bytes \<Rightarrow> Privilege option" where
  "access_level lower =
     map_of [(''none'', NoneLevel), (''disclose'', DiscloseLevel), (''auth'', AuthLevel), (''compare'', CompareLevel),
       (''search'', SearchLevel), (''read'', ReadLevel), (''write'', WriteLevel), (''manage'', ManageLevel)] lower"

definition privilege_letter :: "nat \<Rightarrow> Privilege option" where
  "privilege_letter letter =
     map_of [(ord (CHR ''d''), Disclose), (ord (CHR ''x''), Auth), (ord (CHR ''c''), Compare_privilege),
       (ord (CHR ''s''), Search), (ord (CHR ''r''), Read), (ord (CHR ''w''), WriteAdd OR WriteDelete),
       (ord (CHR ''a''), WriteAdd), (ord (CHR ''z''), WriteDelete), (ord (CHR ''m''), Manage)] letter"

fun collect_letters :: "nat \<Rightarrow> Privilege \<Rightarrow> nat list \<Rightarrow> (acl_error, Privilege) go" where
  "collect_letters n privileges [] = Ok privileges"
| "collect_letters n privileges (letter # letters) =
     (if letter = ord (CHR ''0'') then (if n \<noteq> 1 then Err ZeroCombined else collect_letters n privileges letters)
      else case privilege_letter letter of
        None \<Rightarrow> Err (UnknownPrivilege letter)
      | Some p \<Rightarrow> collect_letters n (privileges OR p) letters)"

definition parsePrivilegeLetters :: "bytes \<Rightarrow> (acl_error, Privilege) go" where
  "parsePrivilegeLetters v = collect_letters (length v) 0 (runes v)"

definition grant_mode :: "char \<Rightarrow> grantMode option" where
  "grant_mode c = (if c = CHR ''='' then Some grantSet else if c = CHR ''+'' then Some grantAdd
     else if c = CHR ''-'' then Some grantRemove else None)"

text \<open>The self modifiers: whether each is given, and what follows.\<close>

definition self_modifier :: "bytes \<Rightarrow> bool \<times> bool \<times> bytes" where
  "self_modifier lower =
     (if HasPrefix lower ''realself'' then (False, True, drop 8 lower)
      else if HasPrefix lower ''self'' then (True, False, drop 4 lower)
      else (False, False, lower))"

definition parseGrant :: "unicode \<Rightarrow> bytes \<Rightarrow> (acl_error, Grant) go" where
  "parseGrant U token =
     (case self_modifier (ToLower U token) of (self, real, lower) \<Rightarrow>
      if (self \<or> real) \<and> lower = [] then Err (ModifierNeedsLevel token)
      else
        let grant = \<lparr>g_Mode = grantSet, g_Privileges = 0, g_SelfValue = self, g_RealSelfValue = real\<rparr> in
        case access_level lower of
          Some level \<Rightarrow> Ok (grant\<lparr>g_Privileges := level\<rparr>)
        | None \<Rightarrow>
            if length lower < 2 then Err (InvalidGrant token)
            else (case grant_mode (hd lower) of
                None \<Rightarrow> Err (InvalidGrant token)
              | Some mode \<Rightarrow> go_bind (parsePrivilegeLetters (tl lower)) (\<lambda>privileges.
                  Ok (grant\<lparr>g_Mode := mode, g_Privileges := privileges\<rparr>))))"

definition isAccessToken :: "unicode \<Rightarrow> bytes \<Rightarrow> bool" where
  "isAccessToken U token =
     (case self_modifier (ToLower U token) of (self, real, lower) \<Rightarrow>
        access_level lower \<noteq> None \<or> 2 \<le> length lower \<and> grant_mode (hd lower) \<noteq> None)"

definition parseControl :: "unicode \<Rightarrow> bytes \<Rightarrow> Control option" where
  "parseControl U token =
     (let lower = ToLower U token in
      if lower = ''stop'' then Some ControlStop else if lower = ''continue'' then Some ControlContinue
      else if lower = ''break'' then Some ControlBreak else None)"

section \<open>Names\<close>

definition parseLevelStyle :: "bytes \<Rightarrow> (acl_error, int option) go" where
  "parseLevelStyle style =
     (if \<not> HasPrefix style ''level'' then Ok None
      else if length style < 7 \<or> style ! 5 \<noteq> CHR ''{'' \<or> last style \<noteq> CHR ''}'' then Err (InvalidLevelStyle style)
      else
        let raw = take (length style - 7) (drop 6 style) in
        if raw = [] then Err EmptyLevel
        else case ParseInt raw of None \<Rightarrow> Err (InvalidLevel raw) | Some level \<Rightarrow> Ok (Some level))"

definition zero_DNMatcher :: DNMatcher where
  "zero_DNMatcher = \<lparr>dm_Style = DNAny, dm_DN = zero_DN, dm_Pattern = None, dm_Raw = [], dm_Expand = False, dm_Level = 0\<rparr>"

definition dn_style :: "bytes \<Rightarrow> DNStyle option" where
  "dn_style style =
     (if style \<in> {''exact'', ''base'', ''baseobject''} then Some DNExact
      else if style \<in> {''one'', ''onelevel''} then Some DNOne
      else if style \<in> {''subtree'', ''sub''} then Some DNSubtree
      else if style = ''children'' then Some DNChildren else None)"

definition regex_matches_all :: "bytes \<Rightarrow> bool" where
  "regex_matches_all v \<longleftrightarrow> v \<in> {''*'', ''.*'', ''.*$'', ''^.*'', ''^.*$'', ''.*$$'', ''^.*$$''}"

text \<open>The style of a key and whether it asks for expansion.\<close>

definition dn_key_style :: "bytes \<Rightarrow> bool \<Rightarrow> (acl_error, bytes \<times> bool) go" where
  "dn_key_style key allowExpansion =
     (case Cut (CHR ''.'') key of (_, style0, dotted) \<Rightarrow>
      if \<not> dotted then Ok (''exact'', False)
      else case Cut (CHR '','') style0 of (style, modifier, modified) \<Rightarrow>
        if \<not> modified then Ok (style0, False)
        else if modifier \<noteq> ''expand'' then Err (UnsupportedDNModifier modifier)
        else if \<not> allowExpansion then Err ExpansionInTarget
        else Ok (style, True))"

definition dn_matcher_at :: "acl_env \<Rightarrow> DNStyle \<Rightarrow> bytes \<Rightarrow> int \<Rightarrow> (acl_error, DNMatcher) go" where
  "dn_matcher_at E style v level =
     go_bind (go_wrap BadDN (ParseDN (acl_lib E) (acl_unicode E) v)) (\<lambda>dn.
       Ok (zero_DNMatcher\<lparr>dm_Style := style, dm_DN := dn, dm_Level := level\<rparr>))"

definition dn_regex_matcher :: "acl_env \<Rightarrow> bytes \<Rightarrow> bool \<Rightarrow> (acl_error, DNMatcher) go" where
  "dn_regex_matcher E v allowExpansion =
     (if v = [] then dn_matcher_at E DNExact [] 0
      else if regex_matches_all v then Ok zero_DNMatcher
      else if allowExpansion
      then Ok (zero_DNMatcher\<lparr>dm_Style := DNRegex, dm_Raw := v, dm_Expand := hasACLExpansion v\<rparr>)
      else case regexp_Compile E (''(?i)'' @ v) of
        None \<Rightarrow> Err (BadDNRegex v)
      | Some pattern \<Rightarrow> Ok (zero_DNMatcher\<lparr>dm_Style := DNRegex, dm_Pattern := Some pattern\<rparr>))"

definition dn_expanded_matcher :: "bytes \<Rightarrow> bytes \<Rightarrow> (acl_error, DNMatcher) go" where
  "dn_expanded_matcher style v =
     (let matcher = zero_DNMatcher\<lparr>dm_Raw := v, dm_Expand := True\<rparr> in
      go_bind (parseLevelStyle style) (\<lambda>level. case level of
          Some n \<Rightarrow> if n < 0 then Err (NegativeLevel n) else Ok (matcher\<lparr>dm_Style := DNLevel, dm_Level := n\<rparr>)
        | None \<Rightarrow> (case dn_style style of None \<Rightarrow> Err (UnsupportedDNStyle style)
            | Some s \<Rightarrow> Ok (matcher\<lparr>dm_Style := s\<rparr>))))"

definition dn_plain_matcher :: "acl_env \<Rightarrow> bytes \<Rightarrow> bytes \<Rightarrow> bool \<Rightarrow> (acl_error, DNMatcher) go" where
  "dn_plain_matcher E style v allowExpansion =
     (if style = ''regex'' then dn_regex_matcher E v allowExpansion
      else case dn_style style of
        Some s \<Rightarrow> dn_matcher_at E s v 0
      | None \<Rightarrow> go_bind (parseLevelStyle style) (\<lambda>level. case level of
            None \<Rightarrow> Err (UnsupportedDNStyle style)
          | Some n \<Rightarrow> if n < 0 then Err (NegativeLevel n)
              else if \<not> allowExpansion then Err (UnsupportedDNStyle style)
              else dn_matcher_at E DNLevel v n))"

definition parseDNMatcher :: "acl_env \<Rightarrow> bytes \<Rightarrow> bytes \<Rightarrow> bool \<Rightarrow> (acl_error, DNMatcher) go" where
  "parseDNMatcher E key v allowExpansion =
     go_bind (dn_key_style key allowExpansion) (\<lambda>(style, expand).
       if expand \<and> style = ''regex'' then Err RegexExpansion
       else if expand \<and> \<not> hasACLExpansion v then Err NoSubstitutions
       else if expand then dn_expanded_matcher style v
       else dn_plain_matcher E style v allowExpansion)"

section \<open>Targets\<close>

definition plainValueAttribute :: "bytes \<Rightarrow> bool" where
  "plainValueAttribute attribute \<longleftrightarrow> attribute \<noteq> [] \<and> hd attribute \<notin> set ''@!+-*''"

definition value_key :: "bytes \<Rightarrow> bytes \<times> bytes" where
  "value_key key = (case Cut (CHR ''.'') key of (before, after, dotted) \<Rightarrow> if dotted then (before, after) else (key, ''exact''))"

definition parseValueSelector :: "acl_env \<Rightarrow> bytes \<Rightarrow> bytes \<Rightarrow> (acl_error, ValueSelector) go" where
  "parseValueSelector E key0 v =
     (case value_key key0 of (key, style) \<Rightarrow>
      let parts = SplitN 2 (CHR ''/'') key in
      if hd parts \<noteq> ''val'' then Err (InvalidValueSelector key)
      else if length parts = 2 \<and> parts ! 1 = [] then Err EmptyMatchingRule
      else
        let selector = \<lparr>vs_Style = DNExact, vs_MatchingRule = (if length parts = 2 then parts ! 1 else []),
              vs_Assertion = v, vs_Pattern = None\<rparr> in
        if style = ''regex'' then
          (case regexp_Compile E (''(?i)'' @ v) of None \<Rightarrow> Err (BadValueRegex v)
           | Some pattern \<Rightarrow> Ok (selector\<lparr>vs_Style := DNRegex, vs_Pattern := Some pattern\<rparr>))
        else case dn_style style of None \<Rightarrow> Err (UnsupportedValueStyle style)
          | Some s \<Rightarrow> Ok (selector\<lparr>vs_Style := s\<rparr>))"

fun target_attributes :: "bytes list \<Rightarrow> (acl_error, bytes list) go" where
  "target_attributes [] = Ok []"
| "target_attributes (raw # raws) =
     (let attribute = TrimSpace raw in
      if attribute = [] then Err EmptyTargetAttribute
      else if hd attribute \<in> set ''@!+-'' \<and> length attribute = 1 \<and> attribute \<noteq> ''+''
      then Err (EmptyTargetSelector attribute)
      else go_bind (target_attributes raws) (\<lambda>rest. Ok (attribute # rest)))"

text \<open>One selector of the target; the flag is \<open>dnSpecified\<close>.\<close>

definition target_selector :: "acl_env \<Rightarrow> TargetSelector \<times> bool \<Rightarrow> bytes \<Rightarrow> (acl_error, TargetSelector \<times> bool) go" where
  "target_selector E st token = (case st of (target, dnSpecified) \<Rightarrow>
     if token = ''*'' then (if dnSpecified then Err TargetDNTwice else Ok (target, True))
     else case splitSelector (acl_unicode E) token of
       None \<Rightarrow> Err (UnsupportedTarget token)
     | Some (key, v) \<Rightarrow>
         if key = ''attrs'' \<or> key = ''attr'' then
           go_bind (target_attributes (Split (CHR '','') v)) (\<lambda>attributes.
             Ok (target\<lparr>ts_Attributes := ts_Attributes target @ attributes\<rparr>, dnSpecified))
         else if key = ''dn'' \<or> HasPrefix key ''dn.'' then
           if dnSpecified then Err TargetDNTwice
           else go_bind (go_wrap (InTarget key) (parseDNMatcher E key v False)) (\<lambda>matcher.
             Ok (target\<lparr>ts_DN := matcher\<rparr>, True))
         else if key = ''filter'' then
           (case CompileFilter E v of None \<Rightarrow> Err (BadTargetFilter v)
            | Some compiled \<Rightarrow> Ok (target\<lparr>ts_Filter := Some compiled\<rparr>, dnSpecified))
         else if HasPrefix key ''val'' then
           if ts_Value target \<noteq> None then Err TargetValueTwice
           else if length (ts_Attributes target) \<noteq> 1 \<or> \<not> plainValueAttribute (hd (ts_Attributes target))
           then Err TargetValueAttribute
           else go_bind (parseValueSelector E key v) (\<lambda>selector.
             Ok (target\<lparr>ts_Value := Some selector\<rparr>, dnSpecified))
         else Err (UnsupportedTarget token))"

fun go_foldl :: "('s \<Rightarrow> 'a \<Rightarrow> ('e, 's) go) \<Rightarrow> 's \<Rightarrow> 'a list \<Rightarrow> ('e, 's) go" where
  "go_foldl f s [] = Ok s"
| "go_foldl f s (x # xs) = go_bind (f s x) (\<lambda>s'. go_foldl f s' xs)"

definition parseTarget :: "acl_env \<Rightarrow> bytes list \<Rightarrow> (acl_error, TargetSelector) go" where
  "parseTarget E tokens =
     go_bind (go_foldl (target_selector E)
         (\<lparr>ts_DN = zero_DNMatcher, ts_Attributes = [], ts_Filter = None, ts_Value = None\<rparr>, False) tokens)
       (\<lambda>(target, _). Ok target)"

section \<open>Subjects\<close>

record stringStyles =
  ss_regex :: bool
  ss_subtree :: bool
  ss_ip :: bool
  ss_ipv6 :: bool
  ss_path :: bool
  ss_modifier :: bool

definition only_regex :: stringStyles where
  "only_regex = \<lparr>ss_regex = True, ss_subtree = False, ss_ip = False, ss_ipv6 = False, ss_path = False, ss_modifier = False\<rparr>"

definition string_regex :: "acl_env \<Rightarrow> bytes \<Rightarrow> StringMatcher \<Rightarrow> bytes \<Rightarrow> (acl_error, StringMatcher) go" where
  "string_regex E prefixText matcher v =
     (let m = matcher\<lparr>sm_Style := StringRegex, sm_Expand := hasACLExpansion v\<rparr> in
      if sm_Expand m then Ok m
      else case regexp_Compile E (''(?i)'' @ v) of
        None \<Rightarrow> Err (BadStringRegex prefixText)
      | Some pattern \<Rightarrow> Ok (m\<lparr>sm_Pattern := Some pattern\<rparr>))"

definition string_peer :: "acl_env \<Rightarrow> StringMatcher \<Rightarrow> bytes \<Rightarrow> bool \<Rightarrow> (acl_error, StringMatcher) go" where
  "string_peer E matcher v ipv6 =
     (case parsePeerPattern E v ipv6 of None \<Rightarrow> Err (BadPeerPattern v)
      | Some _ \<Rightarrow> Ok (matcher\<lparr>sm_Style := (if ipv6 then StringIPv6 else StringIP)\<rparr>))"

definition string_style ::
  "acl_env \<Rightarrow> bytes \<Rightarrow> bytes \<Rightarrow> stringStyles \<Rightarrow> StringMatcher \<Rightarrow> bytes \<Rightarrow> (acl_error, StringMatcher) go" where
  "string_style E prefixText style allowed matcher v =
     (let only = (\<lambda>ok m. if ok then m else Err (UnsupportedStringStyle prefixText style)) in
      if style \<in> {''exact'', ''base'', ''baseobject''} then Ok matcher
      else if style = ''expand'' then Ok (matcher\<lparr>sm_Expand := True\<rparr>)
      else if style = ''regex'' then only (ss_regex allowed) (string_regex E prefixText matcher v)
      else if style \<in> {''sub'', ''subtree''} then only (ss_subtree allowed) (Ok (matcher\<lparr>sm_Style := StringSubtree\<rparr>))
      else if style = ''ip'' then only (ss_ip allowed) (string_peer E matcher v False)
      else if style = ''ipv6'' then only (ss_ipv6 allowed) (string_peer E matcher v True)
      else if style = ''path'' then only (ss_path allowed) (Ok (matcher\<lparr>sm_Style := StringPath\<rparr>))
      else Err (UnsupportedStringStyle prefixText style))"

definition parseStringMatcher ::
  "acl_env \<Rightarrow> bytes \<Rightarrow> bytes \<Rightarrow> bytes \<Rightarrow> stringStyles \<Rightarrow> (acl_error, StringMatcher) go" where
  "parseStringMatcher E key prefixText v allowed =
     (if v = [] then Err (StringNeedsValue prefixText)
      else
        let style0 = (if key = prefixText then ''exact'' else TrimPrefix key (prefixText @ ''.'')) in
        case Cut (CHR '','') style0 of (before, modifier, modified) \<Rightarrow>
          if modified \<and> (\<not> ss_modifier allowed \<or> modifier \<noteq> ''expand'') then Err (UnsupportedStringModifier prefixText modifier)
          else
            let style = (if modified then before else style0) in
            go_bind (string_style E prefixText style allowed
                \<lparr>sm_Style = StringExact, sm_Value = v, sm_Pattern = None, sm_Expand = modified\<rparr> v) (\<lambda>matcher.
              if sm_Expand matcher \<and> \<not> hasACLExpansion v then Err (NoStringSubstitutions prefixText)
              else if sm_Expand matcher \<and> sm_Style matcher \<in> {StringIP, StringIPv6, StringPath}
              then Err (StyleWithoutExpansion style)
              else Ok matcher))"

definition zero_WhoMatcher :: WhoMatcher where
  "zero_WhoMatcher = (set_matcher [])\<lparr>w_Kind := WhoAny\<rparr>"

definition who_of_kind :: "WhoKind \<Rightarrow> bool \<Rightarrow> WhoMatcher" where
  "who_of_kind kind real = zero_WhoMatcher\<lparr>w_Kind := kind, w_Real := real\<rparr>"

definition aci_style_split :: "bytes \<Rightarrow> bytes \<times> bytes option" where
  "aci_style_split key =
     (case LastIndexByte key (CHR ''.'') of None \<Rightarrow> (key, None)
      | Some dot \<Rightarrow> (case LastIndexByte key (CHR ''/'') of
            None \<Rightarrow> (take dot key, Some (drop (dot + 1) key))
          | Some slash \<Rightarrow> if slash < dot then (take dot key, Some (drop (dot + 1) key)) else (key, None)))"

definition isACISelector :: "bytes \<Rightarrow> bool" where
  "isACISelector key =
     (let base = fst (aci_style_split key) in base = ''aci'' \<or> base = ''dynacl/aci'' \<or> HasPrefix base ''dynacl/aci/'')"

definition parseACIMatcher :: "bytes \<Rightarrow> bytes \<Rightarrow> (acl_error, WhoMatcher) go" where
  "parseACIMatcher key attribute =
     (let style = (case snd (aci_style_split key) of None \<Rightarrow> ''exact'' | Some s \<Rightarrow> s) in
      if style \<notin> {''exact'', ''base'', ''baseobject'', ''regex''} then Err (UnsupportedACIStyle style)
      else Ok (zero_WhoMatcher\<lparr>w_Kind := WhoACI, w_ACIAttribute := (if attribute = [] then ''OpenLDAPaci'' else attribute)\<rparr>))"

definition expand_style :: "bytes \<Rightarrow> bool option" where
  "expand_style style =
     (if style \<in> {''exact'', ''base'', ''baseobject''} then Some False
      else if style \<in> {''expand'', ''regex''} then Some True else None)"

definition parseGroupMatcher :: "acl_env \<Rightarrow> bytes \<Rightarrow> bytes \<Rightarrow> (acl_error, WhoMatcher) go" where
  "parseGroupMatcher E key0 v =
     (case (case LastIndexByte key0 (CHR ''.'') of None \<Rightarrow> (key0, ''exact'')
        | Some dot \<Rightarrow> (take dot key0, drop (dot + 1) key0)) of (key, style) \<Rightarrow>
      case expand_style style of None \<Rightarrow> Err (UnsupportedGroupStyle style)
      | Some expand \<Rightarrow>
          let parts = Split (CHR ''/'') key in
          if hd parts \<noteq> ''group'' \<or> 3 < length parts then Err (InvalidGroupSelector key)
          else
            let matcher = zero_WhoMatcher\<lparr>w_Kind := WhoGroup,
                  w_GroupObjectClass := (if 2 \<le> length parts \<and> parts ! 1 \<noteq> [] then parts ! 1 else ''groupOfNames''),
                  w_GroupAttribute := (if length parts = 3 \<and> parts ! 2 \<noteq> [] then parts ! 2 else ''member''),
                  w_GroupPattern := v, w_GroupExpand := expand\<rparr> in
            if expand then Ok matcher
            else go_bind (dn_matcher_at E DNExact v 0) (\<lambda>dn. Ok (matcher\<lparr>w_DN := dn\<rparr>)))"

definition parse_self_level :: "bytes \<Rightarrow> (acl_error, WhoMatcher option) go" where
  "parse_self_level lower =
     (let real = HasPrefix lower ''realself.''; prefixText = (if real then ''realself.'' else ''self.'') in
      if \<not> HasPrefix lower (prefixText @ ''level{'') then Ok None
      else go_bind (go_wrap (InSubject (TrimSuffix prefixText ''.'')) (parseLevelStyle (TrimPrefix lower prefixText))) (\<lambda>level.
        Ok (map_option (\<lambda>n. (who_of_kind WhoSelf real)\<lparr>w_SelfLevel := n\<rparr>) level)))"

definition parse_dn_subject :: "acl_env \<Rightarrow> bytes \<Rightarrow> bytes \<Rightarrow> bytes \<Rightarrow> bool \<Rightarrow> (acl_error, WhoMatcher) go" where
  "parse_dn_subject E key matcherKey v real =
     go_bind (go_wrap (InSubject key) (parseDNMatcher E matcherKey v True)) (\<lambda>matcher.
       Ok ((who_of_kind WhoDN real)\<lparr>w_DN := matcher\<rparr>))"

definition parse_dnattr :: "bytes \<Rightarrow> bytes \<Rightarrow> bool \<Rightarrow> (acl_error, WhoMatcher) go" where
  "parse_dnattr key v real =
     (if v = [] then Err (NeedsAttribute key) else Ok ((who_of_kind WhoDNAttribute real)\<lparr>w_Attribute := v\<rparr>))"

definition parse_connection ::
  "acl_env \<Rightarrow> WhoKind \<Rightarrow> bytes \<Rightarrow> bytes \<Rightarrow> bytes \<Rightarrow> stringStyles \<Rightarrow> (acl_error, WhoMatcher) go" where
  "parse_connection E kind key prefixText v allowed =
     go_bind (parseStringMatcher E key prefixText v allowed) (\<lambda>matcher.
       Ok ((who_of_kind kind False)\<lparr>w_Connection := matcher\<rparr>))"

definition parse_set_subject :: "bytes \<Rightarrow> bytes \<Rightarrow> (acl_error, WhoMatcher) go" where
  "parse_set_subject key v =
     (let style = (if key = ''set'' then ''exact'' else TrimPrefix key ''set.'') in
      case expand_style style of None \<Rightarrow> Err (UnsupportedSetStyle style)
      | Some expand \<Rightarrow> if v = [] then Err SetNeedsExpression
          else Ok ((who_of_kind WhoSet False)\<lparr>w_SetPattern := v, w_SetExpand := expand\<rparr>))"

definition ssf_kind :: "bytes \<Rightarrow> SSFKind option" where
  "ssf_kind key = map_of [(''ssf'', SSFOverall), (''transport_ssf'', SSFTransport), (''tls_ssf'', SSFTLS), (''sasl_ssf'', SSFSASL)] key"

definition parse_ssf :: "SSFKind \<Rightarrow> bytes \<Rightarrow> (acl_error, WhoMatcher) go" where
  "parse_ssf kind v =
     (case ParseInt v of None \<Rightarrow> Err (InvalidSSF v)
      | Some minimum \<Rightarrow> if minimum < 0 then Err (InvalidSSF v)
          else Ok ((who_of_kind WhoSSF False)\<lparr>w_SSFKind := kind, w_MinimumSSF := minimum\<rparr>))"

definition keyed :: "bytes \<Rightarrow> bytes \<Rightarrow> bool" where
  "keyed key prefixText \<longleftrightarrow> key = prefixText \<or> HasPrefix key (prefixText @ ''.'')"

definition parse_subject_selector :: "acl_env \<Rightarrow> bytes \<Rightarrow> bytes \<Rightarrow> bytes \<Rightarrow> (acl_error, WhoMatcher) go" where
  "parse_subject_selector E token key v =
     (if isACISelector key then parseACIMatcher key v
      else if keyed key ''dn'' then parse_dn_subject E key key v False
      else if keyed key ''realdn'' then parse_dn_subject E key (TrimPrefix key ''real'') v True
      else if key = ''dnattr'' then parse_dnattr key v False
      else if key = ''realdnattr'' then parse_dnattr key v True
      else if HasPrefix key ''group'' then parseGroupMatcher E key v
      else if keyed key ''peername'' then parse_connection E WhoPeerName key ''peername'' v
        (only_regex\<lparr>ss_ip := True, ss_ipv6 := True, ss_path := True\<rparr>)
      else if keyed key ''sockname'' then parse_connection E WhoSockName key ''sockname'' v only_regex
      else if keyed key ''domain'' then parse_connection E WhoDomain key ''domain'' v
        (only_regex\<lparr>ss_subtree := True, ss_modifier := True\<rparr>)
      else if keyed key ''sockurl'' then parse_connection E WhoSockURL key ''sockurl'' v only_regex
      else if keyed key ''set'' then parse_set_subject key v
      else case ssf_kind key of Some kind \<Rightarrow> parse_ssf kind v | None \<Rightarrow> Err (UnsupportedSubject token))"

definition fixed_subject :: "bytes \<Rightarrow> WhoMatcher option" where
  "fixed_subject lower =
     map_of [(''*'', who_of_kind WhoAny False), (''anonymous'', who_of_kind WhoAnonymous False),
       (''users'', who_of_kind WhoUsers False), (''self'', who_of_kind WhoSelf False),
       (''realanonymous'', who_of_kind WhoAnonymous True), (''realusers'', who_of_kind WhoUsers True),
       (''realself'', who_of_kind WhoSelf True),
       (''aci'', (who_of_kind WhoACI False)\<lparr>w_ACIAttribute := ''OpenLDAPaci''\<rparr>),
       (''dynacl/aci'', (who_of_kind WhoACI False)\<lparr>w_ACIAttribute := ''OpenLDAPaci''\<rparr>)] lower"

definition parseWhoMatcher :: "acl_env \<Rightarrow> bytes \<Rightarrow> (acl_error, WhoMatcher) go" where
  "parseWhoMatcher E token =
     (let lower = ToLower (acl_unicode E) token in
      case fixed_subject lower of
        Some matcher \<Rightarrow> Ok matcher
      | None \<Rightarrow>
          if isACISelector lower then parseACIMatcher lower []
          else go_bind (parse_self_level lower) (\<lambda>self. case self of
              Some matcher \<Rightarrow> Ok matcher
            | None \<Rightarrow> (case splitSelector (acl_unicode E) token of
                None \<Rightarrow> Err (UnsupportedSubject token)
              | Some (key, v) \<Rightarrow> parse_subject_selector E token key v)))"

section \<open>Rules\<close>

definition strip_control :: "unicode \<Rightarrow> bytes list \<Rightarrow> Control \<times> bytes list" where
  "strip_control U tokens =
     (case parseControl U (last tokens) of Some control \<Rightarrow> (control, butlast tokens) | None \<Rightarrow> (ControlStop, tokens))"

definition identity_grant :: Grant where
  "identity_grant = \<lparr>g_Mode = grantIdentity, g_Privileges = 0, g_SelfValue = False, g_RealSelfValue = False\<rparr>"

definition split_access :: "unicode \<Rightarrow> bytes list \<Rightarrow> (acl_error, Grant \<times> bytes list) go" where
  "split_access U tokens =
     (case List.find (\<lambda>i. isAccessToken U (tokens ! i)) [1..<length tokens] of
        None \<Rightarrow> Ok (identity_grant, tokens)
      | Some i \<Rightarrow> go_bind (parseGrant U (tokens ! i)) (\<lambda>grant.
          if i \<noteq> length tokens - 1 then Err (UnexpectedToken (tokens ! (i + 1))) else Ok (grant, take i tokens)))"

definition parseByClause :: "acl_env \<Rightarrow> bytes list \<Rightarrow> (acl_error, ByClause) go" where
  "parseByClause E tokens0 =
     (if tokens0 = [] then Err EmptyByClause
      else case strip_control (acl_unicode E) tokens0 of (control, tokens) \<Rightarrow>
        if tokens = [] then Err ByNeedsSubject
        else go_bind (split_access (acl_unicode E) tokens) (\<lambda>(grant, whoTokens).
          go_bind (go_map (parseWhoMatcher E) whoTokens) (\<lambda>matchers.
            Ok \<lparr>by_Who = matchers, by_Grant = grant, by_Control = control\<rparr>)))"

lemma tokenIndex_bounds: "tokenIndex U tokens token start = Some i \<Longrightarrow> start \<le> i \<and> i < length tokens"
  by (auto simp: tokenIndex_def find_Some_iff)

function parse_clauses :: "acl_env \<Rightarrow> bytes list \<Rightarrow> nat \<Rightarrow> (acl_error, ByClause list) go" where
  "parse_clauses E tokens position =
     (if position < length tokens then
        let next = (case tokenIndex (acl_unicode E) tokens ''by'' (position + 1) of
              None \<Rightarrow> length tokens | Some i \<Rightarrow> i) in
        go_bind (go_wrap InByClause (parseByClause E (take (next - (position + 1)) (drop (position + 1) tokens)))) (\<lambda>clause.
        go_bind (parse_clauses E tokens next) (\<lambda>clauses. Ok (clause # clauses)))
      else Ok [])"
  by pat_completeness auto
termination
  by (relation "measure (\<lambda>(E, tokens, position). length tokens - position)")
    (auto split: option.splits dest: tokenIndex_bounds)

declare parse_clauses.simps [simp del]

definition ParseRule :: "acl_env \<Rightarrow> bytes \<Rightarrow> (acl_error, Rule) go" where
  "ParseRule E v =
     go_bind (orderedValue v) (\<lambda>(order, description).
     go_bind (tokenize description) (\<lambda>tokens.
       if tokens = [] \<or> \<not> EqualFold (acl_unicode E) (hd tokens) ''to'' then Err MissingTo
       else case tokenIndex (acl_unicode E) tokens ''by'' 1 of
         None \<Rightarrow> Err MissingBy
       | Some firstBy \<Rightarrow>
           go_bind (parseTarget E (take (firstBy - 1) (drop 1 tokens))) (\<lambda>target.
           go_bind (parse_clauses E tokens firstBy) (\<lambda>clauses.
             Ok \<lparr>ru_Order = order, ru_Target = target, ru_By = clauses, ru_Raw = v\<rparr>))))"

section \<open>A policy against a schema\<close>

datatype validate_error =
    UnknownObjectClass bytes | StyleNeedsDN bytes | InvalidDNValue bytes dn_error | InvalidValueFor bytes
  | NotDNAttribute bytes | UnknownGroupClass bytes | GroupAttributeSyntax bytes | GroupAttributeNotAllowed bytes bytes
  | NotACIAttribute bytes | InGlobalACL bytes validate_error | InDatabaseACL bytes bytes validate_error

definition validate_selector :: "TargetSchema \<Rightarrow> bytes \<Rightarrow> (validate_error, unit) go" where
  "validate_selector schema selector =
     (if selector = ''*'' \<or> selector = ''+'' then Ok ()
      else if HasPrefix selector ''@'' \<or> HasPrefix selector ''!'' \<or> HasPrefix selector ''+'' \<and> 1 < length selector then
        (if snd (ObjectClassAllowsAttribute schema (drop 1 selector) ''objectClass'') then Ok ()
         else Err (UnknownObjectClass (drop 1 selector)))
      else Ok ())"

text \<open>The value selector is checked against the first attribute; without one the index panics.\<close>

definition validate_value :: "acl_env \<Rightarrow> TargetSchema \<Rightarrow> TargetSelector \<Rightarrow> (validate_error, unit) go" where
  "validate_value E schema target =
     (case ts_Value target of None \<Rightarrow> Ok ()
      | Some selector \<Rightarrow> (case ts_Attributes target of [] \<Rightarrow> Panic
          | attribute # _ \<Rightarrow>
              if vs_Style selector \<noteq> DNExact \<and> vs_Style selector \<noteq> DNRegex \<and> \<not> IsDNValued schema attribute
              then Err (StyleNeedsDN attribute)
              else if vs_Style selector = DNExact \<and> IsDNValued schema attribute then
                go_error (go_wrap (InvalidDNValue attribute)
                  (ParseDN (acl_lib E) (acl_unicode E) (vs_Assertion selector)))
              else if vs_Style selector \<noteq> DNRegex then
                (case Compare (sch_matcher schema) attribute (vs_MatchingRule selector) (vs_Assertion selector)
                    (vs_Assertion selector) of Inl _ \<Rightarrow> Err (InvalidValueFor attribute) | Inr _ \<Rightarrow> Ok ())
              else Ok ()))"

definition validate_who :: "TargetSchema \<Rightarrow> WhoMatcher \<Rightarrow> (validate_error, unit) go" where
  "validate_who schema matcher =
     (case w_Kind matcher of
        WhoDNAttribute \<Rightarrow> if IsDNReferenceValued schema (w_Attribute matcher) then Ok ()
          else Err (NotDNAttribute (w_Attribute matcher))
      | WhoGroup \<Rightarrow>
          if \<not> snd (ObjectClassAllowsAttribute schema (w_GroupObjectClass matcher) ''objectClass'')
          then Err (UnknownGroupClass (w_GroupObjectClass matcher))
          else if \<not> IsDNReferenceValued schema (w_GroupAttribute matcher) \<and>
            \<not> AttributeDescriptionSubtype schema (w_GroupAttribute matcher) ''labeledURI''
          then Err (GroupAttributeSyntax (w_GroupAttribute matcher))
          else if \<not> fst (ObjectClassAllowsAttribute schema (w_GroupObjectClass matcher) (w_GroupAttribute matcher))
          then Err (GroupAttributeNotAllowed (w_GroupAttribute matcher) (w_GroupObjectClass matcher))
          else Ok ()
      | WhoACI \<Rightarrow> if IsACIValued schema (w_ACIAttribute matcher) then Ok ()
          else Err (NotACIAttribute (w_ACIAttribute matcher))
      | _ \<Rightarrow> Ok ())"

definition go_each :: "('a \<Rightarrow> ('e, unit) go) \<Rightarrow> 'a list \<Rightarrow> ('e, unit) go" where
  "go_each f xs = go_error (go_map f xs)"

definition validateRuleSchema :: "acl_env \<Rightarrow> TargetSchema \<Rightarrow> Rule \<Rightarrow> (validate_error, unit) go" where
  "validateRuleSchema E schema rule =
     go_bind (go_each (validate_selector schema) (ts_Attributes (ru_Target rule))) (\<lambda>_.
     go_bind (validate_value E schema (ru_Target rule)) (\<lambda>_.
       go_each (\<lambda>clause. go_each (validate_who schema) (by_Who clause)) (ru_By rule)))"

definition Validate :: "acl_env \<Rightarrow> Policy \<Rightarrow> TargetSchema option \<Rightarrow> (validate_error, unit) go" where
  "Validate E policy schema =
     (case schema of None \<Rightarrow> Ok ()
      | Some s \<Rightarrow>
          go_bind (go_each (\<lambda>rule. go_wrap (InGlobalACL (ru_Raw rule)) (validateRuleSchema E s rule)) (p_global policy)) (\<lambda>_.
            go_each (\<lambda>d. go_each (\<lambda>rule. go_wrap (InDatabaseACL (Key (db_Suffix d)) (ru_Raw rule))
              (validateRuleSchema E s rule)) (db_Rules d)) (p_databases policy)))"

section \<open>An OpenLDAP configuration\<close>

record ruleSet =
  rs_suffixes :: "bytes list"
  rs_global :: bool
  rs_rules :: "Rule list"
  rs_addContentACL :: bool

record LoadResult =
  lr_RuleSets :: nat
  lr_Rules :: nat

datatype load_error =
    ConfigEntryDN bytes dn_error | InOlcAccess bytes acl_error | AddContentTwice bytes
  | AddContentInvalid bytes bytes | BuildPolicy dn_error

definition firstString :: "bytes list \<Rightarrow> bytes" where
  "firstString vs = (case vs of [] \<Rightarrow> [] | v # _ \<Rightarrow> v)"

definition add_content_value :: "acl_env \<Rightarrow> Entry \<Rightarrow> (load_error, bool) go" where
  "add_content_value E entry =
     (case entry_Values (acl_unicode E) entry ''olcAddContentAcl'' of
        [] \<Rightarrow> Ok False
      | [v] \<Rightarrow> if EqualFold (acl_unicode E) v ''TRUE'' then Ok True
          else if EqualFold (acl_unicode E) v ''FALSE'' then Ok False
          else Err (AddContentInvalid (e_DN entry) v)
      | _ \<Rightarrow> Err (AddContentTwice (e_DN entry)))"

definition placed_set :: "bytes list \<Rightarrow> bytes \<Rightarrow> Rule list \<Rightarrow> bool \<Rightarrow> ruleSet" where
  "placed_set suffixTexts database rules addContent =
     (let s = \<lparr>rs_suffixes = suffixTexts, rs_global = False, rs_rules = rules, rs_addContentACL = addContent\<rparr> in
      if suffixTexts \<noteq> [] then s
      else if Index database ''config'' \<noteq> None then s\<lparr>rs_suffixes := [''cn=config'']\<rparr>
      else if Index database ''monitor'' \<noteq> None then s\<lparr>rs_suffixes := [''cn=Monitor'']\<rparr>
      else s\<lparr>rs_global := True\<rparr>)"

text \<open>One entry of the configuration: the rule set that it gives, or none.\<close>

definition config_entry :: "acl_env \<Rightarrow> Entry \<Rightarrow> (load_error, ruleSet option) go" where
  "config_entry E entry =
     go_bind (go_wrap (ConfigEntryDN (e_DN entry)) (ParseDN (acl_lib E) (acl_unicode E) (e_DN entry))) (\<lambda>entryDN.
     go_bind (go_of_option (do { s \<leftarrow> configSuffix E; under_suffix E s entryDN })) (\<lambda>inside.
       if \<not> inside then Ok None
       else
         let U = acl_unicode E; access = entry_Values U entry ''olcAccess''; suffixTexts = entry_Values U entry ''olcSuffix'';
             database = ToLower U (firstString (entry_Values U entry ''olcDatabase'')) in
         go_bind (go_wrap (InOlcAccess (e_DN entry)) (go_map (ParseRule E) access)) (\<lambda>rules.
         go_bind (add_content_value E entry) (\<lambda>addContent.
           if access = [] \<and> suffixTexts = [] \<and> database = [] then Ok None
           else Ok (Some (placed_set suffixTexts database (SortRules rules) addContent))))))"

definition put_suffixes ::
  "ruleSet \<Rightarrow> (bytes, Rule list) fmap \<times> (bytes, bool) fmap \<Rightarrow> (bytes, Rule list) fmap \<times> (bytes, bool) fmap" where
  "put_suffixes s maps =
     foldl (\<lambda>(databases, addContent) suffixText.
         (fmupd suffixText ((case fmlookup databases suffixText of None \<Rightarrow> [] | Some rs \<Rightarrow> rs) @ rs_rules s) databases,
          fmupd suffixText (rs_addContentACL s) addContent)) maps (rs_suffixes s)"

definition collect_sets ::
  "ruleSet list \<Rightarrow> Rule list \<times> (bytes, Rule list) fmap \<times> (bytes, bool) fmap" where
  "collect_sets sets =
     foldl (\<lambda>(global, maps) s. if rs_global s then (global @ rs_rules s, maps) else (global, put_suffixes s maps))
       ([], fmempty, fmempty) sets"

definition load_result :: "ruleSet list \<Rightarrow> LoadResult" where
  "load_result sets =
     \<lparr>lr_RuleSets = length (filter (\<lambda>s. rs_rules s \<noteq> []) sets), lr_Rules = sum_list (map (length \<circ> rs_rules) sets)\<rparr>"

text \<open>\<open>entries\<close> are what \<open>ForEach\<close> of the storage reader visits, in its order.\<close>

definition LoadOpenLDAPConfigReader :: "acl_env \<Rightarrow> Entry list \<Rightarrow> (load_error, Policy \<times> LoadResult) go" where
  "LoadOpenLDAPConfigReader E entries =
     go_bind (go_map (config_entry E) entries) (\<lambda>found.
       let sets = List.map_filter id found in
       case collect_sets sets of (global, databases, addContent) \<Rightarrow>
         go_bind (go_wrap BuildPolicy (newPolicy E global databases addContent)) (\<lambda>policy.
           Ok (policy, load_result sets)))"

end
