(* ===== verification/ACL_Decision.thy ===== *)
theory ACL_Decision
  imports ACL_Parser
begin

text \<open>
  The decision of \<open>Policy.Allowed\<close>: what a grant comes from, independence of what is asked for
  without access control values, decisions that are shared between values, and the choice of the
  database whose rules apply.
\<close>

unbundle bit_operations_syntax

section \<open>What a grant comes from\<close>

text \<open>The privileges that a clause can add when it is for the subject.\<close>

definition contribution ::
  "acl_env \<Rightarrow> Subject \<Rightarrow> Target \<Rightarrow> DN \<Rightarrow> EntryReader option \<Rightarrow> matchContext \<Rightarrow> ByClause \<Rightarrow> Privilege" where
  "contribution E subject target targetDN reader context clause =
     (case matchesWho E (by_Who clause) (by_Grant clause) subject target targetDN reader context of
        None \<Rightarrow> 0
      | Some match \<Rightarrow>
          if \<not> wm_matched match then 0
          else if wm_dynamic match then wm_grant match AND g_Privileges (by_Grant clause)
          else if g_Mode (by_Grant clause) = grantSet \<or> g_Mode (by_Grant clause) = grantAdd
          then g_Privileges (by_Grant clause) else 0)"

lemma AND_bit: "a AND required = required \<Longrightarrow> bit required n \<Longrightarrow> bit (a :: Privilege) n"
  by (metis bit_and_iff)

lemma AND_iff_within: "(a AND required = required) \<longleftrightarrow> (\<forall>n. bit required n \<longrightarrow> bit (a :: Privilege) n)"
proof
  assume "a AND required = required"
  then show "\<forall>n. bit required n \<longrightarrow> bit a n" using AND_bit by blast
next
  assume asked: "\<forall>n. bit required n \<longrightarrow> bit a n"
  show "a AND required = required" by (rule bit_word_eqI) (use asked in \<open>auto simp: bit_and_iff\<close>)
qed

lemma applyGrant_source:
  "bit (applyGrant current grant) n \<Longrightarrow> bit current n \<or>
     (g_Mode grant = grantSet \<or> g_Mode grant = grantAdd) \<and> bit (g_Privileges grant) n"
  by (auto simp: applyGrant_def bit_or_iff bit_and_iff split: grantMode.splits)

lemma dynamic_source:
  "bit (dynamic_privileges current grant deny) n \<Longrightarrow> bit current n \<or> bit grant n"
  by (auto simp: dynamic_privileges_def bit_or_iff bit_and_iff split: if_splits)

text \<open>One clause that matches, with what it makes of the privileges.\<close>

lemma clause_source:
  assumes "matchesWho E (by_Who clause) (by_Grant clause) subject target targetDN reader context = Some match"
    "wm_matched match"
    "bit (if wm_dynamic match
          then dynamic_privileges current (wm_grant match AND g_Privileges (by_Grant clause)) (wm_deny match)
          else applyGrant current (by_Grant clause)) n"
  shows "bit current n \<or> bit (contribution E subject target targetDN reader context clause) n"
  using assms applyGrant_source [of current "by_Grant clause" n]
    dynamic_source [of current "wm_grant match AND g_Privileges (by_Grant clause)" "wm_deny match" n]
  by (auto simp: contribution_def)

lemma clause_loop_Cons:
  assumes "clause_loop E subject target targetDN reader required context current (clause # clauses) = Some out"
  obtains match where
    "matchesWho E (by_Who clause) (by_Grant clause) subject target targetDN reader context = Some match"
    "\<not> wm_matched match \<or> wm_dynamic match \<and> g_Privileges (by_Grant clause) AND required \<noteq> required"
    "clause_loop E subject target targetDN reader required context current clauses = Some out"
  | match next_privileges where
    "matchesWho E (by_Who clause) (by_Grant clause) subject target targetDN reader context = Some match"
    "wm_matched match"
    "next_privileges = (if wm_dynamic match
       then dynamic_privileges current (wm_grant match AND g_Privileges (by_Grant clause)) (wm_deny match)
       else applyGrant current (by_Grant clause))"
    "case by_Control clause of
       ControlStop \<Rightarrow> out = Decided (next_privileges AND required = required)
     | ControlContinue \<Rightarrow> clause_loop E subject target targetDN reader required context next_privileges clauses = Some out
     | ControlBreak \<Rightarrow> out = BrokeWith next_privileges"
proof -
  obtain match where m:
    "matchesWho E (by_Who clause) (by_Grant clause) subject target targetDN reader context = Some match"
    using assms by (auto simp: Option.bind_eq_Some_conv)
  show thesis
  proof (cases "\<not> wm_matched match \<or> wm_dynamic match \<and> g_Privileges (by_Grant clause) AND required \<noteq> required")
    case True
    with assms m that(1) show ?thesis by simp
  next
    case False
    show ?thesis
    proof (rule that(2) [OF m _ refl])
      show "wm_matched match" using False by simp
    next
      let ?p = "if wm_dynamic match
        then dynamic_privileges current (wm_grant match AND g_Privileges (by_Grant clause)) (wm_deny match)
        else applyGrant current (by_Grant clause)"
      have "(case by_Control clause of
          ControlStop \<Rightarrow> Some (Decided (?p AND required = required))
        | ControlContinue \<Rightarrow> clause_loop E subject target targetDN reader required context ?p clauses
        | ControlBreak \<Rightarrow> Some (BrokeWith ?p)) = Some out"
        using assms unfolding clause_loop.simps m Let_def Option.bind.bind_lunit using False by (simp only: if_False)
      then show "case by_Control clause of
          ControlStop \<Rightarrow> out = Decided (?p AND required = required)
        | ControlContinue \<Rightarrow> clause_loop E subject target targetDN reader required context ?p clauses = Some out
        | ControlBreak \<Rightarrow> out = BrokeWith ?p"
        by (cases "by_Control clause") simp_all
    qed
  qed
qed

definition decisive ::
  "acl_env \<Rightarrow> Subject \<Rightarrow> Target \<Rightarrow> DN \<Rightarrow> EntryReader option \<Rightarrow> matchContext \<Rightarrow> ByClause list \<Rightarrow> bool" where
  "decisive E subject target targetDN reader context clauses \<longleftrightarrow>
     (\<exists>clause\<in>set clauses. by_Control clause = ControlStop \<and>
        (\<exists>match. matchesWho E (by_Who clause) (by_Grant clause) subject target targetDN reader context = Some match \<and>
           wm_matched match))"

lemma clause_loop_source:
  assumes "clause_loop E subject target targetDN reader required context current clauses = Some out"
  shows "(\<forall>p n. out = BrokeWith p \<longrightarrow> bit p n \<longrightarrow>
      bit current n \<or> (\<exists>clause\<in>set clauses. bit (contribution E subject target targetDN reader context clause) n)) \<and>
    (out = Decided True \<longrightarrow> decisive E subject target targetDN reader context clauses \<and>
      (\<forall>n. bit required n \<longrightarrow> bit current n \<or>
        (\<exists>clause\<in>set clauses. bit (contribution E subject target targetDN reader context clause) n)))"
  using assms
proof (induction clauses arbitrary: current)
  case (Cons clause clauses)
  from Cons.prems show ?case
  proof (cases rule: clause_loop_Cons)
    case (1 match)
    from Cons.IH [OF 1(3)] show ?thesis by (auto simp: decisive_def)
  next
    case (2 match p)
    have source: "bit p n \<Longrightarrow> bit current n \<or> bit (contribution E subject target targetDN reader context clause) n" for n
      using clause_source [OF 2(1,2), of current n] unfolding 2(3) .
    show ?thesis
    proof (cases "by_Control clause")
      case ControlStop
      with 2(4) have out: "out = Decided (p AND required = required)" by simp
      show ?thesis using 2(1,2) ControlStop source unfolding out AND_iff_within by (auto simp: decisive_def)
    next
      case ControlContinue
      with 2(4) have "clause_loop E subject target targetDN reader required context p clauses = Some out" by simp
      from Cons.IH [OF this] source show ?thesis by (fastforce simp: decisive_def)
    next
      case ControlBreak
      with 2(4) have "out = BrokeWith p" by simp
      then show ?thesis using source by auto
    qed
  qed
qed simp

lemma rule_loop_Cons:
  assumes "rule_loop E subject target targetDN reader required current (rule # rules) = Some d"
  obtains "matchTarget E (ru_Target rule) target targetDN = Some None"
    "rule_loop E subject target targetDN reader required current rules = Some d"
  | ctx where "matchTarget E (ru_Target rule) target targetDN = Some (Some ctx)"
    "clause_loop E subject target targetDN reader required ctx current (ru_By rule) = Some (Decided d)"
  | ctx where "matchTarget E (ru_Target rule) target targetDN = Some (Some ctx)"
    "clause_loop E subject target targetDN reader required ctx current (ru_By rule) = Some NoClauseLeft" "\<not> d"
  | ctx p where "matchTarget E (ru_Target rule) target targetDN = Some (Some ctx)"
    "clause_loop E subject target targetDN reader required ctx current (ru_By rule) = Some (BrokeWith p)"
    "rule_loop E subject target targetDN reader required p rules = Some d"
proof -
  obtain matched where m: "matchTarget E (ru_Target rule) target targetDN = Some matched"
    using assms by (auto simp: Option.bind_eq_Some_conv)
  show thesis
  proof (cases matched)
    case None
    with assms m that(1) show ?thesis by simp
  next
    case (Some ctx)
    with assms m obtain out where
      "clause_loop E subject target targetDN reader required ctx current (ru_By rule) = Some out"
      by (auto simp: Option.bind_eq_Some_conv)
    with assms m Some that(2-4) show ?thesis by (cases out) auto
  qed
qed

definition granting_rule ::
  "acl_env \<Rightarrow> Subject \<Rightarrow> Target \<Rightarrow> DN \<Rightarrow> EntryReader option \<Rightarrow> nat \<Rightarrow> Rule \<Rightarrow> bool" where
  "granting_rule E subject target targetDN reader n rule \<longleftrightarrow>
     (\<exists>ctx. matchTarget E (ru_Target rule) target targetDN = Some (Some ctx) \<and>
        (\<exists>clause\<in>set (ru_By rule). bit (contribution E subject target targetDN reader ctx clause) n))"

definition deciding_rule ::
  "acl_env \<Rightarrow> Subject \<Rightarrow> Target \<Rightarrow> DN \<Rightarrow> EntryReader option \<Rightarrow> Rule \<Rightarrow> bool" where
  "deciding_rule E subject target targetDN reader rule \<longleftrightarrow>
     (\<exists>ctx. matchTarget E (ru_Target rule) target targetDN = Some (Some ctx) \<and>
        decisive E subject target targetDN reader ctx (ru_By rule))"

lemma rule_loop_source:
  assumes "rule_loop E subject target targetDN reader required current rules = Some True"
  shows "(\<exists>rule\<in>set rules. deciding_rule E subject target targetDN reader rule) \<and>
    (\<forall>n. bit required n \<longrightarrow> bit current n \<or> (\<exists>rule\<in>set rules. granting_rule E subject target targetDN reader n rule))"
  using assms
proof (induction rules arbitrary: current)
  case (Cons rule rules)
  from Cons.prems show ?case
  proof (cases rule: rule_loop_Cons)
    case 1
    from Cons.IH [OF 1(2)] show ?thesis by auto
  next
    case (2 ctx)
    from clause_loop_source [OF 2(2)] 2(1) show ?thesis
      unfolding deciding_rule_def granting_rule_def by auto
  next
    case (4 ctx p)
    have "bit p n \<Longrightarrow> bit current n \<or> granting_rule E subject target targetDN reader n rule" for n
      using clause_loop_source [OF 4(2)] 4(1) unfolding granting_rule_def by blast
    with Cons.IH [OF 4(3)] show ?thesis by auto
  qed simp
qed simp

section \<open>Rules without access control values\<close>

definition no_aci_clause :: "ByClause \<Rightarrow> bool" where
  "no_aci_clause clause \<longleftrightarrow> list_all (\<lambda>matcher. w_Kind matcher \<noteq> WhoACI) (by_Who clause)"

definition no_aci :: "Rule list \<Rightarrow> bool" where
  "no_aci rules \<longleftrightarrow> list_all (\<lambda>rule. list_all no_aci_clause (ru_By rule)) rules"

definition aci_free :: "Policy \<Rightarrow> bool" where
  "aci_free policy \<longleftrightarrow> no_aci (p_global policy) \<and> list_all (\<lambda>d. no_aci (db_Rules d)) (p_databases policy)"

lemma who_loop_static:
  assumes "who_loop E subject target targetDN reader context result matchers = Some r"
    "list_all (\<lambda>matcher. w_Kind matcher \<noteq> WhoACI) matchers"
  shows "r = no_who \<or> r = result"
  using assms
proof (induction matchers arbitrary: result)
  case (Cons matcher matchers)
  then show ?case by (auto simp: Option.bind_eq_Some_conv split: if_splits)
qed simp

lemma matchesWho_static:
  assumes "matchesWho E matchers grant subject target targetDN reader context = Some match"
    "list_all (\<lambda>matcher. w_Kind matcher \<noteq> WhoACI) matchers"
  shows "\<not> wm_dynamic match"
proof -
  obtain result where r: "who_loop E subject target targetDN reader context
      \<lparr>wm_matched = True, wm_dynamic = False, wm_grant = 0, wm_deny = 0\<rparr> matchers = Some result"
    using assms(1) by (auto simp: matchesWho_def Option.bind_eq_Some_conv)
  from who_loop_static [OF this assms(2)] have "\<not> wm_dynamic result" by (auto simp: no_who_def)
  with assms(1) r show ?thesis
    by (auto simp: matchesWho_def no_who_def Option.bind_eq_Some_conv split: if_splits)
qed

text \<open>Without them the walk does not look at what is asked for until the decision.\<close>

definition answer :: "Privilege \<Rightarrow> Privilege option \<Rightarrow> bool" where
  "answer required effective = (case effective of None \<Rightarrow> False | Some p \<Rightarrow> p AND required = required)"

datatype static_outcome = Stops Privilege | Breaks Privilege | Runs_out

definition decide :: "Privilege \<Rightarrow> static_outcome \<Rightarrow> clause_outcome" where
  "decide required s = (case s of Stops p \<Rightarrow> Decided (p AND required = required) | Breaks p \<Rightarrow> BrokeWith p | Runs_out \<Rightarrow> NoClauseLeft)"

lemma clause_loop_static:
  assumes "list_all no_aci_clause clauses"
  shows "\<exists>s. \<forall>required. clause_loop E subject target targetDN reader required ctx current clauses = map_option (decide required) s"
  using assms
proof (induction clauses arbitrary: current)
  case Nil
  show ?case by (rule exI [of _ "Some Runs_out"]) (simp add: decide_def)
next
  case (Cons clause clauses)
  show ?case
  proof (cases "matchesWho E (by_Who clause) (by_Grant clause) subject target targetDN reader ctx")
    case None
    then show ?thesis by (intro exI [of _ None]) simp
  next
    case (Some match)
    have static: "\<not> wm_dynamic match"
      using matchesWho_static [OF Some] Cons.prems by (simp add: no_aci_clause_def)
    have rest: "list_all no_aci_clause clauses" using Cons.prems by simp
    note IH = Cons.IH [OF rest]
    let ?p = "applyGrant current (by_Grant clause)"
    show ?thesis
    proof (cases "wm_matched match")
      case False
      with IH [of current] Some show ?thesis by simp
    next
      case True
      show ?thesis
      proof (cases "by_Control clause")
        case ControlStop
        with Some True static show ?thesis by (intro exI [of _ "Some (Stops ?p)"]) (simp add: decide_def)
      next
        case ControlContinue
        with IH [of ?p] Some True static show ?thesis by simp
      next
        case ControlBreak
        with Some True static show ?thesis by (intro exI [of _ "Some (Breaks ?p)"]) (simp add: decide_def)
      qed
    qed
  qed
qed

lemma rule_loop_static:
  assumes "no_aci rules"
  shows "\<exists>e. \<forall>required. rule_loop E subject target targetDN reader required current rules = map_option (answer required) e"
  using assms
proof (induction rules arbitrary: current)
  case Nil
  show ?case by (rule exI [of _ "Some None"]) (simp add: answer_def)
next
  case (Cons rule rules)
  then have rest: "no_aci rules" and clauses: "list_all no_aci_clause (ru_By rule)" by (simp_all add: no_aci_def)
  show ?case
  proof (cases "matchTarget E (ru_Target rule) target targetDN")
    case None
    then show ?thesis by (intro exI [of _ None]) simp
  next
    case (Some matched)
    show ?thesis
    proof (cases matched)
      case None
      with Cons.IH [OF rest] Some show ?thesis by simp
    next
      case (Some ctx)
      obtain s where s: "\<And>required. clause_loop E subject target targetDN reader required ctx current (ru_By rule) =
          map_option (decide required) s"
        using clause_loop_static [OF clauses] by blast
      note step = \<open>matchTarget E (ru_Target rule) target targetDN = Some matched\<close> Some s
      show ?thesis
      proof (cases s)
        case None
        with step show ?thesis by (intro exI [of _ None]) simp
      next
        case (Some result)
        show ?thesis
        proof (cases result)
          case (Stops p)
          with step Some show ?thesis by (intro exI [of _ "Some (Some p)"]) (simp add: decide_def answer_def)
        next
          case (Breaks p)
          with step Some Cons.IH [OF rest, of p] show ?thesis by (simp add: decide_def)
        next
          case Runs_out
          with step Some show ?thesis by (intro exI [of _ "Some None"]) (simp add: decide_def answer_def)
        qed
      qed
    qed
  qed
qed

lemma database_rules_from:
  "database_rules E target normalizer databases = Some rules \<Longrightarrow> rules = [] \<or> (\<exists>d\<in>set databases. rules = db_Rules d)"
  by (induction databases) (auto simp: Option.bind_eq_Some_conv split: if_splits)

lemma rulesFor_no_aci:
  assumes "aci_free policy" "rulesFor E policy dn normalizer = Some rules"
  shows "no_aci rules"
  using assms database_rules_from [of E dn normalizer "p_databases policy"]
  by (auto simp: rulesFor_def aci_free_def no_aci_def list_all_iff)

lemma on_success_eq:
  "on_success m f = (case m of Ok x \<Rightarrow> f x | Err _ \<Rightarrow> Some False | Panic \<Rightarrow> None)"
  by (rule on_success_def)

lemma Allowed_static:
  assumes "aci_free policy"
  shows "\<exists>e. \<forall>required. Allowed E policy subject target required reader = map_option (answer required) e"
proof (cases "parseACLDN E (e_DN (t_Entry target)) (t_DNNormalizer target)")
  case (Ok dn)
  show ?thesis
  proof (cases "rulesFor E policy dn (t_DNNormalizer target)")
    case None
    with Ok show ?thesis by (intro exI [of _ None]) (simp add: Allowed_def on_success_def)
  next
    case (Some rules)
    show ?thesis
    proof (cases "rules = []")
      case True
      with Ok Some show ?thesis
        by (intro exI [of _ "map_option Some (defaultPrivileges E dn)"])
          (cases "defaultPrivileges E dn"; simp add: Allowed_def on_success_def answer_def)
    next
      case False
      with rule_loop_static [OF rulesFor_no_aci [OF assms Some], of E subject target dn reader 0] Ok Some
      show ?thesis by (simp add: Allowed_def on_success_def)
    qed
  qed
next
  case (Err e)
  then show ?thesis by (intro exI [of _ "Some None"]) (simp add: Allowed_def on_success_def answer_def)
next
  case Panic
  then show ?thesis by (intro exI [of _ None]) (simp add: Allowed_def on_success_def)
qed

section \<open>Values that are decided together\<close>

definition same_but_value :: "Target \<Rightarrow> Target \<Rightarrow> bool" where
  "same_but_value a b \<longleftrightarrow> a\<lparr>t_Value := None\<rparr> = b\<lparr>t_Value := None\<rparr>"

lemma same_but_value_fields:
  assumes "same_but_value a b"
  shows "t_Entry a = t_Entry b" "t_Attribute a = t_Attribute b" "t_DNValued a = t_DNValued b"
    "t_Schema a = t_Schema b" "t_DNNormalizer a = t_DNNormalizer b"
  using assms by (cases a; cases b; simp add: same_but_value_def)+

definition batch_rule :: "Rule \<Rightarrow> bool" where
  "batch_rule rule \<longleftrightarrow> ts_Value (ru_Target rule) = None \<and> ts_Filter (ru_Target rule) = None \<and>
     list_all (\<lambda>clause. \<not> g_SelfValue (by_Grant clause) \<and> \<not> g_RealSelfValue (by_Grant clause) \<and>
       list_all (\<lambda>matcher. batch_who (w_Kind matcher)) (by_Who clause)) (ru_By rule)"

lemma rulesCanBatchValues_iff: "rulesCanBatchValues rules \<longleftrightarrow> list_all batch_rule rules"
  by (simp add: rulesCanBatchValues_def batch_rule_def list_all_iff)

lemma selector_matches_same:
  assumes "same_but_value a b"
  shows "selector_matches E a = selector_matches E b"
  by (rule ext) (simp add: selector_matches_def same_but_value_fields [OF assms])

lemma matchTarget_same:
  assumes "same_but_value a b" "ts_Value selector = None" "ts_Filter selector = None"
  shows "matchTarget E selector a dn = matchTarget E selector b dn"
  unfolding matchTarget_def matchesTargetAttribute_def selector_matches_same [OF assms(1)]
    same_but_value_fields [OF assms(1)] assms(2,3) option.case by simp

lemma matchesOneWho_same:
  assumes "same_but_value a b" "batch_who (w_Kind matcher)"
  shows "matchesOneWho E matcher subject a dn reader ctx = matchesOneWho E matcher subject b dn reader' ctx"
  using assms(2)
  by (cases "w_Kind matcher")
    (simp_all add: matchesOneWho_def batch_who_def Let_def same_but_value_fields [OF assms(1)])

lemma who_loop_same:
  assumes "same_but_value a b" "list_all (\<lambda>matcher. batch_who (w_Kind matcher)) matchers"
  shows "who_loop E subject a dn reader ctx result matchers = who_loop E subject b dn reader' ctx result matchers"
  using assms(2)
proof (induction matchers)
  case (Cons matcher matchers)
  then have "w_Kind matcher \<noteq> WhoACI" by (auto simp: batch_who_def)
  with Cons matchesOneWho_same [OF assms(1), of matcher E subject dn reader ctx reader'] show ?case
    by (simp cong: if_cong)
qed simp

lemma matchesWho_same:
  assumes "same_but_value a b" "\<not> g_SelfValue grant" "\<not> g_RealSelfValue grant"
    "list_all (\<lambda>matcher. batch_who (w_Kind matcher)) matchers"
  shows "matchesWho E matchers grant subject a dn reader ctx = matchesWho E matchers grant subject b dn reader' ctx"
proof -
  have asked: "g_SelfValue grant = False" "g_RealSelfValue grant = False" using assms(2,3) by simp_all
  have none: "self_value_ok E False d t = Some True" for d t by (simp add: self_value_ok_def)
  show ?thesis
    unfolding matchesWho_def who_loop_same [OF assms(1,4), of E subject dn reader ctx _ reader'] asked none ..
qed

lemma clause_loop_same:
  assumes "same_but_value a b"
    "list_all (\<lambda>clause. \<not> g_SelfValue (by_Grant clause) \<and> \<not> g_RealSelfValue (by_Grant clause) \<and>
       list_all (\<lambda>matcher. batch_who (w_Kind matcher)) (by_Who clause)) clauses"
  shows "clause_loop E subject a dn reader required ctx current clauses =
    clause_loop E subject b dn reader' required ctx current clauses"
  using assms(2)
proof (induction clauses arbitrary: current)
  case (Cons clause clauses)
  then have "matchesWho E (by_Who clause) (by_Grant clause) subject a dn reader ctx =
      matchesWho E (by_Who clause) (by_Grant clause) subject b dn reader' ctx"
    by (intro matchesWho_same [OF assms(1)]) simp_all
  with Cons show ?case by (simp add: Let_def cong: if_cong Control.case_cong)
qed simp

lemma rule_loop_same:
  assumes "same_but_value a b" "list_all batch_rule rules"
  shows "rule_loop E subject a dn reader required current rules = rule_loop E subject b dn reader' required current rules"
  using assms(2)
proof (induction rules arbitrary: current)
  case (Cons rule rules)
  then have "matchTarget E (ru_Target rule) a dn = matchTarget E (ru_Target rule) b dn"
    "clause_loop E subject a dn reader required ctx p (ru_By rule) =
       clause_loop E subject b dn reader' required ctx p (ru_By rule)" for ctx p
    by (auto intro!: matchTarget_same [OF assms(1)] clause_loop_same [OF assms(1)] simp: batch_rule_def)
  with Cons show ?case by simp
qed simp

lemma rulesFor_batch:
  assumes "CanBatchValues policy" "rulesFor E policy dn normalizer = Some rules"
  shows "list_all batch_rule rules"
  using assms database_rules_from [of E dn normalizer "p_databases policy"]
  by (auto simp: rulesFor_def CanBatchValues_def rulesCanBatchValues_iff list_all_iff)

lemma Allowed_same:
  assumes "CanBatchValues policy" "same_but_value a b"
  shows "Allowed E policy subject a required reader = Allowed E policy subject b required reader'"
proof (cases "parseACLDN E (e_DN (t_Entry b)) (t_DNNormalizer b)")
  case (Ok dn)
  show ?thesis
  proof (cases "rulesFor E policy dn (t_DNNormalizer b)")
    case (Some rules)
    from rule_loop_same [OF assms(2) rulesFor_batch [OF assms(1) this]] Ok Some
    show ?thesis by (simp add: Allowed_def on_success_def same_but_value_fields [OF assms(2)])
  qed (simp add: Allowed_def on_success_def same_but_value_fields [OF assms(2)] Ok)
qed (simp_all add: Allowed_def on_success_def same_but_value_fields [OF assms(2)])

section \<open>The rules of a name\<close>

text \<open>A database holds a name when its suffix, as the request reads it, is the name or above it.\<close>

definition holds_name :: "acl_env \<Rightarrow> acl_normalizer option \<Rightarrow> DN \<Rightarrow> databaseRules \<Rightarrow> bool option" where
  "holds_name E normalizer target d = do {
     suffixDN \<leftarrow> attempt (normalizeACLDN E (db_Suffix d) normalizer);
     case suffixDN of None \<Rightarrow> Some False | Some s \<Rightarrow> under_suffix E s target }"

lemma database_rules_first:
  "database_rules E target normalizer databases = Some rules \<Longrightarrow>
     (rules = [] \<and> (\<forall>d\<in>set databases. holds_name E normalizer target d = Some False)) \<or>
     (\<exists>before d after. databases = before @ d # after \<and> rules = db_Rules d \<and>
        holds_name E normalizer target d = Some True \<and>
        (\<forall>b\<in>set before. holds_name E normalizer target b = Some False))"
proof (induction databases)
  case (Cons d databases)
  obtain inside where i: "holds_name E normalizer target d = Some inside"
    and rest: "(if inside then Some (db_Rules d) else database_rules E target normalizer databases) = Some rules"
    using Cons.prems by (auto simp: holds_name_def Option.bind_eq_Some_conv)
  show ?case
  proof (cases inside)
    case True
    with i rest show ?thesis by (intro disjI2 exI [of _ "[]"]) auto
  next
    case False
    from Cons.IH rest False
    consider "rules = []" "\<forall>d\<in>set databases. holds_name E normalizer target d = Some False"
      | before e after where "databases = before @ e # after" "rules = db_Rules e" "holds_name E normalizer target e = Some True"
        "\<forall>b\<in>set before. holds_name E normalizer target b = Some False"
      by auto
    then show ?thesis
    proof cases
      case 1
      with i False show ?thesis by simp
    next
      case (2 before e after)
      with i False show ?thesis by (intro disjI2 exI [of _ "d # before"] exI [of _ e] exI [of _ after]) simp
    qed
  qed
qed simp

abbreviation db_depth :: "databaseRules \<Rightarrow> nat" where
  "db_depth d \<equiv> case parsed (db_Suffix d) of None \<Rightarrow> 0 | Some p \<Rightarrow> length p"

lemma Depth_length: "Depth dn = Some n \<Longrightarrow> (case parsed dn of None \<Rightarrow> 0 | Some p \<Rightarrow> length p) = n"
  by (auto simp: Depth_def)

lemma insert_database_eq:
  assumes "insert_database d xs = Some ys"
  shows "mset ys = add_mset d (mset xs) \<and> (sorted_wrt (\<lambda>a b. db_depth a \<le> db_depth b) xs \<longrightarrow>
    sorted_wrt (\<lambda>a b. db_depth a \<le> db_depth b) ys)"
  using assms
proof (induction xs arbitrary: ys)
  case (Cons x xs)
  obtain dd xd where depths: "Depth (db_Suffix d) = Some dd" "Depth (db_Suffix x) = Some xd"
    using Cons.prems by (auto simp: Option.bind_eq_Some_conv)
  have len: "db_depth d = dd" "db_depth x = xd" using depths Depth_length by auto
  show ?case
  proof (cases "xd < dd")
    case True
    with Cons.prems depths obtain zs where zs: "insert_database d xs = Some zs" "ys = x # zs" by auto
    from Cons.IH [OF zs(1)] have IH: "mset zs = add_mset d (mset xs)"
      "sorted_wrt (\<lambda>a b. db_depth a \<le> db_depth b) xs \<longrightarrow> sorted_wrt (\<lambda>a b. db_depth a \<le> db_depth b) zs" by auto
    have members: "set zs = insert d (set xs)" using arg_cong [OF IH(1), of set_mset] by simp
    from IH members zs(2) True len show ?thesis by (auto simp del: sorted_wrt.simps(1))
  next
    case False
    with Cons.prems depths have "ys = d # x # xs" by simp
    with False len show ?thesis by (auto intro: order_trans)
  qed
qed simp

lemma sort_databases_from_eq:
  assumes "sort_databases_from done_rev ds = Some out" "sorted_wrt (\<lambda>a b. db_depth a \<le> db_depth b) done_rev"
  shows "mset out = mset done_rev + mset ds \<and> sorted_wrt (\<lambda>a b. db_depth b \<le> db_depth a) out"
  using assms
proof (induction ds arbitrary: done_rev)
  case Nil
  then show ?case by (auto simp: sorted_wrt_rev)
next
  case (Cons d ds)
  then obtain s where s: "insert_database d done_rev = Some s" "sort_databases_from s ds = Some out"
    by (auto simp: Option.bind_eq_Some_conv)
  from insert_database_eq [OF s(1)] Cons.prems(2) Cons.IH [OF s(2)] show ?case by simp
qed

lemma sortDatabases_eq:
  "sortDatabases ds = Some out \<Longrightarrow> mset out = mset ds \<and> sorted_wrt (\<lambda>a b. db_depth b \<le> db_depth a) out"
  using sort_databases_from_eq [of "[]" ds out] by (simp add: sortDatabases_def)

lemma newPolicy_databases:
  assumes "newPolicy E global databases addContent = Ok policy"
  shows "sorted_wrt (\<lambda>a b. db_depth b \<le> db_depth a) (p_databases policy)"
  using assms sortDatabases_eq by (auto simp: newPolicy_def go_of_option_eq_Ok)

lemma deepest_first:
  assumes "sorted_wrt (\<lambda>a b. db_depth b \<le> db_depth a) (before @ d # after)" "x \<in> set (d # after)"
  shows "db_depth x \<le> db_depth d"
  using assms by (auto simp: sorted_wrt_append)

section \<open>A sample policy\<close>

definition sample_acl_env :: acl_env where
  "sample_acl_env = \<lparr>acl_lib = sample_lib, acl_unicode = sample_unicode, regexp_Compile = (\<lambda>_. None),
     CompileFilter = (\<lambda>_. None), url_Parse = (\<lambda>_. None), ParseIP = (\<lambda>_. None), SplitHostPort = (\<lambda>_. None),
     acl_range = (\<lambda>_. sorted_list_of_fset)\<rparr>"

text \<open>Names of one RDN, as the parser reads them.\<close>

definition one_rdn_dn :: "bytes \<Rightarrow> DN" where
  "one_rdn_dn v = zero_DN\<lparr>parsed := Some [[\<lparr>ava_type = ''cn'', ava_value = v\<rparr>]], canonical := ''cn='' @ v,
     displayRDNs := [''cn='' @ v]\<rparr>"

lemma cn_lower: "ToLower sample_unicode ''cn'' = ''cn''"
  by (simp add: ToLower_def ascii_lower_def sample_unicode_def) (simp add: char_of_def bit_0)

lemma one_rdn_parse:
  assumes "simple_rdn_ok (''cn'', v)" "ToLower sample_unicode (''cn='' @ v) = ''cn='' @ v" "escapeDNValue v = v"
  shows "ParseDN sample_lib sample_unicode (''cn='' @ v) = Ok (one_rdn_dn v)"
proof -
  have lib: "lib_ParseDN sample_lib (''cn='' @ v) = Inr [[\<lparr>ava_type = ''cn'', ava_value = v\<rparr>]]"
    using sample_lib_parses assms(1)
    by (auto simp: parses_simple_names_def simple_dn_text_def simple_rdn_text_def dest!: spec [of _ "[(''cn'', v)]"])
  have trim: "TrimSpace ''cn'' = ''cn''" by (simp add: TrimSpace_def is_space_def)
  have "validDNAttributeType ''cn''" by code_simp
  then have p: "parseDN sample_lib sample_unicode (''cn='' @ v) = Ok [[\<lparr>ava_type = ''cn'', ava_value = v\<rparr>]]"
    using lib by (simp add: parseDN_def validateUniqueDNAttributeTypes_def enumerate_eq_zip Cut_def trim cn_lower Let_def)
  have printed: "lib_String sample_lib [[\<lparr>ava_type = ''cn'', ava_value = v\<rparr>]] = ''cn='' @ v"
    by (simp add: sample_lib_def sample_print_def)
  show ?thesis using p assms(2,3)
    by (simp add: ParseDN_def one_rdn_dn_def formatDNRDNs_def format_ava_def cn_lower printed)
qed

lemma config_parses: "ParseDN sample_lib sample_unicode ''cn=config'' = Ok (one_rdn_dn ''config'')"
proof -
  have "simple_rdn_ok (''cn'', ''config'')" "escapeDNValue ''config'' = ''config''" by code_simp+
  moreover have "ToLower sample_unicode (''cn='' @ ''config'') = ''cn='' @ ''config''"
    by (simp add: ToLower_def ascii_lower_def sample_unicode_def) (simp add: char_of_def bit_0)
  ultimately show ?thesis using one_rdn_parse [of "''config''"] by simp
qed

lemma cn_a_parses: "ParseDN sample_lib sample_unicode ''cn=a'' = Ok (one_rdn_dn ''a'')"
proof -
  have "simple_rdn_ok (''cn'', ''a'')" "escapeDNValue ''a'' = ''a''" by code_simp+
  moreover have "ToLower sample_unicode (''cn='' @ ''a'') = ''cn='' @ ''a''"
    by (simp add: ToLower_def ascii_lower_def sample_unicode_def) (simp add: char_of_def bit_0)
  ultimately show ?thesis using one_rdn_parse [of "''a''"] by simp
qed

lemma sample_acl_config: "configSuffix sample_acl_env = Some (one_rdn_dn ''config'')"
  by (simp add: configSuffix_def sample_acl_env_def config_parses)

lemma config_not_above_a: "under_suffix sample_acl_env (one_rdn_dn ''config'') (one_rdn_dn ''a'') = Some False"
proof -
  have "EqualFold sample_unicode ''cn=config'' ''cn=a'' = False"
    by (simp add: EqualFold_def runes_def)
  then show ?thesis
    by (auto simp: under_suffix_def Equal_def AncestorOf_def one_rdn_dn_def zero_DN_def hasSchemaAwareIdentity_def
        sample_acl_env_def sample_lib_def sample_print_def strict_suffix_def suffix_def Cons_eq_append_conv)
qed

definition sample_subject :: Subject where
  "sample_subject = \<lparr>s_DN = [], s_RealDN = [], s_PeerName = [], s_SockName = [], s_Domain = [], s_SockURL = [],
     s_SSF = 0, s_TransportSSF = 0, s_TLSSSF = 0, s_SASLSSF = 0\<rparr>"

definition sample_target :: Target where
  "sample_target = \<lparr>t_Entry = bare_entry ''cn=a'' [], t_Attribute = ''cn'', t_Value = Some ''a'',
     t_DNValued = False, t_Schema = None, t_DNNormalizer = None\<rparr>"

text \<open>\<open>to * by * read\<close>.\<close>

definition read_rule :: Rule where
  "read_rule = \<lparr>ru_Order = 0, ru_Target = \<lparr>ts_DN = zero_DNMatcher, ts_Attributes = [], ts_Filter = None, ts_Value = None\<rparr>,
     ru_By = [\<lparr>by_Who = [who_of_kind WhoAny False],
       by_Grant = \<lparr>g_Mode = grantSet, g_Privileges = ReadLevel, g_SelfValue = False, g_RealSelfValue = False\<rparr>,
       by_Control = ControlStop\<rparr>], ru_Raw = []\<rparr>"

definition read_policy :: Policy where
  "read_policy = \<lparr>p_global = [read_rule], p_databases = []\<rparr>"

lemma who_of_kind_kind: "w_Kind (who_of_kind kind real) = kind"
  by (simp add: who_of_kind_def)

lemma sample_target_parses:
  "parseACLDN sample_acl_env (e_DN (t_Entry sample_target)) (t_DNNormalizer sample_target) = Ok (one_rdn_dn ''a'')"
  by (simp add: parseACLDN_def sample_target_def sample_acl_env_def bare_entry_def cn_a_parses)

lemma read_policy_rules: "rulesFor sample_acl_env read_policy dn normalizer = Some [read_rule]"
  by (simp add: rulesFor_def read_policy_def)

lemma read_policy_allows:
  "Allowed sample_acl_env read_policy sample_subject sample_target required reader = Some (ReadLevel AND required = required)"
proof -
  have target: "matchTarget sample_acl_env (ru_Target read_rule) sample_target (one_rdn_dn ''a'') =
      Some (Some \<lparr>mc_dn = [''cn=a''], mc_value = []\<rparr>)"
    by (simp add: matchTarget_def read_rule_def targetDNMatches_def zero_DNMatcher_def normalizeACLDN_def
        sample_target_def matchesDN_def acl_text_def Key_def one_rdn_dn_def zero_DN_def)
  have clause: "clause_loop sample_acl_env sample_subject sample_target (one_rdn_dn ''a'') reader required
      \<lparr>mc_dn = [''cn=a''], mc_value = []\<rparr> 0 (ru_By read_rule) = Some (Decided (ReadLevel AND required = required))"
    by (simp add: read_rule_def matchesWho_def who_of_kind_kind matchesOneWho_def self_value_ok_def applyGrant_def)
  show ?thesis using target clause
    by (simp add: Allowed_def sample_target_parses on_success_def read_policy_rules)
qed

section \<open>Properties\<close>

text \<open>
  C2: every access that rules allow was granted: some rule for the target has a clause that is for the
  subject and stops, and each privilege that was asked for was added by a clause that is for the
  subject, of a rule that is for the target. In particular a non-empty rule list denies by default.
\<close>

theorem allowed_access_was_granted:
  assumes "parseACLDN E (e_DN (t_Entry target)) (t_DNNormalizer target) = Ok dn"
    and "rulesFor E policy dn (t_DNNormalizer target) = Some rules" and "rules \<noteq> []"
    and "Allowed E policy subject target required reader = Some True"
  shows "(\<exists>rule\<in>set rules. deciding_rule E subject target dn reader rule) \<and>
    (\<forall>n. bit required n \<longrightarrow> (\<exists>rule\<in>set rules. granting_rule E subject target dn reader n rule))"
  using rule_loop_source [of E subject target dn reader required 0 rules] assms by (simp add: Allowed_def on_success_def)

theorem allowed_access_was_granted_witness:
  "deciding_rule sample_acl_env sample_subject sample_target (one_rdn_dn ''a'') None read_rule"
proof -
  have "Allowed sample_acl_env read_policy sample_subject sample_target Read None = Some True"
    by (simp add: read_policy_allows ReadLevel_def SearchLevel_def CompareLevel_def AuthLevel_def DiscloseLevel_def
        Disclose_def Auth_def Compare_privilege_def Search_def Read_def)
  from allowed_access_was_granted [OF sample_target_parses read_policy_rules _ this] show ?thesis by simp
qed

text \<open>
  C18: without access control values, the privileges that a subject has on a target do not depend on
  what is asked for: two sets of privileges are allowed together exactly when each is allowed.
\<close>

theorem allowed_splits:
  assumes "aci_free policy"
  shows "Allowed E policy subject target (a OR b) reader = Some True \<longleftrightarrow>
    Allowed E policy subject target a reader = Some True \<and> Allowed E policy subject target b reader = Some True"
proof -
  obtain e where "\<And>required. Allowed E policy subject target required reader = map_option (answer required) e"
    using Allowed_static [OF assms] by blast
  moreover have "p AND (a OR b) = a OR b \<longleftrightarrow> p AND a = a \<and> p AND b = b" for p :: Privilege
    unfolding AND_iff_within by (auto simp: bit_or_iff)
  ultimately show ?thesis by (auto simp: answer_def split: option.splits)
qed

theorem allowed_splits_witness:
  "Allowed sample_acl_env read_policy sample_subject sample_target (Read OR Search) None = Some True"
proof -
  have free: "aci_free read_policy"
    by (simp add: aci_free_def no_aci_def no_aci_clause_def read_policy_def read_rule_def who_of_kind_kind)
  have "Allowed sample_acl_env read_policy sample_subject sample_target Read None = Some True"
    "Allowed sample_acl_env read_policy sample_subject sample_target Search None = Some True"
    by (simp_all add: read_policy_allows ReadLevel_def SearchLevel_def CompareLevel_def AuthLevel_def DiscloseLevel_def
        Disclose_def Auth_def Compare_privilege_def Search_def Read_def)
  then show ?thesis using allowed_splits [OF free] by blast
qed

text \<open>
  C3: a policy that can batch values decides every value of an attribute alike, and never reads
  another entry: neither the value nor the reader changes the decision.
\<close>

theorem batched_values_agree:
  assumes "CanBatchValues policy"
  shows "Allowed E policy subject (target\<lparr>t_Value := v\<rparr>) required reader =
    Allowed E policy subject (target\<lparr>t_Value := w\<rparr>) required reader'"
  using assms by (rule Allowed_same) (simp add: same_but_value_def)

theorem batched_values_agree_witness:
  "Allowed sample_acl_env read_policy sample_subject (sample_target\<lparr>t_Value := Some ''b''\<rparr>) Read None =
     Allowed sample_acl_env read_policy sample_subject (sample_target\<lparr>t_Value := None\<rparr>) Read
       (Some \<lparr>er_Get = (\<lambda>_. None), er_ForEach = None\<rparr>)"
  by (rule batched_values_agree)
    (simp add: CanBatchValues_def rulesCanBatchValues_def read_policy_def read_rule_def batch_who_def who_of_kind_kind)

text \<open>
  when the shortcut for policies without rules applies, the full evaluation gives its answer, for
  every subject, attribute, value and reader, wherever it does not panic; and it cannot panic when
  there are no databases.
\<close>

theorem default_access_agrees:
  assumes "DefaultDNAllowed E policy (e_DN (t_Entry target)) (t_DNNormalizer target) required = Some (allowed, True)"
  shows "Allowed E policy subject target required reader = Some allowed \<or>
    p_databases policy \<noteq> [] \<and> Allowed E policy subject target required reader = None"
proof -
  have empty: "p_global policy = []" "\<forall>d\<in>set (p_databases policy). db_Rules d = []"
    using assms by (auto simp: DefaultDNAllowed_def list_ex_iff split: if_splits)
  have none: "rules = []" if "rulesFor E policy dn normalizer = Some rules" for dn normalizer rules
    using that empty database_rules_from [of E dn normalizer "p_databases policy"] by (auto simp: rulesFor_def)
  show ?thesis
  proof (cases "parseACLDN E (e_DN (t_Entry target)) (t_DNNormalizer target)")
    case (Ok dn)
    with assms obtain p where p: "defaultPrivileges E dn = Some p" "allowed = (p AND required = required)"
      by (auto simp: DefaultDNAllowed_def on_success_def Option.bind_eq_Some_conv split: if_splits)
    show ?thesis
    proof (cases "rulesFor E policy dn (t_DNNormalizer target)")
      case None
      then have "p_databases policy \<noteq> []" by (auto simp: rulesFor_def)
      with None Ok show ?thesis by (simp add: Allowed_def on_success_def)
    next
      case (Some rules)
      with none [OF Some] Ok p show ?thesis by (simp add: Allowed_def on_success_def)
    qed
  qed (use assms in \<open>auto simp: DefaultDNAllowed_def Allowed_def on_success_def split: if_splits\<close>)
qed

theorem default_access_agrees_witness:
  "Allowed sample_acl_env DefaultPolicy sample_subject sample_target Read None = Some True"
proof -
  have "defaultPrivileges sample_acl_env (one_rdn_dn ''a'') = Some ReadLevel"
    by (simp add: defaultPrivileges_def sample_acl_config config_not_above_a)
  then have "DefaultDNAllowed sample_acl_env DefaultPolicy (e_DN (t_Entry sample_target)) (t_DNNormalizer sample_target) Read
      = Some (True, True)"
    by (simp add: DefaultDNAllowed_def DefaultPolicy_def sample_target_parses on_success_def ReadLevel_def SearchLevel_def
        CompareLevel_def AuthLevel_def DiscloseLevel_def Disclose_def Auth_def Compare_privilege_def Search_def Read_def)
  from default_access_agrees [OF this, of sample_subject None] show ?thesis by (simp add: DefaultPolicy_def)
qed

text \<open>
  C21: a name is decided by the rules of the deepest database that holds it, followed by the global
  rules; by the global rules alone when no database holds it.
\<close>

theorem deepest_database_decides:
  assumes "newPolicy E global databases addContent = Ok policy"
    and "rulesFor E policy target N = Some rules"
  shows "rules = p_global policy \<and> (\<forall>d\<in>set (p_databases policy). holds_name E N target d = Some False) \<or>
    (\<exists>d\<in>set (p_databases policy). rules = db_Rules d @ p_global policy \<and> holds_name E N target d = Some True \<and>
       (\<forall>e\<in>set (p_databases policy). holds_name E N target e = Some True \<longrightarrow> db_depth e \<le> db_depth d))"
proof -
  obtain found where found: "database_rules E target N (p_databases policy) = Some found" "rules = found @ p_global policy"
    using assms(2) by (auto simp: rulesFor_def)
  from database_rules_first [OF found(1)] show ?thesis
  proof (elim disjE conjE exE)
    assume "found = []" "\<forall>d\<in>set (p_databases policy). holds_name E N target d = Some False"
    with found(2) show ?thesis by simp
  next
    fix before d after
    assume d: "p_databases policy = before @ d # after" "found = db_Rules d" "holds_name E N target d = Some True"
      "\<forall>b\<in>set before. holds_name E N target b = Some False"
    have "db_depth e \<le> db_depth d" if "e \<in> set (p_databases policy)" "holds_name E N target e = Some True" for e
      using that d newPolicy_databases [OF assms(1)] deepest_first [of before d after e] by auto
    with d found(2) show ?thesis by auto
  qed
qed

theorem deepest_database_decides_witness:
  "\<exists>policy rules. newPolicy sample_acl_env [] (fmupd ''cn=a'' [read_rule] fmempty) fmempty = Ok policy \<and>
     rulesFor sample_acl_env policy (one_rdn_dn ''a'') None = Some rules \<and> rules = [read_rule]"
proof -
  let ?d = "\<lparr>db_Suffix = one_rdn_dn ''a'', db_Rules = [read_rule], db_AddContentACL = False\<rparr>"
  let ?p = "\<lparr>p_global = [], p_databases = [?d]\<rparr>"
  have p: "newPolicy sample_acl_env [] (fmupd ''cn=a'' [read_rule] fmempty) fmempty = Ok ?p"
    by (simp add: newPolicy_def sample_acl_env_def sorted_list_of_fset.rep_eq cn_a_parses SortRules_def sortDatabases_def)
  have self: "under_suffix sample_acl_env (one_rdn_dn ''a'') (one_rdn_dn ''a'') = Some True"
    by (simp add: under_suffix_def Equal_def one_rdn_dn_def zero_DN_def hasSchemaAwareIdentity_def sample_acl_env_def
        sample_lib_def)
  have rules: "rulesFor sample_acl_env ?p (one_rdn_dn ''a'') None = Some [read_rule]"
    by (simp add: rulesFor_def normalizeACLDN_def self)
  from deepest_database_decides [OF p rules] have "[read_rule] = db_Rules ?d @ []" by auto
  with p rules show ?thesis by auto
qed

end
