(* ===== verification/ACL_Set_Facts.thy ===== *)
theory ACL_Set_Facts
  imports ACL_Decision
begin

text \<open>
  Set expressions: the parser returns on every input and never reads outside it, and the chase of an
  attribute computes a least closed set whatever the order of the range loops.
\<close>

section \<open>Reading a set expression\<close>

text \<open>
  A part of the parser that starts inside the input stays inside and does not panic; \<open>moves k\<close> says
  that it also takes at least \<open>k\<close> bytes.
\<close>

definition moves :: "nat \<Rightarrow> bytes \<Rightarrow> nat \<Rightarrow> (set_error, 'a \<times> nat) go \<Rightarrow> bool" where
  "moves k input p m \<longleftrightarrow> m \<noteq> Panic \<and> (\<forall>x q. m = Ok (x, q) \<longrightarrow> p + k \<le> q \<and> q \<le> length input)"

definition consumes :: "bytes \<Rightarrow> (nat \<Rightarrow> (set_error, setExpression \<times> nat) go option) \<Rightarrow> bool" where
  "consumes input operand \<longleftrightarrow>
     (\<forall>p\<le>length input. \<exists>m. operand p = Some m \<and> moves 1 input p m)"

lemma byte_at_inside: "byte_at input p P = Ok (p < length input \<and> P (input ! p))"
  by (simp add: byte_at_def go_and_def)

lemma scan_while_eq:
  "p \<le> length input \<Longrightarrow> scan_while P input p = Ok (p + length (takeWhile P (drop p input)))"
proof (induction P input p rule: scan_while.induct)
  case (1 P input p)
  show ?case
  proof (cases "p < length input")
    case True
    then have "drop p input = input ! p # drop (Suc p) input" by (simp add: Cons_nth_drop_Suc)
    with True "1.IH" [of True] show ?thesis by (subst scan_while.simps) (simp add: byte_at_inside)
  next
    case False
    then show ?thesis using 1 by (subst scan_while.simps) (simp add: byte_at_inside)
  qed
qed

lemma scan_while_inside:
  assumes "p \<le> length input"
  obtains q where "scan_while P input p = Ok q" "p \<le> q" "q \<le> length input"
proof -
  have "length (takeWhile P (drop p input)) \<le> length input - p"
    using length_takeWhile_le [of P "drop p input"] by simp
  with assms that show ?thesis by (simp add: scan_while_eq)
qed

lemma skipSpace_inside:
  assumes "p \<le> length input"
  obtains q where "skipSpace input p = Ok q" "p \<le> q" "q \<le> length input"
  unfolding skipSpace_def by (rule scan_while_inside [OF assms])

lemma parent_level_total: "parent_level level digits \<noteq> Panic"
  by (induction level digits rule: parent_level.induct) (auto simp: Let_def)

lemma parseIdentifier_inside:
  assumes "p \<le> length input"
  obtains q where "parseIdentifier input p = Ok (take (q - p) (drop p input), q)" "p \<le> q" "q \<le> length input"
proof -
  obtain q where q: "scan_while set_identifier_char input p = Ok q" "p \<le> q" "q \<le> length input"
    by (rule scan_while_inside [OF assms])
  then show ?thesis by (intro that [of q]) (simp_all add: parseIdentifier_def go_slice_def)
qed

lemma parse_parents_moves:
  assumes "p \<le> length input"
  shows "moves 0 input p (parse_parents e input p)"
proof -
  obtain q where q: "scan_while is_digit input p = Ok q" "p \<le> q" "q \<le> length input"
    by (rule scan_while_inside [OF assms])
  then show ?thesis using assms parent_level_total [of 0]
    by (auto simp: moves_def parse_parents_def byte_at_inside go_slice_def)
qed

lemma parse_step_moves:
  assumes "p \<le> length input"
  shows "moves 0 input p (parse_step e input p)"
proof -
  obtain q where q: "parseIdentifier input p = Ok (take (q - p) (drop p input), q)" "p \<le> q" "q \<le> length input"
    by (rule parseIdentifier_inside [OF assms])
  have "moves 0 input (p + 1) (parse_parents e input (p + 1))" if "p < length input"
    using parse_parents_moves [of "p + 1"] that by simp
  then show ?thesis using q assms
    by (auto simp: moves_def parse_step_def byte_at_inside Suc_le_eq dest: Suc_leD)
qed

lemma step_start_inside:
  assumes "p < length input"
  obtains s where "step_start input p = Ok s" "s \<noteq> None \<Longrightarrow> p < the s \<and> the s \<le> length input"
proof (cases "HasPrefix (drop p input) ''->''")
  case True
  then obtain rest where "drop p input = ''->'' @ rest" by (auto simp: HasPrefix_prefix prefix_def)
  then have "length (drop p input) = Suc (Suc (length rest))" by simp
  then have "p + 2 \<le> length input" by simp
  with True show ?thesis by (intro that [of "Some (p + 2)"]) (simp_all add: step_start_def go_slice_def)
next
  case False
  with assms show ?thesis
    by (intro that [of "if input ! p = CHR ''/'' then Some (p + 1) else None"])
      (auto simp: step_start_def go_slice_def split: if_splits)
qed

lemma chase_steps_moves: "p \<le> length input \<Longrightarrow> moves 0 input p (chase_steps e input p)"
proof (induction e input p rule: chase_steps.induct)
  case (1 e input p0)
  obtain p where p: "skipSpace input p0 = Ok p" "p0 \<le> p" "p \<le> length input"
    by (rule skipSpace_inside [OF "1.prems"])
  show ?case
  proof (cases "length input \<le> p")
    case True
    with p show ?thesis by (subst chase_steps.simps) (simp add: moves_def)
  next
    case False
    then have inside: "p < length input" by simp
    obtain s where s: "step_start input p = Ok s" "s \<noteq> None \<Longrightarrow> p < the s \<and> the s \<le> length input"
      by (rule step_start_inside [OF inside]) blast
    show ?thesis
    proof (cases s)
      case None
      with p s False show ?thesis by (subst chase_steps.simps) (simp add: moves_def)
    next
      case (Some q)
      note step = parse_step_moves [of q input e]
      show ?thesis
      proof (cases "parse_step e input q")
        case (Ok r)
        obtain e' r' where r: "r = (e', r')" by (cases r)
        have ok: "parse_step e input q = Ok (e', r')" using Ok r by simp
        have b: "q \<le> r'" "r' \<le> length input" using step s(2) Some ok by (auto simp: moves_def)
        from "1.IH" [OF p(1) False s(1) Some ok refl b(2)] b p s(2) Some
        have "moves 0 input p0 (chase_steps e' input r')" by (auto simp: moves_def)
        then show ?thesis using p s Some ok False by (subst chase_steps.simps) simp
      next
        case (Err err)
        then show ?thesis using p s Some False by (subst chase_steps.simps) (simp add: moves_def)
      next
        case Panic
        with step s(2) Some show ?thesis by (auto simp: moves_def)
      qed
    qed
  qed
qed

lemma run_then_moves:
  assumes "m = Some r" "moves k input p r"
    and "\<And>x q. r = Ok (x, q) \<Longrightarrow> p + k \<le> q \<Longrightarrow> q \<le> length input \<Longrightarrow> \<exists>r'. f (x, q) = Some r' \<and> moves l input p r'"
  shows "\<exists>r'. run_then m f = Some r' \<and> moves l input p r'"
proof (cases r)
  case (Ok y)
  obtain x q where y: "y = (x, q)" by (cases y)
  have "p + k \<le> q" "q \<le> length input" using assms(2) Ok y by (auto simp: moves_def)
  from assms(3) [OF Ok [unfolded y] this] show ?thesis by (simp add: assms(1) Ok y)
qed (use assms(1,2) in \<open>auto simp: moves_def\<close>)

lemma operator_kind_inside: "p < length input \<Longrightarrow> operator_kind input p \<noteq> Panic"
  by (simp add: operator_kind_def)

lemma at_terminator_inside: "\<exists>stop. at_terminator input p terminator = Ok stop \<and> (\<not> stop \<longrightarrow> p < length input)"
  by (auto simp: at_terminator_def go_and_def)

lemma operator_loop_moves:
  assumes "consumes input operand" "p \<le> length input"
  shows "\<exists>m. operator_loop operand input terminator left p = Some m \<and> moves 0 input p m"
  using assms(2)
proof (induction "length input - p" arbitrary: left p rule: less_induct)
  case less
  obtain q where q: "skipSpace input p = Ok q" "p \<le> q" "q \<le> length input"
    by (rule skipSpace_inside [OF less.prems])
  obtain stop where stop: "at_terminator input q terminator = Ok stop" "\<not> stop \<longrightarrow> q < length input"
    using at_terminator_inside by blast
  show ?case
  proof (cases stop)
    case True
    with q stop show ?thesis by (subst operator_loop.simps) (simp add: moves_def)
  next
    case False
    with stop have inside: "q < length input" by simp
    show ?thesis
    proof (cases "operator_kind input q")
      case (Ok kind)
      obtain m where m: "operand (q + 1) = Some m" "moves 1 input (q + 1) m"
        using assms(1) inside unfolding consumes_def by (metis Suc_eq_plus1 Suc_leI)
      have "\<exists>r. run_then (operand (q + 1)) (\<lambda>(right, q). operator_loop operand input terminator (kind left right) q)
          = Some r \<and> moves 0 input (q + 1) r"
      proof (rule run_then_moves [OF m], clarsimp)
        fix right r
        assume r: "Suc (Suc q) \<le> r" "r \<le> length input"
        with q inside have "length input - r < length input - p" by simp
        from less.hyps [OF this r(2), of "kind left right"] r
        show "\<exists>r'. operator_loop operand input terminator (kind left right) r = Some r' \<and> moves 0 input (Suc q) r'"
          by (fastforce simp: moves_def)
      qed
      with q have "\<exists>r. run_then (operand (q + 1)) (\<lambda>(right, q). operator_loop operand input terminator (kind left right) q)
          = Some r \<and> moves 0 input p r"
        by (fastforce simp: moves_def)
      with q stop False Ok show ?thesis by (subst operator_loop.simps) simp
    next
      case (Err e)
      with q stop False show ?thesis by (subst operator_loop.simps) (simp add: moves_def)
    next
      case Panic
      with operator_kind_inside [OF inside] show ?thesis by simp
    qed
  qed
qed

lemma parse_expression_moves:
  assumes "consumes input operand" "p \<le> length input"
  shows "\<exists>m. parse_expression operand input terminator p = Some m \<and> moves 1 input p m"
proof -
  obtain m where m: "operand p = Some m" "moves 1 input p m" using assms by (auto simp: consumes_def)
  show ?thesis
    unfolding parse_expression_def
  proof (rule run_then_moves [OF m], clarsimp)
    fix left q
    assume q: "Suc p \<le> q" "q \<le> length input"
    from operator_loop_moves [OF assms(1) q(2), of terminator left] q
    show "\<exists>r'. operator_loop operand input terminator left q = Some r' \<and> moves (Suc 0) input p r'"
      by (fastforce simp: moves_def)
  qed
qed

lemma close_bracket_moves:
  assumes "q0 \<le> length input"
  shows "moves 1 input q0 (close_bracket input e q0)"
proof -
  obtain q where q: "skipSpace input q0 = Ok q" "q0 \<le> q" "q \<le> length input"
    by (rule skipSpace_inside [OF assms])
  then show ?thesis by (cases "q < length input") (auto simp: close_bracket_def moves_def)
qed

lemma parse_bracket_moves:
  assumes "consumes input operand" "p < length input"
  shows "\<exists>m. parse_bracket operand input p = Some m \<and> moves 1 input p m"
proof -
  obtain m where m: "parse_expression operand input (CHR '')'') (p + 1) = Some m" "moves 1 input (p + 1) m"
    using parse_expression_moves [OF assms(1), of "p + 1"] assms(2) by auto
  have m0: "moves 0 input p m" using m(2) by (fastforce simp: moves_def)
  show ?thesis
    unfolding parse_bracket_def
  proof (rule run_then_moves [OF m(1) m0], clarsimp)
    fix e q0
    assume "p \<le> q0" "q0 \<le> length input"
    with close_bracket_moves [OF this(2), of e] show "moves (Suc 0) input p (close_bracket input e q0)"
      by (fastforce simp: moves_def)
  qed
qed

lemma IndexByte_inside:
  assumes "IndexByte s c = Some i"
  shows "i < length s"
proof -
  from assms have "c \<in> set s" "i = length (takeWhile (\<lambda>x. x \<noteq> c) s)" by (auto simp: IndexByte_def split: if_splits)
  then show ?thesis using takeWhile_eq_all_conv [of "\<lambda>x. x \<noteq> c" s] length_takeWhile_le [of "\<lambda>x. x \<noteq> c" s]
    by (metis le_neq_implies_less takeWhile_eq_take take_all)
qed

lemma parse_literal_moves:
  assumes "p < length input"
  shows "moves 1 input p (parse_literal input p)"
  using assms IndexByte_inside [of "drop (Suc p) input" "CHR '']''"]
  by (auto simp: moves_def parse_literal_def go_slice_def Let_def split: option.splits)

lemma parse_name_moves:
  assumes "p \<le> length input"
  shows "moves 1 input p (parse_name input p)"
proof -
  obtain q where q: "parseIdentifier input p = Ok (take (q - p) (drop p input), q)" "p \<le> q" "q \<le> length input"
    by (rule parseIdentifier_inside [OF assms])
  have taken: "p < q" if "take (q - p) (drop p input) = c # cs" for c cs using that by (cases "p < q") simp_all
  from q show ?thesis by (auto simp: moves_def parse_name_def Suc_le_eq dest: taken)
qed

lemma operand_consumes:
  assumes inner: "\<And>p. p < length input \<Longrightarrow> \<exists>m. (case levels of 0 \<Rightarrow> Some (Err SetTooDeep)
    | Suc levels' \<Rightarrow> parse_bracket (parseOperand levels' input) input p) = Some m \<and> moves 1 input p m"
  shows "consumes input (parseOperand levels input)"
  unfolding consumes_def
proof (intro allI impI)
  fix p0 assume "p0 \<le> length input"
  then obtain p where p: "skipSpace input p0 = Ok p" "p0 \<le> p" "p \<le> length input"
    by (rule skipSpace_inside)
  show "\<exists>m. parseOperand levels input p0 = Some m \<and> moves 1 input p0 m"
  proof (cases "p < length input")
    case False
    with p show ?thesis by (subst parseOperand.simps) (simp add: moves_def)
  next
    case True
    let ?operand = "if input ! p = CHR ''('' then (case levels of 0 \<Rightarrow> Some (Err SetTooDeep)
        | Suc levels' \<Rightarrow> parse_bracket (parseOperand levels' input) input p)
      else if input ! p = CHR ''['' then Some (parse_literal input p) else Some (parse_name input p)"
    have "\<exists>m. ?operand = Some m \<and> moves 1 input p m"
      using inner [OF True] parse_literal_moves [OF True] parse_name_moves [OF p(3)] by simp
    then obtain m where m: "?operand = Some m" "moves 1 input p m" by blast
    have "\<exists>r. run_then ?operand (\<lambda>(e, q). Some (chase_steps e input q)) = Some r \<and> moves 1 input p r"
    proof (rule run_then_moves [OF m], clarsimp)
      fix e q
      assume "Suc p \<le> q" "q \<le> length input"
      with chase_steps_moves [OF this(2), of e] show "moves (Suc 0) input p (chase_steps e input q)"
        by (fastforce simp: moves_def)
    qed
    with p True show ?thesis by (subst parseOperand.simps) (fastforce simp: moves_def)
  qed
qed

lemma parseOperand_consumes: "consumes input (parseOperand levels input)"
proof (induction levels)
  case 0
  show ?case by (rule operand_consumes) (simp add: moves_def)
next
  case (Suc levels)
  show ?case by (rule operand_consumes) (use parse_bracket_moves [OF Suc] in simp)
qed

section \<open>The arrow behind a name\<close>

text \<open>
  C39: the parser takes \<open>->\<close> for a step, but a hyphen is also a character of identifiers: an expression
  that begins with \<open>user->\<close> loses the hyphen to the identifier and is refused, whatever follows.
\<close>

theorem arrow_behind_user: "parseSetExpression (''user->'' @ rest) = Err UnknownSetOperand"
proof -
  let ?s = "''user->'' @ rest"
  have space: "skipSpace ?s 0 = Ok 0"
    by (simp add: skipSpace_def scan_while_eq is_space_def)
  have "scan_while set_identifier_char ?s 0 = Ok 5"
    by (simp add: scan_while_eq set_identifier_char_def latin_letter_def is_digit_def)
  then have "parse_name ?s 0 = Err UnknownSetOperand"
    by (simp add: parse_name_def parseIdentifier_def go_slice_def)
  with space have "parseOperand levels ?s 0 = Some (Err UnknownSetOperand)" for levels
    by (subst parseOperand.simps) simp
  then show ?thesis by (simp add: parseSetExpression_def run_set_parser_def parse_expression_def)
qed

section \<open>The chase\<close>

text \<open>A range loop over a map visits each key once, in an order that the language leaves open.\<close>

definition range_ok :: "acl_env \<Rightarrow> bool" where
  "range_ok E \<longleftrightarrow> (\<forall>site S. distinct (acl_range E site S) \<and> set (acl_range E site S) = fset S)"

text \<open>What is reached from some values by one step or more.\<close>

inductive reached :: "('a \<Rightarrow> 'a set option) \<Rightarrow> 'a set \<Rightarrow> 'a \<Rightarrow> bool" for gather V where
  first: "v \<in> V \<Longrightarrow> gather v = Some S \<Longrightarrow> w \<in> S \<Longrightarrow> reached gather V w"
| again: "reached gather V v \<Longrightarrow> gather v = Some S \<Longrightarrow> w \<in> S \<Longrightarrow> reached gather V w"

lemma add_gathered_eq:
  assumes "fcard result \<le> maxACLSetValues"
  shows "(\<exists>result' fresh'. add_gathered result fresh vs = Ok (result', fresh') \<and>
      fset result' = fset result \<union> set vs \<and> set fresh' = set fresh \<union> (set vs - fset result)) \<or>
    add_gathered result fresh vs = Err ChaseTooLarge \<and> maxACLSetValues < card (fset result \<union> set vs)"
  using assms
proof (induction vs arbitrary: result fresh)
  case (Cons v vs)
  consider "v |\<in>| result" | "v |\<notin>| result" "maxACLSetValues \<le> fcard result" | "v |\<notin>| result" "fcard result < maxACLSetValues"
    by linarith
  then show ?case
  proof cases
    case 1
    then have eq: "add_gathered result fresh (v # vs) = add_gathered result fresh vs"
      "fset result \<union> set (v # vs) = fset result \<union> set vs" "set (v # vs) - fset result = set vs - fset result"
      by auto
    show ?thesis unfolding eq by (rule Cons.IH [OF Cons.prems])
  next
    case 2
    have "card (fset result) < card (fset result \<union> set (v # vs))"
      using 2(1) by (intro psubset_card_mono) auto
    with 2 show ?thesis by (simp add: fcard.rep_eq)
  next
    case 3
    then have small: "fcard (finsert v result) \<le> maxACLSetValues" by (simp add: fcard_finsert_disjoint)
    have eq: "add_gathered result fresh (v # vs) = add_gathered (finsert v result) (fresh @ [v]) vs"
      "fset (finsert v result) \<union> set vs = fset result \<union> set (v # vs)"
      "set (fresh @ [v]) \<union> (set vs - fset (finsert v result)) = set fresh \<union> (set (v # vs) - fset result)"
      using 3 by auto
    show ?thesis using Cons.IH [OF small, of "fresh @ [v]"] unfolding eq .
  qed
qed simp

text \<open>What holds of a chase between two rounds, with \<open>R\<close> the values that are reached.\<close>

definition chase_inv :: "(bytes \<Rightarrow> bytes list option) \<Rightarrow> bytes set \<Rightarrow> bytes fset \<Rightarrow> bytes list \<Rightarrow> bool" where
  "chase_inv gather V result queue \<longleftrightarrow>
     (let R = reached (map_option set \<circ> gather) V in
        (\<forall>v. v \<in> V \<or> R v \<longrightarrow> gather v \<noteq> None) \<and> fcard result \<le> maxACLSetValues \<and>
        (\<forall>w\<in>fset result. R w) \<and> (\<forall>v\<in>set queue. v \<in> V \<or> R v) \<and>
        (\<forall>v g. v \<in> V \<union> fset result \<longrightarrow> v \<notin> set queue \<longrightarrow> gather v = Some g \<longrightarrow> set g \<subseteq> fset result))"

lemma chase_inv_step:
  assumes inv: "chase_inv gather V result (v # queue)" and g: "gather v = Some g"
    and r: "fset result' = fset result \<union> set g" "set fresh = set g - fset result" "fcard result' \<le> maxACLSetValues"
  shows "chase_inv gather V result' (queue @ fresh)"
proof -
  let ?R = "reached (map_option set \<circ> gather) V"
  have v: "v \<in> V \<or> ?R v" using inv by (simp add: chase_inv_def Let_def)
  have new: "?R w" if "w \<in> set g" for w
    using v that g by (auto intro: reached.first [where S = "set g"] reached.again [where S = "set g"])
  show ?thesis
    unfolding chase_inv_def Let_def
  proof (intro conjI)
    show "\<forall>x. x \<in> V \<or> ?R x \<longrightarrow> gather x \<noteq> None" using inv by (simp add: chase_inv_def Let_def)
    show "fcard result' \<le> maxACLSetValues" by (rule r)
    show "\<forall>w\<in>fset result'. ?R w" using inv new r(1) by (auto simp: chase_inv_def Let_def)
    show "\<forall>x\<in>set (queue @ fresh). x \<in> V \<or> ?R x" using inv new r(2) by (auto simp: chase_inv_def Let_def)
    show "\<forall>x h. x \<in> V \<union> fset result' \<longrightarrow> x \<notin> set (queue @ fresh) \<longrightarrow> gather x = Some h \<longrightarrow> set h \<subseteq> fset result'"
    proof (intro allI impI)
      fix x h
      assume x: "x \<in> V \<union> fset result'" "x \<notin> set (queue @ fresh)" and h: "gather x = Some h"
      show "set h \<subseteq> fset result'"
      proof (cases "x = v")
        case True
        with h g r(1) show ?thesis by simp
      next
        case False
        with x r(1,2) have "x \<in> V \<union> fset result" "x \<notin> set (v # queue)" by auto
        with inv h have "set h \<subseteq> fset result" unfolding chase_inv_def Let_def by blast
        with r(1) show ?thesis by blast
      qed
    qed
  qed
qed

lemma chase_loop_reached:
  assumes "chase_inv gather V result queue"
  shows "case chase_loop gather True result queue of
      Ok out \<Rightarrow> fset out = Collect (reached (map_option set \<circ> gather) V) \<and> fcard out \<le> maxACLSetValues
    | Err e \<Rightarrow> e = ChaseTooLarge \<and> (finite (Collect (reached (map_option set \<circ> gather) V)) \<longrightarrow>
        maxACLSetValues < card (Collect (reached (map_option set \<circ> gather) V)))
    | Panic \<Rightarrow> False"
  using assms
proof (induction gather "True" result queue rule: chase_loop.induct)
  case (1 gather result)
  have "w \<in> fset result" if "reached (map_option set \<circ> gather) V w" for w
  proof -
    have closed: "set g \<subseteq> fset result" if "v \<in> V \<union> fset result" "gather v = Some g" for v g
    proof -
      have "\<forall>v g. v \<in> V \<union> fset result \<longrightarrow> v \<notin> set [] \<longrightarrow> gather v = Some g \<longrightarrow> set g \<subseteq> fset result"
        using 1 unfolding chase_inv_def Let_def by (elim conjE)
      from this [rule_format, OF that(1) _ that(2)] show ?thesis by simp
    qed
    from that show ?thesis by (induction rule: reached.induct) (use closed in \<open>fastforce+\<close>)
  qed
  moreover have "reached (map_option set \<circ> gather) V w" if "w \<in> fset result" for w
    using 1 that by (simp add: chase_inv_def Let_def)
  ultimately show ?case using 1 by (auto simp: chase_loop.simps chase_inv_def Let_def)
next
  case (2 gather result v queue)
  let ?R = "reached (map_option set \<circ> gather) V"
  have small: "\<not> maxACLSetValues < fcard result" and v: "v \<in> V \<or> ?R v" and R: "\<forall>w\<in>fset result. ?R w"
    using "2.prems" by (simp_all add: chase_inv_def Let_def)
  from "2.prems" v obtain g where g: "gather v = Some g" by (auto simp: chase_inv_def Let_def)
  have new: "?R w" if "w \<in> set g" for w
    using v that g by (auto intro: reached.first [where S = "set g"] reached.again [where S = "set g"])
  from add_gathered_eq [of result "[]" g] small
  consider result' fresh where "add_gathered result [] g = Ok (result', fresh)" "fset result' = fset result \<union> set g"
      "set fresh = set g - fset result"
    | "add_gathered result [] g = Err ChaseTooLarge" "maxACLSetValues < card (fset result \<union> set g)"
    by auto
  then show ?case
  proof cases
    case 1
    have bound: "fcard result' \<le> maxACLSetValues" using add_gathered_count [OF 1(1)] small by simp
    have eq: "chase_loop gather True result (v # queue) = chase_loop gather True result' (queue @ fresh)"
      using small g 1(1) by (subst chase_loop.simps) simp
    from "2.hyps" [OF small g 1(1) refl] chase_inv_step [OF "2.prems" g 1(2,3) bound]
    show ?thesis unfolding eq by simp
  next
    case 2
    have eq: "chase_loop gather True result (v # queue) = Err ChaseTooLarge"
      using small g 2(1) by (subst chase_loop.simps) simp
    have "fset result \<union> set g \<subseteq> Collect ?R" using R new by auto
    then have "finite (Collect ?R) \<longrightarrow> card (fset result \<union> set g) \<le> card (Collect ?R)" by (simp add: card_mono)
    then show ?thesis using 2(2) unfolding eq by auto
  qed
qed

lemma chase_loop_once:
  assumes "fcard result \<le> maxACLSetValues" "chase_loop gather False result queue = Ok out"
  shows "fset out = fset result \<union> {w. \<exists>v\<in>set queue. \<exists>g. gather v = Some g \<and> w \<in> set g}"
  using assms
proof (induction gather "False" result queue rule: chase_loop.induct)
  case (1 gather result)
  then show ?case by (simp add: chase_loop.simps)
next
  case (2 gather result v queue)
  have small: "\<not> maxACLSetValues < fcard result" using "2.prems" by simp
  with "2.prems"(2) obtain g result' fresh where g: "gather v = Some g" "add_gathered result [] g = Ok (result', fresh)"
      "chase_loop gather False result' queue = Ok out"
    by (subst (asm) chase_loop.simps) (auto split: option.splits go.splits prod.splits if_splits)
  have r: "fset result' = fset result \<union> set g" "fcard result' \<le> maxACLSetValues"
    using add_gathered_eq [of result "[]" g] add_gathered_count [OF g(2)] g(2) small by auto
  from "2.hyps" [OF small g(1,2) refl r(2)] g(3) have "fset out = fset result' \<union> {w. \<exists>v\<in>set queue. \<exists>g. gather v = Some g \<and> w \<in> set g}"
    by simp
  with r(1) g(1) show ?case by auto
qed

section \<open>Properties\<close>

text \<open>
  C19: reading a set expression always returns, with an expression or an error: every loop ends, the
  loop over operators and its recursion through brackets included, and no byte is read and no slice
  cut outside the input, whatever it is.
\<close>

theorem set_parsing_terminates:
  "\<exists>r. run_set_parser input = Some r \<and> r \<noteq> Panic \<and> parseSetExpression input = r"
proof -
  obtain m where m: "parse_expression (parseOperand maxSetDepth input) input (CHR 0x00) 0 = Some m" "moves 1 input 0 m"
    using parse_expression_moves [OF parseOperand_consumes, of 0] by blast
  have "\<exists>r. run_set_parser input = Some r \<and> r \<noteq> Panic"
  proof (cases m)
    case (Ok y)
    obtain e q0 where y: "y = (e, q0)" by (cases y)
    then have "q0 \<le> length input" using m(2) Ok by (simp add: moves_def)
    then obtain q where "skipSpace input q0 = Ok q" by (rule skipSpace_inside)
    then show ?thesis by (simp add: run_set_parser_def m(1) Ok y)
  qed (use m in \<open>auto simp: run_set_parser_def moves_def\<close>)
  then show ?thesis by (auto simp: parseSetExpression_def)
qed

text \<open>The values that a closure over an attribute reaches.\<close>

definition chased :: "acl_env \<Rightarrow> bytes \<Rightarrow> set_context \<Rightarrow> bytes set \<Rightarrow> bytes set" where
  "chased E attribute ctx V = Collect (reached (\<lambda>v. map_option fset (gatherACLSetValue E v attribute ctx)) V)"

lemma gather_of_range:
  assumes "range_ok E"
  shows "map_option set \<circ> (\<lambda>v. map_option (acl_range E site) (gatherACLSetValue E v attribute ctx)) =
    (\<lambda>v. map_option fset (gatherACLSetValue E v attribute ctx))"
  using assms by (auto simp: range_ok_def fun_eq_iff option.map_comp intro!: option.map_cong)

text \<open>
  C4: the closure \<open>->attribute*\<close> of a set expression is the set of all values that are reached by
  one or more steps, whatever the order of the range loops; it is refused exactly when these are
  more than the limit (or infinitely many). It always ends.
\<close>

theorem chase_closure_spec:
  assumes "range_ok E" and "\<forall>v\<in>fset vs \<union> chased E attribute ctx (fset vs). gatherACLSetValue E v attribute ctx \<noteq> None"
  shows "if finite (chased E attribute ctx (fset vs)) \<and> card (chased E attribute ctx (fset vs)) \<le> maxACLSetValues
    then \<exists>out. chaseACLSet E vs attribute True ctx = Ok out \<and> fset out = chased E attribute ctx (fset vs)
    else chaseACLSet E vs attribute True ctx = Err ChaseTooLarge"
proof -
  let ?gather = "\<lambda>v. map_option (acl_range E ''gathered'') (gatherACLSetValue E v attribute ctx)"
  note same = gather_of_range [OF assms(1), of "''gathered''" attribute ctx]
  have start: "set (acl_range E ''values'' vs) = fset vs" using assms(1) by (simp add: range_ok_def)
  have "chase_inv ?gather (fset vs) {||} (acl_range E ''values'' vs)"
    unfolding chase_inv_def same Let_def using assms(2) start by (auto simp: chased_def fcard.rep_eq)
  note outcome = chase_loop_reached [OF this, unfolded same, folded chased_def, folded chaseACLSet_def]
  show ?thesis
  proof (cases "chaseACLSet E vs attribute True ctx")
    case (Ok out)
    with outcome have "fset out = chased E attribute ctx (fset vs)" "fcard out \<le> maxACLSetValues" by simp_all
    then have "finite (chased E attribute ctx (fset vs)) \<and> card (chased E attribute ctx (fset vs)) \<le> maxACLSetValues"
      by (metis fcard.rep_eq finite_fset)
    with Ok \<open>fset out = _\<close> show ?thesis by simp
  qed (use outcome in auto)
qed

lemma sample_range_ok: "range_ok sample_acl_env"
  by (simp add: range_ok_def sample_acl_env_def sorted_list_of_fset.rep_eq)

definition sample_set_context :: set_context where
  "sample_set_context = \<lparr>sc_subjectDN = [], sc_target = sample_target, sc_targetDN = one_rdn_dn ''a'',
     sc_reader = Some \<lparr>er_Get = (\<lambda>_. None), er_ForEach = None\<rparr>\<rparr>"

lemma sample_gather: "gatherACLSetValue sample_acl_env ''cn=a'' ''entryDN'' sample_set_context = Some {|''cn=a''|}"
proof -
  have "ToLower sample_unicode ''cn=a'' = ''cn=a''"
    by (simp add: ToLower_def ascii_lower_def sample_unicode_def) (simp add: char_of_def bit_0)
  then show ?thesis
    by (simp add: gatherACLSetValue_def sample_acl_env_def sample_set_context_def cn_a_parses HasPrefix_def)
      (simp add: Key_def one_rdn_dn_def)
qed

theorem chase_closure_spec_witness:
  "\<exists>out. chaseACLSet sample_acl_env {|''cn=a''|} ''entryDN'' True sample_set_context = Ok out \<and> fset out = {''cn=a''}"
proof -
  let ?R = "chased sample_acl_env ''entryDN'' sample_set_context (fset {|''cn=a''|})"
  let ?g = "\<lambda>v. map_option fset (gatherACLSetValue sample_acl_env v ''entryDN'' sample_set_context)"
  have g: "?g ''cn=a'' = Some {''cn=a''}" by (simp add: sample_gather)
  have "w = ''cn=a''" if "reached ?g {''cn=a''} w" for w
    using that
  proof induction
    case (first v S w)
    then show ?case using g by auto
  next
    case (again v S w)
    then show ?case using g by auto
  qed
  moreover have "reached ?g {''cn=a''} ''cn=a''" by (rule reached.first [where v = "''cn=a''" and S = "{''cn=a''}"]) (use g in simp_all)
  ultimately have R: "?R = {''cn=a''}" by (auto simp: chased_def)
  have "\<forall>v\<in>fset {|''cn=a''|} \<union> ?R. gatherACLSetValue sample_acl_env v ''entryDN'' sample_set_context \<noteq> None"
    unfolding R by (simp add: sample_gather)
  from chase_closure_spec [OF sample_range_ok this] show ?thesis unfolding R by (simp add: maxACLSetValues_def)
qed


end
