(* ===== verification/ACI_Facts.thy ===== *)
theory ACI_Facts
  imports ACL_Decision
begin

text \<open>
  Access control values: their effect does not depend on their order, and rights are read back as
  they are written.
\<close>

unbundle bit_operations_syntax

section \<open>The values of an entry\<close>

definition value_masks ::
  "acl_env \<Rightarrow> aciAssertionScope \<Rightarrow> Subject \<Rightarrow> Target \<Rightarrow> DN \<Rightarrow> EntryReader option \<Rightarrow> matchContext \<Rightarrow> bytes \<Rightarrow>
   (Privilege \<times> Privilege) option" where
  "value_masks E scope subject target dn reader ctx raw = do {
     v \<leftarrow> attempt (aci_Parse (acl_lib E) (acl_unicode E) raw);
     (case v of None \<Rightarrow> Some (0, 0)
        | Some value \<Rightarrow> if \<not> aciScopeMatches (av_Scope value) scope then Some (0, 0)
            else aciValueMask E value subject target dn reader ctx) }"

definition join_masks :: "(Privilege \<times> Privilege) option \<Rightarrow> (Privilege \<times> Privilege) option \<Rightarrow> (Privilege \<times> Privilege) option" where
  "join_masks a b = do { (g, d) \<leftarrow> a; (g', d') \<leftarrow> b; Some (g OR g', d OR d') }"

lemma join_masks_swap: "join_masks (join_masks m a) b = join_masks (join_masks m b) a"
  by (cases m; cases a; cases b) (auto simp: join_masks_def ac_simps)

lemma evaluateACIValues_fold:
  "evaluateACIValues E scope subject target dn reader ctx grant deny raws =
     fold (\<lambda>raw acc. join_masks acc (value_masks E scope subject target dn reader ctx raw)) raws (Some (grant, deny))"
proof (induction raws arbitrary: grant deny)
  case (Cons raw raws)
  have none: "fold (\<lambda>raw acc. join_masks acc (value_masks E scope subject target dn reader ctx raw)) raws None = None" for raws
    by (induction raws) (simp_all add: join_masks_def)
  show ?case
  proof (cases "value_masks E scope subject target dn reader ctx raw")
    case None
    then have "evaluateACIValues E scope subject target dn reader ctx grant deny (raw # raws) = None"
      unfolding value_masks_def evaluateACIValues.simps
      by (cases "attempt (aci_Parse (acl_lib E) (acl_unicode E) raw)") auto
    with None none show ?thesis by (simp add: join_masks_def)
  next
    case (Some m)
    obtain g d where m: "m = (g, d)" by (cases m)
    from Some have "evaluateACIValues E scope subject target dn reader ctx grant deny (raw # raws) =
        evaluateACIValues E scope subject target dn reader ctx (grant OR g) (deny OR d) raws"
      unfolding value_masks_def evaluateACIValues.simps m
      by (cases "attempt (aci_Parse (acl_lib E) (acl_unicode E) raw)") auto
    with Cons.IH Some m show ?thesis by (simp add: join_masks_def)
  qed
qed simp

text \<open>
  what the access control values of an entry grant and deny does not depend on their order in the
  entry.
\<close>

theorem aci_order_irrelevant:
  assumes "mset raws = mset raws'"
  shows "evaluateACIValues E scope subject target dn reader ctx grant deny raws =
    evaluateACIValues E scope subject target dn reader ctx grant deny raws'"
proof -
  let ?f = "\<lambda>raw acc. join_masks acc (value_masks E scope subject target dn reader ctx raw)"
  have "?f x \<circ> ?f y = ?f y \<circ> ?f x" for x y
    by (rule ext) (simp add: join_masks_swap)
  then have "fold ?f raws = fold ?f raws'" by (intro fold_multiset_equiv assms) simp
  then show ?thesis by (simp add: evaluateACIValues_fold)
qed

theorem aci_order_irrelevant_witness:
  "evaluateACIValues sample_acl_env aciAssertEntry sample_subject sample_target (one_rdn_dn ''a'') None
     \<lparr>mc_dn = [], mc_value = []\<rparr> 0 0 [''x'', ''y''] =
   evaluateACIValues sample_acl_env aciAssertEntry sample_subject sample_target (one_rdn_dn ''a'') None
     \<lparr>mc_dn = [], mc_value = []\<rparr> 0 0 [''y'', ''x'']"
  by (rule aci_order_irrelevant) simp

section \<open>Rights\<close>

definition known_rights :: "Right \<Rightarrow> bool" where
  "known_rights r \<longleftrightarrow> r AND NOT (RightAuth OR RightDisclose OR RightCompare OR RightSearch OR RightRead OR RightWrite) = 0"

lemma one_bit: "r AND 2 ^ n = 0 \<or> r AND 2 ^ n = (2 ^ n :: Right)"
proof (cases "bit r n")
  case True
  have "r AND 2 ^ n = 2 ^ n" by (rule bit_word_eqI) (use True in \<open>auto simp: bit_and_iff bit_exp_iff\<close>)
  then show ?thesis ..
next
  case False
  have "r AND 2 ^ n = 0" by (rule bit_word_eqI) (use False in \<open>auto simp: bit_and_iff bit_exp_iff\<close>)
  then show ?thesis ..
qed

lemma right_letters_of:
  assumes "(b, c) \<in> set right_letters"
  shows "right_of c = Some b" "r AND b = 0 \<or> r AND b = b" "c \<in> set ''xdcsrw''"
  using assms one_bit [of r 0] one_bit [of r 1] one_bit [of r 2] one_bit [of r 3] one_bit [of r 4] one_bit [of r 5]
  by (auto simp: right_letters_def right_of_def RightAuth_def RightDisclose_def RightCompare_def RightSearch_def
      RightRead_def RightWrite_def)

definition kept :: "Right \<Rightarrow> (Right \<times> char) list \<Rightarrow> bytes list" where
  "kept r ps = map (\<lambda>(_, c). [c]) (filter (\<lambda>(b, _). r AND b \<noteq> 0) ps)"

lemma letter_trim:
  assumes "c \<in> set ''xdcsrw''"
  shows "TrimSpace [c] = [c]"
  by (rule TrimSpace_plain) (use assms in \<open>auto simp: is_space_def\<close>)

lemma collect_kept:
  assumes "set ps \<subseteq> set right_letters"
  shows "collect_rights acc (kept r ps) = Ok (acc OR (r AND fold (\<lambda>(b, _) m. m OR b) ps 0))"
proof -
  have join: "fold (\<lambda>(b, _) m. m OR b) qs x = x OR fold (\<lambda>(b, _) m. m OR b) qs 0" for qs :: "(Right \<times> char) list" and x
  proof (induction qs arbitrary: x)
    case (Cons q qs)
    from Cons [of "x OR fst q"] Cons [of "0 OR fst q"] show ?case by (simp add: split_def ac_simps)
  qed simp
  show ?thesis
    using assms
  proof (induction ps arbitrary: acc)
    case (Cons p ps)
    obtain b c where p: "p = (b, c)" by (cases p)
    with Cons.prems have bc: "(b, c) \<in> set right_letters" by simp
    note facts = right_letters_of(1) [OF bc] right_letters_of(2) [OF bc, of r] letter_trim [OF right_letters_of(3) [OF bc]]
    have IH: "collect_rights a (kept r ps) = Ok (a OR (r AND fold (\<lambda>(b, _) m. m OR b) ps 0))" for a
      using Cons by simp
    have total: "r AND fold (\<lambda>(b, _) m. m OR b) (p # ps) 0 = (r AND b) OR (r AND fold (\<lambda>(b, _) m. m OR b) ps 0)"
      using join [of ps b] by (simp add: p bit.conj_disj_distrib)
    show ?case
    proof (cases "r AND b = 0")
      case True
      then have "kept r (p # ps) = kept r ps" by (simp add: kept_def p)
      with IH True show ?thesis unfolding total by simp
    next
      case False
      then have "kept r (p # ps) = [c] # kept r ps" "r AND b = b" using facts(2) by (simp_all add: kept_def p)
      with IH facts show ?thesis unfolding total by (simp add: ac_simps)
    qed
  qed (simp add: kept_def)
qed

text \<open>
  rights are read back as they are written, whenever there is one.
\<close>

theorem rights_roundtrip:
  assumes "known_rights r" and "r \<noteq> 0"
  shows "parseRights (writeRights r) = Ok r"
proof -
  let ?all = "fold (\<lambda>(b, _) m. m OR b) right_letters 0"
  have all: "?all = RightAuth OR RightDisclose OR RightCompare OR RightSearch OR RightRead OR RightWrite"
    by (simp add: right_letters_def ac_simps)
  have "r = (r AND ?all) OR (r AND NOT ?all)" by (rule bit_word_eqI) (auto simp: bit_or_iff bit_and_iff bit_not_iff)
  then have r: "r AND ?all = r" using assms(1) unfolding known_rights_def all by simp
  have collected: "collect_rights 0 (kept r right_letters) = Ok r"
    using collect_kept [of right_letters 0 r] unfolding r by simp
  have "kept r right_letters \<noteq> []"
  proof
    assume "kept r right_letters = []"
    with collected have "r = 0" by simp
    with assms(2) show False by simp
  qed
  moreover have "\<forall>x\<in>set (kept r right_letters). CHR '','' \<notin> set x"
    by (auto simp: kept_def dest!: right_letters_of(3))
  ultimately have "Split (CHR '','') (Join (kept r right_letters) [CHR '','']) = kept r right_letters"
    by (rule Split_Join)
  with collected assms(2) show ?thesis by (simp add: parseRights_def writeRights_def kept_def)
qed

theorem rights_roundtrip_witness: "parseRights (writeRights (RightSearch OR RightRead)) = Ok (RightSearch OR RightRead)"
  by (rule rights_roundtrip)
    (simp_all add: known_rights_def RightAuth_def RightDisclose_def RightCompare_def RightSearch_def RightRead_def RightWrite_def)

end
