(* ===== verification/ACL_Loading.thy ===== *)
theory ACL_Loading
  imports ACL_Decision
begin

text \<open>
  Rules that the parser accepts are well formed, and a loaded policy holds nothing but the rules of
  its configuration.
\<close>

unbundle bit_operations_syntax

section \<open>Well-formed rules\<close>

text \<open>
  What the evaluation relies on: a name pattern has what its style needs, levels count upwards, a
  value selector has its attribute, a clause has a subject, and a grant has the eight privileges
  only.
\<close>

definition wf_matcher :: "DNMatcher \<Rightarrow> bool" where
  "wf_matcher m \<longleftrightarrow> 0 \<le> dm_Level m \<and>
     (dm_Style m = DNRegex \<longrightarrow> dm_Pattern m \<noteq> None \<or> dm_Raw m \<noteq> []) \<and>
     (dm_Expand m \<longrightarrow> hasACLExpansion (dm_Raw m)) \<and>
     (dm_Style m \<noteq> DNAny \<and> dm_Style m \<noteq> DNRegex \<and> \<not> dm_Expand m \<longrightarrow> dn_wf (dm_DN m))"

definition wf_target :: "TargetSelector \<Rightarrow> bool" where
  "wf_target t \<longleftrightarrow> wf_matcher (ts_DN t) \<and> \<not> dm_Expand (ts_DN t) \<and> dm_Style (ts_DN t) \<noteq> DNLevel \<and>
     (dm_Style (ts_DN t) = DNRegex \<longrightarrow> dm_Pattern (ts_DN t) \<noteq> None) \<and>
     (\<forall>a\<in>set (ts_Attributes t). a \<noteq> []) \<and> (ts_Value t \<noteq> None \<longrightarrow> ts_Attributes t \<noteq> []) \<and>
     (\<forall>s. ts_Value t = Some s \<longrightarrow> (vs_Style s = DNRegex \<longleftrightarrow> vs_Pattern s \<noteq> None))"

definition wf_who :: "WhoMatcher \<Rightarrow> bool" where
  "wf_who w \<longleftrightarrow> (w_Kind w = WhoDN \<longrightarrow> wf_matcher (w_DN w)) \<and> 0 \<le> w_MinimumSSF w \<and>
     (w_Kind w = WhoGroup \<longrightarrow> w_GroupObjectClass w \<noteq> [] \<and> w_GroupAttribute w \<noteq> [] \<and>
        (\<not> w_GroupExpand w \<longrightarrow> dn_wf (dm_DN (w_DN w)))) \<and>
     (w_Kind w = WhoDNAttribute \<longrightarrow> w_Attribute w \<noteq> []) \<and> (w_Kind w = WhoSet \<longrightarrow> w_SetPattern w \<noteq> []) \<and>
     (w_Kind w = WhoACI \<longrightarrow> w_ACIAttribute w \<noteq> [])"

definition wf_clause :: "ByClause \<Rightarrow> bool" where
  "wf_clause c \<longleftrightarrow> by_Who c \<noteq> [] \<and> (\<forall>w\<in>set (by_Who c). wf_who w) \<and> g_Privileges (by_Grant c) AND NOT ManageLevel = 0 \<and>
     \<not> (g_SelfValue (by_Grant c) \<and> g_RealSelfValue (by_Grant c))"

definition wf_rule :: "Rule \<Rightarrow> bool" where
  "wf_rule r \<longleftrightarrow> 0 \<le> ru_Order r \<and> ru_Order r \<le> maxInt \<and> wf_target (ru_Target r) \<and> ru_By r \<noteq> [] \<and>
     (\<forall>c\<in>set (ru_By r). wf_clause c)"

lemma ParseInt_bound: "ParseInt s = Some v \<Longrightarrow> v \<le> maxInt"
  by (auto simp: ParseInt_def maxInt_def Let_def split: if_splits)

lemma orderedValue_bounds:
  assumes "orderedValue v = Ok (order, rest)"
  shows "0 \<le> order \<and> order \<le> maxInt"
  using assms ParseInt_bound
  by (auto simp: orderedValue_def Let_def maxInt_def split: if_splits option.splits)

lemma zero_DNMatcher_wf [simp]: "wf_matcher zero_DNMatcher" "\<not> dm_Expand zero_DNMatcher"
    "dm_Style zero_DNMatcher = DNAny"
  by (simp_all add: wf_matcher_def zero_DNMatcher_def)

lemma dn_matcher_at_wf:
  assumes "dn_matcher_at E style v level = Ok m" "0 \<le> level" "style \<noteq> DNRegex"
  shows "wf_matcher m \<and> dm_Style m = style \<and> \<not> dm_Expand m \<and> dn_wf (dm_DN m)"
  using assms ParseDN_wf
  by (auto simp: dn_matcher_at_def wf_matcher_def zero_DNMatcher_def)

lemma dn_regex_matcher_wf:
  assumes "dn_regex_matcher E v expand = Ok m"
  shows "wf_matcher m \<and> dm_Style m \<noteq> DNLevel \<and> (\<not> expand \<longrightarrow> \<not> dm_Expand m \<and> (dm_Style m = DNRegex \<longrightarrow> dm_Pattern m \<noteq> None))"
  using assms dn_matcher_at_wf [of E DNExact "[]" 0 m]
  by (auto simp: dn_regex_matcher_def wf_matcher_def zero_DNMatcher_def split: if_splits option.splits)

lemma dn_style_kind: "dn_style style = Some s \<Longrightarrow> s \<noteq> DNRegex \<and> s \<noteq> DNLevel \<and> s \<noteq> DNAny"
  by (auto simp: dn_style_def split: if_splits)

lemma dn_expanded_matcher_wf:
  assumes "dn_expanded_matcher style v = Ok m" "hasACLExpansion v"
  shows "wf_matcher m"
proof -
  obtain level where level: "parseLevelStyle style = Ok level" using assms(1) by (auto simp: dn_expanded_matcher_def Let_def)
  with assms dn_style_kind [of style] show ?thesis
    by (cases level) (auto simp: dn_expanded_matcher_def wf_matcher_def zero_DNMatcher_def Let_def split: if_splits option.splits)
qed

lemma dn_plain_matcher_wf:
  assumes "dn_plain_matcher E style v expand = Ok m"
  shows "wf_matcher m \<and> (\<not> expand \<longrightarrow> \<not> dm_Expand m \<and> dm_Style m \<noteq> DNLevel \<and> (dm_Style m = DNRegex \<longrightarrow> dm_Pattern m \<noteq> None))"
proof (cases "style = ''regex''")
  case True
  with assms dn_regex_matcher_wf show ?thesis unfolding dn_plain_matcher_def by metis
next
  case False
  show ?thesis
  proof (cases "dn_style style")
    case (Some s)
    with assms False have "dn_matcher_at E s v 0 = Ok m" by (simp add: dn_plain_matcher_def)
    from dn_matcher_at_wf [OF this] dn_style_kind [OF Some] show ?thesis by auto
  next
    case None
    with assms False obtain level where "parseLevelStyle style = Ok level" "(case level of
            None \<Rightarrow> Err (UnsupportedDNStyle style)
          | Some n \<Rightarrow> if n < 0 then Err (NegativeLevel n)
              else if \<not> expand then Err (UnsupportedDNStyle style)
              else dn_matcher_at E DNLevel v n) = Ok m"
      by (auto simp: dn_plain_matcher_def)
    then obtain n where "0 \<le> n" "expand" "dn_matcher_at E DNLevel v n = Ok m"
      by (cases level) (auto simp: not_less split: if_splits)
    from dn_matcher_at_wf [OF this(3,1)] this(2) show ?thesis by simp
  qed
qed

lemma parseDNMatcher_wf:
  assumes "parseDNMatcher E key v expand = Ok m"
  shows "wf_matcher m \<and> (\<not> expand \<longrightarrow> \<not> dm_Expand m \<and> dm_Style m \<noteq> DNLevel \<and> (dm_Style m = DNRegex \<longrightarrow> dm_Pattern m \<noteq> None))"
proof -
  obtain style ex where k: "dn_key_style key expand = Ok (style, ex)"
    and m: "(if ex \<and> style = ''regex'' then Err RegexExpansion
       else if ex \<and> \<not> hasACLExpansion v then Err NoSubstitutions
       else if ex then dn_expanded_matcher style v else dn_plain_matcher E style v expand) = Ok m"
    using assms by (auto simp: parseDNMatcher_def)
  have "ex \<longrightarrow> expand" using k by (auto simp: dn_key_style_def split: if_splits prod.splits)
  with m show ?thesis using dn_expanded_matcher_wf dn_plain_matcher_wf by (auto split: if_splits)
qed

lemma target_attributes_ne: "target_attributes raws = Ok as \<Longrightarrow> \<forall>a\<in>set as. a \<noteq> []"
  by (induction raws arbitrary: as) (auto simp: Let_def split: if_splits)

lemma parseValueSelector_wf:
  assumes "parseValueSelector E key v = Ok s"
  shows "vs_Style s = DNRegex \<longleftrightarrow> vs_Pattern s \<noteq> None"
  using assms by (auto simp: parseValueSelector_def Let_def split: prod.splits if_splits option.splits dest: dn_style_kind)

lemma wf_targetI:
  assumes "wf_matcher (ts_DN t)" "\<not> dm_Expand (ts_DN t)" "dm_Style (ts_DN t) \<noteq> DNLevel"
    "dm_Style (ts_DN t) = DNRegex \<Longrightarrow> dm_Pattern (ts_DN t) \<noteq> None" "\<And>a. a \<in> set (ts_Attributes t) \<Longrightarrow> a \<noteq> []"
    "ts_Value t \<noteq> None \<Longrightarrow> ts_Attributes t \<noteq> []" "\<And>s. ts_Value t = Some s \<Longrightarrow> (vs_Style s = DNRegex) = (vs_Pattern s \<noteq> None)"
  shows "wf_target t"
  using assms by (auto simp: wf_target_def)

lemma target_selector_wf:
  assumes "target_selector E (t, d) token = Ok (t', d')" "wf_target t"
  shows "wf_target t'"
proof (cases "token = ''*''")
  case True
  with assms show ?thesis by (auto simp: target_selector_def split: if_splits)
next
  case False
  with assms(1) obtain key v where kv: "splitSelector (acl_unicode E) token = Some (key, v)"
    by (auto simp: target_selector_def split: option.splits)
  consider "key = ''attrs'' \<or> key = ''attr''" | "\<not> (key = ''attrs'' \<or> key = ''attr'')" "key = ''dn'' \<or> HasPrefix key ''dn.''"
    | "\<not> (key = ''attrs'' \<or> key = ''attr'')" "\<not> (key = ''dn'' \<or> HasPrefix key ''dn.'')" "key = ''filter''"
    | "\<not> (key = ''attrs'' \<or> key = ''attr'')" "\<not> (key = ''dn'' \<or> HasPrefix key ''dn.'')" "key \<noteq> ''filter''" by blast
  then show ?thesis
  proof cases
    case 1
    with assms(1) False kv obtain as where "target_attributes (Split (CHR '','') v) = Ok as"
      "t' = t\<lparr>ts_Attributes := ts_Attributes t @ as\<rparr>" by (auto simp: target_selector_def)
    with assms(2) target_attributes_ne show ?thesis by (auto simp: wf_target_def)
  next
    case 2
    with assms(1) False kv obtain m where "parseDNMatcher E key v False = Ok m" "t' = t\<lparr>ts_DN := m\<rparr>"
      by (auto simp: target_selector_def split: if_splits)
    with assms(2) parseDNMatcher_wf [of E key v False m] show ?thesis by (auto simp: wf_target_def)
  next
    case 3
    with assms False kv show ?thesis by (auto simp: target_selector_def wf_target_def split: option.splits)
  next
    case 4
    with assms(1) False kv obtain s where "parseValueSelector E key v = Ok s" "t' = t\<lparr>ts_Value := Some s\<rparr>"
      "length (ts_Attributes t) = 1"
      by (auto simp: target_selector_def split: if_splits)
    with assms(2) parseValueSelector_wf show ?thesis by (auto simp: wf_target_def)
  qed
qed

lemma go_foldl_invariant:
  assumes "go_foldl f s xs = Ok s'" "P s" "\<And>s x s'. f s x = Ok s' \<Longrightarrow> P s \<Longrightarrow> P s'"
  shows "P s'"
  using assms(1,2) by (induction xs arbitrary: s) (auto intro: assms(3))

lemma parseTarget_wf:
  assumes "parseTarget E tokens = Ok t"
  shows "wf_target t"
proof -
  let ?start = "(\<lparr>ts_DN = zero_DNMatcher, ts_Attributes = [], ts_Filter = None, ts_Value = None\<rparr>, False)"
  obtain d where st: "go_foldl (target_selector E) ?start tokens = Ok (t, d)"
    using assms by (auto simp: parseTarget_def)
  have start: "wf_target (fst ?start)" by (auto simp: wf_target_def)
  have "wf_target (fst (t, d))"
    by (rule go_foldl_invariant [OF st, where P = "\<lambda>st. wf_target (fst st)"]) (use start target_selector_wf in auto)
  then show ?thesis by simp
qed

lemma zero_WhoMatcher_fields [simp]:
  "w_MinimumSSF zero_WhoMatcher = 0" "w_MinimumSSF (who_of_kind kind real) = 0" "w_Kind (who_of_kind kind real) = kind"
  by (simp_all add: zero_WhoMatcher_def set_matcher_def who_of_kind_def)

lemma parseGroupMatcher_wf:
  assumes "parseGroupMatcher E key v = Ok w"
  shows "wf_who w"
  using assms dn_matcher_at_wf [of E DNExact v 0]
  by (auto simp: parseGroupMatcher_def wf_who_def Let_def split: prod.splits option.splits if_splits)

lemma parseACIMatcher_wf: "parseACIMatcher key a = Ok w \<Longrightarrow> wf_who w"
  by (auto simp: parseACIMatcher_def wf_who_def Let_def split: if_splits)

lemma parse_dn_subject_wf: "parse_dn_subject E key k v real = Ok w \<Longrightarrow> wf_who w"
  using parseDNMatcher_wf by (fastforce simp: parse_dn_subject_def wf_who_def)

lemma simple_subjects_wf:
  "parse_dnattr key v real = Ok w \<Longrightarrow> wf_who w" "parse_set_subject key v = Ok w \<Longrightarrow> wf_who w"
  "parse_ssf kind v = Ok w \<Longrightarrow> wf_who w"
  by (auto simp: parse_dnattr_def parse_set_subject_def parse_ssf_def wf_who_def Let_def split: if_splits option.splits)

lemma parse_connection_wf:
  "parse_connection E kind key p v allowed = Ok w \<Longrightarrow> kind \<in> {WhoPeerName, WhoSockName, WhoDomain, WhoSockURL} \<Longrightarrow> wf_who w"
  by (auto simp: parse_connection_def wf_who_def)

lemma parse_subject_selector_wf:
  assumes "parse_subject_selector E token key v = Ok w"
  shows "wf_who w"
  using assms parseACIMatcher_wf parse_dn_subject_wf simple_subjects_wf parseGroupMatcher_wf parse_connection_wf
  unfolding parse_subject_selector_def
  by (auto split: if_splits option.splits)

lemma fixed_subject_wf:
  assumes "fixed_subject lower = Some w"
  shows "wf_who w"
proof -
  have "w_Kind w \<in> {WhoAny, WhoAnonymous, WhoUsers, WhoSelf} \<and> w_MinimumSSF w = 0 \<or>
      w = (who_of_kind WhoACI False)\<lparr>w_ACIAttribute := ''OpenLDAPaci''\<rparr>"
    using map_of_SomeD [OF assms [unfolded fixed_subject_def]] by auto
  then show ?thesis by (auto simp: wf_who_def)
qed

lemma parse_self_level_wf: "parse_self_level lower = Ok (Some w) \<Longrightarrow> wf_who w"
  by (auto simp: parse_self_level_def wf_who_def Let_def split: if_splits)

lemma parseWhoMatcher_wf:
  assumes "parseWhoMatcher E token = Ok w"
  shows "wf_who w"
proof (cases "fixed_subject (ToLower (acl_unicode E) token)")
  case (Some m)
  with assms fixed_subject_wf show ?thesis by (simp add: parseWhoMatcher_def Let_def)
next
  case None
  show ?thesis
  proof (cases "isACISelector (ToLower (acl_unicode E) token)")
    case True
    with assms None parseACIMatcher_wf show ?thesis by (auto simp: parseWhoMatcher_def Let_def)
  next
    case False
    with assms None obtain self where self: "parse_self_level (ToLower (acl_unicode E) token) = Ok self"
      "(case self of Some matcher \<Rightarrow> Ok matcher
        | None \<Rightarrow> (case splitSelector (acl_unicode E) token of None \<Rightarrow> Err (UnsupportedSubject token)
            | Some (key, v) \<Rightarrow> parse_subject_selector E token key v)) = Ok w"
      by (auto simp: parseWhoMatcher_def Let_def)
    with parse_self_level_wf parse_subject_selector_wf show ?thesis by (auto split: option.splits)
  qed
qed

abbreviation known_privileges :: "Privilege \<Rightarrow> bool" where
  "known_privileges p \<equiv> p AND NOT ManageLevel = 0"

lemmas privilege_defs = ManageLevel_def WriteLevel_def ReadLevel_def SearchLevel_def CompareLevel_def AuthLevel_def
  DiscloseLevel_def NoneLevel_def Disclose_def Auth_def Compare_privilege_def Search_def Read_def WriteAdd_def
  WriteDelete_def Manage_def

lemma level_privileges:
  assumes "access_level lower = Some p"
  shows "known_privileges p"
proof -
  have "p \<in> {NoneLevel, DiscloseLevel, AuthLevel, CompareLevel, SearchLevel, ReadLevel, WriteLevel, ManageLevel}"
    using map_of_SomeD [OF assms [unfolded access_level_def]] by auto
  then show ?thesis by (auto simp: privilege_defs)
qed

lemma letter_privileges:
  assumes "privilege_letter letter = Some p"
  shows "known_privileges p"
proof -
  have "p \<in> {Disclose, Auth, Compare_privilege, Search, Read, WriteAdd OR WriteDelete, WriteAdd, WriteDelete, Manage}"
    using map_of_SomeD [OF assms [unfolded privilege_letter_def]] by auto
  then show ?thesis by (auto simp: privilege_defs)
qed

lemma OR_known: "known_privileges p \<Longrightarrow> known_privileges q \<Longrightarrow> known_privileges (p OR q)"
  by (simp add: bit.conj_disj_distrib2)

lemma collect_letters_known:
  "collect_letters n p letters = Ok q \<Longrightarrow> known_privileges p \<Longrightarrow> known_privileges q"
  by (induction letters arbitrary: p) (auto split: if_splits option.splits intro: OR_known letter_privileges)

lemma parseGrant_wf:
  assumes "parseGrant U token = Ok g"
  shows "known_privileges (g_Privileges g) \<and> \<not> (g_SelfValue g \<and> g_RealSelfValue g)"
proof -
  obtain self real lower where m: "self_modifier (ToLower U token) = (self, real, lower)" by (cases "self_modifier (ToLower U token)")
  then have once: "\<not> (self \<and> real)" by (auto simp: self_modifier_def split: if_splits)
  have ne: "\<not> ((self \<or> real) \<and> lower = [])" using assms m by (auto simp: parseGrant_def split: if_splits)
  show ?thesis
  proof (cases "access_level lower")
    case (Some level)
    with assms m ne once level_privileges [OF Some] show ?thesis by (auto simp: parseGrant_def Let_def split: if_splits)
  next
    case None
    with assms m ne obtain mode p where "parsePrivilegeLetters (tl lower) = Ok p"
      "g = \<lparr>g_Mode = mode, g_Privileges = p, g_SelfValue = self, g_RealSelfValue = real\<rparr>"
      by (auto simp: parseGrant_def Let_def split: if_splits option.splits)
    with once collect_letters_known [of "length (tl lower)" 0 "runes (tl lower)" p] show ?thesis
      by (simp add: parsePrivilegeLetters_def)
  qed
qed

lemma split_access_wf:
  assumes "split_access U tokens = Ok (g, who)" "tokens \<noteq> []"
  shows "known_privileges (g_Privileges g) \<and> \<not> (g_SelfValue g \<and> g_RealSelfValue g) \<and> who \<noteq> []"
proof (cases "List.find (\<lambda>i. isAccessToken U (tokens ! i)) [1..<length tokens]")
  case None
  with assms show ?thesis by (auto simp: split_access_def identity_grant_def)
next
  case (Some i)
  then have i: "1 \<le> i" "i < length tokens" by (auto simp: find_Some_iff)
  from Some assms(1) have "parseGrant U (tokens ! i) = Ok g" "who = take i tokens"
    by (auto simp: split_access_def split: if_splits)
  with parseGrant_wf i show ?thesis by auto
qed

lemma parseByClause_wf:
  assumes "parseByClause E tokens = Ok c"
  shows "wf_clause c"
proof -
  obtain control rest where strip: "strip_control (acl_unicode E) tokens = (control, rest)" by (cases "strip_control (acl_unicode E) tokens")
  with assms obtain g who ms where c: "rest \<noteq> []" "split_access (acl_unicode E) rest = Ok (g, who)"
    "go_map (parseWhoMatcher E) who = Ok ms" "c = \<lparr>by_Who = ms, by_Grant = g, by_Control = control\<rparr>"
    by (auto simp: parseByClause_def split: if_splits)
  have "wf_who w" if "w \<in> set ms" for w
    using that c(3) parseWhoMatcher_wf by (auto simp: go_map_all2 list_all2_conv_all_nth in_set_conv_nth)
  moreover have "ms \<noteq> []" using split_access_wf [OF c(2,1)] go_map_length [OF c(3)] by auto
  ultimately show ?thesis using split_access_wf [OF c(2,1)] c(4) by (auto simp: wf_clause_def)
qed

lemma parse_clauses_wf:
  "parse_clauses E tokens position = Ok cs \<Longrightarrow>
     (\<forall>c\<in>set cs. wf_clause c) \<and> (position < length tokens \<longrightarrow> cs \<noteq> [])"
proof (induction E tokens position arbitrary: cs rule: parse_clauses.induct)
  case (1 E tokens position)
  show ?case
  proof (cases "position < length tokens")
    case False
    with "1.prems" show ?thesis by (subst (asm) parse_clauses.simps) simp
  next
    case True
    define next_by where "next_by = (case tokenIndex (acl_unicode E) tokens ''by'' (position + 1) of
        None \<Rightarrow> length tokens | Some i \<Rightarrow> i)"
    from "1.prems" True obtain c rest where
      "parseByClause E (take (next_by - (position + 1)) (drop (position + 1) tokens)) = Ok c"
      "parse_clauses E tokens next_by = Ok rest" "cs = c # rest"
      unfolding parse_clauses.simps [of E tokens position] by (auto simp: next_by_def Let_def)
    with "1.IH" [OF True next_by_def, of rest] parseByClause_wf show ?thesis by auto
  qed
qed

lemma ParseRule_wf:
  assumes "ParseRule E v = Ok rule"
  shows "wf_rule rule"
proof -
  obtain order description tokens where o: "orderedValue v = Ok (order, description)" "tokenize description = Ok tokens"
    and body: "(if tokens = [] \<or> \<not> EqualFold (acl_unicode E) (hd tokens) ''to'' then Err MissingTo
       else case tokenIndex (acl_unicode E) tokens ''by'' 1 of
         None \<Rightarrow> Err MissingBy
       | Some firstBy \<Rightarrow>
           go_bind (parseTarget E (take (firstBy - 1) (drop 1 tokens))) (\<lambda>target.
           go_bind (parse_clauses E tokens firstBy) (\<lambda>clauses.
             Ok \<lparr>ru_Order = order, ru_Target = target, ru_By = clauses, ru_Raw = v\<rparr>))) = Ok rule"
    using assms unfolding ParseRule_def go_bind_eq_Ok by auto
  obtain firstBy target clauses where r: "tokenIndex (acl_unicode E) tokens ''by'' 1 = Some firstBy"
    "parseTarget E (take (firstBy - 1) (drop 1 tokens)) = Ok target" "parse_clauses E tokens firstBy = Ok clauses"
    "rule = \<lparr>ru_Order = order, ru_Target = target, ru_By = clauses, ru_Raw = v\<rparr>"
    using body by (auto split: if_splits option.splits)
  from parse_clauses_wf [OF r(3)] tokenIndex_bounds [OF r(1)] parseTarget_wf [OF r(2)] orderedValue_bounds [OF o(1)]
  show ?thesis by (simp add: wf_rule_def r(4))
qed

section \<open>Loading and checking\<close>

lemma go_each_no_panic: "(\<And>x. x \<in> set xs \<Longrightarrow> f x \<noteq> Panic) \<Longrightarrow> go_each f xs \<noteq> Panic"
proof -
  have "go_error m = Panic \<longleftrightarrow> m = Panic" for m :: "('a, 'b) go" by (cases m) auto
  moreover have "(\<And>x. x \<in> set xs \<Longrightarrow> f x \<noteq> Panic) \<Longrightarrow> go_map f xs \<noteq> Panic" by (induction xs) auto
  ultimately show "(\<And>x. x \<in> set xs \<Longrightarrow> f x \<noteq> Panic) \<Longrightarrow> go_each f xs \<noteq> Panic" unfolding go_each_def by (metis go_error.simps go.exhaust go.distinct)
qed

lemma validateRuleSchema_no_panic:
  assumes "wf_rule rule"
  shows "validateRuleSchema E schema rule \<noteq> Panic"
proof -
  have "validate_value E schema (ru_Target rule) \<noteq> Panic"
  proof (cases "ts_Value (ru_Target rule)")
    case None
    then show ?thesis by (simp add: validate_value_def)
  next
    case (Some s)
    with assms obtain a as where as: "ts_Attributes (ru_Target rule) = a # as"
      by (cases "ts_Attributes (ru_Target rule)") (auto simp: wf_rule_def wf_target_def)
    have parse: "ParseDN (acl_lib E) (acl_unicode E) x \<noteq> Panic" for x by (simp add: ParseDN_def)
    have "go_error m = Panic \<longleftrightarrow> m = Panic" for m :: "(validate_error, DN) go" by (cases m) auto
    then show ?thesis using Some as parse by (auto simp: validate_value_def split: sum.splits)
  qed
  moreover have "validate_who schema w \<noteq> Panic" for w
    by (cases "w_Kind w") (simp_all add: validate_who_def)
  moreover have "validate_selector schema a \<noteq> Panic" for a by (simp add: validate_selector_def)
  ultimately show ?thesis
    by (auto simp: validateRuleSchema_def go_each_no_panic)
qed

lemma go_map_members:
  assumes "go_map f xs = Ok ys" "y \<in> set ys"
  obtains x where "x \<in> set xs" "f x = Ok y"
proof -
  have "\<exists>x\<in>set xs. f x = Ok y" using assms by (induction xs arbitrary: ys) auto
  with that show thesis by blast
qed

definition rules_of :: "Policy \<Rightarrow> Rule set" where
  "rules_of policy = set (p_global policy) \<union> (\<Union>d\<in>set (p_databases policy). set (db_Rules d))"

definition source_value :: "acl_env \<Rightarrow> Entry list \<Rightarrow> Rule \<Rightarrow> bool" where
  "source_value E entries rule \<longleftrightarrow>
     (\<exists>entry\<in>set entries. \<exists>v\<in>set (entry_Values (acl_unicode E) entry ''olcAccess''). ParseRule E v = Ok rule)"

lemma placed_set_rules [simp]: "rs_rules (placed_set sx db rules add) = rules"
  by (simp add: placed_set_def Let_def)

lemma config_entry_rules:
  assumes "config_entry E entry = Ok (Some s)" "rule \<in> set (rs_rules s)"
  shows "\<exists>v\<in>set (entry_Values (acl_unicode E) entry ''olcAccess''). ParseRule E v = Ok rule"
proof -
  obtain rules where "go_map (ParseRule E) (entry_Values (acl_unicode E) entry ''olcAccess'') = Ok rules"
    "rs_rules s = SortRules rules"
    using assms(1) by (auto simp: config_entry_def Let_def split: if_splits)
  with assms(2) show ?thesis by (auto simp: SortRules_def elim: go_map_members)
qed

definition map_rules :: "(bytes, Rule list) fmap \<Rightarrow> Rule set" where
  "map_rules m = {rule. \<exists>k rs. fmlookup m k = Some rs \<and> rule \<in> set rs}"

lemma map_rules_upd: "rule \<in> map_rules (fmupd k rs m) \<Longrightarrow> rule \<in> set rs \<or> rule \<in> map_rules m"
  by (auto simp: map_rules_def split: if_splits)

lemma map_rules_lookup: "fmlookup m k = Some rs \<Longrightarrow> rule \<in> set rs \<Longrightarrow> rule \<in> map_rules m"
  by (auto simp: map_rules_def)

lemma put_suffixes_rules:
  assumes "rule \<in> map_rules (fst (put_suffixes s maps))"
  shows "rule \<in> set (rs_rules s) \<or> rule \<in> map_rules (fst maps)"
proof -
  let ?f = "\<lambda>(databases, addContent) suffixText.
         (fmupd suffixText ((case fmlookup databases suffixText of None \<Rightarrow> [] | Some rs \<Rightarrow> rs) @ rs_rules s) databases,
          fmupd suffixText (rs_addContentACL s) addContent)"
  have "rule \<in> map_rules (fst (foldl ?f maps sx)) \<Longrightarrow> rule \<in> set (rs_rules s) \<or> rule \<in> map_rules (fst maps)" for sx
  proof (induction sx arbitrary: maps)
    case (Cons x sx)
    obtain db ac where maps: "maps = (db, ac)" by (cases maps)
    from Cons.IH [of "?f maps x"] Cons.prems have "rule \<in> set (rs_rules s) \<or> rule \<in> map_rules (fst (?f maps x))" by simp
    then show ?case
      by (auto simp: maps dest!: map_rules_upd split: option.splits intro: map_rules_lookup)
  qed simp
  then show ?thesis using assms unfolding put_suffixes_def by blast
qed

lemma collect_sets_rules:
  assumes "collect_sets sets = (global, databases, addContent)" "rule \<in> set global \<or> rule \<in> map_rules databases"
  shows "\<exists>s\<in>set sets. rule \<in> set (rs_rules s)"
proof -
  let ?f = "\<lambda>(global, maps) s. if rs_global s then (global @ rs_rules s, maps) else (global, put_suffixes s maps)"
  have "foldl ?f start sets = (global, databases, addContent) \<Longrightarrow> rule \<in> set global \<or> rule \<in> map_rules databases \<Longrightarrow>
      (\<exists>s\<in>set sets. rule \<in> set (rs_rules s)) \<or> rule \<in> set (fst start) \<or> rule \<in> map_rules (fst (snd start))" for start
  proof (induction sets arbitrary: start)
    case (Cons s sets)
    obtain g maps where start: "start = (g, maps)" by (cases start)
    from Cons.IH [of "?f start s"] Cons.prems
    have "(\<exists>s\<in>set sets. rule \<in> set (rs_rules s)) \<or> rule \<in> set (fst (?f start s)) \<or> rule \<in> map_rules (fst (snd (?f start s)))"
      by simp
    then show ?case by (auto simp: start split: if_splits dest: put_suffixes_rules)
  qed auto
  from this [of "([], fmempty, fmempty)"] assms show ?thesis by (auto simp: collect_sets_def map_rules_def)
qed

lemma newPolicy_rules:
  assumes "newPolicy E global databases addContent = Ok policy" "rule \<in> rules_of policy"
  shows "rule \<in> set global \<or> rule \<in> map_rules databases"
proof -
  obtain dbs where dbs: "go_map (\<lambda>suffixDN.
         go_bind (ParseDN (acl_lib E) (acl_unicode E) suffixDN) (\<lambda>dn.
           Ok \<lparr>db_Suffix = dn, db_Rules = SortRules (case fmlookup databases suffixDN of None \<Rightarrow> [] | Some rs \<Rightarrow> rs),
               db_AddContentACL = (fmlookup addContent suffixDN = Some True)\<rparr>))
         (acl_range E ''newPolicy'' (fmdom databases)) = Ok dbs"
      and dbs2: "\<exists>sorted_dbs. sortDatabases dbs = Some sorted_dbs \<and>
         \<lparr>p_global = SortRules global, p_databases = sorted_dbs\<rparr> = policy"
    using assms(1) unfolding newPolicy_def go_bind_eq_Ok go_of_option_eq_Ok go.inject by blast
  then have parts: "sortDatabases dbs = Some (p_databases policy)" "p_global policy = SortRules global" by auto
  have same: "set (p_databases policy) = set dbs"
    using arg_cong [OF sortDatabases_eq [OF parts(1), THEN conjunct1], of set_mset] by simp
  show ?thesis
  proof (cases "rule \<in> set (p_global policy)")
    case True
    then show ?thesis by (simp add: parts(2) SortRules_def)
  next
    case False
    with assms(2) same obtain d where d: "d \<in> set dbs" "rule \<in> set (db_Rules d)" by (auto simp: rules_of_def)
    obtain k where "db_Rules d = SortRules (case fmlookup databases k of None \<Rightarrow> [] | Some rs \<Rightarrow> rs)"
      by (rule go_map_members [OF dbs d(1)]) auto
    with d(2) show ?thesis by (auto simp: SortRules_def split: option.splits intro: map_rules_lookup)
  qed
qed

lemma loaded_rules:
  assumes "LoadOpenLDAPConfigReader E entries = Ok (policy, result)" "rule \<in> rules_of policy"
  shows "source_value E entries rule"
proof -
  obtain found where found: "go_map (config_entry E) entries = Ok found"
    and rest: "(let sets = List.map_filter id found in
       case collect_sets sets of (global, databases, addContent) \<Rightarrow>
         go_bind (go_wrap BuildPolicy (newPolicy E global databases addContent)) (\<lambda>policy.
           Ok (policy, load_result sets))) = Ok (policy, result)"
    using assms(1) unfolding LoadOpenLDAPConfigReader_def go_bind_eq_Ok by blast
  obtain global databases addContent where c: "collect_sets (List.map_filter id found) = (global, databases, addContent)"
    by (cases "collect_sets (List.map_filter id found)")
  with rest have "newPolicy E global databases addContent = Ok policy" by (auto simp: Let_def)
  from newPolicy_rules [OF this assms(2)] collect_sets_rules [OF c]
  obtain s where "s \<in> set (List.map_filter id found)" "rule \<in> set (rs_rules s)" by blast
  then have "Some s \<in> set found" by (auto simp: List.map_filter_def)
  then obtain entry where "entry \<in> set entries" "config_entry E entry = Ok (Some s)" by (rule go_map_members [OF found])
  then show ?thesis
    using config_entry_rules [of E entry s rule] \<open>rule \<in> set (rs_rules s)\<close> unfolding source_value_def by blast
qed

lemma Validate_no_panic:
  assumes "\<And>rule. rule \<in> rules_of policy \<Longrightarrow> wf_rule rule"
  shows "Validate E policy schema \<noteq> Panic"
proof (cases schema)
  case (Some s)
  have "go_each (\<lambda>rule. go_wrap (InGlobalACL (ru_Raw rule)) (validateRuleSchema E s rule)) (p_global policy) \<noteq> Panic"
    by (rule go_each_no_panic) (use assms validateRuleSchema_no_panic in \<open>auto simp: rules_of_def\<close>)
  moreover have "go_each (\<lambda>d. go_each (\<lambda>rule. go_wrap (InDatabaseACL (Key (db_Suffix d)) (ru_Raw rule))
      (validateRuleSchema E s rule)) (db_Rules d)) (p_databases policy) \<noteq> Panic"
    by (intro go_each_no_panic) (use assms validateRuleSchema_no_panic in \<open>auto simp: rules_of_def\<close>)
  ultimately show ?thesis using Some by (auto simp: Validate_def)
qed (simp add: Validate_def)

text \<open>A doubled dollar sign counts as a substitution when a rule is read, and as an escape when it is expanded.\<close>

lemma escaped_expansion:
  "hasACLExpansion ''$$1''" "expandACLPattern ''$$1'' ctx = Some ''$1''"
  by (simp_all add: is_digit_def)

section \<open>A sample configuration\<close>

lemma sample_tokens: "tokenize ''to * by * read'' = Ok [''to'', ''*'', ''by'', ''*'', ''read'']"
  by (simp add: tokenize.simps token_space_def is_space_def quote_char_def)

lemma fold_sample [simp]:
  "EqualFold sample_unicode ''to'' ''to''" "EqualFold sample_unicode ''by'' ''by''"
  "\<not> EqualFold sample_unicode ''*'' ''by''" "\<not> EqualFold sample_unicode ''read'' ''by''"
  by (simp_all add: EqualFold_def runes_def)

lemma sample_lower_read: "ToLower sample_unicode ''read'' = ''read''" "ToLower sample_unicode ''*'' = ''*''"
  by (simp_all add: ToLower_def ascii_lower_def sample_unicode_def) (simp_all add: char_of_def bit_0)

definition parsed_read_rule :: Rule where
  "parsed_read_rule = read_rule\<lparr>ru_Order := maxInt, ru_Raw := ''to * by * read''\<rparr>"

lemma sample_rule_parses: "ParseRule sample_acl_env ''to * by * read'' = Ok parsed_read_rule"
proof -
  let ?U = "acl_unicode sample_acl_env" and ?tokens = "[''to'', ''*'', ''by'', ''*'', ''read'']"
  have U: "?U = sample_unicode" by (simp add: sample_acl_env_def)
  have order: "orderedValue ''to * by * read'' = Ok (maxInt, ''to * by * read'')"
    by (simp add: orderedValue_def TrimSpace_def is_space_def HasPrefix_def)
  have by1: "tokenIndex ?U ?tokens ''by'' 1 = Some 2" "tokenIndex ?U ?tokens ''by'' 3 = None"
    by (simp_all add: tokenIndex_def U upt_rec)
  have target: "parseTarget sample_acl_env [''*''] = Ok (ru_Target read_rule)"
    by (simp add: parseTarget_def target_selector_def read_rule_def)
  have grant: "parseGrant ?U ''read'' = Ok \<lparr>g_Mode = grantSet, g_Privileges = ReadLevel, g_SelfValue = False, g_RealSelfValue = False\<rparr>"
    by (simp add: parseGrant_def U sample_lower_read self_modifier_def HasPrefix_def access_level_def)
  have access: "isAccessToken ?U ''read''"
    by (simp add: isAccessToken_def U sample_lower_read self_modifier_def HasPrefix_def access_level_def)
  have control: "strip_control ?U [''*'', ''read''] = (ControlStop, [''*'', ''read''])"
    by (simp add: strip_control_def parseControl_def U sample_lower_read)
  have split: "split_access ?U [''*'', ''read''] =
      Ok (\<lparr>g_Mode = grantSet, g_Privileges = ReadLevel, g_SelfValue = False, g_RealSelfValue = False\<rparr>, [''*''])"
    using access grant by (simp add: split_access_def upt_rec)
  have who: "parseWhoMatcher sample_acl_env ''*'' = Ok (who_of_kind WhoAny False)"
    by (simp add: parseWhoMatcher_def U sample_lower_read fixed_subject_def)
  have clause: "parseByClause sample_acl_env [''*'', ''read''] = Ok (hd (ru_By read_rule))"
    using control split who by (simp add: parseByClause_def read_rule_def)
  have "parse_clauses sample_acl_env ?tokens (length ?tokens) = Ok []" by (subst parse_clauses.simps) simp
  then have clauses_end: "parse_clauses sample_acl_env ?tokens (Suc (Suc (Suc (Suc (Suc 0))))) = Ok []" by simp
  have clauses: "parse_clauses sample_acl_env ?tokens 2 = Ok (ru_By read_rule)"
    using clause by1 clauses_end by (subst parse_clauses.simps) (simp add: Let_def, simp add: read_rule_def)
  show ?thesis
    using by1 target clauses
    by (simp add: ParseRule_def order sample_tokens U) (simp add: parsed_read_rule_def read_rule_def)
qed

definition config_sample :: Entry where
  "config_sample = bare_entry ''cn=config'' [\<lparr>Description = ''olcAccess'', Values = [''to * by * read''], RawNormalized = False\<rparr>]"

lemma config_sample_descriptions:
  "equalAttributeDescription sample_unicode ''olcAccess'' ''olcAccess''"
  "\<not> equalAttributeDescription sample_unicode ''olcAccess'' ''olcSuffix''"
  "\<not> equalAttributeDescription sample_unicode ''olcAccess'' ''olcAddContentAcl''"
  "\<not> equalAttributeDescription sample_unicode ''olcAccess'' ''olcDatabase''"
  by (simp_all add: equalAttributeDescription_def EqualFold_def TrimSpace_def is_space_def runes_def fold_rune_def ascii_lower_def)

lemma config_sample_values:
  "entry_Values sample_unicode config_sample ''olcAccess'' = [''to * by * read'']"
  "entry_Values sample_unicode config_sample ''olcSuffix'' = []"
  "entry_Values sample_unicode config_sample ''olcAddContentAcl'' = []"
  "entry_Values sample_unicode config_sample ''olcDatabase'' = []"
  by (simp_all add: entry_Values_def config_sample_def bare_entry_def config_sample_descriptions cloneValues_def)

lemma config_sample_entry:
  "config_entry sample_acl_env config_sample =
     Ok (Some \<lparr>rs_suffixes = [], rs_global = True, rs_rules = [parsed_read_rule], rs_addContentACL = False\<rparr>)"
proof -
  have inside: "under_suffix sample_acl_env (one_rdn_dn ''config'') (one_rdn_dn ''config'') = Some True"
    by (simp add: under_suffix_def Equal_def one_rdn_dn_def zero_DN_def hasSchemaAwareIdentity_def sample_acl_env_def
        sample_lib_def)
  have name: "e_DN config_sample = ''cn=config''" by (simp add: config_sample_def bare_entry_def)
  have env: "acl_lib sample_acl_env = sample_lib" "acl_unicode sample_acl_env = sample_unicode"
    by (simp_all add: sample_acl_env_def)
  have lower: "ToLower sample_unicode [] = []" by (simp add: ToLower_def)
  have sorted: "SortRules [parsed_read_rule] = [parsed_read_rule]" by (simp add: SortRules_def)
  show ?thesis
    by (simp add: config_entry_def env name config_parses sample_acl_config inside config_sample_values sample_rule_parses
        add_content_value_def firstString_def lower sorted placed_set_def)
qed

section \<open>Properties\<close>

text \<open>
  C20: every rule that the parser accepts is well formed: its order is a non-negative \<open>int\<close>, its name
  patterns carry what their style needs and no negative level, a value selector has an attribute,
  each clause has a subject, and a grant names the eight privileges only and at most one self modifier.
\<close>

theorem parsed_rules_well_formed:
  assumes "ParseRule E v = Ok rule"
  shows "wf_rule rule"
  using assms by (rule ParseRule_wf)

theorem parsed_rules_well_formed_witness: "wf_rule parsed_read_rule"
  by (rule parsed_rules_well_formed [OF sample_rule_parses])

text \<open>
  C10: a policy that is loaded from a configuration has no rule but those that its \<open>olcAccess\<close> values
  parse to, and its check against any schema returns, with an error or without, but does not panic.
\<close>

theorem loaded_policy_sound:
  assumes "LoadOpenLDAPConfigReader E entries = Ok (policy, result)"
  shows "(\<forall>rule\<in>rules_of policy. source_value E entries rule \<and> wf_rule rule) \<and> Validate E policy schema \<noteq> Panic"
proof -
  have source: "source_value E entries rule" if "rule \<in> rules_of policy" for rule
    using loaded_rules [OF assms that] .
  moreover have "wf_rule rule" if "rule \<in> rules_of policy" for rule
    using source [OF that] ParseRule_wf by (auto simp: source_value_def)
  ultimately show ?thesis using Validate_no_panic by blast
qed

theorem loaded_policy_sound_witness:
  "\<exists>policy result. LoadOpenLDAPConfigReader sample_acl_env [config_sample] = Ok (policy, result) \<and>
     rules_of policy = {parsed_read_rule} \<and> source_value sample_acl_env [config_sample] parsed_read_rule"
proof -
  let ?p = "\<lparr>p_global = [parsed_read_rule], p_databases = []\<rparr>"
  have built: "newPolicy sample_acl_env [parsed_read_rule] fmempty fmempty = Ok ?p"
    by (simp add: newPolicy_def SortRules_def sample_acl_env_def sorted_list_of_fset.rep_eq sortDatabases_def)
  have load: "LoadOpenLDAPConfigReader sample_acl_env [config_sample] = Ok (?p, \<lparr>lr_RuleSets = 1, lr_Rules = 1\<rparr>)"
    using built by (simp add: LoadOpenLDAPConfigReader_def config_sample_entry collect_sets_def load_result_def List.map_filter_def)
  have "rules_of ?p = {parsed_read_rule}" by (simp add: rules_of_def)
  with loaded_policy_sound [OF load, of None] load show ?thesis by blast
qed

end
