(* ===== verification/Spec2Isabelle.thy ===== *)
theory Spec2Isabelle
  imports DN_Scope Directory_Filter Scheduler_Spec LLoad_Wire_Facts Schema_Description_Facts Schema_Value_Facts Index_Invariant Candidate_Decoder ACL_Set_Facts ACI_Facts ACL_Loading
begin

text \<open>
  Verification of the core of ldap-go, an LDAP directory server in Go.

  \<^bold>\<open>The program.\<close> A request names an entry by a distinguished name; the name is parsed and turned
  into an identity key (\<open>src/internal/directory/dn*.go\<close>) which orders, compares and stores names.
  Entries hold attributes with byte values and remember which of them are already in normal form
  (\<open>entry.go\<close>, \<open>entry_normalization.go\<close>); search filters are evaluated on entries with three
  truth values (\<open>filter.go\<close>). The storage layer writes entries in a binary format and reads them
  back (\<open>src/internal/storage/entry_codec.go\<close> and its siblings); the memory engine keeps the entries
  and, beside them, the postings of the configured indexes (\<open>memory.go\<close>, \<open>storage.go\<close>, \<open>index.go\<close>,
  \<open>index_memory.go\<close>), from which it finds the candidates of a filter. Every access is decided by a
  policy of OpenLDAP rules (\<open>src/internal/acl\<close>), which may refer to access control values in the
  entries (\<open>src/internal/aci\<close>). The schema (\<open>src/internal/schema\<close>) is read from the texts of its
  definitions, and some syntaxes give values a structure that is compared or normalised. In front of several servers a
  load balancer chooses a backend connection for each operation and bounds the operations in
  flight (\<open>src/internal/lloadd/scheduler.go\<close>); it forwards messages whose BER framing it reads and
  rewrites itself (\<open>wire.go\<close>).

  \<^bold>\<open>Conventions.\<close> A Go string or byte slice is a \<^typ>\<open>char list\<close>. A function that returns an error
  or may panic has the result type \<open>go\<close> of \<open>Go_Prelude\<close>, with the constructors \<open>Ok\<close>, \<open>Err\<close> and
  \<open>Panic\<close>; every early return is a branch. Where a property says that code does not panic (the set
  parser, the framing of messages, the stored fields and the decoder of candidate rows, identity
  keys), each index and each slice of the source is \<open>go_index\<close> or \<open>go_slice\<close>, which panic out of range,
  and each of its tests stands where the source has it; elsewhere an index that its own test
  guards is written as the access it is. Errors are values of
  datatypes that follow the messages of the source. Machine integers are words where they wrap, and
  mathematical integers where the source bounds them by slice lengths. Loops are structural or
  well-founded recursions, so these functions are total. The parser of set expressions is a partial
  function into \<open>option\<close>, whose \<open>None\<close> is a call that does not return; it is shown to return on
  every input.

  \<^bold>\<open>Parameters.\<close> The parser and printer of go-ldap, the Unicode tables, the JSON decoder, the clock
  and the random source are arguments of the definitions (records \<open>ldap_lib\<close>, \<open>unicode\<close>, \<open>env\<close>,
  \<open>store_env\<close>, \<open>acl_env\<close>), as are regular expressions, URLs, addresses and the order in which a range
  loop visits a map;
  what a theorem needs of them is a named hypothesis that its witness discharges for a concrete
  instance.

  \<^bold>\<open>Theories.\<close>
  \<^item> \<open>Go_Prelude\<close>, \<open>Go_Encoding\<close>, \<open>Go_Strings\<close>, \<open>Go_Hash\<close>: results, lists, words; base64, hex, UTF-8
    and varints; the string functions of the standard library; big-endian integers and SHA-256.
  \<^item> \<open>DN_Syntax\<close>: the syntax checks on raw names, escaping and the simple-RDN matcher.
  \<^item> \<open>DN_Identity\<close>: length-prefixed identity framing, keys and hierarchy paths. Shown: round trip,
    injectivity, decoding never panics, and subtree as a prefix of paths.
  \<^item> \<open>Distinguished_Name\<close>: parsed names, normalisation, composition, renaming and relations. Shown:
    well-formedness is kept, names form a forest, renaming moves a subtree.
  \<^item> \<open>DN_Scope\<close>: validation of stored keys and search scopes, slow and fast versions. Shown: the
    fused byte version agrees with the string version, keys give the scope of the names.
  \<^item> \<open>Directory_Entry\<close>: entries and every modification. Shown: the invariant of entries, and what
    each modification does on every branch.
  \<^item> \<open>Directory_Filter\<close>: filters. Shown: evaluation is Kleene's three-valued logic.
  \<^item> \<open>Scheduler\<close> and \<open>Scheduler_Spec\<close>: the load balancer's scheduler, its abstract specification,
    the simulation between them, and the invariants of the states it reaches.
  \<^item> \<open>LLoad_BER\<close> and \<open>LLoad_Wire\<close>: the load balancer's BER elements and the messages it takes from a
    connection, rewrites and makes. \<open>LLoad_Wire_Facts\<close>: a connection splits into messages in one way,
    reading never panics, and what is written (another identifier, another target, a proxied
    identity, a response) parses to the frame it should.
  \<^item> \<open>Schema_Description\<close>, \<open>Schema_Description_Facts\<close>: the definitions of a schema and their texts
    (\<open>src/internal/schema/types.go\<close>, \<open>parser.go\<close>, \<open>format.go\<close>, \<open>matching_rule_description.go\<close>). Shown:
    what the formatter writes the parser reads back, for each of the six kinds, what a parsed
    attribute type looks like, and which values the text cannot carry.
  \<^item> \<open>Schema_Values\<close>, \<open>Schema_Value_Facts\<close>: integers, values with an index and generalized time
    (\<open>integer.go\<close>, \<open>ordered_values.go\<close>, \<open>generalized_time.go\<close>). Shown: integers compare as integers,
    numbering keeps the order, times of the same moment have the same form.
  \<^item> \<open>Entry_Codec\<close>: the stored entry formats V1 to V3. Shown: round trip, no panic on any bytes, the
    validity check of candidate rows is exact. \<open>Candidate_Decoder\<close>: the decoder that is reused from
    row to row (\<open>index_readonly_candidates.go\<close>), with the arenas it keeps and the slices it hands out as
    windows into them. Shown: whatever rows it has decoded before, its row is the decoder's.
  \<^item> \<open>Search_Index\<close>, \<open>Index_Planner\<close>: index configurations, the terms of an entry, posting keys, and
    the plan of a filter. Shown: posting keys round trip, and the terms of two entries are compared
    exactly.
  \<^item> \<open>Memory_Store\<close>, \<open>Memory_Index\<close>: the memory engine and its transactions, with indexed writes.
    \<open>Store_Invariants\<close>: in every store that committed transactions reach, each entry is readable, the
    partition counts are exact, and what is put is what is read. \<open>Index_Invariant\<close>: the postings are
    exactly the terms of the entries, and the candidates of a filter miss no entry that matches it;
    the contract between engine and planner is the locale \<open>index_provider\<close>.
  \<^item> \<open>ACL_Model\<close>, \<open>ACL_Sets\<close>, \<open>ACI_Value\<close>, \<open>ACL_Policy\<close>, \<open>ACL_Parser\<close>: the data of access rules and the
    matching of targets (\<open>types.go\<close>, \<open>expansion.go\<close>, \<open>policy.go\<close>), set expressions (\<open>set.go\<close>), access
    control values (\<open>aci.go\<close> of both packages), connections, groups and the decision itself
    (\<open>connection.go\<close>, \<open>group.go\<close>, \<open>policy.go\<close>, \<open>value_batch.go\<close>), and the reading of rules and of a whole
    configuration (\<open>parser.go\<close>, \<open>openldap.go\<close>). \<open>ACL_Decision\<close>: every allowed access was granted by
    clauses for the subject and decided by one that stops; decisions are shared between values
    where the program shares them; the deepest database decides. \<open>ACL_Set_Facts\<close>: the set parser ends,
    and the chase of an attribute is a least closed set. \<open>ACI_Facts\<close>: order and round trip of access
    control values. \<open>ACL_Loading\<close>: rules that parse are well formed, and a loaded policy has no other.

  \<^bold>\<open>Not modelled.\<close> The protocol server and its overlays, the schema registry with its
  matching rules and the validation of entries, the bbolt engine and the partition decorators, authentication, LDIF and the command line. Outside \<open>Candidate_Decoder\<close>, aliasing of
  slices is not modelled either: slices are values. Each method of the scheduler holds its mutex for its whole body, so it
  is one step, and interleavings are sequences of steps.
\<close>

end
